(* ===== verification/CPrelude.thy ===== *)
theory CPrelude
  imports Main "HOL-Library.Char_ord" "HOL-Library.Sublist" "HOL-Library.Multiset"
begin

text \<open>
  The shared vocabulary of the development: C strings as byte lists without their terminator,
  the part of the C library the sources call (\<open>ctype.h\<close>, \<open>string.h\<close>, \<open>strtol\<close>), the operating
  system as a record of its answers, and the interfaces (locales) several components share: bounded
  string appenders and comparison functions for \<open>qsort\<close>.

  A character buffer of size \<open>n\<close> is modelled by its content as a C string, so a successful write
  is one whose content is shorter than \<open>n\<close>.
\<close>

section \<open>Collections\<close>

named_theorems fits_simps \<open>when a bounded string operation succeeds and what it leaves\<close>
named_theorems ctype_simps \<open>character classes of the C locale\<close>

section \<open>Characters and C strings\<close>

abbreviation NUL :: char where "NUL \<equiv> CHR 0x00"
abbreviation DQ :: char where "DQ \<equiv> CHR 0x22"
abbreviation SQ :: char where "SQ \<equiv> CHR 0x27"
abbreviation BSL :: char where "BSL \<equiv> CHR 0x5C"
abbreviation NL :: char where "NL \<equiv> CHR 0x0A"

definition code_of :: "char \<Rightarrow> nat" where
  "code_of c = of_char c"

definition isspace :: "char \<Rightarrow> bool" where
  "isspace c \<longleftrightarrow> c = CHR '' '' \<or> c = CHR 0x09 \<or> c = CHR 0x0A \<or> c = CHR 0x0B \<or>
     c = CHR 0x0C \<or> c = CHR 0x0D"

definition isdigit :: "char \<Rightarrow> bool" where
  "isdigit c \<longleftrightarrow> 48 \<le> code_of c \<and> code_of c \<le> 57"

definition isalnum :: "char \<Rightarrow> bool" where
  "isalnum c \<longleftrightarrow> isdigit c \<or> (65 \<le> code_of c \<and> code_of c \<le> 90) \<or> (97 \<le> code_of c \<and> code_of c \<le> 122)"

definition tolower :: "char \<Rightarrow> char" where
  "tolower c = (if 65 \<le> code_of c \<and> code_of c \<le> 90 then char_of (code_of c + 32) else c)"

definition c_str :: "string \<Rightarrow> string" where
  "c_str xs = takeWhile (\<lambda>c. c \<noteq> NUL) xs"

definition byte_at :: "string \<Rightarrow> nat \<Rightarrow> char" where
  "byte_at t i = (if i < length t then t ! i else NUL)"

lemma c_str_id [simp]: "NUL \<notin> set xs \<Longrightarrow> c_str xs = xs"
  by (auto simp: c_str_def takeWhile_eq_all_conv)

lemma c_str_no_nul [simp]: "NUL \<notin> set (c_str xs)"
  by (auto simp: c_str_def dest: set_takeWhileD)

lemma length_c_str [simp]: "length (c_str xs) \<le> length xs"
  by (simp add: c_str_def length_takeWhile_le)

lemma byte_at_drop: "drop p t = c # r \<Longrightarrow> byte_at t p = c"
  by (metis byte_at_def drop_eq_Nil hd_drop_conv_nth leI list.discI list.sel(1))

lemma tolower_code:
  "code_of (tolower c) = (if 65 \<le> code_of c \<and> code_of c \<le> 90 then code_of c + 32 else code_of c)"
  by (simp add: tolower_def code_of_def of_char_of take_bit_eq_mod)

lemma code_of_inject [simp]: "code_of a = code_of b \<longleftrightarrow> a = b"
  by (simp add: code_of_def)

lemma tolower_idem [simp]: "tolower (tolower c) = tolower c"
proof -
  have "code_of (tolower (tolower c)) = code_of (tolower c)"
    by (simp add: tolower_code)
  then show ?thesis by simp
qed

lemmas ctype_eval [ctype_simps] =
  tolower_def code_of_def isspace_def isdigit_def isalnum_def char_of_def bit_0

section \<open>The C string functions\<close>

fun strcmp :: "string \<Rightarrow> string \<Rightarrow> int" where
  "strcmp [] [] = 0"
| "strcmp [] (b # bs) = - int (code_of b)"
| "strcmp (a # as) [] = int (code_of a)"
| "strcmp (a # as) (b # bs) = (if a = b then strcmp as bs else int (code_of a) - int (code_of b))"

definition lower_string :: "string \<Rightarrow> string" where
  "lower_string s = map tolower s"

definition strcasecmp :: "string \<Rightarrow> string \<Rightarrow> int" where
  "strcasecmp a b = strcmp (lower_string a) (lower_string b)"

definition strncmp_eq :: "string \<Rightarrow> string \<Rightarrow> nat \<Rightarrow> bool" where
  "strncmp_eq a b n \<longleftrightarrow> take n a = take n b"

lemma strncmp_prefix: "n = length p \<Longrightarrow> strncmp_eq e p n \<longleftrightarrow> prefix p e"
  by (auto simp: strncmp_eq_def prefix_def) (metis append_take_drop_id)

text \<open>\<open>strrchr\<close> and \<open>strchr\<close> return the index of the last or first occurrence.\<close>

fun strchr :: "string \<Rightarrow> char \<Rightarrow> nat option" where
  "strchr [] c = None"
| "strchr (x # xs) c = (if x = c then Some 0 else map_option Suc (strchr xs c))"

fun strrchr :: "string \<Rightarrow> char \<Rightarrow> nat option" where
  "strrchr [] c = None"
| "strrchr (x # xs) c =
     (case strrchr xs c of Some i \<Rightarrow> Some (Suc i) | None \<Rightarrow> if x = c then Some 0 else None)"

text \<open>\<open>strstr\<close>: the first position at which the needle starts, before the terminator.\<close>

fun strstr :: "string \<Rightarrow> string \<Rightarrow> nat option" where
  "strstr [] pat = (if pat = [] then Some 0 else None)"
| "strstr (c # cs) pat =
     (if prefix pat (c # cs) then Some 0
      else if c = NUL then None
      else map_option Suc (strstr cs pat))"

definition contains_str :: "string \<Rightarrow> string \<Rightarrow> bool" where
  "contains_str hay pat \<longleftrightarrow> strstr hay pat \<noteq> None"

lemma strchr_None [simp]: "strchr xs c = None \<longleftrightarrow> c \<notin> set xs"
  by (induction xs) auto

lemma strrchr_None [simp]: "strrchr xs c = None \<longleftrightarrow> c \<notin> set xs"
  by (induction xs) (auto split: option.splits)

lemma strchr_notin [simp]: "c \<notin> set xs \<Longrightarrow> strchr xs c = None"
  by simp

lemma strrchr_notin [simp]: "c \<notin> set xs \<Longrightarrow> strrchr xs c = None"
  by simp

lemma strchr_SomeD:
  "strchr xs c = Some i \<Longrightarrow> i < length xs \<and> xs ! i = c \<and> c \<notin> set (take i xs)"
  by (induction xs arbitrary: i) (auto split: if_splits)

lemma strrchr_SomeD:
  "strrchr xs c = Some i \<Longrightarrow> i < length xs \<and> xs ! i = c \<and> c \<notin> set (drop (Suc i) xs)"
proof (induction xs arbitrary: i)
  case Nil
  then show ?case by simp
next
  case (Cons x xs)
  show ?case
  proof (cases "strrchr xs c")
    case None
    with Cons.prems have "i = 0" "x = c" "c \<notin> set xs" by (auto split: if_splits)
    then show ?thesis by simp
  next
    case (Some j)
    with Cons show ?thesis by auto
  qed
qed

lemma strcmp_refl [simp]: "strcmp a a = 0"
  by (induction a) auto

lemma strcmp_swap: "strcmp a b = - strcmp b a"
  by (induction a b rule: strcmp.induct) auto

lemma code_of_NUL [simp]: "code_of NUL = 0"
  by (simp add: code_of_def)

lemma code_of_pos: "c \<noteq> NUL \<Longrightarrow> 0 < code_of c"
  by (metis code_of_NUL code_of_inject gr0I)

lemma strcmp_zero_iff:
  "NUL \<notin> set a \<Longrightarrow> NUL \<notin> set b \<Longrightarrow> strcmp a b = 0 \<longleftrightarrow> a = b"
  by (induction a b rule: strcmp.induct) (auto intro!: code_of_pos)

lemma strcmp_trans:
  "NUL \<notin> set a \<Longrightarrow> NUL \<notin> set b \<Longrightarrow> strcmp a b \<le> 0 \<Longrightarrow> strcmp b c \<le> 0 \<Longrightarrow> strcmp a c \<le> 0"
proof (induction a b arbitrary: c rule: strcmp.induct)
  case (1 c)
  then show ?case by simp
next
  case (2 b bs c)
  then show ?case by (cases c) auto
next
  case (3 a as c)
  then show ?case using code_of_pos [of a] by auto
next
  case (4 a as b bs c)
  then show ?case by (cases c) (auto split: if_splits)
qed

lemma tolower_NUL: "tolower c = NUL \<longleftrightarrow> c = NUL"
proof
  assume "tolower c = NUL"
  then have "code_of (tolower c) = 0" by simp
  then have "code_of c = 0" by (simp add: tolower_code split: if_splits)
  then show "c = NUL" using code_of_pos [of c] by fastforce
next
  assume "c = NUL"
  then show "tolower c = NUL" by (simp add: tolower_def)
qed

lemma lower_string_no_nul: "NUL \<notin> set a \<Longrightarrow> NUL \<notin> set (lower_string a)"
  unfolding lower_string_def by (metis imageE list.set_map tolower_NUL)

lemma lower_string_idem [simp]: "lower_string (lower_string s) = lower_string s"
  by (simp add: lower_string_def o_def)

lemma length_lower_string [simp]: "length (lower_string s) = length s"
  by (simp add: lower_string_def)

lemma strstr_Some_iff:
  "NUL \<notin> set hay \<Longrightarrow> strstr hay pat \<noteq> None \<longleftrightarrow> sublist pat hay"
proof (induction hay)
  case Nil
  then show ?case by simp
next
  case (Cons c cs)
  then show ?case by (auto simp: sublist_Cons_right)
qed

lemma contains_str_iff: "NUL \<notin> set hay \<Longrightarrow> contains_str hay pat \<longleftrightarrow> sublist pat hay"
  unfolding contains_str_def by (rule strstr_Some_iff)

section \<open>Numbers in text\<close>

text \<open>
  \<open>strtol\<close> in base 10: white space, one sign, digits; the value saturates at the bounds of the
  64-bit \<open>long\<close> of the target. The position after the digits is returned as well; it is the
  start when there is no digit. \<open>atoi\<close> is the low 32 bits of \<open>strtol\<close>, read as signed.
\<close>

fun digits_value :: "int \<Rightarrow> string \<Rightarrow> int" where
  "digits_value acc [] = acc"
| "digits_value acc (c # cs) =
     (if isdigit c then digits_value (10 * acc + int (code_of c) - 48) cs else acc)"

definition LONG_MAX :: int where "LONG_MAX = 2 ^ 63 - 1"
definition LONG_MIN :: int where "LONG_MIN = - (2 ^ 63)"

definition clamp_long :: "int \<Rightarrow> int" where
  "clamp_long v = (if v < LONG_MIN then LONG_MIN else if LONG_MAX < v then LONG_MAX else v)"

record strtol_result =
  tol_value :: int
  tol_rest :: string
  tol_range :: bool

definition strtol :: "string \<Rightarrow> strtol_result" where
  "strtol s =
     (let s1 = dropWhile isspace s;
          neg = (case s1 of c # _ \<Rightarrow> c = CHR ''-'' | [] \<Rightarrow> False);
          s2 = (case s1 of c # r \<Rightarrow> if c = CHR ''-'' \<or> c = CHR ''+'' then r else s1 | [] \<Rightarrow> []);
          ds = takeWhile isdigit s2;
          v = (if neg then - digits_value 0 ds else digits_value 0 ds)
      in if ds = [] then \<lparr>tol_value = 0, tol_rest = s, tol_range = False\<rparr>
         else \<lparr>tol_value = clamp_long v, tol_rest = dropWhile isdigit s2,
               tol_range = (clamp_long v \<noteq> v)\<rparr>)"

definition atoi :: "string \<Rightarrow> int" where
  "atoi s = ((tol_value (strtol s) + 2 ^ 31) mod 2 ^ 32) - 2 ^ 31"

lemma clamp_long_bounds: "LONG_MIN \<le> clamp_long v \<and> clamp_long v \<le> LONG_MAX"
  by (simp add: clamp_long_def LONG_MIN_def LONG_MAX_def)

lemma atoi_bounds: "- (2 ^ 31) \<le> atoi s \<and> atoi s < 2 ^ 31"
  by (simp add: atoi_def)

section \<open>The operating system\<close>

text \<open>
  The answers of the operating system are a parameter of the model: a record of functions from
  path names. \<open>os_stat\<close> gives the kind and the identity (device and inode) of a path,
  \<open>os_readdir\<close> the names in a directory in the order \<open>readdir\<close> returns them, \<open>os_read\<close> the
  bytes of a file.
\<close>

datatype file_kind = Regular | Directory | OtherKind

record os =
  os_stat :: "string \<Rightarrow> (file_kind \<times> nat \<times> nat) option"
  os_readdir :: "string \<Rightarrow> string list option"
  os_read :: "string \<Rightarrow> string option"
  os_realpath :: "string \<Rightarrow> string option"
  os_getenv :: "string \<Rightarrow> string option"
  os_access_x :: "string \<Rightarrow> bool"

text \<open>
  What POSIX promises of \<open>readdir\<close>: a name is not empty and holds neither a slash nor a
  terminator.
\<close>

definition valid_entry_name :: "string \<Rightarrow> bool" where
  "valid_entry_name n \<longleftrightarrow> n \<noteq> [] \<and> CHR ''/'' \<notin> set n \<and> NUL \<notin> set n"

definition readdir_ok :: "os \<Rightarrow> bool" where
  "readdir_ok w \<longleftrightarrow> (\<forall>d ns. os_readdir w d = Some ns \<longrightarrow> (\<forall>n \<in> set ns. valid_entry_name n))"

section \<open>Return codes\<close>

text \<open>
  A routine that returns 1 and fills a buffer gives a pair of the return value and the buffer;
  \<open>ok_opt\<close> is the buffer of a call that succeeded.
\<close>

definition ok_opt :: "bool \<times> 'a \<Rightarrow> 'a option" where
  "ok_opt r = (if fst r then Some (snd r) else None)"

lemma ok_opt_pair [simp]: "ok_opt (True, x) = Some x" "ok_opt (False, x) = None"
  by (simp_all add: ok_opt_def)

lemma ok_opt_Some: "ok_opt r = Some x \<longleftrightarrow> r = (True, x)"
  by (cases r) (auto simp: ok_opt_def)

section \<open>Bounded appenders\<close>

text \<open>
  Every routine that adds text to a fixed buffer follows one contract: it succeeds exactly when
  the text and the terminator fit, and then the buffer is the old content followed by the text.
  What a failed call leaves in the buffer is not promised.
\<close>

locale appender =
  fixes app :: "nat \<Rightarrow> string \<Rightarrow> 'a \<Rightarrow> bool \<times> string"
    and ext :: "'a \<Rightarrow> string"
  assumes app_fits: "fst (app n b x) \<longleftrightarrow> length b + length (ext x) < n"
    and app_result: "fst (app n b x) \<Longrightarrow> snd (app n b x) = b @ ext x"
begin

lemma app_bound: "fst (app n b x) \<Longrightarrow> length (snd (app n b x)) < n"
  by (simp add: app_fits app_result)

lemma app_eq:
  "length b + length (ext x) < n \<Longrightarrow> app n b x = (True, b @ ext x)"
  by (metis app_fits app_result prod.collapse)

lemma app_prefix: "fst (app n b x) \<Longrightarrow> prefix b (snd (app n b x))"
  by (simp add: app_result)

lemma app_failed: "n \<le> length b + length (ext x) \<Longrightarrow> \<not> fst (app n b x)"
  by (simp add: app_fits)

end

section \<open>Comparison functions\<close>

text \<open>
  \<open>qsort\<close> needs a comparison that is antisymmetric in sign and transitive on the elements it
  sorts. The sort itself is the C library's: any rearrangement in which no later element is
  smaller than an earlier one.
\<close>

definition cmp_sorted :: "('a \<Rightarrow> 'a \<Rightarrow> int) \<Rightarrow> 'a list \<Rightarrow> bool" where
  "cmp_sorted cmp xs \<longleftrightarrow> sorted_wrt (\<lambda>a b. cmp a b \<le> 0) xs"

definition qsort_ok :: "('a \<Rightarrow> 'a \<Rightarrow> int) \<Rightarrow> ('a list \<Rightarrow> 'a list) \<Rightarrow> bool" where
  "qsort_ok cmp srt \<longleftrightarrow> (\<forall>xs. mset (srt xs) = mset xs \<and>
     (\<forall>i. Suc i < length xs \<longrightarrow> cmp (srt xs ! i) (srt xs ! Suc i) \<le> 0))"

fun insert_by :: "('a \<Rightarrow> 'a \<Rightarrow> int) \<Rightarrow> 'a \<Rightarrow> 'a list \<Rightarrow> 'a list" where
  "insert_by cmp x [] = [x]"
| "insert_by cmp x (y # ys) = (if cmp x y \<le> 0 then x # y # ys else y # insert_by cmp x ys)"

definition sort_by :: "('a \<Rightarrow> 'a \<Rightarrow> int) \<Rightarrow> 'a list \<Rightarrow> 'a list" where
  "sort_by cmp xs = foldr (insert_by cmp) xs []"

lemma mset_insert_by [simp]: "mset (insert_by cmp x ys) = add_mset x (mset ys)"
  by (induction ys) auto

lemma mset_sort_by [simp]: "mset (sort_by cmp xs) = mset xs"
  by (induction xs) (auto simp: sort_by_def)

lemma set_sort_by [simp]: "set (sort_by cmp xs) = set xs"
  by (metis mset_sort_by set_mset_mset)

lemma length_sort_by [simp]: "length (sort_by cmp xs) = length xs"
  by (metis mset_sort_by size_mset)

locale comparison =
  fixes cmp :: "'a \<Rightarrow> 'a \<Rightarrow> int"
    and dom_of :: "'a \<Rightarrow> bool"
  assumes cmp_swap: "dom_of a \<Longrightarrow> dom_of b \<Longrightarrow> cmp a b < 0 \<longleftrightarrow> 0 < cmp b a"
    and cmp_trans: "dom_of a \<Longrightarrow> dom_of b \<Longrightarrow> dom_of c \<Longrightarrow>
      cmp a b \<le> 0 \<Longrightarrow> cmp b c \<le> 0 \<Longrightarrow> cmp a c \<le> 0"
begin

lemma cmp_total: "dom_of a \<Longrightarrow> dom_of b \<Longrightarrow> cmp a b \<le> 0 \<or> cmp b a \<le> 0"
  using cmp_swap [of b a] by linarith

lemma cmp_refl: "dom_of a \<Longrightarrow> cmp a a = 0"
  using cmp_swap [of a a] by linarith

lemma adjacent_sorted:
  assumes "\<forall>x \<in> set xs. dom_of x"
    and "\<And>i. Suc i < length xs \<Longrightarrow> cmp (xs ! i) (xs ! Suc i) \<le> 0"
  shows "cmp_sorted cmp xs"
  using assms
proof (induction xs)
  case Nil
  then show ?case by (simp add: cmp_sorted_def)
next
  case (Cons x xs)
  have tail: "cmp_sorted cmp xs"
  proof (rule Cons.IH)
    show "\<forall>y \<in> set xs. dom_of y" using Cons.prems(1) by simp
    show "cmp (xs ! i) (xs ! Suc i) \<le> 0" if "Suc i < length xs" for i
      using Cons.prems(2) [of "Suc i"] that by simp
  qed
  have "cmp x y \<le> 0" if "y \<in> set xs" for y
  proof (cases xs)
    case Nil
    with that show ?thesis by simp
  next
    case (Cons z zs)
    have "cmp x z \<le> 0" using Cons.prems(2) [of 0] Cons by simp
    moreover have "cmp z y \<le> 0"
      using tail Cons that Cons.prems(1) cmp_refl by (auto simp: cmp_sorted_def)
    ultimately show ?thesis
      using cmp_trans [of x z y] Cons.prems(1) that Cons by auto
  qed
  with tail show ?case by (simp add: cmp_sorted_def)
qed

lemma qsort_sorted:
  assumes "qsort_ok cmp srt" and "\<forall>x \<in> set xs. dom_of x"
  shows "cmp_sorted cmp (srt xs) \<and> mset (srt xs) = mset xs"
proof -
  from assms(1) have m: "mset (srt xs) = mset xs" by (simp add: qsort_ok_def)
  then have "set (srt xs) = set xs" and len: "length (srt xs) = length xs"
    by (metis set_mset_mset, metis size_mset)
  with assms m show ?thesis
    by (intro conjI adjacent_sorted) (auto simp: qsort_ok_def len)
qed

lemma insert_by_sorted:
  "\<forall>y \<in> set ys. dom_of y \<Longrightarrow> dom_of x \<Longrightarrow> cmp_sorted cmp ys \<Longrightarrow> cmp_sorted cmp (insert_by cmp x ys)"
proof (induction ys)
  case Nil
  then show ?case by (simp add: cmp_sorted_def)
next
  case (Cons y ys)
  have s: "set (insert_by cmp x ys) = insert x (set ys)"
    by (metis mset_insert_by set_mset_add_mset_insert set_mset_mset)
  show ?case
  proof (cases "cmp x y \<le> 0")
    case True
    have "cmp x z \<le> 0" if "z \<in> set ys" for z
      using cmp_trans [of x y z] True Cons.prems that by (simp add: cmp_sorted_def)
    with True Cons.prems show ?thesis by (simp add: cmp_sorted_def)
  next
    case False
    then have "cmp y x \<le> 0" using cmp_total [of x y] Cons.prems by simp
    with False Cons show ?thesis by (auto simp: cmp_sorted_def s)
  qed
qed

lemma sort_by_sorted:
  assumes "\<forall>x \<in> set xs. dom_of x"
  shows "cmp_sorted cmp (sort_by cmp xs)"
  using assms
proof (induction xs)
  case Nil
  then show ?case by (simp add: sort_by_def cmp_sorted_def)
next
  case (Cons x xs)
  have "set (sort_by cmp xs) = set xs" by simp
  with Cons show ?case
    by (simp add: sort_by_def insert_by_sorted)
qed

end

end
