(* ===== verification/PathLib.thy ===== *)
theory PathLib
  imports CPrelude
begin

text \<open>
  The path and string helpers of \<open>src/frontend/plumos_path.h\<close>: bounded copies and appends, joining
  and splitting of paths, and the lookup of a file whose last component may differ in case. The
  text UI has its own copies of the first ones, with the same bodies.
\<close>

section \<open>Bounded copies\<close>

definition PATH_MAX :: nat where "PATH_MAX = 4096"

text \<open>The result is the return value and the content of \<open>out\<close> afterwards.\<close>

definition copy_string :: "nat \<Rightarrow> string \<Rightarrow> bool \<times> string" where
  "copy_string n s =
     (if n = 0 then (False, [])
      else if length s + 1 > n then (False, [])
      else (True, s))"

definition append_string :: "nat \<Rightarrow> string \<Rightarrow> string \<Rightarrow> bool \<times> string" where
  "append_string n b s = (if length b + length s + 1 > n then (False, b) else (True, b @ s))"

text \<open>A field filled by a \<open>copy_string\<close> whose return value the code drops.\<close>

abbreviation stored :: "nat \<Rightarrow> string \<Rightarrow> string" where
  "stored n s \<equiv> snd (copy_string n s)"

lemma copy_string_fst [fits_simps]: "fst (copy_string n s) \<longleftrightarrow> length s < n"
  by (auto simp: copy_string_def)

lemma copy_string_True [fits_simps]: "copy_string n s = (True, r) \<longleftrightarrow> length s < n \<and> r = s"
  by (auto simp: copy_string_def)

lemma ok_opt_copy_string [fits_simps]:
  "ok_opt (copy_string n s) = (if length s < n then Some s else None)"
  by (simp add: copy_string_def)

lemma stored_eq [fits_simps]: "stored n s = (if length s < n then s else [])"
  by (simp add: copy_string_def)

lemma length_stored: "0 < n \<Longrightarrow> length (stored n s) < n"
  by (simp add: stored_eq)

lemma stored_idem [simp]: "stored n (stored n s) = stored n s"
  by (simp add: stored_eq)

lemma stored_no_nul: "NUL \<notin> set s \<Longrightarrow> NUL \<notin> set (stored n s)"
  by (simp add: stored_eq)

lemma append_string_fst [fits_simps]: "fst (append_string n b s) \<longleftrightarrow> length b + length s < n"
  by (auto simp: append_string_def)

lemma append_string_True [fits_simps]:
  "append_string n b s = (True, r) \<longleftrightarrow> length b + length s < n \<and> r = b @ s"
  by (auto simp: append_string_def)

interpretation app_str: appender append_string "\<lambda>s. s"
  by unfold_locales (auto simp: append_string_def split: if_splits)

section \<open>Splitting and joining paths\<close>

definition path_parent :: "nat \<Rightarrow> string \<Rightarrow> bool \<times> string" where
  "path_parent n path =
     (if path = [] then copy_string n ''.''
      else case strrchr path CHR ''/'' of
        None \<Rightarrow> copy_string n ''.''
      | Some i \<Rightarrow>
          if i = 0 then copy_string n ''/''
          else if i + 1 > n then (False, [])
          else (True, take i path))"

definition path_basename :: "string \<Rightarrow> string" where
  "path_basename path =
     (case strrchr path CHR ''/'' of Some i \<Rightarrow> drop (Suc i) path | None \<Rightarrow> path)"

definition join_path :: "nat \<Rightarrow> string \<Rightarrow> string \<Rightarrow> bool \<times> string" where
  "join_path n a b =
     (if n = 0 then (False, [])
      else if b \<noteq> [] \<and> hd b = CHR ''/'' then copy_string n b
      else if length a + (if a \<noteq> [] \<and> last a \<noteq> CHR ''/'' then 1 else 0) + length b + 1 > n
        then (False, [])
      else
        let (ok1, o1) = append_string n [] a in
        if \<not> ok1 then (False, o1)
        else
          let (ok2, o2) = (if o1 \<noteq> [] \<and> last o1 \<noteq> CHR ''/'' then append_string n o1 ''/''
                           else (True, o1)) in
          if \<not> ok2 then (False, o2) else append_string n o2 b)"

definition build_stem_ext_name :: "nat \<Rightarrow> string \<Rightarrow> string \<Rightarrow> bool \<times> string" where
  "build_stem_ext_name n stem ext =
     (if length stem + 1 + length ext + 1 > n then (False, [])
      else (True, stem @ ''.'' @ ext))"

text \<open>The join as a function of the two parts alone, with no buffer.\<close>

definition path_join :: "string \<Rightarrow> string \<Rightarrow> string" where
  "path_join a b =
     (if b \<noteq> [] \<and> hd b = CHR ''/'' then b
      else if a \<noteq> [] \<and> last a \<noteq> CHR ''/'' then a @ ''/'' @ b
      else a @ b)"

lemma join_path_eq [fits_simps]:
  "join_path n a b =
     (if length (path_join a b) < n then (True, path_join a b) else (False, []))"
  by (auto simp: join_path_def path_join_def copy_string_def append_string_def Let_def)

lemma ok_opt_join_path [fits_simps]:
  "ok_opt (join_path n a b) = (if length (path_join a b) < n then Some (path_join a b) else None)"
  by (simp add: join_path_eq)

lemma ok_opt_build_stem_ext_name [fits_simps]:
  "ok_opt (build_stem_ext_name n stem ext) =
     (if length stem + length ext + 1 < n then Some (stem @ ''.'' @ ext) else None)"
  by (simp add: build_stem_ext_name_def)

lemma build_stem_ext_name_True [fits_simps]:
  "build_stem_ext_name n stem ext = (True, r) \<longleftrightarrow>
     length stem + length ext + 1 < n \<and> r = stem @ ''.'' @ ext"
  by (auto simp: build_stem_ext_name_def)

lemma path_basename_join:
  assumes "CHR ''/'' \<notin> set b" and "b \<noteq> []"
  shows "path_basename (path_join a b) = b"
proof -
  have split: "strrchr (xs @ CHR ''/'' # b) CHR ''/'' = Some (length xs)" for xs
  proof (induction xs)
    case Nil
    show ?case using assms(1) by simp
  qed simp
  have hd: "hd b \<noteq> CHR ''/''" using assms by (cases b) auto
  show ?thesis
  proof (cases "a \<noteq> [] \<and> last a \<noteq> CHR ''/''")
    case True
    with hd show ?thesis
      using split [of a] by (simp add: path_join_def path_basename_def)
  next
    case False
    show ?thesis
    proof (cases "a = []")
      case True
      then show ?thesis using hd assms(1) by (simp add: path_join_def path_basename_def)
    next
      case ne: False
      with False have "a = butlast a @ [CHR ''/'']" by (metis append_butlast_last_id)
      with hd ne False have "path_join a b = butlast a @ CHR ''/'' # b"
        by (auto simp: path_join_def)
      then show ?thesis using split [of "butlast a"] by (simp add: path_basename_def)
    qed
  qed
qed

lemma path_parent_basename:
  assumes "path_parent n path = (True, d)" and "CHR ''/'' \<in> set path"
  obtains i where "path = take i path @ ''/'' @ path_basename path"
    and "d = (if i = 0 then ''/'' else take i path)"
proof -
  from assms(2) obtain i where i: "strrchr path CHR ''/'' = Some i" by fastforce
  then have len: "i < length path" "path ! i = CHR ''/''" by (auto dest: strrchr_SomeD)
  then have "path = take i path @ ''/'' @ drop (Suc i) path"
    by (metis append_Cons append_Nil id_take_nth_drop)
  moreover have "path_basename path = drop (Suc i) path" using i by (simp add: path_basename_def)
  moreover have "d = (if i = 0 then ''/'' else take i path)"
    using assms i by (auto simp: path_parent_def copy_string_def split: if_splits)
  ultimately show ?thesis using that by simp
qed

section \<open>File tests and the lookup that ignores case\<close>

definition is_regular_file :: "os \<Rightarrow> string \<Rightarrow> bool" where
  "is_regular_file w path = (case os_stat w path of Some (k, _) \<Rightarrow> k = Regular | None \<Rightarrow> False)"

definition is_directory :: "os \<Rightarrow> string \<Rightarrow> bool" where
  "is_directory w path = (case os_stat w path of Some (k, _) \<Rightarrow> k = Directory | None \<Rightarrow> False)"

fun ascii_equal_ci :: "string \<Rightarrow> string \<Rightarrow> bool" where
  "ascii_equal_ci (a # as) (b # bs) = (tolower a = tolower b \<and> ascii_equal_ci as bs)"
| "ascii_equal_ci as bs = (as = [] \<and> bs = [])"

definition ignored_sidecar_name :: "string \<Rightarrow> bool" where
  "ignored_sidecar_name name \<longleftrightarrow>
     name = [] \<or> strncmp_eq name ''._'' 2 \<or>
     name = ''.DS_Store'' \<or> name = ''Thumbs.db'' \<or> name = ''desktop.ini'' \<or> name = ''__MACOSX''"

lemma ascii_equal_ci_iff [simp]: "ascii_equal_ci a b \<longleftrightarrow> lower_string a = lower_string b"
  by (induction a b rule: ascii_equal_ci.induct) (auto simp: lower_string_def)

text \<open>The \<open>readdir\<close> loop: the first regular file whose name matches ends the search.\<close>

fun find_ci_loop :: "os \<Rightarrow> nat \<Rightarrow> string \<Rightarrow> string \<Rightarrow> string list \<Rightarrow> string option" where
  "find_ci_loop w n dir_path base_name [] = None"
| "find_ci_loop w n dir_path base_name (d_name # ents) =
     (if ignored_sidecar_name d_name then find_ci_loop w n dir_path base_name ents
      else if \<not> ascii_equal_ci d_name base_name then find_ci_loop w n dir_path base_name ents
      else case ok_opt (join_path PATH_MAX dir_path d_name) of
        None \<Rightarrow> find_ci_loop w n dir_path base_name ents
      | Some found \<Rightarrow>
          if is_regular_file w found
          then ok_opt (copy_string n found)
          else find_ci_loop w n dir_path base_name ents)"

definition find_case_insensitive_file :: "os \<Rightarrow> nat \<Rightarrow> string \<Rightarrow> string option" where
  "find_case_insensitive_file w n candidate =
     (if is_regular_file w candidate
      then ok_opt (copy_string n candidate)
      else case ok_opt (path_parent PATH_MAX candidate) of
        None \<Rightarrow> None
      | Some dir_path \<Rightarrow>
          (case os_readdir w dir_path of
             None \<Rightarrow> None
           | Some ents \<Rightarrow> find_ci_loop w n dir_path (path_basename candidate) ents))"

lemma find_ci_loop_SomeD:
  "find_ci_loop w n d b ents = Some r \<Longrightarrow>
     \<exists>name \<in> set ents. \<not> ignored_sidecar_name name \<and> lower_string name = lower_string b \<and>
       r = path_join d name \<and> is_regular_file w r \<and> length r < n"
  by (induction ents) (auto simp: fits_simps split: if_splits)

lemma find_ci_loop_complete:
  "name \<in> set ents \<Longrightarrow> \<not> ignored_sidecar_name name \<Longrightarrow> lower_string name = lower_string b \<Longrightarrow>
   length (path_join d name) < PATH_MAX \<Longrightarrow> is_regular_file w (path_join d name) \<Longrightarrow>
   PATH_MAX \<le> n \<Longrightarrow> find_ci_loop w n d b ents \<noteq> None"
  by (induction ents) (auto simp: fits_simps)

section \<open>Properties\<close>

text \<open>
  \<open>join_path\<close> never writes past its buffer and fails exactly when the joined path does not
  fit; when it succeeds the result is the second part alone if that is absolute, and otherwise the
  two parts with exactly one slash put between them where the first has none.
\<close>

theorem join_path_spec:
  "join_path n a b =
     (if length (path_join a b) < n then (True, path_join a b) else (False, [])) \<and>
   length (snd (join_path n a b)) \<le> n"
  by (simp add: join_path_eq)

text \<open>
  The file lookup that ignores case is sound. What it returns is an existing regular file that
  fits the caller's buffer; it is either the candidate itself or an entry of the candidate's own
  directory, never a sidecar file, whose name equals the candidate's last component up to ASCII
  case, so the directory part is never relaxed; and an exact match always wins.
\<close>

theorem find_case_insensitive_file_sound:
  assumes "readdir_ok w" and "find_case_insensitive_file w n c = Some r"
  shows "is_regular_file w r \<and> length r < n \<and>
    lower_string (path_basename r) = lower_string (path_basename c) \<and>
    (is_regular_file w c \<longrightarrow> r = c) \<and>
    (r \<noteq> c \<longrightarrow> (\<exists>d ents name. path_parent PATH_MAX c = (True, d) \<and> os_readdir w d = Some ents \<and>
       name \<in> set ents \<and> \<not> ignored_sidecar_name name \<and> r = path_join d name))"
proof (cases "is_regular_file w c")
  case True
  with assms(2) show ?thesis
    by (simp add: find_case_insensitive_file_def fits_simps split: if_splits)
next
  case False
  with assms(2) obtain d ents where d: "path_parent PATH_MAX c = (True, d)"
    and ents: "os_readdir w d = Some ents"
    and loop: "find_ci_loop w n d (path_basename c) ents = Some r"
    by (auto simp: find_case_insensitive_file_def ok_opt_Some split: option.splits)
  from find_ci_loop_SomeD [OF loop] obtain name where name: "name \<in> set ents"
      "\<not> ignored_sidecar_name name" "lower_string name = lower_string (path_basename c)"
      "r = path_join d name" "is_regular_file w r" "length r < n"
    by blast
  from assms(1) ents name(1) have "valid_entry_name name" by (simp add: readdir_ok_def)
  then have "path_basename r = name"
    using path_basename_join [of name d] name(4) by (simp add: valid_entry_name_def)
  with False d ents name show ?thesis by auto
qed

definition demo_os :: os where
  "demo_os = \<lparr>os_stat = (\<lambda>p. if p = ''/a/B.PNG'' then Some (Regular, 1, 7)
                          else if p = ''/a'' then Some (Directory, 1, 2) else None),
     os_readdir = (\<lambda>d. if d = ''/a'' then Some [''.'', ''._b.png'', ''B.PNG''] else None),
     os_read = (\<lambda>_. None), os_realpath = (\<lambda>p. Some p), os_getenv = (\<lambda>_. None),
     os_access_x = (\<lambda>_. False)\<rparr>"

lemma demo_os_readdir_ok: "readdir_ok demo_os"
  by (auto simp: readdir_ok_def demo_os_def valid_entry_name_def split: if_splits)

theorem find_case_insensitive_file_sound_witness:
  "find_case_insensitive_file demo_os 64 ''/a/b.png'' = Some ''/a/B.PNG'' \<and>
   is_regular_file demo_os ''/a/B.PNG''"
proof -
  have r: "find_case_insensitive_file demo_os 64 ''/a/b.png'' = Some ''/a/B.PNG''"
    by (simp add: find_case_insensitive_file_def is_regular_file_def demo_os_def path_parent_def
        path_basename_def ignored_sidecar_name_def strncmp_eq_def lower_string_def ctype_simps fits_simps path_join_def PATH_MAX_def)
  from find_case_insensitive_file_sound [OF demo_os_readdir_ok r] r show ?thesis by simp
qed

text \<open>
  The lookup is complete. If the candidate's directory holds a regular file that is not a
  sidecar and whose name equals the candidate's up to ASCII case, and its path fits the buffers,
  then some file is found.
\<close>

theorem find_case_insensitive_file_complete:
  assumes "path_parent PATH_MAX c = (True, d)" and "os_readdir w d = Some ents"
    and "name \<in> set ents" and "\<not> ignored_sidecar_name name"
    and "lower_string name = lower_string (path_basename c)"
    and "is_regular_file w (path_join d name)" and "length (path_join d name) < PATH_MAX"
    and "length c < PATH_MAX" and "PATH_MAX \<le> n"
  shows "\<exists>r. find_case_insensitive_file w n c = Some r"
  using assms find_ci_loop_complete [of name ents "path_basename c" d w n]
  by (auto simp: find_case_insensitive_file_def fits_simps)

theorem find_case_insensitive_file_complete_witness:
  "\<exists>r. find_case_insensitive_file demo_os PATH_MAX ''/a/b.png'' = Some r"
proof (rule find_case_insensitive_file_complete)
  show "path_parent PATH_MAX ''/a/b.png'' = (True, ''/a'')"
    by (simp add: path_parent_def PATH_MAX_def)
  show "os_readdir demo_os ''/a'' = Some [''.'', ''._b.png'', ''B.PNG'']"
    by (simp add: demo_os_def)
  show "''B.PNG'' \<in> set [''.'', ''._b.png'', ''B.PNG'']" by simp
  show "\<not> ignored_sidecar_name ''B.PNG''"
    by (simp add: ignored_sidecar_name_def strncmp_eq_def)
  show "lower_string ''B.PNG'' = lower_string (path_basename ''/a/b.png'')"
    by (simp add: lower_string_def path_basename_def ctype_simps)
  show "is_regular_file demo_os (path_join ''/a'' ''B.PNG'')"
    by (simp add: is_regular_file_def demo_os_def path_join_def)
qed (simp_all add: path_join_def PATH_MAX_def)

end
