(* ===== verification/JsonLib.thy ===== *)
theory JsonLib
  imports PathLib
begin

text \<open>
  The JSON reader of \<open>src/frontend/plumos_json.h\<close> and the string writer of
  \<open>src/frontend/plumos_library_scan.c\<close>. A pointer into the text is an index; reading at the length of
  the text gives the terminator the file readers put there. The reader is textual: a key is found
  as the first quoted occurrence followed by a colon, and nothing is parsed twice.
\<close>

section \<open>The reader\<close>

function skip_ws_range :: "string \<Rightarrow> nat \<Rightarrow> nat \<Rightarrow> nat" where
  "skip_ws_range t p e =
     (if p < e \<and> isspace (byte_at t p) then skip_ws_range t (p + 1) e else p)"
  by pat_completeness auto
termination by (relation "measure (\<lambda>(t, p, e). e - p)") auto

declare skip_ws_range.simps [simp del]

definition json_unescape :: "char \<Rightarrow> char" where
  "json_unescape c =
     (if c = CHR ''b'' then CHR 0x08
      else if c = CHR ''f'' then CHR 0x0C
      else if c = CHR ''n'' then CHR 0x0A
      else if c = CHR ''r'' then CHR 0x0D
      else if c = CHR ''t'' then CHR 0x09
      else c)"

function json_decode_loop :: "string \<Rightarrow> nat \<Rightarrow> nat \<Rightarrow> nat \<Rightarrow> string \<Rightarrow> nat \<times> string" where
  "json_decode_loop t e cap p out =
     (if p < e \<and> byte_at t p \<noteq> DQ then
        let esc = (byte_at t p = BSL \<and> p + 1 < e);
            c = (if esc then json_unescape (byte_at t (p + 1)) else byte_at t p)
        in json_decode_loop t e cap (if esc then p + 2 else p + 1)
             (if length out + 1 < cap then out @ [c] else out)
      else (p, out))"
  by pat_completeness auto
termination by (relation "measure (\<lambda>(t, e, cap, p, out). e - p)") auto

declare json_decode_loop.simps [simp del]

text \<open>
  The result is the return value, the cursor afterwards and the content of \<open>out\<close>: a text that
  does not start with a quote leaves \<open>out\<close> as it was, an unterminated string clears it.
\<close>

definition json_decode_string ::
    "string \<Rightarrow> nat \<Rightarrow> nat \<Rightarrow> nat \<Rightarrow> string \<Rightarrow> bool \<times> nat \<times> string" where
  "json_decode_string t e cap p old =
     (if e \<le> p \<or> byte_at t p \<noteq> DQ \<or> cap = 0 then (False, p, old)
      else let (q, out) = json_decode_loop t e cap (p + 1) []
           in if e \<le> q \<or> byte_at t q \<noteq> DQ then (False, p, [])
              else (True, q + 1, c_str out))"

definition key_pattern :: "string \<Rightarrow> string" where
  "key_pattern key = take 127 (DQ # key @ [DQ])"

function find_key_loop :: "string \<Rightarrow> nat \<Rightarrow> nat \<Rightarrow> string \<Rightarrow> nat option" where
  "find_key_loop t p e pat =
     (if p < e then
        (case strstr (drop p t) pat of
           None \<Rightarrow> None
         | Some d \<Rightarrow>
             if p + d < e then
               let q = skip_ws_range t (p + d + length pat) e
               in if q < e \<and> byte_at t q = CHR '':''
                  then Some (skip_ws_range t (q + 1) e)
                  else find_key_loop t (p + d + 1) e pat
             else None)
      else None)"
  by pat_completeness auto
termination by (relation "measure (\<lambda>(t, p, e, pat). e - p)") auto

declare find_key_loop.simps [simp del]

definition json_find_key_value :: "string \<Rightarrow> nat \<Rightarrow> nat \<Rightarrow> string \<Rightarrow> nat option" where
  "json_find_key_value t p e key = find_key_loop t p e (key_pattern key)"

text \<open>
  The bracket matcher: \<open>depth\<close>, the two flags and the start of the body are the loop's variables;
  the result is the start and the end of the body and the position after the closing bracket.
\<close>

function match_loop ::
    "string \<Rightarrow> nat \<Rightarrow> char \<Rightarrow> char \<Rightarrow> nat \<Rightarrow> int \<Rightarrow> bool \<Rightarrow> bool \<Rightarrow> nat \<Rightarrow> (nat \<times> nat \<times> nat) option" where
  "match_loop t e open_ch close_ch p depth in_string escape body =
     (if p < e then
        if escape then match_loop t e open_ch close_ch (p + 1) depth in_string False body
        else if in_string \<and> byte_at t p = BSL
          then match_loop t e open_ch close_ch (p + 1) depth in_string True body
        else if byte_at t p = DQ
          then match_loop t e open_ch close_ch (p + 1) depth (\<not> in_string) False body
        else if \<not> in_string \<and> byte_at t p = open_ch
          then match_loop t e open_ch close_ch (p + 1) (depth + 1) in_string False
                 (if depth = 0 then p + 1 else body)
        else if \<not> in_string \<and> byte_at t p = close_ch
          then (if depth - 1 = 0 then Some (body, p, p + 1)
                else match_loop t e open_ch close_ch (p + 1) (depth - 1) in_string False body)
        else match_loop t e open_ch close_ch (p + 1) depth in_string False body
      else None)"
  by pat_completeness auto
termination by (relation "measure (\<lambda>(t, e, a, b, p, rest). e - p)") auto

declare match_loop.simps [simp del]

definition json_match_container ::
    "string \<Rightarrow> nat \<Rightarrow> nat \<Rightarrow> char \<Rightarrow> char \<Rightarrow> (nat \<times> nat \<times> nat) option" where
  "json_match_container t p e open_ch close_ch =
     (if e \<le> p \<or> byte_at t p \<noteq> open_ch then None
      else match_loop t e open_ch close_ch p 0 False False 0)"

definition json_find_array :: "string \<Rightarrow> nat \<Rightarrow> nat \<Rightarrow> string \<Rightarrow> (nat \<times> nat) option" where
  "json_find_array t p e key =
     (case json_find_key_value t p e key of
        None \<Rightarrow> None
      | Some v \<Rightarrow> map_option (\<lambda>(bs, be, _). (bs, be))
                    (json_match_container t v e CHR ''['' CHR '']''))"

definition json_find_object :: "string \<Rightarrow> nat \<Rightarrow> nat \<Rightarrow> string \<Rightarrow> (nat \<times> nat) option" where
  "json_find_object t p e key =
     (case json_find_key_value t p e key of
        None \<Rightarrow> None
      | Some v \<Rightarrow> map_option (\<lambda>(bs, be, _). (bs, be))
                    (json_match_container t v e CHR ''{'' CHR ''}''))"

function skip_to :: "string \<Rightarrow> nat \<Rightarrow> nat \<Rightarrow> char \<Rightarrow> nat" where
  "skip_to t p e c = (if p < e \<and> byte_at t p \<noteq> c then skip_to t (p + 1) e c else p)"
  by pat_completeness auto
termination by (relation "measure (\<lambda>(t, p, e, c). e - p)") auto

declare skip_to.simps [simp del]

text \<open>The start of the next object and the position after it, which is the cursor afterwards.\<close>

definition json_next_object :: "string \<Rightarrow> nat \<Rightarrow> nat \<Rightarrow> (nat \<times> nat) option" where
  "json_next_object t cursor e =
     (let p = skip_to t cursor e CHR ''{''
      in if e \<le> p then None
         else case json_match_container t p e CHR ''{'' CHR ''}'' of
           None \<Rightarrow> None
         | Some (_, _, after) \<Rightarrow> Some (p, after))"

text \<open>The readers of one field; \<open>old\<close> is what \<open>out\<close> held before the call.\<close>

definition json_get_string ::
    "string \<Rightarrow> nat \<Rightarrow> nat \<Rightarrow> string \<Rightarrow> nat \<Rightarrow> string \<Rightarrow> bool \<times> string" where
  "json_get_string t p e key cap old =
     (case json_find_key_value t p e key of
        None \<Rightarrow> (False, [])
      | Some v \<Rightarrow> let (ok, _, out) = json_decode_string t e cap v old in (ok, out))"

definition json_get_int :: "string \<Rightarrow> nat \<Rightarrow> nat \<Rightarrow> string \<Rightarrow> int \<Rightarrow> int" where
  "json_get_int t p e key dflt =
     (case json_find_key_value t p e key of None \<Rightarrow> dflt | Some v \<Rightarrow> atoi (drop v t))"

definition json_get_bool :: "string \<Rightarrow> nat \<Rightarrow> nat \<Rightarrow> string \<Rightarrow> bool \<Rightarrow> bool" where
  "json_get_bool t p e key dflt =
     (case json_find_key_value t p e key of
        None \<Rightarrow> dflt
      | Some v \<Rightarrow>
          if 4 \<le> e - v \<and> take 4 (drop v t) = ''true'' then True
          else if 5 \<le> e - v \<and> take 5 (drop v t) = ''false'' then False
          else dflt)"

text \<open>A range copied into a buffer of its own and read from then on as a C string.\<close>

definition range_dup :: "string \<Rightarrow> nat \<Rightarrow> nat \<Rightarrow> string" where
  "range_dup t s e = c_str (take (e - s) (drop s t))"

section \<open>The writer\<close>

definition hex_digit :: "nat \<Rightarrow> char" where
  "hex_digit n = ''0123456789abcdef'' ! n"

definition json_escape_char :: "char \<Rightarrow> string" where
  "json_escape_char c =
     (if c = DQ then [BSL, DQ]
      else if c = BSL then [BSL, BSL]
      else if c = CHR 0x08 then [BSL, CHR ''b'']
      else if c = CHR 0x0C then [BSL, CHR ''f'']
      else if c = CHR 0x0A then [BSL, CHR ''n'']
      else if c = CHR 0x0D then [BSL, CHR ''r'']
      else if c = CHR 0x09 then [BSL, CHR ''t'']
      else if code_of c < 32
        then [BSL, CHR ''u'', CHR ''0'', CHR ''0'', hex_digit (code_of c div 16), hex_digit (code_of c mod 16)]
      else [c])"

definition json_write_escaped :: "string \<Rightarrow> string" where
  "json_write_escaped s = DQ # concat (map json_escape_char s) @ [DQ]"

section \<open>Positions and progress\<close>

lemma skip_ws_range_ge: "p \<le> skip_ws_range t p e"
  by (induction t p e rule: skip_ws_range.induct) (subst skip_ws_range.simps, auto)

lemma skip_ws_range_le: "p \<le> e \<Longrightarrow> skip_ws_range t p e \<le> e"
  by (induction t p e rule: skip_ws_range.induct) (subst skip_ws_range.simps, auto)

lemma skip_ws_range_stop:
  "skip_ws_range t p e < e \<Longrightarrow> \<not> isspace (byte_at t (skip_ws_range t p e))"
proof (induction t p e rule: skip_ws_range.induct)
  case (1 t p e)
  then show ?case
    by (cases "p < e \<and> isspace (byte_at t p)") (auto simp: skip_ws_range.simps [of t p e])
qed

lemma skip_to_bounds: "p \<le> skip_to t p e c \<and> (p \<le> e \<longrightarrow> skip_to t p e c \<le> e)"
  by (induction t p e c rule: skip_to.induct) (subst (1 2) skip_to.simps, auto)

lemma skip_to_stop: "skip_to t p e c < e \<Longrightarrow> byte_at t (skip_to t p e c) = c"
proof (induction t p e c rule: skip_to.induct)
  case (1 t p e c)
  then show ?case
    by (cases "p < e \<and> byte_at t p \<noteq> c") (auto simp: skip_to.simps [of t p e c])
qed

lemma find_key_loop_bounds:
  "find_key_loop t p e pat = Some v \<Longrightarrow> p < v \<and> v \<le> e"
proof (induction t p e pat rule: find_key_loop.induct)
  case (1 t p e pat)
  from "1.prems" obtain d where d: "p < e" "strstr (drop p t) pat = Some d" "p + d < e"
    by (subst (asm) find_key_loop.simps) (auto split: if_splits option.splits)
  define q where "q = skip_ws_range t (p + d + length pat) e"
  show ?case
  proof (cases "q < e \<and> byte_at t q = CHR '':''")
    case True
    with "1.prems" d have "v = skip_ws_range t (q + 1) e"
      by (subst (asm) find_key_loop.simps) (simp add: q_def Let_def)
    moreover have "p \<le> q"
      using skip_ws_range_ge [of "p + d + length pat" t e] by (simp add: q_def)
    ultimately show ?thesis
      using True skip_ws_range_ge [of "q + 1" t e] skip_ws_range_le [of "q + 1" e t] by simp
  next
    case False
    with "1.prems" d have "find_key_loop t (p + d + 1) e pat = Some v"
      by (subst (asm) find_key_loop.simps) (auto simp: q_def Let_def split: if_splits)
    with "1.IH" [OF d(1,2,3) q_def False] show ?thesis by simp
  qed
qed

lemma json_find_key_value_bounds:
  "json_find_key_value t p e key = Some v \<Longrightarrow> p < v \<and> v \<le> e"
  by (simp add: json_find_key_value_def find_key_loop_bounds)

text \<open>What a match returns lies inside the range, and the closing bracket is where it says.\<close>

lemma match_loop_bounds:
  "match_loop t e op cl p depth ins esc body = Some (bs, be, after) \<Longrightarrow>
     p \<le> be \<and> after = be + 1 \<and> after \<le> e \<and> byte_at t be = cl"
proof (induction t e op cl p depth ins esc body rule: match_loop.induct)
  case (1 t e op cl p depth ins esc body)
  let ?next = "\<lambda>d i x b. match_loop t e op cl (p + 1) d i x b = Some (bs, be, after)"
  note eq = match_loop.simps [of t e op cl p depth ins esc body]
  have "p < e" using "1.prems" eq by (auto split: if_splits)
  then consider (found) "be = p" "after = p + 1" "byte_at t p = cl"
    | (esc) "?next depth ins False body" "esc"
    | (bsl) "?next depth ins True body" "\<not> esc" "ins" "byte_at t p = BSL"
    | (quote) "?next depth (\<not> ins) False body" "\<not> esc" "byte_at t p = DQ" "\<not> (ins \<and> byte_at t p = BSL)"
    | (opn) "?next (depth + 1) ins False (if depth = 0 then p + 1 else body)" "\<not> esc"
        "\<not> (ins \<and> byte_at t p = BSL)" "byte_at t p \<noteq> DQ" "\<not> ins \<and> byte_at t p = op"
    | (clos) "?next (depth - 1) ins False body" "\<not> esc" "\<not> (ins \<and> byte_at t p = BSL)"
        "byte_at t p \<noteq> DQ" "\<not> (\<not> ins \<and> byte_at t p = op)" "\<not> ins \<and> byte_at t p = cl" "depth - 1 \<noteq> 0"
    | (other) "?next depth ins False body" "\<not> esc" "\<not> (ins \<and> byte_at t p = BSL)"
        "byte_at t p \<noteq> DQ" "\<not> (\<not> ins \<and> byte_at t p = op)" "\<not> (\<not> ins \<and> byte_at t p = cl)"
    using "1.prems" unfolding eq by (simp split: if_splits) (metis+)?
  then show ?case
  proof cases
    case found
    with \<open>p < e\<close> show ?thesis by simp
  next
    case esc
    with "1.IH"(1) [OF \<open>p < e\<close>] show ?thesis by simp
  next
    case bsl
    with "1.IH"(2) [OF \<open>p < e\<close>] show ?thesis by simp
  next
    case quote
    with "1.IH"(3) [OF \<open>p < e\<close>] show ?thesis by simp
  next
    case opn
    with "1.IH"(4) [OF \<open>p < e\<close>] show ?thesis by simp
  next
    case clos
    with "1.IH"(5) [OF \<open>p < e\<close>] show ?thesis by simp
  next
    case other
    with "1.IH"(6) [OF \<open>p < e\<close>] show ?thesis by simp
  qed
qed

lemma json_match_container_bounds:
  assumes "json_match_container t p e op cl = Some (bs, be, after)"
  shows "p \<le> be \<and> after = be + 1 \<and> after \<le> e \<and> byte_at t be = cl \<and> byte_at t p = op \<and> p < after"
  using assms match_loop_bounds [of t e op cl p 0 False False 0 bs be after]
  by (auto simp: json_match_container_def split: if_splits)

lemma json_next_object_bounds:
  assumes "json_next_object t cursor e = Some (s, a)"
  shows "cursor \<le> s \<and> s < a \<and> a \<le> e \<and> byte_at t s = CHR ''{'' \<and> byte_at t (a - 1) = CHR ''}''"
proof -
  define p where "p = skip_to t cursor e CHR ''{''"
  from assms obtain bs be where m: "json_match_container t p e CHR ''{'' CHR ''}'' = Some (bs, be, a)"
    and s: "s = p"
    by (auto simp: json_next_object_def p_def Let_def split: if_splits option.splits prod.splits)
  from json_match_container_bounds [OF m] s show ?thesis
    using skip_to_bounds [of cursor t e "CHR ''{''"] by (auto simp: p_def)
qed

text \<open>
  The loops over the objects of an array: \<open>go\<close> is the loop's own condition, \<open>step\<close> its body,
  given the bounds of the object. The cursor moves past each object, so the loop ends.
\<close>

function json_each_object ::
    "string \<Rightarrow> nat \<Rightarrow> nat \<Rightarrow> ('s \<Rightarrow> bool) \<Rightarrow> (nat \<Rightarrow> nat \<Rightarrow> 's \<Rightarrow> 's) \<Rightarrow> 's \<Rightarrow> 's" where
  "json_each_object t e cursor go step st =
     (if \<not> go st then st
      else case json_next_object t cursor e of
        None \<Rightarrow> st
      | Some (s, a) \<Rightarrow> json_each_object t e a go step (step s a st))"
  by pat_completeness auto
termination
  by (relation "measure (\<lambda>(t, e, cursor, rest). e - cursor)")
     (auto dest: json_next_object_bounds)

declare json_each_object.simps [simp del]

lemma json_each_object_inv:
  assumes "P st" and "\<And>s a st. P st \<Longrightarrow> go st \<Longrightarrow> P (step s a st)"
  shows "P (json_each_object t e cursor go step st)"
  using assms
proof (induction t e cursor go step st rule: json_each_object.induct)
  case (1 t e cursor go step st)
  note eq = json_each_object.simps [of t e cursor go step st]
  show ?case
  proof (cases "go st")
    case True
    show ?thesis
    proof (cases "json_next_object t cursor e")
      case None
      with "1.prems"(1) eq show ?thesis by simp
    next
      case (Some x)
      obtain s a where x: "x = (s, a)" by (cases x)
      with "1.IH" True Some "1.prems"(2) [OF "1.prems"(1) True, of s a] "1.prems"(2) eq show ?thesis by simp
    qed
  qed (use "1.prems"(1) eq in simp)
qed

section \<open>Reading what was written\<close>

definition plain_char :: "char \<Rightarrow> bool" where
  "plain_char c \<longleftrightarrow> 32 \<le> code_of c \<or> c \<in> {CHR 0x08, CHR 0x0C, CHR 0x0A, CHR 0x0D, CHR 0x09}"

definition decoded_char :: "char \<Rightarrow> string" where
  "decoded_char c =
     (if plain_char c then [c]
      else [CHR ''u'', CHR ''0'', CHR ''0'', hex_digit (code_of c div 16), hex_digit (code_of c mod 16)])"

definition decoded :: "string \<Rightarrow> string" where
  "decoded s = concat (map decoded_char s)"

lemma decoded_plain: "list_all plain_char s \<Longrightarrow> decoded s = s"
  by (induction s) (auto simp: decoded_def decoded_char_def)

definition push :: "nat \<Rightarrow> string \<Rightarrow> string \<Rightarrow> string" where
  "push cap out cs = foldl (\<lambda>b c. if length b + 1 < cap then b @ [c] else b) out cs"

lemma push_take: "length out \<le> cap - 1 \<Longrightarrow> push cap out cs = take (cap - 1) (out @ cs)"
proof (induction cs arbitrary: out)
  case Nil
  then show ?case by (simp add: push_def)
next
  case (Cons c cs)
  show ?case
  proof (cases "length out + 1 < cap")
    case True
    with Cons.IH [of "out @ [c]"] show ?thesis by (simp add: push_def)
  next
    case False
    with Cons.prems have "length out = cap - 1" by simp
    with False Cons.IH [of out] show ?thesis by (simp add: push_def)
  qed
qed

lemma decode_plain:
  assumes "drop p t = c # r" and "p < e" and "c \<noteq> DQ" and "c \<noteq> BSL"
  shows "json_decode_loop t e cap p out = json_decode_loop t e cap (p + 1) (push cap out [c])"
  using assms byte_at_drop [OF assms(1)]
  by (subst json_decode_loop.simps) (simp add: push_def Let_def)

lemma decode_escape:
  assumes "drop p t = BSL # c # r" and "p + 1 < e"
  shows "json_decode_loop t e cap p out =
    json_decode_loop t e cap (p + 2) (push cap out [json_unescape c])"
proof -
  have "drop (p + 1) t = c # r" using assms(1) by (simp add: tl_drop drop_Suc flip: tl_drop)
  then show ?thesis
    using assms byte_at_drop [OF assms(1)] byte_at_drop [of "p + 1" t c r]
    by (subst json_decode_loop.simps) (simp add: push_def Let_def)
qed

end
