(* ===== verification/JsonText.thy ===== *)
theory JsonText
  imports JsonLib
begin

text \<open>
  The reader of \<open>JsonLib\<close> on the text its writer makes: what a written string decodes to, and that
  the bracket matcher and the key search pass over a written string without looking inside it.
\<close>

section \<open>Decoding a written string\<close>

lemma hex_digit_safe:
  "n < 16 \<Longrightarrow> hex_digit n \<noteq> DQ \<and> hex_digit n \<noteq> BSL \<and> hex_digit n \<noteq> NUL"
proof -
  assume "n < 16"
  then have "hex_digit n \<in> set ''0123456789abcdef''"
    unfolding hex_digit_def by (intro nth_mem) simp
  then show ?thesis by auto
qed

lemma push_push [simp]: "push cap (push cap out a) b = push cap out (a @ b)"
  by (simp add: push_def)

lemma drop_step: "drop p t = a @ r \<Longrightarrow> drop (p + length a) t = r"
  by (metis add.commute append_eq_conv_conj drop_drop)

lemma drop_step1: "drop p t = c # r \<Longrightarrow> drop (p + 1) t = r"
  using drop_step [of p t "[c]" r] by simp

lemma drop_step2: "drop p t = c # d # r \<Longrightarrow> drop (p + 2) t = r"
  using drop_step [of p t "[c, d]" r] by simp

lemma decode_plain_list:
  assumes "drop p t = cs @ r" and "p + length cs \<le> e" and "DQ \<notin> set cs" and "BSL \<notin> set cs"
  shows "json_decode_loop t e cap p out = json_decode_loop t e cap (p + length cs) (push cap out cs)"
  using assms
proof (induction cs arbitrary: p out)
  case Nil
  then show ?case by (simp add: push_def)
next
  case (Cons c cs)
  from Cons.prems have "json_decode_loop t e cap p out =
      json_decode_loop t e cap (p + 1) (push cap out [c])"
    by (intro decode_plain) auto
  also have "\<dots> = json_decode_loop t e cap (p + 1 + length cs) (push cap (push cap out [c]) cs)"
    using Cons.prems drop_step1 [of p t c "cs @ r"] by (intro Cons.IH) auto
  finally show ?case by simp
qed

definition special_char :: "char \<Rightarrow> bool" where
  "special_char c \<longleftrightarrow> c \<in> {DQ, BSL, CHR 0x08, CHR 0x0C, CHR 0x0A, CHR 0x0D, CHR 0x09}"

lemma special_char_escape:
  assumes "special_char c"
  obtains d where "json_escape_char c = [BSL, d]" and "json_unescape d = c" and "plain_char c"
proof -
  from assms have "\<exists>d. json_escape_char c = [BSL, d] \<and> json_unescape d = c \<and> plain_char c"
    unfolding special_char_def
    by (elim insertE) (simp_all add: json_escape_char_def json_unescape_def plain_char_def code_of_def)
  with that show ?thesis by blast
qed

lemma control_char_escape:
  assumes "\<not> special_char c" and "code_of c < 32"
  defines "h \<equiv> [CHR ''0'', CHR ''0'', hex_digit (code_of c div 16), hex_digit (code_of c mod 16)]"
  shows "json_escape_char c = BSL # CHR ''u'' # h" and "decoded_char c = CHR ''u'' # h"
    and "DQ \<notin> set h" and "BSL \<notin> set h"
proof -
  show "json_escape_char c = BSL # CHR ''u'' # h" and "decoded_char c = CHR ''u'' # h"
    using assms by (simp_all add: json_escape_char_def decoded_char_def plain_char_def special_char_def)
  have "code_of c div 16 < 16" "code_of c mod 16 < 16" using assms(2) by simp_all
  then show "DQ \<notin> set h" and "BSL \<notin> set h"
    using hex_digit_safe [of "code_of c div 16"] hex_digit_safe [of "code_of c mod 16"]
    by (auto simp: h_def)
qed

lemma ordinary_char_escape:
  assumes "\<not> special_char c" and "\<not> code_of c < 32"
  shows "json_escape_char c = [c]" and "decoded_char c = [c]" and "c \<noteq> DQ" and "c \<noteq> BSL"
  using assms by (auto simp: json_escape_char_def decoded_char_def plain_char_def special_char_def)

lemma decode_char:
  assumes "drop p t = json_escape_char c @ r" and "p + length (json_escape_char c) \<le> e"
  shows "json_decode_loop t e cap p out =
    json_decode_loop t e cap (p + length (json_escape_char c)) (push cap out (decoded_char c))"
proof (cases "special_char c")
  case True
  then obtain d where d: "json_escape_char c = [BSL, d]" "json_unescape d = c" "plain_char c"
    by (rule special_char_escape)
  with assms have "json_decode_loop t e cap p out =
      json_decode_loop t e cap (p + 2) (push cap out [json_unescape d])"
    by (intro decode_escape) auto
  with d show ?thesis by (simp add: decoded_char_def numeral_2_eq_2)
next
  case sp: False
  show ?thesis
  proof (cases "code_of c < 32")
    case True
    note ctl = control_char_escape [OF sp True]
    let ?h = "[CHR ''0'', CHR ''0'', hex_digit (code_of c div 16), hex_digit (code_of c mod 16)]"
    from assms ctl have d: "drop p t = BSL # CHR ''u'' # (?h @ r)" by simp
    have "json_decode_loop t e cap p out = json_decode_loop t e cap (p + 2) (push cap out ''u'')"
      using decode_escape [OF d, of e cap out] assms(2) ctl(1) by (simp add: json_unescape_def)
    also have "\<dots> = json_decode_loop t e cap (p + 2 + length ?h) (push cap (push cap out ''u'') ?h)"
      using drop_step2 [OF d] assms(2) ctl by (intro decode_plain_list) auto
    finally show ?thesis using ctl by (simp add: numeral_2_eq_2)
  next
    case False
    note ord = ordinary_char_escape [OF sp False]
    with assms decode_plain [of p t c r e cap out] show ?thesis by simp
  qed
qed

lemma decode_chars:
  assumes "drop p t = concat (map json_escape_char s) @ r"
    and "p + length (concat (map json_escape_char s)) \<le> e"
  shows "json_decode_loop t e cap p out =
    json_decode_loop t e cap (p + length (concat (map json_escape_char s))) (push cap out (decoded s))"
  using assms
proof (induction s arbitrary: p out)
  case Nil
  then show ?case by (simp add: push_def decoded_def)
next
  case (Cons c s)
  have "json_decode_loop t e cap p out =
      json_decode_loop t e cap (p + length (json_escape_char c)) (push cap out (decoded_char c))"
    using Cons.prems by (intro decode_char) auto
  also have "\<dots> = json_decode_loop t e cap
      (p + length (json_escape_char c) + length (concat (map json_escape_char s)))
      (push cap (push cap out (decoded_char c)) (decoded s))"
    using Cons.prems drop_step [of p t "json_escape_char c"] by (intro Cons.IH) auto
  finally show ?case by (simp add: decoded_def add.assoc)
qed

lemma decoded_no_nul: "NUL \<notin> set s \<Longrightarrow> NUL \<notin> set (decoded s)"
proof (induction s)
  case Nil
  then show ?case by (simp add: decoded_def)
next
  case (Cons c s)
  have "NUL \<notin> set (decoded_char c)"
  proof (cases "plain_char c")
    case False
    then have "code_of c div 16 < 16" by (auto simp: plain_char_def)
    with False show ?thesis
      using hex_digit_safe [of "code_of c div 16"] hex_digit_safe [of "code_of c mod 16"]
      by (auto simp: decoded_char_def)
  qed (use Cons.prems in \<open>auto simp: decoded_char_def\<close>)
  with Cons show ?case by (auto simp: decoded_def)
qed

lemma decode_written:
  assumes "drop p t = json_write_escaped s @ r" and "p + length (json_write_escaped s) \<le> e"
    and "0 < cap" and "NUL \<notin> set s"
  shows "json_decode_string t e cap p old =
    (True, p + length (json_write_escaped s), take (cap - 1) (decoded s))"
proof -
  let ?body = "concat (map json_escape_char s)"
  have d: "drop p t = DQ # (?body @ DQ # r)" using assms(1) by (simp add: json_write_escaped_def)
  have len: "p + length ?body + 2 \<le> e" using assms(2) by (simp add: json_write_escaped_def)
  have d1: "drop (p + 1) t = ?body @ DQ # r" by (rule drop_step1 [OF d])
  have "json_decode_loop t e cap (p + 1) [] =
      json_decode_loop t e cap (p + 1 + length ?body) (push cap [] (decoded s))"
    using d1 len by (intro decode_chars) auto
  moreover have q: "byte_at t (p + 1 + length ?body) = DQ"
    using drop_step [OF d1] byte_at_drop by blast
  ultimately have loop: "json_decode_loop t e cap (p + 1) [] =
      (p + 1 + length ?body, take (cap - 1) (decoded s))"
    using len push_take [of "[]" cap "decoded s"] by (simp add: json_decode_loop.simps)
  have "NUL \<notin> set (take (cap - 1) (decoded s))"
    using decoded_no_nul [OF assms(4)] by (meson in_set_takeD)
  with loop q len assms(3) byte_at_drop [OF d] show ?thesis
    by (simp add: json_decode_string_def json_write_escaped_def)
qed

section \<open>Passing over a written string\<close>

lemma match_step:
  assumes "drop p t = c # r" and "p < e" and "c \<noteq> op" and "c \<noteq> cl" and "c \<noteq> DQ"
  shows "match_loop t e op cl p depth False False body = match_loop t e op cl (p + 1) depth False False body"
  using assms byte_at_drop [OF assms(1)] by (simp add: match_loop.simps [of t e op cl p])

lemma match_in_string:
  assumes "drop p t = c # r" and "p < e" and "c \<noteq> BSL" and "c \<noteq> DQ"
  shows "match_loop t e op cl p depth True False body = match_loop t e op cl (p + 1) depth True False body"
  using assms byte_at_drop [OF assms(1)] by (simp add: match_loop.simps [of t e op cl p])

lemma match_escaped:
  assumes "drop p t = BSL # c # r" and "p + 1 < e"
  shows "match_loop t e op cl p depth True False body = match_loop t e op cl (p + 2) depth True False body"
  using assms byte_at_drop [OF assms(1)] drop_step1 [OF assms(1)]
  by (simp add: match_loop.simps [of t e op cl p] match_loop.simps [of t e op cl "Suc p"])

lemma match_quote:
  assumes "drop p t = DQ # r" and "p < e"
  shows "match_loop t e op cl p depth ins False body = match_loop t e op cl (p + 1) depth (\<not> ins) False body"
  using assms byte_at_drop [OF assms(1)] by (simp add: match_loop.simps [of t e op cl p])

lemma match_in_string_list:
  assumes "drop p t = cs @ r" and "p + length cs \<le> e" and "DQ \<notin> set cs" and "BSL \<notin> set cs"
  shows "match_loop t e op cl p depth True False body =
    match_loop t e op cl (p + length cs) depth True False body"
  using assms
proof (induction cs arbitrary: p)
  case Nil
  then show ?case by simp
next
  case (Cons c cs)
  then have "match_loop t e op cl p depth True False body =
      match_loop t e op cl (p + 1) depth True False body"
    by (intro match_in_string) auto
  also have "\<dots> = match_loop t e op cl (p + 1 + length cs) depth True False body"
    using Cons.prems drop_step1 [of p t c "cs @ r"] by (intro Cons.IH) auto
  finally show ?case by simp
qed

text \<open>The shape of an escaped character, which is all the scanners see of it.\<close>

lemma json_escape_char_shape:
  obtains (one) "json_escape_char c = [c]" and "c \<noteq> DQ" and "c \<noteq> BSL"
  | (pair) d h where "json_escape_char c = BSL # d # h" and "DQ \<notin> set h" and "BSL \<notin> set h"
proof (cases "special_char c")
  case True
  then obtain d where "json_escape_char c = [BSL, d]" by (rule special_char_escape)
  then show ?thesis using pair [of d "[]"] by simp
next
  case False
  then show ?thesis
    using control_char_escape [of c] ordinary_char_escape [of c] one pair
    by (cases "code_of c < 32") auto
qed

lemma match_escape_char:
  assumes "drop p t = json_escape_char c @ r" and "p + length (json_escape_char c) \<le> e"
  shows "match_loop t e op cl p depth True False body =
    match_loop t e op cl (p + length (json_escape_char c)) depth True False body"
proof (cases rule: json_escape_char_shape [of c])
  case one
  with assms match_in_string [of p t c r e] show ?thesis by simp
next
  case (pair d h)
  with assms have d: "drop p t = BSL # d # (h @ r)" and "p + 1 < e" by auto
  then have "match_loop t e op cl p depth True False body =
      match_loop t e op cl (p + 2) depth True False body"
    by (rule match_escaped)
  also have "\<dots> = match_loop t e op cl (p + 2 + length h) depth True False body"
    using pair assms(2) drop_step2 [OF d] by (intro match_in_string_list) auto
  finally show ?thesis using pair by simp
qed

lemma match_written:
  assumes "drop p t = json_write_escaped s @ r" and "p + length (json_write_escaped s) \<le> e"
  shows "match_loop t e op cl p depth False False body =
    match_loop t e op cl (p + length (json_write_escaped s)) depth False False body"
proof -
  let ?body = "concat (map json_escape_char s)"
  have chars: "match_loop t e op cl q depth True False body =
      match_loop t e op cl (q + length (concat (map json_escape_char s))) depth True False body"
    if "drop q t = concat (map json_escape_char s) @ r'" and
      "q + length (concat (map json_escape_char s)) \<le> e" for q r' and s
    using that
  proof (induction s arbitrary: q)
    case Nil
    then show ?case by simp
  next
    case (Cons c s)
    have "match_loop t e op cl q depth True False body =
        match_loop t e op cl (q + length (json_escape_char c)) depth True False body"
      using Cons.prems by (intro match_escape_char) auto
    also have "\<dots> = match_loop t e op cl (q + length (json_escape_char c) +
        length (concat (map json_escape_char s))) depth True False body"
      using Cons.prems drop_step [of q t "json_escape_char c"] by (intro Cons.IH) auto
    finally show ?case by (simp add: add.assoc)
  qed
  have d: "drop p t = DQ # (?body @ DQ # r)" using assms(1) by (simp add: json_write_escaped_def)
  have len: "p + length ?body + 2 \<le> e" using assms(2) by (simp add: json_write_escaped_def)
  have d1: "drop (p + 1) t = ?body @ DQ # r" by (rule drop_step1 [OF d])
  have d2: "drop (p + 1 + length ?body) t = DQ # r" by (rule drop_step [OF d1])
  have "match_loop t e op cl p depth False False body =
      match_loop t e op cl (p + 1) depth True False body"
    using match_quote [OF d] len by simp
  also have "\<dots> = match_loop t e op cl (p + 1 + length ?body) depth True False body"
    using chars [OF d1] len by simp
  also have "\<dots> = match_loop t e op cl (p + 1 + length ?body + 1) depth False False body"
    using match_quote [OF d2] len by simp
  finally show ?thesis by (simp add: json_write_escaped_def)
qed

section \<open>Properties\<close>

text \<open>
  What the writer writes, the reader reads. Wherever a written string stands in a text, decoding it
  succeeds, moves the cursor just past its closing quote, and gives the string back, cut at the size
  of the buffer, unless the string holds a control character other than the five with an escape of
  their own.
\<close>

theorem json_string_roundtrip:
  assumes "NUL \<notin> set s" and "list_all plain_char s" and "0 < cap"
  shows "json_decode_string (pre @ json_write_escaped s @ post)
      (length (pre @ json_write_escaped s @ post)) cap (length pre) old =
    (True, length (pre @ json_write_escaped s), take (cap - 1) s)"
  using decode_written [of "length pre" "pre @ json_write_escaped s @ post" s post
      "length (pre @ json_write_escaped s @ post)" cap old] assms decoded_plain [of s]
  by simp

theorem json_string_roundtrip_witness:
  "json_decode_string ([] @ json_write_escaped [DQ, BSL, NL] @ ''}'')
      (length ([] @ json_write_escaped [DQ, BSL, NL] @ ''}'')) 64 (length []) [] =
    (True, length ([] @ json_write_escaped [DQ, BSL, NL]), [DQ, BSL, NL])"
  using json_string_roundtrip [of "[DQ, BSL, NL]" 64 "[]" "''}''" "[]"]
  by (simp add: plain_char_def code_of_def)

text \<open>
  The other control characters do not survive. The writer writes them as \<open>\u00XX\<close>, the reader takes the
  \<open>u\<close> and the four digits for the text itself, so a string that holds one comes back longer.
\<close>

theorem json_control_char_corrupted:
  assumes "code_of c < 32" and "\<not> plain_char c" and "c \<noteq> NUL"
  shows "json_decode_string (json_write_escaped [c]) (length (json_write_escaped [c])) 64 0 old =
    (True, length (json_write_escaped [c]),
     ''u00'' @ [hex_digit (code_of c div 16), hex_digit (code_of c mod 16)])"
  using decode_written [of 0 "json_write_escaped [c]" "[c]" "[]" "length (json_write_escaped [c])" 64 old] assms
  by (simp add: decoded_def decoded_char_def)

theorem json_control_char_corrupted_witness:
  "json_decode_string (json_write_escaped [CHR 0x01]) (length (json_write_escaped [CHR 0x01])) 64 0 [] =
    (True, 8, ''u0001'')"
  using json_control_char_corrupted [of "CHR 0x01" "[]"]
  by (simp add: plain_char_def code_of_def hex_digit_def json_write_escaped_def json_escape_char_def)

text \<open>
  A loop over the objects of a text always moves on and never leaves its range. An object that is
  found starts at an opening brace at or after the cursor, ends with a closing brace, and leaves
  the cursor strictly after its start and not past the end.
\<close>

theorem json_next_object_progress:
  "json_next_object t cursor e = Some (s, after) \<Longrightarrow>
     cursor \<le> s \<and> s < after \<and> after \<le> e \<and> byte_at t s = CHR ''{'' \<and> byte_at t (after - 1) = CHR ''}''"
  by (rule json_next_object_bounds)

theorem json_next_object_progress_witness:
  "json_next_object ''[{},{}]'' 0 8 = Some (1, 3) \<and> (0::nat) \<le> 1 \<and> (3::nat) \<le> 8"
proof -
  have r: "json_next_object ''[{},{}]'' 0 8 = Some (1, 3)" by code_simp
  from json_next_object_progress [OF r] r show ?thesis by simp
qed

end
