(* ===== verification/JsonObjects.thy ===== *)
theory JsonObjects
  imports JsonText
begin

text \<open>
  The key search and the loops over objects, on files written the way the frontend writes them: a
  list of objects, each a list of fields whose values are written strings or bare tokens. The main
  lemmas say that reading a field of a written object gives the field's value, and that a loop
  over a written array sees exactly the objects written, in their order.
\<close>

section \<open>The key search, position by position\<close>

definition no_colon :: "string \<Rightarrow> bool" where
  "no_colon r \<longleftrightarrow> (case dropWhile isspace r of [] \<Rightarrow> True | c # _ \<Rightarrow> c \<noteq> CHR '':'')"

lemma skip_ws_drop:
  "skip_ws_range t p e < e \<Longrightarrow> skip_ws_range t p e < length t \<Longrightarrow>
     drop (skip_ws_range t p e) t = dropWhile isspace (drop p t)"
proof (induction t p e rule: skip_ws_range.induct)
  case (1 t p e)
  note eq = skip_ws_range.simps [of t p e]
  show ?case
  proof (cases "p < e \<and> isspace (byte_at t p)")
    case True
    with "1.prems" eq have p: "p < length t"
      using skip_ws_range_ge [of "p + 1" t e] by simp
    then have d: "drop p t = t ! p # drop (p + 1) t" by (simp add: Cons_nth_drop_Suc)
    with True eq "1.IH" "1.prems" show ?thesis by (simp add: byte_at_def p)
  next
    case False
    with "1.prems" eq have "p < e" "p < length t" "\<not> isspace (t ! p)"
      by (auto simp: byte_at_def split: if_splits)
    moreover from this have "drop p t = t ! p # drop (Suc p) t" by (simp add: Cons_nth_drop_Suc)
    ultimately show ?thesis using False eq by simp
  qed
qed

lemma no_colon_at:
  assumes "no_colon (drop p t)" and "e \<le> length t"
  shows "\<not> (skip_ws_range t p e < e \<and> byte_at t (skip_ws_range t p e) = CHR '':'')"
proof
  assume a: "skip_ws_range t p e < e \<and> byte_at t (skip_ws_range t p e) = CHR '':''"
  let ?q = "skip_ws_range t p e"
  have len: "?q < length t" using a assms(2) by simp
  then have "drop ?q t = t ! ?q # drop (Suc ?q) t" by (simp add: Cons_nth_drop_Suc)
  with skip_ws_drop [of t p e] a len
  have "dropWhile isspace (drop p t) = CHR '':'' # drop (Suc ?q) t" by (simp add: byte_at_def)
  with assms(1) show False by (simp add: no_colon_def)
qed

lemma find_key_skip1:
  assumes d: "drop p t = c # r" and "c \<noteq> NUL" and "p < e" and "pat \<noteq> []" and "e \<le> length t"
    and miss: "\<not> (prefix pat (c # r) \<and> \<not> no_colon (drop (p + length pat) t))"
  shows "find_key_loop t p e pat = find_key_loop t (p + 1) e pat"
proof (cases "prefix pat (c # r)")
  case True
  then have "strstr (drop p t) pat = Some 0" using d by simp
  moreover have "\<not> (skip_ws_range t (p + length pat) e < e \<and>
      byte_at t (skip_ws_range t (p + length pat) e) = CHR '':'')"
    using True miss no_colon_at assms(5) by blast
  ultimately show ?thesis
    using \<open>p < e\<close> by (subst find_key_loop.simps) (auto simp: Let_def)
next
  case False
  then have hit: "strstr (drop p t) pat = map_option Suc (strstr r pat)" using d assms(2) by simp
  have r: "drop (p + 1) t = r" by (rule drop_step1 [OF d])
  show ?thesis
    using hit r \<open>p < e\<close> find_key_loop.simps [of t p e pat] find_key_loop.simps [of t "p + 1" e pat]
    by (cases "strstr r pat") (auto simp: Let_def)
qed

lemma find_key_skip_plain:
  assumes "drop p t = cs @ r" and "p + length cs \<le> e" and "e \<le> length t"
    and "DQ \<notin> set cs" and "NUL \<notin> set cs"
  shows "find_key_loop t p e (DQ # k) = find_key_loop t (p + length cs) e (DQ # k)"
  using assms
proof (induction cs arbitrary: p)
  case Nil
  then show ?case by simp
next
  case (Cons c cs)
  then have "find_key_loop t p e (DQ # k) = find_key_loop t (p + 1) e (DQ # k)"
    by (intro find_key_skip1 [of p t c "cs @ r"]) auto
  also have "\<dots> = find_key_loop t (p + 1 + length cs) e (DQ # k)"
    using Cons.prems drop_step1 [of p t c "cs @ r"] by (intro Cons.IH) auto
  finally show ?case by simp
qed

text \<open>A key the program uses: not empty, and made of characters the writer does not change.\<close>

definition simple_key :: "string \<Rightarrow> bool" where
  "simple_key k \<longleftrightarrow> k \<noteq> [] \<and> length k \<le> 125 \<and> list_all (\<lambda>c. isalnum c \<or> c = CHR ''_'') k"

lemma simple_char:
  assumes "isalnum c \<or> c = CHR ''_''"
  shows "c \<noteq> DQ" "c \<noteq> BSL" "c \<noteq> NUL" "\<not> special_char c" "32 \<le> code_of c" "\<not> isspace c"
    "c \<noteq> CHR '':''" "c \<noteq> CHR '',''" "c \<noteq> CHR ''{''" "c \<noteq> CHR ''}''"
proof -
  have "48 \<le> code_of c" and n: "code_of c \<notin> {58..64}" "code_of c \<noteq> 92" "code_of c \<notin> {123..255}"
    using assms by (auto simp: isalnum_def isdigit_def code_of_def)
  then show "32 \<le> code_of c" by simp
  from \<open>48 \<le> code_of c\<close> n show "c \<noteq> DQ" "c \<noteq> BSL" "c \<noteq> NUL" "c \<noteq> CHR '':''" "c \<noteq> CHR '',''" "c \<noteq> CHR ''{''"
      "c \<noteq> CHR ''}''" "\<not> isspace c" "\<not> special_char c"
    by (auto simp: code_of_def isspace_def special_char_def)
qed

lemma simple_key_chars:
  assumes "simple_key k" and "c \<in> set k"
  shows "isalnum c \<or> c = CHR ''_''"
  using assms by (auto simp: simple_key_def list_all_iff)

lemma simple_key_free [simp]:
  "simple_key k \<Longrightarrow> DQ \<notin> set k" "simple_key k \<Longrightarrow> BSL \<notin> set k" "simple_key k \<Longrightarrow> NUL \<notin> set k"
  using simple_key_chars simple_char by blast+

lemma key_pattern_simple: "simple_key k \<Longrightarrow> key_pattern k = DQ # k @ [DQ]"
  unfolding simple_key_def key_pattern_def by auto

lemma escape_simple: "simple_key k \<Longrightarrow> concat (map json_escape_char k) = k"
proof -
  assume k: "simple_key k"
  have "\<forall>c \<in> set k. json_escape_char c = [c]"
    using simple_key_chars [OF k] simple_char ordinary_char_escape(1) by (auto simp: not_less)
  then show ?thesis by (induction k) auto
qed

lemma written_simple: "simple_key k \<Longrightarrow> json_write_escaped k = DQ # k @ [DQ]"
  by (simp add: json_write_escaped_def escape_simple)

text \<open>Inside a written string, a key can only start where the whole rest of the string is that key.\<close>

lemma key_in_body:
  assumes "simple_key key \<or> key = []" and "prefix (key @ [DQ]) (concat (map json_escape_char s) @ DQ # r)"
  shows "key = concat (map json_escape_char s)"
proof -
  have gen: "list_all (\<lambda>c. isalnum c \<or> c = CHR ''_'') key \<Longrightarrow>
      prefix (key @ [DQ]) (concat (map json_escape_char s) @ DQ # r) \<Longrightarrow>
      key = concat (map json_escape_char s)" for key
  proof (induction s arbitrary: key)
    case Nil
    then show ?case using simple_char(1) by (cases key) auto
  next
    case (Cons c s)
    show ?case
    proof (cases rule: json_escape_char_shape [of c])
      case one
      with Cons show ?thesis by (cases key) auto
    next
      case (pair d h)
      with Cons.prems show ?thesis using simple_char(2) by (cases key) auto
    qed
  qed
  show ?thesis using gen [of key] assms by (auto simp: simple_key_def)
qed

lemma escape_no_nul:
  assumes "c \<noteq> NUL"
  shows "NUL \<notin> set (json_escape_char c)"
proof (cases "special_char c")
  case True
  then obtain d where d: "json_escape_char c = [BSL, d]" "json_unescape d = c"
    by (rule special_char_escape)
  then have "d \<noteq> NUL" using assms by (auto simp: json_unescape_def)
  with d show ?thesis by simp
next
  case False
  show ?thesis
  proof (cases "code_of c < 32")
    case True
    then have "code_of c div 16 < 16" "code_of c mod 16 < 16" by simp_all
    then show ?thesis
      using control_char_escape(1) [OF False \<open>code_of c < 32\<close>]
        hex_digit_safe [of "code_of c div 16"] hex_digit_safe [of "code_of c mod 16"] by auto
  qed (use ordinary_char_escape(1) [OF False] assms in simp)
qed

lemma written_no_nul: "NUL \<notin> set s \<Longrightarrow> NUL \<notin> set (json_write_escaped s)"
proof (induction s)
  case Nil
  then show ?case by (simp add: json_write_escaped_def)
next
  case (Cons c s)
  then have "NUL \<notin> set (json_escape_char c)" by (intro escape_no_nul) auto
  with Cons show ?case by (simp add: json_write_escaped_def)
qed

lemma prefix_pat_rest:
  assumes "drop p t = pat @ r"
  shows "drop (p + length pat) t = r"
  using assms by (rule drop_step)

lemma find_key_skip_body:
  assumes "drop p t = concat (map json_escape_char s) @ DQ # r"
    and "p + length (concat (map json_escape_char s)) \<le> e" and "e \<le> length t"
    and "simple_key key" and "NUL \<notin> set s" and "no_colon r"
  shows "find_key_loop t p e (DQ # key @ [DQ]) =
    find_key_loop t (p + length (concat (map json_escape_char s))) e (DQ # key @ [DQ])"
  using assms
proof (induction s arbitrary: p)
  case Nil
  then show ?case by simp
next
  case (Cons c s)
  let ?pat = "DQ # key @ [DQ]"
  let ?rest = "concat (map json_escape_char s) @ DQ # r"
  have miss: "\<not> (prefix ?pat (DQ # ?rest) \<and> \<not> no_colon (drop (q + length ?pat) t))"
    if q: "drop q t = DQ # ?rest" for q
  proof
    assume a: "prefix ?pat (DQ # ?rest) \<and> \<not> no_colon (drop (q + length ?pat) t)"
    then have "key = concat (map json_escape_char s)"
      using key_in_body [of key s r] Cons.prems(4) by simp
    with q have "drop q t = ?pat @ r" by simp
    then have "drop (q + length ?pat) t = r" by (rule prefix_pat_rest)
    with a Cons.prems(6) show False by simp
  qed
  have step: "find_key_loop t p e ?pat = find_key_loop t (p + length (json_escape_char c)) e ?pat"
  proof (cases rule: json_escape_char_shape [of c])
    case one
    with Cons.prems have d: "drop p t = c # ?rest" by simp
    have "find_key_loop t p e ?pat = find_key_loop t (p + 1) e ?pat"
      using one Cons.prems by (intro find_key_skip1 [OF d]) auto
    with one show ?thesis by simp
  next
    case (pair d h)
    have nn: "NUL \<notin> set (json_escape_char c)"
      using Cons.prems(5) by (intro escape_no_nul) auto
    have d0: "drop p t = BSL # d # (h @ ?rest)" using pair Cons.prems(1) by simp
    have d1: "drop (p + 1) t = d # (h @ ?rest)" by (rule drop_step1 [OF d0])
    have d2: "drop (p + 1 + 1) t = h @ ?rest" by (rule drop_step1 [OF d1])
    have len: "p + 2 + length h \<le> e" using pair Cons.prems(2) by simp
    have "find_key_loop t p e ?pat = find_key_loop t (p + 1) e ?pat"
      using find_key_skip1 [OF d0, of e ?pat] len Cons.prems(3) by simp
    also have "\<dots> = find_key_loop t (p + 1 + 1) e ?pat"
    proof (rule find_key_skip1 [OF d1])
      show "d \<noteq> NUL" using nn pair by auto
      show "\<not> (prefix ?pat (d # h @ ?rest) \<and> \<not> no_colon (drop (p + 1 + length ?pat) t))"
      proof (cases "d = DQ")
        case True
        with pair have "h = []" by (auto simp: json_escape_char_def hex_digit_def split: if_splits)
        with True d1 miss [of "p + 1"] show ?thesis by simp
      qed simp
    qed (use len Cons.prems(3) in auto)
    also have "\<dots> = find_key_loop t (p + 1 + 1 + length h) e ?pat"
      using d2 len Cons.prems(3) pair nn by (intro find_key_skip_plain) auto
    finally show ?thesis using pair by simp
  qed
  also have "\<dots> = find_key_loop t (p + length (json_escape_char c) +
      length (concat (map json_escape_char s))) e ?pat"
    using Cons.prems drop_step [of p t "json_escape_char c"] by (intro Cons.IH) auto
  finally show ?case by (simp add: add.assoc)
qed

lemma find_key_skip_written:
  assumes d: "drop p t = json_write_escaped s @ r" and "p + length (json_write_escaped s) \<le> e"
    and "e \<le> length t" and "simple_key key" and "NUL \<notin> set s"
    and miss: "no_colon r \<or> (simple_key s \<and> s \<noteq> key)" and "\<not> prefix (key @ [DQ]) r"
  shows "find_key_loop t p e (DQ # key @ [DQ]) =
    find_key_loop t (p + length (json_write_escaped s)) e (DQ # key @ [DQ])"
proof -
  let ?pat = "DQ # key @ [DQ]" and ?body = "concat (map json_escape_char s)"
  have d0: "drop p t = DQ # (?body @ DQ # r)" using d by (simp add: json_write_escaped_def)
  have d1: "drop (p + 1) t = ?body @ DQ # r" by (rule drop_step1 [OF d0])
  have d2: "drop (p + 1 + length ?body) t = DQ # r" by (rule drop_step [OF d1])
  have len: "p + length ?body + 2 \<le> e" using assms(2) by (simp add: json_write_escaped_def)
  have open_miss: "\<not> (prefix ?pat (DQ # (?body @ DQ # r)) \<and> \<not> no_colon (drop (p + length ?pat) t))"
  proof
    assume a: "prefix ?pat (DQ # (?body @ DQ # r)) \<and> \<not> no_colon (drop (p + length ?pat) t)"
    then have key: "key = ?body" using key_in_body [of key s r] assms(4) by simp
    with d0 have "drop p t = ?pat @ r" by simp
    then have "drop (p + length ?pat) t = r" by (rule prefix_pat_rest)
    with a miss key escape_simple [of s] show False by auto
  qed
  have "find_key_loop t p e ?pat = find_key_loop t (p + 1) e ?pat"
    using find_key_skip1 [OF d0 _ _ _ assms(3) open_miss] len by simp
  also have "\<dots> = find_key_loop t (p + 1 + length ?body) e ?pat"
  proof (cases "no_colon r")
    case True
    show ?thesis using d1 len assms True by (intro find_key_skip_body) auto
  next
    case False
    with miss have "simple_key s" by simp
    then show ?thesis
      using d1 len assms(3) escape_simple [of s] by (intro find_key_skip_plain) auto
  qed
  also have "\<dots> = find_key_loop t (p + 1 + length ?body + 1) e ?pat"
  proof (rule find_key_skip1 [OF d2])
    show "\<not> (prefix ?pat (DQ # r) \<and> \<not> no_colon (drop (p + 1 + length ?body + length ?pat) t))"
      using assms(7) by simp
  qed (use len assms(3) in auto)
  finally show ?thesis by (simp add: json_write_escaped_def)
qed

lemma find_key_hit:
  assumes "drop p t = DQ # key @ DQ # CHR '':'' # CHR '' '' # v # r" and "\<not> isspace v"
    and "p + length key + 4 < e"
  shows "find_key_loop t p e (DQ # key @ [DQ]) = Some (p + length key + 4)"
proof -
  let ?pat = "DQ # key @ [DQ]"
  have d: "drop p t = ?pat @ CHR '':'' # CHR '' '' # v # r" using assms(1) by simp
  then have "strstr (drop p t) ?pat = Some 0" by simp
  moreover have q: "drop (p + length ?pat) t = CHR '':'' # CHR '' '' # v # r"
    by (rule prefix_pat_rest [OF d])
  moreover have q1: "drop (p + length ?pat + 1) t = CHR '' '' # v # r" by (rule drop_step1 [OF q])
  moreover have q2: "drop (p + length ?pat + 1 + 1) t = v # r" by (rule drop_step1 [OF q1])
  moreover have "skip_ws_range t (p + length ?pat) e = p + length ?pat"
    using byte_at_drop [OF q] by (simp add: skip_ws_range.simps isspace_def)
  moreover have "skip_ws_range t (p + length ?pat + 1) e = p + length ?pat + 2"
    using byte_at_drop [OF q1] byte_at_drop [OF q2] assms(2,3)
    by (simp add: skip_ws_range.simps [of t "Suc (Suc (Suc (p + length key)))"]
        skip_ws_range.simps [of t "Suc (Suc (Suc (Suc (p + length key))))"] isspace_def)
  ultimately show ?thesis
    using assms(3) byte_at_drop [OF q] by (subst find_key_loop.simps) (simp add: Let_def)
qed

section \<open>Written objects\<close>

text \<open>
  A value is a written string or a bare token (a number or a boolean). The fields of an object are
  separated by a comma and white space, which the writers choose.
\<close>

datatype jval = JStr string | JRaw string

fun jval_text :: "jval \<Rightarrow> string" where
  "jval_text (JStr s) = json_write_escaped s"
| "jval_text (JRaw r) = r"

definition raw_char :: "char \<Rightarrow> bool" where
  "raw_char c \<longleftrightarrow> isalnum c \<or> c = CHR ''-''"

fun jval_ok :: "jval \<Rightarrow> bool" where
  "jval_ok (JStr s) \<longleftrightarrow> NUL \<notin> set s"
| "jval_ok (JRaw r) \<longleftrightarrow> r \<noteq> [] \<and> list_all raw_char r"

type_synonym field = "string \<times> jval"

definition field_text :: "field \<Rightarrow> string" where
  "field_text f = DQ # fst f @ DQ # CHR '':'' # CHR '' '' # jval_text (snd f)"

fun fields_text :: "string \<Rightarrow> field list \<Rightarrow> string" where
  "fields_text sep [] = []"
| "fields_text sep [f] = field_text f"
| "fields_text sep (f # fs) = field_text f @ sep @ fields_text sep fs"

definition fields_ok :: "field list \<Rightarrow> bool" where
  "fields_ok fs \<longleftrightarrow> list_all (\<lambda>f. simple_key (fst f) \<and> jval_ok (snd f)) fs"

definition sep_ok :: "string \<Rightarrow> bool" where
  "sep_ok sep \<longleftrightarrow> sep \<noteq> [] \<and> hd sep = CHR '','' \<and> list_all isspace (tl sep)"

definition field_end :: "string \<Rightarrow> bool" where
  "field_end r \<longleftrightarrow> no_colon r \<and> (r = [] \<or> \<not> (isalnum (hd r) \<or> hd r = CHR ''_''))"

lemma raw_char_safe:
  assumes "raw_char c"
  shows "c \<noteq> DQ" "c \<noteq> NUL" "\<not> isspace c" "c \<noteq> CHR ''{''" "c \<noteq> CHR ''}''" "c \<noteq> CHR ''[''" "c \<noteq> CHR '']''"
  using assms by (auto simp: raw_char_def isalnum_def isdigit_def code_of_def isspace_def)

lemma raw_free:
  assumes "list_all raw_char x"
  shows "DQ \<notin> set x" "NUL \<notin> set x" "CHR ''{'' \<notin> set x" "CHR ''}'' \<notin> set x"
    "CHR ''['' \<notin> set x" "CHR '']'' \<notin> set x"
  using assms raw_char_safe unfolding list_all_iff by metis+

lemma sep_safe:
  assumes "sep_ok sep" and "c \<in> set sep"
  shows "c \<noteq> DQ" "c \<noteq> NUL" "c \<noteq> CHR ''{''" "c \<noteq> CHR ''}''" "c \<noteq> CHR ''[''" "c \<noteq> CHR '']''"
proof -
  obtain ws where "sep = CHR '','' # ws" "list_all isspace ws"
    using assms(1) by (cases sep) (auto simp: sep_ok_def)
  with assms(2) have "c = CHR '','' \<or> isspace c" by (auto simp: list_all_iff)
  then show "c \<noteq> DQ" "c \<noteq> NUL" "c \<noteq> CHR ''{''" "c \<noteq> CHR ''}''" "c \<noteq> CHR ''[''" "c \<noteq> CHR '']''"
    by (auto simp: isspace_def)
qed

lemma sep_free:
  assumes "sep_ok sep"
  shows "DQ \<notin> set sep" "NUL \<notin> set sep" "CHR ''{'' \<notin> set sep" "CHR ''}'' \<notin> set sep"
    "CHR ''['' \<notin> set sep" "CHR '']'' \<notin> set sep"
  using sep_safe [OF assms] by blast+

lemma field_end_comma: "field_end (CHR '','' # r)"
  by (simp add: field_end_def no_colon_def isspace_def isalnum_def isdigit_def code_of_def)

lemma field_end_sep: "sep_ok sep \<Longrightarrow> field_end (sep @ r)"
  using field_end_comma by (cases sep) (auto simp: sep_ok_def)

lemma field_end_not_key: "field_end r \<Longrightarrow> simple_key key \<Longrightarrow> \<not> prefix (key @ [DQ]) r"
  by (cases key; cases r) (auto simp: field_end_def simple_key_def)

lemma jval_hd: "jval_ok v \<Longrightarrow> \<exists>c r. jval_text v = c # r \<and> \<not> isspace c"
  by (cases v; cases "jval_text v")
     (auto simp: json_write_escaped_def isspace_def raw_char_def isalnum_def isdigit_def code_of_def)

lemma find_key_skip_value:
  assumes d: "drop p t = jval_text v @ r" and "p + length (jval_text v) \<le> e"
    and "e \<le> length t" and "simple_key key" and "jval_ok v" and "field_end r"
  shows "find_key_loop t p e (DQ # key @ [DQ]) =
    find_key_loop t (p + length (jval_text v)) e (DQ # key @ [DQ])"
proof (cases v)
  case (JStr s)
  with assms show ?thesis
    using field_end_not_key find_key_skip_written [of p t s r e key] by (auto simp: field_end_def)
next
  case (JRaw x)
  with assms have "DQ \<notin> set x" "NUL \<notin> set x" using raw_free by auto
  with assms JRaw show ?thesis
    using find_key_skip_plain [of p t x r e "key @ [DQ]"] by simp
qed

lemma find_key_skip_field:
  assumes d: "drop p t = field_text f @ r" and "p + length (field_text f) \<le> e"
    and "e \<le> length t" and "simple_key key" and "simple_key (fst f)" and "fst f \<noteq> key"
    and "jval_ok (snd f)" and "field_end r"
  shows "find_key_loop t p e (DQ # key @ [DQ]) =
    find_key_loop t (p + length (field_text f)) e (DQ # key @ [DQ])"
proof -
  let ?k = "json_write_escaped (fst f)" and ?v = "jval_text (snd f)"
  have w: "?k = DQ # fst f @ [DQ]" using assms(5) by (rule written_simple)
  have d0: "drop p t = ?k @ CHR '':'' # CHR '' '' # ?v @ r"
    using d by (simp add: w field_text_def)
  have d1: "drop (p + length ?k) t = '': '' @ ?v @ r" using drop_step [OF d0] by simp
  have d2: "drop (p + length ?k + 2) t = ?v @ r" using drop_step [OF d1] by (simp add: numeral_2_eq_2)
  have len: "p + length ?k + 2 + length ?v \<le> e" using assms(2) by (simp add: w field_text_def)
  have "\<not> prefix (key @ [DQ]) (CHR '':'' # CHR '' '' # ?v @ r)"
    using assms(4) by (cases key) (auto simp: simple_key_def isalnum_def isdigit_def code_of_def)
  then have "find_key_loop t p e (DQ # key @ [DQ]) =
      find_key_loop t (p + length ?k) e (DQ # key @ [DQ])"
    using assms len by (intro find_key_skip_written [OF d0]) auto
  also have "\<dots> = find_key_loop t (p + length ?k + 2) e (DQ # key @ [DQ])"
    using find_key_skip_plain [of "p + length ?k" t "'': ''" "?v @ r" e "key @ [DQ]"] d1 len assms(3)
    by (simp add: numeral_2_eq_2)
  also have "\<dots> = find_key_loop t (p + length ?k + 2 + length ?v) e (DQ # key @ [DQ])"
    using d2 len assms by (intro find_key_skip_value) auto
  finally show ?thesis by (simp add: w field_text_def add.commute add.left_commute)
qed

text \<open>Reading a key of a list of fields finds the first field with that key.\<close>

lemma find_key_fields:
  assumes "drop p t = fields_text sep fs @ r" and "p + length (fields_text sep fs) < e"
    and "e \<le> length t" and "fields_ok fs" and "sep_ok sep" and "field_end r" and "simple_key key"
    and "map_of fs key = Some v"
  shows "\<exists>q r'. find_key_loop t p e (DQ # key @ [DQ]) = Some q \<and> drop q t = jval_text v @ r' \<and>
    field_end r' \<and> q + length (jval_text v) \<le> e"
  using assms
proof (induction sep fs arbitrary: p rule: fields_text.induct)
  case (1 sep)
  then show ?case by simp
next
  case (2 sep f)
  then have f: "fst f = key" "snd f = v" and ok: "jval_ok v"
    by (auto simp: fields_ok_def split: if_splits prod.splits)
  obtain c x where c: "jval_text v = c # x" "\<not> isspace c" using jval_hd [OF ok] by blast
  have d: "drop p t = DQ # key @ DQ # CHR '':'' # CHR '' '' # c # (x @ r)"
    using 2(1) f c by (simp add: field_text_def)
  then have "drop p t = (DQ # key @ DQ # '': '') @ jval_text v @ r" using c by simp
  from drop_step [OF this] have "drop (p + length key + 4) t = jval_text v @ r" by (simp add: eval_nat_numeral)
  moreover have "find_key_loop t p e (DQ # key @ [DQ]) = Some (p + length key + 4)"
    using 2(2) f c by (intro find_key_hit [OF d c(2)]) (simp add: field_text_def)
  moreover have "p + length key + 4 + length (jval_text v) \<le> e"
    using 2(2) f by (simp add: field_text_def)
  ultimately show ?case using 2(6) by blast
next
  case (3 sep f g fs)
  let ?rest = "sep @ fields_text sep (g # fs)"
  have ok: "simple_key (fst f)" "jval_ok (snd f)" "fields_ok (g # fs)"
    using "3.prems"(4) by (auto simp: fields_ok_def)
  have d: "drop p t = field_text f @ ?rest @ r" using "3.prems"(1) by simp
  have fe: "field_end (?rest @ r)" using field_end_sep [OF "3.prems"(5)] by simp
  show ?case
  proof (cases "fst f = key")
    case True
    then have f: "fst f = key" "snd f = v" using "3.prems"(8) by (cases f, auto)+
    obtain c x where c: "jval_text v = c # x" "\<not> isspace c" using jval_hd [of v] ok f by blast
    have d0: "drop p t = DQ # key @ DQ # CHR '':'' # CHR '' '' # c # (x @ ?rest @ r)"
      using d f c by (simp add: field_text_def)
    then have "drop p t = (DQ # key @ DQ # '': '') @ jval_text v @ ?rest @ r" using c by simp
    from drop_step [OF this] have "drop (p + length key + 4) t = jval_text v @ ?rest @ r"
      by (simp add: eval_nat_numeral)
    moreover have "find_key_loop t p e (DQ # key @ [DQ]) = Some (p + length key + 4)"
      using "3.prems"(2) f c by (intro find_key_hit [OF d0 c(2)]) (simp add: field_text_def)
    moreover have "p + length key + 4 + length (jval_text v) \<le> e"
      using "3.prems"(2) f by (simp add: field_text_def)
    ultimately show ?thesis using fe by blast
  next
    case False
    have len: "p + length (field_text f) + length ?rest < e" using "3.prems"(2) by simp
    have d1: "drop (p + length (field_text f)) t = sep @ fields_text sep (g # fs) @ r"
      using drop_step [OF d] by simp
    have d2: "drop (p + length (field_text f) + length sep) t = fields_text sep (g # fs) @ r"
      using drop_step [OF d1] by simp
    have "find_key_loop t p e (DQ # key @ [DQ]) =
        find_key_loop t (p + length (field_text f)) e (DQ # key @ [DQ])"
      using d ok fe len "3.prems" False by (intro find_key_skip_field) auto
    also have "\<dots> = find_key_loop t (p + length (field_text f) + length sep) e (DQ # key @ [DQ])"
      using d1 len "3.prems"(3) sep_safe [OF "3.prems"(5)] by (intro find_key_skip_plain) auto
    finally show ?thesis
      using "3.IH" [OF d2] len ok "3.prems" False by (cases f) auto
  qed
qed

section \<open>Reading one object back\<close>

definition object_text :: "string \<Rightarrow> field list \<Rightarrow> string" where
  "object_text sep fs = ''{ '' @ fields_text sep fs @ '' }''"

lemma find_key_object:
  assumes "fields_ok fs" and "sep_ok sep" and "simple_key key" and "map_of fs key = Some v"
  shows "\<exists>q r. json_find_key_value (object_text sep fs) 0 (length (object_text sep fs)) key = Some q \<and>
    drop q (object_text sep fs) = jval_text v @ r \<and> field_end r \<and>
    q + length (jval_text v) \<le> length (object_text sep fs)"
proof -
  let ?t = "object_text sep fs"
  have d: "drop 0 ?t = ''{ '' @ fields_text sep fs @ '' }''" by (simp add: object_text_def)
  from drop_step [OF d] have d2: "drop 2 ?t = fields_text sep fs @ '' }''" by (simp add: numeral_2_eq_2)
  have "find_key_loop ?t 0 (length ?t) (DQ # key @ [DQ]) = find_key_loop ?t 2 (length ?t) (DQ # key @ [DQ])"
    using find_key_skip_plain [OF d] by (simp add: object_text_def numeral_2_eq_2)
  moreover have "field_end '' }''"
    by (simp add: field_end_def no_colon_def isspace_def isalnum_def isdigit_def code_of_def)
  ultimately show ?thesis
    using find_key_fields [OF d2, of "length ?t" key v] assms
    by (simp add: json_find_key_value_def key_pattern_simple object_text_def)
qed

lemma get_string_object:
  assumes "fields_ok fs" and "sep_ok sep" and "simple_key key" and "map_of fs key = Some (JStr s)"
    and "0 < cap"
  shows "json_get_string (object_text sep fs) 0 (length (object_text sep fs)) key cap old =
    (True, take (cap - 1) (decoded s))"
proof -
  have "NUL \<notin> set s"
    using assms(1,4) by (auto simp: fields_ok_def list_all_iff dest!: map_of_SomeD)
  with find_key_object [OF assms(1-4)] assms(5) show ?thesis
    by (auto simp: json_get_string_def decode_written)
qed

lemma get_bool_object:
  assumes "fields_ok fs" and "sep_ok sep" and "simple_key key"
    and "map_of fs key = Some (JRaw (if b then ''true'' else ''false''))"
  shows "json_get_bool (object_text sep fs) 0 (length (object_text sep fs)) key dflt = b"
  using find_key_object [OF assms] by (auto simp: json_get_bool_def split: if_splits)

text \<open>A key that is not among the fields is not found, whatever the values hold.\<close>

lemma find_key_no_quote:
  assumes "drop p t = cs" and "DQ \<notin> set cs"
  shows "find_key_loop t p e (DQ # k) = None"
proof -
  have "strstr cs (DQ # k) = None"
    using assms(2) by (induction cs) auto
  then show ?thesis using assms(1) by (subst find_key_loop.simps) simp
qed

lemma find_key_fields_absent:
  assumes "drop p t = fields_text sep fs @ r" and "p + length (fields_text sep fs) \<le> e"
    and "e \<le> length t" and "fields_ok fs" and "sep_ok sep" and "field_end r" and "simple_key key"
    and "key \<notin> fst ` set fs"
  shows "find_key_loop t p e (DQ # key @ [DQ]) =
    find_key_loop t (p + length (fields_text sep fs)) e (DQ # key @ [DQ])"
  using assms
proof (induction sep fs arbitrary: p rule: fields_text.induct)
  case (1 sep)
  then show ?case by simp
next
  case (2 sep f)
  then show ?case
    using find_key_skip_field [of p t f r e key] by (simp add: fields_ok_def)
next
  case (3 sep f g fs)
  let ?rest = "sep @ fields_text sep (g # fs)"
  have ok: "simple_key (fst f)" "jval_ok (snd f)" "fields_ok (g # fs)"
    using "3.prems"(4) by (auto simp: fields_ok_def)
  have d: "drop p t = field_text f @ ?rest @ r" using "3.prems"(1) by simp
  have fe: "field_end (?rest @ r)" using field_end_sep [OF "3.prems"(5)] by simp
  have len: "p + length (field_text f) + length ?rest \<le> e" using "3.prems"(2) by simp
  have d1: "drop (p + length (field_text f)) t = sep @ fields_text sep (g # fs) @ r"
    using drop_step [OF d] by simp
  have d2: "drop (p + length (field_text f) + length sep) t = fields_text sep (g # fs) @ r"
    using drop_step [OF d1] by simp
  have "find_key_loop t p e (DQ # key @ [DQ]) =
      find_key_loop t (p + length (field_text f)) e (DQ # key @ [DQ])"
    using d ok fe len "3.prems" by (intro find_key_skip_field) auto
  also have "\<dots> = find_key_loop t (p + length (field_text f) + length sep) e (DQ # key @ [DQ])"
    using d1 len "3.prems"(3) sep_free [OF "3.prems"(5)] by (intro find_key_skip_plain) auto
  also have "\<dots> = find_key_loop t (p + length (field_text f) + length sep +
      length (fields_text sep (g # fs))) e (DQ # key @ [DQ])"
    using "3.IH" [OF d2] len ok "3.prems" by auto
  finally show ?case by (simp add: add.assoc)
qed

lemma find_key_object_absent:
  assumes "fields_ok fs" and "sep_ok sep" and "simple_key key" and "key \<notin> fst ` set fs"
  shows "json_find_key_value (object_text sep fs) 0 (length (object_text sep fs)) key = None"
proof -
  let ?t = "object_text sep fs"
  have d: "drop 0 ?t = ''{ '' @ fields_text sep fs @ '' }''" by (simp add: object_text_def)
  from drop_step [OF d] have d2: "drop 2 ?t = fields_text sep fs @ '' }''" by (simp add: numeral_2_eq_2)
  from drop_step [OF d2] have d3: "drop (2 + length (fields_text sep fs)) ?t = '' }''" by simp
  have "find_key_loop ?t 0 (length ?t) (DQ # key @ [DQ]) = find_key_loop ?t 2 (length ?t) (DQ # key @ [DQ])"
    using find_key_skip_plain [OF d] by (simp add: object_text_def numeral_2_eq_2)
  also have "\<dots> = find_key_loop ?t (2 + length (fields_text sep fs)) (length ?t) (DQ # key @ [DQ])"
    using assms by (intro find_key_fields_absent [OF d2])
      (auto simp: object_text_def field_end_def no_colon_def isspace_def isalnum_def isdigit_def code_of_def)
  also have "\<dots> = None" using find_key_no_quote [OF d3] by simp
  finally show ?thesis using assms(3) by (simp add: json_find_key_value_def key_pattern_simple)
qed

section \<open>Passing over brackets\<close>

text \<open>
  What the writers print between brackets is a list of segments: written strings, and text with
  neither quotes nor the brackets that are being matched.
\<close>

datatype seg = Plain string | Written string

fun seg_text :: "seg \<Rightarrow> string" where
  "seg_text (Plain s) = s"
| "seg_text (Written s) = json_write_escaped s"

fun seg_ok :: "char \<Rightarrow> char \<Rightarrow> seg \<Rightarrow> bool" where
  "seg_ok op cl (Plain s) \<longleftrightarrow> DQ \<notin> set s \<and> op \<notin> set s \<and> cl \<notin> set s"
| "seg_ok op cl (Written s) \<longleftrightarrow> True"

abbreviation segs_text :: "seg list \<Rightarrow> string" where
  "segs_text ss \<equiv> concat (map seg_text ss)"

lemma match_plain_list:
  assumes "drop p t = cs @ r" and "p + length cs \<le> e" and "seg_ok op cl (Plain cs)"
  shows "match_loop t e op cl p depth False False body =
    match_loop t e op cl (p + length cs) depth False False body"
  using assms
proof (induction cs arbitrary: p)
  case Nil
  then show ?case by simp
next
  case (Cons c cs)
  then have "match_loop t e op cl p depth False False body =
      match_loop t e op cl (p + 1) depth False False body"
    by (intro match_step) auto
  also have "\<dots> = match_loop t e op cl (p + 1 + length cs) depth False False body"
    using Cons.prems drop_step1 [of p t c "cs @ r"] by (intro Cons.IH) auto
  finally show ?case by simp
qed

lemma match_segs:
  assumes "drop p t = segs_text ss @ r" and "p + length (segs_text ss) \<le> e" and "list_all (seg_ok op cl) ss"
  shows "match_loop t e op cl p depth False False body =
    match_loop t e op cl (p + length (segs_text ss)) depth False False body"
  using assms
proof (induction ss arbitrary: p)
  case Nil
  then show ?case by simp
next
  case (Cons s ss)
  have "match_loop t e op cl p depth False False body =
      match_loop t e op cl (p + length (seg_text s)) depth False False body"
  proof (cases s)
    case (Plain cs)
    then show ?thesis using Cons.prems match_plain_list [of p t cs "segs_text ss @ r" e op cl] by simp
  next
    case (Written w)
    then show ?thesis using Cons.prems match_written [of p t w "segs_text ss @ r" e op cl] by simp
  qed
  also have "\<dots> = match_loop t e op cl (p + length (seg_text s) + length (segs_text ss)) depth False False body"
    using Cons.prems drop_step [of p t "seg_text s" "segs_text ss @ r"] by (intro Cons.IH) auto
  finally show ?case by (simp add: add.assoc)
qed

text \<open>A bracketed text whose inside is made of segments is matched to its own closing bracket.\<close>

lemma match_container_segs:
  assumes d: "drop p t = op # segs_text ss @ cl # r" and "p + length (segs_text ss) + 2 \<le> e"
    and "list_all (seg_ok op cl) ss" and "op \<noteq> cl" and "op \<noteq> DQ" and "cl \<noteq> DQ"
  shows "json_match_container t p e op cl =
    Some (p + 1, p + 1 + length (segs_text ss), p + length (segs_text ss) + 2)"
proof -
  let ?q = "p + 1 + length (segs_text ss)"
  have d1: "drop (p + 1) t = segs_text ss @ cl # r" by (rule drop_step1 [OF d])
  have d2: "drop ?q t = cl # r" by (rule drop_step [OF d1])
  have "match_loop t e op cl p 0 False False 0 = match_loop t e op cl (p + 1) 1 False False (p + 1)"
    using byte_at_drop [OF d] assms by (simp add: match_loop.simps [of t e op cl p])
  also have "\<dots> = match_loop t e op cl ?q 1 False False (p + 1)"
    using assms by (intro match_segs [OF d1]) auto
  also have "\<dots> = Some (p + 1, ?q, ?q + 1)"
    using byte_at_drop [OF d2] assms by (subst match_loop.simps) simp
  finally show ?thesis
    using byte_at_drop [OF d] assms(2) by (simp add: json_match_container_def)
qed

fun val_seg :: "jval \<Rightarrow> seg" where
  "val_seg (JStr s) = Written s"
| "val_seg (JRaw r) = Plain r"

definition field_segs :: "field \<Rightarrow> seg list" where
  "field_segs f = [Written (fst f), Plain '': '', val_seg (snd f)]"

fun fields_segs :: "string \<Rightarrow> field list \<Rightarrow> seg list" where
  "fields_segs sep [] = []"
| "fields_segs sep [f] = field_segs f"
| "fields_segs sep (f # fs) = field_segs f @ Plain sep # fields_segs sep fs"

definition bracket_pair :: "char \<Rightarrow> char \<Rightarrow> bool" where
  "bracket_pair op cl \<longleftrightarrow> (op, cl) \<in> {(CHR ''{'', CHR ''}''), (CHR ''['', CHR '']'')}"

lemma val_seg_text [simp]: "seg_text (val_seg v) = jval_text v"
  by (cases v) auto

lemma field_segs_text: "simple_key (fst f) \<Longrightarrow> segs_text (field_segs f) = field_text f"
  by (simp add: field_segs_def field_text_def written_simple)

lemma fields_segs_text: "fields_ok fs \<Longrightarrow> segs_text (fields_segs sep fs) = fields_text sep fs"
  by (induction sep fs rule: fields_segs.induct) (auto simp: fields_ok_def field_segs_text)

lemma field_segs_ok:
  "jval_ok (snd f) \<Longrightarrow> bracket_pair op cl \<Longrightarrow> list_all (seg_ok op cl) (field_segs f)"
  using raw_free by (cases "snd f") (auto simp: field_segs_def bracket_pair_def)

lemma sep_seg_ok: "sep_ok sep \<Longrightarrow> bracket_pair op cl \<Longrightarrow> seg_ok op cl (Plain sep)"
  using sep_free by (auto simp: bracket_pair_def)

lemma fields_segs_ok:
  "fields_ok fs \<Longrightarrow> sep_ok sep \<Longrightarrow> bracket_pair op cl \<Longrightarrow> list_all (seg_ok op cl) (fields_segs sep fs)"
  by (induction sep fs rule: fields_segs.induct)
     (simp_all add: fields_ok_def field_segs_ok sep_seg_ok del: seg_ok.simps)

lemma skip_to_plain:
  assumes "drop p t = cs @ c # r" and "c \<notin> set cs" and "p + length cs < e"
  shows "skip_to t p e c = p + length cs"
  using assms
proof (induction cs arbitrary: p)
  case Nil
  then show ?case using byte_at_drop [of p t c r] by (simp add: skip_to.simps)
next
  case (Cons a cs)
  have "skip_to t (p + 1) e c = p + 1 + length cs"
    using Cons.prems drop_step1 [of p t a "cs @ c # r"] by (intro Cons.IH) auto
  moreover have "a \<noteq> c" using Cons.prems(2) by auto
  ultimately show ?case
    using Cons.prems byte_at_drop [of p t a "cs @ c # r"] by (simp add: skip_to.simps [of t p])
qed

lemma skip_to_none:
  assumes "drop p t = cs @ r" and "c \<notin> set cs"
  shows "skip_to t p (p + length cs) c = p + length cs"
  using assms
proof (induction cs arbitrary: p)
  case Nil
  then show ?case by (simp add: skip_to.simps)
next
  case (Cons a cs)
  have "skip_to t (p + 1) (p + 1 + length cs) c = p + 1 + length cs"
    using Cons.prems drop_step1 [of p t a "cs @ r"] by (intro Cons.IH) auto
  moreover have "a \<noteq> c" using Cons.prems(2) by auto
  ultimately show ?case
    using Cons.prems byte_at_drop [of p t a "cs @ r"] by (simp add: skip_to.simps [of t p])
qed

lemma next_object_written:
  assumes "drop p t = pre @ object_text sep fs @ r" and "CHR ''{'' \<notin> set pre"
    and "p + length pre + length (object_text sep fs) \<le> e" and "fields_ok fs" and "sep_ok sep"
  shows "json_next_object t p e =
    Some (p + length pre, p + length pre + length (object_text sep fs))"
proof -
  let ?ss = "Plain '' '' # fields_segs sep fs @ [Plain '' '']"
  have obj: "object_text sep fs = CHR ''{'' # segs_text ?ss @ [CHR ''}'']"
    using assms(4) by (simp add: object_text_def fields_segs_text)
  have d: "drop p t = pre @ CHR ''{'' # (segs_text ?ss @ CHR ''}'' # r)"
    using assms(1) by (simp add: obj)
  have "skip_to t p e CHR ''{'' = p + length pre"
    using assms(3) by (intro skip_to_plain [OF d assms(2)]) (simp add: obj)
  moreover have "list_all (seg_ok CHR ''{'' CHR ''}'') ?ss"
    using fields_segs_ok assms(4,5) by (simp add: bracket_pair_def)
  moreover have "drop (p + length pre) t = CHR ''{'' # segs_text ?ss @ CHR ''}'' # r"
    by (rule drop_step [OF d])
  moreover have "p + length pre + length (segs_text ?ss) + 2 \<le> e" using assms(3) by (simp add: obj)
  ultimately have "json_match_container t (p + length pre) e CHR ''{'' CHR ''}'' =
      Some (p + length pre + 1, p + length pre + 1 + length (segs_text ?ss),
        p + length pre + length (segs_text ?ss) + 2)"
    by (intro match_container_segs) auto
  moreover have "length (object_text sep fs) = length (segs_text ?ss) + 2" by (simp add: obj)
  moreover have "p + length pre < e" using assms(3) by (simp add: obj)
  ultimately show ?thesis
    using \<open>skip_to t p e CHR ''{'' = p + length pre\<close> by (simp add: json_next_object_def Let_def)
qed

section \<open>Loops over written arrays\<close>

text \<open>The loop over a list of object texts that a loop over a written array turns into.\<close>

fun fold_while :: "('s \<Rightarrow> bool) \<Rightarrow> ('a \<Rightarrow> 's \<Rightarrow> 's) \<Rightarrow> 'a list \<Rightarrow> 's \<Rightarrow> 's" where
  "fold_while go f [] st = st"
| "fold_while go f (x # xs) st = (if \<not> go st then st else fold_while go f xs (f x st))"

definition item_text :: "string \<Rightarrow> string \<times> field list \<Rightarrow> string" where
  "item_text sep i = fst i @ object_text sep (snd i)"

abbreviation items_text :: "string \<Rightarrow> (string \<times> field list) list \<Rightarrow> string" where
  "items_text sep its \<equiv> concat (map (item_text sep) its)"

definition item_ok :: "string \<times> field list \<Rightarrow> bool" where
  "item_ok i \<longleftrightarrow> CHR ''{'' \<notin> set (fst i) \<and> fields_ok (snd i)"

lemma jval_no_nul: "jval_ok v \<Longrightarrow> NUL \<notin> set (jval_text v)"
  using written_no_nul raw_free(2) by (cases v) auto

lemma fields_no_nul: "fields_ok fs \<Longrightarrow> sep_ok sep \<Longrightarrow> NUL \<notin> set (fields_text sep fs)"
proof (induction sep fs rule: fields_text.induct)
  case (3 sep f g fs)
  then have "NUL \<notin> set (fields_text sep (g # fs))" "NUL \<notin> set (field_text f)"
    using jval_no_nul [of "snd f"] by (auto simp: fields_ok_def field_text_def)
  with sep_free(2) [OF "3.prems"(2)] show ?case by simp
qed (auto simp: fields_ok_def field_text_def dest: jval_no_nul)

lemma object_no_nul: "fields_ok fs \<Longrightarrow> sep_ok sep \<Longrightarrow> NUL \<notin> set (object_text sep fs)"
  using fields_no_nul by (simp add: object_text_def)

lemma range_dup_at:
  assumes "drop s t = x @ r" and "NUL \<notin> set x"
  shows "range_dup t s (s + length x) = x"
  using assms by (simp add: range_dup_def)

lemma each_object_written:
  assumes "drop p t = items_text sep its @ tail @ r"
    and "e = p + length (items_text sep its) + length tail"
    and "list_all item_ok its" and "sep_ok sep" and "CHR ''{'' \<notin> set tail"
  shows "json_each_object t e p go (\<lambda>s a. body (range_dup t s a)) st =
    fold_while go body (map (\<lambda>i. object_text sep (snd i)) its) st"
  using assms
proof (induction its arbitrary: p st)
  case Nil
  then have "skip_to t p e CHR ''{'' = e" using skip_to_none [of p t tail r "CHR ''{''"] by simp
  then show ?case
    by (subst json_each_object.simps) (simp add: json_next_object_def Let_def)
next
  case (Cons i its)
  let ?obj = "object_text sep (snd i)"
  have d: "drop p t = fst i @ ?obj @ (items_text sep its @ tail @ r)"
    using Cons.prems(1) by (simp add: item_text_def [of sep i])
  have ok: "CHR ''{'' \<notin> set (fst i)" "fields_ok (snd i)"
    using Cons.prems(3) by (auto simp: item_ok_def)
  have len: "p + length (fst i) + length ?obj \<le> e"
    using Cons.prems(2) by (simp add: item_text_def [of sep i])
  have nxt: "json_next_object t p e = Some (p + length (fst i), p + length (fst i) + length ?obj)"
    by (rule next_object_written [OF d ok(1) len ok(2) Cons.prems(4)])
  have d1: "drop (p + length (fst i)) t = ?obj @ (items_text sep its @ tail @ r)"
    by (rule drop_step [OF d])
  have obj: "range_dup t (p + length (fst i)) (p + length (fst i) + length ?obj) = ?obj"
    using range_dup_at [OF d1] object_no_nul ok(2) Cons.prems(4) by simp
  have d2: "drop (p + length (fst i) + length ?obj) t = items_text sep its @ tail @ r"
    by (rule drop_step [OF d1])
  have "json_each_object t e (p + length (fst i) + length ?obj) go (\<lambda>s a. body (range_dup t s a)) st' =
      fold_while go body (map (\<lambda>i. object_text sep (snd i)) its) st'" for st'
    using Cons.prems by (intro Cons.IH d2) (auto simp: item_text_def [of sep i])
  with nxt obj show ?case by (subst json_each_object.simps) simp
qed

text \<open>Items as segments, so that the array around them can be matched.\<close>

lemma object_segs:
  "fields_ok fs \<Longrightarrow> object_text sep fs = segs_text (Plain ''{ '' # fields_segs sep fs @ [Plain '' }''])"
  by (simp add: object_text_def fields_segs_text)

lemma array_match:
  assumes "drop p t = CHR ''['' # items_text sep its @ tail @ CHR '']'' # r"
    and "p + length (items_text sep its) + length tail + 2 \<le> e"
    and "list_all item_ok its" and "sep_ok sep"
    and "\<forall>i \<in> set its. seg_ok CHR ''['' CHR '']'' (Plain (fst i))"
    and "seg_ok CHR ''['' CHR '']'' (Plain tail)"
  shows "json_match_container t p e CHR ''['' CHR '']'' =
    Some (p + 1, p + 1 + length (items_text sep its) + length tail,
      p + length (items_text sep its) + length tail + 2)"
proof -
  define ss where "ss = concat (map (\<lambda>i. Plain (fst i) # Plain ''{ '' # fields_segs sep (snd i) @ [Plain '' }'']) its)"
  have eq: "segs_text (ss @ [Plain tail]) = items_text sep its @ tail"
    using assms(3) unfolding ss_def
    by (induction its) (auto simp: item_text_def item_ok_def object_text_def fields_segs_text)
  have "list_all (seg_ok CHR ''['' CHR '']'') ss"
    using assms(3,5) fields_segs_ok [OF _ assms(4)] unfolding ss_def
    by (induction its) (auto simp: item_ok_def bracket_pair_def)
  with assms match_container_segs [of p t "CHR ''[''" "ss @ [Plain tail]" "CHR '']''" r e] eq
  show ?thesis by (simp flip: append_assoc)
qed

end
