(* ===== verification/TextValid.thy ===== *)
theory TextValid
  imports JsonObjects
begin

text \<open>
  The checks of \<open>src/frontend/plumos_text_ui.c\<close> on text from outside: identifiers, policies, audio
  and emulator options, relative paths and the \<open>#\<close> suffix that selects a file inside a DOS
  package; and the path routines around them. Null pointers are not modelled.
\<close>

section \<open>Limits\<close>

definition TEXT_PATH_MAX :: nat where "TEXT_PATH_MAX = 1024"
definition TEXT_COMMAND_MAX :: nat where "TEXT_COMMAND_MAX = 8192"
definition MAX_CORE_PROFILES :: nat where "MAX_CORE_PROFILES = 32"
definition MAX_SYSTEM_CORE_OVERRIDES :: nat where "MAX_SYSTEM_CORE_OVERRIDES = 256"
definition MAX_ROM_CORE_OVERRIDES :: nat where "MAX_ROM_CORE_OVERRIDES = 1024"
definition MAX_FAVORITES :: nat where "MAX_FAVORITES = 2048"
definition MAX_RECENTS :: nat where "MAX_RECENTS = 256"

lemmas text_limits = TEXT_PATH_MAX_def TEXT_COMMAND_MAX_def MAX_CORE_PROFILES_def
  MAX_SYSTEM_CORE_OVERRIDES_def MAX_ROM_CORE_OVERRIDES_def MAX_FAVORITES_def MAX_RECENTS_def

section \<open>Identifiers and options\<close>

definition valid_system_id :: "string \<Rightarrow> bool" where
  "valid_system_id s \<longleftrightarrow> s \<noteq> [] \<and> list_all (\<lambda>c. isalnum c \<or> c = CHR ''_'' \<or> c = CHR ''-'') s"

definition valid_launch_profile_id :: "string \<Rightarrow> bool" where
  "valid_launch_profile_id s \<longleftrightarrow> s \<noteq> [] \<and>
     list_all (\<lambda>c. isalnum c \<or> c = CHR ''_'' \<or> c = CHR ''-'' \<or> c = CHR '':'' \<or> c = CHR ''.'') s"

definition valid_cpu_policy :: "string \<Rightarrow> bool" where
  "valid_cpu_policy s \<longleftrightarrow> s = ''interactive'' \<or> s = ''performance'' \<or> s = ''ondemand'' \<or>
     s = ''schedutil'' \<or> s = ''conservative''"

definition valid_retroarch_audio_driver :: "string \<Rightarrow> bool" where
  "valid_retroarch_audio_driver s \<longleftrightarrow>
     s = ''oss'' \<or> s = ''alsa'' \<or> s = ''alsathread'' \<or> s = ''mmf_ao''"

definition parse_audio_latency_ms :: "string \<Rightarrow> int option" where
  "parse_audio_latency_ms s =
     (if s = [] then None
      else let r = strtol s in
        if tol_range r \<or> tol_rest r \<noteq> [] \<or> tol_value r \<le> 0 \<or> 1000 < tol_value r then None
        else Some (tol_value r))"

definition valid_dosbox_bool :: "string \<Rightarrow> bool" where
  "valid_dosbox_bool s \<longleftrightarrow> s = ''true'' \<or> s = ''false''"

definition valid_dosbox_cycles :: "string \<Rightarrow> bool" where
  "valid_dosbox_cycles s \<longleftrightarrow>
     (if s = [] then False
      else if s = ''auto'' \<or> s = ''max'' then True
      else let r = strtol s in
        \<not> tol_range r \<and> tol_rest r = [] \<and> 0 < tol_value r \<and> tol_value r \<le> 1000000)"

section \<open>Relative paths and content suffixes\<close>

definition valid_content_suffix :: "string \<Rightarrow> bool" where
  "valid_content_suffix s =
     (case s of
        h # body \<Rightarrow>
          if h \<noteq> CHR ''#'' \<or> body = [] then False
          else if hd body = CHR ''/'' \<or> contains_str body ''../'' \<or> contains_str body ''/..'' \<or>
            body = ''..'' then False
          else list_all (\<lambda>c. \<not> (code_of c < 32 \<or> code_of c = 127 \<or> c = CHR ''#'')) body
      | [] \<Rightarrow> False)"

text \<open>
  The return value, the content of \<open>base_out\<close> and the pointer \<open>suffix_out\<close>, which is null when it
  was null before and no suffix is found (every caller sets it to null first).
\<close>

definition split_content_suffix :: "nat \<Rightarrow> string \<Rightarrow> bool \<times> string \<times> string option" where
  "split_content_suffix base_size path =
     (if path = [] then (False, [], None)
      else case strchr path CHR ''#'' of
        None \<Rightarrow> let (ok, base) = copy_string base_size path in (ok, base, None)
      | Some i \<Rightarrow>
          if \<not> valid_content_suffix (drop i path) then (False, [], None)
          else if i = 0 \<or> i + 1 > base_size then (False, [], None)
          else (True, take i path, Some (drop i path)))"

definition valid_relative_rom_path :: "string \<Rightarrow> bool" where
  "valid_relative_rom_path s \<longleftrightarrow>
     (if s = [] \<or> hd s = CHR ''/'' then False
      else \<not> (contains_str s ''../'' \<or> contains_str s ''/..'' \<or> s = ''..''))"

definition path_extension_lower :: "nat \<Rightarrow> string \<Rightarrow> bool \<times> string" where
  "path_extension_lower n path =
     (if path = [] \<or> n = 0 then (False, [])
      else case strrchr path CHR ''.'' of
        None \<Rightarrow> (False, [])
      | Some d \<Rightarrow>
          if (case strrchr path CHR ''/'' of Some s \<Rightarrow> d < s | None \<Rightarrow> False) \<or> drop (Suc d) path = []
          then (False, [])
          else if n < length (drop (Suc d) path) + 1 then (False, [])
          else (True, lower_string (drop (Suc d) path)))"

definition dirname_path :: "nat \<Rightarrow> string \<Rightarrow> bool \<times> string" where
  "dirname_path n path =
     (if n = 0 \<or> path = [] then (False, [])
      else case strrchr path CHR ''/'' of
        None \<Rightarrow> copy_string n ''.''
      | Some i \<Rightarrow>
          if i = 0 then copy_string n ''/''
          else if i + 1 > n then (False, [])
          else (True, take i path))"

definition build_system_cache_path :: "nat \<Rightarrow> string \<Rightarrow> string \<Rightarrow> bool \<times> string" where
  "build_system_cache_path n plumos_root system_id =
     (if length system_id + 6 > 128 then (False, [])
      else let (ok, dir) = join_path PATH_MAX plumos_root ''state/frontend/systems''
           in if \<not> ok then (False, []) else join_path n dir (system_id @ ''.json''))"

definition file_exists :: "os \<Rightarrow> string \<Rightarrow> bool" where
  "file_exists w path = (case os_stat w path of Some (k, _) \<Rightarrow> k = Regular | None \<Rightarrow> False)"

definition path_exists_any :: "os \<Rightarrow> string \<Rightarrow> bool" where
  "path_exists_any w path \<longleftrightarrow> os_stat w path \<noteq> None"

definition file_or_dir :: "os \<Rightarrow> string \<Rightarrow> bool" where
  "file_or_dir w path =
     (case os_stat w path of Some (k, _) \<Rightarrow> k = Regular \<or> k = Directory | None \<Rightarrow> False)"

definition rom_path_exists :: "os \<Rightarrow> string \<Rightarrow> bool" where
  "rom_path_exists w path =
     (if file_or_dir w path then True
      else let (ok, base_path, _) = split_content_suffix TEXT_PATH_MAX path
           in ok \<and> base_path \<noteq> path \<and> file_or_dir w base_path)"

definition text_json_get_string ::
    "string \<Rightarrow> nat \<Rightarrow> nat \<Rightarrow> string \<Rightarrow> nat \<Rightarrow> string \<Rightarrow> bool \<times> string" where
  "text_json_get_string t p e key cap old =
     (case json_find_key_value t p e key of
        None \<Rightarrow> (False, [])
      | Some v \<Rightarrow>
          if v < e \<and> take 4 (drop v t) = ''null'' then (False, [])
          else let (ok, _, out) = json_decode_string t e cap v old in (ok, out))"

definition json_get_long :: "string \<Rightarrow> nat \<Rightarrow> nat \<Rightarrow> string \<Rightarrow> int \<Rightarrow> int" where
  "json_get_long t p e key dflt =
     (case json_find_key_value t p e key of None \<Rightarrow> dflt | Some v \<Rightarrow> tol_value (strtol (drop v t)))"

definition json_next_string :: "string \<Rightarrow> nat \<Rightarrow> nat \<Rightarrow> nat \<Rightarrow> (nat \<times> string) option" where
  "json_next_string t cursor e cap =
     (let p = skip_to t cursor e DQ
      in if e \<le> p then None
         else case json_decode_string t e cap p [] of
           (ok, after, out) \<Rightarrow> if ok then Some (after, out) else None)"

lemma json_decode_loop_bounds:
  "p \<le> e \<Longrightarrow> p \<le> fst (json_decode_loop t e cap p out) \<and> fst (json_decode_loop t e cap p out) \<le> e"
proof (induction t e cap p out rule: json_decode_loop.induct)
  case (1 t e cap p out)
  show ?case
  proof (cases "p < e \<and> byte_at t p \<noteq> DQ")
    case True
    define esc where "esc = (byte_at t p = BSL \<and> p + 1 < e)"
    have "(if esc then p + 2 else p + 1) \<le> e" using True by (auto simp: esc_def)
    from "1.IH" [OF True esc_def refl this] show ?thesis
      by (subst (1 2) json_decode_loop.simps) (auto simp: True Let_def esc_def)
  qed (use "1.prems" in \<open>auto simp: json_decode_loop.simps [of t e cap p out]\<close>)
qed

lemma json_decode_loop_length:
  "length out < cap \<Longrightarrow> length (snd (json_decode_loop t e cap p out)) < cap"
proof (induction t e cap p out rule: json_decode_loop.induct)
  case (1 t e cap p out)
  then show ?case
    by (cases "p < e \<and> byte_at t p \<noteq> DQ") (auto simp: json_decode_loop.simps [of t e cap p out] Let_def)
qed

lemma json_decode_string_length:
  assumes "json_decode_string t e cap p old = (ok, q, out)" and "length old < cap"
  shows "length out < cap" and "NUL \<notin> set old \<Longrightarrow> NUL \<notin> set out"
proof -
  have "length (snd (json_decode_loop t e cap (p + 1) [])) < cap"
    using json_decode_loop_length [of "[]" cap t e "p + 1"] assms(2) by simp
  with assms show "length out < cap"
    by (auto simp: json_decode_string_def intro: le_less_trans [OF length_c_str]
        split: if_splits prod.splits)
  from assms show "NUL \<notin> set out" if "NUL \<notin> set old"
    using that by (auto simp: json_decode_string_def split: if_splits prod.splits)
qed

lemma text_json_get_string_length:
  assumes "0 < cap"
  shows "length (snd (text_json_get_string t p e key cap [])) < cap"
    and "NUL \<notin> set (snd (text_json_get_string t p e key cap []))"
  using assms json_decode_string_length [of t e cap _ "[]"]
  by (auto simp: text_json_get_string_def split: option.splits prod.splits)

lemma json_next_string_bounds:
  assumes "json_next_string t cursor e cap = Some (after, out)"
  shows "cursor < after \<and> after \<le> e"
proof -
  let ?p = "skip_to t cursor e DQ"
  obtain q out' where p: "?p < e" and q: "json_decode_loop t e cap (?p + 1) [] = (q, out')"
    and a: "q < e" "after = q + 1"
    using assms by (auto simp: json_next_string_def json_decode_string_def Let_def
        split: if_splits prod.splits)
  have "?p + 1 \<le> q" using json_decode_loop_bounds [of "?p + 1" e t cap "[]"] p q by simp
  with a show ?thesis using skip_to_bounds [of cursor t e DQ] by simp
qed

lemma json_next_string_length:
  "json_next_string t cursor e cap = Some (after, out) \<Longrightarrow> 0 < cap \<Longrightarrow> length out < cap \<and> NUL \<notin> set out"
  using json_decode_string_length [of t e cap _ "[]"]
  by (auto simp: json_next_string_def Let_def split: if_splits prod.splits)

section \<open>Components of a path\<close>

fun split_char :: "char \<Rightarrow> string \<Rightarrow> string list" where
  "split_char d [] = [[]]"
| "split_char d (c # cs) =
     (if c = d then [] # split_char d cs
      else case split_char d cs of x # xs \<Rightarrow> (c # x) # xs | [] \<Rightarrow> [[c]])"

abbreviation components :: "string \<Rightarrow> string list" where
  "components \<equiv> split_char CHR ''/''"

lemma split_char_ne [simp]: "split_char d s \<noteq> []"
  by (induction s) (auto split: list.splits)

lemma split_char_hd: "hd (split_char d s) = takeWhile (\<lambda>c. c \<noteq> d) s"
  by (induction s) (auto split: list.splits)

lemma split_char_free: "x \<in> set (split_char d s) \<Longrightarrow> d \<notin> set x"
  by (induction s arbitrary: x) (auto split: list.splits if_splits)

lemma split_char_tl_mem:
  "x \<in> set (tl (split_char d s)) \<Longrightarrow> sublist (d # x) s"
proof (induction s arbitrary: x)
  case Nil
  then show ?case by simp
next
  case (Cons c cs)
  show ?case
  proof (cases "c = d")
    case True
    with Cons.prems have "x \<in> set (split_char d cs)" by simp
    then consider "x = hd (split_char d cs)" | "x \<in> set (tl (split_char d cs))"
      by (cases "split_char d cs") auto
    then show ?thesis
    proof cases
      case 1
      then have "prefix x cs" by (simp add: split_char_hd takeWhile_is_prefix)
      with True show ?thesis by (simp add: sublist_Cons_right)
    next
      case 2
      with Cons.IH show ?thesis by (simp add: sublist_Cons_right)
    qed
  next
    case False
    with Cons show ?thesis by (auto simp: sublist_Cons_right split: list.splits)
  qed
qed

lemma split_char_hd_mem:
  assumes "hd (split_char d s) = x" and "d \<in> set s"
  shows "prefix (x @ [d]) s"
proof -
  obtain i where i: "i < length s" "s ! i = d" using assms(2) by (metis in_set_conv_nth)
  have "dropWhile (\<lambda>c. c \<noteq> d) s \<noteq> []" using assms(2) by (simp add: dropWhile_eq_Nil_conv)
  then obtain r where "dropWhile (\<lambda>c. c \<noteq> d) s = d # r"
    by (cases "dropWhile (\<lambda>c. c \<noteq> d) s") (auto simp: dropWhile_eq_Cons_conv)
  then have "s = x @ d # r"
    using assms(1) takeWhile_dropWhile_id [of "\<lambda>c. c \<noteq> d" s] by (simp add: split_char_hd)
  then show ?thesis by simp
qed

lemma split_char_cut:
  "split_char d s = (case dropWhile (\<lambda>c. c \<noteq> d) s of
     [] \<Rightarrow> [s] | _ # r \<Rightarrow> takeWhile (\<lambda>c. c \<noteq> d) s # split_char d r)"
proof (induction s)
  case Nil
  then show ?case by simp
next
  case (Cons a s)
  then show ?case by (cases "a = d"; cases "\<forall>x \<in> set s. x \<noteq> d")
      (simp_all add: dropWhile_eq_Nil_conv [THEN iffD2] split: list.splits)
qed

lemma split_char_cut_set:
  "set (split_char d s) = insert (takeWhile (\<lambda>c. c \<noteq> d) s)
     (case dropWhile (\<lambda>c. c \<noteq> d) s of [] \<Rightarrow> {} | _ # r \<Rightarrow> set (split_char d r))"
proof (cases "dropWhile (\<lambda>c. c \<noteq> d) s")
  case Nil
  then have t: "takeWhile (\<lambda>c. c \<noteq> d) s = s" by (simp add: dropWhile_eq_Nil_conv takeWhile_eq_all_conv)
  have u: "split_char d s = [s]" using split_char_cut [of d s] unfolding Nil by simp
  show ?thesis unfolding Nil u t by simp
next
  case (Cons x r)
  then show ?thesis using split_char_cut [of d s] unfolding Cons by simp
qed

lemma split_char_append:
  "split_char d (a @ d # b) = split_char d a @ split_char d b"
proof (induction a)
  case Nil
  then show ?case by simp
next
  case (Cons x xs)
  then show ?case by (cases "split_char d xs") auto
qed

lemma dotdot_component:
  assumes "''..'' \<in> set (components s)"
  shows "s = ''..'' \<or> sublist ''../'' s \<or> sublist ''/..'' s"
proof -
  from assms consider "''..'' = hd (components s)" | "''..'' \<in> set (tl (components s))"
    by (cases "components s") auto
  then show ?thesis
  proof cases
    case 1
    show ?thesis
    proof (cases "CHR ''/'' \<in> set s")
      case True
      then have "prefix ''../'' s"
        using split_char_hd_mem [of "CHR ''/''" s "''..''"] 1 [symmetric] by simp
      then show ?thesis by (simp add: prefix_imp_sublist)
    next
      case False
      then have "takeWhile (\<lambda>c. c \<noteq> CHR ''/'') s = s" by (auto simp: takeWhile_eq_all_conv)
      with 1 show ?thesis by (simp add: split_char_hd)
    qed
  qed (use split_char_tl_mem in auto)
qed

lemma no_dotdot:
  "\<not> contains_str s ''../'' \<Longrightarrow> \<not> contains_str s ''/..'' \<Longrightarrow> s \<noteq> ''..'' \<Longrightarrow> NUL \<notin> set s \<Longrightarrow>
     ''..'' \<notin> set (components s)"
  using dotdot_component contains_str_iff by blast

lemma split_content_suffix_parts:
  "split_content_suffix n path = (True, base, sfx) \<Longrightarrow>
     path = base @ (case sfx of Some s \<Rightarrow> s | None \<Rightarrow> []) \<and> CHR ''#'' \<notin> set base \<and>
     base \<noteq> [] \<and> length base < n \<and> (\<forall>s. sfx = Some s \<longrightarrow> valid_content_suffix s)"
  by (auto simp: split_content_suffix_def Let_def copy_string_def
      dest: strchr_SomeD split: if_splits option.splits)

section \<open>Properties\<close>

text \<open>
  A relative path the frontend accepts can not leave the directory it is joined to: it is not
  empty, it is not absolute, no component of it is \<open>..\<close>, and joining it to a directory keeps that
  directory as the first part of the path. A content suffix that is accepted has the same
  property for the part after its \<open>#\<close>, holds no control character and no second \<open>#\<close>.
\<close>

theorem accepted_path_stays_inside:
  assumes "NUL \<notin> set s"
  shows "(valid_relative_rom_path s \<longrightarrow>
      s \<noteq> [] \<and> hd s \<noteq> CHR ''/'' \<and> ''..'' \<notin> set (components s) \<and> prefix d (path_join d s)) \<and>
    (valid_content_suffix s \<longrightarrow> (\<exists>body. s = CHR ''#'' # body \<and> body \<noteq> [] \<and> hd body \<noteq> CHR ''/'' \<and>
      ''..'' \<notin> set (components body) \<and> CHR ''#'' \<notin> set body \<and> (\<forall>c \<in> set body. 32 \<le> code_of c)))"
proof
  show "valid_relative_rom_path s \<longrightarrow>
      s \<noteq> [] \<and> hd s \<noteq> CHR ''/'' \<and> ''..'' \<notin> set (components s) \<and> prefix d (path_join d s)"
    using no_dotdot [of s] assms by (auto simp: valid_relative_rom_path_def path_join_def)
  show "valid_content_suffix s \<longrightarrow> (\<exists>body. s = CHR ''#'' # body \<and> body \<noteq> [] \<and> hd body \<noteq> CHR ''/'' \<and>
      ''..'' \<notin> set (components body) \<and> CHR ''#'' \<notin> set body \<and> (\<forall>c \<in> set body. 32 \<le> code_of c))"
  proof
    assume "valid_content_suffix s"
    then obtain body where s: "s = CHR ''#'' # body" and body: "body \<noteq> []" "hd body \<noteq> CHR ''/''"
      "\<not> contains_str body ''../''" "\<not> contains_str body ''/..''" "body \<noteq> ''..''"
      "list_all (\<lambda>c. \<not> (code_of c < 32 \<or> code_of c = 127 \<or> c = CHR ''#'')) body"
      by (auto simp: valid_content_suffix_def split: list.splits if_splits)
    have "NUL \<notin> set body" using assms s by simp
    then have "''..'' \<notin> set (components body)" using body by (intro no_dotdot) auto
    with s body show "\<exists>body. s = CHR ''#'' # body \<and> body \<noteq> [] \<and> hd body \<noteq> CHR ''/'' \<and>
      ''..'' \<notin> set (components body) \<and> CHR ''#'' \<notin> set body \<and> (\<forall>c \<in> set body. 32 \<le> code_of c)"
      by (auto simp: list_all_iff not_less)
  qed
qed

theorem accepted_path_stays_inside_witness:
  "valid_relative_rom_path ''nes/a.zip'' \<and> ''..'' \<notin> set (components ''nes/a.zip'')"
  using accepted_path_stays_inside [of "''nes/a.zip''" "''/roms''"]
  by (simp add: valid_relative_rom_path_def contains_str_def)

text \<open>
  Splitting a content suffix loses nothing. When it succeeds, the base has no \<open>#\<close>, is not
  empty and fits its buffer, the suffix when there is one is valid, and base and suffix put
  together are the path.
\<close>

theorem split_content_suffix_inverse:
  "split_content_suffix n path = (True, base, sfx) \<Longrightarrow>
     path = base @ (case sfx of Some s \<Rightarrow> s | None \<Rightarrow> []) \<and> CHR ''#'' \<notin> set base \<and>
     base \<noteq> [] \<and> length base < n \<and> (\<forall>s. sfx = Some s \<longrightarrow> valid_content_suffix s)"
  by (rule split_content_suffix_parts)

theorem split_content_suffix_inverse_witness:
  "split_content_suffix 64 ''g.zip#a.exe'' = (True, ''g.zip'', Some ''#a.exe'') \<and>
   CHR ''#'' \<notin> set ''g.zip''"
proof -
  have "split_content_suffix 64 ''g.zip#a.exe'' = (True, ''g.zip'', Some ''#a.exe'')"
    by (simp add: split_content_suffix_def valid_content_suffix_def contains_str_def code_of_def)
  with split_content_suffix_inverse [OF this] show ?thesis by simp
qed

end
