(* ===== verification/ScanConfig.thy ===== *)
theory ScanConfig
  imports TextValid
begin

text \<open>
  The configuration of the library scanner (\<open>src/frontend/plumos_library_scan.c\<close>): the systems with their
  directories, extensions, artwork folders and launch profiles, the excluded directory names, and
  the order the systems are kept in.
\<close>

section \<open>State\<close>

definition MAX_SYSTEMS :: nat where "MAX_SYSTEMS = 128"
definition MAX_ALIASES :: nat where "MAX_ALIASES = 16"
definition MAX_EXTENSIONS :: nat where "MAX_EXTENSIONS = 64"
definition MAX_ARTWORK_LOOKUPS :: nat where "MAX_ARTWORK_LOOKUPS = 16"
definition MAX_PROFILES :: nat where "MAX_PROFILES = 16"
definition MAX_SCAN_EXCLUDED_DIRS :: nat where "MAX_SCAN_EXCLUDED_DIRS = 32"

record alias_def =
  al_name :: string
  al_shared :: bool

record artwork_lookup =
  aw_root :: string
  aw_path :: string

record system_def =
  sy_id :: string
  sy_display_name :: string
  sy_short_name :: string
  sy_hardware :: string
  sy_sort_order :: int
  sy_enabled :: bool
  sy_pinned :: bool
  sy_scan_directories :: bool
  sy_aliases :: "alias_def list"
  sy_extensions :: "string list"
  sy_artwork :: "artwork_lookup list"
  sy_launch_profiles :: "string list"
  sy_default_launch_profile :: string

section \<open>Arrays of strings\<close>

lemma json_decode_string_progress:
  assumes "json_decode_string t e cap p old = (True, q, s)"
  shows "p < q \<and> q \<le> e"
proof -
  obtain q' out where p: "p < e" and l: "json_decode_loop t e cap (p + 1) [] = (q', out)" and q: "q' < e" "q = q' + 1"
    using assms by (auto simp: json_decode_string_def Let_def split: if_splits prod.splits)
  with json_decode_loop_bounds [of "p + 1" e t cap "[]"] show ?thesis by simp
qed

function string_array_loop :: "string \<Rightarrow> nat \<Rightarrow> nat \<Rightarrow> nat \<Rightarrow> string list \<Rightarrow> string list" where
  "string_array_loop t p e n vals =
     (if p < e \<and> length vals < n then
        let q = skip_ws_range t p e in
        if e \<le> q then vals
        else if byte_at t q = DQ then
          (case json_decode_string t e 128 q [] of
             (True, q', s) \<Rightarrow> string_array_loop t q' e n (vals @ [s])
           | (False, _, _) \<Rightarrow> vals)
        else string_array_loop t (q + 1) e n vals
      else vals)"
  by pat_completeness auto
termination
proof (relation "measure (\<lambda>(t, p, e, n, vals). e - p)", goal_cases)
  case (2 t p e n vals q ok rest q' s)
  then have "json_decode_string t e 128 q [] = (True, q', s)" by simp
  from json_decode_string_progress [OF this] have "q < q'" "q' \<le> e" by simp_all
  moreover have "p \<le> q" using 2 skip_ws_range_ge [of p t e] by simp
  ultimately show ?case by simp
next
  case (3 t p e n vals q)
  with skip_ws_range_ge [of p t e] show ?case by simp
qed simp

declare string_array_loop.simps [simp del]

definition parse_string_array :: "string \<Rightarrow> nat \<Rightarrow> string \<Rightarrow> nat \<Rightarrow> string list" where
  "parse_string_array json e key max_values =
     (case json_find_array json 0 e key of
        None \<Rightarrow> []
      | Some (s, stop) \<Rightarrow> string_array_loop json s stop max_values [])"

lemma string_array_loop_bound:
  "length vals \<le> n \<Longrightarrow> list_all (\<lambda>s. length s < 128 \<and> NUL \<notin> set s) vals \<Longrightarrow>
     length (string_array_loop t p e n vals) \<le> n \<and>
     list_all (\<lambda>s. length s < 128 \<and> NUL \<notin> set s) (string_array_loop t p e n vals)"
proof (induction t p e n vals rule: string_array_loop.induct)
  case (1 t p e n vals)
  note eq = string_array_loop.simps [of t p e n vals]
  show ?case
  proof (cases "p < e \<and> length vals < n \<and> skip_ws_range t p e < e")
    case True
    show ?thesis
    proof (cases "byte_at t (skip_ws_range t p e) = DQ")
      case dq: True
      obtain ok q' s where d: "json_decode_string t e 128 (skip_ws_range t p e) [] = (ok, q', s)"
        by (cases "json_decode_string t e 128 (skip_ws_range t p e) []") auto
      have s: "length s < 128" "NUL \<notin> set s" using json_decode_string_length [OF d] by auto
      show ?thesis
      proof (cases ok)
        case ok: True
        have "length (string_array_loop t q' e n (vals @ [s])) \<le> n \<and>
            list_all (\<lambda>s. length s < 128 \<and> NUL \<notin> set s) (string_array_loop t q' e n (vals @ [s]))"
          by (rule 1(1) [OF _ refl _ dq _ _ refl]) (use True ok s 1(3,4) d in auto)
        with eq True dq d ok show ?thesis by (auto simp: Let_def)
      next
        case False
        with eq True dq d 1(3,4) show ?thesis by (auto simp: Let_def)
      qed
    next
      case False
      with 1(2) [OF _ refl _ False] 1(3,4) True eq show ?thesis by (auto simp: Let_def)
    qed
  next
    case False
    with eq 1(3,4) show ?thesis by (auto simp: Let_def)
  qed
qed

lemma parse_string_array_bound:
  "length (parse_string_array json e key n) \<le> n"
  "s \<in> set (parse_string_array json e key n) \<Longrightarrow> length s < 128 \<and> NUL \<notin> set s"
  using string_array_loop_bound [of "[]" n json]
  by (auto simp: parse_string_array_def list_all_iff split: option.splits)

section \<open>Excluded directories\<close>

text \<open>
  \<open>load_scan_excluded_directories\<close>: a name that is empty, a dot name or holds a slash, or that is too
  long, makes the load fail; what was stored before it stays.
\<close>

fun store_excluded :: "string list \<Rightarrow> string list \<Rightarrow> bool \<times> string list" where
  "store_excluded [] acc = (True, acc)"
| "store_excluded (name # names) acc =
     (if name = [] \<or> name = ''.'' \<or> name = ''..'' \<or> strchr name CHR ''/'' \<noteq> None then (False, acc)
      else case copy_string 64 name of
        (False, _) \<Rightarrow> (False, acc)
      | (True, s) \<Rightarrow> store_excluded names (acc @ [lower_string s]))"

definition load_scan_excluded_directories :: "os \<Rightarrow> string \<Rightarrow> bool \<times> string list" where
  "load_scan_excluded_directories w path =
     (case os_read w path of
        None \<Rightarrow> (False, [])
      | Some json \<Rightarrow>
          store_excluded (parse_string_array json (length json) ''scan_excluded_directories'' MAX_SCAN_EXCLUDED_DIRS) [])"

definition scan_directory_is_excluded :: "string list \<Rightarrow> string \<Rightarrow> bool" where
  "scan_directory_is_excluded excluded name \<longleftrightarrow> (\<exists>d \<in> set excluded. strcasecmp d name = 0)"

section \<open>One system\<close>

definition parse_extensions :: "string \<Rightarrow> string list" where
  "parse_extensions obj =
     map (\<lambda>v. lower_string (stored 24 (if v \<noteq> [] \<and> hd v = CHR ''.'' then tl v else v)))
       (parse_string_array obj (length obj) ''extensions'' MAX_EXTENSIONS)"

definition parse_launch_profiles :: "string \<Rightarrow> string list" where
  "parse_launch_profiles obj =
     map (stored 128) (parse_string_array obj (length obj) ''launch_profiles'' MAX_PROFILES)"

definition add_alias :: "string \<Rightarrow> alias_def list \<Rightarrow> alias_def list" where
  "add_alias obj as =
     (case json_get_string obj 0 (length obj) ''name'' 64 [] of
        (False, _) \<Rightarrow> as
      | (True, name) \<Rightarrow>
          as @ [\<lparr>al_name = stored 64 name, al_shared = json_get_bool obj 0 (length obj) ''shared'' False\<rparr>])"

definition parse_aliases :: "string \<Rightarrow> alias_def list" where
  "parse_aliases obj =
     (case json_find_array obj 0 (length obj) ''directory_aliases'' of
        None \<Rightarrow> []
      | Some (s, e) \<Rightarrow> json_each_object obj e s (\<lambda>as. length as < MAX_ALIASES)
          (\<lambda>os oe as. add_alias (range_dup obj os oe) as) [])"

definition add_artwork :: "string \<Rightarrow> artwork_lookup list \<Rightarrow> artwork_lookup list" where
  "add_artwork obj aws =
     (case (json_get_string obj 0 (length obj) ''root'' 32 [], json_get_string obj 0 (length obj) ''path'' 256 []) of
        ((True, root), (True, path)) \<Rightarrow> aws @ [\<lparr>aw_root = stored 32 root, aw_path = stored 256 path\<rparr>]
      | _ \<Rightarrow> aws)"

definition parse_artwork :: "string \<Rightarrow> artwork_lookup list" where
  "parse_artwork obj =
     (case json_find_object obj 0 (length obj) ''artwork'' of
        None \<Rightarrow> []
      | Some (s, e) \<Rightarrow>
          let art = range_dup obj s e in
          (case json_find_array art 0 (length art) ''lookup'' of
             None \<Rightarrow> []
           | Some (ls, le) \<Rightarrow> json_each_object art le ls (\<lambda>aws. length aws < MAX_ARTWORK_LOOKUPS)
               (\<lambda>os oe aws. add_artwork (range_dup art os oe) aws) []))"

definition parse_system :: "string \<Rightarrow> system_def" where
  "parse_system obj =
     (let gets = (\<lambda>key cap. snd (json_get_string obj 0 (length obj) key cap [])) in
      \<lparr>sy_id = gets ''id'' 64, sy_display_name = gets ''display_name'' 128, sy_short_name = gets ''short_name'' 64,
       sy_hardware = gets ''hardware'' 64,
       sy_sort_order = json_get_int obj 0 (length obj) ''sort_order'' 10000,
       sy_enabled = json_get_bool obj 0 (length obj) ''enabled'' True,
       sy_pinned = json_get_bool obj 0 (length obj) ''pinned'' False,
       sy_scan_directories = json_get_bool obj 0 (length obj) ''scan_directories'' False,
       sy_aliases = parse_aliases obj, sy_extensions = parse_extensions obj,
       sy_artwork = parse_artwork obj, sy_launch_profiles = parse_launch_profiles obj,
       sy_default_launch_profile = gets ''default_launch_profile'' 128\<rparr>)"

text \<open>A system is kept when it can be scanned for, or has profiles and nothing to scan.\<close>

definition system_accepted :: "system_def \<Rightarrow> bool" where
  "system_accepted s \<longleftrightarrow> sy_id s \<noteq> [] \<and>
     ((sy_aliases s \<noteq> [] \<and> sy_extensions s \<noteq> []) \<or>
      (sy_launch_profiles s \<noteq> [] \<and> sy_default_launch_profile s \<noteq> [] \<and> sy_extensions s = []))"

definition fill_system_names :: "system_def \<Rightarrow> system_def" where
  "fill_system_names s =
     (let s1 = (if sy_display_name s = [] then s\<lparr>sy_display_name := stored 128 (sy_id s)\<rparr> else s)
      in if sy_short_name s1 = [] then s1\<lparr>sy_short_name := stored 64 (sy_display_name s1)\<rparr> else s1)"

definition add_system :: "string \<Rightarrow> system_def list \<Rightarrow> system_def list" where
  "add_system obj ss =
     (let s = parse_system obj in if system_accepted s then ss @ [fill_system_names s] else ss)"

section \<open>The order of the systems\<close>

text \<open>
  The difference of two \<open>int\<close>s, as the 32-bit subtraction of the machine gives it.
\<close>

definition int_minus :: "int \<Rightarrow> int \<Rightarrow> int" where
  "int_minus a b = (a - b + 2 ^ 31) mod 2 ^ 32 - 2 ^ 31"

definition cmp_systems :: "system_def \<Rightarrow> system_def \<Rightarrow> int" where
  "cmp_systems a b =
     (if sy_sort_order a \<noteq> sy_sort_order b then int_minus (sy_sort_order a) (sy_sort_order b)
      else strcmp (sy_id a) (sy_id b))"

text \<open>
  \<open>load_systems\<close>; \<open>qsort\<close> is an insertion sort, which agrees with it wherever the comparison
  decides the order.
\<close>

definition load_systems :: "os \<Rightarrow> string \<Rightarrow> system_def list option" where
  "load_systems w path =
     (case os_read w path of
        None \<Rightarrow> None
      | Some json \<Rightarrow>
          (case json_find_array json 0 (length json) ''systems'' of
             None \<Rightarrow> None
           | Some (s, e) \<Rightarrow> Some (sort_by cmp_systems
               (json_each_object json e s (\<lambda>ss. length ss < MAX_SYSTEMS)
                  (\<lambda>os oe ss. add_system (range_dup json os oe) ss) []))))"

text \<open>Systems whose order numbers are far from the limits of \<open>int\<close>, with C strings as names.\<close>

definition sort_order_ok :: "system_def \<Rightarrow> bool" where
  "sort_order_ok s \<longleftrightarrow> \<bar>sy_sort_order s\<bar> < 2 ^ 30 \<and> NUL \<notin> set (sy_id s)"

lemma int_minus_small: "\<bar>a\<bar> < 2 ^ 30 \<Longrightarrow> \<bar>b\<bar> < 2 ^ 30 \<Longrightarrow> int_minus a b = a - b"
  unfolding int_minus_def by (subst mod_pos_pos_trivial) auto

interpretation system_order: comparison cmp_systems sort_order_ok
proof
  fix a b c
  assume ab: "sort_order_ok a" "sort_order_ok b"
  show "cmp_systems a b < 0 \<longleftrightarrow> 0 < cmp_systems b a"
    using ab strcmp_swap [of "sy_id a" "sy_id b"]
    by (auto simp: cmp_systems_def sort_order_ok_def int_minus_small)
  assume "sort_order_ok c" and "cmp_systems a b \<le> 0" and "cmp_systems b c \<le> 0"
  then show "cmp_systems a c \<le> 0"
    using ab strcmp_trans [of "sy_id a" "sy_id b" "sy_id c"]
    by (auto simp: cmp_systems_def sort_order_ok_def int_minus_small split: if_splits)
qed

end
