(* ===== verification/ScanWalk.thy ===== *)
theory ScanWalk
  imports ScanConfig "HOL-Library.Word"
begin

unbundle bit_operations_syntax

text \<open>
  The walk of the library scanner (\<open>src/frontend/plumos_library_scan.c\<close>): from the alias directories of
  the enabled systems down to the files, with the checks that keep a game or a directory from being listed
  twice, the thumbnail lookup, and the entry that is made for a game.
\<close>

section \<open>State\<close>

definition MAX_SCANNED_DIRS :: nat where "MAX_SCANNED_DIRS = 1024"

text \<open>The identity of a file is its device and inode, when \<open>stat\<close> gave them.\<close>

type_synonym identity = "(nat \<times> nat) option"

record scan_rom =
  sr_system_index :: nat
  sr_path :: string
  sr_relative_path :: string
  sr_file_name :: string
  sr_title :: string
  sr_extension :: string
  sr_directory_alias :: string
  sr_thumbnail :: string
  sr_id_hash :: "64 word"
  sr_identity :: identity

record scanned_dir =
  sd_system_index :: nat
  sd_path :: string
  sd_identity :: identity

record scan_ctx =
  sc_sdcard_root :: string
  sc_plumos_root :: string
  sc_system_filter :: "string option"
  sc_resolve_thumbnails :: bool
  sc_systems :: "system_def list"
  sc_roms :: "scan_rom list"
  sc_alias_dirs_found :: nat
  sc_alias_dirs_scanned :: nat
  sc_files_seen :: nat
  sc_files_matched :: nat
  sc_thumbnails_found :: nat
  sc_excluded :: "string list"
  sc_directories_excluded :: nat
  sc_load_ms :: int
  sc_scan_ms :: int
  sc_sort_ms :: int
  sc_ready_ms :: int
  sc_scanned_dirs :: "scanned_dir list"

section \<open>Names and identifiers\<close>

definition canonical_path :: "os \<Rightarrow> nat \<Rightarrow> string \<Rightarrow> bool \<times> string" where
  "canonical_path w n path =
     (case os_realpath w path of Some r \<Rightarrow> copy_string n r | None \<Rightarrow> copy_string n path)"

definition file_extension :: "string \<Rightarrow> string" where
  "file_extension name =
     (case strrchr name CHR ''.'' of
        None \<Rightarrow> []
      | Some d \<Rightarrow>
          if (case strrchr name CHR ''/'' of Some s \<Rightarrow> d < s | None \<Rightarrow> False) \<or> Suc d = length name then []
          else drop (Suc d) name)"

text \<open>The part before the last dot, cut to the buffer instead of failing.\<close>

definition stem_cut :: "nat \<Rightarrow> string \<Rightarrow> string" where
  "stem_cut n s =
     (let len = (case strrchr s CHR ''.'' of Some d \<Rightarrow> d | None \<Rightarrow> length s)
      in take (if len + 1 > n then n - 1 else len) s)"

definition stem_from_name :: "nat \<Rightarrow> string \<Rightarrow> string" where
  "stem_from_name n name = stem_cut n (path_basename name)"

definition stem_from_relative_path :: "nat \<Rightarrow> string \<Rightarrow> string" where
  "stem_from_relative_path n rel = stem_cut n rel"

definition fnv1a64_step :: "64 word \<Rightarrow> 64 word \<Rightarrow> 64 word" where
  "fnv1a64_step hash b = (hash XOR b) * 1099511628211"

definition fnv1a64_update :: "64 word \<Rightarrow> string \<Rightarrow> 64 word" where
  "fnv1a64_update hash s = foldl (\<lambda>h c. fnv1a64_step h (of_nat (code_of c))) hash s"

definition rom_id_hash :: "string \<Rightarrow> string \<Rightarrow> 64 word" where
  "rom_id_hash system_id path =
     fnv1a64_update (fnv1a64_step (fnv1a64_update 1469598103934665603 system_id) 0xFF) path"

section \<open>Extensions\<close>

definition system_ext_matches :: "system_def \<Rightarrow> string \<Rightarrow> bool" where
  "system_ext_matches system ext \<longleftrightarrow>
     ext \<noteq> [] \<and> lower_string (stored 24 ext) \<in> set (sy_extensions system)"

definition archive_extension_is_ambiguous :: "string \<Rightarrow> bool" where
  "archive_extension_is_ambiguous ext \<longleftrightarrow> strcasecmp ext ''zip'' = 0 \<or> strcasecmp ext ''7z'' = 0"

definition scan_ext_matches :: "system_def \<Rightarrow> string \<Rightarrow> bool \<Rightarrow> bool" where
  "scan_ext_matches system ext filter_shared_archives =
     (if filter_shared_archives \<and> archive_extension_is_ambiguous ext then False
      else system_ext_matches system ext)"

section \<open>What has been seen\<close>

definition same_identity :: "identity \<Rightarrow> identity \<Rightarrow> bool" where
  "same_identity a b \<longleftrightarrow> a \<noteq> None \<and> a = b"

definition rom_already_seen :: "scan_rom list \<Rightarrow> nat \<Rightarrow> string \<Rightarrow> identity \<Rightarrow> bool" where
  "rom_already_seen roms system_index path ident \<longleftrightarrow>
     (\<exists>r \<in> set roms. sr_system_index r = system_index \<and>
        (same_identity ident (sr_identity r) \<or> sr_path r = path))"

definition scanned_dir_already_seen :: "scan_ctx \<Rightarrow> nat \<Rightarrow> string \<Rightarrow> identity \<Rightarrow> bool" where
  "scanned_dir_already_seen ctx system_index path ident \<longleftrightarrow>
     (\<exists>d \<in> set (sc_scanned_dirs ctx). sd_system_index d = system_index \<and>
        (same_identity ident (sd_identity d) \<or> sd_path d = path))"

definition remember_scanned_dir :: "scan_ctx \<Rightarrow> nat \<Rightarrow> string \<Rightarrow> identity \<Rightarrow> scan_ctx" where
  "remember_scanned_dir ctx system_index path ident =
     (if MAX_SCANNED_DIRS \<le> length (sc_scanned_dirs ctx) then ctx
      else ctx\<lparr>sc_scanned_dirs := sc_scanned_dirs ctx @
        [\<lparr>sd_system_index = system_index, sd_path = stored PATH_MAX path, sd_identity = ident\<rparr>]\<rparr>)"

definition stat_identity :: "os \<Rightarrow> string \<Rightarrow> identity" where
  "stat_identity w path = map_option (\<lambda>(_, d, i). (d, i)) (os_stat w path)"

section \<open>Thumbnails\<close>

definition resolve_artwork_dir :: "scan_ctx \<Rightarrow> artwork_lookup \<Rightarrow> nat \<Rightarrow> string option" where
  "resolve_artwork_dir ctx lookup n =
     (if aw_path lookup \<noteq> [] \<and> hd (aw_path lookup) = CHR ''/'' then ok_opt (copy_string n (aw_path lookup))
      else if aw_root lookup = ''plumos'' then ok_opt (join_path n (sc_plumos_root ctx) (aw_path lookup))
      else if aw_root lookup = ''sdcard'' then ok_opt (join_path n (sc_sdcard_root ctx) (aw_path lookup))
      else None)"

text \<open>One candidate of \<open>find_thumbnail_in_dir\<close>; a candidate that is found ends the search.\<close>

definition thumbnail_candidate :: "os \<Rightarrow> string \<Rightarrow> string \<Rightarrow> string \<Rightarrow> string option" where
  "thumbnail_candidate w art_dir stem ext =
     (case ok_opt (build_stem_ext_name PATH_MAX stem ext) of
        None \<Rightarrow> None
      | Some name \<Rightarrow>
          (case ok_opt (join_path PATH_MAX art_dir name) of
             None \<Rightarrow> None
           | Some stem_path \<Rightarrow> find_case_insensitive_file w PATH_MAX stem_path))"

fun first_candidate :: "os \<Rightarrow> string \<Rightarrow> (string \<times> string) list \<Rightarrow> string option" where
  "first_candidate w art_dir [] = None"
| "first_candidate w art_dir ((stem, ext) # rest) =
     (case thumbnail_candidate w art_dir stem ext of
        Some c \<Rightarrow> Some c
      | None \<Rightarrow> first_candidate w art_dir rest)"

definition image_exts :: "string list" where
  "image_exts = [''png'', ''jpg'', ''jpeg'', ''webp'']"

definition find_thumbnail_in_dir :: "os \<Rightarrow> string \<Rightarrow> string \<Rightarrow> string \<Rightarrow> nat \<Rightarrow> string option" where
  "find_thumbnail_in_dir w art_dir relative_stem flat_stem n =
     (case first_candidate w art_dir (map (Pair relative_stem) image_exts @ map (Pair flat_stem) image_exts) of
        None \<Rightarrow> None
      | Some c \<Rightarrow> ok_opt (copy_string n c))"

fun first_artwork :: "os \<Rightarrow> scan_ctx \<Rightarrow> string \<Rightarrow> string \<Rightarrow> nat \<Rightarrow> artwork_lookup list \<Rightarrow> string option" where
  "first_artwork w ctx relative_stem flat_stem n [] = None"
| "first_artwork w ctx relative_stem flat_stem n (lookup # rest) =
     (case resolve_artwork_dir ctx lookup PATH_MAX of
        None \<Rightarrow> first_artwork w ctx relative_stem flat_stem n rest
      | Some art_dir \<Rightarrow>
          (case find_thumbnail_in_dir w art_dir relative_stem flat_stem n of
             Some t \<Rightarrow> Some t
           | None \<Rightarrow> first_artwork w ctx relative_stem flat_stem n rest))"

definition find_thumbnail ::
    "os \<Rightarrow> scan_ctx \<Rightarrow> system_def \<Rightarrow> string \<Rightarrow> string \<Rightarrow> string \<Rightarrow> nat \<Rightarrow> string option" where
  "find_thumbnail w ctx system directory_alias relative_stem flat_stem n =
     (let from_alias =
        (if directory_alias \<noteq> [] then
           (case ok_opt (join_path PATH_MAX (sc_sdcard_root ctx) ''Images'') of
              None \<Rightarrow> None
            | Some images_dir \<Rightarrow>
                (case ok_opt (join_path PATH_MAX images_dir directory_alias) of
                   None \<Rightarrow> None
                 | Some alias_art_dir \<Rightarrow> find_thumbnail_in_dir w alias_art_dir relative_stem flat_stem n))
         else None)
      in case from_alias of
           Some t \<Rightarrow> Some t
         | None \<Rightarrow> first_artwork w ctx relative_stem flat_stem n (sy_artwork system))"

section \<open>One game\<close>

text \<open>
  Three appends to an empty buffer whose results are dropped: a part that does not fit is left out.
\<close>

definition alias_relative_path :: "string \<Rightarrow> string \<Rightarrow> string" where
  "alias_relative_path alias_name rel_path =
     snd (append_string PATH_MAX (snd (append_string PATH_MAX (snd (append_string PATH_MAX [] alias_name)) ''/'')) rel_path)"

definition make_rom :: "os \<Rightarrow> scan_ctx \<Rightarrow> nat \<Rightarrow> string \<Rightarrow> string \<Rightarrow> string \<Rightarrow> scan_rom" where
  "make_rom w ctx system_index alias_name abs_path rel_path =
     (let system = sc_systems ctx ! system_index;
          canonical_abs = snd (canonical_path w PATH_MAX abs_path);
          ident = stat_identity w abs_path;
          is_dir_entry = is_directory w abs_path;
          file_name = stored 256 (path_basename abs_path);
          rel_stem = (if is_dir_entry then stored PATH_MAX rel_path else stem_from_relative_path PATH_MAX rel_path);
          flat_stem = (if is_dir_entry then stored 256 file_name else stem_from_name 256 file_name)
      in \<lparr>sr_system_index = system_index, sr_path = stored PATH_MAX canonical_abs,
          sr_relative_path = stored PATH_MAX (alias_relative_path alias_name rel_path),
          sr_file_name = file_name,
          sr_title = (if is_dir_entry then stored 256 file_name else stem_from_name 256 file_name),
          sr_extension = (if is_dir_entry then ''dir'' else lower_string (stored 24 (file_extension file_name))),
          sr_directory_alias = stored 64 alias_name,
          sr_thumbnail = (if sc_resolve_thumbnails ctx
            then (case find_thumbnail w ctx system alias_name rel_stem flat_stem PATH_MAX of
                Some t \<Rightarrow> t | None \<Rightarrow> []) else []),
          sr_id_hash = rom_id_hash (sy_id system) canonical_abs,
          sr_identity = ident\<rparr>)"

text \<open>
  \<open>add_rom_entry\<close>. The array of entries grows without bound in the model; \<open>append_rom\<close> drops the entry
  when memory runs out.
\<close>

definition add_rom_entry :: "os \<Rightarrow> nat \<Rightarrow> string \<Rightarrow> string \<Rightarrow> string \<Rightarrow> scan_ctx \<Rightarrow> scan_ctx" where
  "add_rom_entry w system_index alias_name abs_path rel_path ctx =
     (if rom_already_seen (sc_roms ctx) system_index (snd (canonical_path w PATH_MAX abs_path)) (stat_identity w abs_path)
      then ctx
      else let entry = make_rom w ctx system_index alias_name abs_path rel_path
        in ctx\<lparr>sc_roms := sc_roms ctx @ [entry],
               sc_thumbnails_found := sc_thumbnails_found ctx + (if sr_thumbnail entry \<noteq> [] then 1 else 0)\<rparr>)"

section \<open>The walk\<close>

definition child_relative :: "string \<Rightarrow> string \<Rightarrow> string option" where
  "child_relative rel_dir name =
     (if rel_dir \<noteq> [] then map_option (stored PATH_MAX) (ok_opt (join_path PATH_MAX rel_dir name))
      else Some (stored PATH_MAX name))"

definition hidden_name :: "string \<Rightarrow> bool" where
  "hidden_name name \<longleftrightarrow> (name \<noteq> [] \<and> hd name = CHR ''.'') \<or> ignored_sidecar_name name"

text \<open>
  The body of the \<open>readdir\<close> loop. \<open>descend\<close> is the recursive call.
\<close>

definition scan_entry ::
    "os \<Rightarrow> (string \<Rightarrow> string \<Rightarrow> scan_ctx \<Rightarrow> scan_ctx) \<Rightarrow> nat \<Rightarrow> string \<Rightarrow> bool \<Rightarrow> string \<Rightarrow> string \<Rightarrow>
     scan_ctx \<Rightarrow> string \<Rightarrow> scan_ctx" where
  "scan_entry w descend system_index alias_name filter_shared_archives dir_path rel_dir ctx name =
     (if hidden_name name then ctx
      else case ok_opt (join_path PATH_MAX dir_path name) of
        None \<Rightarrow> ctx
      | Some child_path \<Rightarrow>
          (case child_relative rel_dir name of
             None \<Rightarrow> ctx
           | Some child_rel \<Rightarrow>
               if is_directory w child_path then
                 if scan_directory_is_excluded (sc_excluded ctx) name
                   then ctx\<lparr>sc_directories_excluded := Suc (sc_directories_excluded ctx)\<rparr>
                 else if sy_scan_directories (sc_systems ctx ! system_index) \<and> rel_dir = []
                   then add_rom_entry w system_index alias_name child_path child_rel ctx
                 else descend child_path child_rel ctx
               else if \<not> is_regular_file w child_path then ctx
               else
                 let ctx = ctx\<lparr>sc_files_seen := Suc (sc_files_seen ctx)\<rparr> in
                 if \<not> scan_ext_matches (sc_systems ctx ! system_index) (file_extension name) filter_shared_archives
                   then ctx
                 else add_rom_entry w system_index alias_name child_path child_rel
                   (ctx\<lparr>sc_files_matched := Suc (sc_files_matched ctx)\<rparr>)))"

text \<open>
  \<open>scan_dir_recursive\<close>. Nothing but the length of the path stops the recursion, so the first argument counts the levels
  that are still allowed; \<open>PATH_MAX\<close> of them are enough.
\<close>

fun scan_dir_recursive ::
    "nat \<Rightarrow> os \<Rightarrow> nat \<Rightarrow> string \<Rightarrow> bool \<Rightarrow> string \<Rightarrow> string \<Rightarrow> scan_ctx \<Rightarrow> scan_ctx" where
  "scan_dir_recursive 0 w system_index alias_name filt dir_path rel_dir ctx = ctx"
| "scan_dir_recursive (Suc levels) w system_index alias_name filt dir_path rel_dir ctx =
     (case os_readdir w dir_path of
        None \<Rightarrow> ctx
      | Some names \<Rightarrow>
          foldl (scan_entry w (scan_dir_recursive levels w system_index alias_name filt)
                   system_index alias_name filt dir_path rel_dir) ctx names)"

definition scan_alias_dir :: "os \<Rightarrow> nat \<Rightarrow> string \<Rightarrow> alias_def \<Rightarrow> bool \<Rightarrow> scan_ctx \<Rightarrow> scan_ctx" where
  "scan_alias_dir w system_index rom_root alias_d filter_shared_archives ctx =
     (if al_name alias_d = [] then ctx
      else case ok_opt (join_path PATH_MAX rom_root (al_name alias_d)) of
        None \<Rightarrow> ctx
      | Some alias_path \<Rightarrow>
          if \<not> is_directory w alias_path then ctx
          else
            let ident = stat_identity w alias_path;
                canonical = snd (canonical_path w PATH_MAX alias_path)
            in if scanned_dir_already_seen ctx system_index canonical ident then ctx
               else
                 let ctx = remember_scanned_dir ctx system_index canonical ident;
                     ctx = ctx\<lparr>sc_alias_dirs_found := Suc (sc_alias_dirs_found ctx),
                               sc_alias_dirs_scanned := Suc (sc_alias_dirs_scanned ctx)\<rparr>
                 in scan_dir_recursive PATH_MAX w system_index (al_name alias_d) filter_shared_archives
                      canonical [] ctx)"

definition scan_aliases :: "os \<Rightarrow> nat \<Rightarrow> string \<Rightarrow> alias_def list \<Rightarrow> scan_ctx \<Rightarrow> scan_ctx" where
  "scan_aliases w system_index rom_root aliases ctx =
     foldl (\<lambda>ctx (a, d). scan_alias_dir w system_index rom_root d (0 < a \<and> al_shared d) ctx) ctx
       (enumerate 0 aliases)"

definition scan_root :: "os \<Rightarrow> nat \<Rightarrow> scan_ctx \<Rightarrow> string \<Rightarrow> scan_ctx" where
  "scan_root w system_index ctx root_name =
     (case ok_opt (join_path PATH_MAX (sc_sdcard_root ctx) root_name) of
        None \<Rightarrow> ctx
      | Some rom_root \<Rightarrow> scan_aliases w system_index rom_root (sy_aliases (sc_systems ctx ! system_index)) ctx)"

definition system_selected :: "scan_ctx \<Rightarrow> system_def \<Rightarrow> bool" where
  "system_selected ctx system \<longleftrightarrow>
     sy_enabled system \<and> (case sc_system_filter ctx of None \<Rightarrow> True | Some f \<Rightarrow> f = sy_id system)"

definition scan_system :: "os \<Rightarrow> scan_ctx \<Rightarrow> nat \<Rightarrow> scan_ctx" where
  "scan_system w ctx s =
     (if \<not> system_selected ctx (sc_systems ctx ! s) then ctx
      else foldl (scan_root w s) ctx [''Roms'', ''roms'', []])"

definition scan_systems :: "os \<Rightarrow> scan_ctx \<Rightarrow> scan_ctx" where
  "scan_systems w ctx = foldl (scan_system w) ctx [0..<length (sc_systems ctx)]"

end
