(* ===== verification/ScanProofs.thy ===== *)
theory ScanProofs
  imports ScanWalk
begin

text \<open>
  What the walk of the library scanner guarantees: it ends, it lists exactly the files the rules admit, no
  game is listed twice, and its counters agree with its list.
\<close>

section \<open>Invariants of the walk\<close>

text \<open>
  A property that survives adding an entry and counting survives the whole walk.
\<close>

locale walk_invariant =
  fixes I :: "os \<Rightarrow> scan_ctx \<Rightarrow> bool"
  assumes inv_add: "I w ctx \<Longrightarrow> I w (add_rom_entry w s a p r ctx)"
    and inv_excluded: "I w ctx \<Longrightarrow> I w (ctx\<lparr>sc_directories_excluded := Suc (sc_directories_excluded ctx)\<rparr>)"
    and inv_seen: "I w ctx \<Longrightarrow> I w (ctx\<lparr>sc_files_seen := Suc (sc_files_seen ctx)\<rparr>)"
    and inv_matched: "I w ctx \<Longrightarrow> I w (ctx\<lparr>sc_files_seen := Suc (sc_files_seen ctx),
      sc_files_matched := Suc (sc_files_matched ctx)\<rparr>)"
    and inv_dirs: "I w ctx \<Longrightarrow> I w (ctx\<lparr>sc_scanned_dirs := ds\<rparr>)"
    and inv_found: "I w ctx \<Longrightarrow> I w (ctx\<lparr>sc_alias_dirs_found := m, sc_alias_dirs_scanned := n\<rparr>)"
begin

lemma inv_foldl: "I w ctx \<Longrightarrow> (\<And>c x. I w c \<Longrightarrow> I w (f c x)) \<Longrightarrow> I w (foldl f ctx xs)"
  by (induction xs arbitrary: ctx) auto

lemma inv_entry:
  assumes "I w ctx" and "\<And>p r c. I w c \<Longrightarrow> I w (descend p r c)"
  shows "I w (scan_entry w descend s a filt d rel ctx name)"
  using assms inv_add [OF assms(1)] inv_add [OF inv_matched [OF assms(1)]] inv_excluded [OF assms(1)] inv_seen [OF assms(1)]
  by (simp add: scan_entry_def Let_def split: option.splits)

lemma inv_scan_dir: "I w ctx \<Longrightarrow> I w (scan_dir_recursive levels w s a filt d rel ctx)"
  by (induction levels arbitrary: d rel ctx) (auto split: option.splits intro!: inv_foldl inv_entry)

lemma inv_scan_alias_dir: "I w ctx \<Longrightarrow> I w (scan_alias_dir w s root d filt ctx)"
proof -
  assume i: "I w ctx"
  have "I w (remember_scanned_dir ctx s p ident)" for p ident
    using i inv_dirs by (simp add: remember_scanned_dir_def)
  from inv_scan_dir [OF inv_found [OF this]] i show ?thesis
    by (simp add: scan_alias_dir_def Let_def split: option.splits)
qed

lemma inv_scan_system: "I w ctx \<Longrightarrow> I w (scan_system w ctx s)"
  unfolding scan_system_def scan_root_def scan_aliases_def
  by (auto split: option.splits intro!: inv_foldl inv_scan_alias_dir)

lemma inv_scan_systems: "I w ctx \<Longrightarrow> I w (scan_systems w ctx)"
  unfolding scan_systems_def by (rule inv_foldl [OF _ inv_scan_system])

end

subsection \<open>No game twice\<close>

definition rom_clash :: "scan_rom \<Rightarrow> scan_rom \<Rightarrow> bool" where
  "rom_clash a b \<longleftrightarrow> sr_system_index a = sr_system_index b \<and>
     (same_identity (sr_identity a) (sr_identity b) \<or> sr_path a = sr_path b)"

definition no_clash :: "os \<Rightarrow> scan_ctx \<Rightarrow> bool" where
  "no_clash w ctx \<longleftrightarrow> sorted_wrt (\<lambda>a b. \<not> rom_clash a b) (sc_roms ctx)"

lemma canonical_stored: "stored PATH_MAX (snd (canonical_path w PATH_MAX p)) = snd (canonical_path w PATH_MAX p)"
  by (simp add: canonical_path_def split: option.splits)

lemma make_rom_key [simp]:
  "sr_system_index (make_rom w ctx s a p r) = s"
  "sr_path (make_rom w ctx s a p r) = snd (canonical_path w PATH_MAX p)"
  "sr_identity (make_rom w ctx s a p r) = stat_identity w p"
  by (simp_all add: make_rom_def Let_def canonical_stored)

lemma same_identity_sym: "same_identity a b \<longleftrightarrow> same_identity b a"
  by (auto simp: same_identity_def)

interpretation clash_inv: walk_invariant no_clash
proof
  fix w ctx s a p r
  assume "no_clash w ctx"
  then show "no_clash w (add_rom_entry w s a p r ctx)"
    by (auto simp: no_clash_def add_rom_entry_def rom_already_seen_def rom_clash_def sorted_wrt_append
        same_identity_sym Let_def)
qed (simp_all add: no_clash_def)

subsection \<open>Counters\<close>

definition counters_ok :: "os \<Rightarrow> scan_ctx \<Rightarrow> bool" where
  "counters_ok w ctx \<longleftrightarrow>
     sc_files_matched ctx \<le> sc_files_seen ctx \<and>
     sc_thumbnails_found ctx = length (filter (\<lambda>r. sr_thumbnail r \<noteq> []) (sc_roms ctx)) \<and>
     (\<not> sc_resolve_thumbnails ctx \<longrightarrow> sc_thumbnails_found ctx = 0)"

lemma make_rom_deferred: "\<not> sc_resolve_thumbnails ctx \<Longrightarrow> sr_thumbnail (make_rom w ctx s a p r) = []"
  by (simp add: make_rom_def Let_def)

interpretation counter_inv: walk_invariant counters_ok
proof
  fix w ctx s a p r
  assume "counters_ok w ctx"
  then show "counters_ok w (add_rom_entry w s a p r ctx)"
    by (auto simp: counters_ok_def add_rom_entry_def Let_def make_rom_deferred)
qed (auto simp: counters_ok_def)

subsection \<open>What a walk leaves alone\<close>

definition extends :: "scan_ctx \<Rightarrow> os \<Rightarrow> scan_ctx \<Rightarrow> bool" where
  "extends ctx0 w ctx \<longleftrightarrow> prefix (sc_roms ctx0) (sc_roms ctx) \<and>
     sc_systems ctx = sc_systems ctx0 \<and> sc_excluded ctx = sc_excluded ctx0 \<and>
     sc_sdcard_root ctx = sc_sdcard_root ctx0 \<and> sc_plumos_root ctx = sc_plumos_root ctx0 \<and>
     sc_resolve_thumbnails ctx = sc_resolve_thumbnails ctx0 \<and> sc_system_filter ctx = sc_system_filter ctx0"

lemma prefix_snoc_trans: "prefix a b \<Longrightarrow> prefix a (b @ c)"
  by (auto simp: prefix_def)

interpretation extends_inv: walk_invariant "extends ctx0" for ctx0
  by unfold_locales (auto simp: extends_def add_rom_entry_def Let_def intro: prefix_snoc_trans)

lemma extends_refl [simp]: "extends ctx w ctx"
  by (simp add: extends_def)

lemma extends_trans: "extends a w b \<Longrightarrow> extends b w c \<Longrightarrow> extends a w c"
  by (auto simp: extends_def intro: prefix_order.trans)

lemma extends_seen: "extends a w b \<Longrightarrow> rom_already_seen (sc_roms a) s p i \<Longrightarrow> rom_already_seen (sc_roms b) s p i"
  by (auto simp: extends_def rom_already_seen_def prefix_def)

section \<open>The walk ends\<close>

lemma path_join_longer:
  assumes "name \<noteq> []" and "hd name \<noteq> CHR ''/''"
  shows "length d < length (path_join d name)"
  using assms by (auto simp: path_join_def)

lemma foldl_cong_on: "(\<And>c x. x \<in> set xs \<Longrightarrow> f c x = g c x) \<Longrightarrow> foldl f c xs = foldl g c xs"
  by (induction xs arbitrary: c) auto

lemma valid_name_child:
  assumes "readdir_ok w" and "os_readdir w d = Some names" and "name \<in> set names"
  shows "name \<noteq> []" "hd name \<noteq> CHR ''/''"
  using assms by (auto simp: readdir_ok_def valid_entry_name_def) (metis list.set_sel(1))

lemma scan_entry_cong:
  fixes f g :: "string \<Rightarrow> string \<Rightarrow> scan_ctx \<Rightarrow> scan_ctx"
  assumes "name \<noteq> []" and "hd name \<noteq> CHR ''/''"
    and "\<And>p r c. length d < length p \<Longrightarrow> length p < PATH_MAX \<Longrightarrow> f p r c = g p r c"
  shows "scan_entry w f s a filt d rel ctx name = scan_entry w g s a filt d rel ctx name"
  using path_join_longer [OF assms(1,2), of d] assms(3)
  by (auto simp: scan_entry_def fits_simps Let_def split: option.splits)

lemma scan_dir_levels:
  assumes "readdir_ok w" and "PATH_MAX \<le> length d + n" and "PATH_MAX \<le> length d + m"
    and "length d < PATH_MAX"
  shows "scan_dir_recursive n w s a filt d rel ctx = scan_dir_recursive m w s a filt d rel ctx"
  using assms(2-)
proof (induction n arbitrary: m d rel ctx)
  case 0
  then show ?case by simp
next
  case (Suc n)
  then obtain m' where m: "m = Suc m'" by (cases m) auto
  show ?case
  proof (cases "os_readdir w d")
    case (Some names)
    have "scan_entry w (scan_dir_recursive n w s a filt) s a filt d rel c name =
        scan_entry w (scan_dir_recursive m' w s a filt) s a filt d rel c name" if "name \<in> set names" for c name
    proof (rule scan_entry_cong [OF valid_name_child [OF assms(1) Some that]])
      fix p r :: string and c' :: scan_ctx
      assume "length d < length p" and "length p < PATH_MAX"
      then show "scan_dir_recursive n w s a filt p r c' = scan_dir_recursive m' w s a filt p r c'"
        using Suc.IH [of p m' r c'] Suc.prems m by simp
    qed
    then show ?thesis using Some m by (auto intro: foldl_cong_on)
  qed (simp add: m)
qed

section \<open>What the walk lists\<close>

text \<open>
  The files a walk from a directory should list, as a relation on directories: a visible entry whose path
  fits, which is a file with an extension of the system, or a directory that is not excluded, listed itself
  at the top when the system's games are directories, and searched otherwise.
\<close>

definition child_of :: "os \<Rightarrow> string \<Rightarrow> string \<Rightarrow> string \<Rightarrow> string \<Rightarrow> string \<Rightarrow> bool" where
  "child_of w dir rel name p r \<longleftrightarrow>
     (\<exists>names. os_readdir w dir = Some names \<and> name \<in> set names) \<and> \<not> hidden_name name \<and>
     join_path PATH_MAX dir name = (True, p) \<and> child_relative rel name = Some r"

inductive walk_finds ::
    "os \<Rightarrow> string list \<Rightarrow> system_def \<Rightarrow> bool \<Rightarrow> string \<Rightarrow> string \<Rightarrow> string \<Rightarrow> string \<Rightarrow> bool"
  for w ex sys filt where
  found_file: "child_of w dir rel name p r \<Longrightarrow> is_regular_file w p \<Longrightarrow>
    scan_ext_matches sys (file_extension name) filt \<Longrightarrow> walk_finds w ex sys filt dir rel p r"
| found_dir: "child_of w dir rel name p r \<Longrightarrow> is_directory w p \<Longrightarrow> \<not> scan_directory_is_excluded ex name \<Longrightarrow>
    sy_scan_directories sys \<Longrightarrow> rel = [] \<Longrightarrow> walk_finds w ex sys filt dir rel p r"
| below: "child_of w dir rel name p r \<Longrightarrow> is_directory w p \<Longrightarrow> \<not> scan_directory_is_excluded ex name \<Longrightarrow>
    \<not> (sy_scan_directories sys \<and> rel = []) \<Longrightarrow> walk_finds w ex sys filt p r q t \<Longrightarrow>
    walk_finds w ex sys filt dir rel q t"

inductive_cases walk_findsE: "walk_finds w ex sys filt dir rel p r"

lemma regular_not_directory: "is_regular_file w p \<Longrightarrow> \<not> is_directory w p"
  by (auto simp: is_regular_file_def is_directory_def split: option.splits)

lemma make_rom_extends:
  assumes "extends ctx w ctx'"
  shows "make_rom w ctx' s a p r = make_rom w ctx s a p r"
proof -
  have "resolve_artwork_dir ctx' l n = resolve_artwork_dir ctx l n" for l n
    using assms by (simp add: resolve_artwork_dir_def extends_def)
  then have "first_artwork w ctx' rs fs n as = first_artwork w ctx rs fs n as" for rs fs n as
    by (induction as) (auto split: option.splits)
  then have fa: "first_artwork w ctx' = first_artwork w ctx" by (intro ext)
  have roots: "sc_systems ctx' = sc_systems ctx" "sc_sdcard_root ctx' = sc_sdcard_root ctx"
    "sc_resolve_thumbnails ctx' = sc_resolve_thumbnails ctx"
    using assms by (simp_all add: extends_def)
  show ?thesis unfolding make_rom_def find_thumbnail_def Let_def fa roots by simp
qed

lemma foldl_inv_on: "P c \<Longrightarrow> (\<And>c x. x \<in> set xs \<Longrightarrow> P c \<Longrightarrow> P (f c x)) \<Longrightarrow> P (foldl f c xs)"
  by (induction xs arbitrary: c) auto

text \<open>Everything listed is justified by the relation.\<close>

definition justified ::
    "os \<Rightarrow> scan_ctx \<Rightarrow> nat \<Rightarrow> string \<Rightarrow> bool \<Rightarrow> string \<Rightarrow> string \<Rightarrow> scan_ctx \<Rightarrow> bool" where
  "justified w ctx0 s a filt dir rel ctx \<longleftrightarrow> extends ctx0 w ctx \<and>
     (\<forall>e \<in> set (sc_roms ctx). e \<in> set (sc_roms ctx0) \<or>
        (\<exists>p r. walk_finds w (sc_excluded ctx0) (sc_systems ctx0 ! s) filt dir rel p r \<and> e = make_rom w ctx0 s a p r))"

lemma justified_refl [simp]: "justified w ctx s a filt dir rel ctx"
  by (simp add: justified_def)

lemma justified_add:
  assumes "justified w ctx0 s a filt dir rel ctx"
    and "walk_finds w (sc_excluded ctx0) (sc_systems ctx0 ! s) filt dir rel p r"
  shows "justified w ctx0 s a filt dir rel (add_rom_entry w s a p r ctx)"
  using assms extends_inv.inv_add [of ctx0 w ctx s a p r] make_rom_extends [of ctx0 w ctx s a p r]
  by (auto simp: justified_def add_rom_entry_def Let_def)

lemma justified_frame:
  assumes "justified w ctx0 s a filt dir rel ctx" and "extends ctx0 w ctx'" and "sc_roms ctx' = sc_roms ctx"
  shows "justified w ctx0 s a filt dir rel ctx'"
  using assms by (simp add: justified_def)

lemma justified_deeper:
  assumes "justified w ctx0 s a filt dir rel c" and "justified w c s a filt p r c'"
    and "\<And>q t. walk_finds w (sc_excluded ctx0) (sc_systems ctx0 ! s) filt p r q t \<Longrightarrow>
      walk_finds w (sc_excluded ctx0) (sc_systems ctx0 ! s) filt dir rel q t"
  shows "justified w ctx0 s a filt dir rel c'"
proof -
  have e: "extends ctx0 w c" "extends c w c'" using assms(1,2) by (auto simp: justified_def)
  have same: "sc_excluded c = sc_excluded ctx0" "sc_systems c = sc_systems ctx0"
    using e(1) by (auto simp: extends_def)
  have "e \<in> set (sc_roms ctx0) \<or> (\<exists>p r. walk_finds w (sc_excluded ctx0) (sc_systems ctx0 ! s) filt dir rel p r \<and>
      e = make_rom w ctx0 s a p r)" if "e \<in> set (sc_roms c')" for e
  proof -
    from assms(2) that consider "e \<in> set (sc_roms c)"
      | q t where "walk_finds w (sc_excluded ctx0) (sc_systems ctx0 ! s) filt p r q t" "e = make_rom w c s a q t"
      unfolding justified_def same by blast
    then show ?thesis
    proof cases
      case 1
      with assms(1) show ?thesis unfolding justified_def by blast
    next
      case 2
      with assms(3) make_rom_extends [OF e(1)] show ?thesis by metis
    qed
  qed
  with extends_trans [OF e] show ?thesis by (simp add: justified_def)
qed

lemma scan_entry_justified:
  assumes "justified w ctx0 s a filt dir rel ctx"
    and "os_readdir w dir = Some names" and "name \<in> set names"
    and "\<And>p r c. justified w c s a filt p r (descend p r c)"
  shows "justified w ctx0 s a filt dir rel (scan_entry w descend s a filt dir rel ctx name)"
proof (cases "hidden_name name \<or> \<not> fst (join_path PATH_MAX dir name) \<or> child_relative rel name = None")
  case True
  with assms(1) show ?thesis
    by (cases "join_path PATH_MAX dir name") (auto simp: scan_entry_def ok_opt_def split: option.splits)
next
  case False
  then obtain p r where c: "join_path PATH_MAX dir name = (True, p)" "child_relative rel name = Some r"
    by (cases "join_path PATH_MAX dir name") auto
  with False assms(2,3) have ch: "child_of w dir rel name p r" by (auto simp: child_of_def)
  have ext: "extends ctx0 w ctx" using assms(1) by (simp add: justified_def)
  then have same: "sc_excluded ctx = sc_excluded ctx0" "sc_systems ctx = sc_systems ctx0" by (auto simp: extends_def)
  note frame = justified_frame [OF assms(1)]
  show ?thesis
  proof (cases "is_directory w p")
    case d: True
    show ?thesis
      using False c d assms(1) frame [OF extends_inv.inv_excluded [OF ext]]
        justified_add [OF assms(1) walk_finds.found_dir [OF ch d]]
        justified_deeper [OF assms(1) assms(4) walk_finds.below [OF ch d]]
      by (auto simp: scan_entry_def same)
  next
    case nd: False
    show ?thesis
      using False c nd assms(1) frame [OF extends_inv.inv_seen [OF ext]]
        justified_add [OF frame [OF extends_inv.inv_matched [OF ext]] walk_finds.found_file [OF ch]]
      by (auto simp: scan_entry_def same Let_def)
  qed
qed

lemma scan_dir_justified: "justified w ctx s a filt dir rel (scan_dir_recursive levels w s a filt dir rel ctx)"
proof (induction levels arbitrary: dir rel ctx)
  case (Suc levels)
  show ?case
  proof (cases "os_readdir w dir")
    case (Some names)
    have "justified w ctx s a filt dir rel
        (foldl (scan_entry w (scan_dir_recursive levels w s a filt) s a filt dir rel) ctx names)"
      by (rule foldl_inv_on) (simp, rule scan_entry_justified [OF _ Some _ Suc.IH])
    with Some show ?thesis by simp
  qed simp
qed simp

text \<open>Everything the relation finds is listed.\<close>

lemma add_rom_seen:
  "rom_already_seen (sc_roms (add_rom_entry w s a p r ctx)) s (snd (canonical_path w PATH_MAX p)) (stat_identity w p)"
  by (auto simp: add_rom_entry_def Let_def rom_already_seen_def)

lemma scan_entry_seen:
  assumes "child_of w dir rel name p r" and "readdir_ok w" and "PATH_MAX \<le> length dir + levels"
    and "scan_entry_target = (\<lambda>c. rom_already_seen (sc_roms c) s cp ci)"
    and "\<And>l c. levels = Suc l \<Longrightarrow> PATH_MAX \<le> length p + l \<Longrightarrow> extends ctx w c \<Longrightarrow>
      scan_entry_target (scan_entry w (scan_dir_recursive l w s a filt) s a filt dir rel c name)"
  shows "scan_entry_target (scan_dir_recursive levels w s a filt dir rel ctx)"
proof -
  obtain names where n: "os_readdir w dir = Some names" "name \<in> set names"
    and p: "p = path_join dir name" "length p < PATH_MAX"
    using assms(1) by (auto simp: child_of_def fits_simps split: if_splits)
  have len: "length dir < length p"
    using path_join_longer valid_name_child [OF assms(2) n] p by simp
  with p assms(3) obtain l where l: "levels = Suc l" by (cases levels) auto
  obtain xs ys where xy: "names = xs @ name # ys" using n(2) by (meson split_list)
  let ?f = "scan_entry w (scan_dir_recursive l w s a filt) s a filt dir rel"
  have step: "extends c w (?f c x)" for c x
    by (rule extends_inv.inv_entry) (simp, rule extends_inv.inv_scan_dir)
  have ext: "extends c w (foldl ?f c zs)" for c zs
    by (rule extends_inv.inv_foldl [OF extends_refl]) (rule extends_trans [OF _ step])
  have "scan_entry_target (?f (foldl ?f ctx xs) name)"
    by (rule assms(5) [OF l _ ext]) (use len assms(3) l in simp)
  then show ?thesis
    using extends_seen [OF ext [of "?f (foldl ?f ctx xs) name" ys]] n(1) l xy assms(4) by simp
qed

lemma scan_dir_complete:
  assumes "readdir_ok w"
  shows "walk_finds w ex sys filt dir rel p r \<Longrightarrow> PATH_MAX \<le> length dir + levels \<Longrightarrow>
    sc_excluded ctx = ex \<Longrightarrow> sc_systems ctx ! s = sys \<Longrightarrow>
    rom_already_seen (sc_roms (scan_dir_recursive levels w s a filt dir rel ctx)) s
      (snd (canonical_path w PATH_MAX p)) (stat_identity w p)"
proof (induction arbitrary: levels ctx rule: walk_finds.induct)
  case (found_file dir rel name p r)
  from regular_not_directory [OF found_file(2)] found_file show ?case
    by (intro scan_entry_seen [OF found_file(1) assms found_file(4) refl])
       (auto simp: child_of_def scan_entry_def extends_def add_rom_seen Let_def)
next
  case (found_dir dir rel name p r)
  show ?case
    by (rule scan_entry_seen [OF found_dir(1) assms found_dir(6) refl])
       (use found_dir in \<open>auto simp: child_of_def scan_entry_def extends_def add_rom_seen\<close>)
next
  case (below dir rel name p r q t)
  show ?case
  proof (rule scan_entry_seen [OF below(1) assms below(7) refl])
    fix l c
    assume "levels = Suc l" and l: "PATH_MAX \<le> length p + l" and e: "extends ctx w c"
    from e have c: "sc_excluded c = ex" "sc_systems c ! s = sys" using below by (auto simp: extends_def)
    show "rom_already_seen (sc_roms (scan_entry w (scan_dir_recursive l w s a filt) s a filt dir rel c name)) s
        (snd (canonical_path w PATH_MAX q)) (stat_identity w q)"
      using below(6) [OF l c] below(1-4) c by (auto simp: child_of_def scan_entry_def)
  qed
qed

section \<open>The whole scan\<close>

text \<open>The state \<open>main\<close> starts the scan from.\<close>

definition start_ctx ::
    "string \<Rightarrow> string \<Rightarrow> string option \<Rightarrow> bool \<Rightarrow> system_def list \<Rightarrow> string list \<Rightarrow> scan_ctx" where
  "start_ctx sdcard_root plumos_root system_filter resolve systems excluded =
     \<lparr>sc_sdcard_root = sdcard_root, sc_plumos_root = plumos_root, sc_system_filter = system_filter,
      sc_resolve_thumbnails = resolve, sc_systems = systems, sc_roms = [], sc_alias_dirs_found = 0,
      sc_alias_dirs_scanned = 0, sc_files_seen = 0, sc_files_matched = 0, sc_thumbnails_found = 0,
      sc_excluded = excluded, sc_directories_excluded = 0, sc_load_ms = 0, sc_scan_ms = 0, sc_sort_ms = 0,
      sc_ready_ms = 0, sc_scanned_dirs = []\<rparr>"

text \<open>
  What may be listed: a game that a walk finds below one of the three roots, in a directory that an
  alias of a selected system names.
\<close>

definition listed :: "os \<Rightarrow> scan_ctx \<Rightarrow> scan_rom \<Rightarrow> bool" where
  "listed w ctx e \<longleftrightarrow>
     (\<exists>s d filt root_name rom_root dir p r.
        s < length (sc_systems ctx) \<and> system_selected ctx (sc_systems ctx ! s) \<and>
        d \<in> set (sy_aliases (sc_systems ctx ! s)) \<and> root_name \<in> {''Roms'', ''roms'', []} \<and>
        join_path PATH_MAX (sc_sdcard_root ctx) root_name = (True, rom_root) \<and>
        join_path PATH_MAX rom_root (al_name d) = (True, dir) \<and> is_directory w dir \<and>
        walk_finds w (sc_excluded ctx) (sc_systems ctx ! s) filt (snd (canonical_path w PATH_MAX dir)) [] p r \<and>
        e = make_rom w ctx s (al_name d) p r)"

definition all_listed :: "os \<Rightarrow> scan_ctx \<Rightarrow> scan_ctx \<Rightarrow> bool" where
  "all_listed w ctx0 ctx \<longleftrightarrow> extends ctx0 w ctx \<and> (\<forall>e \<in> set (sc_roms ctx). e \<in> set (sc_roms ctx0) \<or> listed w ctx0 e)"

lemma scan_alias_dir_listed:
  assumes "all_listed w ctx0 ctx" and "s < length (sc_systems ctx0)" and "system_selected ctx0 (sc_systems ctx0 ! s)"
    and "d \<in> set (sy_aliases (sc_systems ctx0 ! s))" and "root_name \<in> {''Roms'', ''roms'', []}"
    and "join_path PATH_MAX (sc_sdcard_root ctx0) root_name = (True, rom_root)"
  shows "all_listed w ctx0 (scan_alias_dir w s rom_root d filt ctx)"
proof -
  have ext: "extends ctx0 w ctx" using assms(1) by (simp add: all_listed_def)
  have same: "sc_excluded ctx = sc_excluded ctx0" "sc_systems ctx = sc_systems ctx0" using ext by (auto simp: extends_def)
  have e2: "extends ctx0 w (scan_alias_dir w s rom_root d filt ctx)" using ext by (rule extends_inv.inv_scan_alias_dir)
  have "e \<in> set (sc_roms ctx) \<or> listed w ctx0 e" if "e \<in> set (sc_roms (scan_alias_dir w s rom_root d filt ctx))" for e
  proof (cases "e \<in> set (sc_roms ctx)")
    case False
    with that obtain dir where j: "join_path PATH_MAX rom_root (al_name d) = (True, dir)" "is_directory w dir"
      and e: "e \<in> set (sc_roms (scan_dir_recursive PATH_MAX w s (al_name d) filt (snd (canonical_path w PATH_MAX dir)) []
          ((remember_scanned_dir ctx s (snd (canonical_path w PATH_MAX dir)) (stat_identity w dir))
            \<lparr>sc_alias_dirs_found := Suc (sc_alias_dirs_found ctx), sc_alias_dirs_scanned := Suc (sc_alias_dirs_scanned ctx)\<rparr>)))"
      by (auto simp: scan_alias_dir_def Let_def ok_opt_Some remember_scanned_dir_def split: option.splits if_splits)
    define c where "c = (remember_scanned_dir ctx s (snd (canonical_path w PATH_MAX dir)) (stat_identity w dir))
            \<lparr>sc_alias_dirs_found := Suc (sc_alias_dirs_found ctx), sc_alias_dirs_scanned := Suc (sc_alias_dirs_scanned ctx)\<rparr>"
    have c: "extends ctx w c" "sc_roms c = sc_roms ctx" by (auto simp: c_def remember_scanned_dir_def extends_def)
    have cs: "sc_excluded c = sc_excluded ctx0" "sc_systems c = sc_systems ctx0"
      using extends_trans [OF ext c(1)] by (auto simp: extends_def)
    obtain p r where "walk_finds w (sc_excluded ctx0) (sc_systems ctx0 ! s) filt (snd (canonical_path w PATH_MAX dir)) [] p r"
      "e = make_rom w c s (al_name d) p r"
      using scan_dir_justified [of w c s "al_name d" filt "snd (canonical_path w PATH_MAX dir)" "[]" PATH_MAX] e False c(2)
      unfolding justified_def cs c_def [symmetric] by auto
    moreover have "make_rom w c s (al_name d) p r = make_rom w ctx0 s (al_name d) p r"
      by (rule make_rom_extends [OF extends_trans [OF ext c(1)]])
    ultimately have "listed w ctx0 e" unfolding listed_def using assms(2-6) j by metis
    then show ?thesis ..
  qed simp
  with assms(1) e2 show ?thesis unfolding all_listed_def by blast
qed

lemma enumerate_member: "(a, d) \<in> set (enumerate 0 xs) \<Longrightarrow> d \<in> set xs"
  by (simp add: in_set_enumerate_eq) (metis nth_mem)

lemma scan_system_listed:
  assumes "all_listed w ctx0 ctx" and "s < length (sc_systems ctx0)"
  shows "all_listed w ctx0 (scan_system w ctx s)"
proof (cases "system_selected ctx (sc_systems ctx ! s)")
  case True
  have same: "extends ctx0 w c \<Longrightarrow> sc_systems c = sc_systems ctx0 \<and> sc_sdcard_root c = sc_sdcard_root ctx0" for c
    by (simp add: extends_def)
  have e0: "sc_systems ctx = sc_systems ctx0" "sc_system_filter ctx = sc_system_filter ctx0"
    using assms(1) by (simp_all add: all_listed_def extends_def)
  have sel: "system_selected ctx0 (sc_systems ctx0 ! s)"
    using True unfolding system_selected_def e0 .
  have root: "all_listed w ctx0 (scan_root w s c name)"
    if c: "all_listed w ctx0 c" and name: "name \<in> set [''Roms'', ''roms'', []]" for c name
  proof (cases "ok_opt (join_path PATH_MAX (sc_sdcard_root c) name)")
    case None
    with c show ?thesis by (simp add: scan_root_def)
  next
    case (Some rom_root)
    then have j: "join_path PATH_MAX (sc_sdcard_root ctx0) name = (True, rom_root)"
      and sys: "sc_systems c = sc_systems ctx0"
      using c same [of c] by (auto simp: ok_opt_Some all_listed_def)
    have "all_listed w ctx0 (scan_aliases w s rom_root (sy_aliases (sc_systems ctx0 ! s)) c)"
      unfolding scan_aliases_def
    proof (rule foldl_inv_on [where P = "all_listed w ctx0", OF c])
      fix c x
      assume x: "x \<in> set (enumerate 0 (sy_aliases (sc_systems ctx0 ! s)))" and c: "all_listed w ctx0 c"
      obtain a d where xd: "x = (a, d)" by (cases x)
      show "all_listed w ctx0 (case x of (a, d) \<Rightarrow> scan_alias_dir w s rom_root d (0 < a \<and> al_shared d) c)"
        unfolding xd prod.case using enumerate_member [of a d] x xd name
        by (intro scan_alias_dir_listed [OF c assms(2) sel _ _ j]) auto
    qed
    then show ?thesis by (simp add: scan_root_def Some sys)
  qed
  have "all_listed w ctx0 (foldl (scan_root w s) ctx [''Roms'', ''roms'', []])"
    by (rule foldl_inv_on [where P = "all_listed w ctx0", OF assms(1) root])
  with True show ?thesis by (simp add: scan_system_def)
qed (use assms in \<open>simp add: scan_system_def\<close>)

lemma scan_systems_listed:
  "e \<in> set (sc_roms (scan_systems w ctx)) \<Longrightarrow> e \<in> set (sc_roms ctx) \<or> listed w ctx e"
proof -
  assume e: "e \<in> set (sc_roms (scan_systems w ctx))"
  have "all_listed w ctx (scan_systems w ctx)"
    unfolding scan_systems_def
  proof (rule foldl_inv_on [where P = "all_listed w ctx"])
    show "all_listed w ctx ctx" by (simp add: all_listed_def)
    show "all_listed w ctx (scan_system w c s)" if "s \<in> set [0..<length (sc_systems ctx)]" "all_listed w ctx c" for c s
      using scan_system_listed [OF that(2), of s] that(1) by simp
  qed
  with e show ?thesis by (auto simp: all_listed_def)
qed

section \<open>Properties\<close>

text \<open>
  The recursion into directories ends: however deep the tree is, and even when links make it endless,
  a walk never goes deeper than the length of a path allows, so any bound on the levels that is at least the room
  left in a path gives the same result.
\<close>

theorem scan_ends:
  assumes "readdir_ok w" and "length d < PATH_MAX" and "PATH_MAX \<le> length d + n"
  shows "scan_dir_recursive n w s a filt d rel ctx = scan_dir_recursive PATH_MAX w s a filt d rel ctx"
  using scan_dir_levels [OF assms(1,3) _ assms(2)] by simp

definition demo_scan_system :: system_def where
  "demo_scan_system = \<lparr>sy_id = ''p'', sy_display_name = ''P'', sy_short_name = ''P'', sy_hardware = [],
     sy_sort_order = 1, sy_enabled = True, sy_pinned = False, sy_scan_directories = False,
     sy_aliases = [\<lparr>al_name = ''a'', al_shared = False\<rparr>], sy_extensions = [''png''], sy_artwork = [],
     sy_launch_profiles = [], sy_default_launch_profile = []\<rparr>"

definition demo_ctx :: scan_ctx where
  "demo_ctx = start_ctx ''/'' ''/p'' None False [demo_scan_system] []"

theorem scan_ends_witness:
  "scan_dir_recursive 5000 demo_os 0 ''a'' False ''/a'' [] demo_ctx =
   scan_dir_recursive PATH_MAX demo_os 0 ''a'' False ''/a'' [] demo_ctx"
  by (rule scan_ends [OF demo_os_readdir_ok]) (simp_all add: PATH_MAX_def)

text \<open>
  C4: The walk of a directory lists exactly what it should. Every entry it adds is that of a game the rules find
  below the directory: a visible file with an extension of the system, or a directory for a system of directories,
  reached through directories that are neither hidden nor excluded. And every game the rules
  find is in the list afterwards, by its own path or as the same file under another.
\<close>

theorem scan_lists_exactly:
  assumes "readdir_ok w"
  shows "let ctx' = scan_dir_recursive PATH_MAX w s a filt d [] ctx in (\<forall>e \<in> set (sc_roms ctx'). e \<in> set (sc_roms ctx) \<or>
      (\<exists>p r. walk_finds w (sc_excluded ctx) (sc_systems ctx ! s) filt d [] p r \<and> e = make_rom w ctx s a p r)) \<and>
    (\<forall>p r. walk_finds w (sc_excluded ctx) (sc_systems ctx ! s) filt d [] p r \<longrightarrow>
      (\<exists>e \<in> set (sc_roms ctx'). sr_system_index e = s \<and>
        (same_identity (stat_identity w p) (sr_identity e) \<or> sr_path e = snd (canonical_path w PATH_MAX p))))"
  using scan_dir_justified [of w ctx s a filt d "[]" PATH_MAX]
    scan_dir_complete [OF assms(1), of "sc_excluded ctx" "sc_systems ctx ! s" filt d "[]" _ _ PATH_MAX ctx s a]
  unfolding Let_def justified_def rom_already_seen_def by simp

theorem scan_lists_exactly_witness:
  "\<exists>e \<in> set (sc_roms (scan_dir_recursive PATH_MAX demo_os 0 ''a'' False ''/a'' [] demo_ctx)). sr_path e = ''/a/B.PNG''"
proof -
  have "child_of demo_os ''/a'' [] ''B.PNG'' ''/a/B.PNG'' ''B.PNG''"
    by (simp add: child_of_def demo_os_def hidden_name_def ignored_sidecar_name_def strncmp_eq_def join_path_eq
        path_join_def child_relative_def copy_string_def PATH_MAX_def)
  then have wf: "walk_finds demo_os [] demo_scan_system False ''/a'' [] ''/a/B.PNG'' ''B.PNG''"
    by (rule walk_finds.found_file)
       (simp_all add: is_regular_file_def demo_os_def demo_scan_system_def scan_ext_matches_def system_ext_matches_def
          file_extension_def copy_string_def lower_string_def ctype_simps)
  have c: "sc_excluded demo_ctx = []" "sc_systems demo_ctx ! 0 = demo_scan_system" "sc_roms demo_ctx = []"
    by (simp_all add: demo_ctx_def start_ctx_def)
  define c' where "c' = scan_dir_recursive PATH_MAX demo_os 0 ''a'' False ''/a'' [] demo_ctx"
  have just: "\<forall>e \<in> set (sc_roms c'). \<exists>p r. walk_finds demo_os [] demo_scan_system False ''/a'' [] p r \<and>
        e = make_rom demo_os demo_ctx 0 ''a'' p r"
    and all: "\<forall>p r. walk_finds demo_os [] demo_scan_system False ''/a'' [] p r \<longrightarrow> (\<exists>e \<in> set (sc_roms c').
        sr_system_index e = 0 \<and> (same_identity (stat_identity demo_os p) (sr_identity e) \<or>
          sr_path e = snd (canonical_path demo_os PATH_MAX p)))"
    using scan_lists_exactly [OF demo_os_readdir_ok, of 0 "''a''" False "''/a''" demo_ctx]
    unfolding c'_def [symmetric] Let_def c by simp_all
  obtain e where e: "e \<in> set (sc_roms c')" using all [rule_format, OF wf] by (rule bexE)
  obtain p r where f: "walk_finds demo_os [] demo_scan_system False ''/a'' [] p r"
    "e = make_rom demo_os demo_ctx 0 ''a'' p r" using just [rule_format, OF e] by blast
  have child: "q = ''/a/B.PNG''" if "child_of demo_os ''/a'' [] name q t" for name q t
  proof -
    from that have "name \<in> {''.'', ''._b.png'', ''B.PNG''}" and h: "\<not> hidden_name name"
      and j: "join_path PATH_MAX ''/a'' name = (True, q)"
      by (auto simp: child_of_def demo_os_def)
    then have "name = ''B.PNG''" by (elim insertE emptyE) (simp_all add: hidden_name_def)
    with j show ?thesis by (simp add: join_path_eq path_join_def PATH_MAX_def)
  qed
  have "\<not> is_directory demo_os ''/a/B.PNG''" by (simp add: is_directory_def demo_os_def)
  with f(1) have "p = ''/a/B.PNG''"
    by (rule_tac walk_findsE [OF f(1)]) (drule child, simp)+
  with f(2) have "sr_path e = ''/a/B.PNG''"
    by (simp add: make_rom_key canonical_path_def demo_os_def copy_string_def PATH_MAX_def)
  with e show ?thesis unfolding c'_def by blast
qed

text \<open>
  A scan of all systems lists only games of the selected systems: each entry was found by a walk below one of the
  three roots of the card, in a directory that an alias of its own enabled, unfiltered system names.
\<close>

theorem scan_sound:
  "list_all (listed w (start_ctx sdcard plumos flt resolve systems excluded))
     (sc_roms (scan_systems w (start_ctx sdcard plumos flt resolve systems excluded)))"
  using scan_systems_listed [of _ w "start_ctx sdcard plumos flt resolve systems excluded"]
  by (auto simp: list_all_iff start_ctx_def)

text \<open>
  C5: No game is listed twice: no two entries of one system have the same path or are the same file,
  however the roots and aliases are linked to each other; and the counters agree with the list.
\<close>

theorem scan_no_duplicates:
  "let ctx = scan_systems w (start_ctx sdcard plumos flt resolve systems excluded) in
     sorted_wrt (\<lambda>a b. \<not> rom_clash a b) (sc_roms ctx) \<and>
     sc_files_matched ctx \<le> sc_files_seen ctx \<and>
     sc_thumbnails_found ctx = length (filter (\<lambda>r. sr_thumbnail r \<noteq> []) (sc_roms ctx))"
proof -
  let ?c = "start_ctx sdcard plumos flt resolve systems excluded"
  have "no_clash w ?c" "counters_ok w ?c" by (simp_all add: no_clash_def counters_ok_def start_ctx_def)
  from clash_inv.inv_scan_systems [OF this(1)] counter_inv.inv_scan_systems [OF this(2)] show ?thesis
    by (simp add: no_clash_def counters_ok_def Let_def)
qed

end
