(* ===== verification/Tables.thy ===== *)
theory Tables
  imports CPrelude
begin

text \<open>
  Fixed arrays with a counter, searched in order: the shape of every table the frontend keeps. A
  slot array is the list of the live entries and the list of what is left in the slots after
  them, because a routine that does not clear a new slot sees the old content. The interface of
  the tables that are read and written by a key is the locale \<open>keyed_store\<close>.
\<close>

section \<open>The first entry that matches\<close>

fun find_first :: "('a \<Rightarrow> bool) \<Rightarrow> 'a list \<Rightarrow> nat option" where
  "find_first P [] = None"
| "find_first P (x # xs) = (if P x then Some 0 else map_option Suc (find_first P xs))"

lemma find_first_None [simp]: "find_first P xs = None \<longleftrightarrow> (\<forall>x \<in> set xs. \<not> P x)"
  by (induction xs) auto

lemma find_first_SomeD:
  "find_first P xs = Some i \<Longrightarrow> i < length xs \<and> P (xs ! i) \<and> (\<forall>x \<in> set (take i xs). \<not> P x)"
  by (induction xs arbitrary: i) (auto split: if_splits)

lemma find_first_SomeI:
  "i < length xs \<Longrightarrow> P (xs ! i) \<Longrightarrow> \<forall>x \<in> set (take i xs). \<not> P x \<Longrightarrow> find_first P xs = Some i"
proof (induction xs arbitrary: i)
  case (Cons x xs)
  then show ?case by (cases i) auto
qed simp

section \<open>Arrays with old content behind the counter\<close>

type_synonym 'a slots = "'a list \<times> 'a list"

text \<open>\<open>memmove\<close> down over slot \<open>i\<close> and a decremented counter.\<close>

definition slot_remove :: "nat \<Rightarrow> 'a slots \<Rightarrow> 'a slots" where
  "slot_remove i s = (take i (fst s) @ drop (Suc i) (fst s), last (fst s) # snd s)"

text \<open>The slot behind the counter as it stands, zero when it was never used.\<close>

definition slot_free :: "'a \<Rightarrow> 'a slots \<Rightarrow> 'a" where
  "slot_free zero s = (case snd s of x # _ \<Rightarrow> x | [] \<Rightarrow> zero)"

definition slot_push :: "'a \<Rightarrow> 'a slots \<Rightarrow> 'a slots" where
  "slot_push e s = (fst s @ [e], tl (snd s))"

definition slot_update :: "nat \<Rightarrow> ('a \<Rightarrow> 'a) \<Rightarrow> 'a slots \<Rightarrow> 'a slots" where
  "slot_update i f s = ((fst s)[i := f (fst s ! i)], snd s)"

lemma fst_slot_ops [simp]:
  "fst (slot_remove i s) = take i (fst s) @ drop (Suc i) (fst s)"
  "fst (slot_push e s) = fst s @ [e]"
  "fst (slot_update i f s) = (fst s)[i := f (fst s ! i)]"
  by (simp_all add: slot_remove_def slot_push_def slot_update_def)

section \<open>Entries by key\<close>

definition lookup :: "('e \<Rightarrow> 'k) \<Rightarrow> 'e list \<Rightarrow> 'k \<Rightarrow> 'e option" where
  "lookup key es k = map_option (\<lambda>i. es ! i) (find_first (\<lambda>e. key e = k) es)"

abbreviation distinct_keys :: "('e \<Rightarrow> 'k) \<Rightarrow> 'e list \<Rightarrow> bool" where
  "distinct_keys key es \<equiv> distinct (map key es)"

lemma lookup_Nil [simp]: "lookup key [] k = None"
  by (simp add: lookup_def)

lemma lookup_Cons [simp]: "lookup key (e # es) k = (if key e = k then Some e else lookup key es k)"
  by (auto simp: lookup_def option.map_comp o_def)

lemma lookup_append:
  "lookup key (xs @ ys) k = (case lookup key xs k of Some e \<Rightarrow> Some e | None \<Rightarrow> lookup key ys k)"
  by (induction xs) auto

lemma lookup_None: "lookup key es k = None \<longleftrightarrow> k \<notin> key ` set es"
  by (induction es) auto

lemma lookup_notin: "\<forall>x \<in> set es. key x \<noteq> k \<Longrightarrow> lookup key es k = None"
  by (simp add: lookup_def)

lemma lookup_SomeD: "lookup key es k = Some e \<Longrightarrow> e \<in> set es \<and> key e = k"
  by (induction es) (auto split: if_splits)

lemma lookup_find:
  "find_first (\<lambda>e. key e = k) es = Some i \<Longrightarrow> lookup key es k = Some (es ! i)"
  by (simp add: lookup_def)

lemma lookup_update_same:
  "find_first (\<lambda>e. key e = k) es = Some i \<Longrightarrow> key e' = k \<Longrightarrow> lookup key (es[i := e']) k = Some e'"
  by (induction es arbitrary: i) (auto split: if_splits nat.splits)

lemma lookup_update_other:
  "find_first (\<lambda>e. key e = k) es = Some i \<Longrightarrow> key e' = k \<Longrightarrow> k' \<noteq> k \<Longrightarrow>
     lookup key (es[i := e']) k' = lookup key es k'"
  by (induction es arbitrary: i) (auto split: if_splits nat.splits)

lemma map_key_update:
  "find_first (\<lambda>e. key e = k) es = Some i \<Longrightarrow> key e' = k \<Longrightarrow> map key (es[i := e']) = map key es"
  by (induction es arbitrary: i) (auto split: if_splits nat.splits)

lemma lookup_remove_other:
  "find_first (\<lambda>e. key e = k) es = Some i \<Longrightarrow> k' \<noteq> k \<Longrightarrow>
     lookup key (take i es @ drop (Suc i) es) k' = lookup key es k'"
  by (induction es arbitrary: i) (auto split: if_splits)

lemma lookup_remove_same:
  "find_first (\<lambda>e. key e = k) es = Some i \<Longrightarrow> distinct_keys key es \<Longrightarrow>
     lookup key (take i es @ drop (Suc i) es) k = None"
  by (induction es arbitrary: i) (auto simp: lookup_None split: if_splits)

lemma set_remove: "set (take i es @ drop (Suc i) es) \<subseteq> set es"
  by (auto dest: in_set_takeD in_set_dropD)

lemma distinct_remove:
  "distinct_keys key es \<Longrightarrow> distinct_keys key (take i es @ drop (Suc i) es)"
proof (induction es arbitrary: i)
  case (Cons e es)
  show ?case
  proof (cases i)
    case (Suc j)
    have "key e \<notin> key ` set (take j es @ drop (Suc j) es)"
      using Cons.prems set_remove [of j es] by auto
    with Cons Suc show ?thesis by (simp add: image_Un)
  qed (use Cons.prems in simp)
qed simp

lemma distinct_append_key:
  assumes "find_first (\<lambda>e. key e = k) es = None" and "key e' = k" and "distinct_keys key es"
  shows "distinct_keys key (es @ [e'])"
proof -
  have "k \<notin> key ` set es" using assms(1) unfolding find_first_None by (metis imageE)
  with assms show ?thesis by simp
qed

lemma lookup_append_new:
  assumes "find_first (\<lambda>e. key e = k) es = None" and "key e' = k"
  shows "lookup key (es @ [e']) k' = (if k' = k then Some e' else lookup key es k')"
  using assms lookup_notin [of es key k] by (auto simp: lookup_append split: option.splits)

text \<open>Removing the first entry with a key.\<close>

definition remove_key :: "('e \<Rightarrow> 'k) \<Rightarrow> 'k \<Rightarrow> 'e list \<Rightarrow> 'e list" where
  "remove_key key k es =
     (case find_first (\<lambda>e. key e = k) es of None \<Rightarrow> es | Some i \<Rightarrow> take i es @ drop (Suc i) es)"

lemma remove_key_same: "distinct_keys key es \<Longrightarrow> lookup key (remove_key key k es) k = None"
  using lookup_remove_same [of key k es] lookup_notin [of es key k]
  by (auto simp: remove_key_def split: option.splits)

lemma remove_key_other: "k' \<noteq> k \<Longrightarrow> lookup key (remove_key key k es) k' = lookup key es k'"
  using lookup_remove_other [of key k es] by (auto simp: remove_key_def split: option.splits)

lemma remove_key_distinct: "distinct_keys key es \<Longrightarrow> distinct_keys key (remove_key key k es)"
  unfolding remove_key_def by (auto intro!: distinct_remove simp del: distinct_append map_append split: option.splits)

lemma remove_key_length: "length (remove_key key k es) \<le> length es"
  by (auto simp: remove_key_def split: option.splits)

lemma remove_key_set: "set (remove_key key k es) \<subseteq> set es"
  by (auto simp: remove_key_def split: option.splits dest: in_set_takeD in_set_dropD)

section \<open>The interface of a keyed table\<close>

text \<open>
  A table offers reading by key, storing a value under a key (which may fail: the table is full
  or the value does not fit) and removing a key. What storing leaves under the key is
  \<open>entry_of\<close> of the old entry and the value. The laws hold for the keys that stand for themselves
  (\<open>key_ok\<close>): a table may read some keys through another.
\<close>

locale keyed_store =
  fixes get :: "'s \<Rightarrow> 'k \<Rightarrow> 'e option"
    and put :: "'s \<Rightarrow> 'k \<Rightarrow> 'v \<Rightarrow> 's option"
    and del :: "'s \<Rightarrow> 'k \<Rightarrow> 's"
    and entry_of :: "'k \<Rightarrow> 'e option \<Rightarrow> 'v \<Rightarrow> 'e"
    and inv :: "'s \<Rightarrow> bool"
    and key_ok :: "'k \<Rightarrow> bool"
    and arg_ok :: "'k \<Rightarrow> 'v \<Rightarrow> bool"
  assumes put_same: "inv s \<Longrightarrow> key_ok k \<Longrightarrow> arg_ok k v \<Longrightarrow> put s k v = Some s' \<Longrightarrow>
      get s' k = Some (entry_of k (get s k) v)"
    and put_other: "inv s \<Longrightarrow> key_ok k \<Longrightarrow> arg_ok k v \<Longrightarrow> key_ok k' \<Longrightarrow> put s k v = Some s' \<Longrightarrow>
      k' \<noteq> k \<Longrightarrow> get s' k' = get s k'"
    and put_inv: "inv s \<Longrightarrow> key_ok k \<Longrightarrow> arg_ok k v \<Longrightarrow> put s k v = Some s' \<Longrightarrow> inv s'"
    and del_same: "inv s \<Longrightarrow> key_ok k \<Longrightarrow> get (del s k) k = None"
    and del_other: "inv s \<Longrightarrow> key_ok k \<Longrightarrow> key_ok k' \<Longrightarrow> k' \<noteq> k \<Longrightarrow> get (del s k) k' = get s k'"
    and del_inv: "inv s \<Longrightarrow> key_ok k \<Longrightarrow> inv (del s k)"
begin

text \<open>A command is a put (a value) or a removal (no value); a put that fails changes nothing.\<close>

definition exec :: "'s \<Rightarrow> 'k \<times> 'v option \<Rightarrow> 's" where
  "exec s c = (case snd c of
     None \<Rightarrow> del s (fst c)
   | Some v \<Rightarrow> (case put s (fst c) v of Some s' \<Rightarrow> s' | None \<Rightarrow> s))"

definition cmd_ok :: "'k \<times> 'v option \<Rightarrow> bool" where
  "cmd_ok c \<longleftrightarrow> key_ok (fst c) \<and> (case snd c of None \<Rightarrow> True | Some v \<Rightarrow> arg_ok (fst c) v)"

lemma exec_inv: "inv s \<Longrightarrow> cmd_ok c \<Longrightarrow> inv (exec s c)"
  by (auto simp: exec_def cmd_ok_def del_inv intro: put_inv split: option.splits)

lemma run_inv: "inv s \<Longrightarrow> list_all cmd_ok cs \<Longrightarrow> inv (foldl exec s cs)"
  by (induction cs arbitrary: s) (auto simp: exec_inv)

lemma exec_other: "inv s \<Longrightarrow> cmd_ok c \<Longrightarrow> key_ok k \<Longrightarrow> fst c \<noteq> k \<Longrightarrow> get (exec s c) k = get s k"
  by (auto simp: exec_def cmd_ok_def del_other intro: put_other split: option.splits)

text \<open>Only the commands on a key decide what the table holds under it.\<close>

lemma run_other:
  "inv s \<Longrightarrow> list_all cmd_ok cs \<Longrightarrow> key_ok k \<Longrightarrow> \<forall>c \<in> set cs. fst c \<noteq> k \<Longrightarrow>
     get (foldl exec s cs) k = get s k"
  by (induction cs arbitrary: s) (auto simp: exec_inv exec_other)

lemma run_last_put:
  assumes "inv s" and "list_all cmd_ok cs" and "list_all cmd_ok ds" and "key_ok k"
    and "arg_ok k v" and "put (foldl exec s cs) k v = Some s'" and "\<forall>c \<in> set ds. fst c \<noteq> k"
  shows "get (foldl exec s (cs @ (k, Some v) # ds)) k =
    Some (entry_of k (get (foldl exec s cs) k) v)"
proof -
  have i: "inv (foldl exec s cs)" using run_inv assms by simp
  then have "get s' k = Some (entry_of k (get (foldl exec s cs) k) v)" using put_same assms by blast
  moreover have "inv s'" using put_inv i assms by blast
  ultimately show ?thesis using run_other [of s' ds k] assms by (auto simp: exec_def)
qed

lemma run_last_del:
  assumes "inv s" and "list_all cmd_ok cs" and "list_all cmd_ok ds" and "key_ok k"
    and "\<forall>c \<in> set ds. fst c \<noteq> k"
  shows "get (foldl exec s (cs @ (k, None) # ds)) k = None"
proof -
  have i: "inv (foldl exec s cs)" using run_inv assms by simp
  then show ?thesis
    using run_other [of "del (foldl exec s cs) k" ds k] assms del_same del_inv by (auto simp: exec_def)
qed

lemma del_idem: "inv s \<Longrightarrow> key_ok k \<Longrightarrow> key_ok k' \<Longrightarrow> get (del (del s k) k) k' = get (del s k) k'"
  by (cases "k' = k") (auto simp: del_same del_other del_inv)

end

section \<open>Chains of sources\<close>

text \<open>
  Settings come from a chain of places, the first that has a usable value wins. \<open>first_some\<close> is the
  value such a chain gives.
\<close>

fun first_some :: "'a option list \<Rightarrow> 'a option" where
  "first_some [] = None"
| "first_some (Some x # xs) = Some x"
| "first_some (None # xs) = first_some xs"

lemma first_some_None: "first_some xs = None \<longleftrightarrow> (\<forall>x \<in> set xs. x = None)"
  by (induction xs rule: first_some.induct) auto

lemma first_some_SomeD:
  "first_some xs = Some v \<Longrightarrow> \<exists>i < length xs. xs ! i = Some v \<and> (\<forall>j < i. xs ! j = None)"
proof (induction xs rule: first_some.induct)
  case (2 x xs)
  then show ?case by auto
next
  case (3 xs)
  then obtain i where "i < length xs" "xs ! i = Some v" "\<forall>j < i. xs ! j = None" by auto
  then show ?case by (intro exI [of _ "Suc i"]) (auto simp: nth_Cons split: nat.splits)
qed simp

end
