(* ===== verification/Decimal.thy ===== *)
theory Decimal
  imports CPrelude
begin

text \<open>
  Decimal numbers as \<open>printf\<close> writes them and \<open>strtol\<close> reads them back.
\<close>

definition digit_char :: "nat \<Rightarrow> char" where
  "digit_char d = char_of (48 + d)"

fun show_nat :: "nat \<Rightarrow> string" where
  "show_nat n = (if n < 10 then [digit_char n] else show_nat (n div 10) @ [digit_char (n mod 10)])"

declare show_nat.simps [simp del]

definition show_int :: "int \<Rightarrow> string" where
  "show_int v = (if v < 0 then CHR ''-'' # show_nat (nat (- v)) else show_nat (nat v))"

lemma code_digit: "d < 10 \<Longrightarrow> code_of (digit_char d) = 48 + d"
  by (simp add: digit_char_def code_of_def of_char_of take_bit_eq_mod)

lemma isdigit_digit [simp]: "d < 10 \<Longrightarrow> isdigit (digit_char d)"
  by (simp add: isdigit_def code_digit)

lemma show_nat_digits: "list_all isdigit (show_nat n)"
  by (induction n rule: show_nat.induct) (subst show_nat.simps, simp)

lemma show_nat_ne [simp]: "show_nat n \<noteq> []"
  by (subst show_nat.simps) simp

lemma digits_value_append:
  "list_all isdigit xs \<Longrightarrow> digits_value acc (xs @ ys) = digits_value (digits_value acc xs) ys"
  by (induction xs arbitrary: acc) auto

lemma digits_value_show: "digits_value 0 (show_nat n) = int n"
proof (induction n rule: show_nat.induct)
  case (1 n)
  show ?case
  proof (cases "n < 10")
    case True
    then show ?thesis by (simp add: show_nat.simps [of n] code_digit)
  next
    case False
    then have "digits_value 0 (show_nat n) = digits_value (int (n div 10)) [digit_char (n mod 10)]"
      using "1.IH" show_nat_digits [of "n div 10"] by (simp add: show_nat.simps [of n] digits_value_append)
    then have "digits_value 0 (show_nat n) = 10 * int (n div 10) + int (n mod 10)"
      by (simp add: code_digit)
    also have "\<dots> = int n" by presburger
    finally show ?thesis .
  qed
qed

lemma digit_not_space: "isdigit c \<Longrightarrow> \<not> isspace c \<and> c \<noteq> CHR ''-'' \<and> c \<noteq> CHR ''+'' \<and> c \<noteq> NUL"
  by (auto simp: isdigit_def isspace_def code_of_def)

definition digits_end :: "string \<Rightarrow> bool" where
  "digits_end r \<longleftrightarrow> r = [] \<or> \<not> isdigit (hd r)"

lemma takeWhile_digits: "list_all isdigit xs \<Longrightarrow> digits_end r \<Longrightarrow> takeWhile isdigit (xs @ r) = xs"
  by (induction xs) (auto simp: digits_end_def takeWhile_eq_Nil_iff)

lemma dropWhile_digits: "list_all isdigit xs \<Longrightarrow> digits_end r \<Longrightarrow> dropWhile isdigit (xs @ r) = r"
  by (induction xs) (auto simp: digits_end_def, cases r, auto)

text \<open>\<open>strtol\<close> reads a printed number back when something that is not a digit follows it.\<close>

lemma strtol_show_nat:
  assumes "digits_end r" and "int n \<le> LONG_MAX"
  shows "strtol (show_nat n @ r) = \<lparr>tol_value = int n, tol_rest = r, tol_range = False\<rparr>"
proof -
  obtain c cs where c: "show_nat n = c # cs" by (cases "show_nat n") auto
  then have "isdigit c" using show_nat_digits [of n] by simp
  note nc = digit_not_space [OF this]
  have "dropWhile isspace (show_nat n @ r) = show_nat n @ r" using c nc by simp
  moreover have "clamp_long (int n) = int n" using assms(2) by (simp add: clamp_long_def LONG_MIN_def)
  ultimately show ?thesis
    using c nc assms(1) takeWhile_digits [OF show_nat_digits, of r n] dropWhile_digits [OF show_nat_digits, of r n]
      digits_value_show [of n]
    by (simp add: strtol_def Let_def)
qed

end
