(* ===== verification/JsonTable.thy ===== *)
theory JsonTable
  imports JsonObjects Tables Decimal
begin

text \<open>
  The files the frontend keeps its tables in: a version and one or two arrays of objects. The
  locale \<open>json_table\<close> is the contract between the writer and the reader of one kind of entry; from
  it follows that loading a saved table gives the table back.
\<close>

section \<open>The layout of a saved array\<close>

text \<open>
  The body of the \<open>fprintf\<close> loop: one line for each entry, a comma after every one but the last.
\<close>

fun entries_text :: "('e \<Rightarrow> string) \<Rightarrow> 'e list \<Rightarrow> string" where
  "entries_text obj [] = []"
| "entries_text obj [e] = ''    '' @ obj e @ [NL]"
| "entries_text obj (e # es) = ''    '' @ obj e @ '','' @ [NL] @ entries_text obj es"

definition array_text :: "('e \<Rightarrow> string) \<Rightarrow> 'e list \<Rightarrow> string" where
  "array_text obj es = ''['' @ [NL] @ entries_text obj es @ ''  ]''"

definition file_head :: "string \<Rightarrow> string" where
  \<open>file_head key = ''{'' @ [NL] @ ''  "version": 1,'' @ [NL] @ ''  "'' @ key @ ''": ''\<close>

abbreviation field_sep :: string where "field_sep \<equiv> '', ''"

lemma field_sep_ok [simp]: "sep_ok field_sep"
  by (simp add: sep_ok_def isspace_def)

fun entry_items :: "string \<Rightarrow> ('e \<Rightarrow> field list) \<Rightarrow> 'e list \<Rightarrow> (string \<times> field list) list" where
  "entry_items pre flds [] = []"
| "entry_items pre flds (e # es) = (pre @ ''    '', flds e) # entry_items ('','' @ [NL]) flds es"

lemma entries_text_Cons:
  "entries_text obj (e # es) =
     ''    '' @ obj e @ (if es = [] then [NL] else '','' @ [NL] @ entries_text obj es)"
  by (cases es) auto

lemma item_text_pair: "item_text sep (pre, fs) = pre @ object_text sep fs"
  by (simp add: item_text_def)

lemma entries_items:
  "es \<noteq> [] \<Longrightarrow> pre @ entries_text (\<lambda>e. object_text field_sep (flds e)) es =
     items_text field_sep (entry_items pre flds es) @ [NL]"
proof (induction es arbitrary: pre)
  case (Cons e es)
  let ?obj = "\<lambda>e. object_text field_sep (flds e)"
  show ?case
  proof (cases "es = []")
    case False
    have "pre @ entries_text ?obj (e # es) = (pre @ ''    '') @ ?obj e @ ('','' @ [NL]) @ entries_text ?obj es"
      using False by (simp only: entries_text_Cons if_False append_assoc)
    also have "('','' @ [NL]) @ entries_text ?obj es =
        items_text field_sep (entry_items ('','' @ [NL]) flds es) @ [NL]"
      by (rule Cons.IH [OF False])
    finally show ?thesis
      by (simp only: entry_items.simps item_text_pair list.map concat.simps append_assoc)
  qed (simp add: item_text_pair)
qed simp

lemma array_items:
  "array_text (\<lambda>e. object_text field_sep (flds e)) es =
     CHR ''['' # items_text field_sep (entry_items [NL] flds es) @ ([NL] @ ''  '') @ '']''"
proof (cases "es = []")
  case True
  then show ?thesis by (simp add: array_text_def)
next
  case False
  then show ?thesis using entries_items [of es "[NL]" flds] by (simp add: array_text_def)
qed

lemma entry_items_snd: "map (\<lambda>i. f (snd i)) (entry_items pre flds es) = map (\<lambda>e. f (flds e)) es"
  by (induction es arbitrary: pre) auto

lemma entry_items_ok:
  "list_all (\<lambda>e. fields_ok (flds e)) es \<Longrightarrow> list_all isspace pre \<or> pre = '','' @ [NL] \<Longrightarrow>
     list_all item_ok (entry_items pre flds es) \<and>
     (\<forall>i \<in> set (entry_items pre flds es). seg_ok CHR ''['' CHR '']'' (Plain (fst i)))"
proof (induction es arbitrary: pre)
  case (Cons e es)
  have "isspace c \<or> c = CHR '',''" if "c \<in> set pre" for c
    using Cons.prems(2)
  proof
    assume "list_all isspace pre"
    with that show ?thesis by (simp add: list_all_iff)
  next
    assume "pre = '','' @ [NL]"
    with that show ?thesis by (auto simp: isspace_def)
  qed
  moreover have "\<not> (isspace d \<or> d = CHR '','')"
    if "d \<in> {DQ, CHR ''{'', CHR ''['', CHR '']''}" for d
    using that by (elim insertE) (simp_all add: isspace_def)
  ultimately have "DQ \<notin> set pre" "CHR ''{'' \<notin> set pre" "CHR ''['' \<notin> set pre" "CHR '']'' \<notin> set pre" by blast+
  moreover have "list_all item_ok (entry_items ('','' @ [NL]) flds es) \<and>
     (\<forall>i \<in> set (entry_items ('','' @ [NL]) flds es). seg_ok CHR ''['' CHR '']'' (Plain (fst i)))"
    using Cons.prems by (intro Cons.IH) auto
  moreover have "item_ok (pre @ ''    '', flds e) = (CHR ''{'' \<notin> set pre \<and> fields_ok (flds e))"
    by (simp add: item_ok_def)
  ultimately show ?case using Cons.prems(1) by simp
qed simp

section \<open>Finding the array of a file\<close>

lemma file_head_find:
  assumes "t = file_head key @ c # r" and "simple_key key" and "key \<noteq> ''version''" and "\<not> isspace c"
  shows "json_find_key_value t 0 (length t) key = Some (length (file_head key))"
proof -
  let ?pat = "DQ # key @ [DQ]" and ?v = "(''version'', JRaw ''1'')"
  have d0: "drop 0 t = (''{'' @ [NL] @ ''  '') @ field_text ?v @ ('','' @ [NL] @ ''  '') @
      DQ # key @ DQ # CHR '':'' # CHR '' '' # c # r"
    using assms(1) by (simp add: file_head_def field_text_def)
  from drop_step [OF d0] have d1: "drop 4 t = field_text ?v @ ('','' @ [NL] @ ''  '') @
      DQ # key @ DQ # CHR '':'' # CHR '' '' # c # r" by (simp add: eval_nat_numeral)
  from drop_step [OF d1] have d2: "drop (4 + length (field_text ?v)) t = ('','' @ [NL] @ ''  '') @
      DQ # key @ DQ # CHR '':'' # CHR '' '' # c # r" by simp
  from drop_step [OF d2] have d3: "drop (4 + length (field_text ?v) + 4) t =
      DQ # key @ DQ # CHR '':'' # CHR '' '' # c # r" by (simp add: eval_nat_numeral)
  have v: "simple_key ''version''"
    by (simp add: simple_key_def isalnum_def isdigit_def code_of_def)
  have sl: "length ('','' @ [NL] @ ''  '') = 4" by simp
  have len: "length t = 4 + length (field_text ?v) + 4 + length key + 4 + length (c # r)"
    using assms(1) by (simp add: file_head_def field_text_def)
  have "find_key_loop t 0 (length t) ?pat = find_key_loop t 4 (length t) ?pat"
    using find_key_skip_plain [OF d0, of "length t" "key @ [DQ]"] len by (simp add: eval_nat_numeral)
  also have "\<dots> = find_key_loop t (4 + length (field_text ?v)) (length t) ?pat"
  proof (rule find_key_skip_field [OF d1])
    show "jval_ok (snd ?v)" by (simp add: raw_char_def isalnum_def isdigit_def code_of_def)
    show "field_end (('','' @ [NL] @ ''  '') @ DQ # key @ DQ # CHR '':'' # CHR '' '' # c # r)"
      by (simp add: field_end_comma)
    show "simple_key (fst ?v)" using v by simp
    show "fst ?v \<noteq> key" using assms(3) by simp
  qed (use len assms(2) in simp_all)
  also have "\<dots> = find_key_loop t (4 + length (field_text ?v) + 4) (length t) ?pat"
    using find_key_skip_plain [OF d2, of "length t" "key @ [DQ]"] len sl by simp
  also have "\<dots> = Some (4 + length (field_text ?v) + 4 + length key + 4)"
    using len by (intro find_key_hit [OF d3 assms(4)]) simp
  also have "\<dots> = Some (length (file_head key))" by (simp add: file_head_def field_text_def)
  finally show ?thesis using assms(2) by (simp add: json_find_key_value_def key_pattern_simple)
qed

section \<open>A second array\<close>

text \<open>A key that is neither the first array's nor a field's is searched past the whole first array.\<close>

lemma field_end_brace: "field_end ('' }'' @ r)"
  by (simp add: field_end_def no_colon_def isspace_def isalnum_def isdigit_def code_of_def)

lemma find_key_skip_object:
  assumes d: "drop p t = object_text field_sep fs @ r" and "p + length (object_text field_sep fs) \<le> e"
    and "e \<le> length t" and "fields_ok fs" and "simple_key key" and "key \<notin> fst ` set fs"
  shows "find_key_loop t p e (DQ # key @ [DQ]) =
    find_key_loop t (p + length (object_text field_sep fs)) e (DQ # key @ [DQ])"
proof -
  let ?f = "fields_text field_sep fs"
  have len: "p + length ''{ '' + length ?f + length '' }'' \<le> e"
    using assms(2) by (simp add: object_text_def)
  have d0: "drop p t = ''{ '' @ ?f @ '' }'' @ r" using d by (simp add: object_text_def)
  have d1: "drop (p + length ''{ '') t = ?f @ '' }'' @ r" by (rule drop_step [OF d0])
  have d2: "drop (p + length ''{ '' + length ?f) t = '' }'' @ r" by (rule drop_step [OF d1])
  have "find_key_loop t p e (DQ # key @ [DQ]) = find_key_loop t (p + length ''{ '') e (DQ # key @ [DQ])"
    using len assms(3) by (intro find_key_skip_plain [OF d0]) auto
  also have "\<dots> = find_key_loop t (p + length ''{ '' + length ?f) e (DQ # key @ [DQ])"
    using len assms field_end_brace by (intro find_key_fields_absent [OF d1]) auto
  also have "\<dots> = find_key_loop t (p + length ''{ '' + length ?f + length '' }'') e (DQ # key @ [DQ])"
    using len assms(3) by (intro find_key_skip_plain [OF d2]) auto
  finally show ?thesis by (simp add: object_text_def)
qed

lemma find_key_skip_items:
  assumes "drop p t = items_text field_sep its @ r" and "p + length (items_text field_sep its) \<le> e"
    and "e \<le> length t" and "simple_key key"
    and "\<forall>i \<in> set its. DQ \<notin> set (fst i) \<and> NUL \<notin> set (fst i) \<and> fields_ok (snd i) \<and> key \<notin> fst ` set (snd i)"
  shows "find_key_loop t p e (DQ # key @ [DQ]) =
    find_key_loop t (p + length (items_text field_sep its)) e (DQ # key @ [DQ])"
  using assms
proof (induction its arbitrary: p)
  case (Cons i its)
  let ?o = "object_text field_sep (snd i)"
  have d0: "drop p t = fst i @ ?o @ (items_text field_sep its @ r)"
    using Cons.prems(1) by (simp add: item_text_def [of field_sep i])
  have d1: "drop (p + length (fst i)) t = ?o @ (items_text field_sep its @ r)" by (rule drop_step [OF d0])
  have d2: "drop (p + length (fst i) + length ?o) t = items_text field_sep its @ r" by (rule drop_step [OF d1])
  have len: "p + length (fst i) + length ?o + length (items_text field_sep its) \<le> e"
    using Cons.prems(2) by (simp add: item_text_def [of field_sep i])
  have "find_key_loop t p e (DQ # key @ [DQ]) = find_key_loop t (p + length (fst i)) e (DQ # key @ [DQ])"
    using len Cons.prems(3,5) by (intro find_key_skip_plain [OF d0]) auto
  also have "\<dots> = find_key_loop t (p + length (fst i) + length ?o) e (DQ # key @ [DQ])"
    using len Cons.prems by (intro find_key_skip_object [OF d1]) auto
  also have "\<dots> = find_key_loop t (p + length (fst i) + length ?o + length (items_text field_sep its)) e (DQ # key @ [DQ])"
    using len Cons.prems by (intro Cons.IH d2) auto
  finally show ?case by (simp add: item_text_def [of field_sep i] add.assoc)
qed simp

lemma entry_items_fst:
  "i \<in> set (entry_items pre flds es) \<Longrightarrow> DQ \<notin> set pre \<Longrightarrow> NUL \<notin> set pre \<Longrightarrow>
     DQ \<notin> set (fst i) \<and> NUL \<notin> set (fst i) \<and> snd i \<in> flds ` set es"
proof (induction es arbitrary: pre)
  case (Cons e es)
  show ?case
  proof (cases "i = (pre @ ''    '', flds e)")
    case False
    with Cons.prems Cons.IH [of "'','' @ [NL]"] show ?thesis by auto
  qed (use Cons.prems in auto)
qed simp

lemma find_key_skip_array:
  assumes d: "drop p t = array_text (\<lambda>e. object_text field_sep (flds e)) es @ r"
    and len: "p + length (array_text (\<lambda>e. object_text field_sep (flds e)) es) \<le> e"
    and "e \<le> length t" and "simple_key key"
    and ok: "\<forall>x \<in> set es. fields_ok (flds x) \<and> key \<notin> fst ` set (flds x)"
  shows "find_key_loop t p e (DQ # key @ [DQ]) =
    find_key_loop t (p + length (array_text (\<lambda>e. object_text field_sep (flds e)) es)) e (DQ # key @ [DQ])"
proof -
  let ?its = "entry_items [NL] flds es" and ?tail = "([NL] @ ''  '') @ '']''"
  have d0: "drop p t = ''['' @ items_text field_sep ?its @ ?tail @ r"
    using d by (simp add: array_items)
  have d1: "drop (p + length ''['') t = items_text field_sep ?its @ ?tail @ r" by (rule drop_step [OF d0])
  have d2: "drop (p + length ''['' + length (items_text field_sep ?its)) t = ?tail @ r" by (rule drop_step [OF d1])
  have al: "length (array_text (\<lambda>e. object_text field_sep (flds e)) es) =
      length ''['' + length (items_text field_sep ?its) + length ?tail"
    by (simp add: array_items)
  have its: "\<forall>i \<in> set ?its. DQ \<notin> set (fst i) \<and> NUL \<notin> set (fst i) \<and> fields_ok (snd i) \<and> key \<notin> fst ` set (snd i)"
  proof
    fix i
    assume "i \<in> set ?its"
    then have "DQ \<notin> set (fst i) \<and> NUL \<notin> set (fst i) \<and> snd i \<in> flds ` set es"
      by (rule entry_items_fst) simp_all
    with ok show "DQ \<notin> set (fst i) \<and> NUL \<notin> set (fst i) \<and> fields_ok (snd i) \<and> key \<notin> fst ` set (snd i)"
      by (elim conjE imageE) simp
  qed
  have "find_key_loop t p e (DQ # key @ [DQ]) = find_key_loop t (p + length ''['') e (DQ # key @ [DQ])"
    using len al assms(3) by (intro find_key_skip_plain [OF d0]) auto
  also have "\<dots> = find_key_loop t (p + length ''['' + length (items_text field_sep ?its)) e (DQ # key @ [DQ])"
    using len al assms(3,4) its by (intro find_key_skip_items [OF d1]) auto
  also have "\<dots> = find_key_loop t (p + length ''['' + length (items_text field_sep ?its) + length ?tail) e (DQ # key @ [DQ])"
    using len al assms(3) by (intro find_key_skip_plain [OF d2]) auto
  finally show ?thesis by (simp add: al)
qed

lemma file_head_skip:
  assumes "t = file_head key @ r" and "simple_key key" and "simple_key other" and "other \<noteq> ''version''"
    and "other \<noteq> key" and "length (file_head key) \<le> length t"
  shows "find_key_loop t 0 (length t) (DQ # other @ [DQ]) =
    find_key_loop t (length (file_head key)) (length t) (DQ # other @ [DQ])"
proof -
  let ?pat = "DQ # other @ [DQ]" and ?v = "(''version'', JRaw ''1'')" and ?k = "json_write_escaped key"
  have w: "?k = DQ # key @ [DQ]" using assms(2) by (rule written_simple)
  let ?sep = "'','' @ [NL] @ ''  ''"
  have d0: "drop 0 t = (''{'' @ [NL] @ ''  '') @ field_text ?v @ ?sep @ ?k @ '': '' @ r"
    using assms(1) by (simp add: file_head_def field_text_def w)
  have sl: "length ?sep = 4" "length (''{'' @ [NL] @ ''  '') = 4" by simp_all
  have d1: "drop 4 t = field_text ?v @ ?sep @ ?k @ '': '' @ r"
    using drop_step [OF d0] unfolding sl by simp
  from drop_step [OF d1] have d2: "drop (4 + length (field_text ?v)) t = ?sep @ ?k @ '': '' @ r" by simp
  from drop_step [OF d2] have d3: "drop (4 + length (field_text ?v) + 4) t = ?k @ '': '' @ r"
    unfolding sl by simp
  from drop_step [OF d3] have d4: "drop (4 + length (field_text ?v) + 4 + length ?k) t = '': '' @ r" by simp
  have v: "simple_key ''version''"
    by (simp add: simple_key_def isalnum_def isdigit_def code_of_def)
  have hl: "length (file_head key) = 4 + length (field_text ?v) + 4 + length ?k + 2"
    by (simp add: file_head_def field_text_def w)
  note len = assms(6) [unfolded hl]
  have "find_key_loop t 0 (length t) ?pat = find_key_loop t 4 (length t) ?pat"
    using find_key_skip_plain [OF d0, of "length t" "other @ [DQ]", unfolded sl] len by simp
  also have "\<dots> = find_key_loop t (4 + length (field_text ?v)) (length t) ?pat"
  proof (rule find_key_skip_field [OF d1])
    show "jval_ok (snd ?v)" by (simp add: raw_char_def isalnum_def isdigit_def code_of_def)
    show "field_end (?sep @ ?k @ '': '' @ r)" by (simp add: field_end_comma)
    show "simple_key (fst ?v)" using v by simp
    show "fst ?v \<noteq> other" using assms(4) by simp
  qed (use len assms(3) in simp_all)
  also have "\<dots> = find_key_loop t (4 + length (field_text ?v) + 4) (length t) ?pat"
    using find_key_skip_plain [OF d2, of "length t" "other @ [DQ]", unfolded sl] len by simp
  also have "\<dots> = find_key_loop t (4 + length (field_text ?v) + 4 + length ?k) (length t) ?pat"
  proof (rule find_key_skip_written [OF d3])
    show "NUL \<notin> set key" using assms(2) by simp
    show "no_colon ('': '' @ r) \<or> (simple_key key \<and> key \<noteq> other)" using assms(2,5) by simp
    show "\<not> prefix (other @ [DQ]) ('': '' @ r)"
      using assms(3) by (cases other) (auto simp: simple_key_def isalnum_def isdigit_def code_of_def)
  qed (use len assms(3) in simp_all)
  also have "\<dots> = find_key_loop t (4 + length (field_text ?v) + 4 + length ?k + length '': '') (length t) ?pat"
    using len by (intro find_key_skip_plain [OF d4]) auto
  finally show ?thesis by (simp add: hl)
qed

lemma second_array_find:
  assumes t: "t = file_head key @ array_text (\<lambda>e. object_text field_sep (flds e)) es @
      '','' @ [NL] @ ''  '' @ DQ # other @ DQ # CHR '':'' # CHR '' '' # c # r"
    and "simple_key key" and "simple_key other" and "other \<noteq> ''version''" and "other \<noteq> key"
    and "\<not> isspace c" and "\<forall>x \<in> set es. fields_ok (flds x) \<and> other \<notin> fst ` set (flds x)"
  shows "\<exists>q. json_find_key_value t 0 (length t) other = Some q \<and> drop q t = c # r"
proof -
  let ?pat = "DQ # other @ [DQ]" and ?a = "array_text (\<lambda>e. object_text field_sep (flds e)) es"
  let ?sep = "'','' @ [NL] @ ''  ''" and ?p = "length (file_head key)"
  let ?fin = "DQ # other @ DQ # CHR '':'' # CHR '' '' # c # r"
  have d1: "drop ?p t = ?a @ ?sep @ ?fin" using t by simp
  from drop_step [OF d1] have d2: "drop (?p + length ?a) t = ?sep @ ?fin" .
  from drop_step [OF d2] have d3: "drop (?p + length ?a + length ?sep) t = ?fin" .
  have len: "length t = ?p + length ?a + length ?sep + length ?fin" using t by simp
  have "find_key_loop t 0 (length t) ?pat = find_key_loop t ?p (length t) ?pat"
    using assms len by (intro file_head_skip) auto
  also have "\<dots> = find_key_loop t (?p + length ?a) (length t) ?pat"
    using assms(3,7) len by (intro find_key_skip_array [OF d1]) auto
  also have "\<dots> = find_key_loop t (?p + length ?a + length ?sep) (length t) ?pat"
    using len by (intro find_key_skip_plain [OF d2]) auto
  also have "\<dots> = Some (?p + length ?a + length ?sep + length other + 4)"
    using len by (intro find_key_hit [OF d3 assms(6)]) simp
  finally have "json_find_key_value t 0 (length t) other = Some (?p + length ?a + length ?sep + length other + 4)"
    using assms(3) by (simp add: json_find_key_value_def key_pattern_simple)
  moreover have "drop (?p + length ?a + length ?sep + length (DQ # other @ DQ # '': '')) t = c # r"
  proof (rule drop_step)
    show "drop (?p + length ?a + length ?sep) t = (DQ # other @ DQ # '': '') @ c # r"
      using d3 by (simp only: append_Cons append_Nil append_assoc)
  qed
  moreover have "length (DQ # other @ DQ # '': '') = length other + 4" by simp
  ultimately show ?thesis by (metis add.assoc)
qed

section \<open>The loop over an array body\<close>

lemma array_each:
  assumes d: "drop p t = array_text (\<lambda>e. object_text field_sep (flds e)) es @ r"
    and ok: "list_all (\<lambda>e. fields_ok (flds e)) es"
    and len: "p + length (array_text (\<lambda>e. object_text field_sep (flds e)) es) \<le> e"
  shows "\<exists>be. json_match_container t p e CHR ''['' CHR '']'' =
        Some (p + 1, be, p + length (array_text (\<lambda>e. object_text field_sep (flds e)) es)) \<and>
      json_each_object t be (p + 1) go (\<lambda>s a. body (range_dup t s a)) st =
        fold_while go body (map (\<lambda>e. object_text field_sep (flds e)) es) st"
proof -
  let ?its = "entry_items [NL] flds es" and ?tail = "[NL] @ ''  ''"
  have d0: "drop p t = CHR ''['' # items_text field_sep ?its @ ?tail @ CHR '']'' # r"
    using d by (simp add: array_items)
  have its: "list_all item_ok ?its" "\<forall>i \<in> set ?its. seg_ok CHR ''['' CHR '']'' (Plain (fst i))"
    using entry_items_ok [OF ok, of "[NL]"] by (auto simp: isspace_def)
  let ?be = "p + 1 + length (items_text field_sep ?its) + length ?tail"
  have al: "length (array_text (\<lambda>e. object_text field_sep (flds e)) es) =
      length (items_text field_sep ?its) + length ?tail + 2"
    by (simp add: array_items)
  have m: "json_match_container t p e CHR ''['' CHR '']'' =
      Some (p + 1, ?be, p + length (items_text field_sep ?its) + length ?tail + 2)"
    using its len al by (intro array_match [OF d0]) auto
  have d1: "drop (p + 1) t = items_text field_sep ?its @ ?tail @ CHR '']'' # r"
    by (rule drop_step1 [OF d0])
  have "json_each_object t ?be (p + 1) go (\<lambda>s a. body (range_dup t s a)) st =
      fold_while go body (map (\<lambda>i. object_text field_sep (snd i)) ?its) st"
    using its by (intro each_object_written [OF d1]) auto
  also have "map (\<lambda>i. object_text field_sep (snd i)) ?its = map (\<lambda>e. object_text field_sep (flds e)) es"
    by (rule entry_items_snd)
  finally show ?thesis unfolding al using m by (intro exI [of _ ?be]) simp
qed

section \<open>The contract of a table\<close>

locale json_table =
  fixes fields_of :: "'e \<Rightarrow> field list"
    and parse :: "string \<Rightarrow> 'e"
    and entry_ok :: "'e \<Rightarrow> bool"
    and accept :: "'e list \<Rightarrow> 'e \<Rightarrow> bool"
    and table_ok :: "'e list \<Rightarrow> bool"
  assumes written_fields: "entry_ok e \<Longrightarrow> fields_ok (fields_of e)"
    and parse_written: "entry_ok e \<Longrightarrow> parse (object_text field_sep (fields_of e)) = e"
    and accept_written: "table_ok (es @ e # es') \<Longrightarrow> entry_ok e \<Longrightarrow> accept es e"
begin

definition row :: "'e \<Rightarrow> string" where
  "row e = object_text field_sep (fields_of e)"

text \<open>The reader's loop: while there is room, an object that is accepted becomes the next entry.\<close>

definition take_row :: "string \<Rightarrow> 'e list \<Rightarrow> 'e list" where
  "take_row obj es = (if accept es (parse obj) then es @ [parse obj] else es)"

lemma rows_fold:
  assumes "table_ok (acc @ es)" and "list_all entry_ok es" and "length (acc @ es) \<le> m"
  shows "fold_while (\<lambda>s. length s < m) take_row (map row es) acc = acc @ es"
  using assms
proof (induction es arbitrary: acc)
  case (Cons e es)
  then have "take_row (row e) acc = acc @ [e]"
    using accept_written [of acc e es] parse_written [of e] by (simp add: take_row_def row_def)
  with Cons.IH [of "acc @ [e]"] Cons.prems show ?case by simp
qed simp

lemma load_array:
  assumes "drop p t = array_text row es @ r" and "p + length (array_text row es) \<le> e"
    and "table_ok es" and "list_all entry_ok es" and "length es \<le> m"
  shows "\<exists>be. json_match_container t p e CHR ''['' CHR '']'' =
      Some (p + 1, be, p + length (array_text row es)) \<and>
    json_each_object t be (p + 1) (\<lambda>s. length s < m) (\<lambda>s a. take_row (range_dup t s a)) [] = es"
proof -
  have row: "row = (\<lambda>e. object_text field_sep (fields_of e))" by (auto simp: row_def)
  have "list_all (\<lambda>e. fields_ok (fields_of e)) es"
    using assms(4) written_fields by (auto simp: list_all_iff)
  with array_each [of p t fields_of es r e "\<lambda>s. length s < m" take_row "[]"] assms rows_fold [of "[]" es m]
  show ?thesis unfolding row by auto
qed

text \<open>A file that starts with this table.\<close>

lemma load_file:
  assumes "t = file_head key @ array_text row es @ r" and "simple_key key" and "key \<noteq> ''version''"
    and "table_ok es" and "list_all entry_ok es" and "length es \<le> m"
  shows "\<exists>s be. json_find_array t 0 (length t) key = Some (s, be) \<and>
    json_each_object t be s (\<lambda>s. length s < m) (\<lambda>s a. take_row (range_dup t s a)) [] = es"
proof -
  obtain rest where a: "array_text row es = CHR ''['' # rest" by (simp add: array_text_def)
  have f: "json_find_key_value t 0 (length t) key = Some (length (file_head key))"
    using assms a by (intro file_head_find [of t key "CHR ''[''" "rest @ r"]) (auto simp: isspace_def)
  have d: "drop (length (file_head key)) t = array_text row es @ r" using assms(1) by simp
  from load_array [OF d, of "length t" m] assms obtain be where
    "json_match_container t (length (file_head key)) (length t) CHR ''['' CHR '']'' =
      Some (length (file_head key) + 1, be, length (file_head key) + length (array_text row es))"
    "json_each_object t be (length (file_head key) + 1) (\<lambda>s. length s < m) (\<lambda>s a. take_row (range_dup t s a)) [] = es"
    by auto
  with f show ?thesis by (auto simp: json_find_array_def)
qed

end

section \<open>Fields of a row\<close>

text \<open>A field that survives being written and read: it fits its slot and holds no control character.\<close>

definition str_ok :: "nat \<Rightarrow> string \<Rightarrow> bool" where
  "str_ok n s \<longleftrightarrow> length s < n \<and> NUL \<notin> set s \<and> list_all plain_char s"

lemma str_ok_NUL: "str_ok n s \<Longrightarrow> NUL \<notin> set s"
  by (simp add: str_ok_def)

lemma str_ok_read: "str_ok n s \<Longrightarrow> take (n - 1) (decoded s) = s"
  using decoded_plain [of s] by (auto simp: str_ok_def)

end
