(* ===== verification/TextRows.thy ===== *)
theory TextRows
  imports TextValid JsonTable
begin

text \<open>
  Reading one field of a written row with the text UI's readers, and the ROM entry every table of the
  frontend is filled from.
\<close>

record rom_entry =
  rom_id :: string
  rom_title :: string
  rom_file_name :: string
  rom_relative_path :: string
  rom_path :: string
  rom_thumbnail :: string

definition demo_rom :: rom_entry where
  "demo_rom = \<lparr>rom_id = ''x'', rom_title = ''X'', rom_file_name = ''x.zip'', rom_relative_path = ''x.zip'',
     rom_path = ''/r/x.zip'', rom_thumbnail = []\<rparr>"

definition demo_file_os :: "string \<Rightarrow> os" where
  "demo_file_os content = demo_os\<lparr>os_stat := \<lambda>_. Some (Regular, 1, 1), os_read := \<lambda>_. Some content\<rparr>"

lemma text_get_string_object:
  assumes "fields_ok fs" and "sep_ok sep" and "simple_key key" and "map_of fs key = Some (JStr s)"
    and "str_ok n s"
  shows "text_json_get_string (object_text sep fs) 0 (length (object_text sep fs)) key n old = (True, s)"
proof -
  obtain q r where q: "json_find_key_value (object_text sep fs) 0 (length (object_text sep fs)) key = Some q"
    "drop q (object_text sep fs) = json_write_escaped s @ r"
    "q + length (json_write_escaped s) \<le> length (object_text sep fs)"
    using find_key_object [OF assms(1-4)] by auto
  have "json_decode_string (object_text sep fs) (length (object_text sep fs)) n q old =
      (True, q + length (json_write_escaped s), s)"
    using decode_written [OF q(2,3), of n old] assms(5) str_ok_read [OF assms(5)] str_ok_NUL [OF assms(5)]
    by (simp add: str_ok_def)
  then show ?thesis
    using q(1,2) by (simp add: text_json_get_string_def json_write_escaped_def)
qed

lemma text_get_string_absent:
  assumes "fields_ok fs" and "sep_ok sep" and "simple_key key" and "key \<notin> fst ` set fs"
  shows "text_json_get_string (object_text sep fs) 0 (length (object_text sep fs)) key n old = (False, [])"
  using find_key_object_absent [OF assms] by (simp add: text_json_get_string_def)

text \<open>
  Rows whose last fields are optional: an empty text is not written, and read back as empty.
\<close>

lemma text_get_string_optional:
  assumes "fields_ok fs" and "sep_ok sep" and "simple_key key" and "str_ok n s"
    and "map_of fs key = (if s = [] then None else Some (JStr s))"
  shows "snd (text_json_get_string (object_text sep fs) 0 (length (object_text sep fs)) key n []) = s"
proof (cases "s = []")
  case True
  with assms(5) have "key \<notin> fst ` set fs" by (simp add: map_of_eq_None_iff)
  with True text_get_string_absent [OF assms(1-3)] show ?thesis by simp
next
  case False
  with assms text_get_string_object [OF assms(1-3)] show ?thesis by simp
qed

lemma get_long_object:
  assumes "fields_ok fs" and "sep_ok sep" and "simple_key key" and "map_of fs key = Some (JRaw (show_nat v))"
    and "int v \<le> LONG_MAX"
  shows "json_get_long (object_text sep fs) 0 (length (object_text sep fs)) key dflt = int v"
proof -
  obtain q r where q: "json_find_key_value (object_text sep fs) 0 (length (object_text sep fs)) key = Some q"
    "drop q (object_text sep fs) = show_nat v @ r" "field_end r"
    using find_key_object [OF assms(1-4)] by auto
  then have "digits_end r" by (auto simp: field_end_def digits_end_def isalnum_def)
  with strtol_show_nat [of r v] assms(5) q show ?thesis by (simp add: json_get_long_def)
qed

lemma get_long_absent:
  assumes "fields_ok fs" and "sep_ok sep" and "simple_key key" and "key \<notin> fst ` set fs"
  shows "json_get_long (object_text sep fs) 0 (length (object_text sep fs)) key dflt = dflt"
  using find_key_object_absent [OF assms] by (simp add: json_get_long_def)

lemma show_nat_raw: "jval_ok (JRaw (show_nat n))"
  using show_nat_digits [of n] by (auto simp: list_all_iff raw_char_def isalnum_def)

lemma valid_id_str_ok: "valid_system_id s \<Longrightarrow> length s < n \<Longrightarrow> str_ok n s"
  by (auto simp: valid_system_id_def str_ok_def list_all_iff plain_char_def isalnum_def isdigit_def
      code_of_def)

end
