(* ===== verification/TextFavs.thy ===== *)
theory TextFavs
  imports TextRows Tables
begin

text \<open>
  Favorites, recently played games and the resume record (\<open>src/frontend/plumos_text_ui.c\<close>): the tables,
  their operations, and the files they are kept in. A slot of these tables is always overwritten
  as a whole, so a table is the list of its entries.
\<close>

section \<open>Favorites\<close>

record favorite_entry =
  fav_system_id :: string
  fav_relative_path :: string
  fav_title :: string
  fav_file_name :: string
  fav_path :: string
  fav_thumbnail :: string

definition fav_key :: "favorite_entry \<Rightarrow> string \<times> string" where
  "fav_key e = (fav_system_id e, fav_relative_path e)"

definition find_favorite :: "favorite_entry list \<Rightarrow> string \<Rightarrow> string \<Rightarrow> nat option" where
  "find_favorite st system_id relative_path =
     find_first (\<lambda>e. fav_system_id e = system_id \<and> fav_relative_path e = relative_path) st"

text \<open>The fields of one object, before the title is filled in.\<close>

definition parse_favorite :: "string \<Rightarrow> favorite_entry" where
  "parse_favorite obj =
     (let gets = (\<lambda>key cap. snd (text_json_get_string obj 0 (length obj) key cap []))
      in \<lparr>fav_system_id = gets ''system_id'' 64,
          fav_relative_path = gets ''relative_path'' TEXT_PATH_MAX,
          fav_title = gets ''title'' 256, fav_file_name = gets ''file_name'' 256,
          fav_path = gets ''path'' TEXT_PATH_MAX, fav_thumbnail = gets ''thumbnail'' TEXT_PATH_MAX\<rparr>)"

text \<open>An entry with no title shows its file name, or its path.\<close>

definition fill_favorite_title :: "favorite_entry \<Rightarrow> favorite_entry" where
  "fill_favorite_title e =
     (if fav_title e = []
      then e\<lparr>fav_title := stored 256
        (if fav_file_name e \<noteq> [] then fav_file_name e else fav_relative_path e)\<rparr>
      else e)"

definition add_parsed_favorite :: "string \<Rightarrow> favorite_entry list \<Rightarrow> favorite_entry list" where
  "add_parsed_favorite obj st =
     (let e = parse_favorite obj in
      if valid_system_id (fav_system_id e) \<and> valid_relative_rom_path (fav_relative_path e) \<and>
         find_favorite st (fav_system_id e) (fav_relative_path e) = None
      then st @ [fill_favorite_title e]
      else st)"

definition load_favorites :: "os \<Rightarrow> string \<Rightarrow> bool \<times> favorite_entry list" where
  "load_favorites w path =
     (if \<not> file_exists w path then (True, [])
      else case os_read w path of
        None \<Rightarrow> (False, [])
      | Some json \<Rightarrow>
          (case json_find_array json 0 (length json) ''favorites'' of
             None \<Rightarrow> (False, [])
           | Some (s, e) \<Rightarrow>
               (True, json_each_object json e s (\<lambda>st. length st < MAX_FAVORITES)
                  (\<lambda>os oe st. add_parsed_favorite (range_dup json os oe) st) [])))"

definition favorite_text :: "favorite_entry \<Rightarrow> string" where
  \<open>favorite_text e =
     ''{ "system_id": '' @ json_write_escaped (fav_system_id e) @
     '', "relative_path": '' @ json_write_escaped (fav_relative_path e) @
     '', "title": '' @ json_write_escaped (fav_title e) @
     '', "file_name": '' @ json_write_escaped (fav_file_name e) @
     '', "path": '' @ json_write_escaped (fav_path e) @
     '', "thumbnail": '' @ json_write_escaped (fav_thumbnail e) @ '' }''\<close>

text \<open>What \<open>save_favorites\<close> prints into the temporary file.\<close>

definition save_favorites_text :: "favorite_entry list \<Rightarrow> string" where
  \<open>save_favorites_text st =
     ''{'' @ [NL] @ ''  "version": 1,'' @ [NL] @ ''  "favorites": ['' @ [NL] @
     entries_text favorite_text st @ ''  ]'' @ [NL] @ ''}'' @ [NL]\<close>

definition favorite_of_rom :: "string \<Rightarrow> rom_entry \<Rightarrow> favorite_entry" where
  "favorite_of_rom system_id rom =
     \<lparr>fav_system_id = stored 64 system_id,
      fav_relative_path = stored TEXT_PATH_MAX (rom_relative_path rom),
      fav_title = stored 256 (if rom_title rom \<noteq> [] then rom_title rom else rom_relative_path rom),
      fav_file_name = stored 256 (rom_file_name rom),
      fav_path = stored TEXT_PATH_MAX (rom_path rom),
      fav_thumbnail = stored TEXT_PATH_MAX (rom_thumbnail rom)\<rparr>"

definition set_favorite_from_rom ::
    "favorite_entry list \<Rightarrow> string \<Rightarrow> rom_entry \<Rightarrow> favorite_entry list option" where
  "set_favorite_from_rom st system_id rom =
     (case find_favorite st system_id (rom_relative_path rom) of
        Some i \<Rightarrow> Some (st[i := favorite_of_rom system_id rom])
      | None \<Rightarrow>
          if MAX_FAVORITES \<le> length st then None
          else Some (st @ [favorite_of_rom system_id rom]))"

definition clear_favorite :: "favorite_entry list \<Rightarrow> string \<Rightarrow> string \<Rightarrow> favorite_entry list" where
  "clear_favorite st system_id relative_path =
     (case find_favorite st system_id relative_path of
        None \<Rightarrow> st
      | Some i \<Rightarrow> take i st @ drop (Suc i) st)"

section \<open>Recently played games\<close>

record recent_entry =
  rec_system_id :: string
  rec_relative_path :: string
  rec_title :: string
  rec_file_name :: string
  rec_path :: string
  rec_thumbnail :: string
  rec_launch_profile :: string
  rec_last_played_at :: string
  rec_resume_available :: bool

definition rec_key :: "recent_entry \<Rightarrow> string \<times> string" where
  "rec_key e = (rec_system_id e, rec_relative_path e)"

definition find_recent :: "recent_entry list \<Rightarrow> string \<Rightarrow> string \<Rightarrow> nat option" where
  "find_recent st system_id relative_path =
     find_first (\<lambda>e. rec_system_id e = system_id \<and> rec_relative_path e = relative_path) st"

definition parse_recent :: "string \<Rightarrow> recent_entry" where
  "parse_recent obj =
     (let gets = (\<lambda>key cap. snd (text_json_get_string obj 0 (length obj) key cap []))
      in \<lparr>rec_system_id = gets ''system_id'' 64,
          rec_relative_path = gets ''relative_path'' TEXT_PATH_MAX,
          rec_title = gets ''title'' 256, rec_file_name = gets ''file_name'' 256,
          rec_path = gets ''path'' TEXT_PATH_MAX, rec_thumbnail = gets ''thumbnail'' TEXT_PATH_MAX,
          rec_launch_profile = gets ''launch_profile'' 128,
          rec_last_played_at = gets ''last_played_at'' 64,
          rec_resume_available = json_get_bool obj 0 (length obj) ''resume_available'' False\<rparr>)"

text \<open>An entry with no title shows its file name, or its path.\<close>

definition fill_recent_title :: "recent_entry \<Rightarrow> recent_entry" where
  "fill_recent_title e =
     (if rec_title e = []
      then e\<lparr>rec_title := stored 256
        (if rec_file_name e \<noteq> [] then rec_file_name e else rec_relative_path e)\<rparr>
      else e)"

definition add_parsed_recent :: "string \<Rightarrow> recent_entry list \<Rightarrow> recent_entry list" where
  "add_parsed_recent obj st =
     (let e = parse_recent obj in
      if valid_system_id (rec_system_id e) \<and> valid_relative_rom_path (rec_relative_path e) \<and>
         rec_launch_profile e \<noteq> [] \<and>
         find_recent st (rec_system_id e) (rec_relative_path e) = None
      then st @ [fill_recent_title e]
      else st)"

definition load_recent :: "os \<Rightarrow> string \<Rightarrow> bool \<times> recent_entry list" where
  "load_recent w path =
     (if \<not> file_exists w path then (True, [])
      else case os_read w path of
        None \<Rightarrow> (False, [])
      | Some json \<Rightarrow>
          if json = [] then (True, [])
          else (case json_find_array json 0 (length json) ''recents'' of
             None \<Rightarrow> (False, [])
           | Some (s, e) \<Rightarrow>
               (True, json_each_object json e s (\<lambda>st. length st < MAX_RECENTS)
                  (\<lambda>os oe st. add_parsed_recent (range_dup json os oe) st) [])))"

definition recent_text :: "recent_entry \<Rightarrow> string" where
  \<open>recent_text e =
     ''{ "system_id": '' @ json_write_escaped (rec_system_id e) @
     '', "relative_path": '' @ json_write_escaped (rec_relative_path e) @
     '', "title": '' @ json_write_escaped (rec_title e) @
     '', "file_name": '' @ json_write_escaped (rec_file_name e) @
     '', "path": '' @ json_write_escaped (rec_path e) @
     '', "thumbnail": '' @ json_write_escaped (rec_thumbnail e) @
     '', "launch_profile": '' @ json_write_escaped (rec_launch_profile e) @
     '', "last_played_at": '' @ json_write_escaped (rec_last_played_at e) @
     '', "resume_available": '' @ (if rec_resume_available e then ''true'' else ''false'') @ '' }''\<close>

definition save_recent_text :: "recent_entry list \<Rightarrow> string" where
  \<open>save_recent_text st =
     ''{'' @ [NL] @ ''  "version": 1,'' @ [NL] @ ''  "recents": ['' @ [NL] @
     entries_text recent_text st @ ''  ]'' @ [NL] @ ''}'' @ [NL]\<close>

definition recent_entry_from_rom ::
    "string \<Rightarrow> rom_entry \<Rightarrow> string \<Rightarrow> string \<Rightarrow> bool \<Rightarrow> recent_entry" where
  "recent_entry_from_rom system_id rom launch_profile played_at resume_available =
     \<lparr>rec_system_id = stored 64 system_id,
      rec_relative_path = stored TEXT_PATH_MAX (rom_relative_path rom),
      rec_title = stored 256 (if rom_title rom \<noteq> [] then rom_title rom else rom_relative_path rom),
      rec_file_name = stored 256 (rom_file_name rom),
      rec_path = stored TEXT_PATH_MAX (rom_path rom),
      rec_thumbnail = stored TEXT_PATH_MAX (rom_thumbnail rom),
      rec_launch_profile = stored 128 launch_profile,
      rec_last_played_at = stored 64 played_at,
      rec_resume_available = resume_available\<rparr>"

text \<open>
  \<open>add_recent_entry\<close>: the entries before the one that is found, or all of them, move up by one, the
  last falling off a full table, and the new entry goes to the front.
\<close>

definition add_recent_entry :: "recent_entry list \<Rightarrow> recent_entry \<Rightarrow> recent_entry list" where
  "add_recent_entry st e =
     (case find_recent st (rec_system_id e) (rec_relative_path e) of
        Some i \<Rightarrow> e # take i st @ drop (Suc i) st
      | None \<Rightarrow>
          let count = (if length st < MAX_RECENTS then length st + 1 else length st)
          in e # take (count - 1) st)"

section \<open>The resume record\<close>

record resume_session =
  res_pending :: bool
  res_reason :: string
  res_system_id :: string
  res_relative_path :: string
  res_title :: string
  res_file_name :: string
  res_path :: string
  res_thumbnail :: string
  res_launch_profile :: string
  res_updated_at :: string
  res_auto_state_load :: bool

definition init_resume_session :: resume_session where
  "init_resume_session = \<lparr>res_pending = False, res_reason = ''none'', res_system_id = [],
     res_relative_path = [], res_title = [], res_file_name = [], res_path = [], res_thumbnail = [],
     res_launch_profile = [], res_updated_at = [], res_auto_state_load = False\<rparr>"

definition parse_resume_session :: "string \<Rightarrow> resume_session" where
  "parse_resume_session json =
     (let gets = (\<lambda>key cap old. snd (text_json_get_string json 0 (length json) key cap old));
          pending = json_get_bool json 0 (length json) ''pending'' False;
          reason = gets ''reason'' 64 ''none''
      in \<lparr>res_pending = pending,
          res_reason = (if reason = [] then stored 64 (if pending then ''shutdown'' else ''none'') else reason),
          res_system_id = gets ''system_id'' 64 [],
          res_relative_path = gets ''relative_path'' TEXT_PATH_MAX [],
          res_title = gets ''title'' 256 [], res_file_name = gets ''file_name'' 256 [],
          res_path = gets ''path'' TEXT_PATH_MAX [], res_thumbnail = gets ''thumbnail'' TEXT_PATH_MAX [],
          res_launch_profile = gets ''launch_profile'' 128 [],
          res_updated_at = gets ''updated_at'' 64 [],
          res_auto_state_load = json_get_bool json 0 (length json) ''auto_state_load'' False\<rparr>)"

definition load_resume_session :: "os \<Rightarrow> string \<Rightarrow> bool \<times> resume_session" where
  "load_resume_session w path =
     (if \<not> file_exists w path then (True, init_resume_session)
      else case os_read w path of
        None \<Rightarrow> (False, init_resume_session)
      | Some json \<Rightarrow> (True, parse_resume_session json))"

definition save_resume_session_text :: "resume_session \<Rightarrow> string" where
  \<open>save_resume_session_text s =
     ''{'' @ [NL] @ ''  "version": 1,'' @ [NL] @
     ''  "pending": '' @ (if res_pending s then ''true'' else ''false'') @ '','' @ [NL] @
     ''  "reason": '' @ json_write_escaped (res_reason s) @
     '','' @ [NL] @ ''  "system_id": '' @ json_write_escaped (res_system_id s) @
     '','' @ [NL] @ ''  "relative_path": '' @ json_write_escaped (res_relative_path s) @
     '','' @ [NL] @ ''  "title": '' @ json_write_escaped (res_title s) @
     '','' @ [NL] @ ''  "file_name": '' @ json_write_escaped (res_file_name s) @
     '','' @ [NL] @ ''  "path": '' @ json_write_escaped (res_path s) @
     '','' @ [NL] @ ''  "thumbnail": '' @ json_write_escaped (res_thumbnail s) @
     '','' @ [NL] @ ''  "launch_profile": '' @ json_write_escaped (res_launch_profile s) @
     '','' @ [NL] @ ''  "updated_at": '' @ json_write_escaped (res_updated_at s) @
     '','' @ [NL] @ ''  "auto_state_load": '' @ (if res_auto_state_load s then ''true'' else ''false'') @ [NL] @
     ''}'' @ [NL]\<close>

definition resume_session_from_rom ::
    "string \<Rightarrow> rom_entry \<Rightarrow> string \<Rightarrow> string \<Rightarrow> string \<Rightarrow> bool \<Rightarrow> bool \<Rightarrow> resume_session" where
  "resume_session_from_rom system_id rom launch_profile updated_at reason pending auto_state_load =
     \<lparr>res_pending = pending,
      res_reason = stored 64 (if reason \<noteq> [] then reason else ''shutdown''),
      res_system_id = stored 64 system_id,
      res_relative_path = stored TEXT_PATH_MAX (rom_relative_path rom),
      res_title = stored 256 (if rom_title rom \<noteq> [] then rom_title rom else rom_relative_path rom),
      res_file_name = stored 256 (rom_file_name rom),
      res_path = stored TEXT_PATH_MAX (rom_path rom),
      res_thumbnail = stored TEXT_PATH_MAX (rom_thumbnail rom),
      res_launch_profile = stored 128 launch_profile,
      res_updated_at = stored 64 updated_at,
      res_auto_state_load = auto_state_load\<rparr>"

end
