(* ===== verification/TextFavsProofs.thy ===== *)
theory TextFavsProofs
  imports TextFavs
begin

text \<open>
  The favorites table as a keyed store, the recent games as a list in order of last use, and that
  both files give back the table that was written.
\<close>

section \<open>Favorites as a keyed store\<close>

lemma find_favorite_key:
  "find_favorite st s r = find_first (\<lambda>e. fav_key e = (s, r)) st"
  by (simp add: find_favorite_def fav_key_def)

lemma fav_key_of_rom:
  "length s < 64 \<Longrightarrow> length (rom_relative_path rom) < TEXT_PATH_MAX \<Longrightarrow>
     fav_key (favorite_of_rom s rom) = (s, rom_relative_path rom)"
  by (simp add: favorite_of_rom_def fav_key_def fits_simps)

definition favorites_ok :: "favorite_entry list \<Rightarrow> bool" where
  "favorites_ok st \<longleftrightarrow> distinct_keys fav_key st \<and> length st \<le> MAX_FAVORITES"

definition fav_arg_ok :: "string \<times> string \<Rightarrow> rom_entry \<Rightarrow> bool" where
  "fav_arg_ok k rom \<longleftrightarrow> rom_relative_path rom = snd k \<and> length (fst k) < 64 \<and> length (snd k) < TEXT_PATH_MAX"

lemma set_favorite_cases:
  assumes "set_favorite_from_rom st s rom = Some st'" and "fav_arg_ok (s, r) rom"
  shows "(\<exists>i. find_first (\<lambda>e. fav_key e = (s, r)) st = Some i \<and> st' = st[i := favorite_of_rom s rom]) \<or>
    (find_first (\<lambda>e. fav_key e = (s, r)) st = None \<and> length st < MAX_FAVORITES \<and>
      st' = st @ [favorite_of_rom s rom])"
  using assms by (auto simp: set_favorite_from_rom_def find_favorite_key fav_arg_ok_def not_le
      split: option.splits if_splits)

interpretation favorites: keyed_store
  "lookup fav_key" "\<lambda>st k rom. set_favorite_from_rom st (fst k) rom"
  "\<lambda>st k. clear_favorite st (fst k) (snd k)" "\<lambda>k _ rom. favorite_of_rom (fst k) rom"
  favorites_ok "\<lambda>k. True" fav_arg_ok
proof unfold_locales
  fix st st' :: "favorite_entry list" and k k' :: "string \<times> string" and rom
  assume ok: "favorites_ok st" and arg: "fav_arg_ok k rom"
    and put: "set_favorite_from_rom st (fst k) rom = Some st'"
  obtain s r where k: "k = (s, r)" by (cases k)
  have key: "fav_key (favorite_of_rom s rom) = (s, r)"
    using arg k by (simp add: fav_arg_ok_def fav_key_of_rom)
  from set_favorite_cases [of st s rom st' r] put arg k
  consider (old) i where "find_first (\<lambda>e. fav_key e = (s, r)) st = Some i" "st' = st[i := favorite_of_rom s rom]"
    | (new) "find_first (\<lambda>e. fav_key e = (s, r)) st = None" "length st < MAX_FAVORITES"
        "st' = st @ [favorite_of_rom s rom]"
    by auto
  note cases = this
  show "lookup fav_key st' k = Some (favorite_of_rom (fst k) rom)"
    using cases k key by cases (simp_all add: lookup_update_same lookup_append_new del: find_first_None)
  show "lookup fav_key st' k' = lookup fav_key st k'" if "k' \<noteq> k"
    using cases k key that
    by cases (simp_all add: lookup_update_other lookup_append_new del: find_first_None)
  show "favorites_ok st'"
    using cases key ok distinct_append_key [of fav_key "(s, r)" st]
    by cases (simp_all add: favorites_ok_def map_key_update del: find_first_None distinct_append map_append)
next
  fix st :: "favorite_entry list" and k k' :: "string \<times> string"
  assume ok: "favorites_ok st"
  have c: "clear_favorite st (fst k) (snd k) = remove_key fav_key k st"
    by (simp add: clear_favorite_def remove_key_def find_favorite_key)
  show "lookup fav_key (clear_favorite st (fst k) (snd k)) k = None"
    unfolding c using ok by (simp add: favorites_ok_def remove_key_same)
  show "lookup fav_key (clear_favorite st (fst k) (snd k)) k' = lookup fav_key st k'" if "k' \<noteq> k"
    unfolding c using that by (rule remove_key_other)
  show "favorites_ok (clear_favorite st (fst k) (snd k))"
    unfolding c using ok remove_key_length [of fav_key k st]
    by (simp add: favorites_ok_def remove_key_distinct)
qed

section \<open>The favorites file\<close>

definition fav_entry_ok :: "favorite_entry \<Rightarrow> bool" where
  "fav_entry_ok e \<longleftrightarrow> valid_system_id (fav_system_id e) \<and> str_ok 64 (fav_system_id e) \<and>
     valid_relative_rom_path (fav_relative_path e) \<and> str_ok TEXT_PATH_MAX (fav_relative_path e) \<and>
     fav_title e \<noteq> [] \<and> str_ok 256 (fav_title e) \<and> str_ok 256 (fav_file_name e) \<and>
     str_ok TEXT_PATH_MAX (fav_path e) \<and> str_ok TEXT_PATH_MAX (fav_thumbnail e)"

definition fav_fields :: "favorite_entry \<Rightarrow> field list" where
  "fav_fields e = [(''system_id'', JStr (fav_system_id e)), (''relative_path'', JStr (fav_relative_path e)),
     (''title'', JStr (fav_title e)), (''file_name'', JStr (fav_file_name e)),
     (''path'', JStr (fav_path e)), (''thumbnail'', JStr (fav_thumbnail e))]"

text \<open>The keys of the frontend's files are plain identifiers.\<close>

lemma key_names [simp]:
  "simple_key ''system_id''" "simple_key ''relative_path''" "simple_key ''title''"
  "simple_key ''file_name''" "simple_key ''path''" "simple_key ''thumbnail''"
  "simple_key ''launch_profile''" "simple_key ''last_played_at''" "simple_key ''resume_available''"
  "simple_key ''favorites''" "simple_key ''recents''"
  by (simp_all add: simple_key_def isalnum_def isdigit_def code_of_def)

lemma favorite_text_fields: "favorite_text e = object_text field_sep (fav_fields e)"
  by (simp add: favorite_text_def object_text_def fav_fields_def field_text_def)

lemma fav_fields_ok: "fav_entry_ok e \<Longrightarrow> fields_ok (fav_fields e)"
  by (auto simp: fields_ok_def fav_fields_def fav_entry_ok_def dest: str_ok_NUL)

lemma parse_favorite_written:
  assumes "fav_entry_ok e"
  shows "parse_favorite (object_text field_sep (fav_fields e)) = e"
proof -
  have g: "text_json_get_string (object_text field_sep (fav_fields e)) 0
      (length (object_text field_sep (fav_fields e))) key n [] = (True, s)"
    if "map_of (fav_fields e) key = Some (JStr s)" "str_ok n s" "simple_key key" for key n s
    using text_get_string_object [OF fav_fields_ok [OF assms] field_sep_ok] that by blast
  have f: "map_of (fav_fields e) ''system_id'' = Some (JStr (fav_system_id e))"
    "map_of (fav_fields e) ''relative_path'' = Some (JStr (fav_relative_path e))"
    "map_of (fav_fields e) ''title'' = Some (JStr (fav_title e))"
    "map_of (fav_fields e) ''file_name'' = Some (JStr (fav_file_name e))"
    "map_of (fav_fields e) ''path'' = Some (JStr (fav_path e))"
    "map_of (fav_fields e) ''thumbnail'' = Some (JStr (fav_thumbnail e))"
    by (simp_all add: fav_fields_def)
  show ?thesis
    using assms by (simp add: parse_favorite_def fav_entry_ok_def g [OF f(1)] g [OF f(2)] g [OF f(3)]
        g [OF f(4)] g [OF f(5)] g [OF f(6)])
qed

definition parse_full_favorite :: "string \<Rightarrow> favorite_entry" where
  "parse_full_favorite obj = fill_favorite_title (parse_favorite obj)"

lemma fill_favorite_title_rest [simp]:
  "fav_system_id (fill_favorite_title e) = fav_system_id e"
  "fav_relative_path (fill_favorite_title e) = fav_relative_path e"
  by (simp_all add: fill_favorite_title_def)

definition fav_table_ok :: "favorite_entry list \<Rightarrow> bool" where
  "fav_table_ok st \<longleftrightarrow> distinct_keys fav_key st \<and> list_all fav_entry_ok st"

definition fav_accept :: "favorite_entry list \<Rightarrow> favorite_entry \<Rightarrow> bool" where
  "fav_accept st e \<longleftrightarrow> valid_system_id (fav_system_id e) \<and> valid_relative_rom_path (fav_relative_path e) \<and>
     find_favorite st (fav_system_id e) (fav_relative_path e) = None"

lemma fav_accept_new:
  assumes "distinct_keys fav_key (es @ e # es')"
  shows "find_favorite es (fav_system_id e) (fav_relative_path e) = None"
proof -
  have "fav_key e \<notin> fav_key ` set es" using assms by simp
  then show ?thesis unfolding find_favorite_key find_first_None by (metis fav_key_def imageI)
qed

interpretation fav_json: json_table fav_fields parse_full_favorite fav_entry_ok fav_accept fav_table_ok
proof unfold_locales
  fix e es es'
  assume e: "fav_entry_ok e"
  show "fields_ok (fav_fields e)" using e by (rule fav_fields_ok)
  show "parse_full_favorite (object_text field_sep (fav_fields e)) = e"
    using e by (simp add: parse_full_favorite_def parse_favorite_written fill_favorite_title_def fav_entry_ok_def)
  show "fav_accept es e" if "fav_table_ok (es @ e # es')"
    unfolding fav_accept_def
    using that e fav_accept_new [of es e es'] unfolding fav_table_ok_def fav_entry_ok_def by blast
qed

lemma add_parsed_favorite_row: "add_parsed_favorite = fav_json.take_row"
  by (intro ext) (simp add: add_parsed_favorite_def fav_json.take_row_def fav_accept_def
      parse_full_favorite_def Let_def)

lemma save_favorites_array:
  "save_favorites_text st = file_head ''favorites'' @ array_text fav_json.row st @ [NL] @ ''}'' @ [NL]"
proof -
  have "fav_json.row = favorite_text"
    by (rule ext) (simp add: fav_json.row_def favorite_text_fields)
  then show ?thesis by (simp add: save_favorites_text_def file_head_def array_text_def)
qed

section \<open>Recent games in order of use\<close>

lemma find_recent_key: "find_recent st s r = find_first (\<lambda>e. rec_key e = (s, r)) st"
  by (simp add: find_recent_def rec_key_def)

text \<open>What the table promises: the last games, each once, the latest first.\<close>

definition most_recent :: "recent_entry list \<Rightarrow> recent_entry \<Rightarrow> recent_entry list" where
  "most_recent st e = take MAX_RECENTS (e # filter (\<lambda>x. rec_key x \<noteq> rec_key e) st)"

definition recents_ok :: "recent_entry list \<Rightarrow> bool" where
  "recents_ok st \<longleftrightarrow> distinct_keys rec_key st \<and> length st \<le> MAX_RECENTS"

lemma filter_key_remove:
  "distinct_keys key st \<Longrightarrow> find_first (\<lambda>e. key e = k) st = Some i \<Longrightarrow>
     filter (\<lambda>x. key x \<noteq> k) st = take i st @ drop (Suc i) st"
proof (induction st arbitrary: i)
  case (Cons x st)
  show ?case
  proof (cases "key x = k")
    case True
    with Cons.prems(1) have "k \<notin> key ` set st" by simp
    then have "\<forall>y \<in> set st. key y \<noteq> k" by (metis imageI)
    with True Cons.prems show ?thesis by (simp add: filter_id_conv)
  next
    case False
    with Cons show ?thesis by auto
  qed
qed simp

lemma add_recent_entry_spec:
  assumes "recents_ok st"
  shows "add_recent_entry st e = most_recent st e"
proof (cases "find_recent st (rec_system_id e) (rec_relative_path e)")
  case None
  then have "\<forall>x \<in> set st. rec_key x \<noteq> rec_key e"
    by (simp add: find_recent_key) (simp add: rec_key_def)
  then have f: "filter (\<lambda>x. rec_key x \<noteq> rec_key e) st = st" by (simp add: filter_id_conv)
  show ?thesis
  proof (cases "length st < MAX_RECENTS")
    case True
    with None f show ?thesis by (simp add: add_recent_entry_def most_recent_def Let_def take_Cons')
  next
    case False
    then have "length st = MAX_RECENTS" using assms by (simp add: recents_ok_def)
    with None f show ?thesis by (simp add: add_recent_entry_def most_recent_def Let_def take_Cons' MAX_RECENTS_def)
  qed
next
  case (Some i)
  then have i: "find_first (\<lambda>x. rec_key x = rec_key e) st = Some i"
    by (simp add: find_recent_key) (simp add: rec_key_def)
  then have f: "filter (\<lambda>x. rec_key x \<noteq> rec_key e) st = take i st @ drop (Suc i) st"
    using assms by (intro filter_key_remove) (simp_all add: recents_ok_def)
  have "i < length st" using find_first_SomeD [OF i] by simp
  then have "length (e # take i st @ drop (Suc i) st) \<le> MAX_RECENTS" using assms by (auto simp: recents_ok_def)
  with Some f show ?thesis
    by (simp only: add_recent_entry_def most_recent_def option.case take_all)
qed

lemma most_recent_ok: "recents_ok st \<Longrightarrow> recents_ok (most_recent st e)"
proof -
  assume "recents_ok st"
  then have "distinct_keys rec_key (e # filter (\<lambda>x. rec_key x \<noteq> rec_key e) st)"
    by (auto simp: recents_ok_def distinct_map_filter)
  then have "distinct (take MAX_RECENTS (map rec_key (e # filter (\<lambda>x. rec_key x \<noteq> rec_key e) st)))"
    by (rule distinct_take)
  then show ?thesis by (simp only: recents_ok_def most_recent_def take_map) simp
qed

lemma take_remove_front:
  "distinct xs \<Longrightarrow> take m (k # removeAll k (take m xs)) = take m (k # removeAll k xs)"
proof (cases "k \<in> set (take m xs)")
  case True
  assume d: "distinct xs"
  from True obtain n where m: "m = Suc n" by (cases m) auto
  have "k \<notin> set (drop m xs)"
    using d True by (metis append_take_drop_id disjoint_iff distinct_append)
  then have "removeAll k xs = removeAll k (take m xs) @ drop m xs"
    by (metis append_take_drop_id removeAll_append removeAll_id)
  moreover have "length (removeAll k (take m xs)) = length (take m xs) - 1"
    using d True by (simp add: distinct_remove1_removeAll [symmetric] length_remove1)
  moreover have "length (take m xs) < m \<Longrightarrow> drop m xs = []" by simp
  ultimately show ?thesis using m by (cases "length (take m xs) < m") auto
next
  case False
  assume d: "distinct xs"
  show ?thesis
  proof (cases m)
    case (Suc n)
    have t: "take n (take m xs) = take n xs" using Suc by (simp add: min_def)
    have "k \<notin> set (take n xs)" using False Suc set_take_subset_set_take [of n m xs] by auto
    then have "take n (removeAll k xs) = take n (take n xs @ removeAll k (drop n xs))"
      by (metis append_take_drop_id removeAll_append removeAll_id)
    then have "take n (removeAll k xs) = take n xs"
      by (cases "n \<le> length xs") auto
    with False t Suc show ?thesis by simp
  qed simp
qed

lemma map_key_most_recent:
  "map rec_key (most_recent st e) = take MAX_RECENTS (rec_key e # removeAll (rec_key e) (map rec_key st))"
proof -
  have "map rec_key (filter (\<lambda>x. rec_key x \<noteq> rec_key e) st) = removeAll (rec_key e) (map rec_key st)"
    by (induction st) auto
  then show ?thesis by (simp add: most_recent_def flip: take_map)
qed

lemma remdups_snoc: "remdups (xs @ [x]) = removeAll x (remdups xs) @ [x]"
  by (induction xs) auto

lemma rev_removeAll: "rev (removeAll x xs) = removeAll x (rev xs)"
  by (simp add: removeAll_filter_not_eq rev_filter)

lemma recents_run:
  "recents_ok (foldl add_recent_entry [] es) \<and>
   map rec_key (foldl add_recent_entry [] es) = take MAX_RECENTS (rev (remdups (map rec_key es)))"
proof (induction es rule: rev_induct)
  case Nil
  then show ?case by (simp add: recents_ok_def)
next
  case (snoc e es)
  let ?st = "foldl add_recent_entry [] es" and ?ks = "rev (remdups (map rec_key es))"
  have step: "foldl add_recent_entry [] (es @ [e]) = most_recent ?st e"
    using snoc add_recent_entry_spec by simp
  have "rev (remdups (map rec_key (es @ [e]))) = rec_key e # removeAll (rec_key e) ?ks"
    by (simp add: remdups_snoc rev_removeAll)
  then show ?case
    using snoc unfolding step by (simp add: most_recent_ok map_key_most_recent take_remove_front)
qed

section \<open>The file of the recent games\<close>

definition rec_entry_ok :: "recent_entry \<Rightarrow> bool" where
  "rec_entry_ok e \<longleftrightarrow> valid_system_id (rec_system_id e) \<and> str_ok 64 (rec_system_id e) \<and>
     valid_relative_rom_path (rec_relative_path e) \<and> str_ok TEXT_PATH_MAX (rec_relative_path e) \<and>
     rec_title e \<noteq> [] \<and> str_ok 256 (rec_title e) \<and> str_ok 256 (rec_file_name e) \<and>
     str_ok TEXT_PATH_MAX (rec_path e) \<and> str_ok TEXT_PATH_MAX (rec_thumbnail e) \<and>
     rec_launch_profile e \<noteq> [] \<and> str_ok 128 (rec_launch_profile e) \<and> str_ok 64 (rec_last_played_at e)"

definition rec_fields :: "recent_entry \<Rightarrow> field list" where
  "rec_fields e = [(''system_id'', JStr (rec_system_id e)), (''relative_path'', JStr (rec_relative_path e)),
     (''title'', JStr (rec_title e)), (''file_name'', JStr (rec_file_name e)),
     (''path'', JStr (rec_path e)), (''thumbnail'', JStr (rec_thumbnail e)),
     (''launch_profile'', JStr (rec_launch_profile e)), (''last_played_at'', JStr (rec_last_played_at e)),
     (''resume_available'', JRaw (if rec_resume_available e then ''true'' else ''false''))]"

lemma recent_text_fields: "recent_text e = object_text field_sep (rec_fields e)"
  by (simp add: recent_text_def object_text_def rec_fields_def field_text_def)

lemma bool_raw_ok [simp]: "jval_ok (JRaw (if b then ''true'' else ''false''))"
  by (simp add: raw_char_def isalnum_def isdigit_def code_of_def)

lemma rec_fields_ok: "rec_entry_ok e \<Longrightarrow> fields_ok (rec_fields e)"
  unfolding fields_ok_def rec_fields_def rec_entry_ok_def
  by (simp del: jval_ok.simps(2)) (auto dest: str_ok_NUL)

lemma parse_recent_written:
  assumes "rec_entry_ok e"
  shows "parse_recent (object_text field_sep (rec_fields e)) = e"
proof -
  note ok = rec_fields_ok [OF assms]
  have g: "text_json_get_string (object_text field_sep (rec_fields e)) 0
      (length (object_text field_sep (rec_fields e))) key n [] = (True, s)"
    if "map_of (rec_fields e) key = Some (JStr s)" "str_ok n s" "simple_key key" for key n s
    using text_get_string_object [OF ok field_sep_ok] that by blast
  have f: "map_of (rec_fields e) ''system_id'' = Some (JStr (rec_system_id e))"
    "map_of (rec_fields e) ''relative_path'' = Some (JStr (rec_relative_path e))"
    "map_of (rec_fields e) ''title'' = Some (JStr (rec_title e))"
    "map_of (rec_fields e) ''file_name'' = Some (JStr (rec_file_name e))"
    "map_of (rec_fields e) ''path'' = Some (JStr (rec_path e))"
    "map_of (rec_fields e) ''thumbnail'' = Some (JStr (rec_thumbnail e))"
    "map_of (rec_fields e) ''launch_profile'' = Some (JStr (rec_launch_profile e))"
    "map_of (rec_fields e) ''last_played_at'' = Some (JStr (rec_last_played_at e))"
    and b: "map_of (rec_fields e) ''resume_available'' =
      Some (JRaw (if rec_resume_available e then ''true'' else ''false''))"
    by (simp_all add: rec_fields_def)
  have gb: "json_get_bool (object_text field_sep (rec_fields e)) 0
      (length (object_text field_sep (rec_fields e))) ''resume_available'' False = rec_resume_available e"
    by (rule get_bool_object [OF ok field_sep_ok _ b]) simp
  show ?thesis
    using assms by (simp add: parse_recent_def rec_entry_ok_def g [OF f(1)] g [OF f(2)] g [OF f(3)]
        g [OF f(4)] g [OF f(5)] g [OF f(6)] g [OF f(7)] g [OF f(8)] gb)
qed

definition parse_full_recent :: "string \<Rightarrow> recent_entry" where
  "parse_full_recent obj = fill_recent_title (parse_recent obj)"

lemma fill_recent_title_rest [simp]:
  "rec_system_id (fill_recent_title e) = rec_system_id e"
  "rec_relative_path (fill_recent_title e) = rec_relative_path e"
  "rec_launch_profile (fill_recent_title e) = rec_launch_profile e"
  by (simp_all add: fill_recent_title_def)

definition rec_table_ok :: "recent_entry list \<Rightarrow> bool" where
  "rec_table_ok st \<longleftrightarrow> distinct_keys rec_key st \<and> list_all rec_entry_ok st"

definition rec_accept :: "recent_entry list \<Rightarrow> recent_entry \<Rightarrow> bool" where
  "rec_accept st e \<longleftrightarrow> valid_system_id (rec_system_id e) \<and> valid_relative_rom_path (rec_relative_path e) \<and>
     rec_launch_profile e \<noteq> [] \<and> find_recent st (rec_system_id e) (rec_relative_path e) = None"

lemma rec_accept_new:
  assumes "distinct_keys rec_key (es @ e # es')"
  shows "find_recent es (rec_system_id e) (rec_relative_path e) = None"
proof -
  have "rec_key e \<notin> rec_key ` set es" using assms by simp
  then show ?thesis unfolding find_recent_key find_first_None by (metis rec_key_def imageI)
qed

interpretation rec_json: json_table rec_fields parse_full_recent rec_entry_ok rec_accept rec_table_ok
proof unfold_locales
  fix e es es'
  assume e: "rec_entry_ok e"
  show "fields_ok (rec_fields e)" using e by (rule rec_fields_ok)
  show "parse_full_recent (object_text field_sep (rec_fields e)) = e"
    using e by (simp add: parse_full_recent_def parse_recent_written fill_recent_title_def rec_entry_ok_def)
  show "rec_accept es e" if "rec_table_ok (es @ e # es')"
    unfolding rec_accept_def
    using that e rec_accept_new [of es e es'] unfolding rec_table_ok_def rec_entry_ok_def by blast
qed

lemma add_parsed_recent_row: "add_parsed_recent = rec_json.take_row"
  by (intro ext) (simp add: add_parsed_recent_def rec_json.take_row_def rec_accept_def
      parse_full_recent_def Let_def)

lemma save_recent_array:
  "save_recent_text st = file_head ''recents'' @ array_text rec_json.row st @ [NL] @ ''}'' @ [NL]"
proof -
  have "rec_json.row = recent_text"
    by (rule ext) (simp add: rec_json.row_def recent_text_fields)
  then show ?thesis by (simp add: save_recent_text_def file_head_def array_text_def)
qed

section \<open>Properties\<close>

text \<open>
  Reading the file that \<open>save_favorites\<close> prints gives the table back, in its order, whatever the titles and
  paths contain: quotes, backslashes, braces, text that looks like a key.
\<close>

lemma favorites_reload:
  assumes "file_exists w path" and "os_read w path = Some (save_favorites_text st)"
    and "distinct_keys fav_key st" and "list_all fav_entry_ok st" and "length st \<le> MAX_FAVORITES"
  shows "load_favorites w path = (True, st)"
proof -
  have "fav_table_ok st" using assms by (simp add: fav_table_ok_def)
  from fav_json.load_file [OF save_favorites_array _ _ this assms(4,5)]
  obtain s be where "json_find_array (save_favorites_text st) 0 (length (save_favorites_text st)) ''favorites'' = Some (s, be)"
    "json_each_object (save_favorites_text st) be s (\<lambda>st. length st < MAX_FAVORITES)
       (\<lambda>os oe st'. fav_json.take_row (range_dup (save_favorites_text st) os oe) st') [] = st"
    by auto
  with assms show ?thesis by (simp add: load_favorites_def add_parsed_favorite_row)
qed

text \<open>
  A command of the frontend on the favorites: a game added with its data, or removed. A command that
  finds the table full changes nothing.
\<close>

definition favorite_command ::
    "favorite_entry list \<Rightarrow> (string \<times> string) \<times> rom_entry option \<Rightarrow> favorite_entry list" where
  "favorite_command st c =
     (case c of
        ((system_id, relative_path), None) \<Rightarrow> clear_favorite st system_id relative_path
      | ((system_id, relative_path), Some rom) \<Rightarrow>
          (case set_favorite_from_rom st system_id rom of Some st' \<Rightarrow> st' | None \<Rightarrow> st))"

definition favorite_command_ok :: "(string \<times> string) \<times> rom_entry option \<Rightarrow> bool" where
  "favorite_command_ok c \<longleftrightarrow> (case snd c of None \<Rightarrow> True | Some rom \<Rightarrow> fav_arg_ok (fst c) rom)"

lemma favorite_command_exec: "favorite_command = favorites.exec"
  by (intro ext) (auto simp: favorite_command_def favorites.exec_def split: prod.splits option.splits)

lemma favorite_command_ok_cmd: "favorite_command_ok = favorites.cmd_ok"
  by (intro ext) (simp add: favorite_command_ok_def favorites.cmd_ok_def)

text \<open>
  The favorites are a table keyed by system and path. After any sequence of additions and removals
  that starts from a table with distinct keys, keys are still distinct and the table not over its
  limit; a game added last is there with the data it was added with; a game removed last is not;
  and what happens to other games does not matter to it.
\<close>

theorem favorites_run:
  assumes "favorites_ok st" and "list_all favorite_command_ok cs" and "list_all favorite_command_ok ds"
    and "\<forall>c \<in> set ds. fst c \<noteq> (sid, rel)"
  shows "favorites_ok (foldl favorite_command st cs) \<and>
    (\<forall>rom st'. fav_arg_ok (sid, rel) rom \<longrightarrow>
       set_favorite_from_rom (foldl favorite_command st cs) sid rom = Some st' \<longrightarrow>
       lookup fav_key (foldl favorite_command st' ds) (sid, rel) = Some (favorite_of_rom sid rom)) \<and>
    lookup fav_key (foldl favorite_command (clear_favorite (foldl favorite_command st cs) sid rel) ds)
      (sid, rel) = None"
proof -
  note ok = assms(1-3) [unfolded favorite_command_ok_cmd]
  have "favorites_ok (foldl favorites.exec st cs)" by (rule favorites.run_inv [OF ok(1,2)])
  moreover have "lookup fav_key (foldl favorites.exec st' ds) (sid, rel) = Some (favorite_of_rom sid rom)"
    if "fav_arg_ok (sid, rel) rom" "set_favorite_from_rom (foldl favorites.exec st cs) sid rom = Some st'"
    for rom st'
    using favorites.run_last_put [OF ok, of "(sid, rel)" rom st'] assms(4) that
    by (simp add: favorites.exec_def)
  moreover have "lookup fav_key (foldl favorites.exec (clear_favorite (foldl favorites.exec st cs) sid rel) ds)
      (sid, rel) = None"
    using favorites.run_last_del [OF ok, of "(sid, rel)"] assms(4) by (simp add: favorites.exec_def)
  ultimately show ?thesis unfolding favorite_command_exec by blast
qed

definition demo_favorite :: favorite_entry where
  "demo_favorite = \<lparr>fav_system_id = ''nes'', fav_relative_path = ''a b.zip'', fav_title = ''A'',
     fav_file_name = ''a b.zip'', fav_path = ''/r/a b.zip'', fav_thumbnail = []\<rparr>"

theorem favorites_run_witness:
  "lookup fav_key (clear_favorite [demo_favorite] ''nes'' ''a b.zip'') (''nes'', ''a b.zip'') = None \<and>
   favorites_ok [demo_favorite]"
  using favorites_run [of "[demo_favorite]" "[]" "[]" "''nes''" "''a b.zip''"]
  by (simp add: favorites_ok_def MAX_FAVORITES_def)

text \<open>
  C22: the recent games are the last ones played. Starting from an empty table, after any number of
  launches the table holds each game once, in order of its last launch, the latest first, and only the
  last 256 different games; every single \<open>add_recent_entry\<close> is the move-to-front it stands for.
\<close>

theorem recents_are_most_recent:
  "recents_ok (foldl add_recent_entry [] es) \<and>
   map rec_key (foldl add_recent_entry [] es) = take MAX_RECENTS (rev (remdups (map rec_key es))) \<and>
   add_recent_entry (foldl add_recent_entry [] es) e = most_recent (foldl add_recent_entry [] es) e"
  using recents_run add_recent_entry_spec by blast

text \<open>
  C23: saved recent games load back unchanged, with their launch profile, time and resume flag.
\<close>

theorem recents_save_load:
  assumes "file_exists w path" and "os_read w path = Some (save_recent_text st)"
    and "distinct_keys rec_key st" and "list_all rec_entry_ok st" and "length st \<le> MAX_RECENTS"
  shows "load_recent w path = (True, st)"
proof -
  have "rec_table_ok st" using assms by (simp add: rec_table_ok_def)
  from rec_json.load_file [OF save_recent_array _ _ this assms(4,5)]
  obtain s be where "json_find_array (save_recent_text st) 0 (length (save_recent_text st)) ''recents'' = Some (s, be)"
    "json_each_object (save_recent_text st) be s (\<lambda>st. length st < MAX_RECENTS)
       (\<lambda>os oe st'. rec_json.take_row (range_dup (save_recent_text st) os oe) st') [] = st"
    by auto
  moreover have "save_recent_text st \<noteq> []" by (simp add: save_recent_text_def)
  ultimately show ?thesis using assms by (simp add: load_recent_def add_parsed_recent_row)
qed

definition demo_recent :: recent_entry where
  "demo_recent = \<lparr>rec_system_id = ''nes'', rec_relative_path = ''a.zip'', rec_title = ''A'',
     rec_file_name = ''a.zip'', rec_path = ''/r/a.zip'', rec_thumbnail = [],
     rec_launch_profile = ''retroarch:x'', rec_last_played_at = ''1'', rec_resume_available = True\<rparr>"

theorem recents_save_load_witness:
  "load_recent (demo_file_os (save_recent_text [demo_recent])) ''/f'' = (True, [demo_recent])"
proof (rule recents_save_load)
  show "list_all rec_entry_ok [demo_recent]"
    by (simp add: demo_recent_def rec_entry_ok_def str_ok_def valid_system_id_def plain_char_def
        valid_relative_rom_path_def contains_str_def TEXT_PATH_MAX_def isalnum_def isdigit_def code_of_def)
qed (simp_all add: demo_file_os_def file_exists_def MAX_RECENTS_def)

end
