(* ===== verification/TextCore.thy ===== *)
theory TextCore
  imports TextValid Tables
begin

text \<open>
  The launch profiles of a system (\<open>struct core_system_def\<close> of \<open>src/frontend/plumos_text_ui.c\<close>): which
  profiles the device allows, how the list is read from \<open>systems.json\<close>, and the PicoArch profiles
  that are added beside the RetroArch ones.
\<close>

section \<open>State\<close>

record core_system_def =
  cs_id :: string
  cs_display_name :: string
  default_launch_profile :: string
  default_cpu_policy :: string
  default_cpu_freq_khz :: int
  launch_profiles :: "string list"

text \<open>\<open>memset (\<dots>, 0, \<dots>)\<close>.\<close>

definition zero_system :: core_system_def where
  "zero_system = \<lparr>cs_id = [], cs_display_name = [], default_launch_profile = [],
     default_cpu_policy = [], default_cpu_freq_khz = 0, launch_profiles = []\<rparr>"

section \<open>Profiles\<close>

definition core_profile_index :: "core_system_def \<Rightarrow> string \<Rightarrow> nat option" where
  "core_profile_index system profile = find_first (\<lambda>p. p = profile) (launch_profiles system)"

definition core_profile_is_listed :: "core_system_def \<Rightarrow> string \<Rightarrow> bool" where
  "core_profile_is_listed system profile \<longleftrightarrow>
     profile \<noteq> [] \<and> core_profile_index system profile \<noteq> None"

definition picoarch_core_id_allowed :: "string \<Rightarrow> bool" where
  "picoarch_core_id_allowed core_id =
     (if core_id = [] then False
      else if core_id = ''flycast'' \<or> core_id = ''flycast_xtreme'' \<or>
        core_id = ''km_duckswanstation_xtreme_amped'' \<or> core_id = ''mupen64plus_next'' \<or>
        core_id = ''parallel_n64'' \<or> core_id = ''yabasanshiro'' then False
      else if core_id = ''frodo'' then False
      else if core_id = ''chailove'' then False
      else True)"

definition launch_profile_allowed_on_mmf :: "string \<Rightarrow> bool" where
  "launch_profile_allowed_on_mmf profile =
     (if profile = [] then False
      else if profile = ''picoarch:frodo'' then False
      else if strncmp_eq profile ''picoarch:'' 9 then picoarch_core_id_allowed (drop 9 profile)
      else True)"

definition add_core_profile :: "core_system_def \<Rightarrow> string \<Rightarrow> bool \<times> core_system_def" where
  "add_core_profile system profile =
     (if \<not> valid_launch_profile_id profile \<or> \<not> launch_profile_allowed_on_mmf profile
        then (False, system)
      else if core_profile_index system profile \<noteq> None then (True, system)
      else if MAX_CORE_PROFILES \<le> length (launch_profiles system) then (False, system)
      else (True, system\<lparr>launch_profiles := launch_profiles system @ [stored 128 profile]\<rparr>))"

definition picoarch_companion_core_allowed :: "string \<Rightarrow> string \<Rightarrow> bool" where
  "picoarch_companion_core_allowed system_id core_id =
     (if system_id = ''n64'' then False
      else if system_id = ''saturn'' then False
      else picoarch_core_id_allowed core_id)"

text \<open>
  \<open>add_picoarch_companion_profiles\<close>: the body of its loop, where every \<open>continue\<close> leaves the system
  as it is, and the loop over the profiles that were there before it.
\<close>

definition add_companion :: "string \<Rightarrow> core_system_def \<Rightarrow> core_system_def" where
  "add_companion profile system =
     (if \<not> strncmp_eq profile ''retroarch:'' 10 then system
      else let core_id = drop 10 profile in
        if core_id = [] then system
        else if \<not> picoarch_companion_core_allowed (cs_id system) core_id then system
        else let pico_profile = ''picoarch:'' @ core_id in
          if 128 \<le> length pico_profile then system
          else if \<not> launch_profile_allowed_on_mmf pico_profile then system
          else snd (add_core_profile system pico_profile))"

fun add_companions :: "string list \<Rightarrow> core_system_def \<Rightarrow> core_system_def" where
  "add_companions [] system = system"
| "add_companions (profile # ps) system =
     (if MAX_CORE_PROFILES \<le> length (launch_profiles system) then system
      else add_companions ps (add_companion profile system))"

definition add_picoarch_companion_profiles :: "core_system_def \<Rightarrow> core_system_def" where
  "add_picoarch_companion_profiles system = add_companions (launch_profiles system) system"

definition format_launch_profile_display :: "string \<Rightarrow> nat \<Rightarrow> string" where
  "format_launch_profile_display profile n =
     (if profile = [] \<or> profile = ''auto'' then stored n ''auto''
      else let (label, v) =
          (if strncmp_eq profile ''retroarch:'' 10 then (''RA'', drop 10 profile)
           else if strncmp_eq profile ''picoarch:'' 9 then (''PICO'', drop 9 profile)
           else if strncmp_eq profile ''standalone:'' 11 then (''SA'', drop 11 profile)
           else ([], []))
        in if label \<noteq> [] \<and> v \<noteq> [] then take (n - 1) (label @ '': '' @ v)
           else stored n profile)"

section \<open>Reading a system\<close>

function profile_array_loop :: "string \<Rightarrow> nat \<Rightarrow> nat \<Rightarrow> core_system_def \<Rightarrow> core_system_def" where
  "profile_array_loop t cursor e system =
     (if length (launch_profiles system) < MAX_CORE_PROFILES then
        (case json_next_string t cursor e 128 of
           None \<Rightarrow> system
         | Some (after, profile) \<Rightarrow>
             profile_array_loop t after e (snd (add_core_profile system profile)))
      else system)"
  by pat_completeness auto
termination
  by (relation "measure (\<lambda>(t, cursor, e, system). e - cursor)") (auto dest: json_next_string_bounds)

declare profile_array_loop.simps [simp del]

definition parse_launch_profile_array :: "string \<Rightarrow> core_system_def \<Rightarrow> core_system_def" where
  "parse_launch_profile_array obj system =
     (case json_find_array obj 0 (length obj) ''launch_profiles'' of
        None \<Rightarrow> system
      | Some (s, e) \<Rightarrow> profile_array_loop obj s e system)"

definition parse_core_system :: "string \<Rightarrow> core_system_def" where
  "parse_core_system obj =
     (let gets = (\<lambda>key cap. snd (text_json_get_string obj 0 (length obj) key cap []));
          cpu = gets ''default_cpu_policy'' 32;
          system = \<lparr>cs_id = gets ''id'' 64, cs_display_name = gets ''display_name'' 128,
            default_launch_profile = gets ''default_launch_profile'' 128,
            default_cpu_policy = (if cpu \<noteq> [] \<and> \<not> valid_cpu_policy cpu then [] else cpu),
            default_cpu_freq_khz = 0, launch_profiles = []\<rparr>;
          system = parse_launch_profile_array obj system;
          system = (if default_launch_profile system \<noteq> []
            then snd (add_core_profile system (default_launch_profile system)) else system);
          system = add_picoarch_companion_profiles system
      in if cs_display_name system = []
         then system\<lparr>cs_display_name := stored 128 (cs_id system)\<rparr> else system)"

text \<open>
  The objects are read until the one with the identifier asked for; a file that can not be read,
  an array that is missing and a system that is not listed all give no system.
\<close>

definition load_core_system_def :: "string option \<Rightarrow> string \<Rightarrow> core_system_def option" where
  "load_core_system_def content system_id =
     (case content of
        None \<Rightarrow> None
      | Some json \<Rightarrow>
          (case json_find_array json 0 (length json) ''systems'' of
             None \<Rightarrow> None
           | Some (s, e) \<Rightarrow>
               json_each_object json e s (\<lambda>r. r = None)
                 (\<lambda>os oe r. let obj = range_dup json os oe in
                    if snd (text_json_get_string obj 0 (length obj) ''id'' 64 []) \<noteq> system_id then None
                    else Some (parse_core_system obj))
                 None))"

section \<open>The invariant of a profile list\<close>

definition core_system_ok :: "core_system_def \<Rightarrow> bool" where
  "core_system_ok system \<longleftrightarrow>
     length (launch_profiles system) \<le> MAX_CORE_PROFILES \<and>
     distinct (launch_profiles system) \<and>
     (\<forall>p \<in> set (launch_profiles system). length p < 128 \<and>
        valid_launch_profile_id p \<and> launch_profile_allowed_on_mmf p)"

lemma core_profile_index_iff: "core_profile_index system p \<noteq> None \<longleftrightarrow> p \<in> set (launch_profiles system)"
  by (auto simp: core_profile_index_def)

lemma core_profile_listed_iff:
  "core_profile_is_listed system p \<longleftrightarrow> p \<noteq> [] \<and> p \<in> set (launch_profiles system)"
  by (auto simp: core_profile_is_listed_def core_profile_index_def)

lemma add_core_profile_ok:
  "core_system_ok system \<Longrightarrow> length p < 128 \<Longrightarrow> core_system_ok (snd (add_core_profile system p))"
  by (auto simp: core_system_ok_def add_core_profile_def core_profile_index_def fits_simps)

lemma add_core_profile_mono:
  "set (launch_profiles system) \<subseteq> set (launch_profiles (snd (add_core_profile system p)))"
  by (auto simp: add_core_profile_def)

lemma add_core_profile_rest [simp]:
  "cs_id (snd (add_core_profile system p)) = cs_id system"
  "default_launch_profile (snd (add_core_profile system p)) = default_launch_profile system"
  "default_cpu_policy (snd (add_core_profile system p)) = default_cpu_policy system"
  by (auto simp: add_core_profile_def)

lemma add_companion_ok: "core_system_ok system \<Longrightarrow> core_system_ok (add_companion profile system)"
  by (simp add: add_companion_def Let_def add_core_profile_ok not_le)

lemma add_companion_rest [simp]:
  "cs_id (add_companion profile system) = cs_id system"
  "default_launch_profile (add_companion profile system) = default_launch_profile system"
  "default_cpu_policy (add_companion profile system) = default_cpu_policy system"
  by (simp_all add: add_companion_def Let_def)

lemma add_companion_mono:
  "set (launch_profiles system) \<subseteq> set (launch_profiles (add_companion profile system))"
  using add_core_profile_mono by (simp add: add_companion_def Let_def)

lemma add_companions_ok: "core_system_ok system \<Longrightarrow> core_system_ok (add_companions ps system)"
  by (induction ps arbitrary: system) (simp_all add: add_companion_ok)

lemma add_companions_rest [simp]:
  "cs_id (add_companions ps system) = cs_id system"
  "default_launch_profile (add_companions ps system) = default_launch_profile system"
  "default_cpu_policy (add_companions ps system) = default_cpu_policy system"
  by (induction ps arbitrary: system) simp_all

lemma add_companions_mono:
  "set (launch_profiles system) \<subseteq> set (launch_profiles (add_companions ps system))"
proof (induction ps arbitrary: system)
  case (Cons profile ps)
  have "set (launch_profiles system) \<subseteq> set (launch_profiles (add_companions ps (add_companion profile system)))"
    by (rule subset_trans [OF add_companion_mono Cons.IH])
  then show ?case by simp
qed simp

lemma profile_array_loop_ok:
  "core_system_ok system \<Longrightarrow> core_system_ok (profile_array_loop t cursor e system)"
proof (induction t cursor e system rule: profile_array_loop.induct)
  case (1 t cursor e system)
  show ?case
    using "1.IH" "1.prems" json_next_string_length [of t cursor e 128]
    by (subst profile_array_loop.simps) (auto simp: add_core_profile_ok split: option.splits)
qed

lemma profile_array_loop_rest [simp]:
  "cs_id (profile_array_loop t cursor e system) = cs_id system"
  "default_launch_profile (profile_array_loop t cursor e system) = default_launch_profile system"
  "default_cpu_policy (profile_array_loop t cursor e system) = default_cpu_policy system"
  by (induction t cursor e system rule: profile_array_loop.induct)
     (subst profile_array_loop.simps, auto split: option.splits)+

lemma parse_launch_profile_array_ok:
  "core_system_ok system \<Longrightarrow> core_system_ok (parse_launch_profile_array obj system)"
  by (auto simp: parse_launch_profile_array_def profile_array_loop_ok split: option.splits)

lemma parse_launch_profile_array_rest [simp]:
  "cs_id (parse_launch_profile_array obj system) = cs_id system"
  "default_launch_profile (parse_launch_profile_array obj system) = default_launch_profile system"
  "default_cpu_policy (parse_launch_profile_array obj system) = default_cpu_policy system"
  by (auto simp: parse_launch_profile_array_def split: option.splits)

lemma core_system_ok_display [simp]:
  "core_system_ok (system\<lparr>cs_display_name := x\<rparr>) = core_system_ok system"
  by (simp add: core_system_ok_def)

lemma parse_core_system_facts:
  "core_system_ok (parse_core_system obj) \<and>
   cs_id (parse_core_system obj) = snd (text_json_get_string obj 0 (length obj) ''id'' 64 []) \<and>
   (default_cpu_policy (parse_core_system obj) = [] \<or> valid_cpu_policy (default_cpu_policy (parse_core_system obj)))"
proof -
  let ?g = "\<lambda>key cap. snd (text_json_get_string obj 0 (length obj) key cap [])"
  let ?cpu = "?g ''default_cpu_policy'' 32"
  define s0 where "s0 = \<lparr>cs_id = ?g ''id'' 64, cs_display_name = ?g ''display_name'' 128,
      default_launch_profile = ?g ''default_launch_profile'' 128,
      default_cpu_policy = (if ?cpu \<noteq> [] \<and> \<not> valid_cpu_policy ?cpu then [] else ?cpu),
      default_cpu_freq_khz = 0, launch_profiles = []\<rparr>"
  define s1 where "s1 = parse_launch_profile_array obj s0"
  define s2 where "s2 = (if default_launch_profile s1 \<noteq> [] then snd (add_core_profile s1 (default_launch_profile s1)) else s1)"
  define s3 where "s3 = add_picoarch_companion_profiles s2"
  have p: "parse_core_system obj =
      (if cs_display_name s3 = [] then s3\<lparr>cs_display_name := stored 128 (cs_id s3)\<rparr> else s3)"
    by (simp add: parse_core_system_def Let_def s0_def s1_def s2_def s3_def)
  have "core_system_ok s0" by (simp add: s0_def core_system_ok_def)
  then have "core_system_ok s1" by (simp add: s1_def parse_launch_profile_array_ok)
  moreover have "length (default_launch_profile s1) < 128"
    using text_json_get_string_length(1) [of 128 obj 0 "length obj" "''default_launch_profile''"]
    by (simp add: s1_def s0_def)
  ultimately have "core_system_ok s2" by (simp add: s2_def add_core_profile_ok)
  then have "core_system_ok s3" by (simp add: s3_def add_picoarch_companion_profiles_def add_companions_ok)
  moreover have "cs_id s3 = ?g ''id'' 64" "default_cpu_policy s3 = default_cpu_policy s0"
    by (simp_all add: s3_def s2_def s1_def add_picoarch_companion_profiles_def) (simp_all add: s0_def)
  ultimately show ?thesis by (simp add: p s0_def)
qed

lemma strncmp_lit: "length p = n \<Longrightarrow> strncmp_eq s p n \<longleftrightarrow> (\<exists>c. s = p @ c)"
  by (metis append_eq_conv_conj append_take_drop_id strncmp_eq_def take_all_iff order_refl)

lemma strncmp_retroarch: "strncmp_eq s ''retroarch:'' 10 \<longleftrightarrow> (\<exists>c. s = ''retroarch:'' @ c)"
  by (rule strncmp_lit) simp

lemma strncmp_picoarch: "strncmp_eq s ''picoarch:'' 9 \<longleftrightarrow> (\<exists>c. s = ''picoarch:'' @ c)"
  by (rule strncmp_lit) simp

lemma add_companion_sound:
  assumes "p \<in> set (launch_profiles (add_companion profile system))"
  shows "p \<in> set (launch_profiles system) \<or>
     (\<exists>core. p = ''picoarch:'' @ core \<and> profile = ''retroarch:'' @ core \<and>
        picoarch_companion_core_allowed (cs_id system) core)"
proof (cases "strncmp_eq profile ''retroarch:'' 10")
  case True
  then obtain core where c: "profile = ''retroarch:'' @ core" by (auto simp: strncmp_retroarch)
  with assms True show ?thesis
    by (auto simp: add_companion_def add_core_profile_def fits_simps Let_def split: if_splits)
qed (use assms in \<open>simp add: add_companion_def\<close>)

lemma add_companions_sound:
  "p \<in> set (launch_profiles (add_companions ps system)) \<Longrightarrow> p \<in> set (launch_profiles system) \<or>
     (\<exists>core. p = ''picoarch:'' @ core \<and> ''retroarch:'' @ core \<in> set ps \<and>
        picoarch_companion_core_allowed (cs_id system) core)"
proof (induction ps arbitrary: system)
  case (Cons profile ps)
  show ?case
  proof (cases "MAX_CORE_PROFILES \<le> length (launch_profiles system)")
    case False
    with Cons.prems Cons.IH [of "add_companion profile system"]
    consider "p \<in> set (launch_profiles (add_companion profile system))"
      | core where "p = ''picoarch:'' @ core" "''retroarch:'' @ core \<in> set ps"
          "picoarch_companion_core_allowed (cs_id system) core"
      by auto
    then show ?thesis using add_companion_sound [of p profile system] by cases auto
  qed (use Cons.prems in simp)
qed simp

definition companion_fits :: "core_system_def \<Rightarrow> string \<Rightarrow> bool" where
  "companion_fits system core \<longleftrightarrow> core \<noteq> [] \<and> picoarch_companion_core_allowed (cs_id system) core \<and>
     length (''picoarch:'' @ core) < 128 \<and> valid_launch_profile_id (''picoarch:'' @ core) \<and>
     launch_profile_allowed_on_mmf (''picoarch:'' @ core)"

lemma add_companion_hit:
  assumes "companion_fits system core" and "length (launch_profiles system) < MAX_CORE_PROFILES"
  shows "''picoarch:'' @ core \<in> set (launch_profiles (add_companion (''retroarch:'' @ core) system))"
proof -
  have "add_companion (''retroarch:'' @ core) system = snd (add_core_profile system (''picoarch:'' @ core))"
    using assms by (simp add: add_companion_def companion_fits_def strncmp_eq_def Let_def)
  with assms show ?thesis
    by (auto simp: add_core_profile_def core_profile_index_def companion_fits_def fits_simps)
qed

lemma add_companions_complete:
  "''retroarch:'' @ core \<in> set ps \<Longrightarrow> companion_fits system core \<Longrightarrow>
   length (launch_profiles (add_companions ps system)) < MAX_CORE_PROFILES \<Longrightarrow>
     ''picoarch:'' @ core \<in> set (launch_profiles (add_companions ps system))"
proof (induction ps arbitrary: system)
  case (Cons profile ps)
  have room: "length (launch_profiles system) < MAX_CORE_PROFILES"
    using Cons.prems(3) by (auto split: if_splits)
  then have step: "add_companions (profile # ps) system = add_companions ps (add_companion profile system)"
    by simp
  show ?case
  proof (cases "profile = ''retroarch:'' @ core")
    case True
    then show ?thesis
      unfolding step using add_companion_hit [OF Cons.prems(2) room] add_companions_mono by auto
  next
    case False
    have "companion_fits (add_companion profile system) core"
      using Cons.prems(2) by (simp add: companion_fits_def)
    with False Cons show ?thesis unfolding step by auto
  qed
qed simp

section \<open>Properties\<close>

text \<open>
  Whatever \<open>systems.json\<close> holds, a system that is loaded has the identifier that was asked for,
  at most 32 profiles, no profile twice, every profile well formed, shorter than its slot and
  allowed on the device, and a default CPU policy that is empty or one of the five known ones.
\<close>

theorem load_core_system_def_ok:
  assumes "load_core_system_def content system_id = Some system"
  shows "cs_id system = system_id \<and> core_system_ok system \<and>
    (default_cpu_policy system = [] \<or> valid_cpu_policy (default_cpu_policy system))"
proof -
  let ?P = "\<lambda>r. \<forall>s. r = Some s \<longrightarrow> cs_id s = system_id \<and> core_system_ok s \<and>
    (default_cpu_policy s = [] \<or> valid_cpu_policy (default_cpu_policy s))"
  have "?P (load_core_system_def content system_id)"
  proof -
    have "?P (json_each_object json e st (\<lambda>r. r = None)
        (\<lambda>os oe r. let obj = range_dup json os oe in
          if snd (text_json_get_string obj 0 (length obj) ''id'' 64 []) \<noteq> system_id then None
          else Some (parse_core_system obj)) None)" for json e st
      by (rule json_each_object_inv) (auto simp: Let_def parse_core_system_facts)
    then show ?thesis by (simp add: load_core_system_def_def split: option.splits)
  qed
  with assms show ?thesis by blast
qed

definition demo_systems_json :: string where
  \<open>demo_systems_json = ''{"systems":[{"id":"a"}]}''\<close>

theorem load_core_system_def_ok_witness:
  "\<exists>system. load_core_system_def (Some demo_systems_json) ''a'' = Some system \<and>
     cs_id system = ''a'' \<and> core_system_ok system"
proof -
  have "map_option cs_id (load_core_system_def (Some demo_systems_json) ''a'') = Some ''a''"
    by code_simp
  then obtain system where "load_core_system_def (Some demo_systems_json) ''a'' = Some system" by auto
  with load_core_system_def_ok [OF this] show ?thesis by blast
qed

text \<open>
  PicoArch companions are added exactly where they may be. Every profile afterwards was there
  before or is the PicoArch form of a RetroArch profile in the list whose core the system may use;
  none is lost; and unless the list is full, every such RetroArch profile has its companion.
\<close>

theorem add_picoarch_companions_exact:
  assumes "core_system_ok system"
  defines "system' \<equiv> add_picoarch_companion_profiles system"
  shows "core_system_ok system' \<and> set (launch_profiles system) \<subseteq> set (launch_profiles system') \<and>
    (\<forall>p \<in> set (launch_profiles system') - set (launch_profiles system).
       \<exists>core. p = ''picoarch:'' @ core \<and> ''retroarch:'' @ core \<in> set (launch_profiles system) \<and>
         picoarch_companion_core_allowed (cs_id system) core) \<and>
    (length (launch_profiles system') < MAX_CORE_PROFILES \<longrightarrow>
       (\<forall>core. ''retroarch:'' @ core \<in> set (launch_profiles system) \<longrightarrow> core \<noteq> [] \<longrightarrow>
          picoarch_companion_core_allowed (cs_id system) core \<longrightarrow>
          ''picoarch:'' @ core \<in> set (launch_profiles system')))"
proof (intro conjI ballI impI allI)
  show "core_system_ok system'"
    unfolding system'_def add_picoarch_companion_profiles_def by (rule add_companions_ok [OF assms(1)])
  show "set (launch_profiles system) \<subseteq> set (launch_profiles system')"
    unfolding system'_def add_picoarch_companion_profiles_def by (rule add_companions_mono)
next
  fix p
  assume "p \<in> set (launch_profiles system') - set (launch_profiles system)"
  then show "\<exists>core. p = ''picoarch:'' @ core \<and> ''retroarch:'' @ core \<in> set (launch_profiles system) \<and>
      picoarch_companion_core_allowed (cs_id system) core"
    unfolding system'_def add_picoarch_companion_profiles_def using add_companions_sound by blast
next
  fix core
  assume a: "length (launch_profiles system') < MAX_CORE_PROFILES"
    "''retroarch:'' @ core \<in> set (launch_profiles system)" "core \<noteq> []"
    "picoarch_companion_core_allowed (cs_id system) core"
  have "length (''retroarch:'' @ core) < 128" "valid_launch_profile_id (''retroarch:'' @ core)"
    using assms(1) a(2) unfolding core_system_ok_def by blast+
  then have l: "length (''picoarch:'' @ core) < 128" "valid_launch_profile_id (''picoarch:'' @ core)"
    by (simp_all add: valid_launch_profile_id_def ctype_simps)
  have "picoarch_core_id_allowed core"
    using a(4) by (simp add: picoarch_companion_core_allowed_def split: if_splits)
  then have "launch_profile_allowed_on_mmf (''picoarch:'' @ core)"
    by (simp add: launch_profile_allowed_on_mmf_def strncmp_eq_def picoarch_core_id_allowed_def split: if_splits)
  with a(3,4) l have "companion_fits system core" by (simp add: companion_fits_def)
  with a(1,2) show "''picoarch:'' @ core \<in> set (launch_profiles system')"
    unfolding system'_def add_picoarch_companion_profiles_def using add_companions_complete by blast
qed

definition demo_system :: core_system_def where
  "demo_system = zero_system\<lparr>cs_id := ''nes'', launch_profiles := [''retroarch:fceumm'']\<rparr>"

lemma demo_system_ok: "core_system_ok demo_system"
  by (simp add: demo_system_def zero_system_def core_system_ok_def MAX_CORE_PROFILES_def
      valid_launch_profile_id_def launch_profile_allowed_on_mmf_def strncmp_eq_def ctype_simps)

theorem add_picoarch_companions_exact_witness:
  "core_system_ok (add_picoarch_companion_profiles demo_system) \<and>
   launch_profiles (add_picoarch_companion_profiles demo_system) = [''retroarch:fceumm'', ''picoarch:fceumm'']"
proof -
  have "launch_profiles (add_picoarch_companion_profiles demo_system) = [''retroarch:fceumm'', ''picoarch:fceumm'']"
    by (simp add: add_picoarch_companion_profiles_def add_companion_def Let_def demo_system_def zero_system_def MAX_CORE_PROFILES_def
        strncmp_eq_def picoarch_companion_core_allowed_def picoarch_core_id_allowed_def
        launch_profile_allowed_on_mmf_def add_core_profile_def valid_launch_profile_id_def
        core_profile_index_def copy_string_def ctype_simps)
  with add_picoarch_companions_exact [OF demo_system_ok] show ?thesis by simp
qed

end
