(* ===== verification/TextOverrides.thy ===== *)
theory TextOverrides
  imports TextRows TextCore
begin

text \<open>
  The overrides of launch profile, CPU policy and emulator options per system and per ROM
  (\<open>struct core_override_state\<close> of \<open>src/frontend/plumos_text_ui.c\<close>), and how a setting is resolved from
  them. Not every routine clears a new slot, so the state keeps what is left behind the counters.
\<close>

section \<open>State\<close>

record system_core_override =
  so_system_id :: string
  so_launch_profile :: string
  so_cpu_policy :: string
  so_cpu_freq_khz :: int

record rom_core_override =
  ro_system_id :: string
  ro_relative_path :: string
  ro_launch_profile :: string
  ro_cpu_policy :: string
  ro_cpu_freq_khz :: int
  ro_content_suffix :: string
  ro_audio_driver :: string
  ro_audio_latency_ms :: int
  ro_force60fps :: string
  ro_cycles :: string

record core_override_state =
  sys_slots :: "system_core_override slots"
  rom_slots :: "rom_core_override slots"

abbreviation system_overrides :: "core_override_state \<Rightarrow> system_core_override list" where
  "system_overrides st \<equiv> fst (sys_slots st)"

abbreviation rom_overrides :: "core_override_state \<Rightarrow> rom_core_override list" where
  "rom_overrides st \<equiv> fst (rom_slots st)"

definition zero_sys :: system_core_override where
  "zero_sys = \<lparr>so_system_id = [], so_launch_profile = [], so_cpu_policy = [], so_cpu_freq_khz = 0\<rparr>"

definition zero_rom :: rom_core_override where
  "zero_rom = \<lparr>ro_system_id = [], ro_relative_path = [], ro_launch_profile = [], ro_cpu_policy = [],
     ro_cpu_freq_khz = 0, ro_content_suffix = [], ro_audio_driver = [], ro_audio_latency_ms = 0,
     ro_force60fps = [], ro_cycles = []\<rparr>"

definition init_core_override_state :: core_override_state where
  "init_core_override_state = \<lparr>sys_slots = ([], []), rom_slots = ([], [])\<rparr>"

section \<open>Loading and saving\<close>

definition parse_system_override :: "string \<Rightarrow> system_core_override" where
  "parse_system_override obj =
     (let gets = (\<lambda>key cap. snd (text_json_get_string obj 0 (length obj) key cap []))
      in \<lparr>so_system_id = gets ''system_id'' 64, so_launch_profile = gets ''launch_profile'' 128,
          so_cpu_policy = gets ''cpu_policy'' 32, so_cpu_freq_khz = 0\<rparr>)"

definition accept_system_override :: "system_core_override \<Rightarrow> bool" where
  "accept_system_override e \<longleftrightarrow> valid_system_id (so_system_id e) \<and>
     (so_launch_profile e = [] \<or> valid_launch_profile_id (so_launch_profile e)) \<and>
     (so_cpu_policy e = [] \<or> valid_cpu_policy (so_cpu_policy e))"

definition parse_rom_override :: "string \<Rightarrow> rom_core_override" where
  "parse_rom_override obj =
     (let gets = (\<lambda>key cap. snd (text_json_get_string obj 0 (length obj) key cap []));
          keep = (\<lambda>ok s. if s \<noteq> [] \<and> \<not> ok s then [] else s);
          latency = json_get_long obj 0 (length obj) ''audio_latency_ms'' 0
      in \<lparr>ro_system_id = gets ''system_id'' 64,
          ro_relative_path = gets ''relative_path'' TEXT_PATH_MAX,
          ro_launch_profile = gets ''launch_profile'' 128,
          ro_cpu_policy = gets ''cpu_policy'' 32,
          ro_cpu_freq_khz = 0,
          ro_content_suffix = keep valid_content_suffix (gets ''content_suffix'' 256),
          ro_audio_driver = keep valid_retroarch_audio_driver (gets ''audio_driver'' 16),
          ro_audio_latency_ms = (if latency \<le> 0 \<or> 1000 < latency then 0 else latency),
          ro_force60fps = keep valid_dosbox_bool (gets ''dosbox_pure_force60fps'' 16),
          ro_cycles = keep valid_dosbox_cycles (gets ''dosbox_pure_cycles'' 32)\<rparr>)"

definition accept_rom_override :: "rom_core_override \<Rightarrow> bool" where
  "accept_rom_override e \<longleftrightarrow> valid_system_id (ro_system_id e) \<and> valid_relative_rom_path (ro_relative_path e) \<and>
     (ro_launch_profile e = [] \<or> valid_launch_profile_id (ro_launch_profile e)) \<and>
     (ro_cpu_policy e = [] \<or> valid_cpu_policy (ro_cpu_policy e))"

definition add_system_override :: "string \<Rightarrow> system_core_override list \<Rightarrow> system_core_override list" where
  "add_system_override obj es =
     (let e = parse_system_override obj in if accept_system_override e then es @ [e] else es)"

definition add_rom_override :: "string \<Rightarrow> rom_core_override list \<Rightarrow> rom_core_override list" where
  "add_rom_override obj es =
     (let e = parse_rom_override obj in if accept_rom_override e then es @ [e] else es)"

definition load_core_overrides :: "os \<Rightarrow> string \<Rightarrow> bool \<times> core_override_state" where
  "load_core_overrides w path =
     (if \<not> file_exists w path then (True, init_core_override_state)
      else case os_read w path of
        None \<Rightarrow> (False, init_core_override_state)
      | Some json \<Rightarrow>
          (True,
           \<lparr>sys_slots =
              ((case json_find_array json 0 (length json) ''system_overrides'' of
                  None \<Rightarrow> []
                | Some (s, e) \<Rightarrow> json_each_object json e s (\<lambda>es. length es < MAX_SYSTEM_CORE_OVERRIDES)
                    (\<lambda>os oe es. add_system_override (range_dup json os oe) es) []), []),
            rom_slots =
              ((case json_find_array json 0 (length json) ''rom_overrides'' of
                  None \<Rightarrow> []
                | Some (s, e) \<Rightarrow> json_each_object json e s (\<lambda>es. length es < MAX_ROM_CORE_OVERRIDES)
                    (\<lambda>os oe es. add_rom_override (range_dup json os oe) es) []), [])\<rparr>))"

definition system_override_text :: "system_core_override \<Rightarrow> string" where
  \<open>system_override_text e =
     ''{ "system_id": '' @ json_write_escaped (so_system_id e) @
     (if so_launch_profile e \<noteq> [] then '', "launch_profile": '' @ json_write_escaped (so_launch_profile e) else []) @
     (if so_cpu_policy e \<noteq> []
      then '', "cpu_policy": '' @ json_write_escaped (so_cpu_policy e) @
        (if 0 < so_cpu_freq_khz e then '', "cpu_freq_khz": '' @ show_int (so_cpu_freq_khz e) else [])
      else []) @ '' }''\<close>

definition rom_override_text :: "rom_core_override \<Rightarrow> string" where
  \<open>rom_override_text e =
     ''{ "system_id": '' @ json_write_escaped (ro_system_id e) @
     '', "relative_path": '' @ json_write_escaped (ro_relative_path e) @
     (if ro_launch_profile e \<noteq> [] then '', "launch_profile": '' @ json_write_escaped (ro_launch_profile e) else []) @
     (if ro_cpu_policy e \<noteq> []
      then '', "cpu_policy": '' @ json_write_escaped (ro_cpu_policy e) @
        (if 0 < ro_cpu_freq_khz e then '', "cpu_freq_khz": '' @ show_int (ro_cpu_freq_khz e) else [])
      else []) @
     (if ro_content_suffix e \<noteq> [] then '', "content_suffix": '' @ json_write_escaped (ro_content_suffix e) else []) @
     (if ro_audio_driver e \<noteq> [] then '', "audio_driver": '' @ json_write_escaped (ro_audio_driver e) else []) @
     (if 0 < ro_audio_latency_ms e then '', "audio_latency_ms": '' @ show_int (ro_audio_latency_ms e) else []) @
     (if ro_force60fps e \<noteq> [] then '', "dosbox_pure_force60fps": '' @ json_write_escaped (ro_force60fps e) else []) @
     (if ro_cycles e \<noteq> [] then '', "dosbox_pure_cycles": '' @ json_write_escaped (ro_cycles e) else []) @ '' }''\<close>

definition save_core_overrides_text :: "core_override_state \<Rightarrow> string" where
  \<open>save_core_overrides_text st =
     ''{'' @ [NL] @ ''  "version": 1,'' @ [NL] @ ''  "system_overrides": ['' @ [NL] @
     entries_text system_override_text (system_overrides st) @ ''  ],'' @ [NL] @
     ''  "rom_overrides": ['' @ [NL] @
     entries_text rom_override_text (rom_overrides st) @ ''  ]'' @ [NL] @ ''}'' @ [NL]\<close>

section \<open>Finding\<close>

definition find_system_core_override :: "core_override_state \<Rightarrow> string \<Rightarrow> nat option" where
  "find_system_core_override st system_id =
     find_first (\<lambda>e. so_system_id e = system_id) (system_overrides st)"

text \<open>
  A ROM is found under its own path; for DOS, a path with a content suffix falls back to the path of
  the package it selects from.
\<close>

definition find_rom_core_override :: "core_override_state \<Rightarrow> string \<Rightarrow> string \<Rightarrow> nat option" where
  "find_rom_core_override st system_id relative_path =
     (case find_first (\<lambda>e. ro_system_id e = system_id \<and> ro_relative_path e = relative_path) (rom_overrides st) of
        Some i \<Rightarrow> Some i
      | None \<Rightarrow>
          if system_id = ''dos'' then
            (case split_content_suffix TEXT_PATH_MAX relative_path of
               (True, base, Some _) \<Rightarrow>
                 if valid_relative_rom_path base
                 then find_first (\<lambda>e. ro_system_id e = system_id \<and> ro_relative_path e = base) (rom_overrides st)
                 else None
             | _ \<Rightarrow> None)
          else None)"

section \<open>System overrides\<close>

definition update_sys :: "nat \<Rightarrow> (system_core_override \<Rightarrow> system_core_override) \<Rightarrow> core_override_state \<Rightarrow> core_override_state" where
  "update_sys i f st = st\<lparr>sys_slots := slot_update i f (sys_slots st)\<rparr>"

definition system_core_override_is_empty :: "system_core_override \<Rightarrow> bool" where
  "system_core_override_is_empty e \<longleftrightarrow> so_launch_profile e = [] \<and> so_cpu_policy e = []"

definition set_system_core_override ::
    "core_override_state \<Rightarrow> string \<Rightarrow> string \<Rightarrow> bool \<times> core_override_state" where
  "set_system_core_override st system_id launch_profile =
     (case find_system_core_override st system_id of
        Some i \<Rightarrow> (fst (copy_string 128 launch_profile),
          update_sys i (\<lambda>e. e\<lparr>so_launch_profile := stored 128 launch_profile\<rparr>) st)
      | None \<Rightarrow>
          if MAX_SYSTEM_CORE_OVERRIDES \<le> length (system_overrides st) then (False, st)
          else (True, st\<lparr>sys_slots := slot_push
            ((slot_free zero_sys (sys_slots st))
               \<lparr>so_system_id := stored 64 system_id, so_launch_profile := stored 128 launch_profile\<rparr>)
            (sys_slots st)\<rparr>))"

definition clear_system_core_override :: "core_override_state \<Rightarrow> string \<Rightarrow> core_override_state" where
  "clear_system_core_override st system_id =
     (case find_system_core_override st system_id of
        None \<Rightarrow> st
      | Some i \<Rightarrow> st\<lparr>sys_slots := slot_remove i (sys_slots st)\<rparr>)"

text \<open>The clearing of one field, and of the entry when nothing is left in it.\<close>

definition clear_sys_field ::
    "(system_core_override \<Rightarrow> system_core_override) \<Rightarrow> core_override_state \<Rightarrow> string \<Rightarrow> core_override_state" where
  "clear_sys_field f st system_id =
     (case find_system_core_override st system_id of
        None \<Rightarrow> st
      | Some i \<Rightarrow>
          let st' = update_sys i f st in
          if system_core_override_is_empty (system_overrides st' ! i)
          then clear_system_core_override st' system_id else st')"

definition clear_system_launch_profile_override :: "core_override_state \<Rightarrow> string \<Rightarrow> core_override_state" where
  "clear_system_launch_profile_override = clear_sys_field (\<lambda>e. e\<lparr>so_launch_profile := []\<rparr>)"

definition set_system_cpu_override ::
    "core_override_state \<Rightarrow> string \<Rightarrow> string \<Rightarrow> bool \<times> core_override_state" where
  "set_system_cpu_override st system_id cpu_policy =
     (if \<not> valid_cpu_policy cpu_policy then (False, st)
      else case find_system_core_override st system_id of
        Some i \<Rightarrow> (True, update_sys i (\<lambda>e. e\<lparr>so_cpu_policy := stored 32 cpu_policy, so_cpu_freq_khz := 0\<rparr>) st)
      | None \<Rightarrow>
          if MAX_SYSTEM_CORE_OVERRIDES \<le> length (system_overrides st) then (False, st)
          else (True, st\<lparr>sys_slots := slot_push
            (zero_sys\<lparr>so_system_id := stored 64 system_id, so_cpu_policy := stored 32 cpu_policy\<rparr>)
            (sys_slots st)\<rparr>))"

definition clear_system_cpu_override :: "core_override_state \<Rightarrow> string \<Rightarrow> core_override_state" where
  "clear_system_cpu_override = clear_sys_field (\<lambda>e. e\<lparr>so_cpu_policy := [], so_cpu_freq_khz := 0\<rparr>)"

section \<open>ROM overrides\<close>

definition update_rom :: "nat \<Rightarrow> (rom_core_override \<Rightarrow> rom_core_override) \<Rightarrow> core_override_state \<Rightarrow> core_override_state" where
  "update_rom i f st = st\<lparr>rom_slots := slot_update i f (rom_slots st)\<rparr>"

definition rom_core_override_is_empty :: "rom_core_override \<Rightarrow> bool" where
  "rom_core_override_is_empty e \<longleftrightarrow> ro_launch_profile e = [] \<and> ro_cpu_policy e = [] \<and>
     ro_content_suffix e = [] \<and> ro_audio_driver e = [] \<and> ro_audio_latency_ms e \<le> 0 \<and>
     ro_force60fps e = [] \<and> ro_cycles e = []"

definition new_rom :: "string \<Rightarrow> string \<Rightarrow> rom_core_override" where
  "new_rom system_id relative_path =
     zero_rom\<lparr>ro_system_id := stored 64 system_id, ro_relative_path := stored TEXT_PATH_MAX relative_path\<rparr>"

text \<open>The index of the entry that is found or made, and the state with it.\<close>

definition ensure_rom_core_override ::
    "core_override_state \<Rightarrow> string \<Rightarrow> string \<Rightarrow> (nat \<times> core_override_state) option" where
  "ensure_rom_core_override st system_id relative_path =
     (case find_rom_core_override st system_id relative_path of
        Some i \<Rightarrow> Some (i, st)
      | None \<Rightarrow>
          if MAX_ROM_CORE_OVERRIDES \<le> length (rom_overrides st) then None
          else Some (length (rom_overrides st),
            st\<lparr>rom_slots := slot_push (new_rom system_id relative_path) (rom_slots st)\<rparr>))"

definition set_rom_core_override ::
    "core_override_state \<Rightarrow> string \<Rightarrow> string \<Rightarrow> string \<Rightarrow> bool \<times> core_override_state" where
  "set_rom_core_override st system_id relative_path launch_profile =
     (case find_rom_core_override st system_id relative_path of
        Some i \<Rightarrow> (fst (copy_string 128 launch_profile),
          update_rom i (\<lambda>e. e\<lparr>ro_launch_profile := stored 128 launch_profile\<rparr>) st)
      | None \<Rightarrow>
          if MAX_ROM_CORE_OVERRIDES \<le> length (rom_overrides st) then (False, st)
          else (True, st\<lparr>rom_slots := slot_push
            ((slot_free zero_rom (rom_slots st))
               \<lparr>ro_system_id := stored 64 system_id, ro_relative_path := stored TEXT_PATH_MAX relative_path,
                ro_launch_profile := stored 128 launch_profile\<rparr>)
            (rom_slots st)\<rparr>))"

definition clear_rom_core_override :: "core_override_state \<Rightarrow> string \<Rightarrow> string \<Rightarrow> core_override_state" where
  "clear_rom_core_override st system_id relative_path =
     (case find_rom_core_override st system_id relative_path of
        None \<Rightarrow> st
      | Some i \<Rightarrow> st\<lparr>rom_slots := slot_remove i (rom_slots st)\<rparr>)"

definition clear_rom_field ::
    "(rom_core_override \<Rightarrow> rom_core_override) \<Rightarrow> core_override_state \<Rightarrow> string \<Rightarrow> string \<Rightarrow> core_override_state" where
  "clear_rom_field f st system_id relative_path =
     (case find_rom_core_override st system_id relative_path of
        None \<Rightarrow> st
      | Some i \<Rightarrow>
          let st' = update_rom i f st in
          if rom_core_override_is_empty (rom_overrides st' ! i)
          then clear_rom_core_override st' system_id relative_path else st')"

definition clear_rom_launch_profile_override :: "core_override_state \<Rightarrow> string \<Rightarrow> string \<Rightarrow> core_override_state" where
  "clear_rom_launch_profile_override = clear_rom_field (\<lambda>e. e\<lparr>ro_launch_profile := []\<rparr>)"

definition set_rom_cpu_override ::
    "core_override_state \<Rightarrow> string \<Rightarrow> string \<Rightarrow> string \<Rightarrow> bool \<times> core_override_state" where
  "set_rom_cpu_override st system_id relative_path cpu_policy =
     (if \<not> valid_cpu_policy cpu_policy then (False, st)
      else case find_rom_core_override st system_id relative_path of
        Some i \<Rightarrow> (True, update_rom i (\<lambda>e. e\<lparr>ro_cpu_policy := stored 32 cpu_policy, ro_cpu_freq_khz := 0\<rparr>) st)
      | None \<Rightarrow>
          if MAX_ROM_CORE_OVERRIDES \<le> length (rom_overrides st) then (False, st)
          else (True, st\<lparr>rom_slots := slot_push
            ((new_rom system_id relative_path)\<lparr>ro_cpu_policy := stored 32 cpu_policy\<rparr>) (rom_slots st)\<rparr>))"

definition clear_rom_cpu_override :: "core_override_state \<Rightarrow> string \<Rightarrow> string \<Rightarrow> core_override_state" where
  "clear_rom_cpu_override = clear_rom_field (\<lambda>e. e\<lparr>ro_cpu_policy := [], ro_cpu_freq_khz := 0\<rparr>)"

text \<open>A setter that goes through \<open>ensure_rom_core_override\<close>.\<close>

definition set_rom_field ::
    "bool \<Rightarrow> bool \<Rightarrow> (rom_core_override \<Rightarrow> rom_core_override) \<Rightarrow> core_override_state \<Rightarrow> string \<Rightarrow> string \<Rightarrow>
     bool \<times> core_override_state" where
  "set_rom_field valid ok f st system_id relative_path =
     (if \<not> valid then (False, st)
      else case ensure_rom_core_override st system_id relative_path of
        None \<Rightarrow> (False, st)
      | Some (i, st') \<Rightarrow> (ok, update_rom i f st'))"

definition set_rom_content_suffix_override ::
    "core_override_state \<Rightarrow> string \<Rightarrow> string \<Rightarrow> string \<Rightarrow> bool \<times> core_override_state" where
  "set_rom_content_suffix_override st system_id relative_path content_suffix =
     set_rom_field (valid_content_suffix content_suffix) (fst (copy_string 256 content_suffix))
       (\<lambda>e. e\<lparr>ro_content_suffix := stored 256 content_suffix\<rparr>) st system_id relative_path"

definition clear_rom_content_suffix_override :: "core_override_state \<Rightarrow> string \<Rightarrow> string \<Rightarrow> core_override_state" where
  "clear_rom_content_suffix_override = clear_rom_field (\<lambda>e. e\<lparr>ro_content_suffix := []\<rparr>)"

definition set_rom_audio_driver_override ::
    "core_override_state \<Rightarrow> string \<Rightarrow> string \<Rightarrow> string \<Rightarrow> bool \<times> core_override_state" where
  "set_rom_audio_driver_override st system_id relative_path audio_driver =
     set_rom_field (valid_retroarch_audio_driver audio_driver) (fst (copy_string 16 audio_driver))
       (\<lambda>e. e\<lparr>ro_audio_driver := stored 16 audio_driver\<rparr>) st system_id relative_path"

definition set_rom_audio_latency_override ::
    "core_override_state \<Rightarrow> string \<Rightarrow> string \<Rightarrow> int \<Rightarrow> bool \<times> core_override_state" where
  "set_rom_audio_latency_override st system_id relative_path audio_latency_ms =
     set_rom_field (\<not> (audio_latency_ms \<le> 0 \<or> 1000 < audio_latency_ms)) True
       (\<lambda>e. e\<lparr>ro_audio_latency_ms := audio_latency_ms\<rparr>) st system_id relative_path"

definition clear_rom_audio_override :: "core_override_state \<Rightarrow> string \<Rightarrow> string \<Rightarrow> core_override_state" where
  "clear_rom_audio_override = clear_rom_field (\<lambda>e. e\<lparr>ro_audio_driver := [], ro_audio_latency_ms := 0\<rparr>)"

definition set_rom_dosbox_force60fps_override ::
    "core_override_state \<Rightarrow> string \<Rightarrow> string \<Rightarrow> string \<Rightarrow> bool \<times> core_override_state" where
  "set_rom_dosbox_force60fps_override st system_id relative_path force60fps =
     set_rom_field (valid_dosbox_bool force60fps) (fst (copy_string 16 force60fps))
       (\<lambda>e. e\<lparr>ro_force60fps := stored 16 force60fps\<rparr>) st system_id relative_path"

definition set_rom_dosbox_cycles_override ::
    "core_override_state \<Rightarrow> string \<Rightarrow> string \<Rightarrow> string \<Rightarrow> bool \<times> core_override_state" where
  "set_rom_dosbox_cycles_override st system_id relative_path cycles =
     set_rom_field (valid_dosbox_cycles cycles) (fst (copy_string 32 cycles))
       (\<lambda>e. e\<lparr>ro_cycles := stored 32 cycles\<rparr>) st system_id relative_path"

definition clear_rom_dosbox_override :: "core_override_state \<Rightarrow> string \<Rightarrow> string \<Rightarrow> core_override_state" where
  "clear_rom_dosbox_override = clear_rom_field (\<lambda>e. e\<lparr>ro_force60fps := [], ro_cycles := []\<rparr>)"

section \<open>ROMs by path\<close>

definition find_rom_by_relative_path :: "rom_entry list \<Rightarrow> string \<Rightarrow> nat option" where
  "find_rom_by_relative_path roms relative_path = find_first (\<lambda>r. rom_relative_path r = relative_path) roms"

text \<open>The index that is found, the path it was found under and the suffix that was split off.\<close>

definition find_rom_by_relative_path_or_dos_suffix ::
    "rom_entry list \<Rightarrow> string \<Rightarrow> string \<Rightarrow> nat \<Rightarrow> (nat \<times> string \<times> string option) option" where
  "find_rom_by_relative_path_or_dos_suffix roms system_id relative_path base_size =
     (case find_rom_by_relative_path roms relative_path of
        Some i \<Rightarrow> Some (i, stored base_size relative_path, None)
      | None \<Rightarrow>
          if system_id \<noteq> ''dos'' then None
          else (case split_content_suffix base_size relative_path of
             (True, base, Some sfx) \<Rightarrow>
               if valid_relative_rom_path base
               then map_option (\<lambda>i. (i, base, Some sfx)) (find_rom_by_relative_path roms base)
               else None
           | _ \<Rightarrow> None))"

section \<open>Resolution\<close>

definition resolve_launch_profile ::
    "core_system_def \<Rightarrow> core_override_state \<Rightarrow> string option \<Rightarrow> nat \<Rightarrow> bool \<times> string" where
  "resolve_launch_profile system st relative_path n =
     (let rom = (case relative_path of
            None \<Rightarrow> None
          | Some rel \<Rightarrow> map_option (\<lambda>i. ro_launch_profile (rom_overrides st ! i))
              (find_rom_core_override st (cs_id system) rel));
          sys = map_option (\<lambda>i. so_launch_profile (system_overrides st ! i))
              (find_system_core_override st (cs_id system))
      in if rom \<noteq> None \<and> core_profile_is_listed system (the rom) then copy_string n (the rom)
         else if sys \<noteq> None \<and> core_profile_is_listed system (the sys) then copy_string n (the sys)
         else if core_profile_is_listed system (default_launch_profile system)
           then copy_string n (default_launch_profile system)
         else copy_string n ''auto'')"

definition copy_cpu_setting :: "nat \<Rightarrow> string \<Rightarrow> string option" where
  "copy_cpu_setting n policy =
     (if \<not> valid_cpu_policy policy then None else ok_opt (copy_string n policy))"

definition resolve_cpu_setting ::
    "core_system_def \<Rightarrow> core_override_state \<Rightarrow> string option \<Rightarrow> nat \<Rightarrow> string \<times> string" where
  "resolve_cpu_setting system st relative_path n =
     (let rom = (case relative_path of
            None \<Rightarrow> None
          | Some rel \<Rightarrow> map_option (\<lambda>i. ro_cpu_policy (rom_overrides st ! i))
              (find_rom_core_override st (cs_id system) rel));
          sys = map_option (\<lambda>i. so_cpu_policy (system_overrides st ! i))
              (find_system_core_override st (cs_id system));
          usable = (\<lambda>p. case p of None \<Rightarrow> None
            | Some s \<Rightarrow> if s = [] then None else copy_cpu_setting n s)
      in case usable rom of
           Some p \<Rightarrow> (p, ''ROM override'')
         | None \<Rightarrow>
             (case usable sys of
                Some p \<Rightarrow> (p, ''system override'')
              | None \<Rightarrow>
                  (case usable (Some (default_cpu_policy system)) of
                     Some p \<Rightarrow> (p, ''plumOS default'')
                   | None \<Rightarrow> ([], ''launcher default''))))"

definition format_cpu_setting :: "nat \<Rightarrow> string \<Rightarrow> string" where
  "format_cpu_setting n policy =
     (if policy = [] then stored n ''launcher default''
      else if policy = ''interactive'' then stored n ''Interactive''
      else if policy = ''performance'' then stored n ''Performance''
      else if policy = ''ondemand'' then stored n ''Ondemand''
      else if policy = ''schedutil'' then stored n ''Schedutil''
      else if policy = ''conservative'' then stored n ''Conservative''
      else stored n policy)"

record retroarch_runtime_options =
  opt_audio_driver :: string
  opt_audio_latency_ms :: int
  opt_force60fps :: string
  opt_cycles :: string

definition resolve_retroarch_runtime_options ::
    "core_system_def \<Rightarrow> core_override_state \<Rightarrow> string option \<Rightarrow> retroarch_runtime_options" where
  "resolve_retroarch_runtime_options system st relative_path =
     (let none = \<lparr>opt_audio_driver = [], opt_audio_latency_ms = 0, opt_force60fps = [], opt_cycles = []\<rparr>
      in case relative_path of
        None \<Rightarrow> none
      | Some rel \<Rightarrow>
          (case find_rom_core_override st (cs_id system) rel of
             None \<Rightarrow> none
           | Some i \<Rightarrow>
               let e = rom_overrides st ! i in
               \<lparr>opt_audio_driver = stored 16 (ro_audio_driver e), opt_audio_latency_ms = ro_audio_latency_ms e,
                opt_force60fps = stored 16 (ro_force60fps e), opt_cycles = stored 32 (ro_cycles e)\<rparr>))"

definition apply_content_suffix_override ::
    "core_system_def \<Rightarrow> core_override_state \<Rightarrow> string option \<Rightarrow> rom_entry \<Rightarrow> bool \<times> rom_entry" where
  "apply_content_suffix_override system st relative_path rom =
     (if relative_path = None \<or> strchr (rom_path rom) CHR ''#'' \<noteq> None then (True, rom)
      else case find_rom_core_override st (cs_id system) (the relative_path) of
        None \<Rightarrow> (True, rom)
      | Some i \<Rightarrow>
          let sfx = ro_content_suffix (rom_overrides st ! i) in
          if sfx = [] then (True, rom)
          else let (ok, path) = append_string TEXT_PATH_MAX (rom_path rom) sfx
               in (ok, rom\<lparr>rom_path := path\<rparr>))"

end
