(* ===== verification/TextStore.thy ===== *)
theory TextStore
  imports TextFavsProofs TextOverrides
begin

text \<open>
  How the text UI writes its files (\<open>src/frontend/plumos_text_ui.c\<close>): the parent directories are made, the
  text goes to a temporary file beside the target, is flushed and synced, and is renamed over the target.
  A disk maps a path to the content of its file and to whether that content has reached the medium. The answers
  of the system calls are an environment; every state the disk goes through is kept, because power may
  be lost at any of them.
\<close>

section \<open>Directories\<close>

fun strip_slashes :: "string \<Rightarrow> string" where
  "strip_slashes rev_path =
     (case rev_path of
        c # d # r \<Rightarrow> if c = CHR ''/'' then strip_slashes (d # r) else rev_path
      | _ \<Rightarrow> rev_path)"

declare strip_slashes.simps [simp del]

text \<open>The prefixes of a path that end before a slash, shortest first, leaving out the empty one.\<close>

definition slash_prefixes :: "string \<Rightarrow> string list" where
  "slash_prefixes p = map (\<lambda>i. take i p) (filter (\<lambda>i. p ! i = CHR ''/'') [1..<length p])"

fun make_dirs :: "(string \<Rightarrow> bool) \<Rightarrow> string list \<Rightarrow> bool \<times> string list" where
  "make_dirs mk [] = (True, [])"
| "make_dirs mk (d # ds) =
     (if mk d then (case make_dirs mk ds of (ok, made) \<Rightarrow> (ok, d # made)) else (False, []))"

text \<open>\<open>mk d\<close> holds when \<open>mkdir\<close> makes \<open>d\<close> or finds it there. The result lists the directories passed.\<close>

definition mkdir_p :: "(string \<Rightarrow> bool) \<Rightarrow> string \<Rightarrow> bool \<times> string list" where
  "mkdir_p mk path =
     (if path = [] then (False, [])
      else case copy_string PATH_MAX path of
        (False, _) \<Rightarrow> (False, [])
      | (True, tmp) \<Rightarrow>
          let tmp = rev (strip_slashes (rev tmp)) in make_dirs mk (slash_prefixes tmp @ [tmp]))"

definition ensure_parent_dir :: "(string \<Rightarrow> bool) \<Rightarrow> string \<Rightarrow> bool \<times> string list" where
  "ensure_parent_dir mk path =
     (case copy_string PATH_MAX path of
        (False, _) \<Rightarrow> (False, [])
      | (True, dir) \<Rightarrow>
          (case strrchr dir CHR ''/'' of
             None \<Rightarrow> (True, [])
           | Some 0 \<Rightarrow> (True, [])
           | Some i \<Rightarrow> mkdir_p mk (take i dir)))"

section \<open>The temporary file and the rename\<close>

type_synonym disk = "string \<Rightarrow> (string \<times> bool) option"

datatype sync_answer = Synced | SyncInvalid | SyncFailed

text \<open>
  The answers of the system: \<open>st_partial\<close> are the lengths of the text that have reached the temporary file
  at successive moments while it is written, \<open>st_flush\<close> that the last flush of the stream succeeded. A stream that is larger than its
  buffer is written in pieces before that; \<open>st_lost\<close> is absent when all these writes succeeded, and otherwise it is what the file holds
  in place of the text, since a failed write drops its piece and the flush of the rest can succeed.
\<close>

record store_env =
  st_mkdir :: "string \<Rightarrow> bool"
  st_open :: bool
  st_partial :: "nat list"
  st_lost :: "string option"
  st_flush :: bool
  st_fsync :: bool
  st_close :: bool
  st_rename :: bool
  st_dir_open :: "string \<Rightarrow> bool"
  st_dir_sync :: sync_answer
  st_dir_close :: bool

definition parent_to_sync :: "string \<Rightarrow> string" where
  "parent_to_sync path =
     (case strrchr path CHR ''/'' of None \<Rightarrow> ''.'' | Some 0 \<Rightarrow> ''/'' | Some i \<Rightarrow> take i path)"

definition sync_parent_dir :: "store_env \<Rightarrow> string \<Rightarrow> bool" where
  "sync_parent_dir e path =
     (case copy_string PATH_MAX path of
        (False, _) \<Rightarrow> False
      | (True, dir) \<Rightarrow>
          if \<not> st_dir_open e (parent_to_sync dir) then False
          else if \<not> st_dir_close e then False
          else st_dir_sync e \<noteq> SyncFailed)"

text \<open>
  \<open>commit_temp_file\<close> on a temporary file that holds the first \<open>k\<close> characters of the text: the result and the
  states of the disk after each call that changes it.
\<close>

definition commit_temp_file :: "store_env \<Rightarrow> string \<Rightarrow> string \<Rightarrow> nat \<Rightarrow> string \<Rightarrow> disk \<Rightarrow> bool \<times> disk list" where
  "commit_temp_file e content tmp k path d =
     (let d1 = (if st_flush e then d(tmp \<mapsto> (content, False)) else d(tmp \<mapsto> (take k content, False)));
          ok = (st_flush e \<and> st_fsync e);
          d2 = (if ok then d1(tmp \<mapsto> (content, True)) else d1)
      in if \<not> (ok \<and> st_close e) then (False, [d1, d2, d2(tmp := None)])
         else if \<not> st_rename e then (False, [d1, d2, d2(tmp := None)])
         else (sync_parent_dir e path, [d1, d2, (d2(path := d2 tmp))(tmp := None)]))"

text \<open>
  From the opening of the temporary file to the commit: \<open>text\<close> is what is printed. The results of \<open>fprintf\<close> and the error indicator of
  the stream are not looked at, so what counts is what the file holds.
\<close>

definition arrived :: "store_env \<Rightarrow> string \<Rightarrow> string" where
  "arrived e content = (case st_lost e of None \<Rightarrow> content | Some t \<Rightarrow> t)"

definition write_and_commit :: "store_env \<Rightarrow> string \<Rightarrow> string \<Rightarrow> disk \<Rightarrow> bool \<times> disk list" where
  "write_and_commit e path text d =
     (if \<not> st_open e then (False, [])
      else
        let tmp = path @ ''.tmp'';
            content = arrived e text;
            partials = map (\<lambda>k. d(tmp \<mapsto> (take k content, False))) (0 # st_partial e);
            k = last (0 # st_partial e)
        in case commit_temp_file e content tmp k path (last partials) of
             (ok, states) \<Rightarrow> (ok, partials @ states))"

text \<open>The shape the \<open>save_\<close> functions share.\<close>

definition save_file :: "store_env \<Rightarrow> string \<Rightarrow> string \<Rightarrow> disk \<Rightarrow> bool \<times> disk list" where
  "save_file e path content d =
     (if \<not> fst (ensure_parent_dir (st_mkdir e) path) then (False, [])
      else if PATH_MAX \<le> length (path @ ''.tmp'') then (False, [])
      else write_and_commit e path content d)"

definition save_favorites :: "store_env \<Rightarrow> string \<Rightarrow> favorite_entry list \<Rightarrow> disk \<Rightarrow> bool \<times> disk list" where
  "save_favorites e path state d = save_file e path (save_favorites_text state) d"

definition save_recent :: "store_env \<Rightarrow> string \<Rightarrow> recent_entry list \<Rightarrow> disk \<Rightarrow> bool \<times> disk list" where
  "save_recent e path state d = save_file e path (save_recent_text state) d"

definition save_core_overrides :: "store_env \<Rightarrow> string \<Rightarrow> core_override_state \<Rightarrow> disk \<Rightarrow> bool \<times> disk list" where
  "save_core_overrides e path state d = save_file e path (save_core_overrides_text state) d"

definition save_resume_session :: "store_env \<Rightarrow> string \<Rightarrow> resume_session \<Rightarrow> disk \<Rightarrow> bool \<times> disk list" where
  "save_resume_session e path session d = save_file e path (save_resume_session_text session) d"

text \<open>The disk when the call returns.\<close>

definition disk_after :: "bool \<times> disk list \<Rightarrow> disk \<Rightarrow> disk" where
  "disk_after r d = last (d # snd r)"

text \<open>
  What a reader finds after power is lost: a file that had not reached the medium may hold anything.
\<close>

definition after_crash :: "(string \<Rightarrow> string) \<Rightarrow> disk \<Rightarrow> string \<Rightarrow> string option" where
  "after_crash garbage d p =
     (case d p of None \<Rightarrow> None | Some (c, True) \<Rightarrow> Some c | Some (c, False) \<Rightarrow> Some (garbage p))"

section \<open>Atomicity\<close>

lemma tmp_differs [simp]: "path @ ''.tmp'' \<noteq> path" "path \<noteq> path @ ''.tmp''"
  by simp_all

lemma last_map_fold: "xs \<noteq> [] \<Longrightarrow> last (map f xs) = f (last xs)"
  by (rule last_map)

lemma write_and_commit_states:
  "list_all (\<lambda>d'. (d' path = d path \<or> d' path = Some (arrived e content, True)) \<and>
      (\<forall>q. q = path \<or> q = path @ ''.tmp'' \<or> d' q = d q)) (d # snd (write_and_commit e path content d))"
  by (auto simp: write_and_commit_def commit_temp_file_def Let_def last_map list_all_iff split: if_splits)

lemma save_file_states:
  "list_all (\<lambda>d'. (d' path = d path \<or> d' path = Some (arrived e content, True)) \<and>
      (\<forall>q. q = path \<or> q = path @ ''.tmp'' \<or> d' q = d q)) (d # snd (save_file e path content d))"
  using write_and_commit_states [where path = path and d = d and content = content and e = e] by (simp add: save_file_def)

text \<open>Such states keep the target whole over a crash.\<close>

lemma crash_states:
  assumes "list_all (\<lambda>d'. (d' path = d path \<or> d' path = Some (content, True)) \<and>
      (\<forall>q. q = path \<or> q = path @ ''.tmp'' \<or> d' q = d q)) ds"
  shows "list_all (\<lambda>d'. after_crash garbage d' path \<in> {after_crash garbage d path, Some content} \<and>
      {q. after_crash garbage d' q \<noteq> after_crash garbage d q} \<subseteq> {path, path @ ''.tmp''}) ds"
proof (rule list.pred_mono_strong [OF assms])
  fix d'
  assume "(d' path = d path \<or> d' path = Some (content, True)) \<and>
      (\<forall>q. q = path \<or> q = path @ ''.tmp'' \<or> d' q = d q)"
  then have p: "d' path = d path \<or> d' path = Some (content, True)"
    and o: "\<And>q. q \<notin> {path, path @ ''.tmp''} \<Longrightarrow> d' q = d q" by auto
  from o have "\<And>q. q \<notin> {path, path @ ''.tmp''} \<Longrightarrow> after_crash garbage d' q = after_crash garbage d q"
    by (simp add: after_crash_def)
  moreover from p have "after_crash garbage d' path \<in> {after_crash garbage d path, Some content}"
    by (auto simp: after_crash_def)
  ultimately show "after_crash garbage d' path \<in> {after_crash garbage d path, Some content} \<and>
      {q. after_crash garbage d' q \<noteq> after_crash garbage d q} \<subseteq> {path, path @ ''.tmp''}" by blast
qed
text \<open>
  Saving is atomic under power loss. Whatever the system calls answer and at whichever state the power is
  lost, a reader of the target finds what it held before or what was printed, which is the complete new text when no write
  failed before the last flush; every other file but the temporary one is left as it was.
\<close>

theorem save_file_atomic:
  "list_all (\<lambda>d'. after_crash garbage d' path \<in> {after_crash garbage d path, Some (arrived e content)} \<and>
      {q. after_crash garbage d' q \<noteq> after_crash garbage d q} \<subseteq> {path, path @ ''.tmp''})
    (d # snd (save_file e path content d))"
  by (rule crash_states [OF save_file_states])

lemma commit_temp_file_result:
  "path \<noteq> tmp \<Longrightarrow> commit_temp_file e content tmp k path (d(tmp \<mapsto> x)) = (ok, states) \<Longrightarrow>
     (ok \<longleftrightarrow> st_flush e \<and> st_fsync e \<and> st_close e \<and> st_rename e \<and> sync_parent_dir e path) \<and>
     states \<noteq> [] \<and> last states =
       (if st_flush e \<and> st_fsync e \<and> st_close e \<and> st_rename e then d(path \<mapsto> (content, True)) else d)(tmp := None)"
  by (cases "st_flush e \<and> st_fsync e") (auto simp: commit_temp_file_def Let_def fun_eq_iff split: if_splits)

lemma save_file_done:
  assumes "fst (save_file e path content d)"
  shows "disk_after (save_file e path content d) d path = Some (arrived e content, True)"
  using assms
  by (auto simp: save_file_def write_and_commit_def commit_temp_file_def Let_def last_map disk_after_def split: if_splits)

text \<open>
  What the result of a save says. If it reports success, the target holds the new text, synced, the
  temporary file is gone and every parent directory was made. If it reports failure before the rename, the target is
  as it was; the temporary file is never left behind once the commit was reached.
\<close>

theorem save_file_result:
  "case save_file e path content d of (ok, states) \<Rightarrow>
     (ok \<longleftrightarrow> fst (ensure_parent_dir (st_mkdir e) path) \<and> length path + 4 < PATH_MAX \<and> st_open e \<and> st_flush e \<and>
        st_fsync e \<and> st_close e \<and> st_rename e \<and> sync_parent_dir e path) \<and>
     (states = [] \<and> \<not> ok \<or>
      disk_after (ok, states) d =
        (if st_flush e \<and> st_fsync e \<and> st_close e \<and> st_rename e then d(path \<mapsto> (arrived e content, True)) else d)
          (path @ ''.tmp'' := None))"
proof (cases "fst (ensure_parent_dir (st_mkdir e) path) \<and> length path + 4 < PATH_MAX \<and> st_open e")
  case True
  let ?k = "last (0 # st_partial e)"
  let ?x = "(take ?k (arrived e content), False)"
  obtain ok states where c:
    "commit_temp_file e (arrived e content) (path @ ''.tmp'') ?k path (d(path @ ''.tmp'' \<mapsto> ?x)) = (ok, states)"
    by fastforce
  have "save_file e path content d =
      (ok, map (\<lambda>k. d(path @ ''.tmp'' \<mapsto> (take k (arrived e content), False))) (0 # st_partial e) @ states)"
    using True c by (simp add: save_file_def write_and_commit_def Let_def last_map del: last.simps list.map)
  with commit_temp_file_result [OF _ c] True show ?thesis by (simp add: disk_after_def)
next
  case False
  then show ?thesis by (auto simp: save_file_def write_and_commit_def)
qed

text \<open>
  A save can replace the file and still report failure: when the directory cannot be synced after the
  rename, the target already holds the new text.
\<close>

lemma save_can_fail_after_replacing:
  "\<exists>e. \<not> fst (save_file e ''/d/f'' content d) \<and>
     disk_after (save_file e ''/d/f'' content d) d ''/d/f'' = Some (content, True)"
proof -
  let ?e = "\<lparr>st_mkdir = \<lambda>_. True, st_open = True, st_partial = [], st_lost = None, st_flush = True, st_fsync = True,
    st_close = True, st_rename = True, st_dir_open = \<lambda>_. True, st_dir_sync = SyncFailed, st_dir_close = True\<rparr>"
  have "fst (ensure_parent_dir (st_mkdir ?e) ''/d/f'')"
    by (simp add: ensure_parent_dir_def mkdir_p_def slash_prefixes_def strip_slashes.simps Let_def copy_string_def PATH_MAX_def)
  then have "\<not> fst (save_file ?e ''/d/f'' content d) \<and>
      disk_after (save_file ?e ''/d/f'' content d) d ''/d/f'' = Some (content, True)"
    by (simp add: save_file_def write_and_commit_def commit_temp_file_def sync_parent_dir_def copy_string_def parent_to_sync_def
        disk_after_def PATH_MAX_def Let_def arrived_def)
  then show ?thesis by blast
qed

section \<open>Directories are made parents first\<close>

lemma make_dirs_spec:
  "make_dirs mk ds = (ok, made) \<Longrightarrow>
     (ok \<longleftrightarrow> list_all mk ds) \<and> made = takeWhile mk ds"
  by (induction ds arbitrary: ok made) (auto split: if_splits prod.splits)

lemma strict_prefix_take:
  assumes "i < j" and "j \<le> length p"
  shows "strict_prefix (take i p) (take j p)"
proof -
  have "prefix (take i p) (take j p)"
    using take_is_prefix [of i "take j p"] assms by (simp add: min_def)
  moreover have "length (take i p) \<noteq> length (take j p)" using assms by simp
  ultimately show ?thesis unfolding strict_prefix_def by metis
qed

lemma sorted_takes:
  "sorted_wrt (<) js \<Longrightarrow> list_all (\<lambda>i. i \<le> length p) js \<Longrightarrow> sorted_wrt strict_prefix (map (\<lambda>i. take i p) js)"
  by (induction js) (auto simp: list_all_iff intro!: strict_prefix_take)

lemma slash_prefixes_strict: "sorted_wrt strict_prefix (slash_prefixes p @ [p])"
proof -
  let ?js = "filter (\<lambda>i. p ! i = CHR ''/'') [1..<length p] @ [length p]"
  have "sorted_wrt (<) ?js" by (simp add: sorted_wrt_append sorted_wrt_filter)
  moreover have "list_all (\<lambda>i. i \<le> length p) ?js" by (auto simp: list_all_iff)
  ultimately have "sorted_wrt strict_prefix (map (\<lambda>i. take i p) ?js)" by (rule sorted_takes)
  then show ?thesis by (simp add: slash_prefixes_def)
qed

text \<open>
  \<open>mkdir_p\<close> makes the ancestors of a directory before the directory: what it makes is a chain of
  strict prefixes, stopping at the first that cannot be made, and it reports success exactly when the whole chain,
  which ends with the path without its trailing slashes, was made.
\<close>

theorem mkdir_p_parents_first:
  "case mkdir_p mk path of (ok, made) \<Rightarrow>
     sorted_wrt strict_prefix made \<and> list_all mk made \<and>
     (ok \<longleftrightarrow> path \<noteq> [] \<and> length path < PATH_MAX \<and> made \<noteq> [] \<and> last made = rev (strip_slashes (rev path)))"
proof -
  let ?p = "rev (strip_slashes (rev path))"
  let ?ds = "slash_prefixes ?p @ [?p]"
  obtain ok made where m: "make_dirs mk ?ds = (ok, made)" by (cases "make_dirs mk ?ds")
  have t: "made = takeWhile mk ?ds" and o: "ok \<longleftrightarrow> list_all mk ?ds" using make_dirs_spec [OF m] by auto
  obtain k where k: "?ds = made @ k" using t by (metis takeWhile_dropWhile_id)
  have "sorted_wrt strict_prefix made" using slash_prefixes_strict [of ?p] k by (simp add: sorted_wrt_append)
  moreover have "list_all mk made" unfolding t by (auto simp: list_all_iff dest: set_takeWhileD)
  moreover have "ok \<longleftrightarrow> made \<noteq> [] \<and> last made = ?p"
  proof
    assume ok
    then have "made = ?ds" using o t by (simp add: list_all_iff takeWhile_eq_all_conv)
    then show "made \<noteq> [] \<and> last made = ?p" by simp
  next
    assume l: "made \<noteq> [] \<and> last made = ?p"
    have "k = []"
    proof (rule ccontr)
      assume "k \<noteq> []"
      then obtain k' where "k = k' @ [?p]" using k by (metis last_appendR last_snoc append_butlast_last_id)
      moreover obtain m' where "made = m' @ [?p]" using l by (metis append_butlast_last_id)
      ultimately have "sorted_wrt strict_prefix (m' @ [?p] @ k' @ [?p])" using slash_prefixes_strict [of ?p] k by simp
      then show False by (simp add: sorted_wrt_append)
    qed
    then have "made = ?ds" using k by simp
    then have "list_all mk ?ds" using \<open>list_all mk made\<close> by simp
    then show ok using o by blast
  qed
  ultimately show ?thesis using m by (auto simp: mkdir_p_def copy_string_def Let_def)
qed

section \<open>Favorites over a save\<close>

definition reader_os :: "os \<Rightarrow> (string \<Rightarrow> string option) \<Rightarrow> os" where
  "reader_os w files = w\<lparr>os_stat := \<lambda>p. map_option (\<lambda>_. (Regular, 0, 0)) (files p), os_read := files\<rparr>"

text \<open>
  C1: Favorites survive a power loss while they are saved, as long as no write of the text fails before the last flush (what happens
  then is shown below). At every state of the save a frontend that
  starts again reads the table it had before or exactly the new table, and after a save that reports success it
  reads the new one, for every table with one entry per game whose texts fit their slots and hold no
  control characters.
\<close>

theorem favorites_save_crash_safe:
  assumes "distinct_keys fav_key st" and "list_all fav_entry_ok st" and "length st \<le> MAX_FAVORITES" and "st_lost e = None"
  shows "list_all (\<lambda>d'. load_favorites (reader_os w (after_crash g d')) path \<in>
        {load_favorites (reader_os w (after_crash g d)) path, (True, st)}) (d # snd (save_favorites e path st d)) \<and>
    (fst (save_favorites e path st d) \<longrightarrow>
      load_favorites (reader_os w (after_crash g (disk_after (save_favorites e path st d) d))) path = (True, st))"
proof -
  have new: "load_favorites (reader_os w m) path = (True, st)" if "m path = Some (save_favorites_text st)" for m
    by (rule favorites_reload [OF _ _ assms(1-3)]) (simp_all add: reader_os_def file_exists_def that)
  have same: "load_favorites (reader_os w m) path = load_favorites (reader_os w m') path" if "m path = m' path" for m m'
    by (simp add: load_favorites_def reader_os_def file_exists_def that)
  have all: "arrived e (save_favorites_text st) = save_favorites_text st" using assms(4) by (simp add: arrived_def)
  have one: "load_favorites (reader_os w (after_crash g d')) path \<in>
      {load_favorites (reader_os w (after_crash g d)) path, (True, st)}"
    if "d' path = d path \<or> d' path = Some (save_favorites_text st, True)" for d'
  proof (cases "d' path = d path")
    case True
    then have "after_crash g d' path = after_crash g d path" by (simp add: after_crash_def)
    from same [of "after_crash g d'" "after_crash g d", OF this] show ?thesis by simp
  next
    case False
    with that have "after_crash g d' path = Some (save_favorites_text st)" by (simp add: after_crash_def)
    from new [of "after_crash g d'", OF this] show ?thesis by simp
  qed
  have "list_all (\<lambda>d'. load_favorites (reader_os w (after_crash g d')) path \<in>
        {load_favorites (reader_os w (after_crash g d)) path, (True, st)}) (d # snd (save_favorites e path st d))"
    unfolding save_favorites_def
    by (rule list.pred_mono_strong [OF save_file_states]) (rule one, simp add: all)
  moreover have "load_favorites (reader_os w (after_crash g (disk_after (save_favorites e path st d) d))) path = (True, st)"
    if "fst (save_favorites e path st d)"
    by (rule new) (use that save_file_done [of e path "save_favorites_text st" d] in
        \<open>simp add: save_favorites_def after_crash_def all\<close>)
  ultimately show ?thesis by simp
qed

definition demo_store :: store_env where
  "demo_store = \<lparr>st_mkdir = \<lambda>_. True, st_open = True, st_partial = [3], st_lost = None, st_flush = True, st_fsync = True,
    st_close = True, st_rename = True, st_dir_open = \<lambda>_. True, st_dir_sync = Synced, st_dir_close = True\<rparr>"

theorem favorites_save_crash_safe_witness:
  "load_favorites (reader_os demo_os (after_crash (\<lambda>_. []) (disk_after
     (save_favorites demo_store ''/d/f'' [demo_favorite] (\<lambda>_. None)) (\<lambda>_. None)))) ''/d/f'' = (True, [demo_favorite])"
proof -
  have ok: "list_all fav_entry_ok [demo_favorite]"
    by (simp add: demo_favorite_def fav_entry_ok_def str_ok_def valid_system_id_def plain_char_def
        valid_relative_rom_path_def contains_str_def TEXT_PATH_MAX_def isalnum_def isdigit_def code_of_def)
  have "fst (save_favorites demo_store ''/d/f'' [demo_favorite] (\<lambda>_. None))"
    by (simp add: save_favorites_def save_file_def write_and_commit_def commit_temp_file_def demo_store_def sync_parent_dir_def
        parent_to_sync_def ensure_parent_dir_def mkdir_p_def slash_prefixes_def strip_slashes.simps Let_def copy_string_def PATH_MAX_def Let_def)
  with favorites_save_crash_safe [OF _ ok, where w = demo_os and g = "\<lambda>_. []" and path = "''/d/f''" and d = "\<lambda>_. None" and e = demo_store] show ?thesis
    by (simp add: MAX_FAVORITES_def demo_store_def)
qed

text \<open>
  A write that fails is not noticed. When a piece of the text could not be written and the final flush succeeds, the save reports
  success, the torn file stands in place of the favorites, and a restart reads an empty table.
\<close>

lemma failed_write_loses_favorites:
  "fst (save_favorites (demo_store\<lparr>st_lost := Some ''{''\<rparr>) ''/d/f'' [demo_favorite] d) \<and>
   snd (load_favorites (reader_os w (after_crash g (disk_after
     (save_favorites (demo_store\<lparr>st_lost := Some ''{''\<rparr>) ''/d/f'' [demo_favorite] d) d))) ''/d/f'') = []"
proof -
  let ?r = "save_favorites (demo_store\<lparr>st_lost := Some ''{''\<rparr>) ''/d/f'' [demo_favorite] d"
  have ok: "fst ?r"
    by (simp add: save_favorites_def save_file_def write_and_commit_def commit_temp_file_def demo_store_def sync_parent_dir_def
        parent_to_sync_def ensure_parent_dir_def mkdir_p_def slash_prefixes_def strip_slashes.simps Let_def copy_string_def PATH_MAX_def arrived_def)
  then have "disk_after ?r d ''/d/f'' = Some (''{'', True)"
    using save_file_done [of "demo_store\<lparr>st_lost := Some ''{''\<rparr>" "''/d/f''" "save_favorites_text [demo_favorite]" d]
    by (simp add: save_favorites_def arrived_def)
  then have "snd (load_favorites (reader_os w (after_crash g (disk_after ?r d))) ''/d/f'') = []"
    by (simp add: load_favorites_def reader_os_def file_exists_def after_crash_def json_find_array_def json_find_key_value_def
        find_key_loop.simps key_pattern_def)
  with ok show ?thesis by blast
qed

end
