(* ===== verification/ScanIndex.thy ===== *)
theory ScanIndex
  imports ScanProofs TextStore Decimal
begin

text \<open>
  The second half of the library scanner (\<open>src/frontend/plumos_library_scan.c\<close>): the order of the games,
  the index that is written, and \<open>main\<close>: its arguments and the sequence of its steps.
\<close>

section \<open>The order of the games\<close>

definition cmp_rom_entries :: "scan_rom \<Rightarrow> scan_rom \<Rightarrow> int" where
  "cmp_rom_entries a b =
     (if sr_system_index a \<noteq> sr_system_index b
        then (if sr_system_index a < sr_system_index b then - 1 else 1)
      else let c = strcasecmp (sr_title a) (sr_title b)
        in if c \<noteq> 0 then c else strcasecmp (sr_relative_path a) (sr_relative_path b))"

definition rom_c_strings :: "scan_rom \<Rightarrow> bool" where
  "rom_c_strings r \<longleftrightarrow> NUL \<notin> set (sr_title r) \<and> NUL \<notin> set (sr_relative_path r)"

lemma strcasecmp_swap: "strcasecmp a b = - strcasecmp b a"
  unfolding strcasecmp_def by (rule strcmp_swap)

lemma strcasecmp_trans:
  "NUL \<notin> set a \<Longrightarrow> NUL \<notin> set b \<Longrightarrow> strcasecmp a b \<le> 0 \<Longrightarrow> strcasecmp b c \<le> 0 \<Longrightarrow> strcasecmp a c \<le> 0"
  unfolding strcasecmp_def by (rule strcmp_trans) (auto dest: lower_string_no_nul)

lemma strcasecmp_zero:
  "NUL \<notin> set a \<Longrightarrow> NUL \<notin> set b \<Longrightarrow> strcasecmp a b = 0 \<longleftrightarrow> lower_string a = lower_string b"
  unfolding strcasecmp_def by (rule strcmp_zero_iff) (auto dest: lower_string_no_nul)

interpretation rom_order: comparison cmp_rom_entries rom_c_strings
proof
  fix a b c
  assume ab: "rom_c_strings a" "rom_c_strings b"
  show "cmp_rom_entries a b < 0 \<longleftrightarrow> 0 < cmp_rom_entries b a"
    using strcasecmp_swap [of "sr_title a" "sr_title b"] strcasecmp_swap [of "sr_relative_path a" "sr_relative_path b"]
    by (auto simp: cmp_rom_entries_def Let_def)
  assume c: "rom_c_strings c" and le: "cmp_rom_entries a b \<le> 0" "cmp_rom_entries b c \<le> 0"
  note lower = strcasecmp_zero [of "sr_title a" "sr_title b"] strcasecmp_zero [of "sr_title b" "sr_title c"]
    strcasecmp_zero [of "sr_title a" "sr_title c"]
  have eq: "strcasecmp x y = strcasecmp x z" "strcasecmp y x = strcasecmp z x" if "lower_string y = lower_string z" for x y z
    using that by (simp_all add: strcasecmp_def)
  have t: "strcasecmp (sr_title a) (sr_title c) < 0"
    if "strcasecmp (sr_title a) (sr_title b) \<le> 0" "strcasecmp (sr_title b) (sr_title c) \<le> 0"
      "strcasecmp (sr_title a) (sr_title b) \<noteq> 0 \<or> strcasecmp (sr_title b) (sr_title c) \<noteq> 0"
  proof -
    have "strcasecmp (sr_title a) (sr_title c) \<le> 0"
      using that ab c strcasecmp_trans [of "sr_title a" "sr_title b" "sr_title c"] by (simp add: rom_c_strings_def)
    moreover have "strcasecmp (sr_title a) (sr_title c) \<noteq> 0"
    proof
      assume "strcasecmp (sr_title a) (sr_title c) = 0"
      then have "lower_string (sr_title a) = lower_string (sr_title c)" using lower ab c by (simp add: rom_c_strings_def)
      then have "strcasecmp (sr_title a) (sr_title b) = - strcasecmp (sr_title b) (sr_title c)"
        using eq(2) strcasecmp_swap by metis
      with that show False by linarith
    qed
    ultimately show ?thesis by linarith
  qed
  show "cmp_rom_entries a c \<le> 0"
    using le t lower ab c strcasecmp_trans [of "sr_relative_path a" "sr_relative_path b" "sr_relative_path c"]
    by (auto simp: cmp_rom_entries_def rom_c_strings_def Let_def split: if_splits)
qed

section \<open>The index\<close>

definition count_roms_for_system :: "scan_ctx \<Rightarrow> nat \<Rightarrow> nat" where
  "count_roms_for_system ctx s = length (filter (\<lambda>r. sr_system_index r = s) (sc_roms ctx))"

definition count_thumbnails_for_system :: "scan_ctx \<Rightarrow> nat \<Rightarrow> nat" where
  "count_thumbnails_for_system ctx s =
     length (filter (\<lambda>r. sr_system_index r = s \<and> sr_thumbnail r \<noteq> []) (sc_roms ctx))"

text \<open>\<open>%016llx\<close>\<close>

definition hex16 :: "64 word \<Rightarrow> string" where
  "hex16 h = map (\<lambda>i. hex_digit (unat (drop_bit (4 * i) h AND 15))) (rev [0..<16])"

abbreviation comma_nl :: string where "comma_nl \<equiv> '','' @ [NL]"

fun sep_concat :: "string \<Rightarrow> string list \<Rightarrow> string" where
  "sep_concat sep [] = []"
| "sep_concat sep [x] = x"
| "sep_concat sep (x # xs) = x @ sep @ sep_concat sep xs"

definition index_rom_text :: "system_def \<Rightarrow> scan_rom \<Rightarrow> string" where
  \<open>index_rom_text system rom =
     ''        {'' @ [NL] @
     ''          "id": "path64:'' @ hex16 (sr_id_hash rom) @ ''",'' @ [NL] @
     ''          "system_id": '' @ json_write_escaped (sy_id system) @ comma_nl @
     ''          "path": '' @ json_write_escaped (sr_path rom) @ comma_nl @
     ''          "relative_path": '' @ json_write_escaped (sr_relative_path rom) @ comma_nl @
     ''          "file_name": '' @ json_write_escaped (sr_file_name rom) @ comma_nl @
     ''          "title": '' @ json_write_escaped (sr_title rom) @ comma_nl @
     ''          "extension": '' @ json_write_escaped (sr_extension rom) @ comma_nl @
     ''          "directory_alias": '' @ json_write_escaped (sr_directory_alias rom) @ comma_nl @
     ''          "media": { "thumbnail": '' @
       (if sr_thumbnail rom \<noteq> [] then json_write_escaped (sr_thumbnail rom) else ''null'') @ '' },'' @ [NL] @
     ''          "metadata": { "source": "scan" }'' @ [NL] @
     ''        }''\<close>

definition index_system_text :: "scan_ctx \<Rightarrow> nat \<Rightarrow> string" where
  \<open>index_system_text ctx s =
     (let system = sc_systems ctx ! s in
      ''    {'' @ [NL] @
      ''      "id": '' @ json_write_escaped (sy_id system) @ comma_nl @
      ''      "display_name": '' @ json_write_escaped (sy_display_name system) @ comma_nl @
      ''      "short_name": '' @ json_write_escaped (sy_short_name system) @ comma_nl @
      ''      "sort_order": '' @ show_int (sy_sort_order system) @ comma_nl @
      ''      "rom_count": '' @ show_nat (count_roms_for_system ctx s) @ comma_nl @
      ''      "thumbnail_count": '' @ show_nat (count_thumbnails_for_system ctx s) @ comma_nl @
      ''      "pinned": '' @ (if sy_pinned system then ''true'' else ''false'') @ comma_nl @
      ''      "default_launch_profile": '' @ json_write_escaped (sy_default_launch_profile system) @ comma_nl @
      ''      "roms": ['' @ [NL] @
      sep_concat comma_nl (map (index_rom_text system) (filter (\<lambda>r. sr_system_index r = s) (sc_roms ctx))) @
      [NL] @ ''      ]'' @ [NL] @
      ''    }'')\<close>

definition index_summary_text :: "scan_ctx \<Rightarrow> string" where
  \<open>index_summary_text ctx =
     ''  "summary": {'' @ [NL] @
     ''    "system_count": '' @ show_nat (length (sc_systems ctx)) @ comma_nl @
     ''    "alias_dirs_found": '' @ show_nat (sc_alias_dirs_found ctx) @ comma_nl @
     ''    "files_seen": '' @ show_nat (sc_files_seen ctx) @ comma_nl @
     ''    "directories_excluded": '' @ show_nat (sc_directories_excluded ctx) @ comma_nl @
     ''    "files_matched": '' @ show_nat (sc_files_matched ctx) @ comma_nl @
     ''    "rom_count": '' @ show_nat (length (sc_roms ctx)) @ comma_nl @
     ''    "thumbnail_count": '' @ show_nat (sc_thumbnails_found ctx) @ comma_nl @
     ''    "thumbnail_lookup_deferred": '' @ (if sc_resolve_thumbnails ctx then ''false'' else ''true'') @ comma_nl @
     ''    "load_ms": '' @ show_int (sc_load_ms ctx) @ comma_nl @
     ''    "scan_ms": '' @ show_int (sc_scan_ms ctx) @ comma_nl @
     ''    "sort_ms": '' @ show_int (sc_sort_ms ctx) @ comma_nl @
     ''    "ready_ms": '' @ show_int (sc_ready_ms ctx) @ [NL] @
     ''  }'' @ [NL]\<close>

definition library_index_text :: "int \<Rightarrow> scan_ctx \<Rightarrow> string" where
  \<open>library_index_text unix_time ctx =
     ''{'' @ [NL] @
     ''  "version": 1,'' @ [NL] @
     ''  "generated_by": "plumos-library-scan",'' @ [NL] @
     ''  "generated_at_unix": '' @ show_int unix_time @ comma_nl @
     ''  "sdcard_root": '' @ json_write_escaped (sc_sdcard_root ctx) @ comma_nl @
     ''  "plumos_root": '' @ json_write_escaped (sc_plumos_root ctx) @ comma_nl @
     ''  "systems": ['' @ [NL] @
     sep_concat comma_nl (map (index_system_text ctx)
       (filter (\<lambda>s. system_selected ctx (sc_systems ctx ! s)) [0..<length (sc_systems ctx)])) @
     [NL] @ ''  ],'' @ [NL] @
     index_summary_text ctx @
     ''}'' @ [NL]\<close>

definition write_library_index :: "store_env \<Rightarrow> int \<Rightarrow> scan_ctx \<Rightarrow> string \<Rightarrow> disk \<Rightarrow> bool \<times> disk list" where
  "write_library_index e unix_time ctx output_path d =
     (case path_parent PATH_MAX output_path of
        (False, _) \<Rightarrow> (False, [])
      | (True, parent) \<Rightarrow>
          if \<not> fst (mkdir_p (st_mkdir e) parent) then (False, [])
          else (case copy_string PATH_MAX output_path of
             (False, _) \<Rightarrow> (False, [])
           | (True, tmp_path) \<Rightarrow>
               if \<not> fst (append_string PATH_MAX tmp_path ''.tmp'') then (False, [])
               else write_and_commit e output_path (library_index_text unix_time ctx) d))"

section \<open>The program\<close>

record scan_args =
  sa_systems_path :: string
  sa_output_path :: "string option"
  sa_system_filter :: "string option"
  sa_on_enter :: bool
  sa_resolve :: bool
  sa_thumbs_explicit :: bool

text \<open>\<open>Inl\<close> is an exit status: 0 after the help text, 2 after an unknown argument.\<close>

fun parse_scan_args :: "string list \<Rightarrow> scan_args \<Rightarrow> int + scan_args" where
  "parse_scan_args [] opts = Inr opts"
| "parse_scan_args (a # rest) opts =
     (if a = ''--help'' \<or> a = ''-h'' then Inl 0
      else if a = ''--systems'' \<and> rest \<noteq> [] then parse_scan_args (tl rest) (opts\<lparr>sa_systems_path := hd rest\<rparr>)
      else if a = ''--output'' \<and> rest \<noteq> [] then parse_scan_args (tl rest) (opts\<lparr>sa_output_path := Some (hd rest)\<rparr>)
      else if a = ''--system'' \<and> rest \<noteq> [] then parse_scan_args (tl rest) (opts\<lparr>sa_system_filter := Some (hd rest)\<rparr>)
      else if a = ''--on-enter'' \<and> rest \<noteq> []
        then parse_scan_args (tl rest) (opts\<lparr>sa_system_filter := Some (hd rest), sa_on_enter := True\<rparr>)
      else if a = ''--defer-thumbnails'' then parse_scan_args rest (opts\<lparr>sa_resolve := False, sa_thumbs_explicit := True\<rparr>)
      else if a = ''--with-thumbnails'' then parse_scan_args rest (opts\<lparr>sa_resolve := True, sa_thumbs_explicit := True\<rparr>)
      else Inl 2)"

definition env_or :: "string option \<Rightarrow> string \<Rightarrow> string" where
  "env_or v dflt = (case v of Some x \<Rightarrow> if x \<noteq> [] then x else dflt | None \<Rightarrow> dflt)"

definition scan_sdcard_root :: "os \<Rightarrow> string" where
  "scan_sdcard_root w = env_or (os_getenv w ''PLUMOS_SDCARD_ROOT'') ''/mnt/SDCARD''"

definition scan_plumos_root :: "os \<Rightarrow> string" where
  "scan_plumos_root w =
     (case os_getenv w ''PLUMOS_ROOT'' of
        Some x \<Rightarrow> if x \<noteq> [] then stored PATH_MAX x
          else snd (join_path PATH_MAX (scan_sdcard_root w) ''plumos'')
      | None \<Rightarrow> snd (join_path PATH_MAX (scan_sdcard_root w) ''plumos''))"

definition default_scan_args :: "os \<Rightarrow> scan_args" where
  "default_scan_args w =
     \<lparr>sa_systems_path = env_or (os_getenv w ''PLUMOS_SYSTEMS_JSON'')
        (snd (join_path PATH_MAX (scan_plumos_root w) ''config/frontend/systems.json'')),
      sa_output_path = (case os_getenv w ''PLUMOS_LIBRARY_INDEX'' of
        Some x \<Rightarrow> if x \<noteq> [] then Some x else None | None \<Rightarrow> None),
      sa_system_filter = None, sa_on_enter = False, sa_resolve = True, sa_thumbs_explicit = False\<rparr>"

text \<open>Where the index goes when no path was given; \<open>None\<close> is the failure that ends the program.\<close>

definition select_output :: "os \<Rightarrow> scan_args \<Rightarrow> string option" where
  "select_output w opts =
     (case sa_output_path opts of
        Some p \<Rightarrow> Some p
      | None \<Rightarrow>
          (case sa_system_filter opts of
             Some f \<Rightarrow> ok_opt (build_system_cache_path PATH_MAX (scan_plumos_root w) f)
           | None \<Rightarrow> Some (snd (join_path PATH_MAX (scan_plumos_root w) ''state/frontend/library-index.json''))))"

definition scan_resolves :: "scan_args \<Rightarrow> bool" where
  "scan_resolves opts = (if sa_on_enter opts \<and> \<not> sa_thumbs_explicit opts then False else sa_resolve opts)"

text \<open>
  The scan itself, from the loaded systems to the sorted list, with the four readings of the clock.
\<close>

definition scan_library ::
    "os \<Rightarrow> scan_args \<Rightarrow> int \<times> int \<times> int \<times> int \<Rightarrow> scan_ctx option" where
  "scan_library w opts clock =
     (case (load_systems w (sa_systems_path opts), load_scan_excluded_directories w (sa_systems_path opts), clock) of
        (Some systems, (True, excluded), (started_ms, loaded_ms, scanned_ms, sorted_ms)) \<Rightarrow>
          let ctx = scan_systems w (start_ctx (scan_sdcard_root w) (scan_plumos_root w) (sa_system_filter opts)
                      (scan_resolves opts) systems excluded)
          in Some (ctx\<lparr>sc_roms := sort_by cmp_rom_entries (sc_roms ctx), sc_load_ms := loaded_ms - started_ms,
                 sc_scan_ms := scanned_ms - loaded_ms, sc_sort_ms := sorted_ms - scanned_ms, sc_ready_ms := sorted_ms - started_ms\<rparr>)
      | _ \<Rightarrow> None)"

text \<open>
  \<open>main\<close>: the exit status and the states of the disk. The cleanup process it starts beside the scan and what it
  prints are left out.
\<close>

definition scan_main ::
    "os \<Rightarrow> store_env \<Rightarrow> string list \<Rightarrow> int \<times> int \<times> int \<times> int \<Rightarrow> int \<Rightarrow> disk \<Rightarrow> int \<times> disk list" where
  "scan_main w e args clock unix_time d =
     (case parse_scan_args args (default_scan_args w) of
        Inl status \<Rightarrow> (status, [])
      | Inr opts \<Rightarrow>
          (case select_output w opts of
             None \<Rightarrow> (1, [])
           | Some output_path \<Rightarrow>
               (case scan_library w opts clock of
                  None \<Rightarrow> (1, [])
                | Some ctx \<Rightarrow>
                    (case write_library_index e unix_time ctx output_path d of
                       (ok, states) \<Rightarrow> (if ok then 0 else 1, states)))))"

end
