(* ===== verification/ScanComplete.thy ===== *)
theory ScanComplete
  imports ScanProofs
begin

text \<open>
  What the whole scan of \<open>src/frontend/plumos_library_scan.c\<close> leaves out: nothing. Every directory that an alias of a selected system
  names below one of the roots is walked, or it is the same directory as one that was walked for that system.
\<close>

section \<open>The directories of a system\<close>

text \<open>
  A directory the scan of a system reaches, with the filter it is walked with: archives that several systems share are left out below
  every alias but the first that is marked as shared.
\<close>

definition reaches :: "os \<Rightarrow> scan_ctx \<Rightarrow> nat \<Rightarrow> bool \<Rightarrow> string \<Rightarrow> bool" where
  "reaches w ctx s filt dir \<longleftrightarrow>
     s < length (sc_systems ctx) \<and> system_selected ctx (sc_systems ctx ! s) \<and>
     (\<exists>a d root_name rom_root.
        a < length (sy_aliases (sc_systems ctx ! s)) \<and> d = sy_aliases (sc_systems ctx ! s) ! a \<and> filt = (0 < a \<and> al_shared d) \<and>
        root_name \<in> {''Roms'', ''roms'', []} \<and> join_path PATH_MAX (sc_sdcard_root ctx) root_name = (True, rom_root) \<and>
        al_name d \<noteq> [] \<and> join_path PATH_MAX rom_root (al_name d) = (True, dir) \<and> is_directory w dir)"

abbreviation canon :: "os \<Rightarrow> string \<Rightarrow> string" where
  "canon w p \<equiv> snd (canonical_path w PATH_MAX p)"

text \<open>Every game the rules find below the directory is in the list, by its path or as the same file.\<close>

definition swept :: "os \<Rightarrow> scan_ctx \<Rightarrow> scan_rom list \<Rightarrow> nat \<Rightarrow> bool \<Rightarrow> string \<Rightarrow> bool" where
  "swept w ctx roms s filt dir \<longleftrightarrow>
     (\<forall>p r. walk_finds w (sc_excluded ctx) (sc_systems ctx ! s) filt (canon w dir) [] p r \<longrightarrow>
        rom_already_seen roms s (canon w p) (stat_identity w p))"

definition same_dir :: "os \<Rightarrow> string \<Rightarrow> string \<Rightarrow> bool" where
  "same_dir w a b \<longleftrightarrow> same_identity (stat_identity w a) (stat_identity w b) \<or> canon w b = canon w a"

definition handled :: "os \<Rightarrow> scan_ctx \<Rightarrow> scan_rom list \<Rightarrow> nat \<Rightarrow> bool \<Rightarrow> string \<Rightarrow> bool" where
  "handled w ctx roms s filt dir \<longleftrightarrow>
     swept w ctx roms s filt dir \<or>
     (\<exists>filt' dir'. reaches w ctx s filt' dir' \<and> same_dir w dir dir' \<and> swept w ctx roms s filt' dir')"

lemma swept_mono: "extends a w b \<Longrightarrow> swept w ctx (sc_roms a) s filt dir \<Longrightarrow> swept w ctx (sc_roms b) s filt dir"
  using extends_seen by (auto simp: swept_def)

lemma handled_mono: "extends a w b \<Longrightarrow> handled w ctx (sc_roms a) s filt dir \<Longrightarrow> handled w ctx (sc_roms b) s filt dir"
  using swept_mono by (fastforce simp: handled_def)

section \<open>The invariant\<close>

definition dirs_swept :: "os \<Rightarrow> scan_ctx \<Rightarrow> scan_ctx \<Rightarrow> bool" where
  "dirs_swept w ctx0 ctx \<longleftrightarrow> extends ctx0 w ctx \<and>
     (\<forall>x \<in> set (sc_scanned_dirs ctx). \<exists>filt dir. reaches w ctx0 (sd_system_index x) filt dir \<and>
        swept w ctx0 (sc_roms ctx) (sd_system_index x) filt dir \<and> sd_path x = canon w dir \<and> sd_identity x = stat_identity w dir)"

lemma scan_entry_dirs:
  assumes "\<And>p r c. sc_scanned_dirs (descend p r c) = sc_scanned_dirs c"
  shows "sc_scanned_dirs (scan_entry w descend s a filt d rel ctx name) = sc_scanned_dirs ctx"
  using assms by (simp add: scan_entry_def add_rom_entry_def Let_def split: option.split)

lemma scan_dir_dirs: "sc_scanned_dirs (scan_dir_recursive levels w s a filt d rel ctx) = sc_scanned_dirs ctx"
proof (induction levels arbitrary: d rel ctx)
  case (Suc levels)
  have "sc_scanned_dirs (foldl (scan_entry w (scan_dir_recursive levels w s a filt) s a filt d rel) c names) = sc_scanned_dirs c" for c names
    by (induction names arbitrary: c) (simp_all add: scan_entry_dirs [OF Suc.IH])
  then show ?case by (simp split: option.split)
qed simp

lemma alias_step:
  assumes ready: "readdir_ok w" and inv: "dirs_swept w ctx0 ctx"
    and reach: "reaches w ctx0 s filt dir" and j: "join_path PATH_MAX rom_root (al_name d) = (True, dir)" "al_name d \<noteq> []"
  shows "dirs_swept w ctx0 (scan_alias_dir w s rom_root d filt ctx) \<and>
    handled w ctx0 (sc_roms (scan_alias_dir w s rom_root d filt ctx)) s filt dir"
proof -
  have ext: "extends ctx0 w ctx" using inv by (simp add: dirs_swept_def)
  have isdir: "is_directory w dir" using reach by (auto simp: reaches_def)
  show ?thesis
  proof (cases "scanned_dir_already_seen ctx s (canon w dir) (stat_identity w dir)")
    case True
    then have same: "scan_alias_dir w s rom_root d filt ctx = ctx"
      using j isdir by (simp add: scan_alias_dir_def ok_opt_def Let_def)
    from True obtain x where x: "x \<in> set (sc_scanned_dirs ctx)" "sd_system_index x = s"
      "same_identity (stat_identity w dir) (sd_identity x) \<or> sd_path x = canon w dir"
      by (auto simp: scanned_dir_already_seen_def)
    with inv obtain filt' dir' where "reaches w ctx0 s filt' dir'" "swept w ctx0 (sc_roms ctx) s filt' dir'"
      "sd_path x = canon w dir'" "sd_identity x = stat_identity w dir'" by (auto simp: dirs_swept_def)
    with x(3) have "handled w ctx0 (sc_roms ctx) s filt dir" by (auto simp: handled_def same_dir_def)
    with inv same show ?thesis by simp
  next
    case False
    define c where "c = (remember_scanned_dir ctx s (canon w dir) (stat_identity w dir))
        \<lparr>sc_alias_dirs_found := Suc (sc_alias_dirs_found ctx), sc_alias_dirs_scanned := Suc (sc_alias_dirs_scanned ctx)\<rparr>"
    define c' where "c' = scan_dir_recursive PATH_MAX w s (al_name d) filt (canon w dir) [] c"
    have res: "scan_alias_dir w s rom_root d filt ctx = c'"
      using j isdir False by (simp add: scan_alias_dir_def ok_opt_def Let_def c'_def c_def remember_scanned_dir_def)
    have cc: "extends ctx w c" "sc_roms c = sc_roms ctx" by (auto simp: c_def remember_scanned_dir_def extends_def)
    have c'e: "extends c w c'" unfolding c'_def by (rule extends_inv.inv_scan_dir) simp
    have same: "sc_excluded c = sc_excluded ctx0" "sc_systems c = sc_systems ctx0"
      using extends_trans [OF ext cc(1)] by (auto simp: extends_def)
    have new: "swept w ctx0 (sc_roms c') s filt dir"
      using scan_dir_complete [OF ready, of "sc_excluded ctx0" "sc_systems ctx0 ! s" filt "canon w dir" "[]" _ _ PATH_MAX c s "al_name d"] same
      by (auto simp: swept_def c'_def)
    have all: "extends ctx w c'" by (rule extends_trans [OF cc(1) c'e])
    have "sc_scanned_dirs c' = sc_scanned_dirs c" by (simp add: c'_def scan_dir_dirs)
    then have dirs: "x \<in> set (sc_scanned_dirs ctx) \<or>
        x = \<lparr>sd_system_index = s, sd_path = canon w dir, sd_identity = stat_identity w dir\<rparr>" if "x \<in> set (sc_scanned_dirs c')" for x
      using that by (auto simp: c_def remember_scanned_dir_def canonical_stored split: if_splits)
    have "\<exists>filt dir. reaches w ctx0 (sd_system_index x) filt dir \<and> swept w ctx0 (sc_roms c') (sd_system_index x) filt dir \<and>
        sd_path x = canon w dir \<and> sd_identity x = stat_identity w dir" if x: "x \<in> set (sc_scanned_dirs c')" for x
      using dirs [OF x]
    proof
      assume "x \<in> set (sc_scanned_dirs ctx)"
      with inv swept_mono [OF all] show ?thesis unfolding dirs_swept_def by blast
    next
      assume "x = \<lparr>sd_system_index = s, sd_path = canon w dir, sd_identity = stat_identity w dir\<rparr>"
      with reach new show ?thesis by auto
    qed
    then have "dirs_swept w ctx0 c'" using extends_trans [OF ext all] by (simp add: dirs_swept_def)
    with new show ?thesis by (simp add: res handled_def)
  qed
qed

text \<open>A fold whose steps keep an invariant and settle their element, and unsettle none, settles them all.\<close>

lemma foldl_covers:
  assumes "Inv c" and "\<And>c x. x \<in> set xs \<Longrightarrow> Inv c \<Longrightarrow> Inv (f c x) \<and> H x (f c x)"
    and "\<And>c x y. x \<in> set xs \<Longrightarrow> Inv c \<Longrightarrow> H y c \<Longrightarrow> H y (f c x)"
  shows "Inv (foldl f c xs) \<and> (\<forall>x \<in> set xs. H x (foldl f c xs))"
  using assms(2,3)
proof (induction xs rule: rev_induct)
  case (snoc x xs)
  have prev: "Inv (foldl f c xs) \<and> (\<forall>x \<in> set xs. H x (foldl f c xs))"
    by (rule snoc.IH) (use snoc.prems in auto)
  with snoc.prems(1) [of x "foldl f c xs"] snoc.prems(2) [of x "foldl f c xs"] show ?case by auto
qed (simp add: assms(1))

text \<open>The directories an alias reaches below one root.\<close>

definition alias_reaches :: "os \<Rightarrow> scan_ctx \<Rightarrow> nat \<Rightarrow> string \<Rightarrow> nat \<times> alias_def \<Rightarrow> string \<Rightarrow> bool" where
  "alias_reaches w ctx s rom_root ad dir \<longleftrightarrow> al_name (snd ad) \<noteq> [] \<and> join_path PATH_MAX rom_root (al_name (snd ad)) = (True, dir) \<and> is_directory w dir"

lemma scan_alias_skip:
  "\<not> (\<exists>dir. alias_reaches w ctx0 s rom_root (a, d) dir) \<Longrightarrow> scan_alias_dir w s rom_root d filt ctx = ctx"
  by (auto simp: alias_reaches_def scan_alias_dir_def ok_opt_Some split: option.splits)

lemma scan_aliases_covers:
  assumes ready: "readdir_ok w" and inv: "dirs_swept w ctx0 ctx"
    and sel: "s < length (sc_systems ctx0)" "system_selected ctx0 (sc_systems ctx0 ! s)"
    and root: "root_name \<in> {''Roms'', ''roms'', []}" "join_path PATH_MAX (sc_sdcard_root ctx0) root_name = (True, rom_root)"
  shows "dirs_swept w ctx0 (scan_aliases w s rom_root (sy_aliases (sc_systems ctx0 ! s)) ctx) \<and>
    (\<forall>ad \<in> set (enumerate 0 (sy_aliases (sc_systems ctx0 ! s))). \<forall>dir. alias_reaches w ctx0 s rom_root ad dir \<longrightarrow>
       handled w ctx0 (sc_roms (scan_aliases w s rom_root (sy_aliases (sc_systems ctx0 ! s)) ctx)) s (0 < fst ad \<and> al_shared (snd ad)) dir)"
  unfolding scan_aliases_def
proof (rule foldl_covers [where Inv = "dirs_swept w ctx0" and
      H = "\<lambda>ad c. \<forall>dir. alias_reaches w ctx0 s rom_root ad dir \<longrightarrow> handled w ctx0 (sc_roms c) s (0 < fst ad \<and> al_shared (snd ad)) dir", OF inv])
  fix c ad assume ad: "ad \<in> set (enumerate 0 (sy_aliases (sc_systems ctx0 ! s)))" and c: "dirs_swept w ctx0 c"
  obtain a d where x: "ad = (a, d)" by (cases ad)
  let ?f = "0 < a \<and> al_shared d"
  have mem: "a < length (sy_aliases (sc_systems ctx0 ! s))" "d = sy_aliases (sc_systems ctx0 ! s) ! a"
    using ad by (auto simp: x in_set_enumerate_eq)
  show "dirs_swept w ctx0 (case ad of (a, d) \<Rightarrow> scan_alias_dir w s rom_root d (0 < a \<and> al_shared d) c) \<and>
      (\<forall>dir. alias_reaches w ctx0 s rom_root ad dir \<longrightarrow>
        handled w ctx0 (sc_roms (case ad of (a, d) \<Rightarrow> scan_alias_dir w s rom_root d (0 < a \<and> al_shared d) c)) s (0 < fst ad \<and> al_shared (snd ad)) dir)"
  proof (cases "\<exists>dir. alias_reaches w ctx0 s rom_root ad dir")
    case True
    then obtain dir where dir: "alias_reaches w ctx0 s rom_root ad dir" by blast
    then have j: "join_path PATH_MAX rom_root (al_name d) = (True, dir)" "al_name d \<noteq> []" by (simp_all add: alias_reaches_def x)
    have only: "dir' = dir" if "alias_reaches w ctx0 s rom_root ad dir'" for dir' using that j by (simp add: alias_reaches_def x)
    have "reaches w ctx0 s ?f dir"
      unfolding reaches_def using sel root mem dir by (auto simp: alias_reaches_def x)
    from alias_step [OF ready c this j] only show ?thesis by (simp only: x prod.case fst_conv snd_conv) blast
  next
    case False
    with scan_alias_skip [of w ctx0 s rom_root a d] c show ?thesis by (auto simp: x)
  qed
  fix y assume y: "\<forall>dir. alias_reaches w ctx0 s rom_root y dir \<longrightarrow> handled w ctx0 (sc_roms c) s (0 < fst y \<and> al_shared (snd y)) dir"
  have "extends c w (scan_alias_dir w s rom_root d ?f c)" by (rule extends_inv.inv_scan_alias_dir) simp
  with y show "\<forall>dir. alias_reaches w ctx0 s rom_root y dir \<longrightarrow>
      handled w ctx0 (sc_roms (case ad of (a, d) \<Rightarrow> scan_alias_dir w s rom_root d (0 < a \<and> al_shared d) c)) s (0 < fst y \<and> al_shared (snd y)) dir"
    unfolding x prod.case by (auto intro: handled_mono)
qed

section \<open>The whole scan\<close>

definition root_reaches :: "os \<Rightarrow> scan_ctx \<Rightarrow> nat \<Rightarrow> string \<Rightarrow> bool \<Rightarrow> string \<Rightarrow> bool" where
  "root_reaches w ctx s root_name filt dir \<longleftrightarrow>
     (\<exists>rom_root ad. join_path PATH_MAX (sc_sdcard_root ctx) root_name = (True, rom_root) \<and>
        ad \<in> set (enumerate 0 (sy_aliases (sc_systems ctx ! s))) \<and> filt = (0 < fst ad \<and> al_shared (snd ad)) \<and>
        alias_reaches w ctx s rom_root ad dir)"

lemma reaches_root:
  "reaches w ctx s filt dir \<Longrightarrow> \<exists>root_name \<in> set [''Roms'', ''roms'', []]. root_reaches w ctx s root_name filt dir"
proof -
  assume "reaches w ctx s filt dir"
  then obtain a d root_name rom_root where r: "a < length (sy_aliases (sc_systems ctx ! s))" "d = sy_aliases (sc_systems ctx ! s) ! a"
    "filt = (0 < a \<and> al_shared d)" "root_name \<in> {''Roms'', ''roms'', []}" "join_path PATH_MAX (sc_sdcard_root ctx) root_name = (True, rom_root)"
    "al_name d \<noteq> []" "join_path PATH_MAX rom_root (al_name d) = (True, dir)" "is_directory w dir"
    by (auto simp: reaches_def)
  then have "(a, d) \<in> set (enumerate 0 (sy_aliases (sc_systems ctx ! s)))" by (simp add: in_set_enumerate_eq)
  with r(3,5-) have "root_reaches w ctx s root_name filt dir"
    unfolding root_reaches_def by (intro exI [of _ rom_root] exI [of _ "(a, d)"]) (simp add: alias_reaches_def)
  with r(4) show ?thesis by auto
qed

lemma scan_root_covers:
  assumes ready: "readdir_ok w" and inv: "dirs_swept w ctx0 ctx" and sel: "s < length (sc_systems ctx0)" "system_selected ctx0 (sc_systems ctx0 ! s)"
    and root: "root_name \<in> {''Roms'', ''roms'', []}"
  shows "dirs_swept w ctx0 (scan_root w s ctx root_name) \<and>
    (\<forall>filt dir. root_reaches w ctx0 s root_name filt dir \<longrightarrow> handled w ctx0 (sc_roms (scan_root w s ctx root_name)) s filt dir)"
proof -
  have same: "sc_systems ctx = sc_systems ctx0" "sc_sdcard_root ctx = sc_sdcard_root ctx0" using inv by (auto simp: dirs_swept_def extends_def)
  show ?thesis
  proof (cases "ok_opt (join_path PATH_MAX (sc_sdcard_root ctx0) root_name)")
    case None
    then have "\<not> root_reaches w ctx0 s root_name filt dir" for filt dir by (auto simp: root_reaches_def ok_opt_def)
    with None inv show ?thesis by (simp add: scan_root_def same)
  next
    case (Some rom_root)
    then have j: "join_path PATH_MAX (sc_sdcard_root ctx0) root_name = (True, rom_root)" by (simp add: ok_opt_Some)
    have eq: "scan_root w s ctx root_name = scan_aliases w s rom_root (sy_aliases (sc_systems ctx0 ! s)) ctx"
      by (simp add: scan_root_def same Some)
    from scan_aliases_covers [OF ready inv sel root j] show ?thesis
      unfolding eq root_reaches_def j by auto
  qed
qed

lemma scan_system_covers:
  assumes ready: "readdir_ok w" and inv: "dirs_swept w ctx0 ctx" and s: "s < length (sc_systems ctx0)"
  shows "dirs_swept w ctx0 (scan_system w ctx s) \<and>
    (\<forall>filt dir. reaches w ctx0 s filt dir \<longrightarrow> handled w ctx0 (sc_roms (scan_system w ctx s)) s filt dir)"
proof -
  have same: "system_selected ctx (sc_systems ctx ! s) = system_selected ctx0 (sc_systems ctx0 ! s)"
    using inv by (auto simp: dirs_swept_def extends_def system_selected_def)
  show ?thesis
  proof (cases "system_selected ctx0 (sc_systems ctx0 ! s)")
    case True
    have "dirs_swept w ctx0 (foldl (scan_root w s) ctx [''Roms'', ''roms'', []]) \<and>
      (\<forall>name \<in> set [''Roms'', ''roms'', []]. \<forall>filt dir. root_reaches w ctx0 s name filt dir \<longrightarrow>
         handled w ctx0 (sc_roms (foldl (scan_root w s) ctx [''Roms'', ''roms'', []])) s filt dir)"
    proof (rule foldl_covers [where Inv = "dirs_swept w ctx0" and
          H = "\<lambda>name c. \<forall>filt dir. root_reaches w ctx0 s name filt dir \<longrightarrow> handled w ctx0 (sc_roms c) s filt dir", OF inv])
      fix c name assume n: "name \<in> set [''Roms'', ''roms'', []]" and c: "dirs_swept w ctx0 c"
      then have n': "name \<in> {''Roms'', ''roms'', []}" by auto
      show "dirs_swept w ctx0 (scan_root w s c name) \<and>
          (\<forall>filt dir. root_reaches w ctx0 s name filt dir \<longrightarrow> handled w ctx0 (sc_roms (scan_root w s c name)) s filt dir)"
        by (rule scan_root_covers [OF ready c s True n'])
      have "extends c w (scan_root w s c name)"
        unfolding scan_root_def scan_aliases_def
        by (auto split: option.splits intro!: extends_inv.inv_foldl extends_inv.inv_scan_alias_dir)
      then show "\<forall>filt dir. root_reaches w ctx0 s y filt dir \<longrightarrow> handled w ctx0 (sc_roms (scan_root w s c name)) s filt dir"
        if "\<forall>filt dir. root_reaches w ctx0 s y filt dir \<longrightarrow> handled w ctx0 (sc_roms c) s filt dir" for y
        using that handled_mono by blast
    qed
    with reaches_root True show ?thesis unfolding scan_system_def same by (simp only: if_False not_True_eq_False) blast
  next
    case False
    then have "\<not> reaches w ctx0 s filt dir" for filt dir by (simp add: reaches_def)
    with False inv show ?thesis by (simp add: scan_system_def same)
  qed
qed

lemma scan_systems_covers:
  assumes "readdir_ok w" and "sc_scanned_dirs ctx = []" and "reaches w ctx s filt dir"
  shows "handled w ctx (sc_roms (scan_systems w ctx)) s filt dir"
proof -
  have start: "dirs_swept w ctx ctx" by (simp add: dirs_swept_def assms(2))
  have "dirs_swept w ctx (scan_systems w ctx) \<and> (\<forall>s \<in> set [0..<length (sc_systems ctx)]. \<forall>filt dir. reaches w ctx s filt dir \<longrightarrow>
      handled w ctx (sc_roms (scan_systems w ctx)) s filt dir)"
    unfolding scan_systems_def
  proof (rule foldl_covers [where Inv = "dirs_swept w ctx" and
        H = "\<lambda>s c. \<forall>filt dir. reaches w ctx s filt dir \<longrightarrow> handled w ctx (sc_roms c) s filt dir", OF start])
    fix c s assume "s \<in> set [0..<length (sc_systems ctx)]" and c: "dirs_swept w ctx c"
    then show "dirs_swept w ctx (scan_system w c s) \<and>
        (\<forall>filt dir. reaches w ctx s filt dir \<longrightarrow> handled w ctx (sc_roms (scan_system w c s)) s filt dir)"
      by (intro scan_system_covers [OF assms(1) c]) simp
    have "extends c w (scan_system w c s)" by (rule extends_inv.inv_scan_system) simp
    then show "\<forall>filt dir. reaches w ctx y filt dir \<longrightarrow> handled w ctx (sc_roms (scan_system w c s)) y filt dir"
      if "\<forall>filt dir. reaches w ctx y filt dir \<longrightarrow> handled w ctx (sc_roms c) y filt dir" for y
      using that handled_mono by blast
  qed
  moreover have "s \<in> set [0..<length (sc_systems ctx)]" using assms(3) by (simp add: reaches_def)
  ultimately show ?thesis using assms(3) by blast
qed

end
