(* ===== verification/ScanIndexProofs.thy ===== *)
theory ScanIndexProofs
  imports ScanIndex ScanComplete
begin

text \<open>
  What the library scanner promises about its index: the games are sorted, the counts add up, the
  file is replaced as a whole, and the exit status says what happened.
\<close>

section \<open>The strings of an entry\<close>

lemma json_get_string_c: "NUL \<notin> set (snd (json_get_string t p e key cap []))"
proof (cases "json_find_key_value t p e key")
  case (Some v)
  obtain ok q out where d: "json_decode_string t e cap v [] = (ok, q, out)"
    by (cases "json_decode_string t e cap v []") auto
  then have "NUL \<notin> set out"
    by (auto simp: json_decode_string_def Let_def split: if_splits prod.splits)
  with Some d show ?thesis by (simp add: json_get_string_def)
qed (simp add: json_get_string_def)

definition alias_c :: "system_def \<Rightarrow> bool" where
  "alias_c s \<longleftrightarrow> NUL \<notin> set (sy_id s) \<and> list_all (\<lambda>a. NUL \<notin> set (al_name a)) (sy_aliases s)"

lemma parse_aliases_c: "list_all (\<lambda>a. NUL \<notin> set (al_name a)) (parse_aliases obj)"
proof (cases "json_find_array obj 0 (length obj) ''directory_aliases''")
  case (Some se)
  have step: "list_all (\<lambda>a. NUL \<notin> set (al_name a)) (add_alias x as)"
    if "list_all (\<lambda>a. NUL \<notin> set (al_name a)) as" for x as
    using that json_get_string_c [of x 0 "length x" "''name''" 64]
    by (auto simp: add_alias_def stored_no_nul split: prod.splits bool.splits)
  obtain s e where "se = (s, e)" by (cases se)
  then show ?thesis
    using Some json_each_object_inv [of "list_all (\<lambda>a. NUL \<notin> set (al_name a))" "[]"
        "\<lambda>as. length as < MAX_ALIASES" "\<lambda>os oe as. add_alias (range_dup obj os oe) as" obj e s] step
    by (simp add: parse_aliases_def)
qed (simp add: parse_aliases_def)

lemma add_system_c: "list_all alias_c ss \<Longrightarrow> list_all alias_c (add_system obj ss)"
  using json_get_string_c [of obj 0 "length obj" "''id''" 64] parse_aliases_c [of obj]
  by (auto simp: add_system_def parse_system_def fill_system_names_def alias_c_def Let_def)

lemma load_systems_c:
  assumes "load_systems w path = Some systems"
  shows "list_all alias_c systems"
proof -
  obtain json s e where j: "os_read w path = Some json" "json_find_array json 0 (length json) ''systems'' = Some (s, e)"
    using assms by (auto simp: load_systems_def split: option.splits)
  let ?l = "json_each_object json e s (\<lambda>ss. length ss < MAX_SYSTEMS) (\<lambda>os oe ss. add_system (range_dup json os oe) ss) []"
  have "list_all alias_c ?l"
    by (rule json_each_object_inv [of "list_all alias_c"]) (simp_all add: add_system_c)
  moreover have "systems = sort_by cmp_systems ?l" using assms j by (simp add: load_systems_def)
  ultimately show ?thesis by (simp add: list_all_iff)
qed

lemma stem_cut_c: "NUL \<notin> set s \<Longrightarrow> NUL \<notin> set (stem_cut n s)"
  by (auto simp: stem_cut_def Let_def dest: in_set_takeD)

lemma path_join_c: "NUL \<notin> set a \<Longrightarrow> NUL \<notin> set b \<Longrightarrow> NUL \<notin> set (path_join a b)"
  by (auto simp: path_join_def)

lemma child_facts:
  assumes "readdir_ok w" and "child_of w dir rel name p r" and "NUL \<notin> set rel"
  shows "NUL \<notin> set (path_basename p)" "NUL \<notin> set r"
proof -
  obtain names where n: "os_readdir w dir = Some names" "name \<in> set names"
    and p: "p = path_join dir name" and r: "child_relative rel name = Some r"
    using assms(2) by (auto simp: child_of_def fits_simps split: if_splits)
  have v: "valid_entry_name name" using assms(1) n by (auto simp: readdir_ok_def)
  then have "path_basename p = name" unfolding p by (intro path_basename_join) (auto simp: valid_entry_name_def)
  with v show "NUL \<notin> set (path_basename p)" by (simp add: valid_entry_name_def)
  have "NUL \<notin> set name" using v by (simp add: valid_entry_name_def)
  with assms(3) r show "NUL \<notin> set r"
    by (auto simp: child_relative_def fits_simps split: if_splits dest: path_join_c)
qed

lemma walk_finds_c:
  assumes "readdir_ok w"
  shows "walk_finds w ex sys filt dir rel p r \<Longrightarrow> NUL \<notin> set rel \<Longrightarrow> NUL \<notin> set (path_basename p) \<and> NUL \<notin> set r"
  by (induction rule: walk_finds.induct) (simp_all add: child_facts [OF assms])

lemma path_basename_idem: "NUL \<notin> set s \<Longrightarrow> NUL \<notin> set (path_basename s)"
  by (auto simp: path_basename_def split: option.splits dest: in_set_dropD)

lemma make_rom_c:
  assumes "NUL \<notin> set (path_basename p)" and "NUL \<notin> set r" and "NUL \<notin> set a"
  shows "rom_c_strings (make_rom w ctx s a p r)"
proof -
  let ?f = "stored 256 (path_basename p)"
  have f: "NUL \<notin> set ?f" using assms(1) by (rule stored_no_nul)
  have "NUL \<notin> set (stem_from_name 256 ?f)"
    unfolding stem_from_name_def by (rule stem_cut_c [OF path_basename_idem [OF f]])
  with f have t: "NUL \<notin> set (sr_title (make_rom w ctx s a p r))"
    by (simp add: make_rom_def Let_def stored_no_nul)
  have "NUL \<notin> set (alias_relative_path a r)"
    using assms by (auto simp: alias_relative_path_def append_string_def)
  then have "NUL \<notin> set (sr_relative_path (make_rom w ctx s a p r))"
    by (simp add: make_rom_def Let_def stored_no_nul)
  with t show ?thesis by (simp add: rom_c_strings_def)
qed

lemma listed_c:
  assumes "readdir_ok w" and "listed w ctx e" and "list_all alias_c (sc_systems ctx)"
  shows "rom_c_strings e"
proof -
  obtain s d filt dir p r where s: "s < length (sc_systems ctx)" and d: "d \<in> set (sy_aliases (sc_systems ctx ! s))"
    and f: "walk_finds w (sc_excluded ctx) (sc_systems ctx ! s) filt dir [] p r"
    and e: "e = make_rom w ctx s (al_name d) p r"
    using assms(2) unfolding listed_def by blast
  have "alias_c (sc_systems ctx ! s)" using assms(3) s by (simp add: list_all_length)
  with d have "NUL \<notin> set (al_name d)" by (simp add: alias_c_def list_all_iff)
  with walk_finds_c [OF assms(1) f] show ?thesis unfolding e by (intro make_rom_c) auto
qed

section \<open>The result of a scan\<close>

lemma scan_library_start:
  assumes "scan_library w opts clock = Some ctx"
  obtains systems excluded where "load_systems w (sa_systems_path opts) = Some systems"
    and "load_scan_excluded_directories w (sa_systems_path opts) = (True, excluded)"
    and "sc_systems ctx = systems"
    and "sc_roms ctx = sort_by cmp_rom_entries (sc_roms (scan_systems w (start_ctx (scan_sdcard_root w)
      (scan_plumos_root w) (sa_system_filter opts) (scan_resolves opts) systems excluded)))"
    and "sc_system_filter ctx = sa_system_filter opts"
    and "sc_thumbnails_found ctx = sc_thumbnails_found (scan_systems w (start_ctx (scan_sdcard_root w)
      (scan_plumos_root w) (sa_system_filter opts) (scan_resolves opts) systems excluded))"
proof -
  obtain systems excluded st where l: "load_systems w (sa_systems_path opts) = Some systems"
    and x: "load_scan_excluded_directories w (sa_systems_path opts) = (True, excluded)" and c: "ctx = (scan_systems w (start_ctx (scan_sdcard_root w) (scan_plumos_root w) (sa_system_filter opts)
      (scan_resolves opts) systems excluded))\<lparr>sc_roms := sort_by cmp_rom_entries (sc_roms (scan_systems w
      (start_ctx (scan_sdcard_root w) (scan_plumos_root w) (sa_system_filter opts) (scan_resolves opts) systems excluded))),
      sc_load_ms := fst st, sc_scan_ms := fst (snd st), sc_sort_ms := fst (snd (snd st)), sc_ready_ms := snd (snd (snd st))\<rparr>"
    using assms by (fastforce simp: scan_library_def Let_def split: option.splits prod.splits bool.splits)
  let ?start = "start_ctx (scan_sdcard_root w) (scan_plumos_root w) (sa_system_filter opts) (scan_resolves opts) systems excluded"
  have "extends ?start w (scan_systems w ?start)" by (rule extends_inv.inv_scan_systems) simp
  then show ?thesis using that [OF l x] c by (simp add: extends_def start_ctx_def)
qed

section \<open>Counting by system\<close>

lemma size_filter_list: "size (filter_mset P (mset xs)) = length (filter P xs)"
  by (metis mset_filter size_mset)

lemma sum_one: "distinct ss \<Longrightarrow> y \<in> set ss \<Longrightarrow> (\<Sum>s\<leftarrow>ss. if s = y then 1 else 0) = (1 :: nat)"
  by (simp add: sum_list_distinct_conv_sum_set)

lemma sum_counts:
  assumes "distinct ss" and "\<forall>x \<in> set xs. f x \<in> set ss"
  shows "sum_list (map (\<lambda>s. length (filter (\<lambda>x. f x = s) xs)) ss) = length xs"
  using assms(2)
proof (induction xs)
  case (Cons x xs)
  have "sum_list (map (\<lambda>s. length (filter (\<lambda>y. f y = s) (x # xs))) ss) =
      sum_list (map (\<lambda>s. (if s = f x then 1 else 0) + length (filter (\<lambda>y. f y = s) xs)) ss)"
    by (intro arg_cong [where f = sum_list] map_cong) auto
  also have "\<dots> = sum_list (map (\<lambda>s. if s = f x then 1 else 0) ss) +
      sum_list (map (\<lambda>s. length (filter (\<lambda>y. f y = s) xs)) ss)"
    by (simp add: sum_list_addf)
  also have "sum_list (map (\<lambda>s. if s = f x then 1 else 0) ss) = (1 :: nat)"
    using assms(1) Cons.prems by (intro sum_one) auto
  finally show ?case using Cons by simp
qed simp

section \<open>The exit status\<close>

lemma if_E: "(if b then x else y) = z \<Longrightarrow> (b \<Longrightarrow> x = z \<Longrightarrow> R) \<Longrightarrow> (\<not> b \<Longrightarrow> y = z \<Longrightarrow> R) \<Longrightarrow> R"
  by (cases b) simp_all

lemma parse_scan_args_exit: "parse_scan_args args opts = Inl n \<Longrightarrow> n = 0 \<or> n = 2"
proof (induction args opts rule: parse_scan_args.induct)
  case (2 a rest opts)
  note eq = parse_scan_args.simps(2) [of a rest opts]
  note ih = 2(1-6)
  show ?case
    using 2(7) unfolding eq
    by (elim if_E) ((rule ih; assumption) | (drule Inl_inject, simp))+
qed simp

lemma write_and_commit_done:
  assumes "fst (write_and_commit e path content d)"
  shows "last (d # snd (write_and_commit e path content d)) path = Some (arrived e content, True)"
  using assms
  by (auto simp: write_and_commit_def commit_temp_file_def Let_def last_map split: if_splits)

section \<open>Properties\<close>


text \<open>A card with one system.\<close>

definition demo_library_json :: string where
  \<open>demo_library_json = ''{"systems":[{"id":"p","directory_aliases":[{"name":"a"}],"extensions":["png"]}]}''\<close>

definition demo_library_os :: os where
  "demo_library_os = demo_os\<lparr>os_read := \<lambda>p. if p = ''s'' then Some demo_library_json else None\<rparr>"

definition demo_args :: scan_args where
  "demo_args = \<lparr>sa_systems_path = ''s'', sa_output_path = None, sa_system_filter = None, sa_on_enter = False,
     sa_resolve = True, sa_thumbs_explicit = False\<rparr>"

lemma demo_load_systems:
  "load_systems demo_library_os ''s'' = Some [\<lparr>sy_id = ''p'', sy_display_name = ''p'', sy_short_name = ''p'',
     sy_hardware = [], sy_sort_order = 10000, sy_enabled = True, sy_pinned = False, sy_scan_directories = False,
     sy_aliases = [\<lparr>al_name = ''a'', al_shared = False\<rparr>], sy_extensions = [''png''], sy_artwork = [],
     sy_launch_profiles = [], sy_default_launch_profile = []\<rparr>]"
  by code_simp

lemma demo_load_excluded: "load_scan_excluded_directories demo_library_os ''s'' = (True, [])"
  by code_simp

lemma demo_scan_library: "\<exists>ctx. scan_library demo_library_os demo_args (0, 1, 2, 3) = Some ctx"
  by (simp add: scan_library_def demo_args_def demo_load_systems demo_load_excluded Let_def)


text \<open>
  The counts in the index add up: the games counted for the selected systems are all the games, and their thumbnails
  all the thumbnails the summary counts.
\<close>

theorem index_counts_add_up:
  assumes "scan_library w opts clock = Some ctx"
  shows "sum_list (map (count_roms_for_system ctx)
      (filter (\<lambda>s. system_selected ctx (sc_systems ctx ! s)) [0..<length (sc_systems ctx)])) = length (sc_roms ctx) \<and>
    sum_list (map (count_thumbnails_for_system ctx)
      (filter (\<lambda>s. system_selected ctx (sc_systems ctx ! s)) [0..<length (sc_systems ctx)])) = sc_thumbnails_found ctx"
proof -
  obtain systems excluded where sys: "sc_systems ctx = systems"
    and r: "sc_roms ctx = sort_by cmp_rom_entries (sc_roms (scan_systems w (start_ctx (scan_sdcard_root w)
      (scan_plumos_root w) (sa_system_filter opts) (scan_resolves opts) systems excluded)))"
    and f: "sc_system_filter ctx = sa_system_filter opts"
    and t: "sc_thumbnails_found ctx = sc_thumbnails_found (scan_systems w (start_ctx (scan_sdcard_root w)
      (scan_plumos_root w) (sa_system_filter opts) (scan_resolves opts) systems excluded))"
    using scan_library_start [OF assms] by metis
  let ?start = "start_ctx (scan_sdcard_root w) (scan_plumos_root w) (sa_system_filter opts) (scan_resolves opts) systems excluded"
  let ?ss = "filter (\<lambda>s. system_selected ctx (sc_systems ctx ! s)) [0..<length (sc_systems ctx)]"
  have idx: "sr_system_index e \<in> set ?ss" if e: "e \<in> set (sc_roms ctx)" for e
  proof -
    have "e \<in> set (sc_roms (scan_systems w ?start))" using e r by simp
    from scan_systems_listed [OF this] have "listed w ?start e" by (auto simp: start_ctx_def)
    then have "sr_system_index e < length systems" "system_selected ?start (systems ! sr_system_index e)"
      unfolding listed_def by (auto simp: start_ctx_def)
    then show ?thesis using sys f by (simp add: system_selected_def start_ctx_def)
  qed
  have thumbs: "sc_thumbnails_found ctx = length (filter (\<lambda>r. sr_thumbnail r \<noteq> []) (sc_roms ctx))"
  proof -
    have "counters_ok w ?start" by (simp add: counters_ok_def start_ctx_def)
    from counter_inv.inv_scan_systems [OF this]
    have "sc_thumbnails_found ctx = size (filter_mset (\<lambda>r. sr_thumbnail r \<noteq> []) (mset (sc_roms (scan_systems w ?start))))"
      by (simp add: counters_ok_def t size_filter_list)
    also have "mset (sc_roms (scan_systems w ?start)) = mset (sc_roms ctx)" using r by simp
    finally show ?thesis by (simp add: size_filter_list)
  qed
  have "sum_list (map (\<lambda>s. length (filter (\<lambda>r. sr_system_index r = s) (sc_roms ctx))) ?ss) = length (sc_roms ctx)"
    by (rule sum_counts) (use idx in auto)
  moreover have "sum_list (map (\<lambda>s. length (filter (\<lambda>r. sr_system_index r = s)
      (filter (\<lambda>r. sr_thumbnail r \<noteq> []) (sc_roms ctx)))) ?ss) = sc_thumbnails_found ctx"
    unfolding thumbs by (rule sum_counts) (use idx in auto)
  ultimately show ?thesis
    by (simp add: count_roms_for_system_def [abs_def] count_thumbnails_for_system_def [abs_def] conj_commute)
qed

theorem index_counts_add_up_witness:
  "\<exists>ctx. scan_library demo_library_os demo_args (0, 1, 2, 3) = Some ctx \<and>
     sum_list (map (count_roms_for_system ctx)
       (filter (\<lambda>s. system_selected ctx (sc_systems ctx ! s)) [0..<length (sc_systems ctx)])) = length (sc_roms ctx)"
  using demo_scan_library index_counts_add_up by metis

text \<open>
  The index is replaced as a whole: at every point of writing it, a reader after a power loss finds the old index
  or what was printed, which is the complete new one when no write failed before the last flush, and no other file but the temporary one changes.
\<close>

theorem write_library_index_atomic:
  "list_all (\<lambda>d'. after_crash garbage d' path \<in> {after_crash garbage d path, Some (arrived e (library_index_text time ctx))} \<and>
      {q. after_crash garbage d' q \<noteq> after_crash garbage d q} \<subseteq> {path, path @ ''.tmp''})
    (d # snd (write_library_index e time ctx path d))"
proof (rule crash_states)
  show "list_all (\<lambda>d'. (d' path = d path \<or> d' path = Some (arrived e (library_index_text time ctx), True)) \<and>
      (\<forall>q. q = path \<or> q = path @ ''.tmp'' \<or> d' q = d q)) (d # snd (write_library_index e time ctx path d))"
    using write_and_commit_states [where path = path and d = d and content = "library_index_text time ctx" and e = e]
    by (auto simp: write_library_index_def split: prod.splits bool.splits)
qed

text \<open>
  C38: The order of the systems is right as long as their order numbers stay below two to the thirtieth: the loaded list is
  sorted by order number and then by identifier. Outside that range the difference the comparison
  returns can overflow: the smallest \<open>int\<close> sorts after one.
\<close>

theorem systems_sorted:
  assumes "load_systems w path = Some systems" and "\<forall>s \<in> set systems. \<bar>sy_sort_order s\<bar> < 2 ^ 30"
  shows "sorted_wrt (\<lambda>a b. sy_sort_order a < sy_sort_order b \<or>
      sy_sort_order a = sy_sort_order b \<and> strcmp (sy_id a) (sy_id b) \<le> 0) systems \<and>
    0 < cmp_systems (demo_scan_system\<lparr>sy_sort_order := - (2 ^ 31)\<rparr>) (demo_scan_system\<lparr>sy_sort_order := 1\<rparr>)"
proof -
  obtain l where l: "systems = sort_by cmp_systems l"
    using assms(1) by (auto simp: load_systems_def split: option.splits)
  have ok: "\<forall>s \<in> set l. sort_order_ok s"
    using load_systems_c [OF assms(1)] assms(2) l by (auto simp: sort_order_ok_def list_all_iff alias_c_def)
  have srt: "cmp_sorted cmp_systems systems" unfolding l by (rule system_order.sort_by_sorted [OF ok])
  have "sorted_wrt (\<lambda>a b. sy_sort_order a < sy_sort_order b \<or>
      sy_sort_order a = sy_sort_order b \<and> strcmp (sy_id a) (sy_id b) \<le> 0) systems"
    using srt unfolding cmp_sorted_def
    by (rule sorted_wrt_mono_rel [rotated]) (use assms(2) in \<open>auto simp: cmp_systems_def int_minus_small split: if_splits\<close>)
  then show ?thesis by (simp add: cmp_systems_def int_minus_def)
qed

theorem systems_sorted_witness:
  "\<exists>systems. load_systems demo_library_os ''s'' = Some systems \<and> length systems = 1 \<and>
     sorted_wrt (\<lambda>a b. sy_sort_order a < sy_sort_order b \<or>
       sy_sort_order a = sy_sort_order b \<and> strcmp (sy_id a) (sy_id b) \<le> 0) systems"
  using systems_sorted [OF demo_load_systems] by (simp add: demo_load_systems)

text \<open>
  The exit status of the scanner: 2 only for an unknown argument, and then nothing was written; 0 with files touched only
  when the index of a scan that succeeded is in place and synced.
\<close>

theorem scan_main_status:
  "case scan_main w e args clock time d of (status, states) \<Rightarrow>
     status \<in> {0, 1, 2} \<and>
     (status = 2 \<longleftrightarrow> parse_scan_args args (default_scan_args w) = Inl 2) \<and>
     (states = [] \<or> (\<exists>opts path ctx. parse_scan_args args (default_scan_args w) = Inr opts \<and>
        select_output w opts = Some path \<and> scan_library w opts clock = Some ctx \<and>
        (status = 1 \<or> status = 0 \<and> last (d # states) path = Some (arrived e (library_index_text time ctx), True))))"
proof (cases "parse_scan_args args (default_scan_args w)")
  case (Inl n)
  with parse_scan_args_exit [OF Inl] show ?thesis by (auto simp: scan_main_def)
next
  case (Inr opts)
  show ?thesis
  proof (cases "select_output w opts = None \<or> scan_library w opts clock = None")
    case True
    with Inr show ?thesis by (auto simp: scan_main_def split: option.splits)
  next
    case False
    then obtain path ctx where pc: "select_output w opts = Some path" "scan_library w opts clock = Some ctx" by auto
    obtain ok states where r: "write_library_index e time ctx path d = (ok, states)"
      by (cases "write_library_index e time ctx path d")
    have "last (d # states) path = Some (arrived e (library_index_text time ctx), True)" if ok
      using r that write_and_commit_done [of e path "library_index_text time ctx" d]
      by (auto simp: write_library_index_def split: prod.splits bool.splits if_splits)
    then show ?thesis using Inr pc r by (cases ok) (auto simp: scan_main_def)
  qed
qed

end
