(* ===== verification/TextShell.thy ===== *)
theory TextShell
  imports TextValid
begin

text \<open>
  Building shell command lines (\<open>append_shell_quoted\<close> and its users in
  \<open>src/frontend/plumos_text_ui.c\<close>), and what a POSIX shell makes of them: the lexer below splits the
  part of the shell language these command lines use into words and operators.
\<close>

section \<open>Quoting\<close>

fun append_quoted_loop :: "nat \<Rightarrow> string \<Rightarrow> string \<Rightarrow> bool \<times> string" where
  "append_quoted_loop n out [] = (True, out)"
| "append_quoted_loop n out (c # cs) =
     (let (ok, out') = append_string n out (if c = SQ then [SQ, BSL, SQ, SQ] else [c])
      in if ok then append_quoted_loop n out' cs else (False, out'))"

definition append_shell_quoted :: "nat \<Rightarrow> string \<Rightarrow> string \<Rightarrow> bool \<times> string" where
  "append_shell_quoted n out s =
     (let (ok1, out1) = append_string n out [SQ] in
      if \<not> ok1 then (False, out1)
      else let (ok2, out2) = append_quoted_loop n out1 s in
        if \<not> ok2 then (False, out2) else append_string n out2 [SQ])"

definition quote_char :: "char \<Rightarrow> string" where
  "quote_char c = (if c = SQ then [SQ, BSL, SQ, SQ] else [c])"

definition shell_quote :: "string \<Rightarrow> string" where
  "shell_quote s = SQ # concat (map quote_char s) @ [SQ]"

lemma append_quoted_loop_spec:
  "fst (append_quoted_loop n out s) \<longleftrightarrow> s = [] \<or> length out + length (concat (map quote_char s)) < n"
  "fst (append_quoted_loop n out s) \<Longrightarrow> snd (append_quoted_loop n out s) = out @ concat (map quote_char s)"
  by (induction n out s rule: append_quoted_loop.induct)
     (auto simp: append_string_def quote_char_def Let_def split: if_splits)

lemma append_shell_quoted_spec:
  "fst (append_shell_quoted n out s) \<longleftrightarrow> length out + length (shell_quote s) < n"
  "fst (append_shell_quoted n out s) \<Longrightarrow> snd (append_shell_quoted n out s) = out @ shell_quote s"
proof -
  let ?l = "append_quoted_loop n (out @ [SQ]) s"
  have "fst (append_shell_quoted n out s) \<longleftrightarrow> length out + length (shell_quote s) < n \<and>
      (fst (append_shell_quoted n out s) \<longrightarrow> snd (append_shell_quoted n out s) = out @ shell_quote s)"
    using append_quoted_loop_spec [of n "out @ [SQ]" s]
    by (cases ?l) (auto simp: append_shell_quoted_def append_string_def shell_quote_def Let_def)
  then show "fst (append_shell_quoted n out s) \<longleftrightarrow> length out + length (shell_quote s) < n"
    and "fst (append_shell_quoted n out s) \<Longrightarrow> snd (append_shell_quoted n out s) = out @ shell_quote s"
    using append_quoted_loop_spec [of n "out @ [SQ]" s]
    by (cases ?l, auto simp: append_shell_quoted_def append_string_def shell_quote_def Let_def)+
qed

interpretation app_quote: appender append_shell_quoted shell_quote
  by unfold_locales (auto simp: append_shell_quoted_spec)

section \<open>What the shell reads\<close>

text \<open>
  The shell's token recognition for unquoted text, single quotes and backslashes. Characters that
  start an expansion the command lines never use end the analysis with \<open>None\<close>.
\<close>

datatype sh_token = Word string | Op char

definition sh_operator :: "char \<Rightarrow> bool" where
  "sh_operator c \<longleftrightarrow> c \<in> set '';&|<>()'' \<or> c = NL"

definition sh_expands :: "char \<Rightarrow> bool" where
  "sh_expands c \<longleftrightarrow> c \<in> set ''$*?[]#~!{}'' \<or> c = DQ \<or> c = CHR 0x60"

definition sh_flush :: "string option \<Rightarrow> sh_token list" where
  "sh_flush w = (case w of Some x \<Rightarrow> [Word x] | None \<Rightarrow> [])"

abbreviation sh_add :: "string option \<Rightarrow> char \<Rightarrow> string option" where
  "sh_add w c \<equiv> Some ((case w of Some x \<Rightarrow> x | None \<Rightarrow> []) @ [c])"

fun sh_lex :: "bool \<Rightarrow> string option \<Rightarrow> string \<Rightarrow> sh_token list option" where
  "sh_lex inq w [] = (if inq then None else Some (sh_flush w))"
| "sh_lex True w (c # cs) = (if c = SQ then sh_lex False w cs else sh_lex True (sh_add w c) cs)"
| "sh_lex False w (c # cs) =
     (if c = SQ then sh_lex True (Some (case w of Some x \<Rightarrow> x | None \<Rightarrow> [])) cs
      else if c = BSL then (case cs of [] \<Rightarrow> None | d # ds \<Rightarrow> sh_lex False (sh_add w d) ds)
      else if c = CHR '' '' \<or> c = CHR 0x09 then map_option ((@) (sh_flush w)) (sh_lex False None cs)
      else if sh_operator c then map_option ((@) (sh_flush w @ [Op c])) (sh_lex False None cs)
      else if sh_expands c then None
      else sh_lex False (sh_add w c) cs)"

definition sh_words :: "string \<Rightarrow> sh_token list option" where
  "sh_words cmd = sh_lex False None cmd"

text \<open>Characters that stand for themselves outside quotes.\<close>

definition sh_ordinary :: "char \<Rightarrow> bool" where
  "sh_ordinary c \<longleftrightarrow> \<not> (c = SQ \<or> c = BSL \<or> c = CHR '' '' \<or> c = CHR 0x09 \<or> sh_operator c \<or> sh_expands c)"

lemma sh_lex_ordinary:
  "list_all sh_ordinary s \<Longrightarrow> s \<noteq> [] \<Longrightarrow>
     sh_lex False w (s @ r) = sh_lex False (Some ((case w of Some x \<Rightarrow> x | None \<Rightarrow> []) @ s)) r"
proof (induction s arbitrary: w)
  case (Cons c s)
  then show ?case by (cases "s = []") (simp_all add: sh_ordinary_def)
qed simp

lemma sh_lex_quote_body:
  "sh_lex True (Some w) (concat (map quote_char s) @ SQ # r) = sh_lex False (Some (w @ s)) r"
  by (induction s arbitrary: w) (auto simp: quote_char_def)

text \<open>A quoted string becomes part of the current word, whatever it contains.\<close>

lemma sh_lex_quoted:
  "sh_lex False w (shell_quote s @ r) =
     sh_lex False (Some ((case w of Some x \<Rightarrow> x | None \<Rightarrow> []) @ s)) r"
  by (simp add: shell_quote_def sh_lex_quote_body)

lemma sh_lex_space:
  "sh_lex False w (CHR '' '' # r) = map_option ((@) (sh_flush w)) (sh_lex False None r)"
  by (simp add: sh_operator_def)

lemmas sh_lex_steps = sh_lex_quoted sh_lex_space sh_flush_def

section \<open>The runtime's shell\<close>

text \<open>
  \<open>runtime_shell_path\<close>: a configured and executable busybox, \<open>/bin/sh\<close> on every device but the one
  named \<open>mf\<close>, and there one of two bundled copies.
\<close>

definition runtime_shell_path :: "os \<Rightarrow> string option" where
  "runtime_shell_path w =
     (let configured = os_getenv w ''PLUMOS_BUSYBOX'';
          plumos_root = os_getenv w ''PLUMOS_ROOT''
      in if configured \<noteq> None \<and> the configured \<noteq> [] \<and> os_access_x w (the configured)
           then configured
         else if os_getenv w ''PLUMOS_DEVICE_ID'' \<noteq> Some ''mf'' then Some ''/bin/sh''
         else if os_access_x w ''/mnt/SDCARD/.tmp_update/busybox''
           then Some ''/mnt/SDCARD/.tmp_update/busybox''
         else if plumos_root \<noteq> None \<and> the plumos_root \<noteq> [] \<and>
             length (the plumos_root @ ''/bin/busybox'') < PATH_MAX \<and>
             os_access_x w (the plumos_root @ ''/bin/busybox'')
           then Some (the plumos_root @ ''/bin/busybox'')
         else None)"

definition runtime_shell_is_busybox :: "string \<Rightarrow> bool" where
  "runtime_shell_is_busybox shell_path \<longleftrightarrow> shell_path \<noteq> [] \<and> path_basename shell_path = ''busybox''"

definition append_runtime_script_invocation :: "os \<Rightarrow> nat \<Rightarrow> string \<Rightarrow> string \<Rightarrow> bool \<times> string" where
  "append_runtime_script_invocation w n out script =
     (case runtime_shell_path w of
        None \<Rightarrow> (False, out)
      | Some shell_path \<Rightarrow>
          if script = [] then (False, out)
          else let (ok1, out1) = append_shell_quoted n out shell_path in
            if \<not> ok1 then (False, out1)
            else let (ok2, out2) = (if runtime_shell_is_busybox shell_path
                                    then append_string n out1 '' sh'' else (True, out1)) in
              if \<not> ok2 then (False, out2)
              else let (ok3, out3) = append_string n out2 '' '' in
                if \<not> ok3 then (False, out3) else append_shell_quoted n out3 script)"

text \<open>The argument vector with which \<open>run_runtime_shell_command\<close> executes a command line.\<close>

definition runtime_shell_argv :: "os \<Rightarrow> string \<Rightarrow> (string \<times> string list) option" where
  "runtime_shell_argv w cmd =
     (if cmd = [] then None
      else case runtime_shell_path w of
        None \<Rightarrow> None
      | Some shell_path \<Rightarrow>
          Some (shell_path,
            if runtime_shell_is_busybox shell_path then [shell_path, ''sh'', ''-c'', cmd]
            else [shell_path, ''-c'', cmd]))"

section \<open>Command lines as lists of pieces\<close>

text \<open>
  The C code chains bounded appends with \<open>&&\<close>; a piece is the argument of one of them. The whole
  chain succeeds when all the pieces fit.
\<close>

datatype piece = Raw string | Quoted string

fun append_piece :: "nat \<Rightarrow> string \<Rightarrow> piece \<Rightarrow> bool \<times> string" where
  "append_piece n out (Raw s) = append_string n out s"
| "append_piece n out (Quoted s) = append_shell_quoted n out s"

fun piece_text :: "piece \<Rightarrow> string" where
  "piece_text (Raw s) = s"
| "piece_text (Quoted s) = shell_quote s"

fun append_pieces :: "nat \<Rightarrow> string \<Rightarrow> piece list \<Rightarrow> bool \<times> string" where
  "append_pieces n out [] = (True, out)"
| "append_pieces n out (p # ps) =
     (let (ok, out') = append_piece n out p in if ok then append_pieces n out' ps else (False, out'))"

interpretation app_piece: appender append_piece piece_text
proof unfold_locales
  show "fst (append_piece n b x) \<longleftrightarrow> length b + length (piece_text x) < n" for n b x
    by (cases x) (auto simp: append_shell_quoted_spec append_string_fst)
  show "snd (append_piece n b x) = b @ piece_text x" if "fst (append_piece n b x)" for n b x
    using that by (cases x) (auto simp: append_shell_quoted_spec app_str.app_result)
qed

lemma append_pieces_result:
  "append_pieces n out ps = (True, r) \<Longrightarrow> r = out @ concat (map piece_text ps) \<and> (ps \<noteq> [] \<longrightarrow> length r < n)"
proof (induction n out ps arbitrary: r rule: append_pieces.induct)
  case (2 n out p ps)
  show ?case
  proof (cases "fst (append_piece n out p)")
    case True
    then have eq: "append_piece n out p = (True, out @ piece_text p)" and len: "length (out @ piece_text p) < n"
      using app_piece.app_fits [of n out p] app_piece.app_eq [of out p n] by auto
    with "2.prems" have "append_pieces n (out @ piece_text p) ps = (True, r)" by simp
    then have "r = (out @ piece_text p) @ concat (map piece_text ps) \<and> (ps \<noteq> [] \<longrightarrow> length r < n)"
      using "2.IH" eq by auto
    with len show ?thesis by (cases ps) auto
  qed (use "2.prems" in \<open>auto split: prod.splits\<close>)
qed simp

lemma append_pieces_fits:
  "length (out @ concat (map piece_text ps)) < n \<Longrightarrow>
     append_pieces n out ps = (True, out @ concat (map piece_text ps))"
proof (induction ps arbitrary: out)
  case (Cons p ps)
  then show ?case using app_piece.app_eq [of out p n] by simp
qed simp

section \<open>The library scanner's command line\<close>

definition scanner_pieces :: "string \<Rightarrow> string \<Rightarrow> string \<Rightarrow> string \<Rightarrow> bool \<Rightarrow> piece list" where
  "scanner_pieces plumos_root sdcard_root scanner system_id full_refresh =
     [Raw ''PLUMOS_SDCARD_ROOT='', Quoted sdcard_root, Raw '' PLUMOS_ROOT='', Quoted plumos_root,
      Raw '' '', Quoted scanner] @
     (if full_refresh then [] else [Raw '' --on-enter '', Quoted system_id]) @
     [Raw '' >/dev/null'']"

datatype scan_error = Scanner_Path_Too_Long | Scanner_Missing | Invalid_System_Id | Command_Too_Long
  | Scanner_Failed

text \<open>
  \<open>run_scanner\<close> up to the execution: the error it reports or the command line it runs. A full
  refresh is called with no system.
\<close>

definition scanner_command ::
    "os \<Rightarrow> string \<Rightarrow> string \<Rightarrow> string option \<Rightarrow> bool \<Rightarrow> scan_error + string" where
  "scanner_command w plumos_root sdcard_root system_id full_refresh =
     (case join_path PATH_MAX plumos_root ''bin/plumos-library-scan'' of
        (False, _) \<Rightarrow> Inl Scanner_Path_Too_Long
      | (True, scanner) \<Rightarrow>
          if \<not> file_exists w scanner then Inl Scanner_Missing
          else if (case system_id of Some s \<Rightarrow> \<not> valid_system_id s | None \<Rightarrow> False)
            then Inl Invalid_System_Id
          else case append_pieces (PATH_MAX * 3) []
              (scanner_pieces plumos_root sdcard_root scanner
                (case system_id of Some s \<Rightarrow> s | None \<Rightarrow> []) full_refresh) of
            (False, _) \<Rightarrow> Inl Command_Too_Long
          | (True, cmd) \<Rightarrow> Inr cmd)"

definition run_scanner ::
    "os \<Rightarrow> (string \<Rightarrow> nat option) \<Rightarrow> string \<Rightarrow> string \<Rightarrow> string option \<Rightarrow> bool \<Rightarrow> scan_error + unit" where
  "run_scanner w exit_status plumos_root sdcard_root system_id full_refresh =
     (case scanner_command w plumos_root sdcard_root system_id full_refresh of
        Inl e \<Rightarrow> Inl e
      | Inr cmd \<Rightarrow> if exit_status cmd = Some 0 then Inr () else Inl Scanner_Failed)"

section \<open>Flags from the environment\<close>

definition env_flag_disabled :: "os \<Rightarrow> string \<Rightarrow> bool" where
  "env_flag_disabled w name =
     (case os_getenv w name of
        None \<Rightarrow> False
      | Some v \<Rightarrow> v \<noteq> [] \<and>
          v \<in> set [''0'', ''false'', ''False'', ''no'', ''No'', ''off'', ''Off''])"

section \<open>Properties\<close>

text \<open>
  Quoting is safe and exact. When \<open>append_shell_quoted\<close> succeeds, a POSIX shell that reads the
  buffer reads the quoted text back character for character as part of one word, whatever
  characters it holds (quotes, newlines, operators, expansions), and goes on after it in the state
  it would be in after that word.
\<close>

theorem append_shell_quoted_is_one_word:
  assumes "append_shell_quoted n out s = (True, r)"
  shows "length r < n \<and> r = out @ shell_quote s \<and>
    (\<forall>w rest. sh_lex False w (shell_quote s @ rest) =
       sh_lex False (Some ((case w of Some x \<Rightarrow> x | None \<Rightarrow> []) @ s)) rest) \<and>
    sh_words (shell_quote s) = Some [Word s]"
proof -
  have "length r < n" and "r = out @ shell_quote s"
    using app_quote.app_bound [of n out s] app_quote.app_result [of n out s] assms by auto
  moreover have "sh_words (shell_quote s) = Some [Word s]"
    using sh_lex_quoted [of None s "[]"] by (simp add: sh_words_def sh_flush_def)
  ultimately show ?thesis by (simp add: sh_lex_quoted)
qed

theorem append_shell_quoted_is_one_word_witness:
  "append_shell_quoted 32 [] ''a'b;c'' = (True, shell_quote ''a'b;c'') \<and>
   sh_words (shell_quote ''a'b;c'') = Some [Word ''a'b;c'']"
proof -
  have r: "append_shell_quoted 32 [] ''a'b;c'' = (True, shell_quote ''a'b;c'')"
    by (simp add: append_shell_quoted_def append_string_def shell_quote_def quote_char_def)
  with append_shell_quoted_is_one_word [OF r] show ?thesis by simp
qed

text \<open>
  The scanner's command line can not be bent by the paths and names put into it. Whatever the
  two roots hold, the shell sees exactly two assignments, the scanner's path, the option with the
  system's identifier on a partial scan, and the redirection; and with a name for the system the
  command is only built when the name is a plain identifier.
\<close>

theorem scanner_command_words:
  assumes "scanner_command w root sd sid full = Inr cmd"
  shows "\<exists>scanner. join_path PATH_MAX root ''bin/plumos-library-scan'' = (True, scanner) \<and>
    length cmd < PATH_MAX * 3 \<and> (\<forall>s. sid = Some s \<longrightarrow> valid_system_id s) \<and>
    sh_words cmd = Some
      ([Word (''PLUMOS_SDCARD_ROOT='' @ sd), Word (''PLUMOS_ROOT='' @ root), Word scanner] @
       (if full then [] else [Word ''--on-enter'', Word (case sid of Some s \<Rightarrow> s | None \<Rightarrow> [])]) @
       [Op CHR ''>'', Word ''/dev/null''])"
proof -
  obtain scanner where sc: "join_path PATH_MAX root ''bin/plumos-library-scan'' = (True, scanner)"
    and ok: "\<forall>s. sid = Some s \<longrightarrow> valid_system_id s"
    and app: "append_pieces (PATH_MAX * 3) [] (scanner_pieces root sd scanner
       (case sid of Some s \<Rightarrow> s | None \<Rightarrow> []) full) = (True, cmd)"
    using assms by (auto simp: scanner_command_def split: prod.splits bool.splits if_splits option.splits)
  note r = append_pieces_result [OF app]
  have cmd: "cmd = ''PLUMOS_SDCARD_ROOT='' @ shell_quote sd @ '' PLUMOS_ROOT='' @
      shell_quote root @ '' '' @ shell_quote scanner @
      (if full then [] else '' --on-enter '' @ shell_quote (case sid of Some s \<Rightarrow> s | None \<Rightarrow> [])) @
      '' >/dev/null''"
    using r by (simp add: scanner_pieces_def)
  have "sh_words cmd = Some
      ([Word (''PLUMOS_SDCARD_ROOT='' @ sd), Word (''PLUMOS_ROOT='' @ root), Word scanner] @
       (if full then [] else [Word ''--on-enter'', Word (case sid of Some s \<Rightarrow> s | None \<Rightarrow> [])]) @
       [Op CHR ''>'', Word ''/dev/null''])"
    unfolding sh_words_def cmd
    by (simp add: sh_operator_def sh_expands_def sh_lex_quoted sh_flush_def)
  with sc ok r show ?thesis by (auto simp: scanner_pieces_def)
qed

definition demo_scan_os :: os where
  "demo_scan_os = demo_os\<lparr>os_stat := \<lambda>p. if p = ''/p/bin/plumos-library-scan'' then Some (Regular, 1, 9) else None\<rparr>"

theorem scanner_command_words_witness:
  "\<exists>cmd. scanner_command demo_scan_os ''/p'' ''/s;d'' (Some ''nes'') False = Inr cmd \<and>
     sh_words cmd = Some [Word ''PLUMOS_SDCARD_ROOT=/s;d'', Word ''PLUMOS_ROOT=/p'',
       Word ''/p/bin/plumos-library-scan'', Word ''--on-enter'', Word ''nes'', Op CHR ''>'', Word ''/dev/null'']"
proof -
  have j: "join_path PATH_MAX ''/p'' ''bin/plumos-library-scan'' = (True, ''/p/bin/plumos-library-scan'')"
    by (simp add: join_path_eq path_join_def PATH_MAX_def)
  have f: "append_pieces (PATH_MAX * 3) [] ps = (True, concat (map piece_text ps))"
    if "length (concat (map piece_text ps)) < PATH_MAX * 3" for ps
    using append_pieces_fits [of "[]" ps "PATH_MAX * 3"] that by simp
  have "append_pieces (PATH_MAX * 3) []
      (scanner_pieces ''/p'' ''/s;d'' ''/p/bin/plumos-library-scan'' ''nes'' False) =
     (True, concat (map piece_text (scanner_pieces ''/p'' ''/s;d'' ''/p/bin/plumos-library-scan'' ''nes'' False)))"
    by (rule f) (simp add: scanner_pieces_def shell_quote_def quote_char_def PATH_MAX_def)
  then have r: "\<exists>cmd. scanner_command demo_scan_os ''/p'' ''/s;d'' (Some ''nes'') False = Inr cmd"
    using j by (auto simp: scanner_command_def file_exists_def demo_scan_os_def valid_system_id_def ctype_simps)
  then obtain cmd where c: "scanner_command demo_scan_os ''/p'' ''/s;d'' (Some ''nes'') False = Inr cmd" ..
  from scanner_command_words [OF c] j show ?thesis using c by auto
qed

end
