(* ===== verification/TextPlan.thy ===== *)
theory TextPlan
  imports TextShell TextOverrides
begin

text \<open>
  From a resolved profile to a command line: \<open>build_launch_plan\<close> of \<open>src/frontend/plumos_text_ui.c\<close> and its
  helpers, the choice whether the hotkey daemon runs beside the emulator, and how it is stopped.
\<close>

section \<open>State\<close>

record launch_plan =
  lp_kind :: string
  lp_system_id :: string
  lp_relative_path :: string
  lp_title :: string
  lp_rom_path :: string
  lp_launch_profile :: string
  lp_cpu_policy :: string
  lp_retroarch_path :: string
  lp_standalone_launcher_path :: string
  lp_pyxel_launcher_path :: string
  lp_picoarch_launcher_path :: string
  lp_core_path :: string
  lp_config_path :: string
  lp_command :: string
  lp_options :: retroarch_runtime_options
  lp_auto_state_load :: bool
  lp_rom_exists :: bool
  lp_runtime_exists :: bool
  lp_core_exists :: bool
  lp_can_execute :: bool

section \<open>Cores and launchers\<close>

text \<open>A path that is built and names a regular file.\<close>

definition root_file_exists :: "os \<Rightarrow> string \<Rightarrow> string \<Rightarrow> bool" where
  "root_file_exists w plumos_root name =
     (case join_path PATH_MAX plumos_root name of (ok, path) \<Rightarrow> ok \<and> file_exists w path)"

definition build_retroarch_core_path :: "nat \<Rightarrow> string \<Rightarrow> string \<Rightarrow> bool \<times> string" where
  "build_retroarch_core_path n plumos_root core_id =
     (let file_name = core_id @ ''_libretro.so'' in
      if 256 \<le> length file_name then (False, [])
      else let (ok, cores_dir) = join_path PATH_MAX plumos_root ''cores''
           in if \<not> ok then (False, []) else join_path n cores_dir file_name)"

definition retroarch_mmf_runtime_enabled :: "os \<Rightarrow> string \<Rightarrow> bool" where
  "retroarch_mmf_runtime_enabled w plumos_root \<longleftrightarrow>
     root_file_exists w plumos_root ''config/enable-mmf-ra-runtime'' \<or>
     root_file_exists w plumos_root ''config/enable-mmf-onion-compatible-ra''"

definition retroarch_mmf_launcher_exists :: "os \<Rightarrow> string \<Rightarrow> bool" where
  "retroarch_mmf_launcher_exists w plumos_root \<longleftrightarrow>
     root_file_exists w plumos_root ''bin/plumos-retroarch-mmf-launch'' \<or>
     root_file_exists w plumos_root ''bin/plumos-retroarch-onion-launch''"

definition picoarch_onion_compat_enabled :: "os \<Rightarrow> string \<Rightarrow> bool" where
  "picoarch_onion_compat_enabled w plumos_root \<longleftrightarrow>
     root_file_exists w plumos_root ''config/enable-mmf-emulator-runtime'' \<or>
     root_file_exists w plumos_root ''config/enable-mmf-onion-compatible-emulators''"

definition picoarch_onion_launcher_exists :: "os \<Rightarrow> string \<Rightarrow> bool" where
  "picoarch_onion_launcher_exists w plumos_root \<longleftrightarrow>
     root_file_exists w plumos_root ''bin/plumos-picoarch-onion-launch'' \<and>
     root_file_exists w plumos_root ''bin/plumos-picoarch-launch.noncompat''"

definition build_picoarch_core_path :: "os \<Rightarrow> nat \<Rightarrow> string \<Rightarrow> string \<Rightarrow> bool \<times> string" where
  "build_picoarch_core_path w n plumos_root core_id =
     (let file_name = core_id @ ''_libretro.so'' in
      if 256 \<le> length file_name then (False, [])
      else case join_path PATH_MAX plumos_root ''picoarch/cores'' of
        (False, _) \<Rightarrow> (False, [])
      | (True, cores_dir) \<Rightarrow>
          (case join_path PATH_MAX cores_dir file_name of
             (False, _) \<Rightarrow> (False, [])
           | (True, pico_path) \<Rightarrow>
               if file_exists w pico_path then copy_string n pico_path
               else (case build_retroarch_core_path PATH_MAX plumos_root core_id of
                  (ok, retro_path) \<Rightarrow>
                    if ok \<and> file_exists w retro_path then copy_string n retro_path
                    else copy_string n pico_path)))"

definition standalone_content_path_for_emulator :: "string \<Rightarrow> string \<Rightarrow> string" where
  "standalone_content_path_for_emulator emulator_id path =
     (if emulator_id \<noteq> ''easyrpg'' then path
      else if path_extension_lower 32 path = (True, ''ldb'') \<and> fst (dirname_path PATH_MAX path)
      then snd (dirname_path PATH_MAX path)
      else path)"

text \<open>
  \<open>apply_picoarch_adapter_cpu_defaults\<close>: with the adapter, a policy that is only the system's default
  is left to the launcher.
\<close>

definition apply_picoarch_adapter_cpu_defaults :: "os \<Rightarrow> string \<Rightarrow> string \<Rightarrow> string \<Rightarrow> string \<Rightarrow> string" where
  "apply_picoarch_adapter_cpu_defaults w plumos_root launch_profile cpu_policy cpu_source =
     (if \<not> strncmp_eq launch_profile ''picoarch:'' 9 \<or> \<not> picoarch_onion_compat_enabled w plumos_root
      then cpu_policy
      else if cpu_source = ''plumOS default'' then [] else cpu_policy)"

section \<open>Command lines with a script\<close>

datatype part = Piece piece | Script string

fun append_part :: "os \<Rightarrow> nat \<Rightarrow> string \<Rightarrow> part \<Rightarrow> bool \<times> string" where
  "append_part w n out (Piece p) = append_piece n out p"
| "append_part w n out (Script s) = append_runtime_script_invocation w n out s"

fun append_parts :: "os \<Rightarrow> nat \<Rightarrow> string \<Rightarrow> part list \<Rightarrow> bool \<times> string" where
  "append_parts w n out [] = (True, out)"
| "append_parts w n out (p # ps) =
     (let (ok, out') = append_part w n out p in if ok then append_parts w n out' ps else (False, out'))"

abbreviation raw :: "string \<Rightarrow> part" where "raw s \<equiv> Piece (Raw s)"
abbreviation quoted :: "string \<Rightarrow> part" where "quoted s \<equiv> Piece (Quoted s)"

definition opt_part :: "string \<Rightarrow> string \<Rightarrow> part list" where
  "opt_part flag v = (if v \<noteq> [] then [raw flag, quoted v] else [])"

definition cpu_prefix :: "string \<Rightarrow> string \<Rightarrow> part list" where
  "cpu_prefix var policy = (if policy \<noteq> [] then [raw var, quoted policy, raw '' ''] else [])"

section \<open>The plan\<close>

definition plan_base ::
    "os \<Rightarrow> string \<Rightarrow> string \<Rightarrow> string \<Rightarrow> string \<Rightarrow> string \<Rightarrow> string \<Rightarrow> retroarch_runtime_options option \<Rightarrow> bool \<Rightarrow> launch_plan" where
  "plan_base w system_id relative_path title path launch_profile cpu_policy options auto_state_load =
     \<lparr>lp_kind = [], lp_system_id = stored 64 system_id, lp_relative_path = stored TEXT_PATH_MAX relative_path,
      lp_title = stored 256 (if title \<noteq> [] then title else relative_path),
      lp_rom_path = stored TEXT_PATH_MAX path, lp_launch_profile = stored 128 launch_profile,
      lp_cpu_policy = (if cpu_policy \<noteq> [] then stored 32 cpu_policy else []),
      lp_retroarch_path = [], lp_standalone_launcher_path = [], lp_pyxel_launcher_path = [],
      lp_picoarch_launcher_path = [], lp_core_path = [], lp_config_path = [], lp_command = [],
      lp_options = (case options of Some v \<Rightarrow> v
        | None \<Rightarrow> \<lparr>opt_audio_driver = [], opt_audio_latency_ms = 0, opt_force60fps = [], opt_cycles = []\<rparr>),
      lp_auto_state_load = auto_state_load,
      lp_rom_exists = rom_path_exists w (stored TEXT_PATH_MAX path),
      lp_runtime_exists = False, lp_core_exists = False, lp_can_execute = False\<rparr>"

text \<open>A launcher in the \<open>bin\<close> directory: two joins, each of which may not fit.\<close>

definition bin_path :: "string \<Rightarrow> string \<Rightarrow> string option" where
  "bin_path plumos_root name =
     (case ok_opt (join_path PATH_MAX plumos_root ''bin'') of
        None \<Rightarrow> None
      | Some dir \<Rightarrow> ok_opt (join_path TEXT_PATH_MAX dir name))"

definition with_command :: "os \<Rightarrow> part list \<Rightarrow> (launch_plan \<Rightarrow> bool) \<Rightarrow> launch_plan \<Rightarrow> launch_plan option" where
  "with_command w parts can plan =
     (case append_parts w TEXT_COMMAND_MAX [] parts of
        (False, _) \<Rightarrow> None
      | (True, cmd) \<Rightarrow> Some (plan\<lparr>lp_command := cmd, lp_can_execute := can plan\<rparr>))"

definition retroarch_parts :: "string \<Rightarrow> launch_plan \<Rightarrow> part list" where
  "retroarch_parts system_id plan =
     [Script (lp_retroarch_path plan), raw '' --system '', quoted system_id,
      raw '' --core '', quoted (lp_core_path plan), raw '' --rom '', quoted (lp_rom_path plan)] @
     opt_part '' --cpu '' (lp_cpu_policy plan) @
     opt_part '' --audio '' (opt_audio_driver (lp_options plan)) @
     (if 0 < opt_audio_latency_ms (lp_options plan)
      then [raw '' --audio-latency '', quoted (show_int (opt_audio_latency_ms (lp_options plan)))] else []) @
     opt_part '' --dosbox-pure-force60fps '' (opt_force60fps (lp_options plan)) @
     opt_part '' --dosbox-pure-cycles '' (opt_cycles (lp_options plan)) @
     [raw '' --safe-exit false'']"

definition plan_retroarch :: "os \<Rightarrow> string \<Rightarrow> string \<Rightarrow> string \<Rightarrow> launch_plan \<Rightarrow> launch_plan option" where
  "plan_retroarch w plumos_root system_id core_id plan =
     (case (bin_path plumos_root ''plumos-retroarch-launch'',
            ok_opt (join_path TEXT_PATH_MAX plumos_root ''config/retroarch/v90s-powervr-quicknes.cfg''),
            ok_opt (build_retroarch_core_path TEXT_PATH_MAX plumos_root core_id)) of
        (Some launcher, Some config, Some core) \<Rightarrow>
          let plan = plan\<lparr>lp_kind := ''retroarch'', lp_retroarch_path := launcher, lp_config_path := config,
                lp_core_path := core,
                lp_runtime_exists := (file_exists w launcher \<and>
                  (retroarch_mmf_runtime_enabled w plumos_root \<longrightarrow> retroarch_mmf_launcher_exists w plumos_root)),
                lp_core_exists := file_exists w core\<rparr>
          in with_command w (retroarch_parts system_id plan)
               (\<lambda>p. lp_runtime_exists p \<and> lp_core_exists p \<and> lp_rom_exists p) plan
      | _ \<Rightarrow> None)"

definition pyxel_launcher :: "string \<Rightarrow> string option" where
  "pyxel_launcher pyxel_profile =
     (if pyxel_profile = ''bubble'' then Some ''plumos-pyxel-bubble-launch''
      else if pyxel_profile = ''mf'' then Some ''plumos-pyxel-mf-launch''
      else if pyxel_profile = ''a30'' then Some ''plumos-pyxel-a30-launch''
      else if pyxel_profile = ''mmf'' then Some ''plumos-pyxel-mmf-launch''
      else if pyxel_profile = [] \<or> pyxel_profile = ''v90s'' then Some ''plumos-pyxel-v90s-launch''
      else None)"

definition pyxel_command :: "string \<Rightarrow> string option" where
  "pyxel_command path =
     (case ok_opt (path_extension_lower 32 path) of
        None \<Rightarrow> None
      | Some extension \<Rightarrow>
          if extension = ''pyxapp'' then Some ''play''
          else if extension = ''py'' then Some ''run''
          else None)"

definition plan_pyxel :: "os \<Rightarrow> string \<Rightarrow> string \<Rightarrow> launch_plan \<Rightarrow> launch_plan option" where
  "plan_pyxel w plumos_root pyxel_profile plan =
     (let plan = plan\<lparr>lp_kind := ''pyxel''\<rparr> in
      case pyxel_launcher pyxel_profile of
        None \<Rightarrow> Some (plan\<lparr>lp_can_execute := False\<rparr>)
      | Some name \<Rightarrow>
          (case bin_path plumos_root name of
             None \<Rightarrow> None
           | Some launcher \<Rightarrow>
               let plan = plan\<lparr>lp_pyxel_launcher_path := launcher,
                     lp_runtime_exists := file_exists w launcher, lp_core_exists := True\<rparr>
               in case pyxel_command (lp_rom_path plan) of
                    None \<Rightarrow> Some (plan\<lparr>lp_can_execute := False\<rparr>)
                  | Some cmd \<Rightarrow>
                      with_command w
                        (cpu_prefix ''PLUMOS_PYXEL_CPU_POLICY='' (lp_cpu_policy plan) @
                         [Script launcher, raw '' -m pyxel '', raw cmd, raw '' '', quoted (lp_rom_path plan)])
                        (\<lambda>p. lp_runtime_exists p \<and> lp_rom_exists p) plan))"

definition plan_picoarch :: "os \<Rightarrow> string \<Rightarrow> string \<Rightarrow> string \<Rightarrow> launch_plan \<Rightarrow> launch_plan option" where
  "plan_picoarch w plumos_root system_id core_id plan =
     (if core_id = [] then None
      else case (bin_path plumos_root ''plumos-picoarch-launch'',
            ok_opt (build_picoarch_core_path w TEXT_PATH_MAX plumos_root core_id)) of
        (Some launcher, Some core) \<Rightarrow>
          let plan = plan\<lparr>lp_kind := ''picoarch'', lp_picoarch_launcher_path := launcher, lp_core_path := core,
                lp_runtime_exists := (file_exists w launcher \<and>
                  (picoarch_onion_compat_enabled w plumos_root \<longrightarrow> picoarch_onion_launcher_exists w plumos_root)),
                lp_core_exists := file_exists w core\<rparr>
          in with_command w
               (cpu_prefix ''PLUMOS_PICOARCH_CPU_POLICY='' (lp_cpu_policy plan) @
                [raw ''PLUMOS_PICOARCH_SYSTEM='', quoted system_id, raw '' '', Script launcher,
                 raw '' '', quoted core_id, raw '' '', quoted (lp_rom_path plan)])
               (\<lambda>p. lp_runtime_exists p \<and> lp_core_exists p \<and> lp_rom_exists p) plan
      | _ \<Rightarrow> None)"

definition plan_standalone :: "os \<Rightarrow> string \<Rightarrow> string \<Rightarrow> launch_plan \<Rightarrow> launch_plan option" where
  "plan_standalone w plumos_root emulator_id plan =
     (if emulator_id = [] then None
      else case bin_path plumos_root ''plumos-standalone-launch'' of
        None \<Rightarrow> None
      | Some launcher \<Rightarrow>
          let plan = plan\<lparr>lp_kind := ''standalone'', lp_standalone_launcher_path := launcher,
                lp_runtime_exists := file_exists w launcher, lp_core_exists := True\<rparr>
          in with_command w
               (cpu_prefix ''PLUMOS_STANDALONE_CPU_POLICY='' (lp_cpu_policy plan) @
                [Script launcher, raw '' '', quoted emulator_id, raw '' '',
                 quoted (standalone_content_path_for_emulator emulator_id (lp_rom_path plan))])
               (\<lambda>p. lp_runtime_exists p \<and> lp_rom_exists p) plan)"

definition plan_external :: "os \<Rightarrow> string \<Rightarrow> string \<Rightarrow> launch_plan \<Rightarrow> launch_plan option" where
  "plan_external w plumos_root launch_profile plan =
     (let plan = plan\<lparr>lp_kind := ''external'', lp_core_exists := True\<rparr> in
      if launch_profile = ''external:port'' then
        (case ok_opt (join_path PATH_MAX plumos_root ''bin/plumos-portmaster-port-launch'') of
           None \<Rightarrow> None
         | Some launcher \<Rightarrow>
             let plan = plan\<lparr>lp_runtime_exists := file_exists w launcher\<rparr>
             in with_command w [Script launcher, raw '' '', quoted (lp_rom_path plan)]
                  (\<lambda>p. lp_runtime_exists p \<and> lp_rom_exists p) plan)
      else with_command w [Script (lp_rom_path plan)] lp_rom_exists (plan\<lparr>lp_runtime_exists := True\<rparr>))"

definition build_launch_plan ::
    "os \<Rightarrow> string \<Rightarrow> string \<Rightarrow> string \<Rightarrow> string \<Rightarrow> string \<Rightarrow> string \<Rightarrow> string \<Rightarrow> retroarch_runtime_options option \<Rightarrow>
     bool \<Rightarrow> launch_plan option" where
  "build_launch_plan w plumos_root system_id relative_path title path launch_profile cpu_policy options auto_state_load =
     (let plan = plan_base w system_id relative_path title path launch_profile cpu_policy options auto_state_load
      in if strncmp_eq launch_profile ''retroarch:'' 10
           then plan_retroarch w plumos_root system_id (drop 10 launch_profile) plan
         else if strncmp_eq launch_profile ''pyxel:'' 6
           then plan_pyxel w plumos_root (drop 6 launch_profile) plan
         else if strncmp_eq launch_profile ''picoarch:'' 9
           then plan_picoarch w plumos_root system_id (drop 9 launch_profile) plan
         else if strncmp_eq launch_profile ''standalone:'' 11
           then plan_standalone w plumos_root (drop 11 launch_profile) plan
         else if strncmp_eq launch_profile ''external:'' 9
           then plan_external w plumos_root launch_profile plan
         else Some (plan\<lparr>lp_kind := (if strncmp_eq launch_profile ''internal:'' 9 then ''internal'' else ''unknown''),
                lp_can_execute := False\<rparr>))"

section \<open>Words of a command line\<close>

fun part_plain :: "part \<Rightarrow> bool" where
  "part_plain (Piece (Raw s)) \<longleftrightarrow> list_all (\<lambda>c. sh_ordinary c \<or> c = CHR '' '') s"
| "part_plain (Piece (Quoted s)) \<longleftrightarrow> True"
| "part_plain (Script s) \<longleftrightarrow> True"

fun raw_words :: "string option \<Rightarrow> string \<Rightarrow> string list \<times> string option" where
  "raw_words v [] = ([], v)"
| "raw_words v (c # cs) =
     (if c = CHR '' ''
      then (case raw_words None cs of (ws, v') \<Rightarrow> ((case v of Some x \<Rightarrow> [x] | None \<Rightarrow> []) @ ws, v'))
      else raw_words (sh_add v c) cs)"

text \<open>The words that are complete after a part, and the word that is being read.\<close>

fun part_words :: "os \<Rightarrow> string option \<Rightarrow> part \<Rightarrow> string list \<times> string option" where
  "part_words w v (Piece (Raw s)) = raw_words v s"
| "part_words w v (Piece (Quoted s)) = ([], Some ((case v of Some x \<Rightarrow> x | None \<Rightarrow> []) @ s))"
| "part_words w v (Script s) =
     (case runtime_shell_path w of
        None \<Rightarrow> ([], v)
      | Some sh \<Rightarrow>
          (((case v of Some x \<Rightarrow> x | None \<Rightarrow> []) @ sh) #
          (if runtime_shell_is_busybox sh then [''sh''] else []), Some s))"

fun parts_words :: "os \<Rightarrow> string option \<Rightarrow> part list \<Rightarrow> string list" where
  "parts_words w v [] = (case v of Some x \<Rightarrow> [x] | None \<Rightarrow> [])"
| "parts_words w v (p # ps) = (case part_words w v p of (ws, v') \<Rightarrow> ws @ parts_words w v' ps)"

lemma sh_ordinary_lex:
  "sh_ordinary c \<Longrightarrow> sh_lex False v (c # r) = sh_lex False (sh_add v c) r"
  by (simp add: sh_ordinary_def)

lemma raw_words_lex:
  "list_all (\<lambda>c. sh_ordinary c \<or> c = CHR '' '') s \<Longrightarrow> raw_words v s = (ws, v') \<Longrightarrow>
     sh_lex False v (s @ r) = map_option ((@) (map Word ws)) (sh_lex False v' r)"
proof (induction v s arbitrary: ws rule: raw_words.induct)
  case (1 v)
  then show ?case by (simp add: option.map_id0 id_def) (metis append_Nil option.map_ident)
next
  case (2 v c cs)
  show ?case
  proof (cases "c = CHR '' ''")
    case True
    with 2 obtain us where "raw_words None cs = (us, v')" "ws = (case v of Some x \<Rightarrow> [x] | None \<Rightarrow> []) @ us"
      by (auto split: prod.splits)
    with True 2 show ?thesis
      by (auto simp: sh_lex_space sh_flush_def option.map_comp o_def split: option.splits)
  next
    case False
    with 2 show ?thesis by (simp add: sh_ordinary_lex del: sh_lex.simps)
  qed
qed

text \<open>A chain of parts that was appended is read back as its words.\<close>

lemma append_part_lex:
  assumes "append_part w n out p = (True, out')" and "part_plain p" and "part_words w v p = (ws, v')"
  shows "\<exists>t. out' = out @ t \<and> (\<forall>r. sh_lex False v (t @ r) = map_option ((@) (map Word ws)) (sh_lex False v' r))"
proof -
  have id: "map_option ((@) []) x = x" for x :: "sh_token list option" by (cases x) auto
  have q: "append_shell_quoted n b x = (True, b') \<Longrightarrow> b' = b @ shell_quote x" for b b' x
    using append_shell_quoted_spec [of n b x] by auto
  consider (r) s where "p = raw s" | (q) s where "p = quoted s" | (s) s where "p = Script s"
    by (metis part.exhaust piece.exhaust)
  then show ?thesis
  proof cases
    case r
    then have "out' = out @ s" using assms(1) by (simp add: append_string_True)
    with r assms raw_words_lex show ?thesis by auto
  next
    case q
    then have "out' = out @ shell_quote s" using assms(1) \<open>\<And>b x b'. append_shell_quoted n b x = (True, b') \<Longrightarrow> b' = b @ shell_quote x\<close> by simp
    with q assms(3) show ?thesis by (auto simp: sh_lex_quoted id)
  next
    case s
    with assms(1) obtain sh where sh: "runtime_shell_path w = Some sh"
      by (auto simp: append_runtime_script_invocation_def split: option.splits)
    have "out' = out @ shell_quote sh @ (if runtime_shell_is_busybox sh then '' sh'' else []) @ '' '' @ shell_quote s"
      using assms(1) s sh
      by (auto simp: append_runtime_script_invocation_def Let_def append_string_True dest!: q
          split: prod.splits if_splits)
    moreover have "sh_lex False v ((shell_quote sh @ (if runtime_shell_is_busybox sh then '' sh'' else []) @
        '' '' @ shell_quote s) @ r) = map_option ((@) (map Word ws)) (sh_lex False v' r)" for r
      using assms(3) s sh
      by (auto simp: sh_lex_quoted sh_flush_def sh_operator_def sh_expands_def option.map_comp o_def
          intro!: option.map_cong)
    ultimately show ?thesis by blast
  qed
qed

lemma append_part_bound: "append_part w n out p = (True, out') \<Longrightarrow> length out' < n"
proof (cases p)
  case (Piece x)
  assume "append_part w n out p = (True, out')"
  with Piece show ?thesis using app_piece.app_bound [of n out x] by simp
next
  case (Script s)
  assume "append_part w n out p = (True, out')"
  with Script obtain b where "append_shell_quoted n b s = (True, out')"
    by (auto simp: append_runtime_script_invocation_def Let_def split: option.splits prod.splits if_splits)
  then show ?thesis using app_quote.app_bound [of n b s] by simp
qed

lemma append_parts_lex:
  assumes "append_parts w n out ps = (True, out')" and "list_all part_plain ps"
  shows "\<exists>t. out' = out @ t \<and> sh_lex False v t = Some (map Word (parts_words w v ps)) \<and>
    (ps \<noteq> [] \<longrightarrow> length out' < n)"
  using assms
proof (induction ps arbitrary: out v)
  case Nil
  then show ?case by (simp add: sh_flush_def split: option.splits)
next
  case (Cons p ps)
  obtain ok o1 where a: "append_part w n out p = (ok, o1)" by (cases "append_part w n out p")
  with Cons.prems have ok: "ok" and rest: "append_parts w n o1 ps = (True, out')" by (auto split: if_splits)
  obtain ws v' where pw: "part_words w v p = (ws, v')" by (cases "part_words w v p")
  from append_part_lex [of w n out p o1 v ws v'] a ok pw Cons.prems(2)
  obtain t where t: "o1 = out @ t" "\<And>r. sh_lex False v (t @ r) = map_option ((@) (map Word ws)) (sh_lex False v' r)"
    by auto
  from Cons.IH [OF rest, of v'] Cons.prems(2)
  obtain u where u: "out' = o1 @ u" "sh_lex False v' u = Some (map Word (parts_words w v' ps))"
    "ps \<noteq> [] \<longrightarrow> length out' < n" by auto
  have "length out' < n"
    using u(1,3) append_part_bound [of w n out p o1] a ok rest by (cases ps) auto
  with t u pw show ?case by (intro exI [of _ "t @ u"]) simp
qed

lemma with_command_words:
  assumes "with_command w parts can plan = Some plan'" and "list_all part_plain parts"
  shows "sh_words (lp_command plan') = Some (map Word (parts_words w None parts)) \<and>
    (parts \<noteq> [] \<longrightarrow> length (lp_command plan') < TEXT_COMMAND_MAX) \<and> lp_can_execute plan' = can plan"
proof -
  from assms(1) obtain cmd where "append_parts w TEXT_COMMAND_MAX [] parts = (True, cmd)"
    and p: "plan' = plan\<lparr>lp_command := cmd, lp_can_execute := can plan\<rparr>"
    by (auto simp: with_command_def split: prod.splits bool.splits)
  from append_parts_lex [OF this(1) assms(2), of None] p show ?thesis by (simp add: sh_words_def)
qed

section \<open>The hotkey daemon\<close>

definition mmf_runtime_owns_hotkeyd :: "os \<Rightarrow> string \<Rightarrow> launch_plan \<Rightarrow> bool" where
  "mmf_runtime_owns_hotkeyd w plumos_root plan =
     (if plumos_root = [] then False
      else if lp_kind plan = ''picoarch'' then True
      else if lp_kind plan = ''retroarch'' then
        root_file_exists w plumos_root ''config/enable-mmf-ra-runtime'' \<or>
        root_file_exists w plumos_root ''config/enable-mmf-onion-compatible-ra''
      else False)"

definition launch_plan_uses_safe_hotkeyd :: "os \<Rightarrow> string \<Rightarrow> launch_plan \<Rightarrow> bool" where
  "launch_plan_uses_safe_hotkeyd w plumos_root plan =
     (if mmf_runtime_owns_hotkeyd w plumos_root plan then False
      else lp_kind plan = ''retroarch'' \<or> lp_kind plan = ''standalone'' \<or> lp_kind plan = ''picoarch'')"

text \<open>
  Stopping the daemon: what each \<open>waitpid\<close> finds, whether a shutdown lock is there at each look, and what
  \<open>errno\<close> held before the first call, are the environment's. The result is the signals sent, in order,
  whether the daemon was seen to end before that, and the number of polls.
\<close>

datatype wait_result = Reaped | NoChild | StillRunning | WaitError

datatype daemon_signal = SigTerm | SigKill

definition ended :: "wait_result \<Rightarrow> bool" where
  "ended r \<longleftrightarrow> r = Reaped \<or> r = NoChild"

fun poll_exit :: "(nat \<Rightarrow> wait_result) \<Rightarrow> nat \<Rightarrow> nat \<Rightarrow> bool \<times> nat" where
  "poll_exit waits k 0 = (False, k)"
| "poll_exit waits k (Suc n) = (if ended (waits k) then (True, Suc k) else poll_exit waits (Suc k) n)"

fun poll_locked :: "(nat \<Rightarrow> wait_result) \<Rightarrow> (nat \<Rightarrow> bool) \<Rightarrow> nat \<Rightarrow> nat \<Rightarrow> bool \<times> nat" where
  "poll_locked waits locks k 0 = (False, k)"
| "poll_locked waits locks k (Suc n) =
     (if ended (waits k) then (True, Suc k)
      else if \<not> locks k then (False, Suc k)
      else poll_locked waits locks (Suc k) n)"

text \<open>While a power action holds a lock, the daemon is given time to end by itself.\<close>

definition lock_phase :: "(nat \<Rightarrow> wait_result) \<Rightarrow> (nat \<Rightarrow> bool) \<Rightarrow> bool \<times> nat" where
  "lock_phase waits locks =
     (if locks 0 then
        (case poll_locked waits locks 1 350 of
           (True, k) \<Rightarrow> (True, k)
         | (False, k) \<Rightarrow> poll_exit waits k 20)
      else (False, 1))"

definition stop_safe_hotkeyd ::
    "int \<Rightarrow> bool \<Rightarrow> (nat \<Rightarrow> wait_result) \<Rightarrow> (nat \<Rightarrow> bool) \<Rightarrow> daemon_signal list \<times> nat" where
  "stop_safe_hotkeyd pid stale_echild waits locks =
     (if pid \<le> 0 then ([], 0)
      else if waits 0 = Reaped then ([], 1)
      else if waits 0 = NoChild \<or> (waits 0 = StillRunning \<and> stale_echild) then ([], 1)
      else case lock_phase waits locks of
          (True, k1) \<Rightarrow> ([], k1)
        | (False, k1) \<Rightarrow>
            (case poll_exit waits k1 20 of
               (True, k2) \<Rightarrow> ([SigTerm], k2)
             | (False, k2) \<Rightarrow> ([SigTerm, SigKill], Suc k2)))"

end
