(* ===== verification/TextPlanProofs.thy ===== *)
theory TextPlanProofs
  imports TextPlan
begin

text \<open>
  What a launch plan promises: its command line is read by the shell as the intended words, a plan that may
  be executed has everything it needs, and the hotkey daemon is stopped within a bounded number of polls.
\<close>

section \<open>The parts of the command lines are plain\<close>

lemmas plain_chars = sh_ordinary_def sh_operator_def sh_expands_def

lemma retroarch_parts_plain: "list_all part_plain (retroarch_parts sid plan)"
  by (simp add: retroarch_parts_def opt_part_def plain_chars)

lemma cpu_prefix_plain:
  "list_all part_plain (cpu_prefix ''PLUMOS_PYXEL_CPU_POLICY='' v)"
  "list_all part_plain (cpu_prefix ''PLUMOS_PICOARCH_CPU_POLICY='' v)"
  "list_all part_plain (cpu_prefix ''PLUMOS_STANDALONE_CPU_POLICY='' v)"
  by (simp_all add: cpu_prefix_def plain_chars)

lemma pyxel_command_known: "pyxel_command p = Some c \<Longrightarrow> c = ''play'' \<or> c = ''run''"
  by (auto simp: pyxel_command_def split: option.splits if_splits)

lemma with_command_plan:
  "with_command w parts can plan = Some plan' \<Longrightarrow>
     \<exists>cmd. append_parts w TEXT_COMMAND_MAX [] parts = (True, cmd) \<and>
       plan' = plan\<lparr>lp_command := cmd, lp_can_execute := can plan\<rparr>"
  by (auto simp: with_command_def split: prod.splits bool.splits)

text \<open>
  The shell's words determine whether there is a command: a command line with a word in it is not empty.
\<close>

lemma words_nonempty: "sh_words cmd = Some (map Word ws) \<Longrightarrow> ws \<noteq> [] \<Longrightarrow> cmd \<noteq> []"
  by (auto simp: sh_words_def sh_flush_def)

section \<open>The words of each kind of launch\<close>

definition shell_words :: "os \<Rightarrow> string list" where
  "shell_words w =
     (case runtime_shell_path w of
        Some sh \<Rightarrow> sh # (if runtime_shell_is_busybox sh then [''sh''] else [])
      | None \<Rightarrow> [])"

definition opt_words :: "string \<Rightarrow> string \<Rightarrow> string list" where
  "opt_words flag v = (if v \<noteq> [] then [flag, v] else [])"

definition assign_words :: "string \<Rightarrow> string \<Rightarrow> string list" where
  "assign_words var v = (if v \<noteq> [] then [var @ v] else [])"

text \<open>The words a plan should run as.\<close>

definition launch_words :: "os \<Rightarrow> string \<Rightarrow> string \<Rightarrow> string \<Rightarrow> launch_plan \<Rightarrow> string list" where
  "launch_words w plumos_root system_id profile plan =
     (if lp_kind plan = ''retroarch'' then
        shell_words w @ [lp_retroarch_path plan, ''--system'', system_id, ''--core'', lp_core_path plan,
          ''--rom'', lp_rom_path plan] @
        opt_words ''--cpu'' (lp_cpu_policy plan) @
        opt_words ''--audio'' (opt_audio_driver (lp_options plan)) @
        (if 0 < opt_audio_latency_ms (lp_options plan)
         then [''--audio-latency'', show_int (opt_audio_latency_ms (lp_options plan))] else []) @
        opt_words ''--dosbox-pure-force60fps'' (opt_force60fps (lp_options plan)) @
        opt_words ''--dosbox-pure-cycles'' (opt_cycles (lp_options plan)) @
        [''--safe-exit'', ''false'']
      else if lp_kind plan = ''picoarch'' then
        assign_words ''PLUMOS_PICOARCH_CPU_POLICY='' (lp_cpu_policy plan) @
        [''PLUMOS_PICOARCH_SYSTEM='' @ system_id] @ shell_words w @
        [lp_picoarch_launcher_path plan, drop 9 profile, lp_rom_path plan]
      else if lp_kind plan = ''standalone'' then
        assign_words ''PLUMOS_STANDALONE_CPU_POLICY='' (lp_cpu_policy plan) @ shell_words w @
        [lp_standalone_launcher_path plan, drop 11 profile,
         standalone_content_path_for_emulator (drop 11 profile) (lp_rom_path plan)]
      else if lp_kind plan = ''pyxel'' then
        (case (pyxel_launcher (drop 6 profile), pyxel_command (lp_rom_path plan)) of
           (Some _, Some cmd) \<Rightarrow>
             assign_words ''PLUMOS_PYXEL_CPU_POLICY='' (lp_cpu_policy plan) @ shell_words w @
             [lp_pyxel_launcher_path plan, ''-m'', ''pyxel'', cmd, lp_rom_path plan]
         | _ \<Rightarrow> [])
      else if lp_kind plan = ''external'' then
        shell_words w @
        (if profile = ''external:port''
         then [the (ok_opt (join_path PATH_MAX plumos_root ''bin/plumos-portmaster-port-launch''))] else []) @
        [lp_rom_path plan]
      else [])"

lemmas words_defs = shell_words_def opt_words_def assign_words_def opt_part_def cpu_prefix_def

lemma script_words_some:
  "append_parts w n out ps = (True, cmd) \<Longrightarrow> Script s \<in> set ps \<Longrightarrow> runtime_shell_path w \<noteq> None"
proof (induction ps arbitrary: out)
  case (Cons p ps)
  obtain ok o1 where o1: "append_part w n out p = (ok, o1)" by (cases "append_part w n out p")
  then have ok: "ok" "append_parts w n o1 ps = (True, cmd)" using Cons.prems by (auto split: if_splits)
  show ?case
  proof (cases "p = Script s")
    case True
    then show ?thesis using o1 ok(1) by (auto simp: append_runtime_script_invocation_def split: option.splits)
  next
    case False
    with Cons ok show ?thesis by auto
  qed
qed simp

lemma opt_flag_words:
  "parts_words w (Some x) (opt_part flag v @ ps) =
     (if v \<noteq> [] then x # f # parts_words w (Some v) ps else parts_words w (Some x) ps)"
  if "flag = CHR '' '' # f @ '' ''" "CHR '' '' \<notin> set f" "f \<noteq> []"
proof -
  have r: "raw_words (Some y) (f @ '' '') = ([y @ f], None)" if "CHR '' '' \<notin> set f" for y f
    using that by (induction f arbitrary: y) auto
  have "raw_words None (f @ '' '') = ([f], None)" using that(2,3) r by (cases f) auto
  with that(1) show ?thesis by (simp add: opt_part_def)
qed

lemma retroarch_words:
  assumes "runtime_shell_path w \<noteq> None"
  shows "parts_words w None (retroarch_parts sid plan) =
    shell_words w @ [lp_retroarch_path plan, ''--system'', sid, ''--core'', lp_core_path plan,
      ''--rom'', lp_rom_path plan] @
    opt_words ''--cpu'' (lp_cpu_policy plan) @
    opt_words ''--audio'' (opt_audio_driver (lp_options plan)) @
    (if 0 < opt_audio_latency_ms (lp_options plan)
     then [''--audio-latency'', show_int (opt_audio_latency_ms (lp_options plan))] else []) @
    opt_words ''--dosbox-pure-force60fps'' (opt_force60fps (lp_options plan)) @
    opt_words ''--dosbox-pure-cycles'' (opt_cycles (lp_options plan)) @
    [''--safe-exit'', ''false'']"
proof -
  note o = opt_flag_words [of "'' --cpu ''" "''--cpu''"] opt_flag_words [of "'' --audio ''" "''--audio''"]
    opt_flag_words [of "'' --dosbox-pure-force60fps ''" "''--dosbox-pure-force60fps''"]
    opt_flag_words [of "'' --dosbox-pure-cycles ''" "''--dosbox-pure-cycles''"]
  obtain sh where "runtime_shell_path w = Some sh" using assms by blast
  then show ?thesis
    unfolding retroarch_parts_def
    by (simp add: o opt_words_def shell_words_def)
qed

lemma prefixed_script_words:
  assumes "runtime_shell_path w \<noteq> None"
  shows "parts_words w None (cpu_prefix ''PLUMOS_PICOARCH_CPU_POLICY='' v @
      [raw ''PLUMOS_PICOARCH_SYSTEM='', quoted sid, raw '' '', Script l, raw '' '', quoted a, raw '' '', quoted b]) =
    assign_words ''PLUMOS_PICOARCH_CPU_POLICY='' v @ [''PLUMOS_PICOARCH_SYSTEM='' @ sid] @ shell_words w @ [l, a, b]"
    "parts_words w None (cpu_prefix ''PLUMOS_STANDALONE_CPU_POLICY='' v @
      [Script l, raw '' '', quoted a, raw '' '', quoted b]) =
    assign_words ''PLUMOS_STANDALONE_CPU_POLICY='' v @ shell_words w @ [l, a, b]"
    "c = ''play'' \<or> c = ''run'' \<Longrightarrow> parts_words w None (cpu_prefix ''PLUMOS_PYXEL_CPU_POLICY='' v @
      [Script l, raw '' -m pyxel '', raw c, raw '' '', quoted b]) =
    assign_words ''PLUMOS_PYXEL_CPU_POLICY='' v @ shell_words w @ [l, ''-m'', ''pyxel'', c, b]"
    "parts_words w None [Script l, raw '' '', quoted b] = shell_words w @ [l, b]"
    "parts_words w None [Script l] = shell_words w @ [l]"
  using assms by (auto simp: words_defs split: option.splits)

lemma with_command_script:
  assumes "with_command w parts can plan = Some plan'" and "list_all part_plain parts"
    and "Script s \<in> set parts"
    and "runtime_shell_path w \<noteq> None \<Longrightarrow> parts_words w None parts = ws"
  shows "sh_words (lp_command plan') = Some (map Word ws) \<and> length (lp_command plan') < TEXT_COMMAND_MAX"
proof -
  have "runtime_shell_path w \<noteq> None"
    using with_command_plan [OF assms(1)] script_words_some [OF _ assms(3)] by blast
  with with_command_words [OF assms(1,2)] assms(3,4) show ?thesis by (cases parts) auto
qed

lemma plan_retroarch_words:
  assumes "plan_retroarch w root sid core plan = Some plan'"
  shows "lp_kind plan' = ''retroarch'' \<and> sh_words (lp_command plan') = Some (map Word (launch_words w root sid prof plan'))
     \<and> length (lp_command plan') < TEXT_COMMAND_MAX"
proof -
  from assms obtain p can where c: "with_command w (retroarch_parts sid p) can p = Some plan'" and k: "lp_kind p = ''retroarch''"
    by (auto simp: plan_retroarch_def Let_def split: option.splits prod.splits)
  have "Script (lp_retroarch_path p) \<in> set (retroarch_parts sid p)" by (simp add: retroarch_parts_def)
  note with_command_script [OF c retroarch_parts_plain this retroarch_words]
  with with_command_plan [OF c] k show ?thesis by (auto simp: launch_words_def)
qed

lemma plan_picoarch_words:
  assumes "plan_picoarch w root sid (drop 9 prof) plan = Some plan'"
  shows "lp_kind plan' = ''picoarch'' \<and> sh_words (lp_command plan') = Some (map Word (launch_words w root sid prof plan'))
     \<and> length (lp_command plan') < TEXT_COMMAND_MAX"
proof -
  from assms obtain p can v l r where c: "with_command w (cpu_prefix ''PLUMOS_PICOARCH_CPU_POLICY='' v @
      [raw ''PLUMOS_PICOARCH_SYSTEM='', quoted sid, raw '' '', Script l,
       raw '' '', quoted (drop 9 prof), raw '' '', quoted r]) can p = Some plan'"
    and k: "lp_kind p = ''picoarch''" "lp_cpu_policy p = v" "lp_picoarch_launcher_path p = l" "lp_rom_path p = r"
    by (auto simp: plan_picoarch_def Let_def split: option.splits prod.splits if_splits)
  note with_command_script [where s = l, OF c _ _ prefixed_script_words(1)]
  with with_command_plan [OF c] k show ?thesis
    by (auto simp: launch_words_def cpu_prefix_plain plain_chars)
qed

lemma plan_standalone_words:
  assumes "plan_standalone w root (drop 11 prof) plan = Some plan'"
  shows "lp_kind plan' = ''standalone'' \<and> sh_words (lp_command plan') = Some (map Word (launch_words w root sid prof plan'))
     \<and> length (lp_command plan') < TEXT_COMMAND_MAX"
proof -
  from assms obtain p can v l r where c: "with_command w (cpu_prefix ''PLUMOS_STANDALONE_CPU_POLICY='' v @
      [Script l, raw '' '', quoted (drop 11 prof), raw '' '',
       quoted (standalone_content_path_for_emulator (drop 11 prof) r)]) can p = Some plan'"
    and k: "lp_kind p = ''standalone''" "lp_cpu_policy p = v" "lp_standalone_launcher_path p = l" "lp_rom_path p = r"
    by (auto simp: plan_standalone_def Let_def split: option.splits prod.splits if_splits)
  note with_command_script [where s = l, OF c _ _ prefixed_script_words(2)]
  with with_command_plan [OF c] k show ?thesis
    by (auto simp: launch_words_def cpu_prefix_plain plain_chars)
qed

lemma plan_pyxel_words:
  assumes "plan_pyxel w root (drop 6 prof) plan = Some plan'" and "lp_command plan = []"
  shows "lp_kind plan' = ''pyxel'' \<and> sh_words (lp_command plan') = Some (map Word (launch_words w root sid prof plan'))
     \<and> length (lp_command plan') < TEXT_COMMAND_MAX"
proof (cases "pyxel_launcher (drop 6 prof) = None \<or> pyxel_command (lp_rom_path plan) = None")
  case True
  with assms show ?thesis
    by (auto simp: plan_pyxel_def Let_def launch_words_def sh_words_def sh_flush_def TEXT_COMMAND_MAX_def
        split: option.splits)
next
  case False
  then obtain name cmd where n: "pyxel_launcher (drop 6 prof) = Some name" "pyxel_command (lp_rom_path plan) = Some cmd"
    by auto
  with assms obtain p can v l where c: "with_command w (cpu_prefix ''PLUMOS_PYXEL_CPU_POLICY='' v @
      [Script l, raw '' -m pyxel '', raw cmd, raw '' '', quoted (lp_rom_path plan)]) can p = Some plan'"
    and k: "lp_kind p = ''pyxel''" "lp_rom_path p = lp_rom_path plan" "lp_cpu_policy p = v" "lp_pyxel_launcher_path p = l"
    by (auto simp: plan_pyxel_def Let_def split: option.splits)
  note with_command_script [where s = l, OF c _ _ prefixed_script_words(3)]
  with with_command_plan [OF c] k n pyxel_command_known [OF n(2)] show ?thesis
    by (auto simp: launch_words_def cpu_prefix_plain plain_chars)
qed

lemma plan_external_words:
  assumes "plan_external w root prof plan = Some plan'"
  shows "lp_kind plan' = ''external'' \<and> sh_words (lp_command plan') = Some (map Word (launch_words w root sid prof plan'))
     \<and> length (lp_command plan') < TEXT_COMMAND_MAX"
proof (cases "prof = ''external:port''")
  case True
  with assms obtain p can l r where c: "with_command w [Script l, raw '' '', quoted r] can p = Some plan'"
    and k: "lp_kind p = ''external''" "lp_rom_path p = r" "ok_opt (join_path PATH_MAX root ''bin/plumos-portmaster-port-launch'') = Some l"
    by (auto simp: plan_external_def Let_def split: option.splits)
  note with_command_script [where s = l, OF c _ _ prefixed_script_words(4)]
  with with_command_plan [OF c] k True show ?thesis by (auto simp: launch_words_def plain_chars)
next
  case False
  with assms obtain p can r where c: "with_command w [Script r] can p = Some plan'"
    and k: "lp_kind p = ''external''" "lp_rom_path p = r"
    by (auto simp: plan_external_def Let_def)
  note with_command_script [where s = r, OF c _ _ prefixed_script_words(5)]
  with with_command_plan [OF c] k False show ?thesis by (auto simp: launch_words_def)
qed

text \<open>
  C2: The command line of every launch plan is read by the shell as exactly the words that were meant: the
  shell, the launcher and its arguments, whatever the names of the game, of the paths and of the options
  contain, with no operator, expansion or extra word. It fits the buffer it is built in.
\<close>

theorem launch_command_words:
  assumes "build_launch_plan w root sid rel title path prof cpu opts auto = Some plan"
  shows "sh_words (lp_command plan) = Some (map Word (launch_words w root sid prof plan)) \<and>
    length (lp_command plan) < TEXT_COMMAND_MAX"
proof -
  have base: "lp_command (plan_base w sid rel title path prof cpu opts auto) = []" by (simp add: plan_base_def)
  consider (ra) "plan_retroarch w root sid (drop 10 prof) (plan_base w sid rel title path prof cpu opts auto) = Some plan"
    | (px) "plan_pyxel w root (drop 6 prof) (plan_base w sid rel title path prof cpu opts auto) = Some plan"
    | (pa) "plan_picoarch w root sid (drop 9 prof) (plan_base w sid rel title path prof cpu opts auto) = Some plan"
    | (sa) "plan_standalone w root (drop 11 prof) (plan_base w sid rel title path prof cpu opts auto) = Some plan"
    | (ex) "plan_external w root prof (plan_base w sid rel title path prof cpu opts auto) = Some plan"
    | (no) "lp_kind plan = ''internal'' \<or> lp_kind plan = ''unknown''" "lp_command plan = []"
    using assms base by (auto simp: build_launch_plan_def Let_def split: if_splits)
  then show ?thesis
  proof cases
    case no
    then show ?thesis by (auto simp: launch_words_def sh_words_def sh_flush_def TEXT_COMMAND_MAX_def)
  next
    case ra
    from plan_retroarch_words [OF this, of prof] show ?thesis by blast
  next
    case px
    from plan_pyxel_words [OF this base, of sid] show ?thesis by blast
  next
    case pa
    from plan_picoarch_words [OF this] show ?thesis by blast
  next
    case sa
    from plan_standalone_words [OF this, of sid] show ?thesis by blast
  next
    case ex
    from plan_external_words [OF this, of sid] show ?thesis by blast
  qed
qed

definition demo_plan_os :: os where
  "demo_plan_os = demo_os\<lparr>os_stat := \<lambda>p. if p = ''/p/bin/plumos-standalone-launch'' \<or> p = ''/s/a;b''
     then Some (Regular, 1, 9) else None\<rparr>"

definition demo_plan :: launch_plan where
  "demo_plan = (plan_base demo_plan_os ''nes'' ''a;b'' [] ''/s/a;b'' ''standalone:x'' [] None True)
     \<lparr>lp_kind := ''standalone'', lp_standalone_launcher_path := ''/p/bin/plumos-standalone-launch'',
      lp_runtime_exists := True, lp_core_exists := True,
      lp_command := shell_quote ''/bin/sh'' @ '' '' @ shell_quote ''/p/bin/plumos-standalone-launch'' @
        '' '' @ shell_quote ''x'' @ '' '' @ shell_quote ''/s/a;b'', lp_can_execute := True\<rparr>"

lemmas demo_eval = build_launch_plan_def plan_base_def plan_standalone_def bin_path_def join_path_eq path_join_def
  with_command_def append_runtime_script_invocation_def runtime_shell_path_def runtime_shell_is_busybox_def
  append_string_def app_quote.app_eq ok_opt_def cpu_prefix_def standalone_content_path_for_emulator_def
  file_exists_def rom_path_exists_def file_or_dir_def strncmp_eq_def demo_plan_def demo_plan_os_def demo_os_def
  PATH_MAX_def TEXT_PATH_MAX_def TEXT_COMMAND_MAX_def shell_quote_def fits_simps path_basename_def quote_char_def

theorem launch_command_words_witness:
  "sh_words (lp_command demo_plan) =
     Some (map Word (launch_words demo_plan_os ''/p'' ''nes'' ''standalone:x'' demo_plan))"
proof -
  have "build_launch_plan demo_plan_os ''/p'' ''nes'' ''a;b'' [] ''/s/a;b'' ''standalone:x'' [] None True = Some demo_plan"
    by (simp add: demo_eval)
  from launch_command_words [OF this] show ?thesis by simp
qed

section \<open>When a plan may be executed\<close>

definition plan_ready :: "os \<Rightarrow> launch_plan \<Rightarrow> bool" where
  "plan_ready w plan \<longleftrightarrow> lp_runtime_exists plan \<and> lp_core_exists plan \<and> lp_rom_exists plan \<and> lp_command plan \<noteq> []"

lemma append_parts_grows: "append_parts w n out ps = (True, cmd) \<Longrightarrow> prefix out cmd"
proof (induction ps arbitrary: out)
  case (Cons p ps)
  obtain o1 where o1: "append_part w n out p = (True, o1)" "append_parts w n o1 ps = (True, cmd)"
    using Cons.prems by (cases "append_part w n out p") (auto split: if_splits)
  have q: "append_shell_quoted n b x = (True, b') \<Longrightarrow> prefix b b'" for b x b'
    using app_quote.app_prefix [of n b x] by simp
  have "prefix out o1"
    using o1(1)
  proof (cases p)
    case (Piece x)
    with o1(1) show ?thesis using app_piece.app_prefix [of n out x] by simp
  next
    case (Script x)
    with o1(1) show ?thesis
      by (auto simp: append_runtime_script_invocation_def Let_def append_string_True dest!: q
          split: option.splits prod.splits if_splits elim!: prefix_order.trans [rotated] append_prefixD)
  qed
  then show ?case using Cons.IH [OF o1(2)] by (rule prefix_order.trans)
qed simp

lemma append_parts_nonempty: "append_parts w n out ps = (True, []) \<Longrightarrow> \<forall>s. Script s \<notin> set ps"
proof (induction ps arbitrary: out)
  case (Cons p ps)
  obtain o1 where o1: "append_part w n out p = (True, o1)" "append_parts w n o1 ps = (True, [])"
    using Cons.prems by (cases "append_part w n out p") (auto split: if_splits)
  have "o1 = []" using append_parts_grows [OF o1(2)] by simp
  moreover have "append_shell_quoted n b x \<noteq> (True, [])" for b x
    using app_quote.app_result [of n b x] by (auto simp: shell_quote_def)
  ultimately have "\<forall>s. p \<noteq> Script s"
    using o1(1) by (auto simp: append_runtime_script_invocation_def Let_def split: option.splits prod.splits if_splits)
  with Cons.IH [OF o1(2)] show ?case by auto
qed simp

lemmas plan_defs = plan_retroarch_def plan_picoarch_def plan_standalone_def plan_external_def plan_pyxel_def

lemma script_notin [simp]: "Script s \<notin> set (opt_part flag v)" "Script s \<notin> set (cpu_prefix var v)"
  by (simp_all add: opt_part_def cpu_prefix_def)

lemma plan_ready_simps:
  "plan_retroarch w root sid core plan = Some p \<Longrightarrow> lp_can_execute p = plan_ready w p \<and> lp_rom_exists p = lp_rom_exists plan"
  "plan_picoarch w root sid core plan = Some p \<Longrightarrow> lp_can_execute p = plan_ready w p \<and> lp_rom_exists p = lp_rom_exists plan"
  "plan_standalone w root core plan = Some p \<Longrightarrow> lp_can_execute p = plan_ready w p \<and> lp_rom_exists p = lp_rom_exists plan"
  "plan_external w root prof plan = Some p \<Longrightarrow> lp_can_execute p = plan_ready w p \<and> lp_rom_exists p = lp_rom_exists plan"
  "plan_pyxel w root prof plan = Some p \<Longrightarrow> lp_command plan = [] \<Longrightarrow>
     lp_can_execute p = plan_ready w p \<and> lp_rom_exists p = lp_rom_exists plan"
  by (auto simp: plan_defs Let_def plan_ready_def retroarch_parts_def
      dest!: with_command_plan append_parts_nonempty simp del: append_parts.simps append_part.simps split: option.splits if_splits)

text \<open>The files a plan of each kind runs from.\<close>

definition plan_files :: "os \<Rightarrow> launch_plan \<Rightarrow> bool" where
  "plan_files w plan =
     (if lp_kind plan = ''retroarch''
        then file_exists w (lp_retroarch_path plan) \<and> file_exists w (lp_core_path plan)
      else if lp_kind plan = ''picoarch''
        then file_exists w (lp_picoarch_launcher_path plan) \<and> file_exists w (lp_core_path plan)
      else if lp_kind plan = ''standalone'' then file_exists w (lp_standalone_launcher_path plan)
      else if lp_kind plan = ''pyxel'' then file_exists w (lp_pyxel_launcher_path plan)
      else lp_kind plan = ''external'')"

lemma plan_files_simps:
  "plan_retroarch w root sid core plan = Some p \<Longrightarrow> plan_ready w p \<Longrightarrow> plan_files w p"
  "plan_picoarch w root sid core plan = Some p \<Longrightarrow> plan_ready w p \<Longrightarrow> plan_files w p"
  "plan_standalone w root core plan = Some p \<Longrightarrow> plan_ready w p \<Longrightarrow> plan_files w p"
  "plan_external w root prof plan = Some p \<Longrightarrow> plan_ready w p \<Longrightarrow> plan_files w p"
  "plan_pyxel w root prof plan = Some p \<Longrightarrow> lp_command plan = [] \<Longrightarrow> plan_ready w p \<Longrightarrow> plan_files w p"
  by (auto simp: plan_defs Let_def plan_ready_def plan_files_def dest!: with_command_plan
      split: option.splits if_splits)

text \<open>
  A plan is marked executable exactly when the game exists, the launcher and the core it needs
  exist and there is a command line, for every kind of profile; an executable plan's launcher and core
  are regular files, and a plan for an internal or an unknown profile, or a Pyxel one for another
  device or file type, is never executable.
\<close>

theorem plan_executable_iff:
  assumes "build_launch_plan w root sid rel title path prof cpu opts auto = Some plan"
  shows "(lp_can_execute plan \<longleftrightarrow> lp_runtime_exists plan \<and> lp_core_exists plan \<and>
      rom_path_exists w (stored TEXT_PATH_MAX path) \<and> lp_command plan \<noteq> []) \<and>
    (lp_can_execute plan \<longrightarrow> plan_files w plan)"
proof -
  let ?b = "plan_base w sid rel title path prof cpu opts auto"
  have b: "lp_rom_exists ?b = rom_path_exists w (stored TEXT_PATH_MAX path)" "lp_command ?b = []" "\<not> lp_runtime_exists ?b"
    by (simp_all add: plan_base_def)
  have "lp_can_execute plan = plan_ready w plan \<and> lp_rom_exists plan = lp_rom_exists ?b"
    using assms b plan_ready_simps [where plan = ?b and p = plan]
    by (auto simp: build_launch_plan_def Let_def plan_ready_def split: if_splits)
  moreover have "plan_ready w plan \<Longrightarrow> plan_files w plan"
    using assms b plan_files_simps [where plan = ?b and p = plan]
    by (auto simp: build_launch_plan_def Let_def plan_ready_def split: if_splits)
  ultimately show ?thesis by (auto simp: plan_ready_def b)
qed

theorem plan_executable_iff_witness: "lp_can_execute demo_plan \<and> plan_files demo_plan_os demo_plan"
proof -
  have "build_launch_plan demo_plan_os ''/p'' ''nes'' ''a;b'' [] ''/s/a;b'' ''standalone:x'' [] None True = Some demo_plan"
    by (simp add: demo_eval)
  from plan_executable_iff [OF this] show ?thesis by (simp add: demo_plan_def)
qed

section \<open>Stopping the hotkey daemon\<close>

lemma poll_exit_bound: "poll_exit waits k n = (d, k') \<Longrightarrow> k \<le> k' \<and> k' \<le> k + n"
  by (induction waits k n rule: poll_exit.induct) (auto split: if_splits)

lemma poll_exit_iff: "fst (poll_exit waits k n) \<longleftrightarrow> (\<exists>i < n. ended (waits (k + i)))"
proof (induction waits k n rule: poll_exit.induct)
  case (2 waits k n)
  have "(\<exists>i < Suc n. ended (waits (k + i))) \<longleftrightarrow> ended (waits k) \<or> (\<exists>i < n. ended (waits (Suc k + i)))"
    by (auto simp: less_Suc_eq_0_disj)
  with 2 show ?case by simp
qed simp

lemma poll_locked_bound: "poll_locked waits locks k n = (d, k') \<Longrightarrow> k \<le> k' \<and> k' \<le> k + n"
  by (induction waits locks k n rule: poll_locked.induct) (auto split: if_splits)

lemma poll_locked_ended: "poll_locked waits locks k n = (True, k') \<Longrightarrow> \<exists>i < k'. ended (waits i)"
  by (induction waits locks k n rule: poll_locked.induct) (auto split: if_splits)

lemma poll_exit_ended: "poll_exit waits k n = (True, k') \<Longrightarrow> \<exists>i < k'. ended (waits i)"
  by (induction waits k n rule: poll_exit.induct) (auto split: if_splits)

lemma lock_phase_facts:
  assumes "lock_phase waits locks = (d, k)"
  shows "1 \<le> k" "k \<le> 371" "d \<Longrightarrow> \<exists>i < k. ended (waits i)"
proof -
  obtain d1 k1 where p: "poll_locked waits locks 1 350 = (d1, k1)" by (cases "poll_locked waits locks 1 350")
  show "1 \<le> k" "k \<le> 371"
    using assms p poll_locked_bound [OF p] poll_exit_bound [of waits k1 20]
    by (auto simp: lock_phase_def split: if_splits bool.splits)
  show "\<exists>i < k. ended (waits i)" if d
    using assms p that poll_locked_ended [of waits locks 1 350] poll_exit_ended [of waits k1 20]
    by (auto simp: lock_phase_def split: if_splits bool.splits)
qed

text \<open>
  Stopping the hotkey daemon ends after at most 392 waits. Without any signal it ends only when there is
  no daemon, when the daemon was seen to end, or when the daemon still runs at the first wait while
  \<open>errno\<close> holds a stale \<open>ECHILD\<close> from an earlier call. A kill follows the termination signal exactly when
  none of the twenty waits after it sees the daemon end, so a daemon that never ends by itself is killed,
  whatever the locks say, except for the stale \<open>errno\<close>.
\<close>

theorem stop_safe_hotkeyd_bounded:
  "case stop_safe_hotkeyd pid stale waits locks of (signals, polls) \<Rightarrow>
     polls \<le> 392 \<and>
     signals \<in> {[], [SigTerm], [SigTerm, SigKill]} \<and>
     (pid \<le> 0 \<or> (\<exists>i < polls. ended (waits i)) \<or> stale \<and> waits 0 = StillRunning \<or> signals = [SigTerm, SigKill]) \<and>
     (signals = [SigTerm, SigKill] \<longleftrightarrow> 0 < pid \<and> \<not> ended (waits 0) \<and> \<not> (stale \<and> waits 0 = StillRunning) \<and>
        \<not> fst (lock_phase waits locks) \<and> \<not> (\<exists>i < 20. ended (waits (snd (lock_phase waits locks) + i))))"
proof -
  obtain d k1 where l: "lock_phase waits locks = (d, k1)" by (cases "lock_phase waits locks")
  obtain e k2 where p: "poll_exit waits k1 20 = (e, k2)" by (cases "poll_exit waits k1 20")
  note facts = lock_phase_facts [OF l] poll_exit_bound [OF p] poll_exit_iff [of waits k1 20]
  have e: "e \<Longrightarrow> \<exists>i < k2. ended (waits i)" using p poll_exit_ended by auto
  show ?thesis
    using l p facts e
    by (cases d; cases e; cases "waits 0") (auto simp: stop_safe_hotkeyd_def ended_def)
qed

end
