(* ===== verification/TextOverridesProofs.thy ===== *)
theory TextOverridesProofs
  imports TextOverrides
begin

text \<open>
  The override tables as keyed stores, and what a set or cleared override means for the settings that
  are resolved from them.
\<close>

declare find_first_None [simp del]

section \<open>System overrides as a keyed store\<close>

definition sys_ok :: "core_override_state \<Rightarrow> bool" where
  "sys_ok st \<longleftrightarrow> distinct_keys so_system_id (system_overrides st) \<and>
     length (system_overrides st) \<le> MAX_SYSTEM_CORE_OVERRIDES"

definition system_profile :: "core_override_state \<Rightarrow> string \<Rightarrow> string option" where
  "system_profile st k = map_option so_launch_profile (lookup so_system_id (system_overrides st) k)"

abbreviation put_system_profile :: "core_override_state \<Rightarrow> string \<Rightarrow> string \<Rightarrow> core_override_state option" where
  "put_system_profile st k v \<equiv> ok_opt (set_system_core_override st k v)"

definition sys_arg_ok :: "string \<Rightarrow> string \<Rightarrow> bool" where
  "sys_arg_ok k v \<longleftrightarrow> length k < 64 \<and> length v < 128"

lemma clear_system_remove:
  "system_overrides (clear_system_core_override st k) = remove_key so_system_id k (system_overrides st)"
  by (auto simp: clear_system_core_override_def remove_key_def find_system_core_override_def split: option.splits)

lemma set_system_cases:
  assumes "set_system_core_override st k v = (True, st')" and "sys_arg_ok k v"
  obtains (old) i where "find_first (\<lambda>e. so_system_id e = k) (system_overrides st) = Some i"
      "system_overrides st' = (system_overrides st)[i := (system_overrides st ! i)\<lparr>so_launch_profile := v\<rparr>]"
  | (new) e where "find_first (\<lambda>e. so_system_id e = k) (system_overrides st) = None"
      "length (system_overrides st) < MAX_SYSTEM_CORE_OVERRIDES" "so_system_id e = k" "so_launch_profile e = v"
      "system_overrides st' = system_overrides st @ [e]"
proof (cases "find_first (\<lambda>e. so_system_id e = k) (system_overrides st)")
  case None
  let ?e = "(slot_free zero_sys (sys_slots st))\<lparr>so_system_id := k, so_launch_profile := v\<rparr>"
  show ?thesis
    using assms None by (intro new [of ?e])
      (auto simp: set_system_core_override_def find_system_core_override_def sys_arg_ok_def fits_simps not_le
        split: if_splits)
next
  case (Some i)
  with assms show ?thesis
    by (intro old [of i]) (auto simp: set_system_core_override_def find_system_core_override_def update_sys_def
        sys_arg_ok_def fits_simps)
qed

interpretation sysprof: keyed_store system_profile put_system_profile clear_system_core_override
  "\<lambda>_ _ v. v" sys_ok "\<lambda>k. True" sys_arg_ok
proof unfold_locales
  fix st st' k k' v
  assume ok: "sys_ok st" and arg: "sys_arg_ok k v" and put: "ok_opt (set_system_core_override st k v) = Some st'"
  then have put': "set_system_core_override st k v = (True, st')" by (simp add: ok_opt_Some)
  show "system_profile st' k = Some v"
    using put' arg
  proof (cases rule: set_system_cases)
    case (old i)
    then have "so_system_id (system_overrides st ! i) = k" using find_first_SomeD by fastforce
    with old show ?thesis by (simp add: system_profile_def lookup_update_same)
  next
    case (new e)
    then show ?thesis by (simp add: system_profile_def lookup_append_new)
  qed
  show "system_profile st' k' = system_profile st k'" if "k' \<noteq> k"
    using put' arg
  proof (cases rule: set_system_cases)
    case (old i)
    then have "so_system_id (system_overrides st ! i) = k" using find_first_SomeD by fastforce
    with old that show ?thesis by (simp add: system_profile_def lookup_update_other)
  next
    case (new e)
    with that show ?thesis by (simp add: system_profile_def lookup_append_new)
  qed
  show "sys_ok st'"
    using put' arg
  proof (cases rule: set_system_cases)
    case (old i)
    then have "so_system_id (system_overrides st ! i) = k" using find_first_SomeD by fastforce
    with old ok show ?thesis by (simp add: sys_ok_def map_key_update)
  next
    case (new e)
    with ok distinct_append_key [OF new(1), of e] show ?thesis by (simp add: sys_ok_def)
  qed
next
  fix st k k'
  assume ok: "sys_ok st"
  show "system_profile (clear_system_core_override st k) k = None"
    using ok by (simp add: system_profile_def clear_system_remove sys_ok_def remove_key_same)
  show "system_profile (clear_system_core_override st k) k' = system_profile st k'" if "k' \<noteq> k"
    using that by (simp add: system_profile_def clear_system_remove remove_key_other)
  show "sys_ok (clear_system_core_override st k)"
    using ok remove_key_length [of so_system_id k "system_overrides st"]
    by (simp add: sys_ok_def clear_system_remove remove_key_distinct)
qed

section \<open>ROM overrides as a keyed store\<close>

definition ro_key :: "rom_core_override \<Rightarrow> string \<times> string" where
  "ro_key e = (ro_system_id e, ro_relative_path e)"

definition rom_ok :: "core_override_state \<Rightarrow> bool" where
  "rom_ok st \<longleftrightarrow> distinct_keys ro_key (rom_overrides st) \<and> length (rom_overrides st) \<le> MAX_ROM_CORE_OVERRIDES"

text \<open>The keys that stand for themselves: all but the DOS paths with a content suffix.\<close>

definition plain_rom_key :: "string \<times> string \<Rightarrow> bool" where
  "plain_rom_key k \<longleftrightarrow> fst k \<noteq> ''dos'' \<or> CHR ''#'' \<notin> set (snd k)"

definition rom_profile :: "core_override_state \<Rightarrow> string \<times> string \<Rightarrow> string option" where
  "rom_profile st k = map_option ro_launch_profile (lookup ro_key (rom_overrides st) k)"

abbreviation put_rom_profile ::
    "core_override_state \<Rightarrow> string \<times> string \<Rightarrow> string \<Rightarrow> core_override_state option" where
  "put_rom_profile st k v \<equiv> ok_opt (set_rom_core_override st (fst k) (snd k) v)"

abbreviation del_rom :: "core_override_state \<Rightarrow> string \<times> string \<Rightarrow> core_override_state" where
  "del_rom st k \<equiv> clear_rom_core_override st (fst k) (snd k)"

definition rom_arg_ok :: "string \<times> string \<Rightarrow> string \<Rightarrow> bool" where
  "rom_arg_ok k v \<longleftrightarrow> length (fst k) < 64 \<and> length (snd k) < TEXT_PATH_MAX \<and> length v < 128"

lemma find_rom_exact:
  "find_first (\<lambda>e. ro_system_id e = s \<and> ro_relative_path e = r) es = find_first (\<lambda>e. ro_key e = (s, r)) es"
  by (simp add: ro_key_def)

lemma split_no_hash:
  "CHR ''#'' \<notin> set r \<Longrightarrow> snd (snd (split_content_suffix n r)) = None"
  by (cases "copy_string n r") (simp add: split_content_suffix_def)

lemma find_rom_plain:
  assumes "plain_rom_key (s, r)"
  shows "find_rom_core_override st s r = find_first (\<lambda>e. ro_key e = (s, r)) (rom_overrides st)"
proof (cases "s = ''dos''")
  case True
  with assms have "snd (snd (split_content_suffix TEXT_PATH_MAX r)) = None"
    by (intro split_no_hash) (simp add: plain_rom_key_def)
  then obtain ok base where "split_content_suffix TEXT_PATH_MAX r = (ok, base, None)"
    by (cases "split_content_suffix TEXT_PATH_MAX r") auto
  then show ?thesis
    unfolding find_rom_core_override_def find_rom_exact by (simp split: option.splits bool.splits)
next
  case False
  then show ?thesis
    unfolding find_rom_core_override_def find_rom_exact by (simp split: option.splits)
qed

lemma clear_rom_remove:
  "plain_rom_key k \<Longrightarrow> rom_overrides (del_rom st k) = remove_key ro_key k (rom_overrides st)"
  by (cases k) (auto simp: clear_rom_core_override_def remove_key_def find_rom_plain split: option.splits)

lemma set_rom_cases:
  assumes "set_rom_core_override st s r v = (True, st')" and "rom_arg_ok (s, r) v" and "plain_rom_key (s, r)"
  obtains (old) i where "find_first (\<lambda>e. ro_key e = (s, r)) (rom_overrides st) = Some i"
      "rom_overrides st' = (rom_overrides st)[i := (rom_overrides st ! i)\<lparr>ro_launch_profile := v\<rparr>]"
  | (new) e where "find_first (\<lambda>e. ro_key e = (s, r)) (rom_overrides st) = None"
      "length (rom_overrides st) < MAX_ROM_CORE_OVERRIDES" "ro_key e = (s, r)" "ro_launch_profile e = v"
      "rom_overrides st' = rom_overrides st @ [e]"
proof (cases "find_first (\<lambda>e. ro_key e = (s, r)) (rom_overrides st)")
  case None
  let ?e = "(slot_free zero_rom (rom_slots st))
      \<lparr>ro_system_id := s, ro_relative_path := r, ro_launch_profile := v\<rparr>"
  have "ro_key ?e = (s, r)" by (simp add: ro_key_def)
  with assms None show ?thesis
    by (intro new [of ?e])
      (auto simp: set_rom_core_override_def find_rom_plain rom_arg_ok_def fits_simps not_le split: if_splits)
next
  case (Some i)
  with assms show ?thesis
    by (intro old [of i]) (auto simp: set_rom_core_override_def find_rom_plain update_rom_def
        rom_arg_ok_def fits_simps)
qed

lemma ro_key_profile [simp]: "ro_key (e\<lparr>ro_launch_profile := v\<rparr>) = ro_key e"
  by (simp add: ro_key_def)

interpretation romprof: keyed_store rom_profile put_rom_profile del_rom "\<lambda>_ _ v. v" rom_ok plain_rom_key rom_arg_ok
proof unfold_locales
  fix st st' k k' v
  assume ok: "rom_ok st" and plain: "plain_rom_key k" and arg: "rom_arg_ok k v"
    and put: "ok_opt (set_rom_core_override st (fst k) (snd k) v) = Some st'"
  obtain s r where k: "k = (s, r)" by (cases k)
  have put': "set_rom_core_override st s r v = (True, st')" and arg': "rom_arg_ok (s, r) v"
    and plain': "plain_rom_key (s, r)" using put arg plain k by (simp_all add: ok_opt_Some)
  show "rom_profile st' k = Some v"
    using put' arg' plain'
  proof (cases rule: set_rom_cases)
    case (old i)
    then have "ro_key (rom_overrides st ! i) = (s, r)" using find_first_SomeD by fastforce
    with old k show ?thesis by (simp add: rom_profile_def lookup_update_same)
  next
    case (new e)
    with k show ?thesis by (simp add: rom_profile_def lookup_append_new)
  qed
  show "rom_profile st' k' = rom_profile st k'" if "k' \<noteq> k"
    using put' arg' plain'
  proof (cases rule: set_rom_cases)
    case (old i)
    then have "ro_key (rom_overrides st ! i) = (s, r)" using find_first_SomeD by fastforce
    with old that k show ?thesis by (simp add: rom_profile_def lookup_update_other)
  next
    case (new e)
    with that k show ?thesis by (simp add: rom_profile_def lookup_append_new)
  qed
  show "rom_ok st'"
    using put' arg' plain'
  proof (cases rule: set_rom_cases)
    case (old i)
    then have "ro_key (rom_overrides st ! i) = (s, r)" using find_first_SomeD by fastforce
    with old ok show ?thesis by (simp add: rom_ok_def map_key_update)
  next
    case (new e)
    with ok distinct_append_key [OF new(1), of e] show ?thesis by (simp add: rom_ok_def)
  qed
next
  fix st k k'
  assume ok: "rom_ok st" and plain: "plain_rom_key k"
  show "rom_profile (del_rom st k) k = None"
    using ok by (simp add: rom_profile_def clear_rom_remove [OF plain] rom_ok_def remove_key_same)
  show "rom_profile (del_rom st k) k' = rom_profile st k'" if "k' \<noteq> k"
    using that by (simp add: rom_profile_def clear_rom_remove [OF plain] remove_key_other)
  show "rom_ok (del_rom st k)"
    using ok remove_key_length [of ro_key k "rom_overrides st"]
    by (simp add: rom_ok_def clear_rom_remove [OF plain] remove_key_distinct)
qed

section \<open>Resolution as a chain\<close>

definition listed :: "core_system_def \<Rightarrow> string option \<Rightarrow> string option" where
  "listed system p = (case p of None \<Rightarrow> None | Some s \<Rightarrow> if core_profile_is_listed system s then Some s else None)"

lemma listed_member:
  "core_system_ok system \<Longrightarrow> core_profile_is_listed system p \<Longrightarrow> p \<in> set (launch_profiles system) \<and> length p < 128"
  by (auto simp: core_system_ok_def core_profile_listed_iff)

lemma sys_find_profile:
  "map_option (\<lambda>i. so_launch_profile (system_overrides st ! i)) (find_system_core_override st k) = system_profile st k"
  by (simp add: system_profile_def lookup_def find_system_core_override_def option.map_comp o_def)

lemma rom_find_profile:
  "plain_rom_key (s, r) \<Longrightarrow> map_option (\<lambda>i. ro_launch_profile (rom_overrides st ! i)) (find_rom_core_override st s r) =
     rom_profile st (s, r)"
  by (simp add: rom_profile_def lookup_def find_rom_plain option.map_comp o_def)

lemma resolve_launch_profile_chain:
  assumes "core_system_ok system" and "128 \<le> n" and "plain_rom_key (cs_id system, rel)"
  shows "resolve_launch_profile system st (Some rel) n =
    (True, case first_some [listed system (rom_profile st (cs_id system, rel)),
        listed system (system_profile st (cs_id system)),
        listed system (Some (default_launch_profile system))] of Some p \<Rightarrow> p | None \<Rightarrow> ''auto'')"
proof -
  have fit: "copy_string n p = (True, p)" if "core_profile_is_listed system p" for p
    using listed_member [OF assms(1) that] assms(2) by (simp add: copy_string_def)
  have auto: "copy_string n ''auto'' = (True, ''auto'')" using assms(2) by (simp add: copy_string_def)
  show ?thesis
    unfolding resolve_launch_profile_def Let_def sys_find_profile option.case rom_find_profile [OF assms(3)]
    using fit auto by (auto simp: listed_def split: option.splits)
qed

section \<open>Commands\<close>

text \<open>Every operation on the overrides, as a command on the state.\<close>

datatype override_command =
    Set_system_profile string string | Clear_system string | Clear_system_profile string
  | Set_system_cpu string string | Clear_system_cpu string
  | Set_rom_profile string string string | Clear_rom string string | Clear_rom_profile string string
  | Set_rom_cpu string string string | Clear_rom_cpu string string
  | Set_rom_suffix string string string | Clear_rom_suffix string string
  | Set_rom_audio_driver string string string | Set_rom_audio_latency string string int | Clear_rom_audio string string
  | Set_rom_force60fps string string string | Set_rom_cycles string string string | Clear_rom_dosbox string string

fun override_exec :: "core_override_state \<Rightarrow> override_command \<Rightarrow> core_override_state" where
  "override_exec st (Set_system_profile s p) = snd (set_system_core_override st s p)"
| "override_exec st (Clear_system s) = clear_system_core_override st s"
| "override_exec st (Clear_system_profile s) = clear_system_launch_profile_override st s"
| "override_exec st (Set_system_cpu s c) = snd (set_system_cpu_override st s c)"
| "override_exec st (Clear_system_cpu s) = clear_system_cpu_override st s"
| "override_exec st (Set_rom_profile s r p) = snd (set_rom_core_override st s r p)"
| "override_exec st (Clear_rom s r) = clear_rom_core_override st s r"
| "override_exec st (Clear_rom_profile s r) = clear_rom_launch_profile_override st s r"
| "override_exec st (Set_rom_cpu s r c) = snd (set_rom_cpu_override st s r c)"
| "override_exec st (Clear_rom_cpu s r) = clear_rom_cpu_override st s r"
| "override_exec st (Set_rom_suffix s r x) = snd (set_rom_content_suffix_override st s r x)"
| "override_exec st (Clear_rom_suffix s r) = clear_rom_content_suffix_override st s r"
| "override_exec st (Set_rom_audio_driver s r x) = snd (set_rom_audio_driver_override st s r x)"
| "override_exec st (Set_rom_audio_latency s r x) = snd (set_rom_audio_latency_override st s r x)"
| "override_exec st (Clear_rom_audio s r) = clear_rom_audio_override st s r"
| "override_exec st (Set_rom_force60fps s r x) = snd (set_rom_dosbox_force60fps_override st s r x)"
| "override_exec st (Set_rom_cycles s r x) = snd (set_rom_dosbox_cycles_override st s r x)"
| "override_exec st (Clear_rom_dosbox s r) = clear_rom_dosbox_override st s r"

text \<open>The ROM a command is about, and whether it sets or drops the launch profile of a ROM.\<close>

fun command_rom :: "override_command \<Rightarrow> (string \<times> string) option" where
  "command_rom (Set_rom_profile s r p) = Some (s, r)"
| "command_rom (Clear_rom s r) = Some (s, r)"
| "command_rom (Clear_rom_profile s r) = Some (s, r)"
| "command_rom (Set_rom_cpu s r c) = Some (s, r)"
| "command_rom (Clear_rom_cpu s r) = Some (s, r)"
| "command_rom (Set_rom_suffix s r x) = Some (s, r)"
| "command_rom (Clear_rom_suffix s r) = Some (s, r)"
| "command_rom (Set_rom_audio_driver s r x) = Some (s, r)"
| "command_rom (Set_rom_audio_latency s r n) = Some (s, r)"
| "command_rom (Clear_rom_audio s r) = Some (s, r)"
| "command_rom (Set_rom_force60fps s r x) = Some (s, r)"
| "command_rom (Set_rom_cycles s r x) = Some (s, r)"
| "command_rom (Clear_rom_dosbox s r) = Some (s, r)"
| "command_rom c = None"

fun decides_rom_profile :: "override_command \<Rightarrow> bool" where
  "decides_rom_profile (Set_rom_profile s r p) = True"
| "decides_rom_profile (Clear_rom s r) = True"
| "decides_rom_profile (Clear_rom_profile s r) = True"
| "decides_rom_profile c = False"

text \<open>A command that leaves the profile of \<open>k\<close> alone: on a system, on another ROM, or on another setting of the ROM.\<close>

definition leaves_profile :: "string \<times> string \<Rightarrow> override_command \<Rightarrow> bool" where
  "leaves_profile k c \<longleftrightarrow>
     (case command_rom c of
        None \<Rightarrow> True
      | Some k' \<Rightarrow> plain_rom_key k' \<and> length (fst k') < 64 \<and> length (snd k') < TEXT_PATH_MAX \<and> (k' = k \<longrightarrow> \<not> decides_rom_profile c))"

definition keeps_profile :: "string \<times> string \<Rightarrow> string \<Rightarrow> core_override_state \<Rightarrow> bool" where
  "keeps_profile k p st \<longleftrightarrow> rom_ok st \<and> rom_profile st k = Some p"

lemma keeps_roms: "rom_slots st' = rom_slots st \<Longrightarrow> keeps_profile k p st' = keeps_profile k p st"
  by (simp add: keeps_profile_def rom_ok_def rom_profile_def)

lemma keeps_update:
  assumes "keeps_profile k p st" and i: "find_first (\<lambda>e. ro_key e = k') (rom_overrides st) = Some i"
    and f: "ro_key (f (rom_overrides st ! i)) = k'" and "k' = k \<Longrightarrow> ro_launch_profile (f (rom_overrides st ! i)) = ro_launch_profile (rom_overrides st ! i)"
  shows "keeps_profile k p (update_rom i f st)"
proof (cases "k' = k")
  case True
  then show ?thesis using assms lookup_update_same [OF i f] lookup_find [OF i] map_key_update [OF i f]
    by (simp add: keeps_profile_def rom_ok_def rom_profile_def update_rom_def)
next
  case False
  then show ?thesis using assms lookup_update_other [OF i f, of k] map_key_update [OF i f]
    by (simp add: keeps_profile_def rom_ok_def rom_profile_def update_rom_def)
qed

lemma keeps_push:
  assumes "keeps_profile k p st" and n: "find_first (\<lambda>e. ro_key e = k') (rom_overrides st) = None"
    and e: "ro_key e = k'" and "length (rom_overrides st) < MAX_ROM_CORE_OVERRIDES"
  shows "keeps_profile k p (st\<lparr>rom_slots := slot_push e (rom_slots st)\<rparr>)"
proof -
  have "k \<noteq> k'" using assms(1) n by (auto simp: keeps_profile_def rom_profile_def lookup_def)
  then show ?thesis using assms lookup_append_new [OF n e, of k] distinct_append_key [OF n e]
    by (simp add: keeps_profile_def rom_ok_def rom_profile_def)
qed

lemma keeps_remove: "keeps_profile k p st \<Longrightarrow> plain_rom_key k' \<Longrightarrow> k' \<noteq> k \<Longrightarrow> keeps_profile k p (del_rom st k')"
  using romprof.del_inv remove_key_other [of k k' ro_key]
  by (simp add: keeps_profile_def rom_profile_def clear_rom_remove)

lemma keeps_entry:
  "keeps_profile k p st \<Longrightarrow> find_first (\<lambda>e. ro_key e = k) (rom_overrides st) = Some i \<Longrightarrow> ro_launch_profile (rom_overrides st ! i) = p"
  by (auto simp: keeps_profile_def rom_profile_def lookup_find)

lemma keeps_clear_field:
  assumes st: "keeps_profile k p st" and k': "plain_rom_key (s, r)" and p: "p \<noteq> []"
    and f: "\<And>e. ro_key (f e) = ro_key e" "\<And>e. (s, r) = k \<Longrightarrow> ro_launch_profile (f e) = ro_launch_profile e"
  shows "keeps_profile k p (clear_rom_field f st s r)"
proof (cases "find_first (\<lambda>e. ro_key e = (s, r)) (rom_overrides st)")
  case None
  then show ?thesis using st by (simp add: clear_rom_field_def find_rom_plain [OF k'])
next
  case (Some i)
  have key: "ro_key (rom_overrides st ! i) = (s, r)" and len: "i < length (rom_overrides st)" using find_first_SomeD [OF Some] by simp_all
  have u: "keeps_profile k p (update_rom i f st)"
    by (rule keeps_update [OF st Some]) (simp_all add: f key)
  show ?thesis
  proof (cases "rom_core_override_is_empty (rom_overrides (update_rom i f st) ! i)")
    case False
    then show ?thesis using u Some by (simp add: clear_rom_field_def find_rom_plain [OF k'] Let_def)
  next
    case True
    have "(s, r) \<noteq> k"
    proof
      assume e: "(s, r) = k"
      have "ro_launch_profile (f (rom_overrides st ! i)) = p" using f(2) [OF e] keeps_entry [OF st] Some e by simp
      then show False using True p len by (simp add: rom_core_override_is_empty_def update_rom_def)
    qed
    then show ?thesis using keeps_remove [OF u k'] True Some by (simp add: clear_rom_field_def find_rom_plain [OF k'] Let_def)
  qed
qed

lemma keeps_set:
  assumes st: "keeps_profile k p st" and k': "plain_rom_key (s, r)" "length s < 64" "length r < TEXT_PATH_MAX"
    and f: "\<And>e. ro_key (f e) = ro_key e" "\<And>e. (s, r) = k \<Longrightarrow> ro_launch_profile (f e) = ro_launch_profile e"
  shows "keeps_profile k p (snd (set_rom_field v b f st s r))"
proof (cases "find_first (\<lambda>e. ro_key e = (s, r)) (rom_overrides st)")
  case (Some i)
  have key: "ro_key (rom_overrides st ! i) = (s, r)" using find_first_SomeD [OF Some] by simp
  have "keeps_profile k p (update_rom i f st)" by (rule keeps_update [OF st Some]) (simp_all add: f key)
  then show ?thesis using st Some by (simp add: set_rom_field_def ensure_rom_core_override_def find_rom_plain [OF k'(1)])
next
  case None
  have nk: "ro_key (new_rom s r) = (s, r)" using k' by (simp add: new_rom_def ro_key_def fits_simps)
  let ?n = "length (rom_overrides st)" and ?st = "st\<lparr>rom_slots := slot_push (new_rom s r) (rom_slots st)\<rparr>"
  have "keeps_profile k p (update_rom ?n f ?st)" if full: "?n < MAX_ROM_CORE_OVERRIDES"
  proof (rule keeps_update)
    show "keeps_profile k p ?st" by (rule keeps_push [OF st None nk full])
    show "find_first (\<lambda>e. ro_key e = (s, r)) (rom_overrides ?st) = Some ?n"
      using None nk by (intro find_first_SomeI) (auto simp: find_first_None)
  qed (simp_all add: f nk)
  then show ?thesis using st None by (simp add: set_rom_field_def ensure_rom_core_override_def find_rom_plain [OF k'(1)])
qed

lemma ro_key_updates [simp]:
  "ro_key (e\<lparr>ro_cpu_policy := x\<rparr>) = ro_key e" "ro_key (e\<lparr>ro_cpu_freq_khz := n\<rparr>) = ro_key e"
  "ro_key (e\<lparr>ro_content_suffix := x\<rparr>) = ro_key e" "ro_key (e\<lparr>ro_audio_driver := x\<rparr>) = ro_key e"
  "ro_key (e\<lparr>ro_audio_latency_ms := n\<rparr>) = ro_key e" "ro_key (e\<lparr>ro_force60fps := x\<rparr>) = ro_key e" "ro_key (e\<lparr>ro_cycles := x\<rparr>) = ro_key e"
  by (simp_all add: ro_key_def)

lemmas rom_field_defs = clear_rom_cpu_override_def clear_rom_content_suffix_override_def clear_rom_audio_override_def
  clear_rom_dosbox_override_def clear_rom_launch_profile_override_def set_rom_content_suffix_override_def
  set_rom_audio_driver_override_def set_rom_audio_latency_override_def set_rom_dosbox_force60fps_override_def
  set_rom_dosbox_cycles_override_def

lemma keeps_cpu:
  assumes st: "keeps_profile k p st" and k': "plain_rom_key (s, r)" "length s < 64" "length r < TEXT_PATH_MAX"
  shows "keeps_profile k p (snd (set_rom_cpu_override st s r c))"
proof (cases "find_first (\<lambda>e. ro_key e = (s, r)) (rom_overrides st)")
  case (Some i)
  have key: "ro_key (rom_overrides st ! i) = (s, r)" using find_first_SomeD [OF Some] by simp
  have "keeps_profile k p (update_rom i (\<lambda>e. e\<lparr>ro_cpu_policy := stored 32 c, ro_cpu_freq_khz := 0\<rparr>) st)"
    by (rule keeps_update [OF st Some]) (simp_all add: key)
  then show ?thesis using st Some by (simp add: set_rom_cpu_override_def find_rom_plain [OF k'(1)])
next
  case None
  have nk: "ro_key ((new_rom s r)\<lparr>ro_cpu_policy := stored 32 c\<rparr>) = (s, r)" using k' by (simp add: new_rom_def ro_key_def fits_simps)
  show ?thesis using st keeps_push [OF st None nk] None by (simp add: set_rom_cpu_override_def find_rom_plain [OF k'(1)] not_le)
qed

lemma keeps_other_profile:
  assumes st: "keeps_profile k p st" and k': "plain_rom_key (s, r)" "length s < 64" "length r < TEXT_PATH_MAX" "(s, r) \<noteq> k"
  shows "keeps_profile k p (snd (set_rom_core_override st s r q))"
proof (cases "find_first (\<lambda>e. ro_key e = (s, r)) (rom_overrides st)")
  case (Some i)
  have key: "ro_key (rom_overrides st ! i) = (s, r)" using find_first_SomeD [OF Some] by simp
  have "keeps_profile k p (update_rom i (\<lambda>e. e\<lparr>ro_launch_profile := stored 128 q\<rparr>) st)"
    by (rule keeps_update [OF st Some]) (simp_all add: key k'(4))
  then show ?thesis using Some by (simp add: set_rom_core_override_def find_rom_plain [OF k'(1)])
next
  case None
  let ?e = "(slot_free zero_rom (rom_slots st))\<lparr>ro_system_id := stored 64 s, ro_relative_path := stored TEXT_PATH_MAX r,
      ro_launch_profile := stored 128 q\<rparr>"
  have nk: "ro_key ?e = (s, r)" using k' by (simp add: ro_key_def fits_simps)
  show ?thesis using st keeps_push [OF st None nk] None by (simp add: set_rom_core_override_def find_rom_plain [OF k'(1)] not_le)
qed

lemma system_commands_roms [simp]:
  "rom_slots (snd (set_system_core_override st s p)) = rom_slots st" "rom_slots (clear_system_core_override st s) = rom_slots st"
  "rom_slots (clear_sys_field g st s) = rom_slots st" "rom_slots (snd (set_system_cpu_override st s c)) = rom_slots st"
  by (auto simp: set_system_core_override_def clear_system_core_override_def clear_sys_field_def set_system_cpu_override_def
      update_sys_def Let_def split: option.splits)

lemma exec_keeps_profile:
  assumes "keeps_profile k p st" "p \<noteq> []" "leaves_profile k c"
  shows "keeps_profile k p (override_exec st c)"
proof -
  have sys: "keeps_profile k p (override_exec st c)" if "rom_slots (override_exec st c) = rom_slots st"
    using keeps_roms [OF that] assms(1) by blast
  have rom: "plain_rom_key (s, r) \<and> length s < 64 \<and> length r < TEXT_PATH_MAX \<and> ((s, r) = k \<longrightarrow> \<not> decides_rom_profile c)"
    if "command_rom c = Some (s, r)" for s r
    using assms(3) that by (simp add: leaves_profile_def)
  show ?thesis
  proof (cases c)
    case (Set_system_profile s q)
    then show ?thesis by (intro sys) (simp add: clear_system_launch_profile_override_def clear_system_cpu_override_def)
  next
    case (Clear_system s)
    then show ?thesis by (intro sys) (simp add: clear_system_launch_profile_override_def clear_system_cpu_override_def)
  next
    case (Clear_system_profile s)
    then show ?thesis by (intro sys) (simp add: clear_system_launch_profile_override_def clear_system_cpu_override_def)
  next
    case (Set_system_cpu s x)
    then show ?thesis by (intro sys) (simp add: clear_system_launch_profile_override_def clear_system_cpu_override_def)
  next
    case (Clear_system_cpu s)
    then show ?thesis by (intro sys) (simp add: clear_system_launch_profile_override_def clear_system_cpu_override_def)
  next
    case (Set_rom_profile s r q)
    then show ?thesis using rom [of s r] keeps_other_profile [OF assms(1), of s r q] by simp
  next
    case (Clear_rom s r)
    then show ?thesis using rom [of s r] keeps_remove [OF assms(1), of "(s, r)"] by simp
  next
    case (Clear_rom_profile s r)
    then show ?thesis using rom [of s r] by (simp add: rom_field_defs) (rule keeps_clear_field [OF assms(1) _ assms(2)], simp_all)
  next
    case (Set_rom_cpu s r x)
    then show ?thesis using rom [of s r] keeps_cpu [OF assms(1), of s r x] by simp
  next
    case (Clear_rom_cpu s r)
    then show ?thesis using rom [of s r] by (simp add: rom_field_defs) (rule keeps_clear_field [OF assms(1) _ assms(2)], simp_all)
  next
    case (Clear_rom_suffix s r)
    then show ?thesis using rom [of s r] by (simp add: rom_field_defs) (rule keeps_clear_field [OF assms(1) _ assms(2)], simp_all)
  next
    case (Clear_rom_audio s r)
    then show ?thesis using rom [of s r] by (simp add: rom_field_defs) (rule keeps_clear_field [OF assms(1) _ assms(2)], simp_all)
  next
    case (Clear_rom_dosbox s r)
    then show ?thesis using rom [of s r] by (simp add: rom_field_defs) (rule keeps_clear_field [OF assms(1) _ assms(2)], simp_all)
  next
    case (Set_rom_suffix s r x)
    then show ?thesis using rom [of s r] by (simp add: rom_field_defs) (rule keeps_set [OF assms(1)], simp_all)
  next
    case (Set_rom_audio_driver s r x)
    then show ?thesis using rom [of s r] by (simp add: rom_field_defs) (rule keeps_set [OF assms(1)], simp_all)
  next
    case (Set_rom_audio_latency s r x)
    then show ?thesis using rom [of s r] by (simp add: rom_field_defs) (rule keeps_set [OF assms(1)], simp_all)
  next
    case (Set_rom_force60fps s r x)
    then show ?thesis using rom [of s r] by (simp add: rom_field_defs) (rule keeps_set [OF assms(1)], simp_all)
  next
    case (Set_rom_cycles s r x)
    then show ?thesis using rom [of s r] by (simp add: rom_field_defs) (rule keeps_set [OF assms(1)], simp_all)
  qed
qed

lemma run_keeps_profile:
  "keeps_profile k p st \<Longrightarrow> p \<noteq> [] \<Longrightarrow> list_all (leaves_profile k) cs \<Longrightarrow> keeps_profile k p (foldl override_exec st cs)"
  by (induction cs arbitrary: st) (simp_all add: exec_keeps_profile)

section \<open>Properties\<close>

text \<open>
  C3: an override of a ROM's launch profile takes effect, for that ROM only, and lasts. After a profile the system lists has been
  set for a ROM, resolving the ROM's profile gives it, whatever commands follow that do not set or clear the profile of this ROM: commands
  on systems, on other ROMs and on the other settings of the ROM. Setting it changes the profile of no other ROM; and once the override
  is removed, the ROM resolves to what it would with no override of its own.
\<close>

theorem rom_override_takes_effect:
  assumes "core_system_ok system" and "rom_ok st" and "plain_rom_key (cs_id system, rel)"
    and "rom_arg_ok (cs_id system, rel) p" and "core_profile_is_listed system p"
    and "set_rom_core_override st (cs_id system) rel p = (True, st')" and "list_all (leaves_profile (cs_id system, rel)) cmds"
  shows "resolve_launch_profile system (foldl override_exec st' cmds) (Some rel) 128 = (True, p) \<and>
    (\<forall>other. other \<noteq> rel \<longrightarrow> plain_rom_key (cs_id system, other) \<longrightarrow>
       resolve_launch_profile system st' (Some other) 128 = resolve_launch_profile system st (Some other) 128) \<and>
    resolve_launch_profile system (clear_rom_core_override st' (cs_id system) rel) (Some rel) 128 =
      resolve_launch_profile system st' None 128"
proof -
  let ?k = "(cs_id system, rel)"
  have ne: "p \<noteq> []" using listed_member [OF assms(1,5)] assms(1) by (auto simp: core_system_ok_def valid_launch_profile_id_def)
  have put: "put_rom_profile st ?k p = Some st'" using assms(6) by (simp add: ok_opt_Some)
  have sys: "system_profile st' k = system_profile st k" for k
    using assms(6) by (auto simp: set_rom_core_override_def update_rom_def system_profile_def split: option.splits if_splits)
  have same: "rom_profile st' ?k = Some p" by (rule romprof.put_same [OF assms(2,3,4) put])
  have "keeps_profile ?k p st'" using same romprof.put_inv [OF assms(2,3,4) put] by (simp add: keeps_profile_def)
  then have lasts: "rom_profile (foldl override_exec st' cmds) ?k = Some p"
    using run_keeps_profile [OF _ ne assms(7)] by (simp add: keeps_profile_def)
  have other: "rom_profile st' (cs_id system, r) = rom_profile st (cs_id system, r)"
    if "r \<noteq> rel" "plain_rom_key (cs_id system, r)" for r
    using romprof.put_other [OF assms(2,3,4) that(2) put] that(1) by simp
  have gone: "rom_profile (clear_rom_core_override st' (cs_id system) rel) ?k = None"
    using romprof.del_same [OF romprof.put_inv [OF assms(2,3,4) put] assms(3)] by simp
  have sysgone: "system_profile (clear_rom_core_override st' (cs_id system) rel) k = system_profile st' k" for k
    by (simp add: clear_rom_core_override_def system_profile_def split: option.splits)
  have fit: "copy_string 128 q = (True, q)" if "core_profile_is_listed system q" for q
    using listed_member [OF assms(1) that] by (simp add: copy_string_def)
  have none: "resolve_launch_profile system st' None 128 =
      (True, case first_some [listed system (system_profile st' (cs_id system)),
        listed system (Some (default_launch_profile system))] of Some p \<Rightarrow> p | None \<Rightarrow> ''auto'')"
    using fit unfolding resolve_launch_profile_def Let_def sys_find_profile
    by (auto simp: listed_def copy_string_def split: option.splits)
  show ?thesis
    using resolve_launch_profile_chain [OF assms(1)] assms(3,5) lasts other gone sys sysgone none
    by (simp add: listed_def)
qed

lemma demo_system_listed: "core_profile_is_listed demo_system ''retroarch:fceumm''"
  by (simp add: core_profile_is_listed_def core_profile_index_def demo_system_def)

theorem rom_override_takes_effect_witness:
  "\<exists>st'. set_rom_core_override init_core_override_state ''nes'' ''a.zip'' ''retroarch:fceumm'' = (True, st') \<and>
     resolve_launch_profile demo_system
       (foldl override_exec st' [Set_rom_profile ''nes'' ''b.zip'' ''retroarch:x'', Clear_rom_cpu ''nes'' ''a.zip'', Clear_system ''nes''])
       (Some ''a.zip'') 128 = (True, ''retroarch:fceumm'')"
proof -
  let ?cmds = "[Set_rom_profile ''nes'' ''b.zip'' ''retroarch:x'', Clear_rom_cpu ''nes'' ''a.zip'', Clear_system ''nes'']"
  have id: "cs_id demo_system = ''nes''" by (simp add: demo_system_def)
  obtain st' where st': "set_rom_core_override init_core_override_state ''nes'' ''a.zip'' ''retroarch:fceumm'' = (True, st')"
    by (simp add: set_rom_core_override_def find_rom_core_override_def init_core_override_state_def
        MAX_ROM_CORE_OVERRIDES_def)
  have "resolve_launch_profile demo_system (foldl override_exec st' ?cmds) (Some ''a.zip'') 128 = (True, ''retroarch:fceumm'')"
    using rom_override_takes_effect [of demo_system init_core_override_state "''a.zip''" "''retroarch:fceumm''" st' ?cmds]
      demo_system_ok demo_system_listed st'
    by (simp add: id rom_ok_def init_core_override_state_def MAX_ROM_CORE_OVERRIDES_def plain_rom_key_def
        rom_arg_ok_def TEXT_PATH_MAX_def leaves_profile_def)
  with st' show ?thesis by blast
qed

text \<open>
  The profile that is launched is always one the system offers. Whatever the overrides hold (they
  come from a file), the profile that is resolved is in the system's own list, or it is \<open>auto\<close>.
\<close>

theorem resolved_profile_is_listed:
  assumes "core_system_ok system"
  shows "\<exists>p. resolve_launch_profile system st rel 128 = (True, p) \<and>
    (p \<in> set (launch_profiles system) \<or> p = ''auto'')"
proof -
  have fit: "copy_string 128 p = (True, p) \<and> p \<in> set (launch_profiles system)"
    if "core_profile_is_listed system p" for p
    using listed_member [OF assms that] by (simp add: copy_string_def)
  have "copy_string 128 ''auto'' = (True, ''auto'')" by (simp add: copy_string_def)
  with fit show ?thesis unfolding resolve_launch_profile_def Let_def by auto
qed

theorem resolved_profile_is_listed_witness:
  "\<exists>p. resolve_launch_profile demo_system init_core_override_state None 128 = (True, p) \<and>
    (p \<in> set (launch_profiles demo_system) \<or> p = ''auto'')"
  by (rule resolved_profile_is_listed [OF demo_system_ok])

text \<open>
  The CPU policy that is resolved is safe to pass on: it is empty (the launcher decides) or one of the
  five known governors, and the source that is reported says which: an empty policy is always reported as the
  launcher's default and no other is.
\<close>

theorem resolved_cpu_policy_ok:
  "(fst (resolve_cpu_setting system st rel 32) = [] \<or> valid_cpu_policy (fst (resolve_cpu_setting system st rel 32))) \<and>
   (fst (resolve_cpu_setting system st rel 32) = [] \<longleftrightarrow>
      snd (resolve_cpu_setting system st rel 32) = ''launcher default'')"
proof -
  have c: "copy_cpu_setting 32 s = (if valid_cpu_policy s then Some s else None)" for s
    by (auto simp: copy_cpu_setting_def valid_cpu_policy_def fits_simps)
  have "\<not> valid_cpu_policy []" by (simp add: valid_cpu_policy_def)
  then show ?thesis
    by (auto simp: resolve_cpu_setting_def Let_def c split: option.splits if_splits)
qed

text \<open>
  A DOS game and the files inside its package share one override. When only the package has an
  entry, setting a profile for a path with a content suffix changes the package's entry, which is also
  what the package itself resolves from then on.
\<close>

theorem dos_suffix_shares_override:
  assumes "split_content_suffix TEXT_PATH_MAX rel = (True, base, Some sfx)" and "valid_relative_rom_path base"
    and "find_first (\<lambda>e. ro_system_id e = ''dos'' \<and> ro_relative_path e = rel) (rom_overrides st) = None"
    and "find_rom_core_override st ''dos'' base = Some i" and "length p < 128"
    and "set_rom_core_override st ''dos'' rel p = (True, st')"
  shows "find_rom_core_override st' ''dos'' base = Some i \<and> ro_launch_profile (rom_overrides st' ! i) = p \<and>
    length (rom_overrides st') = length (rom_overrides st)"
proof -
  have plain: "plain_rom_key (''dos'', base)"
    using split_content_suffix_parts [OF assms(1)] by (simp add: plain_rom_key_def)
  then have i: "find_first (\<lambda>e. ro_key e = (''dos'', base)) (rom_overrides st) = Some i"
    using assms(4) by (simp add: find_rom_plain)
  have "find_rom_core_override st ''dos'' rel = Some i"
    using assms(1-3) i by (simp add: find_rom_core_override_def find_rom_exact)
  then have st': "rom_overrides st' = (rom_overrides st)[i := (rom_overrides st ! i)\<lparr>ro_launch_profile := p\<rparr>]"
    using assms(5,6) by (auto simp: set_rom_core_override_def update_rom_def fits_simps)
  have key: "ro_key (rom_overrides st ! i) = (''dos'', base)" and len: "i < length (rom_overrides st)"
    using find_first_SomeD [OF i] by simp_all
  have "find_first (\<lambda>e. ro_key e = (''dos'', base)) (rom_overrides st') = Some i"
    using find_first_SomeD [OF i] key len st' by (intro find_first_SomeI) auto
  with plain st' len show ?thesis by (simp add: find_rom_plain)
qed

definition demo_dos :: core_override_state where
  "demo_dos = \<lparr>sys_slots = ([], []),
     rom_slots = ([zero_rom\<lparr>ro_system_id := ''dos'', ro_relative_path := ''g.zip''\<rparr>], [])\<rparr>"

theorem dos_suffix_shares_override_witness:
  "\<exists>st'. set_rom_core_override demo_dos ''dos'' ''g.zip#a'' ''retroarch:x'' = (True, st') \<and>
     find_rom_core_override st' ''dos'' ''g.zip'' = Some 0"
proof -
  have sp: "split_content_suffix TEXT_PATH_MAX ''g.zip#a'' = (True, ''g.zip'', Some ''#a'')"
    "split_content_suffix TEXT_PATH_MAX ''g.zip'' = (True, ''g.zip'', None)"
    by (simp_all add: split_content_suffix_def valid_content_suffix_def contains_str_def code_of_def
        TEXT_PATH_MAX_def copy_string_def)
  have v: "valid_relative_rom_path ''g.zip''" by (simp add: valid_relative_rom_path_def contains_str_def)
  have f: "find_first (\<lambda>e. ro_system_id e = ''dos'' \<and> ro_relative_path e = ''g.zip#a'') (rom_overrides demo_dos) = None"
    "find_rom_core_override demo_dos ''dos'' ''g.zip'' = Some 0"
    "find_rom_core_override demo_dos ''dos'' ''g.zip#a'' = Some 0"
    by (simp_all add: demo_dos_def zero_rom_def find_rom_core_override_def sp v)
  then obtain st' where st': "set_rom_core_override demo_dos ''dos'' ''g.zip#a'' ''retroarch:x'' = (True, st')"
    by (simp add: set_rom_core_override_def fits_simps)
  from dos_suffix_shares_override [OF sp(1) v f(1,2) _ st'] st' show ?thesis by auto
qed

end
