(* ===== verification/TextOverridesFile.thy ===== *)
theory TextOverridesFile
  imports TextOverridesProofs
begin

text \<open>
  The overrides file: rows with optional fields, two arrays, and that loading a saved state gives the
  state back.
\<close>

section \<open>Rows with optional fields\<close>

definition opt_field :: "string \<Rightarrow> string \<Rightarrow> field list" where
  "opt_field key s = (if s = [] then [] else [(key, JStr s)])"

lemma opt_field_empty [simp]: "opt_field k [] = []"
  by (simp add: opt_field_def)

lemma map_of_opt [simp]:
  "map_of (opt_field k s @ fs) key = (if s \<noteq> [] \<and> k = key then Some (JStr s) else map_of fs key)"
  by (simp add: opt_field_def)

lemma map_of_opt_last [simp]:
  "map_of (opt_field k s) key = (if s \<noteq> [] \<and> k = key then Some (JStr s) else None)"
  by (simp add: opt_field_def)

definition sep_field :: "field \<Rightarrow> string" where
  "sep_field f = field_sep @ field_text f"

lemma fields_text_Cons: "fields_text field_sep (f # fs) = field_text f @ concat (map sep_field fs)"
  by (induction fs arbitrary: f) (auto simp: sep_field_def)

definition opt_text :: "string \<Rightarrow> string \<Rightarrow> string" where
  "opt_text key s = (if s \<noteq> [] then sep_field (key, JStr s) else [])"

lemma concat_opt: "concat (map sep_field (opt_field k s)) = opt_text k s"
  by (simp add: opt_field_def opt_text_def)

lemmas row_layout = object_text_def fields_text_Cons concat_append map_append concat_opt
lemmas row_text = opt_text_def sep_field_def field_text_def

lemma fields_ok_opt: "simple_key k \<Longrightarrow> NUL \<notin> set s \<Longrightarrow> fields_ok (opt_field k s)"
  by (simp add: opt_field_def fields_ok_def)

lemma fields_ok_append: "fields_ok (xs @ ys) \<longleftrightarrow> fields_ok xs \<and> fields_ok ys"
  by (simp add: fields_ok_def)

lemma opt_field_keys: "fst ` set (opt_field k s) \<subseteq> {k}"
  by (simp add: opt_field_def)

lemma override_keys [simp]:
  "simple_key ''cpu_policy''" "simple_key ''content_suffix''" "simple_key ''audio_driver''"
  "simple_key ''audio_latency_ms''" "simple_key ''dosbox_pure_force60fps''"
  "simple_key ''dosbox_pure_cycles''" "simple_key ''system_overrides''" "simple_key ''rom_overrides''"
  "simple_key ''system_id''" "simple_key ''relative_path''" "simple_key ''launch_profile''"
  by (simp_all add: simple_key_def isalnum_def isdigit_def code_of_def)

section \<open>System rows\<close>

definition sys_entry_ok :: "system_core_override \<Rightarrow> bool" where
  "sys_entry_ok e \<longleftrightarrow> accept_system_override e \<and> str_ok 64 (so_system_id e) \<and>
     str_ok 128 (so_launch_profile e) \<and> str_ok 32 (so_cpu_policy e) \<and> so_cpu_freq_khz e = 0"

definition sys_fields :: "system_core_override \<Rightarrow> field list" where
  "sys_fields e = (''system_id'', JStr (so_system_id e)) # opt_field ''launch_profile'' (so_launch_profile e) @
     opt_field ''cpu_policy'' (so_cpu_policy e)"

lemma system_override_text_fields:
  "so_cpu_freq_khz e = 0 \<Longrightarrow> system_override_text e = object_text field_sep (sys_fields e)"
  unfolding system_override_text_def sys_fields_def row_layout
  by (simp add: row_text cong: if_cong split del: if_split)

lemma fields_ok_str: "fields_ok ((k, JStr s) # fs) \<longleftrightarrow> simple_key k \<and> NUL \<notin> set s \<and> fields_ok fs"
  by (simp add: fields_ok_def)

lemma sys_fields_ok:
  assumes "sys_entry_ok e"
  shows "fields_ok (sys_fields e)"
proof -
  have "NUL \<notin> set (so_system_id e)" "NUL \<notin> set (so_launch_profile e)" "NUL \<notin> set (so_cpu_policy e)"
    using assms by (simp_all add: sys_entry_ok_def str_ok_def)
  then show ?thesis by (simp add: sys_fields_def fields_ok_append fields_ok_str fields_ok_opt)
qed

lemma parse_system_written:
  assumes "sys_entry_ok e"
  shows "parse_system_override (object_text field_sep (sys_fields e)) = e"
proof -
  note g = text_get_string_optional [OF sys_fields_ok [OF assms] field_sep_ok]
  have "so_system_id e \<noteq> []"
    using assms by (auto simp: sys_entry_ok_def accept_system_override_def valid_system_id_def)
  then have
    "snd (text_json_get_string (object_text field_sep (sys_fields e)) 0
       (length (object_text field_sep (sys_fields e))) ''system_id'' 64 []) = so_system_id e"
    "snd (text_json_get_string (object_text field_sep (sys_fields e)) 0
       (length (object_text field_sep (sys_fields e))) ''launch_profile'' 128 []) = so_launch_profile e"
    "snd (text_json_get_string (object_text field_sep (sys_fields e)) 0
       (length (object_text field_sep (sys_fields e))) ''cpu_policy'' 32 []) = so_cpu_policy e"
    using assms by (intro g; simp add: sys_entry_ok_def sys_fields_def del: map_of_append)+
  then show ?thesis using assms by (simp add: parse_system_override_def sys_entry_ok_def)
qed

interpretation sys_json: json_table sys_fields parse_system_override sys_entry_ok
  "\<lambda>_. accept_system_override" "list_all sys_entry_ok"
  by unfold_locales (simp_all add: sys_fields_ok parse_system_written sys_entry_ok_def [of e for e])

lemma add_system_override_row: "add_system_override = sys_json.take_row"
  by (intro ext) (simp add: add_system_override_def sys_json.take_row_def Let_def)

section \<open>ROM rows\<close>

definition rom_entry_ok :: "rom_core_override \<Rightarrow> bool" where
  "rom_entry_ok e \<longleftrightarrow> accept_rom_override e \<and> str_ok 64 (ro_system_id e) \<and>
     str_ok TEXT_PATH_MAX (ro_relative_path e) \<and>
     str_ok 128 (ro_launch_profile e) \<and> str_ok 32 (ro_cpu_policy e) \<and> ro_cpu_freq_khz e = 0 \<and>
     str_ok 256 (ro_content_suffix e) \<and> (ro_content_suffix e = [] \<or> valid_content_suffix (ro_content_suffix e)) \<and>
     str_ok 16 (ro_audio_driver e) \<and> (ro_audio_driver e = [] \<or> valid_retroarch_audio_driver (ro_audio_driver e)) \<and>
     0 \<le> ro_audio_latency_ms e \<and> ro_audio_latency_ms e \<le> 1000 \<and>
     str_ok 16 (ro_force60fps e) \<and> (ro_force60fps e = [] \<or> valid_dosbox_bool (ro_force60fps e)) \<and>
     str_ok 32 (ro_cycles e) \<and> (ro_cycles e = [] \<or> valid_dosbox_cycles (ro_cycles e))"

definition latency_field :: "int \<Rightarrow> field list" where
  "latency_field v = (if 0 < v then [(''audio_latency_ms'', JRaw (show_nat (nat v)))] else [])"

definition rom_fields :: "rom_core_override \<Rightarrow> field list" where
  "rom_fields e = (''system_id'', JStr (ro_system_id e)) # (''relative_path'', JStr (ro_relative_path e)) #
     opt_field ''launch_profile'' (ro_launch_profile e) @ opt_field ''cpu_policy'' (ro_cpu_policy e) @
     opt_field ''content_suffix'' (ro_content_suffix e) @ opt_field ''audio_driver'' (ro_audio_driver e) @
     latency_field (ro_audio_latency_ms e) @
     opt_field ''dosbox_pure_force60fps'' (ro_force60fps e) @ opt_field ''dosbox_pure_cycles'' (ro_cycles e)"

lemma map_of_latency [simp]:
  "map_of (latency_field v @ fs) key =
     (if 0 < v \<and> key = ''audio_latency_ms'' then Some (JRaw (show_nat (nat v))) else map_of fs key)"
  by (simp add: latency_field_def)

lemma concat_latency:
  "concat (map sep_field (latency_field v)) =
     (if 0 < v then sep_field (''audio_latency_ms'', JRaw (show_nat (nat v))) else [])"
  by (simp add: latency_field_def)

lemma rom_override_text_fields:
  "ro_cpu_freq_khz e = 0 \<Longrightarrow> rom_override_text e = object_text field_sep (rom_fields e)"
  unfolding rom_override_text_def rom_fields_def row_layout concat_latency
    list.map concat.simps sep_field_def [of "(''relative_path'', JStr (ro_relative_path e))"]
  by (simp add: row_text show_int_def cong: if_cong split del: if_split)

lemma latency_field_ok: "fields_ok (latency_field v)"
  using show_nat_raw by (simp add: latency_field_def fields_ok_def)

lemma rom_fields_ok:
  assumes "rom_entry_ok e"
  shows "fields_ok (rom_fields e)"
proof -
  have "NUL \<notin> set (ro_system_id e)" "NUL \<notin> set (ro_relative_path e)" "NUL \<notin> set (ro_launch_profile e)"
    "NUL \<notin> set (ro_cpu_policy e)" "NUL \<notin> set (ro_content_suffix e)" "NUL \<notin> set (ro_audio_driver e)"
    "NUL \<notin> set (ro_force60fps e)" "NUL \<notin> set (ro_cycles e)"
    using assms by (simp_all add: rom_entry_ok_def str_ok_def)
  then show ?thesis
    using latency_field_ok by (simp add: rom_fields_def fields_ok_append fields_ok_str fields_ok_opt)
qed

lemma parse_rom_written:
  assumes "rom_entry_ok e"
  shows "parse_rom_override (object_text field_sep (rom_fields e)) = e"
proof -
  let ?t = "object_text field_sep (rom_fields e)"
  note ok = rom_fields_ok [OF assms]
  note g = text_get_string_optional [OF ok field_sep_ok]
  have ne: "ro_system_id e \<noteq> []" "ro_relative_path e \<noteq> []"
    using assms by (auto simp: rom_entry_ok_def accept_rom_override_def valid_system_id_def valid_relative_rom_path_def)
  have strings:
    "snd (text_json_get_string ?t 0 (length ?t) ''system_id'' 64 []) = ro_system_id e"
    "snd (text_json_get_string ?t 0 (length ?t) ''relative_path'' TEXT_PATH_MAX []) = ro_relative_path e"
    "snd (text_json_get_string ?t 0 (length ?t) ''launch_profile'' 128 []) = ro_launch_profile e"
    "snd (text_json_get_string ?t 0 (length ?t) ''cpu_policy'' 32 []) = ro_cpu_policy e"
    "snd (text_json_get_string ?t 0 (length ?t) ''content_suffix'' 256 []) = ro_content_suffix e"
    "snd (text_json_get_string ?t 0 (length ?t) ''audio_driver'' 16 []) = ro_audio_driver e"
    "snd (text_json_get_string ?t 0 (length ?t) ''dosbox_pure_force60fps'' 16 []) = ro_force60fps e"
    "snd (text_json_get_string ?t 0 (length ?t) ''dosbox_pure_cycles'' 32 []) = ro_cycles e"
    using assms ne by (intro g; simp add: rom_entry_ok_def rom_fields_def del: map_of_append)+
  have "json_get_long ?t 0 (length ?t) ''audio_latency_ms'' 0 = ro_audio_latency_ms e"
  proof (cases "0 < ro_audio_latency_ms e")
    case True
    then have "map_of (rom_fields e) ''audio_latency_ms'' = Some (JRaw (show_nat (nat (ro_audio_latency_ms e))))"
      by (simp add: rom_fields_def del: map_of_append)
    moreover have "int (nat (ro_audio_latency_ms e)) \<le> LONG_MAX"
      using assms by (simp add: rom_entry_ok_def LONG_MAX_def)
    ultimately show ?thesis
      using get_long_object [OF ok field_sep_ok, of "''audio_latency_ms''"] True by simp
  next
    case False
    then have "map_of (rom_fields e) ''audio_latency_ms'' = None"
      by (simp add: rom_fields_def del: map_of_append)
    then have "''audio_latency_ms'' \<notin> fst ` set (rom_fields e)" by (simp add: map_of_eq_None_iff)
    with get_long_absent [OF ok field_sep_ok, of "''audio_latency_ms''"] False assms
    show ?thesis by (simp add: rom_entry_ok_def)
  qed
  with strings assms show ?thesis
    by (intro rom_core_override.equality) (auto simp: parse_rom_override_def rom_entry_ok_def Let_def)
qed

interpretation rom_json: json_table rom_fields parse_rom_override rom_entry_ok
  "\<lambda>_. accept_rom_override" "list_all rom_entry_ok"
  by unfold_locales (simp_all add: rom_fields_ok parse_rom_written rom_entry_ok_def [of e for e])

lemma add_rom_override_row: "add_rom_override = rom_json.take_row"
  by (intro ext) (simp add: add_rom_override_def rom_json.take_row_def Let_def)

section \<open>The file\<close>

lemma entries_text_cong:
  "(\<And>e. e \<in> set es \<Longrightarrow> f e = g e) \<Longrightarrow> entries_text f es = entries_text g es"
  by (induction f es rule: entries_text.induct) auto

lemma sys_rows: "list_all sys_entry_ok es \<Longrightarrow> entries_text system_override_text es = entries_text sys_json.row es"
  by (rule entries_text_cong)
    (auto simp: list_all_iff sys_entry_ok_def sys_json.row_def intro!: system_override_text_fields)

lemma rom_rows: "list_all rom_entry_ok es \<Longrightarrow> entries_text rom_override_text es = entries_text rom_json.row es"
  by (rule entries_text_cong)
    (auto simp: list_all_iff rom_entry_ok_def rom_json.row_def intro!: rom_override_text_fields)

lemma save_core_overrides_arrays:
  assumes "list_all sys_entry_ok (system_overrides st)" and "list_all rom_entry_ok (rom_overrides st)"
  shows "save_core_overrides_text st =
    file_head ''system_overrides'' @ array_text sys_json.row (system_overrides st) @
    '','' @ [NL] @ ''  '' @ DQ # ''rom_overrides'' @ DQ # CHR '':'' # CHR '' '' #
      CHR ''['' # [NL] @ entries_text rom_json.row (rom_overrides st) @ ''  ]'' @ [NL] @ ''}'' @ [NL]"
  by (simp add: save_core_overrides_text_def sys_rows [OF assms(1)] rom_rows [OF assms(2)] file_head_def array_text_def)

lemma sys_fields_no_rom_key: "''rom_overrides'' \<notin> fst ` set (sys_fields e)"
proof -
  have "map_of (sys_fields e) ''rom_overrides'' = None" by (simp add: sys_fields_def del: map_of_append)
  then show ?thesis by (simp add: map_of_eq_None_iff)
qed

section \<open>Properties\<close>

text \<open>
  Saved overrides load back unchanged. For every state whose entries are what the setters make (valid
  names and options that fit their slots, no control characters), reading the file that
  \<open>save_core_overrides\<close> prints gives the same system and ROM entries, in the same order, with
  every optional field, and with clean slots behind them.
\<close>

theorem overrides_save_load:
  assumes "file_exists w path" and "os_read w path = Some (save_core_overrides_text st)"
    and "list_all sys_entry_ok (system_overrides st)" and "list_all rom_entry_ok (rom_overrides st)"
    and "length (system_overrides st) \<le> MAX_SYSTEM_CORE_OVERRIDES"
    and "length (rom_overrides st) \<le> MAX_ROM_CORE_OVERRIDES"
  shows "load_core_overrides w path =
    (True, \<lparr>sys_slots = (system_overrides st, []), rom_slots = (rom_overrides st, [])\<rparr>)"
proof -
  let ?t = "save_core_overrides_text st"
  note t = save_core_overrides_arrays [OF assms(3,4)]
  from sys_json.load_file [OF t _ _ assms(3,3,5)]
  obtain s be where sys: "json_find_array ?t 0 (length ?t) ''system_overrides'' = Some (s, be)"
    "json_each_object ?t be s (\<lambda>es. length es < MAX_SYSTEM_CORE_OVERRIDES)
       (\<lambda>os oe es. sys_json.take_row (range_dup ?t os oe) es) [] = system_overrides st"
    by auto
  have row: "sys_json.row = (\<lambda>e. object_text field_sep (sys_fields e))"
    by (rule ext) (simp add: sys_json.row_def)
  have "\<exists>q. json_find_key_value ?t 0 (length ?t) ''rom_overrides'' = Some q \<and>
      drop q ?t = CHR ''['' # [NL] @ entries_text rom_json.row (rom_overrides st) @ ''  ]'' @ [NL] @ ''}'' @ [NL]"
    using assms(3) sys_fields_ok sys_fields_no_rom_key
    by (intro second_array_find [OF t [unfolded row]]) (auto simp: list_all_iff isspace_def)
  then obtain q where q: "json_find_key_value ?t 0 (length ?t) ''rom_overrides'' = Some q"
    and d: "drop q ?t = array_text rom_json.row (rom_overrides st) @ [NL] @ ''}'' @ [NL]"
    by (auto simp: array_text_def)
  have "q + length (array_text rom_json.row (rom_overrides st)) \<le> length ?t"
    using arg_cong [OF d, of length] by simp
  from rom_json.load_array [OF d this assms(4,4,6)] q
  obtain be' where rom: "json_find_array ?t 0 (length ?t) ''rom_overrides'' = Some (q + 1, be')"
    "json_each_object ?t be' (q + 1) (\<lambda>es. length es < MAX_ROM_CORE_OVERRIDES)
       (\<lambda>os oe es. rom_json.take_row (range_dup ?t os oe) es) [] = rom_overrides st"
    by (auto simp: json_find_array_def)
  show ?thesis
    using assms(1,2) sys rom
    by (simp add: load_core_overrides_def add_system_override_row add_rom_override_row)
qed

definition demo_overrides :: core_override_state where
  "demo_overrides = \<lparr>sys_slots = ([zero_sys\<lparr>so_system_id := ''nes'', so_cpu_policy := ''performance''\<rparr>], []),
     rom_slots = ([zero_rom\<lparr>ro_system_id := ''dos'', ro_relative_path := ''g.zip'',
       ro_launch_profile := ''retroarch:a'', ro_audio_latency_ms := 64\<rparr>], [])\<rparr>"

theorem overrides_save_load_witness:
  "load_core_overrides (demo_file_os (save_core_overrides_text demo_overrides)) ''/f'' =
    (True, \<lparr>sys_slots = (system_overrides demo_overrides, []), rom_slots = (rom_overrides demo_overrides, [])\<rparr>)"
proof (rule overrides_save_load)
  show "list_all sys_entry_ok (system_overrides demo_overrides)"
    by (simp add: demo_overrides_def zero_sys_def sys_entry_ok_def accept_system_override_def str_ok_def
        valid_system_id_def valid_cpu_policy_def plain_char_def isalnum_def isdigit_def code_of_def)
  show "list_all rom_entry_ok (rom_overrides demo_overrides)"
    by (simp add: demo_overrides_def zero_rom_def rom_entry_ok_def accept_rom_override_def str_ok_def
        valid_system_id_def valid_relative_rom_path_def contains_str_def valid_launch_profile_id_def
        TEXT_PATH_MAX_def plain_char_def isalnum_def isdigit_def code_of_def)
qed (simp_all add: demo_file_os_def file_exists_def demo_overrides_def MAX_SYSTEM_CORE_OVERRIDES_def
    MAX_ROM_CORE_OVERRIDES_def)

text \<open>
  A cleared setting can come back under another name. \<open>set_system_core_override\<close> does not clear the
  slot it takes, so after a system's CPU policy has been set and its entry removed, the next system that is
  given a launch profile starts with that policy; \<open>set_system_cpu_override\<close>, which clears the slot,
  does not have this effect.
\<close>

theorem stale_slot_returns:
  "(let st1 = snd (set_system_cpu_override init_core_override_state ''nes'' ''performance'');
        st2 = clear_system_core_override st1 ''nes'';
        st3 = snd (set_system_core_override st2 ''gb'' ''retroarch:gambatte'');
        st4 = snd (set_system_cpu_override st2 ''gb'' ''ondemand'')
    in system_overrides st2 = [] \<and>
       map so_system_id (system_overrides st3) = [''gb''] \<and>
       map so_cpu_policy (system_overrides st3) = [''performance''] \<and>
       map so_cpu_policy (system_overrides st4) = [''ondemand''] \<and>
       map so_launch_profile (system_overrides st4) = [[]])"
  by code_simp

end
