(* ===== verification/ExecGuard.thy ===== *)
theory ExecGuard
  imports TextValid
begin

text \<open>
  The preload library that keeps the environment of a PortMaster session alive across
  \<open>execve\<close> and \<open>posix_spawn\<close> (\<open>package/portmaster-bubble/src/plumos_portmaster_exec_guard.c\<close>).
  An environment is the list of its \<open>NAME=value\<close> strings; a null pointer is \<open>None\<close>. Whether the
  allocations succeed is a parameter, numbered in the order of the calls; the functions of the C library the
  wrappers call through to are parameters as well.
\<close>

section \<open>Reading an environment\<close>

fun env_loop :: "string list \<Rightarrow> string \<Rightarrow> string option" where
  "env_loop [] name = None"
| "env_loop (e # envp) name =
     (if strncmp_eq e name (length name) \<and> byte_at e (length name) = CHR ''=''
      then Some (drop (length name + 1) e) else env_loop envp name)"

definition env_value :: "string list \<Rightarrow> string list option \<Rightarrow> string \<Rightarrow> string option" where
  "env_value environ envp name =
     env_loop (case envp of None \<Rightarrow> environ | Some e \<Rightarrow> e) name"

section \<open>Lists of tokens\<close>

function token_loop :: "string \<Rightarrow> string \<Rightarrow> bool" where
  "token_loop cursor token =
     (if cursor = [] then False
      else if takeWhile (\<lambda>c. c \<noteq> CHR '':'') cursor = token then True
      else case dropWhile (\<lambda>c. c \<noteq> CHR '':'') cursor of
        [] \<Rightarrow> False
      | _ # rest \<Rightarrow> token_loop rest token)"
  by pat_completeness auto
termination
proof (relation "measure (\<lambda>(c, t). length c)", simp_all, goal_cases)
  case (1 cursor token x xs)
  then show ?case using length_dropWhile_le [of "\<lambda>c. c \<noteq> CHR '':''" cursor] by simp
qed

definition token_present :: "string option \<Rightarrow> string \<Rightarrow> bool" where
  "token_present v token =
     (case v of None \<Rightarrow> False | Some v \<Rightarrow> token \<noteq> [] \<and> token_loop v token)"

function required_loop :: "string option \<Rightarrow> string \<Rightarrow> bool" where
  "required_loop v cursor =
     (if cursor = [] then True
      else let token = takeWhile (\<lambda>c. c \<noteq> CHR '':'') cursor in
        if token \<noteq> [] \<and> \<not> token_present v token then False
        else case dropWhile (\<lambda>c. c \<noteq> CHR '':'') cursor of
          [] \<Rightarrow> True
        | _ # rest \<Rightarrow> required_loop v rest)"
  by pat_completeness auto
termination
proof (relation "measure (\<lambda>(v, c). length c)", simp_all, goal_cases)
  case (1 v cursor x xs)
  then show ?case using length_dropWhile_le [of "\<lambda>c. c \<noteq> CHR '':''" cursor] by simp
qed

declare token_loop.simps [simp del] required_loop.simps [simp del]

definition contains_required_tokens :: "string option \<Rightarrow> string option \<Rightarrow> bool" where
  "contains_required_tokens v required =
     (case required of None \<Rightarrow> True | Some r \<Rightarrow> r = [] \<or> required_loop v r)"

section \<open>The guarded environment\<close>

definition join_assignment :: "string \<Rightarrow> string option \<Rightarrow> string option \<Rightarrow> string" where
  "join_assignment name current required =
     (let c = (case current of None \<Rightarrow> [] | Some c \<Rightarrow> c);
          r = (case required of None \<Rightarrow> [] | Some r \<Rightarrow> r)
      in name @ ''='' @ c @ (if c \<noteq> [] \<and> r \<noteq> [] then '':'' else []) @ r)"

definition force_assignment :: "string \<Rightarrow> string option \<Rightarrow> string" where
  "force_assignment name v = join_assignment name None (Some (case v of None \<Rightarrow> [] | Some v \<Rightarrow> v))"

abbreviation is_set :: "string option \<Rightarrow> bool" where
  "is_set v \<equiv> (case v of None \<Rightarrow> False | Some v \<Rightarrow> v \<noteq> [])"

text \<open>\<open>GuardFailed\<close> is the return value -1, \<open>Unchanged\<close> is 0, and \<open>Guarded\<close> carries the entries.\<close>

datatype guard_build = GuardFailed | Unchanged | Guarded "string list"

definition build_guarded_environment ::
    "(nat \<Rightarrow> bool) \<Rightarrow> string list \<Rightarrow> string list option \<Rightarrow> guard_build" where
  "build_guarded_environment alloc environ source_envp =
     (let envp = (case source_envp of None \<Rightarrow> environ | Some e \<Rightarrow> e);
          required_library_path = env_value environ (Some environ) ''PLUMOS_PORTMASTER_REQUIRED_LD_LIBRARY_PATH'';
          required_preload = env_value environ (Some environ) ''PLUMOS_PORTMASTER_REQUIRED_LD_PRELOAD'';
          required_session = env_value environ (Some environ) ''PLUMOS_PORTMASTER_REQUIRED_SESSION_ID''
      in if \<not> is_set required_library_path \<and> \<not> is_set required_preload \<and> \<not> is_set required_session
         then Unchanged
         else
         let current_library_path = env_value environ (Some envp) ''LD_LIBRARY_PATH'';
             current_preload = env_value environ (Some envp) ''LD_PRELOAD'';
             replace_library_path = (is_set required_library_path \<and>
               \<not> contains_required_tokens current_library_path required_library_path);
             replace_preload = (is_set required_preload \<and>
               \<not> contains_required_tokens current_preload required_preload);
             replace_session = (is_set required_session \<and>
               (case env_value environ (Some envp) ''PLUMOS_PORTMASTER_SESSION_ID'' of
                  None \<Rightarrow> True | Some s \<Rightarrow> s \<noteq> the required_session))
         in if \<not> replace_library_path \<and> \<not> replace_preload \<and> \<not> replace_session then Unchanged
            else if \<not> alloc 0 then GuardFailed
            else if replace_library_path \<and> \<not> alloc 1 then GuardFailed
            else if replace_preload \<and> \<not> alloc 2 then GuardFailed
            else if replace_session \<and> \<not> alloc 3 then GuardFailed
            else Guarded
              (filter (\<lambda>e. \<not> (replace_library_path \<and> strncmp_eq e ''LD_LIBRARY_PATH='' 16) \<and>
                           \<not> (replace_preload \<and> strncmp_eq e ''LD_PRELOAD='' 11) \<and>
                           \<not> (replace_session \<and> strncmp_eq e ''PLUMOS_PORTMASTER_SESSION_ID='' 29)) envp @
               (if replace_library_path
                then [join_assignment ''LD_LIBRARY_PATH'' current_library_path required_library_path] else []) @
               (if replace_preload then [join_assignment ''LD_PRELOAD'' current_preload required_preload] else []) @
               (if replace_session
                then [force_assignment ''PLUMOS_PORTMASTER_SESSION_ID'' required_session] else [])))"

definition guard_envp :: "(nat \<Rightarrow> bool) \<Rightarrow> string list \<Rightarrow> string list option \<Rightarrow> (string list \<times> bool) option" where
  "guard_envp alloc environ envp =
     (case build_guarded_environment alloc environ envp of
        GuardFailed \<Rightarrow> None
      | Unchanged \<Rightarrow> Some (case envp of None \<Rightarrow> environ | Some e \<Rightarrow> e, False)
      | Guarded entries \<Rightarrow> Some (entries, True))"

section \<open>The wrappers\<close>

abbreviation ENOMEM :: int where "ENOMEM \<equiv> 12"
abbreviation ENOSYS :: int where "ENOSYS \<equiv> 38"

text \<open>
  Each wrapper gets the function it wraps, absent when \<open>dlsym\<close> does not find it, as a function of the
  environment it is called with; the other arguments are passed on unchanged. \<open>execve\<close> and \<open>execveat\<close>
  return a value and set \<open>errno\<close>, \<open>posix_spawn\<close> and \<open>posix_spawnp\<close> return the error number.
\<close>

definition exec_wrapper ::
    "(string list \<Rightarrow> int \<times> int) option \<Rightarrow> (nat \<Rightarrow> bool) \<Rightarrow> string list \<Rightarrow> string list option \<Rightarrow> int \<times> int" where
  "exec_wrapper real_exec alloc environ envp =
     (case real_exec of
        None \<Rightarrow> (-1, ENOSYS)
      | Some call \<Rightarrow>
          (case guard_envp alloc environ envp of
             None \<Rightarrow> (-1, ENOMEM)
           | Some (guarded_envp, allocated) \<Rightarrow> call guarded_envp))"

definition execve ::
    "(string \<Rightarrow> string list \<Rightarrow> string list \<Rightarrow> int \<times> int) option \<Rightarrow> (nat \<Rightarrow> bool) \<Rightarrow> string list \<Rightarrow>
     string \<Rightarrow> string list \<Rightarrow> string list option \<Rightarrow> int \<times> int" where
  "execve real_execve alloc environ pathname argv envp =
     exec_wrapper (map_option (\<lambda>f. f pathname argv) real_execve) alloc environ envp"

definition execveat ::
    "(int \<Rightarrow> string \<Rightarrow> string list \<Rightarrow> string list \<Rightarrow> int \<Rightarrow> int \<times> int) option \<Rightarrow> (nat \<Rightarrow> bool) \<Rightarrow>
     string list \<Rightarrow> int \<Rightarrow> string \<Rightarrow> string list \<Rightarrow> string list option \<Rightarrow> int \<Rightarrow> int \<times> int" where
  "execveat real_execveat alloc environ dirfd pathname argv envp flags =
     exec_wrapper (map_option (\<lambda>f e. f dirfd pathname argv e flags) real_execveat) alloc environ envp"

definition spawn_wrapper ::
    "(string list \<Rightarrow> int) option \<Rightarrow> (nat \<Rightarrow> bool) \<Rightarrow> string list \<Rightarrow> string list option \<Rightarrow> int" where
  "spawn_wrapper real_spawn alloc environ envp =
     (case real_spawn of
        None \<Rightarrow> ENOSYS
      | Some call \<Rightarrow>
          (case guard_envp alloc environ envp of
             None \<Rightarrow> ENOMEM
           | Some (guarded_envp, allocated) \<Rightarrow> call guarded_envp))"

definition posix_spawn ::
    "(string \<Rightarrow> string list \<Rightarrow> string list \<Rightarrow> int) option \<Rightarrow> (nat \<Rightarrow> bool) \<Rightarrow> string list \<Rightarrow>
     string \<Rightarrow> string list \<Rightarrow> string list option \<Rightarrow> int" where
  "posix_spawn real_posix_spawn alloc environ path argv envp =
     spawn_wrapper (map_option (\<lambda>f. f path argv) real_posix_spawn) alloc environ envp"

definition posix_spawnp ::
    "(string \<Rightarrow> string list \<Rightarrow> string list \<Rightarrow> int) option \<Rightarrow> (nat \<Rightarrow> bool) \<Rightarrow> string list \<Rightarrow>
     string \<Rightarrow> string list \<Rightarrow> string list option \<Rightarrow> int" where
  "posix_spawnp real_posix_spawnp alloc environ file_name argv envp =
     spawn_wrapper (map_option (\<lambda>f. f file_name argv) real_posix_spawnp) alloc environ envp"

end
