(* ===== verification/ExecGuardProofs.thy ===== *)
theory ExecGuardProofs
  imports ExecGuard
begin

text \<open>
  What the guarded environment guarantees: tokens as sets, lookups as the first entry with a prefix, and
  the effect of the guard on the variables it owns and on all the others.
\<close>

section \<open>Tokens\<close>

definition path_tokens :: "string option \<Rightarrow> string set" where
  "path_tokens v = (case v of None \<Rightarrow> {} | Some v \<Rightarrow> {t \<in> set (split_char CHR '':'' v). t \<noteq> []})"

lemma token_loop_iff: "t \<noteq> [] \<Longrightarrow> token_loop c t \<longleftrightarrow> t \<in> set (split_char CHR '':'' c)"
proof (induction c t rule: token_loop.induct)
  case (1 c t)
  show ?case
  proof (cases "c = []")
    case True
    with 1(2) show ?thesis by (simp add: token_loop.simps)
  next
    case False
    show ?thesis
    proof (cases "dropWhile (\<lambda>c. c \<noteq> CHR '':'') c")
      case Nil
      show ?thesis
        unfolding token_loop.simps [of c t] split_char_cut_set [of _ c] Nil using False by auto
    next
      case (Cons x r)
      show ?thesis
        unfolding token_loop.simps [of c t] split_char_cut_set [of _ c] Cons
        using False 1(1) [OF False _ Cons] 1(2) by auto
    qed
  qed
qed

lemma token_present_iff: "token_present v t \<longleftrightarrow> t \<in> path_tokens v"
  by (auto simp: token_present_def path_tokens_def token_loop_iff split: option.splits)

lemma required_loop_iff: "required_loop v r \<longleftrightarrow> path_tokens (Some r) \<subseteq> path_tokens v"
proof (induction v r rule: required_loop.induct)
  case (1 v r)
  show ?case
  proof (cases "r = []")
    case True
    then show ?thesis by (simp add: required_loop.simps path_tokens_def)
  next
    case False
    let ?t = "takeWhile (\<lambda>c. c \<noteq> CHR '':'') r"
    show ?thesis
    proof (cases "dropWhile (\<lambda>c. c \<noteq> CHR '':'') r")
      case Nil
      have "path_tokens (Some r) = {t. t = ?t \<and> t \<noteq> []}"
        unfolding path_tokens_def using split_char_cut_set [of "CHR '':''" r] unfolding Nil by auto
      then show ?thesis
        unfolding required_loop.simps [of v r] Let_def Nil token_present_iff using False by auto
    next
      case (Cons x s)
      have "path_tokens (Some r) = {t. t = ?t \<and> t \<noteq> []} \<union> path_tokens (Some s)"
        unfolding path_tokens_def using split_char_cut_set [of "CHR '':''" r] unfolding Cons by auto
      then show ?thesis
        unfolding required_loop.simps [of v r] Let_def Cons token_present_iff
        using False 1 [OF False refl _ Cons] by (auto simp: token_present_iff)
    qed
  qed
qed

lemma contains_required_tokens_iff:
  "contains_required_tokens v r \<longleftrightarrow> path_tokens r \<subseteq> path_tokens v"
  by (auto simp: contains_required_tokens_def required_loop_iff path_tokens_def split: option.splits)

section \<open>Lookups\<close>

definition names :: "string \<Rightarrow> string \<Rightarrow> bool" where
  "names e n \<longleftrightarrow> prefix (n @ ''='') e"

lemma env_test_iff:
  "strncmp_eq e n (length n) \<and> byte_at e (length n) = CHR ''='' \<longleftrightarrow> names e n"
proof
  assume a: "strncmp_eq e n (length n) \<and> byte_at e (length n) = CHR ''=''"
  then have l: "length n < length e" "e ! length n = CHR ''=''"
    by (auto simp: byte_at_def split: if_splits)
  then have "take (Suc (length n)) e = n @ ''=''"
    using a by (simp add: strncmp_eq_def take_Suc_conv_app_nth)
  then show "names e n" by (metis names_def take_is_prefix)
qed (auto simp: names_def prefix_def strncmp_eq_def byte_at_def)

lemma env_loop_Cons:
  "env_loop (e # es) n = (if names e n then Some (drop (length n + 1) e) else env_loop es n)"
  by (simp add: env_test_iff)

declare env_loop.simps (2) [simp del]
declare env_loop_Cons [simp]

lemma guard_prefixes:
  "strncmp_eq e ''LD_LIBRARY_PATH='' 16 \<longleftrightarrow> names e ''LD_LIBRARY_PATH''"
  "strncmp_eq e ''LD_PRELOAD='' 11 \<longleftrightarrow> names e ''LD_PRELOAD''"
  "strncmp_eq e ''PLUMOS_PORTMASTER_SESSION_ID='' 29 \<longleftrightarrow> names e ''PLUMOS_PORTMASTER_SESSION_ID''"
  by (subst strncmp_prefix, simp, simp add: names_def)+

lemma env_loop_append:
  "env_loop (xs @ ys) n = (case env_loop xs n of None \<Rightarrow> env_loop ys n | Some v \<Rightarrow> Some v)"
  by (induction xs) auto

lemma env_loop_filter_same:
  "(\<And>e. names e n \<Longrightarrow> P e) \<Longrightarrow> env_loop (filter P xs) n = env_loop xs n"
  by (induction xs) auto

lemma env_loop_filter_none:
  "(\<And>e. names e n \<Longrightarrow> \<not> P e) \<Longrightarrow> env_loop (filter P xs) n = None"
  by (induction xs) auto

text \<open>An entry has at most one name when no name holds an equals sign.\<close>

lemma names_unique:
  assumes "names e a" and "names e b" and "CHR ''='' \<notin> set a" and "CHR ''='' \<notin> set b"
  shows "a = b"
proof -
  have "takeWhile (\<lambda>c. c \<noteq> CHR ''='') e = a" if "names e a" "CHR ''='' \<notin> set a" for a
    using that by (auto simp: names_def prefix_def takeWhile_append2 intro!: takeWhile_append2)
      (smt (verit) takeWhile_append2 append_Nil2 takeWhile.simps(2))
  with assms show ?thesis by blast
qed

lemma names_join: "names (join_assignment n c r) m \<longleftrightarrow> names (n @ ''='') m"
  if "CHR ''='' \<notin> set n" "CHR ''='' \<notin> set m"
proof -
  have "names (join_assignment n c r) n" "names (n @ ''='') n"
    by (simp_all add: names_def join_assignment_def Let_def)
  with that show ?thesis using names_unique by blast
qed

definition joined :: "string option \<Rightarrow> string option \<Rightarrow> string" where
  "joined c r = drop 1 (join_assignment [] c r)"

lemma drop_join: "drop (length n + 1) (join_assignment n c r) = joined c r"
  by (simp add: join_assignment_def joined_def Let_def)

lemma joined_tokens:
  assumes "is_set r"
  shows "path_tokens (Some (joined c r)) = path_tokens c \<union> path_tokens r"
proof -
  obtain r' where r: "r = Some r'" "r' \<noteq> []" using assms by (auto split: option.splits)
  show ?thesis
  proof (cases "is_set c")
    case True
    then obtain c' where "c = Some c'" "c' \<noteq> []" by (auto split: option.splits)
    with r show ?thesis
      using split_char_append [of "CHR '':''" c' r']
      by (auto simp: joined_def join_assignment_def path_tokens_def Let_def)
  next
    case False
    with r show ?thesis by (auto simp: joined_def join_assignment_def path_tokens_def Let_def split: option.splits)
  qed
qed


section \<open>The variables the guard owns\<close>

definition guarded_names :: "string list" where
  "guarded_names = [''LD_LIBRARY_PATH'', ''LD_PRELOAD'', ''PLUMOS_PORTMASTER_SESSION_ID'']"

lemma env_loop_none: "(\<And>e. e \<in> set es \<Longrightarrow> \<not> names e n) \<Longrightarrow> env_loop es n = None"
  by (induction es) auto

lemma env_loop_hit:
  "\<exists>e \<in> set es. names e n \<Longrightarrow> (\<And>e. e \<in> set es \<Longrightarrow> names e n \<Longrightarrow> drop (length n + 1) e = v) \<Longrightarrow>
   env_loop es n = Some v"
  by (induction es) auto

text \<open>One variable of a new environment: the old entries are dropped and the new one, if any, is at the end.\<close>

lemma guarded_lookup:
  assumes "\<And>e. names e n \<Longrightarrow> P e \<longleftrightarrow> \<not> r" and "\<And>e. e \<in> set added \<Longrightarrow> names e n \<Longrightarrow> r \<and> drop (length n + 1) e = v"
    and "r \<Longrightarrow> \<exists>e \<in> set added. names e n"
  shows "env_loop (filter P envp @ added) n = (if r then Some v else env_loop envp n)"
proof -
  have "env_loop added n = (if r then Some v else None)"
  proof (cases r)
    case True
    with assms(2, 3) show ?thesis by (auto intro: env_loop_hit)
  next
    case False
    with assms(2) show ?thesis by (auto intro: env_loop_none)
  qed
  moreover have "env_loop (filter P envp) n = (if r then None else env_loop envp n)"
    using assms(1) by (auto intro: env_loop_filter_same env_loop_filter_none)
  ultimately show ?thesis by (auto simp: env_loop_append split: option.split)
qed

text \<open>The three variables after a successful call, and everything else.\<close>

definition required :: "string list \<Rightarrow> string \<Rightarrow> string option" where
  "required environ n = env_loop environ (''PLUMOS_PORTMASTER_REQUIRED_'' @ n)"

definition guarded_value :: "string option \<Rightarrow> string option \<Rightarrow> string option" where
  "guarded_value r v = (if is_set r \<and> \<not> path_tokens r \<subseteq> path_tokens v then Some (joined v r) else v)"

definition guarded_session :: "string option \<Rightarrow> string option \<Rightarrow> string option" where
  "guarded_session r v = (if is_set r then r else v)"

lemma guarded_value_tokens: "path_tokens r \<subseteq> path_tokens (guarded_value r v)"
  by (auto simp: guarded_value_def joined_tokens) (auto simp: path_tokens_def split: option.splits)

lemma guarded_value_grows: "path_tokens v \<subseteq> path_tokens (guarded_value r v)"
  by (auto simp: guarded_value_def joined_tokens)

lemma force_is_join: "is_set r \<Longrightarrow> force_assignment n r = join_assignment n None r \<and> joined None r = the r"
  by (auto simp: force_assignment_def join_assignment_def joined_def Let_def split: option.splits)

lemma names_eq [simp]: "names (join_assignment n c r) n"
  by (simp add: names_def join_assignment_def Let_def)

abbreviation kept :: "bool \<Rightarrow> bool \<Rightarrow> bool \<Rightarrow> string \<Rightarrow> bool" where
  "kept l p s e \<equiv> \<not> (l \<and> names e ''LD_LIBRARY_PATH'') \<and> \<not> (p \<and> names e ''LD_PRELOAD'') \<and>
     \<not> (s \<and> names e ''PLUMOS_PORTMASTER_SESSION_ID'')"

text \<open>The three decisions of the routine and the entries it makes, unchanged environments included.\<close>

lemma guard_envp_cases:
  assumes "guard_envp alloc environ (Some envp) = Some (out, allocated)"
  obtains l p s where
    "l \<longleftrightarrow> is_set (required environ ''LD_LIBRARY_PATH'') \<and>
       \<not> path_tokens (required environ ''LD_LIBRARY_PATH'') \<subseteq> path_tokens (env_loop envp ''LD_LIBRARY_PATH'')"
    "p \<longleftrightarrow> is_set (required environ ''LD_PRELOAD'') \<and>
       \<not> path_tokens (required environ ''LD_PRELOAD'') \<subseteq> path_tokens (env_loop envp ''LD_PRELOAD'')"
    "s \<longleftrightarrow> is_set (required environ ''SESSION_ID'') \<and>
       env_loop envp ''PLUMOS_PORTMASTER_SESSION_ID'' \<noteq> required environ ''SESSION_ID''"
    "out = filter (kept l p s) envp @
       (if l then [join_assignment ''LD_LIBRARY_PATH'' (env_loop envp ''LD_LIBRARY_PATH'')
                     (required environ ''LD_LIBRARY_PATH'')] else []) @
       (if p then [join_assignment ''LD_PRELOAD'' (env_loop envp ''LD_PRELOAD'')
                     (required environ ''LD_PRELOAD'')] else []) @
       (if s then [force_assignment ''PLUMOS_PORTMASTER_SESSION_ID'' (required environ ''SESSION_ID'')] else [])"
    "allocated \<longleftrightarrow> l \<or> p \<or> s"
proof -
  define l where "l \<longleftrightarrow> is_set (required environ ''LD_LIBRARY_PATH'') \<and>
       \<not> path_tokens (required environ ''LD_LIBRARY_PATH'') \<subseteq> path_tokens (env_loop envp ''LD_LIBRARY_PATH'')"
  define p where "p \<longleftrightarrow> is_set (required environ ''LD_PRELOAD'') \<and>
       \<not> path_tokens (required environ ''LD_PRELOAD'') \<subseteq> path_tokens (env_loop envp ''LD_PRELOAD'')"
  define s where "s \<longleftrightarrow> is_set (required environ ''SESSION_ID'') \<and>
       env_loop envp ''PLUMOS_PORTMASTER_SESSION_ID'' \<noteq> required environ ''SESSION_ID''"
  have s': "s \<longleftrightarrow> is_set (required environ ''SESSION_ID'') \<and>
      (case env_loop envp ''PLUMOS_PORTMASTER_SESSION_ID'' of None \<Rightarrow> True
       | Some v \<Rightarrow> v \<noteq> the (required environ ''SESSION_ID''))"
    by (auto simp: s_def split: option.splits)
  have r: "env_value environ (Some environ) ''PLUMOS_PORTMASTER_REQUIRED_LD_LIBRARY_PATH'' = required environ ''LD_LIBRARY_PATH''"
    "env_value environ (Some environ) ''PLUMOS_PORTMASTER_REQUIRED_LD_PRELOAD'' = required environ ''LD_PRELOAD''"
    "env_value environ (Some environ) ''PLUMOS_PORTMASTER_REQUIRED_SESSION_ID'' = required environ ''SESSION_ID''"
    by (simp_all add: env_value_def required_def)
  note b = assms [unfolded guard_envp_def build_guarded_environment_def Let_def option.case r
      contains_required_tokens_iff guard_prefixes]
  have c: "env_value environ (Some envp) n = env_loop envp n" for n by (simp add: env_value_def)
  show thesis
  proof (rule that [OF l_def p_def s_def])
    show "out = filter (kept l p s) envp @
       (if l then [join_assignment ''LD_LIBRARY_PATH'' (env_loop envp ''LD_LIBRARY_PATH'')
                     (required environ ''LD_LIBRARY_PATH'')] else []) @
       (if p then [join_assignment ''LD_PRELOAD'' (env_loop envp ''LD_PRELOAD'')
                     (required environ ''LD_PRELOAD'')] else []) @
       (if s then [force_assignment ''PLUMOS_PORTMASTER_SESSION_ID'' (required environ ''SESSION_ID'')] else [])"
      using b unfolding c l_def [symmetric] p_def [symmetric] s' [symmetric]
      by (cases "l \<or> p \<or> s") (auto simp: l_def p_def s' split: if_splits)
    show "allocated \<longleftrightarrow> l \<or> p \<or> s"
      using b unfolding c l_def [symmetric] p_def [symmetric] s' [symmetric]
      by (cases "l \<or> p \<or> s") (auto simp: l_def p_def s' split: if_splits)
  qed
qed

definition owned :: "string \<Rightarrow> bool" where
  "owned e \<longleftrightarrow> names e ''LD_LIBRARY_PATH'' \<or> names e ''LD_PRELOAD'' \<or> names e ''PLUMOS_PORTMASTER_SESSION_ID''"

lemma names_distinct [simp]:
  "names e ''LD_LIBRARY_PATH'' \<Longrightarrow> \<not> names e ''LD_PRELOAD''"
  "names e ''LD_LIBRARY_PATH'' \<Longrightarrow> \<not> names e ''PLUMOS_PORTMASTER_SESSION_ID''"
  "names e ''LD_PRELOAD'' \<Longrightarrow> \<not> names e ''PLUMOS_PORTMASTER_SESSION_ID''"
  by (auto simp: names_def prefix_def)

lemma names_force [simp]: "names (force_assignment n v) n"
  by (simp add: force_assignment_def)

lemma drop_force: "is_set r \<Longrightarrow> drop (length n + 1) (force_assignment n r) = the r"
  using force_is_join [of r n] drop_join [of n None r] by simp

lemma guard_envp_None: "guard_envp alloc environ None = guard_envp alloc environ (Some environ)"
  unfolding guard_envp_def build_guarded_environment_def env_value_def option.case by (rule refl)

lemma guard_envp_values:
  assumes "guard_envp alloc environ (Some envp) = Some (out, allocated)"
  shows "env_loop out ''LD_LIBRARY_PATH'' =
           guarded_value (required environ ''LD_LIBRARY_PATH'') (env_loop envp ''LD_LIBRARY_PATH'')" (is ?L)
    and "env_loop out ''LD_PRELOAD'' =
           guarded_value (required environ ''LD_PRELOAD'') (env_loop envp ''LD_PRELOAD'')" (is ?P)
    and "env_loop out ''PLUMOS_PORTMASTER_SESSION_ID'' =
           guarded_session (required environ ''SESSION_ID'') (env_loop envp ''PLUMOS_PORTMASTER_SESSION_ID'')" (is ?S)
    and "filter (\<lambda>e. \<not> owned e) out = filter (\<lambda>e. \<not> owned e) envp" (is ?F)
    and "length out \<le> length envp + 3" (is ?N)
proof -
  obtain l p s where
    l: "l \<longleftrightarrow> is_set (required environ ''LD_LIBRARY_PATH'') \<and>
       \<not> path_tokens (required environ ''LD_LIBRARY_PATH'') \<subseteq> path_tokens (env_loop envp ''LD_LIBRARY_PATH'')" and
    p: "p \<longleftrightarrow> is_set (required environ ''LD_PRELOAD'') \<and>
       \<not> path_tokens (required environ ''LD_PRELOAD'') \<subseteq> path_tokens (env_loop envp ''LD_PRELOAD'')" and
    s: "s \<longleftrightarrow> is_set (required environ ''SESSION_ID'') \<and>
       env_loop envp ''PLUMOS_PORTMASTER_SESSION_ID'' \<noteq> required environ ''SESSION_ID''" and
    out: "out = filter (kept l p s) envp @
       (if l then [join_assignment ''LD_LIBRARY_PATH'' (env_loop envp ''LD_LIBRARY_PATH'')
                     (required environ ''LD_LIBRARY_PATH'')] else []) @
       (if p then [join_assignment ''LD_PRELOAD'' (env_loop envp ''LD_PRELOAD'')
                     (required environ ''LD_PRELOAD'')] else []) @
       (if s then [force_assignment ''PLUMOS_PORTMASTER_SESSION_ID'' (required environ ''SESSION_ID'')] else [])"
    using assms by (rule guard_envp_cases)
  note d = names_distinct [OF names_eq] names_distinct [OF names_force]
  show ?L unfolding out
    by (subst guarded_lookup [where r = l and v = "joined (env_loop envp ''LD_LIBRARY_PATH'') (required environ ''LD_LIBRARY_PATH'')"])
      (auto simp: guarded_value_def l drop_join [of "''LD_LIBRARY_PATH''", simplified] split: if_splits
        dest: names_distinct(1,2))
  show ?N unfolding out by (auto intro!: le_SucI length_filter_le)
  show ?P unfolding out
    by (subst guarded_lookup [where r = p and v = "joined (env_loop envp ''LD_PRELOAD'') (required environ ''LD_PRELOAD'')"])
      (auto simp: guarded_value_def p drop_join [of "''LD_PRELOAD''", simplified] split: if_splits
        dest: names_distinct)
  show ?S unfolding out
    by (subst guarded_lookup [where r = s and v = "the (required environ ''SESSION_ID'')"])
      (auto simp: guarded_session_def s drop_force [of _ "''PLUMOS_PORTMASTER_SESSION_ID''", simplified]
        split: if_splits option.splits dest: names_distinct)
  show ?F unfolding out by (auto simp: owned_def intro!: filter_cong)
qed


text \<open>An environment that fulfils the session of \<open>environ\<close> and keeps the rest of \<open>envp\<close>.\<close>

definition session_env :: "string list \<Rightarrow> string list \<Rightarrow> string list \<Rightarrow> bool" where
  "session_env environ envp out \<longleftrightarrow>
     path_tokens (required environ ''LD_LIBRARY_PATH'') \<union> path_tokens (env_loop envp ''LD_LIBRARY_PATH'')
       = path_tokens (env_loop out ''LD_LIBRARY_PATH'') \<and>
     path_tokens (required environ ''LD_PRELOAD'') \<union> path_tokens (env_loop envp ''LD_PRELOAD'')
       = path_tokens (env_loop out ''LD_PRELOAD'') \<and>
     env_loop out ''PLUMOS_PORTMASTER_SESSION_ID'' =
       guarded_session (required environ ''SESSION_ID'') (env_loop envp ''PLUMOS_PORTMASTER_SESSION_ID'') \<and>
     filter (\<lambda>e. \<not> owned e) out = filter (\<lambda>e. \<not> owned e) envp \<and>
     length out \<le> length envp + 3 \<and>
     guard_envp (\<lambda>_. False) environ (Some out) = Some (out, False)"

lemma guarded_value_union: "path_tokens (guarded_value r v) = path_tokens r \<union> path_tokens v"
  by (auto simp: guarded_value_def joined_tokens) (auto simp: path_tokens_def split: option.splits)

lemma guard_envp_again:
  assumes "path_tokens (required environ ''LD_LIBRARY_PATH'') \<subseteq> path_tokens (env_loop out ''LD_LIBRARY_PATH'')"
    and "path_tokens (required environ ''LD_PRELOAD'') \<subseteq> path_tokens (env_loop out ''LD_PRELOAD'')"
    and "is_set (required environ ''SESSION_ID'') \<Longrightarrow>
      env_loop out ''PLUMOS_PORTMASTER_SESSION_ID'' = required environ ''SESSION_ID''"
  shows "guard_envp alloc environ (Some out) = Some (out, False)"
proof -
  have "build_guarded_environment alloc environ (Some out) = Unchanged"
    using assms
    by (auto simp: build_guarded_environment_def Let_def env_value_def required_def contains_required_tokens_iff
        split: option.splits)
  then show ?thesis by (simp add: guard_envp_def)
qed

lemma guard_envp_session:
  assumes "guard_envp alloc environ envp = Some (out, allocated)"
  shows "session_env environ (case envp of None \<Rightarrow> environ | Some e \<Rightarrow> e) out"
proof -
  let ?e = "case envp of None \<Rightarrow> environ | Some e \<Rightarrow> e"
  have "guard_envp alloc environ (Some ?e) = Some (out, allocated)"
    using assms by (cases envp) (simp_all add: guard_envp_None)
  note v = guard_envp_values [OF this]
  have "guard_envp (\<lambda>_. False) environ (Some out) = Some (out, False)"
    by (rule guard_envp_again) (auto simp: v(1-3) guarded_value_union guarded_session_def)
  then show ?thesis by (simp add: session_env_def v guarded_value_union Un_commute)
qed

lemma guard_envp_allocates: "guard_envp (\<lambda>_. True) environ envp \<noteq> None"
  by (auto simp: guard_envp_def build_guarded_environment_def Let_def split: if_splits)

lemma exec_wrapper_session:
  "exec_wrapper (Some call) alloc environ envp = (-1, ENOMEM) \<or>
   (\<exists>out. session_env environ (case envp of None \<Rightarrow> environ | Some e \<Rightarrow> e) out \<and>
     exec_wrapper (Some call) alloc environ envp = call out)"
  using guard_envp_session [of alloc environ envp] by (fastforce simp: exec_wrapper_def split: option.split)

lemma spawn_wrapper_session:
  "spawn_wrapper (Some call) alloc environ envp = ENOMEM \<or>
   (\<exists>out. session_env environ (case envp of None \<Rightarrow> environ | Some e \<Rightarrow> e) out \<and>
     spawn_wrapper (Some call) alloc environ envp = call out)"
  using guard_envp_session [of alloc environ envp] by (fastforce simp: spawn_wrapper_def split: option.split)

text \<open>
  C8: a program started in a PortMaster session keeps the session whatever environment its parent passes. Every
  \<open>execve\<close> and \<open>posix_spawn\<close> either reports that memory is short and starts nothing, or calls the wrapped
  function with an environment whose library path and preload list hold exactly the required tokens and
  those the caller passed, whose session id is the required one, and whose other entries are the caller's in
  their order; at most three entries are added, and guarding that environment again changes nothing and
  allocates nothing. When memory is not short the wrapped function is always called.
\<close>

theorem exec_guard_keeps_session:
  "(execve (Some f) alloc environ path argv envp = (-1, ENOMEM) \<or>
    (\<exists>out. session_env environ (case envp of None \<Rightarrow> environ | Some e \<Rightarrow> e) out \<and>
      execve (Some f) alloc environ path argv envp = f path argv out)) \<and>
   (posix_spawn (Some g) alloc environ path argv envp = ENOMEM \<or>
    (\<exists>out. session_env environ (case envp of None \<Rightarrow> environ | Some e \<Rightarrow> e) out \<and>
      posix_spawn (Some g) alloc environ path argv envp = g path argv out)) \<and>
   (\<exists>out. session_env environ (case envp of None \<Rightarrow> environ | Some e \<Rightarrow> e) out \<and>
      execve (Some f) (\<lambda>_. True) environ path argv envp = f path argv out \<and>
      posix_spawn (Some g) (\<lambda>_. True) environ path argv envp = g path argv out)"
proof (intro conjI)
  show "\<exists>out. session_env environ (case envp of None \<Rightarrow> environ | Some e \<Rightarrow> e) out \<and>
      execve (Some f) (\<lambda>_. True) environ path argv envp = f path argv out \<and>
      posix_spawn (Some g) (\<lambda>_. True) environ path argv envp = g path argv out"
  proof -
    obtain out a where "guard_envp (\<lambda>_. True) environ envp = Some (out, a)"
      using guard_envp_allocates [of environ envp] by auto
    with guard_envp_session [OF this] show ?thesis
      by (auto simp: execve_def posix_spawn_def exec_wrapper_def spawn_wrapper_def)
  qed
qed (use exec_wrapper_session [of "f path argv"] spawn_wrapper_session [of "g path argv"]
      in \<open>simp_all add: execve_def posix_spawn_def\<close>)

end
