(* ===== verification/ServiceLib.thy ===== *)
theory ServiceLib
  imports Decimal ScanIndex
begin

text \<open>
  What the services under \<open>src/services\<close> share: reading a file by \<open>fgets\<close>, one number by \<open>sscanf\<close>, the
  narrowing of a \<open>long\<close> to a process id, and the descriptors of a process under \<open>/proc\<close>.
\<close>

section \<open>Lines and numbers\<close>

text \<open>The strings \<open>fgets\<close> returns one after the other for a buffer of \<open>n\<close> characters.\<close>

definition fgets_cut :: "nat \<Rightarrow> string \<Rightarrow> nat" where
  "fgets_cut n s =
     (case strchr (take (n - 1) s) NL of None \<Rightarrow> min (n - 1) (length s) | Some i \<Rightarrow> Suc i)"

function fgets_lines :: "nat \<Rightarrow> string \<Rightarrow> string list" where
  "fgets_lines n s =
     (if s = [] \<or> n \<le> 1 then []
      else c_str (take (fgets_cut n s) s) # fgets_lines n (drop (fgets_cut n s) s))"
  by pat_completeness auto
termination
  by (relation "measure (\<lambda>(n, s). length s)") (auto simp: fgets_cut_def split: option.split)

declare fgets_lines.simps [simp del]

text \<open>\<open>sscanf (line, "<literal>%ld", &value)\<close>: the number when the conversion succeeds.\<close>

definition sscanf_long :: "string \<Rightarrow> string \<Rightarrow> int option" where
  "sscanf_long literal line =
     (if \<not> prefix literal line then None
      else let t = drop (length literal) line; r = strtol t
           in if tol_rest r = t then None else Some (tol_value r))"

fun first_number :: "string \<Rightarrow> string list \<Rightarrow> int option" where
  "first_number literal [] = None"
| "first_number literal (l # ls) =
     (case sscanf_long literal l of None \<Rightarrow> first_number literal ls | Some v \<Rightarrow> Some v)"

text \<open>A \<open>long\<close> cast to a 32-bit type such as \<open>int\<close> or \<open>pid_t\<close>.\<close>

definition to_int32 :: "int \<Rightarrow> int" where
  "to_int32 v = ((v + 2 ^ 31) mod 2 ^ 32) - 2 ^ 31"

lemma to_int32_id: "- (2 ^ 31) \<le> v \<Longrightarrow> v < 2 ^ 31 \<Longrightarrow> to_int32 v = v"
  by (simp add: to_int32_def)

section \<open>The descriptors of a process\<close>

text \<open>
  What a walk over \<open>/proc/PID/fd\<close> sees: the directory, if it can be opened, as its entries in order, each with the
  target of its link when \<open>readlink\<close> gives one. The target is cut at 127 characters.
\<close>

record proc_entry =
  pe_name :: string
  pe_target :: "string option"

definition proc_fd_dir :: "int \<Rightarrow> string" where
  "proc_fd_dir pid = ''/proc/'' @ show_int pid @ ''/fd''"

definition entry_target :: "string \<Rightarrow> proc_entry \<Rightarrow> string option" where
  "entry_target dir e =
     (if (case pe_name e of [] \<Rightarrow> False | c # _ \<Rightarrow> c = CHR ''.'') then None
      else if 128 \<le> length (dir @ ''/'' @ pe_name e) then None
      else map_option (\<lambda>t. c_str (take 127 t)) (pe_target e))"


section \<open>Runs and their traces\<close>

text \<open>
  The services are loops: a step leads from one state to the next and leaves events. \<open>runs\<close> relates a start to the states a
  loop can reach with the trace of all events; a monitor reads a trace with a state of its own, \<open>advance\<close>, and
  \<open>accepts\<close> says that it allows every event where it comes.
\<close>

inductive runs :: "('s \<Rightarrow> 'e list \<Rightarrow> 's \<Rightarrow> bool) \<Rightarrow> 's \<Rightarrow> 's \<Rightarrow> 'e list \<Rightarrow> bool" for step s0 where
  start: "runs step s0 s0 []"
| turn: "runs step s0 s tr \<Longrightarrow> step s evs s' \<Longrightarrow> runs step s0 s' (tr @ evs)"

fun accepts :: "('m \<Rightarrow> 'e \<Rightarrow> 'm) \<Rightarrow> ('m \<Rightarrow> 'e \<Rightarrow> bool) \<Rightarrow> 'm \<Rightarrow> 'e list \<Rightarrow> bool" where
  "accepts advance allowed m [] = True"
| "accepts advance allowed m (e # es) = (allowed m e \<and> accepts advance allowed (advance m e) es)"

lemma accepts_append [simp]:
  "accepts advance allowed m (xs @ ys) \<longleftrightarrow>
     accepts advance allowed m xs \<and> accepts advance allowed (foldl advance m xs) ys"
  by (induction xs arbitrary: m) auto

locale trace_invariant =
  fixes step :: "'s \<Rightarrow> 'e list \<Rightarrow> 's \<Rightarrow> bool"
    and s0 :: 's
    and inv :: "'s \<Rightarrow> 'e list \<Rightarrow> bool"
  assumes inv_start: "inv s0 []"
    and inv_step: "inv s tr \<Longrightarrow> step s evs s' \<Longrightarrow> inv s' (tr @ evs)"
begin

lemma runs_inv: "runs step s0 s tr \<Longrightarrow> inv s tr"
  by (induction rule: runs.induct) (auto intro: inv_start inv_step)

end

text \<open>A monitor that agrees with the state of the loop after every step accepts every trace.\<close>

locale monitored =
  fixes step :: "'s \<Rightarrow> 'e list \<Rightarrow> 's \<Rightarrow> bool"
    and s0 :: 's
    and advance :: "'m \<Rightarrow> 'e \<Rightarrow> 'm"
    and allowed :: "'m \<Rightarrow> 'e \<Rightarrow> bool"
    and m0 :: 'm
    and agree :: "'s \<Rightarrow> 'm \<Rightarrow> bool"
  assumes agree_start: "agree s0 m0"
    and agree_step: "agree s m \<Longrightarrow> step s evs s' \<Longrightarrow> accepts advance allowed m evs \<and> agree s' (foldl advance m evs)"

sublocale monitored \<subseteq> trace_invariant step s0
    "\<lambda>s tr. accepts advance allowed m0 tr \<and> agree s (foldl advance m0 tr)"
  by unfold_locales (use agree_start agree_step in \<open>auto\<close>)

end
