(* ===== verification/VolumeKeys.thy ===== *)
theory VolumeKeys
  imports ServiceLib
begin

text \<open>
  The daemon of the volume and power keys (\<open>src/services/plumos_bubble_volume_keys.c\<close>). Its loop is a state machine
  over the answers of the system to one turn: the clock, what \<open>open\<close>, \<open>poll\<close> and \<open>read\<close> give, and the results of the
  helper programs. Every turn returns the new state and the events of the turn.
\<close>

section \<open>Constants\<close>

definition REOPEN_INTERVAL_MS :: int where "REOPEN_INTERVAL_MS = 2000"
definition REPEAT_DELAY_MS :: int where "REPEAT_DELAY_MS = 450"
definition REPEAT_INTERVAL_MS :: int where "REPEAT_INTERVAL_MS = 120"
definition PERSIST_DELAY_MS :: int where "PERSIST_DELAY_MS = 750"
definition POWER_DEBOUNCE_MS :: int where "POWER_DEBOUNCE_MS = 800"

lemmas vk_times = REOPEN_INTERVAL_MS_def REPEAT_DELAY_MS_def REPEAT_INTERVAL_MS_def PERSIST_DELAY_MS_def POWER_DEBOUNCE_MS_def

abbreviation EV_KEY :: nat where "EV_KEY \<equiv> 1"
abbreviation KEY_VOLUMEDOWN :: nat where "KEY_VOLUMEDOWN \<equiv> 114"
abbreviation KEY_VOLUMEUP :: nat where "KEY_VOLUMEUP \<equiv> 115"
abbreviation KEY_POWER :: nat where "KEY_POWER \<equiv> 116"

section \<open>Finding an input device\<close>

text \<open>
  \<open>devices path\<close> is the descriptor \<open>open\<close> gives with the name \<open>EVIOCGNAME\<close> reports, if it does.
\<close>

fun named_event_loop :: "(string \<Rightarrow> (int \<times> string option) option) \<Rightarrow> string \<Rightarrow> nat list \<Rightarrow> int" where
  "named_event_loop devices target [] = -1"
| "named_event_loop devices target (i # is) =
     (case devices (''/dev/input/event'' @ show_nat i) of
        None \<Rightarrow> named_event_loop devices target is
      | Some (fd, name) \<Rightarrow>
          if name = Some target then fd else named_event_loop devices target is)"

definition open_named_event :: "(string \<Rightarrow> (int \<times> string option) option) \<Rightarrow> string \<Rightarrow> int" where
  "open_named_event devices target = named_event_loop devices target [0..<32]"

definition open_input_event :: "(string \<Rightarrow> (int \<times> string option) option) \<Rightarrow> string option \<Rightarrow> string \<Rightarrow> int" where
  "open_input_event devices configured target =
     (case configured of
        Some p \<Rightarrow>
          if p = [] then open_named_event devices target
          else (case devices p of None \<Rightarrow> -1 | Some (fd, _) \<Rightarrow> fd)
      | None \<Rightarrow> open_named_event devices target)"

section \<open>The power menu\<close>

fun owns_display_loop :: "string \<Rightarrow> proc_entry list \<Rightarrow> bool" where
  "owns_display_loop dir [] = False"
| "owns_display_loop dir (e # es) =
     (case entry_target dir e of
        None \<Rightarrow> owns_display_loop dir es
      | Some target \<Rightarrow>
          if strcmp target ''/dev/fb0'' = 0 \<or> strncmp_eq target ''/dev/dri/'' 9 \<or> strncmp_eq target ''/dev/mali'' 9
          then True else owns_display_loop dir es)"

definition process_owns_display :: "(int \<Rightarrow> proc_entry list option) \<Rightarrow> int \<Rightarrow> bool" where
  "process_owns_display descriptors pid =
     (if pid \<le> 1 \<or> 64 \<le> length (proc_fd_dir pid) then False
      else case descriptors pid of None \<Rightarrow> False | Some es \<Rightarrow> owns_display_loop (proc_fd_dir pid) es)"

text \<open>\<open>alive pid\<close> is the success of \<open>kill (pid, 0)\<close>.\<close>

definition frontend_ready_pid :: "os \<Rightarrow> (int \<Rightarrow> bool) \<Rightarrow> int" where
  "frontend_ready_pid w alive =
     (case os_read w ''/tmp/plumos-fe-ready'' of
        None \<Rightarrow> 0
      | Some content \<Rightarrow>
          let v = (case first_number ''pid='' (fgets_lines 64 content) of None \<Rightarrow> 0 | Some v \<Rightarrow> v)
          in if v \<le> 1 \<or> \<not> alive (to_int32 v) then 0 else to_int32 v)"

definition vk_runtime_root :: "os \<Rightarrow> string" where
  "vk_runtime_root w = env_or (os_getenv w ''PLUMOS_RUNTIME_ROOT'') ''/run/plumos''"

definition power_overlay_locked :: "os \<Rightarrow> bool" where
  "power_overlay_locked w =
     (let path = vk_runtime_root w @ ''/power-menu-overlay.lock''
      in if 512 \<le> length path then True else os_stat w path \<noteq> None)"

text \<open>
  How a child ends: \<open>Failed n\<close> for an error number of \<open>fork\<close> or \<open>waitpid\<close>, otherwise its exit status if it exited. The
  overlay is a child of the child, so the status is 0 as soon as the second \<open>fork\<close> works.
\<close>

datatype child_end = Failed int | Exit_Status int | Killed

definition child_result :: "child_end \<Rightarrow> int" where
  "child_result c = (case c of Failed n \<Rightarrow> - n | Exit_Status s \<Rightarrow> if s = 0 then 0 else -5 | Killed \<Rightarrow> -5)"

definition vk_root :: "os \<Rightarrow> string" where
  "vk_root w = env_or (os_getenv w ''PLUMOS_ROOT'') ''/storage/plumos''"

definition spawn_power_overlay :: "os \<Rightarrow> (string \<Rightarrow> string list \<Rightarrow> child_end) \<Rightarrow> int" where
  "spawn_power_overlay w run =
     (let helper = vk_root w @ ''/bin/plumos-power-menu-overlay''
      in if 512 \<le> length helper then -36 else child_result (run helper [helper, ''open'']))"

datatype menu_action = Delegated int | AlreadyOpen | Overlay int

definition open_power_menu ::
    "os \<Rightarrow> (int \<Rightarrow> bool) \<Rightarrow> (int \<Rightarrow> proc_entry list option) \<Rightarrow> (string \<Rightarrow> string list \<Rightarrow> child_end) \<Rightarrow> menu_action" where
  "open_power_menu w alive descriptors run =
     (let frontend_pid = frontend_ready_pid w alive
      in if frontend_pid > 0 \<and> process_owns_display descriptors frontend_pid then Delegated frontend_pid
         else if power_overlay_locked w then AlreadyOpen
         else Overlay (spawn_power_overlay w run))"

section \<open>The volume helper\<close>

definition run_volume_helper :: "os \<Rightarrow> (string \<Rightarrow> string list \<Rightarrow> child_end) \<Rightarrow> string \<Rightarrow> int" where
  "run_volume_helper w run action =
     (let helper = vk_root w @ ''/bin/plumos-volume-control''
      in if 512 \<le> length helper then -36 else child_result (run helper [helper, action]))"

definition apply_direction :: "os \<Rightarrow> (string \<Rightarrow> string list \<Rightarrow> child_end) \<Rightarrow> int \<Rightarrow> int" where
  "apply_direction w run direction =
     run_volume_helper w run (if direction > 0 then ''runtime-up'' else ''runtime-down'')"

section \<open>State and turns\<close>

record vk =
  vk_event_fd :: int
  vk_power_fd :: int
  vk_next_volume :: int
  vk_next_power :: int
  vk_repeat_due :: int
  vk_persist_due :: int
  vk_debounce_until :: int
  vk_held :: int
  vk_pending :: bool
  vk_volume_done :: bool
  vk_power_done :: bool

text \<open>
  The events: a press or a release of a volume key that changed what is held, the loss of the device, a change of the
  volume with its time, whether the repeat timer made it and whether the helper succeeded, a save of the
  volume likewise, and the power menu.
\<close>

datatype vk_event =
    Pressed int int
  | Released
  | Lost
  | Adjusted int int bool bool
  | Saved int bool
  | Menu int

record input_event =
  ie_type :: nat
  ie_code :: nat
  ie_value :: int

text \<open>
  An answer of \<open>read\<close>: a whole event with what follows from it outside (the result of the volume helper, or the clock for a
  power key), no more events, an interruption, or anything else. A list that ends stands for one that
  ends with no more events.
\<close>

datatype read_answer = Event input_event int | Again | Interrupted | Broken

record vk_turn =
  vt_running :: bool
  vt_clock :: int
  vt_open_volume :: int
  vt_open_power :: int
  vt_poll_clock :: int
  vt_volume_reads :: "read_answer list option"
  vt_power_reads :: "read_answer list option"
  vt_late_clock :: int
  vt_repeat_result :: int
  vt_save_result :: int

text \<open>\<open>vt_volume_reads\<close> is absent when \<open>poll\<close> does not report the device.\<close>

definition init_vk :: "bool \<Rightarrow> string option \<Rightarrow> string option \<Rightarrow> vk" where
  "init_vk once configured_event configured_power_event =
     \<lparr>vk_event_fd = -1, vk_power_fd = -1, vk_next_volume = 0, vk_next_power = 0, vk_repeat_due = 0,
      vk_persist_due = 0, vk_debounce_until = 0, vk_held = 0, vk_pending = False,
      vk_volume_done = (once \<and> (configured_event = None \<or> configured_event = Some [])),
      vk_power_done = (once \<and> (configured_power_event = None \<or> configured_power_event = Some []))\<rparr>"

section \<open>One turn\<close>

definition vk_reopen :: "bool \<Rightarrow> vk_turn \<Rightarrow> vk \<Rightarrow> vk" where
  "vk_reopen once t s =
     (let now = vt_clock t;
          s = (if \<not> vk_volume_done s \<and> vk_event_fd s < 0 \<and> now \<ge> vk_next_volume s
               then s\<lparr>vk_event_fd := vt_open_volume t, vk_next_volume := now + REOPEN_INTERVAL_MS,
                      vk_volume_done := vk_volume_done s \<or> (once \<and> vt_open_volume t < 0)\<rparr>
               else s);
          s = (if \<not> vk_power_done s \<and> vk_power_fd s < 0 \<and> now \<ge> vk_next_power s
               then s\<lparr>vk_power_fd := vt_open_power t, vk_next_power := now + REOPEN_INTERVAL_MS,
                      vk_power_done := vk_power_done s \<or> (once \<and> vt_open_power t < 0)\<rparr>
               else s)
      in s)"

definition adjust :: "int \<Rightarrow> int \<Rightarrow> vk \<Rightarrow> vk" where
  "adjust now result s = (if result = 0 then s\<lparr>vk_pending := True, vk_persist_due := now + PERSIST_DELAY_MS\<rparr> else s)"

definition volume_event :: "int \<Rightarrow> input_event \<Rightarrow> int \<Rightarrow> vk \<Rightarrow> vk \<times> vk_event list" where
  "volume_event now ev result s =
     (if ie_type ev = EV_KEY \<and> (ie_code ev = KEY_VOLUMEUP \<or> ie_code ev = KEY_VOLUMEDOWN) then
        let direction = (if ie_code ev = KEY_VOLUMEUP then 1 else -1)
        in if ie_value ev = 1 then
             ((adjust now result (s\<lparr>vk_held := direction\<rparr>))\<lparr>vk_repeat_due := now + REPEAT_DELAY_MS\<rparr>,
              [Pressed direction now, Adjusted direction now False (result = 0)])
           else if ie_value ev = 0 \<and> vk_held s = direction then
             (s\<lparr>vk_held := 0, vk_repeat_due := 0\<rparr>, [Released])
           else (s, [])
      else (s, []))"

fun volume_reads :: "bool \<Rightarrow> int \<Rightarrow> read_answer list \<Rightarrow> vk \<Rightarrow> vk \<times> vk_event list" where
  "volume_reads once now [] s = (s, [])"
| "volume_reads once now (r # rs) s =
     (case r of
        Event ev result \<Rightarrow>
          (case volume_event now ev result s of (s1, e1) \<Rightarrow>
             (case volume_reads once now rs s1 of (s2, e2) \<Rightarrow> (s2, e1 @ e2)))
      | Again \<Rightarrow> (s, [])
      | Interrupted \<Rightarrow> volume_reads once now rs s
      | Broken \<Rightarrow>
          (s\<lparr>vk_event_fd := -1, vk_held := 0, vk_repeat_due := 0, vk_next_volume := 0,
             vk_volume_done := vk_volume_done s \<or> once\<rparr>, [Lost]))"

fun power_reads :: "bool \<Rightarrow> read_answer list \<Rightarrow> vk \<Rightarrow> vk \<times> vk_event list" where
  "power_reads once [] s = (s, [])"
| "power_reads once (r # rs) s =
     (case r of
        Event ev now \<Rightarrow>
          if ie_type ev = EV_KEY \<and> ie_code ev = KEY_POWER \<and> ie_value ev = 1 \<and> now \<ge> vk_debounce_until s then
            (case power_reads once rs (s\<lparr>vk_debounce_until := now + POWER_DEBOUNCE_MS\<rparr>) of (s2, e2) \<Rightarrow> (s2, Menu now # e2))
          else power_reads once rs s
      | Again \<Rightarrow> (s, [])
      | Interrupted \<Rightarrow> power_reads once rs s
      | Broken \<Rightarrow>
          (s\<lparr>vk_power_fd := -1, vk_next_power := 0, vk_power_done := vk_power_done s \<or> once\<rparr>, []))"

definition vk_repeat :: "int \<Rightarrow> int \<Rightarrow> vk \<Rightarrow> vk \<times> vk_event list" where
  "vk_repeat now result s =
     (if vk_held s \<noteq> 0 \<and> vk_repeat_due s > 0 \<and> now \<ge> vk_repeat_due s
      then ((adjust now result s)\<lparr>vk_repeat_due := now + REPEAT_INTERVAL_MS\<rparr>, [Adjusted (vk_held s) now True (result = 0)])
      else (s, []))"

definition vk_save :: "int \<Rightarrow> int \<Rightarrow> vk \<Rightarrow> vk \<times> vk_event list" where
  "vk_save now result s =
     (if vk_pending s \<and> vk_persist_due s > 0 \<and> now \<ge> vk_persist_due s
      then (if result = 0 then s\<lparr>vk_pending := False\<rparr> else s\<lparr>vk_persist_due := now + PERSIST_DELAY_MS\<rparr>, [Saved now (result = 0)])
      else (s, []))"

definition vk_turn :: "bool \<Rightarrow> vk_turn \<Rightarrow> vk \<Rightarrow> vk \<times> vk_event list" where
  "vk_turn once t s =
     (let (s, e1) = (case vt_volume_reads t of
            Some rs \<Rightarrow> if vk_event_fd s \<ge> 0 then volume_reads once (vt_poll_clock t) rs s else (s, [])
          | None \<Rightarrow> (s, []));
          (s, e2) = (case vt_power_reads t of
            Some rs \<Rightarrow> if vk_power_fd s \<ge> 0 then power_reads once rs s else (s, [])
          | None \<Rightarrow> (s, []));
          (s, e3) = vk_repeat (vt_late_clock t) (vt_repeat_result t) s;
          (s, e4) = vk_save (vt_late_clock t) (vt_save_result t) s
      in (s, e1 @ e2 @ e3 @ e4))"

section \<open>The loop and the program\<close>

text \<open>
  At the end a pending volume is saved once more. \<open>None\<close> means that the daemon is still running after the turns.
\<close>

definition vk_stop :: "vk_turn \<Rightarrow> vk \<Rightarrow> vk_event list" where
  "vk_stop t s = (if vk_pending s then [Saved (vt_late_clock t) (vt_save_result t = 0)] else [])"

fun vk_loop :: "bool \<Rightarrow> vk_turn list \<Rightarrow> vk \<Rightarrow> vk_event list option" where
  "vk_loop once [] s = None"
| "vk_loop once (t # ts) s =
     (if \<not> vt_running t then Some (vk_stop t s)
      else let s1 = vk_reopen once t s
        in if once \<and> vk_volume_done s1 \<and> vk_power_done s1 then Some (vk_stop t s1)
           else (case vk_turn once t s1 of (s2, evs) \<Rightarrow> map_option (\<lambda>rest. evs @ rest) (vk_loop once ts s2)))"

record vk_args =
  va_event :: "string option"
  va_power :: "string option"
  va_once :: bool

fun parse_vk_args :: "string list \<Rightarrow> vk_args \<Rightarrow> vk_args option" where
  "parse_vk_args [] a = Some a"
| "parse_vk_args (x # xs) a =
     (if x = ''--event'' \<and> xs \<noteq> [] then parse_vk_args (tl xs) (a\<lparr>va_event := Some (hd xs)\<rparr>)
      else if x = ''--power-event'' \<and> xs \<noteq> [] then parse_vk_args (tl xs) (a\<lparr>va_power := Some (hd xs)\<rparr>)
      else if x = ''--once'' then parse_vk_args xs (a\<lparr>va_once := True\<rparr>)
      else None)"

text \<open>
  \<open>make_dir\<close> holds when the directory is there after \<open>mkdir\<close>, \<open>lock\<close> when the lock is taken. The outcome is an
  exit status with the events of the run.
\<close>

definition vk_main ::
    "os \<Rightarrow> (string \<Rightarrow> bool) \<Rightarrow> (string \<Rightarrow> bool) \<Rightarrow> vk_turn list \<Rightarrow> string list \<Rightarrow> (int \<times> vk_event list) option" where
  "vk_main w make_dir lock turns args =
     (case parse_vk_args args \<lparr>va_event = os_getenv w ''PLUMOS_VOLUME_INPUT_EVENT'',
              va_power = os_getenv w ''PLUMOS_POWER_INPUT_EVENT'', va_once = False\<rparr> of
        None \<Rightarrow> Some (2, [])
      | Some a \<Rightarrow>
          let run_dir = vk_runtime_root w @ ''/volume-keys''; lock_path = run_dir @ ''/daemon.lock''
          in if 512 \<le> length run_dir \<or> 512 \<le> length lock_path then Some (1, [])
             else if \<not> make_dir run_dir then Some (1, [])
             else if \<not> lock lock_path then Some (1, [])
             else map_option (\<lambda>evs. (0, evs)) (vk_loop (va_once a) turns (init_vk (va_once a) (va_event a) (va_power a))))"

end
