(* ===== verification/VolumeKeysProofs.thy ===== *)
theory VolumeKeysProofs
  imports VolumeKeys
begin

text \<open>
  What the key daemon does over time. A monitor reads the trace: which key is held and when it may repeat, whether
  a change is unsaved and when it is due, when the menu was last opened. It agrees with the state of the daemon in every
  reachable state, which gives the timing properties.
\<close>

section \<open>The monitor\<close>

record vk_monitor =
  vm_held :: int
  vm_due :: int
  vm_unsaved :: bool
  vm_deadline :: int
  vm_menu :: "int option"

definition init_monitor :: vk_monitor where
  "init_monitor = \<lparr>vm_held = 0, vm_due = 0, vm_unsaved = False, vm_deadline = 0, vm_menu = None\<rparr>"

fun watch :: "vk_monitor \<Rightarrow> vk_event \<Rightarrow> vk_monitor" where
  "watch m (Pressed d t) = m\<lparr>vm_held := d, vm_due := t + 450\<rparr>"
| "watch m Released = m\<lparr>vm_held := 0\<rparr>"
| "watch m Lost = m\<lparr>vm_held := 0\<rparr>"
| "watch m (Adjusted d t rep ok) =
     (let m = (if rep then m\<lparr>vm_due := t + 120\<rparr> else m)
      in if ok then m\<lparr>vm_unsaved := True, vm_deadline := t + 750\<rparr> else m)"
| "watch m (Saved t ok) = (if ok then m\<lparr>vm_unsaved := False\<rparr> else m\<lparr>vm_deadline := t + 750\<rparr>)"
| "watch m (Menu t) = m\<lparr>vm_menu := Some t\<rparr>"

fun in_order :: "vk_monitor \<Rightarrow> vk_event \<Rightarrow> bool" where
  "in_order m (Pressed d t) \<longleftrightarrow> d = 1 \<or> d = -1"
| "in_order m Released \<longleftrightarrow> vm_held m \<noteq> 0"
| "in_order m Lost \<longleftrightarrow> True"
| "in_order m (Adjusted d t rep ok) \<longleftrightarrow> d = vm_held m \<and> d \<noteq> 0 \<and> (rep \<longrightarrow> vm_due m \<le> t)"
| "in_order m (Saved t ok) \<longleftrightarrow> vm_unsaved m \<and> vm_deadline m \<le> t"
| "in_order m (Menu t) \<longleftrightarrow> (case vm_menu m of None \<Rightarrow> True | Some u \<Rightarrow> u + 800 \<le> t)"

definition vk_agree :: "vk \<Rightarrow> vk_monitor \<Rightarrow> bool" where
  "vk_agree s m \<longleftrightarrow> vk_held s = vm_held m \<and> (vm_held m \<noteq> 0 \<longrightarrow> vk_repeat_due s = vm_due m) \<and>
     vk_pending s = vm_unsaved m \<and> (vm_unsaved m \<longrightarrow> vk_persist_due s = vm_deadline m) \<and>
     (case vm_menu m of None \<Rightarrow> True | Some u \<Rightarrow> vk_debounce_until s = u + 800)"

text \<open>A part of a turn that keeps the agreement and whose events the monitor accepts.\<close>

definition vk_follows :: "vk \<Rightarrow> vk \<times> vk_event list \<Rightarrow> bool" where
  "vk_follows s r \<longleftrightarrow> (\<forall>m. vk_agree s m \<longrightarrow> accepts watch in_order m (snd r) \<and> vk_agree (fst r) (foldl watch m (snd r)))"

lemma vk_followsI:
  "(\<And>m. vk_agree s m \<Longrightarrow> accepts watch in_order m evs \<and> vk_agree s' (foldl watch m evs)) \<Longrightarrow> vk_follows s (s', evs)"
  by (simp add: vk_follows_def)

lemma vk_follows_comp:
  "vk_follows s (s1, e1) \<Longrightarrow> vk_follows s1 (s2, e2) \<Longrightarrow> vk_follows s (s2, e1 @ e2)"
  by (simp add: vk_follows_def)

lemma vk_follows_refl [simp]: "vk_follows s (s, [])"
  by (simp add: vk_follows_def)

section \<open>The parts of a turn\<close>

lemma volume_event_follows: "vk_follows s (volume_event now ev result s)"
  unfolding volume_event_def Let_def adjust_def
  by (auto intro!: vk_followsI simp: vk_agree_def vk_times split: option.splits)

lemma volume_reads_follows: "vk_follows s (volume_reads once now rs s)"
proof (induction rs arbitrary: s)
  case Nil
  then show ?case by simp
next
  case (Cons r rs)
  show ?case
  proof (cases r)
    case (Event ev result)
    obtain s1 e1 where one: "volume_event now ev result s = (s1, e1)" by fastforce
    obtain s2 e2 where two: "volume_reads once now rs s1 = (s2, e2)" by fastforce
    have "vk_follows s (s1, e1)" using volume_event_follows [of s now ev result] by (simp add: one)
    moreover have "vk_follows s1 (s2, e2)" using Cons.IH [of s1] by (simp add: two)
    ultimately show ?thesis by (simp add: Event one two vk_follows_comp)
  next
    case Broken
    then show ?thesis by (auto intro!: vk_followsI simp: vk_agree_def split: option.splits)
  qed (use Cons.IH in simp_all)
qed

lemma power_reads_follows: "vk_follows s (power_reads once rs s)"
proof (induction rs arbitrary: s)
  case Nil
  then show ?case by simp
next
  case (Cons r rs)
  show ?case
  proof (cases r)
    case (Event ev now)
    let ?s1 = "s\<lparr>vk_debounce_until := now + POWER_DEBOUNCE_MS\<rparr>"
    obtain s2 e2 where two: "power_reads once rs ?s1 = (s2, e2)" by fastforce
    show ?thesis
    proof (cases "ie_type ev = EV_KEY \<and> ie_code ev = KEY_POWER \<and> ie_value ev = 1 \<and> now \<ge> vk_debounce_until s")
      case True
      have "vk_follows s (?s1, [Menu now])"
        using True by (auto intro!: vk_followsI simp: vk_agree_def vk_times split: option.splits)
      moreover have "vk_follows ?s1 (s2, e2)" using Cons.IH [of ?s1] by (simp add: two)
      ultimately show ?thesis using True vk_follows_comp [of s ?s1 "[Menu now]" s2 e2] by (simp add: Event two)
    next
      case False
      show ?thesis
        unfolding Event power_reads.simps read_answer.case if_not_P [OF False] by (rule Cons.IH)
    qed
  next
    case Broken
    then show ?thesis by (auto intro!: vk_followsI simp: vk_agree_def split: option.splits)
  qed (use Cons.IH in simp_all)
qed

lemma vk_repeat_follows: "vk_follows s (vk_repeat now result s)"
  unfolding vk_repeat_def adjust_def
  by (auto intro!: vk_followsI simp: vk_agree_def vk_times split: option.splits)

lemma vk_save_follows: "vk_follows s (vk_save now result s)"
  unfolding vk_save_def
  by (auto intro!: vk_followsI simp: vk_agree_def vk_times split: option.splits)

lemma vk_reopen_agree: "vk_agree (vk_reopen once t s) m \<longleftrightarrow> vk_agree s m"
  by (auto simp: vk_reopen_def Let_def vk_agree_def split: option.split)

lemma vk_turn_follows: "vk_follows s (vk_turn once t s)"
proof -
  obtain s1 e1 where one: "(case vt_volume_reads t of
        Some rs \<Rightarrow> if vk_event_fd s \<ge> 0 then volume_reads once (vt_poll_clock t) rs s else (s, [])
      | None \<Rightarrow> (s, [])) = (s1, e1)" by fastforce
  obtain s2 e2 where two: "(case vt_power_reads t of
        Some rs \<Rightarrow> if vk_power_fd s1 \<ge> 0 then power_reads once rs s1 else (s1, [])
      | None \<Rightarrow> (s1, [])) = (s2, e2)" by fastforce
  obtain s3 e3 where three: "vk_repeat (vt_late_clock t) (vt_repeat_result t) s2 = (s3, e3)" by fastforce
  obtain s4 e4 where four: "vk_save (vt_late_clock t) (vt_save_result t) s3 = (s4, e4)" by fastforce
  have "vk_follows s (s1, e1)"
    using one volume_reads_follows [of s once "vt_poll_clock t"] by (auto split: option.splits if_splits) (metis vk_follows_refl)+
  moreover have "vk_follows s1 (s2, e2)"
    using two power_reads_follows [of s1 once] by (auto split: option.splits if_splits) (metis vk_follows_refl)+
  moreover have "vk_follows s2 (s3, e3)" using vk_repeat_follows [of s2] three by metis
  moreover have "vk_follows s3 (s4, e4)" using vk_save_follows [of s3] four by metis
  ultimately have "vk_follows s (s4, e1 @ e2 @ e3 @ e4)" by (metis vk_follows_comp)
  then show ?thesis by (simp add: vk_turn_def one two three four)
qed

section \<open>Runs\<close>

definition vk_step :: "bool \<Rightarrow> vk \<Rightarrow> vk_event list \<Rightarrow> vk \<Rightarrow> bool" where
  "vk_step once s evs s' \<longleftrightarrow>
     (\<exists>t. vt_running t \<and> \<not> (once \<and> vk_volume_done (vk_reopen once t s) \<and> vk_power_done (vk_reopen once t s)) \<and>
        vk_turn once t (vk_reopen once t s) = (s', evs))"

interpretation vk_runs: monitored "vk_step once" "init_vk once ev pw" watch in_order init_monitor vk_agree for once ev pw
proof unfold_locales
  show "vk_agree (init_vk once ev pw) init_monitor" by (simp add: vk_agree_def init_vk_def init_monitor_def)
  show "accepts watch in_order m evs \<and> vk_agree s' (foldl watch m evs)"
    if agree: "vk_agree s m" and step: "vk_step once s evs s'" for s m evs s'
  proof -
    obtain t where t: "vk_turn once t (vk_reopen once t s) = (s', evs)" using step unfolding vk_step_def by blast
    have "vk_agree (vk_reopen once t s) m" using agree by (simp add: vk_reopen_agree)
    with vk_turn_follows [of "vk_reopen once t s" once t] show ?thesis unfolding t vk_follows_def by simp
  qed
qed


section \<open>The power menu\<close>

fun menu_times :: "vk_event list \<Rightarrow> int list" where
  "menu_times [] = []"
| "menu_times (Menu t # evs) = t # menu_times evs"
| "menu_times (_ # evs) = menu_times evs"

lemma accepted_menus:
  "accepts watch in_order m evs \<Longrightarrow>
   sorted_wrt (\<lambda>a b. a + 800 \<le> b) (menu_times evs) \<and>
   (\<forall>u. vm_menu m = Some u \<longrightarrow> (\<forall>t \<in> set (menu_times evs). u + 800 \<le> t))"
proof (induction evs arbitrary: m)
  case Nil
  then show ?case by simp
next
  case (Cons e evs)
  then have "in_order m e" and IH: "sorted_wrt (\<lambda>a b. a + 800 \<le> b) (menu_times evs)"
    "\<forall>u. vm_menu (watch m e) = Some u \<longrightarrow> (\<forall>t \<in> set (menu_times evs). u + 800 \<le> t)"
    using Cons.IH [of "watch m e"] by auto
  then show ?case by (cases e) (auto simp: Let_def split: if_splits option.splits)
qed

text \<open>
  C6: the daemon acts in order. In every run, a volume change follows a press of its key or comes from the repeat timer
  while that key is the one held, no earlier than 450 ms after the press and 120 ms after the last repeat; the volume is
  saved only when a change is unsaved, 750 ms after the last change or failed save; any two openings of the power menu
  are at least 800 ms apart, however fast the events of its key arrive; and the state remembers exactly whether a change
  is unsaved and which key is held.
\<close>

theorem volume_keys_in_order:
  assumes "runs (vk_step once) (init_vk once ev pw) s tr"
  shows "accepts watch in_order init_monitor tr \<and> sorted_wrt (\<lambda>t u. t + 800 \<le> u) (menu_times tr) \<and>
    vk_pending s = vm_unsaved (foldl watch init_monitor tr) \<and> vk_held s = vm_held (foldl watch init_monitor tr)"
  using vk_runs.runs_inv [OF assms] accepted_menus by (auto simp: vk_agree_def)

definition demo_vk_turn :: "int \<Rightarrow> read_answer list \<Rightarrow> vk_turn" where
  "demo_vk_turn now reads = \<lparr>vt_running = True, vt_clock = now, vt_open_volume = 3, vt_open_power = -1, vt_poll_clock = now,
     vt_volume_reads = Some reads, vt_power_reads = None, vt_late_clock = now, vt_repeat_result = 0, vt_save_result = 0\<rparr>"

lemma demo_vk_steps:
  "vk_step False (init_vk False None None) [Pressed 1 1000, Adjusted 1 1000 False True]
     (fst (vk_turn False (demo_vk_turn 1000 [Event \<lparr>ie_type = 1, ie_code = 115, ie_value = 1\<rparr> 0])
        (vk_reopen False (demo_vk_turn 1000 [Event \<lparr>ie_type = 1, ie_code = 115, ie_value = 1\<rparr> 0]) (init_vk False None None))))"
  unfolding vk_step_def
  by (intro exI [of _ "demo_vk_turn 1000 [Event \<lparr>ie_type = 1, ie_code = 115, ie_value = 1\<rparr> 0]"])
    (simp add: demo_vk_turn_def vk_reopen_def init_vk_def vk_turn_def volume_event_def adjust_def vk_repeat_def
      vk_save_def vk_times Let_def)

theorem volume_keys_in_order_witness:
  "\<exists>s tr. runs (vk_step False) (init_vk False None None) s tr \<and> tr = [Pressed 1 1000, Adjusted 1 1000 False True] \<and>
     vk_pending s \<and> vk_held s = 1"
proof -
  obtain s where "vk_step False (init_vk False None None) [Pressed 1 1000, Adjusted 1 1000 False True] s"
    using demo_vk_steps by blast
  then have r: "runs (vk_step False) (init_vk False None None) s ([] @ [Pressed 1 1000, Adjusted 1 1000 False True])"
    by (rule runs.turn [OF runs.start])
  with volume_keys_in_order [OF r]
  have "runs (vk_step False) (init_vk False None None) s [Pressed 1 1000, Adjusted 1 1000 False True] \<and>
      vk_pending s \<and> vk_held s = 1"
    by (simp add: init_monitor_def)
  then show ?thesis by blast
qed

section \<open>Nothing is lost\<close>

text \<open>A change of the volume that succeeded and was not followed by a save that succeeded.\<close>

fun is_change :: "vk_event \<Rightarrow> bool" where
  "is_change (Adjusted d t rep ok) = ok"
| "is_change _ = False"

fun is_saved :: "vk_event \<Rightarrow> bool" where
  "is_saved (Saved t ok) = ok"
| "is_saved _ = False"

fun unsaved_change :: "vk_event list \<Rightarrow> bool" where
  "unsaved_change [] \<longleftrightarrow> False"
| "unsaved_change (e # evs) \<longleftrightarrow> is_change e \<and> \<not> list_ex is_saved evs \<or> unsaved_change evs"

lemma watch_unsaved:
  "vm_unsaved (foldl watch m evs) \<longleftrightarrow> unsaved_change evs \<or> vm_unsaved m \<and> \<not> list_ex is_saved evs"
proof (induction evs arbitrary: m)
  case (Cons e evs)
  then show ?case by (cases e) (auto simp: Let_def)
qed simp

lemma unsaved_change_append: "unsaved_change (xs @ ys) \<longleftrightarrow> unsaved_change ys \<or> unsaved_change xs \<and> \<not> list_ex is_saved ys"
  by (induction xs) auto

text \<open>The turns of the loop one after the other, and the turn at which it ends.\<close>

fun vk_turns :: "bool \<Rightarrow> vk_turn list \<Rightarrow> vk \<Rightarrow> vk \<times> vk_event list" where
  "vk_turns once [] s = (s, [])"
| "vk_turns once (t # ts) s =
     (case vk_turn once t (vk_reopen once t s) of (s1, e1) \<Rightarrow> (case vk_turns once ts s1 of (s2, e2) \<Rightarrow> (s2, e1 @ e2)))"

definition vk_stops :: "bool \<Rightarrow> vk_turn \<Rightarrow> vk \<Rightarrow> bool" where
  "vk_stops once t s \<longleftrightarrow> \<not> vt_running t \<or> once \<and> vk_volume_done (vk_reopen once t s) \<and> vk_power_done (vk_reopen once t s)"

lemma vk_reopen_pending: "vk_pending (vk_reopen once t s) = vk_pending s"
  by (simp add: vk_reopen_def Let_def)

lemma vk_loop_ends:
  "vk_loop once turns s = Some evs \<Longrightarrow> \<exists>ts t rest s' body. turns = ts @ t # rest \<and> list_all vt_running ts \<and>
     vk_turns once ts s = (s', body) \<and> vk_stops once t s' \<and> evs = body @ vk_stop t s'"
proof (induction turns arbitrary: s evs)
  case (Cons t ts)
  show ?case
  proof (cases "vk_stops once t s")
    case True
    then have "evs = vk_stop t s"
      using Cons.prems by (auto simp: vk_stops_def vk_stop_def vk_reopen_pending split: if_splits)
    with True show ?thesis by (intro exI [of _ "[]"] exI [of _ t] exI [of _ ts]) simp
  next
    case False
    then have n: "vt_running t" "\<not> (once \<and> vk_volume_done (vk_reopen once t s) \<and> vk_power_done (vk_reopen once t s))"
      by (auto simp: vk_stops_def)
    obtain s1 e1 where turn: "vk_turn once t (vk_reopen once t s) = (s1, e1)" by fastforce
    have "vk_loop once (t # ts) s = map_option (\<lambda>rest. e1 @ rest) (vk_loop once ts s1)"
      unfolding vk_loop.simps Let_def turn prod.case if_not_P [OF n(2)] using n(1) by simp
    with Cons.prems obtain rest1 where r: "vk_loop once ts s1 = Some rest1" "evs = e1 @ rest1"
      by (metis map_option_eq_Some)
    from Cons.IH [OF r(1)] obtain us u rest s' body where i: "ts = us @ u # rest" "list_all vt_running us"
      "vk_turns once us s1 = (s', body)" "vk_stops once u s'" "rest1 = body @ vk_stop u s'" by blast
    then have "vk_turns once (t # us) s = (s', e1 @ body)" by (simp add: turn)
    moreover have "t # ts = (t # us) @ u # rest" "list_all vt_running (t # us)" "evs = (e1 @ body) @ vk_stop u s'"
      using i r(2) False by (simp_all add: vk_stops_def)
    ultimately show ?thesis using i(4) by blast
  qed
qed simp

lemma vk_turns_agree: "vk_agree s m \<Longrightarrow> vk_turns once ts s = (s', body) \<Longrightarrow> vk_agree s' (foldl watch m body)"
proof (induction ts arbitrary: s m s' body)
  case (Cons t ts)
  obtain s1 e1 where turn: "vk_turn once t (vk_reopen once t s) = (s1, e1)" by fastforce
  obtain s2 e2 where rest: "vk_turns once ts s1 = (s2, e2)" by fastforce
  have "vk_agree s1 (foldl watch m e1)"
    using vk_turn_follows [of "vk_reopen once t s" once t] Cons.prems(1) by (simp add: turn vk_follows_def vk_reopen_agree)
  from Cons.IH [OF this rest] show ?case using Cons.prems(2) by (auto simp: turn rest)
qed simp

lemma init_agree: "vk_agree (init_vk once ev pw) init_monitor"
  by (simp add: vk_agree_def init_vk_def init_monitor_def)

lemma turns_pending:
  assumes "vk_turns once ts (init_vk once ev pw) = (s, body)"
  shows "vk_pending s \<longleftrightarrow> unsaved_change body"
    and "unsaved_change body \<Longrightarrow> vk_persist_due s = vm_deadline (foldl watch init_monitor body)"
  using vk_turns_agree [OF init_agree assms] watch_unsaved [of init_monitor body] by (simp_all add: vk_agree_def init_monitor_def)

text \<open>The save at the end of a turn: the parts of the turn before it leave what is pending alone unless they change the volume.\<close>

lemma volume_reads_frame:
  "volume_reads once now rs s = (s', evs) \<Longrightarrow> list_all (\<lambda>e. \<not> is_change e) evs \<Longrightarrow> vk_pending s' = vk_pending s \<and> vk_persist_due s' = vk_persist_due s"
proof (induction rs arbitrary: s s' evs)
  case (Cons r rs)
  show ?case
  proof (cases r)
    case (Event ev result)
    obtain s1 e1 where one: "volume_event now ev result s = (s1, e1)" by fastforce
    obtain s2 e2 where two: "volume_reads once now rs s1 = (s2, e2)" by fastforce
    have evs: "s' = s2" "evs = e1 @ e2" using Cons.prems(1) by (simp_all add: Event one two)
    have "vk_pending s1 = vk_pending s \<and> vk_persist_due s1 = vk_persist_due s"
      using one Cons.prems(2) unfolding evs(2) by (auto simp: volume_event_def adjust_def Let_def split: if_splits)
    with Cons.IH [OF two] Cons.prems(2) evs show ?thesis by simp
  qed (use Cons in auto)
qed simp

lemma power_reads_frame: "power_reads once rs s = (s', evs) \<Longrightarrow> vk_pending s' = vk_pending s \<and> vk_persist_due s' = vk_persist_due s"
proof (induction rs arbitrary: s s' evs)
  case (Cons r rs)
  then show ?case by (cases r) (auto split: if_splits prod.splits)
qed simp

lemma turn_saves:
  assumes "vk_pending s" and "0 < vk_persist_due s" and "vk_persist_due s \<le> vt_late_clock t"
    and "vk_turn once t s = (s', evs)" and "list_all (\<lambda>e. \<not> is_change e) evs"
  shows "Saved (vt_late_clock t) (vt_save_result t = 0) \<in> set evs"
proof -
  obtain s1 e1 where one: "(case vt_volume_reads t of
        Some rs \<Rightarrow> if vk_event_fd s \<ge> 0 then volume_reads once (vt_poll_clock t) rs s else (s, [])
      | None \<Rightarrow> (s, [])) = (s1, e1)" by fastforce
  obtain s2 e2 where two: "(case vt_power_reads t of
        Some rs \<Rightarrow> if vk_power_fd s1 \<ge> 0 then power_reads once rs s1 else (s1, [])
      | None \<Rightarrow> (s1, [])) = (s2, e2)" by fastforce
  obtain s3 e3 where three: "vk_repeat (vt_late_clock t) (vt_repeat_result t) s2 = (s3, e3)" by fastforce
  obtain s4 e4 where four: "vk_save (vt_late_clock t) (vt_save_result t) s3 = (s4, e4)" by fastforce
  have evs: "evs = e1 @ e2 @ e3 @ e4" using assms(4) by (simp add: vk_turn_def one two three four)
  have "vk_pending s1 = vk_pending s \<and> vk_persist_due s1 = vk_persist_due s"
    using one assms(5) unfolding evs by (auto split: option.splits if_splits dest: volume_reads_frame)
  moreover have "vk_pending s2 = vk_pending s1 \<and> vk_persist_due s2 = vk_persist_due s1"
    using two by (auto split: option.splits if_splits dest: power_reads_frame)
  moreover have "vk_pending s3 = vk_pending s2 \<and> vk_persist_due s3 = vk_persist_due s2"
    using three assms(5) unfolding evs by (auto simp: vk_repeat_def adjust_def split: if_splits)
  ultimately have "e4 = [Saved (vt_late_clock t) (vt_save_result t = 0)]"
    using four assms(1-3) by (auto simp: vk_save_def)
  then show ?thesis by (simp add: evs)
qed

definition env_args :: "os \<Rightarrow> vk_args" where
  "env_args w = \<lparr>va_event = os_getenv w ''PLUMOS_VOLUME_INPUT_EVENT'', va_power = os_getenv w ''PLUMOS_POWER_INPUT_EVENT'', va_once = False\<rparr>"

lemma vk_main_cases:
  assumes "vk_main w make_dir lock turns args = Some (status, evs)"
  shows "status \<noteq> 0 \<and> evs = [] \<or>
    status = 0 \<and> (\<exists>a. parse_vk_args args (env_args w) = Some a \<and>
      vk_loop (va_once a) turns (init_vk (va_once a) (va_event a) (va_power a)) = Some evs)"
proof (cases "parse_vk_args args (env_args w)")
  case (Some a)
  with assms have "status \<noteq> 0 \<and> evs = [] \<or>
      status = 0 \<and> vk_loop (va_once a) turns (init_vk (va_once a) (va_event a) (va_power a)) = Some evs"
    by (auto simp: vk_main_def env_args_def Let_def split: if_splits)
  with Some show ?thesis by blast
qed (use assms in \<open>simp add: vk_main_def env_args_def\<close>)

text \<open>
  The events of a run that ended: those of its turns up to the one at which the daemon stops, and one more save exactly if a change is
  then unsaved.
\<close>

definition ends_saving :: "vk_turn list \<Rightarrow> vk_args \<Rightarrow> vk_event list \<Rightarrow> bool" where
  "ends_saving turns a evs \<longleftrightarrow>
     (\<exists>ts t rest s body. turns = ts @ t # rest \<and> list_all vt_running ts \<and>
        vk_turns (va_once a) ts (init_vk (va_once a) (va_event a) (va_power a)) = (s, body) \<and> vk_stops (va_once a) t s \<and>
        evs = body @ (if unsaved_change body then [Saved (vt_late_clock t) (vt_save_result t = 0)] else []))"

lemma loop_ends_saving:
  assumes loop: "vk_loop (va_once a) turns (init_vk (va_once a) (va_event a) (va_power a)) = Some evs"
  shows "ends_saving turns a evs \<and> (unsaved_change evs \<longrightarrow> (\<exists>u. last evs = Saved u False))"
proof -
  from vk_loop_ends [OF loop] obtain ts t rest s body where e: "turns = ts @ t # rest" "list_all vt_running ts"
    "vk_turns (va_once a) ts (init_vk (va_once a) (va_event a) (va_power a)) = (s, body)" "vk_stops (va_once a) t s"
    "evs = body @ vk_stop t s" by blast
  have evs: "evs = body @ (if unsaved_change body then [Saved (vt_late_clock t) (vt_save_result t = 0)] else [])"
    using e(5) turns_pending(1) [OF e(3)] by (simp add: vk_stop_def)
  then have "unsaved_change evs \<longrightarrow> (\<exists>u. last evs = Saved u False)" by (auto simp: unsaved_change_append split: if_splits)
  with e(1-4) evs show ?thesis unfolding ends_saving_def by blast
qed

text \<open>
  C39: no volume change is forgotten. A change is unsaved until a save after it has succeeded. While the daemon runs, each turn in which the
  volume is not changed again, 750 ms or more after the last change and the last failed save, saves an unsaved change. And when the daemon
  ends, by a signal or after its devices are gone, its last act is one more save, exactly if a change is then unsaved; so a change that succeeded
  is lost only when that last save fails.
\<close>

theorem volume_saved_before_exit:
  "(case vk_main w make_dir lock turns args of
      None \<Rightarrow> True
    | Some (status, evs) \<Rightarrow>
        status \<noteq> 0 \<and> evs = [] \<or>
        status = 0 \<and> (unsaved_change evs \<longrightarrow> (\<exists>u. last evs = Saved u False)) \<and>
          (\<exists>a. parse_vk_args args (env_args w) = Some a \<and> ends_saving turns a evs)) \<and>
   (\<forall>once ev pw ts t s body s' evs.
      vk_turns once ts (init_vk once ev pw) = (s, body) \<and> vk_turn once t (vk_reopen once t s) = (s', evs) \<and>
      unsaved_change body \<and> list_all (\<lambda>e. \<not> is_change e) evs \<and>
      0 < vm_deadline (foldl watch init_monitor body) \<and> vm_deadline (foldl watch init_monitor body) \<le> vt_late_clock t \<longrightarrow>
      Saved (vt_late_clock t) (vt_save_result t = 0) \<in> set evs)"
proof (intro conjI allI impI)
  fix once ev pw ts t s body s' evs
  assume a: "vk_turns once ts (init_vk once ev pw) = (s, body) \<and> vk_turn once t (vk_reopen once t s) = (s', evs) \<and>
      unsaved_change body \<and> list_all (\<lambda>e. \<not> is_change e) evs \<and>
      0 < vm_deadline (foldl watch init_monitor body) \<and> vm_deadline (foldl watch init_monitor body) \<le> vt_late_clock t"
  then have run: "vk_turns once ts (init_vk once ev pw) = (s, body)" by blast
  have same: "vk_pending (vk_reopen once t s) = vk_pending s" "vk_persist_due (vk_reopen once t s) = vk_persist_due s"
    by (simp_all add: vk_reopen_def Let_def)
  from a turns_pending [OF run] show "Saved (vt_late_clock t) (vt_save_result t = 0) \<in> set evs"
    by (intro turn_saves [of "vk_reopen once t s"]) (auto simp: same)
next
  show "case vk_main w make_dir lock turns args of
      None \<Rightarrow> True
    | Some (status, evs) \<Rightarrow>
        status \<noteq> 0 \<and> evs = [] \<or>
        status = 0 \<and> (unsaved_change evs \<longrightarrow> (\<exists>u. last evs = Saved u False)) \<and>
          (\<exists>a. parse_vk_args args (env_args w) = Some a \<and> ends_saving turns a evs)"
  proof (cases "vk_main w make_dir lock turns args")
    case (Some r)
    obtain status evs where r: "r = (status, evs)" by (cases r)
    from vk_main_cases [OF Some [unfolded r]] loop_ends_saving show ?thesis unfolding Some r by (simp, blast)
  qed simp
qed

text \<open>The example: the volume is changed, the save fails, and the daemon is stopped: it saves once more.\<close>

theorem volume_saved_before_exit_witness:
  "\<exists>s body s' evs. vk_turns False [demo_vk_turn 1000 [Event \<lparr>ie_type = 1, ie_code = 115, ie_value = 1\<rparr> 0, Event \<lparr>ie_type = 1, ie_code = 115, ie_value = 0\<rparr> 0]]
       (init_vk False None None) = (s, body) \<and>
     vk_turn False ((demo_vk_turn 1800 [])\<lparr>vt_save_result := 1\<rparr>) (vk_reopen False ((demo_vk_turn 1800 [])\<lparr>vt_save_result := 1\<rparr>) s) = (s', evs) \<and>
     Saved 1800 False \<in> set evs \<and> vk_pending s'"
proof -
  let ?t1 = "demo_vk_turn 1000 [Event \<lparr>ie_type = 1, ie_code = 115, ie_value = 1\<rparr> 0, Event \<lparr>ie_type = 1, ie_code = 115, ie_value = 0\<rparr> 0]"
    and ?t2 = "(demo_vk_turn 1800 [])\<lparr>vt_save_result := 1\<rparr>"
  obtain s where s: "vk_turns False [?t1] (init_vk False None None) = (s, [Pressed 1 1000, Adjusted 1 1000 False True, Released])"
      "vk_event_fd s = 3" "vk_pending s" "vk_persist_due s = 1750" "vk_held s = 0"
    by (simp add: demo_vk_turn_def vk_reopen_def init_vk_def vk_turn_def volume_event_def adjust_def vk_repeat_def vk_save_def vk_times Let_def)
  obtain s' evs where t: "vk_turn False ?t2 (vk_reopen False ?t2 s) = (s', evs)" by (cases "vk_turn False ?t2 (vk_reopen False ?t2 s)")
  have e: "evs = [Saved 1800 False]" "vk_pending s'"
    using t s(2-5) by (auto simp: demo_vk_turn_def vk_reopen_def vk_turn_def vk_repeat_def vk_save_def Let_def split: if_splits)
  have d: "vm_deadline (foldl watch init_monitor [Pressed 1 1000, Adjusted 1 1000 False True, Released]) = 1750"
    by (simp add: init_monitor_def)
  have c: "vt_late_clock ?t2 = 1800" "vt_save_result ?t2 = 1" by (simp_all add: demo_vk_turn_def)
  note all = volume_saved_before_exit [THEN conjunct2, rule_format, of False "[?t1]" None None s "[Pressed 1 1000, Adjusted 1 1000 False True, Released]" ?t2 s' evs]
  have "Saved (vt_late_clock ?t2) (vt_save_result ?t2 = 0) \<in> set evs"
    by (rule all) (use s(1) t e d c in simp)
  with s(1) t e c show ?thesis by auto
qed

end
