(* ===== verification/DrmBroker.thy ===== *)
theory DrmBroker
  imports ServiceLib
begin

text \<open>
  The broker that keeps the display descriptors of a foreground program (\<open>src/services/plumos_drm_broker_run.c\<close>)
  and the library that hands them over (\<open>src/services/plumos_drm_share.c\<close>). A descriptor that
  arrives on the channel is stored in one of eight slots; a client asks to drop or to set the DRM master on all
  of them. The answers of the kernel to one turn of the loop are a record, so a run is a list of turns.
\<close>

section \<open>Shared descriptors\<close>

definition MAX_SHARED_FDS :: nat where "MAX_SHARED_FDS = 8"

record shared_drm_fd =
  sf_fd :: int
  sf_dropped :: bool

text \<open>
  What the broker does to the outside, in order: an \<open>ioctl\<close> on a slot with its direction (true sets the master)
  and its success, a descriptor taken into a slot or closed, an answer to a client, a signal passed on.
\<close>

datatype broker_event =
    Ioctl nat bool bool
  | Stored nat int
  | Closed int
  | Replied string
  | Forwarded int

text \<open>\<open>ioctl fd set\<close> is 0 or the error number; \<open>ENODEV\<close> is what a request on no descriptor reports.\<close>

abbreviation ENODEV :: int where "ENODEV \<equiv> 19"

fun operate_loop ::
    "(int \<Rightarrow> bool \<Rightarrow> int) \<Rightarrow> bool \<Rightarrow> nat \<Rightarrow> shared_drm_fd list \<Rightarrow> bool \<times> int \<Rightarrow>
     (bool \<times> int) \<times> shared_drm_fd list \<times> broker_event list" where
  "operate_loop ioctl set_master i [] r = (r, [], [])"
| "operate_loop ioctl set_master i (f # fs) (success, err) =
     (if set_master \<and> \<not> sf_dropped f then
        case operate_loop ioctl set_master (Suc i) fs (success, err) of (r, fs', evs) \<Rightarrow> (r, f # fs', evs)
      else let a = ioctl (sf_fd f) set_master in
        if a = 0 then
          case operate_loop ioctl set_master (Suc i) fs (True, err) of
            (r, fs', evs) \<Rightarrow> (r, f\<lparr>sf_dropped := \<not> set_master\<rparr> # fs', Ioctl i set_master True # evs)
        else
          case operate_loop ioctl set_master (Suc i) fs (success, a) of
            (r, fs', evs) \<Rightarrow> (r, f # fs', Ioctl i set_master False # evs))"

text \<open>The result is the return value, the saved error number, the descriptors and the events.\<close>

definition operate_on_shared_fds ::
    "(int \<Rightarrow> bool \<Rightarrow> int) \<Rightarrow> shared_drm_fd list \<Rightarrow> bool \<Rightarrow> bool \<times> int \<times> shared_drm_fd list \<times> broker_event list" where
  "operate_on_shared_fds ioctl fds set_master =
     (case operate_loop ioctl set_master 0 fds (False, ENODEV) of
        ((success, err), fds', evs) \<Rightarrow> (success, if success then 0 else err, fds', evs))"

section \<open>Clients\<close>

text \<open>
  \<open>request\<close> is what \<open>read\<close> returned, absent when it failed or returned nothing. \<open>strerror\<close> is the C library's.
  When \<open>snprintf\<close> cuts an answer, the length it returns is that of the whole text, so the bytes after the buffer are
  sent as well; \<open>Overread\<close> marks that case and holds the part that is in the buffer.
\<close>

datatype client_reply = NoReply | Reply string | Overread string

definition serve_client ::
    "(int \<Rightarrow> string) \<Rightarrow> (int \<Rightarrow> bool \<Rightarrow> int) \<Rightarrow> string option \<Rightarrow> shared_drm_fd list \<Rightarrow>
     client_reply \<times> shared_drm_fd list \<times> broker_event list" where
  "serve_client strerror ioctl request fds =
     (case request of
        None \<Rightarrow> (NoReply, fds, [])
      | Some q \<Rightarrow>
          let q = c_str (take 31 q);
              act = (\<lambda>set_master.
                case operate_on_shared_fds ioctl fds set_master of
                  (success, saved_errno, fds', evs) \<Rightarrow>
                    if success then (Reply (''ok'' @ [NL]), fds', evs)
                    else let text = ''error '' @ show_int saved_errno @ '' '' @ strerror saved_errno @ [NL]
                      in (if length text \<le> 96 - 1 then Reply text else Overread (take 95 text), fds', evs))
          in if strncmp_eq q ''drop'' 4 then act False
             else if strncmp_eq q ''set'' 3 then act True
             else (Reply (''error command'' @ [NL]), fds, []))"

section \<open>The end of the child\<close>

datatype wait_status = Exited int | Signaled int | OtherStatus

definition child_exit_code :: "wait_status \<Rightarrow> int" where
  "child_exit_code s = (case s of Exited c \<Rightarrow> c | Signaled n \<Rightarrow> 128 + n | OtherStatus \<Rightarrow> 1)"

section \<open>The loop\<close>

text \<open>
  A control message is a pair: whether it carries descriptors (\<open>SCM_RIGHTS\<close>), and the descriptors that fit into the buffer.
  \<open>receive_shared_fd\<close> takes the first of the first message that has one; others stay open and are never used.
\<close>

fun receive_shared_fd :: "(bool \<times> int list) list option \<Rightarrow> int" where
  "receive_shared_fd None = -1"
| "receive_shared_fd (Some []) = -1"
| "receive_shared_fd (Some ((rights, fds) # ms)) = (if rights \<and> fds \<noteq> [] then hd fds else receive_shared_fd (Some ms))"

datatype wait_answer = Waited wait_status | StillRunning | WaitInterrupted | WaitFailed

text \<open>
  One turn: the signal caught so far, what \<open>recvmsg\<close> returns when the channel is readable (the outer option), the
  client that \<open>accept4\<close> gives when the server socket is readable (its request as above), the answers of \<open>ioctl\<close>
  and of \<open>waitpid\<close>.
\<close>

record broker_turn =
  bt_signal :: "int option"
  bt_message :: "(bool \<times> int list) list option option"
  bt_client :: "string option option"
  bt_ioctl :: "int \<Rightarrow> bool \<Rightarrow> int"
  bt_wait :: wait_answer

record broker =
  br_fds :: "shared_drm_fd list"
  br_status :: "wait_status option"

definition init_broker :: broker where
  "init_broker = \<lparr>br_fds = [], br_status = None\<rparr>"

definition store_shared :: "int \<Rightarrow> shared_drm_fd list \<Rightarrow> shared_drm_fd list \<times> broker_event list" where
  "store_shared fd fds =
     (if fd < 0 then (fds, [])
      else if length fds < MAX_SHARED_FDS
        then (fds @ [\<lparr>sf_fd = fd, sf_dropped = False\<rparr>], [Stored (length fds) fd])
        else (fds, [Closed fd]))"

definition broker_turn :: "(int \<Rightarrow> string) \<Rightarrow> broker_turn \<Rightarrow> broker \<Rightarrow> broker \<times> broker_event list" where
  "broker_turn strerror t b =
     (let e1 = (case bt_signal t of None \<Rightarrow> [] | Some s \<Rightarrow> [Forwarded s]);
          (fds2, e2) = (case bt_message t of
             None \<Rightarrow> (br_fds b, []) | Some m \<Rightarrow> store_shared (receive_shared_fd m) (br_fds b));
          (fds3, e3) = (case bt_client t of
             None \<Rightarrow> (fds2, [])
           | Some request \<Rightarrow>
               (case serve_client strerror (bt_ioctl t) request fds2 of
                  (reply, fds', evs) \<Rightarrow>
                    (fds', evs @ (case reply of Reply text \<Rightarrow> [Replied text] | NoReply \<Rightarrow> [] | Overread part \<Rightarrow> [Replied part]))));
          status = (case bt_wait t of
             Waited s \<Rightarrow> Some s | StillRunning \<Rightarrow> None | WaitInterrupted \<Rightarrow> None | WaitFailed \<Rightarrow> Some (Exited 1))
      in (\<lparr>br_fds = fds3, br_status = status\<rparr>, e1 @ e2 @ e3))"

text \<open>The loop over the turns; \<open>None\<close> means that the child has not ended within them.\<close>

fun broker_loop :: "(int \<Rightarrow> string) \<Rightarrow> broker_turn list \<Rightarrow> broker \<Rightarrow> (int \<times> broker_event list) option" where
  "broker_loop strerror turns b =
     (case br_status b of
        Some s \<Rightarrow> Some (child_exit_code s, map (Closed \<circ> sf_fd) (rev (br_fds b)))
      | None \<Rightarrow>
          (case turns of
             [] \<Rightarrow> None
           | t # ts \<Rightarrow>
               (case broker_turn strerror t b of
                  (b', evs) \<Rightarrow> map_option (\<lambda>(c, rest). (c, evs @ rest)) (broker_loop strerror ts b'))))"

declare broker_loop.simps [simp del]

section \<open>Start\<close>

fun parse_broker_args :: "string list \<Rightarrow> string option \<Rightarrow> string option \<times> string list" where
  "parse_broker_args [] library = (library, [])"
| "parse_broker_args (a # rest) library =
     (if a = ''--library'' \<and> rest \<noteq> [] then parse_broker_args (tl rest) (Some (hd rest))
      else if a = ''--'' then (library, rest)
      else (library, a # rest))"

text \<open>
  The answers of the system while the broker starts, and what it has done by then. \<open>be_fork\<close> is the process id
  of the child, absent when \<open>fork\<close> fails.
\<close>

record broker_env =
  be_mkdir :: "string \<Rightarrow> bool"
  be_socketpair :: bool
  be_inherit :: bool
  be_fork :: "int option"
  be_pid :: int
  be_socket :: bool
  be_bind :: bool
  be_chmod :: bool
  be_listen :: bool

datatype start_action = Forked int string "string list" | KillTerm int | Reaped int | Unlinked string | Listening string

definition broker_runtime_root :: "os \<Rightarrow> string" where
  "broker_runtime_root w = env_or (os_getenv w ''PLUMOS_RUNTIME_ROOT'') ''/run/plumos''"

definition broker_start :: "os \<Rightarrow> broker_env \<Rightarrow> string list \<Rightarrow> (int + string) \<times> start_action list" where
  "broker_start w e argv =
     (case parse_broker_args argv None of (library, command) \<Rightarrow>
        if (case library of None \<Rightarrow> True | Some l \<Rightarrow> l = []) \<or> command = [] then (Inl 2, [])
        else
          let runtime_root = broker_runtime_root w;
              handoff_directory = runtime_root @ ''/drm-handoff''
          in if 256 \<le> length handoff_directory \<or> \<not> be_mkdir e runtime_root \<or> \<not> be_mkdir e handoff_directory
             then (Inl 1, [])
             else if \<not> be_socketpair e then (Inl 1, [])
             else if \<not> be_inherit e then (Inl 1, [])
             else case be_fork e of
               None \<Rightarrow> (Inl 1, [])
             | Some child \<Rightarrow>
                 let socket_path = handoff_directory @ ''/'' @ show_int (be_pid e) @ ''.sock'';
                     started = Forked child (the library) command
                 in if 108 \<le> length socket_path then (Inl 1, [started, KillTerm child, Reaped child])
                    else if \<not> be_socket e then (Inl 1, [started, KillTerm child, Reaped child])
                    else if \<not> (be_bind e \<and> be_chmod e \<and> be_listen e)
                      then (Inl 1, [started, Unlinked socket_path, KillTerm child, Unlinked socket_path, Reaped child])
                    else (Inr socket_path, [started, Unlinked socket_path, Listening socket_path]))"

definition broker_main ::
    "os \<Rightarrow> broker_env \<Rightarrow> (int \<Rightarrow> string) \<Rightarrow> broker_turn list \<Rightarrow> string list \<Rightarrow>
     ((int \<times> start_action list \<times> broker_event list \<times> string option) option)" where
  "broker_main w e strerror turns argv =
     (case broker_start w e argv of
        (Inl code, acts) \<Rightarrow> Some (code, acts, [], None)
      | (Inr socket_path, acts) \<Rightarrow>
          map_option (\<lambda>(code, evs). (code, acts, evs, Some socket_path)) (broker_loop strerror turns init_broker))"

section \<open>The side that shares\<close>

definition path_is_kms_card :: "string option \<Rightarrow> bool" where
  "path_is_kms_card path = (case path of None \<Rightarrow> False | Some p \<Rightarrow> strncmp_eq p ''/dev/dri/card'' 13)"

text \<open>The channel number that \<open>share_kms_fd\<close> sends the descriptor on; \<open>None\<close> when it sends nothing.\<close>

definition share_kms_fd :: "os \<Rightarrow> string option \<Rightarrow> int \<Rightarrow> int option" where
  "share_kms_fd w path fd =
     (if fd < 0 \<or> \<not> path_is_kms_card path then None
      else case os_getenv w ''PLUMOS_DRM_BROKER_FD'' of
        None \<Rightarrow> None
      | Some v \<Rightarrow>
          if v = [] then None
          else let r = strtol v in
            if tol_range r \<or> tol_rest r = v \<or> tol_rest r \<noteq> [] \<or> tol_value r < 0 then None
            else Some (to_int32 (tol_value r)))"

text \<open>\<open>O_CREAT\<close> and \<open>O_TMPFILE\<close> as Linux on the target defines them.\<close>

definition mode_required :: "32 word \<Rightarrow> bool" where
  "mode_required flags \<longleftrightarrow> and flags 0x40 \<noteq> 0 \<or> and flags 0x404000 = 0x404000"

text \<open>
  The four wrappers of \<open>open\<close> differ in the function they look up: \<open>real_open\<close> takes the mode when one is needed
  and returns the descriptor. The result is the descriptor (with the error number when the function is missing) and
  the channel it was sent on.
\<close>

definition open_wrapper ::
    "os \<Rightarrow> (string option \<Rightarrow> 32 word \<Rightarrow> nat option \<Rightarrow> int) option \<Rightarrow> string option \<Rightarrow> 32 word \<Rightarrow> nat \<Rightarrow>
     (int \<times> int option) \<times> int option" where
  "open_wrapper w real_open path flags mode =
     (case real_open of
        None \<Rightarrow> ((-1, Some 38), None)
      | Some f \<Rightarrow>
          let fd = f path flags (if mode_required flags then Some mode else None)
          in ((fd, None), share_kms_fd w path fd))"

end
