(* ===== verification/DrmBrokerProofs.thy ===== *)
theory DrmBrokerProofs
  imports DrmBroker
begin

text \<open>
  The broker as a transition system whose steps are turns of the loop and whose trace is the list of its
  events: which slots it has taken the master from, how many descriptors it keeps, what it closes, and
  that a drop followed by a set gives the display back.
\<close>

section \<open>The master as the trace shows it\<close>

text \<open>\<open>track\<close> keeps, for every slot, whether the broker took the master away and has not given it back.\<close>

fun track :: "(nat \<Rightarrow> bool) \<Rightarrow> broker_event \<Rightarrow> nat \<Rightarrow> bool" where
  "track d (Ioctl i set_master ok) = (if ok then d(i := \<not> set_master) else d)"
| "track d _ = d"

definition may_set :: "(nat \<Rightarrow> bool) \<Rightarrow> broker_event \<Rightarrow> bool" where
  "may_set d ev \<longleftrightarrow> (case ev of Ioctl i set_master ok \<Rightarrow> set_master \<longrightarrow> d i | _ \<Rightarrow> True)"

abbreviation restores_only :: "(nat \<Rightarrow> bool) \<Rightarrow> broker_event list \<Rightarrow> bool" where
  "restores_only \<equiv> accepts track may_set"

lemmas may_set_simps [simp] = may_set_def [of _ "Ioctl _ _ _", simplified] may_set_def [of _ "Stored _ _", simplified]
  may_set_def [of _ "Closed _", simplified] may_set_def [of _ "Replied _", simplified]
  may_set_def [of _ "Forwarded _", simplified]

abbreviation taken :: "(nat \<Rightarrow> bool) \<Rightarrow> broker_event list \<Rightarrow> nat \<Rightarrow> bool" where
  "taken d evs \<equiv> foldl track d evs"

definition slots_agree :: "(nat \<Rightarrow> bool) \<Rightarrow> nat \<Rightarrow> shared_drm_fd list \<Rightarrow> bool" where
  "slots_agree d i fs \<longleftrightarrow> (\<forall>j < length fs. d (i + j) = sf_dropped (fs ! j))"

lemma slots_agree_Cons [simp]:
  "slots_agree d i (f # fs) \<longleftrightarrow> d i = sf_dropped f \<and> slots_agree d (Suc i) fs"
  by (auto simp: slots_agree_def All_less_Suc2)

lemma slots_agree_Nil [simp]: "slots_agree d i []"
  by (simp add: slots_agree_def)

lemma slots_agree_upd [simp]: "k < i \<Longrightarrow> slots_agree (d(k := v)) i fs \<longleftrightarrow> slots_agree d i fs"
  by (simp add: slots_agree_def)

lemma slots_agree_append [simp]:
  "slots_agree d i (xs @ ys) \<longleftrightarrow> slots_agree d i xs \<and> slots_agree d (i + length xs) ys"
  by (induction xs arbitrary: i) auto

lemma operate_loop_frame:
  "operate_loop ioctl s i fs r = (r', fs', evs) \<Longrightarrow> i + length fs \<le> k \<Longrightarrow> taken d evs k = d k"
  by (induction ioctl s i fs r arbitrary: r' fs' evs d rule: operate_loop.induct)
    (auto simp: Let_def split: prod.splits if_splits)

lemma operate_loop_tracked:
  "operate_loop ioctl s i fs r = (r', fs', evs) \<Longrightarrow> slots_agree d i fs \<Longrightarrow>
   map sf_fd fs' = map sf_fd fs \<and> restores_only d evs \<and> slots_agree (taken d evs) i fs' \<and>
   (\<forall>k < i. taken d evs k = d k)"
proof (induction fs arbitrary: i r r' fs' evs d)
  case Nil
  then show ?case by (cases r) simp
next
  case (Cons f fs)
  obtain sc er where r: "r = (sc, er)" by (cases r)
  obtain r1 fs1 evs1 where skip: "operate_loop ioctl s (Suc i) fs (sc, er) = (r1, fs1, evs1)" by (metis prod_cases3)
  obtain r2 fs2 evs2 where good: "operate_loop ioctl s (Suc i) fs (True, er) = (r2, fs2, evs2)" by (metis prod_cases3)
  obtain r3 fs3 evs3 where bad: "operate_loop ioctl s (Suc i) fs (sc, ioctl (sf_fd f) s) = (r3, fs3, evs3)"
    by (metis prod_cases3)
  have agree: "slots_agree d (Suc i) fs" "d i = sf_dropped f" using Cons.prems(2) by simp_all
  then have agree': "slots_agree (d(i := \<not> s)) (Suc i) fs" by simp
  note facts = Cons.IH [OF skip agree(1)] Cons.IH [OF good agree'] Cons.IH [OF bad agree(1)]
  consider "s \<and> \<not> sf_dropped f" | "\<not> (s \<and> \<not> sf_dropped f)" "ioctl (sf_fd f) s = 0"
    | "\<not> (s \<and> \<not> sf_dropped f)" "ioctl (sf_fd f) s \<noteq> 0" by blast
  then show ?case
  proof cases
    case 1
    with Cons.prems(1) facts agree skip show ?thesis by (auto simp: r)
  next
    case 2
    with Cons.prems(1) facts agree good show ?thesis by (cases s) (auto simp: r fun_upd_def)
  next
    case 3
    with Cons.prems(1) facts agree bad show ?thesis by (cases s) (auto simp: r Let_def fun_upd_def)
  qed
qed

lemma operate_tracked:
  assumes "operate_on_shared_fds ioctl fds s = (ok, err, fds', evs)" and "slots_agree d 0 fds"
  shows "map sf_fd fds' = map sf_fd fds \<and> restores_only d evs \<and> slots_agree (taken d evs) 0 fds' \<and>
     (\<forall>k \<ge> length fds. taken d evs k = d k)"
  using assms operate_loop_tracked [of ioctl s 0 fds "(False, ENODEV)" _ fds' evs d]
    operate_loop_frame [of ioctl s 0 fds "(False, ENODEV)" _ fds' evs _ d]
  by (auto simp: operate_on_shared_fds_def split: prod.splits)

lemma serve_tracked:
  assumes "serve_client strerror ioctl request fds = (reply, fds', evs)" and "slots_agree d 0 fds"
  shows "map sf_fd fds' = map sf_fd fds \<and> restores_only d evs \<and> slots_agree (taken d evs) 0 fds' \<and>
     (\<forall>k \<ge> length fds. taken d evs k = d k)"
proof -
  obtain ok1 err1 fds1 evs1 where o1: "operate_on_shared_fds ioctl fds False = (ok1, err1, fds1, evs1)"
    by (metis prod_cases4)
  obtain ok2 err2 fds2 evs2 where o2: "operate_on_shared_fds ioctl fds True = (ok2, err2, fds2, evs2)"
    by (metis prod_cases4)
  show ?thesis
    using assms operate_tracked [OF o1 assms(2)] operate_tracked [OF o2 assms(2)]
    by (auto simp: serve_client_def Let_def o1 o2 split: option.splits if_splits)
qed

section \<open>What is stored and closed\<close>

fun stored_fds :: "broker_event list \<Rightarrow> int list" where
  "stored_fds [] = []"
| "stored_fds (Stored i fd # evs) = fd # stored_fds evs"
| "stored_fds (_ # evs) = stored_fds evs"

fun closed_fds :: "broker_event list \<Rightarrow> int list" where
  "closed_fds [] = []"
| "closed_fds (Closed fd # evs) = fd # closed_fds evs"
| "closed_fds (_ # evs) = closed_fds evs"

lemma stored_fds_append [simp]: "stored_fds (xs @ ys) = stored_fds xs @ stored_fds ys"
  by (induction xs rule: stored_fds.induct) auto

lemma closed_fds_append [simp]: "closed_fds (xs @ ys) = closed_fds xs @ closed_fds ys"
  by (induction xs rule: closed_fds.induct) auto

lemma operate_loop_events:
  "operate_loop ioctl s i fs r = (r', fs', evs) \<Longrightarrow> stored_fds evs = [] \<and> closed_fds evs = []"
  by (induction ioctl s i fs r arbitrary: r' fs' evs rule: operate_loop.induct)
    (auto simp: Let_def split: prod.splits if_splits)

lemma serve_events:
  "serve_client strerror ioctl request fds = (reply, fds', evs) \<Longrightarrow> stored_fds evs = [] \<and> closed_fds evs = []"
  using operate_loop_events
  by (fastforce simp: serve_client_def operate_on_shared_fds_def Let_def split: option.splits if_splits prod.splits)

section \<open>Reachable states\<close>

definition broker_step :: "(int \<Rightarrow> string) \<Rightarrow> broker \<Rightarrow> broker_event list \<Rightarrow> broker \<Rightarrow> bool" where
  "broker_step strerror b evs b' \<longleftrightarrow> br_status b = None \<and> (\<exists>t. broker_turn strerror t b = (b', evs))"

abbreviation broker_reach :: "(int \<Rightarrow> string) \<Rightarrow> broker \<Rightarrow> broker_event list \<Rightarrow> bool" where
  "broker_reach strerror \<equiv> runs (broker_step strerror) init_broker"

definition broker_inv :: "broker \<Rightarrow> broker_event list \<Rightarrow> bool" where
  "broker_inv b tr \<longleftrightarrow> length (br_fds b) \<le> MAX_SHARED_FDS \<and> map sf_fd (br_fds b) = stored_fds tr \<and>
     restores_only (\<lambda>_. False) tr \<and> slots_agree (taken (\<lambda>_. False) tr) 0 (br_fds b) \<and>
     (\<forall>i \<ge> length (br_fds b). \<not> taken (\<lambda>_. False) tr i)"


lemma store_shared_inv:
  assumes "store_shared fd fds = (fds', evs)" and "length fds \<le> MAX_SHARED_FDS" and "slots_agree d 0 fds"
    and "\<forall>i \<ge> length fds. \<not> d i"
  shows "length fds' \<le> MAX_SHARED_FDS \<and> map sf_fd fds' = map sf_fd fds @ stored_fds evs \<and>
    taken d evs = d \<and> restores_only d evs \<and> slots_agree d 0 fds' \<and> (\<forall>i \<ge> length fds'. \<not> d i)"
  using assms by (auto simp: store_shared_def split: if_splits)

lemma broker_turn_parts:
  assumes "broker_turn strerror t b = (b', evs)"
  obtains e1 fds2 e2 e3 where "stored_fds e1 = []" "closed_fds e1 = []" "\<forall>d. taken d e1 = d" "\<forall>d. restores_only d e1"
    "(case bt_message t of None \<Rightarrow> (br_fds b, []) | Some m \<Rightarrow> store_shared (receive_shared_fd m) (br_fds b)) = (fds2, e2)"
    "(bt_client t = None \<and> br_fds b' = fds2 \<and> e3 = []) \<or>
     (\<exists>request reply e4. bt_client t = Some request \<and>
        serve_client strerror (bt_ioctl t) request fds2 = (reply, br_fds b', e4) \<and>
        (e3 = e4 \<or> (\<exists>text. e3 = e4 @ [Replied text])))"
    "evs = e1 @ e2 @ e3"
proof -
  let ?e1 = "case bt_signal t of None \<Rightarrow> [] | Some s \<Rightarrow> [Forwarded s]"
  obtain fds2 e2 where m: "(case bt_message t of None \<Rightarrow> (br_fds b, [])
      | Some m \<Rightarrow> store_shared (receive_shared_fd m) (br_fds b)) = (fds2, e2)" by fastforce
  show thesis
  proof (cases "bt_client t")
    case None
    then show thesis
      using assms m by (intro that [of ?e1 fds2 e2 "[]"]) (auto simp: broker_turn_def Let_def split: option.splits)
  next
    case (Some request)
    obtain reply fds' e4 where c: "serve_client strerror (bt_ioctl t) request fds2 = (reply, fds', e4)"
      by (metis prod_cases3)
    show thesis
      using assms m Some c
      by (intro that [of ?e1 fds2 e2 "e4 @ (case reply of Reply text \<Rightarrow> [Replied text] | NoReply \<Rightarrow> [] | Overread part \<Rightarrow> [Replied part])"])
        (auto simp: broker_turn_def Let_def split: option.splits client_reply.splits)
  qed
qed

lemma broker_turn_inv:
  assumes "broker_inv b tr" and "broker_turn strerror t b = (b', evs)"
  shows "broker_inv b' (tr @ evs)"
proof -
  obtain e1 fds2 e2 e3 where e1: "stored_fds e1 = []" "closed_fds e1 = []" "\<forall>d. taken d e1 = d" "\<forall>d. restores_only d e1" and
    m: "(case bt_message t of None \<Rightarrow> (br_fds b, []) | Some m \<Rightarrow> store_shared (receive_shared_fd m) (br_fds b)) = (fds2, e2)" and
    c: "(bt_client t = None \<and> br_fds b' = fds2 \<and> e3 = []) \<or>
     (\<exists>request reply e4. bt_client t = Some request \<and>
        serve_client strerror (bt_ioctl t) request fds2 = (reply, br_fds b', e4) \<and>
        (e3 = e4 \<or> (\<exists>text. e3 = e4 @ [Replied text])))" and
    evs: "evs = e1 @ e2 @ e3"
    using assms(2) by (rule broker_turn_parts)
  let ?d = "taken (\<lambda>_. False) tr"
  have two: "length fds2 \<le> MAX_SHARED_FDS \<and> map sf_fd fds2 = map sf_fd (br_fds b) @ stored_fds e2 \<and>
    taken ?d e2 = ?d \<and> restores_only ?d e2 \<and> slots_agree ?d 0 fds2 \<and> (\<forall>i \<ge> length fds2. \<not> ?d i)"
    using m assms(1) store_shared_inv [of _ "br_fds b" fds2 e2 ?d]
    by (auto simp: broker_inv_def split: option.splits)
  have three: "map sf_fd (br_fds b') = map sf_fd fds2 \<and> restores_only ?d e3 \<and> slots_agree (taken ?d e3) 0 (br_fds b') \<and>
     (\<forall>k \<ge> length fds2. taken ?d e3 k = ?d k) \<and> stored_fds e3 = []"
    using c
  proof
    assume "bt_client t = None \<and> br_fds b' = fds2 \<and> e3 = []"
    with two show ?thesis by simp
  next
    assume "\<exists>request reply e4. bt_client t = Some request \<and>
        serve_client strerror (bt_ioctl t) request fds2 = (reply, br_fds b', e4) \<and>
        (e3 = e4 \<or> (\<exists>text. e3 = e4 @ [Replied text]))"
    then obtain request reply e4 msg where
      s: "serve_client strerror (bt_ioctl t) request fds2 = (reply, br_fds b', e4)" and
      e3: "e3 = e4 \<or> e3 = e4 @ [Replied msg]" by blast
    show ?thesis using serve_tracked [OF s, of ?d] serve_events [OF s] two e3 by auto
  qed
  have "length (br_fds b') = length fds2" using three by (metis length_map)
  with two three e1 evs assms(1) show ?thesis by (simp add: broker_inv_def)
qed

interpretation broker_runs: trace_invariant "broker_step strerror" init_broker broker_inv
proof unfold_locales
  show "broker_inv init_broker []" by (simp add: broker_inv_def init_broker_def)
  show "broker_inv b' (tr @ evs)" if "broker_inv b tr" and "broker_step strerror b evs b'" for b tr evs b'
    using that broker_turn_inv unfolding broker_step_def by blast
qed

section \<open>A request in closed form\<close>

abbreviation asks :: "bool \<Rightarrow> shared_drm_fd \<Rightarrow> bool" where
  "asks s f \<equiv> s \<longrightarrow> sf_dropped f"

abbreviation grants :: "(int \<Rightarrow> bool \<Rightarrow> int) \<Rightarrow> bool \<Rightarrow> shared_drm_fd \<Rightarrow> bool" where
  "grants a s f \<equiv> asks s f \<and> a (sf_fd f) s = 0"

definition after_request :: "(int \<Rightarrow> bool \<Rightarrow> int) \<Rightarrow> bool \<Rightarrow> shared_drm_fd \<Rightarrow> shared_drm_fd" where
  "after_request a s f = (if grants a s f then f\<lparr>sf_dropped := \<not> s\<rparr> else f)"

fun request_events :: "(int \<Rightarrow> bool \<Rightarrow> int) \<Rightarrow> bool \<Rightarrow> nat \<Rightarrow> shared_drm_fd list \<Rightarrow> broker_event list" where
  "request_events a s i [] = []"
| "request_events a s i (f # fs) =
     (if asks s f then [Ioctl i s (a (sf_fd f) s = 0)] else []) @ request_events a s (Suc i) fs"

lemma operate_loop_closed:
  "fst (fst (operate_loop a s i fs (ok, er))) \<longleftrightarrow> ok \<or> list_ex (grants a s) fs"
  "fst (snd (operate_loop a s i fs (ok, er))) = map (after_request a s) fs"
  "snd (snd (operate_loop a s i fs (ok, er))) = request_events a s i fs"
proof (induction fs arbitrary: i ok er)
  case (Cons f fs)
  {
    case 1
    show ?case using Cons.IH
      by (cases s; cases "sf_dropped f"; cases "a (sf_fd f) s = 0") (auto simp: case_prod_beta Let_def)
  next
    case 2
    show ?case using Cons.IH
      by (cases s; cases "sf_dropped f"; cases "a (sf_fd f) s = 0")
        (auto simp: case_prod_beta Let_def after_request_def)
  next
    case 3
    show ?case using Cons.IH
      by (cases s; cases "sf_dropped f"; cases "a (sf_fd f) s = 0") (auto simp: case_prod_beta Let_def)
  }
qed simp_all

lemma operate_closed:
  "\<exists>err. operate_on_shared_fds a fds s =
     (list_ex (grants a s) fds, err, map (after_request a s) fds, request_events a s 0 fds)"
proof -
  obtain ok er fds' evs where o: "operate_loop a s 0 fds (False, ENODEV) = ((ok, er), fds', evs)"
    by (metis prod.collapse)
  have "ok \<longleftrightarrow> list_ex (grants a s) fds" "fds' = map (after_request a s) fds" "evs = request_events a s 0 fds"
    using operate_loop_closed [where a = a and s = s and i = 0 and fs = fds and ok = False and er = ENODEV]
    by (simp_all add: o)
  then show ?thesis by (auto simp: operate_on_shared_fds_def o)
qed

text \<open>The bytes a client reads: those of the buffer when the answer was cut.\<close>

definition answer :: "client_reply \<Rightarrow> string option" where
  "answer reply = (case reply of NoReply \<Rightarrow> None | Reply t \<Rightarrow> Some t | Overread part \<Rightarrow> Some part)"

definition says_ok :: "client_reply \<Rightarrow> bool" where
  "says_ok reply \<longleftrightarrow> (case answer reply of None \<Rightarrow> False | Some t \<Rightarrow> prefix ''ok'' t)"

abbreviation request_text :: "bool \<Rightarrow> string" where
  "request_text s \<equiv> (if s then ''set'' else ''drop'') @ [NL]"

lemma serve_request:
  "\<exists>reply. serve_client strerror a (Some (request_text s)) fds =
     (reply, map (after_request a s) fds, request_events a s 0 fds) \<and>
     (says_ok reply \<longleftrightarrow> list_ex (grants a s) fds) \<and> answer reply \<noteq> None"
proof -
  obtain err where "operate_on_shared_fds a fds s =
     (list_ex (grants a s) fds, err, map (after_request a s) fds, request_events a s 0 fds)"
    using operate_closed by blast
  then show ?thesis
    by (cases s; cases "list_ex (grants a s) fds")
      (auto simp: serve_client_def Let_def strncmp_eq_def c_str_def says_ok_def answer_def)
qed

lemma after_both:
  assumes "\<not> sf_dropped f" and "a1 (sf_fd f) False = 0 \<longrightarrow> a2 (sf_fd f) True = 0"
  shows "after_request a2 True (after_request a1 False f) = f"
  using assms by (cases f) (auto simp: after_request_def)

lemma restored_events:
  "list_all (\<lambda>f. \<not> sf_dropped f \<and> (a1 (sf_fd f) False = 0 \<longrightarrow> a2 (sf_fd f) True = 0)) fds \<Longrightarrow>
   request_events a2 True i (map (after_request a1 False) fds) =
     map (\<lambda>j. Ioctl (i + j) True True) (filter (\<lambda>j. a1 (sf_fd (fds ! j)) False = 0) [0..<length fds])"
proof (induction fds arbitrary: i)
  case Nil
  then show ?case by simp
next
  case (Cons f fds)
  have "[0..<length (f # fds)] = 0 # map Suc [0..<length fds]" by (simp add: map_Suc_upt upt_conv_Cons del: upt_Suc)
  with Cons show ?case by (auto simp: after_request_def filter_map o_def)
qed

lemma restored_success:
  "list_all (\<lambda>f. \<not> sf_dropped f \<and> (a1 (sf_fd f) False = 0 \<longrightarrow> a2 (sf_fd f) True = 0)) fds \<Longrightarrow>
   list_ex (grants a2 True) (map (after_request a1 False) fds) \<longleftrightarrow> list_ex (\<lambda>f. a1 (sf_fd f) False = 0) fds"
  by (induction fds) (auto simp: after_request_def)

text \<open>
  Taking the display away and giving it back. When a broker that holds no dropped descriptor serves a drop, and
  later a set that succeeds wherever the drop did, its descriptors are as they were, the master was set on
  exactly the slots it had been dropped on, and both answers say the same: success when one descriptor at
  least was the master.
\<close>

theorem drop_then_set_restores:
  assumes "list_all (\<lambda>f. \<not> sf_dropped f \<and> (a1 (sf_fd f) False = 0 \<longrightarrow> a2 (sf_fd f) True = 0)) fds"
    and "serve_client strerror a1 (Some ''drop\<newline>'') fds = (reply1, fds1, evs1)"
    and "serve_client strerror a2 (Some ''set\<newline>'') fds1 = (reply2, fds2, evs2)"
  shows "fds2 = fds \<and>
    evs2 = map (\<lambda>i. Ioctl i True True) (filter (\<lambda>i. a1 (sf_fd (fds ! i)) False = 0) [0..<length fds]) \<and>
    (says_ok reply1 \<longleftrightarrow> list_ex (\<lambda>f. a1 (sf_fd f) False = 0) fds) \<and> (says_ok reply2 \<longleftrightarrow> says_ok reply1)"
proof -
  have l: "''drop\<newline>'' = request_text False" "''set\<newline>'' = request_text True" by simp_all
  have one: "fds1 = map (after_request a1 False) fds" "says_ok reply1 \<longleftrightarrow> list_ex (\<lambda>f. a1 (sf_fd f) False = 0) fds"
    using serve_request [of strerror a1 False fds] assms(2) unfolding l(1) by simp_all
  have two: "fds2 = map (after_request a2 True) fds1" "says_ok reply2 \<longleftrightarrow> list_ex (grants a2 True) fds1"
    "evs2 = request_events a2 True 0 fds1"
    using serve_request [of strerror a2 True fds1] assms(3) unfolding l(2) by simp_all
  have "fds2 = fds"
    using assms(1) by (auto simp: one two list_all_iff map_idI after_both)
  moreover have "list_ex (grants a2 True) fds1 \<longleftrightarrow> list_ex (\<lambda>f. a1 (sf_fd f) False = 0) fds"
    using restored_success [of a1 a2 fds, OF assms(1)] by (simp add: one)
  ultimately show ?thesis using restored_events [of a1 a2 fds 0, OF assms(1)] one two by simp
qed


definition demo_kernel :: "int \<Rightarrow> bool \<Rightarrow> int" where
  "demo_kernel fd set_master = (if fd = 7 then 0 else 22)"

definition demo_slots :: "shared_drm_fd list" where
  "demo_slots = [\<lparr>sf_fd = 5, sf_dropped = False\<rparr>, \<lparr>sf_fd = 7, sf_dropped = False\<rparr>]"

theorem drop_then_set_restores_witness:
  "(let (reply1, fds1, evs1) = serve_client (\<lambda>_. ''Invalid argument'') demo_kernel (Some ''drop\<newline>'') demo_slots;
        (reply2, fds2, evs2) = serve_client (\<lambda>_. ''Invalid argument'') demo_kernel (Some ''set\<newline>'') fds1
    in fds1 \<noteq> demo_slots \<and> fds2 = demo_slots \<and> evs2 = [Ioctl 1 True True] \<and> says_ok reply2)"
proof -
  let ?s = "\<lambda>_::int. ''Invalid argument''"
  obtain reply1 fds1 evs1 where one: "serve_client ?s demo_kernel (Some ''drop\<newline>'') demo_slots = (reply1, fds1, evs1)"
    by (metis prod_cases3)
  obtain reply2 fds2 evs2 where two: "serve_client ?s demo_kernel (Some ''set\<newline>'') fds1 = (reply2, fds2, evs2)"
    by (metis prod_cases3)
  have "list_all (\<lambda>f. \<not> sf_dropped f \<and> (demo_kernel (sf_fd f) False = 0 \<longrightarrow> demo_kernel (sf_fd f) True = 0)) demo_slots"
    by (simp add: demo_slots_def demo_kernel_def)
  note t = drop_then_set_restores [OF this one two]
  have "fds1 = map (after_request demo_kernel False) demo_slots"
    using serve_request [of ?s demo_kernel False demo_slots] one by simp
  then have "fds1 \<noteq> demo_slots" by (simp add: demo_slots_def demo_kernel_def after_request_def)
  with t show ?thesis
    by (simp add: one two) (simp add: demo_slots_def demo_kernel_def upt_rec)
qed

text \<open>
  C7: the invariant of the broker. In every reachable state it holds at most eight descriptors, which are those it
  stored, in their order; it sets the master on a slot only after it dropped it there (and not twice in a row), and
  its mark of a slot says exactly whether the last request that succeeded on it was a drop.
\<close>

theorem broker_sets_only_what_it_dropped:
  assumes "broker_reach strerror b tr"
  shows "length (br_fds b) \<le> 8 \<and> map sf_fd (br_fds b) = stored_fds tr \<and> restores_only (\<lambda>_. False) tr \<and>
    map sf_dropped (br_fds b) = map (taken (\<lambda>_. False) tr) [0..<length (br_fds b)]"
proof -
  have "broker_inv b tr" using assms by (rule broker_runs.runs_inv)
  then show ?thesis
    by (auto simp: broker_inv_def MAX_SHARED_FDS_def slots_agree_def intro!: nth_equalityI)
qed

definition demo_turn :: broker_turn where
  "demo_turn = \<lparr>bt_signal = None, bt_message = Some (Some [(False, [3]), (True, [7, 8])]), bt_client = Some (Some ''drop\<newline>''),
     bt_ioctl = demo_kernel, bt_wait = StillRunning\<rparr>"

theorem broker_sets_only_what_it_dropped_witness:
  "\<exists>b tr. broker_reach (\<lambda>_. ''Invalid argument'') b tr \<and> br_fds b = [\<lparr>sf_fd = 7, sf_dropped = True\<rparr>] \<and>
     restores_only (\<lambda>_. False) tr \<and> taken (\<lambda>_. False) tr 0"
proof -
  let ?s = "\<lambda>_::int. ''Invalid argument''"
  have t: "broker_turn ?s demo_turn init_broker =
      (\<lparr>br_fds = [\<lparr>sf_fd = 7, sf_dropped = True\<rparr>], br_status = None\<rparr>, [Stored 0 7, Ioctl 0 False True, Replied ''ok\<newline>''])"
    by (simp add: broker_turn_def demo_turn_def init_broker_def store_shared_def MAX_SHARED_FDS_def serve_client_def
        strncmp_eq_def c_str_def operate_on_shared_fds_def demo_kernel_def Let_def)
  let ?b = "\<lparr>br_fds = [\<lparr>sf_fd = 7, sf_dropped = True\<rparr>], br_status = None\<rparr>"
  let ?tr = "[] @ [Stored 0 7, Ioctl 0 False True, Replied ''ok\<newline>'']"
  have r: "broker_reach ?s ?b ?tr"
    by (rule runs.turn [OF runs.start]) (use t in \<open>auto simp: broker_step_def init_broker_def\<close>)
  have "restores_only (\<lambda>_. False) ?tr \<and> taken (\<lambda>_. False) ?tr 0"
    using broker_sets_only_what_it_dropped [OF r] by simp
  with r have "broker_reach ?s ?b ?tr \<and> br_fds ?b = [\<lparr>sf_fd = 7, sf_dropped = True\<rparr>] \<and>
      restores_only (\<lambda>_. False) ?tr \<and> taken (\<lambda>_. False) ?tr 0" by simp
  then show ?thesis by blast
qed

section \<open>The end of the run\<close>

text \<open>The descriptors the turns bring, and the turns up to the one in which the child ends.\<close>

fun turn_fds :: "broker_turn list \<Rightarrow> int list" where
  "turn_fds [] = []"
| "turn_fds (t # ts) =
     (case bt_message t of None \<Rightarrow> []
      | Some m \<Rightarrow> if receive_shared_fd m < 0 then [] else [receive_shared_fd m]) @ turn_fds ts"

definition turn_ends :: "broker_turn \<Rightarrow> wait_status option" where
  "turn_ends t = (case bt_wait t of Waited s \<Rightarrow> Some s | WaitFailed \<Rightarrow> Some (Exited 1) | _ \<Rightarrow> None)"

lemma broker_turn_status: "br_status (fst (broker_turn strerror t b)) = turn_ends t"
  by (auto simp: broker_turn_def turn_ends_def Let_def split: prod.splits option.splits wait_answer.splits)

lemma broker_turn_kept:
  assumes "broker_turn strerror t b = (b', evs)"
  shows "mset (map sf_fd (br_fds b')) + mset (closed_fds evs) = mset (map sf_fd (br_fds b)) + mset (turn_fds [t])"
proof -
  obtain e1 fds2 e2 e3 where e1: "stored_fds e1 = []" "closed_fds e1 = []" "\<forall>d. taken d e1 = d" "\<forall>d. restores_only d e1" and
    m: "(case bt_message t of None \<Rightarrow> (br_fds b, []) | Some m \<Rightarrow> store_shared (receive_shared_fd m) (br_fds b)) = (fds2, e2)" and
    c: "(bt_client t = None \<and> br_fds b' = fds2 \<and> e3 = []) \<or>
     (\<exists>request reply e4. bt_client t = Some request \<and>
        serve_client strerror (bt_ioctl t) request fds2 = (reply, br_fds b', e4) \<and>
        (e3 = e4 \<or> (\<exists>text. e3 = e4 @ [Replied text])))" and
    evs: "evs = e1 @ e2 @ e3"
    using assms by (rule broker_turn_parts)
  have "mset (map sf_fd fds2) + mset (closed_fds e2) = mset (map sf_fd (br_fds b)) + mset (turn_fds [t])"
    using m by (auto simp: store_shared_def split: option.splits if_splits)
  moreover have "map sf_fd (br_fds b') = map sf_fd fds2 \<and> closed_fds e3 = []"
    using c
  proof
    assume "\<exists>request reply e4. bt_client t = Some request \<and>
        serve_client strerror (bt_ioctl t) request fds2 = (reply, br_fds b', e4) \<and>
        (e3 = e4 \<or> (\<exists>text. e3 = e4 @ [Replied text]))"
    then obtain request reply e4 msg where
      s: "serve_client strerror (bt_ioctl t) request fds2 = (reply, br_fds b', e4)" and
      e3: "e3 = e4 \<or> e3 = e4 @ [Replied msg]" by blast
    have "slots_agree (\<lambda>i. i < length fds2 \<and> sf_dropped (fds2 ! i)) 0 fds2" by (simp add: slots_agree_def)
    from serve_tracked [OF s this] serve_events [OF s] e3 show ?thesis by auto
  qed simp
  ultimately show ?thesis using e1 evs by simp
qed

lemma closed_map [simp]: "closed_fds (map (Closed \<circ> sf_fd) fs) = map sf_fd fs"
  by (induction fs) auto


lemma broker_loop_ends:
  "br_status b = None \<Longrightarrow>
    (broker_loop strerror turns b = None \<longleftrightarrow> (\<nexists>t. t \<in> set turns \<and> turn_ends t \<noteq> None)) \<and>
    (\<forall>code evs. broker_loop strerror turns b = Some (code, evs) \<longrightarrow>
      (\<exists>past t later s. turns = past @ t # later \<and> list_all (\<lambda>t. turn_ends t = None) past \<and> turn_ends t = Some s \<and>
         code = child_exit_code s \<and>
         mset (closed_fds evs) = mset (map sf_fd (br_fds b)) + mset (turn_fds (past @ [t]))))"
proof (induction turns arbitrary: b)
  case Nil
  then show ?case by (simp add: broker_loop.simps)
next
  case (Cons t ts)
  obtain b' evs where t: "broker_turn strerror t b = (b', evs)" by fastforce
  have st: "br_status b' = turn_ends t" using broker_turn_status [of strerror t b] t by simp
  have loop: "broker_loop strerror (t # ts) b = map_option (\<lambda>(c, rest). (c, evs @ rest)) (broker_loop strerror ts b')"
    using Cons.prems by (simp add: broker_loop.simps [of _ "t # ts"] t)
  note kept = broker_turn_kept [OF t]
  show ?case
  proof (cases "turn_ends t")
    case None
    note IH = Cons.IH [of b'] 
    have "\<exists>past t' later s. t # ts = past @ t' # later \<and> list_all (\<lambda>t. turn_ends t = None) past \<and>
        turn_ends t' = Some s \<and> code = child_exit_code s \<and>
        mset (closed_fds all) = mset (map sf_fd (br_fds b)) + mset (turn_fds (past @ [t']))"
      if l: "broker_loop strerror (t # ts) b = Some (code, all)" for code all
    proof -
      obtain rest where r: "broker_loop strerror ts b' = Some (code, rest)" "all = evs @ rest" using l loop by auto
      then obtain past t' later s where p: "ts = past @ t' # later" "list_all (\<lambda>t. turn_ends t = None) past"
        "turn_ends t' = Some s" "code = child_exit_code s"
        "mset (closed_fds rest) = mset (map sf_fd (br_fds b')) + mset (turn_fds (past @ [t']))"
        using IH st None by auto
      have "mset (closed_fds all) = mset (map sf_fd (br_fds b)) + mset (turn_fds ((t # past) @ [t']))"
        using kept p(5) r(2) by (simp add: ac_simps)
      with p None show ?thesis by (intro exI [of _ "t # past"]) auto
    qed
    moreover have "broker_loop strerror (t # ts) b = None \<longleftrightarrow> (\<nexists>t'. t' \<in> set (t # ts) \<and> turn_ends t' \<noteq> None)"
      using loop IH st None by auto
    ultimately show ?thesis by blast
  next
    case (Some s)
    have "broker_loop strerror (t # ts) b = Some (child_exit_code s, evs @ map (Closed \<circ> sf_fd) (rev (br_fds b')))"
      using loop st Some by (simp add: broker_loop.simps [of _ ts])
    moreover have "mset (closed_fds (evs @ map (Closed \<circ> sf_fd) (rev (br_fds b')))) =
        mset (map sf_fd (br_fds b)) + mset (turn_fds ([] @ [t]))"
      using kept by (simp add: add.commute)
    ultimately show ?thesis using Some by (auto intro!: exI [of _ "[]"])
  qed
qed


end
