(* ===== verification/DrmMaster.thy ===== *)
theory DrmMaster
  imports DrmBrokerProofs
begin

text \<open>
  The tool that drops or sets the DRM master of a running program (\<open>src/services/plumos_drm_master.c\<close>): it asks
  the broker of the program or of one of its ancestors, and failing that works on the descriptors of the
  program itself.
\<close>

section \<open>Asking a broker\<close>

text \<open>
  \<open>ask path request\<close> is the answer of the broker that listens on \<open>path\<close>, absent when there is none or the
  exchange fails; \<open>status_of pid\<close> is the text of \<open>/proc/PID/status\<close>.
\<close>

definition broker_socket :: "os \<Rightarrow> int \<Rightarrow> string" where
  "broker_socket w pid = broker_runtime_root w @ ''/drm-handoff/'' @ show_int pid @ ''.sock''"

definition parent_of :: "string \<Rightarrow> int" where
  "parent_of status = (case first_number ''PPid:'' (fgets_lines 512 status) of None \<Rightarrow> 0 | Some v \<Rightarrow> v)"

fun via_loop ::
    "os \<Rightarrow> (string \<Rightarrow> string \<Rightarrow> string option) \<Rightarrow> (int \<Rightarrow> string option) \<Rightarrow> string \<Rightarrow> nat \<Rightarrow> int \<Rightarrow> int" where
  "via_loop w ask status_of request 0 pid = 1"
| "via_loop w ask status_of request (Suc attempts) pid =
     (if pid \<le> 1 then 1
      else
        case (if length (broker_socket w pid) < 108 then ask (broker_socket w pid) request else None) of
          Some reply \<Rightarrow> if strncmp_eq (c_str (take 511 reply)) ''ok'' 2 then 0 else 1
        | None \<Rightarrow>
            if 64 \<le> length (''/proc/'' @ show_int pid @ ''/status'') then 1
            else case status_of pid of
              None \<Rightarrow> 1
            | Some status \<Rightarrow>
                let parent = parent_of status
                in if parent \<le> 1 \<or> parent = pid then 1
                   else via_loop w ask status_of request attempts (to_int32 parent))"

definition operate_via_broker ::
    "os \<Rightarrow> (string \<Rightarrow> string \<Rightarrow> string option) \<Rightarrow> (int \<Rightarrow> string option) \<Rightarrow> int \<Rightarrow> bool \<Rightarrow> int" where
  "operate_via_broker w ask status_of pid set_master =
     via_loop w ask status_of ((if set_master then ''set'' else ''drop'') @ [NL]) 32 pid"

section \<open>Working on the descriptors of the program\<close>

text \<open>
  \<open>open_fd\<close> says whether a path under \<open>/proc/PID/fd\<close> can be opened for reading and writing, \<open>ioctl\<close> whether the
  request on the descriptor succeeds.
\<close>

fun on_pid_loop ::
    "(string \<Rightarrow> bool) \<Rightarrow> (string \<Rightarrow> bool \<Rightarrow> bool) \<Rightarrow> string \<Rightarrow> bool \<Rightarrow> proc_entry list \<Rightarrow> int" where
  "on_pid_loop open_fd ioctl dir set_master [] = 1"
| "on_pid_loop open_fd ioctl dir set_master (e # es) =
     (case entry_target dir e of
        None \<Rightarrow> on_pid_loop open_fd ioctl dir set_master es
      | Some target \<Rightarrow>
          if \<not> strncmp_eq target ''/dev/dri/card'' 13 then on_pid_loop open_fd ioctl dir set_master es
          else if \<not> open_fd (dir @ ''/'' @ pe_name e) then on_pid_loop open_fd ioctl dir set_master es
          else if ioctl (dir @ ''/'' @ pe_name e) set_master then 0
          else on_pid_loop open_fd ioctl dir set_master es)"

definition operate_on_pid ::
    "(int \<Rightarrow> proc_entry list option) \<Rightarrow> (string \<Rightarrow> bool) \<Rightarrow> (string \<Rightarrow> bool \<Rightarrow> bool) \<Rightarrow> int \<Rightarrow> bool \<Rightarrow> int" where
  "operate_on_pid descriptors open_fd ioctl pid set_master =
     (if pid \<le> 1 \<or> 64 \<le> length (proc_fd_dir pid) then 1
      else case descriptors pid of
        None \<Rightarrow> 1
      | Some entries \<Rightarrow> on_pid_loop open_fd ioctl (proc_fd_dir pid) set_master entries)"

section \<open>The program\<close>

record master_env =
  me_os :: os
  me_ask :: "string \<Rightarrow> string \<Rightarrow> string option"
  me_status :: "int \<Rightarrow> string option"
  me_descriptors :: "int \<Rightarrow> proc_entry list option"
  me_open :: "string \<Rightarrow> bool"
  me_ioctl :: "string \<Rightarrow> bool \<Rightarrow> bool"

definition drm_master_main :: "master_env \<Rightarrow> string list \<Rightarrow> int" where
  "drm_master_main e args =
     (case args of
        [command, number] \<Rightarrow>
          if command \<noteq> ''drop'' \<and> command \<noteq> ''set'' then 2
          else let r = strtol number
            in if tol_range r \<or> tol_rest r = number \<or> tol_rest r \<noteq> [] \<or> tol_value r \<le> 1 then 2
               else let set_master = (command = ''set''); pid = to_int32 (tol_value r)
                 in if operate_via_broker (me_os e) (me_ask e) (me_status e) pid set_master = 0 then 0
                    else operate_on_pid (me_descriptors e) (me_open e) (me_ioctl e) pid set_master
      | _ \<Rightarrow> 2)"


section \<open>How far the search goes\<close>

text \<open>The program and its ancestors, as \<open>/proc\<close> shows them, at most \<open>n\<close>.\<close>

fun ancestors :: "(int \<Rightarrow> string option) \<Rightarrow> nat \<Rightarrow> int \<Rightarrow> int list" where
  "ancestors status_of 0 pid = []"
| "ancestors status_of (Suc n) pid =
     (if pid \<le> 1 then []
      else pid # (case status_of pid of
          None \<Rightarrow> []
        | Some status \<Rightarrow>
            if parent_of status \<le> 1 \<or> parent_of status = pid then []
            else ancestors status_of n (to_int32 (parent_of status))))"

lemma show_nat_length: "n < 10 ^ k \<Longrightarrow> 0 < k \<Longrightarrow> length (show_nat n) \<le> k"
proof (induction k arbitrary: n)
  case 0
  then show ?case by simp
next
  case (Suc k)
  show ?case
  proof (cases "n < 10")
    case True
    then show ?thesis by (subst show_nat.simps) simp
  next
    case False
    with Suc.prems have "n div 10 < 10 ^ k" "0 < k" by (auto simp: less_mult_imp_div_less intro: Suc_leI gr0I)
    with Suc.IH [of "n div 10"] False show ?thesis by (subst show_nat.simps) simp
  qed
qed

lemma show_pid_length: "0 \<le> v \<Longrightarrow> v < 2 ^ 31 \<Longrightarrow> length (show_int v) \<le> 10"
  using show_nat_length [of "nat v" 10] by (simp add: show_int_def)

lemma show_pid_inject: "0 \<le> v \<Longrightarrow> 0 \<le> u \<Longrightarrow> show_int v = show_int u \<longleftrightarrow> v = u"
  by (auto simp: show_int_def) (metis digits_value_show nat_0_le)

lemma to_int32_bounds: "to_int32 v < 2 ^ 31"
  by (simp add: to_int32_def)

lemma broker_socket_inject: "0 \<le> p \<Longrightarrow> 0 \<le> b \<Longrightarrow> broker_socket w p = broker_socket w b \<longleftrightarrow> p = b"
  by (simp add: broker_socket_def show_pid_inject)

text \<open>A system in which \<open>b\<close> is the only broker, with the descriptors \<open>fds\<close>.\<close>

definition one_broker ::
    "os \<Rightarrow> int \<Rightarrow> (int \<Rightarrow> string) \<Rightarrow> (int \<Rightarrow> bool \<Rightarrow> int) \<Rightarrow> shared_drm_fd list \<Rightarrow> string \<Rightarrow> string \<Rightarrow> string option" where
  "one_broker w b strerror a fds path request =
     (if path = broker_socket w b then answer (fst (serve_client strerror a (Some request) fds)) else None)"

lemma prefix_ok_cut: "prefix ''ok'' (c_str (take 511 t)) \<longleftrightarrow> prefix ''ok'' t"
proof (cases t)
  case (Cons c r)
  then show ?thesis by (cases r) (auto simp: c_str_def)
qed (simp add: c_str_def)

lemma one_broker_answers:
  "\<exists>reply. one_broker w b strerror a fds (broker_socket w b) (request_text s) = Some reply \<and>
     (strncmp_eq (c_str (take 511 reply)) ''ok'' 2 \<longleftrightarrow> list_ex (grants a s) fds)"
proof -
  have ok: "strncmp_eq r ''ok'' 2 \<longleftrightarrow> prefix ''ok'' r" for r
    by (rule strncmp_prefix) simp
  show ?thesis
    using serve_request [of strerror a s fds]
    by (auto simp: one_broker_def ok prefix_ok_cut says_ok_def)
qed

lemma via_loop_ancestors:
  assumes "0 < b" and "length (broker_socket w b) < 108"
  shows "pid < 2 ^ 31 \<Longrightarrow> via_loop w (one_broker w b strerror a fds) status_of (request_text s) n pid =
     (if b \<in> set (ancestors status_of n pid) \<and> list_ex (grants a s) fds then 0 else 1)"
proof (induction n arbitrary: pid)
  case 0
  then show ?case by simp
next
  case (Suc n)
  show ?case
  proof (cases "pid \<le> 1 \<or> pid = b")
    case True
    then show ?thesis using one_broker_answers [of w b strerror a fds s] assms by auto
  next
    case False
    then have ask: "(if length (broker_socket w pid) < 108
        then one_broker w b strerror a fds (broker_socket w pid) (request_text s) else None) = None"
      using broker_socket_inject [of pid b w] assms(1) by (simp add: one_broker_def)
    have "length (show_int pid) \<le> 10" using False Suc.prems by (intro show_pid_length) linarith+
    then have len: "\<not> 64 \<le> length (''/proc/'' @ show_int pid @ ''/status'')" by simp
    have step: "via_loop w (one_broker w b strerror a fds) status_of (request_text s) (Suc n) pid =
       (case status_of pid of None \<Rightarrow> 1
        | Some status \<Rightarrow> if parent_of status \<le> 1 \<or> parent_of status = pid then 1
            else via_loop w (one_broker w b strerror a fds) status_of (request_text s) n (to_int32 (parent_of status)))"
      using False unfolding via_loop.simps ask option.case if_not_P [OF len] Let_def by simp
    show ?thesis unfolding step using False Suc.IH [OF to_int32_bounds] by (auto split: option.split)
  qed
qed

text \<open>
  The tool reaches the broker. Whatever the processes on the system, when \<open>b\<close> is the only broker, asking for a
  program succeeds exactly when \<open>b\<close> is that program or one of its 31 nearest ancestors and at least one of
  the descriptors it holds takes the request; no other process is ever asked to change the display.
\<close>

theorem operate_via_broker_reaches_ancestor:
  assumes "0 < b" and "length (broker_socket w b) < 108" and "pid < 2 ^ 31"
  shows "operate_via_broker w (one_broker w b strerror a fds) status_of pid s =
     (if b \<in> set (ancestors status_of 32 pid) \<and> list_ex (grants a s) fds then 0 else 1)"
  unfolding operate_via_broker_def using assms by (rule via_loop_ancestors)

definition demo_procs :: "int \<Rightarrow> string option" where
  "demo_procs pid = (if pid = 40 then Some ''Name: x\<newline>PPid: 30\<newline>'' else if pid = 30 then Some ''PPid: 20\<newline>'' else None)"

definition demo_run_os :: os where
  "demo_run_os = \<lparr>os_stat = (\<lambda>_. None), os_readdir = (\<lambda>_. None), os_read = (\<lambda>_. None), os_realpath = (\<lambda>_. None),
     os_getenv = (\<lambda>_. None), os_access_x = (\<lambda>_. False)\<rparr>"


lemma demo_parents: "parent_of ''Name: x\<newline>PPid: 30\<newline>'' = 30" "parent_of ''PPid: 20\<newline>'' = 20"
  by (simp_all add: parent_of_def fgets_lines.simps fgets_cut_def sscanf_long_def strtol_def c_str_def Let_def
      clamp_long_def LONG_MAX_def LONG_MIN_def ctype_simps)

theorem operate_via_broker_reaches_ancestor_witness:
  "operate_via_broker demo_run_os (one_broker demo_run_os 20 (\<lambda>_. ''busy'') demo_kernel demo_slots) demo_procs 40 False = 0"
proof -
  have "broker_socket demo_run_os 20 = ''/run/plumos/drm-handoff/20.sock''"
    by (simp add: broker_socket_def broker_runtime_root_def env_or_def demo_run_os_def show_int_def show_nat.simps
        digit_char_def char_of_def bit_0)
  then have len: "length (broker_socket demo_run_os 20) < 108" by simp
  have "20 \<in> set (ancestors demo_procs 32 40)"
    by (simp add: numeral_eq_Suc demo_procs_def demo_parents [simplified] to_int32_id)
  moreover have "list_ex (grants demo_kernel False) demo_slots" by (simp add: demo_kernel_def demo_slots_def)
  ultimately show ?thesis
    using operate_via_broker_reaches_ancestor [OF _ len, of 40] by simp
qed

section \<open>The arguments\<close>

definition valid_master_args :: "string list \<Rightarrow> bool" where
  "valid_master_args args \<longleftrightarrow>
     (\<exists>command number. args = [command, number] \<and> (command = ''drop'' \<or> command = ''set'') \<and>
        \<not> tol_range (strtol number) \<and> tol_rest (strtol number) = [] \<and> number \<noteq> [] \<and> 1 < tol_value (strtol number))"

lemma via_loop_01: "via_loop w ask st q n pid \<in> {0, 1}"
  by (induction w ask st q n pid rule: via_loop.induct) (auto simp: Let_def split: option.split)

lemma on_pid_loop_01: "on_pid_loop op io dir s es \<in> {0, 1}"
  by (induction op io dir s es rule: on_pid_loop.induct) (auto split: option.split)

lemma operate_on_pid_01: "operate_on_pid ds op io pid s \<in> {0, 1}"
  using on_pid_loop_01 by (auto simp: operate_on_pid_def split: option.split)

lemma operate_via_broker_01: "operate_via_broker w ask st pid s \<in> {0, 1}"
  unfolding operate_via_broker_def by (rule via_loop_01)

lemma master_wraps:
  "strtol ''4294967301'' = \<lparr>tol_value = 4294967301, tol_rest = [], tol_range = False\<rparr>"
  "strtol ''5'' = \<lparr>tol_value = 5, tol_rest = [], tol_range = False\<rparr>"
  "to_int32 4294967301 = 5" "to_int32 5 = 5"
  by (simp_all add: strtol_def Let_def clamp_long_def LONG_MAX_def LONG_MIN_def ctype_simps to_int32_def)

text \<open>
  The exit status 2 means exactly that the arguments are wrong: a command that is neither \<open>drop\<close> nor \<open>set\<close>, or
  something that is not a number above 1 in the range of a \<open>long\<close>. The number is then cut to 32 bits unchecked, so
  4294967301 passes as a process id and the tool acts on process 5.
\<close>

theorem drm_master_usage:
  "(drm_master_main e args = 2 \<longleftrightarrow> \<not> valid_master_args args) \<and>
   valid_master_args [''drop'', ''4294967301''] \<and>
   drm_master_main e [command, ''4294967301''] = drm_master_main e [command, ''5'']"
proof (intro conjI)
  have n: "operate_on_pid ds op io pid s \<noteq> 2" for ds op io pid s
    using operate_on_pid_01 [of ds op io pid s] by auto
  show "drm_master_main e args = 2 \<longleftrightarrow> \<not> valid_master_args args"
    by (auto simp: drm_master_main_def valid_master_args_def Let_def n split: list.split)
  show "valid_master_args [''drop'', ''4294967301'']"
    by (simp add: valid_master_args_def master_wraps)
  show "drm_master_main e [command, ''4294967301''] = drm_master_main e [command, ''5'']"
    by (simp add: drm_master_main_def master_wraps)
qed

end
