(* ===== verification/GgfeArt.thy ===== *)
theory GgfeArt
  imports JsonLib ScanWalk
begin

text \<open>
  The configuration of the Game Gear frontend and its artwork lookup (\<open>src/frontend/plumos_ggfe_art.h\<close>). A table of fixed
  size with a count is the list of its first entries; a routine that fills a table writes its slots in place, also the one
  after the last that counts.
\<close>

section \<open>Configuration\<close>

definition GGFE_MAX_SOURCES :: nat where "GGFE_MAX_SOURCES = 8"
definition GGFE_MAX_ROM_DIRS :: nat where "GGFE_MAX_ROM_DIRS = 8"
definition GGFE_MAX_EXTS :: nat where "GGFE_MAX_EXTS = 6"
definition GGFE_MAX_LOOKUPS :: nat where "GGFE_MAX_LOOKUPS = 4"
definition GGFE_MAX_PREFER :: nat where "GGFE_MAX_PREFER = 12"

datatype ggfe_art_kind = ART_UNKNOWN | ART_TITLE | ART_BOXART

record ggfe_art_source =
  as_kind :: string
  as_root :: string
  as_path :: string

record ggfe_config =
  gc_system :: string
  gc_rom_dirs :: "string list"
  gc_exts :: "string list"
  gc_rom_exts :: "string list"
  gc_prefer :: "string list"
  gc_sources :: "ggfe_art_source list"
  gc_lookups :: "ggfe_art_source list"
  gc_use_plumos_lookup :: bool
  gc_classify_by_aspect :: bool
  gc_resolver :: string
  gc_launch_system :: string
  gc_launch_profile :: string
  gc_systems_path :: string
  gc_ui_state :: string
  gc_motion_model :: string
  gc_scroll_ms :: int
  gc_ggfe_overrides :: string
  gc_plumos_overrides :: string
  gc_use_plumos_overrides :: bool
  gc_launch_prefer :: "string list"

record ggfe_roots =
  gr_sdcard :: string
  gr_roms :: string
  gr_plumos :: string

definition ggfe_config_defaults :: ggfe_config where
  "ggfe_config_defaults =
     \<lparr>gc_system = ''gamegear'', gc_rom_dirs = [''GG'', ''GameGear'', ''MD'', ''gamegear''],
      gc_exts = [''png'', ''jpg'', ''jpeg'', ''webp''], gc_rom_exts = [''gg'', ''sms'', ''zip'', ''7z''],
      gc_prefer = [''title'', ''boxart''], gc_sources = [],
      gc_lookups = [\<lparr>as_kind = [], as_root = ''sdcard'', as_path = ''Images/gamegear''\<rparr>],
      gc_use_plumos_lookup = True, gc_classify_by_aspect = True, gc_resolver = ''bin/plumos-text-ui'',
      gc_launch_system = ''gamegear'', gc_launch_profile = [], gc_systems_path = ''config/frontend/systems.json'',
      gc_ui_state = ''state/frontend/ggfe-state.json'', gc_motion_model = ''snap'', gc_scroll_ms = 240,
      gc_ggfe_overrides = ''state/frontend/ggfe-overrides.json'',
      gc_plumos_overrides = ''state/frontend/core-overrides.json'', gc_use_plumos_overrides = True,
      gc_launch_prefer = []\<rparr>"

section \<open>Reading the configuration\<close>

text \<open>A file of more than a megabyte is refused; memory does not run out and reads are whole.\<close>

definition ggfe_read_file :: "os \<Rightarrow> string \<Rightarrow> string option" where
  "ggfe_read_file w path =
     (case os_read w path of None \<Rightarrow> None | Some t \<Rightarrow> if length t > 2 ^ 20 then None else Some t)"

definition put_slot :: "nat \<Rightarrow> 'a \<Rightarrow> 'a list \<Rightarrow> 'a list" where
  "put_slot i v tbl = (if i < length tbl then tbl[i := v] else tbl @ [v])"

text \<open>
  The loop of \<open>ggfe_read_string_array\<close>: the number of strings read and the slots.
\<close>

function read_strings_loop ::
    "string \<Rightarrow> nat \<Rightarrow> nat \<Rightarrow> nat \<Rightarrow> nat \<Rightarrow> nat \<Rightarrow> string list \<Rightarrow> nat \<times> string list" where
  "read_strings_loop t cursor stop capacity item_size n tbl =
     (if cursor < stop \<and> n < capacity then
        let q = skip_to t cursor stop DQ in
        if stop \<le> q then (n, tbl)
        else (case json_decode_string t stop item_size q (if n < length tbl then tbl ! n else []) of
            (ok, q', s) \<Rightarrow>
              if ok then read_strings_loop t q' stop capacity item_size (n + 1) (put_slot n s tbl)
              else (n, put_slot n s tbl))
      else (n, tbl))"
  by pat_completeness auto
termination
  by (relation "measure (\<lambda>(t, cursor, stop, capacity, item_size, n, tbl). capacity - n)") auto

declare read_strings_loop.simps [simp del]

text \<open>\<open>-1\<close> is \<open>None\<close>.\<close>

definition ggfe_read_string_array ::
    "string \<Rightarrow> nat \<Rightarrow> nat \<Rightarrow> string \<Rightarrow> nat \<Rightarrow> nat \<Rightarrow> string list \<Rightarrow> nat option \<times> string list" where
  "ggfe_read_string_array t p e key capacity item_size tbl =
     (case json_find_array t p e key of
        None \<Rightarrow> (None, tbl)
      | Some (start, stop) \<Rightarrow>
          (case read_strings_loop t start stop capacity item_size 0 tbl of (n, tbl') \<Rightarrow> (Some n, tbl')))"

definition zero_source :: ggfe_art_source where
  "zero_source = \<lparr>as_kind = [], as_root = [], as_path = []\<rparr>"

definition read_source :: "string \<Rightarrow> nat \<Rightarrow> nat \<Rightarrow> nat \<times> ggfe_art_source list \<Rightarrow> nat \<times> ggfe_art_source list" where
  "read_source t obj obj_end st =
     (case st of (n, tbl) \<Rightarrow>
        let (has_kind, kind) = json_get_string t obj obj_end ''kind'' 8 [];
            (has_root, root) = json_get_string t obj obj_end ''root'' 16 [];
            (has_path, path) = json_get_string t obj obj_end ''path'' 256 [];
            entry = \<lparr>as_kind = (if has_kind then kind else stored 8 ''boxart''),
                     as_root = (if has_root then root else stored 16 ''sdcard''), as_path = path\<rparr>
        in (if has_path then n + 1 else n, put_slot n entry tbl))"

definition ggfe_read_sources ::
    "string \<Rightarrow> nat \<Rightarrow> nat \<Rightarrow> string \<Rightarrow> nat \<Rightarrow> ggfe_art_source list \<Rightarrow> nat option \<times> ggfe_art_source list" where
  "ggfe_read_sources t p e key capacity tbl =
     (case json_find_array t p e key of
        None \<Rightarrow> (None, tbl)
      | Some (start, stop) \<Rightarrow>
          (case json_each_object t stop start (\<lambda>st. fst st < capacity) (read_source t) (0, tbl) of
             (n, tbl') \<Rightarrow> (Some n, tbl')))"

text \<open>
  The table after a read: the new count counts when it is positive (or, for the sources, whenever the array is there);
  otherwise the old count stays, with the slots as they are now.
\<close>

definition keep_count :: "nat \<Rightarrow> nat option \<times> 'a list \<Rightarrow> 'a list" where
  "keep_count old r = (case r of (Some n, tbl) \<Rightarrow> if 0 < n then take n tbl else take old tbl | (None, tbl) \<Rightarrow> take old tbl)"

definition new_count :: "nat \<Rightarrow> nat option \<times> 'a list \<Rightarrow> 'a list" where
  "new_count old r = (case r of (Some n, tbl) \<Rightarrow> take n tbl | (None, tbl) \<Rightarrow> take old tbl)"

definition read_names :: "string \<Rightarrow> nat \<Rightarrow> nat \<Rightarrow> string \<Rightarrow> nat \<Rightarrow> nat \<Rightarrow> string list \<Rightarrow> string list" where
  "read_names t p e key capacity item_size old =
     keep_count (length old) (ggfe_read_string_array t p e key capacity item_size old)"

definition load_motion :: "string \<Rightarrow> ggfe_config \<Rightarrow> ggfe_config" where
  "load_motion t cfg =
     (case json_find_object t 0 (length t) ''motion'' of
        None \<Rightarrow> cfg
      | Some (m, m_end) \<Rightarrow>
          let ms = json_get_int t m m_end ''scroll_ms'' (gc_scroll_ms cfg)
          in cfg\<lparr>gc_motion_model := snd (json_get_string t m m_end ''model'' 16 (gc_motion_model cfg)),
                 gc_scroll_ms := (let ms = (if ms < 60 then 60 else ms) in if ms > 2000 then 2000 else ms)\<rparr>)"

definition load_artwork :: "string \<Rightarrow> ggfe_config \<Rightarrow> ggfe_config" where
  "load_artwork t cfg =
     (case json_find_object t 0 (length t) ''artwork'' of
        None \<Rightarrow> cfg
      | Some (a, a_end) \<Rightarrow>
          cfg\<lparr>gc_prefer := read_names t a a_end ''prefer'' 2 8 (gc_prefer cfg),
              gc_sources := new_count (length (gc_sources cfg))
                (ggfe_read_sources t a a_end ''sources'' GGFE_MAX_SOURCES (gc_sources cfg)),
              gc_lookups := keep_count (length (gc_lookups cfg))
                (ggfe_read_sources t a a_end ''plumos_lookup'' GGFE_MAX_LOOKUPS (gc_lookups cfg)),
              gc_use_plumos_lookup := json_get_bool t a a_end ''use_plumos_lookup'' True,
              gc_classify_by_aspect := json_get_bool t a a_end ''classify_by_aspect'' True\<rparr>)"

definition load_launch :: "string \<Rightarrow> ggfe_config \<Rightarrow> ggfe_config" where
  "load_launch t cfg =
     (case json_find_object t 0 (length t) ''launch'' of
        None \<Rightarrow> cfg
      | Some (l, l_end) \<Rightarrow>
          cfg\<lparr>gc_resolver := snd (json_get_string t l l_end ''resolver'' 160 (gc_resolver cfg)),
              gc_launch_system := snd (json_get_string t l l_end ''system'' 64 (gc_launch_system cfg)),
              gc_launch_profile := snd (json_get_string t l l_end ''profile'' 128 (gc_launch_profile cfg)),
              gc_systems_path := snd (json_get_string t l l_end ''systems'' 160 (gc_systems_path cfg)),
              gc_ggfe_overrides := snd (json_get_string t l l_end ''overrides'' 160 (gc_ggfe_overrides cfg)),
              gc_plumos_overrides := snd (json_get_string t l l_end ''plumos_overrides'' 160 (gc_plumos_overrides cfg)),
              gc_use_plumos_overrides := json_get_bool t l l_end ''use_plumos_overrides'' True,
              gc_launch_prefer := read_names t l l_end ''prefer'' GGFE_MAX_PREFER 128 (gc_launch_prefer cfg)\<rparr>)"

definition ggfe_config_load :: "os \<Rightarrow> string \<Rightarrow> bool \<times> ggfe_config" where
  "ggfe_config_load w path =
     (case ggfe_read_file w path of
        None \<Rightarrow> (False, ggfe_config_defaults)
      | Some t \<Rightarrow>
          let cfg = ggfe_config_defaults; e = length t;
              cfg = cfg\<lparr>gc_system := snd (json_get_string t 0 e ''system'' 64 (gc_system cfg)),
                        gc_ui_state := snd (json_get_string t 0 e ''state'' 160 (gc_ui_state cfg))\<rparr>;
              cfg = load_motion t cfg;
              cfg = cfg\<lparr>gc_rom_dirs := read_names t 0 e ''rom_dirs'' GGFE_MAX_ROM_DIRS 64 (gc_rom_dirs cfg),
                        gc_exts := read_names t 0 e ''extensions'' GGFE_MAX_EXTS 8 (gc_exts cfg),
                        gc_rom_exts := read_names t 0 e ''rom_extensions'' GGFE_MAX_EXTS 8 (gc_rom_exts cfg)\<rparr>
          in (True, load_launch t (load_artwork t cfg)))"

section \<open>Artwork\<close>

definition ggfe_resolve_root :: "ggfe_roots \<Rightarrow> string \<Rightarrow> string \<Rightarrow> nat \<Rightarrow> bool \<times> string" where
  "ggfe_resolve_root roots root path n =
     (if path \<noteq> [] \<and> hd path = CHR ''/'' then copy_string n path
      else if root = ''plumos'' then join_path n (gr_plumos roots) path
      else join_path n (gr_sdcard roots) path)"

definition ggfe_candidates :: "ggfe_config \<Rightarrow> string \<Rightarrow> string \<Rightarrow> (string \<times> string) list" where
  "ggfe_candidates cfg relative_stem flat_stem =
     concat (map (\<lambda>s. map (Pair s) (gc_exts cfg)) (filter (\<lambda>s. s \<noteq> []) [relative_stem, flat_stem]))"

definition ggfe_find_in_dir ::
    "os \<Rightarrow> ggfe_config \<Rightarrow> string \<Rightarrow> string \<Rightarrow> string \<Rightarrow> nat \<Rightarrow> string option" where
  "ggfe_find_in_dir w cfg art_dir relative_stem flat_stem n =
     (if \<not> is_directory w art_dir then None
      else case first_candidate w art_dir (ggfe_candidates cfg relative_stem flat_stem) of
        None \<Rightarrow> None
      | Some found \<Rightarrow> ok_opt (copy_string n found))"

record art_hit =
  ah_path :: string
  ah_kind :: ggfe_art_kind
  ah_rule :: string

text \<open>\<open>snprintf\<close> into a buffer of \<open>n\<close> characters.\<close>

definition printed :: "nat \<Rightarrow> string \<Rightarrow> string" where
  "printed n s = take (n - 1) s"

fun try_sources ::
    "os \<Rightarrow> ggfe_config \<Rightarrow> ggfe_roots \<Rightarrow> string \<Rightarrow> string \<Rightarrow> nat \<Rightarrow> nat \<Rightarrow> ggfe_art_source list \<Rightarrow> art_hit option" where
  "try_sources w cfg roots rel flat n rule_size [] = None"
| "try_sources w cfg roots rel flat n rule_size (s # ss) =
     (case ok_opt (ggfe_resolve_root roots (as_root s) (as_path s) PATH_MAX) of
        None \<Rightarrow> try_sources w cfg roots rel flat n rule_size ss
      | Some art_dir \<Rightarrow>
          (case ggfe_find_in_dir w cfg art_dir rel flat n of
             Some p \<Rightarrow> Some \<lparr>ah_path = p, ah_kind = (if as_kind s = ''title'' then ART_TITLE else ART_BOXART),
                          ah_rule = printed rule_size (''ggfe:'' @ as_path s)\<rparr>
           | None \<Rightarrow> try_sources w cfg roots rel flat n rule_size ss))"

text \<open>The sources in the order they are tried: the preferred kinds first, then the kinds not listed.\<close>

definition preferred_sources :: "ggfe_config \<Rightarrow> ggfe_art_source list" where
  "preferred_sources cfg =
     concat (map (\<lambda>want. filter (\<lambda>s. as_kind s = want) (gc_sources cfg)) (gc_prefer cfg)) @
     filter (\<lambda>s. as_kind s \<notin> set (gc_prefer cfg)) (gc_sources cfg)"

fun try_lookups ::
    "os \<Rightarrow> ggfe_config \<Rightarrow> ggfe_roots \<Rightarrow> string \<Rightarrow> string \<Rightarrow> nat \<Rightarrow> nat \<Rightarrow> ggfe_art_source list \<Rightarrow> art_hit option" where
  "try_lookups w cfg roots rel flat n rule_size [] = None"
| "try_lookups w cfg roots rel flat n rule_size (l # ls) =
     (case ok_opt (ggfe_resolve_root roots (as_root l) (as_path l) PATH_MAX) of
        None \<Rightarrow> try_lookups w cfg roots rel flat n rule_size ls
      | Some art_dir \<Rightarrow>
          (case ggfe_find_in_dir w cfg art_dir rel flat n of
             Some p \<Rightarrow> Some \<lparr>ah_path = p, ah_kind = ART_UNKNOWN, ah_rule = printed rule_size (''plumos:'' @ as_path l)\<rparr>
           | None \<Rightarrow> try_lookups w cfg roots rel flat n rule_size ls))"

text \<open>The stem of a ROM: the last dot counts only in the last component.\<close>

definition ggfe_stem :: "string \<Rightarrow> string" where
  "ggfe_stem rom_rel =
     (let s = stored PATH_MAX rom_rel
      in case strrchr s CHR ''.'' of
           None \<Rightarrow> s
         | Some d \<Rightarrow> (case strrchr s CHR ''/'' of None \<Rightarrow> take d s | Some i \<Rightarrow> if d > i then take d s else s))"

text \<open>\<open>alias_dir\<close> is empty when there is none. A miss leaves no path, the unknown kind and an empty rule.\<close>

definition ggfe_resolve_art ::
    "os \<Rightarrow> ggfe_config \<Rightarrow> ggfe_roots \<Rightarrow> string \<Rightarrow> string \<Rightarrow> nat \<Rightarrow> nat \<Rightarrow> art_hit option" where
  "ggfe_resolve_art w cfg roots rom_rel alias_dir n rule_size =
     (let rel_stem = ggfe_stem rom_rel;
          flat_stem = stored 256 (path_basename rel_stem)
      in case try_sources w cfg roots rel_stem flat_stem n rule_size (preferred_sources cfg) of
           Some h \<Rightarrow> Some h
         | None \<Rightarrow>
             if \<not> gc_use_plumos_lookup cfg then None
             else
               let from_alias =
                 (if alias_dir = [] then None
                  else case ok_opt (join_path PATH_MAX (gr_sdcard roots) ''Images'') of
                    None \<Rightarrow> None
                  | Some images_dir \<Rightarrow>
                      (case ok_opt (join_path PATH_MAX images_dir alias_dir) of
                         None \<Rightarrow> None
                       | Some d \<Rightarrow> ggfe_find_in_dir w cfg d rel_stem flat_stem n))
               in case from_alias of
                    Some p \<Rightarrow> Some \<lparr>ah_path = p, ah_kind = ART_UNKNOWN, ah_rule = printed rule_size (''plumos:Images/'' @ alias_dir)\<rparr>
                  | None \<Rightarrow> try_lookups w cfg roots rel_stem flat_stem n rule_size (gc_lookups cfg))"

end
