(* ===== verification/GgfeScan.thy ===== *)
theory GgfeScan
  imports GgfeArt
begin

text \<open>
  How the Game Gear frontend lists its cartridges (\<open>src/frontend/plumos_ggfe_art.h\<close>): a walk of the configured ROM
  directories, at most four levels deep and up to a capacity, one entry for each title whatever its case, sorted
  by title.
\<close>

section \<open>Entries\<close>

definition GGFE_MAX_ENTRIES :: nat where "GGFE_MAX_ENTRIES = 512"

record ggfe_entry =
  en_title :: string
  en_rom :: string
  en_rel :: string
  en_alias :: string
  en_art :: string
  en_rule :: string
  en_kind :: ggfe_art_kind

definition ggfe_has_rom_ext :: "ggfe_config \<Rightarrow> string \<Rightarrow> bool" where
  "ggfe_has_rom_ext cfg name =
     (case strrchr name CHR ''.'' of
        None \<Rightarrow> False
      | Some d \<Rightarrow> drop (Suc d) name \<noteq> [] \<and> list_ex (\<lambda>e. ascii_equal_ci (drop (Suc d) name) e) (gc_rom_exts cfg))"

definition cut_ext :: "string \<Rightarrow> string" where
  "cut_ext s = (case strrchr s CHR ''.'' of None \<Rightarrow> s | Some d \<Rightarrow> take d s)"

definition art_relative :: "string \<Rightarrow> string \<Rightarrow> string" where
  "art_relative base full =
     (if strncmp_eq full base (length base) then dropWhile (\<lambda>c. c = CHR ''/'') (drop (length base) full) else full)"

text \<open>The block that fills one entry; it is dropped when its relative path does not fit or its title is taken.\<close>

definition add_entry ::
    "os \<Rightarrow> ggfe_config \<Rightarrow> ggfe_roots \<Rightarrow> string \<Rightarrow> string \<Rightarrow> string \<Rightarrow> ggfe_entry list \<Rightarrow> ggfe_entry list" where
  "add_entry w cfg roots base alias_name full out =
     (let art_rel = art_relative base full
      in case ok_opt (join_path PATH_MAX alias_name art_rel) of
           None \<Rightarrow> out
         | Some rel \<Rightarrow>
             let alias_field = stored 64 alias_name;
                 title = cut_ext (stored 192 (path_basename art_rel))
             in if list_ex (\<lambda>e. ascii_equal_ci (en_title e) title) out then out
                else
                  let hit = ggfe_resolve_art w cfg roots art_rel alias_field PATH_MAX 160
                  in out @ [\<lparr>en_title = title, en_rom = stored PATH_MAX full, en_rel = rel, en_alias = alias_field,
                       en_art = (case hit of None \<Rightarrow> [] | Some h \<Rightarrow> ah_path h),
                       en_rule = (case hit of None \<Rightarrow> [] | Some h \<Rightarrow> ah_rule h),
                       en_kind = (case hit of None \<Rightarrow> ART_UNKNOWN | Some h \<Rightarrow> ah_kind h)\<rparr>])"

text \<open>
  One round of the \<open>readdir\<close> loop; \<open>descend\<close> is the recursive call, or nothing at the deepest level. A loop that
  has reached the capacity changes nothing any more.
\<close>

definition walk_entry ::
    "os \<Rightarrow> ggfe_config \<Rightarrow> ggfe_roots \<Rightarrow> string \<Rightarrow> string \<Rightarrow> nat \<Rightarrow> (string \<Rightarrow> ggfe_entry list \<Rightarrow> ggfe_entry list) \<Rightarrow>
     string \<Rightarrow> ggfe_entry list \<Rightarrow> string \<Rightarrow> ggfe_entry list" where
  "walk_entry w cfg roots base alias_name capacity descend dir out name =
     (if capacity \<le> length out then out
      else if (case name of [] \<Rightarrow> False | c # _ \<Rightarrow> c = CHR ''.'') \<or> ignored_sidecar_name name then out
      else case ok_opt (join_path PATH_MAX dir name) of
        None \<Rightarrow> out
      | Some full \<Rightarrow>
          if is_directory w full then descend full out
          else if \<not> is_regular_file w full \<or> \<not> ggfe_has_rom_ext cfg name then out
          else add_entry w cfg roots base alias_name full out)"

primrec ggfe_walk ::
    "os \<Rightarrow> ggfe_config \<Rightarrow> ggfe_roots \<Rightarrow> string \<Rightarrow> string \<Rightarrow> nat \<Rightarrow> nat \<Rightarrow> string \<Rightarrow> ggfe_entry list \<Rightarrow> ggfe_entry list" where
  "ggfe_walk w cfg roots base alias_name capacity 0 dir out =
     (case os_readdir w dir of
        None \<Rightarrow> out
      | Some names \<Rightarrow> foldl (walk_entry w cfg roots base alias_name capacity (\<lambda>_ out. out) dir) out names)"
| "ggfe_walk w cfg roots base alias_name capacity (Suc levels) dir out =
     (case os_readdir w dir of
        None \<Rightarrow> out
      | Some names \<Rightarrow>
          foldl (walk_entry w cfg roots base alias_name capacity
            (\<lambda>sub out. ggfe_walk w cfg roots base alias_name capacity levels sub out) dir) out names)"

section \<open>The order of the list\<close>

fun title_cmp :: "string \<Rightarrow> string \<Rightarrow> int" where
  "title_cmp (a # as) (b # bs) =
     (if tolower a \<noteq> tolower b then int (code_of (tolower a)) - int (code_of (tolower b)) else title_cmp as bs)"
| "title_cmp [] [] = 0"
| "title_cmp (a # as) [] = int (code_of a)"
| "title_cmp [] (b # bs) = - int (code_of b)"

definition ggfe_entry_cmp :: "ggfe_entry \<Rightarrow> ggfe_entry \<Rightarrow> int" where
  "ggfe_entry_cmp a b = title_cmp (en_title a) (en_title b)"

fun scan_rom_dirs :: "os \<Rightarrow> ggfe_config \<Rightarrow> ggfe_roots \<Rightarrow> nat \<Rightarrow> string list \<Rightarrow> ggfe_entry list \<Rightarrow> ggfe_entry list" where
  "scan_rom_dirs w cfg roots capacity [] out = out"
| "scan_rom_dirs w cfg roots capacity (d # ds) out =
     (if capacity \<le> length out then out
      else case ok_opt (join_path PATH_MAX (gr_roms roots) d) of
        None \<Rightarrow> scan_rom_dirs w cfg roots capacity ds out
      | Some base \<Rightarrow>
          if \<not> is_directory w base then scan_rom_dirs w cfg roots capacity ds out
          else scan_rom_dirs w cfg roots capacity ds (ggfe_walk w cfg roots base d capacity 4 base out))"

definition ggfe_scan :: "os \<Rightarrow> ggfe_config \<Rightarrow> ggfe_roots \<Rightarrow> nat \<Rightarrow> ggfe_entry list" where
  "ggfe_scan w cfg roots capacity =
     sort_by ggfe_entry_cmp (scan_rom_dirs w cfg roots capacity (gc_rom_dirs cfg) [])"

section \<open>The comparison\<close>

lemma title_cmp_sign:
  "NUL \<notin> set a \<Longrightarrow> NUL \<notin> set b \<Longrightarrow> sgn (title_cmp a b) = sgn (strcmp (lower_string a) (lower_string b))"
proof (induction a b rule: title_cmp.induct)
  case (1 a as b bs)
  then show ?case by (auto simp: lower_string_def)
next
  case (3 a as)
  then have "0 < code_of a" "0 < code_of (tolower a)"
    using code_of_pos [of a] code_of_pos [of "tolower a"] tolower_NUL [of a] by auto
  then show ?case by (simp add: lower_string_def)
next
  case (4 b bs)
  then have "0 < code_of b" "0 < code_of (tolower b)"
    using code_of_pos [of b] code_of_pos [of "tolower b"] tolower_NUL [of b] by auto
  then show ?case by (simp add: lower_string_def)
qed (simp add: lower_string_def)

lemma title_cmp_le: "NUL \<notin> set a \<Longrightarrow> NUL \<notin> set b \<Longrightarrow> title_cmp a b \<le> 0 \<longleftrightarrow> strcmp (lower_string a) (lower_string b) \<le> 0"
  using title_cmp_sign [of a b] by (auto simp: sgn_if split: if_splits)

lemma title_cmp_less: "NUL \<notin> set a \<Longrightarrow> NUL \<notin> set b \<Longrightarrow> title_cmp a b < 0 \<longleftrightarrow> strcmp (lower_string a) (lower_string b) < 0"
  using title_cmp_sign [of a b] by (auto simp: sgn_if split: if_splits)

abbreviation title_c :: "ggfe_entry \<Rightarrow> bool" where
  "title_c e \<equiv> NUL \<notin> set (en_title e)"

interpretation entry_order: comparison ggfe_entry_cmp title_c
proof unfold_locales
  fix a b c :: ggfe_entry
  assume abc: "title_c a" "title_c b"
  show "ggfe_entry_cmp a b < 0 \<longleftrightarrow> 0 < ggfe_entry_cmp b a"
  proof -
    have "0 < ggfe_entry_cmp b a \<longleftrightarrow> \<not> strcmp (lower_string (en_title b)) (lower_string (en_title a)) \<le> 0"
      using abc title_cmp_le [of "en_title b" "en_title a"] unfolding ggfe_entry_cmp_def by linarith
    then show ?thesis
      using abc title_cmp_less [of "en_title a" "en_title b"] strcmp_swap [of "lower_string (en_title a)" "lower_string (en_title b)"]
      by (simp add: ggfe_entry_cmp_def not_le)
  qed
  assume c: "title_c c" and le: "ggfe_entry_cmp a b \<le> 0" "ggfe_entry_cmp b c \<le> 0"
  then have "strcmp (lower_string (en_title a)) (lower_string (en_title b)) \<le> 0"
    "strcmp (lower_string (en_title b)) (lower_string (en_title c)) \<le> 0"
    using abc title_cmp_le by (auto simp: ggfe_entry_cmp_def)
  from strcmp_trans [OF _ _ this] show "ggfe_entry_cmp a c \<le> 0"
    using abc c lower_string_no_nul title_cmp_le by (auto simp: ggfe_entry_cmp_def)
qed

section \<open>The walk keeps its invariant\<close>

definition listed_ok :: "os \<Rightarrow> ggfe_config \<Rightarrow> nat \<Rightarrow> ggfe_entry list \<Rightarrow> bool" where
  "listed_ok w cfg capacity out \<longleftrightarrow> length out \<le> capacity \<and> distinct (map (\<lambda>e. lower_string (en_title e)) out) \<and>
     list_all (\<lambda>e. is_regular_file w (en_rom e) \<and> en_alias e \<in> set (map (stored 64) (gc_rom_dirs cfg)) \<and>
       length (en_rom e) < PATH_MAX \<and> title_c e) out"

lemma path_basename_set: "set (path_basename p) \<subseteq> set p"
  by (auto simp: path_basename_def split: option.splits dest: in_set_dropD)

lemma art_relative_set: "set (art_relative base full) \<subseteq> set full"
  by (auto simp: art_relative_def dest!: set_dropWhileD dest: in_set_dropD)

lemma cut_ext_set: "set (cut_ext s) \<subseteq> set s"
  by (auto simp: cut_ext_def split: option.splits dest: in_set_takeD)

lemma stored_set: "set (stored n s) \<subseteq> set s"
  by (auto simp: fits_simps split: if_splits)

lemma entry_title_c:
  assumes "NUL \<notin> set full"
  shows "NUL \<notin> set (cut_ext (stored 192 (path_basename (art_relative base full))))"
  using assms cut_ext_set stored_set path_basename_set art_relative_set by blast

lemma add_entry_ok:
  assumes "listed_ok w cfg capacity out" and "length out < capacity" and "is_regular_file w full"
    and "length full < PATH_MAX" and "alias_name \<in> set (gc_rom_dirs cfg)" and "NUL \<notin> set full"
  shows "listed_ok w cfg capacity (add_entry w cfg roots base alias_name full out)"
proof -
  let ?title = "cut_ext (stored 192 (path_basename (art_relative base full)))"
  have d: "lower_string ?title \<notin> set (map (\<lambda>e. lower_string (en_title e)) out)"
    if "\<not> list_ex (\<lambda>e. ascii_equal_ci (en_title e) ?title) out"
    using that by (auto simp: list_ex_iff)
  show ?thesis
    using assms entry_title_c [OF assms(6), of base] d
    by (auto simp: add_entry_def Let_def listed_ok_def fits_simps split: option.split if_splits)
qed

lemma path_join_set: "set (path_join a b) \<subseteq> insert CHR ''/'' (set a \<union> set b)"
  by (auto simp: path_join_def)

lemma walk_entry_ok:
  assumes "listed_ok w cfg capacity out" and "alias_name \<in> set (gc_rom_dirs cfg)"
    and "\<And>sub out. listed_ok w cfg capacity out \<Longrightarrow> NUL \<notin> set sub \<Longrightarrow> listed_ok w cfg capacity (descend sub out)"
    and "NUL \<notin> set dir" and "NUL \<notin> set name"
  shows "listed_ok w cfg capacity (walk_entry w cfg roots base alias_name capacity descend dir out name)"
proof -
  have "NUL \<notin> set (path_join dir name)" using assms(4,5) path_join_set [of dir name] by auto
  with assms(1-3) show ?thesis
    by (auto simp: walk_entry_def fits_simps not_le intro!: add_entry_ok split: option.split)
qed

lemma walk_fold_ok:
  assumes "alias_name \<in> set (gc_rom_dirs cfg)"
    and "\<And>sub out. listed_ok w cfg capacity out \<Longrightarrow> NUL \<notin> set sub \<Longrightarrow> listed_ok w cfg capacity (descend sub out)"
    and "NUL \<notin> set dir"
  shows "\<forall>name \<in> set names. valid_entry_name name \<Longrightarrow> listed_ok w cfg capacity out \<Longrightarrow>
    listed_ok w cfg capacity (foldl (walk_entry w cfg roots base alias_name capacity descend dir) out names)"
  by (induction names arbitrary: out) (simp_all add: assms walk_entry_ok valid_entry_name_def)

lemma ggfe_walk_ok:
  "readdir_ok w \<Longrightarrow> alias_name \<in> set (gc_rom_dirs cfg) \<Longrightarrow> NUL \<notin> set dir \<Longrightarrow> listed_ok w cfg capacity out \<Longrightarrow>
   listed_ok w cfg capacity (ggfe_walk w cfg roots base alias_name capacity levels dir out)"
proof (induction levels arbitrary: dir out)
  case 0
  then show ?case by (auto intro!: walk_fold_ok simp: readdir_ok_def split: option.split)
next
  case (Suc levels)
  then show ?case by (auto intro!: walk_fold_ok simp: readdir_ok_def split: option.split)
qed

lemma scan_rom_dirs_ok:
  "readdir_ok w \<Longrightarrow> NUL \<notin> set (gr_roms roots) \<Longrightarrow> list_all (\<lambda>d. NUL \<notin> set d) ds \<Longrightarrow> set ds \<subseteq> set (gc_rom_dirs cfg) \<Longrightarrow>
   listed_ok w cfg capacity out \<Longrightarrow> listed_ok w cfg capacity (scan_rom_dirs w cfg roots capacity ds out)"
proof (induction ds arbitrary: out)
  case (Cons d ds)
  have "NUL \<notin> set (path_join (gr_roms roots) d)"
    using Cons.prems path_join_set [of "gr_roms roots" d] by auto
  then have "listed_ok w cfg capacity (ggfe_walk w cfg roots (path_join (gr_roms roots) d) d capacity 4 (path_join (gr_roms roots) d) out)"
    using Cons.prems by (intro ggfe_walk_ok) auto
  with Cons show ?case by (simp add: fits_simps)
qed simp

text \<open>
  What the cartridge list shows. It never holds more entries than there is room for; no two entries have the same title up
  to case; every entry is a regular file and names the configured directory it was found under; and the list is sorted
  by title, ignoring case.
\<close>

theorem ggfe_scan_listed:
  assumes "readdir_ok w" and "NUL \<notin> set (gr_roms roots)" and "list_all (\<lambda>d. NUL \<notin> set d) (gc_rom_dirs cfg)"
  shows "length (ggfe_scan w cfg roots capacity) \<le> capacity \<and>
    distinct (map (\<lambda>e. lower_string (en_title e)) (ggfe_scan w cfg roots capacity)) \<and>
    list_all (\<lambda>e. is_regular_file w (en_rom e) \<and> en_alias e \<in> set (map (stored 64) (gc_rom_dirs cfg)))
      (ggfe_scan w cfg roots capacity) \<and>
    sorted_wrt (\<lambda>a b. strcasecmp (en_title a) (en_title b) \<le> 0) (ggfe_scan w cfg roots capacity)"
proof -
  let ?found = "scan_rom_dirs w cfg roots capacity (gc_rom_dirs cfg) []"
  have ok: "listed_ok w cfg capacity ?found"
    using assms by (intro scan_rom_dirs_ok) (auto simp: listed_ok_def)
  have m: "mset (ggfe_scan w cfg roots capacity) = mset ?found" by (simp add: ggfe_scan_def)
  then have s: "set (ggfe_scan w cfg roots capacity) = set ?found" by (metis set_mset_mset)
  have "mset (map (\<lambda>e. lower_string (en_title e)) (ggfe_scan w cfg roots capacity)) =
      mset (map (\<lambda>e. lower_string (en_title e)) ?found)"
    by (simp only: mset_map m)
  from mset_eq_imp_distinct_iff [OF this] ok
  have "distinct (map (\<lambda>e. lower_string (en_title e)) (ggfe_scan w cfg roots capacity))"
    by (simp add: listed_ok_def)
  moreover have "cmp_sorted ggfe_entry_cmp (ggfe_scan w cfg roots capacity)"
    unfolding ggfe_scan_def using ok by (intro entry_order.sort_by_sorted) (auto simp: listed_ok_def list_all_iff)
  then have "sorted_wrt (\<lambda>a b. strcasecmp (en_title a) (en_title b) \<le> 0) (ggfe_scan w cfg roots capacity)"
    unfolding cmp_sorted_def
    by (rule sorted_wrt_mono_rel [rotated])
      (use ok s in \<open>auto simp: listed_ok_def list_all_iff ggfe_entry_cmp_def strcasecmp_def title_cmp_le\<close>)
  moreover have "length (ggfe_scan w cfg roots capacity) = length ?found" using m by (metis size_mset)
  ultimately show ?thesis using ok s by (simp add: listed_ok_def list_all_iff)
qed


definition demo_gg_os :: os where
  "demo_gg_os =
     \<lparr>os_stat = (\<lambda>p. if p = ''r/G'' then Some (Directory, 1, 1)
                   else if p = ''r/G/b.g'' \<or> p = ''r/G/A.g'' then Some (Regular, 1, 2) else None),
      os_readdir = (\<lambda>d. if d = ''r/G'' then Some [''b.g'', ''A.g''] else None),
      os_read = (\<lambda>_. None), os_realpath = (\<lambda>_. None), os_getenv = (\<lambda>_. None), os_access_x = (\<lambda>_. False)\<rparr>"

definition demo_gg_config :: ggfe_config where
  "demo_gg_config = ggfe_config_defaults\<lparr>gc_rom_dirs := [''G''], gc_rom_exts := [''g''], gc_use_plumos_lookup := False\<rparr>"

definition demo_gg_roots :: ggfe_roots where
  "demo_gg_roots = \<lparr>gr_sdcard = ''s'', gr_roms = ''r'', gr_plumos = ''p''\<rparr>"

theorem ggfe_scan_listed_witness:
  "(let out = ggfe_scan demo_gg_os demo_gg_config demo_gg_roots 5
    in map en_title out = [''A'', ''b''] \<and> sorted_wrt (\<lambda>a b. strcasecmp (en_title a) (en_title b) \<le> 0) out)"
proof -
  have r: "readdir_ok demo_gg_os" by (simp add: readdir_ok_def demo_gg_os_def valid_entry_name_def)
  have n: "NUL \<notin> set (gr_roms demo_gg_roots)" "list_all (\<lambda>d. NUL \<notin> set d) (gc_rom_dirs demo_gg_config)"
    by (simp_all add: demo_gg_roots_def demo_gg_config_def)
  have "map en_title (ggfe_scan demo_gg_os demo_gg_config demo_gg_roots 5) = [''A'', ''b'']"
  proof -
    have ext: "ggfe_has_rom_ext demo_gg_config ''b.g''" "ggfe_has_rom_ext demo_gg_config ''A.g''"
      by (simp_all add: ggfe_has_rom_ext_def demo_gg_config_def)
    have add: "map en_title (add_entry demo_gg_os demo_gg_config demo_gg_roots ''r/G'' ''G'' ''r/G/b.g'' []) = [''b'']"
      "map en_title out = [''b''] \<Longrightarrow>
        map en_title (add_entry demo_gg_os demo_gg_config demo_gg_roots ''r/G'' ''G'' ''r/G/A.g'' out) = [''b'', ''A'']" for out
      by (auto simp: add_entry_def art_relative_def strncmp_eq_def path_basename_def cut_ext_def fits_simps path_join_def
          PATH_MAX_def lower_string_def ctype_simps Let_def split: option.split)
    have os: "is_directory demo_gg_os ''r/G''" "\<not> is_directory demo_gg_os ''r/G/b.g''" "\<not> is_directory demo_gg_os ''r/G/A.g''"
      "is_regular_file demo_gg_os ''r/G/b.g''" "is_regular_file demo_gg_os ''r/G/A.g''"
      "os_readdir demo_gg_os ''r/G'' = Some [''b.g'', ''A.g'']" "gr_roms demo_gg_roots = ''r''"
      by (simp_all add: is_directory_def is_regular_file_def demo_gg_os_def demo_gg_roots_def)
    have len: "length (add_entry demo_gg_os demo_gg_config demo_gg_roots ''r/G'' ''G'' ''r/G/b.g'' []) = 1"
      using arg_cong [OF add(1), of length] by simp
    have walk: "ggfe_walk demo_gg_os demo_gg_config demo_gg_roots ''r/G'' ''G'' 5 4 ''r/G'' [] =
        add_entry demo_gg_os demo_gg_config demo_gg_roots ''r/G'' ''G'' ''r/G/A.g''
          (add_entry demo_gg_os demo_gg_config demo_gg_roots ''r/G'' ''G'' ''r/G/b.g'' [])"
    proof -
      have four: "(4::nat) = Suc 3" by simp
      show ?thesis
        unfolding four ggfe_walk.simps os(6) option.case foldl.simps using ext os len
        by (simp add: walk_entry_def fits_simps path_join_def PATH_MAX_def ignored_sidecar_name_def
            strncmp_eq_def)
    qed
    have "map en_title (scan_rom_dirs demo_gg_os demo_gg_config demo_gg_roots 5 [''G''] []) = [''b'', ''A'']"
      using os walk add by (simp add: fits_simps path_join_def PATH_MAX_def)
    then obtain b a where "scan_rom_dirs demo_gg_os demo_gg_config demo_gg_roots 5 [''G''] [] = [b, a]"
      "en_title b = ''b''" "en_title a = ''A''"
      by (auto simp: map_eq_Cons_conv)
    then show ?thesis
      by (simp add: ggfe_scan_def demo_gg_config_def sort_by_def ggfe_entry_cmp_def ctype_simps)
  qed
  with ggfe_scan_listed [OF r n, of 5] show ?thesis by (simp add: Let_def)
qed

text \<open>
  A title that does not fit is not a title. The name of a ROM of 192 bytes or more leaves the title empty, and since an empty
  title is taken as a duplicate like any other, of two such games only the first is listed.
\<close>

theorem long_titles_collide:
  assumes "192 \<le> length (path_basename (art_relative base full1))" and "192 \<le> length (path_basename (art_relative base full2))"
    and "length (path_join alias_name (art_relative base full1)) < PATH_MAX"
  shows "(\<exists>e. add_entry w cfg roots base alias_name full1 [] = [e] \<and> en_title e = [] \<and>
    add_entry w cfg roots base alias_name full2 [e] = [e])"
proof -
  have t: "cut_ext (stored 192 (path_basename (art_relative base full1))) = []"
    "cut_ext (stored 192 (path_basename (art_relative base full2))) = []"
    using assms(1,2) by (simp_all add: fits_simps cut_ext_def)
  then show ?thesis
    using assms(3) by (simp add: add_entry_def Let_def fits_simps lower_string_def split: option.split)
qed

theorem long_titles_collide_witness:
  "\<exists>e. add_entry demo_gg_os ggfe_config_defaults demo_gg_roots ''/r'' ''GG'' (''/r/'' @ replicate 200 CHR ''a'') [] = [e] \<and>
     add_entry demo_gg_os ggfe_config_defaults demo_gg_roots ''/r'' ''GG'' (''/r/'' @ replicate 200 CHR ''b'') [e] = [e]"
proof -
  have a: "art_relative ''/r'' (''/r/'' @ replicate 200 c) = replicate 200 c" if "c \<noteq> CHR ''/''" for c
  proof -
    have "replicate 200 c = c # replicate 199 c" by (simp flip: replicate_Suc)
    then show ?thesis using that by (simp add: art_relative_def strncmp_eq_def)
  qed
  have b: "path_basename (replicate 200 c) = replicate 200 c" if "c \<noteq> CHR ''/''" for c
    using that by (simp add: path_basename_def)
  have l: "192 \<le> length (path_basename (art_relative ''/r'' (''/r/'' @ replicate 200 c)))" if "c \<noteq> CHR ''/''" for c
    using a [OF that] b [OF that] by simp
  have j: "length (path_join ''GG'' (art_relative ''/r'' (''/r/'' @ replicate 200 CHR ''a''))) < PATH_MAX"
    using a [of "CHR ''a''"] by (simp add: path_join_def PATH_MAX_def)
  have "\<exists>e. add_entry demo_gg_os ggfe_config_defaults demo_gg_roots ''/r'' ''GG'' (''/r/'' @ replicate 200 CHR ''a'') [] = [e] \<and>
      en_title e = [] \<and>
      add_entry demo_gg_os ggfe_config_defaults demo_gg_roots ''/r'' ''GG'' (''/r/'' @ replicate 200 CHR ''b'') [e] = [e]"
    by (rule long_titles_collide [OF l l j]) simp_all
  then show ?thesis by blast
qed

end
