(* ===== verification/GgfeArtProofs.thy ===== *)
theory GgfeArtProofs
  imports GgfeScan ScanProofs
begin

text \<open>
  The two artwork lookups agree: \<open>ggfe_resolve_art\<close> finds what \<open>find_thumbnail\<close> of the scanner finds when no source of
  its own matches.
\<close>

section \<open>Stems\<close>

lemma strrchr_last: "c \<notin> set ys \<Longrightarrow> strrchr (xs @ c # ys) c = Some (length xs)"
  by (induction xs) (auto split: option.split)

text \<open>A relative ROM path: directories, a name with a stem, and an extension.\<close>

definition rom_path_parts :: "string \<Rightarrow> string \<Rightarrow> string \<Rightarrow> bool" where
  "rom_path_parts dirs stem ext \<longleftrightarrow> (dirs = [] \<or> (last dirs = CHR ''/'' \<and> hd dirs \<noteq> CHR ''/'')) \<and> stem \<noteq> [] \<and>
     CHR ''/'' \<notin> set stem \<and> CHR ''/'' \<notin> set ext \<and> CHR ''.'' \<notin> set ext"

lemma basename_parts:
  assumes "dirs = [] \<or> last dirs = CHR ''/''" and "CHR ''/'' \<notin> set name"
  shows "path_basename (dirs @ name) = name"
proof (cases "dirs = []")
  case True
  with assms(2) show ?thesis by (simp add: path_basename_def)
next
  case False
  then obtain ds where "dirs = ds @ ''/''" using assms(1) by (metis append_butlast_last_id)
  then show ?thesis using strrchr_last [OF assms(2), of ds] by (simp add: path_basename_def)
qed

lemma stems_agree:
  assumes "rom_path_parts dirs stem ext" and "length (dirs @ stem @ ''.'' @ ext) < PATH_MAX" and "length stem < 256"
  shows "ggfe_stem (dirs @ stem @ ''.'' @ ext) = dirs @ stem"
    and "stored 256 (path_basename (dirs @ stem)) = stem"
    and "stem_from_relative_path PATH_MAX (dirs @ stem @ ''.'' @ ext) = dirs @ stem"
    and "stem_from_name 256 (path_basename (dirs @ stem @ ''.'' @ ext)) = stem"
proof -
  let ?p = "dirs @ stem @ ''.'' @ ext"
  have dot: "strrchr ?p CHR ''.'' = Some (length (dirs @ stem))" "strrchr (stem @ ''.'' @ ext) CHR ''.'' = Some (length stem)"
    using strrchr_last [of "CHR ''.''" ext "dirs @ stem"] strrchr_last [of "CHR ''.''" ext stem] assms(1)
    by (simp_all add: rom_path_parts_def)
  have slash: "strrchr ?p CHR ''/'' = (if dirs = [] then None else Some (length dirs - 1))"
  proof (cases "dirs = []")
    case True
    with assms(1) show ?thesis by (simp add: rom_path_parts_def)
  next
    case False
    then obtain ds where "dirs = ds @ ''/''" using assms(1) unfolding rom_path_parts_def by (metis append_butlast_last_id)
    then show ?thesis
      using strrchr_last [of "CHR ''/''" "stem @ ''.'' @ ext" ds] assms(1) by (simp add: rom_path_parts_def)
  qed
  show "ggfe_stem ?p = dirs @ stem"
    using dot(1) slash assms by (cases stem) (auto simp: ggfe_stem_def Let_def fits_simps rom_path_parts_def)
  show "stored 256 (path_basename (dirs @ stem)) = stem"
    using basename_parts [of dirs stem] assms by (auto simp: fits_simps rom_path_parts_def)
  show "stem_from_relative_path PATH_MAX ?p = dirs @ stem"
    using dot(1) assms(2) by (simp add: stem_from_relative_path_def stem_cut_def Let_def)
  have "path_basename ?p = stem @ ''.'' @ ext" "path_basename (stem @ ''.'' @ ext) = stem @ ''.'' @ ext"
    using basename_parts [of dirs "stem @ ''.'' @ ext"] basename_parts [of "[]" "stem @ ''.'' @ ext"] assms(1)
    by (auto simp: rom_path_parts_def)
  then show "stem_from_name 256 (path_basename ?p) = stem"
    using dot(2) assms(3) by (simp add: stem_from_name_def stem_cut_def Let_def)
qed

section \<open>Directories\<close>

text \<open>
  What path resolution promises: below a path that is not a directory there is no file and no directory, and only
  directories can be listed.
\<close>

definition dirs_ok :: "os \<Rightarrow> bool" where
  "dirs_ok w \<longleftrightarrow>
     (\<forall>d rest. d \<noteq> [] \<and> (is_regular_file w (d @ ''/'' @ rest) \<or> is_directory w (d @ ''/'' @ rest)) \<longrightarrow> is_directory w d) \<and>
     (\<forall>p. os_readdir w p \<noteq> None \<longrightarrow> is_directory w p)"

lemma candidate_below:
  assumes "dirs_ok w" and "\<not> is_directory w d" and "d \<noteq> []" and "last d \<noteq> CHR ''/''"
    and "name \<noteq> []" and "hd name \<noteq> CHR ''/''"
  shows "find_case_insensitive_file w n (path_join d name) = None"
proof -
  let ?p = "path_join d name"
  have p: "?p = d @ ''/'' @ name" using assms(3-6) by (simp add: path_join_def)
  have below: "is_directory w d" if "is_regular_file w (d @ ''/'' @ rest) \<or> is_directory w (d @ ''/'' @ rest)" for rest
    using assms(1,3) that unfolding dirs_ok_def by blast
  have listed: "os_readdir w q = None" if q: "ok_opt (path_parent PATH_MAX ?p) = Some q" for q
  proof (rule ccontr)
    assume "os_readdir w q \<noteq> None"
    then have dir: "is_directory w q" using assms(1) by (simp add: dirs_ok_def)
    have "CHR ''/'' \<in> set ?p" using p by simp
    then obtain i where i: "q = (if i = 0 then ''/'' else take i ?p)" "strrchr ?p CHR ''/'' = Some i"
      using q by (auto simp: ok_opt_Some path_parent_def fits_simps split: option.splits if_splits)
    have "length d \<le> i"
    proof (rule ccontr)
      assume "\<not> length d \<le> i"
      then have "CHR ''/'' \<in> set (drop (Suc i) ?p)" using p by simp
      with strrchr_SomeD [OF i(2)] show False by simp
    qed
    then have "q = d @ take (i - length d) (''/'' @ name)" using i(1) assms(3) p by auto
    then consider "q = d" | rest where "q = d @ ''/'' @ rest"
      by (cases "i - length d") auto
    then show False using dir assms(2) below by cases auto
  qed
  have "\<not> is_regular_file w ?p" using below assms(2) p by auto
  with listed show ?thesis by (auto simp: find_case_insensitive_file_def split: option.split)
qed

lemma first_candidate_below:
  assumes "dirs_ok w" and "\<not> is_directory w d" and "d \<noteq> []" and "last d \<noteq> CHR ''/''"
    and "list_all (\<lambda>(s, e). s \<noteq> [] \<and> hd s \<noteq> CHR ''/'') cs"
  shows "first_candidate w d cs = None"
  using assms(5)
proof (induction cs)
  case (Cons c cs)
  obtain s e where "c = (s, e)" by (cases c)
  with Cons show ?case
    using candidate_below [OF assms(1-4), of "s @ ''.'' @ e"]
    by (auto simp: thumbnail_candidate_def build_stem_ext_name_def fits_simps split: option.split)
qed simp

text \<open>The directory test in front of the search changes nothing.\<close>

lemma find_in_dir_agrees:
  assumes "dirs_ok w" and "gc_exts cfg = image_exts" and "d \<noteq> []" and "last d \<noteq> CHR ''/''"
    and "rel \<noteq> []" and "hd rel \<noteq> CHR ''/''" and "flat \<noteq> []" and "hd flat \<noteq> CHR ''/''"
  shows "ggfe_find_in_dir w cfg d rel flat n = find_thumbnail_in_dir w d rel flat n"
proof -
  have c: "ggfe_candidates cfg rel flat = map (Pair rel) image_exts @ map (Pair flat) image_exts"
    using assms(2,5,7) by (simp add: ggfe_candidates_def)
  have "list_all (\<lambda>(s, e). s \<noteq> [] \<and> hd s \<noteq> CHR ''/'') (map (Pair rel) image_exts @ map (Pair flat) image_exts)"
    using assms(5-8) by (auto simp: list_all_iff)
  from first_candidate_below [OF assms(1) _ assms(3,4) this] show ?thesis
    by (auto simp: ggfe_find_in_dir_def find_thumbnail_in_dir_def c)
qed

section \<open>The two lookups\<close>

definition lookup_plain :: "ggfe_art_source \<Rightarrow> bool" where
  "lookup_plain l \<longleftrightarrow> as_root l \<in> {''sdcard'', ''plumos''} \<and> as_path l \<noteq> [] \<and> last (as_path l) \<noteq> CHR ''/''"

definition as_lookup :: "ggfe_art_source \<Rightarrow> artwork_lookup" where
  "as_lookup l = \<lparr>aw_root = as_root l, aw_path = as_path l\<rparr>"

lemma path_join_last: "b \<noteq> [] \<Longrightarrow> path_join a b \<noteq> [] \<and> last (path_join a b) = last b"
  by (simp add: path_join_def)

lemma resolve_root_agrees:
  assumes "lookup_plain l" and "sc_sdcard_root ctx = gr_sdcard roots" and "sc_plumos_root ctx = gr_plumos roots"
  shows "resolve_artwork_dir ctx (as_lookup l) n = ok_opt (ggfe_resolve_root roots (as_root l) (as_path l) n)"
  using assms by (auto simp: resolve_artwork_dir_def ggfe_resolve_root_def as_lookup_def lookup_plain_def)

lemma resolve_root_shape:
  "lookup_plain l \<Longrightarrow> ok_opt (ggfe_resolve_root roots (as_root l) (as_path l) n) = Some d \<Longrightarrow> d \<noteq> [] \<and> last d \<noteq> CHR ''/''"
  using path_join_last [of "as_path l"]
  by (auto simp: ggfe_resolve_root_def lookup_plain_def fits_simps split: if_splits)

lemma lookups_agree:
  assumes "dirs_ok w" and "gc_exts cfg = image_exts"
    and "sc_sdcard_root ctx = gr_sdcard roots" and "sc_plumos_root ctx = gr_plumos roots"
    and "rel \<noteq> []" and "hd rel \<noteq> CHR ''/''" and "flat \<noteq> []" and "hd flat \<noteq> CHR ''/''"
  shows "list_all lookup_plain ls \<Longrightarrow>
    map_option ah_path (try_lookups w cfg roots rel flat n rs ls) = first_artwork w ctx rel flat n (map as_lookup ls)"
proof (induction ls)
  case (Cons l ls)
  show ?case
  proof (cases "ok_opt (ggfe_resolve_root roots (as_root l) (as_path l) PATH_MAX)")
    case None
    with Cons show ?thesis by (simp add: resolve_root_agrees [OF _ assms(3,4)])
  next
    case (Some d)
    with Cons.prems resolve_root_shape [OF _ this] have "d \<noteq> []" "last d \<noteq> CHR ''/''" by simp_all
    from find_in_dir_agrees [OF assms(1,2) this assms(5-8)] Some Cons show ?thesis
      by (simp add: resolve_root_agrees [OF _ assms(3,4)] split: option.split)
  qed
qed simp

text \<open>
  C9: the artwork of the Game Gear frontend is the artwork of the scanner. When none of the frontend's own sources has a
  picture, \<open>ggfe_resolve_art\<close> finds for a ROM exactly the file that \<open>find_thumbnail\<close> of the scanner finds for the same path,
  alias and lookups, although it computes the stems differently and tests each directory first. What the code relies on is that
  nothing is found below a path that is not a directory.
\<close>

theorem ggfe_art_as_scanner:
  assumes "dirs_ok w" and "gc_exts cfg = image_exts" and "gc_use_plumos_lookup cfg"
    and "sc_sdcard_root ctx = gr_sdcard roots" and "sc_plumos_root ctx = gr_plumos roots"
    and "sy_artwork system = map as_lookup (gc_lookups cfg)" and "list_all lookup_plain (gc_lookups cfg)"
    and "alias_name = [] \<or> last alias_name \<noteq> CHR ''/''"
    and "rom_path_parts dirs stem ext" and "rom = dirs @ stem @ ''.'' @ ext" and "length rom < PATH_MAX" and "length stem < 256"
    and "try_sources w cfg roots (dirs @ stem) stem n rs (preferred_sources cfg) = None"
  shows "map_option ah_path (ggfe_resolve_art w cfg roots rom alias_name n rs) =
    find_thumbnail w ctx system alias_name (stem_from_relative_path PATH_MAX rom) (stem_from_name 256 (path_basename rom)) n"
proof -
  have rel: "dirs @ stem \<noteq> []" "hd (dirs @ stem) \<noteq> CHR ''/''" "stem \<noteq> []" "hd stem \<noteq> CHR ''/''"
    using assms(9) by (cases stem; auto simp: rom_path_parts_def hd_append)+
  note stems = stems_agree [OF assms(9) assms(11) [unfolded assms(10)] assms(12), folded assms(10)]
  have lookups: "map_option ah_path (try_lookups w cfg roots (dirs @ stem) stem n rs (gc_lookups cfg)) =
      first_artwork w ctx (dirs @ stem) stem n (sy_artwork system)"
    unfolding assms(6) by (rule lookups_agree [OF assms(1,2,4,5) rel assms(7)])
  have dir: "ggfe_find_in_dir w cfg (path_join a alias_name) (dirs @ stem) stem n =
      find_thumbnail_in_dir w (path_join a alias_name) (dirs @ stem) stem n" if "alias_name \<noteq> []" for a
    using path_join_last [OF that, of a] assms(8) that by (intro find_in_dir_agrees [OF assms(1,2) _ _ rel]) auto
  show ?thesis
    unfolding ggfe_resolve_art_def find_thumbnail_def stems Let_def assms(13) option.case
    using assms(3,4) lookups dir by (auto simp: fits_simps split: option.split)
qed

definition demo_art_os :: os where
  "demo_art_os =
     \<lparr>os_stat = (\<lambda>p. if p = ''s'' \<or> p = ''s/I'' \<or> p = ''s/I/d'' then Some (Directory, 1, 1)
                   else if p = ''s/I/d/b.png'' then Some (Regular, 1, 2) else None),
      os_readdir = (\<lambda>_. None), os_read = (\<lambda>_. None), os_realpath = (\<lambda>_. None), os_getenv = (\<lambda>_. None),
      os_access_x = (\<lambda>_. False)\<rparr>"

definition demo_art_config :: ggfe_config where
  "demo_art_config = ggfe_config_defaults\<lparr>gc_lookups := [\<lparr>as_kind = [], as_root = ''sdcard'', as_path = ''I''\<rparr>]\<rparr>"

definition demo_art_roots :: ggfe_roots where
  "demo_art_roots = \<lparr>gr_sdcard = ''s'', gr_roms = ''r'', gr_plumos = ''p''\<rparr>"

definition demo_art_ctx :: scan_ctx where
  "demo_art_ctx = start_ctx ''s'' ''p'' None False [] []"

definition demo_art_system :: system_def where
  "demo_art_system = demo_scan_system\<lparr>sy_artwork := map as_lookup (gc_lookups demo_art_config)\<rparr>"

lemma demo_art_dirs: "dirs_ok demo_art_os"
  by (auto simp: dirs_ok_def demo_art_os_def is_directory_def is_regular_file_def Cons_eq_append_conv append_eq_Cons_conv
      split: if_splits)

theorem ggfe_art_as_scanner_witness:
  "map_option ah_path (ggfe_resolve_art demo_art_os demo_art_config demo_art_roots ''d/b.g'' [] 100 20) =
     Some ''s/I/d/b.png'' \<and>
   find_thumbnail demo_art_os demo_art_ctx demo_art_system [] ''d/b'' ''b'' 100 = Some ''s/I/d/b.png''"
proof -
  have parts: "rom_path_parts ''d/'' ''b'' ''g''" "''d/b.g'' = ''d/'' @ ''b'' @ ''.'' @ ''g''" "length ''d/b.g'' < PATH_MAX"
    "length ''b'' < 256"
    by (simp_all add: rom_path_parts_def PATH_MAX_def)
  have c: "gc_exts demo_art_config = image_exts" "gc_use_plumos_lookup demo_art_config"
    "sc_sdcard_root demo_art_ctx = gr_sdcard demo_art_roots" "sc_plumos_root demo_art_ctx = gr_plumos demo_art_roots"
    "sy_artwork demo_art_system = map as_lookup (gc_lookups demo_art_config)"
    "list_all lookup_plain (gc_lookups demo_art_config)"
    "try_sources demo_art_os demo_art_config demo_art_roots (''d/'' @ ''b'') ''b'' 100 20 (preferred_sources demo_art_config) = None"
    by (simp_all add: demo_art_config_def demo_art_ctx_def demo_art_roots_def demo_art_system_def ggfe_config_defaults_def
        image_exts_def start_ctx_def lookup_plain_def preferred_sources_def)
  have "map_option ah_path (ggfe_resolve_art demo_art_os demo_art_config demo_art_roots ''d/b.g'' [] 100 20) =
      find_thumbnail demo_art_os demo_art_ctx demo_art_system []
        (stem_from_relative_path PATH_MAX ''d/b.g'') (stem_from_name 256 (path_basename ''d/b.g'')) 100"
    by (rule ggfe_art_as_scanner [OF demo_art_dirs c(1-6) _ parts c(7)]) simp
  moreover have "stem_from_relative_path PATH_MAX ''d/b.g'' = ''d/b''" "stem_from_name 256 (path_basename ''d/b.g'') = ''b''"
    by (simp_all add: stem_from_relative_path_def stem_from_name_def stem_cut_def path_basename_def PATH_MAX_def Let_def)
  moreover have "find_thumbnail demo_art_os demo_art_ctx demo_art_system [] ''d/b'' ''b'' 100 = Some ''s/I/d/b.png''"
    by (simp add: find_thumbnail_def demo_art_system_def demo_art_config_def as_lookup_def resolve_artwork_dir_def
        demo_art_ctx_def start_ctx_def find_thumbnail_in_dir_def image_exts_def thumbnail_candidate_def fits_simps path_join_def
        PATH_MAX_def find_case_insensitive_file_def is_regular_file_def demo_art_os_def)
  ultimately show ?thesis by simp
qed

end
