(* ===== verification/GgfeLaunch.thy ===== *)
theory GgfeLaunch
  imports GgfeArt TextStore
begin

text \<open>
  Which launch profile the Game Gear frontend chooses (\<open>src/frontend/plumos_ggfe_launch.h\<close>): the candidates the catalogue
  lists for the system, the test whether each can run on this device, the override file the frontend owns and the
  chain of preferences. Memory does not run out.
\<close>

section \<open>Profiles and the catalogue\<close>

definition GGFE_MAX_PROFILES :: nat where "GGFE_MAX_PROFILES = 12"
definition GGFE_MAX_ROM_OVERRIDES :: nat where "GGFE_MAX_ROM_OVERRIDES = 256"

datatype ggfe_runtime = RT_UNKNOWN | RT_RETROARCH | RT_PICOARCH | RT_STANDALONE

record ggfe_profile =
  gp_id :: string
  gp_runtime :: ggfe_runtime
  gp_core :: string
  gp_available :: bool
  gp_reason :: string

record ggfe_catalog =
  gk_system_id :: string
  gk_profiles :: "ggfe_profile list"
  gk_default_profile :: string

definition runtime_kinds :: "(string \<times> ggfe_runtime) list" where
  "runtime_kinds = [(''retroarch:'', RT_RETROARCH), (''picoarch:'', RT_PICOARCH), (''standalone:'', RT_STANDALONE)]"

fun runtime_loop :: "(string \<times> ggfe_runtime) list \<Rightarrow> string \<Rightarrow> nat \<Rightarrow> ggfe_runtime \<times> string" where
  "runtime_loop [] profile core_size = (RT_UNKNOWN, [])"
| "runtime_loop ((pre, rt) # kinds) profile core_size =
     (if strncmp_eq profile pre (length pre) \<and> drop (length pre) profile \<noteq> []
      then (rt, stored core_size (drop (length pre) profile))
      else runtime_loop kinds profile core_size)"

definition ggfe_runtime_of :: "string \<Rightarrow> nat \<Rightarrow> ggfe_runtime \<times> string" where
  "ggfe_runtime_of profile core_size = runtime_loop runtime_kinds profile core_size"

text \<open>The loop over the names of \<open>launch_profiles\<close>; a profile of an unknown kind leaves its slot to the next.\<close>

function profiles_loop :: "string \<Rightarrow> nat \<Rightarrow> nat \<Rightarrow> ggfe_profile list \<Rightarrow> ggfe_profile list" where
  "profiles_loop t p stop ps =
     (if length ps < GGFE_MAX_PROFILES then
        let q = skip_to t p stop DQ in
        if stop \<le> q then ps
        else (case json_decode_string t stop 128 q [] of
            (True, q', s) \<Rightarrow>
              (case ggfe_runtime_of s 96 of
                 (rt, core) \<Rightarrow>
                   profiles_loop t q' stop
                     (if rt \<noteq> RT_UNKNOWN
                      then ps @ [\<lparr>gp_id = s, gp_runtime = rt, gp_core = core, gp_available = False, gp_reason = []\<rparr>]
                      else ps))
          | (False, _, _) \<Rightarrow> ps)
      else ps)"
  by pat_completeness auto
termination
proof (relation "measure (\<lambda>(t, p, stop, ps). stop - p)", goal_cases)
  case (2 t p stop ps q b x q' s rt core)
  then have "json_decode_string t stop 128 q [] = (True, q', s)" by simp
  from json_decode_string_progress [OF this] have "q < q'" "q' \<le> stop" by simp_all
  moreover have "p \<le> q" using 2 skip_to_bounds [of p t stop DQ] by simp
  ultimately show ?case by simp
qed simp

declare profiles_loop.simps [simp del]

text \<open>One object of the \<open>systems\<close> array; the search ends with the first of the wanted id.\<close>

definition catalog_step :: "string \<Rightarrow> string \<Rightarrow> nat \<Rightarrow> nat \<Rightarrow> bool \<times> ggfe_catalog \<Rightarrow> bool \<times> ggfe_catalog" where
  "catalog_step t system_id obj obj_end st =
     (case json_get_string t obj obj_end ''id'' 64 [] of
        (ok, i) \<Rightarrow>
          if \<not> ok \<or> i \<noteq> system_id then st
          else
            let cat = (snd st)\<lparr>gk_default_profile := snd (json_get_string t obj obj_end ''default_launch_profile'' 128 [])\<rparr>
            in case json_find_array t obj obj_end ''launch_profiles'' of
                 None \<Rightarrow> (True, cat)
               | Some (s, e) \<Rightarrow> (True, cat\<lparr>gk_profiles := profiles_loop t s e []\<rparr>))"

definition ggfe_catalog_load :: "os \<Rightarrow> string \<Rightarrow> string \<Rightarrow> bool \<times> ggfe_catalog" where
  "ggfe_catalog_load w systems_path system_id =
     (let cat = \<lparr>gk_system_id = stored 64 system_id, gk_profiles = [], gk_default_profile = []\<rparr>
      in case ggfe_read_file w systems_path of
           None \<Rightarrow> (False, cat)
         | Some t \<Rightarrow>
             (case json_find_array t 0 (length t) ''systems'' of
                None \<Rightarrow> (False, cat)
              | Some (s, e) \<Rightarrow> json_each_object t e s (\<lambda>st. \<not> fst st) (catalog_step t system_id) (False, cat)))"

section \<open>What can run\<close>

definition probe_core :: "os \<Rightarrow> string \<Rightarrow> ggfe_profile \<Rightarrow> bool" where
  "probe_core w plumos_root p =
     (case ok_opt (join_path PATH_MAX plumos_root (printed PATH_MAX (''cores/'' @ gp_core p @ ''_libretro.so''))) of
        None \<Rightarrow> False | Some path \<Rightarrow> is_regular_file w path)"

definition probe_file :: "os \<Rightarrow> string \<Rightarrow> string \<Rightarrow> bool" where
  "probe_file w plumos_root rel =
     (case ok_opt (join_path PATH_MAX plumos_root rel) of None \<Rightarrow> False | Some path \<Rightarrow> is_regular_file w path)"

definition probe_profile :: "os \<Rightarrow> string \<Rightarrow> ggfe_profile \<Rightarrow> ggfe_profile" where
  "probe_profile w plumos_root p =
     (let no = p\<lparr>gp_available := False, gp_reason := []\<rparr>;
          yes = p\<lparr>gp_available := True, gp_reason := []\<rparr>;
          no_core = no\<lparr>gp_reason := printed 96 (''core not packaged: '' @ gp_core p)\<rparr>
      in case gp_runtime p of
           RT_RETROARCH \<Rightarrow> if \<not> probe_core w plumos_root p then no_core else yes
         | RT_PICOARCH \<Rightarrow>
             if \<not> probe_core w plumos_root p then no_core
             else if \<not> probe_file w plumos_root ''picoarch/bin/picoarch''
               then no\<lparr>gp_reason := stored 96 ''picoarch not packaged''\<rparr>
             else yes
         | RT_STANDALONE \<Rightarrow>
             if \<not> probe_file w plumos_root ''bin/plumos-standalone-launch''
               then no\<lparr>gp_reason := stored 96 ''standalone not packaged''\<rparr>
             else yes
         | RT_UNKNOWN \<Rightarrow> no\<lparr>gp_reason := stored 96 ''unknown runtime''\<rparr>)"

definition ggfe_probe_profiles :: "os \<Rightarrow> string \<Rightarrow> ggfe_catalog \<Rightarrow> ggfe_catalog" where
  "ggfe_probe_profiles w plumos_root cat = cat\<lparr>gk_profiles := map (probe_profile w plumos_root) (gk_profiles cat)\<rparr>"

text \<open>\<open>NULL\<close> is \<open>None\<close>, for the id and for the result.\<close>

definition ggfe_profile_find :: "ggfe_catalog \<Rightarrow> string option \<Rightarrow> ggfe_profile option" where
  "ggfe_profile_find cat i =
     (case i of
        None \<Rightarrow> None
      | Some s \<Rightarrow> if s = [] then None else lookup gp_id (gk_profiles cat) s)"

section \<open>Overrides\<close>

record ggfe_profile_override =
  po_relative_path :: string
  po_launch_profile :: string

record ggfe_override_set =
  ov_system :: string
  ov_has_system :: bool
  ov_rom :: "ggfe_profile_override list"

definition empty_overrides :: ggfe_override_set where
  "empty_overrides = \<lparr>ov_system = [], ov_has_system = False, ov_rom = []\<rparr>"

text \<open>The test with which both loops skip the objects of other systems.\<close>

definition names_system :: "string \<Rightarrow> string \<Rightarrow> nat \<Rightarrow> nat \<Rightarrow> bool" where
  "names_system t system_id obj obj_end =
     (case json_get_string t obj obj_end ''system_id'' 64 [] of (ok, i) \<Rightarrow> ok \<and> i = system_id)"

definition system_override_step :: "string \<Rightarrow> string \<Rightarrow> nat \<Rightarrow> nat \<Rightarrow> bool \<times> string \<Rightarrow> bool \<times> string" where
  "system_override_step t system_id obj obj_end st =
     (if \<not> names_system t system_id obj obj_end then st
      else case json_get_string t obj obj_end ''launch_profile'' 128 (snd st) of (ok, s) \<Rightarrow> (fst st \<or> ok, s))"

definition rom_override_step ::
    "string \<Rightarrow> string \<Rightarrow> nat \<Rightarrow> nat \<Rightarrow> ggfe_profile_override list \<Rightarrow> ggfe_profile_override list" where
  "rom_override_step t system_id obj obj_end os =
     (if \<not> names_system t system_id obj obj_end then os
      else case json_get_string t obj obj_end ''relative_path'' PATH_MAX [] of
        (ok1, rel) \<Rightarrow>
          (case json_get_string t obj obj_end ''launch_profile'' 128 [] of
             (ok2, profile) \<Rightarrow>
               if ok1 \<and> ok2 then os @ [\<lparr>po_relative_path = rel, po_launch_profile = profile\<rparr>] else os))"

definition ggfe_overrides_load :: "os \<Rightarrow> string \<Rightarrow> string \<Rightarrow> bool \<times> ggfe_override_set" where
  "ggfe_overrides_load w path system_id =
     (case ggfe_read_file w path of
        None \<Rightarrow> (False, empty_overrides)
      | Some t \<Rightarrow>
          let sys = (case json_find_array t 0 (length t) ''system_overrides'' of
                       None \<Rightarrow> (False, [])
                     | Some (s, e) \<Rightarrow> json_each_object t e s (\<lambda>_. True) (system_override_step t system_id) (False, []));
              roms = (case json_find_array t 0 (length t) ''rom_overrides'' of
                        None \<Rightarrow> []
                      | Some (s, e) \<Rightarrow>
                          json_each_object t e s (\<lambda>os. length os < GGFE_MAX_ROM_OVERRIDES) (rom_override_step t system_id) [])
          in (True, \<lparr>ov_system = snd sys, ov_has_system = fst sys, ov_rom = roms\<rparr>))"

text \<open>
  \<open>profile\<close> is empty for \<open>NULL\<close> too. A profile that does not fit leaves an existing entry with an empty one.
\<close>

definition ggfe_override_set_rom :: "ggfe_override_set \<Rightarrow> string \<Rightarrow> string \<Rightarrow> bool \<times> ggfe_override_set" where
  "ggfe_override_set_rom ovs rom_rel profile =
     (let roms = ov_rom ovs in
      case find_first (\<lambda>ov. po_relative_path ov = rom_rel) roms of
        Some i \<Rightarrow>
          if profile \<noteq> []
          then (case copy_string 128 profile of
                  (ok, s) \<Rightarrow> (ok, ovs\<lparr>ov_rom := roms[i := (roms ! i)\<lparr>po_launch_profile := s\<rparr>]\<rparr>))
          else (True, ovs\<lparr>ov_rom := butlast (roms[i := last roms])\<rparr>)
      | None \<Rightarrow>
          if profile = [] then (True, ovs)
          else if GGFE_MAX_ROM_OVERRIDES \<le> length roms then (False, ovs)
          else if \<not> fst (copy_string PATH_MAX rom_rel) \<or> \<not> fst (copy_string 128 profile) then (False, ovs)
          else (True, ovs\<lparr>ov_rom := roms @ [\<lparr>po_relative_path = snd (copy_string PATH_MAX rom_rel),
                  po_launch_profile = snd (copy_string 128 profile)\<rparr>]\<rparr>))"

definition ggfe_override_for_rom :: "ggfe_override_set \<Rightarrow> string \<Rightarrow> string option" where
  "ggfe_override_for_rom ovs rom_rel = map_option po_launch_profile (lookup po_relative_path (ov_rom ovs) rom_rel)"

section \<open>Writing the overrides\<close>

definition ggfe_escape_char :: "char \<Rightarrow> string" where
  "ggfe_escape_char c =
     (if c = DQ \<or> c = BSL then [BSL, c]
      else if code_of c < 32 then BSL # ''u00'' @ [hex_digit (code_of c div 16), hex_digit (code_of c mod 16)]
      else [c])"

definition ggfe_json_escape :: "string \<Rightarrow> string" where
  "ggfe_json_escape s = concat (map ggfe_escape_char s)"

definition ggfe_rom_row :: "string \<Rightarrow> ggfe_profile_override \<Rightarrow> string" where
  \<open>ggfe_rom_row system_id ov =
     [NL] @ ''    { "system_id": "'' @ ggfe_json_escape system_id @
     ''", "relative_path": "'' @ ggfe_json_escape (po_relative_path ov) @
     ''", "launch_profile": "'' @ ggfe_json_escape (po_launch_profile ov) @ ''" }''\<close>

fun ggfe_rom_rows :: "string \<Rightarrow> bool \<Rightarrow> ggfe_profile_override list \<Rightarrow> bool \<times> string" where
  "ggfe_rom_rows system_id first [] = (first, [])"
| "ggfe_rom_rows system_id first (ov # os) =
     (if po_launch_profile ov = [] then ggfe_rom_rows system_id first os
      else case ggfe_rom_rows system_id False os of
        (first', rest) \<Rightarrow> (first', (if first then [] else '','') @ ggfe_rom_row system_id ov @ rest))"

definition ggfe_overrides_text :: "ggfe_override_set \<Rightarrow> string \<Rightarrow> string" where
  \<open>ggfe_overrides_text ovs system_id =
     ''{'' @ [NL] @ ''  "version": 1,'' @ [NL] @ ''  "system_overrides": ['' @
     (if ov_has_system ovs \<and> ov_system ovs \<noteq> []
      then [NL] @ ''    { "system_id": "'' @ ggfe_json_escape system_id @
        ''", "launch_profile": "'' @ ggfe_json_escape (ov_system ovs) @ ''" }'' @ [NL] @ ''  ''
      else []) @
     ''],'' @ [NL] @ ''  "rom_overrides": ['' @
     (case ggfe_rom_rows system_id True (ov_rom ovs) of
        (first, rows) \<Rightarrow> rows @ (if first then [] else [NL] @ ''  '')) @ '']'' @ [NL] @ ''}'' @ [NL]\<close>

text \<open>
  The states of the disk while the file is written, flushed, synced, closed and renamed, as for the files of the text UI;
  the directory that is made before may be missing without consequence for the result.
\<close>

definition ggfe_overrides_save ::
    "store_env \<Rightarrow> ggfe_override_set \<Rightarrow> string \<Rightarrow> string \<Rightarrow> disk \<Rightarrow> bool \<times> disk list" where
  "ggfe_overrides_save e ovs path system_id d =
     (let tmp = path @ ''.next''; content = ggfe_overrides_text ovs system_id in
      if PATH_MAX \<le> length tmp then (False, [])
      else if \<not> st_open e then (False, [])
      else
        let partials = map (\<lambda>k. d(tmp \<mapsto> (take k content, False))) (0 # st_partial e);
            d1 = (if st_flush e then d(tmp \<mapsto> (content, False)) else last partials);
            ok = (st_flush e \<and> st_fsync e);
            d2 = (if ok then d1(tmp \<mapsto> (content, True)) else d1)
        in if \<not> (ok \<and> st_close e) then (False, partials @ [d1, d2, d2(tmp := None)])
           else if \<not> st_rename e then (False, partials @ [d1, d2, d2(tmp := None)])
           else
             (case path_parent PATH_MAX path of
                (False, _) \<Rightarrow> False
              | (True, dir) \<Rightarrow> st_dir_open e dir \<and> st_dir_sync e = Synced,
              partials @ [d1, d2, (d2(path := d2 tmp))(tmp := None)]))"

section \<open>The choice\<close>

text \<open>The places a choice comes from, with the names the code logs.\<close>

definition choice_chain ::
    "ggfe_catalog \<Rightarrow> ggfe_config \<Rightarrow> ggfe_override_set \<Rightarrow> ggfe_override_set \<Rightarrow> string \<Rightarrow> (string option \<times> string) list" where
  "choice_chain cat cfg ggfe_ov plumos_ov rom_rel =
     [(ggfe_override_for_rom ggfe_ov rom_rel, ''ggfe rom override'')] @
     (if gc_use_plumos_overrides cfg then [(ggfe_override_for_rom plumos_ov rom_rel, ''plumos rom override'')] else []) @
     [(if gc_launch_profile cfg \<noteq> [] then Some (gc_launch_profile cfg) else None, ''ggfe system default'')] @
     (if gc_use_plumos_overrides cfg
      then [(if ov_has_system plumos_ov then Some (ov_system plumos_ov) else None, ''plumos system override'')] else []) @
     [(if gk_default_profile cat \<noteq> [] then Some (gk_default_profile cat) else None, ''systems.json default'')]"

fun first_usable :: "ggfe_catalog \<Rightarrow> (string option \<times> string) list \<Rightarrow> (ggfe_profile \<times> string) option" where
  "first_usable cat [] = None"
| "first_usable cat ((i, src) # rest) =
     (case ggfe_profile_find cat i of
        Some p \<Rightarrow> if gp_available p then Some (p, src) else first_usable cat rest
      | None \<Rightarrow> first_usable cat rest)"

definition ggfe_choose_profile ::
    "ggfe_catalog \<Rightarrow> ggfe_config \<Rightarrow> ggfe_override_set \<Rightarrow> ggfe_override_set \<Rightarrow> string \<Rightarrow> ggfe_profile option \<times> string" where
  "ggfe_choose_profile cat cfg ggfe_ov plumos_ov rom_rel =
     (case first_usable cat (choice_chain cat cfg ggfe_ov plumos_ov rom_rel) of
        Some (p, src) \<Rightarrow> (Some p, stored 48 src)
      | None \<Rightarrow>
          (case first_usable cat (map (\<lambda>i. (Some i, ''ggfe preference'')) (gc_launch_prefer cfg)) of
             Some (p, src) \<Rightarrow> (Some p, stored 48 src)
           | None \<Rightarrow>
               (case find_first gp_available (gk_profiles cat) of
                  Some i \<Rightarrow> (Some (gk_profiles cat ! i), stored 48 ''first available'')
                | None \<Rightarrow> (None, stored 48 ''none available''))))"

end
