(* ===== verification/JsonRange.thy ===== *)
theory JsonRange
  imports JsonTable
begin

text \<open>
  Reading objects in place. The text UI copies each object before it reads its keys; the Game Gear frontend reads them in
  the file. The lemmas here are those of \<open>JsonObjects\<close> and \<open>JsonTable\<close> at a position of a larger text.
\<close>

section \<open>One object\<close>

lemma find_key_at:
  assumes "drop p t = object_text sep fs @ r" and "e = p + length (object_text sep fs)"
    and "fields_ok fs" and "sep_ok sep" and "simple_key key" and "map_of fs key = Some v"
  shows "\<exists>q r'. json_find_key_value t p e key = Some q \<and> drop q t = jval_text v @ r' \<and> q + length (jval_text v) \<le> e"
proof -
  have "e \<le> length t"
    using arg_cong [OF assms(1), of length] assms(2) by (simp add: object_text_def split: nat_diff_split_asm)
  have d: "drop p t = ''{ '' @ (fields_text sep fs @ '' }'' @ r)" using assms(1) by (simp add: object_text_def)
  from drop_step [OF d] have d2: "drop (p + 2) t = fields_text sep fs @ '' }'' @ r" by (simp add: numeral_2_eq_2)
  have len: "e = p + 2 + length (fields_text sep fs) + 2" using assms(2) by (simp add: object_text_def)
  have "find_key_loop t p e (DQ # key @ [DQ]) = find_key_loop t (p + 2) e (DQ # key @ [DQ])"
    using find_key_skip_plain [OF d, of e "key @ [DQ]"] len \<open>e \<le> length t\<close> by (simp add: numeral_2_eq_2)
  with find_key_fields [OF d2 _ \<open>e \<le> length t\<close> assms(3,4) field_end_brace assms(5,6)] len assms(5) show ?thesis
    by (auto simp: json_find_key_value_def key_pattern_simple)
qed

lemma get_string_at:
  assumes "drop p t = object_text sep fs @ r" and "e = p + length (object_text sep fs)"
    and "fields_ok fs" and "sep_ok sep" and "simple_key key" and "map_of fs key = Some (JStr s)" and "0 < cap"
  shows "json_get_string t p e key cap old = (True, take (cap - 1) (decoded s))"
proof -
  have "NUL \<notin> set s" using assms(3,6) by (auto simp: fields_ok_def list_all_iff dest!: map_of_SomeD)
  with find_key_at [OF assms(1-6)] assms(7) show ?thesis by (auto simp: json_get_string_def decode_written)
qed

section \<open>The objects of an array\<close>

lemma each_object_at:
  assumes "drop p t = items_text sep its @ tail @ r" and "e = p + length (items_text sep its) + length tail"
    and "list_all item_ok its" and "sep_ok sep" and "CHR ''{'' \<notin> set tail"
    and step: "\<And>i s r st. i \<in> set its \<Longrightarrow> drop s t = object_text sep (snd i) @ r \<Longrightarrow> go st \<Longrightarrow>
      step s (s + length (object_text sep (snd i))) st = body i st"
  shows "json_each_object t e p go step st = fold_while go body its st"
  using assms
proof (induction its arbitrary: p st)
  case Nil
  then have "skip_to t p e CHR ''{'' = e" using skip_to_none [of p t tail r "CHR ''{''"] by simp
  then show ?case by (subst json_each_object.simps) (simp add: json_next_object_def Let_def)
next
  case (Cons i its)
  let ?obj = "object_text sep (snd i)"
  have d: "drop p t = fst i @ ?obj @ (items_text sep its @ tail @ r)"
    using Cons.prems(1) by (simp add: item_text_def [of sep i])
  have ok: "CHR ''{'' \<notin> set (fst i)" "fields_ok (snd i)" using Cons.prems(3) by (auto simp: item_ok_def)
  have len: "p + length (fst i) + length ?obj \<le> e" using Cons.prems(2) by (simp add: item_text_def [of sep i])
  have nxt: "json_next_object t p e = Some (p + length (fst i), p + length (fst i) + length ?obj)"
    by (rule next_object_written [OF d ok(1) len ok(2) Cons.prems(4)])
  have d1: "drop (p + length (fst i)) t = ?obj @ (items_text sep its @ tail @ r)" by (rule drop_step [OF d])
  have d2: "drop (p + length (fst i) + length ?obj) t = items_text sep its @ tail @ r" by (rule drop_step [OF d1])
  have "json_each_object t e (p + length (fst i) + length ?obj) go step st' = fold_while go body its st'" for st'
    using Cons.prems by (intro Cons.IH d2) (auto simp: item_text_def [of sep i])
  with nxt Cons.prems(6) [OF _ d1] show ?case by (subst json_each_object.simps) simp
qed

text \<open>The array as a whole: the items between brackets, with whatever stands before the closing one.\<close>

definition bracketed :: "(string \<times> field list) list \<Rightarrow> string \<Rightarrow> string" where
  "bracketed its tail = ''['' @ items_text field_sep its @ tail @ '']''"

definition items_ok :: "(string \<times> field list) list \<Rightarrow> string \<Rightarrow> bool" where
  "items_ok its tail \<longleftrightarrow> list_all item_ok its \<and> list_all isspace tail \<and>
     list_all (\<lambda>i. list_all (\<lambda>c. isspace c \<or> c = CHR '','') (fst i)) its"

lemma space_safe: "isspace c \<or> c = CHR '','' \<Longrightarrow> c \<notin> {DQ, NUL, CHR ''['', CHR '']'', CHR ''{''}"
  by (auto simp: isspace_def)

lemma spaces_free:
  assumes "list_all (\<lambda>c. isspace c \<or> c = CHR '','') s"
  shows "DQ \<notin> set s" "NUL \<notin> set s" "CHR ''['' \<notin> set s" "CHR '']'' \<notin> set s" "CHR ''{'' \<notin> set s"
  using assms space_safe unfolding list_all_iff by blast+

lemma items_ok_free:
  assumes "items_ok its tail"
  shows "\<forall>i \<in> set its. seg_ok CHR ''['' CHR '']'' (Plain (fst i))" and "seg_ok CHR ''['' CHR '']'' (Plain tail)"
    and "CHR ''{'' \<notin> set tail" and "NUL \<notin> set tail"
proof -
  have tail: "list_all (\<lambda>c. isspace c \<or> c = CHR '','') tail" using assms by (auto simp: items_ok_def list_all_iff)
  then show "seg_ok CHR ''['' CHR '']'' (Plain tail)" "CHR ''{'' \<notin> set tail" "NUL \<notin> set tail"
    using spaces_free by auto
  show "\<forall>i \<in> set its. seg_ok CHR ''['' CHR '']'' (Plain (fst i))"
  proof
    fix i
    assume "i \<in> set its"
    then have "list_all (\<lambda>c. isspace c \<or> c = CHR '','') (fst i)" using assms by (auto simp: items_ok_def list_all_iff)
    then show "seg_ok CHR ''['' CHR '']'' (Plain (fst i))" using spaces_free by auto
  qed
qed

lemma bracketed_each:
  assumes "drop p t = bracketed its tail @ r" and "p + length (bracketed its tail) \<le> e" and "items_ok its tail"
    and "\<And>i s r st. i \<in> set its \<Longrightarrow> drop s t = object_text field_sep (snd i) @ r \<Longrightarrow> go st \<Longrightarrow>
      step s (s + length (object_text field_sep (snd i))) st = body i st"
  shows "\<exists>be a. json_match_container t p e CHR ''['' CHR '']'' = Some (p + 1, be, a) \<and>
    json_each_object t be (p + 1) go step st = fold_while go body its st"
proof -
  have d0: "drop p t = CHR ''['' # items_text field_sep its @ tail @ CHR '']'' # r"
    using assms(1) by (simp add: bracketed_def)
  have "json_match_container t p e CHR ''['' CHR '']'' =
      Some (p + 1, p + 1 + length (items_text field_sep its) + length tail,
        p + length (items_text field_sep its) + length tail + 2)"
    using assms(2,3) items_ok_free [OF assms(3)]
    by (intro array_match [OF d0]) (auto simp: bracketed_def items_ok_def)
  moreover have "json_each_object t (p + 1 + length (items_text field_sep its) + length tail) (p + 1) go step st =
      fold_while go body its st"
    using assms(3,4) items_ok_free [OF assms(3)]
    by (intro each_object_at [OF drop_step1 [OF d0]]) (auto simp: items_ok_def)
  ultimately show ?thesis by blast
qed

lemma find_key_skip_bracketed:
  assumes "drop p t = bracketed its tail @ r" and "p + length (bracketed its tail) \<le> e" and "e \<le> length t"
    and "items_ok its tail" and "simple_key key" and "\<forall>i \<in> set its. key \<notin> fst ` set (snd i)"
  shows "find_key_loop t p e (DQ # key @ [DQ]) = find_key_loop t (p + length (bracketed its tail)) e (DQ # key @ [DQ])"
proof -
  have d0: "drop p t = ''['' @ items_text field_sep its @ (tail @ '']'') @ r" using assms(1) by (simp add: bracketed_def)
  have d1: "drop (p + length ''['') t = items_text field_sep its @ (tail @ '']'') @ r" by (rule drop_step [OF d0])
  have d2: "drop (p + length ''['' + length (items_text field_sep its)) t = (tail @ '']'') @ r" by (rule drop_step [OF d1])
  have len: "length (bracketed its tail) = length ''['' + length (items_text field_sep its) + length (tail @ '']'')"
    by (simp add: bracketed_def)
  have its: "\<forall>i \<in> set its. DQ \<notin> set (fst i) \<and> NUL \<notin> set (fst i) \<and> fields_ok (snd i) \<and> key \<notin> fst ` set (snd i)"
    using assms(4,6) spaces_free by (auto simp: items_ok_def item_ok_def list_all_iff)
  have tail: "DQ \<notin> set (tail @ '']'')" "NUL \<notin> set (tail @ '']'')" using items_ok_free [OF assms(4)] by auto
  have "find_key_loop t p e (DQ # key @ [DQ]) = find_key_loop t (p + length ''['') e (DQ # key @ [DQ])"
    using len assms(2,3) by (intro find_key_skip_plain [OF d0]) auto
  also have "\<dots> = find_key_loop t (p + length ''['' + length (items_text field_sep its)) e (DQ # key @ [DQ])"
    using len assms(2,3,5) its by (intro find_key_skip_items [OF d1]) auto
  also have "\<dots> = find_key_loop t (p + length ''['' + length (items_text field_sep its) + length (tail @ '']'')) e (DQ # key @ [DQ])"
    using len assms(2,3) tail by (intro find_key_skip_plain [OF d2]) auto
  finally show ?thesis by (simp only: len add.assoc)
qed

section \<open>A file of two arrays\<close>

definition two_arrays :: "string \<Rightarrow> string \<Rightarrow> string \<Rightarrow> string \<Rightarrow> string \<Rightarrow> string" where
  \<open>two_arrays key1 arr1 key2 arr2 tail =
     file_head key1 @ arr1 @ '','' @ [NL] @ ''  "'' @ key2 @ ''": '' @ arr2 @ tail\<close>

lemma two_arrays_find:
  assumes "simple_key key1" and "key1 \<noteq> ''version''" and "t = two_arrays key1 (bracketed its tail1) key2 arr2 tail"
  shows "json_find_key_value t 0 (length t) key1 = Some (length (file_head key1))"
    and "drop (length (file_head key1)) t = bracketed its tail1 @ '','' @ [NL] @ ''  '' @ DQ # key2 @ DQ # '': '' @ arr2 @ tail"
proof -
  show "drop (length (file_head key1)) t = bracketed its tail1 @ '','' @ [NL] @ ''  '' @ DQ # key2 @ DQ # '': '' @ arr2 @ tail"
    using assms(3) by (simp add: two_arrays_def)
  show "json_find_key_value t 0 (length t) key1 = Some (length (file_head key1))"
    using assms by (intro file_head_find [of t key1 "CHR ''[''"]) (auto simp: two_arrays_def bracketed_def isspace_def)
qed

lemma two_arrays_find2:
  assumes "simple_key key1" and "simple_key key2" and "key2 \<notin> {''version'', key1}"
    and "t = two_arrays key1 (bracketed its1 tail1) key2 (bracketed its2 tail2) tail"
    and "items_ok its1 tail1" and "\<forall>i \<in> set its1. key2 \<notin> fst ` set (snd i)"
  shows "\<exists>q. json_find_key_value t 0 (length t) key2 = Some q \<and> drop q t = bracketed its2 tail2 @ tail"
proof -
  let ?pat = "DQ # key2 @ [DQ]" and ?a = "bracketed its1 tail1" and ?p = "length (file_head key1)"
  let ?sep = "'','' @ [NL] @ ''  ''" and ?v = "items_text field_sep its2 @ tail2 @ '']'' @ tail"
  let ?fin = "DQ # key2 @ DQ # CHR '':'' # CHR '' '' # CHR ''['' # ?v"
  have d1: "drop ?p t = ?a @ ?sep @ ?fin" using assms(4) by (simp add: two_arrays_def bracketed_def)
  from drop_step [OF d1] have d2: "drop (?p + length ?a) t = ?sep @ ?fin" .
  from drop_step [OF d2] have d3: "drop (?p + length ?a + length ?sep) t = ?fin" .
  have "length t = ?p + length ?a + length ?sep + length ?fin" using assms(4) by (simp add: two_arrays_def bracketed_def)
  note len = this
  have "find_key_loop t 0 (length t) ?pat = find_key_loop t ?p (length t) ?pat"
    using assms len by (intro file_head_skip [of _ _ "?a @ ?sep @ ?fin"]) (auto simp: two_arrays_def bracketed_def)
  also have "\<dots> = find_key_loop t (?p + length ?a) (length t) ?pat"
    using assms(2,5,6) len by (intro find_key_skip_bracketed [OF d1]) auto
  also have "\<dots> = find_key_loop t (?p + length ?a + length ?sep) (length t) ?pat"
    using len by (intro find_key_skip_plain [OF d2]) auto
  also have "\<dots> = Some (?p + length ?a + length ?sep + length key2 + 4)"
    using len by (intro find_key_hit [OF d3]) (auto simp: isspace_def)
  finally have f: "json_find_key_value t 0 (length t) key2 = Some (?p + length ?a + length ?sep + length key2 + 4)"
    using assms(2) by (simp add: json_find_key_value_def key_pattern_simple)
  have "drop (?p + length ?a + length ?sep + length (DQ # key2 @ DQ # '': '')) t = CHR ''['' # ?v"
    by (rule drop_step) (use d3 in simp)
  moreover have "length (DQ # key2 @ DQ # '': '') = length key2 + 4" by simp
  ultimately show ?thesis using f by (metis (no_types) bracketed_def add.assoc append_Cons append_Nil append_assoc)
qed

end
