(* ===== verification/GgfeLaunchProofs.thy ===== *)
theory GgfeLaunchProofs
  imports GgfeLaunch JsonRange
begin

text \<open>
  The override file of the Game Gear frontend reads back as it was written, whatever happens while it is written, and an
  override decides the choice.
\<close>

section \<open>The text as two arrays\<close>

definition ggfe_str_ok :: "nat \<Rightarrow> string \<Rightarrow> bool" where
  "ggfe_str_ok n s \<longleftrightarrow> length s < n \<and> list_all (\<lambda>c. 32 \<le> code_of c) s"

lemma ggfe_str_nul: "ggfe_str_ok n s \<Longrightarrow> NUL \<notin> set s"
  by (auto simp: ggfe_str_ok_def list_all_iff code_of_def)

lemma ggfe_str_str: "ggfe_str_ok n s \<Longrightarrow> str_ok n s"
  using ggfe_str_nul [of n s] by (auto simp: ggfe_str_ok_def str_ok_def list_all_iff plain_char_def)

lemma ggfe_str_read: "ggfe_str_ok n s \<Longrightarrow> take (n - 1) (decoded s) = s"
  by (rule str_ok_read [OF ggfe_str_str])

lemma ggfe_escape_plain:
  assumes "ggfe_str_ok n s"
  shows "DQ # ggfe_json_escape s @ [DQ] = json_write_escaped s"
proof -
  have "ggfe_escape_char c = json_escape_char c" if "32 \<le> code_of c" for c
    using that by (auto simp: ggfe_escape_char_def json_escape_char_def code_of_def)
  then have "map ggfe_escape_char s = map json_escape_char s"
    using assms by (auto simp: ggfe_str_ok_def list_all_iff intro!: map_cong)
  then show ?thesis by (simp only: ggfe_json_escape_def json_write_escaped_def)
qed

definition ov_entry_ok :: "ggfe_profile_override \<Rightarrow> bool" where
  "ov_entry_ok ov \<longleftrightarrow> ggfe_str_ok PATH_MAX (po_relative_path ov) \<and> ggfe_str_ok 128 (po_launch_profile ov) \<and>
     po_launch_profile ov \<noteq> []"

definition system_fields :: "string \<Rightarrow> string \<Rightarrow> field list" where
  "system_fields system_id profile = [(''system_id'', JStr system_id), (''launch_profile'', JStr profile)]"

definition ov_fields :: "string \<Rightarrow> ggfe_profile_override \<Rightarrow> field list" where
  "ov_fields system_id ov = [(''system_id'', JStr system_id), (''relative_path'', JStr (po_relative_path ov)),
     (''launch_profile'', JStr (po_launch_profile ov))]"

fun ov_items :: "string \<Rightarrow> bool \<Rightarrow> ggfe_profile_override list \<Rightarrow> (string \<times> field list) list" where
  "ov_items system_id first [] = []"
| "ov_items system_id first (ov # os) =
     ((if first then [] else '','') @ [NL] @ ''    '', ov_fields system_id ov) # ov_items system_id False os"

lemma ov_keys [simp]: "simple_key ''system_overrides''" "simple_key ''rom_overrides''"
  by (simp_all add: simple_key_def isalnum_def isdigit_def code_of_def)

lemma ov_fields_ok: "ggfe_str_ok 64 sid \<Longrightarrow> ov_entry_ok ov \<Longrightarrow> fields_ok (ov_fields sid ov)"
  by (auto simp: fields_ok_def ov_fields_def ov_entry_ok_def dest: ggfe_str_nul)

lemma system_fields_ok: "ggfe_str_ok 64 sid \<Longrightarrow> ggfe_str_ok 128 p \<Longrightarrow> fields_ok (system_fields sid p)"
  by (simp add: fields_ok_def system_fields_def ggfe_str_nul)

lemma ov_row_text:
  assumes "ggfe_str_ok 64 sid" and "ov_entry_ok ov"
  shows "ggfe_rom_row sid ov = [NL] @ ''    '' @ object_text field_sep (ov_fields sid ov)"
proof -
  note e = ggfe_escape_plain [OF assms(1)] ggfe_escape_plain [of PATH_MAX "po_relative_path ov"]
    ggfe_escape_plain [of 128 "po_launch_profile ov"]
  show ?thesis
    using assms(2) e by (simp add: ov_entry_ok_def ggfe_rom_row_def object_text_def ov_fields_def field_text_def flip: e)
qed

lemma ov_rows_text:
  "ggfe_str_ok 64 sid \<Longrightarrow> list_all ov_entry_ok os \<Longrightarrow>
     ggfe_rom_rows sid first os = (first \<and> os = [], items_text field_sep (ov_items sid first os))"
proof (induction os arbitrary: first)
  case (Cons ov os)
  then show ?case
    using Cons.IH [of False] ov_row_text [of sid ov] by (simp add: ov_entry_ok_def item_text_def)
qed simp

definition overrides_ok :: "string \<Rightarrow> ggfe_override_set \<Rightarrow> bool" where
  "overrides_ok sid ovs \<longleftrightarrow> ggfe_str_ok 64 sid \<and> list_all ov_entry_ok (ov_rom ovs) \<and>
     length (ov_rom ovs) \<le> GGFE_MAX_ROM_OVERRIDES \<and>
     (if ov_has_system ovs then ggfe_str_ok 128 (ov_system ovs) \<and> ov_system ovs \<noteq> [] else ov_system ovs = [])"

definition system_items :: "string \<Rightarrow> ggfe_override_set \<Rightarrow> (string \<times> field list) list" where
  "system_items sid ovs = (if ov_has_system ovs then [([NL] @ ''    '', system_fields sid (ov_system ovs))] else [])"

definition array_tail :: "'a list \<Rightarrow> string" where
  "array_tail xs = (if xs = [] then [] else [NL] @ ''  '')"

lemma overrides_text_arrays:
  assumes "overrides_ok sid ovs"
  shows "ggfe_overrides_text ovs sid =
    two_arrays ''system_overrides'' (bracketed (system_items sid ovs) (array_tail (system_items sid ovs)))
      ''rom_overrides'' (bracketed (ov_items sid True (ov_rom ovs)) (array_tail (ov_rom ovs))) ([NL] @ ''}'' @ [NL])"
proof -
  have sid: "ggfe_str_ok 64 sid" and roms: "list_all ov_entry_ok (ov_rom ovs)" using assms by (simp_all add: overrides_ok_def)
  note e = ggfe_escape_plain [OF sid] ggfe_escape_plain [of 128 "ov_system ovs"]
  show ?thesis
    using assms e
    by (simp add: ggfe_overrides_text_def two_arrays_def bracketed_def file_head_def system_items_def array_tail_def
        overrides_ok_def ov_rows_text [OF sid roms] object_text_def system_fields_def field_text_def item_text_def
        flip: e split: if_splits)
qed

lemma spaces_ok: "isspace NL" "isspace CHR '' ''"
  by (simp_all add: isspace_def)

lemma ov_items_ok:
  "ggfe_str_ok 64 sid \<Longrightarrow> list_all ov_entry_ok os \<Longrightarrow> items_ok (ov_items sid first os) (array_tail xs)"
  by (induction os arbitrary: first)
     (auto simp: items_ok_def item_ok_def array_tail_def ov_fields_ok spaces_ok isspace_def)

lemma system_items_ok: "overrides_ok sid ovs \<Longrightarrow> items_ok (system_items sid ovs) (array_tail (system_items sid ovs))"
  by (auto simp: items_ok_def item_ok_def array_tail_def system_items_def system_fields_ok overrides_ok_def spaces_ok isspace_def)

section \<open>Reading it back\<close>

text \<open>The string a field holds.\<close>

definition field_str :: "field list \<Rightarrow> string \<Rightarrow> string" where
  "field_str fs key = (case map_of fs key of Some (JStr s) \<Rightarrow> s | _ \<Rightarrow> [])"

lemma get_field_at:
  assumes "drop p t = object_text field_sep fs @ r" and "fields_ok fs" and "simple_key key"
    and "map_of fs key = Some (JStr s)" and "ggfe_str_ok n s"
  shows "json_get_string t p (p + length (object_text field_sep fs)) key n old = (True, s)"
  using get_string_at [OF assms(1) refl assms(2) _ assms(3,4), of n old] ggfe_str_read [OF assms(5)] assms(5)
  by (simp add: ggfe_str_ok_def)

lemma names_system_at:
  assumes "drop p t = object_text field_sep fs @ r" and "fields_ok fs" and "map_of fs ''system_id'' = Some (JStr sid)"
    and "ggfe_str_ok 64 sid"
  shows "names_system t sid p (p + length (object_text field_sep fs))"
  using get_field_at [OF assms(1,2) _ assms(3,4)] by (simp add: names_system_def)

lemma system_step_at:
  assumes "drop p t = object_text field_sep (system_fields sid s) @ r" and "ggfe_str_ok 64 sid" and "ggfe_str_ok 128 s"
  shows "system_override_step t sid p (p + length (object_text field_sep (system_fields sid s))) st = (True, s)"
proof -
  note ok = system_fields_ok [OF assms(2,3)]
  have "names_system t sid p (p + length (object_text field_sep (system_fields sid s)))"
    by (rule names_system_at [OF assms(1) ok _ assms(2)]) (simp add: system_fields_def)
  moreover have "json_get_string t p (p + length (object_text field_sep (system_fields sid s))) ''launch_profile'' 128 (snd st) =
      (True, s)"
    by (rule get_field_at [OF assms(1) ok _ _ assms(3)]) (simp_all add: system_fields_def)
  ultimately show ?thesis by (simp add: system_override_step_def)
qed

definition read_override :: "string \<times> field list \<Rightarrow> ggfe_profile_override" where
  "read_override i = \<lparr>po_relative_path = field_str (snd i) ''relative_path'',
     po_launch_profile = field_str (snd i) ''launch_profile''\<rparr>"

lemma rom_step_at:
  assumes "drop p t = object_text field_sep (ov_fields sid ov) @ r" and "ggfe_str_ok 64 sid" and "ov_entry_ok ov"
  shows "rom_override_step t sid p (p + length (object_text field_sep (ov_fields sid ov))) st = st @ [ov]"
proof -
  note ok = ov_fields_ok [OF assms(2,3)]
  have s: "ggfe_str_ok PATH_MAX (po_relative_path ov)" "ggfe_str_ok 128 (po_launch_profile ov)"
    using assms(3) by (simp_all add: ov_entry_ok_def)
  let ?e = "p + length (object_text field_sep (ov_fields sid ov))"
  have "names_system t sid p ?e"
    by (rule names_system_at [OF assms(1) ok _ assms(2)]) (simp add: ov_fields_def)
  moreover have "json_get_string t p ?e ''relative_path'' PATH_MAX [] = (True, po_relative_path ov)"
    by (rule get_field_at [OF assms(1) ok _ _ s(1)]) (simp_all add: ov_fields_def)
  moreover have "json_get_string t p ?e ''launch_profile'' 128 [] = (True, po_launch_profile ov)"
    by (rule get_field_at [OF assms(1) ok _ _ s(2)]) (simp_all add: ov_fields_def)
  ultimately show ?thesis by (simp add: rom_override_step_def)
qed

lemma read_ov_items: "map read_override (ov_items sid first os) = os"
  by (induction os arbitrary: first) (simp_all add: read_override_def field_str_def ov_fields_def)

lemma ov_items_mem: "i \<in> set (ov_items sid first os) \<Longrightarrow> snd i = ov_fields sid (read_override i) \<and> read_override i \<in> set os"
  by (induction os arbitrary: first) (auto simp: read_override_def field_str_def ov_fields_def)

lemma fold_rows: "length acc + length its \<le> m \<Longrightarrow>
    fold_while (\<lambda>os. length os < m) (\<lambda>i os. os @ [f i]) its acc = acc @ map f its"
  by (induction its arbitrary: acc) auto

lemma ggfe_overrides_reload:
  assumes "overrides_ok sid ovs" and "length (ggfe_overrides_text ovs sid) \<le> 2 ^ 20"
    and "os_read w path = Some (ggfe_overrides_text ovs sid)"
  shows "ggfe_overrides_load w path sid = (True, ovs)"
proof -
  let ?t = "ggfe_overrides_text ovs sid" and ?sys = "system_items sid ovs" and ?rom = "ov_items sid True (ov_rom ovs)"
  have sid: "ggfe_str_ok 64 sid" and roms: "list_all ov_entry_ok (ov_rom ovs)" using assms(1) by (simp_all add: overrides_ok_def)
  note t = overrides_text_arrays [OF assms(1)]
  note sys_find = two_arrays_find [OF ov_keys(1) _ t]
  let ?p = "length (file_head ''system_overrides'')"
  have "\<exists>be a. json_match_container ?t ?p (length ?t) CHR ''['' CHR '']'' = Some (?p + 1, be, a) \<and>
      json_each_object ?t be (?p + 1) (\<lambda>_. True) (system_override_step ?t sid) (False, []) =
        fold_while (\<lambda>_. True) (\<lambda>i _. (True, ov_system ovs)) ?sys (False, [])"
  proof (rule bracketed_each [OF sys_find(2) _ system_items_ok [OF assms(1)]])
    fix i s r and st :: "bool \<times> string"
    assume "i \<in> set ?sys" and d: "drop s ?t = object_text field_sep (snd i) @ r"
    then have i: "snd i = system_fields sid (ov_system ovs)" and "ov_has_system ovs"
      by (auto simp: system_items_def split: if_splits)
    then have "ggfe_str_ok 128 (ov_system ovs)" using assms(1) by (simp add: overrides_ok_def)
    then show "system_override_step ?t sid s (s + length (object_text field_sep (snd i))) st = (True, ov_system ovs)"
      using system_step_at [OF d [unfolded i] sid] i by simp
  next
    show "?p + length (bracketed ?sys (array_tail ?sys)) \<le> length ?t" by (subst t) (simp add: two_arrays_def)
  qed simp
  then obtain be where sys: "json_find_array ?t 0 (length ?t) ''system_overrides'' = Some (?p + 1, be)"
    "json_each_object ?t be (?p + 1) (\<lambda>_. True) (system_override_step ?t sid) (False, []) = (ov_has_system ovs, ov_system ovs)"
    using sys_find(1) assms(1) by (auto simp: json_find_array_def system_items_def overrides_ok_def split: if_splits)
  have "\<exists>q. json_find_key_value ?t 0 (length ?t) ''rom_overrides'' = Some q \<and>
      drop q ?t = bracketed ?rom (array_tail (ov_rom ovs)) @ [NL] @ ''}'' @ [NL]"
    by (rule two_arrays_find2 [OF ov_keys _ t system_items_ok [OF assms(1)]])
      (simp_all add: system_items_def system_fields_def)
  then obtain q where q: "json_find_key_value ?t 0 (length ?t) ''rom_overrides'' = Some q"
    "drop q ?t = bracketed ?rom (array_tail (ov_rom ovs)) @ [NL] @ ''}'' @ [NL]" by blast
  have "\<exists>be a. json_match_container ?t q (length ?t) CHR ''['' CHR '']'' = Some (q + 1, be, a) \<and>
      json_each_object ?t be (q + 1) (\<lambda>os. length os < GGFE_MAX_ROM_OVERRIDES) (rom_override_step ?t sid) [] =
        fold_while (\<lambda>os. length os < GGFE_MAX_ROM_OVERRIDES) (\<lambda>i os. os @ [read_override i]) ?rom []"
  proof (rule bracketed_each [OF q(2) _ ov_items_ok [OF sid roms]])
    fix i s r and st :: "ggfe_profile_override list"
    assume "i \<in> set ?rom" and d: "drop s ?t = object_text field_sep (snd i) @ r"
    from ov_items_mem [OF this(1)] roms have i: "snd i = ov_fields sid (read_override i)" "ov_entry_ok (read_override i)"
      by (auto simp: list_all_iff)
    then show "rom_override_step ?t sid s (s + length (object_text field_sep (snd i))) st = st @ [read_override i]"
      using rom_step_at [OF d [unfolded i(1)] sid i(2)] by simp
  next
    show "q + length (bracketed ?rom (array_tail (ov_rom ovs))) \<le> length ?t"
      using arg_cong [OF q(2), of length] by simp
  qed
  moreover have "length ?rom = length (ov_rom ovs)" using arg_cong [OF read_ov_items [of sid True], of length] by simp
  moreover have "fold_while (\<lambda>os. length os < GGFE_MAX_ROM_OVERRIDES) (\<lambda>i os. os @ [read_override i]) ?rom [] = ov_rom ovs"
    using fold_rows [of "[]" ?rom GGFE_MAX_ROM_OVERRIDES read_override] assms(1) calculation(2)
    by (simp add: read_ov_items overrides_ok_def)
  ultimately obtain be' where rom: "json_find_array ?t 0 (length ?t) ''rom_overrides'' = Some (q + 1, be')"
    "json_each_object ?t be' (q + 1) (\<lambda>os. length os < GGFE_MAX_ROM_OVERRIDES) (rom_override_step ?t sid) [] = ov_rom ovs"
    using q(1) by (auto simp: json_find_array_def)
  show ?thesis
    using assms(2,3) sys rom by (simp add: ggfe_overrides_load_def ggfe_read_file_def)
qed

section \<open>Saving over a crash\<close>

lemma ggfe_save_states:
  "list_all (\<lambda>d'. (d' path = d path \<or> d' path = Some (ggfe_overrides_text ovs sid, True)) \<and>
      (\<forall>q. q = path \<or> q = path @ ''.next'' \<or> d' q = d q)) (d # snd (ggfe_overrides_save e ovs path sid d))"
proof -
  let ?new = "ggfe_overrides_text ovs sid" and ?tmp = "path @ ''.next''"
  define P :: "disk \<Rightarrow> bool" where "P d' \<longleftrightarrow> (d' path = d path \<or> d' path = Some (?new, True)) \<and>
      (\<forall>q. q = path \<or> q = ?tmp \<or> d' q = d q)" for d'
  have P: "P d" "P (d(?tmp \<mapsto> x))" "P (d(?tmp := None))" "P (d(path \<mapsto> (?new, True), ?tmp := None))" for x
    by (auto simp: P_def)
  define partials where "partials = map (\<lambda>k. d(?tmp \<mapsto> (take k ?new, False))) (0 # st_partial e)"
  have parts: "list_all P partials" unfolding partials_def list.pred_map by (simp add: P list.pred_True comp_def)
  have x: "last partials = d(?tmp \<mapsto> (take (last (0 # st_partial e)) ?new, False))"
    unfolding partials_def by (rule last_map) simp
  have "list_all P (d # snd (ggfe_overrides_save e ovs path sid d))"
    using parts P unfolding ggfe_overrides_save_def Let_def partials_def [symmetric] x
    by (cases "st_flush e"; cases "st_fsync e"; simp)
  then show ?thesis unfolding P_def .
qed

lemma ggfe_save_done:
  "fst (ggfe_overrides_save e ovs path sid d) \<Longrightarrow>
     disk_after (ggfe_overrides_save e ovs path sid d) d path = Some (ggfe_overrides_text ovs sid, True)"
  by (auto simp: ggfe_overrides_save_def Let_def disk_after_def split: if_splits)

text \<open>
  C12: the overrides of the Game Gear frontend survive a power loss while they are saved. At every state of the save a frontend that
  starts again reads the overrides it had before or exactly the new ones, and after a save that reports success it reads the new
  ones. It holds for every set whose texts fit their slots and hold no control characters, as long as the file is not larger than
  the megabyte the reader accepts.
\<close>

theorem ggfe_overrides_crash_safe:
  assumes "overrides_ok sid ovs" and "length (ggfe_overrides_text ovs sid) \<le> 2 ^ 20"
  shows "list_all (\<lambda>d'. ggfe_overrides_load (reader_os w (after_crash g d')) path sid \<in>
        {ggfe_overrides_load (reader_os w (after_crash g d)) path sid, (True, ovs)})
      (d # snd (ggfe_overrides_save e ovs path sid d)) \<and>
    (fst (ggfe_overrides_save e ovs path sid d) \<longrightarrow>
      ggfe_overrides_load (reader_os w (after_crash g (disk_after (ggfe_overrides_save e ovs path sid d) d))) path sid = (True, ovs))"
proof -
  have new: "ggfe_overrides_load (reader_os w m) path sid = (True, ovs)" if "m path = Some (ggfe_overrides_text ovs sid)" for m
    by (rule ggfe_overrides_reload [OF assms]) (simp add: reader_os_def that)
  have one: "ggfe_overrides_load (reader_os w (after_crash g d')) path sid \<in>
      {ggfe_overrides_load (reader_os w (after_crash g d)) path sid, (True, ovs)}"
    if "(d' path = d path \<or> d' path = Some (ggfe_overrides_text ovs sid, True)) \<and>
      (\<forall>q. q = path \<or> q = path @ ''.next'' \<or> d' q = d q)" for d'
  proof (cases "d' path = d path")
    case True
    then have "after_crash g d' path = after_crash g d path" by (simp add: after_crash_def)
    then show ?thesis by (simp add: ggfe_overrides_load_def ggfe_read_file_def reader_os_def)
  next
    case False
    with that have "after_crash g d' path = Some (ggfe_overrides_text ovs sid)" by (simp add: after_crash_def)
    from new [of "after_crash g d'", OF this] show ?thesis by simp
  qed
  show ?thesis
    using list.pred_mono_strong [OF ggfe_save_states one] new ggfe_save_done [of e ovs path sid d]
    by (auto simp: after_crash_def)
qed

definition demo_ggfe_overrides :: ggfe_override_set where
  "demo_ggfe_overrides = \<lparr>ov_system = ''picoarch:a'', ov_has_system = True,
     ov_rom = [\<lparr>po_relative_path = ''GG/a.gg'', po_launch_profile = ''retroarch:b''\<rparr>]\<rparr>"

theorem ggfe_overrides_crash_safe_witness:
  "ggfe_overrides_load (reader_os demo_os (after_crash (\<lambda>_. []) (disk_after
     (ggfe_overrides_save demo_store demo_ggfe_overrides ''/d/f'' ''gg'' (\<lambda>_. None)) (\<lambda>_. None)))) ''/d/f'' ''gg'' =
   (True, demo_ggfe_overrides)"
proof -
  have ok: "overrides_ok ''gg'' demo_ggfe_overrides"
    by (simp add: overrides_ok_def demo_ggfe_overrides_def ov_entry_ok_def ggfe_str_ok_def PATH_MAX_def GGFE_MAX_ROM_OVERRIDES_def
        code_of_def)
  have len: "length (ggfe_overrides_text demo_ggfe_overrides ''gg'') \<le> 2 ^ 20"
    by (simp add: ggfe_overrides_text_def demo_ggfe_overrides_def ggfe_rom_row_def ggfe_json_escape_def ggfe_escape_char_def
        code_of_def)
  have "fst (ggfe_overrides_save demo_store demo_ggfe_overrides ''/d/f'' ''gg'' (\<lambda>_. None))"
    by (simp add: ggfe_overrides_save_def demo_store_def path_parent_def PATH_MAX_def Let_def)
  with ggfe_overrides_crash_safe [OF ok len, where w = demo_os and g = "\<lambda>_. []" and d = "\<lambda>_. None" and path = "''/d/f''" and e = demo_store]
  show ?thesis by blast
qed

section \<open>The overrides as a keyed table\<close>

lemma lookup_distinct: "distinct_keys key es \<Longrightarrow> lookup key es k = Some e \<longleftrightarrow> e \<in> set es \<and> key e = k"
  by (induction es) auto

lemma swap_remove_set:
  assumes "distinct es" and "i < length es"
  shows "set (butlast (es[i := last es])) = set es - {es ! i}" and "distinct (butlast (es[i := last es]))"
proof -
  obtain xs x where es: "es = xs @ [x]" using assms(2) by (cases es rule: rev_cases) auto
  show "set (butlast (es[i := last es])) = set es - {es ! i}"
  proof (cases "i = length xs")
    case True
    with assms(1) es show ?thesis by auto
  next
    case False
    with assms es have "i < length xs" "x \<notin> set xs" "distinct xs" by auto
    moreover from this have "xs ! i \<noteq> x" by (metis nth_mem)
    ultimately show ?thesis using es by (auto simp: nth_append list_update_append set_update_distinct)
  qed
  show "distinct (butlast (es[i := last es]))"
    using assms es by (cases "i = length xs") (auto simp: list_update_append nth_append distinct_list_update)
qed

definition ov_put :: "ggfe_override_set \<Rightarrow> string \<Rightarrow> string \<Rightarrow> ggfe_override_set option" where
  "ov_put ovs rel profile = ok_opt (ggfe_override_set_rom ovs rel profile)"

definition ov_del :: "ggfe_override_set \<Rightarrow> string \<Rightarrow> ggfe_override_set" where
  "ov_del ovs rel = snd (ggfe_override_set_rom ovs rel [])"

definition ov_distinct :: "ggfe_override_set \<Rightarrow> bool" where
  "ov_distinct ovs \<longleftrightarrow> distinct_keys po_relative_path (ov_rom ovs)"

definition profile_fits :: "string \<Rightarrow> bool" where
  "profile_fits profile \<longleftrightarrow> profile \<noteq> [] \<and> length profile < 128"

lemma ov_put_cases:
  assumes "ov_put ovs rel profile = Some ovs'" and "profile_fits profile"
  obtains (old) i e where "find_first (\<lambda>ov. po_relative_path ov = rel) (ov_rom ovs) = Some i"
      "po_relative_path e = rel" "po_launch_profile e = profile" "ov_rom ovs' = (ov_rom ovs)[i := e]"
    | (new) e where "find_first (\<lambda>ov. po_relative_path ov = rel) (ov_rom ovs) = None"
      "po_relative_path e = rel" "po_launch_profile e = profile" "ov_rom ovs' = ov_rom ovs @ [e]"
proof (cases "find_first (\<lambda>ov. po_relative_path ov = rel) (ov_rom ovs)")
  case None
  note put = assms(1) [unfolded ov_put_def ggfe_override_set_rom_def Let_def None]
  have "ov_rom ovs' = ov_rom ovs @ [\<lparr>po_relative_path = rel, po_launch_profile = profile\<rparr>]"
    using put assms(2) by (auto simp: profile_fits_def copy_string_def ok_opt_Some split: if_splits)
  with None show ?thesis by (intro new) simp_all
next
  case (Some i)
  note put = assms(1) [unfolded ov_put_def ggfe_override_set_rom_def Let_def Some]
  have "ov_rom ovs' = (ov_rom ovs)[i := (ov_rom ovs ! i)\<lparr>po_launch_profile := profile\<rparr>]"
    using put assms(2) by (auto simp: profile_fits_def copy_string_def ok_opt_Some)
  with Some show ?thesis using find_first_SomeD [OF Some] by (intro old) simp_all
qed

lemma ov_del_set:
  assumes "ov_distinct ovs"
  shows "set (ov_rom (ov_del ovs rel)) = {ov \<in> set (ov_rom ovs). po_relative_path ov \<noteq> rel}" and "ov_distinct (ov_del ovs rel)"
proof -
  let ?es = "ov_rom ovs"
  have d: "distinct_keys po_relative_path ?es" and d': "distinct ?es" using assms by (simp_all add: ov_distinct_def distinct_map)
  have "set (ov_rom (ov_del ovs rel)) = {ov \<in> set ?es. po_relative_path ov \<noteq> rel} \<and> distinct (ov_rom (ov_del ovs rel))"
  proof (cases "find_first (\<lambda>ov. po_relative_path ov = rel) ?es")
    case None
    then have "\<forall>ov \<in> set ?es. po_relative_path ov \<noteq> rel" by (simp only: find_first_None)
    with d' show ?thesis unfolding ov_del_def ggfe_override_set_rom_def Let_def None by auto
  next
    case (Some i)
    from find_first_SomeD [OF Some] have i: "i < length ?es" "po_relative_path (?es ! i) = rel" by auto
    have "po_relative_path ov = rel \<longleftrightarrow> ov = ?es ! i" if "ov \<in> set ?es" for ov
      using d i that by (metis distinct_map inj_on_def nth_mem)
    then show ?thesis
      using swap_remove_set [OF d' i(1)] unfolding ov_del_def ggfe_override_set_rom_def Let_def Some by auto
  qed
  then show "set (ov_rom (ov_del ovs rel)) = {ov \<in> set ?es. po_relative_path ov \<noteq> rel}" "ov_distinct (ov_del ovs rel)"
    using d by (auto simp: ov_distinct_def distinct_map inj_on_def)
qed

interpretation rom_choice: keyed_store ggfe_override_for_rom ov_put ov_del "\<lambda>_ _ v. v" ov_distinct "\<lambda>_. True"
  "\<lambda>_. profile_fits"
proof unfold_locales
  fix s s' k k' v
  assume inv: "ov_distinct s" and put: "ov_put s k v = Some s'" and fits: "profile_fits v"
  note cases = ov_put_cases [OF put fits]
  show "ggfe_override_for_rom s' k = Some v"
    by (cases rule: cases) (simp_all add: ggfe_override_for_rom_def lookup_update_same lookup_append_new del: find_first_None)
  show "ggfe_override_for_rom s' k' = ggfe_override_for_rom s k'" if "k' \<noteq> k"
    using that
    by (cases rule: cases) (simp_all add: ggfe_override_for_rom_def lookup_update_other lookup_append_new del: find_first_None)
  show "ov_distinct s'"
    using inv distinct_append_key [of po_relative_path k "ov_rom s"]
    by (cases rule: cases) (simp_all add: ov_distinct_def map_key_update del: find_first_None distinct_append map_append)
next
  fix s k k'
  assume inv: "ov_distinct s"
  note del = ov_del_set [OF inv, of k]
  show "ov_distinct (ov_del s k)" by (rule del)
  show "ggfe_override_for_rom (ov_del s k) k = None"
    using del(1) by (auto simp: ggfe_override_for_rom_def lookup_None)
  show "ggfe_override_for_rom (ov_del s k) k' = ggfe_override_for_rom s k'" if "k' \<noteq> k"
  proof -
    have "lookup po_relative_path (ov_rom (ov_del s k)) k' = Some e \<longleftrightarrow> lookup po_relative_path (ov_rom s) k' = Some e" for e
      using del inv that unfolding ov_distinct_def by (auto simp: lookup_distinct)
    then show ?thesis unfolding ggfe_override_for_rom_def by (metis option.exhaust)
  qed
qed

section \<open>What an override does\<close>

text \<open>A run of the menu's commands: a path and the profile for it, empty to follow the chain again.\<close>

definition ggfe_override_run :: "ggfe_override_set \<Rightarrow> (string \<times> string) list \<Rightarrow> ggfe_override_set" where
  "ggfe_override_run ovs cmds = foldl (\<lambda>s c. snd (ggfe_override_set_rom s (fst c) (snd c))) ovs cmds"

lemma run_step:
  assumes "length (snd c) < 128"
  shows "snd (ggfe_override_set_rom s (fst c) (snd c)) =
    rom_choice.exec s (fst c, if snd c = [] then None else Some (snd c))"
  using assms
  by (auto simp: rom_choice.exec_def ov_put_def ov_del_def ggfe_override_set_rom_def copy_string_def ok_opt_def Let_def
      split: option.splits simp del: find_first_None)

lemma run_exec:
  "list_all (\<lambda>c. length (snd c) < 128) cmds \<Longrightarrow>
     ggfe_override_run ovs cmds = foldl rom_choice.exec ovs (map (\<lambda>c. (fst c, if snd c = [] then None else Some (snd c))) cmds)"
  by (induction cmds arbitrary: ovs) (simp_all add: ggfe_override_run_def run_step)

lemma run_keeps_other:
  assumes "ov_distinct ovs" and "list_all (\<lambda>c. length (snd c) < 128 \<and> fst c \<noteq> rel) cmds"
  shows "ggfe_override_for_rom (ggfe_override_run ovs cmds) rel = ggfe_override_for_rom ovs rel"
proof -
  have "list_all (\<lambda>c. length (snd c) < 128) cmds" using assms(2) by (simp add: list_all_iff)
  moreover have "list_all rom_choice.cmd_ok (map (\<lambda>c. (fst c, if snd c = [] then None else Some (snd c))) cmds)"
    using assms(2) by (auto simp: list_all_iff rom_choice.cmd_ok_def profile_fits_def)
  ultimately show ?thesis
    using rom_choice.run_other [OF assms(1), of "map (\<lambda>c. (fst c, if snd c = [] then None else Some (snd c))) cmds" rel] assms(2)
    by (auto simp: run_exec list_all_iff)
qed

text \<open>
  C10: a core picked for a cartridge in the menu is the one that starts it. When \<open>ggfe_override_set_rom\<close> accepted the profile and the
  catalogue lists it as available, \<open>ggfe_choose_profile\<close> takes it before everything else the configuration, the stock
  frontend's overrides or the catalogue say, whatever is set or cleared for other cartridges afterwards; and
  clearing it gives the choice that would have been made without it.
\<close>

theorem ggfe_override_takes_effect:
  assumes "ov_distinct ovs" and "list_all (\<lambda>c. length (snd c) < 128 \<and> fst c \<noteq> rel) cmds"
    and "profile \<noteq> []" and "ggfe_override_set_rom ovs rel profile = (True, ovs')"
    and "lookup gp_id (gk_profiles cat) profile = Some p" and "gp_available p"
  shows "ggfe_choose_profile cat cfg (ggfe_override_run ovs' cmds) plumos_ov rel = (Some p, ''ggfe rom override'') \<and>
    ggfe_choose_profile cat cfg (ggfe_override_run (snd (ggfe_override_set_rom ovs rel [])) cmds) plumos_ov rel =
      ggfe_choose_profile cat cfg empty_overrides plumos_ov rel"
proof -
  have len: "length profile < 128"
    using assms(3,4) by (auto simp: ggfe_override_set_rom_def copy_string_def Let_def split: option.splits if_splits)
  have put: "ov_put ovs rel profile = Some ovs'" using assms(4) by (simp add: ov_put_def)
  have arg: "profile_fits profile" using assms(3) len by (simp add: profile_fits_def)
  have "ggfe_override_for_rom (ggfe_override_run ovs' cmds) rel = Some profile"
    using run_keeps_other [OF rom_choice.put_inv [OF assms(1) _ arg put] assms(2)] rom_choice.put_same [OF assms(1) _ arg put] by simp
  moreover have "ggfe_override_for_rom (ggfe_override_run (snd (ggfe_override_set_rom ovs rel [])) cmds) rel = None"
    using run_keeps_other [OF rom_choice.del_inv [OF assms(1)] assms(2)] rom_choice.del_same [OF assms(1)]
    by (simp add: ov_del_def)
  moreover have "ggfe_override_for_rom empty_overrides rel = None"
    by (simp add: ggfe_override_for_rom_def empty_overrides_def)
  ultimately show ?thesis
    using assms(3,5,6) by (simp add: ggfe_choose_profile_def choice_chain_def ggfe_profile_find_def copy_string_def)
qed

definition demo_catalog :: ggfe_catalog where
  "demo_catalog = \<lparr>gk_system_id = ''gg'', gk_profiles =
     [\<lparr>gp_id = ''retroarch:a'', gp_runtime = RT_RETROARCH, gp_core = ''a'', gp_available = True, gp_reason = []\<rparr>,
      \<lparr>gp_id = ''retroarch:b'', gp_runtime = RT_RETROARCH, gp_core = ''b'', gp_available = True, gp_reason = []\<rparr>],
     gk_default_profile = ''retroarch:a''\<rparr>"

theorem ggfe_override_takes_effect_witness:
  "map_option gp_id (fst (ggfe_choose_profile demo_catalog ggfe_config_defaults
     (ggfe_override_run (snd (ggfe_override_set_rom empty_overrides ''GG/x'' ''retroarch:b'')) [(''GG/y'', ''retroarch:a'')])
     empty_overrides ''GG/x'')) = Some ''retroarch:b''"
proof -
  have d: "ov_distinct empty_overrides" by (simp add: ov_distinct_def empty_overrides_def)
  have s: "ggfe_override_set_rom empty_overrides ''GG/x'' ''retroarch:b'' =
      (True, snd (ggfe_override_set_rom empty_overrides ''GG/x'' ''retroarch:b''))"
    by (simp add: ggfe_override_set_rom_def empty_overrides_def copy_string_def PATH_MAX_def GGFE_MAX_ROM_OVERRIDES_def)
  have l: "lookup gp_id (gk_profiles demo_catalog) ''retroarch:b'' = Some (gk_profiles demo_catalog ! 1)"
    "gp_available (gk_profiles demo_catalog ! 1)" "gp_id (gk_profiles demo_catalog ! 1) = ''retroarch:b''"
    by (simp_all add: demo_catalog_def)
  from ggfe_override_takes_effect [OF d _ _ s l(1,2), of "[(''GG/y'', ''retroarch:a'')]" ggfe_config_defaults empty_overrides] l(3)
  show ?thesis by simp
qed

section \<open>The choice\<close>

definition runs_on_device :: "os \<Rightarrow> string \<Rightarrow> ggfe_profile \<Rightarrow> bool" where
  "runs_on_device w root p =
     (case gp_runtime p of
        RT_RETROARCH \<Rightarrow> probe_core w root p
      | RT_PICOARCH \<Rightarrow> probe_core w root p \<and> probe_file w root ''picoarch/bin/picoarch''
      | RT_STANDALONE \<Rightarrow> probe_file w root ''bin/plumos-standalone-launch''
      | RT_UNKNOWN \<Rightarrow> False)"

lemma probe_available: "gp_available (probe_profile w root p) \<longleftrightarrow> runs_on_device w root p"
  by (auto simp: probe_profile_def runs_on_device_def Let_def split: ggfe_runtime.split)

lemma probe_same: "runs_on_device w root (probe_profile w root p) \<longleftrightarrow> runs_on_device w root p"
  by (auto simp: probe_profile_def runs_on_device_def probe_core_def Let_def split: ggfe_runtime.splits)

text \<open>A place of the chain is usable when it names an available profile.\<close>

definition usable :: "ggfe_catalog \<Rightarrow> string option \<Rightarrow> bool" where
  "usable cat i = (case ggfe_profile_find cat i of None \<Rightarrow> False | Some p \<Rightarrow> gp_available p)"

lemma usable_find: "usable cat i \<Longrightarrow> \<exists>p. ggfe_profile_find cat i = Some p \<and> p \<in> set (gk_profiles cat) \<and> gp_available p \<and> Some (gp_id p) = i"
  by (auto simp: usable_def ggfe_profile_find_def split: option.splits if_splits dest: lookup_SomeD)

text \<open>
  The order the header of the code documents: a choice for the game beats one for its system, and within each the own file of GGFE
  beats the one of plumOS; then come the default of the catalogue and the preferences. \<open>offers\<close> is what a layer names.
\<close>

datatype layer = Rom_Ggfe | Rom_Plumos | System_Ggfe | System_Plumos | Catalogue_Default | Preference

fun layer_name :: "layer \<Rightarrow> string" where
  "layer_name Rom_Ggfe = ''ggfe rom override''"
| "layer_name Rom_Plumos = ''plumos rom override''"
| "layer_name System_Ggfe = ''ggfe system default''"
| "layer_name System_Plumos = ''plumos system override''"
| "layer_name Catalogue_Default = ''systems.json default''"
| "layer_name Preference = ''ggfe preference''"

definition rom_profile :: "ggfe_override_set \<Rightarrow> string \<Rightarrow> string list" where
  "rom_profile ovs rel = (case lookup po_relative_path (ov_rom ovs) rel of None \<Rightarrow> [] | Some ov \<Rightarrow> [po_launch_profile ov])"

fun offers :: "ggfe_catalog \<Rightarrow> ggfe_config \<Rightarrow> ggfe_override_set \<Rightarrow> ggfe_override_set \<Rightarrow> string \<Rightarrow> layer \<Rightarrow> string list" where
  "offers cat cfg own stock rel Rom_Ggfe = rom_profile own rel"
| "offers cat cfg own stock rel Rom_Plumos = (if gc_use_plumos_overrides cfg then rom_profile stock rel else [])"
| "offers cat cfg own stock rel System_Ggfe = [gc_launch_profile cfg]"
| "offers cat cfg own stock rel System_Plumos =
     (if gc_use_plumos_overrides cfg \<and> ov_has_system stock then [ov_system stock] else [])"
| "offers cat cfg own stock rel Catalogue_Default = [gk_default_profile cat]"
| "offers cat cfg own stock rel Preference = gc_launch_prefer cfg"

definition wishes ::
    "ggfe_catalog \<Rightarrow> ggfe_config \<Rightarrow> ggfe_override_set \<Rightarrow> ggfe_override_set \<Rightarrow> string \<Rightarrow> (layer \<times> string) list" where
  "wishes cat cfg own stock rel =
     concat (map (\<lambda>l. map (Pair l) (offers cat cfg own stock rel l))
       [Rom_Ggfe, Rom_Plumos, System_Ggfe, System_Plumos, Catalogue_Default, Preference])"

text \<open>A named profile can be taken when the catalogue lists it, and the device has it.\<close>

definition runnable :: "os \<Rightarrow> string \<Rightarrow> ggfe_catalog \<Rightarrow> string \<Rightarrow> bool" where
  "runnable w root cat i \<longleftrightarrow> i \<noteq> [] \<and> (case lookup gp_id (gk_profiles cat) i of None \<Rightarrow> False | Some p \<Rightarrow> runs_on_device w root p)"

lemma probe_id: "gp_id (probe_profile w root p) = gp_id p"
  by (simp add: probe_profile_def Let_def split: ggfe_runtime.split)

lemma lookup_probed:
  "lookup gp_id (map (probe_profile w root) l) i = map_option (probe_profile w root) (lookup gp_id l i)"
  by (induction l) (auto simp: lookup_Cons probe_id)

lemma usable_runnable: "usable (ggfe_probe_profiles w root cat) (Some i) \<longleftrightarrow> runnable w root cat i"
  by (auto simp: usable_def runnable_def ggfe_profile_find_def ggfe_probe_profiles_def lookup_probed probe_available split: option.split)

lemma usable_None [simp]: "\<not> usable cat None" "\<not> usable cat (Some [])"
  by (simp_all add: usable_def ggfe_profile_find_def)

text \<open>The list of the code names the wishes in their order; a place that is not there is \<open>None\<close>.\<close>

lemma first_usable_find:
  "first_usable cat chain =
     map_option (\<lambda>(i, src). (the (ggfe_profile_find cat i), src)) (List.find (\<lambda>c. usable cat (fst c)) chain)"
  by (induction cat chain rule: first_usable.induct) (auto simp: usable_def split: option.split)

lemma find_append: "List.find P (xs @ ys) = (case List.find P xs of None \<Rightarrow> List.find P ys | r \<Rightarrow> r)"
  by (induction xs) auto

lemma find_map: "List.find P (map f xs) = map_option f (List.find (\<lambda>x. P (f x)) xs)"
  by (induction xs) auto

definition as_choice :: "layer \<times> string \<Rightarrow> string option \<times> string" where
  "as_choice w = (Some (snd w), layer_name (fst w))"

lemma chain_wishes:
  "List.find (\<lambda>c. usable cat (fst c)) (choice_chain cat cfg own stock rel @ map (\<lambda>i. (Some i, ''ggfe preference'')) (gc_launch_prefer cfg)) =
     map_option as_choice (List.find (\<lambda>w. usable cat (Some (snd w))) (wishes cat cfg own stock rel))"
  by (simp add: choice_chain_def wishes_def rom_profile_def ggfe_override_for_rom_def find_append find_map as_choice_def o_def
      option.map_comp split: option.split)

lemma stored_source: "stored 48 (layer_name l) = layer_name l"
  by (cases l) (simp_all add: copy_string_def)

lemma probed_profiles: "gk_profiles (ggfe_probe_profiles w root cat) = map (probe_profile w root) (gk_profiles cat)"
  by (simp add: ggfe_probe_profiles_def)

lemma find_nth: "List.find P l = map_option ((!) l) (find_first P l)"
  by (induction l) (simp_all add: option.map_comp o_def del: find_first_None)

lemma find_probed:
  "List.find gp_available (map (probe_profile w root) l) = map_option (probe_profile w root) (List.find (runs_on_device w root) l)"
  by (simp add: find_map probe_available)

text \<open>
  C11: the choice follows the documented order and can run. After the probe the choice is the first wish that the catalogue lists
  and the device can run, where the wishes come in the order: the override of GGFE for the game, the one of plumOS for the game, the
  default of GGFE for the system, the override of plumOS for the system, the default of the catalogue, and the preferences; the two of
  plumOS count only when they are asked for. Without such a wish it is the first profile of the catalogue that can run. The reported
  source says which it was, and there is no choice exactly when no profile of the catalogue can run.
\<close>

theorem ggfe_choice_runs:
  assumes "cat = ggfe_probe_profiles w root cat0"
    and "ggfe_choose_profile cat cfg own stock rel = (choice, src)"
  shows "case List.find (\<lambda>(l, i). runnable w root cat0 i) (wishes cat0 cfg own stock rel) of
      Some (l, i) \<Rightarrow> (\<exists>p. lookup gp_id (gk_profiles cat0) i = Some p \<and> choice = Some (probe_profile w root p) \<and> src = layer_name l)
    | None \<Rightarrow>
        (case List.find (runs_on_device w root) (gk_profiles cat0) of
           Some p \<Rightarrow> choice = Some (probe_profile w root p) \<and> src = ''first available''
         | None \<Rightarrow> choice = None \<and> src = ''none available'')"
proof -
  have same: "wishes cat cfg own stock rel = wishes cat0 cfg own stock rel"
    by (simp add: wishes_def assms(1) ggfe_probe_profiles_def)
  have find: "List.find (\<lambda>w. usable cat (Some (snd w))) (wishes cat cfg own stock rel) =
      List.find (\<lambda>(l, i). runnable w root cat0 i) (wishes cat0 cfg own stock rel)"
    unfolding same by (simp add: assms(1) usable_runnable case_prod_beta')
  have parts: "(choice, src) =
      (case first_usable cat (choice_chain cat cfg own stock rel @ map (\<lambda>i. (Some i, ''ggfe preference'')) (gc_launch_prefer cfg)) of
         Some (p, s) \<Rightarrow> (Some p, stored 48 s)
       | None \<Rightarrow> (case List.find gp_available (gk_profiles cat) of
           Some p \<Rightarrow> (Some p, ''first available'') | None \<Rightarrow> (None, ''none available'')))"
    unfolding assms(2) [symmetric] ggfe_choose_profile_def find_nth
    by (auto simp: first_usable_find find_append copy_string_def split: option.split simp del: find_first_None)
  show ?thesis
  proof (cases "List.find (\<lambda>(l, i). runnable w root cat0 i) (wishes cat0 cfg own stock rel)")
    case None
    have "first_usable cat (choice_chain cat cfg own stock rel @ map (\<lambda>i. (Some i, ''ggfe preference'')) (gc_launch_prefer cfg)) = None"
      by (simp only: first_usable_find chain_wishes find None option.map)
    with parts None show ?thesis
      by (cases "List.find (runs_on_device w root) (gk_profiles cat0)") (simp_all add: assms(1) probed_profiles find_probed)
  next
    case (Some c)
    obtain l i where c: "c = (l, i)" by (cases c)
    from Some have "runnable w root cat0 i" by (auto simp: find_Some_iff c)
    then obtain p where p: "lookup gp_id (gk_profiles cat0) i = Some p" "i \<noteq> []"
      by (auto simp: runnable_def split: option.splits)
    then have "ggfe_profile_find cat (Some i) = Some (probe_profile w root p)"
      by (simp add: ggfe_profile_find_def assms(1) probed_profiles lookup_probed)
    then have "first_usable cat (choice_chain cat cfg own stock rel @ map (\<lambda>i. (Some i, ''ggfe preference'')) (gc_launch_prefer cfg)) =
        Some (probe_profile w root p, layer_name l)"
      by (simp only: first_usable_find chain_wishes find Some option.map) (simp add: c as_choice_def)
    with parts Some p(1) show ?thesis by (simp add: c stored_source)
  qed
qed

definition demo_core_os :: os where
  "demo_core_os =
     \<lparr>os_stat = (\<lambda>p. if p = ''/p/cores/b_libretro.so'' then Some (Regular, 1, 2) else None), os_readdir = (\<lambda>_. None),
      os_read = (\<lambda>_. None), os_realpath = (\<lambda>_. None), os_getenv = (\<lambda>_. None), os_access_x = (\<lambda>_. False)\<rparr>"

theorem ggfe_choice_runs_witness:
  "\<exists>p. ggfe_choose_profile (ggfe_probe_profiles demo_core_os ''/p'' demo_catalog) ggfe_config_defaults
       (snd (ggfe_override_set_rom empty_overrides ''GG/x'' ''retroarch:a''))
       (snd (ggfe_override_set_rom empty_overrides ''GG/x'' ''retroarch:b'')) ''GG/x'' = (Some p, ''plumos rom override'') \<and>
     gp_id p = ''retroarch:b''"
proof -
  let ?own = "snd (ggfe_override_set_rom empty_overrides ''GG/x'' ''retroarch:a'')"
    and ?stock = "snd (ggfe_override_set_rom empty_overrides ''GG/x'' ''retroarch:b'')"
  obtain choice src where c: "ggfe_choose_profile (ggfe_probe_profiles demo_core_os ''/p'' demo_catalog) ggfe_config_defaults
      ?own ?stock ''GG/x'' = (choice, src)" by force
  have w: "wishes demo_catalog ggfe_config_defaults ?own ?stock ''GG/x'' =
      (Rom_Ggfe, ''retroarch:a'') # (Rom_Plumos, ''retroarch:b'') # tl (tl (wishes demo_catalog ggfe_config_defaults ?own ?stock ''GG/x''))"
    by (simp add: wishes_def rom_profile_def ggfe_override_set_rom_def empty_overrides_def ggfe_config_defaults_def
        copy_string_def PATH_MAX_def GGFE_MAX_ROM_OVERRIDES_def lookup_Cons)
  have r: "\<not> runnable demo_core_os ''/p'' demo_catalog ''retroarch:a''" "runnable demo_core_os ''/p'' demo_catalog ''retroarch:b''"
    by (simp_all add: runnable_def demo_catalog_def runs_on_device_def probe_core_def fits_simps path_join_def printed_def PATH_MAX_def
        is_regular_file_def demo_core_os_def lookup_Cons)
  have "List.find (\<lambda>(l, i). runnable demo_core_os ''/p'' demo_catalog i)
      (wishes demo_catalog ggfe_config_defaults ?own ?stock ''GG/x'') = Some (Rom_Plumos, ''retroarch:b'')"
    by (subst w) (simp add: r)
  with ggfe_choice_runs [OF refl c] have "\<exists>p. lookup gp_id (gk_profiles demo_catalog) ''retroarch:b'' = Some p \<and>
      choice = Some (probe_profile demo_core_os ''/p'' p) \<and> src = ''plumos rom override''" by simp
  then show ?thesis unfolding c by (auto simp: probe_id demo_catalog_def lookup_Cons)
qed

text \<open>
  A profile that does not fit is refused, and takes the old one with it. When the profile for a game that already has an override
  is longer than its slot, \<open>ggfe_override_set_rom\<close> reports failure but leaves the entry without a profile, so the choice the
  user had made is lost, and the file that is saved afterwards has no row for the game.
\<close>

theorem failed_set_loses_override:
  assumes "lookup po_relative_path (ov_rom ovs) rel = Some old" and "128 \<le> length profile"
  shows "\<exists>ovs'. ggfe_override_set_rom ovs rel profile = (False, ovs') \<and> ggfe_override_for_rom ovs' rel = Some [] \<and>
    ggfe_choose_profile cat cfg ovs' plumos_ov rel = ggfe_choose_profile cat cfg empty_overrides plumos_ov rel"
proof -
  obtain i where i: "find_first (\<lambda>ov. po_relative_path ov = rel) (ov_rom ovs) = Some i"
    using assms(1) by (auto simp: lookup_def)
  let ?ovs' = "ovs\<lparr>ov_rom := (ov_rom ovs)[i := (ov_rom ovs ! i)\<lparr>po_launch_profile := []\<rparr>]\<rparr>"
  have "profile \<noteq> []" using assms(2) by auto
  then have "ggfe_override_set_rom ovs rel profile = (False, ?ovs')"
    using assms(2) unfolding ggfe_override_set_rom_def Let_def i option.case by (simp add: copy_string_def)
  moreover have "ggfe_override_for_rom ?ovs' rel = Some []"
    using find_first_SomeD [OF i] by (simp add: ggfe_override_for_rom_def lookup_update_same [OF i])
  moreover have "ggfe_override_for_rom empty_overrides rel = None"
    by (simp add: ggfe_override_for_rom_def empty_overrides_def)
  ultimately show ?thesis
    by (auto simp: ggfe_choose_profile_def choice_chain_def ggfe_profile_find_def)
qed

theorem failed_set_loses_override_witness:
  "ggfe_override_for_rom (snd (ggfe_override_set_rom demo_ggfe_overrides ''GG/a.gg'' (replicate 128 CHR ''x''))) ''GG/a.gg'' = Some []"
proof -
  have l: "lookup po_relative_path (ov_rom demo_ggfe_overrides) ''GG/a.gg'' = Some (ov_rom demo_ggfe_overrides ! 0)"
    by (simp add: demo_ggfe_overrides_def)
  from failed_set_loses_override [OF l, of "replicate 128 CHR ''x''" demo_catalog ggfe_config_defaults empty_overrides]
  show ?thesis by auto
qed

end
