(* ===== verification/ConfigEdit.thy ===== *)
theory ConfigEdit
  imports TextStore Decimal
begin

text \<open>
  How the controller UI edits one key of a configuration file it does not own
  (\<open>src/frontend/plumos_controller_ui.c\<close>): the value of the key is replaced in the text, or the key is added before the
  closing brace, and every other byte stays; the first edit leaves a backup. The JSON functions of that file are those of
  \<open>plumos_json.h\<close>, copied.
\<close>

section \<open>The end of a value\<close>

function string_end :: "string \<Rightarrow> nat \<Rightarrow> nat \<Rightarrow> bool \<Rightarrow> nat option" where
  "string_end t p e escape =
     (if p < e then
        if escape then string_end t (p + 1) e False
        else if byte_at t p = BSL then string_end t (p + 1) e True
        else if byte_at t p = DQ then Some (p + 1)
        else string_end t (p + 1) e False
      else None)"
  by pat_completeness auto
termination by (relation "measure (\<lambda>(t, p, e, escape). e - p)") auto

declare string_end.simps [simp del]

function skip_scalar :: "string \<Rightarrow> nat \<Rightarrow> nat \<Rightarrow> nat" where
  "skip_scalar t p e = (if p < e \<and> byte_at t p \<notin> {CHR '','', CHR ''}'', CHR '']''} then skip_scalar t (p + 1) e else p)"
  by pat_completeness auto
termination by (relation "measure (\<lambda>(t, p, e). e - p)") auto

declare skip_scalar.simps [simp del]

text \<open>Stepping back over white space, not below \<open>lo\<close>.\<close>

function trim_back :: "string \<Rightarrow> nat \<Rightarrow> nat \<Rightarrow> nat" where
  "trim_back t lo p = (if lo < p \<and> isspace (byte_at t (p - 1)) then trim_back t lo (p - 1) else p)"
  by pat_completeness auto
termination by (relation "measure (\<lambda>(t, lo, p). p)") auto

declare trim_back.simps [simp del]

definition json_value_end :: "string \<Rightarrow> nat \<Rightarrow> nat \<Rightarrow> nat option" where
  "json_value_end t v e =
     (if e \<le> v then None
      else
        let p = skip_ws_range t v e in
        if e \<le> p then None
        else if byte_at t p = DQ then string_end t (p + 1) e False
        else if byte_at t p = CHR ''{'' then map_option (snd \<circ> snd) (json_match_container t p e CHR ''{'' CHR ''}'')
        else if byte_at t p = CHR ''['' then map_option (snd \<circ> snd) (json_match_container t p e CHR ''['' CHR '']'')
        else let q = trim_back t v (skip_scalar t p e) in if v < q then Some q else None)"

section \<open>The literal\<close>

definition fprint_json_char :: "char \<Rightarrow> string" where
  "fprint_json_char c =
     (if c = DQ \<or> c = BSL then [BSL, c]
      else if c = CHR 0x0A then [BSL, CHR ''n'']
      else if c = CHR 0x0D then [BSL, CHR ''r'']
      else if c = CHR 0x09 then [BSL, CHR ''t'']
      else if code_of c < 32 then BSL # ''u00'' @ [hex_digit (code_of c div 16), hex_digit (code_of c mod 16)]
      else [c])"

definition fprint_json_string :: "string \<Rightarrow> string" where
  "fprint_json_string s = DQ # concat (map fprint_json_char s) @ [DQ]"

fun append_json_chars :: "nat \<Rightarrow> string \<Rightarrow> string \<Rightarrow> bool \<times> string" where
  "append_json_chars n out [] = append_string n out [DQ]"
| "append_json_chars n out (c # cs) =
     (if fprint_json_char c = [c] then
        if length out + 2 > n then (False, out) else append_json_chars n (out @ [c]) cs
      else case append_string n out (fprint_json_char c) of
        (False, out') \<Rightarrow> (False, out')
      | (True, out') \<Rightarrow> append_json_chars n out' cs)"

definition append_json_string_literal :: "nat \<Rightarrow> string \<Rightarrow> bool \<times> string" where
  "append_json_string_literal n s =
     (if n = 0 then (False, [])
      else case append_string n [] [DQ] of (False, out) \<Rightarrow> (False, out) | (True, out) \<Rightarrow> append_json_chars n out s)"

section \<open>The new text\<close>

definition replace_value :: "string \<Rightarrow> nat \<Rightarrow> string \<Rightarrow> string option" where
  "replace_value t v literal =
     (let v = skip_ws_range t v (length t) in
      case json_value_end t v (length t) of
        None \<Rightarrow> None
      | Some q \<Rightarrow> if q < v then None else Some (take v t @ literal @ drop q t))"

definition append_key_value :: "string \<Rightarrow> string \<Rightarrow> string \<Rightarrow> string option" where
  "append_key_value t key literal =
     (let ob = skip_ws_range t 0 (length t) in
      if length t \<le> ob \<or> byte_at t ob \<noteq> CHR ''{'' then None
      else
        let at_end = trim_back t ob (length t) in
        if at_end \<le> ob \<or> byte_at t (at_end - 1) \<noteq> CHR ''}'' then None
        else
          let insert_at = at_end - 1;
              content_end = trim_back t (ob + 1) insert_at;
              has_entries = (skip_ws_range t (ob + 1) content_end < content_end)
          in Some (take content_end t @ (if has_entries then '','' @ [NL] else [NL]) @ ''  '' @
               fprint_json_string key @ '': '' @ literal @ [NL] @ ''}'' @ drop (insert_at + 1) t))"

definition edited_json :: "string \<Rightarrow> string \<Rightarrow> string \<Rightarrow> string option" where
  "edited_json t key literal =
     (case json_find_key_value t 0 (length t) key of
        None \<Rightarrow> append_key_value t key literal
      | Some v \<Rightarrow> replace_value t v literal)"

section \<open>Writing it\<close>

text \<open>Open, write, flush, sync, close, rename: the shape of every atomic write of the file, with the states of the disk.\<close>

definition write_buffer_atomic :: "store_env \<Rightarrow> string \<Rightarrow> string \<Rightarrow> string \<Rightarrow> disk \<Rightarrow> bool \<times> disk list" where
  "write_buffer_atomic e path tmp content d =
     (if \<not> st_open e then (False, [])
      else
        let partials = map (\<lambda>k. d(tmp \<mapsto> (take k content, False))) (0 # st_partial e);
            d1 = (if st_flush e then d(tmp \<mapsto> (content, False)) else last partials);
            ok = (st_flush e \<and> st_fsync e);
            d2 = (if ok then d1(tmp \<mapsto> (content, True)) else d1)
        in if \<not> (ok \<and> st_close e) then (False, partials @ [d1, d2, d2(tmp := None)])
           else if \<not> st_rename e then (False, partials @ [d1, d2, d2(tmp := None)])
           else (True, partials @ [d1, d2, (d2(path := d2 tmp))(tmp := None)]))"

definition ensure_system_config_backup :: "store_env \<Rightarrow> string \<Rightarrow> string \<Rightarrow> disk \<Rightarrow> bool \<times> disk list" where
  "ensure_system_config_backup e path content d =
     (let backup = path @ ''.plumos.bak''; tmp = backup @ ''.tmp'' in
      if PATH_MAX \<le> length backup \<or> PATH_MAX \<le> length tmp then (False, [])
      else if d backup \<noteq> None then (True, [])
      else write_buffer_atomic e backup tmp content d)"

text \<open>\<open>eb\<close> answers for the backup, \<open>e\<close> for the file. Reading succeeds when the file is there.\<close>

definition replace_json_key_value_atomic ::
    "store_env \<Rightarrow> store_env \<Rightarrow> string \<Rightarrow> string \<Rightarrow> string \<Rightarrow> disk \<Rightarrow> bool \<times> disk list" where
  "replace_json_key_value_atomic eb e path key literal d =
     (if key = [] \<or> PATH_MAX \<le> length (path @ ''.plumos.tmp'') then (False, [])
      else case d path of
        None \<Rightarrow> (False, [])
      | Some (t, _) \<Rightarrow>
          (case edited_json t key literal of
             None \<Rightarrow> (False, [])
           | Some t' \<Rightarrow>
               (case ensure_system_config_backup eb path t d of
                  (False, ds) \<Rightarrow> (False, ds)
                | (True, ds) \<Rightarrow>
                    (case write_buffer_atomic e path (path @ ''.plumos.tmp'') t' (last (d # ds)) of
                       (ok, ds') \<Rightarrow> (ok, ds @ ds')))))"

definition save_system_config_number ::
    "store_env \<Rightarrow> store_env \<Rightarrow> string \<Rightarrow> string \<Rightarrow> int \<Rightarrow> disk \<Rightarrow> bool \<times> disk list" where
  "save_system_config_number eb e path key v d = replace_json_key_value_atomic eb e path key (show_int v) d"

definition save_system_config_bool ::
    "store_env \<Rightarrow> store_env \<Rightarrow> string \<Rightarrow> string \<Rightarrow> bool \<Rightarrow> disk \<Rightarrow> bool \<times> disk list" where
  "save_system_config_bool eb e path key v d =
     replace_json_key_value_atomic eb e path key (if v then ''true'' else ''false'') d"

definition save_system_config_string ::
    "store_env \<Rightarrow> store_env \<Rightarrow> string \<Rightarrow> string \<Rightarrow> string \<Rightarrow> disk \<Rightarrow> bool \<times> disk list" where
  "save_system_config_string eb e path key v d =
     (case append_json_string_literal 512 v of
        (False, _) \<Rightarrow> (False, [])
      | (True, literal) \<Rightarrow> replace_json_key_value_atomic eb e path key literal d)"

end
