(* ===== verification/JsonValues.thy ===== *)
theory JsonValues
  imports ConfigEdit
begin

text \<open>
  What a value is in the text of a configuration, as a grammar that does not mention how the code looks for its end: a string up
  to its first unescaped quote, an object or an array up to the bracket that closes it, or a word up to the next comma or closing
  bracket. \<open>json_value_end\<close> of \<open>src/frontend/plumos_controller_ui.c\<close> is shown to find the end of such a value.
\<close>

section \<open>The grammar\<close>

inductive quoted :: "string \<Rightarrow> bool" where
  quoted_end: "quoted [DQ]"
| quoted_char: "c \<noteq> DQ \<Longrightarrow> c \<noteq> BSL \<Longrightarrow> quoted r \<Longrightarrow> quoted (c # r)"
| quoted_escape: "quoted r \<Longrightarrow> quoted (BSL # c # r)"

inductive inside :: "char \<Rightarrow> char \<Rightarrow> string \<Rightarrow> bool" for op cl where
  inside_empty: "inside op cl []"
| inside_char: "c \<notin> {DQ, op, cl} \<Longrightarrow> inside op cl r \<Longrightarrow> inside op cl (c # r)"
| inside_string: "quoted q \<Longrightarrow> inside op cl r \<Longrightarrow> inside op cl (DQ # q @ r)"
| inside_nested: "inside op cl a \<Longrightarrow> inside op cl r \<Longrightarrow> inside op cl (op # a @ cl # r)"

inductive_cases quotedE: "quoted s"
inductive_cases inside_ConsE: "inside op cl (c # s)"

definition string_value :: "string \<Rightarrow> bool" where
  "string_value s \<longleftrightarrow> (\<exists>q. s = DQ # q \<and> quoted q)"

definition container_value :: "char \<Rightarrow> char \<Rightarrow> string \<Rightarrow> bool" where
  "container_value op cl s \<longleftrightarrow> (\<exists>a. s = op # a @ [cl] \<and> inside op cl a)"

definition ends_word :: "char \<Rightarrow> bool" where
  "ends_word c \<longleftrightarrow> c \<in> {CHR '','', CHR ''}'', CHR '']''}"

definition word_value :: "string \<Rightarrow> string \<Rightarrow> bool" where
  "word_value s post \<longleftrightarrow> s \<noteq> [] \<and> hd s \<notin> {DQ, CHR ''{'', CHR ''[''} \<and> (\<forall>c \<in> set s. \<not> ends_word c) \<and> \<not> isspace (last s) \<and>
     (\<exists>sp rest. post = sp @ rest \<and> list_all isspace sp \<and> (rest = [] \<or> ends_word (hd rest)))"

definition one_value :: "string \<Rightarrow> string \<Rightarrow> bool" where
  "one_value s post \<longleftrightarrow> string_value s \<or> container_value CHR ''{'' CHR ''}'' s \<or> container_value CHR ''['' CHR '']'' s \<or> word_value s post"

text \<open>Nothing of what follows a string or a word belongs to it: the grammar leaves no choice where it ends.\<close>

lemma quoted_unique: "quoted q \<Longrightarrow> quoted q' \<Longrightarrow> q @ r = q' @ r' \<Longrightarrow> q = q'"
proof (induction arbitrary: q' rule: quoted.induct)
  case quoted_end
  from quoted_end(1) show ?case by (rule quotedE) (use quoted_end(2) in auto)
next
  case (quoted_char c s)
  from quoted_char.prems(1) show ?case by (rule quotedE) (use quoted_char in auto)
next
  case (quoted_escape s c)
  from quoted_escape.prems(1) show ?case by (rule quotedE) (use quoted_escape in auto)
qed

lemma word_length:
  assumes "word_value w post" and "word_value w' post'" and e: "w @ post = w' @ post'"
  shows "length w' \<le> length w"
proof (rule ccontr)
  assume l: "\<not> length w' \<le> length w"
  obtain x where x: "w' = w @ x" "post = x @ post'"
    using e l by (metis append_eq_append_conv_if append_take_drop_id nat_le_linear)
  have "x \<noteq> []" using x(1) l by auto
  obtain sp rest where p: "post = sp @ rest" "list_all isspace sp" "rest = [] \<or> ends_word (hd rest)"
    using assms(1) by (auto simp: word_value_def)
  have in_x: "\<not> ends_word c" if "c \<in> set x" for c using assms(2) x(1) that by (simp add: word_value_def)
  have "\<not> isspace (last x)" using assms(2) x(1) \<open>x \<noteq> []\<close> by (simp add: word_value_def)
  moreover from p(1) x(2) obtain us where "sp = x @ us \<or> sp @ us = x \<and> rest = us @ post'"
    by (metis append_eq_append_conv2)
  moreover have "last x \<in> set x" using \<open>x \<noteq> []\<close> by simp
  ultimately have "sp @ us = x" "rest = us @ post'" "us \<noteq> []" using p(2) by (auto simp: list_all_iff)
  then have "hd us \<in> set x" "ends_word (hd us)" using p(3) by (auto simp: hd_append)
  with in_x show False by blast
qed

section \<open>Where the code finds the end\<close>

definition slice :: "string \<Rightarrow> nat \<Rightarrow> nat \<Rightarrow> string" where
  "slice t p q = take (q - p) (drop p t)"

lemma slice_step: "p < q \<Longrightarrow> p < length t \<Longrightarrow> slice t p q = byte_at t p # slice t (p + 1) q"
  by (simp add: slice_def byte_at_def Cons_nth_drop_Suc [symmetric] take_Cons' diff_Suc)

lemma slice_same [simp]: "slice t p p = []"
  by (simp add: slice_def)

lemma string_end_bounds: "string_end t p e escape = Some q \<Longrightarrow> p < q \<and> q \<le> e"
proof (induction t p e escape rule: string_end.induct)
  case (1 t p e escape)
  note eq = string_end.simps [of t p e escape]
  from "1.prems" eq have pe: "p < e" by (simp split: if_splits)
  from "1.prems" pe consider "q = p + 1" | "string_end t (p + 1) e False = Some q" "escape"
    | "string_end t (p + 1) e True = Some q" "\<not> escape" "byte_at t p = BSL"
    | "string_end t (p + 1) e False = Some q" "\<not> escape" "byte_at t p \<noteq> BSL" "byte_at t p \<noteq> DQ"
    unfolding eq by (simp split: if_splits)
  then show ?case
  proof cases
    case 1
    with pe show ?thesis by simp
  next
    case 2
    with "1.IH"(1) [OF pe] show ?thesis by simp
  next
    case 3
    with "1.IH"(2) [OF pe] show ?thesis by simp
  next
    case 4
    with "1.IH"(3) [OF pe] show ?thesis by simp
  qed
qed

lemma string_end_quoted:
  "string_end t p e escape = Some q \<Longrightarrow> e \<le> length t \<Longrightarrow>
     (if escape then \<exists>c r. slice t p q = c # r \<and> quoted r else quoted (slice t p q))"
proof (induction t p e escape rule: string_end.induct)
  case (1 t p e escape)
  note eq = string_end.simps [of t p e escape]
  from "1.prems"(1) eq have pe: "p < e" by (simp split: if_splits)
  have st: "slice t p q = byte_at t p # slice t (p + 1) q"
    using string_end_bounds [OF "1.prems"(1)] "1.prems"(2) pe by (intro slice_step) simp_all
  show ?case
  proof (cases escape)
    case True
    with "1.IH"(1) [OF pe True] "1.prems" eq pe st show ?thesis by simp
  next
    case no: False
    show ?thesis
    proof (cases "byte_at t p = BSL")
      case True
      with "1.IH"(2) [OF pe no True] "1.prems" eq pe no st show ?thesis by (auto intro: quoted_escape)
    next
      case nb: False
      show ?thesis
      proof (cases "byte_at t p = DQ")
        case True
        with "1.prems" eq pe no nb st show ?thesis by (auto intro: quoted_end)
      next
        case False
        with "1.IH"(3) [OF pe no nb False] "1.prems" eq pe no nb st show ?thesis by (auto intro: quoted_char)
      qed
    qed
  qed
qed

text \<open>A text that closes \<open>k\<close> brackets.\<close>

fun closes :: "char \<Rightarrow> char \<Rightarrow> nat \<Rightarrow> string \<Rightarrow> bool" where
  "closes op cl 0 s = (s = [])"
| "closes op cl (Suc k) s = (\<exists>a r. s = a @ cl # r \<and> inside op cl a \<and> closes op cl k r)"

lemma closesI: "inside op cl a \<Longrightarrow> closes op cl k r \<Longrightarrow> closes op cl (Suc k) (a @ cl # r)"
  by auto

lemma closes_char:
  assumes "closes op cl (Suc k) s" and "c \<notin> {DQ, op, cl}"
  shows "closes op cl (Suc k) (c # s)"
proof -
  from assms(1) obtain a r where "s = a @ cl # r" "inside op cl a" "closes op cl k r" by auto
  with closesI [OF inside_char [OF assms(2)], of a k r] show ?thesis by simp
qed

lemma closes_string:
  assumes "closes op cl (Suc k) s" and "quoted q"
  shows "closes op cl (Suc k) (DQ # q @ s)"
proof -
  from assms(1) obtain a r where "s = a @ cl # r" "inside op cl a" "closes op cl k r" by auto
  with closesI [OF inside_string [OF assms(2)], of op cl a k r] show ?thesis by simp
qed

lemma closes_open:
  assumes "closes op cl (Suc (Suc k)) s"
  shows "closes op cl (Suc k) (op # s)"
proof -
  from assms obtain a b r where "s = a @ cl # b @ cl # r" "inside op cl a" "inside op cl b" "closes op cl k r" by auto
  with closesI [OF inside_nested [of op cl a b], of k r] show ?thesis by simp
qed

lemma closes_close: "closes op cl k s \<Longrightarrow> closes op cl (Suc k) (cl # s)"
  using closesI [OF inside_empty] by fastforce

definition rest_closes :: "char \<Rightarrow> char \<Rightarrow> int \<Rightarrow> bool \<Rightarrow> bool \<Rightarrow> string \<Rightarrow> bool" where
  "rest_closes op cl depth ins esc s \<longleftrightarrow>
     (if esc then \<exists>c q r. s = c # q @ r \<and> quoted q \<and> closes op cl (nat depth) r
      else if ins then \<exists>q r. s = q @ r \<and> quoted q \<and> closes op cl (nat depth) r
      else closes op cl (nat depth) s)"

lemma match_loop_closes:
  assumes "op \<noteq> cl" and "op \<noteq> DQ" and "cl \<noteq> DQ"
  shows "match_loop t e op cl p depth ins esc body = Some (bs, be, after) \<Longrightarrow> e \<le> length t \<Longrightarrow> 0 < depth \<Longrightarrow> (esc \<longrightarrow> ins) \<Longrightarrow>
     rest_closes op cl depth ins esc (slice t p after)"
proof (induction t e op cl p depth ins esc body rule: match_loop.induct)
  case (1 t e op cl p depth ins esc body)
  let ?next = "\<lambda>depth ins esc body. match_loop t e op cl (p + 1) depth ins esc body = Some (bs, be, after)"
  note eq = match_loop.simps [of t e op cl p depth ins esc body]
  have pe: "p < e" using "1.prems" eq by (auto split: if_splits)
  have "p < after" using match_loop_bounds [OF "1.prems"(1)] by simp
  then have st: "slice t p after = byte_at t p # slice t (p + 1) after" using pe "1.prems"(2) by (intro slice_step) simp_all
  obtain k where k: "nat depth = Suc k" using "1.prems"(3) by (cases "nat depth") auto
  have up: "nat (depth + 1) = Suc (Suc k)" using k by simp
  from "1.prems"(1) consider (found) "after = p + 1" "\<not> esc" "byte_at t p = cl" "\<not> ins" "depth = 1"
    | (esc) "?next depth ins False body" "esc"
    | (bsl) "?next depth ins True body" "\<not> esc" "ins" "byte_at t p = BSL"
    | (quote) "?next depth (\<not> ins) False body" "\<not> esc" "byte_at t p = DQ" "\<not> (ins \<and> byte_at t p = BSL)"
    | (opn) "?next (depth + 1) ins False (if depth = 0 then p + 1 else body)" "\<not> esc"
        "\<not> (ins \<and> byte_at t p = BSL)" "byte_at t p \<noteq> DQ" "\<not> ins \<and> byte_at t p = op"
    | (clos) "?next (depth - 1) ins False body" "\<not> esc" "\<not> (ins \<and> byte_at t p = BSL)"
        "byte_at t p \<noteq> DQ" "\<not> (\<not> ins \<and> byte_at t p = op)" "\<not> ins \<and> byte_at t p = cl" "depth - 1 \<noteq> 0"
    | (other) "?next depth ins False body" "\<not> esc" "\<not> (ins \<and> byte_at t p = BSL)"
        "byte_at t p \<noteq> DQ" "\<not> (\<not> ins \<and> byte_at t p = op)" "\<not> (\<not> ins \<and> byte_at t p = cl)"
    using pe unfolding eq by (simp split: if_splits) (metis+)?
  then show ?case
  proof cases
    case found
    then show ?thesis using st by (simp add: rest_closes_def) (metis append_Nil inside_empty)
  next
    case esc
    with "1.IH"(1) [OF pe] "1.prems" st show ?thesis by (auto simp: rest_closes_def)
  next
    case bsl
    with "1.IH"(2) [OF pe] "1.prems" have "rest_closes op cl depth ins True (slice t (p + 1) after)" by simp
    then obtain c q r where "slice t (p + 1) after = c # q @ r" "quoted q" "closes op cl (nat depth) r"
      by (auto simp: rest_closes_def)
    then show ?thesis using bsl st quoted_escape [of q c] by (simp add: rest_closes_def) (metis append_Cons)
  next
    case quote
    with "1.IH"(3) [OF pe] "1.prems" have r: "rest_closes op cl depth (\<not> ins) False (slice t (p + 1) after)" by simp
    show ?thesis
    proof (cases ins)
      case True
      with r quote st show ?thesis by (simp add: rest_closes_def) (metis append_Cons append_Nil quoted_end)
    next
      case False
      with r quote st show ?thesis using closes_string [of op cl k] by (auto simp: rest_closes_def k simp del: closes.simps)
    qed
  next
    case opn
    with "1.IH"(4) [OF pe] "1.prems" have "closes op cl (Suc (Suc k)) (slice t (p + 1) after)"
      by (simp add: rest_closes_def up del: closes.simps)
    with closes_open opn st show ?thesis by (simp add: rest_closes_def k del: closes.simps)
  next
    case clos
    with "1.IH"(5) [OF pe] "1.prems" have "closes op cl k (slice t (p + 1) after)"
      using k by (simp add: rest_closes_def nat_diff_distrib del: closes.simps)
    with closes_close clos st show ?thesis by (simp add: rest_closes_def k del: closes.simps)
  next
    case other
    with "1.IH"(6) [OF pe] "1.prems" have r: "rest_closes op cl depth ins False (slice t (p + 1) after)" by simp
    show ?thesis
    proof (cases ins)
      case True
      with r obtain q r' where "slice t (p + 1) after = q @ r'" "quoted q" "closes op cl (nat depth) r'"
        by (auto simp: rest_closes_def)
      then show ?thesis using other True st quoted_char [of "byte_at t p" q]
        by (simp add: rest_closes_def) (metis append_Cons)
    next
      case False
      with r have "closes op cl (Suc k) (slice t (p + 1) after)" by (simp add: rest_closes_def k del: closes.simps)
      with closes_char [of op cl k _ "byte_at t p"] other False st show ?thesis
        by (simp add: rest_closes_def k del: closes.simps)
    qed
  qed
qed

lemma match_container_value:
  assumes m: "json_match_container t p e op cl = Some (bs, be, after)" and e: "e \<le> length t"
    and c: "op \<noteq> cl" "op \<noteq> DQ" "cl \<noteq> DQ"
  shows "container_value op cl (slice t p after)"
proof -
  note b = json_match_container_bounds [OF m]
  have pe: "p < e" using b by simp
  then have "match_loop t e op cl (p + 1) 1 False False (p + 1) = Some (bs, be, after)"
    using m b c by (simp add: json_match_container_def match_loop.simps [of t e op cl p])
  from match_loop_closes [OF c this e] have "closes op cl 1 (slice t (p + 1) after)" by (simp add: rest_closes_def)
  moreover have "slice t p after = op # slice t (p + 1) after" using b e pe by (subst slice_step) simp_all
  ultimately show ?thesis by (auto simp: container_value_def)
qed

lemma skip_scalar_spec:
  "(p \<le> e \<longrightarrow> p \<le> skip_scalar t p e \<and> skip_scalar t p e \<le> e) \<and>
     (\<forall>i. p \<le> i \<and> i < skip_scalar t p e \<longrightarrow> \<not> ends_word (byte_at t i)) \<and>
     (skip_scalar t p e < e \<longrightarrow> ends_word (byte_at t (skip_scalar t p e)))"
proof (induction t p e rule: skip_scalar.induct)
  case (1 t p e)
  show ?case
  proof (cases "p < e \<and> byte_at t p \<notin> {CHR '','', CHR ''}'', CHR '']''}")
    case True
    then have eq: "skip_scalar t p e = skip_scalar t (p + 1) e" by (subst skip_scalar.simps) simp
    have "\<not> ends_word (byte_at t p)" using True by (simp add: ends_word_def)
    then have "\<not> ends_word (byte_at t i)" if "p \<le> i" "i < skip_scalar t (p + 1) e" for i
      using "1.IH" [OF True] that by (cases "i = p") simp_all
    then show ?thesis unfolding eq using "1.IH" [OF True] True by simp
  next
    case False
    then have "skip_scalar t p e = p" by (subst skip_scalar.simps) auto
    then show ?thesis using False by (auto simp: ends_word_def)
  qed
qed

lemma trim_back_bounds: "trim_back t lo p \<le> p \<and> (lo \<le> p \<longrightarrow> lo \<le> trim_back t lo p)"
  by (induction t lo p rule: trim_back.induct) (subst (1 2) trim_back.simps, auto)

lemma trim_back_spaces: "trim_back t lo p \<le> i \<Longrightarrow> i < p \<Longrightarrow> isspace (byte_at t i)"
proof (induction t lo p rule: trim_back.induct)
  case (1 t lo p)
  show ?case
  proof (cases "lo < p \<and> isspace (byte_at t (p - 1))")
    case True
    then have "trim_back t lo p = trim_back t lo (p - 1)" by (subst trim_back.simps) simp
    with "1.IH" [OF True] "1.prems" True show ?thesis by (cases "i = p - 1") auto
  next
    case False
    then have "trim_back t lo p = p" by (subst trim_back.simps) auto
    with "1.prems" show ?thesis by simp
  qed
qed

lemma trim_back_stop: "lo < trim_back t lo p \<Longrightarrow> \<not> isspace (byte_at t (trim_back t lo p - 1))"
proof (induction t lo p rule: trim_back.induct)
  case (1 t lo p)
  show ?case
  proof (cases "lo < p \<and> isspace (byte_at t (p - 1))")
    case True
    then have "trim_back t lo p = trim_back t lo (p - 1)" by (subst trim_back.simps) simp
    with "1.IH" [OF True] "1.prems" show ?thesis by simp
  next
    case False
    then have "trim_back t lo p = p" by (subst trim_back.simps) auto
    with "1.prems" False show ?thesis by simp
  qed
qed

lemma slice_nth: "i < q - p \<Longrightarrow> q \<le> length t \<Longrightarrow> slice t p q ! i = byte_at t (p + i)"
  by (auto simp: slice_def byte_at_def)

lemma slice_length: "q \<le> length t \<Longrightarrow> length (slice t p q) = q - p"
  by (simp add: slice_def)

lemma slice_all: "q \<le> length t \<Longrightarrow> (\<forall>c \<in> set (slice t p q). P c) \<longleftrightarrow> (\<forall>i. p \<le> i \<and> i < q \<longrightarrow> P (byte_at t i))"
proof -
  assume q: "q \<le> length t"
  have "(\<forall>c \<in> set (slice t p q). P c) \<longleftrightarrow> (\<forall>i < q - p. P (byte_at t (p + i)))"
    using q by (simp add: all_set_conv_all_nth slice_length slice_nth)
  also have "\<dots> \<longleftrightarrow> (\<forall>i. p \<le> i \<and> i < q \<longrightarrow> P (byte_at t i))"
  proof (intro iffI allI impI)
    fix i assume a: "\<forall>i < q - p. P (byte_at t (p + i))" and i: "p \<le> i \<and> i < q"
    then have "i - p < q - p" by (simp add: diff_less_mono)
    with a have "P (byte_at t (p + (i - p)))" by blast
    then show "P (byte_at t i)" using i by simp
  qed auto
  finally show "(\<forall>c \<in> set (slice t p q). P c) \<longleftrightarrow> (\<forall>i. p \<le> i \<and> i < q \<longrightarrow> P (byte_at t i))" .
qed

lemma word_at:
  assumes p: "v < length t" "byte_at t v \<notin> {DQ, CHR ''{'', CHR ''[''}" and q: "q = trim_back t v (skip_scalar t v (length t))" "v < q"
  shows "word_value (slice t v q) (drop q t)"
proof -
  define s where "s = skip_scalar t v (length t)"
  have s: "s \<le> length t" "v \<le> s" "\<And>i. v \<le> i \<Longrightarrow> i < s \<Longrightarrow> \<not> ends_word (byte_at t i)" "s < length t \<Longrightarrow> ends_word (byte_at t s)"
    using skip_scalar_spec [of v "length t" t] p(1) by (simp_all add: s_def)
  have qs: "q \<le> s" using trim_back_bounds [of t v s] by (simp add: q(1) s_def)
  have l: "length (slice t v q) = q - v" using qs s(1) by (simp add: slice_length)
  then have ne: "slice t v q \<noteq> []" using q(2) by auto
  have "hd (slice t v q) = byte_at t v" using slice_step [OF q(2) p(1)] by simp
  moreover have "last (slice t v q) = byte_at t (q - 1)" using l ne q(2) qs s(1) by (simp add: last_conv_nth slice_nth)
  moreover have "\<not> isspace (byte_at t (q - 1))" using trim_back_stop [of v t s] q by (simp add: s_def)
  moreover have "\<forall>c \<in> set (slice t v q). \<not> ends_word c" using s(1,3) qs by (subst slice_all) auto
  moreover have "drop q t = slice t q s @ drop s t"
    using qs s(1) by (metis append_take_drop_id drop_drop le_add_diff_inverse2 slice_def)
  moreover have "list_all isspace (slice t q s)"
    unfolding list_all_iff using s(1) trim_back_spaces [of t v s] by (subst slice_all) (auto simp: q(1) s_def)
  moreover have "drop s t = [] \<or> ends_word (hd (drop s t))"
    using s(4) by (cases "s < length t") (simp_all add: hd_drop_conv_nth byte_at_def)
  ultimately have "hd (slice t v q) = byte_at t v" "\<not> isspace (last (slice t v q))" "\<forall>c \<in> set (slice t v q). \<not> ends_word c"
    "\<exists>sp rest. drop q t = sp @ rest \<and> list_all isspace sp \<and> (rest = [] \<or> ends_word (hd rest))" by metis+
  then show ?thesis using ne p(2) unfolding word_value_def by simp
qed

lemma value_end_value:
  assumes "json_value_end t v (length t) = Some q" and s: "skip_ws_range t v (length t) = v"
  shows "one_value (slice t v q) (drop q t)"
proof -
  have v: "v < length t" using assms by (simp add: json_value_end_def Let_def split: if_splits)
  note cases = assms [unfolded json_value_end_def Let_def]
  show ?thesis
  proof (cases "byte_at t v = DQ")
    case True
    with assms v have e: "string_end t (v + 1) (length t) False = Some q" by (simp add: json_value_end_def)
    have "slice t v q = DQ # slice t (v + 1) q"
      using string_end_bounds [OF e] v True by (subst slice_step) simp_all
    with string_end_quoted [OF e] show ?thesis by (simp add: one_value_def string_value_def)
  next
    case nd: False
    show ?thesis
    proof (cases "byte_at t v \<in> {CHR ''{'', CHR ''[''}")
      case True
      with assms v nd show ?thesis
        by (auto simp: json_value_end_def one_value_def intro: match_container_value)
    next
      case False
      with assms v nd have "q = trim_back t v (skip_scalar t v (length t))" "v < q"
        by (simp_all add: json_value_end_def Let_def split: if_splits)
      with word_at [OF v _ this] False nd show ?thesis by (simp add: one_value_def)
    qed
  qed
qed

end
