(* ===== verification/JsonSearch.thy ===== *)
theory JsonSearch
  imports JsonObjects
begin

text \<open>
  What the key search of the JSON reader finds: the first occurrence of the quoted key that a colon follows, stated by position, and
  what of that depends on which part of the text.
\<close>

section \<open>What the key search finds\<close>

definition hit :: "string \<Rightarrow> nat \<Rightarrow> string \<Rightarrow> nat \<Rightarrow> bool" where
  "hit t e pat m \<longleftrightarrow> prefix pat (drop m t) \<and>
     (let q = skip_ws_range t (m + length pat) e in q < e \<and> byte_at t q = CHR '':'')"

definition hit_value :: "string \<Rightarrow> nat \<Rightarrow> string \<Rightarrow> nat \<Rightarrow> nat" where
  "hit_value t e pat m = skip_ws_range t (skip_ws_range t (m + length pat) e + 1) e"

lemma strstr_SomeD: "strstr s pat = Some d \<Longrightarrow> prefix pat (drop d s) \<and> (\<forall>k < d. \<not> prefix pat (drop k s))"
proof (induction s arbitrary: d)
  case Nil
  then show ?case by (auto split: if_splits)
next
  case (Cons c cs)
  show ?case
  proof (cases "prefix pat (c # cs)")
    case True
    with Cons.prems show ?thesis by simp
  next
    case False
    with Cons.prems obtain d' where d: "d = Suc d'" "strstr cs pat = Some d'" by (auto split: if_splits)
    show ?thesis
    proof (intro conjI allI impI)
      from Cons.IH [OF d(2)] d show "prefix pat (drop d (c # cs))" by simp
    next
      fix k assume "k < d"
      with Cons.IH [OF d(2)] d False show "\<not> prefix pat (drop k (c # cs))" by (cases k) auto
    qed
  qed
qed

lemma strstr_NoneD: "NUL \<notin> set s \<Longrightarrow> strstr s pat = None \<Longrightarrow> \<not> prefix pat (drop k s)"
proof (induction s arbitrary: k)
  case Nil
  then show ?case by (auto split: if_splits)
next
  case (Cons c cs)
  then show ?case by (cases k) (auto split: if_splits)
qed

lemma find_key_SomeD:
  assumes "find_key_loop t p e pat = Some v"
  obtains m where "p \<le> m" "m < e" "hit t e pat m" "v = hit_value t e pat m" "\<And>k. p \<le> k \<Longrightarrow> k < m \<Longrightarrow> \<not> hit t e pat k"
  using assms
proof (induction t p e pat arbitrary: thesis rule: find_key_loop.induct)
  case (1 t p e pat)
  from "1.prems"(2) obtain d where d: "p < e" "strstr (drop p t) pat = Some d" "p + d < e"
    by (subst (asm) find_key_loop.simps) (auto split: if_splits option.splits)
  define q where "q = skip_ws_range t (p + d + length pat) e"
  have pre: "prefix pat (drop (p + d) t)" using strstr_SomeD [OF d(2)] by (simp add: add.commute)
  have none: "\<not> hit t e pat k" if "p \<le> k" "k < p + d" for k
  proof -
    from that have "k - p < d" and "drop (k - p) (drop p t) = drop k t" by simp_all
    with strstr_SomeD [OF d(2)] show ?thesis unfolding hit_def by metis
  qed
  show ?case
  proof (cases "q < e \<and> byte_at t q = CHR '':''")
    case True
    with "1.prems"(2) d have "v = skip_ws_range t (q + 1) e"
      by (subst (asm) find_key_loop.simps) (simp add: q_def Let_def)
    with True d pre none show ?thesis
      by (intro "1.prems"(1) [of "p + d"]) (auto simp: hit_def hit_value_def q_def Let_def)
  next
    case False
    with "1.prems"(2) d have "find_key_loop t (p + d + 1) e pat = Some v"
      by (subst (asm) find_key_loop.simps) (auto simp: q_def Let_def split: if_splits)
    from "1.IH" [OF d(1,2,3) q_def False _ this] obtain m where m: "p + d + 1 \<le> m" "m < e" "hit t e pat m"
      "v = hit_value t e pat m" "\<And>k. p + d + 1 \<le> k \<Longrightarrow> k < m \<Longrightarrow> \<not> hit t e pat k" by blast
    have "\<not> hit t e pat (p + d)" using False by (auto simp: hit_def q_def Let_def)
    with m none have "\<not> hit t e pat k" if "p \<le> k" "k < m" for k
      using that by (cases "k < p + d"; cases "k = p + d") auto
    with m show ?thesis by (intro "1.prems"(1) [of m]) auto
  qed
qed

lemma find_key_first:
  assumes "NUL \<notin> set t" and "p \<le> m" and "m < e" and "hit t e pat m" and "\<And>k. p \<le> k \<Longrightarrow> k < m \<Longrightarrow> \<not> hit t e pat k"
  shows "find_key_loop t p e pat = Some (hit_value t e pat m)"
  using assms
proof (induction t p e pat rule: find_key_loop.induct)
  case (1 t p e pat)
  have pe: "p < e" using "1.prems" by simp
  have pm: "prefix pat (drop (m - p) (drop p t))" using "1.prems" by (simp add: hit_def)
  have nul: "NUL \<notin> set (drop p t)" using "1.prems"(1) by (auto dest: in_set_dropD)
  then obtain d where d: "strstr (drop p t) pat = Some d" using strstr_NoneD [OF nul] pm by (cases "strstr (drop p t) pat") auto
  have dm: "p + d \<le> m"
  proof (rule ccontr)
    assume "\<not> p + d \<le> m"
    then have "m - p < d" using "1.prems" by simp
    with strstr_SomeD [OF d] pm show False by blast
  qed
  then have pd: "p + d < e" using "1.prems" by simp
  define q where "q = skip_ws_range t (p + d + length pat) e"
  have pre: "prefix pat (drop (p + d) t)" using strstr_SomeD [OF d] by (simp add: add.commute)
  show ?case
  proof (cases "q < e \<and> byte_at t q = CHR '':''")
    case True
    with pre have "hit t e pat (p + d)" by (simp add: hit_def q_def Let_def)
    with "1.prems"(5) [of "p + d"] dm have "p + d = m" by fastforce
    then show ?thesis using True d pe pd
      by (subst find_key_loop.simps) (simp add: hit_value_def q_def Let_def)
  next
    case False
    then have "p + d \<noteq> m" using "1.prems"(4) by (auto simp: hit_def q_def Let_def)
    with dm have "p + d + 1 \<le> m" by simp
    with "1.IH" [OF pe d pd q_def False] "1.prems" have "find_key_loop t (p + d + 1) e pat = Some (hit_value t e pat m)" by simp
    then show ?thesis using False d pe pd by (subst find_key_loop.simps) (auto simp: q_def Let_def)
  qed
qed

lemma find_key_NoneD:
  assumes "NUL \<notin> set t" and "find_key_loop t p e pat = None" and "p \<le> m" and "m < e"
  shows "\<not> hit t e pat m"
proof
  assume h: "hit t e pat m"
  define k where "k = (LEAST k. p \<le> k \<and> hit t e pat k)"
  have k: "p \<le> k \<and> hit t e pat k" unfolding k_def by (rule LeastI [of _ m]) (use assms h in simp)
  have "k \<le> m" unfolding k_def by (rule Least_le) (use assms h in simp)
  moreover have "\<not> hit t e pat j" if "p \<le> j" "j < k" for j
    using that not_less_Least [of j "\<lambda>k. p \<le> k \<and> hit t e pat k"] by (auto simp: k_def)
  ultimately have "find_key_loop t p e pat = Some (hit_value t e pat k)"
    using k assms by (intro find_key_first) auto
  with assms show False by simp
qed

section \<open>White space\<close>

lemma skip_ws_unfold: "p < e \<Longrightarrow> isspace (byte_at t p) \<Longrightarrow> skip_ws_range t p e = skip_ws_range t (p + 1) e"
  by (subst skip_ws_range.simps) simp

lemma skip_ws_halt: "\<not> isspace (byte_at t p) \<Longrightarrow> skip_ws_range t p e = p"
  by (subst skip_ws_range.simps) simp

lemma skip_ws_span:
  "p \<le> n \<Longrightarrow> n \<le> e \<Longrightarrow> (\<And>i. p \<le> i \<Longrightarrow> i < n \<Longrightarrow> isspace (byte_at t i)) \<Longrightarrow> skip_ws_range t p e = skip_ws_range t n e"
proof (induction "n - p" arbitrary: p)
  case 0
  then show ?case by simp
next
  case (Suc j)
  then have "skip_ws_range t p e = skip_ws_range t (p + 1) e" by (intro skip_ws_unfold) auto
  also have "\<dots> = skip_ws_range t n e" using Suc.hyps Suc.prems by (intro Suc.hyps(1)) auto
  finally show ?case .
qed

lemma skip_ws_spaces: "p \<le> i \<Longrightarrow> i < skip_ws_range t p e \<Longrightarrow> isspace (byte_at t i)"
proof (induction t p e rule: skip_ws_range.induct)
  case (1 t p e)
  show ?case
  proof (cases "p < e \<and> isspace (byte_at t p)")
    case True
    then have "skip_ws_range t p e = skip_ws_range t (p + 1) e" by (subst skip_ws_range.simps) simp
    with "1.IH" [OF True] "1.prems" True show ?thesis by (cases "i = p") auto
  next
    case False
    then have "skip_ws_range t p e = p" by (subst skip_ws_range.simps) auto
    with "1.prems" show ?thesis by simp
  qed
qed

lemma skip_ws_at:
  assumes "p \<le> n" and "n < e" and "\<And>i. p \<le> i \<Longrightarrow> i < n \<Longrightarrow> isspace (byte_at t i)" and "\<not> isspace (byte_at t n)"
  shows "skip_ws_range t p e = n"
  using skip_ws_span [of p n e t] skip_ws_halt [of t n e] assms by simp

text \<open>Texts that agree up to a place.\<close>

definition agree :: "string \<Rightarrow> string \<Rightarrow> nat \<Rightarrow> bool" where
  "agree t t' n \<longleftrightarrow> take n t = take n t' \<and> n \<le> length t \<and> n \<le> length t'"

lemma agree_byte: "agree t t' n \<Longrightarrow> i < n \<Longrightarrow> byte_at t' i = byte_at t i"
  unfolding agree_def byte_at_def by (metis nth_take order_less_le_trans)

lemma agree_prefix:
  assumes "agree t t' n" and "m + length pat \<le> n"
  shows "prefix pat (drop m t') \<longleftrightarrow> prefix pat (drop m t)"
proof -
  have "take (length pat) (drop m t') = take (length pat) (drop m t)"
  proof -
    have "take (length pat) (drop m s) = take (length pat) (drop m (take n s))" for s :: string
      using assms(2) by (simp add: drop_take min_def)
    with assms(1) show ?thesis unfolding agree_def by metis
  qed
  then show ?thesis by (metis prefix_def append_eq_conv_conj take_is_prefix)
qed


lemma prefix_byte: "prefix pat (drop k t) \<Longrightarrow> i < length pat \<Longrightarrow> byte_at t (k + i) = pat ! i"
proof -
  assume "prefix pat (drop k t)" and i: "i < length pat"
  then obtain r where r: "drop k t = pat @ r" by (auto simp: prefix_def)
  then have "drop (k + i) t = drop i pat @ r" using i by (metis add.commute append_eq_conv_conj drop_append drop_drop diff_is_0_eq less_imp_le drop0)
  also have "\<dots> = pat ! i # (drop (Suc i) pat @ r)" using i by (simp flip: Cons_nth_drop_Suc)
  finally show "byte_at t (k + i) = pat ! i" by (rule byte_at_drop)
qed

section \<open>The colon after a key\<close>

definition colon_at :: "string \<Rightarrow> nat \<Rightarrow> nat \<Rightarrow> nat \<Rightarrow> bool" where
  "colon_at t e p c \<longleftrightarrow> p \<le> c \<and> c < e \<and> (\<forall>i. p \<le> i \<and> i < c \<longrightarrow> isspace (byte_at t i)) \<and> byte_at t c = CHR '':''"

lemma colon_skip: "colon_at t e p c \<Longrightarrow> skip_ws_range t p e = c"
  by (rule skip_ws_at) (auto simp: colon_at_def isspace_def)

lemma hitI:
  assumes "prefix pat (drop m t)" and "colon_at t e (m + length pat) c"
  shows "hit t e pat m" and "hit_value t e pat m = skip_ws_range t (c + 1) e"
  using assms colon_skip [OF assms(2)] by (simp_all add: hit_def hit_value_def colon_at_def)

lemma hitE:
  assumes "hit t e pat m"
  obtains c where "prefix pat (drop m t)" "colon_at t e (m + length pat) c" "hit_value t e pat m = skip_ws_range t (c + 1) e"
proof -
  define c where "c = skip_ws_range t (m + length pat) e"
  from assms have "prefix pat (drop m t)" and "colon_at t e (m + length pat) c"
    using skip_ws_spaces [of "m + length pat" _ t e] skip_ws_range_ge [of "m + length pat" t e]
    by (auto simp: hit_def colon_at_def c_def Let_def)
  with that hitI(2) show thesis by blast
qed

lemma agree_colon:
  assumes "agree t t' n" and "colon_at t e p c" and "c < n" and "n \<le> e'"
  shows "colon_at t' e' p c"
  using assms agree_byte [OF assms(1)] by (auto simp: colon_at_def)

lemma agree_sym: "agree t t' n \<Longrightarrow> agree t' t n"
  by (simp add: agree_def)

lemma agree_app: "agree (pre @ a) (pre @ b) (length pre)"
  by (simp add: agree_def)

end
