(* ===== verification/ConfigEditProofs.thy ===== *)
theory ConfigEditProofs
  imports JsonValues JsonSearch
begin

text \<open>
  A setting that is saved is the one a reader finds afterwards, every byte around it stays, and a crash leaves the old file or
  the new one beside a backup of the first.
\<close>

section \<open>Replacing a value\<close>

lemma replaced_find:
  assumes nul: "NUL \<notin> set t'" and f: "find_key_loop t 0 (length t) pat = Some v" and a: "agree t t' v"
    and v: "v < length t'" "\<not> isspace (byte_at t' v)"
  shows "find_key_loop t' 0 (length t') pat = Some v"
proof -
  from f obtain m where m: "m < length t" "hit t (length t) pat m" "v = hit_value t (length t) pat m"
    "\<And>k. k < m \<Longrightarrow> \<not> hit t (length t) pat k" by (rule find_key_SomeD) auto
  from m(2) obtain c where c: "prefix pat (drop m t)" "colon_at t (length t) (m + length pat) c"
    "v = skip_ws_range t (c + 1) (length t)" using m(3) by (metis hitE)
  have cv: "m + length pat \<le> c" "c < v" "v \<le> length t"
    using c(2,3) a skip_ws_range_ge [of "c + 1" t "length t"] by (simp_all add: agree_def colon_at_def)
  have pre: "prefix pat (drop k t') \<longleftrightarrow> prefix pat (drop k t)" if "k \<le> m" for k
    using agree_prefix [OF a] that cv by simp
  have c': "colon_at t' (length t') (m + length pat) c" using agree_colon [OF a c(2)] cv v by simp
  have h': "hit t' (length t') pat m" "hit_value t' (length t') pat m = skip_ws_range t' (c + 1) (length t')"
    using hitI [OF _ c'] pre c(1) by simp_all
  have val: "skip_ws_range t' (c + 1) (length t') = v"
    using skip_ws_spaces [of "c + 1" _ t "length t"] c(3) agree_byte [OF a] cv v by (intro skip_ws_at) auto
  have none: "\<not> hit t' (length t') pat k" if k: "k < m" for k
  proof
    assume "hit t' (length t') pat k"
    then obtain d where d: "prefix pat (drop k t')" "colon_at t' (length t') (k + length pat) d" by (rule hitE)
    have "d \<le> c"
    proof (rule ccontr)
      assume "\<not> d \<le> c"
      with d(2) k cv have "isspace (byte_at t' c)" by (auto simp: colon_at_def)
      with c' show False by (simp add: colon_at_def isspace_def)
    qed
    with agree_colon [OF agree_sym [OF a] d(2)] cv have "colon_at t (length t) (k + length pat) d" by simp
    with pre k d(1) have "hit t (length t) pat k" by (intro hitI) auto
    with m(4) k show False by simp
  qed
  have "m < length t'" using cv v by simp
  with find_key_first [OF nul, of 0 m] h' none val show ?thesis by simp
qed

lemma replace_value_shape:
  assumes "replace_value t v literal = Some t'" and "json_find_key_value t 0 (length t) key = Some v"
  obtains old post where "t = take v t @ old @ post" "t' = take v t @ literal @ post" "v \<le> length t" "one_value old post"
proof -
  have v: "v \<le> length t" using json_find_key_value_bounds [OF assms(2)] by simp
  have "\<exists>u. v = skip_ws_range t u (length t)"
    using assms(2) unfolding json_find_key_value_def by (metis find_key_SomeD hit_value_def)
  then have s: "skip_ws_range t v (length t) = v"
    by (metis skip_ws_range_stop skip_ws_halt skip_ws_range.simps v le_neq_implies_less)
  with assms(1) obtain q where q: "v \<le> q" "t' = take v t @ literal @ drop q t" "json_value_end t v (length t) = Some q"
    by (auto simp: replace_value_def Let_def not_less split: option.splits if_splits)
  have "t = take v t @ slice t v q @ drop q t"
    using q(1) unfolding slice_def by (metis append_assoc append_take_drop_id le_add_diff_inverse take_add)
  with q v that value_end_value [OF q(3) s] show thesis by blast
qed

section \<open>Adding a key\<close>

lemma added_find:
  assumes nul: "NUL \<notin> set t" "NUL \<notin> set t'" and f: "find_key_loop t 0 (length t) pat = None"
    and pat: "pat = DQ # key @ [DQ]" "simple_key key"
    and t': "t' = take n t @ sep @ pat @ '':'' @ '' '' @ rest" and n: "n \<le> length t"
    and sep: "sep = '','' @ [NL] @ ''  '' \<or> sep = [NL] @ ''  ''"
    and rest: "rest \<noteq> []" "\<not> isspace (hd rest)"
  shows "find_key_loop t' 0 (length t') pat = Some (n + length sep + length pat + 2)"
proof -
  let ?K = "n + length sep"
  have at: "drop ?K t' = pat @ '':'' @ '' '' @ rest" using n by (simp add: t')
  have a: "agree t t' n" using n by (simp add: t' agree_def)
  have b: "byte_at t' (?K + length pat + i) = ('':'' @ '' '' @ rest) ! i" if "i < 2 + length rest" for i
  proof -
    have "drop (?K + length pat) t' = '':'' @ '' '' @ rest" using at by (metis add.commute append_eq_conv_conj drop_drop)
    then show ?thesis using that n by (simp add: byte_at_def t' nth_append)
  qed
  have sepb: "byte_at t' (n + i) = sep ! i" if "i < length sep" for i
    using that n by (simp add: byte_at_def t' nth_append)
  have Kb: "byte_at t' ?K = DQ" using n by (simp add: byte_at_def t' nth_append pat)
  have c: "colon_at t' (length t') (?K + length pat) (?K + length pat)"
  proof -
    have "?K + length pat < length t'" using n by (simp add: t')
    moreover have "byte_at t' (?K + length pat) = CHR '':''" using b [of 0] by simp
    ultimately show ?thesis unfolding colon_at_def by auto
  qed
  have h: "hit t' (length t') pat ?K"
    "hit_value t' (length t') pat ?K = skip_ws_range t' (?K + length pat + 1) (length t')"
    using hitI [OF _ c] at by simp_all
  have v: "skip_ws_range t' (?K + length pat + 1) (length t') = ?K + length pat + 2"
  proof (rule skip_ws_at)
    show "isspace (byte_at t' i)" if "?K + length pat + 1 \<le> i" "i < ?K + length pat + 2" for i
    proof -
      from that have "i = ?K + length pat + 1" by simp
      then show ?thesis using b [of 1] by (simp add: isspace_def)
    qed
    show "\<not> isspace (byte_at t' (?K + length pat + 2))"
      using b [of 2] rest by (cases rest) auto
  qed (use n rest in \<open>auto simp: t' neq_Nil_conv\<close>)
  have inner: "pat ! i \<noteq> CHR '','' \<and> pat ! i \<noteq> NL \<and> \<not> isspace (pat ! i)" if "i < length pat" for i
  proof -
    have "list_all (\<lambda>c. c \<noteq> CHR '','' \<and> c \<noteq> NL \<and> \<not> isspace c) key"
      using simple_char(6,8) [OF simple_key_chars [OF pat(2)]] by (auto simp: list_all_iff isspace_def)
    then have "list_all (\<lambda>c. c \<noteq> CHR '','' \<and> c \<noteq> NL \<and> \<not> isspace c) pat" by (simp add: pat(1) isspace_def)
    with that show ?thesis by (simp add: list_all_length)
  qed
  have none: "\<not> hit t' (length t') pat k" if k: "k < ?K" for k
  proof
    assume "hit t' (length t') pat k"
    then obtain d where d: "prefix pat (drop k t')" "colon_at t' (length t') (k + length pat) d" by (rule hitE)
    have pk: "byte_at t' (k + i) = pat ! i" if "i < length pat" for i
      by (rule prefix_byte [OF d(1) that])
    have kn: "k + length pat \<le> n"
    proof (rule ccontr)
      assume "\<not> k + length pat \<le> n"
      show False
      proof (cases "k < n")
        case True
        with pk [of "n - k"] sepb [of 0] inner [of "n - k"] sep \<open>\<not> k + length pat \<le> n\<close> show False by auto
      next
        case False
        then have "k - n < length sep" using k by simp
        then have "sep ! (k - n) \<noteq> DQ" using sep by (auto simp: nth_Cons split: nat.splits)
        with pk [of 0] sepb [of "k - n"] False \<open>k - n < length sep\<close> show False by (simp add: pat)
      qed
    qed
    have "d < n"
    proof (rule ccontr)
      assume dn: "\<not> d < n"
      have sp: "isspace (byte_at t' i)" if "k + length pat \<le> i" "i < d" for i using d(2) that by (simp add: colon_at_def)
      have co: "byte_at t' d = CHR '':''" using d(2) by (simp add: colon_at_def)
      have "d \<le> ?K"
      proof (rule ccontr)
        assume "\<not> d \<le> ?K"
        with sp [of ?K] kn Kb show False by (simp add: isspace_def)
      qed
      then have "d = ?K \<or> d - n < length sep" using dn by auto
      then show False
      proof
        assume "d - n < length sep"
        then have "sep ! (d - n) \<noteq> CHR '':''" using sep by (auto simp: nth_Cons split: nat.splits)
        with sepb [of "d - n"] dn co \<open>d - n < length sep\<close> show False by simp
      qed (use Kb co in simp)
    qed
    then have "colon_at t (length t) (k + length pat) d" using agree_colon [OF agree_sym [OF a] d(2)] n by simp
    moreover have "prefix pat (drop k t)" using d(1) agree_prefix [OF a kn] by simp
    ultimately have "hit t (length t) pat k" by (intro hitI)
    moreover have "k < length t" using kn n by (simp add: pat)
    ultimately show False using find_key_NoneD [OF nul(1) f] by simp
  qed
  have "?K < length t'" using n by (simp add: t' pat)
  with find_key_first [OF nul(2), of 0 ?K] h none v show ?thesis by simp
qed

definition entry_sep :: "string \<Rightarrow> bool" where
  "entry_sep sep \<longleftrightarrow> sep = '','' @ [NL] @ ''  '' \<or> sep = [NL] @ ''  ''"

lemma append_key_value_shape:
  assumes "append_key_value t key literal = Some t'"
  obtains n m sep where "n \<le> m" "m < length t" "entry_sep sep" "byte_at t m = CHR ''}''"
    "\<forall>i. n \<le> i \<and> i < m \<longrightarrow> isspace (byte_at t i)" "\<forall>i. m < i \<and> i < length t \<longrightarrow> isspace (byte_at t i)"
    "t' = take n t @ sep @ fprint_json_string key @ '': '' @ literal @ [NL] @ drop m t"
proof -
  define ob where "ob = skip_ws_range t 0 (length t)"
  define ae where "ae = trim_back t ob (length t)"
  define n where "n = trim_back t (ob + 1) (ae - 1)"
  define has where "has = (skip_ws_range t (ob + 1) n < n)"
  define sep where "sep = (if has then '','' @ [NL] else [NL]) @ ''  ''"
  from assms have c: "ob < length t" "byte_at t ob = CHR ''{''" "ob < ae" "byte_at t (ae - 1) = CHR ''}''"
    and t': "t' = take n t @ (if has then '','' @ [NL] else [NL]) @ ''  '' @
      fprint_json_string key @ '': '' @ literal @ [NL] @ ''}'' @ drop (ae - 1 + 1) t"
    unfolding append_key_value_def Let_def ob_def [symmetric] ae_def [symmetric] n_def [symmetric] has_def [symmetric]
    by (auto split: if_splits)
  have ae: "ae \<le> length t" using trim_back_bounds [of t ob "length t"] by (simp add: ae_def)
  have nm: "n \<le> ae - 1" using trim_back_bounds [of t "ob + 1" "ae - 1"] by (simp add: n_def)
  have "drop (ae - 1) t = CHR ''}'' # drop (ae - 1 + 1) t"
    using c ae by (cases ae) (simp_all add: byte_at_def Cons_nth_drop_Suc [symmetric])
  with t' have "t' = take n t @ sep @ fprint_json_string key @ '': '' @ literal @ [NL] @ drop (ae - 1) t"
    by (simp add: sep_def)
  moreover have "entry_sep sep" by (simp add: entry_sep_def sep_def)
  moreover have "isspace (byte_at t i)" if "n \<le> i" "i < ae - 1" for i
    using that trim_back_spaces [of t "ob + 1" "ae - 1" i] by (simp add: n_def)
  moreover have "isspace (byte_at t i)" if "ae - 1 < i" "i < length t" for i
    using that trim_back_spaces [of t ob "length t" i] by (simp add: ae_def)
  ultimately show thesis using that [of n "ae - 1" sep] nm ae c by simp
qed

text \<open>What a literal must be for the reader to start at it.\<close>

definition literal_ok :: "string \<Rightarrow> bool" where
  "literal_ok l \<longleftrightarrow> l \<noteq> [] \<and> \<not> isspace (hd l) \<and> NUL \<notin> set l"

lemma fprint_simple: "simple_key key \<Longrightarrow> fprint_json_string key = DQ # key @ [DQ]"
proof -
  assume k: "simple_key key"
  have "fprint_json_char c = [c]" if "c \<in> set key" for c
    using simple_char(1,2,5,6) [OF simple_key_chars [OF k that]] by (simp add: fprint_json_char_def isspace_def)
  then have "concat (map fprint_json_char key) = key" by (induction key) auto
  then show ?thesis by (simp add: fprint_json_string_def)
qed

lemma key_no_nul: "simple_key key \<Longrightarrow> NUL \<notin> set key"
  using simple_char(3) [OF simple_key_chars] by blast

text \<open>
  What an edit does to a text: where the reader finds the key, exactly the one value that stands there gives way to the literal and all
  else stays, before and after it; when no reader finds the key, an entry goes in before the closing brace of the object, for the
  white space that stood there.
\<close>

definition edit_of :: "string \<Rightarrow> string \<Rightarrow> string \<Rightarrow> string \<Rightarrow> string \<Rightarrow> string \<Rightarrow> bool" where
  "edit_of t key literal pre post t' \<longleftrightarrow> t' = pre @ literal @ post \<and>
     (case json_find_key_value t 0 (length t) key of
        Some v \<Rightarrow> v = length pre \<and> (\<exists>old. t = pre @ old @ post \<and> one_value old post)
      | None \<Rightarrow> \<exists>kept spaces sep trailing. t = kept @ spaces @ ''}'' @ trailing \<and> list_all isspace spaces \<and> list_all isspace trailing \<and>
          entry_sep sep \<and> pre = kept @ sep @ fprint_json_string key @ '': '' \<and> post = [NL] @ ''}'' @ trailing)"

lemma edit_of_nul:
  "edit_of t key literal pre post t' \<Longrightarrow> NUL \<notin> set t \<Longrightarrow> simple_key key \<Longrightarrow> literal_ok literal \<Longrightarrow> NUL \<notin> set t'"
  using key_no_nul [of key] by (auto simp: edit_of_def literal_ok_def entry_sep_def fprint_simple split: option.splits)

lemma edited_json_shape:
  assumes key: "simple_key key" and e: "edited_json t key literal = Some t'"
  obtains pre post where "edit_of t key literal pre post t'"
    "(\<exists>v. json_find_key_value t 0 (length t) key = Some v \<and> pre = take v t \<and> v \<le> length t) \<or>
     (json_find_key_value t 0 (length t) key = None \<and>
      (\<exists>n sep. n \<le> length t \<and> entry_sep sep \<and> pre = take n t @ sep @ fprint_json_string key @ '': ''))"
proof (cases "json_find_key_value t 0 (length t) key")
  case (Some v)
  with e have "replace_value t v literal = Some t'" by (simp add: edited_json_def)
  from replace_value_shape [OF this Some] obtain old post where
    s: "t = take v t @ old @ post" "t' = take v t @ literal @ post" "v \<le> length t" "one_value old post" .
  then have "edit_of t key literal (take v t) post t'" unfolding edit_of_def Some option.case by auto
  with that Some s(3) show thesis by blast
next
  case None
  with e have "append_key_value t key literal = Some t'" by (simp add: edited_json_def)
  from append_key_value_shape [OF this] obtain n m sep where s: "n \<le> m" "m < length t" "entry_sep sep" "byte_at t m = CHR ''}''"
    "\<forall>i. n \<le> i \<and> i < m \<longrightarrow> isspace (byte_at t i)" "\<forall>i. m < i \<and> i < length t \<longrightarrow> isspace (byte_at t i)"
    "t' = take n t @ sep @ fprint_json_string key @ '': '' @ literal @ [NL] @ drop m t" .
  have "t = take n t @ take (m - n) (drop n t) @ drop m t"
    using s(1) by (metis append_assoc append_take_drop_id le_add_diff_inverse take_add)
  moreover have "list_all isspace (take (m - n) (drop n t))"
    unfolding list_all_length
  proof (intro allI impI)
    fix i assume i: "i < length (take (m - n) (drop n t))"
    then have "take (m - n) (drop n t) ! i = byte_at t (n + i)" using s(1,2) by (auto simp: byte_at_def)
    moreover have "i < m - n" using i by simp
    then have "n + i < m" by (simp add: less_diff_conv add.commute)
    ultimately show "isspace (take (m - n) (drop n t) ! i)" using s(5) by simp
  qed
  moreover have "drop m t = ''}'' @ drop (m + 1) t" using s(2,4) Cons_nth_drop_Suc [OF s(2)] by (simp add: byte_at_def)
  moreover have "list_all isspace (drop (m + 1) t)"
    unfolding list_all_length using s(6) by (auto simp: byte_at_def)
  ultimately have "edit_of t key literal (take n t @ sep @ fprint_json_string key @ '': '') ([NL] @ drop m t) t'"
    unfolding edit_of_def None option.case using s(3,7)
    by (intro conjI exI [of _ "take n t"] exI [of _ "take (m - n) (drop n t)"] exI [of _ sep] exI [of _ "drop (m + 1) t"]) simp_all
  moreover have "n \<le> length t" using s(1,2) by simp
  ultimately show thesis using that None s(3) by blast
qed

lemma edited_json_reads_back:
  assumes nul: "NUL \<notin> set t" and key: "simple_key key" and lit: "literal_ok literal"
    and e: "edited_json t key literal = Some t'"
  obtains pre post where "edit_of t key literal pre post t'" "json_find_key_value t' 0 (length t') key = Some (length pre)"
proof -
  from edited_json_shape [OF key e] obtain pre post where ed: "edit_of t key literal pre post t'" and
    which: "(\<exists>v. json_find_key_value t 0 (length t) key = Some v \<and> pre = take v t \<and> v \<le> length t) \<or>
     (json_find_key_value t 0 (length t) key = None \<and>
      (\<exists>n sep. n \<le> length t \<and> entry_sep sep \<and> pre = take n t @ sep @ fprint_json_string key @ '': ''))" .
  have t': "t' = pre @ literal @ post" using ed by (simp add: edit_of_def)
  have n': "NUL \<notin> set t'" by (rule edit_of_nul [OF ed nul key lit])
  have lhd: "byte_at t' (length pre) = hd literal" "length pre < length t'"
    using lit by (cases literal; simp add: t' literal_ok_def byte_at_def nth_append)+
  from which have "json_find_key_value t' 0 (length t') key = Some (length pre)"
  proof (elim disjE exE conjE)
    fix v assume v: "json_find_key_value t 0 (length t) key = Some v" "pre = take v t" "v \<le> length t"
    then have "agree t t' v" by (simp add: agree_def t')
    with v lhd show ?thesis
      using replaced_find [OF n'] lit unfolding json_find_key_value_def literal_ok_def by (metis length_take min.absorb2)
  next
    fix n sep assume s: "json_find_key_value t 0 (length t) key = None" "n \<le> length t" "entry_sep sep"
      "pre = take n t @ sep @ fprint_json_string key @ '': ''"
    have p: "key_pattern key = DQ # key @ [DQ]" "fprint_json_string key = DQ # key @ [DQ]"
      using key by (simp_all add: key_pattern_simple fprint_simple)
    have "find_key_loop t' 0 (length t') (key_pattern key) = Some (n + length sep + length (key_pattern key) + 2)"
    proof (rule added_find [OF nul n' _ p(1) key _ s(2)])
      show "find_key_loop t 0 (length t) (key_pattern key) = None" using s(1) by (simp add: json_find_key_value_def)
      show "t' = take n t @ sep @ key_pattern key @ '':'' @ '' '' @ (literal @ post)" by (simp add: t' s(4) p)
      show "sep = '','' @ [NL] @ ''  '' \<or> sep = [NL] @ ''  ''" using s(3) by (simp add: entry_sep_def)
    qed (use lit in \<open>auto simp: literal_ok_def\<close>)
    then show ?thesis using s(2) by (simp add: json_find_key_value_def s(4) p)
  qed
  with ed that show thesis by blast
qed


section \<open>The files\<close>

abbreviation tmp_of :: "string \<Rightarrow> string" where "tmp_of path \<equiv> path @ ''.plumos.tmp''"
abbreviation bak_of :: "string \<Rightarrow> string" where "bak_of path \<equiv> path @ ''.plumos.bak''"

lemma write_buffer_states:
  assumes "tmp \<noteq> path"
  shows "list_all (\<lambda>d'. (d' path = d path \<or> d' path = Some (content, True)) \<and>
      (\<forall>q. q = path \<or> q = tmp \<or> d' q = d q)) (snd (write_buffer_atomic e path tmp content d))"
  using assms by (auto simp: write_buffer_atomic_def Let_def last_map list_all_iff split: if_splits)

lemma write_buffer_done:
  assumes "fst (write_buffer_atomic e path tmp content d)" and "tmp \<noteq> path"
  shows "last (d # snd (write_buffer_atomic e path tmp content d)) path = Some (content, True)"
  using assms by (auto simp: write_buffer_atomic_def Let_def split: if_splits)

text \<open>What an edit may have done to the disk, at any moment: \<open>t\<close> was the file, \<open>t'\<close> is the new text.\<close>

definition edit_state :: "string \<Rightarrow> string \<Rightarrow> string \<Rightarrow> disk \<Rightarrow> disk \<Rightarrow> bool" where
  "edit_state path t t' d d' \<longleftrightarrow>
     (d' path = d path \<or> d' path = Some (t', True) \<and> d' (bak_of path) \<noteq> None) \<and>
     (d' (bak_of path) = d (bak_of path) \<or> d (bak_of path) = None \<and> d' (bak_of path) = Some (t, True)) \<and>
     (\<forall>q. q \<notin> {path, bak_of path, tmp_of path, bak_of path @ ''.tmp''} \<longrightarrow> d' q = d q)"

lemma backup_states:
  assumes "ensure_system_config_backup e path t d = (ok, ds)"
  shows "list_all (\<lambda>d'. d' path = d path \<and> (d' (bak_of path) = d (bak_of path) \<or> d (bak_of path) = None \<and> d' (bak_of path) = Some (t, True)) \<and>
      (\<forall>q. q \<notin> {bak_of path, bak_of path @ ''.tmp''} \<longrightarrow> d' q = d q)) ds \<and>
    (ok \<longrightarrow> last (d # ds) (bak_of path) \<noteq> None)"
proof (cases "d (bak_of path)")
  case None
  with assms have "ds = [] \<and> \<not> ok \<or> write_buffer_atomic e (bak_of path) (bak_of path @ ''.tmp'') t d = (ok, ds)"
    by (auto simp: ensure_system_config_backup_def Let_def split: if_splits)
  then show ?thesis
  proof
    assume w: "write_buffer_atomic e (bak_of path) (bak_of path @ ''.tmp'') t d = (ok, ds)"
    from write_buffer_states [of "bak_of path @ ''.tmp''" "bak_of path" d t e] w None
    have "list_all (\<lambda>d'. (d' (bak_of path) = d (bak_of path) \<or> d' (bak_of path) = Some (t, True)) \<and>
        (\<forall>q. q = bak_of path \<or> q = bak_of path @ ''.tmp'' \<or> d' q = d q)) ds" by simp
    then have "list_all (\<lambda>d'. d' path = d path \<and> (d' (bak_of path) = d (bak_of path) \<or> d (bak_of path) = None \<and> d' (bak_of path) = Some (t, True)) \<and>
      (\<forall>q. q \<notin> {bak_of path, bak_of path @ ''.tmp''} \<longrightarrow> d' q = d q)) ds"
      using None by (auto simp: list_all_iff)
    moreover have "ok \<longrightarrow> last (d # ds) (bak_of path) \<noteq> None"
      using write_buffer_done [of e "bak_of path" "bak_of path @ ''.tmp''" t d] unfolding w by simp
    ultimately show ?thesis ..
  qed simp
next
  case (Some c)
  with assms show ?thesis by (auto simp: ensure_system_config_backup_def Let_def split: if_splits)
qed

text \<open>Every case of an edit: nothing done, or the edited text on its way.\<close>

lemma replace_key_cases:
  assumes "replace_json_key_value_atomic eb e path key literal d = (ok, ds)"
  obtains (nothing) "\<not> ok" "ds = []"
  | (backup) t s t' where "\<not> ok" "d path = Some (t, s)" "edited_json t key literal = Some t'"
      "ensure_system_config_backup eb path t d = (False, ds)"
  | (written) t s t' ds0 ds1 where "d path = Some (t, s)" "edited_json t key literal = Some t'"
      "ensure_system_config_backup eb path t d = (True, ds0)"
      "write_buffer_atomic e path (tmp_of path) t' (last (d # ds0)) = (ok, ds1)" "ds = ds0 @ ds1"
  using assms unfolding replace_json_key_value_atomic_def
  by (simp split: if_splits option.splits prod.splits bool.splits)

lemma replace_key_states:
  assumes "replace_json_key_value_atomic eb e path key literal d = (ok, ds)" and "d path = Some (t, s)"
    and "edited_json t key literal = Some t'"
  shows "list_all (edit_state path t t' d) ds \<and> (ok \<longrightarrow> last (d # ds) path = Some (t', True))"
  using assms(1)
proof (cases rule: replace_key_cases)
  case nothing
  then show ?thesis by simp
next
  case (backup t2 s2 t3)
  with assms have "t2 = t" by simp
  with backup backup_states [OF backup(4)] show ?thesis by (auto simp: list_all_iff edit_state_def)
next
  case (written t2 s2 t3 ds0 ds1)
  with assms have eq: "t2 = t" "t3 = t'" by simp_all
  note b = backup_states [OF written(3)]
  define d0 where "d0 = last (d # ds0)"
  have d0: "d0 path = d path" "d0 (bak_of path) \<noteq> None"
    "d0 (bak_of path) = d (bak_of path) \<or> d (bak_of path) = None \<and> d0 (bak_of path) = Some (t, True)"
    "\<forall>q. q \<notin> {bak_of path, bak_of path @ ''.tmp''} \<longrightarrow> d0 q = d q"
    using b unfolding d0_def eq by (cases ds0 rule: rev_cases; simp)+
  have w: "write_buffer_atomic e path (tmp_of path) t' d0 = (ok, ds1)" using written(4) eq d0_def by simp
  from write_buffer_states [of "tmp_of path" path d0 t' e] w
  have "list_all (\<lambda>d'. (d' path = d0 path \<or> d' path = Some (t', True)) \<and> (\<forall>q. q = path \<or> q = tmp_of path \<or> d' q = d0 q)) ds1"
    by simp
  then have "list_all (edit_state path t t' d) ds1"
  proof (rule list.pred_mono_strong)
    fix d' assume d': "(d' path = d0 path \<or> d' path = Some (t', True)) \<and> (\<forall>q. q = path \<or> q = tmp_of path \<or> d' q = d0 q)"
    have "bak_of path \<noteq> path" "bak_of path \<noteq> tmp_of path" by simp_all
    with d' have bk: "d' (bak_of path) = d0 (bak_of path)" by blast
    have "d' q = d q" if "q \<notin> {path, bak_of path, tmp_of path, bak_of path @ ''.tmp''}" for q
    proof -
      from that d' have "d' q = d0 q" by blast
      also from that d0(4) have "\<dots> = d q" by blast
      finally show ?thesis .
    qed
    moreover have "d' path = d path \<or> d' path = Some (t', True) \<and> d' (bak_of path) \<noteq> None"
      using d' d0(1,2) bk by metis
    moreover have "d' (bak_of path) = d (bak_of path) \<or> d (bak_of path) = None \<and> d' (bak_of path) = Some (t, True)"
      using d0(3) bk by simp
    ultimately show "edit_state path t t' d d'" unfolding edit_state_def by blast
  qed
  moreover have "list_all (edit_state path t t' d) ds0"
    using b eq by (auto simp: list_all_iff edit_state_def)
  moreover have "ok \<longrightarrow> last (d # ds) path = Some (t', True)"
  proof -
    have "last (d # ds) = last (d0 # ds1)" unfolding written(5) d0_def by (cases ds1 rule: rev_cases) simp_all
    then show ?thesis using write_buffer_done [of e path "tmp_of path" t' d0] unfolding w by simp
  qed
  ultimately show ?thesis by (simp add: written(5))
qed


section \<open>The settings\<close>

definition config_char :: "char \<Rightarrow> bool" where
  "config_char c \<longleftrightarrow> 32 \<le> code_of c \<or> c \<in> {NL, CHR 0x0D, CHR 0x09}"

lemma config_char_plain: "config_char c \<Longrightarrow> plain_char c"
  by (auto simp: config_char_def plain_char_def)

lemma fprint_config_char: "config_char c \<Longrightarrow> fprint_json_char c = json_escape_char c"
  by (auto simp: config_char_def fprint_json_char_def json_escape_char_def code_of_def)

lemma fprint_config: "list_all config_char s \<Longrightarrow> fprint_json_string s = json_write_escaped s"
proof -
  assume "list_all config_char s"
  then have "concat (map fprint_json_char s) = concat (map json_escape_char s)"
    by (induction s) (simp_all add: fprint_config_char)
  then show ?thesis by (simp add: fprint_json_string_def json_write_escaped_def)
qed

lemma append_json_chars_ok:
  "append_json_chars n out s = (True, r) \<Longrightarrow> r = out @ concat (map fprint_json_char s) @ [DQ]"
  by (induction n out s rule: append_json_chars.induct) (auto simp: append_string_True split: if_splits prod.splits bool.splits)

lemma append_json_string_literal_ok: "append_json_string_literal n s = (True, r) \<Longrightarrow> r = fprint_json_string s"
  by (auto simp: append_json_string_literal_def append_string_True fprint_json_string_def
      dest!: append_json_chars_ok split: if_splits prod.splits bool.splits)


definition demo_config_disk :: disk where
  "demo_config_disk = (\<lambda>p. if p = ''/c'' then Some (''{}'', True) else None)"


theorem saved_bool_is_read:
  assumes old: "d path = Some (t, s)" "NUL \<notin> set t" and key: "simple_key key"
    and saved: "save_system_config_bool eb e path key v d = (True, ds)"
  shows "\<exists>t' pre post. last (d # ds) path = Some (t', True) \<and> edit_of t key (if v then ''true'' else ''false'') pre post t' \<and>
    json_get_bool t' 0 (length t') key dflt = v"
proof -
  let ?l = "if v then ''true'' else ''false''"
  from saved have r: "replace_json_key_value_atomic eb e path key ?l d = (True, ds)"
    by (simp add: save_system_config_bool_def)
  then obtain t' where e: "edited_json t key ?l = Some t'" using old by (auto elim: replace_key_cases)
  have lit: "literal_ok ?l" by (simp add: literal_ok_def isspace_def)
  from edited_json_reads_back [OF old(2) key lit e] obtain pre post
    where ed: "edit_of t key ?l pre post t'" and f: "json_find_key_value t' 0 (length t') key = Some (length pre)" .
  have t': "t' = pre @ ?l @ post" using ed by (simp add: edit_of_def)
  have "drop (length pre) t' = ?l @ post" and "length t' - length pre = length ?l + length post" by (simp_all add: t')
  then have "json_get_bool t' 0 (length t') key dflt = v" unfolding json_get_bool_def f by (cases v) simp_all
  moreover have "last (d # ds) path = Some (t', True)" using replace_key_states [OF r old(1) e] by simp
  ultimately show ?thesis using ed by blast
qed

text \<open>
  C14: Power may be lost at any moment of a change of the system configuration: the file then holds the old text or the edited one; the
  backup stays what it was, or appears as the first content; and once the file has changed a backup is there.
\<close>

theorem system_config_crash_safe:
  assumes old: "d path = Some (t, True)" and bak: "\<forall>c. d (bak_of path) \<noteq> Some (c, False)"
    and saved: "replace_json_key_value_atomic eb e path key literal d = (ok, ds)"
  shows "list_all (\<lambda>d'. after_crash g d' path \<in> {Some t, edited_json t key literal} \<and>
      after_crash g d' (bak_of path) \<in> {after_crash g d (bak_of path), Some (case d (bak_of path) of None \<Rightarrow> t | Some c \<Rightarrow> fst c)} \<and>
      (after_crash g d' path = Some t \<or> after_crash g d' (bak_of path) \<noteq> None)) ds"
proof (cases "edited_json t key literal")
  case None
  with saved old have "ds = []" by (auto elim: replace_key_cases)
  then show ?thesis by simp
next
  case (Some t')
  from replace_key_states [OF saved old Some] have "list_all (edit_state path t t' d) ds" by simp
  then show ?thesis
  proof (rule list.pred_mono_strong)
    fix d' assume "edit_state path t t' d d'"
    then have p: "d' path = d path \<or> d' path = Some (t', True) \<and> d' (bak_of path) \<noteq> None"
      and b: "d' (bak_of path) = d (bak_of path) \<or> d (bak_of path) = None \<and> d' (bak_of path) = Some (t, True)"
      by (simp_all add: edit_state_def)
    have "after_crash g d' path \<in> {Some t, Some t'}" using p old by (auto simp: after_crash_def)
    moreover have "after_crash g d' (bak_of path) \<in> {after_crash g d (bak_of path), Some (case d (bak_of path) of None \<Rightarrow> t | Some c \<Rightarrow> fst c)}"
      using b bak by (auto simp: after_crash_def split: option.splits)
    moreover have "after_crash g d' path = Some t \<or> after_crash g d' (bak_of path) \<noteq> None"
      using p old by (auto simp: after_crash_def split: bool.splits)
    ultimately show "after_crash g d' path \<in> {Some t, edited_json t key literal} \<and>
      after_crash g d' (bak_of path) \<in> {after_crash g d (bak_of path), Some (case d (bak_of path) of None \<Rightarrow> t | Some c \<Rightarrow> fst c)} \<and>
      (after_crash g d' path = Some t \<or> after_crash g d' (bak_of path) \<noteq> None)" by (simp add: Some)
  qed
qed


theorem system_config_crash_safe_witness:
  "fst (replace_json_key_value_atomic demo_store demo_store ''/c'' ''volume'' ''7'' demo_config_disk) \<and>
   list_all (\<lambda>d'. after_crash (\<lambda>_. []) d' ''/c'' \<in> {Some ''{}'', edited_json ''{}'' ''volume'' ''7''} \<and>
      (after_crash (\<lambda>_. []) d' ''/c'' = Some ''{}'' \<or> after_crash (\<lambda>_. []) d' (bak_of ''/c'') \<noteq> None))
     (snd (replace_json_key_value_atomic demo_store demo_store ''/c'' ''volume'' ''7'' demo_config_disk))"
proof -
  obtain ok ds where r: "replace_json_key_value_atomic demo_store demo_store ''/c'' ''volume'' ''7'' demo_config_disk = (ok, ds)"
    by fastforce
  have "fst (replace_json_key_value_atomic demo_store demo_store ''/c'' ''volume'' ''7'' demo_config_disk)" by code_simp
  moreover have "demo_config_disk ''/c'' = Some (''{}'', True)" "\<forall>c. demo_config_disk (bak_of ''/c'') \<noteq> Some (c, False)"
    by (simp_all add: demo_config_disk_def)
  from system_config_crash_safe [OF this r, of "\<lambda>_. []"]
  have "list_all (\<lambda>d'. after_crash (\<lambda>_. []) d' ''/c'' \<in> {Some ''{}'', edited_json ''{}'' ''volume'' ''7''} \<and>
      (after_crash (\<lambda>_. []) d' ''/c'' = Some ''{}'' \<or> after_crash (\<lambda>_. []) d' (bak_of ''/c'') \<noteq> None)) ds"
    by (rule list.pred_mono_strong) blast
  ultimately show ?thesis by (simp add: r)
qed

end
