(* ===== verification/UiState.thy ===== *)
theory UiState
  imports UiSettings TextShell TextStore
begin

text \<open>
  The state of the controller UI (\<open>src/frontend/plumos_controller_ui.c\<close>) as far as the development models it: the screens, the lists with
  their cursors, the cursor memory and the transitions of the two graphic views; and the world its handlers act on. An array with
  a counter is the list of its live entries.
\<close>

section \<open>Sizes\<close>

definition UI_PATH_MAX :: nat where "UI_PATH_MAX = 1024"
definition UI_COMMAND_MAX :: nat where "UI_COMMAND_MAX = 8192"
definition UI_ROM_CURSOR_MEMORY_MAX :: nat where "UI_ROM_CURSOR_MEMORY_MAX = 64"
definition UI_GALLERY_TRANSITION_MS :: int where "UI_GALLERY_TRANSITION_MS = 360"
definition UI_ROM_SCAN_REFRESH_MIN_INTERVAL_MS :: int where "UI_ROM_SCAN_REFRESH_MIN_INTERVAL_MS = 3000"

section \<open>Entries\<close>

record top_entry =
  te_id :: string
  te_display_name :: string
  te_default_launch_profile :: string
  te_rom_count :: int
  te_pinned :: bool
  te_virtual_entry :: bool

record ui_rom =
  ur_system_id :: string
  ur_title :: string
  ur_relative_path :: string
  ur_path :: string
  ur_thumbnail :: string
  ur_launch_profile :: string
  ur_detail :: string
  ur_extension :: string
  ur_resume_available :: bool
  ur_is_navigation_directory :: bool
  ur_is_favorite :: bool

definition zero_ui_rom :: ui_rom where
  "zero_ui_rom = \<lparr>ur_system_id = [], ur_title = [], ur_relative_path = [], ur_path = [], ur_thumbnail = [], ur_launch_profile = [],
     ur_detail = [], ur_extension = [], ur_resume_available = False, ur_is_navigation_directory = False, ur_is_favorite = False\<rparr>"

record rom_cursor_memory =
  cm_system_id :: string
  cm_directory :: string
  cm_relative_path :: string

section \<open>Screens and actions\<close>

datatype ui_screen = SCREEN_TOP | SCREEN_ROMS | SCREEN_START_MENU | SCREEN_FAVORITES | SCREEN_RECENT | SCREEN_SETTINGS
  | SCREEN_POWER_MENU | SCREEN_HELP | SCREEN_CORE_SELECT | SCREEN_NETWORK_RESCUE | SCREEN_WIFI_CONNECT | SCREEN_THUMBNAIL_RESULTS
  | SCREEN_THUMBNAIL_RUNNING | SCREEN_SCRAPING | SCREEN_GALLERY | SCREEN_TOP_REFRESH_RUNNING | SCREEN_POWER_ACTION_RUNNING

datatype ui_action = ACTION_NONE | ACTION_UP | ACTION_DOWN | ACTION_LEFT | ACTION_RIGHT | ACTION_A | ACTION_B | ACTION_START
  | ACTION_SELECT | ACTION_X | ACTION_Y | ACTION_FUNCTION | ACTION_POWER | ACTION_VOLUME_DOWN | ACTION_VOLUME_UP | ACTION_QUIT

section \<open>The state\<close>

record ui_state =
  ui_sdcard_root :: string
  ui_plumos_root :: string
  ui_settings_path :: string
  ui_favorites_path :: string
  ui_recent_path :: string
  ui_refresh :: bool
  ui_renderer_mali :: bool
  ui_renderer_fbdev :: bool
  ui_renderer_mmf_gfx :: bool
  ui_screen_now :: ui_screen
  ui_rom_entry_screen :: ui_screen
  ui_gallery_back_screen :: ui_screen
  ui_top_cursor :: nat
  ui_top_entries :: "top_entry list"
  ui_rom_cursor :: nat
  ui_rom_entries :: "ui_rom list"
  ui_rom_cursor_memory :: "rom_cursor_memory list"
  ui_gallery_from :: nat
  ui_gallery_to :: nat
  ui_gallery_start_ms :: int
  ui_gallery_duration_ms :: int
  ui_gallery_direction :: int
  ui_gallery_active :: bool
  ui_gallery_pending_cursor :: nat
  ui_gallery_pending_direction :: int
  ui_gallery_pending_active :: bool
  ui_frontend_settings :: frontend_settings
  ui_rom_scan_refresh_pid :: int
  ui_rom_scan_refresh_last_ms :: int
  ui_rom_scan_refresh_system_id :: string
  ui_rom_scan_refresh_suppressed :: bool
  ui_rom_scan_background_started :: bool
  ui_current_system_id :: string
  ui_current_system_name :: string
  ui_rom_directory :: string
  ui_status :: string

definition set_status :: "ui_state \<Rightarrow> string \<Rightarrow> ui_state" where
  "set_status ui text = ui\<lparr>ui_status := stored 256 text\<rparr>"

definition ui_renderer_graphic_capable :: "ui_state \<Rightarrow> bool" where
  "ui_renderer_graphic_capable ui \<longleftrightarrow> ui_renderer_mali ui \<or> ui_renderer_fbdev ui \<or> ui_renderer_mmf_gfx ui"

definition ui_uses_graphic_mode :: "ui_state \<Rightarrow> bool" where
  "ui_uses_graphic_mode ui \<longleftrightarrow> ui_renderer_graphic_capable ui \<and> fs_ui_mode (ui_frontend_settings ui) = ''graphic''"

definition ui_clear_rom_entries :: "ui_state \<Rightarrow> ui_state" where
  "ui_clear_rom_entries ui = ui\<lparr>ui_rom_entries := [], ui_rom_cursor := 0\<rparr>"

definition ui_append_rom_entry :: "ui_state \<Rightarrow> ui_rom \<Rightarrow> ui_state" where
  "ui_append_rom_entry ui entry = ui\<lparr>ui_rom_entries := ui_rom_entries ui @ [entry]\<rparr>"

section \<open>The world\<close>

text \<open>
  What the handlers meet outside the program: \<open>ev_exec\<close> runs a program with its arguments and waits (its wait status, none when it could
  not be started or waited for) and leaves the files as it made them; \<open>ev_spawn\<close> only starts it (its process, not positive on failure);
  \<open>ev_now\<close> is the clock when the handler runs.
\<close>

record ui_env =
  ev_exec :: "string \<Rightarrow> string list \<Rightarrow> os \<Rightarrow> nat option \<times> os"
  ev_spawn :: "string \<Rightarrow> string list \<Rightarrow> os \<Rightarrow> int \<times> os"
  ev_now :: int

definition runtime_requires_busybox_shell :: "os \<Rightarrow> bool" where
  "runtime_requires_busybox_shell w \<longleftrightarrow>
     (case os_getenv w ''PLUMOS_BUSYBOX'' of Some b \<Rightarrow> b \<noteq> [] \<and> os_access_x w b | None \<Rightarrow> False) \<or>
     os_getenv w ''PLUMOS_DEVICE_ID'' = Some ''mf''"

definition runtime_busybox_shell_path :: "os \<Rightarrow> string option" where
  "runtime_busybox_shell_path w =
     (let configured = os_getenv w ''PLUMOS_BUSYBOX''; root = os_getenv w ''PLUMOS_ROOT''
      in if configured \<noteq> None \<and> the configured \<noteq> [] \<and> os_access_x w (the configured) then configured
         else if os_access_x w ''/mnt/SDCARD/.tmp_update/busybox'' then Some ''/mnt/SDCARD/.tmp_update/busybox''
         else if root \<noteq> None \<and> the root \<noteq> [] \<and> length (the root @ ''/bin/busybox'') < PATH_MAX \<and>
             os_access_x w (the root @ ''/bin/busybox'') then Some (the root @ ''/bin/busybox'')
         else if os_access_x w ''/bin/busybox'' then Some ''/bin/busybox''
         else None)"

definition prepare_runtime_shell_command :: "os \<Rightarrow> string \<Rightarrow> (string \<times> string list) option" where
  "prepare_runtime_shell_command w cmd =
     (if cmd = [] then None
      else if runtime_requires_busybox_shell w then
        map_option (\<lambda>busybox. (busybox, [busybox, ''sh'', ''-c'', cmd])) (runtime_busybox_shell_path w)
      else Some (''/bin/sh'', [''sh'', ''-c'', cmd]))"

definition run_runtime_shell_command :: "ui_env \<Rightarrow> os \<Rightarrow> string \<Rightarrow> nat option \<times> os" where
  "run_runtime_shell_command ev w cmd =
     (case prepare_runtime_shell_command w cmd of
        None \<Rightarrow> (None, w)
      | Some (path, argv) \<Rightarrow> ev_exec ev path argv w)"

section \<open>The scanner\<close>

definition ui_scanner_pieces :: "string \<Rightarrow> string \<Rightarrow> string \<Rightarrow> string option \<Rightarrow> bool \<Rightarrow> piece list" where
  "ui_scanner_pieces plumos_root sdcard_root scanner system_id with_thumbnails =
     [Raw ''PLUMOS_SDCARD_ROOT='', Quoted sdcard_root, Raw '' PLUMOS_ROOT='', Quoted plumos_root, Raw '' '', Quoted scanner] @
     (case system_id of None \<Rightarrow> []
      | Some s \<Rightarrow> [Raw '' --on-enter '', Quoted s] @ (if with_thumbnails then [Raw '' --with-thumbnails''] else [])) @
     [Raw '' >/dev/null'']"

definition ui_run_scanner :: "ui_env \<Rightarrow> os \<Rightarrow> string \<Rightarrow> string \<Rightarrow> string option \<Rightarrow> bool \<Rightarrow> bool \<times> os" where
  "ui_run_scanner ev w plumos_root sdcard_root system_id with_thumbnails =
     (case join_path PATH_MAX plumos_root ''bin/plumos-library-scan'' of
        (False, _) \<Rightarrow> (False, w)
      | (True, scanner) \<Rightarrow>
          if \<not> file_exists w scanner then (False, w)
          else if (case system_id of Some s \<Rightarrow> \<not> valid_system_id s | None \<Rightarrow> False) then (False, w)
          else case append_pieces UI_COMMAND_MAX [] (ui_scanner_pieces plumos_root sdcard_root scanner system_id with_thumbnails) of
            (False, _) \<Rightarrow> (False, w)
          | (True, cmd) \<Rightarrow>
              (case run_runtime_shell_command ev w cmd of (rc, w') \<Rightarrow> (rc = Some 0, w')))"

text \<open>The scanner in the background: no shell, its arguments as they are. \<open>setenv\<close> succeeds.\<close>

definition start_scanner_process :: "ui_env \<Rightarrow> os \<Rightarrow> string \<Rightarrow> string \<Rightarrow> string \<Rightarrow> bool \<Rightarrow> int \<times> os" where
  "start_scanner_process ev w plumos_root sdcard_root system_id with_thumbnails =
     (case join_path PATH_MAX plumos_root ''bin/plumos-library-scan'' of
        (False, _) \<Rightarrow> (-1, w)
      | (True, scanner) \<Rightarrow>
          if \<not> file_exists w scanner then (-1, w)
          else if \<not> valid_system_id system_id then (-1, w)
          else
            let w' = w\<lparr>os_getenv := (os_getenv w)(''PLUMOS_ROOT'' \<mapsto> plumos_root, ''PLUMOS_SDCARD_ROOT'' \<mapsto> sdcard_root)\<rparr>
            in ev_spawn ev scanner ([scanner, ''--on-enter'', system_id] @ (if with_thumbnails then [''--with-thumbnails''] else [])) w')"

definition trigger_rom_scan_refresh :: "ui_env \<Rightarrow> os \<Rightarrow> ui_state \<Rightarrow> string \<Rightarrow> bool \<Rightarrow> bool \<times> ui_state \<times> os" where
  "trigger_rom_scan_refresh ev w ui system_id with_thumbnails =
     (if \<not> valid_system_id system_id then (False, ui, w)
      else if 0 < ui_rom_scan_refresh_pid ui then (False, ui, w)
      else if 0 < ui_rom_scan_refresh_last_ms ui \<and> ui_rom_scan_refresh_system_id ui = system_id \<and>
          ev_now ev - ui_rom_scan_refresh_last_ms ui < UI_ROM_SCAN_REFRESH_MIN_INTERVAL_MS then (False, ui, w)
      else case start_scanner_process ev w (ui_plumos_root ui) (ui_sdcard_root ui) system_id with_thumbnails of
        (pid, w') \<Rightarrow>
          if pid \<le> 0 then (False, ui, w')
          else (True, ui\<lparr>ui_rom_scan_refresh_pid := pid, ui_rom_scan_refresh_last_ms := ev_now ev,
                 ui_rom_scan_refresh_system_id := stored 64 system_id, ui_rom_scan_background_started := True\<rparr>, w'))"

end
