(* ===== verification/UiRoms.thy ===== *)
theory UiRoms
  imports UiState
begin

text \<open>
  The lists of games of the controller UI (\<open>src/frontend/plumos_controller_ui.c\<close>): the games of a system seen as directories, the
  favorites and the recently played, their order, and the memory of where the cursor was.
\<close>

section \<open>Order\<close>

fun compare_text_ci :: "string \<Rightarrow> string \<Rightarrow> int" where
  "compare_text_ci (a # as) (b # bs) =
     (if tolower a \<noteq> tolower b then int (code_of (tolower a)) - int (code_of (tolower b)) else compare_text_ci as bs)"
| "compare_text_ci (a # as) [] = int (code_of a)"
| "compare_text_ci [] (b # bs) = - int (code_of b)"
| "compare_text_ci [] [] = 0"

definition cmp_directories_first :: "ui_rom \<Rightarrow> ui_rom \<Rightarrow> int" where
  "cmp_directories_first a b = of_bool (ur_is_navigation_directory b) - of_bool (ur_is_navigation_directory a)"

definition cmp_rom_entry_name :: "ui_rom \<Rightarrow> ui_rom \<Rightarrow> int" where
  "cmp_rom_entry_name a b =
     (let cmp = compare_text_ci (ur_title a) (ur_title b) in
      if ur_is_navigation_directory a \<noteq> ur_is_navigation_directory b then cmp_directories_first a b
      else if cmp \<noteq> 0 then cmp
      else compare_text_ci (ur_relative_path a) (ur_relative_path b))"

definition cmp_rom_entry_path :: "ui_rom \<Rightarrow> ui_rom \<Rightarrow> int" where
  "cmp_rom_entry_path a b =
     (let cmp = compare_text_ci (ur_relative_path a) (ur_relative_path b) in
      if ur_is_navigation_directory a \<noteq> ur_is_navigation_directory b then cmp_directories_first a b
      else if cmp \<noteq> 0 then cmp
      else compare_text_ci (ur_title a) (ur_title b))"

section \<open>Favorites\<close>

text \<open>A string member of the object that stands at \<open>s\<close>, up to \<open>e\<close>, into a zeroed field.\<close>

definition member_at :: "string \<Rightarrow> nat \<Rightarrow> nat \<Rightarrow> string \<Rightarrow> nat \<Rightarrow> string" where
  "member_at json s e key n = snd (json_get_string json s e key n [])"

definition thumbnail_at :: "string \<Rightarrow> nat \<Rightarrow> nat \<Rightarrow> string" where
  "thumbnail_at json s e =
     (case json_find_object json s e ''media'' of
        None \<Rightarrow> []
      | Some (ms, me) \<Rightarrow> member_at json ms me ''thumbnail'' UI_PATH_MAX)"

text \<open>What the three loaders read alike.\<close>

definition common_entry_at :: "string \<Rightarrow> nat \<Rightarrow> nat \<Rightarrow> string \<Rightarrow> ui_rom" where
  "common_entry_at json s e system_id =
     (let title = member_at json s e ''title'' 256; rel = member_at json s e ''relative_path'' UI_PATH_MAX
      in zero_ui_rom\<lparr>ur_system_id := system_id, ur_title := (if title = [] then stored 256 rel else title),
           ur_relative_path := rel, ur_path := member_at json s e ''path'' UI_PATH_MAX, ur_thumbnail := thumbnail_at json s e\<rparr>)"

abbreviation appended :: "nat \<Rightarrow> string \<Rightarrow> string \<Rightarrow> string" where
  "appended n b s \<equiv> snd (append_string n b s)"

definition favorite_at :: "string \<Rightarrow> nat \<Rightarrow> nat \<Rightarrow> ui_rom" where
  "favorite_at json s e =
     (let entry = common_entry_at json s e (member_at json s e ''system_id'' 64)
      in entry\<lparr>ur_is_favorite := True,
           ur_detail := appended 256 (appended 256 (appended 256 [] (ur_system_id entry)) '' / '') (ur_relative_path entry)\<rparr>)"

definition load_entries :: "os \<Rightarrow> string \<Rightarrow> string \<Rightarrow> (string \<Rightarrow> nat \<Rightarrow> nat \<Rightarrow> ui_rom) \<Rightarrow> bool \<times> ui_rom list" where
  "load_entries w path key entry_at =
     (case os_read w path of
        None \<Rightarrow> (\<not> file_exists w path, [])
      | Some json \<Rightarrow>
          (case json_find_array json 0 (length json) key of
             None \<Rightarrow> (False, [])
           | Some (s, e) \<Rightarrow> (True, json_each_object json e s (\<lambda>_. True) (\<lambda>os oe l. l @ [entry_at json os oe]) [])))"

text \<open>The list alone; in the state it replaces the entries and puts the cursor on the first.\<close>

definition favorites_in :: "os \<Rightarrow> string \<Rightarrow> bool \<times> ui_rom list" where
  "favorites_in w path = load_entries w path ''favorites'' favorite_at"

definition with_entries :: "ui_state \<Rightarrow> ui_rom list \<Rightarrow> ui_state" where
  "with_entries ui l = foldl ui_append_rom_entry (ui_clear_rom_entries ui) l"

definition load_favorite_entries :: "os \<Rightarrow> ui_state \<Rightarrow> bool \<times> ui_state" where
  "load_favorite_entries w ui =
     (case favorites_in w (ui_favorites_path ui) of (ok, l) \<Rightarrow> (ok, with_entries ui l))"

definition favorite_entry_index :: "ui_rom list \<Rightarrow> string \<Rightarrow> string \<Rightarrow> nat option" where
  "favorite_entry_index entries system_id relative_path =
     find_first (\<lambda>e. ur_system_id e = system_id \<and> ur_relative_path e = relative_path) entries"

definition update_top_favorites_count :: "ui_state \<Rightarrow> nat \<Rightarrow> ui_state" where
  "update_top_favorites_count ui n =
     (case find_first (\<lambda>t. te_id t = ''favorites'') (ui_top_entries ui) of
        None \<Rightarrow> ui
      | Some i \<Rightarrow> ui\<lparr>ui_top_entries := (ui_top_entries ui)[i := (ui_top_entries ui ! i)\<lparr>te_rom_count := int n\<rparr>]\<rparr>)"

definition entry_system :: "ui_state \<Rightarrow> ui_rom \<Rightarrow> string" where
  "entry_system ui entry = (if ur_system_id entry \<noteq> [] then ur_system_id entry else ui_current_system_id ui)"

definition flag_favorite :: "ui_state \<Rightarrow> ui_rom list \<Rightarrow> ui_rom \<Rightarrow> ui_rom" where
  "flag_favorite ui favorites entry =
     (let system_id = entry_system ui entry in
      if ur_is_navigation_directory entry \<or> \<not> valid_system_id system_id \<or> \<not> valid_relative_rom_path (ur_relative_path entry)
      then entry\<lparr>ur_is_favorite := False\<rparr>
      else entry\<lparr>ur_is_favorite := (favorite_entry_index favorites system_id (ur_relative_path entry) \<noteq> None)\<rparr>)"

definition mark_favorite_flags :: "os \<Rightarrow> ui_state \<Rightarrow> ui_state" where
  "mark_favorite_flags w ui =
     (if ui_screen_now ui = SCREEN_FAVORITES then ui
      else case favorites_in w (ui_favorites_path ui) of
        (ok, favorites) \<Rightarrow>
          ui\<lparr>ui_rom_entries := map (if ok then flag_favorite ui favorites else (\<lambda>e. e\<lparr>ur_is_favorite := False\<rparr>)) (ui_rom_entries ui)\<rparr>)"

section \<open>Writing the favorites\<close>

definition ui_dirname_path :: "nat \<Rightarrow> string \<Rightarrow> bool \<times> string" where
  "ui_dirname_path n path =
     (if n = 0 \<or> path = [] then (False, [])
      else case strrchr path CHR ''/'' of
        None \<Rightarrow> copy_string n ''.''
      | Some 0 \<Rightarrow> copy_string n ''/''
      | Some i \<Rightarrow> if n < i + 1 then (False, []) else (True, take i path))"

definition ensure_dir_recursive :: "(string \<Rightarrow> bool) \<Rightarrow> string \<Rightarrow> bool" where
  "ensure_dir_recursive mk path =
     (path \<noteq> [] \<and> length path < PATH_MAX \<and> fst (make_dirs mk (slash_prefixes path @ [path])))"

definition ensure_parent_dir_for_file :: "(string \<Rightarrow> bool) \<Rightarrow> string \<Rightarrow> bool" where
  "ensure_parent_dir_for_file mk path =
     (case ui_dirname_path PATH_MAX path of (False, _) \<Rightarrow> False | (True, dir) \<Rightarrow> ensure_dir_recursive mk dir)"

definition favorite_row :: "ui_rom \<Rightarrow> string" where
  \<open>favorite_row e =
     ''{ "system_id": '' @ fprint_json_string (ur_system_id e) @
     '', "relative_path": '' @ fprint_json_string (ur_relative_path e) @
     '', "title": '' @ fprint_json_string (ur_title e) @
     '', "path": '' @ fprint_json_string (ur_path e) @
     '', "media": { "thumbnail": '' @ fprint_json_string (ur_thumbnail e) @ '' } }''\<close>

definition save_favorite_entries_text :: "ui_rom list \<Rightarrow> string" where
  \<open>save_favorite_entries_text entries =
     ''{'' @ [NL] @ ''  "version": 1,'' @ [NL] @ ''  "favorites": ['' @ [NL] @
     entries_text favorite_row entries @ ''  ]'' @ [NL] @ ''}'' @ [NL]\<close>

text \<open>The results of \<open>fprintf\<close> and the error indicator of the stream are not looked at, so the file gets what the writes let through.\<close>

definition save_favorite_entries :: "store_env \<Rightarrow> string \<Rightarrow> ui_rom list \<Rightarrow> disk \<Rightarrow> bool \<times> disk list" where
  "save_favorite_entries e path entries d =
     (if \<not> ensure_parent_dir_for_file (st_mkdir e) path then (False, [])
      else if PATH_MAX \<le> length (path @ ''.tmp'') then (False, [])
      else write_buffer_atomic e path (path @ ''.tmp'') (arrived e (save_favorite_entries_text entries)) d)"

text \<open>The files of the world are those of the disk, whatever of them has reached the medium.\<close>

definition live_os :: "os \<Rightarrow> disk \<Rightarrow> os" where
  "live_os w d = reader_os w (\<lambda>p. map_option fst (d p))"

definition favorite_of_entry :: "string \<Rightarrow> ui_rom \<Rightarrow> ui_rom" where
  "favorite_of_entry system_id entry =
     zero_ui_rom\<lparr>ur_system_id := stored 64 system_id, ur_relative_path := stored UI_PATH_MAX (ur_relative_path entry),
       ur_title := stored 256 (if ur_title entry \<noteq> [] then ur_title entry else ur_relative_path entry),
       ur_path := stored UI_PATH_MAX (ur_path entry), ur_thumbnail := stored UI_PATH_MAX (ur_thumbnail entry)\<rparr>"

definition shows_favorites :: "ui_state \<Rightarrow> bool" where
  "shows_favorites ui \<longleftrightarrow> ui_screen_now ui = SCREEN_FAVORITES \<or>
     ui_screen_now ui = SCREEN_GALLERY \<and> ui_gallery_back_screen ui = SCREEN_FAVORITES"

text \<open>The list of the favorites on the screen is read again after a removal; the cursor stays where it can.\<close>

definition reload_favorites :: "os \<Rightarrow> ui_state \<Rightarrow> ui_state" where
  "reload_favorites w ui =
     (let old_cursor = ui_rom_cursor ui; ui1 = snd (load_favorite_entries w ui); n = length (ui_rom_entries ui1)
      in if 0 < n \<and> n \<le> old_cursor then ui1\<lparr>ui_rom_cursor := n - 1\<rparr>
         else if 0 < n then ui1\<lparr>ui_rom_cursor := old_cursor\<rparr>
         else ui1)"

definition flag_current :: "bool \<Rightarrow> ui_state \<Rightarrow> ui_state" where
  "flag_current b ui =
     ui\<lparr>ui_rom_entries := (ui_rom_entries ui)[ui_rom_cursor ui := (ui_rom_entries ui ! ui_rom_cursor ui)\<lparr>ur_is_favorite := b\<rparr>]\<rparr>"

definition toggle_current_favorite :: "store_env \<Rightarrow> os \<Rightarrow> disk \<Rightarrow> ui_state \<Rightarrow> bool \<times> ui_state \<times> disk list" where
  "toggle_current_favorite e w d ui =
     (if length (ui_rom_entries ui) \<le> ui_rom_cursor ui then (False, set_status ui ''no ROM selected'', [])
      else
        let entry = ui_rom_entries ui ! ui_rom_cursor ui; system_id = entry_system ui entry in
        if ur_is_navigation_directory entry then (False, set_status ui ''directory cannot be favorited'', [])
        else if \<not> valid_system_id system_id \<or> \<not> valid_relative_rom_path (ur_relative_path entry)
          then (False, set_status ui ''favorite target is invalid'', [])
        else case favorites_in (live_os w d) (ui_favorites_path ui) of
          (False, _) \<Rightarrow> (False, set_status ui ''cannot load Favorites'', [])
        | (True, temp) \<Rightarrow>
            (case favorite_entry_index temp system_id (ur_relative_path entry) of
               Some idx \<Rightarrow>
                 let temp = take idx temp @ drop (Suc idx) temp in
                 (case save_favorite_entries e (ui_favorites_path ui) temp d of
                    (False, ds) \<Rightarrow> (False, set_status ui ''cannot update Favorites'', ds)
                  | (True, ds) \<Rightarrow>
                      let ui1 = update_top_favorites_count ui (length temp);
                          ui2 = (if shows_favorites ui1 then reload_favorites (live_os w (last (d # ds))) ui1 else flag_current False ui1)
                      in (True, set_status ui2 ''removed from Favorites'', ds))
             | None \<Rightarrow>
                 let temp = temp @ [favorite_of_entry system_id entry] in
                 (case save_favorite_entries e (ui_favorites_path ui) temp d of
                    (False, ds) \<Rightarrow> (False, set_status ui ''cannot update Favorites'', ds)
                  | (True, ds) \<Rightarrow>
                      (True, set_status (flag_current True (update_top_favorites_count ui (length temp))) ''added to Favorites'', ds))))"

section \<open>Recently played\<close>

definition recent_at :: "string \<Rightarrow> nat \<Rightarrow> nat \<Rightarrow> ui_rom" where
  "recent_at json s e =
     (let entry = common_entry_at json s e (member_at json s e ''system_id'' 64);
          profile = member_at json s e ''launch_profile'' 128;
          last_played_at = member_at json s e ''last_played_at'' 64;
          resume = json_get_bool json s e ''resume_available'' False;
          detail = foldl (appended 256) []
            [ur_system_id entry, '' / resume='', if resume then ''yes'' else ''no'', '' / '', if profile \<noteq> [] then profile else ''-''];
          detail = (if last_played_at \<noteq> [] then foldl (appended 256) detail ['' / '', last_played_at] else detail)
      in entry\<lparr>ur_launch_profile := profile, ur_resume_available := resume, ur_detail := detail\<rparr>)"

definition load_recent_entries :: "os \<Rightarrow> ui_state \<Rightarrow> bool \<times> ui_state" where
  "load_recent_entries w ui =
     (case load_entries w (ui_recent_path ui) ''recents'' recent_at of
        (ok, l) \<Rightarrow>
          let ui1 = with_entries ui l
          in (ok, if ok \<and> os_read w (ui_recent_path ui) \<noteq> None then mark_favorite_flags w ui1 else ui1))"

section \<open>The games of a system as directories\<close>

datatype browse = Hidden | File_Here | Dir_Here string string

definition segment_after :: "string \<Rightarrow> nat \<Rightarrow> string \<Rightarrow> browse" where
  "segment_after rel base_len tail =
     (if tail = [] then Hidden
      else case strchr tail CHR ''/'' of
        None \<Rightarrow> File_Here
      | Some n \<Rightarrow>
          let child = take n tail;
              dir = (if 0 < base_len then take base_len rel @ ''/'' @ child else child)
          in if n = 0 \<or> 256 \<le> n then Hidden
             else if child = ''.'' \<or> child = ''..'' then Hidden
             else if UI_PATH_MAX \<le> length dir then Hidden
             else Dir_Here dir child)"

text \<open>Below the root the first segment is the directory of the system and is not shown.\<close>

definition rom_browser_child_for_path :: "string \<Rightarrow> string \<Rightarrow> browse" where
  "rom_browser_child_for_path rel current_dir =
     (if rel = [] then Hidden
      else if current_dir \<noteq> [] then
        (if prefix current_dir rel \<and> byte_at rel (length current_dir) = CHR ''/''
         then segment_after rel (length current_dir) (drop (length current_dir + 1) rel)
         else Hidden)
      else case strchr rel CHR ''/'' of
        Some i \<Rightarrow> if i + 1 < length rel then segment_after rel i (drop (i + 1) rel) else segment_after rel 0 rel
      | None \<Rightarrow> segment_after rel 0 rel)"

definition rom_navigation_directory_exists :: "ui_state \<Rightarrow> string \<Rightarrow> bool" where
  "rom_navigation_directory_exists ui rel \<longleftrightarrow> rel \<noteq> [] \<and>
     list_ex (\<lambda>e. ur_is_navigation_directory e \<and> ur_relative_path e = rel) (ui_rom_entries ui)"

definition build_navigation_directory_path :: "nat \<Rightarrow> ui_rom \<Rightarrow> string \<Rightarrow> bool \<times> string" where
  "build_navigation_directory_path n source dir =
     (if n = 0 \<or> ur_path source = [] \<or> ur_relative_path source = [] \<or> dir = [] then (False, [])
      else
        let rel_len = length (ur_relative_path source); path_len = length (ur_path source) in
        if rel_len \<le> path_len \<and> drop (path_len - rel_len) (ur_path source) = ur_relative_path source then
          let prefix_len = path_len - rel_len in
          if n < prefix_len + length dir + 1 then (False, [])
          else (True, take prefix_len (ur_path source) @ dir)
        else ui_dirname_path n (ur_path source))"

definition add_navigation_directory_entry :: "ui_state \<Rightarrow> ui_rom \<Rightarrow> string \<Rightarrow> string \<Rightarrow> ui_state" where
  "add_navigation_directory_entry ui source rel name =
     (if rel = [] \<or> name = [] \<or> rom_navigation_directory_exists ui rel then ui
      else ui_append_rom_entry ui
        (zero_ui_rom\<lparr>ur_system_id := stored 64 (ur_system_id source),
           ur_title := (if length (''[DIR] '' @ name) < 256 then ''[DIR] '' @ name else ''[DIR]''),
           ur_relative_path := stored UI_PATH_MAX rel,
           ur_path := snd (build_navigation_directory_path UI_PATH_MAX source rel),
           ur_detail := ''Directory'', ur_extension := ''dir'', ur_is_navigation_directory := True\<rparr>))"

definition rom_at :: "string \<Rightarrow> string \<Rightarrow> nat \<Rightarrow> nat \<Rightarrow> ui_rom" where
  "rom_at system_id json s e =
     (common_entry_at json s e (stored 64 system_id))\<lparr>ur_extension := member_at json s e ''extension'' 32\<rparr>"

definition browse_rom :: "ui_rom \<Rightarrow> ui_state \<Rightarrow> ui_state" where
  "browse_rom entry ui =
     (case rom_browser_child_for_path (ur_relative_path entry) (ui_rom_directory ui) of
        Hidden \<Rightarrow> ui
      | Dir_Here dir child \<Rightarrow> add_navigation_directory_entry ui entry dir child
      | File_Here \<Rightarrow> ui_append_rom_entry ui entry)"

definition sort_rom_entries :: "ui_state \<Rightarrow> ui_state" where
  "sort_rom_entries ui =
     ui\<lparr>ui_rom_entries := sort_by (if fs_sort_roms (ui_frontend_settings ui) = ''path'' then cmp_rom_entry_path else cmp_rom_entry_name)
       (ui_rom_entries ui)\<rparr>"

text \<open>From the cache to the list, and what follows it.\<close>

definition read_rom_cache :: "os \<Rightarrow> string \<Rightarrow> string \<Rightarrow> ui_state \<Rightarrow> bool \<times> ui_state" where
  "read_rom_cache w path system_id ui =
     (case os_read w path of
        None \<Rightarrow> (False, ui)
      | Some json \<Rightarrow>
          (case json_find_array json 0 (length json) ''roms'' of
             None \<Rightarrow> (False, ui)
           | Some (s, e) \<Rightarrow>
               (True, mark_favorite_flags w (sort_rom_entries
                 (json_each_object json e s (\<lambda>_. True) (\<lambda>os oe ui. browse_rom (rom_at system_id json os oe) ui) ui)))))"

definition ui_system_cache_path :: "string \<Rightarrow> string \<Rightarrow> bool \<times> string" where
  "ui_system_cache_path plumos_root system_id =
     (if 128 < length system_id + 6 then (False, [])
      else case join_path PATH_MAX plumos_root ''state/frontend/systems'' of
        (False, _) \<Rightarrow> (False, [])
      | (True, dir) \<Rightarrow> join_path PATH_MAX dir (system_id @ ''.json''))"

definition rom_scan_policy_is_on_enter :: "string \<Rightarrow> bool" where
  "rom_scan_policy_is_on_enter policy \<longleftrightarrow> policy = [] \<or> policy = ''on_enter'' \<or> policy = ''On Enter''"

definition load_rom_entries :: "ui_env \<Rightarrow> os \<Rightarrow> ui_state \<Rightarrow> string \<Rightarrow> bool \<times> ui_state \<times> os" where
  "load_rom_entries ev w ui system_id =
     (let ui = (ui_clear_rom_entries ui)\<lparr>ui_rom_scan_background_started := False\<rparr> in
      if system_id = ''favorites'' then (case load_favorite_entries w ui of (ok, ui') \<Rightarrow> (ok, ui', w))
      else case ui_system_cache_path (ui_plumos_root ui) system_id of
        (False, _) \<Rightarrow> (False, ui, w)
      | (True, path) \<Rightarrow>
          (case load_settings w (ui_settings_path ui) of
             (ok, settings) \<Rightarrow>
               let ui = (if ok then ui else ui\<lparr>ui_status := stored 256 ''settings read failed; using scan defaults''\<rparr>);
                   ui = ui\<lparr>ui_frontend_settings := settings\<rparr>;
                   with_thumbnails = ((if fs_rom_mode settings \<noteq> [] then fs_rom_mode settings else fs_ui_mode settings) = ''graphic'');
                   scan_on_enter = rom_scan_policy_is_on_enter (fs_rom_scan_policy settings)
               in if \<not> file_exists w path then
                    (case ui_run_scanner ev w (ui_plumos_root ui) (ui_sdcard_root ui) (Some system_id) with_thumbnails of
                       (False, w') \<Rightarrow> (False, ui, w')
                     | (True, w') \<Rightarrow>
                         if \<not> file_exists w' path then (False, ui, w')
                         else (case read_rom_cache w' path system_id ui of (ok, ui') \<Rightarrow> (ok, ui', w')))
                  else if (scan_on_enter \<or> ui_refresh ui) \<and> \<not> ui_rom_scan_refresh_suppressed ui then
                    if with_thumbnails then
                      (case ui_run_scanner ev w (ui_plumos_root ui) (ui_sdcard_root ui) (Some system_id) True of
                         (ok, w') \<Rightarrow>
                           let ui = (if ok then ui else ui\<lparr>ui_status := stored 256 ''thumbnail scan failed; using cached ROM list''\<rparr>)
                           in (case read_rom_cache w' path system_id ui of (ok, ui') \<Rightarrow> (ok, ui', w')))
                    else
                      (case trigger_rom_scan_refresh ev w ui system_id False of
                         (_, ui, w') \<Rightarrow> (case read_rom_cache w' path system_id ui of (ok, ui') \<Rightarrow> (ok, ui', w')))
                  else (case read_rom_cache w path system_id ui of (ok, ui') \<Rightarrow> (ok, ui', w))))"

section \<open>Where the cursor was\<close>

definition ui_has_rom_cursor_context :: "ui_state \<Rightarrow> bool" where
  "ui_has_rom_cursor_context ui \<longleftrightarrow> ui_current_system_id ui \<noteq> []"

definition ui_find_rom_cursor_memory :: "ui_state \<Rightarrow> string \<Rightarrow> string \<Rightarrow> nat option" where
  "ui_find_rom_cursor_memory ui system_id directory =
     (if system_id = [] then None
      else find_first (\<lambda>m. cm_system_id m = system_id \<and> cm_directory m = directory) (ui_rom_cursor_memory ui))"

definition remember_current_rom_cursor :: "ui_state \<Rightarrow> ui_state" where
  "remember_current_rom_cursor ui =
     (if \<not> ui_has_rom_cursor_context ui \<or> length (ui_rom_entries ui) \<le> ui_rom_cursor ui then ui
      else
        let entry = ui_rom_entries ui ! ui_rom_cursor ui;
            m = \<lparr>cm_system_id = stored 64 (ui_current_system_id ui), cm_directory = stored UI_PATH_MAX (ui_rom_directory ui),
                 cm_relative_path = stored UI_PATH_MAX (ur_relative_path entry)\<rparr>
        in if ur_relative_path entry = [] then ui
           else case ui_find_rom_cursor_memory ui (ui_current_system_id ui) (ui_rom_directory ui) of
             Some i \<Rightarrow> ui\<lparr>ui_rom_cursor_memory := (ui_rom_cursor_memory ui)[i := m]\<rparr>
           | None \<Rightarrow>
               if UI_ROM_CURSOR_MEMORY_MAX \<le> length (ui_rom_cursor_memory ui)
               then ui\<lparr>ui_rom_cursor_memory := tl (ui_rom_cursor_memory ui) @ [m]\<rparr>
               else ui\<lparr>ui_rom_cursor_memory := ui_rom_cursor_memory ui @ [m]\<rparr>)"

definition restore_current_rom_cursor :: "ui_state \<Rightarrow> bool \<times> ui_state" where
  "restore_current_rom_cursor ui =
     (if \<not> ui_has_rom_cursor_context ui \<or> ui_rom_entries ui = [] then (False, ui)
      else case ui_find_rom_cursor_memory ui (ui_current_system_id ui) (ui_rom_directory ui) of
        None \<Rightarrow> (False, ui\<lparr>ui_rom_cursor := 0\<rparr>)
      | Some i \<Rightarrow>
          let rel = cm_relative_path (ui_rom_cursor_memory ui ! i) in
          if rel = [] then (False, ui\<lparr>ui_rom_cursor := 0\<rparr>)
          else case find_first (\<lambda>e. ur_relative_path e = rel) (ui_rom_entries ui) of
            Some j \<Rightarrow> (True, ui\<lparr>ui_rom_cursor := j\<rparr>)
          | None \<Rightarrow> (False, ui\<lparr>ui_rom_cursor := 0\<rparr>))"

section \<open>Into a directory and back\<close>

definition reload_rom_directory_no_scan :: "ui_env \<Rightarrow> os \<Rightarrow> ui_state \<Rightarrow> string \<Rightarrow> bool \<times> ui_state \<times> os" where
  "reload_rom_directory_no_scan ev w ui status =
     (if ui_current_system_id ui = [] then (False, ui, w)
      else
        let saved = ui_rom_scan_refresh_suppressed ui in
        case load_rom_entries ev w (ui\<lparr>ui_rom_scan_refresh_suppressed := True\<rparr>) (ui_current_system_id ui) of
          (ok, ui1, w1) \<Rightarrow>
            let ui1 = ui1\<lparr>ui_rom_scan_refresh_suppressed := saved\<rparr> in
            if \<not> ok then (False, set_status ui1 ''cannot load ROM directory'', w1)
            else (True, set_status (snd (restore_current_rom_cursor ui1)) status, w1))"

definition open_rom_directory_entry :: "ui_env \<Rightarrow> os \<Rightarrow> ui_state \<Rightarrow> ui_rom \<Rightarrow> bool \<times> ui_state \<times> os" where
  "open_rom_directory_entry ev w ui entry =
     (if \<not> ur_is_navigation_directory entry \<or> ur_relative_path entry = [] then (False, ui, w)
      else
        let ui1 = remember_current_rom_cursor ui;
            old_directory = stored UI_PATH_MAX (ui_rom_directory ui1)
        in case reload_rom_directory_no_scan ev w
              (ui1\<lparr>ui_rom_directory := stored UI_PATH_MAX (ur_relative_path entry)\<rparr>) ''ROM directory ready'' of
             (True, ui2, w2) \<Rightarrow> (True, ui2, w2)
           | (False, ui2, w2) \<Rightarrow> (False, ui2\<lparr>ui_rom_directory := stored UI_PATH_MAX old_directory\<rparr>, w2))"

definition parent_rom_directory :: "string \<Rightarrow> string" where
  "parent_rom_directory dir =
     (case strrchr dir CHR ''/'' of
        None \<Rightarrow> []
      | Some i \<Rightarrow> if strchr dir CHR ''/'' = Some i then [] else take i dir)"

definition open_parent_rom_directory :: "ui_env \<Rightarrow> os \<Rightarrow> ui_state \<Rightarrow> bool \<times> ui_state \<times> os" where
  "open_parent_rom_directory ev w ui =
     (if ui_rom_directory ui = [] then (False, ui, w)
      else
        let ui1 = remember_current_rom_cursor ui;
            old_directory = stored UI_PATH_MAX (ui_rom_directory ui1);
            parent = parent_rom_directory (ui_rom_directory ui1)
        in case reload_rom_directory_no_scan ev w (ui1\<lparr>ui_rom_directory := parent\<rparr>)
              (if parent \<noteq> [] then ''parent directory ready'' else ''ROM list ready'') of
             (True, ui2, w2) \<Rightarrow> (True, ui2, w2)
           | (False, ui2, w2) \<Rightarrow> (False, ui2\<lparr>ui_rom_directory := stored UI_PATH_MAX old_directory\<rparr>, w2))"

end
