(* ===== verification/UiSettingsProofs.thy ===== *)
theory UiSettingsProofs
  imports UiSettings
begin

text \<open>
  Reading keys from a text that holds a list of fields, and from it that saved settings are read back whole.
\<close>

section \<open>The file as a list of fields\<close>

definition member_field :: "string \<times> setting_value \<Rightarrow> field" where
  "member_field m = (fst m, case snd m of SText s \<Rightarrow> JStr s | SBool b \<Rightarrow> JRaw (if b then ''true'' else ''false'') | SLong v \<Rightarrow> JRaw (show_nat (nat v)))"

abbreviation member_sep :: string where "member_sep \<equiv> '','' @ [NL] @ ''  ''"

definition member_ok :: "string \<times> setting_value \<Rightarrow> bool" where
  "member_ok m \<longleftrightarrow> simple_key (fst m) \<and>
     (case snd m of SText s \<Rightarrow> NUL \<notin> set s \<and> list_all config_char s | SBool b \<Rightarrow> True | SLong v \<Rightarrow> 0 \<le> v)"

lemma member_text: "member_ok m \<Longrightarrow> setting_text m = field_text (member_field m)"
  by (cases m; cases "snd m") (auto simp: member_ok_def member_field_def field_text_def fprint_config show_int_def)

lemma members_fields: "list_all member_ok ms \<Longrightarrow> ms \<noteq> [] \<Longrightarrow>
    members_text ms = ''  '' @ fields_text member_sep (map member_field ms) @ [NL]"
  by (induction ms rule: members_text.induct) (auto simp: member_text)

lemma member_fields_ok: "list_all member_ok ms \<Longrightarrow> fields_ok (map member_field ms)"
  using show_nat_raw by (auto simp: fields_ok_def list_all_iff member_ok_def member_field_def raw_char_def isalnum_def isdigit_def code_of_def split: setting_value.splits)

lemma member_sep_ok: "sep_ok member_sep"
  by (simp add: sep_ok_def isspace_def)

text \<open>A key read from fields that stand in a text after something without quotes.\<close>

lemma find_key_in_text:
  assumes t: "t = pre @ fields_text sep fs @ post" and pre: "DQ \<notin> set pre" "NUL \<notin> set pre" and post: "field_end post" "post \<noteq> []"
    and ok: "fields_ok fs" "sep_ok sep" "simple_key key" "map_of fs key = Some v"
  shows "\<exists>q r. json_find_key_value t 0 (length t) key = Some q \<and> drop q t = jval_text v @ r \<and> field_end r \<and>
    q + length (jval_text v) \<le> length t"
proof -
  have d: "drop 0 t = pre @ fields_text sep fs @ post" by (simp add: t)
  have skip: "find_key_loop t 0 (length t) (DQ # key @ [DQ]) = find_key_loop t (length pre) (length t) (DQ # key @ [DQ])"
    using find_key_skip_plain [OF d] pre by (simp add: t)
  have d2: "drop (length pre) t = fields_text sep fs @ post" by (simp add: t)
  have "length pre + length (fields_text sep fs) < length t" using post(2) by (simp add: t)
  from find_key_fields [OF d2 this _ ok(1,2) post(1) ok(3,4)] show ?thesis
    by (simp add: json_find_key_value_def key_pattern_simple [OF ok(3)] skip)
qed

definition fields_in :: "string \<Rightarrow> field list \<Rightarrow> bool" where
  "fields_in t fs \<longleftrightarrow> (\<exists>pre sep post. t = pre @ fields_text sep fs @ post \<and> DQ \<notin> set pre \<and> NUL \<notin> set pre \<and>
     field_end post \<and> post \<noteq> [] \<and> fields_ok fs \<and> sep_ok sep)"

lemma find_key_in:
  assumes "fields_in t fs" and "simple_key key" and "map_of fs key = Some v"
  shows "\<exists>q r. json_find_key_value t 0 (length t) key = Some q \<and> drop q t = jval_text v @ r \<and> field_end r \<and>
    q + length (jval_text v) \<le> length t"
  using assms find_key_in_text unfolding fields_in_def by blast

lemma get_string_in:
  assumes "fields_in t fs" and "simple_key key" and "map_of fs key = Some (JStr s)" and "str_ok n s"
  shows "json_get_string t 0 (length t) key n old = (True, s)"
proof -
  obtain q r where q: "json_find_key_value t 0 (length t) key = Some q" "drop q t = json_write_escaped s @ r"
    "q + length (json_write_escaped s) \<le> length t"
    using find_key_in [OF assms(1-3)] by auto
  have "0 < n" "NUL \<notin> set s" using assms(4) by (auto simp: str_ok_def)
  with decode_written [OF q(2,3)] q(1) str_ok_read [OF assms(4)] show ?thesis by (simp add: json_get_string_def)
qed

lemma get_bool_in:
  assumes "fields_in t fs" and "simple_key key" and "map_of fs key = Some (JRaw (if b then ''true'' else ''false''))"
  shows "json_get_bool t 0 (length t) key dflt = b"
proof -
  obtain q r where "json_find_key_value t 0 (length t) key = Some q" "drop q t = (if b then ''true'' else ''false'') @ r"
    "q + length (if b then ''true'' else ''false'') \<le> length t"
    using find_key_in [OF assms] by auto
  then show ?thesis by (cases b) (auto simp: json_get_bool_def)
qed

lemma get_long_in:
  assumes "fields_in t fs" and "simple_key key" and "map_of fs key = Some (JRaw (show_nat (nat v)))" and "0 \<le> v" "v \<le> LONG_MAX"
  shows "json_get_long t 0 (length t) key dflt = v"
proof -
  obtain q r where q: "json_find_key_value t 0 (length t) key = Some q" "drop q t = show_nat (nat v) @ r" "field_end r"
    using find_key_in [OF assms(1-3)] by auto
  then have "digits_end r" by (auto simp: field_end_def digits_end_def isalnum_def)
  with strtol_show_nat [of r "nat v"] assms(4,5) q show ?thesis by (simp add: json_get_long_def)
qed

section \<open>Saving and loading\<close>

definition text_ok :: "nat \<Rightarrow> string \<Rightarrow> bool" where
  "text_ok n s \<longleftrightarrow> length s < n \<and> NUL \<notin> set s \<and> list_all config_char s"

lemma text_ok_str: "text_ok n s \<Longrightarrow> str_ok n s"
  using config_char_plain by (auto simp: text_ok_def str_ok_def list_all_iff)

definition boot_modes :: "string list" where
  "boot_modes = [''on'', ''recent'', ''off'']"

definition settings_ok :: "frontend_settings \<Rightarrow> bool" where
  "settings_ok s \<longleftrightarrow>
     list_all (text_ok 32) [fs_ui_mode s, fs_top_mode s, fs_rom_mode s, fs_graphic_top_layout s, fs_graphic_transition s,
       fs_graphic_transition_axis s, fs_graphic_transition_easing s] \<and>
     list_all (text_ok 64) [fs_graphic_theme_id s, fs_sort_systems s, fs_sort_roms s, fs_rom_scan_policy s, fs_last_system_id s] \<and>
     list_all (\<lambda>v. 0 \<le> v \<and> v \<le> LONG_MAX) [fs_graphic_transition_ms s, fs_rom_scan_slow_threshold_ms s, fs_rom_scan_test_file_count s] \<and>
     fs_theme_id s = fs_graphic_theme_id s \<and> fs_boot_resume_mode s \<in> set boot_modes"

abbreviation settings_fields :: "frontend_settings \<Rightarrow> field list" where
  "settings_fields s \<equiv> map member_field (settings_members s)"

lemma boot_modes_fit: "mode \<in> set boot_modes \<Longrightarrow> text_ok 32 mode \<and> normalize_boot_resume_mode mode = mode"
proof -
  have "list_all (\<lambda>m. text_ok 32 m \<and> normalize_boot_resume_mode m = m) boot_modes" by code_simp
  then show "mode \<in> set boot_modes \<Longrightarrow> text_ok 32 mode \<and> normalize_boot_resume_mode mode = mode" by (simp add: list_all_iff)
qed

definition setting_keys :: "string list" where
  "setting_keys = map fst (settings_members init_frontend_settings)"

lemma setting_keys_simple: "list_all simple_key setting_keys"
  by code_simp

lemma settings_keys: "list_all (\<lambda>m. simple_key (fst m)) (settings_members s)"
proof -
  have "map fst (settings_members s) = setting_keys" by (simp add: setting_keys_def settings_members_def)
  with setting_keys_simple show ?thesis by (metis list_all_iff imageI set_map)
qed

lemma settings_members_ok: "settings_ok s \<Longrightarrow> list_all member_ok (settings_members s)"
  using settings_keys [of s] boot_modes_fit [of "fs_boot_resume_mode s"]
  by (simp add: member_ok_def settings_members_def settings_ok_def text_ok_def)

lemma settings_fields_in: "settings_ok s \<Longrightarrow> fields_in (save_settings_text s) (settings_fields s)"
proof -
  assume ok: "settings_ok s"
  have t: "save_settings_text s = (''{'' @ [NL] @ ''  '') @ fields_text member_sep (settings_fields s) @ ([NL] @ ''}'' @ [NL])"
    using members_fields [OF settings_members_ok [OF ok]] by (simp add: save_settings_text_def settings_members_def)
  have "field_end ([NL] @ ''}'' @ [NL])"
    by (simp add: field_end_def no_colon_def isspace_def isalnum_def isdigit_def code_of_def)
  with t member_fields_ok [OF settings_members_ok [OF ok]] member_sep_ok show ?thesis
    unfolding fields_in_def by (intro exI conjI) (assumption | simp)+
qed

lemma settings_field:
  assumes "settings_ok s" and "(key, v) \<in> set (settings_members s)"
  shows "simple_key key" and "map_of (settings_fields s) key = Some (snd (member_field (key, v)))"
proof -
  have "distinct (map fst (settings_members s))" by (simp add: settings_members_def)
  then have "distinct (map fst (settings_fields s))" by (simp add: member_field_def comp_def)
  moreover have "member_field (key, v) \<in> set (settings_fields s)" using assms(2) by simp
  ultimately show "map_of (settings_fields s) key = Some (snd (member_field (key, v)))"
    by (intro map_of_is_SomeI) (simp_all add: member_field_def)
  show "simple_key key" using settings_keys [of s] assms(2) by (auto simp: list_all_iff)
qed

lemma settings_text_read:
  assumes "settings_ok s" and "(key, SText x) \<in> set (settings_members s)" and "text_ok n x"
  shows "json_get_string (save_settings_text s) 0 (length (save_settings_text s)) key n old = (True, x)"
  using get_string_in [OF settings_fields_in [OF assms(1)] settings_field(1) [OF assms(1,2)] _ text_ok_str [OF assms(3)]]
    settings_field(2) [OF assms(1,2)] by (simp add: member_field_def)

lemma settings_bool_read:
  assumes "settings_ok s" and "(key, SBool x) \<in> set (settings_members s)"
  shows "json_get_bool (save_settings_text s) 0 (length (save_settings_text s)) key dflt = x"
  using get_bool_in [OF settings_fields_in [OF assms(1)] settings_field(1) [OF assms(1,2)]]
    settings_field(2) [OF assms(1,2)] by (simp add: member_field_def)

lemma settings_long_read:
  assumes "settings_ok s" and "(key, SLong x) \<in> set (settings_members s)" and "0 \<le> x" "x \<le> LONG_MAX"
  shows "json_get_long (save_settings_text s) 0 (length (save_settings_text s)) key dflt = x"
  using get_long_in [OF settings_fields_in [OF assms(1)] settings_field(1) [OF assms(1,2)] _ assms(3,4)]
    settings_field(2) [OF assms(1,2)] by (simp add: member_field_def)

lemma settings_reload:
  assumes ok: "settings_ok s"
  shows "read_settings (save_settings_text s) = s"
proof -
  let ?t = "save_settings_text s"
  note boot = boot_modes_fit [of "fs_boot_resume_mode s"]
  have str: "get_setting ?t key n old = x" if "(key, SText x) \<in> set (settings_members s)" "text_ok n x" for key n old x
    using settings_text_read [OF ok that] by (simp add: get_setting_def)
  have strings:
    "\<And>old. get_setting ?t ''ui_mode'' 32 old = fs_ui_mode s"
    "\<And>old. get_setting ?t ''top_mode'' 32 old = fs_top_mode s"
    "\<And>old. get_setting ?t ''rom_mode'' 32 old = fs_rom_mode s"
    "\<And>old. get_setting ?t ''graphic_top_layout'' 32 old = fs_graphic_top_layout s"
    "\<And>old. get_setting ?t ''graphic_transition'' 32 old = fs_graphic_transition s"
    "\<And>old. get_setting ?t ''graphic_transition_axis'' 32 old = fs_graphic_transition_axis s"
    "\<And>old. get_setting ?t ''graphic_transition_easing'' 32 old = fs_graphic_transition_easing s"
    "\<And>old. get_setting ?t ''boot_resume_mode'' 32 old = fs_boot_resume_mode s"
    "\<And>old. get_setting ?t ''sort_systems'' 64 old = fs_sort_systems s"
    "\<And>old. get_setting ?t ''sort_roms'' 64 old = fs_sort_roms s"
    "\<And>old. get_setting ?t ''rom_scan_policy'' 64 old = fs_rom_scan_policy s"
    "\<And>old. get_setting ?t ''last_system_id'' 64 old = fs_last_system_id s"
    "\<And>old. get_setting ?t ''theme_id'' 64 old = fs_graphic_theme_id s"
    "\<And>old. json_get_string ?t 0 (length ?t) ''graphic_theme_id'' 64 old = (True, fs_graphic_theme_id s)"
    by (rule str settings_text_read [OF ok]; use ok boot in \<open>simp add: settings_members_def settings_ok_def\<close>)+
  have bools:
    "\<And>d. json_get_bool ?t 0 (length ?t) ''show_empty_systems'' d = fs_show_empty_systems s"
    "\<And>d. json_get_bool ?t 0 (length ?t) ''show_favorites_on_top'' d = fs_show_favorites_on_top s"
    "\<And>d. json_get_bool ?t 0 (length ?t) ''show_recent_on_top'' d = fs_show_recent_on_top s"
    "\<And>d. json_get_bool ?t 0 (length ?t) ''rom_cursor_wrap'' d = fs_rom_cursor_wrap s"
    by (rule settings_bool_read [OF ok]; simp add: settings_members_def)+
  have longs:
    "\<And>d. json_get_long ?t 0 (length ?t) ''graphic_transition_ms'' d = fs_graphic_transition_ms s"
    "\<And>d. json_get_long ?t 0 (length ?t) ''rom_scan_slow_threshold_ms'' d = fs_rom_scan_slow_threshold_ms s"
    "\<And>d. json_get_long ?t 0 (length ?t) ''rom_scan_test_file_count'' d = fs_rom_scan_test_file_count s"
    by (rule settings_long_read [OF ok]; use ok in \<open>simp add: settings_members_def settings_ok_def\<close>)+
  show ?thesis
    unfolding read_settings_def Let_def strings bools longs
    using ok boot by (simp add: settings_ok_def)
qed


text \<open>
  C15: The frontend's settings survive a power loss while they are saved. At every state of the disk a frontend that starts reads the
  settings from before the save or the saved ones, each field as it was, and once the save has succeeded it reads the saved ones.
\<close>

theorem settings_save_crash_safe:
  assumes ok: "settings_ok s"
  shows "list_all (\<lambda>d'. load_settings (reader_os w (after_crash g d')) path \<in>
        {load_settings (reader_os w (after_crash g d)) path, (True, s)}) (snd (save_settings e path s d)) \<and>
    (fst (save_settings e path s d) \<longrightarrow>
      load_settings (reader_os w (after_crash g (disk_after (save_settings e path s d) d))) path = (True, s))"
proof -
  have new: "load_settings (reader_os w m) path = (True, s)" if "m path = Some (save_settings_text s)" for m
    using that settings_reload [OF ok] by (simp add: load_settings_def reader_os_def file_exists_def)
  have same: "load_settings (reader_os w m) path = load_settings (reader_os w m') path" if "m path = m' path" for m m'
    using that by (simp add: load_settings_def reader_os_def file_exists_def)
  have tmp: "path @ ''.tmp'' \<noteq> path" by simp
  have one: "load_settings (reader_os w (after_crash g d')) path \<in> {load_settings (reader_os w (after_crash g d)) path, (True, s)}"
    if "(d' path = d path \<or> d' path = Some (save_settings_text s, True)) \<and> (\<forall>q. q = path \<or> q = path @ ''.tmp'' \<or> d' q = d q)" for d'
  proof (cases "d' path = d path")
    case True
    then have "after_crash g d' path = after_crash g d path" by (simp add: after_crash_def)
    from same [of "after_crash g d'" "after_crash g d", OF this] show ?thesis by simp
  next
    case False
    with that have "after_crash g d' path = Some (save_settings_text s)" by (simp add: after_crash_def)
    from new [of "after_crash g d'", OF this] show ?thesis by simp
  qed
  show ?thesis
  proof (cases "PATH_MAX \<le> length (path @ ''.tmp'')")
    case False
    then have w: "save_settings e path s d = write_buffer_atomic e path (path @ ''.tmp'') (save_settings_text s) d"
      by (simp add: save_settings_def)
    show ?thesis
    proof (intro conjI impI)
      show "list_all (\<lambda>d'. load_settings (reader_os w (after_crash g d')) path \<in>
          {load_settings (reader_os w (after_crash g d)) path, (True, s)}) (snd (save_settings e path s d))"
        unfolding w by (rule list.pred_mono_strong [OF write_buffer_states [OF tmp]]) (rule one)
      assume "fst (save_settings e path s d)"
      with write_buffer_done [of e path "path @ ''.tmp''" "save_settings_text s" d]
      have "disk_after (save_settings e path s d) d path = Some (save_settings_text s, True)"
        by (simp add: w disk_after_def)
      then have "after_crash g (disk_after (save_settings e path s d) d) path = Some (save_settings_text s)"
        by (simp add: after_crash_def)
      from new [of "after_crash g (disk_after (save_settings e path s d) d)", OF this]
      show "load_settings (reader_os w (after_crash g (disk_after (save_settings e path s d) d))) path = (True, s)" .
    qed
  qed (simp add: save_settings_def)
qed

theorem settings_save_crash_safe_witness:
  "load_settings (reader_os demo_os (after_crash (\<lambda>_. []) (disk_after (save_settings demo_store ''/s''
      (init_frontend_settings\<lparr>fs_sort_roms := ''path''\<rparr>) (\<lambda>_. None)) (\<lambda>_. None)))) ''/s'' =
    (True, init_frontend_settings\<lparr>fs_sort_roms := ''path''\<rparr>)"
proof -
  have ok: "settings_ok (init_frontend_settings\<lparr>fs_sort_roms := ''path''\<rparr>)" by code_simp
  have "fst (save_settings demo_store ''/s'' (init_frontend_settings\<lparr>fs_sort_roms := ''path''\<rparr>) (\<lambda>_. None))"
    by (simp add: save_settings_def write_buffer_atomic_def demo_store_def PATH_MAX_def Let_def)
  with settings_save_crash_safe [OF ok] show ?thesis by blast
qed

end
