(* ===== verification/JsonRows.thy ===== *)
theory JsonRows
  imports JsonRange
begin

text \<open>
  Arrays of rows whatever the shape of a row: all that counts is that the reader takes a row for one object and that brackets around it
  match across it. The rows of \<open>JsonTable\<close> are of this kind, and so are rows with an object inside.
\<close>

section \<open>Rows\<close>

definition row_ok :: "string \<Rightarrow> bool" where
  "row_ok x \<longleftrightarrow> (\<exists>y. x = CHR ''{'' # y) \<and> NUL \<notin> set x \<and>
     (\<exists>ss. x = segs_text ss \<and> list_all (seg_ok CHR ''['' CHR '']'') ss) \<and>
     (\<forall>t p e r. drop p t = x @ r \<longrightarrow> p + length x \<le> e \<longrightarrow>
        (\<exists>b c. json_match_container t p e CHR ''{'' CHR ''}'' = Some (b, c, p + length x)))"

lemma object_row_ok:
  assumes "fields_ok fs" and "sep_ok sep"
  shows "row_ok (object_text sep fs)"
proof -
  let ?x = "object_text sep fs" and ?ss = "Plain ''{ '' # fields_segs sep fs @ [Plain '' }'']"
  have "\<exists>b c. json_match_container t p e CHR ''{'' CHR ''}'' = Some (b, c, p + length ?x)"
    if d: "drop p t = ?x @ r" and le: "p + length ?x \<le> e" for t p e r
  proof -
    have "json_next_object t p e = Some (p, p + length ?x)"
      using next_object_written [of p t "[]" sep fs r e] d le assms by simp
    then show ?thesis by (auto simp: json_next_object_def Let_def split: if_splits option.splits)
  qed
  moreover have "list_all (seg_ok CHR ''['' CHR '']'') ?ss"
    using fields_segs_ok [OF assms] by (simp add: bracket_pair_def)
  ultimately show ?thesis
    using object_segs [OF assms(1)] object_no_nul [OF assms] unfolding row_ok_def
    by (intro conjI exI [of _ ?ss]) (auto simp: object_text_def)
qed

lemma next_row:
  assumes d: "drop p t = pre @ x @ r" and "CHR ''{'' \<notin> set pre" and "row_ok x" and le: "p + length pre + length x \<le> e"
  shows "json_next_object t p e = Some (p + length pre, p + length pre + length x)"
proof -
  obtain y where y: "x = CHR ''{'' # y" using assms(3) by (auto simp: row_ok_def)
  have "skip_to t p e CHR ''{'' = p + length pre"
    using skip_to_plain [of p t pre "CHR ''{''" "y @ r"] d assms(2) le y by simp
  moreover have "drop (p + length pre) t = x @ r" by (rule drop_step [OF d])
  then obtain b c where "json_match_container t (p + length pre) e CHR ''{'' CHR ''}'' = Some (b, c, p + length pre + length x)"
    using assms(3) le unfolding row_ok_def by blast
  ultimately show ?thesis using le y by (simp add: json_next_object_def Let_def)
qed

section \<open>Loops over rows\<close>

lemma each_row_from:
  assumes "drop p t = pre @ entries_text obj es @ tail @ r" and "e = p + length pre + length (entries_text obj es) + length tail"
    and "CHR ''{'' \<notin> set pre" and "list_all (row_ok \<circ> obj) es" and "CHR ''{'' \<notin> set tail"
    and "\<And>x s r st. x \<in> set es \<Longrightarrow> drop s t = obj x @ r \<Longrightarrow> go st \<Longrightarrow> step s (s + length (obj x)) st = body x st"
  shows "json_each_object t e p go step st = fold_while go body es st"
  using assms
proof (induction es arbitrary: p pre st)
  case Nil
  then have "skip_to t p e CHR ''{'' = e"
    using skip_to_none [of p t "pre @ tail" r "CHR ''{''"] by (simp add: add.assoc)
  then show ?case by (subst json_each_object.simps) (simp add: json_next_object_def Let_def)
next
  case (Cons x es)
  define sep where "sep = (if es = [] then [NL] else '','' @ [NL])"
  have et: "entries_text obj (x # es) = ''    '' @ obj x @ sep @ (if es = [] then [] else entries_text obj es)"
    by (simp add: entries_text_Cons sep_def)
  have e0: "(if es = [] then [] else entries_text obj es) = entries_text obj es" by simp
  have d: "drop p t = (pre @ ''    '') @ obj x @ (sep @ entries_text obj es @ tail @ r)"
    using Cons.prems(1) unfolding et e0 by simp
  have len: "e = p + length (pre @ ''    '') + length (obj x) + length sep + length (entries_text obj es) + length tail"
    using Cons.prems(2) unfolding et e0 by simp
  have ok: "row_ok (obj x)" using Cons.prems(4) by simp
  have nxt: "json_next_object t p e = Some (p + length (pre @ ''    ''), p + length (pre @ ''    '') + length (obj x))"
    using len Cons.prems(3) by (intro next_row [OF d _ ok]) auto
  have d1: "drop (p + length (pre @ ''    '')) t = obj x @ (sep @ entries_text obj es @ tail @ r)" by (rule drop_step [OF d])
  have d2: "drop (p + length (pre @ ''    '') + length (obj x)) t = sep @ entries_text obj es @ tail @ r"
    by (rule drop_step [OF d1])
  have "json_each_object t e (p + length (pre @ ''    '') + length (obj x)) go step st' = fold_while go body es st'" for st'
    using Cons.prems(4-6) len by (intro Cons.IH [OF d2]) (auto simp: sep_def)
  with nxt Cons.prems(6) [OF _ d1] show ?case by (subst json_each_object.simps) simp
qed

lemma rows_array:
  assumes d: "drop p t = array_text obj es @ r" and le: "p + length (array_text obj es) \<le> e"
    and ok: "list_all (row_ok \<circ> obj) es"
  shows "json_match_container t p e CHR ''['' CHR '']'' =
      Some (p + 1, p + length (array_text obj es) - 1, p + length (array_text obj es))"
    and "(\<And>x s r st. x \<in> set es \<Longrightarrow> drop s t = obj x @ r \<Longrightarrow> go st \<Longrightarrow> step s (s + length (obj x)) st = body x st) \<Longrightarrow>
      json_each_object t (p + length (array_text obj es) - 1) (p + 1) go step st = fold_while go body es st"
proof -
  let ?inner = "[NL] @ entries_text obj es @ ''  ''"
  have segs: "\<exists>ss. entries_text obj es = segs_text ss \<and> list_all (seg_ok CHR ''['' CHR '']'') ss"
    using ok
  proof (induction es)
    case (Cons x es)
    then obtain s1 s2 where s: "obj x = segs_text s1" "list_all (seg_ok CHR ''['' CHR '']'') s1"
      "entries_text obj es = segs_text s2" "list_all (seg_ok CHR ''['' CHR '']'') s2"
      by (auto simp: row_ok_def)
    have "entries_text obj (x # es) =
        segs_text (Plain ''    '' # s1 @ (if es = [] then [Plain [NL]] else Plain ('','' @ [NL]) # s2))"
      using s by (simp add: entries_text_Cons)
    with s show ?case by (intro exI conjI) (assumption | auto)+
  qed (auto intro: exI [of _ "[]"])
  then obtain ss where "entries_text obj es = segs_text ss" "list_all (seg_ok CHR ''['' CHR '']'') ss" by blast
  then have "?inner = segs_text (Plain [NL] # ss @ [Plain ''  ''])"
    "list_all (seg_ok CHR ''['' CHR '']'') (Plain [NL] # ss @ [Plain ''  ''])" by simp_all
  then obtain S where ss: "?inner = segs_text S" "list_all (seg_ok CHR ''['' CHR '']'') S" by blast
  have arr: "array_text obj es = CHR ''['' # ?inner @ '']''" by (simp add: array_text_def)
  have d': "drop p t = CHR ''['' # segs_text S @ CHR '']'' # r" unfolding ss(1) [symmetric] using d arr by simp
  have le': "p + length (segs_text S) + 2 \<le> e" unfolding ss(1) [symmetric] using le arr by simp
  have be: "p + length (array_text obj es) - 1 = p + 1 + length ?inner" by (simp add: arr)
  show "json_match_container t p e CHR ''['' CHR '']'' =
      Some (p + 1, p + length (array_text obj es) - 1, p + length (array_text obj es))"
    using match_container_segs [OF d' le' ss(2)] arr unfolding ss(1) [symmetric] be by simp
  have d1: "drop (p + 1) t = [NL] @ entries_text obj es @ ''  '' @ ('']'' @ r)"
    using drop_step1 [of p t "CHR ''[''"] d arr by simp
  show "json_each_object t (p + length (array_text obj es) - 1) (p + 1) go step st = fold_while go body es st"
    if "\<And>x s r st. x \<in> set es \<Longrightarrow> drop s t = obj x @ r \<Longrightarrow> go st \<Longrightarrow> step s (s + length (obj x)) st = body x st"
    unfolding be using that ok by (intro each_row_from [OF d1]) auto
qed

lemma rows_file:
  assumes t: "t = file_head key @ array_text obj es @ r" and key: "simple_key key" "key \<noteq> ''version''"
    and ok: "list_all (row_ok \<circ> obj) es"
    and step: "\<And>x s r st. x \<in> set es \<Longrightarrow> drop s t = obj x @ r \<Longrightarrow> go st \<Longrightarrow> step s (s + length (obj x)) st = body x st"
  shows "\<exists>s be. json_find_array t 0 (length t) key = Some (s, be) \<and> json_each_object t be s go step st = fold_while go body es st"
proof -
  have head: "t = file_head key @ CHR ''['' # ([NL] @ entries_text obj es @ ''  ]'' @ r)"
    by (simp add: t array_text_def)
  have f: "json_find_key_value t 0 (length t) key = Some (length (file_head key))"
    by (rule file_head_find [OF head key]) (simp add: isspace_def)
  have d: "drop (length (file_head key)) t = array_text obj es @ r" by (simp add: t)
  have le: "length (file_head key) + length (array_text obj es) \<le> length t" by (simp add: t)
  have "json_each_object t (length (file_head key) + length (array_text obj es) - 1) (length (file_head key) + 1) go step st =
      fold_while go body es st"
    by (rule rows_array(2) [OF d le ok]) (rule step)
  with f rows_array(1) [OF d le ok] show ?thesis by (auto simp: json_find_array_def)
qed

section \<open>A row with an object as its last member\<close>

definition nested_row :: "field list \<Rightarrow> string \<Rightarrow> field list \<Rightarrow> string" where
  "nested_row fs key sub =
     ''{ '' @ fields_text field_sep fs @ '', '' @ DQ # key @ [DQ] @ '': '' @ object_text field_sep sub @ '' }''"

definition nested_ok :: "field list \<Rightarrow> string \<Rightarrow> field list \<Rightarrow> bool" where
  "nested_ok fs key sub \<longleftrightarrow> fields_ok fs \<and> simple_key key \<and> fields_ok sub"

lemma nested_row_ok:
  assumes "nested_ok fs key sub"
  shows "row_ok (nested_row fs key sub)"
proof -
  have ok: "fields_ok fs" "simple_key key" "fields_ok sub" using assms by (simp_all add: nested_ok_def)
  let ?x = "nested_row fs key sub" and ?o = "object_text field_sep sub"
  let ?pre = "Plain '' '' # fields_segs field_sep fs @ [Plain '', '', Written key, Plain '': '']"
  have x: "?x = CHR ''{'' # segs_text ?pre @ ?o @ '' }''"
    using ok by (simp add: nested_row_def fields_segs_text written_simple)
  have x2: "?x = segs_text (Plain ''{ '' # tl ?pre @ Plain ''{ '' # fields_segs field_sep sub @ [Plain '' }'', Plain '' }''])"
    using ok by (simp add: nested_row_def fields_segs_text written_simple object_text_def)
  have bp: "bracket_pair CHR ''{'' CHR ''}''" "bracket_pair CHR ''['' CHR '']''" by (simp_all add: bracket_pair_def)
  have segs: "list_all (seg_ok CHR ''{'' CHR ''}'') ?pre" "list_all (seg_ok CHR ''['' CHR '']'') ?pre"
    "list_all (seg_ok CHR ''['' CHR '']'') (fields_segs field_sep sub)"
    "list_all (seg_ok CHR ''{'' CHR ''}'') (Plain '' '' # fields_segs field_sep sub @ [Plain '' ''])"
    using fields_segs_ok [OF ok(1) field_sep_ok bp(1)] fields_segs_ok [OF ok(3) field_sep_ok bp(1)]
      fields_segs_ok [OF ok(1) field_sep_ok bp(2)] fields_segs_ok [OF ok(3) field_sep_ok bp(2)] by simp_all
  have "\<exists>b c. json_match_container t p e CHR ''{'' CHR ''}'' = Some (b, c, p + length ?x)"
    if d: "drop p t = ?x @ r" and le: "p + length ?x \<le> e" for t p e r
  proof -
    let ?M = "\<lambda>q dep body. match_loop t e CHR ''{'' CHR ''}'' q dep False False body"
    define q where "q = p + 1 + length (segs_text ?pre)"
    let ?in = "Plain '' '' # fields_segs field_sep sub @ [Plain '' '']"
    have o: "?o = CHR ''{'' # segs_text ?in @ ''}''" using ok(3) by (simp add: object_text_def fields_segs_text)
    have d0: "drop p t = CHR ''{'' # (segs_text ?pre @ ?o @ '' }'' @ r)" using d x by simp
    have d1: "drop (p + 1) t = segs_text ?pre @ ?o @ '' }'' @ r" by (rule drop_step1 [OF d0])
    have d2: "drop q t = CHR ''{'' # (segs_text ?in @ ''}'' @ '' }'' @ r)" using drop_step [OF d1] o by (simp add: q_def)
    have d3: "drop (q + 1) t = segs_text ?in @ ''}'' @ '' }'' @ r" by (rule drop_step1 [OF d2])
    define q2 where "q2 = q + 1 + length (segs_text ?in)"
    have d4: "drop q2 t = CHR ''}'' # CHR '' '' # CHR ''}'' # r" using drop_step [OF d3] by (simp add: q2_def)
    have d5: "drop (q2 + 1) t = CHR '' '' # CHR ''}'' # r" by (rule drop_step1 [OF d4])
    have d6: "drop (q2 + 2) t = CHR ''}'' # r" by (rule drop_step2 [OF d4])
    have len: "p + length ?x = q2 + 3" unfolding x o q_def q2_def by simp
    have e: "q2 + 3 \<le> e" using le len by simp
    then have e': "p < e" "q < e" "p + 1 + length (segs_text ?pre) \<le> e" "q + 1 + length (segs_text ?in) \<le> e"
      by (simp_all add: q_def q2_def)
    have "?M p 0 0 = ?M (p + 1) 1 (p + 1)"
      using byte_at_drop [OF d0] e' by (simp add: match_loop.simps [of t e _ _ p])
    also have "\<dots> = ?M q 1 (p + 1)" unfolding q_def by (rule match_segs [OF d1 e'(3) segs(1)])
    also have "\<dots> = ?M (q + 1) 2 (p + 1)"
      using byte_at_drop [OF d2] e' by (simp add: match_loop.simps [of t e _ _ q])
    also have "\<dots> = ?M q2 2 (p + 1)" unfolding q2_def by (rule match_segs [OF d3 e'(4) segs(4)])
    also have "\<dots> = ?M (q2 + 1) 1 (p + 1)"
      using byte_at_drop [OF d4] e by (simp add: match_loop.simps [of t e _ _ q2])
    also have "\<dots> = ?M (q2 + 2) 1 (p + 1)"
      using byte_at_drop [OF d5] e by (simp add: match_loop.simps [of t e _ _ "Suc q2"])
    also have "\<dots> = Some (p + 1, q2 + 2, q2 + 3)"
      using byte_at_drop [OF d6] e by (simp add: match_loop.simps [of t e _ _ "Suc (Suc q2)"])
    finally show ?thesis using byte_at_drop [OF d0] e' by (simp add: json_match_container_def len)
  qed
  moreover have "NUL \<notin> set ?x"
    using fields_no_nul [OF ok(1) field_sep_ok] object_no_nul [OF ok(3) field_sep_ok] ok(2) by (simp add: nested_row_def)
  moreover have "\<exists>ss. ?x = segs_text ss \<and> list_all (seg_ok CHR ''['' CHR '']'') ss"
    using segs by (intro exI [of _ "Plain ''{ '' # tl ?pre @ Plain ''{ '' # fields_segs field_sep sub @ [Plain '' }'', Plain '' }'']"] conjI x2) simp
  ultimately show ?thesis using x unfolding row_ok_def by blast
qed


section \<open>Reading such a row\<close>

lemma nested_parts:
  assumes d: "drop p t = nested_row fs key sub @ r" and e: "e = p + length (nested_row fs key sub)" and ok: "nested_ok fs key sub"
  obtains a b c where "drop a t = fields_text field_sep fs @ '', '' @ DQ # key @ [DQ] @ '': '' @ object_text field_sep sub @ '' }'' @ r"
    "b = a + length (fields_text field_sep fs) + 2" "drop b t = json_write_escaped key @ '': '' @ object_text field_sep sub @ '' }'' @ r"
    "c = b + length key + 4" "drop c t = object_text field_sep sub @ '' }'' @ r" "e = c + length (object_text field_sep sub) + 2" "e \<le> length t"
    "\<forall>k. find_key_loop t p e (DQ # k @ [DQ]) = find_key_loop t a e (DQ # k @ [DQ])"
proof -
  let ?f = "fields_text field_sep fs" and ?o = "object_text field_sep sub"
  let ?r1 = "'', '' @ DQ # key @ [DQ] @ '': '' @ ?o @ '' }'' @ r"
  have d0: "drop p t = ''{ '' @ ?f @ ?r1" using d by (simp add: nested_row_def)
  from drop_step [OF d0] have d1: "drop (p + 2) t = ?f @ ?r1" by (simp add: numeral_2_eq_2)
  from drop_step [OF d1] have "drop (p + 2 + length ?f) t = '', '' @ (DQ # key @ [DQ] @ '': '' @ ?o @ '' }'' @ r)" by simp
  from drop_step [OF this] have d2: "drop (p + 2 + length ?f + 2) t = (DQ # key @ [DQ] @ '': '') @ ?o @ '' }'' @ r"
    by (simp add: numeral_2_eq_2)
  from drop_step [OF d2] have d3: "drop (p + 2 + length ?f + 2 + length key + 4) t = ?o @ '' }'' @ r" by (simp add: eval_nat_numeral)
  have w: "json_write_escaped key = DQ # key @ [DQ]" using ok by (simp add: nested_ok_def written_simple)
  have el: "e \<le> length t"
    using arg_cong [OF d, of length] e by (simp add: nested_row_def split: nat_diff_split_asm)
  have en: "e = p + 2 + length ?f + 2 + length key + 4 + length ?o + 2" using e by (simp add: nested_row_def)
  have skip: "find_key_loop t p e (DQ # k @ [DQ]) = find_key_loop t (p + 2) e (DQ # k @ [DQ])" for k
    using find_key_skip_plain [OF d0, of e "k @ [DQ]"] en el by (simp add: numeral_2_eq_2)
  show thesis
    by (rule that [OF d1 refl _ refl d3 _ el]) (use d2 w en skip in simp_all)
qed

lemma field_end_comma_sep: "field_end ('', '' @ r)"
  by (simp add: field_end_comma)

lemma nested_find:
  assumes "drop p t = nested_row fs key sub @ r" and "e = p + length (nested_row fs key sub)" and "nested_ok fs key sub"
    and "simple_key k" and "map_of fs k = Some v"
  shows "\<exists>q r'. json_find_key_value t p e k = Some q \<and> drop q t = jval_text v @ r' \<and> q + length (jval_text v) \<le> e"
proof -
  obtain a b c where a: "drop a t = fields_text field_sep fs @ '', '' @ DQ # key @ [DQ] @ '': '' @ object_text field_sep sub @ '' }'' @ r"
    "b = a + length (fields_text field_sep fs) + 2" "drop b t = json_write_escaped key @ '': '' @ object_text field_sep sub @ '' }'' @ r"
    "c = b + length key + 4" "drop c t = object_text field_sep sub @ '' }'' @ r" "e = c + length (object_text field_sep sub) + 2" "e \<le> length t"
    "\<forall>k. find_key_loop t p e (DQ # k @ [DQ]) = find_key_loop t a e (DQ # k @ [DQ])"
    by (rule nested_parts [OF assms(1-3)])
  have "a + length (fields_text field_sep fs) < e" using a by simp
  from find_key_fields [OF a(1) this a(7) _ field_sep_ok field_end_comma_sep assms(4,5)] assms(3,4) a(8) show ?thesis
    by (auto simp: json_find_key_value_def key_pattern_simple nested_ok_def)
qed

text \<open>A key that is not among the members is looked for behind them.\<close>

lemma nested_behind:
  assumes d: "drop p t = nested_row fs key sub @ r" and e: "e = p + length (nested_row fs key sub)" and ok: "nested_ok fs key sub"
    and k: "simple_key k" "k \<notin> fst ` set fs"
  obtains b c where "json_find_key_value t p e k = find_key_loop t b e (DQ # k @ [DQ])" "b < e"
    "drop b t = json_write_escaped key @ '': '' @ object_text field_sep sub @ '' }'' @ r" "c = b + length key + 4"
    "drop c t = object_text field_sep sub @ '' }'' @ r" "e = c + length (object_text field_sep sub) + 2" "e \<le> length t"
proof -
  obtain a b c where a: "drop a t = fields_text field_sep fs @ '', '' @ DQ # key @ [DQ] @ '': '' @ object_text field_sep sub @ '' }'' @ r"
    "b = a + length (fields_text field_sep fs) + 2" "drop b t = json_write_escaped key @ '': '' @ object_text field_sep sub @ '' }'' @ r"
    "c = b + length key + 4" "drop c t = object_text field_sep sub @ '' }'' @ r" "e = c + length (object_text field_sep sub) + 2" "e \<le> length t"
    "\<forall>k. find_key_loop t p e (DQ # k @ [DQ]) = find_key_loop t a e (DQ # k @ [DQ])"
    by (rule nested_parts [OF d e ok])
  let ?f = "fields_text field_sep fs"
  from drop_step [OF a(1)]
  have d1: "drop (a + length ?f) t = '', '' @ DQ # key @ [DQ] @ '': '' @ object_text field_sep sub @ '' }'' @ r" by simp
  have "find_key_loop t a e (DQ # k @ [DQ]) = find_key_loop t (a + length ?f) e (DQ # k @ [DQ])"
    using a ok k by (intro find_key_fields_absent [OF a(1)] field_end_comma_sep) (auto simp: nested_ok_def)
  also have "\<dots> = find_key_loop t b e (DQ # k @ [DQ])"
    using find_key_skip_plain [OF d1, of e "k @ [DQ]"] a by (simp add: numeral_2_eq_2)
  finally have "json_find_key_value t p e k = find_key_loop t b e (DQ # k @ [DQ])"
    using a(8) k by (simp add: json_find_key_value_def key_pattern_simple)
  with a that show thesis by simp
qed

text \<open>The object itself is found under its key, and what is read in it is read from its members.\<close>

lemma nested_object:
  assumes d: "drop p t = nested_row fs key sub @ r" and e: "e = p + length (nested_row fs key sub)" and ok: "nested_ok fs key sub"
    and k: "key \<notin> fst ` set fs"
  obtains m where "json_find_object t p e key = Some (m, m + length (fields_text field_sep sub) + 2)"
    "drop m t = '' '' @ fields_text field_sep sub @ '' }'' @ '' }'' @ r" "m + length (fields_text field_sep sub) + 2 \<le> length t"
proof -
  have sk: "simple_key key" using ok by (simp add: nested_ok_def)
  obtain b c where b: "json_find_key_value t p e key = find_key_loop t b e (DQ # key @ [DQ])" "b < e"
    "drop b t = json_write_escaped key @ '': '' @ object_text field_sep sub @ '' }'' @ r" "c = b + length key + 4"
    "drop c t = object_text field_sep sub @ '' }'' @ r" "e = c + length (object_text field_sep sub) + 2" "e \<le> length t"
    by (rule nested_behind [OF d e ok sk k])
  have o: "object_text field_sep sub = CHR ''{'' # '' '' @ fields_text field_sep sub @ '' }''" by (simp add: object_text_def)
  have "drop b t = DQ # key @ DQ # CHR '':'' # CHR '' '' # CHR ''{'' # ('' '' @ fields_text field_sep sub @ '' }'' @ '' }'' @ r)"
    using b(3) sk by (simp add: written_simple o)
  from find_key_hit [OF this] b(4,6) have f: "json_find_key_value t p e key = Some c"
    unfolding b(1) by (simp add: isspace_def o)
  have seg: "object_text field_sep sub = CHR ''{'' # segs_text (Plain '' '' # fields_segs field_sep sub @ [Plain '' '']) @ ''}''"
    using ok by (simp add: object_text_def fields_segs_text nested_ok_def)
  have d4: "drop c t = CHR ''{'' # segs_text (Plain '' '' # fields_segs field_sep sub @ [Plain '' '']) @ CHR ''}'' # ('' }'' @ r)"
    using b(5) seg by simp
  have bp: "bracket_pair CHR ''{'' CHR ''}''" by (simp add: bracket_pair_def)
  have so: "list_all (seg_ok CHR ''{'' CHR ''}'') (Plain '' '' # fields_segs field_sep sub @ [Plain '' ''])"
    using fields_segs_ok [OF _ field_sep_ok bp] ok by (simp add: nested_ok_def)
  have sl: "length (segs_text (Plain '' '' # fields_segs field_sep sub @ [Plain '' ''])) = length (fields_text field_sep sub) + 2"
    using ok by (simp add: fields_segs_text nested_ok_def)
  have "json_match_container t c e CHR ''{'' CHR ''}'' = Some (c + 1, c + 1 + (length (fields_text field_sep sub) + 2),
      c + (length (fields_text field_sep sub) + 2) + 2)"
    using match_container_segs [OF d4 _ so, of e] b(6) unfolding sl by (simp add: o)
  with f have "json_find_object t p e key = Some (c + 1, c + 1 + length (fields_text field_sep sub) + 2)"
    by (simp add: json_find_object_def)
  moreover have "drop (c + 1) t = '' '' @ fields_text field_sep sub @ '' }'' @ '' }'' @ r"
    using drop_step1 [of c t "CHR ''{''"] b(5) o by simp
  moreover have "c + 1 + length (fields_text field_sep sub) + 2 \<le> length t" using b(6,7) by (simp add: o)
  ultimately show thesis by (rule that)
qed

lemma member_in_body:
  assumes d: "drop m t = '' '' @ fields_text field_sep fs @ '' }'' @ r" and e: "e = m + length (fields_text field_sep fs) + 2"
    and el: "e \<le> length t" and ok: "fields_ok fs" "simple_key k" "map_of fs k = Some (JStr s)" and cap: "0 < cap"
  shows "json_get_string t m e k cap prev = (True, take (cap - 1) (decoded s))"
proof -
  have d1: "drop (m + 1) t = fields_text field_sep fs @ '' }'' @ r" using drop_step [OF d] by simp
  have skip: "find_key_loop t m e (DQ # k @ [DQ]) = find_key_loop t (m + 1) e (DQ # k @ [DQ])"
    using find_key_skip_plain [OF d, of e "k @ [DQ]"] e el by simp
  have lt: "m + 1 + length (fields_text field_sep fs) < e" using e by simp
  obtain q r' where q: "json_find_key_value t m e k = Some q" "drop q t = json_write_escaped s @ r'" "q + length (json_write_escaped s) \<le> e"
    using find_key_fields [OF d1 lt el ok(1) field_sep_ok field_end_brace ok(2,3)] ok(2)
    by (auto simp: json_find_key_value_def key_pattern_simple skip)
  have "NUL \<notin> set s" using ok by (auto simp: fields_ok_def list_all_iff dest!: map_of_SomeD)
  with decode_written [OF q(2,3) cap] q(1) show ?thesis by (simp add: json_get_string_def)
qed

text \<open>Read over the whole row, a key of the inner object is found in it.\<close>

lemma nested_find_inner:
  assumes d: "drop p t = nested_row fs key sub @ r" and e: "e = p + length (nested_row fs key sub)" and ok: "nested_ok fs key sub"
    and k: "simple_key k" "k \<notin> fst ` set fs" "k \<noteq> key"
  shows "map_of sub k = Some v \<Longrightarrow>
      \<exists>q r'. json_find_key_value t p e k = Some q \<and> drop q t = jval_text v @ r' \<and> q + length (jval_text v) \<le> e"
    and "k \<notin> fst ` set sub \<Longrightarrow> json_find_key_value t p e k = None"
proof -
  obtain b c where b: "json_find_key_value t p e k = find_key_loop t b e (DQ # k @ [DQ])" "b < e"
    "drop b t = json_write_escaped key @ '': '' @ object_text field_sep sub @ '' }'' @ r" "c = b + length key + 4"
    "drop c t = object_text field_sep sub @ '' }'' @ r" "e = c + length (object_text field_sep sub) + 2" "e \<le> length t"
    by (rule nested_behind [OF d e ok k(1,2)])
  have oks: "simple_key key" "fields_ok sub" using ok by (simp_all add: nested_ok_def)
  have wl: "length (json_write_escaped key) = length key + 2" using oks by (simp add: written_simple)
  have d1: "drop (b + length (json_write_escaped key)) t = '': { '' @ fields_text field_sep sub @ '' }'' @ ('' }'' @ r)"
    using drop_step [OF b(3)] by (simp add: object_text_def)
  have d2: "drop (b + length (json_write_escaped key) + 4) t = fields_text field_sep sub @ '' }'' @ ('' }'' @ r)"
    using drop_step [OF d1] by (simp add: eval_nat_numeral)
  have el: "e = b + length (json_write_escaped key) + 4 + length (fields_text field_sep sub) + 4"
    using b(4,6) wl by (simp add: object_text_def)
  have "find_key_loop t b e (DQ # k @ [DQ]) = find_key_loop t (b + length (json_write_escaped key)) e (DQ # k @ [DQ])"
  proof (rule find_key_skip_written [OF b(3) _ b(7) k(1)])
    show "\<not> prefix (k @ [DQ]) ('': '' @ object_text field_sep sub @ '' }'' @ r)"
      using k(1) simple_char(7) [OF simple_key_chars [OF k(1)]] by (cases k) (auto simp: simple_key_def)
  qed (use el oks k(3) in auto)
  also have "\<dots> = find_key_loop t (b + length (json_write_escaped key) + 4) e (DQ # k @ [DQ])"
    using find_key_skip_plain [OF d1, of e "k @ [DQ]"] el b(7) by (simp add: eval_nat_numeral)
  finally have f: "json_find_key_value t p e k = find_key_loop t (b + length (json_write_escaped key) + 4) e (DQ # k @ [DQ])"
    by (simp add: b(1))
  show "\<exists>q r'. json_find_key_value t p e k = Some q \<and> drop q t = jval_text v @ r' \<and> q + length (jval_text v) \<le> e"
    if "map_of sub k = Some v"
    using find_key_fields [OF d2 _ b(7) oks(2) field_sep_ok field_end_brace k(1) that] el unfolding f by auto
  show "json_find_key_value t p e k = None" if abs: "k \<notin> fst ` set sub"
  proof -
    let ?x = "b + length (json_write_escaped key) + 4 + length (fields_text field_sep sub)"
    have d3: "drop ?x t = '' }'' @ '' }'' @ r" using drop_step [OF d2] by simp
    have "find_key_loop t (b + length (json_write_escaped key) + 4) e (DQ # k @ [DQ]) = find_key_loop t ?x e (DQ # k @ [DQ])"
      using el by (intro find_key_fields_absent [OF d2 _ b(7) oks(2) field_sep_ok field_end_brace k(1) abs]) simp
    also have "\<dots> = find_key_loop t (?x + length ('' }'' @ '' }'')) e (DQ # k @ [DQ])"
      using el b(7) d3 by (intro find_key_skip_plain [of _ t _ r]) auto
    also have "\<dots> = None" using el by (subst find_key_loop.simps) simp
    finally show ?thesis by (simp add: f)
  qed
qed

end
