(* ===== verification/UiFavsProofs.thy ===== *)
theory UiFavsProofs
  imports UiRoms UiSettingsProofs JsonRows TextFavsProofs
begin

text \<open>
  The favorites of the controller UI: what a saved file reads back as, what pressing the favorite button does to the file and
  to the screen, and what the two frontends of the repository make of each other's file.
\<close>

section \<open>A saved row\<close>

definition ui_fav_ok :: "ui_rom \<Rightarrow> bool" where
  "ui_fav_ok e \<longleftrightarrow> text_ok 64 (ur_system_id e) \<and> text_ok UI_PATH_MAX (ur_relative_path e) \<and>
     ur_title e \<noteq> [] \<and> text_ok 256 (ur_title e) \<and> text_ok UI_PATH_MAX (ur_path e) \<and> text_ok UI_PATH_MAX (ur_thumbnail e)"

definition ui_fav_fields :: "ui_rom \<Rightarrow> field list" where
  "ui_fav_fields e = [(''system_id'', JStr (ur_system_id e)), (''relative_path'', JStr (ur_relative_path e)),
     (''title'', JStr (ur_title e)), (''path'', JStr (ur_path e))]"

definition art_fields :: "ui_rom \<Rightarrow> field list" where
  "art_fields e = [(''thumbnail'', JStr (ur_thumbnail e))]"

abbreviation ui_fav_row :: "ui_rom \<Rightarrow> string" where
  "ui_fav_row e \<equiv> nested_row (ui_fav_fields e) ''media'' (art_fields e)"

lemma media_key [simp]: "simple_key ''media''"
  by (simp add: simple_key_def isalnum_def isdigit_def code_of_def)

lemma text_ok_config: "text_ok n s \<Longrightarrow> list_all config_char s"
  by (simp add: text_ok_def)

lemma text_ok_no_nul: "text_ok n s \<Longrightarrow> NUL \<notin> set s"
  by (simp add: text_ok_def)

lemma text_ok_read: "text_ok n s \<Longrightarrow> take (n - 1) (decoded s) = s"
  by (rule str_ok_read [OF text_ok_str])

lemma favorite_row_nested: "ui_fav_ok e \<Longrightarrow> favorite_row e = ui_fav_row e"
  by (auto simp: favorite_row_def nested_row_def object_text_def ui_fav_fields_def art_fields_def field_text_def ui_fav_ok_def
      fprint_config dest!: text_ok_config)

lemma ui_fav_nested_ok: "ui_fav_ok e \<Longrightarrow> nested_ok (ui_fav_fields e) ''media'' (art_fields e)"
  by (auto simp: nested_ok_def fields_ok_def ui_fav_fields_def art_fields_def ui_fav_ok_def text_ok_def)

text \<open>What a row gives back: the entry as the favorites show it.\<close>

definition as_favorite :: "ui_rom \<Rightarrow> ui_rom" where
  "as_favorite e =
     zero_ui_rom\<lparr>ur_system_id := ur_system_id e, ur_title := ur_title e, ur_relative_path := ur_relative_path e, ur_path := ur_path e,
       ur_thumbnail := ur_thumbnail e, ur_is_favorite := True,
       ur_detail := appended 256 (appended 256 (appended 256 [] (ur_system_id e)) '' / '') (ur_relative_path e)\<rparr>"

lemma member_of_row:
  assumes d: "drop p t = ui_fav_row x @ r" and ok: "ui_fav_ok x"
    and k: "simple_key k" "map_of (ui_fav_fields x) k = Some (JStr s)" and s: "text_ok n s"
  shows "member_at t p (p + length (ui_fav_row x)) k n = s"
proof -
  obtain q r' where q: "json_find_key_value t p (p + length (ui_fav_row x)) k = Some q" "drop q t = json_write_escaped s @ r'"
    "q + length (json_write_escaped s) \<le> p + length (ui_fav_row x)"
    using nested_find [OF d refl ui_fav_nested_ok [OF ok] k] by auto
  have "0 < n" using s by (auto simp: text_ok_def)
  with decode_written [OF q(2,3)] q(1) text_ok_read [OF s] text_ok_no_nul [OF s] show ?thesis
    by (simp add: member_at_def json_get_string_def)
qed

lemma thumbnail_of_row:
  assumes d: "drop p t = ui_fav_row x @ r" and ok: "ui_fav_ok x"
  shows "thumbnail_at t p (p + length (ui_fav_row x)) = ur_thumbnail x"
proof -
  have key: "''media'' \<notin> fst ` set (ui_fav_fields x)" by (simp add: ui_fav_fields_def)
  obtain m where m: "json_find_object t p (p + length (ui_fav_row x)) ''media'' =
      Some (m, m + length (fields_text field_sep (art_fields x)) + 2)"
    "drop m t = '' '' @ fields_text field_sep (art_fields x) @ '' }'' @ '' }'' @ r"
    "m + length (fields_text field_sep (art_fields x)) + 2 \<le> length t"
    by (rule nested_object [OF d refl ui_fav_nested_ok [OF ok] key])
  have th: "text_ok UI_PATH_MAX (ur_thumbnail x)" using ok by (simp add: ui_fav_ok_def)
  have "json_get_string t m (m + length (fields_text field_sep (art_fields x)) + 2) ''thumbnail'' UI_PATH_MAX [] =
      (True, take (UI_PATH_MAX - 1) (decoded (ur_thumbnail x)))"
    using ui_fav_nested_ok [OF ok] th
    by (intro member_in_body [OF m(2) refl m(3)]) (auto simp: nested_ok_def art_fields_def text_ok_def)
  with m(1) text_ok_read [OF th] show ?thesis by (simp add: thumbnail_at_def member_at_def)
qed

lemma ui_field_keys:
  "map_of (ui_fav_fields x) ''system_id'' = Some (JStr (ur_system_id x))"
  "map_of (ui_fav_fields x) ''relative_path'' = Some (JStr (ur_relative_path x))"
  "map_of (ui_fav_fields x) ''title'' = Some (JStr (ur_title x))"
  "map_of (ui_fav_fields x) ''path'' = Some (JStr (ur_path x))"
  by (simp_all add: ui_fav_fields_def)

lemma favorite_of_row:
  assumes d: "drop p t = ui_fav_row x @ r" and ok: "ui_fav_ok x"
  shows "favorite_at t p (p + length (ui_fav_row x)) = as_favorite x"
proof -
  note read = member_of_row [OF d ok]
  have "member_at t p (p + length (ui_fav_row x)) ''system_id'' 64 = ur_system_id x"
    "member_at t p (p + length (ui_fav_row x)) ''relative_path'' UI_PATH_MAX = ur_relative_path x"
    "member_at t p (p + length (ui_fav_row x)) ''title'' 256 = ur_title x"
    "member_at t p (p + length (ui_fav_row x)) ''path'' UI_PATH_MAX = ur_path x"
    using ok by (auto simp: ui_fav_ok_def intro!: read ui_field_keys)
  with ok thumbnail_of_row [OF d ok] show ?thesis
    by (simp add: favorite_at_def common_entry_at_def as_favorite_def Let_def ui_fav_ok_def)
qed

section \<open>The saved file\<close>

lemma fold_while_append: "fold_while (\<lambda>_. True) (\<lambda>x l. l @ [f x]) xs acc = acc @ map f xs"
  by (induction xs arbitrary: acc) simp_all

lemma saved_favorites_array:
  "list_all ui_fav_ok es \<Longrightarrow>
    save_favorite_entries_text es = file_head ''favorites'' @ array_text ui_fav_row es @ [NL] @ ''}'' @ [NL]"
proof -
  assume "list_all ui_fav_ok es"
  then have "entries_text favorite_row es = entries_text ui_fav_row es"
    by (induction es) (simp_all add: entries_text_Cons favorite_row_nested)
  then show ?thesis by (simp add: save_favorite_entries_text_def file_head_def array_text_def)
qed

text \<open>Reading a file whose rows the reader takes apart row by row.\<close>

lemma load_rows:
  assumes "os_read w path = Some (file_head key @ array_text row es @ r)" and "simple_key key" "key \<noteq> ''version''"
    and "list_all (row_ok \<circ> row) es"
    and "\<And>x t s r. x \<in> set es \<Longrightarrow> drop s t = row x @ r \<Longrightarrow> entry_at t s (s + length (row x)) = as x"
  shows "load_entries w path key entry_at = (True, map as es)"
proof -
  let ?t = "file_head key @ array_text row es @ r"
  have "(\<lambda>l. l @ [entry_at ?t s (s + length (row x))]) st = (\<lambda>x l. l @ [as x]) x st"
    if "x \<in> set es" "drop s ?t = row x @ r'" for x s r' st
    using assms(5) [OF that] by simp
  from rows_file [OF refl assms(2-4), of r "\<lambda>_. True" "\<lambda>os oe l. l @ [entry_at ?t os oe]" "\<lambda>x l. l @ [as x]" "[]"] this
  show ?thesis using assms(1) by (auto simp: load_entries_def fold_while_append)
qed

lemma favorites_saved:
  assumes "os_read w path = Some (save_favorite_entries_text es)" and "list_all ui_fav_ok es"
  shows "favorites_in w path = (True, map as_favorite es)"
  unfolding favorites_in_def
proof (rule load_rows)
  show "os_read w path = Some (file_head ''favorites'' @ array_text ui_fav_row es @ [NL] @ ''}'' @ [NL])"
    using assms(1) unfolding saved_favorites_array [OF assms(2)] .
  show "list_all (row_ok \<circ> ui_fav_row) es"
    using assms(2) nested_row_ok [OF ui_fav_nested_ok] by (auto simp: list_all_iff)
  show "favorite_at t s (s + length (ui_fav_row x)) = as_favorite x" if "x \<in> set es" "drop s t = ui_fav_row x @ r" for x t s r
    using favorite_of_row [OF that(2)] assms(2) that(1) by (simp add: list_all_iff)
qed simp_all

section \<open>Saving\<close>

lemma favorites_saved_states:
  assumes ok: "list_all ui_fav_ok es" and r: "save_favorite_entries e path es d = (saved, ds)" and whole: "st_lost e = None"
  shows "list_all (\<lambda>d'. favorites_in (reader_os w (after_crash g d')) path \<in>
      {favorites_in (reader_os w (after_crash g d)) path, (True, map as_favorite es)}) ds"
    and "saved \<Longrightarrow> favorites_in (live_os w (last (d # ds))) path = (True, map as_favorite es)"
proof -
  let ?c = "save_favorite_entries_text es"
  have new: "favorites_in (reader_os w m) path = (True, map as_favorite es)" if "m path = Some ?c" for m
    using that by (intro favorites_saved [OF _ ok]) (simp add: reader_os_def)
  have same: "favorites_in (reader_os w m) path = favorites_in (reader_os w m') path" if "m path = m' path" for m m'
    using that by (cases "m' path") (simp_all add: favorites_in_def load_entries_def reader_os_def file_exists_def)
  have one: "favorites_in (reader_os w (after_crash g d')) path \<in>
      {favorites_in (reader_os w (after_crash g d)) path, (True, map as_favorite es)}"
    if "(d' path = d path \<or> d' path = Some (?c, True)) \<and> (\<forall>q. q = path \<or> q = path @ ''.tmp'' \<or> d' q = d q)" for d'
  proof (cases "d' path = d path")
    case True
    then have "after_crash g d' path = after_crash g d path" by (simp add: after_crash_def)
    from same [of "after_crash g d'" "after_crash g d", OF this] show ?thesis by simp
  next
    case False
    with that have "after_crash g d' path = Some ?c" by (simp add: after_crash_def)
    from new [of "after_crash g d'", OF this] show ?thesis by simp
  qed
  have cases: "(saved, ds) = (False, []) \<or> (saved, ds) = write_buffer_atomic e path (path @ ''.tmp'') ?c d"
    using r whole by (simp add: save_favorite_entries_def arrived_def split: if_splits)
  have tmp: "path @ ''.tmp'' \<noteq> path" by simp
  show "list_all (\<lambda>d'. favorites_in (reader_os w (after_crash g d')) path \<in>
      {favorites_in (reader_os w (after_crash g d)) path, (True, map as_favorite es)}) ds"
  proof (cases "ds = []")
    case False
    with cases have w: "ds = snd (write_buffer_atomic e path (path @ ''.tmp'') ?c d)" by (auto dest: arg_cong [of _ _ snd])
    show ?thesis unfolding w by (rule list.pred_mono_strong [OF write_buffer_states [OF tmp]]) (rule one)
  qed simp
  show "favorites_in (live_os w (last (d # ds))) path = (True, map as_favorite es)" if saved
  proof -
    from cases that have "write_buffer_atomic e path (path @ ''.tmp'') ?c d = (True, ds)" by auto
    with write_buffer_done [of e path "path @ ''.tmp''" ?c d] have "last (d # ds) path = Some (?c, True)" by simp
    then show ?thesis unfolding live_os_def by (intro new) simp
  qed
qed

definition store_works :: "store_env \<Rightarrow> bool" where
  "store_works e \<longleftrightarrow> (\<forall>p. st_mkdir e p) \<and> st_open e \<and> st_flush e \<and> st_fsync e \<and> st_close e \<and> st_rename e"

lemma save_favorites_works:
  assumes "store_works e" and "strrchr path CHR ''/'' = Some (Suc i)" and "length path + 4 < PATH_MAX"
  shows "fst (save_favorite_entries e path es d)"
proof -
  have i: "Suc i < length path" using strrchr_SomeD [OF assms(2)] by simp
  have "fst (make_dirs (st_mkdir e) xs)" for xs
    using make_dirs_spec [of "st_mkdir e" xs] assms(1) by (cases "make_dirs (st_mkdir e) xs") (auto simp: store_works_def list_all_iff)
  then have "ensure_parent_dir_for_file (st_mkdir e) path"
    using i assms(2,3) by (auto simp: ensure_parent_dir_for_file_def ui_dirname_path_def ensure_dir_recursive_def PATH_MAX_def)
  then show ?thesis using assms by (simp add: save_favorite_entries_def write_buffer_atomic_def store_works_def Let_def)
qed

section \<open>Pressing the button\<close>

abbreviation entry_key :: "ui_rom \<Rightarrow> string \<times> string" where
  "entry_key e \<equiv> (ur_system_id e, ur_relative_path e)"

text \<open>The favorite a game becomes, and the list after its button was pressed.\<close>

definition as_listed :: "ui_state \<Rightarrow> ui_rom \<Rightarrow> ui_rom" where
  "as_listed ui e = e\<lparr>ur_system_id := entry_system ui e, ur_title := (if ur_title e \<noteq> [] then ur_title e else ur_relative_path e)\<rparr>"

definition toggled :: "ui_rom list \<Rightarrow> ui_rom \<Rightarrow> ui_rom list" where
  "toggled l e =
     (if entry_key e \<in> entry_key ` set l then filter (\<lambda>x. entry_key x \<noteq> entry_key e) l else l @ [as_favorite e])"

lemma as_favorite_again: "as_favorite (favorite_at json s e) = favorite_at json s e"
  by (simp add: favorite_at_def common_entry_at_def as_favorite_def zero_ui_rom_def Let_def)

lemma loaded_favorites:
  assumes "favorites_in w path = (True, l)"
  shows "map as_favorite l = l"
proof -
  have "\<forall>x \<in> set l. as_favorite x = x"
  proof (cases "os_read w path")
    case (Some json)
    with assms obtain s e where "json_each_object json e s (\<lambda>_. True) (\<lambda>os oe l. l @ [favorite_at json os oe]) [] = l"
      by (auto simp: favorites_in_def load_entries_def split: option.splits)
    moreover have "\<forall>x \<in> set (json_each_object json e s (\<lambda>_. True) (\<lambda>os oe l. l @ [favorite_at json os oe]) []). as_favorite x = x"
      by (rule json_each_object_inv [of "\<lambda>l. \<forall>x \<in> set l. as_favorite x = x"]) (auto simp: as_favorite_again)
    ultimately show ?thesis by simp
  qed (use assms in \<open>simp add: favorites_in_def load_entries_def\<close>)
  then show ?thesis by (simp add: map_idI)
qed

lemma favorite_of_entry_listed:
  "ui_fav_ok (as_listed ui e) \<Longrightarrow>
     ui_fav_ok (favorite_of_entry (entry_system ui e) e) \<and> as_favorite (favorite_of_entry (entry_system ui e) e) = as_favorite (as_listed ui e)"
  by (auto simp: ui_fav_ok_def favorite_of_entry_def as_listed_def as_favorite_def zero_ui_rom_def text_ok_def fits_simps split: if_splits)

lemma favorites_count_frame [simp]:
  "ui_rom_entries (update_top_favorites_count ui n) = ui_rom_entries ui"
  "ui_rom_cursor (update_top_favorites_count ui n) = ui_rom_cursor ui"
  "ui_favorites_path (update_top_favorites_count ui n) = ui_favorites_path ui"
  "shows_favorites (update_top_favorites_count ui n) = shows_favorites ui"
  by (auto simp: update_top_favorites_count_def shows_favorites_def split: option.splits)

lemma with_entries_list [simp]: "ui_rom_entries (with_entries ui l) = l" "ui_rom_cursor (with_entries ui l) = 0"
proof -
  have "ui_rom_entries (foldl ui_append_rom_entry v l) = ui_rom_entries v @ l \<and> ui_rom_cursor (foldl ui_append_rom_entry v l) = ui_rom_cursor v" for v
    by (induction l arbitrary: v) (simp_all add: ui_append_rom_entry_def)
  then show "ui_rom_entries (with_entries ui l) = l" "ui_rom_cursor (with_entries ui l) = 0"
    by (simp_all add: with_entries_def ui_clear_rom_entries_def)
qed

text \<open>Everything the button does, apart from the messages: nothing, or a save of the toggled list and what the screen makes of it.\<close>

lemma toggled_list:
  assumes "distinct_keys entry_key l" and "map as_favorite l = l" and "ui_fav_ok (as_listed ui entry)"
    and "list_all ui_fav_ok l"
  defines "i \<equiv> favorite_entry_index l (entry_system ui entry) (ur_relative_path entry)"
  shows "\<exists>temp. temp = (case i of Some i \<Rightarrow> take i l @ drop (Suc i) l | None \<Rightarrow> l @ [favorite_of_entry (entry_system ui entry) entry]) \<and>
    list_all ui_fav_ok temp \<and> map as_favorite temp = toggled l (as_listed ui entry)"
    and "i = None \<longleftrightarrow> entry_key (as_listed ui entry) \<notin> entry_key ` set l"
proof -
  let ?k = "entry_key (as_listed ui entry)"
  have idx: "i = find_first (\<lambda>x. entry_key x = ?k) l"
    by (simp add: i_def favorite_entry_index_def as_listed_def)
  then show none: "i = None \<longleftrightarrow> ?k \<notin> entry_key ` set l" by (auto simp: image_iff)
  show "\<exists>temp. temp = (case i of Some i \<Rightarrow> take i l @ drop (Suc i) l | None \<Rightarrow> l @ [favorite_of_entry (entry_system ui entry) entry]) \<and>
    list_all ui_fav_ok temp \<and> map as_favorite temp = toggled l (as_listed ui entry)"
  proof (cases i)
    case None
    with none favorite_of_entry_listed [OF assms(3)] assms(2,4) show ?thesis by (auto simp: toggled_def)
  next
    case (Some j)
    have t: "take j l @ drop (Suc j) l = filter (\<lambda>x. entry_key x \<noteq> ?k) l"
      using filter_key_remove [OF assms(1), of ?k j] Some idx by simp
    have "map as_favorite (filter (\<lambda>x. entry_key x \<noteq> ?k) l) = filter (\<lambda>x. entry_key x \<noteq> ?k) l"
      using assms(2) by (intro map_idI) (auto simp: map_eq_conv [of as_favorite l id, simplified])
    with Some none t assms(4) show ?thesis by (auto simp: toggled_def list_all_iff)
  qed
qed

lemma toggle_unfold:
  assumes "ui_rom_cursor ui < length (ui_rom_entries ui)" and "ui_rom_entries ui ! ui_rom_cursor ui = entry"
    and "favorites_in (live_os w d) (ui_favorites_path ui) = (True, l)"
    and "\<not> (ur_is_navigation_directory entry \<or> \<not> valid_system_id (entry_system ui entry) \<or> \<not> valid_relative_rom_path (ur_relative_path entry))"
    and "favorite_entry_index l (entry_system ui entry) (ur_relative_path entry) = i"
    and "(case i of Some i \<Rightarrow> take i l @ drop (Suc i) l | None \<Rightarrow> l @ [favorite_of_entry (entry_system ui entry) entry]) = temp"
    and "save_favorite_entries e (ui_favorites_path ui) temp d = (saved, ds)"
    and "update_top_favorites_count ui (length temp) = ui1"
  shows "toggle_current_favorite e w d ui =
    (saved, if \<not> saved then set_status ui ''cannot update Favorites''
       else if i = None then set_status (flag_current True ui1) ''added to Favorites''
       else set_status (if shows_favorites ui then reload_favorites (live_os w (last (d # ds))) ui1 else flag_current False ui1)
         ''removed from Favorites'', ds)"
  using assms favorites_count_frame(4) [of ui "length temp"] unfolding toggle_current_favorite_def
  by (cases i; cases saved) (simp_all add: Let_def del: favorites_count_frame)

text \<open>
  C17: The favorite button does what it says, as long as no write of the text fails before the last flush. Whatever else happens, the file
  that a restart after a power loss finds holds the favorites from before or the toggled ones. When the button reports success the file holds exactly the old favorites without this game, or with
  it at the end, and the screen agrees with the file: in the favorites it shows the rest, elsewhere the star of the game is right.
  When it fails the list on the screen is as it was. It succeeds on every game the checks accept when the card can be written.
\<close>

theorem toggle_favorite_spec:
  assumes cursor: "ui_rom_cursor ui < length (ui_rom_entries ui)" and entry: "entry = ui_rom_entries ui ! ui_rom_cursor ui"
    and loaded: "favorites_in (live_os w d) (ui_favorites_path ui) = (True, l)"
    and ok: "list_all ui_fav_ok l" "distinct_keys entry_key l" "ui_fav_ok (as_listed ui entry)"
    and run: "toggle_current_favorite e w d ui = (saved, ui', ds)" and whole: "st_lost e = None"
  shows "list_all (\<lambda>d'. favorites_in (reader_os w (after_crash g d')) (ui_favorites_path ui) \<in>
        {favorites_in (reader_os w (after_crash g d)) (ui_favorites_path ui), (True, toggled l (as_listed ui entry))}) ds \<and>
    (saved \<longrightarrow>
      favorites_in (live_os w (last (d # ds))) (ui_favorites_path ui) = (True, toggled l (as_listed ui entry)) \<and>
      (let removed = (entry_key (as_listed ui entry) \<in> entry_key ` set l) in
       ui_rom_entries ui' =
         (if removed \<and> shows_favorites ui then toggled l (as_listed ui entry)
          else (ui_rom_entries ui)[ui_rom_cursor ui := entry\<lparr>ur_is_favorite := \<not> removed\<rparr>]))) \<and>
    (\<not> saved \<longrightarrow> ui_rom_entries ui' = ui_rom_entries ui \<and> ui_rom_cursor ui' = ui_rom_cursor ui) \<and>
    (\<not> ur_is_navigation_directory entry \<and> valid_system_id (entry_system ui entry) \<and> valid_relative_rom_path (ur_relative_path entry) \<and>
      store_works e \<and> strrchr (ui_favorites_path ui) CHR ''/'' = Some (Suc i) \<and> length (ui_favorites_path ui) + 4 < PATH_MAX \<longrightarrow> saved)"
  (is "?crash \<and> ?saved \<and> ?failed \<and> ?live")
proof (cases "ur_is_navigation_directory entry \<or> \<not> valid_system_id (entry_system ui entry) \<or> \<not> valid_relative_rom_path (ur_relative_path entry)")
  case True
  then have "\<exists>m. toggle_current_favorite e w d ui = (False, set_status ui m, [])"
    using cursor unfolding toggle_current_favorite_def entry by (simp add: Let_def) blast
  with run have "\<not> saved" "ds = []" "ui_rom_entries ui' = ui_rom_entries ui" "ui_rom_cursor ui' = ui_rom_cursor ui"
    by (auto simp: set_status_def)
  with True show ?thesis by simp blast
next
  case False
  let ?new = "toggled l (as_listed ui entry)" and ?p = "ui_favorites_path ui"
  let ?i = "favorite_entry_index l (entry_system ui entry) (ur_relative_path entry)"
  obtain temp where temp: "temp = (case ?i of Some i \<Rightarrow> take i l @ drop (Suc i) l | None \<Rightarrow> l @ [favorite_of_entry (entry_system ui entry) entry])"
    "list_all ui_fav_ok temp" "map as_favorite temp = ?new"
    using toggled_list(1) [OF ok(2) loaded_favorites [OF loaded] ok(3,1)] by blast
  note removed = toggled_list(2) [OF ok(2) loaded_favorites [OF loaded] ok(3,1)]
  obtain done1 ds1 where s: "save_favorite_entries e ?p temp d = (done1, ds1)" by (cases "save_favorite_entries e ?p temp d")
  note saved_disk = favorites_saved_states [OF temp(2) s whole, unfolded temp(3)]
  note press = toggle_unfold [OF cursor entry [symmetric] loaded False refl temp(1) [symmetric] s refl]
  then have ds: "saved = done1" "ds = ds1" using run by simp_all
  have crash: ?crash unfolding ds by (rule saved_disk(1))
  have live: ?live
    using save_favorites_works [of e ?p i temp d] s ds by auto
  show ?thesis
  proof (cases done1)
    case True
    note onfile = saved_disk(2) [OF True]
    have shown: "ui_rom_entries ui' = (if ?i \<noteq> None \<and> shows_favorites ui then ?new
        else (ui_rom_entries ui)[ui_rom_cursor ui := entry\<lparr>ur_is_favorite := (?i = None)\<rparr>])"
      using press run True onfile entry
      by (auto simp: set_status_def flag_current_def reload_favorites_def load_favorite_entries_def Let_def split: if_splits)
    have i: "(?i = None) = (entry_key (as_listed ui entry) \<notin> entry_key ` set l)"
      using removed by simp_all
    have saved_ok: ?saved unfolding ds(2) Let_def by (intro impI conjI onfile shown [unfolded i not_not])
    show ?thesis by (intro conjI crash saved_ok live) (use True ds(1) in simp)
  next
    case False
    then have "ui' = set_status ui ''cannot update Favorites''" using press run by simp
    then have failed: ?failed by (simp add: set_status_def)
    show ?thesis by (intro conjI crash failed live) (use False ds(1) in simp)
  qed
qed

definition demo_rom_entry :: ui_rom where
  "demo_rom_entry = zero_ui_rom\<lparr>ur_title := ''A'', ur_relative_path := ''gg/a.gg'', ur_path := ''/roms/gg/a.gg''\<rparr>"

definition demo_ui :: ui_state where
  "demo_ui = \<lparr>ui_sdcard_root = ''/sd'', ui_plumos_root = ''/p'', ui_settings_path = ''/p/s'', ui_favorites_path = ''/p/f'',
     ui_recent_path = ''/p/r'', ui_refresh = False, ui_renderer_mali = False, ui_renderer_fbdev = True, ui_renderer_mmf_gfx = False,
     ui_screen_now = SCREEN_ROMS, ui_rom_entry_screen = SCREEN_TOP, ui_gallery_back_screen = SCREEN_ROMS, ui_top_cursor = 0,
     ui_top_entries = [], ui_rom_cursor = 0, ui_rom_entries = [demo_rom_entry], ui_rom_cursor_memory = [], ui_gallery_from = 0,
     ui_gallery_to = 0, ui_gallery_start_ms = 0, ui_gallery_duration_ms = 0, ui_gallery_direction = 0, ui_gallery_active = False,
     ui_gallery_pending_cursor = 0, ui_gallery_pending_direction = 0, ui_gallery_pending_active = False,
     ui_frontend_settings = init_frontend_settings, ui_rom_scan_refresh_pid = 0, ui_rom_scan_refresh_last_ms = 0,
     ui_rom_scan_refresh_system_id = [], ui_rom_scan_refresh_suppressed = False, ui_rom_scan_background_started = False,
     ui_current_system_id = ''gg'', ui_current_system_name = ''Game Gear'', ui_rom_directory = [], ui_status = []\<rparr>"

lemma demo_store_works: "store_works demo_store" "st_lost demo_store = None"
  by (simp_all add: store_works_def demo_store_def)

theorem toggle_favorite_spec_witness:
  "\<exists>ui' ds. toggle_current_favorite demo_store demo_os (\<lambda>_. None) demo_ui = (True, ui', ds) \<and>
    favorites_in (live_os demo_os (last ((\<lambda>_. None) # ds))) ''/p/f'' = (True, [as_favorite (as_listed demo_ui demo_rom_entry)]) \<and>
    ui_rom_entries ui' = [demo_rom_entry\<lparr>ur_is_favorite := True\<rparr>]"
proof -
  obtain saved ui' ds where run: "toggle_current_favorite demo_store demo_os (\<lambda>_. None) demo_ui = (saved, ui', ds)"
    by (rule prod_cases3)
  have empty: "favorites_in (live_os demo_os (\<lambda>_. None)) (ui_favorites_path demo_ui) = (True, [])"
    by (simp add: favorites_in_def load_entries_def live_os_def reader_os_def file_exists_def)
  have ok: "ui_fav_ok (as_listed demo_ui demo_rom_entry)"
    by (simp add: ui_fav_ok_def as_listed_def demo_rom_entry_def demo_ui_def zero_ui_rom_def entry_system_def text_ok_def config_char_def
        UI_PATH_MAX_def code_of_def)
  have valid: "\<not> ur_is_navigation_directory demo_rom_entry" "valid_system_id (entry_system demo_ui demo_rom_entry)"
    "valid_relative_rom_path (ur_relative_path demo_rom_entry)"
    by (simp_all add: demo_rom_entry_def demo_ui_def zero_ui_rom_def entry_system_def valid_system_id_def valid_relative_rom_path_def
        contains_str_def isalnum_def isdigit_def code_of_def)
  have place: "ui_rom_cursor demo_ui < length (ui_rom_entries demo_ui)" "demo_rom_entry = ui_rom_entries demo_ui ! ui_rom_cursor demo_ui"
    "strrchr (ui_favorites_path demo_ui) CHR ''/'' = Some (Suc 1)" "length (ui_favorites_path demo_ui) + 4 < PATH_MAX"
    "ui_favorites_path demo_ui = ''/p/f''" "ui_rom_entries demo_ui = [demo_rom_entry]" "ui_rom_cursor demo_ui = 0"
    by (simp_all add: demo_ui_def PATH_MAX_def)
  from toggle_favorite_spec [OF place(1,2) empty _ _ ok run demo_store_works(2), of "\<lambda>_. []" 1] valid place demo_store_works(1) run show ?thesis
    by (auto simp: toggled_def)
qed

text \<open>
  Without that condition the button can lose every favorite: when a write of the text fails and the file can be flushed, synced and
  renamed afterwards, what the failed write left takes the place of the favorites, and the button reports success.
\<close>

lemma failed_write_is_reported_saved:
  assumes "store_works e" and "st_lost e = Some t"
    and "strrchr path CHR ''/'' = Some (Suc i)" and "length path + 4 < PATH_MAX"
  shows "fst (save_favorite_entries e path es d) \<and> last (d # snd (save_favorite_entries e path es d)) path = Some (t, True)"
proof -
  have s: "fst (save_favorite_entries e path es d)" by (rule save_favorites_works [OF assms(1,3,4)])
  then have "save_favorite_entries e path es d = write_buffer_atomic e path (path @ ''.tmp'') t d"
    using assms(2) by (auto simp: save_favorite_entries_def arrived_def split: if_splits)
  with s write_buffer_done [of e path "path @ ''.tmp''" t d] show ?thesis by simp
qed

end
