(* ===== verification/UiFavsInterop.thy ===== *)
theory UiFavsInterop
  imports UiFavsProofs
begin

text \<open>
  One favorites file, two programs: what the controller UI reads in the file of the text UI and the text UI in the file of the
  controller UI. Games, titles and paths survive in both directions; the artwork does only in one.
\<close>

section \<open>The file of the text UI in the controller UI\<close>

lemma find_key_absent_at:
  assumes d: "drop p t = object_text sep fs @ r" and e: "e = p + length (object_text sep fs)"
    and ok: "fields_ok fs" "sep_ok sep" and k: "simple_key key" "key \<notin> fst ` set fs"
  shows "json_find_key_value t p e key = None"
proof -
  have el: "e \<le> length t" using arg_cong [OF d, of length] e by (simp add: object_text_def split: nat_diff_split_asm)
  have d0: "drop p t = ''{ '' @ (fields_text sep fs @ '' }'' @ r)" using d by (simp add: object_text_def)
  from drop_step [OF d0] have d2: "drop (p + 2) t = fields_text sep fs @ '' }'' @ r" by (simp add: numeral_2_eq_2)
  let ?x = "p + 2 + length (fields_text sep fs)"
  from drop_step [OF d2] have d3: "drop ?x t = '' }'' @ r" by simp
  have len: "e = ?x + 2" using e by (simp add: object_text_def)
  have "find_key_loop t p e (DQ # key @ [DQ]) = find_key_loop t (p + 2) e (DQ # key @ [DQ])"
    using find_key_skip_plain [OF d0, of e "key @ [DQ]"] len el by (simp add: numeral_2_eq_2)
  also have "\<dots> = find_key_loop t ?x e (DQ # key @ [DQ])"
    using len by (intro find_key_fields_absent [OF d2 _ el ok field_end_brace k]) simp
  also have "\<dots> = find_key_loop t (?x + length '' }'') e (DQ # key @ [DQ])"
    using len el by (intro find_key_skip_plain [OF d3]) auto
  also have "\<dots> = None" using len by (subst find_key_loop.simps) simp
  finally show ?thesis using k by (simp add: json_find_key_value_def key_pattern_simple)
qed

lemma fav_field_keys:
  "map_of (fav_fields e) ''system_id'' = Some (JStr (fav_system_id e))"
  "map_of (fav_fields e) ''relative_path'' = Some (JStr (fav_relative_path e))"
  "map_of (fav_fields e) ''title'' = Some (JStr (fav_title e))"
  "map_of (fav_fields e) ''path'' = Some (JStr (fav_path e))"
  by (simp_all add: fav_fields_def)

text \<open>The game as the controller UI lists it: without the artwork the text UI stored beside it.\<close>

definition without_art :: "favorite_entry \<Rightarrow> ui_rom" where
  "without_art e = as_favorite (zero_ui_rom\<lparr>ur_system_id := fav_system_id e, ur_relative_path := fav_relative_path e,
     ur_title := fav_title e, ur_path := fav_path e\<rparr>)"

lemma text_row_in_ui:
  assumes d: "drop p t = object_text field_sep (fav_fields x) @ r" and ok: "fav_entry_ok x"
  shows "favorite_at t p (p + length (object_text field_sep (fav_fields x))) = without_art x"
proof -
  let ?e = "p + length (object_text field_sep (fav_fields x))"
  have read: "member_at t p ?e k n = s" if "simple_key k" "map_of (fav_fields x) k = Some (JStr s)" "str_ok n s" for k n s
  proof -
    have "0 < n" using that(3) by (auto simp: str_ok_def)
    from get_string_at [OF d refl fav_fields_ok [OF ok] field_sep_ok that(1,2) this] str_ok_read [OF that(3)] show ?thesis
      by (simp add: member_at_def)
  qed
  have "member_at t p ?e ''system_id'' 64 = fav_system_id x"
    "member_at t p ?e ''relative_path'' UI_PATH_MAX = fav_relative_path x"
    "member_at t p ?e ''title'' 256 = fav_title x" "member_at t p ?e ''path'' UI_PATH_MAX = fav_path x"
    using ok by (auto simp: fav_entry_ok_def TEXT_PATH_MAX_def UI_PATH_MAX_def intro!: read fav_field_keys)
  moreover have "json_find_key_value t p ?e ''media'' = None"
    by (rule find_key_absent_at [OF d refl fav_fields_ok [OF ok] field_sep_ok media_key]) (simp add: fav_fields_def)
  then have "thumbnail_at t p ?e = []" by (simp add: thumbnail_at_def json_find_object_def)
  ultimately show ?thesis
    using ok by (simp add: favorite_at_def common_entry_at_def without_art_def as_favorite_def zero_ui_rom_def Let_def fav_entry_ok_def)
qed

lemma text_file_in_ui:
  assumes "os_read w path = Some (save_favorites_text st)" and "list_all fav_entry_ok st"
  shows "favorites_in w path = (True, map without_art st)"
  unfolding favorites_in_def
proof (rule load_rows)
  show "os_read w path = Some (file_head ''favorites'' @ array_text fav_json.row st @ [NL] @ ''}'' @ [NL])"
    using assms(1) unfolding save_favorites_array .
  show "list_all (row_ok \<circ> fav_json.row) st"
    using assms(2) by (auto simp: list_all_iff fav_json.row_def intro!: object_row_ok fav_fields_ok)
  show "favorite_at t s (s + length (fav_json.row x)) = without_art x" if "x \<in> set st" "drop s t = fav_json.row x @ r" for x t s r
    using text_row_in_ui [of s t x r] assms(2) that by (simp add: list_all_iff fav_json.row_def)
qed simp_all

section \<open>The file of the controller UI in the text UI\<close>

definition in_text_ui :: "ui_rom \<Rightarrow> favorite_entry" where
  "in_text_ui e = \<lparr>fav_system_id = ur_system_id e, fav_relative_path = ur_relative_path e, fav_title = ur_title e,
     fav_file_name = [], fav_path = ur_path e, fav_thumbnail = ur_thumbnail e\<rparr>"

lemma text_string_read:
  assumes "json_find_key_value t p e k = Some q" and "drop q t = json_write_escaped s @ r" and "q + length (json_write_escaped s) \<le> e"
    and s: "text_ok n s"
  shows "text_json_get_string t p e k n old = (True, s)"
proof -
  have "0 < n" using s by (auto simp: text_ok_def)
  with decode_written [OF assms(2,3)] text_ok_read [OF s] text_ok_no_nul [OF s] assms(1,2) show ?thesis
    by (simp add: text_json_get_string_def json_write_escaped_def)
qed

lemma ui_row_in_text:
  assumes ok: "ui_fav_ok x"
  shows "parse_favorite (ui_fav_row x) = in_text_ui x"
proof -
  let ?t = "ui_fav_row x"
  have d: "drop 0 ?t = ?t @ []" by simp
  have e: "length ?t = 0 + length ?t" by simp
  note nested = ui_fav_nested_ok [OF ok]
  have outer: "text_json_get_string ?t 0 (length ?t) k n [] = (True, s)"
    if k: "simple_key k" "map_of (ui_fav_fields x) k = Some (JStr s)" "text_ok n s" for k n s
  proof -
    obtain q r where "json_find_key_value ?t 0 (length ?t) k = Some q" "drop q ?t = json_write_escaped s @ r"
      "q + length (json_write_escaped s) \<le> length ?t"
      using nested_find [OF d e nested k(1,2)] by auto
    then show ?thesis by (rule text_string_read) (rule k(3))
  qed
  have "text_json_get_string ?t 0 (length ?t) ''thumbnail'' TEXT_PATH_MAX [] = (True, ur_thumbnail x)"
  proof -
    have "map_of (art_fields x) ''thumbnail'' = Some (JStr (ur_thumbnail x))" by (simp add: art_fields_def)
    then obtain q r where "json_find_key_value ?t 0 (length ?t) ''thumbnail'' = Some q" "drop q ?t = json_write_escaped (ur_thumbnail x) @ r"
      "q + length (json_write_escaped (ur_thumbnail x)) \<le> length ?t"
      using nested_find_inner(1) [OF d e nested key_names(6)] by (auto simp: ui_fav_fields_def)
    then show ?thesis by (rule text_string_read) (use ok in \<open>simp add: ui_fav_ok_def TEXT_PATH_MAX_def UI_PATH_MAX_def\<close>)
  qed
  moreover have "json_find_key_value ?t 0 (length ?t) ''file_name'' = None"
    by (rule nested_find_inner(2) [OF d e nested]) (simp_all add: ui_fav_fields_def art_fields_def)
  then have "text_json_get_string ?t 0 (length ?t) ''file_name'' 256 [] = (False, [])" by (simp add: text_json_get_string_def)
  moreover have "text_json_get_string ?t 0 (length ?t) ''system_id'' 64 [] = (True, ur_system_id x)"
    "text_json_get_string ?t 0 (length ?t) ''relative_path'' TEXT_PATH_MAX [] = (True, ur_relative_path x)"
    "text_json_get_string ?t 0 (length ?t) ''title'' 256 [] = (True, ur_title x)"
    "text_json_get_string ?t 0 (length ?t) ''path'' TEXT_PATH_MAX [] = (True, ur_path x)"
    using ok by (auto simp: ui_fav_ok_def TEXT_PATH_MAX_def UI_PATH_MAX_def intro!: outer ui_field_keys)
  ultimately show ?thesis by (simp add: parse_favorite_def in_text_ui_def)
qed

definition ui_favs_valid :: "ui_rom list \<Rightarrow> bool" where
  "ui_favs_valid es \<longleftrightarrow> list_all ui_fav_ok es \<and> distinct_keys entry_key es \<and>
     list_all (\<lambda>x. valid_system_id (ur_system_id x) \<and> valid_relative_rom_path (ur_relative_path x)) es"

lemma text_rows_fold:
  assumes "ui_favs_valid (pre @ es)" and "length pre + length es \<le> m"
  shows "fold_while (\<lambda>st. length st < m) (\<lambda>x st. add_parsed_favorite (ui_fav_row x) st) es (map in_text_ui pre) = map in_text_ui (pre @ es)"
  using assms
proof (induction es arbitrary: pre)
  case (Cons x es)
  then have ok: "ui_fav_ok x" "valid_system_id (ur_system_id x)" "valid_relative_rom_path (ur_relative_path x)"
    and new: "entry_key x \<notin> entry_key ` set pre"
    by (auto simp: ui_favs_valid_def)
  have "entry_key y \<noteq> entry_key x" if "y \<in> set pre" for y
  proof
    assume eq: "entry_key y = entry_key x"
    have "entry_key y \<in> entry_key ` set pre" by (rule imageI [OF that])
    with new show False unfolding eq by contradiction
  qed
  then have "find_favorite (map in_text_ui pre) (ur_system_id x) (ur_relative_path x) = None"
    by (auto simp: find_favorite_def in_text_ui_def)
  moreover have "ur_title x \<noteq> []" using ok by (simp add: ui_fav_ok_def)
  ultimately have "add_parsed_favorite (ui_fav_row x) (map in_text_ui pre) = map in_text_ui (pre @ [x])"
    using ok by (simp add: add_parsed_favorite_def ui_row_in_text fill_favorite_title_def in_text_ui_def)
  with Cons.IH [of "pre @ [x]"] Cons.prems show ?case by simp
qed simp

lemma ui_file_in_text:
  assumes t: "os_read w path = Some (save_favorite_entries_text es)" and "file_exists w path"
    and ok: "ui_favs_valid es" and len: "length es \<le> MAX_FAVORITES"
  shows "load_favorites w path = (True, map in_text_ui es)"
proof -
  let ?t = "file_head ''favorites'' @ array_text ui_fav_row es @ [NL] @ ''}'' @ [NL]"
  have all: "list_all ui_fav_ok es" using ok by (simp add: ui_favs_valid_def)
  have rows: "list_all (row_ok \<circ> ui_fav_row) es"
    using all nested_row_ok [OF ui_fav_nested_ok] by (auto simp: list_all_iff)
  have step: "add_parsed_favorite (range_dup ?t s (s + length (ui_fav_row x))) st = add_parsed_favorite (ui_fav_row x) st"
    if "x \<in> set es" "drop s ?t = ui_fav_row x @ r" for x s r st
  proof -
    have "NUL \<notin> set (ui_fav_row x)" using rows that(1) by (auto simp: list_all_iff row_ok_def)
    with range_dup_at [OF that(2)] show ?thesis by simp
  qed
  from rows_file [OF refl _ _ rows, of "''favorites''" "[NL] @ ''}'' @ [NL]" "\<lambda>st. length st < MAX_FAVORITES"
      "\<lambda>os oe st. add_parsed_favorite (range_dup ?t os oe) st" "\<lambda>x st. add_parsed_favorite (ui_fav_row x) st" "[]"] step
  obtain s be where "json_find_array ?t 0 (length ?t) ''favorites'' = Some (s, be)"
    "json_each_object ?t be s (\<lambda>st. length st < MAX_FAVORITES) (\<lambda>os oe st. add_parsed_favorite (range_dup ?t os oe) st) [] =
      fold_while (\<lambda>st. length st < MAX_FAVORITES) (\<lambda>x st. add_parsed_favorite (ui_fav_row x) st) es []" by auto
  with text_rows_fold [of "[]" es MAX_FAVORITES] ok len t assms(2) show ?thesis
    unfolding saved_favorites_array [OF all] by (simp add: load_favorites_def)
qed

section \<open>There and back\<close>

definition plain_favorites :: "favorite_entry list \<Rightarrow> bool" where
  "plain_favorites st \<longleftrightarrow> fav_table_ok st \<and> length st \<le> MAX_FAVORITES \<and>
     list_all (\<lambda>e. list_all (list_all config_char) [fav_system_id e, fav_relative_path e, fav_title e, fav_path e]) st"

lemma without_art_simps:
  "in_text_ui (without_art e) = e\<lparr>fav_file_name := [], fav_thumbnail := []\<rparr>"
  "entry_key (without_art e) = fav_key e" "ur_title (without_art e) = fav_title e" "ur_path (without_art e) = fav_path e"
  "ur_thumbnail (without_art e) = []"
  by (simp_all add: in_text_ui_def without_art_def as_favorite_def zero_ui_rom_def fav_key_def)

lemma without_art_valid:
  assumes "plain_favorites st"
  shows "ui_favs_valid (map without_art st)"
proof -
  have "ui_fav_ok (without_art e) \<and> valid_system_id (ur_system_id (without_art e)) \<and> valid_relative_rom_path (ur_relative_path (without_art e))"
    if "e \<in> set st" for e
    using assms that without_art_simps [of e]
    by (auto simp: plain_favorites_def fav_table_ok_def list_all_iff fav_entry_ok_def ui_fav_ok_def text_ok_def str_ok_def fav_key_def
        TEXT_PATH_MAX_def UI_PATH_MAX_def)
  moreover have "distinct_keys entry_key (map without_art st)"
    using assms without_art_simps(2) by (simp add: plain_favorites_def fav_table_ok_def comp_def)
  ultimately show ?thesis by (simp add: ui_favs_valid_def list_all_iff)
qed

text \<open>
  C19: The two frontends share the favorites file, but not the artwork. The controller UI reads in the file of the text UI every game in
  order, and none of its artwork; the text UI reads in the file of the controller UI every game with its artwork. So a file of the text
  UI that the controller UI reads and saves, as its favorite button does, comes back without any artwork and without the file names.
\<close>

theorem favorites_interop:
  assumes st: "plain_favorites st" and es: "ui_favs_valid es" "length es \<le> MAX_FAVORITES"
  shows "favorites_in (live_os w (d(path \<mapsto> (save_favorites_text st, b)))) path = (True, map without_art st) \<and>
    load_favorites (live_os w (d(path \<mapsto> (save_favorite_entries_text es, b)))) path = (True, map in_text_ui es) \<and>
    load_favorites (live_os w (d(path \<mapsto> (save_favorite_entries_text (snd (favorites_in
        (live_os w (d(path \<mapsto> (save_favorites_text st, b)))) path)), b)))) path =
      (True, map (fav_file_name_update (\<lambda>_. []) \<circ> fav_thumbnail_update (\<lambda>_. [])) st)"
proof -
  have rd: "os_read (live_os w (d(path \<mapsto> (t, b)))) path = Some t" "file_exists (live_os w (d(path \<mapsto> (t, b)))) path" for t
    by (simp_all add: live_os_def reader_os_def file_exists_def)
  have ui: "favorites_in (live_os w (d(path \<mapsto> (save_favorites_text st, b)))) path = (True, map without_art st)"
    by (rule text_file_in_ui [OF rd(1)]) (use st in \<open>simp add: plain_favorites_def fav_table_ok_def\<close>)
  have "load_favorites (live_os w (d(path \<mapsto> (save_favorite_entries_text (map without_art st), b)))) path =
      (True, map in_text_ui (map without_art st))"
    by (rule ui_file_in_text [OF rd without_art_valid [OF st]]) (use st in \<open>simp add: plain_favorites_def\<close>)
  with ui ui_file_in_text [OF rd es] show ?thesis by (simp add: without_art_simps comp_def)
qed

definition shared_favorite :: favorite_entry where
  "shared_favorite = \<lparr>fav_system_id = ''gg'', fav_relative_path = ''gg/a.gg'', fav_title = ''A'', fav_file_name = ''a.gg'',
     fav_path = ''/roms/gg/a.gg'', fav_thumbnail = ''/art/a.png''\<rparr>"

theorem favorites_interop_witness:
  "load_favorites (live_os demo_os ((\<lambda>_. None)(''f'' \<mapsto> (save_favorite_entries_text (snd (favorites_in
      (live_os demo_os ((\<lambda>_. None)(''f'' \<mapsto> (save_favorites_text [shared_favorite], True)))) ''f'')), True)))) ''f'' =
    (True, [shared_favorite\<lparr>fav_file_name := [], fav_thumbnail := []\<rparr>])"
proof -
  have st: "plain_favorites [shared_favorite]"
    by (simp add: plain_favorites_def shared_favorite_def fav_table_ok_def fav_entry_ok_def str_ok_def valid_system_id_def
        valid_relative_rom_path_def contains_str_def TEXT_PATH_MAX_def isalnum_def isdigit_def code_of_def plain_char_def config_char_def
        MAX_FAVORITES_def)
  have es: "ui_favs_valid [without_art shared_favorite]" using without_art_valid [OF st] by simp
  have len: "length [without_art shared_favorite] \<le> MAX_FAVORITES" by (simp add: MAX_FAVORITES_def)
  from favorites_interop [OF st es len, of demo_os "\<lambda>_. None" "''f''" True, THEN conjunct2, THEN conjunct2] show ?thesis
    by (simp add: comp_def del: fun_upd_apply)
qed

end
