(* ===== verification/UiBrowseProofs.thy ===== *)
theory UiBrowseProofs
  imports UiFavsProofs
begin

text \<open>
  The games of a system as directories: every game of the cache can be reached from the first list by entering directories, nothing
  else is listed, and leaving a directory leads back to the entry it was entered by.
\<close>

section \<open>Paths as segments\<close>

fun slashed :: "string list \<Rightarrow> string" where
  "slashed [] = []"
| "slashed [s] = s"
| "slashed (s # t # segs) = s @ CHR ''/'' # slashed (t # segs)"

definition segment_ok :: "string \<Rightarrow> bool" where
  "segment_ok s \<longleftrightarrow> s \<noteq> [] \<and> CHR ''/'' \<notin> set s \<and> s \<noteq> ''.'' \<and> s \<noteq> ''..'' \<and> length s < 256"

lemma slashed_append: "as \<noteq> [] \<Longrightarrow> bs \<noteq> [] \<Longrightarrow> slashed (as @ bs) = slashed as @ CHR ''/'' # slashed bs"
proof (induction as rule: slashed.induct)
  case (2 s)
  then show ?case by (cases bs) auto
qed auto

lemma strchr_slash: "CHR ''/'' \<notin> set s \<Longrightarrow> strchr (s @ CHR ''/'' # r) CHR ''/'' = Some (length s)"
  by (induction s) auto

lemma strrchr_slash: "CHR ''/'' \<notin> set s \<Longrightarrow> strrchr (r @ CHR ''/'' # s) CHR ''/'' = Some (length r)"
  by (induction r) auto

lemma slashed_nonempty: "segs \<noteq> [] \<Longrightarrow> list_all segment_ok segs \<Longrightarrow> slashed segs \<noteq> []"
  by (induction segs rule: slashed.induct) (auto simp: segment_ok_def)

lemma strchr_slashed:
  "list_all segment_ok (s # segs) \<Longrightarrow> strchr (slashed (s # segs)) CHR ''/'' = (if segs = [] then None else Some (length s))"
  by (cases segs) (auto simp: segment_ok_def strchr_slash)

lemma slashed_length_mono: "as \<noteq> [] \<Longrightarrow> length (slashed as) \<le> length (slashed (as @ bs))"
  by (cases "bs = []") (simp_all add: slashed_append)

section \<open>What lies in a directory\<close>

text \<open>
  Which entry a game gets in the list of a directory, said with the segments of its path alone. In a directory these are the segments that
  follow those of the directory. In the first list of a system they are what follows the first segment, which is the directory of the
  system itself and not shown, unless nothing follows it. One segment is a file here; more are a directory here, named by the first.
\<close>

fun segments :: "string \<Rightarrow> string list" where
  "segments [] = [[]]"
| "segments (c # s) = (if c = CHR ''/'' then [] # segments s else (c # hd (segments s)) # tl (segments s))"

definition only_top :: "string list \<Rightarrow> bool" where
  "only_top segs \<longleftrightarrow> tl segs = [] \<or> tl segs = [[]]"

definition below :: "string \<Rightarrow> string \<Rightarrow> string list" where
  "below dir rel =
     (if dir \<noteq> [] then (if prefix (segments dir) (segments rel) then drop (length (segments dir)) (segments rel) else [])
      else if only_top (segments rel) then segments rel else tl (segments rel))"

definition file_in :: "string \<Rightarrow> string \<Rightarrow> bool" where
  "file_in dir rel \<longleftrightarrow> (\<exists>name. name \<noteq> [] \<and> below dir rel = [name])"

definition parent_path :: "string \<Rightarrow> string \<Rightarrow> string" where
  "parent_path dir rel = (if dir \<noteq> [] then dir else if only_top (segments rel) then [] else hd (segments rel))"

definition dir_in :: "string \<Rightarrow> string \<Rightarrow> string \<Rightarrow> bool" where
  "dir_in dir rel d \<longleftrightarrow> (\<exists>name. 1 < length (below dir rel) \<and> name = hd (below dir rel) \<and> segment_ok name \<and> length d < UI_PATH_MAX \<and>
     d = (if parent_path dir rel = [] then name else parent_path dir rel @ CHR ''/'' # name))"

lemma segments_nonempty [simp]: "segments s \<noteq> []"
  by (cases s) simp_all

lemma segments_append: "segments (a @ CHR ''/'' # b) = segments a @ segments b"
  by (induction a) simp_all

lemma segments_plain: "CHR ''/'' \<notin> set s \<Longrightarrow> segments s = [s]"
  by (induction s) auto

lemma slashed_Cons: "l \<noteq> [] \<Longrightarrow> slashed (x # l) = x @ CHR ''/'' # slashed l"
  by (cases l) simp_all

lemma slashed_segments [simp]: "slashed (segments s) = s"
proof (induction s)
  case (Cons c s)
  obtain x l where l: "segments s = x # l" by (cases "segments s") simp_all
  with Cons show ?case by (cases l) (simp_all add: slashed_Cons)
qed simp

lemma segments_no_slash: "\<forall>x \<in> set (segments s). CHR ''/'' \<notin> set x"
proof (induction s)
  case (Cons c s)
  then show ?case by (cases "segments s") auto
qed simp

lemma segments_prefix: "(\<exists>b. rel = dir @ CHR ''/'' # b \<and> segments b = r) \<longleftrightarrow> segments rel = segments dir @ r \<and> r \<noteq> []"
proof
  assume "segments rel = segments dir @ r \<and> r \<noteq> []"
  then have s: "segments rel = segments dir @ r" and r: "r \<noteq> []" by simp_all
  have "rel = slashed (segments dir @ r)" by (simp flip: s)
  also have "\<dots> = dir @ CHR ''/'' # slashed r" using r by (simp add: slashed_append)
  finally have rel: "rel = dir @ CHR ''/'' # slashed r" .
  with s show "\<exists>b. rel = dir @ CHR ''/'' # b \<and> segments b = r" by (simp add: segments_append)
qed (auto simp: segments_append)

lemma segments_strchr:
  "segments s = (case strchr s CHR ''/'' of None \<Rightarrow> [s] | Some n \<Rightarrow> take n s # segments (drop (n + 1) s))"
proof (cases "strchr s CHR ''/''")
  case None
  then have "CHR ''/'' \<notin> set s" by simp
  with None show ?thesis by (simp add: segments_plain)
next
  case (Some n)
  from strchr_SomeD [OF this] have n: "n < length s" "s ! n = CHR ''/''" "CHR ''/'' \<notin> set (take n s)" by auto
  then have "s = take n s @ CHR ''/'' # drop (n + 1) s" by (metis id_take_nth_drop Suc_eq_plus1)
  then have "segments s = segments (take n s) @ segments (drop (n + 1) s)" by (metis segments_append)
  with Some n(3) show ?thesis by (simp add: segments_plain)
qed

lemma segment_after_file: "segment_after rel n tail = File_Here \<longleftrightarrow> (\<exists>name. name \<noteq> [] \<and> segments tail = [name])"
  by (auto simp: segment_after_def segments_strchr [of tail] Let_def split: option.splits)

lemma segment_after_dir:
  "(\<exists>c. segment_after rel n tail = Dir_Here d c) \<longleftrightarrow>
     (\<exists>name. 1 < length (segments tail) \<and> name = hd (segments tail) \<and> segment_ok name \<and> length d < UI_PATH_MAX \<and>
       d = (if n = 0 then name else take n rel @ CHR ''/'' # name))"
proof (cases "strchr tail CHR ''/''")
  case None
  then show ?thesis by (simp add: segment_after_def segments_strchr [of tail])
next
  case (Some i)
  from strchr_SomeD [OF this] have i: "i < length tail" "CHR ''/'' \<notin> set (take i tail)" by auto
  then have "tail \<noteq> []" "length (take i tail) = i" by auto
  then show ?thesis using Some i
    by (auto simp: segment_after_def segments_strchr [of tail] segment_ok_def Let_def)
qed

lemma browse_here:
  "(rom_browser_child_for_path rel dir = File_Here \<longleftrightarrow> file_in dir rel) \<and>
   ((\<exists>c. rom_browser_child_for_path rel dir = Dir_Here d c) \<longleftrightarrow> dir_in dir rel d)"
proof (cases "dir = []")
  case top: True
  show ?thesis
  proof (cases "strchr rel CHR ''/''")
    case None
    then have s: "segments rel = [rel]" by (simp add: segments_strchr [of rel])
    with None top show ?thesis
      by (simp add: rom_browser_child_for_path_def segment_after_def file_in_def dir_in_def below_def only_top_def)
  next
    case (Some i)
    from strchr_SomeD [OF this] have i: "i < length rel" by auto
    have s: "segments rel = take i rel # segments (drop (i + 1) rel)" by (simp add: segments_strchr [of rel] Some)
    have e: "segments x = [[]] \<longleftrightarrow> x = []" for x by (metis slashed_segments slashed.simps(2) segments.simps(1))
    show ?thesis
    proof (cases "i + 1 < length rel")
      case True
      then have "\<not> only_top (segments rel)" by (simp add: s only_top_def e)
      then have "below dir rel = segments (drop (i + 1) rel)" "parent_path dir rel = take i rel"
        using top s by (simp_all add: below_def parent_path_def)
      moreover have "rom_browser_child_for_path rel dir = segment_after rel i (drop (i + 1) rel)"
        using top Some True by (auto simp: rom_browser_child_for_path_def)
      ultimately show ?thesis using i by (simp add: segment_after_file segment_after_dir file_in_def dir_in_def)
    next
      case False
      then have "only_top (segments rel)" by (simp add: s only_top_def)
      then have "below dir rel = segments rel" "parent_path dir rel = []" using top by (simp_all add: below_def parent_path_def)
      moreover have "rom_browser_child_for_path rel dir = segment_after rel 0 rel"
        using top Some False i by (auto simp: rom_browser_child_for_path_def)
      ultimately show ?thesis by (simp add: segment_after_file segment_after_dir file_in_def dir_in_def)
    qed
  qed
next
  case sub: False
  show ?thesis
  proof (cases "\<exists>b. rel = dir @ CHR ''/'' # b")
    case True
    then obtain b where b: "rel = dir @ CHR ''/'' # b" by blast
    have "rom_browser_child_for_path rel dir = segment_after rel (length dir) b"
      using sub b by (simp add: rom_browser_child_for_path_def byte_at_def nth_append)
    moreover have "below dir rel = segments b" "parent_path dir rel = dir"
      using sub b by (simp_all add: below_def parent_path_def segments_append)
    moreover have "take (length dir) rel = dir" "length dir \<noteq> 0" using b sub by simp_all
    ultimately show ?thesis using sub by (simp add: segment_after_file segment_after_dir file_in_def dir_in_def)
  next
    case False
    have "\<not> (prefix dir rel \<and> byte_at rel (length dir) = CHR ''/'')"
    proof
      assume p: "prefix dir rel \<and> byte_at rel (length dir) = CHR ''/''"
      then obtain x where "rel = dir @ x" by (auto simp: prefix_def)
      with p False show False by (cases x) (auto simp: byte_at_def nth_append)
    qed
    then have "rom_browser_child_for_path rel dir = Hidden" using sub by (auto simp: rom_browser_child_for_path_def)
    moreover have "below dir rel = []"
    proof (cases "prefix (segments dir) (segments rel)")
      case True
      then obtain r where r: "segments rel = segments dir @ r" by (auto simp: prefix_def)
      with False segments_prefix [of rel dir r] have "r = []" by blast
      with r sub show ?thesis by (simp add: below_def)
    qed (use sub in \<open>simp add: below_def\<close>)
    ultimately show ?thesis by (simp add: file_in_def dir_in_def)
  qed
qed

section \<open>The way to a game\<close>

lemma segment_after_slashed:
  assumes ok: "list_all segment_ok (as @ b # bs)" and "as \<noteq> []" and len: "length (slashed (as @ b # bs)) < UI_PATH_MAX"
  shows "segment_after (slashed (as @ b # bs)) (length (slashed as)) (slashed (b # bs)) =
    (if bs = [] then File_Here else Dir_Here (slashed (as @ [b])) b)"
proof -
  have b: "list_all segment_ok (b # bs)" "list_all segment_ok as" "segment_ok b" using ok by simp_all
  have ne: "slashed as \<noteq> []" "slashed (b # bs) \<noteq> []"
    using slashed_nonempty [OF assms(2) b(2)] slashed_nonempty [OF _ b(1)] by simp_all
  have pre: "take (length (slashed as)) (slashed (as @ b # bs)) = slashed as"
    using assms(2) by (simp add: slashed_append)
  have child: "bs \<noteq> [] \<Longrightarrow> take (length b) (slashed (b # bs)) = b" by (cases bs) simp_all
  have dir: "slashed as @ CHR ''/'' # b = slashed (as @ [b])" using assms(2) by (simp add: slashed_append)
  have "length (slashed (as @ [b])) \<le> length (slashed ((as @ [b]) @ bs))" by (rule slashed_length_mono) simp
  then have fits: "length (slashed (as @ [b])) < UI_PATH_MAX" using len by simp
  show ?thesis
  proof (cases "bs = []")
    case True
    with strchr_slashed [OF b(1)] ne(2) show ?thesis by (simp add: segment_after_def)
  next
    case False
    with strchr_slashed [OF b(1)] ne child dir fits b(3) show ?thesis
      unfolding segment_after_def pre by (simp add: segment_ok_def Let_def)
  qed
qed

text \<open>The directories on the way to a path of the cache: first the list of the system, then one segment more at a time.\<close>

definition directory_at :: "string list \<Rightarrow> nat \<Rightarrow> string" where
  "directory_at segs k = (if k = 0 then [] else slashed (take (Suc k) segs))"

definition path_ok :: "string list \<Rightarrow> bool" where
  "path_ok segs \<longleftrightarrow> segs \<noteq> [] \<and> list_all segment_ok segs \<and> length (slashed segs) < UI_PATH_MAX"

lemma browse_below:
  assumes ok: "path_ok (as @ b # bs)" and "as \<noteq> []"
  shows "rom_browser_child_for_path (slashed (as @ b # bs)) (slashed as) = (if bs = [] then File_Here else Dir_Here (slashed (as @ [b])) b)"
    and "length as = 1 \<Longrightarrow>
      rom_browser_child_for_path (slashed (as @ b # bs)) [] = (if bs = [] then File_Here else Dir_Here (slashed (as @ [b])) b)"
proof -
  have all: "list_all segment_ok (as @ b # bs)" "length (slashed (as @ b # bs)) < UI_PATH_MAX" using ok by (simp_all add: path_ok_def)
  note seg = segment_after_slashed [OF all(1) assms(2) all(2)]
  have split: "slashed (as @ b # bs) = slashed as @ CHR ''/'' # slashed (b # bs)" using assms(2) by (simp add: slashed_append)
  have ne: "slashed as \<noteq> []" "slashed (b # bs) \<noteq> []" "slashed (as @ b # bs) \<noteq> []"
    using slashed_nonempty [OF assms(2)] slashed_nonempty [of "b # bs"] slashed_nonempty [of "as @ b # bs"] all(1) by simp_all
  have "byte_at (slashed (as @ b # bs)) (length (slashed as)) = CHR ''/''"
    by (rule byte_at_drop [of _ _ _ "slashed (b # bs)"]) (simp add: split)
  moreover have "drop (length (slashed as) + 1) (slashed (as @ b # bs)) = slashed (b # bs)" by (simp add: split)
  ultimately show "rom_browser_child_for_path (slashed (as @ b # bs)) (slashed as) =
      (if bs = [] then File_Here else Dir_Here (slashed (as @ [b])) b)"
    using seg ne by (simp add: rom_browser_child_for_path_def split)
  assume "length as = 1"
  then obtain a where a: "as = [a]" by (cases as) auto
  with all(1) have "strchr (slashed (as @ b # bs)) CHR ''/'' = Some (length (slashed as))"
    using strchr_slashed [of a "b # bs"] by simp
  with seg ne a show "rom_browser_child_for_path (slashed (as @ b # bs)) [] =
      (if bs = [] then File_Here else Dir_Here (slashed (as @ [b])) b)"
    by (simp add: rom_browser_child_for_path_def)
qed

lemma browse_on_the_way:
  assumes ok: "path_ok segs" and k: "Suc k < length segs"
  shows "rom_browser_child_for_path (slashed segs) (directory_at segs k) =
    (if Suc (Suc k) = length segs then File_Here else Dir_Here (directory_at segs (Suc k)) (segs ! Suc k))"
proof -
  have s: "segs = take (Suc k) segs @ segs ! Suc k # drop (Suc (Suc k)) segs" using k by (rule id_take_nth_drop)
  have ne: "take (Suc k) segs \<noteq> []" using k by (cases segs) simp_all
  have ok': "path_ok (take (Suc k) segs @ segs ! Suc k # drop (Suc (Suc k)) segs)" using ok s by simp
  have nxt: "directory_at segs (Suc k) = slashed (take (Suc k) segs @ [segs ! Suc k])"
    using k by (simp add: directory_at_def take_Suc_conv_app_nth)
  have last: "drop (Suc (Suc k)) segs = [] \<longleftrightarrow> Suc (Suc k) = length segs" using k by auto
  note b = browse_below [OF ok' ne, folded s nxt, unfolded last]
  show ?thesis
  proof (cases k)
    case 0
    then show ?thesis using b(2) k by (simp add: directory_at_def min_def)
  next
    case (Suc j)
    then show ?thesis using b(1) by (simp add: directory_at_def)
  qed
qed

lemma browse_top_file: "path_ok [s] \<Longrightarrow> rom_browser_child_for_path s [] = File_Here"
  by (simp add: path_ok_def segment_ok_def rom_browser_child_for_path_def segment_after_def)

lemma parent_on_the_way:
  assumes ok: "path_ok segs" and k: "Suc (Suc k) \<le> length segs"
  shows "parent_rom_directory (directory_at segs (Suc k)) = directory_at segs k"
proof -
  have t: "take (Suc (Suc k)) segs = take (Suc k) segs @ [segs ! Suc k]" using k by (simp add: take_Suc_conv_app_nth)
  have ne: "take (Suc k) segs \<noteq> []" using k by (cases segs) simp_all
  have seg: "segment_ok (segs ! Suc k)" "list_all segment_ok (take (Suc (Suc k)) segs)"
    using ok k by (auto simp: path_ok_def list_all_iff dest: in_set_takeD)
  let ?d = "slashed (take (Suc k) segs) @ CHR ''/'' # segs ! Suc k"
  have d: "directory_at segs (Suc k) = ?d" using ne t by (simp add: directory_at_def slashed_append)
  have r: "strrchr ?d CHR ''/'' = Some (length (slashed (take (Suc k) segs)))"
    using seg(1) by (intro strrchr_slash) (simp add: segment_ok_def)
  obtain s rest where sr: "take (Suc (Suc k)) segs = s # rest" using k by (cases segs) auto
  have l: "strchr ?d CHR ''/'' = Some (length s)"
    using strchr_slashed [of s rest] seg(2) sr d t ne by (auto simp: directory_at_def)
  show ?thesis
  proof (cases k)
    case 0
    with sr t have "s = slashed (take (Suc k) segs)" by (cases segs) auto
    with 0 r l show ?thesis unfolding d by (simp add: parent_rom_directory_def directory_at_def)
  next
    case (Suc j)
    obtain s2 r2 where "take (Suc k) segs = s # s2 # r2" using sr t Suc k by (cases segs; cases "tl segs") auto
    then have "length s < length (slashed (take (Suc k) segs))" by simp
    with Suc r l show ?thesis unfolding d by (simp add: parent_rom_directory_def directory_at_def)
  qed
qed

section \<open>The list of one directory\<close>

text \<open>The objects of an array as ranges, and the games they stand for.\<close>

definition objects_of :: "string \<Rightarrow> nat \<Rightarrow> nat \<Rightarrow> (nat \<times> nat) list" where
  "objects_of json e s = json_each_object json e s (\<lambda>_. True) (\<lambda>os oe l. l @ [(os, oe)]) []"

lemma each_object_acc:
  "json_each_object json e s (\<lambda>_. True) (\<lambda>os oe l. l @ [(os, oe)]) acc = acc @ objects_of json e s \<and>
   json_each_object json e s (\<lambda>_. True) step st = foldl (\<lambda>st (os, oe). step os oe st) st (objects_of json e s)"
proof (induction "e - s" arbitrary: s acc st rule: less_induct)
  case less
  show ?case
  proof (cases "json_next_object json s e")
    case None
    then show ?thesis by (simp add: objects_of_def json_each_object.simps [of json e s])
  next
    case (Some p)
    obtain os oe where p: "p = (os, oe)" by (cases p)
    have lt: "e - oe < e - s" using json_next_object_bounds [of json s e os oe] Some p by auto
    note ih = less(1) [OF lt]
    have "objects_of json e s = (os, oe) # objects_of json e oe"
      using ih [of "[(os, oe)]"] Some p by (simp add: objects_of_def json_each_object.simps [of json e s])
    with ih Some p show ?thesis by (simp add: json_each_object.simps [of json e s])
  qed
qed

definition games_of :: "string \<Rightarrow> string \<Rightarrow> nat \<Rightarrow> nat \<Rightarrow> ui_rom list" where
  "games_of system_id json e s = map (\<lambda>(os, oe). rom_at system_id json os oe) (objects_of json e s)"

definition browse_all :: "ui_rom list \<Rightarrow> ui_state \<Rightarrow> ui_state" where
  "browse_all games ui = foldl (\<lambda>ui e. browse_rom e ui) ui games"

lemma each_object_browse:
  "json_each_object json e s (\<lambda>_. True) (\<lambda>os oe ui. browse_rom (rom_at system_id json os oe) ui) ui =
     browse_all (games_of system_id json e s) ui"
proof -
  have "foldl (\<lambda>ui (os, oe). browse_rom (rom_at system_id json os oe) ui) ui xs =
      browse_all (map (\<lambda>(os, oe). rom_at system_id json os oe) xs) ui" for xs
    by (induction xs arbitrary: ui) (auto simp: browse_all_def)
  then show ?thesis
    using each_object_acc [of json e s "[]" "\<lambda>os oe ui. browse_rom (rom_at system_id json os oe) ui" ui] by (simp add: games_of_def)
qed

lemma dir_here:
  assumes "rom_browser_child_for_path rel dir = Dir_Here d child"
  shows "d \<noteq> [] \<and> child \<noteq> [] \<and> length d < UI_PATH_MAX"
  using assms by (auto simp: rom_browser_child_for_path_def segment_after_def Let_def split: if_splits option.splits dest!: strchr_SomeD)

abbreviation dir_paths :: "ui_rom list \<Rightarrow> string list" where
  "dir_paths es \<equiv> map ur_relative_path (filter ur_is_navigation_directory es)"

abbreviation here :: "string \<Rightarrow> ui_rom \<Rightarrow> browse" where
  "here dir e \<equiv> rom_browser_child_for_path (ur_relative_path e) dir"

text \<open>What the loop keeps: the games of this directory in their order, and each directory below it once.\<close>

definition listing_of :: "string \<Rightarrow> ui_rom list \<Rightarrow> ui_rom list \<Rightarrow> bool" where
  "listing_of dir games es \<longleftrightarrow>
     filter (\<lambda>e. \<not> ur_is_navigation_directory e) es = filter (\<lambda>e. here dir e = File_Here) games \<and>
     distinct (dir_paths es) \<and> set (dir_paths es) = {d. \<exists>e \<in> set games. \<exists>c. here dir e = Dir_Here d c}"

lemma browse_rom_dir [simp]: "ui_rom_directory (browse_rom e ui) = ui_rom_directory ui"
  by (simp add: browse_rom_def add_navigation_directory_entry_def ui_append_rom_entry_def split: browse.splits)

lemma listing_step:
  assumes "listing_of (ui_rom_directory ui) games (ui_rom_entries ui)" and "\<not> ur_is_navigation_directory e"
  shows "listing_of (ui_rom_directory ui) (games @ [e]) (ui_rom_entries (browse_rom e ui))"
proof (cases "here (ui_rom_directory ui) e")
  case (Dir_Here d c)
  note ok = dir_here [OF Dir_Here]
  show ?thesis
  proof (cases "rom_navigation_directory_exists ui d")
    case True
    then have "d \<in> set (dir_paths (ui_rom_entries ui))"
      by (auto simp: rom_navigation_directory_exists_def list_ex_iff)
    with assms(1) Dir_Here True show ?thesis
      by (auto simp: listing_of_def browse_rom_def add_navigation_directory_entry_def)
  next
    case False
    then have new: "d \<notin> set (dir_paths (ui_rom_entries ui))"
      using ok by (auto simp: rom_navigation_directory_exists_def list_ex_iff)
    obtain x where x: "ui_rom_entries (browse_rom e ui) = ui_rom_entries ui @ [x]" "ur_is_navigation_directory x" "ur_relative_path x = d"
      using Dir_Here False ok
      by (simp add: browse_rom_def add_navigation_directory_entry_def ui_append_rom_entry_def zero_ui_rom_def stored_eq)
    with assms(1) Dir_Here new show ?thesis by (auto simp: listing_of_def)
  qed
qed (use assms in \<open>auto simp: listing_of_def browse_rom_def ui_append_rom_entry_def\<close>)

lemma browse_all_dir [simp]: "ui_rom_directory (browse_all games ui) = ui_rom_directory ui"
  by (induction games arbitrary: ui) (simp_all add: browse_all_def)

lemma browse_all_snoc: "browse_all (games @ [e]) ui = browse_rom e (browse_all games ui)"
  by (simp add: browse_all_def)

lemma listing_all:
  assumes "ui_rom_entries ui = []" and "list_all (\<lambda>e. \<not> ur_is_navigation_directory e) games"
  shows "listing_of (ui_rom_directory ui) games (ui_rom_entries (browse_all games ui))"
  using assms(2)
proof (induction games rule: rev_induct)
  case Nil
  then show ?case by (simp add: browse_all_def listing_of_def assms(1))
next
  case (snoc e games)
  then have "listing_of (ui_rom_directory (browse_all games ui)) games (ui_rom_entries (browse_all games ui))" by simp
  from listing_step [OF this] snoc.prems show ?case by (simp add: browse_all_snoc)
qed

lemma games_are_files: "list_all (\<lambda>e. \<not> ur_is_navigation_directory e) (games_of system_id json e s)"
  by (auto simp: games_of_def list_all_iff rom_at_def common_entry_at_def zero_ui_rom_def Let_def)

section \<open>What is on the screen\<close>

definition unflag :: "ui_rom \<Rightarrow> ui_rom" where
  "unflag e = e\<lparr>ur_is_favorite := False\<rparr>"

lemma unflag_simps [simp]:
  "ur_is_navigation_directory (unflag e) = ur_is_navigation_directory e" "ur_relative_path (unflag e) = ur_relative_path e"
  by (simp_all add: unflag_def)

definition shown_exactly :: "string \<Rightarrow> ui_rom list \<Rightarrow> ui_rom list \<Rightarrow> bool" where
  "shown_exactly dir games es \<longleftrightarrow>
     mset (map unflag (filter (\<lambda>e. \<not> ur_is_navigation_directory e) es)) =
       mset (map unflag (filter (\<lambda>e. file_in dir (ur_relative_path e)) games)) \<and>
     distinct (dir_paths es) \<and> set (dir_paths es) = {d. \<exists>e \<in> set games. dir_in dir (ur_relative_path e) d}"

lemma mark_flags_unflag: "map unflag (ui_rom_entries (mark_favorite_flags w ui)) = map unflag (ui_rom_entries ui)"
  by (auto simp: mark_favorite_flags_def flag_favorite_def unflag_def Let_def split: prod.splits)

lemma unflag_filter:
  assumes "map unflag xs = map unflag ys"
  shows "map unflag (filter ur_is_navigation_directory xs) = map unflag (filter ur_is_navigation_directory ys)"
    and "map unflag (filter (\<lambda>e. \<not> ur_is_navigation_directory e) xs) = map unflag (filter (\<lambda>e. \<not> ur_is_navigation_directory e) ys)"
proof -
  have f: "map unflag (filter (\<lambda>e. P (unflag e)) l) = filter P (map unflag l)" for P l by (induction l) simp_all
  show "map unflag (filter ur_is_navigation_directory xs) = map unflag (filter ur_is_navigation_directory ys)"
    using assms f [of ur_is_navigation_directory xs] f [of ur_is_navigation_directory ys] by simp
  show "map unflag (filter (\<lambda>e. \<not> ur_is_navigation_directory e) xs) = map unflag (filter (\<lambda>e. \<not> ur_is_navigation_directory e) ys)"
    using assms f [of "\<lambda>e. \<not> ur_is_navigation_directory e" xs] f [of "\<lambda>e. \<not> ur_is_navigation_directory e" ys] by simp
qed

lemma dir_paths_unflag: "dir_paths es = map ur_relative_path (map unflag (filter ur_is_navigation_directory es))"
  by simp

lemma shown_cong:
  assumes "map unflag xs = map unflag ys" and "shown_exactly dir games xs"
  shows "shown_exactly dir games ys"
  using assms(2) unflag_filter [OF assms(1)] unfolding shown_exactly_def dir_paths_unflag by (simp del: map_map)

lemma shown_perm:
  assumes "mset xs = mset ys" and "shown_exactly dir games xs"
  shows "shown_exactly dir games ys"
proof -
  have m: "mset (map unflag (filter P xs)) = mset (map unflag (filter P ys))" "mset (map ur_relative_path (filter P xs)) = mset (map ur_relative_path (filter P ys))" for P
    using assms(1) by simp_all
  from m(2) [of ur_is_navigation_directory]
  have "set (dir_paths xs) = set (dir_paths ys)" "distinct (dir_paths xs) = distinct (dir_paths ys)"
    by (rule mset_eq_setD, rule mset_eq_imp_distinct_iff)
  with assms(2) m(1) show ?thesis by (simp add: shown_exactly_def)
qed

lemma rom_list_shown:
  assumes "os_read w path = Some json" and "json_find_array json 0 (length json) ''roms'' = Some (s, e)" and "ui_rom_entries ui = []"
  shows "shown_exactly (ui_rom_directory ui) (games_of system_id json e s) (ui_rom_entries (snd (read_rom_cache w path system_id ui)))"
proof -
  let ?b = "browse_all (games_of system_id json e s) ui"
  have "shown_exactly (ui_rom_directory ui) (games_of system_id json e s) (ui_rom_entries ?b)"
    using listing_all [OF assms(3) games_are_files, of system_id json e s] by (simp add: listing_of_def shown_exactly_def browse_here)
  then have "shown_exactly (ui_rom_directory ui) (games_of system_id json e s) (ui_rom_entries (sort_rom_entries ?b))"
    by (rule shown_perm [rotated]) (simp add: sort_rom_entries_def)
  moreover have "ui_rom_entries (snd (read_rom_cache w path system_id ui)) = ui_rom_entries (mark_favorite_flags w (sort_rom_entries ?b))"
    using assms by (simp add: read_rom_cache_def each_object_browse)
  ultimately show ?thesis using shown_cong [OF mark_flags_unflag [symmetric]] by simp
qed

text \<open>
  C16: Every game of the cache can be reached. The list of a directory shows exactly the games of the cache that lie in it by the segments
  of their paths, each as often as the cache has it, and each directory with games below it exactly once, and nothing else. So from the first list of the
  system a game is reached by entering the directories of its path one after the other: each list shows the next of them, the last one
  the game itself, and the parent of each directory is the one it was entered from.
\<close>

theorem every_game_is_reachable:
  assumes cache: "os_read w path = Some json" "json_find_array json 0 (length json) ''roms'' = Some (s, e)"
    and game: "game \<in> set (games_of system_id json e s)" "ur_relative_path game = slashed segs" "path_ok segs"
    and dir: "ui_rom_entries ui = []" "ui_rom_directory ui = directory_at segs k" "k \<le> length segs - 2"
  shows "let es = ui_rom_entries (snd (read_rom_cache w path system_id ui)) in
    shown_exactly (directory_at segs k) (games_of system_id json e s) es \<and>
    (if Suc (Suc k) < length segs
     then (\<exists>x \<in> set es. ur_is_navigation_directory x \<and> ur_relative_path x = directory_at segs (Suc k)) \<and>
       parent_rom_directory (directory_at segs (Suc k)) = directory_at segs k
     else \<exists>x \<in> set es. \<not> ur_is_navigation_directory x \<and> unflag x = unflag game)"
proof -
  define es where "es = ui_rom_entries (snd (read_rom_cache w path system_id ui))"
  have shown: "shown_exactly (directory_at segs k) (games_of system_id json e s) es"
    using rom_list_shown [OF cache dir(1), of system_id] dir(2) by (simp add: es_def)
  have way: "here (directory_at segs k) game = (if Suc (Suc k) < length segs then Dir_Here (directory_at segs (Suc k)) (segs ! Suc k) else File_Here)"
  proof (cases "Suc k < length segs")
    case True
    with browse_on_the_way [OF game(3) True] game(2) dir(3) show ?thesis by auto
  next
    case False
    with dir(3) game(3) obtain a where "segs = [a]" "k = 0" by (cases segs; cases "tl segs") (auto simp: path_ok_def)
    with browse_top_file [of a] game show ?thesis by (simp add: directory_at_def)
  qed
  show ?thesis
  proof (cases "Suc (Suc k) < length segs")
    case True
    with way have "here (directory_at segs k) game = Dir_Here (directory_at segs (Suc k)) (segs ! Suc k)" by simp
    with browse_here [of "ur_relative_path game" "directory_at segs k" "directory_at segs (Suc k)"]
    have "dir_in (directory_at segs k) (ur_relative_path game) (directory_at segs (Suc k))" by blast
    with game(1) have "directory_at segs (Suc k) \<in>
        {d. \<exists>e \<in> set (games_of system_id json e s). dir_in (directory_at segs k) (ur_relative_path e) d}"
      by blast
    with shown have "directory_at segs (Suc k) \<in> set (dir_paths es)" by (simp add: shown_exactly_def)
    moreover have "parent_rom_directory (directory_at segs (Suc k)) = directory_at segs k"
      by (rule parent_on_the_way [OF game(3)]) (use True in simp)
    ultimately show ?thesis using shown True by (auto simp: es_def [symmetric] Let_def)
  next
    case False
    with way have "here (directory_at segs k) game = File_Here" by simp
    then have "file_in (directory_at segs k) (ur_relative_path game)" by (simp add: browse_here)
    then have "unflag game \<in> set (map unflag (filter (\<lambda>e. file_in (directory_at segs k) (ur_relative_path e)) (games_of system_id json e s)))"
      using game(1) by auto
    moreover have "set (map unflag (filter (\<lambda>e. \<not> ur_is_navigation_directory e) es)) =
        set (map unflag (filter (\<lambda>e. file_in (directory_at segs k) (ur_relative_path e)) (games_of system_id json e s)))"
      using shown unfolding shown_exactly_def by (blast dest: mset_eq_setD)
    ultimately have "unflag game \<in> set (map unflag (filter (\<lambda>e. \<not> ur_is_navigation_directory e) es))" by (simp only:)
    then have "\<exists>x \<in> set es. \<not> ur_is_navigation_directory x \<and> unflag x = unflag game" by auto
    with shown False show ?thesis by (simp add: es_def [symmetric] Let_def)
  qed
qed

definition demo_cache :: string where
  \<open>demo_cache = ''{"roms": [ {"title": "A", "relative_path": "gg/rpg/a.gg"} ]}''\<close>

definition browse_ui :: ui_state where
  "browse_ui = demo_ui\<lparr>ui_rom_entries := []\<rparr>"

theorem every_game_is_reachable_witness:
  "\<exists>x \<in> set (ui_rom_entries (snd (read_rom_cache (demo_file_os demo_cache) ''c'' ''gg'' browse_ui))).
     ur_is_navigation_directory x \<and> ur_relative_path x = ''gg/rpg''"
proof -
  have arr: "json_find_array demo_cache 0 (length demo_cache) ''roms'' = Some (10, 58)" by code_simp
  have game: "rom_at ''gg'' demo_cache 11 57 \<in> set (games_of ''gg'' demo_cache 58 10)" by code_simp
  have rel: "ur_relative_path (rom_at ''gg'' demo_cache 11 57) = slashed [''gg'', ''rpg'', ''a.gg'']" by code_simp
  have ok: "path_ok [''gg'', ''rpg'', ''a.gg'']" by (simp add: path_ok_def segment_ok_def UI_PATH_MAX_def)
  have dirs: "directory_at [''gg'', ''rpg'', ''a.gg''] (Suc 0) = ''gg/rpg''" by (simp add: directory_at_def)
  have ui: "ui_rom_entries browse_ui = []" "ui_rom_directory browse_ui = directory_at [''gg'', ''rpg'', ''a.gg''] 0"
    by (simp_all add: browse_ui_def demo_ui_def directory_at_def)
  have cache: "os_read (demo_file_os demo_cache) ''c'' = Some demo_cache" by (simp add: demo_file_os_def)
  from every_game_is_reachable [OF cache arr game rel ok ui] show ?thesis unfolding Let_def by (simp add: dirs)
qed

end
