(* ===== verification/UiBackProofs.thy ===== *)
theory UiBackProofs
  imports UiBrowseProofs
begin

text \<open>
  Into a directory and back: leaving a directory puts the cursor on the entry it was entered by, as long as the memory of cursors has
  room. When the memory is full, the oldest place is forgotten however recently it was used.
\<close>

section \<open>What a list depends on\<close>

definition place :: "ui_state \<Rightarrow> string \<times> string \<times> string \<times> ui_screen \<times> string \<times> string" where
  "place ui = (ui_plumos_root ui, ui_settings_path ui, ui_favorites_path ui, ui_screen_now ui, ui_current_system_id ui, ui_rom_directory ui)"

definition view :: "ui_state \<Rightarrow> (string \<times> string \<times> string \<times> ui_screen \<times> string \<times> string) \<times> frontend_settings \<times> ui_rom list" where
  "view ui = (place ui, ui_frontend_settings ui, ui_rom_entries ui)"

definition keeps_place :: "ui_state \<Rightarrow> ui_state \<Rightarrow> bool" where
  "keeps_place u v \<longleftrightarrow> place v = place u \<and> ui_rom_cursor_memory v = ui_rom_cursor_memory u \<and>
     ui_rom_scan_refresh_suppressed v = ui_rom_scan_refresh_suppressed u"

lemma keeps_place_trans: "keeps_place a b \<Longrightarrow> keeps_place b c \<Longrightarrow> keeps_place a c"
  by (simp add: keeps_place_def)

lemma browse_rom_kept: "keeps_place ui (browse_rom e ui)"
  by (simp add: keeps_place_def place_def browse_rom_def add_navigation_directory_entry_def ui_append_rom_entry_def split: browse.split)

lemma browse_rom_view: "view u = view v \<Longrightarrow> view (browse_rom e u) = view (browse_rom e v)"
  by (auto simp: view_def place_def browse_rom_def add_navigation_directory_entry_def rom_navigation_directory_exists_def
      ui_append_rom_entry_def split: browse.split)

lemma browse_all_kept: "keeps_place ui (browse_all games ui)"
proof (induction games rule: rev_induct)
  case Nil
  show ?case by (simp add: browse_all_def keeps_place_def)
next
  case (snoc e games)
  show ?case unfolding browse_all_snoc by (rule keeps_place_trans [OF snoc browse_rom_kept])
qed

lemma browse_all_view: "view u = view v \<Longrightarrow> view (browse_all games u) = view (browse_all games v)"
proof (induction games rule: rev_induct)
  case (snoc e games)
  then show ?case unfolding browse_all_snoc by (intro browse_rom_view)
qed (simp add: browse_all_def)

lemma browse_all_cursor: "ui_rom_cursor (browse_all games ui) = ui_rom_cursor ui"
proof (induction games rule: rev_induct)
  case (snoc e games)
  then show ?case
    by (simp add: browse_all_snoc browse_rom_def add_navigation_directory_entry_def ui_append_rom_entry_def split: browse.split)
qed (simp add: browse_all_def)

lemma finish_cursor: "ui_rom_cursor (mark_favorite_flags w (sort_rom_entries ui)) = ui_rom_cursor ui"
  by (simp add: mark_favorite_flags_def sort_rom_entries_def split: prod.split)

lemma finish_kept: "keeps_place ui (mark_favorite_flags w (sort_rom_entries ui))"
  by (simp add: keeps_place_def place_def mark_favorite_flags_def sort_rom_entries_def split: prod.split)

lemma flag_favorite_view: "view u = view v \<Longrightarrow> flag_favorite u = flag_favorite v"
  by (intro ext) (simp add: flag_favorite_def view_def place_def entry_system_def)

lemma finish_view: "view u = view v \<Longrightarrow> ui_rom_entries (mark_favorite_flags w (sort_rom_entries u)) = ui_rom_entries (mark_favorite_flags w (sort_rom_entries v))"
proof -
  assume v: "view u = view v"
  then have "view (sort_rom_entries u) = view (sort_rom_entries v)" by (simp add: view_def place_def sort_rom_entries_def)
  from this flag_favorite_view [OF this] show ?thesis
    by (simp add: mark_favorite_flags_def view_def place_def split: prod.split)
qed

definition cache_ready :: "os \<Rightarrow> ui_state \<Rightarrow> bool" where
  "cache_ready w ui \<longleftrightarrow> ui_current_system_id ui \<noteq> [] \<and> ui_current_system_id ui \<noteq> ''favorites'' \<and>
     (case ui_system_cache_path (ui_plumos_root ui) (ui_current_system_id ui) of
        (ok, p) \<Rightarrow> ok \<and> file_exists w p \<and>
          (case os_read w p of None \<Rightarrow> False | Some json \<Rightarrow> json_find_array json 0 (length json) ''roms'' \<noteq> None))"

lemma load_suppressed:
  assumes "cache_ready w ui" and "ui_rom_scan_refresh_suppressed ui"
  shows "\<exists>p json s e ui0 u. load_rom_entries ev w ui (ui_current_system_id ui) = (True, u, w) \<and>
    ui0 = (ui_clear_rom_entries ui)\<lparr>ui_frontend_settings := snd (load_settings w (ui_settings_path ui))\<rparr> \<and>
    ui_system_cache_path (ui_plumos_root ui) (ui_current_system_id ui) = (True, p) \<and> os_read w p = Some json \<and>
    json_find_array json 0 (length json) ''roms'' = Some (s, e) \<and>
    ui_rom_entries u = ui_rom_entries (mark_favorite_flags w (sort_rom_entries (browse_all (games_of (ui_current_system_id ui) json e s) ui0))) \<and>
    keeps_place ui u \<and> ui_rom_cursor u = 0"
proof -
  obtain p json s e where c: "ui_system_cache_path (ui_plumos_root ui) (ui_current_system_id ui) = (True, p)" "file_exists w p"
    "os_read w p = Some json" "json_find_array json 0 (length json) ''roms'' = Some (s, e)"
    using assms(1) by (auto simp: cache_ready_def split: option.splits prod.splits)
  obtain ok settings where st: "load_settings w (ui_settings_path ui) = (ok, settings)" by (cases "load_settings w (ui_settings_path ui)")
  let ?uc = "(ui_clear_rom_entries ui)\<lparr>ui_rom_scan_background_started := False\<rparr>"
  let ?um = "if ok then ?uc else ?uc\<lparr>ui_status := stored 256 ''settings read failed; using scan defaults''\<rparr>"
  let ?u1 = "?um\<lparr>ui_frontend_settings := settings\<rparr>"
  let ?ui0 = "(ui_clear_rom_entries ui)\<lparr>ui_frontend_settings := snd (load_settings w (ui_settings_path ui))\<rparr>"
  let ?g = "games_of (ui_current_system_id ui) json e s"
  let ?u = "mark_favorite_flags w (sort_rom_entries (browse_all ?g ?u1))"
  have "load_rom_entries ev w ui (ui_current_system_id ui) = (True, ?u, w)"
    using assms c st by (simp add: load_rom_entries_def cache_ready_def read_rom_cache_def each_object_browse ui_clear_rom_entries_def Let_def)
  moreover have "view ?u1 = view ?ui0" using st by (simp add: view_def place_def ui_clear_rom_entries_def)
  then have "ui_rom_entries ?u = ui_rom_entries (mark_favorite_flags w (sort_rom_entries (browse_all ?g ?ui0)))"
    by (intro finish_view browse_all_view)
  moreover have "keeps_place ui ?u"
  proof -
    have "keeps_place ui ?u1" by (simp add: keeps_place_def place_def ui_clear_rom_entries_def)
    with browse_all_kept [of ?u1 ?g] finish_kept [of "browse_all ?g ?u1" w] show ?thesis by (blast intro: keeps_place_trans)
  qed
  moreover have "ui_rom_cursor ?u = 0"
    by (simp add: finish_cursor browse_all_cursor ui_clear_rom_entries_def)
  ultimately show ?thesis using c by blast
qed

text \<open>The list of a place, read without a scan.\<close>

lemma load_same_place:
  assumes "cache_ready w u" and "ui_rom_scan_refresh_suppressed u" "ui_rom_scan_refresh_suppressed v" and "place u = place v"
  shows "\<exists>u' v'. load_rom_entries ev w u (ui_current_system_id u) = (True, u', w) \<and>
    load_rom_entries ev w v (ui_current_system_id v) = (True, v', w) \<and> ui_rom_entries u' = ui_rom_entries v' \<and> keeps_place u u' \<and> keeps_place v v'"
proof -
  have v: "cache_ready w v" using assms(1,4) by (simp add: cache_ready_def place_def)
  have "view ((ui_clear_rom_entries u)\<lparr>ui_frontend_settings := snd (load_settings w (ui_settings_path u))\<rparr>) =
      view ((ui_clear_rom_entries v)\<lparr>ui_frontend_settings := snd (load_settings w (ui_settings_path v))\<rparr>)"
    using assms(4) by (simp add: view_def place_def ui_clear_rom_entries_def)
  note same = finish_view [OF browse_all_view [OF this]]
  from load_suppressed [OF assms(1,2), of ev] load_suppressed [OF v assms(3), of ev] show ?thesis
    using assms(4) same by (auto simp: place_def)
qed

section \<open>The memory of cursors\<close>

abbreviation mem_key :: "rom_cursor_memory \<Rightarrow> string \<times> string" where
  "mem_key m \<equiv> (cm_system_id m, cm_directory m)"

definition remember_in :: "rom_cursor_memory list \<Rightarrow> rom_cursor_memory \<Rightarrow> rom_cursor_memory list" where
  "remember_in mem m =
     (case find_first (\<lambda>x. mem_key x = mem_key m) mem of
        Some i \<Rightarrow> mem[i := m]
      | None \<Rightarrow> if UI_ROM_CURSOR_MEMORY_MAX \<le> length mem then tl mem @ [m] else mem @ [m])"

definition cursor_slot :: "ui_state \<Rightarrow> rom_cursor_memory" where
  "cursor_slot ui = \<lparr>cm_system_id = ui_current_system_id ui, cm_directory = ui_rom_directory ui,
     cm_relative_path = ur_relative_path (ui_rom_entries ui ! ui_rom_cursor ui)\<rparr>"

definition names_fit :: "ui_state \<Rightarrow> bool" where
  "names_fit ui \<longleftrightarrow> ui_current_system_id ui \<noteq> [] \<and> length (ui_current_system_id ui) < 64 \<and> length (ui_rom_directory ui) < UI_PATH_MAX \<and>
     (\<forall>e \<in> set (ui_rom_entries ui). length (ur_relative_path e) < UI_PATH_MAX)"

lemma remember_mem:
  assumes "names_fit ui"
  shows "ui_rom_cursor_memory (remember_current_rom_cursor ui) = ui_rom_cursor_memory ui \<or>
      ui_rom_cursor_memory (remember_current_rom_cursor ui) = remember_in (ui_rom_cursor_memory ui) (cursor_slot ui)"
    and "ui_rom_cursor ui < length (ui_rom_entries ui) \<Longrightarrow> ur_relative_path (ui_rom_entries ui ! ui_rom_cursor ui) \<noteq> [] \<Longrightarrow>
      ui_rom_cursor_memory (remember_current_rom_cursor ui) = remember_in (ui_rom_cursor_memory ui) (cursor_slot ui)"
proof -
  show two: "ui_rom_cursor_memory (remember_current_rom_cursor ui) = remember_in (ui_rom_cursor_memory ui) (cursor_slot ui)"
    if "ui_rom_cursor ui < length (ui_rom_entries ui)" "ur_relative_path (ui_rom_entries ui ! ui_rom_cursor ui) \<noteq> []"
  proof -
    have fit: "length (ur_relative_path (ui_rom_entries ui ! ui_rom_cursor ui)) < UI_PATH_MAX"
      using assms that(1) by (simp add: names_fit_def)
    then have slot: "\<lparr>cm_system_id = stored 64 (ui_current_system_id ui), cm_directory = stored UI_PATH_MAX (ui_rom_directory ui),
        cm_relative_path = stored UI_PATH_MAX (ur_relative_path (ui_rom_entries ui ! ui_rom_cursor ui))\<rparr> = cursor_slot ui"
      using assms by (simp add: cursor_slot_def names_fit_def stored_eq)
    have found: "ui_find_rom_cursor_memory ui (ui_current_system_id ui) (ui_rom_directory ui) =
        find_first (\<lambda>x. mem_key x = mem_key (cursor_slot ui)) (ui_rom_cursor_memory ui)"
      using assms by (simp add: ui_find_rom_cursor_memory_def names_fit_def cursor_slot_def)
    show ?thesis
      using that assms unfolding remember_current_rom_cursor_def remember_in_def Let_def slot found
      by (cases "find_first (\<lambda>x. mem_key x = mem_key (cursor_slot ui)) (ui_rom_cursor_memory ui)")
        (simp_all add: ui_has_rom_cursor_context_def names_fit_def not_le del: find_first_None prod.inject)
  qed
  show "ui_rom_cursor_memory (remember_current_rom_cursor ui) = ui_rom_cursor_memory ui \<or>
      ui_rom_cursor_memory (remember_current_rom_cursor ui) = remember_in (ui_rom_cursor_memory ui) (cursor_slot ui)"
  proof (cases "ui_rom_cursor ui < length (ui_rom_entries ui) \<and> ur_relative_path (ui_rom_entries ui ! ui_rom_cursor ui) \<noteq> []")
    case False
    then have "remember_current_rom_cursor ui = ui" unfolding remember_current_rom_cursor_def Let_def by auto
    then show ?thesis by simp
  qed (use two in simp)
qed

lemma remember_frame [simp]:
  "place (remember_current_rom_cursor ui) = place ui" "ui_rom_entries (remember_current_rom_cursor ui) = ui_rom_entries ui"
  "ui_rom_scan_refresh_suppressed (remember_current_rom_cursor ui) = ui_rom_scan_refresh_suppressed ui"
  "ui_rom_directory (remember_current_rom_cursor ui) = ui_rom_directory ui"
  "ui_current_system_id (remember_current_rom_cursor ui) = ui_current_system_id ui"
  by (auto simp: remember_current_rom_cursor_def place_def Let_def split: option.split)

lemma find_first_append_new:
  "\<forall>x \<in> set xs. \<not> P x \<Longrightarrow> P y \<Longrightarrow> find_first P (xs @ [y]) = Some (length xs)"
  by (induction xs) auto

definition survives :: "string \<times> string \<Rightarrow> rom_cursor_memory list \<Rightarrow> bool" where
  "survives k mem \<longleftrightarrow> length mem < UI_ROM_CURSOR_MEMORY_MAX \<or> find_first (\<lambda>x. mem_key x = k) mem \<noteq> Some 0"

lemma remember_in_same:
  assumes "survives (mem_key m) mem" and "length mem \<le> UI_ROM_CURSOR_MEMORY_MAX"
  shows "lookup mem_key (remember_in mem m) (mem_key m) = Some m" and "survives (mem_key m) (remember_in mem m)"
    and "length (remember_in mem m) \<le> UI_ROM_CURSOR_MEMORY_MAX"
proof -
  consider (old) i where "find_first (\<lambda>x. mem_key x = mem_key m) mem = Some i"
    | (new) "\<forall>x \<in> set mem. mem_key x \<noteq> mem_key m"
    by (cases "find_first (\<lambda>x. mem_key x = mem_key m) mem") auto
  note cases = this
  have len: "0 < length (tl mem)" if "UI_ROM_CURSOR_MEMORY_MAX \<le> length mem"
    using that by (simp add: UI_ROM_CURSOR_MEMORY_MAX_def)
  have tl: "\<forall>x \<in> set (tl mem). mem_key x \<noteq> mem_key m" if "\<forall>x \<in> set mem. mem_key x \<noteq> mem_key m"
    using that by (cases mem) auto
  show "length (remember_in mem m) \<le> UI_ROM_CURSOR_MEMORY_MAX"
    using assms(2) by (auto simp: remember_in_def UI_ROM_CURSOR_MEMORY_MAX_def split: option.split)
  show "lookup mem_key (remember_in mem m) (mem_key m) = Some m"
    using cases
  proof cases
    case (old i)
    then show ?thesis using lookup_update_same [OF old refl] by (simp add: remember_in_def)
  next
    case new
    then have n: "find_first (\<lambda>x. mem_key x = mem_key m) mem = None" by simp
    show ?thesis
      using lookup_notin [OF new] lookup_notin [OF tl [OF new]] unfolding remember_in_def n by (simp add: lookup_append)
  qed
  show "survives (mem_key m) (remember_in mem m)"
    using cases
  proof cases
    case (old i)
    have "find_first (\<lambda>x. mem_key x = mem_key m) (mem[i := m]) = Some i"
      using old by (induction mem arbitrary: i) (auto split: if_splits nat.splits)
    with old assms(1) show ?thesis by (auto simp: survives_def remember_in_def)
  next
    case new
    then have n: "find_first (\<lambda>x. mem_key x = mem_key m) mem = None" by simp
    show ?thesis
    proof (cases "UI_ROM_CURSOR_MEMORY_MAX \<le> length mem")
      case True
      have "find_first (\<lambda>x. mem_key x = mem_key m) (tl mem @ [m]) = Some (length (tl mem))"
        by (rule find_first_append_new [OF tl [OF new]]) simp
      with True len show ?thesis unfolding survives_def remember_in_def n by simp
    next
      case False
      have "find_first (\<lambda>x. mem_key x = mem_key m) (mem @ [m]) = Some (length mem)"
        by (rule find_first_append_new [OF new]) simp
      with False show ?thesis unfolding survives_def remember_in_def n by (cases mem) (simp_all add: UI_ROM_CURSOR_MEMORY_MAX_def)
    qed
  qed
qed

lemma remember_in_other:
  assumes "survives k mem" and "lookup mem_key mem k = Some x" and "k \<noteq> mem_key m"
  shows "lookup mem_key (remember_in mem m) k = Some x"
proof (cases "find_first (\<lambda>x. mem_key x = mem_key m) mem")
  case (Some i)
  then show ?thesis using lookup_update_other [OF Some refl assms(3)] assms(2) by (simp add: remember_in_def)
next
  case None
  obtain y ys where m: "mem = y # ys" using assms(2) by (cases mem) auto
  show ?thesis
  proof (cases "UI_ROM_CURSOR_MEMORY_MAX \<le> length mem")
    case True
    with assms(1) m have "mem_key y \<noteq> k" by (auto simp: survives_def)
    with assms(2) m have "lookup mem_key ys k = Some x" by auto
    with True m show ?thesis unfolding remember_in_def None by (simp add: lookup_append)
  next
    case False
    with assms(2) show ?thesis unfolding remember_in_def None by (simp add: lookup_append)
  qed
qed

section \<open>Into a directory and back\<close>

lemma restore_found:
  assumes "ui_current_system_id ui \<noteq> []"
    and "lookup mem_key (ui_rom_cursor_memory ui) (ui_current_system_id ui, ui_rom_directory ui) = Some m"
    and "cm_relative_path m = r" "r \<noteq> []" "find_first (\<lambda>e. ur_relative_path e = r) (ui_rom_entries ui) = Some j"
  shows "snd (restore_current_rom_cursor ui) = ui\<lparr>ui_rom_cursor := j\<rparr>"
proof -
  obtain i where "find_first (\<lambda>x. mem_key x = (ui_current_system_id ui, ui_rom_directory ui)) (ui_rom_cursor_memory ui) = Some i"
    "ui_rom_cursor_memory ui ! i = m"
    using assms(2) by (auto simp: lookup_def)
  moreover have "ui_rom_entries ui \<noteq> []" using assms(5) by auto
  ultimately show ?thesis
    using assms by (simp add: restore_current_rom_cursor_def ui_has_rom_cursor_context_def ui_find_rom_cursor_memory_def Let_def)
qed

lemma restore_frame:
  "place (snd (restore_current_rom_cursor ui)) = place ui" "ui_rom_entries (snd (restore_current_rom_cursor ui)) = ui_rom_entries ui"
  "ui_rom_cursor_memory (snd (restore_current_rom_cursor ui)) = ui_rom_cursor_memory ui"
  "ui_rom_scan_refresh_suppressed (snd (restore_current_rom_cursor ui)) = ui_rom_scan_refresh_suppressed ui"
  by (auto simp: restore_current_rom_cursor_def place_def Let_def split: option.split)

lemma restore_cursor:
  assumes "ui_rom_cursor ui = 0"
  shows "ui_rom_entries ui \<noteq> [] \<longrightarrow> ui_rom_cursor (snd (restore_current_rom_cursor ui)) < length (ui_rom_entries ui)"
  using assms by (auto simp: restore_current_rom_cursor_def Let_def split: option.split dest: find_first_SomeD)

lemma place_suppressed [simp]: "place (ui\<lparr>ui_rom_scan_refresh_suppressed := b\<rparr>) = place ui"
  by (simp add: place_def)

lemma place_dir: "place u = place v \<Longrightarrow> place (u\<lparr>ui_rom_directory := d\<rparr>) = place (v\<lparr>ui_rom_directory := d\<rparr>)"
  by (simp add: place_def)

lemma place_parts:
  assumes "place u = place v"
  shows "ui_current_system_id u = ui_current_system_id v" "ui_rom_directory u = ui_rom_directory v"
  using assms by (simp_all add: place_def)

text \<open>Loading a directory again, as the two handlers do it.\<close>

lemma reload_place:
  assumes "cache_ready w u"
  shows "\<exists>u1 u2. load_rom_entries ev w (u\<lparr>ui_rom_scan_refresh_suppressed := True\<rparr>) (ui_current_system_id u) = (True, u1, w) \<and>
    keeps_place u u2 \<and> ui_rom_entries u2 = ui_rom_entries u1 \<and> ui_rom_cursor u2 = 0 \<and>
    reload_rom_directory_no_scan ev w u status = (True, set_status (snd (restore_current_rom_cursor u2)) status, w)"
proof -
  have ready: "cache_ready w (u\<lparr>ui_rom_scan_refresh_suppressed := True\<rparr>)" using assms by (simp add: cache_ready_def)
  obtain u1 where u1: "load_rom_entries ev w (u\<lparr>ui_rom_scan_refresh_suppressed := True\<rparr>) (ui_current_system_id u) = (True, u1, w)"
    "keeps_place (u\<lparr>ui_rom_scan_refresh_suppressed := True\<rparr>) u1" "ui_rom_cursor u1 = 0"
    using load_suppressed [OF ready, of ev] by auto
  let ?u2 = "u1\<lparr>ui_rom_scan_refresh_suppressed := ui_rom_scan_refresh_suppressed u\<rparr>"
  have "keeps_place u ?u2" using u1(2) by (simp add: keeps_place_def)
  moreover have "reload_rom_directory_no_scan ev w u status = (True, set_status (snd (restore_current_rom_cursor ?u2)) status, w)"
    using u1(1) assms by (simp add: reload_rom_directory_no_scan_def cache_ready_def Let_def)
  ultimately show ?thesis using u1(1) u1(3) by (intro exI [of _ u1] exI [of _ "?u2"]) simp
qed

lemma remember_any:
  assumes "length (ui_current_system_id ui) < 64" and "length (ui_rom_directory ui) < UI_PATH_MAX"
  shows "ui_rom_cursor_memory (remember_current_rom_cursor ui) = ui_rom_cursor_memory ui \<or>
    (\<exists>m. mem_key m = (ui_current_system_id ui, ui_rom_directory ui) \<and>
      ui_rom_cursor_memory (remember_current_rom_cursor ui) = remember_in (ui_rom_cursor_memory ui) m)"
proof (cases "ui_has_rom_cursor_context ui \<and> ui_rom_cursor ui < length (ui_rom_entries ui) \<and>
    ur_relative_path (ui_rom_entries ui ! ui_rom_cursor ui) \<noteq> []")
  case False
  then have "remember_current_rom_cursor ui = ui" unfolding remember_current_rom_cursor_def Let_def by auto
  then show ?thesis by simp
next
  case True
  let ?m = "\<lparr>cm_system_id = stored 64 (ui_current_system_id ui), cm_directory = stored UI_PATH_MAX (ui_rom_directory ui),
    cm_relative_path = stored UI_PATH_MAX (ur_relative_path (ui_rom_entries ui ! ui_rom_cursor ui))\<rparr>"
  have key: "mem_key ?m = (ui_current_system_id ui, ui_rom_directory ui)" using assms by (simp add: stored_eq)
  have found: "ui_find_rom_cursor_memory ui (ui_current_system_id ui) (ui_rom_directory ui) =
      find_first (\<lambda>x. mem_key x = mem_key ?m) (ui_rom_cursor_memory ui)"
    using True unfolding key by (simp add: ui_find_rom_cursor_memory_def ui_has_rom_cursor_context_def)
  have "ui_rom_cursor_memory (remember_current_rom_cursor ui) = remember_in (ui_rom_cursor_memory ui) ?m"
    using True unfolding remember_current_rom_cursor_def remember_in_def Let_def found
    by (cases "find_first (\<lambda>x. mem_key x = mem_key ?m) (ui_rom_cursor_memory ui)")
      (simp_all add: not_le del: find_first_None prod.inject)
  with key show ?thesis by blast
qed

lemma parent_shorter: "d \<noteq> [] \<Longrightarrow> parent_rom_directory d \<noteq> d"
  by (auto simp: parent_rom_directory_def split: option.split dest!: strrchr_SomeD)

lemma set_status_frame [simp]:
  "place (set_status ui t) = place ui" "ui_rom_entries (set_status ui t) = ui_rom_entries ui" "ui_rom_cursor (set_status ui t) = ui_rom_cursor ui"
  "ui_rom_cursor_memory (set_status ui t) = ui_rom_cursor_memory ui" "ui_rom_directory (set_status ui t) = ui_rom_directory ui"
  by (simp_all add: set_status_def place_def)

text \<open>Both handlers in a row: the list of the first directory again, and the cursor where the memory has it.\<close>

lemma in_and_out:
  assumes ready: "cache_ready w ui" and fits: "names_fit ui"
    and listed: "load_rom_entries ev w (ui\<lparr>ui_rom_scan_refresh_suppressed := True\<rparr>) (ui_current_system_id ui) = (True, ui0, w)"
      "ui_rom_entries ui0 = ui_rom_entries ui"
    and entry: "ui_rom_cursor ui < length (ui_rom_entries ui)" "entry = ui_rom_entries ui ! ui_rom_cursor ui"
      "ur_is_navigation_directory entry" "ur_relative_path entry \<noteq> []" "parent_rom_directory (ur_relative_path entry) = ui_rom_directory ui"
  shows "\<exists>ui1 v t below. open_rom_directory_entry ev w ui entry = (True, ui1, w) \<and>
    load_rom_entries ev w (ui\<lparr>ui_rom_directory := ur_relative_path entry, ui_rom_scan_refresh_suppressed := True\<rparr>) (ui_current_system_id ui) =
      (True, below, w) \<and> ui_rom_entries ui1 = ui_rom_entries below \<and> (ui_rom_entries ui1 \<noteq> [] \<longrightarrow> ui_rom_cursor ui1 < length (ui_rom_entries ui1)) \<and>
    ui_rom_directory ui1 = ur_relative_path entry \<and> ui_current_system_id ui1 = ui_current_system_id ui \<and>
    ui_rom_cursor_memory ui1 = remember_in (ui_rom_cursor_memory ui) (cursor_slot ui) \<and>
    open_parent_rom_directory ev w ui1 = (True, set_status (snd (restore_current_rom_cursor v)) t, w) \<and>
    place v = place ui \<and> ui_rom_entries v = ui_rom_entries ui \<and>
    ui_rom_cursor_memory v = ui_rom_cursor_memory (remember_current_rom_cursor ui1)"
proof -
  let ?dir = "ui_rom_directory ui" and ?rel = "ur_relative_path entry"
  have rel_fits: "length ?rel < UI_PATH_MAX" using fits entry(1,2) by (simp add: names_fit_def)
  define r1 where "r1 = remember_current_rom_cursor ui"
  let ?u = "r1\<lparr>ui_rom_directory := ?rel\<rparr>"
  have m1: "ui_rom_cursor_memory r1 = remember_in (ui_rom_cursor_memory ui) (cursor_slot ui)"
    using remember_mem(2) [OF fits entry(1)] entry(2,4) by (simp add: r1_def)
  have r1: "place r1 = place ui" by (simp add: r1_def)
  then have "cache_ready w ?u" using ready by (simp add: cache_ready_def place_def)
  from reload_place [OF this] obtain u1 u2 where
    u1: "load_rom_entries ev w (?u\<lparr>ui_rom_scan_refresh_suppressed := True\<rparr>) (ui_current_system_id ?u) = (True, u1, w)" "ui_rom_entries u2 = ui_rom_entries u1"
    and u2: "keeps_place ?u u2" "ui_rom_cursor u2 = 0"
    "reload_rom_directory_no_scan ev w ?u ''ROM directory ready'' = (True, set_status (snd (restore_current_rom_cursor u2)) ''ROM directory ready'', w)"
    by blast
  let ?ui1 = "set_status (snd (restore_current_rom_cursor u2)) ''ROM directory ready''"
  have open1: "open_rom_directory_entry ev w ui entry = (True, ?ui1, w)"
    using entry(3,4) u2(3) rel_fits by (simp add: open_rom_directory_entry_def r1_def [symmetric] Let_def stored_eq)
  have place1: "place ?ui1 = place ?u" using u2(1) by (simp add: restore_frame keeps_place_def)
  then have dir1: "ui_rom_directory ?ui1 = ?rel" "ui_current_system_id ?ui1 = ui_current_system_id ui" using r1 by (simp_all add: place_def)
  have mem1: "ui_rom_cursor_memory ?ui1 = ui_rom_cursor_memory r1" using u2(1) by (simp add: restore_frame keeps_place_def)
  have "place (?u\<lparr>ui_rom_scan_refresh_suppressed := True\<rparr>) = place (ui\<lparr>ui_rom_directory := ?rel, ui_rom_scan_refresh_suppressed := True\<rparr>)"
    using r1 by (simp add: place_def)
  from load_same_place [OF _ _ _ this, of w ev] ready r1 u1 obtain below where
    below: "load_rom_entries ev w (ui\<lparr>ui_rom_directory := ?rel, ui_rom_scan_refresh_suppressed := True\<rparr>) (ui_current_system_id ui) = (True, below, w)"
      "ui_rom_entries ?ui1 = ui_rom_entries below"
    by (auto simp: cache_ready_def place_def restore_frame)
  have cur: "ui_rom_entries ?ui1 \<noteq> [] \<longrightarrow> ui_rom_cursor ?ui1 < length (ui_rom_entries ?ui1)"
    using restore_cursor [OF u2(2)] by (simp add: restore_frame)
  define r2 where "r2 = remember_current_rom_cursor ?ui1"
  let ?v = "r2\<lparr>ui_rom_directory := ?dir\<rparr>" and ?t = "if ?dir \<noteq> [] then ''parent directory ready'' else ''ROM list ready''"
  have "place r2 = place ?u" using place1 by (simp add: r2_def)
  from place_dir [OF this, of "?dir"] place_dir [OF r1, of "?dir"] have pv: "place ?v = place ui" by simp
  then have ready_v: "cache_ready w ?v" using ready by (simp add: cache_ready_def place_def)
  obtain v1 v2 where v: "load_rom_entries ev w (?v\<lparr>ui_rom_scan_refresh_suppressed := True\<rparr>) (ui_current_system_id ?v) = (True, v1, w)"
    "keeps_place ?v v2" "ui_rom_entries v2 = ui_rom_entries v1"
    "reload_rom_directory_no_scan ev w ?v ?t = (True, set_status (snd (restore_current_rom_cursor v2)) ?t, w)"
    using reload_place [OF ready_v] by blast
  have "ui_rom_entries v1 = ui_rom_entries ui"
    using load_same_place [of w "ui\<lparr>ui_rom_scan_refresh_suppressed := True\<rparr>" "?v\<lparr>ui_rom_scan_refresh_suppressed := True\<rparr>" ev]
      ready pv listed v(1) by (auto simp: cache_ready_def)
  with v(3) have es: "ui_rom_entries v2 = ui_rom_entries ui" by simp
  have p2: "place v2 = place ui" "ui_rom_cursor_memory v2 = ui_rom_cursor_memory r2" using v(2) pv by (simp_all add: keeps_place_def)
  have r2d: "ui_rom_directory r2 = ?rel" using dir1 by (simp add: r2_def)
  have "open_parent_rom_directory ev w ?ui1 = (True, set_status (snd (restore_current_rom_cursor v2)) ?t, w)"
    using dir1 entry(4) unfolding open_parent_rom_directory_def Let_def r2_def [symmetric] r2d entry(5) v(4) by simp
  then show ?thesis
    using open1 dir1 mem1 [unfolded m1] p2 es below cur unfolding r2_def by (intro exI conjI)
qed

text \<open>
  C18: Leaving a directory undoes entering it. From a list with the cursor on a directory, opening the directory and then going back
  gives the same directory with the same list and the cursor on the directory that was left, whatever was read in between, as long as
  the memory of cursors has room or remembers another place longest; nothing is scanned on the way.
\<close>

theorem back_returns:
  assumes ready: "cache_ready w ui" and fits: "names_fit ui"
    and listed: "load_rom_entries ev w (ui\<lparr>ui_rom_scan_refresh_suppressed := True\<rparr>) (ui_current_system_id ui) = (True, ui0, w)"
      "ui_rom_entries ui0 = ui_rom_entries ui"
    and entry: "ui_rom_cursor ui < length (ui_rom_entries ui)" "entry = ui_rom_entries ui ! ui_rom_cursor ui"
      "ur_is_navigation_directory entry" "ur_relative_path entry \<noteq> []" "parent_rom_directory (ur_relative_path entry) = ui_rom_directory ui"
    and memory: "length (ui_rom_cursor_memory ui) \<le> UI_ROM_CURSOR_MEMORY_MAX"
      "survives (ui_current_system_id ui, ui_rom_directory ui) (ui_rom_cursor_memory ui)"
  shows "\<exists>ui1 ui2. open_rom_directory_entry ev w ui entry = (True, ui1, w) \<and> ui_rom_directory ui1 = ur_relative_path entry \<and>
    open_parent_rom_directory ev w ui1 = (True, ui2, w) \<and> ui_rom_directory ui2 = ui_rom_directory ui \<and>
    ui_rom_entries ui2 = ui_rom_entries ui \<and> ui_rom_cursor ui2 < length (ui_rom_entries ui2) \<and>
    ur_relative_path (ui_rom_entries ui2 ! ui_rom_cursor ui2) = ur_relative_path entry"
proof -
  let ?k = "(ui_current_system_id ui, ui_rom_directory ui)" and ?rel = "ur_relative_path entry"
  obtain ui1 v t where s: "open_rom_directory_entry ev w ui entry = (True, ui1, w)" "ui_rom_directory ui1 = ?rel"
    "ui_current_system_id ui1 = ui_current_system_id ui" "ui_rom_cursor_memory ui1 = remember_in (ui_rom_cursor_memory ui) (cursor_slot ui)"
    "open_parent_rom_directory ev w ui1 = (True, set_status (snd (restore_current_rom_cursor v)) t, w)"
    "place v = place ui" "ui_rom_entries v = ui_rom_entries ui"
    "ui_rom_cursor_memory v = ui_rom_cursor_memory (remember_current_rom_cursor ui1)"
    using in_and_out [OF ready fits listed entry] by auto
  have key: "mem_key (cursor_slot ui) = ?k" by (simp add: cursor_slot_def)
  have m1: "lookup mem_key (ui_rom_cursor_memory ui1) ?k = Some (cursor_slot ui)" "survives ?k (ui_rom_cursor_memory ui1)"
    using remember_in_same [of "cursor_slot ui" "ui_rom_cursor_memory ui"] memory s(4) key by simp_all
  have sys: "length (ui_current_system_id ui1) < 64" "length (ui_rom_directory ui1) < UI_PATH_MAX" "ui_current_system_id ui \<noteq> []"
    using fits s(2,3) entry(1,2) by (simp_all add: names_fit_def)
  have m2: "lookup mem_key (ui_rom_cursor_memory v) ?k = Some (cursor_slot ui)"
    using remember_any [OF sys(1,2)] remember_in_other [OF m1(2,1)] parent_shorter [OF entry(4)] entry(5) m1(1) s(2,3)
    unfolding s(8) by auto
  obtain j where j: "find_first (\<lambda>e. ur_relative_path e = ?rel) (ui_rom_entries ui) = Some j"
    using entry(1,2) nth_mem [OF entry(1)] by (cases "find_first (\<lambda>e. ur_relative_path e = ?rel) (ui_rom_entries ui)") auto
  have "snd (restore_current_rom_cursor v) = v\<lparr>ui_rom_cursor := j\<rparr>"
    by (rule restore_found [of _ "cursor_slot ui" "?rel"]) (use m2 sys entry(2,4) j s(6,7) in \<open>simp_all add: place_def cursor_slot_def\<close>)
  with s find_first_SomeD [OF j] show ?thesis by (auto simp: place_def)
qed

text \<open>
  The memory of cursors forgets the place it learned first, not the place that was used longest ago. With all of its 64 places taken
  and the current list the first of them, entering a directory it has not seen and going straight back puts the cursor on the first
  entry of the list, not on the directory that was left.
\<close>

theorem first_place_is_forgotten:
  assumes ready: "cache_ready w ui" and fits: "names_fit ui"
    and listed: "load_rom_entries ev w (ui\<lparr>ui_rom_scan_refresh_suppressed := True\<rparr>) (ui_current_system_id ui) = (True, ui0, w)"
      "ui_rom_entries ui0 = ui_rom_entries ui"
    and entry: "ui_rom_cursor ui < length (ui_rom_entries ui)" "entry = ui_rom_entries ui ! ui_rom_cursor ui"
      "ur_is_navigation_directory entry" "ur_relative_path entry \<noteq> []" "parent_rom_directory (ur_relative_path entry) = ui_rom_directory ui"
    and full: "length (ui_rom_cursor_memory ui) = UI_ROM_CURSOR_MEMORY_MAX" "distinct_keys mem_key (ui_rom_cursor_memory ui)"
      "mem_key (hd (ui_rom_cursor_memory ui)) = (ui_current_system_id ui, ui_rom_directory ui)"
      "(ui_current_system_id ui, ur_relative_path entry) \<notin> mem_key ` set (ui_rom_cursor_memory ui)"
    and below: "load_rom_entries ev w (ui\<lparr>ui_rom_directory := ur_relative_path entry, ui_rom_scan_refresh_suppressed := True\<rparr>) (ui_current_system_id ui) =
        (True, uc, w)" "ui_rom_entries uc \<noteq> []" "\<forall>e \<in> set (ui_rom_entries uc). ur_relative_path e \<noteq> [] \<and> length (ur_relative_path e) < UI_PATH_MAX"
  shows "\<exists>ui1 ui2. open_rom_directory_entry ev w ui entry = (True, ui1, w) \<and> ui_rom_entries ui1 = ui_rom_entries uc \<and>
    open_parent_rom_directory ev w ui1 = (True, ui2, w) \<and> ui_rom_entries ui2 = ui_rom_entries ui \<and> ui_rom_cursor ui2 = 0"
proof -
  let ?k = "(ui_current_system_id ui, ui_rom_directory ui)"
  obtain ui1 v t where s: "ui_rom_directory ui1 = ur_relative_path entry" "ui_current_system_id ui1 = ui_current_system_id ui"
    "ui_rom_cursor_memory ui1 = remember_in (ui_rom_cursor_memory ui) (cursor_slot ui)"
    "open_parent_rom_directory ev w ui1 = (True, set_status (snd (restore_current_rom_cursor v)) t, w)"
    "place v = place ui" "ui_rom_entries v = ui_rom_entries ui"
    "ui_rom_cursor_memory v = ui_rom_cursor_memory (remember_current_rom_cursor ui1)"
    "open_rom_directory_entry ev w ui entry = (True, ui1, w)" "ui_rom_entries ui1 = ui_rom_entries uc"
    and cur: "ui_rom_cursor ui1 < length (ui_rom_entries ui1)"
    using in_and_out [OF ready fits listed entry] below(1,2) by auto
  have "length (ur_relative_path entry) < UI_PATH_MAX" using fits entry(1,2) by (simp add: names_fit_def)
  then have fits1: "names_fit ui1" using fits s(1,2,9) below(3) by (simp add: names_fit_def)
  have rel1: "ur_relative_path (ui_rom_entries ui1 ! ui_rom_cursor ui1) \<noteq> []" using below(3) s(9) nth_mem [OF cur] by simp
  obtain m ms where m: "ui_rom_cursor_memory ui = m # ms" using full(1) by (cases "ui_rom_cursor_memory ui") (auto simp: UI_ROM_CURSOR_MEMORY_MAX_def)
  have key: "mem_key (cursor_slot ui) = ?k" "mem_key m = ?k" using full(3) m by (simp_all add: cursor_slot_def)
  then have mem1: "ui_rom_cursor_memory ui1 = cursor_slot ui # ms" using s(3) m by (simp add: remember_in_def)
  have key1: "mem_key (cursor_slot ui1) = (ui_current_system_id ui, ur_relative_path entry)" using s(1,2) by (simp add: cursor_slot_def)
  have "\<forall>x \<in> set (cursor_slot ui # ms). mem_key x \<noteq> mem_key (cursor_slot ui1)"
  proof
    fix x assume "x \<in> set (cursor_slot ui # ms)"
    then have "mem_key x \<in> mem_key ` set (ui_rom_cursor_memory ui)" using key m by (auto simp: image_iff)
    with full(4) show "mem_key x \<noteq> mem_key (cursor_slot ui1)" unfolding key1 by metis
  qed
  then have none: "find_first (\<lambda>x. mem_key x = mem_key (cursor_slot ui1)) (cursor_slot ui # ms) = None" by simp
  have mem2: "ui_rom_cursor_memory v = ms @ [cursor_slot ui1]"
    using remember_mem(2) [OF fits1 cur rel1] full(1) m unfolding s(7) mem1 remember_in_def none by simp
  have gone: "\<forall>x \<in> set ms. mem_key x \<noteq> ?k"
  proof
    fix x assume "x \<in> set ms"
    then have "mem_key x \<in> set (map mem_key ms)" by simp
    moreover have "?k \<notin> set (map mem_key ms)" using full(2) m key(2) by (metis distinct.simps(2) list.simps(9))
    ultimately show "mem_key x \<noteq> ?k" by metis
  qed
  have "mem_key (cursor_slot ui1) \<noteq> ?k" using key1 parent_shorter [OF entry(4)] entry(5) by auto
  with gone have none2: "find_first (\<lambda>x. cm_system_id x = ui_current_system_id ui \<and> cm_directory x = ui_rom_directory ui)
      (ms @ [cursor_slot ui1]) = None" by auto
  have parts: "ui_current_system_id v = ui_current_system_id ui" "ui_rom_directory v = ui_rom_directory ui" using place_parts [OF s(5)] .
  have "ui_rom_entries ui \<noteq> []" "ui_current_system_id ui \<noteq> []" using entry(1) fits by (auto simp: names_fit_def)
  then have "snd (restore_current_rom_cursor v) = v\<lparr>ui_rom_cursor := 0\<rparr>"
    using none2 unfolding restore_current_rom_cursor_def ui_has_rom_cursor_context_def ui_find_rom_cursor_memory_def parts mem2 s(6)
    by (simp del: find_first_None)
  with s show ?thesis by auto
qed

section \<open>A card with one directory\<close>

definition demo_card :: os where
  "demo_card = demo_os\<lparr>os_stat := \<lambda>p. if p = ''/p/state/frontend/systems/gg.json'' then Some (Regular, 1, 1) else None,
     os_read := \<lambda>p. if p = ''/p/state/frontend/systems/gg.json'' then Some demo_cache else None\<rparr>"

definition demo_env :: ui_env where
  "demo_env = \<lparr>ev_exec = \<lambda>_ _ w. (None, w), ev_spawn = \<lambda>_ _ w. (-1, w), ev_now = 0\<rparr>"

definition demo_directory :: ui_rom where
  "demo_directory = zero_ui_rom\<lparr>ur_system_id := ''gg'', ur_title := ''[DIR] rpg'', ur_relative_path := ''gg/rpg'', ur_detail := ''Directory'',
     ur_extension := ''dir'', ur_is_navigation_directory := True\<rparr>"

definition demo_game :: ui_rom where
  "demo_game = zero_ui_rom\<lparr>ur_system_id := ''gg'', ur_title := ''A'', ur_relative_path := ''gg/rpg/a.gg''\<rparr>"

definition card_ui :: "rom_cursor_memory list \<Rightarrow> ui_state" where
  "card_ui mem = demo_ui\<lparr>ui_rom_entries := [demo_directory], ui_rom_cursor_memory := mem\<rparr>"

definition here_slot :: rom_cursor_memory where
  "here_slot = \<lparr>cm_system_id = ''gg'', cm_directory = [], cm_relative_path = ''gg/rpg''\<rparr>"

definition other_slots :: "rom_cursor_memory list" where
  "other_slots = map (\<lambda>n. \<lparr>cm_system_id = ''gb'', cm_directory = replicate n CHR ''x'', cm_relative_path = ''a''\<rparr>) [0..<63]"

lemma card_frame [simp]:
  "ui_current_system_id (card_ui mem) = ''gg''" "ui_rom_directory (card_ui mem) = []" "ui_rom_entries (card_ui mem) = [demo_directory]"
  "ui_rom_cursor (card_ui mem) = 0" "ui_rom_cursor_memory (card_ui mem) = mem"
  by (simp_all add: card_ui_def demo_ui_def)

lemma card_ready: "cache_ready demo_card (card_ui mem)"
proof -
  have "cache_ready demo_card (card_ui [])" by code_simp
  then show ?thesis by (simp add: cache_ready_def card_ui_def demo_ui_def)
qed

lemma card_fits: "names_fit (card_ui mem)"
  by (simp add: names_fit_def demo_directory_def zero_ui_rom_def UI_PATH_MAX_def)

lemma card_games: "games_of ''gg'' demo_cache 58 10 = [demo_game]"
  by code_simp

lemma card_loads:
  "\<exists>u'. load_rom_entries demo_env demo_card ((card_ui mem)\<lparr>ui_rom_directory := d, ui_rom_scan_refresh_suppressed := True\<rparr>) ''gg'' =
      (True, u', demo_card) \<and>
    ui_rom_entries u' = ui_rom_entries (mark_favorite_flags demo_card (sort_rom_entries (browse_all [demo_game]
      ((ui_clear_rom_entries ((card_ui mem)\<lparr>ui_rom_directory := d, ui_rom_scan_refresh_suppressed := True\<rparr>))
        \<lparr>ui_frontend_settings := snd (load_settings demo_card ''/p/s'')\<rparr>))))"
proof -
  let ?u = "(card_ui mem)\<lparr>ui_rom_directory := d, ui_rom_scan_refresh_suppressed := True\<rparr>"
  have ready: "cache_ready demo_card ?u" using card_ready [of mem] by (simp add: cache_ready_def)
  have path: "ui_system_cache_path ''/p'' ''gg'' = (True, ''/p/state/frontend/systems/gg.json'')" by code_simp
  have arr: "json_find_array demo_cache 0 (length demo_cache) ''roms'' = Some (10, 58)" by code_simp
  have u: "ui_current_system_id ?u = ''gg''" "ui_plumos_root ?u = ''/p''" "ui_settings_path ?u = ''/p/s''" "ui_rom_scan_refresh_suppressed ?u"
    by (simp_all add: card_ui_def demo_ui_def)
  show ?thesis
    using load_suppressed [OF ready u(4), of demo_env] unfolding u path by (auto simp: demo_card_def arr card_games)
qed

lemma card_favorites: "favorites_in demo_card ''/p/f'' = (True, [])"
  by (simp add: favorites_in_def load_entries_def demo_card_def file_exists_def)

lemma card_lists:
  "\<exists>u'. load_rom_entries demo_env demo_card ((card_ui mem)\<lparr>ui_rom_scan_refresh_suppressed := True\<rparr>) (ui_current_system_id (card_ui mem)) =
    (True, u', demo_card) \<and> ui_rom_entries u' = ui_rom_entries (card_ui mem)"
  "\<exists>u'. load_rom_entries demo_env demo_card ((card_ui mem)\<lparr>ui_rom_directory := ''gg/rpg'', ui_rom_scan_refresh_suppressed := True\<rparr>) ''gg'' =
    (True, u', demo_card) \<and> ui_rom_entries u' = [demo_game]"
proof -
  have "(card_ui mem)\<lparr>ui_rom_directory := [], ui_rom_scan_refresh_suppressed := True\<rparr> = (card_ui mem)\<lparr>ui_rom_scan_refresh_suppressed := True\<rparr>"
    by (simp add: card_ui_def demo_ui_def)
  note top = card_loads [where mem = mem and d = "[]", unfolded this]
  have way: "path_ok [''gg'', ''rpg'', ''a.gg'']" by (simp add: path_ok_def segment_ok_def UI_PATH_MAX_def)
  have here: "rom_browser_child_for_path ''gg/rpg/a.gg'' [] = Dir_Here ''gg/rpg'' ''rpg''"
    "rom_browser_child_for_path ''gg/rpg/a.gg'' ''gg/rpg'' = File_Here"
    using browse_on_the_way [OF way, of 0] browse_on_the_way [OF way, of 1] by (simp_all add: directory_at_def)
  show "\<exists>u'. load_rom_entries demo_env demo_card ((card_ui mem)\<lparr>ui_rom_scan_refresh_suppressed := True\<rparr>) (ui_current_system_id (card_ui mem)) =
    (True, u', demo_card) \<and> ui_rom_entries u' = ui_rom_entries (card_ui mem)"
    using top by (simp add: browse_all_def browse_rom_def demo_game_def demo_directory_def zero_ui_rom_def here
        ui_clear_rom_entries_def card_ui_def demo_ui_def add_navigation_directory_entry_def rom_navigation_directory_exists_def
        ui_append_rom_entry_def build_navigation_directory_path_def sort_rom_entries_def sort_by_def mark_favorite_flags_def
        card_favorites flag_favorite_def stored_eq UI_PATH_MAX_def Let_def)
  show "\<exists>u'. load_rom_entries demo_env demo_card ((card_ui mem)\<lparr>ui_rom_directory := ''gg/rpg'', ui_rom_scan_refresh_suppressed := True\<rparr>) ''gg'' =
    (True, u', demo_card) \<and> ui_rom_entries u' = [demo_game]"
    using card_loads [where mem = mem and d = "''gg/rpg''"] by (simp add: browse_all_def browse_rom_def demo_game_def zero_ui_rom_def here
        ui_clear_rom_entries_def card_ui_def demo_ui_def ui_append_rom_entry_def sort_rom_entries_def sort_by_def mark_favorite_flags_def
        card_favorites flag_favorite_def favorite_entry_index_def Let_def split: if_split_asm)
qed

lemma demo_directory_facts:
  "ur_is_navigation_directory demo_directory" "ur_relative_path demo_directory \<noteq> []" "ur_relative_path demo_directory = ''gg/rpg''"
  "parent_rom_directory (ur_relative_path demo_directory) = ui_rom_directory (card_ui mem)"
  by (simp_all add: demo_directory_def zero_ui_rom_def parent_rom_directory_def)

theorem back_returns_witness:
  "\<exists>ui1 ui2. open_rom_directory_entry demo_env demo_card (card_ui [here_slot]) demo_directory = (True, ui1, demo_card) \<and>
    open_parent_rom_directory demo_env demo_card ui1 = (True, ui2, demo_card) \<and>
    ur_relative_path (ui_rom_entries ui2 ! ui_rom_cursor ui2) = ''gg/rpg''"
proof -
  obtain ui0 where l: "load_rom_entries demo_env demo_card ((card_ui [here_slot])\<lparr>ui_rom_scan_refresh_suppressed := True\<rparr>)
      (ui_current_system_id (card_ui [here_slot])) = (True, ui0, demo_card)" "ui_rom_entries ui0 = ui_rom_entries (card_ui [here_slot])"
    using card_lists(1) by blast
  have m: "length (ui_rom_cursor_memory (card_ui [here_slot])) \<le> UI_ROM_CURSOR_MEMORY_MAX"
    "survives (ui_current_system_id (card_ui [here_slot]), ui_rom_directory (card_ui [here_slot])) (ui_rom_cursor_memory (card_ui [here_slot]))"
    "ui_rom_cursor (card_ui [here_slot]) < length (ui_rom_entries (card_ui [here_slot]))"
    "demo_directory = ui_rom_entries (card_ui [here_slot]) ! ui_rom_cursor (card_ui [here_slot])"
    by (simp_all add: UI_ROM_CURSOR_MEMORY_MAX_def survives_def)
  from back_returns [OF card_ready card_fits l m(3,4) demo_directory_facts(1,2,4) m(1,2)] show ?thesis
    using demo_directory_facts(3) by auto
qed

abbreviation full_ui :: ui_state where
  "full_ui \<equiv> card_ui (here_slot # other_slots)"

theorem first_place_is_forgotten_witness:
  "\<exists>ui1 ui2. open_rom_directory_entry demo_env demo_card full_ui demo_directory = (True, ui1, demo_card) \<and>
    open_parent_rom_directory demo_env demo_card ui1 = (True, ui2, demo_card) \<and> ui_rom_cursor ui2 = 0"
proof -
  obtain ui0 where l: "load_rom_entries demo_env demo_card (full_ui\<lparr>ui_rom_scan_refresh_suppressed := True\<rparr>)
      (ui_current_system_id full_ui) = (True, ui0, demo_card)" "ui_rom_entries ui0 = ui_rom_entries full_ui"
    using card_lists(1) by blast
  have m: "ui_rom_cursor full_ui < length (ui_rom_entries full_ui)" "demo_directory = ui_rom_entries full_ui ! ui_rom_cursor full_ui"
    by simp_all
  have full: "length (ui_rom_cursor_memory full_ui) = UI_ROM_CURSOR_MEMORY_MAX"
    "mem_key (hd (ui_rom_cursor_memory full_ui)) = (ui_current_system_id full_ui, ui_rom_directory full_ui)"
    "(ui_current_system_id full_ui, ur_relative_path demo_directory) \<notin> mem_key ` set (ui_rom_cursor_memory full_ui)"
    using demo_directory_facts(3) by (auto simp: UI_ROM_CURSOR_MEMORY_MAX_def other_slots_def here_slot_def)
  have "inj_on (\<lambda>n. (''gb'', replicate n CHR ''x'')) (set [0..<63])" by (rule inj_onI) (auto simp: replicate_eq_replicate)
  then have "distinct (map (\<lambda>n. (''gb'', replicate n CHR ''x'')) [0..<63])" by (simp add: distinct_map)
  then have dist: "distinct_keys mem_key (ui_rom_cursor_memory full_ui)"
    by (auto simp: other_slots_def here_slot_def comp_def)
  obtain uc where below: "load_rom_entries demo_env demo_card (full_ui\<lparr>ui_rom_directory := ur_relative_path demo_directory, ui_rom_scan_refresh_suppressed := True\<rparr>)
      (ui_current_system_id full_ui) = (True, uc, demo_card)" "ui_rom_entries uc = [demo_game]"
    using card_lists(2) [of "here_slot # other_slots"] demo_directory_facts(3) by auto
  then have "ui_rom_entries uc \<noteq> []" "\<forall>e \<in> set (ui_rom_entries uc). ur_relative_path e \<noteq> [] \<and> length (ur_relative_path e) < UI_PATH_MAX"
    by (simp_all add: demo_game_def zero_ui_rom_def UI_PATH_MAX_def)
  from first_place_is_forgotten [OF card_ready card_fits l m demo_directory_facts(1,2,4) full(1) dist full(2,3) below(1) this]
  show ?thesis by blast
qed

end
