(* ===== verification/BootFrontend.thy ===== *)
theory BootFrontend
  imports TextShell ScanWalk TextRows
begin

text \<open>
  The boot-time frontend (\<open>src/frontend/plumos_frontend.c\<close>): it resumes the last game before anything else, then takes stock of the card
  and writes what it found into a log. Every function of the file is here; where a helper is one of \<open>plumos_path.h\<close> or
  \<open>plumos_text_ui.c\<close> written again with another behaviour, its name starts with \<open>bf\<close>. Memory does not run out.
\<close>

section \<open>Paths\<close>

definition FRONTEND_COMMAND_MAX :: nat where "FRONTEND_COMMAND_MAX = 8192"
definition MAX_SEGMENTS :: nat where "MAX_SEGMENTS = 256"

text \<open>Unlike the one of \<open>plumos_path.h\<close> this join always puts a slash between its parts.\<close>

definition bf_join_path :: "nat \<Rightarrow> string \<Rightarrow> string \<Rightarrow> bool \<times> string" where
  "bf_join_path n a b = (if length a + 1 + length b + 1 > n then (False, []) else (True, a @ ''/'' @ b))"

definition push_segment :: "bool \<Rightarrow> string list \<Rightarrow> string \<Rightarrow> string list" where
  "push_segment absolute segs seg =
     (if seg = ''.'' then segs
      else if seg = ''..'' then
        (if segs \<noteq> [] \<and> last segs \<noteq> ''..'' then butlast segs
         else if \<not> absolute \<and> length segs < MAX_SEGMENTS then segs @ [seg]
         else segs)
      else if length segs < MAX_SEGMENTS then segs @ [seg]
      else segs)"

function segment_loop :: "bool \<Rightarrow> string \<Rightarrow> string list \<Rightarrow> string list" where
  "segment_loop absolute p segs =
     (case dropWhile (\<lambda>c. c = CHR ''/'') p of
        [] \<Rightarrow> segs
      | c # q \<Rightarrow>
          let start = takeWhile (\<lambda>c. c \<noteq> CHR ''/'') (c # q);
              rest = drop (length start + 1) (c # q)
          in segment_loop absolute rest (push_segment absolute segs start))"
  by pat_completeness auto
termination
proof (relation "measure (\<lambda>(absolute, p, segs). length p)", goal_cases)
  case (2 absolute p segs c q start rest)
  then have "length (c # q) \<le> length p" by (metis length_dropWhile_le)
  with 2 show ?case by simp
qed simp

declare segment_loop.simps [simp del]

text \<open>Writing the segments, with a slash before all but the first. A failure leaves what was written.\<close>

fun append_segments :: "nat \<Rightarrow> string \<Rightarrow> bool \<Rightarrow> string list \<Rightarrow> bool \<times> string" where
  "append_segments n out first [] = (True, out)"
| "append_segments n out first (s # segs) =
     (case (if first then (True, out) else append_string n out ''/'') of
        (False, out1) \<Rightarrow> (False, out1)
      | (True, out1) \<Rightarrow>
          (case append_string n out1 s of
             (False, out2) \<Rightarrow> (False, out2)
           | (True, out2) \<Rightarrow> append_segments n out2 False segs))"

definition normalize_path :: "nat \<Rightarrow> string \<Rightarrow> bool \<times> string" where
  "normalize_path n path =
     (if path = [] then (False, [])
      else case copy_string PATH_MAX path of
        (False, _) \<Rightarrow> (False, [])
      | (True, tmp) \<Rightarrow>
          let absolute = (hd tmp = CHR ''/''); segs = segment_loop absolute tmp [] in
          if n = 0 then (False, [])
          else case (if absolute then append_string n [] ''/'' else (True, [])) of
            (False, out) \<Rightarrow> (False, out)
          | (True, out) \<Rightarrow>
              if segs \<noteq> [] then append_segments n out True segs
              else if \<not> absolute then copy_string n ''.''
              else (True, out))"

definition resolve_path :: "nat \<Rightarrow> string \<Rightarrow> string \<Rightarrow> bool \<times> string" where
  "resolve_path n base_dir path =
     (if path = [] then (False, [])
      else if hd path = CHR ''/'' then normalize_path n path
      else case bf_join_path PATH_MAX base_dir path of
        (False, _) \<Rightarrow> (False, [])
      | (True, joined) \<Rightarrow> normalize_path n joined)"

section \<open>Extensions and files\<close>

text \<open>White space at the end of a token.\<close>

definition trim_right :: "string \<Rightarrow> string" where
  "trim_right s = rev (dropWhile isspace (rev s))"

function extlist_loop :: "string \<Rightarrow> string \<Rightarrow> bool" where
  "extlist_loop ext [] = False"
| "extlist_loop ext (c # p) =
     (let p1 = dropWhile (\<lambda>c. c = CHR ''|'' \<or> isspace c) (c # p);
          tok = trim_right (takeWhile (\<lambda>c. c \<noteq> CHR ''|'') p1)
      in if tok \<noteq> [] \<and> ascii_equal_ci tok ext then True
         else if p1 = [] then False
         else extlist_loop ext (dropWhile (\<lambda>c. c \<noteq> CHR ''|'') p1))"
  by pat_completeness auto
termination
proof (relation "measure (\<lambda>(ext, p). length p)", goal_cases)
  case (2 ext c p p1 tok)
  show ?case
  proof (cases p1)
    case (Cons d r)
    with 2 have "dropWhile (\<lambda>c. c = CHR ''|'' \<or> isspace c) (c # p) = d # r" by simp
    then have "d \<noteq> CHR ''|''" unfolding dropWhile_eq_Cons_conv by blast
    then have "dropWhile (\<lambda>c. c \<noteq> CHR ''|'') p1 = dropWhile (\<lambda>c. c \<noteq> CHR ''|'') r" using Cons by simp
    then have "length (dropWhile (\<lambda>c. c \<noteq> CHR ''|'') p1) \<le> length r" by (simp add: length_dropWhile_le)
    moreover have "length p1 \<le> length (c # p)" using 2 by (metis length_dropWhile_le)
    ultimately show ?thesis using Cons by simp
  qed (use 2 in simp)
qed simp

declare extlist_loop.simps [simp del]


definition extlist_contains :: "string \<Rightarrow> string \<Rightarrow> bool" where
  "extlist_contains extlist ext \<longleftrightarrow> extlist = [] \<or> extlist_loop ext extlist"

record dir_stats =
  ds_exists :: bool
  ds_files :: nat
  ds_matching_files :: nat
  ds_subdirs :: nat

definition no_stats :: dir_stats where
  "no_stats = \<lparr>ds_exists = False, ds_files = 0, ds_matching_files = 0, ds_subdirs = 0\<rparr>"

definition bf_hidden_name :: "string \<Rightarrow> bool" where
  "bf_hidden_name name \<longleftrightarrow> name \<noteq> [] \<and> hd name = CHR ''.''"

definition scan_file :: "os \<Rightarrow> string \<Rightarrow> string \<Rightarrow> string \<Rightarrow> dir_stats \<Rightarrow> dir_stats" where
  "scan_file w path extlist name st =
     (if bf_hidden_name name then st
      else case bf_join_path PATH_MAX path name of
        (False, _) \<Rightarrow> st
      | (True, child) \<Rightarrow>
          if is_directory w child then st\<lparr>ds_subdirs := ds_subdirs st + 1\<rparr>
          else if \<not> is_regular_file w child then st
          else if extlist_contains extlist (file_extension name)
            then st\<lparr>ds_files := ds_files st + 1, ds_matching_files := ds_matching_files st + 1\<rparr>
            else st\<lparr>ds_files := ds_files st + 1\<rparr>)"

definition scan_regular_files :: "os \<Rightarrow> string \<Rightarrow> string \<Rightarrow> dir_stats" where
  "scan_regular_files w path extlist =
     (case os_readdir w path of
        None \<Rightarrow> no_stats
      | Some names \<Rightarrow> foldl (\<lambda>st name. scan_file w path extlist name st) (no_stats\<lparr>ds_exists := True\<rparr>) names)"

text \<open>The size of a file is that of its content; a file that can not be read has no content here.\<close>

definition file_size_or_negative :: "os \<Rightarrow> string \<Rightarrow> int" where
  "file_size_or_negative w path =
     (if is_regular_file w path then (case os_read w path of Some t \<Rightarrow> int (length t) | None \<Rightarrow> 0) else - 1)"

fun count_lines_loop :: "bool \<Rightarrow> string \<Rightarrow> nat" where
  "count_lines_loop in_line [] = of_bool in_line"
| "count_lines_loop in_line (c # t) =
     (if c = NL \<or> c = CHR 0x0D then of_bool in_line + count_lines_loop False t
      else if \<not> isspace c then count_lines_loop True t
      else count_lines_loop in_line t)"

definition count_nonempty_lines :: "string option \<Rightarrow> nat" where
  "count_nonempty_lines text = (case text of None \<Rightarrow> 0 | Some t \<Rightarrow> count_lines_loop False t)"

section \<open>Searching a configuration\<close>

text \<open>A text is read up to its terminator. The readers look for the quoted key with \<open>strstr\<close>.\<close>

definition bf_pattern :: "string \<Rightarrow> string" where
  "bf_pattern key = take 127 (DQ # key @ [DQ])"

fun bf_copy_value :: "nat \<Rightarrow> string \<Rightarrow> string \<Rightarrow> string" where
  "bf_copy_value n out [] = out"
| "bf_copy_value n out (c # q) =
     (if c = DQ \<or> n \<le> length out + 1 then out
      else if c = BSL \<and> q \<noteq> [] then bf_copy_value n (out @ [hd q]) (tl q)
      else bf_copy_value n (out @ [c]) q)"

function bf_get_loop :: "string \<Rightarrow> string \<Rightarrow> nat \<Rightarrow> string option" where
  "bf_get_loop p pat n =
     (case strstr p pat of
        None \<Rightarrow> None
      | Some i \<Rightarrow>
          let q = dropWhile isspace (drop (i + length pat) p);
              again = (if drop i p = [] then None else bf_get_loop (drop (i + 1) p) pat n)
          in case q of
               [] \<Rightarrow> again
             | c # q1 \<Rightarrow>
                 if c \<noteq> CHR '':'' then again
                 else (case dropWhile isspace q1 of
                         [] \<Rightarrow> again
                       | d # q2 \<Rightarrow> if d \<noteq> DQ then again else Some (bf_copy_value n [] q2)))"
  by pat_completeness auto
termination by (relation "measure (\<lambda>(p, pat, n). length p)") auto

declare bf_get_loop.simps [simp del]

definition bf_json_get_string :: "string \<Rightarrow> string \<Rightarrow> nat \<Rightarrow> bool \<times> string" where
  "bf_json_get_string json key n =
     (if n = 0 then (False, [])
      else case bf_get_loop json (bf_pattern key) n of None \<Rightarrow> (False, []) | Some v \<Rightarrow> (True, v))"

text \<open>The end of the array that opens at the head of the text: the position of its bracket.\<close>

fun bf_array_end :: "string \<Rightarrow> int \<Rightarrow> bool \<Rightarrow> bool \<Rightarrow> nat option" where
  "bf_array_end [] depth in_string escape = None"
| "bf_array_end (c # q) depth in_string escape =
     (if escape then map_option Suc (bf_array_end q depth in_string False)
      else if in_string \<and> c = BSL then map_option Suc (bf_array_end q depth in_string True)
      else if c = DQ then map_option Suc (bf_array_end q depth (\<not> in_string) False)
      else if \<not> in_string \<and> c = CHR ''['' then map_option Suc (bf_array_end q (depth + 1) in_string False)
      else if \<not> in_string \<and> c = CHR '']'' then
        (if depth - 1 = 0 then Some 0 else map_option Suc (bf_array_end q (depth - 1) in_string False))
      else map_option Suc (bf_array_end q depth in_string False))"

text \<open>The text after the opening bracket, and how far the array goes in it.\<close>

definition bf_json_find_array :: "string \<Rightarrow> string \<Rightarrow> (string \<times> nat) option" where
  "bf_json_find_array json key =
     (case strstr json (bf_pattern key) of
        None \<Rightarrow> None
      | Some i \<Rightarrow>
          (case dropWhile isspace (drop (i + length (bf_pattern key)) json) of
             [] \<Rightarrow> None
           | c # p \<Rightarrow>
               if c \<noteq> CHR '':'' then None
               else (case dropWhile isspace p of
                       [] \<Rightarrow> None
                     | d # r \<Rightarrow>
                         if d \<noteq> CHR ''['' then None
                         else (case bf_array_end (d # r) 0 False False of
                                 None \<Rightarrow> None
                               | Some k \<Rightarrow> Some (r, k - 1)))))"

function count_key_loop :: "string \<Rightarrow> nat \<Rightarrow> string \<Rightarrow> nat" where
  "count_key_loop p e pat =
     (case strstr p pat of
        None \<Rightarrow> 0
      | Some i \<Rightarrow>
          if i < e \<and> pat \<noteq> [] then 1 + count_key_loop (drop (i + length pat) p) (e - (i + length pat)) pat else 0)"
  by pat_completeness auto
termination by (relation "measure (\<lambda>(p, e, pat). e)") auto

declare count_key_loop.simps [simp del]

definition count_key_between :: "string \<Rightarrow> nat \<Rightarrow> string \<Rightarrow> nat" where
  "count_key_between p e key = (if e = 0 then 0 else count_key_loop p e (bf_pattern key))"

definition json_count_launchlist_entries :: "string \<Rightarrow> nat" where
  "json_count_launchlist_entries json =
     (case bf_json_find_array json ''launchlist'' of None \<Rightarrow> 0 | Some (p, e) \<Rightarrow> count_key_between p e ''launch'')"

section \<open>The log\<close>

record log_ctx =
  lc_log :: "string list option"
  lc_stdout_enabled :: bool
  lc_stdout :: "string list"

definition emit :: "log_ctx \<Rightarrow> string \<Rightarrow> log_ctx" where
  "emit ctx line =
     ctx\<lparr>lc_stdout := (if lc_stdout_enabled ctx then lc_stdout ctx @ [line] else lc_stdout ctx),
         lc_log := map_option (\<lambda>l. l @ [line]) (lc_log ctx)\<rparr>"

definition yes_no :: "bool \<Rightarrow> string" where
  "yes_no b = (if b then ''yes'' else ''no'')"

definition or_else :: "string \<Rightarrow> string \<Rightarrow> string" where
  "or_else s d = (if s \<noteq> [] then s else d)"

section \<open>One category of the card\<close>

definition list_dirs :: "os \<Rightarrow> string \<Rightarrow> string list" where
  "list_dirs w path =
     (case os_readdir w path of
        None \<Rightarrow> []
      | Some names \<Rightarrow>
          sort_by strcmp (filter (\<lambda>n. \<not> bf_hidden_name n \<and> is_directory w (snd (bf_join_path PATH_MAX path n))) names))"

record scan_totals =
  tt_configs :: nat
  tt_rom_dirs :: nat
  tt_rom_files :: nat
  tt_rom_matching_files :: nat
  tt_image_dirs :: nat
  tt_image_files :: nat
  tt_gamelists :: nat
  tt_launchers :: nat

definition zero_totals :: scan_totals where
  "zero_totals = \<lparr>tt_configs = 0, tt_rom_dirs = 0, tt_rom_files = 0, tt_rom_matching_files = 0, tt_image_dirs = 0,
     tt_image_files = 0, tt_gamelists = 0, tt_launchers = 0\<rparr>"

record category_config =
  cc_label :: string
  cc_rompath :: string
  cc_imgpath :: string
  cc_gamelist :: string
  cc_extlist :: string
  cc_launch :: string
  cc_launchers :: nat

definition read_category_config :: "string \<Rightarrow> string \<Rightarrow> category_config" where
  "read_category_config json display_key =
     (let get = (\<lambda>key n. snd (bf_json_get_string json key n)); label = get display_key 256
      in \<lparr>cc_label = (if label = [] \<and> display_key \<noteq> ''label'' then get ''label'' 256 else label),
          cc_rompath = get ''rompath'' 512, cc_imgpath = get ''imgpath'' 512, cc_gamelist = get ''gamelist'' 512,
          cc_extlist = get ''extlist'' 512, cc_launch = get ''launch'' 256, cc_launchers = json_count_launchlist_entries json\<rparr>)"

text \<open>A path of the configuration: where it leads, and what is there if it leads anywhere.\<close>

definition config_path_at :: "string \<Rightarrow> string \<Rightarrow> bool \<times> string" where
  "config_path_at dir_path path = (if path = [] then (False, []) else resolve_path PATH_MAX dir_path path)"

definition stats_at :: "os \<Rightarrow> string \<Rightarrow> string \<Rightarrow> string \<Rightarrow> dir_stats" where
  "stats_at w dir_path path extlist =
     (case config_path_at dir_path path of (ok, p) \<Rightarrow> if ok then scan_regular_files w p extlist else no_stats)"

definition gamelist_size_at :: "os \<Rightarrow> string \<Rightarrow> string \<Rightarrow> int" where
  "gamelist_size_at w dir_path path =
     (case config_path_at dir_path path of (ok, p) \<Rightarrow> if ok then file_size_or_negative w p else - 1)"

definition image_extensions :: string where "image_extensions = ''png|jpg|jpeg|bmp''"

definition add_config :: "os \<Rightarrow> string \<Rightarrow> category_config \<Rightarrow> scan_totals \<Rightarrow> scan_totals" where
  "add_config w dir_path cc t =
     (let rom = stats_at w dir_path (cc_rompath cc) (cc_extlist cc);
          image = stats_at w dir_path (cc_imgpath cc) image_extensions
      in \<lparr>tt_configs = tt_configs t + 1,
          tt_rom_dirs = tt_rom_dirs t + of_bool (ds_exists rom),
          tt_rom_files = tt_rom_files t + (if ds_exists rom then ds_files rom else 0),
          tt_rom_matching_files = tt_rom_matching_files t + (if ds_exists rom then ds_matching_files rom else 0),
          tt_image_dirs = tt_image_dirs t + of_bool (ds_exists image),
          tt_image_files = tt_image_files t + (if ds_exists image then ds_matching_files image else 0),
          tt_gamelists = tt_gamelists t + of_bool (0 \<le> gamelist_size_at w dir_path (cc_gamelist cc)),
          tt_launchers = tt_launchers t + cc_launchers cc\<rparr>)"

definition config_lines :: "os \<Rightarrow> string \<Rightarrow> string \<Rightarrow> category_config \<Rightarrow> string list" where
  \<open>config_lines w dir_path name cc =
     (let rom = stats_at w dir_path (cc_rompath cc) (cc_extlist cc);
          image = stats_at w dir_path (cc_imgpath cc) image_extensions;
          gamelist_size = gamelist_size_at w dir_path (cc_gamelist cc);
          resolved = (\<lambda>p. or_else (snd (config_path_at dir_path p)) ''(unresolved)'')
      in [''  - '' @ name @ '' label="'' @ or_else (cc_label cc) ''(none)'' @ ''" launch="'' @ or_else (cc_launch cc) ''(none)'' @
          ''" rompath="'' @ or_else (cc_rompath cc) ''(none)'' @ ''" imgpath="'' @ or_else (cc_imgpath cc) ''(none)'' @
          ''" extlist="'' @ or_else (cc_extlist cc) ''(none)'' @ ''"''] @
         (if cc_rompath cc = [] then []
          else [''    roms path='' @ resolved (cc_rompath cc) @ '' exists='' @ yes_no (ds_exists rom) @ '' files='' @ show_nat (ds_files rom) @
                '' matched='' @ show_nat (ds_matching_files rom) @ '' subdirs='' @ show_nat (ds_subdirs rom)]) @
         (if cc_imgpath cc = [] then []
          else [''    artwork path='' @ resolved (cc_imgpath cc) @ '' exists='' @ yes_no (ds_exists image) @ '' images='' @
                show_nat (ds_matching_files image) @ '' subdirs='' @ show_nat (ds_subdirs image)]) @
         (if cc_gamelist cc = [] then []
          else [''    gamelist path='' @ resolved (cc_gamelist cc) @ '' exists='' @ yes_no (0 \<le> gamelist_size) @ '' size='' @ show_int gamelist_size]) @
         (if cc_launchers cc = 0 then [] else [''    launchlist entries='' @ show_nat (cc_launchers cc)]))\<close>

definition scan_config_dir :: "os \<Rightarrow> string \<Rightarrow> string \<Rightarrow> string \<Rightarrow> log_ctx \<times> scan_totals \<Rightarrow> log_ctx \<times> scan_totals" where
  "scan_config_dir w base display_key name st =
     (case st of (ctx, totals) \<Rightarrow>
        let dir_path = snd (bf_join_path PATH_MAX base name); config_path = snd (bf_join_path PATH_MAX dir_path ''config.json'') in
        if \<not> is_regular_file w config_path then (emit ctx (''  - '' @ name @ '' config=missing''), totals)
        else case os_read w config_path of
          None \<Rightarrow> (emit ctx (''  - '' @ name @ '' config=unreadable''), totals)
        | Some json \<Rightarrow>
            let cc = read_category_config (c_str json) display_key
            in (foldl emit ctx (config_lines w dir_path name cc), add_config w dir_path cc totals))"

definition scan_category :: "os \<Rightarrow> log_ctx \<Rightarrow> string \<Rightarrow> string \<Rightarrow> string \<Rightarrow> log_ctx \<times> scan_totals" where
  "scan_category w ctx sd_root category display_key =
     (let base = snd (bf_join_path PATH_MAX sd_root category); dirs = list_dirs w base
      in foldl (\<lambda>st name. scan_config_dir w base display_key name st)
           (emit ctx (''['' @ category @ ''] path='' @ base @ '' dirs='' @ show_nat (length dirs)), zero_totals) dirs)"

section \<open>Booting\<close>

text \<open>
  \<open>be_system\<close> runs a command line and waits: the status \<open>system\<close> returns, and the card as the game leaves it. \<open>be_log_opens\<close> tells
  whether the log can be appended to.
\<close>

record boot_env =
  be_system :: "string \<Rightarrow> os \<Rightarrow> int \<times> os"
  be_log_opens :: "string \<Rightarrow> bool"
  be_time :: int

definition boot_pieces :: "string \<Rightarrow> string \<Rightarrow> string \<Rightarrow> string \<Rightarrow> piece list" where
  "boot_pieces plumos_root sd_root text_ui log_path =
     [Raw ''PLUMOS_SDCARD_ROOT='', Quoted sd_root, Raw '' PLUMOS_ROOT='', Quoted plumos_root, Raw '' '', Quoted text_ui,
      Raw '' boot --execute >> '', Quoted log_path, Raw '' 2>&1'']"

text \<open>The line it logs when it skips, or the command it runs.\<close>

definition boot_command :: "os \<Rightarrow> string \<Rightarrow> string \<Rightarrow> string \<Rightarrow> string + string" where
  "boot_command w plumos_root sd_root log_path =
     (case bf_join_path PATH_MAX plumos_root ''bin/plumos-text-ui'' of
        (False, _) \<Rightarrow> Inl ''[boot-resume] skip reason=text-ui-path-too-long''
      | (True, text_ui) \<Rightarrow>
          if \<not> is_regular_file w text_ui then Inl (''[boot-resume] skip reason=text-ui-missing path='' @ text_ui)
          else case append_pieces FRONTEND_COMMAND_MAX [] (boot_pieces plumos_root sd_root text_ui log_path) of
            (False, _) \<Rightarrow> Inl ''[boot-resume] skip reason=command-too-long''
          | (True, cmd) \<Rightarrow> Inr cmd)"

definition boot_end_line :: "int \<Rightarrow> string" where
  "boot_end_line rc =
     (if rc = - 1 then ''[boot-resume] failed reason=system-call''
      else if rc mod 128 = 0 then ''[boot-resume] end status='' @ show_int rc @ '' exit='' @ show_int (rc div 256 mod 256)
      else ''[boot-resume] end status='' @ show_int rc)"

definition maybe_run_boot_resume ::
    "boot_env \<Rightarrow> os \<Rightarrow> log_ctx \<Rightarrow> string \<Rightarrow> string \<Rightarrow> string \<Rightarrow> log_ctx \<times> os \<times> string list" where
  "maybe_run_boot_resume be w ctx plumos_root sd_root log_path =
     (case boot_command w plumos_root sd_root log_path of
        Inl line \<Rightarrow> (emit ctx line, w, [])
      | Inr cmd \<Rightarrow>
          (case be_system be cmd w of
             (rc, w') \<Rightarrow> (emit (emit ctx ''[boot-resume] begin'') (boot_end_line rc), w', [cmd])))"

text \<open>A \<open>snprintf\<close> into a buffer of a path: what does not fit is cut.\<close>

definition cut_path :: "string \<Rightarrow> string" where
  "cut_path s = take (PATH_MAX - 1) s"

definition log_dirs :: "string \<Rightarrow> string list" where
  "log_dirs root = [root, cut_path (root @ ''/logs'')]"

definition bf_env_or :: "os \<Rightarrow> string \<Rightarrow> string \<Rightarrow> string" where
  "bf_env_or w name d = (case os_getenv w name of None \<Rightarrow> d | Some v \<Rightarrow> or_else v d)"

definition summary_lines :: "scan_totals \<Rightarrow> scan_totals \<Rightarrow> scan_totals \<Rightarrow> scan_totals \<Rightarrow> string list" where
  "summary_lines emu rapp app themes =
     [''summary configs emu='' @ show_nat (tt_configs emu) @ '' rapp='' @ show_nat (tt_configs rapp) @ '' app='' @
        show_nat (tt_configs app) @ '' themes='' @ show_nat (tt_configs themes),
      ''summary roms dirs='' @ show_nat (tt_rom_dirs emu + tt_rom_dirs rapp) @ '' files='' @
        show_nat (tt_rom_files emu + tt_rom_files rapp) @ '' matched='' @ show_nat (tt_rom_matching_files emu + tt_rom_matching_files rapp),
      ''summary artwork dirs='' @ show_nat (tt_image_dirs emu + tt_image_dirs rapp) @ '' images='' @
        show_nat (tt_image_files emu + tt_image_files rapp),
      ''summary metadata gamelists='' @ show_nat (tt_gamelists emu + tt_gamelists rapp) @ '' launchers='' @
        show_nat (tt_launchers emu + tt_launchers rapp)]"

record boot_result =
  br_status :: int
  br_log :: log_ctx
  br_os :: os
  br_commands :: "string list"
  br_mkdirs :: "string list"

definition recent_line :: "os \<Rightarrow> string \<Rightarrow> string" where
  "recent_line w sd_root =
     (let path = cut_path (sd_root @ ''/Roms/recentlist.json''); size = file_size_or_negative w path;
          n = (if 0 \<le> size then count_nonempty_lines (map_option c_str (os_read w path)) else 0)
      in ''[recent] path='' @ path @ '' exists='' @ yes_no (0 \<le> size) @ '' size='' @ show_int size @ '' entries='' @ show_nat n)"

definition boot_log :: "boot_env \<Rightarrow> os \<Rightarrow> string \<Rightarrow> string \<Rightarrow> string \<Rightarrow> string \<Rightarrow> log_ctx" where
  "boot_log be w mode sd_root plumos_root log_path =
     (let ctx = \<lparr>lc_log = (if be_log_opens be log_path then Some [] else None),
            lc_stdout_enabled = (mode = ''manual'' \<or> os_getenv w ''PLUMOS_FRONTEND_STDOUT'' \<noteq> None), lc_stdout = []\<rparr>
      in emit (emit ctx ''===== plumOS frontend prototype ====='')
           (''time='' @ show_int (be_time be) @ '' mode='' @ mode @ '' sd_root='' @ sd_root @ '' plumos_root='' @ plumos_root))"

definition boot_main :: "boot_env \<Rightarrow> os \<Rightarrow> boot_result" where
  "boot_main be w =
     (let mode = bf_env_or w ''PLUMOS_FRONTEND_MODE'' ''boot'';
          sd_root = bf_env_or w ''PLUMOS_SDCARD_ROOT'' ''/mnt/SDCARD'';
          plumos_root = bf_env_or w ''PLUMOS_ROOT'' ''/mnt/SDCARD/plumos'';
          log_path = cut_path (plumos_root @ ''/logs/plumos-frontend.log'');
          ctx1 = boot_log be w mode sd_root plumos_root log_path;
          (ctx2, w2, cmds) = (if mode \<noteq> ''manual'' then maybe_run_boot_resume be w ctx1 plumos_root sd_root log_path else (ctx1, w, []));
          (ctx3, emu) = scan_category w2 ctx2 sd_root ''Emu'' ''label'';
          (ctx4, rapp) = scan_category w2 ctx3 sd_root ''RApp'' ''label'';
          (ctx5, app) = scan_category w2 ctx4 sd_root ''App'' ''label'';
          (ctx6, themes) = scan_category w2 ctx5 sd_root ''Themes'' ''name''
      in \<lparr>br_status = (if mode = ''manual'' then 0 else 75),
          br_log = foldl emit (emit ctx6 (recent_line w2 sd_root)) (summary_lines emu rapp app themes),
          br_os = w2, br_commands = cmds, br_mkdirs = log_dirs plumos_root\<rparr>)"

end
