(* ===== verification/BootProofs.thy ===== *)
theory BootProofs
  imports BootFrontend
begin

text \<open>
  What the boot-time frontend guarantees: normalising a path keeps where it leads, the list of extensions means what it says, and the
  command that resumes the last game is made of the intended words.
\<close>

section \<open>Components\<close>

text \<open>The components of a path: what stands between its slashes.\<close>

definition path_comps :: "string \<Rightarrow> string list" where
  "path_comps p = filter (\<lambda>s. s \<noteq> []) (split_char CHR ''/'' p)"

lemma path_comps_Nil [simp]: "path_comps [] = []"
  by (simp add: path_comps_def)

lemma path_comps_slash [simp]: "path_comps (CHR ''/'' # p) = path_comps p"
  by (simp add: path_comps_def)

lemma path_comps_clean: "s \<in> set (path_comps p) \<Longrightarrow> s \<noteq> [] \<and> CHR ''/'' \<notin> set s"
  using split_char_free by (auto simp: path_comps_def)

lemma path_comps_segment:
  assumes "s \<noteq> []" "CHR ''/'' \<notin> set s"
  shows "path_comps (s @ CHR ''/'' # p) = s # path_comps p" and "path_comps s = [s]"
proof -
  have "dropWhile (\<lambda>d. d \<noteq> CHR ''/'') s = []" using assms(2) by (auto simp: dropWhile_eq_Nil_conv)
  then have one: "split_char CHR ''/'' s = [s]" using split_char_cut [of "CHR ''/''" s] by (simp only: list.case)
  then show "path_comps (s @ CHR ''/'' # p) = s # path_comps p" and "path_comps s = [s]"
    using assms(1) by (auto simp: path_comps_def split_char_append)
qed

lemma path_comps_strip: "path_comps (dropWhile (\<lambda>c. c = CHR ''/'') p) = path_comps p"
  by (induction p) auto

text \<open>Two ways to write the same number of letters down.\<close>

abbreviation weight :: "string list \<Rightarrow> nat" where
  "weight segs \<equiv> sum_list (map (\<lambda>s. length s + 1) segs)"

lemma weight_split: "weight (split_char c p) = length p + 1"
proof (induction p)
  case (Cons d p)
  obtain s ss where "split_char c p = s # ss" by (cases "split_char c p") auto
  with Cons show ?case by simp
qed simp

lemma weight_filter: "weight (filter P ss) \<le> weight ss"
  by (induction ss) auto

lemma weight_path_comps: "weight (path_comps p) \<le> length p + 1"
  using weight_filter weight_split unfolding path_comps_def by metis

section \<open>Normalising a path\<close>

text \<open>
  Where a path leads from a directory that is given by its names from the root: a dot stays, two dots go up (and stay at the root), a
  name goes down. A path with a slash in front starts at the root.
\<close>

definition walk_step :: "string list \<Rightarrow> string \<Rightarrow> string list" where
  "walk_step cwd s = (if s = ''.'' then cwd else if s = ''..'' then butlast cwd else cwd @ [s])"

abbreviation walk_from :: "bool \<Rightarrow> string list \<Rightarrow> string list \<Rightarrow> string list" where
  "walk_from absolute cwd segs \<equiv> foldl walk_step (if absolute then [] else cwd) segs"

definition is_absolute :: "string \<Rightarrow> bool" where
  "is_absolute p \<longleftrightarrow> p \<noteq> [] \<and> hd p = CHR ''/''"

definition leads_to :: "string list \<Rightarrow> string \<Rightarrow> string list" where
  "leads_to cwd p = walk_from (is_absolute p) cwd (path_comps p)"

text \<open>Components nothing can be taken away from: no dot, and two dots only in front of a relative path.\<close>

definition canonical :: "bool \<Rightarrow> string list \<Rightarrow> bool" where
  "canonical absolute segs \<longleftrightarrow> ''.'' \<notin> set segs \<and>
     ''..'' \<notin> set (if absolute then segs else dropWhile (\<lambda>s. s = ''..'') segs)"

lemma segment_loop_fold: "segment_loop absolute p segs = foldl (push_segment absolute) segs (path_comps p)"
proof (induction absolute p segs rule: segment_loop.induct)
  case (1 absolute p segs)
  show ?case
  proof (cases "dropWhile (\<lambda>c. c = CHR ''/'') p")
    case Nil
    then have "path_comps p = []" using path_comps_strip [of p] unfolding Nil by simp
    then show ?thesis by (subst segment_loop.simps) (simp only: Nil list.case foldl.simps)
  next
    case (Cons c q)
    then have c: "c \<noteq> CHR ''/''" unfolding dropWhile_eq_Cons_conv by blast
    define s where "s = takeWhile (\<lambda>c. c \<noteq> CHR ''/'') (c # q)"
    define r where "r = dropWhile (\<lambda>c. c \<noteq> CHR ''/'') (c # q)"
    have s: "s \<noteq> []" "CHR ''/'' \<notin> set s" using c by (auto simp: s_def dest: set_takeWhileD)
    have cat: "c # q = s @ r" by (simp add: s_def r_def)
    have eq: "segment_loop absolute p segs =
        foldl (push_segment absolute) (push_segment absolute segs s) (path_comps (drop (length s + 1) (c # q)))"
      using 1 [OF Cons refl refl] by (subst segment_loop.simps) (simp add: Cons s_def Let_def)
    have "path_comps p = s # path_comps (drop (length s + 1) (c # q))"
    proof (cases r)
      case Nil
      then show ?thesis using path_comps_strip [of p] Cons cat s path_comps_segment(2) [of s] by simp
    next
      case (Cons d t)
      have "d = CHR ''/''" using hd_dropWhile [of "\<lambda>c. c \<noteq> CHR ''/''" "c # q"] Cons by (simp add: r_def)
      then show ?thesis
        using path_comps_strip [of p] \<open>dropWhile (\<lambda>c. c = CHR ''/'') p = c # q\<close> cat s path_comps_segment(1) [of s t] Cons by simp
    qed
    with eq show ?thesis by simp
  qed
qed

lemma push_segment_bounds:
  "length (push_segment absolute segs s) \<le> Suc (length segs)"
  "weight (push_segment absolute segs s) \<le> weight segs + length s + 1"
proof -
  have "weight (butlast segs) \<le> weight segs" by (cases segs rule: rev_cases) auto
  then show "length (push_segment absolute segs s) \<le> Suc (length segs)"
    and "weight (push_segment absolute segs s) \<le> weight segs + length s + 1"
    by (auto simp: push_segment_def)
qed

lemma canonical_snoc:
  "canonical absolute (segs @ [s]) \<longleftrightarrow> canonical absolute segs \<and> s \<noteq> ''.'' \<and>
     (s = ''..'' \<longrightarrow> \<not> absolute \<and> (\<forall>x \<in> set segs. x = ''..''))"
proof (cases absolute)
  case False
  show ?thesis
  proof (cases "\<forall>x \<in> set segs. x = ''..''")
    case True
    then have "''..'' \<notin> set (dropWhile (\<lambda>s. s = ''..'') (segs @ [s]))" "''..'' \<notin> set (dropWhile (\<lambda>s. s = ''..'') segs)"
      by (simp_all only: dropWhile_append2 dropWhile_eq_Nil_conv [THEN iffD2] dropWhile.simps) simp_all
    with True False show ?thesis unfolding canonical_def by (simp only: if_False set_append list.set) auto
  next
    case c: False
    then have "dropWhile (\<lambda>s. s = ''..'') (segs @ [s]) = dropWhile (\<lambda>s. s = ''..'') segs @ [s]"
      by (auto simp: dropWhile_append)
    then have "''..'' \<in> set (dropWhile (\<lambda>s. s = ''..'') (segs @ [s])) \<longleftrightarrow>
        ''..'' \<in> set (dropWhile (\<lambda>s. s = ''..'') segs) \<or> s = ''..''" by auto
    with c False show ?thesis unfolding canonical_def by (simp only: if_False set_append list.set) auto
  qed
qed (auto simp: canonical_def)

lemma canonical_last:
  "canonical absolute segs \<Longrightarrow> segs \<noteq> [] \<Longrightarrow> last segs = ''..'' \<Longrightarrow> \<not> absolute \<and> (\<forall>x \<in> set segs. x = ''..'')"
  by (cases segs rule: rev_cases) (auto simp: canonical_snoc)

lemma push_segment_canonical:
  assumes "canonical absolute segs"
  shows "canonical absolute (push_segment absolute segs s)"
proof (cases "s = ''..'' \<and> (segs = [] \<or> last segs = ''..'') \<and> \<not> absolute")
  case True
  then have "\<forall>x \<in> set segs. x = ''..''" using canonical_last [OF assms] by (cases "segs = []") simp_all
  with True assms have "canonical absolute (segs @ [s])" by (simp add: canonical_snoc)
  with True assms show ?thesis by (cases "segs = []") (simp_all add: push_segment_def)
next
  case False
  have less: "canonical absolute (butlast segs)" using assms by (cases segs rule: rev_cases) (simp_all add: canonical_snoc)
  have "push_segment absolute segs s = segs \<or> push_segment absolute segs s = butlast segs \<or>
      push_segment absolute segs s = segs @ [s] \<and> s \<noteq> ''.'' \<and> s \<noteq> ''..''"
    using False by (auto simp: push_segment_def)
  with less assms canonical_snoc show ?thesis by metis
qed

lemma push_segment_walk:
  assumes "canonical absolute segs" and "length segs < MAX_SEGMENTS"
  shows "walk_from absolute cwd (push_segment absolute segs s) = walk_step (walk_from absolute cwd segs) s"
proof (cases "segs \<noteq> [] \<and> last segs \<noteq> ''..''")
  case True
  then obtain xs x where x: "segs = xs @ [x]" "x \<noteq> ''..''" by (metis append_butlast_last_id)
  then have "x \<noteq> ''.''" using assms(1) by (auto simp: canonical_def)
  then show ?thesis using x assms(2) by (simp add: push_segment_def walk_step_def)
next
  case False
  have "absolute \<Longrightarrow> segs = []" using False assms(1) last_in_set [of segs] by (cases "segs = []") (auto simp: canonical_def)
  then show ?thesis using False assms(2) by (auto simp: push_segment_def walk_step_def)
qed

lemma push_all:
  assumes "canonical absolute segs" and "length segs + length ss \<le> MAX_SEGMENTS"
  shows "canonical absolute (foldl (push_segment absolute) segs ss) \<and>
    length (foldl (push_segment absolute) segs ss) \<le> length segs + length ss \<and>
    weight (foldl (push_segment absolute) segs ss) \<le> weight segs + weight ss \<and>
    walk_from absolute cwd (foldl (push_segment absolute) segs ss) = foldl walk_step (walk_from absolute cwd segs) ss"
  using assms
proof (induction ss arbitrary: segs)
  case (Cons s ss)
  let ?t = "push_segment absolute segs s"
  have "length ?t + length ss \<le> MAX_SEGMENTS" using push_segment_bounds(1) [of absolute segs s] Cons.prems by simp
  from Cons.IH [OF push_segment_canonical [OF Cons.prems(1)] this]
  show ?case
    using push_segment_bounds [of absolute segs s] push_segment_walk [OF Cons.prems(1), of cwd s] Cons.prems by simp
qed simp

lemma push_canonical:
  assumes "canonical absolute segs" and "length segs \<le> MAX_SEGMENTS"
  shows "foldl (push_segment absolute) [] segs = segs"
  using assms
proof (induction segs rule: rev_induct)
  case (snoc s segs)
  have "push_segment absolute segs s = segs @ [s]"
    using snoc.prems by (auto simp: canonical_snoc push_segment_def)
  then show ?case using snoc.IH snoc.prems by (simp add: canonical_snoc)
qed simp

text \<open>How the components are written.\<close>

fun slash_join :: "string list \<Rightarrow> string" where
  "slash_join [] = []"
| "slash_join [s] = s"
| "slash_join (s # t # ss) = s @ CHR ''/'' # slash_join (t # ss)"

lemma length_slash_join: "segs \<noteq> [] \<Longrightarrow> length (slash_join segs) + 1 = weight segs"
  by (induction segs rule: slash_join.induct) auto

lemma path_comps_slash_join:
  "list_all (\<lambda>s. s \<noteq> [] \<and> CHR ''/'' \<notin> set s) segs \<Longrightarrow> path_comps (slash_join segs) = segs"
  by (induction segs rule: slash_join.induct) (auto simp: path_comps_segment)

lemma append_segments_fits:
  "length (out @ (if first \<or> segs = [] then [] else ''/'') @ slash_join segs) < n \<Longrightarrow>
     append_segments n out first segs = (True, out @ (if first \<or> segs = [] then [] else ''/'') @ slash_join segs)"
proof (induction segs arbitrary: out first)
  case (Cons s segs)
  show ?case
  proof (cases segs)
    case Nil
    with Cons.prems show ?thesis by (cases first) (auto simp: append_string_def)
  next
    case (Cons t ts)
    have a: "(if first then (True, out) else append_string n out ''/'') = (True, out @ (if first then [] else ''/''))"
      using Cons.prems Cons by (auto simp: append_string_def)
    have b: "append_string n (out @ (if first then [] else ''/'')) s = (True, (out @ (if first then [] else ''/'')) @ s)"
      using Cons.prems Cons by (auto simp: append_string_def)
    have "append_segments n ((out @ (if first then [] else ''/'')) @ s) False segs =
        (True, ((out @ (if first then [] else ''/'')) @ s) @ ''/'' @ slash_join segs)"
      using Cons.IH [of "(out @ (if first then [] else ''/'')) @ s" False] Cons.prems Cons by auto
    with Cons show ?thesis by (simp add: a b)
  qed
qed simp

text \<open>The path that is written for a list of components.\<close>

definition path_of :: "bool \<Rightarrow> string list \<Rightarrow> string" where
  "path_of absolute segs = (if absolute then CHR ''/'' # slash_join segs else if segs = [] then ''.'' else slash_join segs)"

definition kept_segments :: "string \<Rightarrow> string list" where
  "kept_segments p = foldl (push_segment (is_absolute p)) [] (path_comps p)"

lemma push_all_members:
  "s \<in> set (foldl (push_segment absolute) segs ss) \<Longrightarrow> s \<in> set segs \<union> set ss"
proof (induction ss arbitrary: segs)
  case (Cons x ss)
  then have "s \<in> set (push_segment absolute segs x) \<union> set ss" by simp
  moreover have "set (push_segment absolute segs x) \<subseteq> set segs \<union> {x}"
    by (auto simp: push_segment_def dest: in_set_butlastD)
  ultimately show ?case by auto
qed simp

lemma kept_segments_clean: "list_all (\<lambda>s. s \<noteq> [] \<and> CHR ''/'' \<notin> set s) (kept_segments p)"
  using push_all_members [of _ "is_absolute p" "[]" "path_comps p"] path_comps_clean
  by (auto simp: kept_segments_def list_all_iff)

lemma is_absolute_path_of:
  assumes "list_all (\<lambda>s. s \<noteq> [] \<and> CHR ''/'' \<notin> set s) segs"
  shows "is_absolute (path_of absolute segs) = absolute"
proof (cases segs)
  case (Cons s ss)
  with assms obtain c r where "s = c # r" "c \<noteq> CHR ''/''" by (cases s) auto
  with Cons show ?thesis by (cases ss) (auto simp: is_absolute_def path_of_def)
qed (auto simp: is_absolute_def path_of_def)

text \<open>A path the code has room for.\<close>

definition path_has_room :: "nat \<Rightarrow> string \<Rightarrow> bool" where
  "path_has_room n p \<longleftrightarrow> p \<noteq> [] \<and> length p < PATH_MAX \<and> length p < n \<and> length (path_comps p) \<le> MAX_SEGMENTS"

lemma kept_segments_spec:
  assumes "path_has_room n p"
  shows "canonical (is_absolute p) (kept_segments p)" and "length (kept_segments p) \<le> MAX_SEGMENTS"
    and "length (path_of (is_absolute p) (kept_segments p)) \<le> length p"
    and "walk_from (is_absolute p) cwd (kept_segments p) = leads_to cwd p"
proof -
  have c: "canonical (is_absolute p) []" by (simp add: canonical_def)
  have r: "length ([] :: string list) + length (path_comps p) \<le> MAX_SEGMENTS" using assms by (simp add: path_has_room_def)
  note all = push_all [OF c r]
  show "canonical (is_absolute p) (kept_segments p)" "length (kept_segments p) \<le> MAX_SEGMENTS"
    "walk_from (is_absolute p) cwd (kept_segments p) = leads_to cwd p"
    using all [of cwd] r by (auto simp: kept_segments_def leads_to_def)
  have w: "weight (kept_segments p) \<le> weight (path_comps p)" using all by (simp add: kept_segments_def)
  show "length (path_of (is_absolute p) (kept_segments p)) \<le> length p"
  proof (cases "is_absolute p")
    case True
    then obtain q where q: "p = CHR ''/'' # q" by (cases p) (auto simp: is_absolute_def)
    have "weight (path_comps p) \<le> length p" using weight_path_comps [of q] q by simp
    with w True q show ?thesis
      using length_slash_join [of "kept_segments p"] by (cases "kept_segments p = []") (auto simp: path_of_def)
  next
    case False
    with w weight_path_comps [of p] show ?thesis
      using length_slash_join [of "kept_segments p"] assms
      by (cases "kept_segments p = []") (auto simp: path_of_def path_has_room_def Suc_le_eq)
  qed
qed

lemma normalize_path_eq:
  assumes "path_has_room n p"
  shows "normalize_path n p = (True, path_of (is_absolute p) (kept_segments p))"
proof -
  let ?segs = "kept_segments p" and ?start = "if is_absolute p then ''/'' else []"
  have p: "p \<noteq> []" "length p < n" "copy_string PATH_MAX p = (True, p)" and n: "n \<noteq> 0"
    using assms by (auto simp: path_has_room_def copy_string_def)
  have segs: "segment_loop (hd p = CHR ''/'') p [] = ?segs"
    using p by (simp add: segment_loop_fold kept_segments_def is_absolute_def)
  have head: "(hd p = CHR ''/'') = is_absolute p" using p by (simp add: is_absolute_def)
  have len: "length (path_of (is_absolute p) ?segs) < n" using kept_segments_spec(3) [OF assms] p by simp
  have "1 < n" using p by (cases p) auto
  then have start: "(if is_absolute p then append_string n [] ''/'' else (True, [])) = (True, ?start)"
    by (simp add: append_string_def)
  have written: "?segs \<noteq> [] \<Longrightarrow> append_segments n ?start True ?segs = (True, ?start @ slash_join ?segs)"
    using append_segments_fits [of ?start True ?segs n] len by (auto simp: path_of_def split: if_splits)
  show ?thesis
    using p n segs \<open>1 < n\<close> written
    by (auto simp: normalize_path_def Let_def head start path_of_def copy_string_def)
qed

lemma normal_path_facts:
  assumes "path_has_room n p" and "normalize_path n p = (True, out)"
  shows "path_has_room n out" and "is_absolute out = is_absolute p" and "kept_segments out = kept_segments p"
    and "out = path_of (is_absolute p) (kept_segments p)"
proof -
  note spec = kept_segments_spec [OF assms(1)] and clean = kept_segments_clean [of p]
  show out: "out = path_of (is_absolute p) (kept_segments p)" using normalize_path_eq [OF assms(1)] assms(2) by simp
  show abs: "is_absolute out = is_absolute p" using is_absolute_path_of [OF clean] out by simp
  have comps: "path_comps out = (if out = ''.'' \<and> kept_segments p = [] then [''.''] else kept_segments p)"
    using out path_comps_slash_join [OF clean] by (auto simp: path_of_def path_comps_def)
  show "kept_segments out = kept_segments p"
    using push_canonical [OF spec(1,2)] comps abs by (auto simp: kept_segments_def push_segment_def split: if_splits)
  have ne: "out \<noteq> []"
    using out clean length_slash_join [of "kept_segments p"] by (cases "kept_segments p") (auto simp: path_of_def split: if_splits)
  show "path_has_room n out"
    using ne spec(2,3) out comps assms(1) by (auto simp: path_has_room_def MAX_SEGMENTS_def)
qed

text \<open>Canonical components are told apart by where they lead.\<close>

lemma canonical_shape:
  assumes "canonical False segs"
  obtains k names where "segs = replicate k ''..'' @ names" and "''..'' \<notin> set names" and "''.'' \<notin> set names"
proof -
  have "\<forall>s \<in> set (takeWhile (\<lambda>s. s = ''..'') segs). s = ''..''" by (auto dest: set_takeWhileD)
  then have "takeWhile (\<lambda>s. s = ''..'') segs = replicate (length (takeWhile (\<lambda>s. s = ''..'') segs)) ''..''"
    by (simp add: replicate_length_same)
  then have "segs = replicate (length (takeWhile (\<lambda>s. s = ''..'') segs)) ''..'' @ dropWhile (\<lambda>s. s = ''..'') segs"
    by (metis takeWhile_dropWhile_id)
  with that assms show ?thesis by (auto simp: canonical_def dest: set_dropWhileD)
qed

lemma walk_names: "''..'' \<notin> set names \<Longrightarrow> ''.'' \<notin> set names \<Longrightarrow> foldl walk_step cwd names = cwd @ names"
  by (induction names arbitrary: cwd) (auto simp: walk_step_def)

lemma walk_up: "foldl walk_step cwd (replicate k ''..'') = take (length cwd - k) cwd"
proof (induction k arbitrary: cwd)
  case (Suc k)
  then show ?case by (simp add: walk_step_def butlast_conv_take min_def)
qed simp

lemma walk_canonical:
  assumes "canonical absolute segs" and "length segs < m"
  obtains k names where "walk_from absolute (replicate m []) segs = (if absolute then [] else replicate (m - k) []) @ names"
    and "absolute \<or> k < m" and "segs = replicate k ''..'' @ names" and "absolute \<longrightarrow> k = 0"
proof (cases absolute)
  case True
  with that [of 0 segs] assms show ?thesis by (auto simp: canonical_def walk_names)
next
  case False
  with assms(1) have "canonical False segs" by simp
  then obtain k names where "segs = replicate k ''..'' @ names" "''..'' \<notin> set names" "''.'' \<notin> set names" by (rule canonical_shape)
  with that [of k names] False assms(2) show ?thesis by (simp add: walk_names walk_up min_def)
qed


lemma leads_apart:
  assumes p: "path_has_room n p" and q: "path_has_room n q"
    and same: "\<And>cwd. leads_to cwd p = leads_to cwd q"
  shows "is_absolute p = is_absolute q \<and> kept_segments p = kept_segments q"
proof -
  define m where "m = length (kept_segments p) + length (kept_segments q) + 1"
  note wp = kept_segments_spec [OF p] and wq = kept_segments_spec [OF q]
  have eq: "walk_from (is_absolute p) (replicate m []) (kept_segments p) = walk_from (is_absolute q) (replicate m []) (kept_segments q)"
    using wp(4) wq(4) same by metis
  have mp: "length (kept_segments p) < m" and mq: "length (kept_segments q) < m" by (auto simp: m_def)
  obtain k names where 1: "walk_from (is_absolute p) (replicate m []) (kept_segments p) =
        (if is_absolute p then [] else replicate (m - k) []) @ names" "is_absolute p \<or> k < m"
      "kept_segments p = replicate k ''..'' @ names" "is_absolute p \<longrightarrow> k = 0" using wp(1) mp by (rule walk_canonical)
  obtain k' names' where 2: "walk_from (is_absolute q) (replicate m []) (kept_segments q) =
        (if is_absolute q then [] else replicate (m - k') []) @ names'" "is_absolute q \<or> k' < m"
      "kept_segments q = replicate k' ''..'' @ names'" "is_absolute q \<longrightarrow> k' = 0" using wq(1) mq by (rule walk_canonical)
  have "[] \<notin> set names" "[] \<notin> set names'"
    using kept_segments_clean [of p] kept_segments_clean [of q] 1(3) 2(3) by (auto simp: list_all_iff)
  then have "names = [] \<or> hd names \<noteq> []" "names' = [] \<or> hd names' \<noteq> []" by (metis list.set_sel(1))+
  then have "takeWhile (\<lambda>s. s = []) (replicate j [] @ names) = replicate j [] \<and>
      takeWhile (\<lambda>s. s = []) (replicate j [] @ names') = replicate j []" for j
    by (induction j) (auto simp: takeWhile_eq_Nil_iff)
  moreover have "replicate (if is_absolute p then 0 else m - k) [] @ names = replicate (if is_absolute q then 0 else m - k') [] @ names'"
    using eq 1(1) 2(1) by (auto split: if_splits)
  ultimately have j: "(if is_absolute p then 0 else m - k) = (if is_absolute q then 0 else m - k')" and "names = names'"
    by (metis length_replicate, metis append_same_eq append_eq_append_conv length_replicate)
  with 1 2 show ?thesis by (auto split: if_splits)
qed

text \<open>
  C21: \<open>normalize_path\<close> decides where paths lead. A path of at most 256 components that fits its buffers is normalised; the result is no
  longer than the path, leads to the same place from every directory, is absolute when the path is, and is its own normal form; and two
  paths have the same normal form exactly when they lead to the same place from every directory.
\<close>

theorem normalize_path_decides:
  assumes p: "path_has_room n p" and q: "path_has_room n q"
  shows "\<exists>out. normalize_path n p = (True, out) \<and> length out \<le> length p \<and> is_absolute out = is_absolute p \<and>
      (\<forall>cwd. leads_to cwd out = leads_to cwd p) \<and> canonical (is_absolute out) (kept_segments out) \<and>
      normalize_path n out = (True, out) \<and>
      (normalize_path n q = (True, out) \<longleftrightarrow> (\<forall>cwd. leads_to cwd q = leads_to cwd p))"
proof -
  let ?out = "path_of (is_absolute p) (kept_segments p)"
  note eq = normalize_path_eq [OF p] and facts = normal_path_facts [OF p normalize_path_eq [OF p]]
  have leads: "leads_to cwd r = walk_from (is_absolute r) cwd (kept_segments r)" if "path_has_room n r" for cwd r
    using kept_segments_spec(4) [OF that] by simp
  have same: "leads_to cwd ?out = leads_to cwd p" for cwd using leads [OF facts(1)] leads [OF p] facts(2,3) by simp
  have idem: "normalize_path n ?out = (True, ?out)" using normalize_path_eq [OF facts(1)] facts(2,3) by simp
  have one: "normalize_path n q = (True, ?out) \<Longrightarrow> leads_to cwd q = leads_to cwd p" for cwd
    using normal_path_facts [OF q, of ?out] facts(2,3) leads [OF q] leads [OF p] by metis
  have two: "\<forall>cwd. leads_to cwd q = leads_to cwd p \<Longrightarrow> normalize_path n q = (True, ?out)"
    using leads_apart [OF q p] normalize_path_eq [OF q] by simp
  show ?thesis
    using eq kept_segments_spec(1,3) [OF p] facts(2,3) same idem one two by (intro exI [of _ ?out]) auto
qed

theorem normalize_path_decides_witness:
  "\<exists>out. normalize_path 16 ''a/./b/../c//d'' = (True, out) \<and> normalize_path 16 ''a/c/d'' = (True, out) \<and>
     (\<forall>cwd. leads_to cwd out = cwd @ [''a'', ''c'', ''d''])"
proof -
  have comps: "path_comps ''a/./b/../c//d'' = [''a'', ''.'', ''b'', ''..'', ''c'', ''d'']" "path_comps ''a/c/d'' = [''a'', ''c'', ''d'']"
    by (simp_all add: path_comps_def)
  have p: "path_has_room 16 ''a/./b/../c//d''" and q: "path_has_room 16 ''a/c/d''"
    using comps by (simp_all add: path_has_room_def PATH_MAX_def MAX_SEGMENTS_def)
  have walk: "leads_to cwd ''a/./b/../c//d'' = cwd @ [''a'', ''c'', ''d'']" "leads_to cwd ''a/c/d'' = cwd @ [''a'', ''c'', ''d'']" for cwd
    using comps by (simp_all add: leads_to_def is_absolute_def walk_step_def butlast_append)
  from normalize_path_decides [OF p q] show ?thesis by (auto simp: walk)
qed

text \<open>
  Beyond 256 components the rest of the path is dropped without an error: of a path of plain names exactly the first 256 are left.
\<close>

theorem long_paths_are_cut:
  assumes "''.'' \<notin> set (path_comps p)" "''..'' \<notin> set (path_comps p)"
  shows "segment_loop absolute p [] = take MAX_SEGMENTS (path_comps p)"
proof -
  have "foldl (push_segment absolute) segs ss = take MAX_SEGMENTS (segs @ ss)"
    if "length segs \<le> MAX_SEGMENTS" "''.'' \<notin> set ss" "''..'' \<notin> set ss" for segs ss
    using that
  proof (induction ss arbitrary: segs)
    case (Cons s ss)
    then have push: "push_segment absolute segs s = (if length segs < MAX_SEGMENTS then segs @ [s] else segs)"
      by (auto simp: push_segment_def)
    show ?case
    proof (cases "length segs < MAX_SEGMENTS")
      case True
      with push Cons.IH [of "segs @ [s]"] Cons.prems show ?thesis by (simp del: take_append)
    next
      case False
      with push Cons.IH [of segs] Cons.prems show ?thesis by simp
    qed
  qed simp
  from this [of "[]"] show ?thesis using assms by (simp add: segment_loop_fold)
qed

theorem long_paths_are_cut_witness:
  "length (segment_loop False (concat (replicate 257 ''a/'')) []) = 256"
proof -
  have comps: "path_comps (concat (replicate k ''a/'')) = replicate k ''a''" for k
    by (induction k) (auto simp: path_comps_segment(1) [of "''a''", simplified])
  show ?thesis
    using long_paths_are_cut [of "concat (replicate 257 ''a/'')" False] by (auto simp: comps MAX_SEGMENTS_def)
qed

section \<open>The list of extensions\<close>

text \<open>The words of the list: what stands between the bars, without the white space around it.\<close>

definition trim_ext :: "string \<Rightarrow> string" where
  "trim_ext s = trim_right (dropWhile isspace s)"

lemma trim_ext_simps [simp]: "trim_right [] = []" "trim_ext [] = []" "isspace c \<Longrightarrow> trim_ext (c # s) = trim_ext s"
  by (simp_all add: trim_right_def trim_ext_def)

definition ext_in :: "string \<Rightarrow> string \<Rightarrow> bool" where
  "ext_in ext p \<longleftrightarrow> (\<exists>t \<in> set (split_char CHR ''|'' p). trim_ext t \<noteq> [] \<and> lower_string (trim_ext t) = lower_string ext)"

lemma ext_in_Nil [simp]: "\<not> ext_in ext []"
  by (simp add: ext_in_def)

lemma ext_in_bar [simp]: "ext_in ext (CHR ''|'' # p) = ext_in ext p"
  by (auto simp: ext_in_def)

lemma ext_in_space:
  assumes "isspace c"
  shows "ext_in ext (c # p) = ext_in ext p"
proof -
  have "c \<noteq> CHR ''|''" using assms by (auto simp: isspace_def)
  then show ?thesis using assms by (cases "split_char CHR ''|'' p") (auto simp: ext_in_def)
qed

lemma ext_in_skip: "ext_in ext (dropWhile (\<lambda>c. c = CHR ''|'' \<or> isspace c) p) = ext_in ext p"
  by (induction p) (auto simp: ext_in_space)

lemma ext_in_token:
  "ext_in ext p \<longleftrightarrow>
     (let t = trim_ext (takeWhile (\<lambda>c. c \<noteq> CHR ''|'') p) in t \<noteq> [] \<and> lower_string t = lower_string ext) \<or>
     ext_in ext (dropWhile (\<lambda>c. c \<noteq> CHR ''|'') p)"
proof (cases "dropWhile (\<lambda>c. c \<noteq> CHR ''|'') p")
  case Nil
  then show ?thesis using split_char_cut_set [of "CHR ''|''" p] unfolding Nil by (simp add: ext_in_def Let_def)
next
  case (Cons d r)
  then have "d = CHR ''|''" unfolding dropWhile_eq_Cons_conv by blast
  then show ?thesis using split_char_cut_set [of "CHR ''|''" p] unfolding Cons by (auto simp: ext_in_def Let_def)
qed

lemma trim_ext_at_word:
  assumes "p1 = dropWhile (\<lambda>c. c = CHR ''|'' \<or> isspace c) p"
  shows "trim_ext (takeWhile (\<lambda>c. c \<noteq> CHR ''|'') p1) = trim_right (takeWhile (\<lambda>c. c \<noteq> CHR ''|'') p1)"
proof (cases p1)
  case (Cons d r)
  then have "\<not> isspace d" using assms dropWhile_eq_Cons_conv [of "\<lambda>c. c = CHR ''|'' \<or> isspace c" p d r] by metis
  with Cons show ?thesis by (simp add: trim_ext_def)
qed simp

lemma extlist_loop_iff: "extlist_loop ext p \<longleftrightarrow> ext_in ext p"
proof (induction ext p rule: extlist_loop.induct)
  case (2 ext c p)
  define p1 where "p1 = dropWhile (\<lambda>c. c = CHR ''|'' \<or> isspace c) (c # p)"
  define tok where "tok = trim_right (takeWhile (\<lambda>c. c \<noteq> CHR ''|'') p1)"
  define rest where "rest = dropWhile (\<lambda>c. c \<noteq> CHR ''|'') p1"
  let ?hit = "tok \<noteq> [] \<and> ascii_equal_ci tok ext"
  have whole: "ext_in ext (c # p) \<longleftrightarrow> ?hit \<or> ext_in ext rest"
    using ext_in_skip [of ext "c # p"] ext_in_token [of ext p1] trim_ext_at_word [OF p1_def]
    by (simp only: Let_def tok_def rest_def p1_def ascii_equal_ci_iff)
  have step: "extlist_loop ext (c # p) = (if ?hit then True else if p1 = [] then False else extlist_loop ext rest)"
    by (subst extlist_loop.simps(2)) (simp only: Let_def tok_def rest_def p1_def)
  have ih: "\<not> ?hit \<Longrightarrow> p1 \<noteq> [] \<Longrightarrow> extlist_loop ext rest = ext_in ext rest"
    using 2 [OF p1_def tok_def] by (simp only: rest_def not_False_eq_True)
  have "p1 = [] \<Longrightarrow> rest = []" by (simp add: rest_def)
  with whole step ih show ?case by (cases "?hit"; cases "p1 = []") (simp_all only: if_True if_False ext_in_Nil simp_thms)
qed (simp add: extlist_loop.simps)

text \<open>
  A game is counted for the extensions of its system when the list is empty, or when its extension is one of the words between the bars,
  without the white space around them and ignoring case; empty words count for nothing.
\<close>

theorem extlist_contains_iff:
  "extlist_contains extlist ext \<longleftrightarrow> extlist = [] \<or>
     (\<exists>t \<in> set (split_char CHR ''|'' extlist). trim_ext t \<noteq> [] \<and> ascii_equal_ci (trim_ext t) ext)"
  by (simp add: extlist_contains_def extlist_loop_iff ext_in_def)


section \<open>What is counted\<close>

text \<open>The entries of a directory that count: visible ones, whose path fits.\<close>

definition entry_path :: "string \<Rightarrow> string \<Rightarrow> string option" where
  "entry_path path name = (if bf_hidden_name name then None else ok_opt (bf_join_path PATH_MAX path name))"

definition entry_is_dir :: "os \<Rightarrow> string \<Rightarrow> string \<Rightarrow> bool" where
  "entry_is_dir w path name \<longleftrightarrow> (case entry_path path name of Some p \<Rightarrow> is_directory w p | None \<Rightarrow> False)"

definition entry_is_file :: "os \<Rightarrow> string \<Rightarrow> string \<Rightarrow> bool" where
  "entry_is_file w path name \<longleftrightarrow>
     (case entry_path path name of Some p \<Rightarrow> \<not> is_directory w p \<and> is_regular_file w p | None \<Rightarrow> False)"

lemma scan_file_eq:
  "scan_file w path extlist name st =
     st\<lparr>ds_files := ds_files st + of_bool (entry_is_file w path name),
        ds_matching_files := ds_matching_files st + of_bool (entry_is_file w path name \<and> extlist_contains extlist (file_extension name)),
        ds_subdirs := ds_subdirs st + of_bool (entry_is_dir w path name)\<rparr>"
  by (auto simp: scan_file_def entry_is_file_def entry_is_dir_def entry_path_def split: prod.splits bool.splits)

lemma scan_regular_files_eq:
  assumes "os_readdir w path = Some names"
  shows "scan_regular_files w path extlist =
     \<lparr>ds_exists = True, ds_files = length (filter (entry_is_file w path) names),
      ds_matching_files = length (filter (\<lambda>n. entry_is_file w path n \<and> extlist_contains extlist (file_extension n)) names),
      ds_subdirs = length (filter (entry_is_dir w path) names)\<rparr>"
proof -
  have "foldl (\<lambda>st name. scan_file w path extlist name st) st names =
      st\<lparr>ds_files := ds_files st + length (filter (entry_is_file w path) names),
         ds_matching_files := ds_matching_files st +
           length (filter (\<lambda>n. entry_is_file w path n \<and> extlist_contains extlist (file_extension n)) names),
         ds_subdirs := ds_subdirs st + length (filter (entry_is_dir w path) names)\<rparr>" for st
  proof (induction names arbitrary: st)
    case (Cons name names)
    show ?case by (simp add: Cons.IH) (simp add: scan_file_eq)
  qed simp
  then show ?thesis using assms by (simp add: scan_regular_files_def no_stats_def)
qed

text \<open>The configurations of a category, each with its directory.\<close>

definition config_of_dir :: "os \<Rightarrow> string \<Rightarrow> string \<Rightarrow> string \<Rightarrow> (string \<times> category_config) option" where
  "config_of_dir w base key name =
     (let dir = snd (bf_join_path PATH_MAX base name); path = snd (bf_join_path PATH_MAX dir ''config.json'') in
      if is_regular_file w path then map_option (\<lambda>json. (dir, read_category_config (c_str json) key)) (os_read w path) else None)"

definition category_configs :: "os \<Rightarrow> string \<Rightarrow> string \<Rightarrow> (string \<times> category_config) list" where
  "category_configs w base key = List.map_filter (config_of_dir w base key) (list_dirs w base)"

definition rom_stats :: "os \<Rightarrow> string \<times> category_config \<Rightarrow> dir_stats" where
  "rom_stats w c = stats_at w (fst c) (cc_rompath (snd c)) (cc_extlist (snd c))"

definition image_stats :: "os \<Rightarrow> string \<times> category_config \<Rightarrow> dir_stats" where
  "image_stats w c = stats_at w (fst c) (cc_imgpath (snd c)) image_extensions"

abbreviation sum_of :: "('a \<Rightarrow> nat) \<Rightarrow> 'a list \<Rightarrow> nat" where
  "sum_of f cs \<equiv> sum_list (map f cs)"

definition counted :: "os \<Rightarrow> (string \<times> category_config) list \<Rightarrow> scan_totals" where
  "counted w cs =
     \<lparr>tt_configs = length cs, tt_rom_dirs = length (filter (\<lambda>c. ds_exists (rom_stats w c)) cs),
      tt_rom_files = sum_of (\<lambda>c. ds_files (rom_stats w c)) cs,
      tt_rom_matching_files = sum_of (\<lambda>c. ds_matching_files (rom_stats w c)) cs,
      tt_image_dirs = length (filter (\<lambda>c. ds_exists (image_stats w c)) cs),
      tt_image_files = sum_of (\<lambda>c. ds_matching_files (image_stats w c)) cs,
      tt_gamelists = length (filter (\<lambda>c. 0 \<le> gamelist_size_at w (fst c) (cc_gamelist (snd c))) cs),
      tt_launchers = sum_of (\<lambda>c. cc_launchers (snd c)) cs\<rparr>"

lemma stats_missing:
  "\<not> ds_exists (stats_at w d p e) \<Longrightarrow> ds_files (stats_at w d p e) = 0 \<and> ds_matching_files (stats_at w d p e) = 0"
proof -
  have "\<not> ds_exists (scan_regular_files w q e) \<Longrightarrow>
      ds_files (scan_regular_files w q e) = 0 \<and> ds_matching_files (scan_regular_files w q e) = 0" for q
    by (cases "os_readdir w q") (simp add: scan_regular_files_def no_stats_def, simp add: scan_regular_files_eq)
  then show "\<not> ds_exists (stats_at w d p e) \<Longrightarrow> ds_files (stats_at w d p e) = 0 \<and> ds_matching_files (stats_at w d p e) = 0"
    by (cases "config_path_at d p"; cases "fst (config_path_at d p)") (simp_all add: stats_at_def, simp_all add: no_stats_def)
qed

lemma add_config_counted: "add_config w (fst c) (snd c) (counted w cs) = counted w (cs @ [c])"
  using stats_missing [of w "fst c" "cc_rompath (snd c)" "cc_extlist (snd c)"] stats_missing [of w "fst c" "cc_imgpath (snd c)" image_extensions]
  by (auto simp: add_config_def counted_def rom_stats_def image_stats_def Let_def)

lemma scan_config_dir_totals:
  "snd (scan_config_dir w base key name (ctx, counted w cs)) =
     counted w (cs @ (case config_of_dir w base key name of None \<Rightarrow> [] | Some c \<Rightarrow> [c]))"
  using add_config_counted [of w _ cs]
  by (auto simp: scan_config_dir_def config_of_dir_def Let_def split: option.splits)

text \<open>
  The inventory of a category counts exactly what is there. Its totals are the sums over the visible directories, sorted by name, that hold
  a configuration which can be read; and of a directory that can be read the count is that of its visible regular files, of those among
  them whose extension the system takes, and of its visible directories.
\<close>

theorem boot_inventory:
  "snd (scan_category w ctx sd_root category key) = counted w (category_configs w (snd (bf_join_path PATH_MAX sd_root category)) key) \<and>
   (\<forall>path names extlist. os_readdir w path = Some names \<longrightarrow>
      ds_files (scan_regular_files w path extlist) = length (filter (entry_is_file w path) names) \<and>
      ds_matching_files (scan_regular_files w path extlist) =
        length (filter (\<lambda>n. entry_is_file w path n \<and> extlist_contains extlist (file_extension n)) names) \<and>
      ds_subdirs (scan_regular_files w path extlist) = length (filter (entry_is_dir w path) names))"
proof -
  have "snd (foldl (\<lambda>st name. scan_config_dir w base key name st) (ctx, counted w cs) dirs) =
      counted w (cs @ List.map_filter (config_of_dir w base key) dirs)" for base ctx cs dirs
  proof (induction dirs arbitrary: ctx cs)
    case (Cons name dirs)
    obtain ctx' where "scan_config_dir w base key name (ctx, counted w cs) =
        (ctx', counted w (cs @ (case config_of_dir w base key name of None \<Rightarrow> [] | Some c \<Rightarrow> [c])))"
      using scan_config_dir_totals [of w base key name ctx cs] by (metis prod.collapse)
    then show ?case by (simp add: Cons.IH map_filter_simps split: option.splits)
  qed (simp add: map_filter_simps)
  moreover have zero: "zero_totals = counted w []" by (simp add: zero_totals_def counted_def)
  ultimately have "snd (scan_category w ctx sd_root category key) =
      counted w (category_configs w (snd (bf_join_path PATH_MAX sd_root category)) key)"
    unfolding scan_category_def category_configs_def Let_def zero by (simp only: append_Nil)
  then show ?thesis by (simp add: scan_regular_files_eq)
qed

text \<open>The card of the example: one system with two files, one of them of the system's kind.\<close>

definition demo_boot_os :: os where
  \<open>demo_boot_os = demo_os\<lparr>os_readdir := (\<lambda>p. if p = ''/s/Emu'' then Some [''NES''] else if p = ''/s/R'' then Some [''a.nes'', ''b.txt''] else None),
     os_stat := (\<lambda>p. if p = ''/s/Emu/NES'' \<or> p = ''/s/R'' then Some (Directory, 1, 1) else Some (Regular, 1, 9)),
     os_read := (\<lambda>p. Some ''{"rompath":"/s/R","extlist":"nes"}'')\<rparr>\<close>

theorem boot_inventory_witness:
  "ds_files (scan_regular_files demo_boot_os ''/s/R'' ''nes'') = 2 \<and> ds_matching_files (scan_regular_files demo_boot_os ''/s/R'' ''nes'') = 1"
proof -
  have "os_readdir demo_boot_os ''/s/R'' = Some [''a.nes'', ''b.txt'']" by (simp add: demo_boot_os_def)
  with boot_inventory [of demo_boot_os "\<lparr>lc_log = None, lc_stdout_enabled = False, lc_stdout = []\<rparr>" "''/s''" "''Emu''" "''label''"]
  have "ds_files (scan_regular_files demo_boot_os ''/s/R'' ''nes'') = length (filter (entry_is_file demo_boot_os ''/s/R'') [''a.nes'', ''b.txt'']) \<and>
      ds_matching_files (scan_regular_files demo_boot_os ''/s/R'' ''nes'') =
        length (filter (\<lambda>n. entry_is_file demo_boot_os ''/s/R'' n \<and> extlist_contains ''nes'' (file_extension n)) [''a.nes'', ''b.txt''])"
    by blast
  moreover have "entry_is_file demo_boot_os ''/s/R'' ''a.nes''" "entry_is_file demo_boot_os ''/s/R'' ''b.txt''"
    by (simp_all add: entry_is_file_def entry_path_def bf_hidden_name_def bf_join_path_def PATH_MAX_def is_directory_def is_regular_file_def demo_boot_os_def)
  moreover have "extlist_contains ''nes'' (file_extension ''a.nes'')" "\<not> extlist_contains ''nes'' (file_extension ''b.txt'')"
    by code_simp+
  ultimately show ?thesis by simp
qed

section \<open>Resuming the last game\<close>

lemma boot_command_words:
  assumes "boot_command w plumos_root sd_root log_path = Inr cmd"
  shows "is_regular_file w (plumos_root @ ''/bin/plumos-text-ui'') \<and> length cmd < FRONTEND_COMMAND_MAX \<and>
    sh_words cmd = Some [Word (''PLUMOS_SDCARD_ROOT='' @ sd_root), Word (''PLUMOS_ROOT='' @ plumos_root),
      Word (plumos_root @ ''/bin/plumos-text-ui''), Word ''boot'', Word ''--execute'', Op CHR ''>'', Op CHR ''>'', Word log_path,
      Word ''2'', Op CHR ''>'', Op CHR ''&'', Word ''1'']"
proof -
  have reg: "is_regular_file w (plumos_root @ ''/bin/plumos-text-ui'')"
    and app: "append_pieces FRONTEND_COMMAND_MAX []
      (boot_pieces plumos_root sd_root (plumos_root @ ''/bin/plumos-text-ui'') log_path) = (True, cmd)"
    using assms by (auto simp: boot_command_def bf_join_path_def split: prod.splits bool.splits if_splits)
  note r = append_pieces_result [OF app]
  have "sh_words cmd = Some [Word (''PLUMOS_SDCARD_ROOT='' @ sd_root), Word (''PLUMOS_ROOT='' @ plumos_root),
      Word (plumos_root @ ''/bin/plumos-text-ui''), Word ''boot'', Word ''--execute'', Op CHR ''>'', Op CHR ''>'', Word log_path,
      Word ''2'', Op CHR ''>'', Op CHR ''&'', Word ''1'']"
    using r by (simp add: boot_pieces_def sh_words_def sh_operator_def sh_expands_def sh_lex_quoted sh_flush_def)
  moreover have "length cmd < FRONTEND_COMMAND_MAX" using r unfolding boot_pieces_def by blast
  ultimately show ?thesis using reg by (intro conjI)
qed

text \<open>
  C20: what booting runs. In manual mode nothing is run and the status is 0. Otherwise the status is 75, and either nothing is run or
  exactly one command line, which the shell reads as the text UI's \<open>boot --execute\<close> with the two roots in its environment and its output
  appended to the log, whatever characters the roots hold; the card is then as that command leaves it.
\<close>

theorem boot_runs_only_the_resume:
  fixes w :: os
  defines "sd \<equiv> bf_env_or w ''PLUMOS_SDCARD_ROOT'' ''/mnt/SDCARD''" and "root \<equiv> bf_env_or w ''PLUMOS_ROOT'' ''/mnt/SDCARD/plumos''"
  shows "if bf_env_or w ''PLUMOS_FRONTEND_MODE'' ''boot'' = ''manual''
     then br_status (boot_main be w) = 0 \<and> br_commands (boot_main be w) = [] \<and> br_os (boot_main be w) = w
     else br_status (boot_main be w) = 75 \<and>
       (br_commands (boot_main be w) = [] \<and> br_os (boot_main be w) = w \<or>
        (\<exists>cmd. br_commands (boot_main be w) = [cmd] \<and> br_os (boot_main be w) = snd (be_system be cmd w) \<and>
           is_regular_file w (root @ ''/bin/plumos-text-ui'') \<and> length cmd < FRONTEND_COMMAND_MAX \<and>
           sh_words cmd = Some [Word (''PLUMOS_SDCARD_ROOT='' @ sd), Word (''PLUMOS_ROOT='' @ root),
             Word (root @ ''/bin/plumos-text-ui''), Word ''boot'', Word ''--execute'', Op CHR ''>'', Op CHR ''>'',
             Word (cut_path (root @ ''/logs/plumos-frontend.log'')), Word ''2'', Op CHR ''>'', Op CHR ''&'', Word ''1'']))"
proof (cases "bf_env_or w ''PLUMOS_FRONTEND_MODE'' ''boot'' = ''manual''")
  case True
  then show ?thesis by (simp add: boot_main_def Let_def split: prod.splits)
next
  case False
  let ?log = "cut_path (root @ ''/logs/plumos-frontend.log'')"
  have status: "br_status (boot_main be w) = 75" using False by (simp add: boot_main_def Let_def split: prod.splits)
  let ?run = "maybe_run_boot_resume be w (boot_log be w (bf_env_or w ''PLUMOS_FRONTEND_MODE'' ''boot'') sd root ?log) root sd ?log"
  have run: "br_os (boot_main be w) = fst (snd ?run)" "br_commands (boot_main be w) = snd (snd ?run)"
    using False unfolding root_def sd_def by (simp_all add: boot_main_def Let_def split: prod.splits)
  show ?thesis
  proof (cases "boot_command w root sd ?log")
    case (Inl line)
    with run status False show ?thesis by (simp add: maybe_run_boot_resume_def)
  next
    case (Inr cmd)
    with run have "br_commands (boot_main be w) = [cmd] \<and> br_os (boot_main be w) = snd (be_system be cmd w)"
      by (simp add: maybe_run_boot_resume_def split: prod.splits)
    with boot_command_words [OF Inr] status False show ?thesis by auto
  qed
qed

end
