(* ===== verification/DrasticMmap.thy ===== *)
theory DrasticMmap
  imports ServiceLib "HOL-Library.Word"
begin

unbundle bit_operations_syntax

text \<open>
  The library preloaded for DraStic (\<open>package/standalone-bubble/src/drastic-mmap-compat.c\<close>): it extends the two files of the emulated
  memory before they are mapped, and keeps them extended. Descriptors name files of the process; the kernel's part is their sizes.
\<close>

section \<open>The kernel\<close>

record mm_world =
  mw_fds :: "int \<Rightarrow> nat option"
  mw_sizes :: "nat \<Rightarrow> int"
  mw_maps :: "(int \<times> int \<times> int \<times> 32 word \<times> int \<times> int) list"

definition fd_size :: "mm_world \<Rightarrow> int \<Rightarrow> int option" where
  "fd_size w fd = map_option (mw_sizes w) (mw_fds w fd)"

text \<open>
  The status is that of the system call: zero, or minus one and nothing changed. It fails for a descriptor that is not open and for a
  negative length, and it may fail for reasons of its own; \<open>grants\<close> tells whether the kernel does what it is asked.
\<close>

definition sys_ftruncate :: "bool \<Rightarrow> mm_world \<Rightarrow> int \<Rightarrow> int \<Rightarrow> int \<times> mm_world" where
  "sys_ftruncate grants w fd len =
     (case mw_fds w fd of
        None \<Rightarrow> (- 1, w)
      | Some f \<Rightarrow> if len < 0 \<or> \<not> grants then (- 1, w) else (0, w\<lparr>mw_sizes := (mw_sizes w)(f := len)\<rparr>))"

section \<open>The library\<close>

text \<open>
  \<open>ms_arm\<close> tells whether the system call that counts in pages is used; \<open>ms_off_bits\<close> is the width of \<open>off_t\<close>, which
  the build decides, and \<open>as_off_t\<close> a value at that width.
\<close>

record mm_state =
  ms_main_memory_fd :: int
  ms_main_memory_size :: int
  ms_vram_fd :: int
  ms_vram_size :: int
  ms_arm :: bool
  ms_off_bits :: nat

definition as_off_t :: "mm_state \<Rightarrow> int \<Rightarrow> int" where
  "as_off_t s v = signed_take_bit (ms_off_bits s - 1) v"

definition MAP_SHARED :: "32 word" where "MAP_SHARED = 1"

definition mm_init :: "bool \<Rightarrow> nat \<Rightarrow> mm_state" where
  "mm_init arm bits =
     \<lparr>ms_main_memory_fd = - 1, ms_main_memory_size = 0, ms_vram_fd = - 1, ms_vram_size = 0, ms_arm = arm, ms_off_bits = bits\<rparr>"

definition ftruncate :: "bool \<Rightarrow> mm_state \<Rightarrow> mm_world \<Rightarrow> int \<Rightarrow> int \<Rightarrow> int \<times> mm_world" where
  "ftruncate grants s w fd len =
     sys_ftruncate grants w fd
       (if fd = ms_main_memory_fd s \<and> len < ms_main_memory_size s then ms_main_memory_size s
        else if fd = ms_vram_fd s \<and> len < ms_vram_size s then ms_vram_size s
        else len)"

definition is_main_memory :: "int \<Rightarrow> int \<Rightarrow> int \<Rightarrow> bool" where
  "is_main_memory address len st_size \<longleftrightarrow> address = 0x8000 \<and> len = 0x3ff9000 \<and> st_size = 0x414000"

definition is_vram :: "int \<Rightarrow> int \<Rightarrow> int \<Rightarrow> bool" where
  "is_vram address len st_size \<longleftrightarrow> address = 0 \<and> len = 0x800000 \<and> st_size = 0xa8000"

text \<open>The system call at the end: whether it is made and succeeds, and with which arguments; the kernel may refuse it.\<close>

definition mmap_tail ::
    "bool \<Rightarrow> mm_state \<Rightarrow> mm_world \<Rightarrow> int \<Rightarrow> int \<Rightarrow> int \<Rightarrow> 32 word \<Rightarrow> int \<Rightarrow> int \<Rightarrow> bool \<times> mm_state \<times> mm_world" where
  "mmap_tail maps s w address len prot flags fd offset =
     (if ms_arm s \<and> offset mod 4096 \<noteq> 0 then (False, s, w)
      else if \<not> maps then (False, s, w)
      else (True, s, w\<lparr>mw_maps := mw_maps w @ [(address, len, prot, flags, fd, offset)]\<rparr>))"

definition mmap ::
    "bool \<Rightarrow> bool \<Rightarrow> mm_state \<Rightarrow> mm_world \<Rightarrow> int \<Rightarrow> int \<Rightarrow> int \<Rightarrow> 32 word \<Rightarrow> int \<Rightarrow> int \<Rightarrow> bool \<times> mm_state \<times> mm_world" where
  "mmap grants maps s w address len prot flags fd offset =
     (case (if 0 \<le> fd \<and> flags AND MAP_SHARED \<noteq> 0 then fd_size w fd else None) of
        None \<Rightarrow> mmap_tail maps s w address len prot flags fd offset
      | Some st_size \<Rightarrow>
          let required = as_off_t s (offset + as_off_t s len) in
          if is_main_memory address len st_size \<or> is_vram address len st_size then
            let s1 = (if is_main_memory address len st_size
                      then s\<lparr>ms_main_memory_fd := fd, ms_main_memory_size := required\<rparr>
                      else s\<lparr>ms_vram_fd := fd, ms_vram_size := required\<rparr>)
            in case sys_ftruncate grants w fd required of
                 (rc, w1) \<Rightarrow> if rc \<noteq> 0 then (False, s1, w1) else mmap_tail maps s1 w1 address len prot flags fd offset
          else mmap_tail maps s w address len prot flags fd offset)"

section \<open>What the process does\<close>

text \<open>The calls of the process, with the answers of the kernel.\<close>

datatype mm_event =
    Ftruncate bool int int
  | Mmap bool bool int int int "32 word" int int
  | Open int nat
  | Close int

fun mm_step :: "mm_state \<times> mm_world \<Rightarrow> mm_event \<Rightarrow> mm_state \<times> mm_world" where
  "mm_step (s, w) (Ftruncate grants fd len) = (s, snd (ftruncate grants s w fd len))"
| "mm_step (s, w) (Mmap grants maps address len prot flags fd offset) = snd (mmap grants maps s w address len prot flags fd offset)"
| "mm_step (s, w) (Open fd f) = (s, w\<lparr>mw_fds := (mw_fds w)(fd := Some f)\<rparr>)"
| "mm_step (s, w) (Close fd) = (s, w\<lparr>mw_fds := (mw_fds w)(fd := None)\<rparr>)"

text \<open>
  A use of descriptors that keeps them apart: a descriptor is opened only while it is free and for a file that has none, only descriptors the
  library does not remember are closed, and the end of a mapping is an \<open>off_t\<close> (beyond, the sum in the code is undefined).
\<close>

definition range_ok :: "mm_state \<Rightarrow> int \<Rightarrow> int \<Rightarrow> bool" where
  "range_ok s len offset \<longleftrightarrow> 0 \<le> offset \<and> 0 \<le> len \<and> offset + len < 2 ^ (ms_off_bits s - 1)"

fun fds_apart :: "mm_state \<times> mm_world \<Rightarrow> mm_event \<Rightarrow> bool" where
  "fds_apart (s, w) (Open fd f) \<longleftrightarrow> 0 \<le> fd \<and> mw_fds w fd = None \<and> (\<forall>g. mw_fds w g \<noteq> Some f) \<and> fd \<noteq> ms_main_memory_fd s \<and> fd \<noteq> ms_vram_fd s"
| "fds_apart (s, w) (Close fd) \<longleftrightarrow> fd \<noteq> ms_main_memory_fd s \<and> fd \<noteq> ms_vram_fd s"
| "fds_apart (s, w) (Mmap grants maps address len prot flags fd offset) \<longleftrightarrow> range_ok s len offset"
| "fds_apart (s, w) (Ftruncate grants fd len) \<longleftrightarrow> True"

fun mm_run :: "mm_state \<times> mm_world \<Rightarrow> mm_event list \<Rightarrow> mm_state \<times> mm_world" where
  "mm_run sw [] = sw"
| "mm_run sw (e # es) = mm_run (mm_step sw e) es"

fun mm_apart :: "mm_state \<times> mm_world \<Rightarrow> mm_event list \<Rightarrow> bool" where
  "mm_apart sw [] \<longleftrightarrow> True"
| "mm_apart sw (e # es) \<longleftrightarrow> fds_apart sw e \<and> mm_apart (mm_step sw e) es"

text \<open>No other file is asked to be mapped in the place of one of the two: the remembered descriptors stay the same.\<close>

fun undisturbed :: "mm_state \<times> mm_world \<Rightarrow> mm_event list \<Rightarrow> bool" where
  "undisturbed sw [] \<longleftrightarrow> True"
| "undisturbed sw (e # es) \<longleftrightarrow>
     ms_main_memory_fd (fst (mm_step sw e)) = ms_main_memory_fd (fst sw) \<and> ms_vram_fd (fst (mm_step sw e)) = ms_vram_fd (fst sw) \<and>
     undisturbed (mm_step sw e) es"

section \<open>The invariant\<close>

text \<open>
  No two descriptors are of the same file, the two remembered descriptors are not the same, and a remembered file has the length that is
  remembered of it, at least the whole range, or still its first length, when the kernel refused to extend it.
\<close>

definition grown :: "mm_world \<Rightarrow> int \<Rightarrow> int \<Rightarrow> bool" where
  "grown w fd n \<longleftrightarrow> (\<exists>f. mw_fds w fd = Some f \<and> n \<le> mw_sizes w f)"

definition remembered :: "mm_world \<Rightarrow> int \<Rightarrow> int \<Rightarrow> int \<Rightarrow> int \<Rightarrow> bool" where
  "remembered w fd n first whole \<longleftrightarrow> fd = - 1 \<or> whole \<le> n \<and> (grown w fd n \<or> fd_size w fd = Some first)"

abbreviation main_ok :: "mm_state \<Rightarrow> mm_world \<Rightarrow> bool" where
  "main_ok s w \<equiv> remembered w (ms_main_memory_fd s) (ms_main_memory_size s) 0x414000 0x3ff9000"

abbreviation vram_ok :: "mm_state \<Rightarrow> mm_world \<Rightarrow> bool" where
  "vram_ok s w \<equiv> remembered w (ms_vram_fd s) (ms_vram_size s) 0xa8000 0x800000"

definition mm_inv :: "mm_state \<times> mm_world \<Rightarrow> bool" where
  "mm_inv sw \<longleftrightarrow> (case sw of (s, w) \<Rightarrow>
     (\<forall>a b f. mw_fds w a = Some f \<and> mw_fds w b = Some f \<longrightarrow> a = b) \<and> mw_fds w (- 1) = None \<and>
     (ms_main_memory_fd s = ms_vram_fd s \<longrightarrow> ms_main_memory_fd s = - 1) \<and> main_ok s w \<and> vram_ok s w)"

lemma off_t_in_range: "0 \<le> v \<Longrightarrow> v < 2 ^ (ms_off_bits s - 1) \<Longrightarrow> as_off_t s v = v"
  unfolding as_off_t_def by (rule signed_take_bit_int_eq_self) simp_all

lemma required_in_range: "range_ok s len offset \<Longrightarrow> as_off_t s (offset + as_off_t s len) = offset + len"
  by (simp add: off_t_in_range range_ok_def)

text \<open>One call that changes the length of a file: the file of another descriptor keeps its length.\<close>

lemma sys_ftruncate_cases:
  assumes "sys_ftruncate grants w fd n = (rc, w')"
  obtains "rc \<noteq> 0" "w' = w" | f where "rc = 0" "mw_fds w fd = Some f" "0 \<le> n" "w' = w\<lparr>mw_sizes := (mw_sizes w)(f := n)\<rparr>"
  using assms by (auto simp: sys_ftruncate_def split: option.splits if_splits)

lemma grown_keeps:
  assumes inv: "mm_inv (s, w)" and call: "sys_ftruncate grants w fd n = (rc, w')" and "grown w g m" and "g = fd \<Longrightarrow> m \<le> n"
  shows "grown w' g m"
  using call
proof (cases rule: sys_ftruncate_cases)
  case (2 f)
  with assms show ?thesis by (auto simp: grown_def mm_inv_def)
qed (use assms in simp)

lemma remembered_keeps:
  assumes inv: "mm_inv (s, w)" and call: "sys_ftruncate grants w fd n = (rc, w')" and r: "remembered w g m first whole"
    and n: "g = fd \<Longrightarrow> m \<le> n"
  shows "remembered w' g m first whole"
proof (cases "g = - 1 \<or> grown w g m")
  case True
  with grown_keeps [OF inv call _ n] r show ?thesis by (auto simp: remembered_def)
next
  case False
  then have first: "fd_size w g = Some first" "whole \<le> m" using r by (auto simp: remembered_def)
  from call show ?thesis
  proof (cases rule: sys_ftruncate_cases)
    case (2 f)
    show ?thesis
    proof (cases "g = fd")
      case True
      with 2 n show ?thesis using first by (simp add: remembered_def grown_def)
    next
      case ne: False
      with 2 inv first have "fd_size w' g = Some first" by (auto simp: fd_size_def mm_inv_def)
      with first show ?thesis by (simp add: remembered_def)
    qed
  qed (use r in simp)
qed

lemma sys_ftruncate_keeps:
  assumes inv: "mm_inv (s, w)" and call: "sys_ftruncate grants w fd n = (rc, w')"
    and main: "fd = ms_main_memory_fd s \<Longrightarrow> ms_main_memory_size s \<le> n" and vram: "fd = ms_vram_fd s \<Longrightarrow> ms_vram_size s \<le> n"
  shows "mm_inv (s, w')"
proof -
  have fds: "mw_fds w' = mw_fds w" using call by (cases rule: sys_ftruncate_cases) simp_all
  have "main_ok s w" "vram_ok s w" using inv by (simp_all add: mm_inv_def)
  from remembered_keeps [OF inv call this(1)] remembered_keeps [OF inv call this(2)] main vram
  have "main_ok s w'" "vram_ok s w'" by auto
  with inv fds show ?thesis by (simp add: mm_inv_def)
qed

definition truncate_length :: "mm_state \<Rightarrow> int \<Rightarrow> int \<Rightarrow> int" where
  "truncate_length s fd len =
     (if fd = ms_main_memory_fd s \<and> len < ms_main_memory_size s then ms_main_memory_size s
      else if fd = ms_vram_fd s \<and> len < ms_vram_size s then ms_vram_size s else len)"

lemma truncate_length_ge:
  assumes "mm_inv (s, w)" and "fd \<noteq> - 1"
  shows "fd = ms_main_memory_fd s \<Longrightarrow> ms_main_memory_size s \<le> truncate_length s fd len"
    and "fd = ms_vram_fd s \<Longrightarrow> ms_vram_size s \<le> truncate_length s fd len"
  using assms by (auto simp: truncate_length_def mm_inv_def)

lemma ftruncate_keeps:
  assumes inv: "mm_inv (s, w)"
  shows "mm_inv (s, snd (ftruncate grants s w fd len))"
proof (cases "fd = - 1")
  case True
  then have "mw_fds w fd = None" using inv by (simp add: mm_inv_def)
  with inv show ?thesis by (simp add: ftruncate_def sys_ftruncate_def)
next
  case False
  obtain rc w' where call: "sys_ftruncate grants w fd (truncate_length s fd len) = (rc, w')"
    by (cases "sys_ftruncate grants w fd (truncate_length s fd len)")
  with sys_ftruncate_keeps [OF inv call truncate_length_ge [OF inv False]] show ?thesis
    by (simp add: ftruncate_def truncate_length_def)
qed

lemma mmap_tail_keeps: "mm_inv (s, w) \<Longrightarrow> mm_inv (snd (mmap_tail maps s w a l p fl fd off))"
  by (auto simp: mmap_tail_def mm_inv_def remembered_def grown_def fd_size_def)

text \<open>The extension of one of the two files.\<close>

definition special :: "mm_world \<Rightarrow> int \<Rightarrow> int \<Rightarrow> 32 word \<Rightarrow> int \<Rightarrow> bool" where
  "special w address len flags fd \<longleftrightarrow> 0 \<le> fd \<and> flags AND MAP_SHARED \<noteq> 0 \<and>
     (\<exists>st. fd_size w fd = Some st \<and> (is_main_memory address len st \<or> is_vram address len st))"

definition remember :: "mm_state \<Rightarrow> int \<Rightarrow> int \<Rightarrow> int \<Rightarrow> mm_state" where
  "remember s address fd n =
     (if address = 0x8000 then s\<lparr>ms_main_memory_fd := fd, ms_main_memory_size := n\<rparr> else s\<lparr>ms_vram_fd := fd, ms_vram_size := n\<rparr>)"

lemma mmap_special:
  assumes "special w address len flags fd" and "range_ok s len offset"
  shows "mmap grants maps s w address len prot flags fd offset =
    (let (rc, w1) = sys_ftruncate grants w fd (offset + len); s1 = remember s address fd (offset + len)
     in if rc \<noteq> 0 then (False, s1, w1) else mmap_tail maps s1 w1 address len prot flags fd offset)"
  using assms required_in_range [OF assms(2)]
  by (auto simp: mmap_def special_def remember_def is_main_memory_def is_vram_def Let_def split: prod.split)

lemma mmap_other:
  "\<not> special w address len flags fd \<Longrightarrow>
     mmap grants maps s w address len prot flags fd offset = mmap_tail maps s w address len prot flags fd offset"
  by (auto simp: mmap_def special_def split: option.split)

lemma remember_keeps:
  assumes inv: "mm_inv (s, w)" and sp: "special w address len flags fd" and off: "0 \<le> offset"
    and call: "sys_ftruncate grants w fd (offset + len) = (rc, w')"
  shows "mm_inv (remember s address fd (offset + len), w')" and "rc = 0 \<Longrightarrow> grown w' fd (offset + len)"
proof -
  obtain f where f: "mw_fds w fd = Some f" and
    st: "is_main_memory address len (mw_sizes w f) \<or> is_vram address len (mw_sizes w f)" and "0 \<le> fd"
    using sp by (auto simp: special_def fd_size_def)
  have fds: "mw_fds w' = mw_fds w" using call by (cases rule: sys_ftruncate_cases) simp_all
  show g: "grown w' fd (offset + len)" if "rc = 0"
    using call by (cases rule: sys_ftruncate_cases) (use f that in \<open>auto simp: grown_def\<close>)
  have size: "grown w' fd (offset + len) \<or> fd_size w' fd = Some (mw_sizes w f)"
    using call by (cases rule: sys_ftruncate_cases) (use f in \<open>auto simp: grown_def fd_size_def\<close>)
  have main: "remembered w' g m first whole" if "remembered w g m first whole" "g \<noteq> fd" for g m first whole
    using remembered_keeps [OF inv call that(1)] that(2) by simp
  show "mm_inv (remember s address fd (offset + len), w')"
  proof (cases "address = 0x8000")
    case True
    then have st: "len = 0x3ff9000" "mw_sizes w f = 0x414000" using st by (auto simp: is_main_memory_def is_vram_def)
    have "fd \<noteq> ms_vram_fd s" using inv f st \<open>0 \<le> fd\<close> by (auto simp: mm_inv_def remembered_def grown_def fd_size_def)
    with inv main size st off True fds \<open>0 \<le> fd\<close> show ?thesis by (simp add: mm_inv_def remember_def) (simp add: remembered_def)
  next
    case False
    then have st: "len = 0x800000" "mw_sizes w f = 0xa8000" using st by (auto simp: is_main_memory_def is_vram_def)
    have "fd \<noteq> ms_main_memory_fd s" using inv f st \<open>0 \<le> fd\<close> by (auto simp: mm_inv_def remembered_def grown_def fd_size_def)
    with inv main size st off False fds \<open>0 \<le> fd\<close> show ?thesis by (simp add: mm_inv_def remember_def) (simp add: remembered_def)
  qed
qed

lemma mmap_keeps:
  assumes inv: "mm_inv (s, w)" and off: "range_ok s len offset"
  shows "mm_inv (snd (mmap grants maps s w address len prot flags fd offset))"
proof (cases "special w address len flags fd")
  case True
  obtain rc w' where call: "sys_ftruncate grants w fd (offset + len) = (rc, w')" by (cases "sys_ftruncate grants w fd (offset + len)")
  have "0 \<le> offset" using off by (simp add: range_ok_def)
  from remember_keeps(1) [OF inv True this call] show ?thesis
    unfolding mmap_special [OF True off] call by (simp add: mmap_tail_keeps Let_def)
qed (simp add: mmap_other mmap_tail_keeps [OF inv])

lemma fds_keep:
  assumes inv: "mm_inv (s, w)" and fd: "fd \<noteq> ms_main_memory_fd s" "fd \<noteq> ms_vram_fd s"
    and new: "x = None \<or> (\<exists>f. x = Some f \<and> fd \<noteq> - 1 \<and> (\<forall>g. mw_fds w g \<noteq> Some f))"
  shows "mm_inv (s, w\<lparr>mw_fds := (mw_fds w)(fd := x)\<rparr>)"
proof -
  let ?w = "w\<lparr>mw_fds := (mw_fds w)(fd := x)\<rparr>"
  have keep: "remembered ?w g m first r" if "remembered w g m first r" "fd \<noteq> g" for g m first r
    using that by (simp add: remembered_def grown_def fd_size_def)
  have old: "a = b" if "mw_fds w a = Some h" "mw_fds w b = Some h" for a b h using inv that by (simp add: mm_inv_def)
  have "a = b" if "mw_fds ?w a = Some h" "mw_fds ?w b = Some h" for a b h
    using that new old [of a h b] by (cases "a = fd"; cases "b = fd") auto
  then have "\<forall>a b h. mw_fds ?w a = Some h \<and> mw_fds ?w b = Some h \<longrightarrow> a = b" by blast
  moreover have "mw_fds ?w (- 1) = None" using inv new by (elim disjE exE conjE) (simp_all add: mm_inv_def)
  ultimately show ?thesis using inv keep fd unfolding mm_inv_def by (simp only: prod.case simp_thms) blast
qed

lemma mm_step_keeps: "mm_inv (s, w) \<Longrightarrow> fds_apart (s, w) e \<Longrightarrow> mm_inv (mm_step (s, w) e)"
  by (cases e) (auto simp: ftruncate_keeps mmap_keeps intro!: fds_keep)

lemma mm_run_keeps: "mm_inv sw \<Longrightarrow> mm_apart sw es \<Longrightarrow> mm_inv (mm_run sw es)"
proof (induction es arbitrary: sw)
  case (Cons e es)
  then show ?case using mm_step_keeps [of "fst sw" "snd sw" e] by simp
qed simp

section \<open>A mapping that was made\<close>

definition remembers :: "mm_state \<Rightarrow> int \<Rightarrow> int \<Rightarrow> bool" where
  "remembers s fd n \<longleftrightarrow> fd = ms_main_memory_fd s \<and> n = ms_main_memory_size s \<or> fd = ms_vram_fd s \<and> n = ms_vram_size s"

lemma remembered_is_long:
  assumes "mm_inv (s, w)" and "remembers s fd n" and "grown w fd n"
  shows "fd \<noteq> - 1 \<and> (\<exists>f. mw_fds w fd = Some f \<and> 0x800000 \<le> n \<and> n \<le> mw_sizes w f)"
  using assms by (auto simp: mm_inv_def remembers_def remembered_def grown_def)

lemma grown_not_special:
  assumes "mm_inv (s, w)" and "remembers s fd n" and "grown w fd n" and "special w address len flags fd2"
  shows "fd2 \<noteq> fd"
  using remembered_is_long [OF assms(1-3)] assms(4) by (auto simp: special_def fd_size_def is_main_memory_def is_vram_def)

definition kept :: "mm_state \<times> mm_world \<Rightarrow> int \<Rightarrow> nat \<Rightarrow> int \<Rightarrow> bool" where
  "kept sw fd f n \<longleftrightarrow> remembers (fst sw) fd n \<and> grown (snd sw) fd n \<and> mw_fds (snd sw) fd = Some f"

lemma kept_truncate:
  assumes inv: "mm_inv (s, w)" and k: "kept (s, w) fd f n"
  shows "kept (s, snd (ftruncate grants s w fd2 len)) fd f n"
proof -
  obtain rc w' where call: "sys_ftruncate grants w fd2 (truncate_length s fd2 len) = (rc, w')"
    by (cases "sys_ftruncate grants w fd2 (truncate_length s fd2 len)")
  have fds: "mw_fds w' = mw_fds w" using call by (cases rule: sys_ftruncate_cases) simp_all
  have "fd \<noteq> - 1" using remembered_is_long [OF inv] k by (auto simp: kept_def)
  then have "fd = fd2 \<Longrightarrow> n \<le> truncate_length s fd2 len"
    using truncate_length_ge [OF inv] k by (auto simp: kept_def remembers_def)
  with grown_keeps [OF inv call _ this] k fds have "kept (s, w') fd f n" by (simp add: kept_def)
  with call show ?thesis by (simp add: ftruncate_def truncate_length_def)
qed

lemma kept_tail: "kept (s, w) fd f n \<Longrightarrow> kept (snd (mmap_tail maps s w a l p fl fd2 off)) fd f n"
  by (auto simp: mmap_tail_def kept_def grown_def)

lemma kept_map:
  assumes inv: "mm_inv (s, w)" and k: "kept (s, w) fd f n" and off: "range_ok s len offset"
    and same: "ms_main_memory_fd (fst (snd (mmap grants maps s w address len prot flags fd2 offset))) = ms_main_memory_fd s"
      "ms_vram_fd (fst (snd (mmap grants maps s w address len prot flags fd2 offset))) = ms_vram_fd s"
  shows "kept (snd (mmap grants maps s w address len prot flags fd2 offset)) fd f n"
proof (cases "special w address len flags fd2")
  case True
  obtain rc w' where call: "sys_ftruncate grants w fd2 (offset + len) = (rc, w')" by (cases "sys_ftruncate grants w fd2 (offset + len)")
  have fds: "mw_fds w' = mw_fds w" using call by (cases rule: sys_ftruncate_cases) simp_all
  let ?s = "remember s address fd2 (offset + len)"
  have ne: "fd2 \<noteq> fd" using grown_not_special [OF inv, of fd n] True k by (simp add: kept_def)
  have "grown w' fd n" using grown_keeps [OF inv call, of fd n] k ne by (simp add: kept_def)
  moreover have st: "fst (snd (mmap grants maps s w address len prot flags fd2 offset)) = ?s"
    unfolding mmap_special [OF True off] call by (simp add: Let_def mmap_tail_def)
  have "remembers ?s fd n" using same k ne unfolding st by (auto simp: remember_def remembers_def kept_def split: if_splits)
  ultimately have "kept (?s, w') fd f n" using k fds by (simp add: kept_def)
  then show ?thesis unfolding mmap_special [OF True off] call by (simp add: Let_def kept_tail)
qed (simp add: mmap_other kept_tail [OF k])

lemma kept_step:
  assumes "mm_inv (s, w)" and "kept (s, w) fd f n" and "fds_apart (s, w) e" and "undisturbed (s, w) [e]"
  shows "kept (mm_step (s, w) e) fd f n"
proof (cases e)
  case (Mmap grants maps address len prot flags fd2 offset)
  with assms kept_map [of s w fd f n len offset grants maps address prot flags fd2] show ?thesis by simp
next
  case (Ftruncate grants fd2 len)
  with assms kept_truncate show ?thesis by simp
qed (use assms in \<open>auto simp: kept_def grown_def remembers_def\<close>)

lemma kept_run:
  "mm_inv sw \<Longrightarrow> mm_apart sw es \<Longrightarrow> undisturbed sw es \<Longrightarrow> kept sw fd f n \<Longrightarrow> kept (mm_run sw es) fd f n"
proof (induction es arbitrary: sw)
  case (Cons e es)
  then show ?case using mm_step_keeps [of "fst sw" "snd sw" e] kept_step [of "fst sw" "snd sw" fd f n e] by simp
qed simp

section \<open>Properties\<close>


text \<open>The example: a file of the first size, mapped, and truncated again.\<close>

definition demo_mm :: mm_world where
  "demo_mm = \<lparr>mw_fds = (\<lambda>_. None), mw_sizes = (\<lambda>_. 0x414000), mw_maps = []\<rparr>"


text \<open>
  A remembered descriptor outlives its file: once it is closed and given to another file, truncating that file to less makes it as
  long as the emulator's memory instead.
\<close>

theorem stale_descriptor_grows_other_file:
  assumes "ms_main_memory_fd s = fd" and "0 \<le> len" and "len < ms_main_memory_size s"
  shows "mw_sizes (snd (mm_run (s, w) [Close fd, Open fd f, Ftruncate True fd len])) f = ms_main_memory_size s"
  using assms by (simp add: ftruncate_def sys_ftruncate_def)

end
