(* ===== verification/Binary32.thy ===== *)
theory Binary32
  imports Complex_Main
begin

text \<open>
  Single precision numbers as the rationals they are. \<open>fl\<close> is the rounding of IEEE 754 after each operation: to the nearest number with
  24 binary digits, ties to the even one, and below \<open>2 powi -126\<close> to a multiple of \<open>2 powi -149\<close>. Overflow is not modelled: there is no
  largest number. What a program may rely on is the locale \<open>rounding\<close>.
\<close>

section \<open>What rounding guarantees\<close>

text \<open>
  \<open>u\<close> bounds the relative error, \<open>t\<close> the absolute error of the numbers next to zero; a number with a rounded one above it does not get
  past that one.
\<close>

locale rounding =
  fixes rd :: "rat \<Rightarrow> rat" and u :: rat and t :: rat
  assumes u_pos: "0 < u" and u_small: "u \<le> 1 / 10000000" and t_pos: "0 < t" and t_tiny: "t * 2 ^ 60 \<le> u"
    and error: "\<bar>rd q - q\<bar> \<le> u * \<bar>q\<bar> + t"
    and nonneg: "0 \<le> q \<Longrightarrow> 0 \<le> rd q"
    and stays_below: "rd z = z \<Longrightarrow> 0 \<le> q \<Longrightarrow> q \<le> z \<Longrightarrow> rd q \<le> z"
    and one: "rd 1 = 1"
begin

text \<open>The error of a number that is not tiny, as one factor.\<close>

lemma relative_error:
  assumes "1 / 2 ^ 60 \<le> q"
  shows "\<bar>rd q - q\<bar> \<le> 2 * u * q"
proof -
  have "0 < q" using assms by (rule less_le_trans [rotated]) simp
  have "t \<le> u * (1 / 2 ^ 60)" using t_tiny by (simp add: field_simps)
  also have "\<dots> \<le> u * q" using assms u_pos by (intro mult_left_mono) simp_all
  finally have "t \<le> u * q" .
  with error [of q] \<open>0 < q\<close> show ?thesis by simp
qed

lemma upper: "1 / 2 ^ 60 \<le> q \<Longrightarrow> rd q \<le> q * (1 + 2 * u)"
  using relative_error [of q] by (simp add: abs_le_iff algebra_simps)

lemma lower: "1 / 2 ^ 60 \<le> q \<Longrightarrow> q * (1 - 2 * u) \<le> rd q"
  using relative_error [of q] by (simp add: abs_le_iff algebra_simps)

lemma below_one: "0 \<le> q \<Longrightarrow> q \<le> 1 \<Longrightarrow> rd q \<le> 1"
  by (rule stays_below [OF one])

end

section \<open>The exponent\<close>

fun bits :: "nat \<Rightarrow> nat" where
  "bits n = (if n = 0 then 0 else Suc (bits (n div 2)))"

declare bits.simps [simp del]

lemma bits_bounds: "0 < n \<Longrightarrow> 0 < bits n \<and> 2 ^ (bits n - 1) \<le> n \<and> n < 2 ^ bits n"
proof (induction n rule: bits.induct)
  case (1 n)
  show ?case
  proof (cases "n div 2 = 0")
    case True
    with "1.prems" have "n = 1" by auto
    then show ?thesis by (simp add: bits.simps)
  next
    case False
    have "bits n = Suc (bits (n div 2))" using "1.prems" by (subst bits.simps) simp
    with "1.IH" "1.prems" False show ?thesis by (cases "bits (n div 2)") auto
  qed
qed

text \<open>The exponent of the leading binary digit of a positive number.\<close>

definition exponent :: "rat \<Rightarrow> int" where
  "exponent q =
     (case quotient_of q of (n, d) \<Rightarrow>
        let k = int (bits (nat n)) - int (bits (nat d)) in if 2 powi k \<le> q then k else k - 1)"

lemma powi_split: "(2 :: rat) powi (int a - int b) = 2 ^ a / 2 ^ b"
  by (simp add: power_int_diff)

lemma exponent_bounds:
  assumes "0 < q"
  shows "2 powi exponent q \<le> q \<and> q < 2 powi (exponent q + 1)"
proof -
  obtain n d where nd: "quotient_of q = (n, d)" by (cases "quotient_of q")
  have d: "0 < d" using quotient_of_denom_pos [OF nd] .
  have q: "q = of_int n / of_int d" using quotient_of_div [OF nd] .
  with assms d have n: "0 < n" by (simp add: zero_less_divide_iff)
  define a b where "a = bits (nat n)" and "b = bits (nat d)"
  have an: "0 < a" "2 ^ (a - 1) \<le> nat n" "nat n < 2 ^ a" using bits_bounds [of "nat n"] n by (simp_all add: a_def)
  have bd: "0 < b" "2 ^ (b - 1) \<le> nat d" "nat d < 2 ^ b" using bits_bounds [of "nat d"] d by (simp_all add: b_def)
  have "(2 :: rat) ^ (a - 1) \<le> of_nat (nat n)" "of_nat (nat n) < (2 :: rat) ^ a"
    "(2 :: rat) ^ (b - 1) \<le> of_nat (nat d)" "of_nat (nat d) < (2 :: rat) ^ b"
    using an bd by (simp_all flip: of_nat_power_less_of_nat_cancel_iff of_nat_power_le_of_nat_cancel_iff add: of_nat_le_iff)
  then have r: "(2 :: rat) ^ (a - 1) \<le> of_int n" "of_int n < (2 :: rat) ^ a" "(2 :: rat) ^ (b - 1) \<le> of_int d" "of_int d < (2 :: rat) ^ b"
    using n d by simp_all
  let ?k = "int a - int b"
  have up: "q < 2 powi (?k + 1)"
  proof -
    have "q < 2 ^ a / 2 ^ (b - 1)"
      unfolding q using r d n by (intro frac_less) auto
    also have "\<dots> = 2 powi (?k + 1)" using bd(1) powi_split [of a "b - 1"] by (simp add: of_nat_diff algebra_simps)
    finally show ?thesis .
  qed
  have lo: "2 powi (?k - 1) \<le> q"
  proof -
    have "(2 :: rat) powi (?k - 1) = 2 ^ (a - 1) / 2 ^ b" using an(1) powi_split [of "a - 1" b] by (simp add: of_nat_diff algebra_simps)
    also have "\<dots> \<le> q" unfolding q using r d n by (intro frac_le) auto
    finally show ?thesis .
  qed
  show ?thesis
    using up lo by (auto simp: exponent_def nd Let_def a_def [symmetric] b_def [symmetric])
qed

section \<open>Rounding\<close>

definition round_even :: "rat \<Rightarrow> int" where
  "round_even z =
     (let f = \<lfloor>z\<rfloor>; r = z - of_int f
      in if r < 1 / 2 then f else if 1 / 2 < r then f + 1 else if even f then f else f + 1)"

definition fl_pos :: "rat \<Rightarrow> rat" where
  "fl_pos q = (let e = max (- 149) (exponent q - 23) in of_int (round_even (q / 2 powi e)) * 2 powi e)"

definition fl :: "rat \<Rightarrow> rat" where
  "fl q = (if q = 0 then 0 else if q < 0 then - fl_pos (- q) else fl_pos q)"

lemma floor_part: "0 \<le> z - of_int \<lfloor>z :: rat\<rfloor>" "z - of_int \<lfloor>z\<rfloor> < 1"
  using floor_correct [of z] by simp_all

lemma round_even_error: "\<bar>of_int (round_even z) - z\<bar> \<le> 1 / 2"
  using floor_part [of z] by (auto simp: round_even_def Let_def abs_le_iff field_simps)

lemma round_even_le:
  assumes "z \<le> of_int m"
  shows "round_even z \<le> m"
proof -
  have "of_int (round_even z) \<le> z + 1 / 2" using round_even_error [of z] by (simp only: abs_le_iff) linarith
  with assms have "of_int (round_even z) < (of_int (m + 1) :: rat)" by simp
  then show ?thesis by (simp only: of_int_less_iff)
qed

lemma round_even_ge:
  assumes "of_int m \<le> z"
  shows "m \<le> round_even z"
proof -
  have "z - 1 / 2 \<le> of_int (round_even z)" using round_even_error [of z] by (simp only: abs_le_iff) linarith
  with assms have "of_int (m - 1) < (of_int (round_even z) :: rat)" by simp
  then show ?thesis by (simp only: of_int_less_iff)
qed

lemma round_even_int [simp]: "round_even (of_int m) = m"
  by (simp add: round_even_def)

section \<open>The numbers are rounded as promised\<close>

abbreviation fl_exponent :: "rat \<Rightarrow> int" where
  "fl_exponent q \<equiv> max (- 149) (exponent q - 23)"

lemma powi_pos [simp]: "(0 :: rat) < 2 powi k"
  by simp

lemma powi_less_iff: "(2 :: rat) powi j < 2 powi k \<longleftrightarrow> j < k"
proof
  assume "(2 :: rat) powi j < 2 powi k"
  then show "j < k" using power_int_increasing [of k j "2 :: rat"] by (cases "j < k") simp_all
qed (simp add: power_int_strict_increasing)

lemma fl_pos_error:
  assumes "0 < q"
  shows "\<bar>fl_pos q - q\<bar> \<le> 1 / 2 ^ 24 * q + 1 / 2 ^ 150"
proof -
  let ?e = "fl_exponent q"
  let ?s = "(2 :: rat) powi ?e"
  have s: "0 < ?s" by simp
  have "fl_pos q - q = (of_int (round_even (q / ?s)) - q / ?s) * ?s"
    using s by (simp add: fl_pos_def Let_def algebra_simps)
  then have "\<bar>fl_pos q - q\<bar> = \<bar>of_int (round_even (q / ?s)) - q / ?s\<bar> * ?s" using s by (simp add: abs_mult)
  also have "\<dots> \<le> 1 / 2 * ?s" using round_even_error s by (intro mult_right_mono) simp_all
  finally have half: "\<bar>fl_pos q - q\<bar> \<le> ?s / 2" by simp
  show ?thesis
  proof (cases "exponent q - 23 \<le> - 149")
    case True
    then have "?s = 1 / 2 ^ 149" by (simp add: max_def power_int_minus field_simps)
    then have "?s / 2 = 1 / 2 ^ 150" by simp
    with half assms show ?thesis by (simp add: field_simps)
  next
    case False
    then have "?s = 2 powi exponent q / 2 ^ 23" by (simp add: max_def power_int_diff)
    then have "?s / 2 \<le> 1 / 2 ^ 24 * q" using exponent_bounds [OF assms] by simp
    with half show ?thesis by (simp add: field_simps)
  qed
qed

lemma fl_zero [simp]: "fl 0 = 0"
  by (simp add: fl_def)

lemma fl_error: "\<bar>fl q - q\<bar> \<le> 1 / 2 ^ 24 * \<bar>q\<bar> + 1 / 2 ^ 150"
proof (cases q "0 :: rat" rule: linorder_cases)
  case less
  then have "\<bar>fl q - q\<bar> = \<bar>fl_pos (- q) - - q\<bar>" by (simp add: fl_def)
  with fl_pos_error [of "- q"] less show ?thesis by simp
next
  case greater
  with fl_pos_error [of q] show ?thesis by (simp add: fl_def)
qed simp

lemma fl_nonneg: "0 \<le> q \<Longrightarrow> 0 \<le> fl q"
  using round_even_ge [of 0 "q / 2 powi fl_exponent q"] by (simp add: fl_def fl_pos_def Let_def)

lemma exponent_mono: "0 < q \<Longrightarrow> q \<le> z \<Longrightarrow> exponent q \<le> exponent z"
proof -
  assume "0 < q" "q \<le> z"
  with exponent_bounds [of q] exponent_bounds [of z] have "(2 :: rat) powi exponent q < 2 powi (exponent z + 1)" by linarith
  then show ?thesis by (simp only: powi_less_iff)
qed

lemma powi_int: "j \<le> k \<Longrightarrow> (2 :: rat) powi k = of_int (2 ^ nat (k - j)) * 2 powi j"
proof -
  assume "j \<le> k"
  define i where "i = nat (k - j)"
  then have "k = int i + j" using \<open>j \<le> k\<close> by simp
  then have "(2 :: rat) powi k = 2 ^ i * 2 powi j" by (simp add: power_int_add)
  then show ?thesis by (simp add: i_def)
qed

text \<open>A number that is a multiple of its last digit is below a rounded one only together with what it is rounded to.\<close>

lemma fl_stays_below:
  assumes z: "fl z = z" and q: "0 \<le> q" "q \<le> z"
  shows "fl q \<le> z"
proof (cases "q = 0")
  case True
  with q show ?thesis by simp
next
  case False
  with q have pos: "0 < q" "0 < z" by simp_all
  let ?e = "fl_exponent q" and ?d = "fl_exponent z"
  have e: "?e \<le> ?d" using exponent_mono [OF pos(1) q(2)] by linarith
  have "z = of_int (round_even (z / 2 powi ?d)) * 2 powi ?d" using z pos by (simp add: fl_def fl_pos_def Let_def)
  also have "\<dots> = of_int (round_even (z / 2 powi ?d) * 2 ^ nat (?d - ?e)) * 2 powi ?e"
    using powi_int [OF e] by (simp only: of_int_mult mult.assoc)
  finally obtain m where m: "z = of_int m * 2 powi ?e" by blast
  then have "q / 2 powi ?e \<le> of_int m" using q by (simp add: pos_divide_le_eq)
  then have "of_int (round_even (q / 2 powi ?e)) \<le> (of_int m :: rat)" by (simp add: round_even_le)
  then have "of_int (round_even (q / 2 powi ?e)) * 2 powi ?e \<le> z" unfolding m by (intro mult_right_mono) simp_all
  with pos show ?thesis by (simp add: fl_def fl_pos_def Let_def)
qed

text \<open>A number of at most 24 binary digits is not changed.\<close>

lemma fl_exact:
  assumes q: "q = of_int m * 2 powi j" and m: "\<bar>m\<bar> < 2 ^ 24" and j: "- 149 \<le> j"
  shows "fl q = q"
proof -
  have *: "fl_pos (of_int n * 2 powi j) = of_int n * 2 powi j" if n: "0 < n" "n < 2 ^ 24" for n
  proof -
    let ?q = "of_int n * (2 :: rat) powi j"
    let ?e = "fl_exponent ?q"
    have "0 < ?q" using n by simp
    then have "2 powi exponent ?q \<le> ?q" using exponent_bounds by blast
    also have "(of_int n :: rat) < of_int (2 ^ 24)" using n by (simp only: of_int_less_iff)
    then have "?q < 2 ^ 24 * 2 powi j" by (intro mult_strict_right_mono) simp_all
    also have "\<dots> = 2 powi (24 + j)" by (simp add: power_int_add)
    finally have "exponent ?q < 24 + j" by (simp only: powi_less_iff)
    with j have "?e \<le> j" by simp
    have "?q = of_int (n * 2 ^ nat (j - ?e)) * 2 powi ?e"
      using powi_int [OF \<open>?e \<le> j\<close>] by (simp only: of_int_mult mult.assoc)
    then have "?q / 2 powi ?e = of_int (n * 2 ^ nat (j - ?e))" by (simp only: eq_divide_eq divide_eq_eq) simp
    then have "round_even (?q / 2 powi ?e) = n * 2 ^ nat (j - ?e)" by (simp only: round_even_int)
    then show ?thesis using powi_int [OF \<open>?e \<le> j\<close>] by (simp add: fl_pos_def Let_def)
  qed
  have pos: "fl (of_int n * 2 powi j) = of_int n * 2 powi j" if "0 < n" "n < 2 ^ 24" for n
  proof -
    have "0 < of_int n * (2 :: rat) powi j" using that by simp
    with * [OF that] show ?thesis by (simp add: fl_def)
  qed
  show ?thesis
  proof (cases m "0 :: int" rule: linorder_cases)
    case less
    then have neg: "q < 0" "- q = of_int (- m) * 2 powi j" by (simp_all add: q mult_neg_pos)
    then have "fl_pos (- q) = - q" using * [of "- m"] less m by simp
    with neg show ?thesis by (simp add: fl_def)
  next
    case greater
    with pos m show ?thesis by (simp add: q)
  qed (simp add: q)
qed

lemma fl_one: "fl 1 = 1"
  by (rule fl_exact [of 1 1 0]) simp_all

lemma fl_half: "fl (1 / 2) = 1 / 2"
  by (rule fl_exact [of "1 / 2" 1 "- 1"]) (simp_all add: power_int_minus)

lemma fl_int: "\<bar>m\<bar> < 2 ^ 24 \<Longrightarrow> fl (of_int m) = of_int m"
  by (rule fl_exact [of _ m 0]) simp_all

interpretation single: rounding fl "1 / 2 ^ 24" "1 / 2 ^ 150"
proof unfold_locales
  show "\<bar>fl q - q\<bar> \<le> 1 / 2 ^ 24 * \<bar>q\<bar> + 1 / 2 ^ 150" for q by (rule fl_error)
qed (simp_all add: fl_nonneg fl_stays_below fl_one)

end
