(* ===== verification/PyxelFit.thy ===== *)
theory PyxelFit
  imports ServiceLib Binary32
begin

text \<open>
  The display layer preloaded for Pyxel games (\<open>package/pyxel-bubble/plumos_pyxel_fit.c\<close>): it makes every context an OpenGL ES 2 one and
  scales a picture that is larger than the panel down to it. The functions of SDL and GLES it wraps are there (their lookups succeed)
  and are what the calls below go to. Its \<open>float\<close>s are the rationals they stand for, and every operation on them is rounded as IEEE 754 does it
  (theory Binary32); the numbers that reach it are small enough not to overflow.
\<close>

section \<open>Its state\<close>

definition MAX_PROGRAMS :: nat where "MAX_PROGRAMS = 32"

record program_state =
  ps_program :: nat
  ps_screen_pos :: int
  ps_screen_size :: int
  ps_screen_scale :: int
  ps_has_source_size :: bool
  ps_screen_x :: rat
  ps_screen_y :: rat
  ps_fit_factor :: rat

definition zero_program :: program_state where
  "zero_program = \<lparr>ps_program = 0, ps_screen_pos = 0, ps_screen_size = 0, ps_screen_scale = 0, ps_has_source_size = False,
     ps_screen_x = 0, ps_screen_y = 0, ps_fit_factor = 0\<rparr>"

record pyxel =
  px_programs :: "program_state list"
  px_current_program :: nat
  px_fit_enabled :: bool
  px_output_width :: rat
  px_output_height :: rat

text \<open>The configuration. \<open>strtof\<close> gives the number at the head of a text and how many characters it takes.\<close>

definition env_enabled :: "os \<Rightarrow> string \<Rightarrow> bool \<Rightarrow> bool" where
  "env_enabled w name d =
     (case os_getenv w name of
        None \<Rightarrow> d
      | Some v \<Rightarrow> if v = [] then d
          else v \<noteq> ''0'' \<and> lower_string v \<noteq> ''false'' \<and> lower_string v \<noteq> ''no'')"

definition env_dimension :: "(string \<Rightarrow> rat \<times> nat) \<Rightarrow> os \<Rightarrow> string \<Rightarrow> rat \<Rightarrow> rat" where
  "env_dimension strtof w name d =
     (case os_getenv w name of
        None \<Rightarrow> d
      | Some v \<Rightarrow> if v = [] then d else (case strtof v of (parsed, n) \<Rightarrow> if n \<noteq> 0 \<and> 0 < parsed then parsed else d))"

definition init_config :: "(string \<Rightarrow> rat \<times> nat) \<Rightarrow> os \<Rightarrow> pyxel" where
  "init_config strtof w =
     \<lparr>px_programs = replicate MAX_PROGRAMS zero_program, px_current_program = 0,
      px_fit_enabled = env_enabled w ''PLUMOS_PYXEL_FIT'' True,
      px_output_width = env_dimension strtof w ''PLUMOS_PYXEL_FIT_WIDTH'' 640,
      px_output_height = env_dimension strtof w ''PLUMOS_PYXEL_FIT_HEIGHT'' 480\<rparr>"

section \<open>Contexts\<close>

definition SDL_GL_CONTEXT_MAJOR_VERSION :: int where "SDL_GL_CONTEXT_MAJOR_VERSION = 17"
definition SDL_GL_CONTEXT_MINOR_VERSION :: int where "SDL_GL_CONTEXT_MINOR_VERSION = 18"
definition SDL_GL_CONTEXT_EGL :: int where "SDL_GL_CONTEXT_EGL = 19"
definition SDL_GL_CONTEXT_PROFILE_MASK :: int where "SDL_GL_CONTEXT_PROFILE_MASK = 21"
definition SDL_GL_CONTEXT_PROFILE_ES :: int where "SDL_GL_CONTEXT_PROFILE_ES = 4"

text \<open>A context that is created is made current at once.\<close>

datatype sdl_call = SetAttribute int int | CreateWindow | CreateContext bool | MakeCurrent

definition force_gles2_attributes :: "sdl_call list" where
  "force_gles2_attributes =
     [SetAttribute SDL_GL_CONTEXT_PROFILE_MASK SDL_GL_CONTEXT_PROFILE_ES, SetAttribute SDL_GL_CONTEXT_MAJOR_VERSION 2,
      SetAttribute SDL_GL_CONTEXT_MINOR_VERSION 0, SetAttribute SDL_GL_CONTEXT_EGL 1]"

definition SDL_GL_SetAttribute :: "int \<Rightarrow> int \<Rightarrow> sdl_call" where
  "SDL_GL_SetAttribute attr value =
     SetAttribute attr
       (if attr = SDL_GL_CONTEXT_PROFILE_MASK then SDL_GL_CONTEXT_PROFILE_ES
        else if attr = SDL_GL_CONTEXT_MAJOR_VERSION then 2
        else if attr = SDL_GL_CONTEXT_MINOR_VERSION then 0
        else if attr = SDL_GL_CONTEXT_EGL then 1
        else value)"

text \<open>What the program calls, and what reaches SDL.\<close>

fun sdl_forward :: "sdl_call \<Rightarrow> sdl_call list" where
  "sdl_forward (SetAttribute attr value) = [SDL_GL_SetAttribute attr value]"
| "sdl_forward CreateWindow = force_gles2_attributes @ [CreateWindow]"
| "sdl_forward (CreateContext created) = force_gles2_attributes @ [CreateContext created] @ (if created then [MakeCurrent] else [])"
| "sdl_forward MakeCurrent = [MakeCurrent]"

section \<open>Programs and their uniforms\<close>

text \<open>The index of the slot: the one of the program, else the first free one if it may be created.\<close>

fun slot_of :: "program_state list \<Rightarrow> nat \<Rightarrow> nat option" where
  "slot_of [] program = None"
| "slot_of (p # ps) program = (if ps_program p = program then Some 0 else map_option Suc (slot_of ps program))"

definition find_program :: "pyxel \<Rightarrow> nat \<Rightarrow> bool \<Rightarrow> nat option \<times> pyxel" where
  "find_program px program create =
     (case slot_of (px_programs px) program of
        Some i \<Rightarrow> (Some i, px)
      | None \<Rightarrow>
          if \<not> create \<or> slot_of (px_programs px) 0 = None \<or> program = 0 then (None, px)
          else let i = the (slot_of (px_programs px) 0) in
            (Some i, px\<lparr>px_programs := (px_programs px)[i := (px_programs px ! i)
               \<lparr>ps_program := program, ps_screen_pos := - 1, ps_screen_size := - 1, ps_screen_scale := - 1\<rparr>]\<rparr>))"

datatype gl_call = UseProgram nat | Uniform1f int rat | Uniform2f int rat rat

definition fit_gl_use_program :: "pyxel \<Rightarrow> nat \<Rightarrow> pyxel \<times> gl_call list" where
  "fit_gl_use_program px program = (px\<lparr>px_current_program := program\<rparr>, [UseProgram program])"

text \<open>\<open>location\<close> is what GLES answers for the name.\<close>

definition fit_gl_get_uniform_location :: "pyxel \<Rightarrow> nat \<Rightarrow> string \<Rightarrow> int \<Rightarrow> int \<times> pyxel" where
  "fit_gl_get_uniform_location px program name location =
     (if location < 0 then (location, px)
      else case find_program px program True of
        (None, px1) \<Rightarrow> (location, px1)
      | (Some i, px1) \<Rightarrow>
          let p = px_programs px1 ! i;
              p1 = (if name = ''u_screenPos'' then p\<lparr>ps_screen_pos := location\<rparr>
                    else if name = ''u_screenSize'' then p\<lparr>ps_screen_size := location\<rparr>
                    else if name = ''u_screenScale'' then p\<lparr>ps_screen_scale := location\<rparr>
                    else p)
          in (location, px1\<lparr>px_programs := (px_programs px1)[i := p1]\<rparr>))"

definition fit_factor :: "pyxel \<Rightarrow> rat \<Rightarrow> rat \<Rightarrow> rat" where
  "fit_factor px x y =
     (let factor = (if px_output_width px < x then fl (px_output_width px / x) else 1)
      in if px_output_height px < fl (y * factor) then fl (px_output_height px / y) else factor)"

definition shrinks :: "rat \<Rightarrow> bool" where
  "shrinks factor \<longleftrightarrow> factor < fl (1 - fl (1 / 10000))"

definition fit_gl_uniform_2f :: "pyxel \<Rightarrow> int \<Rightarrow> rat \<Rightarrow> rat \<Rightarrow> pyxel \<times> gl_call list" where
  "fit_gl_uniform_2f px location x y =
     (case fst (find_program px (px_current_program px) False) of
        None \<Rightarrow> (px, [Uniform2f location x y])
      | Some i \<Rightarrow>
          let p = px_programs px ! i;
              p1 = (if location = ps_screen_pos p then p\<lparr>ps_screen_x := x, ps_screen_y := y\<rparr> else p)
          in if px_fit_enabled px \<and> location = ps_screen_size p1 then
               let factor = fit_factor px x y;
                   p2 = p1\<lparr>ps_has_source_size := True, ps_fit_factor := factor\<rparr>;
                   w = fl (x * factor); h = fl (y * factor);
                   fx = (if shrinks factor then fl (fl (px_output_width px - w) * (1 / 2)) else ps_screen_x p2);
                   fy = (if shrinks factor then fl (fl (px_output_height px - h) * (1 / 2)) else ps_screen_y p2)
               in (px\<lparr>px_programs := (px_programs px)[i := p2]\<rparr>,
                   if shrinks factor \<and> 0 \<le> ps_screen_pos p2
                   then [Uniform2f (ps_screen_pos p2) fx fy, Uniform2f location w h]
                   else [Uniform2f location x y])
             else (px\<lparr>px_programs := (px_programs px)[i := p1]\<rparr>, [Uniform2f location x y]))"

definition fit_gl_uniform_1f :: "pyxel \<Rightarrow> int \<Rightarrow> rat \<Rightarrow> pyxel \<times> gl_call list" where
  "fit_gl_uniform_1f px location value =
     (case fst (find_program px (px_current_program px) False) of
        None \<Rightarrow> (px, [Uniform1f location value])
      | Some i \<Rightarrow>
          let p = px_programs px ! i in
          if \<not> px_fit_enabled px \<or> location \<noteq> ps_screen_scale p \<or> \<not> ps_has_source_size p \<or> \<not> shrinks (ps_fit_factor p) \<or>
              ps_fit_factor p \<le> 0 \<or> value \<le> 0
          then (px, [Uniform1f location value])
          else (px, [Uniform1f location (fl (value * ps_fit_factor p))]))"

section \<open>The table of functions\<close>

text \<open>The address the program gets for a name: one of the wrappers, or what GLES or SDL have under the name.\<close>

datatype gl_address = Fit_use_program | Fit_get_uniform_location | Fit_uniform_1f | Fit_uniform_2f | Real "nat option"

definition SDL_GL_GetProcAddress :: "(string \<Rightarrow> nat option) \<Rightarrow> (string \<Rightarrow> nat option) \<Rightarrow> pyxel \<Rightarrow> string \<Rightarrow> gl_address" where
  "SDL_GL_GetProcAddress gles sdl px name =
     (let address = (case gles name of None \<Rightarrow> sdl name | a \<Rightarrow> a) in
      if \<not> px_fit_enabled px then Real address
      else if name = ''glUseProgram'' then Fit_use_program
      else if name = ''glGetUniformLocation'' then Fit_get_uniform_location
      else if name = ''glUniform1f'' then Fit_uniform_1f
      else if name = ''glUniform2f'' then Fit_uniform_2f
      else Real address)"

section \<open>Counting frames\<close>

record frame_stats =
  fr_enabled :: "bool option"
  fr_swaps :: nat
  fr_started :: rat

text \<open>The line it prints: swaps and seconds.\<close>

definition SDL_GL_SwapWindow :: "bool \<Rightarrow> rat \<Rightarrow> frame_stats \<Rightarrow> frame_stats \<times> (nat \<times> rat) option" where
  "SDL_GL_SwapWindow wanted now fr =
     (let fr1 = (case fr_enabled fr of
            None \<Rightarrow> if wanted then fr\<lparr>fr_enabled := Some True, fr_started := now\<rparr> else fr\<lparr>fr_enabled := Some False\<rparr>
          | Some _ \<Rightarrow> fr)
      in if fr_enabled fr1 \<noteq> Some True then (fr1, None)
         else let swaps = fr_swaps fr1 + 1; elapsed = now - fr_started fr1 in
           if 5 \<le> elapsed then (fr1\<lparr>fr_swaps := 0, fr_started := now\<rparr>, Some (swaps, elapsed))
           else (fr1\<lparr>fr_swaps := swaps\<rparr>, None))"

end
