(* ===== verification/PyxelFitProofs.thy ===== *)
theory PyxelFitProofs
  imports PyxelFit
begin

text \<open>
  What the display layer for Pyxel guarantees: a large picture is scaled to fit, with its shape and in the middle, and the uniforms of
  different programs are kept apart.
\<close>

section \<open>Fitting\<close>

text \<open>Sizes a screen or a picture can have.\<close>

definition a_size :: "rat \<Rightarrow> bool" where
  "a_size q \<longleftrightarrow> 1 \<le> q \<and> q \<le> 2 ^ 24"

lemma size_quotient:
  assumes "a_size p" "a_size q"
  shows "1 / 2 ^ 24 \<le> p / q"
proof -
  have "1 / 2 ^ 24 \<le> 1 / q" using assms by (intro frac_le) (simp_all add: a_size_def)
  also have "\<dots> \<le> p / q" using assms by (intro divide_right_mono) (simp_all add: a_size_def)
  finally show ?thesis .
qed

lemma size_product:
  assumes "a_size p" "1 / 2 ^ 25 \<le> q"
  shows "1 / 2 ^ 60 \<le> p * q"
proof -
  have "1 / 2 ^ 60 \<le> (1 :: rat) * (1 / 2 ^ 25)" by simp
  also have "\<dots> \<le> p * q" using assms by (intro mult_mono) (simp_all add: a_size_def)
  finally show ?thesis .
qed

text \<open>Four factors of the rounding error.\<close>

lemma four_errors:
  assumes "0 \<le> e" "e \<le> 1 / 100"
  shows "(1 + e) ^ 4 \<le> 1 + 8 * (e :: rat)"
proof -
  have two: "(1 + e) ^ 2 \<le> 1 + 5 / 2 * e"
  proof -
    have "e * e \<le> 1 / 100 * e" using assms by (intro mult_right_mono)
    then show ?thesis using assms by (simp add: power2_eq_square algebra_simps)
  qed
  have "(1 + e) ^ 4 = ((1 + e) ^ 2) ^ 2" by simp
  also have "\<dots> \<le> (1 + 5 / 2 * e) ^ 2" using two by (intro power_mono) simp_all
  also have "\<dots> \<le> 1 + 8 * e"
  proof -
    have "e * e \<le> 1 / 100 * e" using assms by (intro mult_right_mono)
    then show ?thesis using assms by (simp add: power2_eq_square algebra_simps)
  qed
  finally show ?thesis .
qed

text \<open>The scale and the scaled sizes: not larger than the panel, and as large as it in one direction, but for \<open>16 * u\<close> of it.\<close>

context rounding
begin

lemma scaled_quotient:
  assumes "a_size p" "a_size q"
  shows "1 / 2 ^ 25 \<le> rd (p / q)" "q * rd (p / q) \<le> p * (1 + 2 * u)" "p * (1 - 2 * u) \<le> q * rd (p / q)"
proof -
  have q: "1 / 2 ^ 24 \<le> p / q" "0 < q" using size_quotient [OF assms] assms by (simp_all add: a_size_def)
  then have big: "1 / 2 ^ 60 \<le> p / q" by (rule_tac order_trans [OF _ q(1)]) simp
  have "1 / 2 ^ 25 \<le> 1 / 2 ^ 24 * (1 - 2 * u)" using u_small by simp
  also have "\<dots> \<le> p / q * (1 - 2 * u)" using q(1) u_small by (intro mult_right_mono) simp_all
  finally show "1 / 2 ^ 25 \<le> rd (p / q)" using lower [OF big] by (rule order_trans)
  show "q * rd (p / q) \<le> p * (1 + 2 * u)" "p * (1 - 2 * u) \<le> q * rd (p / q)"
    using mult_left_mono [OF upper [OF big], of q] mult_left_mono [OF lower [OF big], of q] q(2) by simp_all
qed

text \<open>The scale that makes the width fit, and the one that makes both fit.\<close>

lemma width_scale:
  assumes W: "a_size W" and x: "a_size x" and g: "g = (if W < x then rd (W / x) else 1)"
  shows "1 / 2 ^ 25 \<le> g" "g \<le> 1" "x * g \<le> W * (1 + 2 * u)" "W < x \<Longrightarrow> W * (1 - 2 * u) \<le> x * g"
proof -
  have "0 < W" "0 < x" using W x by (simp_all add: a_size_def)
  then have "W < x \<Longrightarrow> rd (W / x) \<le> 1" by (intro below_one) simp_all
  moreover have "W \<le> W * (1 + 2 * u)" using \<open>0 < W\<close> u_pos by simp
  ultimately show "1 / 2 ^ 25 \<le> g" "g \<le> 1" "x * g \<le> W * (1 + 2 * u)" "W < x \<Longrightarrow> W * (1 - 2 * u) \<le> x * g"
    using scaled_quotient [OF W x] by (simp_all add: g)
qed

lemma scale_bounds:
  assumes W: "a_size W" and H: "a_size H" and x: "a_size x" and y: "a_size y" "rd y = y"
    and g: "g = (if W < x then rd (W / x) else 1)" and f: "f = (if H < rd (y * g) then rd (H / y) else g)"
  shows "1 / 2 ^ 25 \<le> f \<and> f \<le> 1 \<and> x * f \<le> W * (1 + 2 * u) ^ 3 \<and> y * f \<le> H * (1 + 2 * u) ^ 3 \<and> rd (y * f) \<le> H * (1 + 2 * u) ^ 2 \<and>
    (x \<le> W \<longrightarrow> y \<le> H \<longrightarrow> f = 1) \<and> (f = 1 \<and> x \<le> W \<and> y \<le> H \<or> W * (1 - 2 * u) \<le> x * f \<or> H * (1 - 2 * u) \<le> y * f)"
proof -
  define e where "e = 2 * u"
  have e: "0 < e" "e \<le> 1 / 5000000" using u_pos u_small by (simp_all add: e_def)
  note w = width_scale [OF W x g, folded e_def]
  have pos: "0 < W" "0 < H" "0 < x" "0 < y" "0 < g" using W H x y w(1) by (auto simp: a_size_def intro: less_le_trans)
  have up: "1 \<le> 1 + e" "1 \<le> (1 + e) ^ 2" using e by (simp_all add: one_le_power)
  note yg = size_product [OF y(1) w(1)]
  have le_y: "rd (y * g) \<le> y" using stays_below [OF y(2), of "y * g"] pos w(2) by (simp add: mult_le_cancel_left2)
  show ?thesis
  proof (cases "H < rd (y * g)")
    case False
    then have f: "f = g" using f by simp
    have "y * g * (1 - e) \<le> H" using lower [OF yg] False by (simp add: e_def)
    then have "y * g * (1 - e) * (1 + e) ^ 2 \<le> H * (1 + e) ^ 2" by (rule mult_right_mono) simp
    moreover have "y * g * 1 \<le> y * g * ((1 - e) * (1 + e) ^ 2)"
    proof (intro mult_left_mono)
      have ee: "e * e \<le> 1 / 4 * e" using e by (intro mult_right_mono) simp_all
      then have "e * e \<le> 1 / 4" using e by linarith
      then have "e * e * e \<le> 1 / 4 * e" using e by (intro mult_right_mono) simp_all
      with ee have "e * e + e * e * e \<le> e" using e by linarith
      then show "1 \<le> (1 - e) * (1 + e) ^ 2" by (simp add: power2_eq_square algebra_simps)
    qed (use pos in simp)
    ultimately have yf: "y * g \<le> H * (1 + e) ^ 2" by (simp only: mult.assoc mult_1_right)
    have "H * (1 + e) ^ 2 \<le> H * (1 + e) ^ 3" "W * (1 + e) \<le> W * (1 + e) ^ 3" "H \<le> H * (1 + e) ^ 2"
      using pos up power_increasing [of 2 3 "1 + e"] power_increasing [of 1 3 "1 + e"] by simp_all
    then have "y * f \<le> H * (1 + e) ^ 3" "x * f \<le> W * (1 + e) ^ 3" "rd (y * f) \<le> H * (1 + e) ^ 2"
      unfolding f using yf w(3) False by linarith+
    moreover have "x \<le> W \<longrightarrow> y \<le> H \<longrightarrow> f = 1" using f g by simp
    moreover have "f = 1 \<and> x \<le> W \<and> y \<le> H \<or> W * (1 - e) \<le> x * f \<or> H * (1 - e) \<le> y * f"
      using w(4) False f g y(2) by (cases "W < x") simp_all
    ultimately have "y * f \<le> H * (1 + e) ^ 3 \<and> x * f \<le> W * (1 + e) ^ 3 \<and> rd (y * f) \<le> H * (1 + e) ^ 2 \<and>
        (x \<le> W \<longrightarrow> y \<le> H \<longrightarrow> f = 1) \<and>
        (f = 1 \<and> x \<le> W \<and> y \<le> H \<or> W * (1 - e) \<le> x * f \<or> H * (1 - e) \<le> y * f)" by blast
    with f w(1,2) show ?thesis by (simp add: e_def)
  next
    case True
    then have f: "f = rd (H / y)" using f by simp
    note q = scaled_quotient [OF H y(1), folded e_def, folded f]
    have "H < y" using True le_y by simp
    then have f1: "f \<le> 1" unfolding f using pos by (intro below_one) simp_all
    have "rd (y * f) \<le> y * f * (1 + e)" using upper [OF size_product [OF y(1) q(1)]] by (simp add: e_def)
    also have "\<dots> \<le> H * (1 + e) * (1 + e)" using q(2) e by (intro mult_right_mono) simp_all
    finally have h: "rd (y * f) \<le> H * (1 + e) ^ 2" by (simp add: power2_eq_square mult.assoc)
    have "y * f \<le> H * (1 + e)" by (rule q(2))
    also have "\<dots> \<le> y * g * (1 + e) * (1 + e)" using True upper [OF yg] e by (intro mult_right_mono) (simp_all add: e_def)
    finally have "y * f \<le> y * (g * (1 + e) ^ 2)" by (simp add: power2_eq_square mult.assoc)
    then have "f \<le> g * (1 + e) ^ 2" using pos by simp
    then have "x * f \<le> x * (g * (1 + e) ^ 2)" using pos by simp
    also have "\<dots> \<le> W * (1 + e) * (1 + e) ^ 2" using mult_right_mono [OF w(3), of "(1 + e) ^ 2"] by (simp add: mult.assoc)
    finally have "x * f \<le> W * (1 + e) ^ 3" by (simp add: power3_eq_cube power2_eq_square mult.assoc)
    moreover have "y * f \<le> H * (1 + e) ^ 3"
      using q(2) mult_left_mono [of "1 + e" "(1 + e) ^ 3" H] power_increasing [of 1 3 "1 + e"] up pos
      by (metis less_imp_le order_trans power_one_right one_le_numeral)
    ultimately show ?thesis using f1 h q(1,3) \<open>H < y\<close> by (simp add: e_def)
  qed
qed

text \<open>What the panel gets.\<close>

lemma fitted:
  assumes W: "a_size W" and H: "a_size H" and x: "a_size x" and y: "a_size y" "rd y = y"
    and g: "g = (if W < x then rd (W / x) else 1)" and f: "f = (if H < rd (y * g) then rd (H / y) else g)"
  shows "rd (x * f) \<le> W * (1 + 16 * u)" "rd (y * f) \<le> H * (1 + 16 * u)"
    "f = 1 \<and> x \<le> W \<and> y \<le> H \<or> W * (1 - 16 * u) \<le> rd (x * f) \<or> H * (1 - 16 * u) \<le> rd (y * f)"
    "\<bar>rd (x * f) * y - rd (y * f) * x\<bar> \<le> 16 * u * (x * y * f)"
    "x * f \<le> W * (1 + 16 * u)" "y * f \<le> H * (1 + 16 * u)"
proof -
  define e where "e = 2 * u"
  have e: "0 < e" "e \<le> 1 / 5000000" using u_pos u_small by (simp_all add: e_def)
  have b: "1 / 2 ^ 25 \<le> f" "x * f \<le> W * (1 + e) ^ 3" "y * f \<le> H * (1 + e) ^ 3" "rd (y * f) \<le> H * (1 + e) ^ 2"
    "f = 1 \<and> x \<le> W \<and> y \<le> H \<or> W * (1 - e) \<le> x * f \<or> H * (1 - e) \<le> y * f"
    using scale_bounds [OF assms, folded e_def] by blast+
  have pos: "0 < W" "0 < H" "0 < x" "0 < y" using W H x y by (simp_all add: a_size_def)
  have four: "c * (1 + e) ^ n \<le> c * (1 + 16 * u)" if "0 < c" "n \<le> 4" for c n
  proof -
    have "(1 + e) ^ n \<le> (1 + e) ^ 4" using e that by (intro power_increasing) simp_all
    also have "\<dots> \<le> 1 + 16 * u" using four_errors [of e] e by (simp add: e_def)
    finally show ?thesis using that by simp
  qed
  have low: "c * (1 - 16 * u) \<le> c * (1 - e) * (1 - e)" if "0 < c" for c
  proof -
    have "1 - 16 * u \<le> (1 - e) * (1 - e)" using e by (simp add: e_def algebra_simps)
    with that show ?thesis by (simp add: mult.assoc)
  qed
  note xf = size_product [OF x b(1)] and yf = size_product [OF y(1) b(1)]
  have "rd (x * f) \<le> x * f * (1 + e)" using upper [OF xf] by (simp add: e_def)
  also have "\<dots> \<le> W * (1 + e) ^ 3 * (1 + e)" using b(2) e by (intro mult_right_mono) simp_all
  also have "\<dots> = W * (1 + e) ^ 4" by (simp add: eval_nat_numeral)
  finally show "rd (x * f) \<le> W * (1 + 16 * u)" using four [OF pos(1), of 4] by simp
  show "rd (y * f) \<le> H * (1 + 16 * u)" using b(4) four [OF pos(2), of 2] by simp
  show "x * f \<le> W * (1 + 16 * u)" "y * f \<le> H * (1 + 16 * u)" using b(2,3) four [OF pos(1), of 3] four [OF pos(2), of 3] by simp_all
  have "W * (1 - e) * (1 - e) \<le> rd (x * f)" if "W * (1 - e) \<le> x * f"
  proof -
    have "W * (1 - e) * (1 - e) \<le> x * f * (1 - e)" using that e by (intro mult_right_mono) simp_all
    also have "\<dots> \<le> rd (x * f)" using lower [OF xf] by (simp add: e_def)
    finally show ?thesis .
  qed
  moreover have "H * (1 - e) * (1 - e) \<le> rd (y * f)" if "H * (1 - e) \<le> y * f"
  proof -
    have "H * (1 - e) * (1 - e) \<le> y * f * (1 - e)" using that e by (intro mult_right_mono) simp_all
    also have "\<dots> \<le> rd (y * f)" using lower [OF yf] by (simp add: e_def)
    finally show ?thesis .
  qed
  ultimately show "f = 1 \<and> x \<le> W \<and> y \<le> H \<or> W * (1 - 16 * u) \<le> rd (x * f) \<or> H * (1 - 16 * u) \<le> rd (y * f)"
    using b(5) low [OF pos(1)] low [OF pos(2)] by (meson order_trans)
  have "\<bar>rd (x * f) - x * f\<bar> * y \<le> e * (x * f) * y" "\<bar>rd (y * f) - y * f\<bar> * x \<le> e * (y * f) * x"
    using relative_error [OF xf] relative_error [OF yf] pos by (auto simp: e_def intro!: mult_right_mono)
  then have "\<bar>(rd (x * f) - x * f) * y\<bar> \<le> e * (x * y * f)" "\<bar>(rd (y * f) - y * f) * x\<bar> \<le> e * (x * y * f)"
    using pos by (simp_all add: abs_mult mult_ac)
  moreover have "rd (x * f) * y - rd (y * f) * x = (rd (x * f) - x * f) * y - (rd (y * f) - y * f) * x" by (simp add: algebra_simps)
  ultimately have "\<bar>rd (x * f) * y - rd (y * f) * x\<bar> \<le> 2 * (e * (x * y * f))" by (simp only: abs_le_iff) linarith
  also have "\<dots> \<le> 16 * u * (x * y * f)"
  proof -
    have "0 \<le> f" by (rule order_trans [OF _ b(1)]) simp
    then have "0 \<le> u * (x * y * f)" using pos u_pos by simp
    moreover have "0 \<le> u * p \<Longrightarrow> 2 * (2 * u * p) \<le> 16 * u * p" for p by (simp only: mult.assoc)
    ultimately show ?thesis by (simp only: e_def)
  qed
  finally show "\<bar>rd (x * f) * y - rd (y * f) * x\<bar> \<le> 16 * u * (x * y * f)" .
qed

lemma centred:
  assumes "a_size W" "0 \<le> w" "w \<le> W * (1 + 16 * u)"
  shows "\<bar>2 * rd (rd (W - w) * (1 / 2)) + w - W\<bar> \<le> 16 * u * W"
proof -
  have W: "1 \<le> W" using assms by (simp add: a_size_def)
  have "W * (16 * u) \<le> W * 1" using W u_small by (intro mult_left_mono) simp_all
  then have d: "\<bar>W - w\<bar> \<le> W" using assms by (simp add: abs_le_iff algebra_simps)
  have "u * 1 \<le> u * W" using W u_pos by (intro mult_left_mono) simp_all
  with t_tiny have "t * 2 ^ 60 \<le> u * W" by linarith
  then have t: "t * 2 ^ 60 \<le> u * W" "0 < t" using t_pos by simp_all
  have "t * 1 \<le> t * 2 ^ 60" using t_pos by (intro mult_left_mono) simp_all
  then have tW: "t \<le> u * W" using t(1) by linarith
  have "u * \<bar>W - w\<bar> \<le> u * W" using d u_pos by (intro mult_left_mono) simp_all
  then have a: "\<bar>rd (W - w) - (W - w)\<bar> \<le> u * W + t" using error [of "W - w"] by linarith
  have "u * W \<le> 1 / 10000000 * W" using u_small W by (intro mult_right_mono) simp_all
  then have "\<bar>rd (W - w)\<bar> \<le> 2 * W" using a d tW W by (intro abs_leI) (simp only: abs_le_iff; linarith)+
  then have "u * \<bar>rd (W - w) * (1 / 2)\<bar> \<le> u * W" using u_pos by (intro mult_left_mono) (simp_all add: abs_mult)
  then have "\<bar>rd (rd (W - w) * (1 / 2)) - rd (W - w) * (1 / 2)\<bar> \<le> u * W + t" using error [of "rd (W - w) * (1 / 2)"] by linarith
  with a tW t(2) show ?thesis by (intro abs_leI) (simp only: abs_le_iff; linarith)+
qed

text \<open>The scale from which on nothing is done.\<close>

lemma threshold: "99989 / 100000 \<le> rd (1 - rd (1 / 10000))" "rd (1 - rd (1 / 10000)) \<le> 1"
proof -
  have t: "t \<le> 1 / 10000000" using t_tiny u_small t_pos by simp
  have a: "\<bar>rd (1 / 10000) - 1 / 10000\<bar> \<le> u * (1 / 10000) + t" using error [of "1 / 10000"] by simp
  have one: "0 \<le> 1 - rd (1 / 10000)" "1 - rd (1 / 10000) \<le> 1" using below_one [of "1 / 10000"] nonneg [of "1 / 10000"] by simp_all
  have "u * \<bar>1 - rd (1 / 10000)\<bar> \<le> u * 1" using one u_pos by (intro mult_left_mono) simp_all
  then have "\<bar>rd (1 - rd (1 / 10000)) - (1 - rd (1 / 10000))\<bar> \<le> u + t" using error [of "1 - rd (1 / 10000)"] by linarith
  with a t u_small show "99989 / 100000 \<le> rd (1 - rd (1 / 10000))" by linarith
  show "rd (1 - rd (1 / 10000)) \<le> 1" using one by (rule below_one)
qed

end

text \<open>
  A picture of size \<open>x\<close> and \<open>y\<close> shown with scale \<open>f\<close> at size \<open>w\<close> and \<open>h\<close> on a panel of size \<open>W\<close> and \<open>H\<close>: it does not exceed the panel, fills
  it in one direction and has kept its shape, up to a millionth.
\<close>

definition fits :: "rat \<Rightarrow> rat \<Rightarrow> rat \<Rightarrow> rat \<Rightarrow> rat \<Rightarrow> rat \<Rightarrow> rat \<Rightarrow> bool" where
  "fits W H x y f w h \<longleftrightarrow> 0 < f \<and> f \<le> 1 \<and> w \<le> W * (1 + 1 / 2 ^ 20) \<and> h \<le> H * (1 + 1 / 2 ^ 20) \<and>
     (W * (1 - 1 / 2 ^ 20) \<le> w \<or> H * (1 - 1 / 2 ^ 20) \<le> h) \<and> \<bar>w * y - h * x\<bar> \<le> 1 / 2 ^ 20 * (x * y * f)"

definition in_the_middle :: "rat \<Rightarrow> rat \<Rightarrow> rat \<Rightarrow> bool" where
  "in_the_middle W w X \<longleftrightarrow> \<bar>2 * X + w - W\<bar> \<le> 1 / 2 ^ 20 * W"

lemma shrinking_fits:
  assumes "a_size (px_output_width px)" "a_size (px_output_height px)" "a_size x" "a_size y" "fl y = y"
    and f: "f = fit_factor px x y" and "shrinks f"
  shows "fits (px_output_width px) (px_output_height px) x y f (fl (x * f)) (fl (y * f))"
proof -
  have f': "f = (let g = (if px_output_width px < x then fl (px_output_width px / x) else 1)
      in if px_output_height px < fl (y * g) then fl (px_output_height px / y) else g)"
    by (simp add: f fit_factor_def Let_def)
  note b = single.scale_bounds [OF assms(1-5) refl f' [unfolded Let_def]]
  note r = single.fitted [OF assms(1-5) refl f' [unfolded Let_def]]
  have "0 < f" by (rule less_le_trans [OF _ conjunct1 [OF b]]) simp
  moreover have "f \<noteq> 1" using \<open>shrinks f\<close> single.threshold(2) by (auto simp: shrinks_def)
  moreover have "f \<le> 1" using b by blast
  moreover have "16 * (1 / 2 ^ 24) = (1 / 2 ^ 20 :: rat)" by simp
  note r [unfolded this]
  ultimately show ?thesis unfolding fits_def by blast
qed

lemma unchanged_fits:
  assumes "a_size (px_output_width px)" "a_size (px_output_height px)" "a_size x" "a_size y" "fl y = y"
    and f: "f = fit_factor px x y" and "\<not> shrinks f"
  shows "x \<le> px_output_width px * (1 + 1 / 8000) \<and> y \<le> px_output_height px * (1 + 1 / 8000)"
proof -
  have f': "f = (let g = (if px_output_width px < x then fl (px_output_width px / x) else 1)
      in if px_output_height px < fl (y * g) then fl (px_output_height px / y) else g)"
    by (simp add: f fit_factor_def Let_def)
  note r = single.fitted(5,6) [OF assms(1-5) refl f' [unfolded Let_def]]
  have f: "99989 / 100000 \<le> f" using \<open>\<not> shrinks f\<close> single.threshold(1) by (simp add: shrinks_def)
  have pos: "0 \<le> x" "0 \<le> y" "0 \<le> px_output_width px" "0 \<le> px_output_height px" using assms(1-4) by (simp_all add: a_size_def)
  have "x * (99989 / 100000) \<le> x * f" "y * (99989 / 100000) \<le> y * f" by (rule mult_left_mono [OF f]; use pos in simp)+
  with r pos show ?thesis by simp
qed

lemma small_is_unchanged:
  assumes "a_size (px_output_width px)" "a_size (px_output_height px)" "a_size x" "a_size y" "fl y = y"
    and "x \<le> px_output_width px" "y \<le> px_output_height px"
  shows "\<not> shrinks (fit_factor px x y)"
  using assms single.threshold(2) by (simp add: shrinks_def fit_factor_def Let_def)

text \<open>
  C25: a picture that is too large is fitted to the panel, in the single precision arithmetic of the code. When a program sets the size of
  its picture, the same scale is taken for both directions and the picture is put in the middle; the size sent keeps its shape, does not
  exceed the panel and fills it in one direction, each up to a millionth of the size, and the scale of the mouse is multiplied by the same
  factor. A picture that fits is sent as it is, and one that is sent as it is fits, up to an eight-thousandth of the panel.
\<close>

theorem picture_is_fitted:
  assumes slot: "find_program px (px_current_program px) False = (Some i, px)"
    and i: "i < length (px_programs px)" and on: "px_fit_enabled px"
    and p: "p = px_programs px ! i" and size: "ps_screen_size p = location" and pos: "0 \<le> ps_screen_pos p" "ps_screen_pos p \<noteq> location"
    and scale: "ps_screen_scale p = location'"
    and sizes: "a_size (px_output_width px)" "a_size (px_output_height px)" "a_size x" "a_size y" "fl y = y" and v: "0 < v"
    and f: "f = fit_factor px x y" and call: "fit_gl_uniform_2f px location x y = (px', calls)"
  shows "(if shrinks f then
      (\<exists>X Y w h. calls = [Uniform2f (ps_screen_pos p) X Y, Uniform2f location w h] \<and>
         fits (px_output_width px) (px_output_height px) x y f w h \<and>
         in_the_middle (px_output_width px) w X \<and> in_the_middle (px_output_height px) h Y) \<and>
      snd (fit_gl_uniform_1f px' location' v) = [Uniform1f location' (fl (v * f))]
    else calls = [Uniform2f location x y] \<and> x \<le> px_output_width px * (1 + 1 / 8000) \<and> y \<le> px_output_height px * (1 + 1 / 8000) \<and>
      snd (fit_gl_uniform_1f px' location' v) = [Uniform1f location' v]) \<and>
    (x \<le> px_output_width px \<longrightarrow> y \<le> px_output_height px \<longrightarrow> \<not> shrinks f)"
proof -
  let ?p = "p\<lparr>ps_has_source_size := True, ps_fit_factor := f\<rparr>" and ?w = "fl (x * f)" and ?h = "fl (y * f)"
  let ?X = "fl (fl (px_output_width px - ?w) * (1 / 2))" and ?Y = "fl (fl (px_output_height px - ?h) * (1 / 2))"
  note fits = shrinking_fits [OF sizes f]
  have px': "px' = px\<lparr>px_programs := (px_programs px)[i := ?p]\<rparr>"
    and calls: "calls = (if shrinks f then [Uniform2f (ps_screen_pos p) ?X ?Y, Uniform2f location ?w ?h] else [Uniform2f location x y])"
    using call slot on p size pos by (auto simp: fit_gl_uniform_2f_def Let_def f)
  have same: "slot_of ((px_programs px)[i := ?p]) c = slot_of (px_programs px) c" for c
  proof -
    have "slot_of (ps[i := (ps ! i)\<lparr>ps_has_source_size := True, ps_fit_factor := f\<rparr>]) c = slot_of ps c" if "i < length ps" for ps
      using that by (induction ps arbitrary: i) (auto split: nat.splits)
    from this [OF i] p show ?thesis by simp
  qed
  have slot': "fst (find_program px' (px_current_program px') False) = Some i"
    using slot by (simp add: find_program_def px' same split: option.splits if_splits)
  have "px_programs px' ! i = ?p" "px_fit_enabled px'" using i on by (simp_all add: px')
  then have mouse: "snd (fit_gl_uniform_1f px' location' v) = [Uniform1f location' (if shrinks f then fl (v * f) else v)]"
    using slot' scale v fits by (auto simp: fit_gl_uniform_1f_def Let_def fits_def)
  have middle: "in_the_middle (px_output_width px) ?w ?X \<and> in_the_middle (px_output_height px) ?h ?Y" if "shrinks f"
  proof -
    have "0 \<le> x * f" "0 \<le> y * f" using fits [OF that] sizes by (simp_all add: fits_def a_size_def)
    then have "0 \<le> ?w" "0 \<le> ?h" by (simp_all add: fl_nonneg)
    with single.centred [OF sizes(1), of ?w] single.centred [OF sizes(2), of ?h] fits [OF that]
    show ?thesis by (simp add: in_the_middle_def fits_def)
  qed
  show ?thesis
  proof (cases "shrinks f")
    case True
    then have "\<not> (x \<le> px_output_width px \<and> y \<le> px_output_height px)" using small_is_unchanged [OF sizes] f by blast
    with True fits middle mouse calls show ?thesis by auto
  next
    case False
    with unchanged_fits [OF sizes f] mouse calls show ?thesis by simp
  qed
qed

definition demo_program :: program_state where
  "demo_program = zero_program\<lparr>ps_program := 7, ps_screen_pos := 1, ps_screen_size := 2, ps_screen_scale := 3\<rparr>"

definition demo_pyxel :: pyxel where
  "demo_pyxel = \<lparr>px_programs = [demo_program], px_current_program = 7, px_fit_enabled = True, px_output_width = 640, px_output_height = 480\<rparr>"

text \<open>A picture of 1058 columns: the width sent is larger than the panel, by less than a millionth.\<close>

theorem picture_is_fitted_witness:
  "\<exists>X Y w h. snd (fit_gl_uniform_2f demo_pyxel 2 1058 480) = [Uniform2f 1 X Y, Uniform2f 2 w h] \<and> w \<le> 640 * (1 + 1 / 2 ^ 20) \<and>
     \<bar>2 * Y + h - 480\<bar> \<le> 480 / 2 ^ 20"
proof -
  have slot: "find_program demo_pyxel (px_current_program demo_pyxel) False = (Some 0, demo_pyxel)"
    by (simp add: find_program_def demo_pyxel_def demo_program_def)
  obtain px' calls where call: "fit_gl_uniform_2f demo_pyxel 2 1058 480 = (px', calls)" by (cases "fit_gl_uniform_2f demo_pyxel 2 1058 480")
  have y: "fl 480 = 480" using fl_int [of 480] by simp
  from picture_is_fitted [OF slot _ _ refl _ _ _ refl _ _ _ _ y _ refl call, of 1]
  have "\<exists>X Y w h. calls = [Uniform2f 1 X Y, Uniform2f 2 w h] \<and> w \<le> 640 * (1 + 1 / 2 ^ 20) \<and> in_the_middle 480 h Y"
    by (auto simp: demo_pyxel_def demo_program_def zero_program_def a_size_def fits_def split: if_splits)
  then show ?thesis unfolding call by (auto simp: in_the_middle_def)
qed

section \<open>Programs are kept apart\<close>

datatype px_event = Use_program nat | Get_location nat string int | Set_2f int rat rat | Set_1f int rat

fun px_step :: "pyxel \<Rightarrow> px_event \<Rightarrow> pyxel" where
  "px_step px (Use_program p) = fst (fit_gl_use_program px p)"
| "px_step px (Get_location p name location) = snd (fit_gl_get_uniform_location px p name location)"
| "px_step px (Set_2f location x y) = fst (fit_gl_uniform_2f px location x y)"
| "px_step px (Set_1f location v) = fst (fit_gl_uniform_1f px location v)"

text \<open>
  The specification: of at most 32 programs, in the order they were first asked about, the last locations of the three uniforms, minus one for
  one not asked about.
\<close>

record locations =
  lo_pos :: int
  lo_size :: int
  lo_scale :: int

definition no_locations :: locations where
  "no_locations = \<lparr>lo_pos = - 1, lo_size = - 1, lo_scale = - 1\<rparr>"

definition learn :: "string \<Rightarrow> int \<Rightarrow> locations \<Rightarrow> locations" where
  "learn name location l =
     (if name = ''u_screenPos'' then l\<lparr>lo_pos := location\<rparr>
      else if name = ''u_screenSize'' then l\<lparr>lo_size := location\<rparr>
      else if name = ''u_screenScale'' then l\<lparr>lo_scale := location\<rparr>
      else l)"

fun spec_step :: "(nat \<Rightarrow> locations option) \<Rightarrow> px_event \<Rightarrow> (nat \<Rightarrow> locations option)" where
  "spec_step m (Get_location p name location) =
     (if location < 0 then m
      else case m p of
        Some l \<Rightarrow> m(p \<mapsto> learn name location l)
      | None \<Rightarrow> if card (dom m) < MAX_PROGRAMS then m(p \<mapsto> learn name location no_locations) else m)"
| "spec_step m _ = m"

definition locs :: "program_state \<Rightarrow> locations" where
  "locs p = \<lparr>lo_pos = ps_screen_pos p, lo_size = ps_screen_size p, lo_scale = ps_screen_scale p\<rparr>"

definition px_abs :: "pyxel \<Rightarrow> nat \<Rightarrow> locations option" where
  "px_abs px p = (if p = 0 then None else map_option (\<lambda>i. locs (px_programs px ! i)) (slot_of (px_programs px) p))"

definition px_inv :: "pyxel \<Rightarrow> bool" where
  "px_inv px \<longleftrightarrow> length (px_programs px) = MAX_PROGRAMS \<and>
     (\<forall>i < MAX_PROGRAMS. \<forall>j < MAX_PROGRAMS. ps_program (px_programs px ! i) = ps_program (px_programs px ! j) \<longrightarrow>
        ps_program (px_programs px ! i) \<noteq> 0 \<longrightarrow> i = j)"

lemma slot_of_Some: "slot_of ps c = Some i \<Longrightarrow> i < length ps \<and> ps_program (ps ! i) = c"
  by (induction ps arbitrary: i) (auto split: if_splits)

lemma slot_of_None: "slot_of ps c = None \<longleftrightarrow> (\<forall>i < length ps. ps_program (ps ! i) \<noteq> c)"
proof (induction ps)
  case (Cons p ps)
  then show ?case by (auto simp: nth_Cons split: nat.splits)
qed simp

lemma slot_of_update: "ps_program q = ps_program (ps ! i) \<Longrightarrow> slot_of (ps[i := q]) c = slot_of ps c"
proof (induction ps arbitrary: i)
  case (Cons p ps)
  then show ?case by (cases i) auto
qed simp

lemma px_inv_slot:
  assumes "px_inv px" "i < MAX_PROGRAMS" "ps_program (px_programs px ! i) = p" "p \<noteq> 0"
  shows "slot_of (px_programs px) p = Some i"
proof (cases "slot_of (px_programs px) p")
  case None
  then show ?thesis using assms by (auto simp: slot_of_None px_inv_def)
next
  case (Some j)
  moreover have "length (px_programs px) = MAX_PROGRAMS" using assms(1) by (simp add: px_inv_def)
  ultimately have "j < MAX_PROGRAMS" "ps_program (px_programs px ! j) = p" using slot_of_Some [OF Some] by simp_all
  then have "j = i" using assms unfolding px_inv_def by metis
  with Some show ?thesis by simp
qed

lemma card_below: "card {i. i < n \<and> P i} < n \<longleftrightarrow> (\<exists>i < n. \<not> P i)" for n :: nat
proof
  assume "card {i. i < n \<and> P i} < n"
  then have "{i. i < n \<and> P i} \<noteq> {..< n}" by (metis card_lessThan less_irrefl)
  then show "\<exists>i < n. \<not> P i" by auto
next
  assume "\<exists>i < n. \<not> P i"
  then have "{i. i < n \<and> P i} \<subset> {..< n}" by auto
  from psubset_card_mono [OF _ this] show "card {i. i < n \<and> P i} < n" by simp
qed

lemma room_iff:
  assumes "px_inv px"
  shows "card (dom (px_abs px)) < MAX_PROGRAMS \<longleftrightarrow> slot_of (px_programs px) 0 \<noteq> None"
proof -
  let ?prog = "\<lambda>i. ps_program (px_programs px ! i)" and ?used = "{i. i < MAX_PROGRAMS \<and> ps_program (px_programs px ! i) \<noteq> 0}"
  have len: "length (px_programs px) = MAX_PROGRAMS" using assms by (simp add: px_inv_def)
  have dom: "\<exists>i < MAX_PROGRAMS. ?prog i = p \<and> p \<noteq> 0" if "p \<in> dom (px_abs px)" for p
  proof -
    from that obtain i where i: "slot_of (px_programs px) p = Some i" "p \<noteq> 0" by (auto simp: px_abs_def split: if_splits)
    with slot_of_Some [OF i(1)] len show ?thesis by auto
  qed
  have "p \<in> dom (px_abs px)" if "i < MAX_PROGRAMS" "?prog i = p" "p \<noteq> 0" for i p
    using px_inv_slot [OF assms that] that(3) by (simp add: px_abs_def dom_def)
  then have "?prog ` ?used \<subseteq> dom (px_abs px)" by blast
  moreover have "dom (px_abs px) \<subseteq> ?prog ` ?used"
  proof
    fix p assume "p \<in> dom (px_abs px)"
    with dom obtain i where "i < MAX_PROGRAMS" "?prog i = p" "p \<noteq> 0" by metis
    then show "p \<in> ?prog ` ?used" by (intro image_eqI [of _ _ i]) simp_all
  qed
  ultimately have "dom (px_abs px) = ?prog ` ?used" by (simp only: subset_antisym)
  moreover have "inj_on ?prog ?used" using assms unfolding px_inv_def inj_on_def by simp
  ultimately have card: "card (dom (px_abs px)) = card ?used" by (simp add: card_image)
  with card_below [of MAX_PROGRAMS "\<lambda>i. ?prog i \<noteq> 0"] show ?thesis using len by (simp add: slot_of_None)
qed

lemma same_program_refines:
  assumes inv: "px_inv px" and q: "ps_program q = ps_program (px_programs px ! i)" "i < MAX_PROGRAMS"
  shows "px_inv (px\<lparr>px_programs := (px_programs px)[i := q]\<rparr>)"
    and "px_abs (px\<lparr>px_programs := (px_programs px)[i := q]\<rparr>) =
      (if ps_program q = 0 then px_abs px else (px_abs px)(ps_program q \<mapsto> locs q))"
proof -
  let ?ps = "(px_programs px)[i := q]"
  have len: "length (px_programs px) = MAX_PROGRAMS" using inv by (simp add: px_inv_def)
  have prog: "ps_program (?ps ! j) = ps_program (px_programs px ! j)" if "j < MAX_PROGRAMS" for j
    using q len that by (cases "j = i") auto
  show "px_inv (px\<lparr>px_programs := ?ps\<rparr>)" using inv prog by (simp add: px_inv_def)
  show "px_abs (px\<lparr>px_programs := ?ps\<rparr>) = (if ps_program q = 0 then px_abs px else (px_abs px)(ps_program q \<mapsto> locs q))"
  proof (rule ext)
    fix p
    show "px_abs (px\<lparr>px_programs := ?ps\<rparr>) p = (if ps_program q = 0 then px_abs px else (px_abs px)(ps_program q \<mapsto> locs q)) p"
    proof (cases "p = 0 \<or> p \<noteq> ps_program q")
      case True
      have "slot_of (px_programs px) p \<noteq> Some i" if "p \<noteq> 0" using True that q slot_of_Some [of "px_programs px" p i] by auto
      then show ?thesis using True slot_of_update [OF q(1), of p]
        by (cases "slot_of (px_programs px) p") (auto simp: px_abs_def)
    next
      case False
      then have "slot_of (px_programs px) p = Some i" using px_inv_slot [OF inv q(2)] q(1) by simp
      then show ?thesis using False slot_of_update [OF q(1), of p] len q(2) by (simp add: px_abs_def)
    qed
  qed
qed

lemma new_program_refines:
  assumes inv: "px_inv px" and free: "slot_of (px_programs px) 0 = Some i" and fresh: "slot_of (px_programs px) p = None" and "p \<noteq> 0"
    and q: "ps_program q = p"
  shows "px_inv (px\<lparr>px_programs := (px_programs px)[i := q]\<rparr>)"
    and "px_abs (px\<lparr>px_programs := (px_programs px)[i := q]\<rparr>) = (px_abs px)(p \<mapsto> locs q)"
proof -
  let ?px = "px\<lparr>px_programs := (px_programs px)[i := q]\<rparr>"
  have len: "length (px_programs px) = MAX_PROGRAMS" using inv by (simp add: px_inv_def)
  have i: "i < MAX_PROGRAMS" "ps_program (px_programs px ! i) = 0" using slot_of_Some [OF free] len by auto
  have none: "ps_program (px_programs px ! j) \<noteq> p" if "j < MAX_PROGRAMS" for j using fresh that len by (simp add: slot_of_None)
  have nth: "(px_programs px)[i := q] ! j = (if j = i then q else px_programs px ! j)" if "j < MAX_PROGRAMS" for j
    using that len by (simp add: nth_list_update)
  show inv': "px_inv ?px"
    using inv none q by (auto simp: px_inv_def nth) (metis none)+
  have other: "slot_of ((px_programs px)[i := q]) c = slot_of (px_programs px) c" if "c \<noteq> 0" "c \<noteq> p" for c
  proof (cases "slot_of (px_programs px) c")
    case None
    then have "\<forall>j < MAX_PROGRAMS. ps_program ((px_programs px)[i := q] ! j) \<noteq> c" using that q len by (auto simp: slot_of_None nth)
    then have "slot_of ((px_programs px)[i := q]) c = None" using len by (simp add: slot_of_None)
    with None show ?thesis by simp
  next
    case (Some j)
    then have "j < MAX_PROGRAMS" "ps_program (px_programs px ! j) = c" using slot_of_Some [OF Some] len by simp_all
    then have "j \<noteq> i" using i that by auto
    then have "slot_of ((px_programs px)[i := q]) c = Some j"
      using px_inv_slot [OF inv', of j c] that(1) nth [OF \<open>j < MAX_PROGRAMS\<close>] \<open>j < MAX_PROGRAMS\<close> \<open>ps_program (px_programs px ! j) = c\<close> by simp
    with Some show ?thesis by simp
  qed
  have "slot_of ((px_programs px)[i := q]) p = Some i" using px_inv_slot [OF inv' i(1), of p] \<open>p \<noteq> 0\<close> q i len by simp
  then show "px_abs ?px = (px_abs px)(p \<mapsto> locs q)"
  proof (intro ext)
    fix c
    assume "slot_of ((px_programs px)[i := q]) p = Some i"
    moreover have "slot_of (px_programs px) c \<noteq> Some i" if "c \<noteq> 0" using i that slot_of_Some by metis
    ultimately show "px_abs ?px c = ((px_abs px)(p \<mapsto> locs q)) c"
      using other [of c] \<open>p \<noteq> 0\<close> i len by (cases "c = p"; cases "c = 0"; cases "slot_of (px_programs px) c") (auto simp: px_abs_def)
  qed
qed


lemma locs_learn:
  "locs (if name = ''u_screenPos'' then p\<lparr>ps_screen_pos := location\<rparr>
         else if name = ''u_screenSize'' then p\<lparr>ps_screen_size := location\<rparr>
         else if name = ''u_screenScale'' then p\<lparr>ps_screen_scale := location\<rparr> else p) = learn name location (locs p)"
  "ps_program (if name = ''u_screenPos'' then p\<lparr>ps_screen_pos := location\<rparr>
         else if name = ''u_screenSize'' then p\<lparr>ps_screen_size := location\<rparr>
         else if name = ''u_screenScale'' then p\<lparr>ps_screen_scale := location\<rparr> else p) = ps_program p"
  by (simp_all add: locs_def learn_def)

lemma get_location_refines:
  assumes inv: "px_inv px" and p: "p \<noteq> 0"
  shows "px_inv (px_step px (Get_location p name location)) \<and>
    px_abs (px_step px (Get_location p name location)) = spec_step (px_abs px) (Get_location p name location)"
proof (cases "location < 0")
  case True
  with inv show ?thesis by (simp add: fit_gl_get_uniform_location_def)
next
  case loc: False
  have len: "length (px_programs px) = MAX_PROGRAMS" using inv by (simp add: px_inv_def)
  define learned where "learned = (\<lambda>q. if name = ''u_screenPos'' then q\<lparr>ps_screen_pos := location\<rparr>
         else if name = ''u_screenSize'' then q\<lparr>ps_screen_size := location\<rparr>
         else if name = ''u_screenScale'' then q\<lparr>ps_screen_scale := location\<rparr> else (q :: program_state))"
  have learned: "locs (learned q) = learn name location (locs q)" "ps_program (learned q) = ps_program q" for q
    unfolding learned_def by (rule locs_learn)+
  have step: "px_step px (Get_location p name location) =
      (case find_program px p True of (None, px1) \<Rightarrow> px1
       | (Some i, px1) \<Rightarrow> px1\<lparr>px_programs := (px_programs px1)[i := learned (px_programs px1 ! i)]\<rparr>)"
    using loc by (simp add: fit_gl_get_uniform_location_def learned_def Let_def split: option.splits prod.splits)
  show ?thesis
  proof (cases "slot_of (px_programs px) p")
    case (Some i)
    then have i: "i < MAX_PROGRAMS" "ps_program (px_programs px ! i) = p" using slot_of_Some [OF Some] len by simp_all
    have "px_step px (Get_location p name location) = px\<lparr>px_programs := (px_programs px)[i := learned (px_programs px ! i)]\<rparr>"
      using step Some by (simp add: find_program_def)
    moreover have "px_abs px p = Some (locs (px_programs px ! i))" using Some p by (simp add: px_abs_def)
    ultimately show ?thesis
      using same_program_refines [OF inv, of "learned (px_programs px ! i)" i] learned i p loc by simp
  next
    case None
    then have abs: "px_abs px p = None" by (simp add: px_abs_def)
    show ?thesis
    proof (cases "slot_of (px_programs px) 0")
      case free: None
      then have "px_step px (Get_location p name location) = px" using step None by (simp add: find_program_def)
      moreover have "\<not> card (dom (px_abs px)) < MAX_PROGRAMS" using room_iff [OF inv] free by simp
      ultimately show ?thesis using inv abs loc by simp
    next
      case (Some i)
      let ?q = "(px_programs px ! i)\<lparr>ps_program := p, ps_screen_pos := - 1, ps_screen_size := - 1, ps_screen_scale := - 1\<rparr>"
      have i: "i < MAX_PROGRAMS" using slot_of_Some [OF Some] len by simp
      have "px_step px (Get_location p name location) = px\<lparr>px_programs := (px_programs px)[i := learned ?q]\<rparr>"
        using step None Some p i len by (simp add: find_program_def Let_def)
      moreover have "card (dom (px_abs px)) < MAX_PROGRAMS" using room_iff [OF inv] Some by simp
      moreover have "locs ?q = no_locations" by (simp add: locs_def no_locations_def)
      ultimately show ?thesis
        using new_program_refines [OF inv Some None p, of "learned ?q"] learned [of ?q] abs loc by simp
    qed
  qed
qed

lemma set_2f_refines:
  assumes inv: "px_inv px"
  shows "px_inv (px_step px (Set_2f location x y)) \<and> px_abs (px_step px (Set_2f location x y)) = px_abs px"
proof (cases "slot_of (px_programs px) (px_current_program px)")
  case None
  with inv show ?thesis by (simp add: fit_gl_uniform_2f_def find_program_def)
next
  case (Some i)
  have len: "length (px_programs px) = MAX_PROGRAMS" using inv by (simp add: px_inv_def)
  have i: "i < MAX_PROGRAMS" "ps_program (px_programs px ! i) = px_current_program px" using slot_of_Some [OF Some] len by simp_all
  define p1 where "p1 = (if location = ps_screen_pos (px_programs px ! i)
      then (px_programs px ! i)\<lparr>ps_screen_x := x, ps_screen_y := y\<rparr> else px_programs px ! i)"
  define q where "q = (if px_fit_enabled px \<and> location = ps_screen_size p1
      then p1\<lparr>ps_has_source_size := True, ps_fit_factor := fit_factor px x y\<rparr> else p1)"
  have q: "px_step px (Set_2f location x y) = px\<lparr>px_programs := (px_programs px)[i := q]\<rparr>"
    using Some by (simp add: fit_gl_uniform_2f_def find_program_def Let_def p1_def q_def)
  have p1: "ps_program p1 = ps_program (px_programs px ! i)" "locs p1 = locs (px_programs px ! i)"
    by (simp_all add: p1_def locs_def)
  have same: "ps_program q = ps_program (px_programs px ! i)" "locs q = locs (px_programs px ! i)"
    using p1 by (simp_all add: q_def locs_def)
  have "ps_program q \<noteq> 0 \<Longrightarrow> px_abs px (ps_program q) = Some (locs q)"
    using px_inv_slot [OF inv i(1) i(2)] same i by (simp add: px_abs_def)
  then show ?thesis using same_program_refines [OF inv same(1) i(1)] q by (auto simp: fun_upd_idem)
qed

lemma px_step_refines:
  assumes "px_inv px" and "\<forall>p name l. e = Get_location p name l \<longrightarrow> p \<noteq> 0"
  shows "px_inv (px_step px e) \<and> px_abs (px_step px e) = spec_step (px_abs px) e"
proof (cases e)
  case (Use_program p)
  have "px_abs (px\<lparr>px_current_program := p\<rparr>) = px_abs px" by (rule ext) (simp add: px_abs_def)
  with assms Use_program show ?thesis by (simp add: fit_gl_use_program_def px_inv_def)
next
  case (Get_location p name l)
  with assms get_location_refines show ?thesis by simp
next
  case (Set_2f l x y)
  with assms set_2f_refines show ?thesis by simp
next
  case (Set_1f l v)
  then have "px_step px e = px" by (simp add: fit_gl_uniform_1f_def Let_def split: option.splits)
  with assms Set_1f show ?thesis by simp
qed

text \<open>
  C26: the uniforms of different programs are kept apart. After any sequence of calls the layer knows exactly, for each of the first 32
  programs it was asked about, the last location GLES gave for each of the three uniforms, whatever happened to other programs in between.
\<close>

theorem uniforms_are_kept_apart:
  assumes "\<forall>p name l. Get_location p name l \<in> set es \<longrightarrow> p \<noteq> 0"
  shows "px_abs (foldl px_step (init_config strtof w) es) = foldl spec_step (\<lambda>_. None) es"
proof -
  have sim: "px_inv px \<Longrightarrow> (\<forall>p name l. Get_location p name l \<in> set es \<longrightarrow> p \<noteq> 0) \<Longrightarrow>
      px_abs (foldl px_step px es) = foldl spec_step (px_abs px) es" for px es
  proof (induction es arbitrary: px)
    case (Cons e es)
    then have "px_inv (px_step px e) \<and> px_abs (px_step px e) = spec_step (px_abs px) e" by (intro px_step_refines) auto
    moreover have "\<forall>p name l. Get_location p name l \<in> set es \<longrightarrow> p \<noteq> 0" using Cons.prems(2) by auto
    ultimately show ?case using Cons.IH [of "px_step px e"] by simp
  qed simp
  have start: "px_inv (init_config strtof w)" by (simp add: px_inv_def init_config_def zero_program_def)
  have "slot_of (replicate n zero_program) p = None" if "p \<noteq> 0" for n p
    using that by (simp add: slot_of_None zero_program_def)
  then have "px_abs (init_config strtof w) = (\<lambda>_. None)" by (intro ext) (simp add: px_abs_def init_config_def)
  with sim [OF start assms] show ?thesis by simp
qed

theorem uniforms_are_kept_apart_witness:
  "px_abs (foldl px_step (init_config (\<lambda>_. (0, 0)) demo_os)
     [Get_location 5 ''u_screenPos'' 1, Get_location 6 ''u_screenPos'' 4, Use_program 6, Set_2f 4 10 20]) 5 =
     Some \<lparr>lo_pos = 1, lo_size = - 1, lo_scale = - 1\<rparr>"
proof -
  have "\<forall>p name l. Get_location p name l \<in> set [Get_location 5 ''u_screenPos'' 1, Get_location 6 ''u_screenPos'' 4, Use_program 6, Set_2f 4 10 20]
      \<longrightarrow> p \<noteq> 0" by simp
  from uniforms_are_kept_apart [OF this] show ?thesis by (simp add: MAX_PROGRAMS_def learn_def no_locations_def)
qed

text \<open>
  The slot of a program that does not exist yet: before a program is used the layer takes the first free slot for it, so that a size set
  then scales the mouse of the program that gets the slot later.
\<close>

theorem free_slot_is_used:
  "snd (fit_gl_uniform_1f (foldl px_step
      \<lparr>px_programs = replicate 2 zero_program, px_current_program = 0, px_fit_enabled = True, px_output_width = 640, px_output_height = 480\<rparr>
      [Set_2f 0 1280 960, Get_location 5 ''u_screenScale'' 3, Use_program 5]) 3 1) = [Uniform1f 3 (1 / 2)]"
  using single.threshold(1) fl_int [of 480]
  by (simp add: fl_half fit_gl_uniform_2f_def find_program_def zero_program_def numeral_2_eq_2 fit_factor_def shrinks_def Let_def
      fit_gl_get_uniform_location_def fit_gl_use_program_def fit_gl_uniform_1f_def)

section \<open>Contexts\<close>

text \<open>The attributes a context is created with.\<close>

fun attributes :: "sdl_call list \<Rightarrow> int \<Rightarrow> int option" where
  "attributes [] = (\<lambda>_. None)"
| "attributes (SetAttribute a v # cs) = (\<lambda>b. case attributes cs b of None \<Rightarrow> if b = a then Some v else None | Some u \<Rightarrow> Some u)"
| "attributes (_ # cs) = attributes cs"

lemma attributes_append: "attributes (as @ bs) b = (case attributes bs b of None \<Rightarrow> attributes as b | Some v \<Rightarrow> Some v)"
  by (induction as rule: attributes.induct) (auto split: option.splits)

text \<open>
  Every window and every context is created for OpenGL ES 2 through EGL, whatever attributes the program asked for before, and the
  attributes that have nothing to do with it are those the program asked for last.
\<close>

theorem contexts_are_gles2:
  assumes "c = CreateWindow \<or> c = CreateContext created"
  shows "\<exists>before after. concat (map sdl_forward (cs @ [c])) = before @ c # after \<and>
    attributes before SDL_GL_CONTEXT_PROFILE_MASK = Some SDL_GL_CONTEXT_PROFILE_ES \<and> attributes before SDL_GL_CONTEXT_MAJOR_VERSION = Some 2 \<and>
    attributes before SDL_GL_CONTEXT_MINOR_VERSION = Some 0 \<and> attributes before SDL_GL_CONTEXT_EGL = Some 1 \<and>
    (\<forall>a. a \<notin> {SDL_GL_CONTEXT_PROFILE_MASK, SDL_GL_CONTEXT_MAJOR_VERSION, SDL_GL_CONTEXT_MINOR_VERSION, SDL_GL_CONTEXT_EGL} \<longrightarrow>
       attributes before a = attributes cs a)"
proof -
  let ?before = "concat (map sdl_forward cs) @ force_gles2_attributes"
  note ids = SDL_GL_CONTEXT_PROFILE_MASK_def SDL_GL_CONTEXT_MAJOR_VERSION_def SDL_GL_CONTEXT_MINOR_VERSION_def SDL_GL_CONTEXT_EGL_def
  have other: "attributes (concat (map sdl_forward cs)) a = attributes cs a"
    if "a \<notin> {SDL_GL_CONTEXT_PROFILE_MASK, SDL_GL_CONTEXT_MAJOR_VERSION, SDL_GL_CONTEXT_MINOR_VERSION, SDL_GL_CONTEXT_EGL}" for a
    using that
  proof (induction cs)
    case (Cons d cs)
    then show ?case
      by (cases d) (auto simp: attributes_append SDL_GL_SetAttribute_def force_gles2_attributes_def split: option.splits)
  qed simp
  obtain after where "concat (map sdl_forward (cs @ [c])) = ?before @ c # after" using assms by auto
  with other show ?thesis
    by (intro exI [of _ ?before] exI [of _ after]) (simp add: attributes_append force_gles2_attributes_def ids split: option.splits)
qed

theorem contexts_are_gles2_witness:
  "\<exists>before after. concat (map sdl_forward [SetAttribute 21 1, SetAttribute 5 24, CreateContext True]) = before @ CreateContext True # after \<and>
     attributes before 21 = Some 4 \<and> attributes before 5 = Some 24"
proof -
  from contexts_are_gles2 [of "CreateContext True" True "[SetAttribute 21 1, SetAttribute 5 24]"] show ?thesis
    by (auto simp: SDL_GL_CONTEXT_PROFILE_MASK_def SDL_GL_CONTEXT_MAJOR_VERSION_def SDL_GL_CONTEXT_MINOR_VERSION_def SDL_GL_CONTEXT_EGL_def
        SDL_GL_CONTEXT_PROFILE_ES_def)
qed

end
