(* ===== verification/UiSettingIds.thy ===== *)
theory UiSettingIds
  imports UiState
begin

text \<open>
  The settings of the controller UI (\<open>src/frontend/plumos_controller_ui.c\<close>): which kind of control each has, which can be written, and
  what the choices of each are.
\<close>

datatype setting_control_type = SETTING_CONTROL_READONLY | SETTING_CONTROL_CHECKBOX | SETTING_CONTROL_CHOICE | SETTING_CONTROL_NUMBER
  | SETTING_CONTROL_ACTION

record setting_entry =
  se_id :: string
  se_display_name :: string
  se_value :: string
  se_available :: bool

text \<open>A choice is the value that is stored and the text that is shown.\<close>

definition UI_MODE_CHOICES :: "(string \<times> string) list" where
  "UI_MODE_CHOICES = [(''text'', ''Text''),
     (''graphic'', ''Graphic'')]"

definition BOOT_RESUME_CHOICES :: "(string \<times> string) list" where
  "BOOT_RESUME_CHOICES = [(''off'', ''Off''),
     (''on'', ''ON''),
     (''recent'', ''Recent'')]"

definition SORT_SYSTEMS_CHOICES :: "(string \<times> string) list" where
  "SORT_SYSTEMS_CHOICES = [(''sort_order'', ''Sort Order''),
     (''name'', ''Name'')]"

definition SORT_ROMS_CHOICES :: "(string \<times> string) list" where
  "SORT_ROMS_CHOICES = [(''name'', ''Name''),
     (''path'', ''Path'')]"

definition GRAPHIC_TOP_LAYOUT_CHOICES :: "(string \<times> string) list" where
  "GRAPHIC_TOP_LAYOUT_CHOICES = [(''tile_grid'', ''Grid 3x2''),
     (''tile_strip'', ''Strip 2x1'')]"

definition GRAPHIC_TRANSITION_CHOICES :: "(string \<times> string) list" where
  "GRAPHIC_TRANSITION_CHOICES = [(''none'', ''None''),
     (''slide'', ''Slide'')]"

definition GRAPHIC_TRANSITION_AXIS_CHOICES :: "(string \<times> string) list" where
  "GRAPHIC_TRANSITION_AXIS_CHOICES = [(''vertical'', ''Vertical''),
     (''horizontal'', ''Horizontal'')]"

definition GRAPHIC_TRANSITION_EASING_CHOICES :: "(string \<times> string) list" where
  "GRAPHIC_TRANSITION_EASING_CHOICES = [(''smoothstep'', ''Smooth''),
     (''linear'', ''Linear'')]"

definition SYSTEM_LANGUAGE_CHOICES :: "(string \<times> string) list" where
  "SYSTEM_LANGUAGE_CHOICES = [(''en.lang'', ''English''),
     (''ja.lang'', ''Japanese''),
     (''ch.lang'', ''Chinese''),
     (''pt.lang'', ''Portuguese''),
     (''fr.lang'', ''French''),
     (''de.lang'', ''German'')]"

definition SYSTEM_TIMEZONE_CHOICES :: "(string \<times> string) list" where
  "SYSTEM_TIMEZONE_CHOICES = [(''JST-9'', ''Japan''),
     (''UTC0'', ''UTC''),
     (''KST-9'', ''Korea''),
     (''CST-8'', ''China''),
     (''PST8PDT,M3.2.0/2,M11.1.0/2'', ''US Pacific''),
     (''MST7MDT,M3.2.0/2,M11.1.0/2'', ''US Mountain''),
     (''CST6CDT,M3.2.0/2,M11.1.0/2'', ''US Central''),
     (''EST5EDT,M3.2.0/2,M11.1.0/2'', ''US Eastern''),
     (''GMT0BST,M3.5.0/1,M10.5.0'', ''UK''),
     (''CET-1CEST,M3.5.0/2,M10.5.0/3'', ''Central EU'')]"

definition SYSTEM_AUDIO_OUTPUT_CHOICES :: "(string \<times> string) list" where
  "SYSTEM_AUDIO_OUTPUT_CHOICES = [(''speaker'', ''Speaker''),
     (''headphone'', ''Headphone'')]"

definition setting_choices :: "string \<Rightarrow> (string \<times> string) list option" where
  "setting_choices key =
     (if key = ''ui_mode'' then Some UI_MODE_CHOICES
      else if key = ''boot_resume_mode'' then Some BOOT_RESUME_CHOICES
      else if key = ''sort_systems'' then Some SORT_SYSTEMS_CHOICES
      else if key = ''sort_roms'' then Some SORT_ROMS_CHOICES
      else if key = ''theme_top_layout'' then Some GRAPHIC_TOP_LAYOUT_CHOICES
      else if key = ''theme_transition'' then Some GRAPHIC_TRANSITION_CHOICES
      else if key = ''theme_transition_axis'' then Some GRAPHIC_TRANSITION_AXIS_CHOICES
      else if key = ''theme_transition_easing'' then Some GRAPHIC_TRANSITION_EASING_CHOICES
      else if key = ''system_language'' then Some SYSTEM_LANGUAGE_CHOICES
      else if key = ''system_timezone'' then Some SYSTEM_TIMEZONE_CHOICES
      else if key = ''system_audio_output'' then Some SYSTEM_AUDIO_OUTPUT_CHOICES
      else None)"

definition setting_choice_display_value :: "string \<Rightarrow> string \<Rightarrow> string" where
  "setting_choice_display_value key raw_value =
     (case find (\<lambda>(raw, display). raw_value = raw \<or> raw_value = display) (case setting_choices key of Some cs \<Rightarrow> cs | None \<Rightarrow> []) of
        Some (raw, display) \<Rightarrow> display
      | None \<Rightarrow> if raw_value \<noteq> [] then raw_value else ''-'')"

definition setting_control_type_for_id :: "string \<Rightarrow> setting_control_type" where
  "setting_control_type_for_id key =
     (if key \<in> set
        [''network_connect_wifi'', ''network_services'', ''network_information'', ''refresh_top'', ''ui_theme_settings'',
         ''system_display_color'', ''system_time_settings'', ''system_storage_check'', ''system_sync_now'',
         ''system_manual_time'', ''system_manual_time_apply'', ''system_information'', ''system_update'',
         ''system_factory_reset'', ''system_factory_reset_all'', ''system_factory_reset_ra'', ''system_factory_reset_pico'',
         ''system_factory_reset_sa'', ''performance_clear_cpu_override'', ''performance_core_details''] then SETTING_CONTROL_ACTION
      else if key \<in> set
        [''show_empty_systems'', ''show_favorites_on_top'', ''show_recent_on_top'', ''rom_cursor_wrap'', ''rom_scan_policy'',
         ''system_automatic_time'', ''system_lid_suspend'', ''network_wifi_enabled'', ''network_ssh_enabled'',
         ''network_ftp_enabled'', ''network_sftp_enabled'', ''network_samba_enabled'', ''network_adb_enabled''] then SETTING_CONTROL_CHECKBOX
      else if setting_choices key \<noteq> None then SETTING_CONTROL_CHOICE
      else if key = ''graphic_theme_id'' then SETTING_CONTROL_CHOICE
      else if key = ''performance_system'' \<or> key = ''performance_cpu_policy'' then SETTING_CONTROL_CHOICE
      else if key \<in> set
        [''rom_scan_slow_threshold_ms'', ''rom_scan_test_file_count'', ''system_volume'', ''system_brightness'', ''system_lumination'', ''system_contrast'', ''system_hue'',
         ''system_saturation'', ''system_manual_time_year'', ''system_manual_time_month'', ''system_manual_time_day'',
         ''system_manual_time_hour'', ''system_manual_time_minute'', ''theme_transition_ms''] then SETTING_CONTROL_NUMBER
      else SETTING_CONTROL_READONLY)"

definition writable_settings :: "string list" where
  "writable_settings =
     [''ui_mode'', ''show_empty_systems'', ''show_favorites_on_top'', ''show_recent_on_top'', ''rom_cursor_wrap'',
      ''boot_resume_mode'', ''graphic_theme_id'', ''theme_top_layout'', ''theme_transition'', ''theme_transition_axis'',
      ''theme_transition_easing'', ''theme_transition_ms'', ''sort_systems'', ''sort_roms'', ''rom_scan_policy'',
      ''rom_scan_slow_threshold_ms'', ''rom_scan_test_file_count'', ''system_volume'', ''system_audio_output'',
      ''system_brightness'', ''system_lumination'', ''system_contrast'', ''system_hue'', ''system_saturation'',
      ''system_language'', ''system_timezone'', ''system_automatic_time'', ''system_lid_suspend'',
      ''system_manual_time_year'', ''system_manual_time_month'', ''system_manual_time_day'', ''system_manual_time_hour'',
      ''system_manual_time_minute'', ''network_wifi_enabled'', ''network_ssh_enabled'', ''network_ftp_enabled'',
      ''network_sftp_enabled'', ''network_samba_enabled'', ''network_adb_enabled'', ''performance_system'',
      ''performance_cpu_policy'']"

definition setting_is_writable :: "string \<Rightarrow> bool" where
  "setting_is_writable key \<longleftrightarrow> key \<in> set writable_settings"

end
