(* ===== verification/UiInput.thy ===== *)
theory UiInput
  imports UiSettingIds "HOL-Library.Word"
begin

text \<open>
  The input of the controller UI (\<open>src/frontend/plumos_controller_ui.c\<close>): what the events of the controller, of the power key and of a
  terminal mean, and the repetition of a key that is held. The numbers of the keys are those of the kernel's header, which the file repeats.
\<close>

section \<open>Events\<close>

definition EV_KEY :: int where "EV_KEY = 1"
definition EV_ABS :: int where "EV_ABS = 3"
definition UI_ABS_REPEAT_CODE_BASE :: int where "UI_ABS_REPEAT_CODE_BASE = 65536"
definition UI_ABS_AXIS_DEADZONE :: int where "UI_ABS_AXIS_DEADZONE = 512"
definition UI_KEY_REPEAT_DELAY_MS :: int where "UI_KEY_REPEAT_DELAY_MS = 350"
definition UI_KEY_REPEAT_INTERVAL_MS :: int where "UI_KEY_REPEAT_INTERVAL_MS = 95"
definition UI_SETTING_VALUE_REPEAT_INTERVAL_MS :: int where "UI_SETTING_VALUE_REPEAT_INTERVAL_MS = 250"
definition KEY_POWER :: int where "KEY_POWER = 116"

text \<open>An event with the time at which it is read. Its type and its code have sixteen bits.\<close>

record ui_input_event =
  ie_type :: int
  ie_code :: int
  ie_value :: int
  ie_now :: int

definition event_ok :: "ui_input_event \<Rightarrow> bool" where
  "event_ok ev \<longleftrightarrow> 0 \<le> ie_code ev \<and> ie_code ev < 65536"

text \<open>
  The first argument tells whether the program is built for the Bubble, whose two lower buttons are the other way round. The keys are, in
  order: up, down, left, right with the pad; space, Z and 7; left control and 9; left shift, north and X; west, left alt and Y; enter,
  menu, start, home and 10; mode and happy 1; right control and the two selects; power; Q.
\<close>

definition action_from_key_code :: "bool \<Rightarrow> int \<Rightarrow> ui_action" where
  "action_from_key_code bubble code =
     (if code \<in> {103, 544} then ACTION_UP
      else if code \<in> {108, 545} then ACTION_DOWN
      else if code \<in> {105, 546} then ACTION_LEFT
      else if code \<in> {106, 547} then ACTION_RIGHT
      else if code \<in> {57, if bubble then 305 else 304, 44, 7} then ACTION_A
      else if code \<in> {29, if bubble then 304 else 305, 9} then ACTION_B
      else if code \<in> {42, 307, 45} then ACTION_X
      else if code \<in> {308, 56, 21} then ACTION_Y
      else if code \<in> {28, 139, 315, 102, 10} then ACTION_START
      else if code \<in> {316, 704} then ACTION_FUNCTION
      else if code \<in> {97, 353, 314} then ACTION_SELECT
      else if code = KEY_POWER then ACTION_POWER
      else if code = 16 then ACTION_QUIT
      else ACTION_NONE)"

text \<open>The action of a stick or a hat, and whether it is let go. \<open>analog\<close> is the variable \<open>PLUMOS_FE_ANALOG_NAVIGATION\<close>.\<close>

definition axis_action :: "int \<Rightarrow> int \<Rightarrow> int \<Rightarrow> ui_action \<Rightarrow> ui_action \<Rightarrow> ui_action \<times> bool" where
  "axis_action value low high low_action high_action =
     (if value \<le> low then (low_action, False) else if high \<le> value then (high_action, False) else (ACTION_NONE, True))"

definition action_from_abs_event :: "string option \<Rightarrow> int \<Rightarrow> int \<Rightarrow> ui_action \<times> bool" where
  "action_from_abs_event analog code value =
     (if code = 0 then
        if analog = Some ''0'' then (ACTION_NONE, True)
        else axis_action value (- UI_ABS_AXIS_DEADZONE) UI_ABS_AXIS_DEADZONE ACTION_LEFT ACTION_RIGHT
      else if code = 1 then
        if analog = Some ''0'' then (ACTION_NONE, True)
        else axis_action value (- UI_ABS_AXIS_DEADZONE) UI_ABS_AXIS_DEADZONE ACTION_UP ACTION_DOWN
      else if code = 16 then axis_action value (- 1) 1 ACTION_LEFT ACTION_RIGHT
      else if code = 17 then axis_action value (- 1) 1 ACTION_UP ACTION_DOWN
      else (ACTION_NONE, False))"

definition action_from_stdin_char :: "char \<Rightarrow> ui_action" where
  "action_from_stdin_char ch =
     (if ch \<in> set ''wW'' then ACTION_UP
      else if ch \<in> set ''sS'' then ACTION_DOWN
      else if ch \<in> set ''aA'' then ACTION_LEFT
      else if ch \<in> set ''dD'' then ACTION_RIGHT
      else if ch \<in> set ''eE '' \<or> ch = NL then ACTION_A
      else if ch \<in> set ''bB'' then ACTION_B
      else if ch \<in> set ''mM'' then ACTION_START
      else if ch \<in> set ''cC'' then ACTION_SELECT
      else if ch \<in> set ''pP'' then ACTION_POWER
      else if ch \<in> set ''xX'' then ACTION_X
      else if ch \<in> set ''yY'' then ACTION_Y
      else if ch \<in> set ''-['' then ACTION_VOLUME_DOWN
      else if ch \<in> set ''+=]'' then ACTION_VOLUME_UP
      else if ch \<in> set ''qQ'' then ACTION_QUIT
      else ACTION_NONE)"

definition action_from_script_token :: "string \<Rightarrow> ui_action" where
  "action_from_script_token token =
     (if token = ''up'' then ACTION_UP
      else if token = ''down'' then ACTION_DOWN
      else if token = ''left'' then ACTION_LEFT
      else if token = ''right'' then ACTION_RIGHT
      else if token \<in> {''a'', ''open''} then ACTION_A
      else if token \<in> {''b'', ''back''} then ACTION_B
      else if token = ''start'' then ACTION_START
      else if token = ''select'' then ACTION_SELECT
      else if token \<in> {''x'', ''gallery''} then ACTION_X
      else if token \<in> {''y'', ''favorite'', ''favourite''} then ACTION_Y
      else if token \<in> {''power'', ''power_menu'', ''safe''} then ACTION_POWER
      else if token = ''function'' then ACTION_FUNCTION
      else if token \<in> {''volume_down'', ''volumedown'', ''voldown''} then ACTION_VOLUME_DOWN
      else if token \<in> {''volume_up'', ''volumeup'', ''volup''} then ACTION_VOLUME_UP
      else if token \<in> {''q'', ''quit''} then ACTION_QUIT
      else ACTION_NONE)"

section \<open>What repeats\<close>

text \<open>The part of the state the repetition looks at; the setting is the one under the cursor, when there is one.\<close>

datatype wifi_connect_stage = WIFI_CONNECT_SELECT | WIFI_CONNECT_PASSWORD | WIFI_CONNECT_RESULT

record ui_view =
  vw_screen :: ui_screen
  vw_wifi_stage :: wifi_connect_stage
  vw_graphic_top_uses_strip :: bool
  vw_brightness_test :: bool
  vw_setting :: "setting_entry option"

definition settings_value_action_repeats :: "ui_view \<Rightarrow> ui_action \<Rightarrow> bool" where
  "settings_value_action_repeats ui action \<longleftrightarrow>
     vw_screen ui = SCREEN_SETTINGS \<and> (action = ACTION_LEFT \<or> action = ACTION_RIGHT) \<and>
     (case vw_setting ui of
        None \<Rightarrow> False
      | Some entry \<Rightarrow>
          setting_control_type_for_id (se_id entry) \<in> {SETTING_CONTROL_NUMBER, SETTING_CONTROL_CHOICE} \<and> se_available entry \<and>
          (setting_is_writable (se_id entry) \<or> strncmp_eq (se_id entry) ''performance_'' 12))"

definition action_repeat_interval_ms :: "ui_view \<Rightarrow> ui_action \<Rightarrow> int" where
  "action_repeat_interval_ms ui action =
     (if action = ACTION_UP \<or> action = ACTION_DOWN then UI_KEY_REPEAT_INTERVAL_MS
      else if action = ACTION_VOLUME_DOWN \<or> action = ACTION_VOLUME_UP then UI_KEY_REPEAT_INTERVAL_MS
      else if vw_screen ui = SCREEN_WIFI_CONNECT \<and> vw_wifi_stage ui = WIFI_CONNECT_PASSWORD \<and>
          (action = ACTION_LEFT \<or> action = ACTION_RIGHT) then UI_KEY_REPEAT_INTERVAL_MS
      else if vw_screen ui = SCREEN_TOP \<and> vw_graphic_top_uses_strip ui \<and> (action = ACTION_LEFT \<or> action = ACTION_RIGHT)
        then UI_KEY_REPEAT_INTERVAL_MS
      else if vw_screen ui = SCREEN_GALLERY \<and> (action = ACTION_LEFT \<or> action = ACTION_RIGHT) then UI_KEY_REPEAT_INTERVAL_MS
      else if vw_screen ui = SCREEN_SETTINGS \<and> vw_brightness_test ui \<and> (action = ACTION_LEFT \<or> action = ACTION_RIGHT)
        then UI_KEY_REPEAT_INTERVAL_MS
      else if settings_value_action_repeats ui action then UI_SETTING_VALUE_REPEAT_INTERVAL_MS
      else 0)"

section \<open>Reading events\<close>

record input_state =
  in_repeat_action :: ui_action
  in_repeat_key_code :: int
  in_repeat_next_ms :: int
  in_ignore_input_until_ms :: int
  in_stdin_active :: bool
  in_status :: string

record input_env =
  en_bubble :: bool
  en_analog :: "string option"

definition repeat_off :: "input_state \<Rightarrow> input_state" where
  "repeat_off st = st\<lparr>in_repeat_action := ACTION_NONE, in_repeat_key_code := 0, in_repeat_next_ms := 0\<rparr>"

definition release_code :: "int \<Rightarrow> input_state \<Rightarrow> input_state" where
  "release_code code st =
     (if in_repeat_action st \<noteq> ACTION_NONE \<and> in_repeat_key_code st = code then repeat_off st else st)"

definition start_repeat :: "ui_action \<Rightarrow> int \<Rightarrow> int \<Rightarrow> input_state \<Rightarrow> input_state" where
  "start_repeat action code next_ms st = st\<lparr>in_repeat_action := action, in_repeat_key_code := code, in_repeat_next_ms := next_ms\<rparr>"

definition unmapped_status :: "int \<Rightarrow> int \<Rightarrow> string" where
  "unmapped_status code value = take 255 (''unmapped key code='' @ show_int code @ '' value='' @ show_int value)"

definition read_key_event :: "input_env \<Rightarrow> ui_view \<Rightarrow> bool \<Rightarrow> ui_input_event \<Rightarrow> ui_action \<times> input_state \<Rightarrow> ui_action \<times> input_state" where
  "read_key_event env ui power_only ev ast =
     (case ast of (action, st) \<Rightarrow>
        if power_only \<and> ie_code ev \<noteq> KEY_POWER then (action, st)
        else let event_action = action_from_key_code (en_bubble env) (ie_code ev) in
          if ie_value ev = 0 then (action, if power_only then st else release_code (ie_code ev) st)
          else
            let interval = (if power_only then 0 else action_repeat_interval_ms ui event_action);
                (action1, st1) =
                  (if ie_value ev = 1 \<or> ie_value ev = 2 then
                     (event_action,
                      if 0 < interval then
                        start_repeat event_action (ie_code ev)
                          (ie_now ev + (if ie_value ev = 1 then UI_KEY_REPEAT_DELAY_MS else interval)) st
                      else st)
                   else (action, st))
            in (action1,
                if event_action = ACTION_NONE \<and> ie_value ev = 1 \<and> \<not> power_only
                then st1\<lparr>in_status := unmapped_status (ie_code ev) (ie_value ev)\<rparr> else st1))"

definition read_abs_event :: "input_env \<Rightarrow> ui_view \<Rightarrow> ui_input_event \<Rightarrow> ui_action \<times> input_state \<Rightarrow> ui_action \<times> input_state" where
  "read_abs_event env ui ev ast =
     (case ast of (action, st) \<Rightarrow>
        case action_from_abs_event (en_analog env) (ie_code ev) (ie_value ev) of
          (event_action, released) \<Rightarrow>
            let repeat_code = UI_ABS_REPEAT_CODE_BASE + ie_code ev in
            if released then (action, release_code repeat_code st)
            else if event_action \<noteq> ACTION_NONE then
              if in_repeat_action st = event_action \<and> in_repeat_key_code st = repeat_code then (action, st)
              else (event_action,
                    if 0 < action_repeat_interval_ms ui event_action
                    then start_repeat event_action repeat_code (ie_now ev + UI_KEY_REPEAT_DELAY_MS) st else st)
            else (action, st))"

definition read_event :: "input_env \<Rightarrow> ui_view \<Rightarrow> bool \<Rightarrow> ui_action \<times> input_state \<Rightarrow> ui_input_event \<Rightarrow> ui_action \<times> input_state" where
  "read_event env ui power_only ast ev =
     (if ie_type ev = EV_KEY then read_key_event env ui power_only ev ast
      else if \<not> power_only \<and> ie_type ev = EV_ABS then read_abs_event env ui ev ast
      else ast)"

definition read_input_actions :: "input_env \<Rightarrow> ui_view \<Rightarrow> bool \<Rightarrow> ui_input_event list \<Rightarrow> ui_action \<times> input_state \<Rightarrow> ui_action \<times> input_state" where
  "read_input_actions env ui power_only evs ast = foldl (read_event env ui power_only) ast evs"

section \<open>One turn of the event loop\<close>

text \<open>
  What waiting gives: nothing, or the events that can be read on the controller and on the power key and what the terminal
  gives (nothing at its end). The clock is read once per turn, and once per event.
\<close>

datatype wait_result = Wait_timeout | Wait_ready "ui_input_event list" "ui_input_event list" "string option"

definition take_repeat :: "ui_view \<Rightarrow> int \<Rightarrow> input_state \<Rightarrow> ui_action \<times> input_state" where
  "take_repeat ui now st =
     (if in_repeat_action st \<noteq> ACTION_NONE \<and> in_repeat_next_ms st \<le> now then
        let interval = action_repeat_interval_ms ui (in_repeat_action st) in
        if 0 < interval then (in_repeat_action st, st\<lparr>in_repeat_next_ms := now + interval\<rparr>)
        else (ACTION_NONE, repeat_off st)
      else (ACTION_NONE, st))"

definition read_stdin :: "string option \<Rightarrow> ui_action \<times> input_state \<Rightarrow> ui_action \<times> input_state" where
  "read_stdin input ast =
     (case ast of (action, st) \<Rightarrow>
        if \<not> in_stdin_active st then (action, st)
        else case input of
          None \<Rightarrow> (action, st)
        | Some [] \<Rightarrow> (action, st\<lparr>in_stdin_active := False\<rparr>)
        | Some cs \<Rightarrow>
            (foldl (\<lambda>a c. if action_from_stdin_char c \<noteq> ACTION_NONE then action_from_stdin_char c else a) action (take 32 cs), st))"

definition event_loop_turn :: "input_env \<Rightarrow> ui_view \<Rightarrow> int \<Rightarrow> wait_result \<Rightarrow> input_state \<Rightarrow> ui_action \<times> input_state" where
  "event_loop_turn env ui now waited st =
     (case waited of
        Wait_timeout \<Rightarrow> take_repeat ui now st
      | Wait_ready controller pwr input \<Rightarrow>
          if now < in_ignore_input_until_ms st then (ACTION_NONE, st)
          else
            (case read_stdin input (read_input_actions env ui True pwr (read_input_actions env ui False controller (ACTION_NONE, st))) of
               (action, st1) \<Rightarrow> if action = ACTION_NONE then take_repeat ui now st1 else (action, st1)))"

text \<open>After another program ran: what is there to read is dropped until it is quiet, and what comes in the next moment is dropped too.\<close>

definition settle_input_after_child :: "int \<Rightarrow> input_state \<Rightarrow> input_state" where
  "settle_input_after_child now st = st\<lparr>in_ignore_input_until_ms := now + 750\<rparr>"

text \<open>A script: the actions of its words between the commas, up to the first that quits; empty words are skipped.\<close>

fun until_quit :: "ui_action list \<Rightarrow> ui_action list" where
  "until_quit [] = []"
| "until_quit (a # as) = (if a = ACTION_QUIT then [a] else a # until_quit as)"

definition run_script :: "string \<Rightarrow> ui_action list" where
  "run_script script =
     until_quit (map (\<lambda>token. action_from_script_token (dropWhile isspace token)) (filter (\<lambda>t. t \<noteq> []) (split_char CHR '','' script)))"

end
