(* ===== verification/UiInputProofs.thy ===== *)
theory UiInputProofs
  imports UiInput
begin

text \<open>
  What the input guarantees: while no event is lost an action only repeats for a key that is held, not more often than its interval; and
  what goes wrong when the release of a key is dropped.
\<close>

section \<open>The keys that are held\<close>

text \<open>The keys and directions that are down, from the events of the controller alone.\<close>

definition hold_event :: "input_env \<Rightarrow> int set \<Rightarrow> ui_input_event \<Rightarrow> int set" where
  "hold_event env held ev =
     (if ie_type ev = EV_KEY then
        if ie_value ev = 0 then held - {ie_code ev}
        else if ie_value ev = 1 \<or> ie_value ev = 2 then insert (ie_code ev) held
        else held
      else if ie_type ev = EV_ABS then
        (case action_from_abs_event (en_analog env) (ie_code ev) (ie_value ev) of
           (a, released) \<Rightarrow>
             if released then held - {UI_ABS_REPEAT_CODE_BASE + ie_code ev}
             else if a \<noteq> ACTION_NONE then insert (UI_ABS_REPEAT_CODE_BASE + ie_code ev) held
             else held)
      else held)"

definition repeat_held :: "int set \<Rightarrow> input_state \<Rightarrow> bool" where
  "repeat_held held st \<longleftrightarrow> in_repeat_action st = ACTION_NONE \<or> in_repeat_key_code st \<in> held"

text \<open>A step of a session: a turn of the loop, or another program that ran, with the events that were dropped meanwhile.\<close>

datatype session_event = Turn ui_view int wait_result | Child int "ui_input_event list"

fun session_step :: "input_env \<Rightarrow> input_state \<times> int set \<Rightarrow> session_event \<Rightarrow> input_state \<times> int set" where
  "session_step env (st, held) (Turn ui now waited) =
     (snd (event_loop_turn env ui now waited st),
      case waited of Wait_timeout \<Rightarrow> held | Wait_ready controller pwr input \<Rightarrow> foldl (hold_event env) held controller)"
| "session_step env (st, held) (Child now dropped) = (settle_input_after_child now st, foldl (hold_event env) held dropped)"

fun drops_nothing :: "input_state \<times> int set \<Rightarrow> session_event \<Rightarrow> bool" where
  "drops_nothing (st, held) (Turn ui now waited) \<longleftrightarrow>
     (case waited of Wait_timeout \<Rightarrow> True
      | Wait_ready controller pwr input \<Rightarrow> (controller = [] \<or> in_ignore_input_until_ms st \<le> now) \<and> list_all event_ok controller)"
| "drops_nothing (st, held) (Child now dropped) \<longleftrightarrow> dropped = []"

fun session_ok :: "input_env \<Rightarrow> input_state \<times> int set \<Rightarrow> session_event list \<Rightarrow> bool" where
  "session_ok env s [] \<longleftrightarrow> True"
| "session_ok env s (x # xs) \<longleftrightarrow> drops_nothing s x \<and> session_ok env (session_step env s x) xs"

lemma repeat_off_held [simp]: "repeat_held held (repeat_off st)"
  by (simp add: repeat_held_def repeat_off_def)

lemma release_code_held: "repeat_held held st \<Longrightarrow> repeat_held (held - {code}) (release_code code st)"
  by (auto simp: release_code_def repeat_held_def repeat_off_def)

lemma start_repeat_held [simp]: "repeat_held (insert code held) (start_repeat a code t st)"
  by (simp add: start_repeat_def repeat_held_def)

lemma repeat_held_mono: "repeat_held held st \<Longrightarrow> repeat_held (insert code held) st"
  by (auto simp: repeat_held_def)

lemma repeat_held_status [simp]: "repeat_held held (st\<lparr>in_status := s\<rparr>) = repeat_held held st"
  by (simp add: repeat_held_def)

lemma read_event_held:
  assumes "repeat_held held (snd ast)"
  shows "repeat_held (hold_event env held ev) (snd (read_event env ui False ast ev))"
proof (cases "ie_type ev = EV_KEY")
  case key: True
  show ?thesis
  proof (cases "ie_value ev = 0")
    case True
    with key assms show ?thesis
      by (cases ast) (simp add: read_event_def read_key_event_def hold_event_def Let_def release_code_held)
  next
    case False
    with key assms show ?thesis
      by (cases ast; cases "ie_value ev = 1 \<or> ie_value ev = 2")
        (auto simp: read_event_def read_key_event_def hold_event_def Let_def repeat_held_mono)
  qed
next
  case False
  show ?thesis
  proof (cases "ie_type ev = EV_ABS")
    case True
    with False assms show ?thesis
      by (cases ast; cases "action_from_abs_event (en_analog env) (ie_code ev) (ie_value ev)")
        (auto simp: read_event_def read_abs_event_def hold_event_def Let_def release_code_held repeat_held_mono)
  qed (use False assms in \<open>simp add: read_event_def hold_event_def\<close>)
qed

lemma read_input_actions_held:
  "repeat_held held (snd ast) \<Longrightarrow> repeat_held (foldl (hold_event env) held evs) (snd (read_input_actions env ui False evs ast))"
  unfolding read_input_actions_def
  by (induction evs arbitrary: held ast) (simp_all add: read_event_held)

text \<open>The power key and the terminal never start a repetition.\<close>

lemma power_keeps_repeat:
  "in_repeat_action (snd (read_input_actions env ui True evs ast)) = in_repeat_action (snd ast) \<and>
   in_repeat_key_code (snd (read_input_actions env ui True evs ast)) = in_repeat_key_code (snd ast)"
proof -
  have one: "in_repeat_action (snd (read_event env ui True ast ev)) = in_repeat_action (snd ast) \<and>
      in_repeat_key_code (snd (read_event env ui True ast ev)) = in_repeat_key_code (snd ast)" for ast ev
    by (cases ast) (auto simp: read_event_def read_key_event_def Let_def)
  show ?thesis unfolding read_input_actions_def by (induction evs arbitrary: ast) (simp_all add: one)
qed

lemma read_stdin_keeps_repeat:
  "in_repeat_action (snd (read_stdin input ast)) = in_repeat_action (snd ast) \<and>
   in_repeat_key_code (snd (read_stdin input ast)) = in_repeat_key_code (snd ast)"
  by (auto simp: read_stdin_def split: prod.splits option.splits list.splits)

lemma repeat_held_same:
  "in_repeat_action st' = in_repeat_action st \<Longrightarrow> in_repeat_key_code st' = in_repeat_key_code st \<Longrightarrow> repeat_held held st' = repeat_held held st"
  by (simp add: repeat_held_def)

lemma take_repeat_held: "repeat_held held st \<Longrightarrow> repeat_held held (snd (take_repeat ui now st))"
  by (cases "0 < action_repeat_interval_ms ui (in_repeat_action st)") (auto simp: take_repeat_def Let_def repeat_held_def repeat_off_def)

lemma one_of_two: "x \<in> S \<Longrightarrow> y \<in> S \<Longrightarrow> (if c then x else y) \<in> S"
  by simp

lemma repeat_interval_cases:
  "action_repeat_interval_ms ui a \<in> {0, UI_KEY_REPEAT_INTERVAL_MS, UI_SETTING_VALUE_REPEAT_INTERVAL_MS}"
  unfolding action_repeat_interval_ms_def by (intro one_of_two) simp_all

lemma repeat_interval_pos: "0 < action_repeat_interval_ms ui a \<Longrightarrow> UI_KEY_REPEAT_INTERVAL_MS \<le> action_repeat_interval_ms ui a"
  using repeat_interval_cases [of ui a] by (auto simp: UI_KEY_REPEAT_INTERVAL_MS_def UI_SETTING_VALUE_REPEAT_INTERVAL_MS_def)

lemma session_step_held:
  assumes held: "repeat_held held st" and ok: "drops_nothing (st, held) x" and step: "session_step env (st, held) x = (st', held')"
  shows "repeat_held held' st'"
proof (cases x)
  case (Child now dropped)
  with ok step have "held' = held" "st' = settle_input_after_child now st" by simp_all
  with held show ?thesis by (simp add: settle_input_after_child_def repeat_held_def)
next
  case (Turn ui now waited)
  show ?thesis
  proof (cases waited)
    case Wait_timeout
    with Turn step held take_repeat_held show ?thesis by (auto simp: event_loop_turn_def)
  next
    case (Wait_ready controller pwr input)
    show ?thesis
    proof (cases "now < in_ignore_input_until_ms st")
      case True
      with Turn Wait_ready step held ok show ?thesis by (auto simp: event_loop_turn_def)
    next
      case False
      define read1 where "read1 = read_input_actions env ui False controller (ACTION_NONE, st)"
      define read3 where "read3 = read_stdin input (read_input_actions env ui True pwr read1)"
      have "repeat_held (foldl (hold_event env) held controller) (snd read1)"
        unfolding read1_def by (rule read_input_actions_held) (simp add: held)
      then have three: "repeat_held (foldl (hold_event env) held controller) (snd read3)"
        using repeat_held_same power_keeps_repeat read_stdin_keeps_repeat unfolding read3_def by metis
      have "st' = snd (case read3 of (action, st1) \<Rightarrow> if action = ACTION_NONE then take_repeat ui now st1 else (action, st1))"
          and "held' = foldl (hold_event env) held controller"
        using Turn Wait_ready step False by (simp_all add: event_loop_turn_def read1_def read3_def)
      with three take_repeat_held show ?thesis by (cases read3) auto
    qed
  qed
qed

text \<open>What the events of a turn give, before any repetition.\<close>

definition after_events :: "input_env \<Rightarrow> ui_view \<Rightarrow> wait_result \<Rightarrow> input_state \<Rightarrow> ui_action \<times> input_state" where
  "after_events env ui waited st =
     (case waited of
        Wait_timeout \<Rightarrow> (ACTION_NONE, st)
      | Wait_ready controller pwr input \<Rightarrow>
          read_stdin input (read_input_actions env ui True pwr (read_input_actions env ui False controller (ACTION_NONE, st))))"

text \<open>A turn repeats when it gives an action although its events give none.\<close>

definition repeats_in :: "input_env \<Rightarrow> ui_view \<Rightarrow> int \<Rightarrow> wait_result \<Rightarrow> input_state \<Rightarrow> bool" where
  "repeats_in env ui now waited st \<longleftrightarrow>
     fst (event_loop_turn env ui now waited st) \<noteq> ACTION_NONE \<and> fst (after_events env ui waited st) = ACTION_NONE"

lemma repeats_in_turn:
  assumes "repeats_in env ui now waited st" and "snd (after_events env ui waited st) = st1"
  shows "event_loop_turn env ui now waited st = (in_repeat_action st1, st1\<lparr>in_repeat_next_ms := now + action_repeat_interval_ms ui (in_repeat_action st1)\<rparr>)"
    and "in_repeat_action st1 \<noteq> ACTION_NONE" and "in_repeat_next_ms st1 \<le> now"
    and "UI_KEY_REPEAT_INTERVAL_MS \<le> action_repeat_interval_ms ui (in_repeat_action st1)"
proof -
  have "event_loop_turn env ui now waited st = (ACTION_NONE, st) \<or> event_loop_turn env ui now waited st = take_repeat ui now st1"
    using assms by (cases "after_events env ui waited st") (auto simp: repeats_in_def after_events_def event_loop_turn_def split: wait_result.splits)
  then have turn: "event_loop_turn env ui now waited st = take_repeat ui now st1" "fst (take_repeat ui now st1) \<noteq> ACTION_NONE"
    using assms(1) by (auto simp: repeats_in_def)
  from turn(2) have t: "in_repeat_action st1 \<noteq> ACTION_NONE" "in_repeat_next_ms st1 \<le> now" "0 < action_repeat_interval_ms ui (in_repeat_action st1)"
    by (auto simp: take_repeat_def Let_def split: if_splits)
  then show "event_loop_turn env ui now waited st = (in_repeat_action st1, st1\<lparr>in_repeat_next_ms := now + action_repeat_interval_ms ui (in_repeat_action st1)\<rparr>)"
    unfolding turn(1) by (simp add: take_repeat_def Let_def)
  show "in_repeat_action st1 \<noteq> ACTION_NONE" "in_repeat_next_ms st1 \<le> now"
    "UI_KEY_REPEAT_INTERVAL_MS \<le> action_repeat_interval_ms ui (in_repeat_action st1)"
    using t repeat_interval_pos by simp_all
qed

lemma session_held:
  "repeat_held held st \<Longrightarrow> session_ok env (st, held) steps \<Longrightarrow>
     repeat_held (snd (foldl (session_step env) (st, held) steps)) (fst (foldl (session_step env) (st, held) steps))"
proof (induction steps arbitrary: st held)
  case (Cons x xs)
  obtain st' held' where step: "session_step env (st, held) x = (st', held')" by (cases "session_step env (st, held) x")
  have "repeat_held held' st'" by (rule session_step_held [OF Cons.prems(1) _ step]) (use Cons.prems in simp)
  with Cons.IH [of held' st'] Cons.prems step show ?case by simp
qed simp

text \<open>
  C27: an action repeats only for a key that is held, and in time. When no event of the controller is dropped, then after any session the
  key whose action repeats is down; and a turn of the loop, with or without events, that gives an action although its events give
  none, gives the action that repeats after these events, for a key that is down after them, when its time has come, and then not again
  before the interval of the action, which is at least 95 ms, has passed.
\<close>

theorem repeats_only_held_keys:
  assumes start: "in_repeat_action st0 = ACTION_NONE" and ok: "session_ok env (st0, {}) steps"
    and run: "foldl (session_step env) (st0, {}) steps = (st, held)"
  shows "(in_repeat_action st \<noteq> ACTION_NONE \<longrightarrow> in_repeat_key_code st \<in> held) \<and>
    (\<forall>ui now waited. drops_nothing (st, held) (Turn ui now waited) \<and> repeats_in env ui now waited st \<longrightarrow>
       (let (a, st') = event_loop_turn env ui now waited st; st1 = snd (after_events env ui waited st) in
        a = in_repeat_action st1 \<and> in_repeat_key_code st1 \<in> snd (session_step env (st, held) (Turn ui now waited)) \<and>
        in_repeat_next_ms st1 \<le> now \<and> in_repeat_next_ms st' = now + action_repeat_interval_ms ui a \<and>
        UI_KEY_REPEAT_INTERVAL_MS \<le> action_repeat_interval_ms ui a))"
proof -
  have inv: "repeat_held held st" using session_held [of "{}" st0 env steps] start ok run by (simp add: repeat_held_def)
  have "let (a, st') = event_loop_turn env ui now waited st; st1 = snd (after_events env ui waited st) in
        a = in_repeat_action st1 \<and> in_repeat_key_code st1 \<in> snd (session_step env (st, held) (Turn ui now waited)) \<and>
        in_repeat_next_ms st1 \<le> now \<and> in_repeat_next_ms st' = now + action_repeat_interval_ms ui a \<and>
        UI_KEY_REPEAT_INTERVAL_MS \<le> action_repeat_interval_ms ui a"
    if "drops_nothing (st, held) (Turn ui now waited)" and r: "repeats_in env ui now waited st" for ui now waited
  proof -
    note turn = repeats_in_turn [OF r refl]
    obtain held' where step: "session_step env (st, held) (Turn ui now waited) = (snd (event_loop_turn env ui now waited st), held')" by simp
    from session_step_held [OF inv that(1) step] turn(1,2) have "in_repeat_key_code (snd (after_events env ui waited st)) \<in> held'"
      by (simp add: repeat_held_def)
    with turn step show ?thesis by (simp add: Let_def)
  qed
  with inv show ?thesis unfolding repeat_held_def by blast
qed

definition demo_view :: ui_view where
  "demo_view = \<lparr>vw_screen = SCREEN_ROMS, vw_wifi_stage = WIFI_CONNECT_SELECT, vw_graphic_top_uses_strip = False,
     vw_brightness_test = False, vw_setting = None\<rparr>"

definition demo_input :: input_state where
  "demo_input = \<lparr>in_repeat_action = ACTION_NONE, in_repeat_key_code = 0, in_repeat_next_ms = 0, in_ignore_input_until_ms = 0,
     in_stdin_active = False, in_status = []\<rparr>"

definition demo_input_env :: input_env where
  "demo_input_env = \<lparr>en_bubble = True, en_analog = None\<rparr>"

abbreviation key_event :: "int \<Rightarrow> int \<Rightarrow> int \<Rightarrow> ui_input_event" where
  "key_event code value now \<equiv> \<lparr>ie_type = 1, ie_code = code, ie_value = value, ie_now = now\<rparr>"

text \<open>The state while UP is held from the time 1000 on.\<close>

definition up_held :: input_state where
  "up_held = demo_input\<lparr>in_repeat_action := ACTION_UP, in_repeat_key_code := 103, in_repeat_next_ms := 1350\<rparr>"

lemma press_up:
  "foldl (session_step demo_input_env) (demo_input, {}) [Turn demo_view 1000 (Wait_ready [key_event 103 1 1000] [] None)] = (up_held, {103})"
  by (simp add: event_loop_turn_def demo_input_def read_input_actions_def read_event_def read_key_event_def EV_KEY_def demo_input_env_def
      action_from_key_code_def action_repeat_interval_ms_def UI_KEY_REPEAT_INTERVAL_MS_def UI_KEY_REPEAT_DELAY_MS_def start_repeat_def
      read_stdin_def hold_event_def up_held_def Let_def)

theorem repeats_only_held_keys_witness:
  "in_repeat_key_code up_held \<in> {103} \<and> fst (event_loop_turn demo_input_env demo_view 1350 (Wait_ready [] [] None) up_held) = ACTION_UP \<and>
   in_repeat_next_ms (snd (event_loop_turn demo_input_env demo_view 1350 (Wait_ready [] [] None) up_held)) = 1350 + 95"
proof -
  have ok: "session_ok demo_input_env (demo_input, {}) [Turn demo_view 1000 (Wait_ready [key_event 103 1 1000] [] None)]"
    by (simp add: demo_input_def event_ok_def)
  have "in_repeat_action demo_input = ACTION_NONE" by (simp add: demo_input_def)
  note all = repeats_only_held_keys [OF this ok press_up]
  have turn: "fst (event_loop_turn demo_input_env demo_view 1350 (Wait_ready [] [] None) up_held) = ACTION_UP"
    by (simp add: event_loop_turn_def take_repeat_def up_held_def action_repeat_interval_ms_def UI_KEY_REPEAT_INTERVAL_MS_def Let_def
        demo_input_def read_input_actions_def read_stdin_def)
  then have r: "repeats_in demo_input_env demo_view 1350 (Wait_ready [] [] None) up_held"
    by (simp add: repeats_in_def after_events_def read_input_actions_def read_stdin_def)
  have d: "drops_nothing (up_held, {103}) (Turn demo_view 1350 (Wait_ready [] [] None))" by simp
  have "in_repeat_action up_held \<noteq> ACTION_NONE" by (simp add: up_held_def)
  moreover from all d r have "in_repeat_next_ms (snd (event_loop_turn demo_input_env demo_view 1350 (Wait_ready [] [] None) up_held)) =
      1350 + action_repeat_interval_ms demo_view (fst (event_loop_turn demo_input_env demo_view 1350 (Wait_ready [] [] None) up_held))"
    unfolding Let_def case_prod_beta' by blast
  ultimately show ?thesis using all turn by (simp add: action_repeat_interval_ms_def UI_KEY_REPEAT_INTERVAL_MS_def)
qed

section \<open>How often\<close>

fun waiting_turns :: "input_env \<Rightarrow> (ui_view \<times> int) list \<Rightarrow> input_state \<Rightarrow> ui_action list" where
  "waiting_turns env [] st = []"
| "waiting_turns env ((ui, now) # ts) st =
     (case event_loop_turn env ui now Wait_timeout st of (a, st') \<Rightarrow> (if a = ACTION_NONE then [] else [a]) @ waiting_turns env ts st')"

text \<open>The times at which a session repeats an action.\<close>

fun repeat_times :: "input_env \<Rightarrow> input_state \<Rightarrow> session_event list \<Rightarrow> int list" where
  "repeat_times env st [] = []"
| "repeat_times env st (Turn ui now waited # xs) =
     (if repeats_in env ui now waited st then [now] else []) @ repeat_times env (snd (event_loop_turn env ui now waited st)) xs"
| "repeat_times env st (Child now dropped # xs) = repeat_times env (settle_input_after_child now st) xs"

text \<open>The clock does not go back: an event is not read before the turn that came before.\<close>

fun clock_from :: "int \<Rightarrow> session_event list \<Rightarrow> bool" where
  "clock_from t [] \<longleftrightarrow> True"
| "clock_from t (Turn ui now waited # xs) \<longleftrightarrow> t \<le> now \<and>
     (case waited of Wait_timeout \<Rightarrow> True | Wait_ready controller pwr input \<Rightarrow> list_all (\<lambda>ev. t \<le> ie_now ev) controller) \<and> clock_from now xs"
| "clock_from t (Child now dropped # xs) \<longleftrightarrow> t \<le> now \<and> clock_from now xs"

definition not_before :: "int \<Rightarrow> input_state \<Rightarrow> bool" where
  "not_before l st \<longleftrightarrow> in_repeat_action st = ACTION_NONE \<or> l \<le> in_repeat_next_ms st"

lemma not_before_simps [simp]:
  "not_before l (repeat_off st)" "not_before l (st\<lparr>in_status := x\<rparr>) = not_before l st"
  "not_before l (settle_input_after_child now st) = not_before l st" "l \<le> t \<Longrightarrow> not_before l (start_repeat a code t st)"
  by (simp_all add: not_before_def repeat_off_def settle_input_after_child_def start_repeat_def)

lemma not_before_release: "not_before l st \<Longrightarrow> not_before l (release_code code st)"
  by (simp add: release_code_def)

lemma read_event_not_before:
  assumes "not_before l (snd ast)" and "l \<le> ie_now ev + UI_KEY_REPEAT_INTERVAL_MS"
  shows "not_before l (snd (read_event env ui False ast ev))"
proof -
  have delay: "UI_KEY_REPEAT_INTERVAL_MS \<le> UI_KEY_REPEAT_DELAY_MS" by (simp add: UI_KEY_REPEAT_INTERVAL_MS_def UI_KEY_REPEAT_DELAY_MS_def)
  have step: "0 < action_repeat_interval_ms ui a \<Longrightarrow> l \<le> ie_now ev + action_repeat_interval_ms ui a" for a
    using assms(2) repeat_interval_pos [of ui a] by simp
  show ?thesis
  proof (cases "ie_type ev = EV_KEY")
    case True
    with assms delay step show ?thesis
      by (cases ast; cases "ie_value ev = 0"; cases "ie_value ev = 1 \<or> ie_value ev = 2")
        (auto simp: read_event_def read_key_event_def Let_def not_before_release)
  next
    case False
    with assms delay show ?thesis
      by (cases ast; cases "action_from_abs_event (en_analog env) (ie_code ev) (ie_value ev)")
        (auto simp: read_event_def read_abs_event_def Let_def not_before_release)
  qed
qed

lemma power_keeps_next: "in_repeat_next_ms (snd (read_input_actions env ui True evs ast)) = in_repeat_next_ms (snd ast)"
proof -
  have one: "in_repeat_next_ms (snd (read_event env ui True ast ev)) = in_repeat_next_ms (snd ast)" for ast ev
    by (cases ast) (auto simp: read_event_def read_key_event_def Let_def)
  show ?thesis unfolding read_input_actions_def by (induction evs arbitrary: ast) (simp_all add: one)
qed

lemma read_stdin_keeps_next: "in_repeat_next_ms (snd (read_stdin input ast)) = in_repeat_next_ms (snd ast)"
  by (auto simp: read_stdin_def split: prod.splits option.splits list.splits)

lemma after_events_not_before:
  assumes "not_before l st" and "l \<le> t + UI_KEY_REPEAT_INTERVAL_MS" and "clock_from t [Turn ui now waited]"
  shows "not_before l (snd (after_events env ui waited st))"
proof (cases waited)
  case (Wait_ready controller pwr input)
  have "list_all (\<lambda>ev. t \<le> ie_now ev) evs \<Longrightarrow> not_before l (snd ast) \<Longrightarrow> not_before l (snd (read_input_actions env ui False evs ast))" for evs ast
    unfolding read_input_actions_def
  proof (induction evs arbitrary: ast)
    case (Cons ev evs)
    with assms(2) read_event_not_before [of l ast ev env ui] show ?case by simp
  qed simp
  with assms(1,3) Wait_ready have "not_before l (snd (read_input_actions env ui False controller (ACTION_NONE, st)))" by simp
  with Wait_ready show ?thesis
    by (simp add: after_events_def not_before_def power_keeps_repeat power_keeps_next read_stdin_keeps_repeat read_stdin_keeps_next)
qed (use assms in \<open>simp add: after_events_def\<close>)

lemma turn_not_before:
  assumes "not_before l (snd (after_events env ui waited st))" and "not_before l st" and "\<not> repeats_in env ui now waited st"
  shows "not_before l (snd (event_loop_turn env ui now waited st))"
proof -
  obtain a1 st1 where e: "after_events env ui waited st = (a1, st1)" by (cases "after_events env ui waited st")
  have none: "fst (take_repeat ui now st1) = ACTION_NONE \<Longrightarrow> not_before l st1 \<Longrightarrow> not_before l (snd (take_repeat ui now st1))" for st1
    by (auto simp: take_repeat_def Let_def)
  show ?thesis
  proof (cases waited)
    case Wait_timeout
    with assms e none [of st] show ?thesis by (simp add: repeats_in_def after_events_def event_loop_turn_def)
  next
    case (Wait_ready controller pwr input)
    with assms e none [of st1] show ?thesis by (auto simp: repeats_in_def after_events_def event_loop_turn_def)
  qed
qed

lemma repeat_times_apart:
  "not_before l st \<Longrightarrow> l \<le> t + UI_KEY_REPEAT_INTERVAL_MS \<Longrightarrow> clock_from t steps \<Longrightarrow>
     (\<forall>x \<in> set (repeat_times env st steps). l \<le> x) \<and>
     sorted_wrt (\<lambda>a b. a + UI_KEY_REPEAT_INTERVAL_MS \<le> b) (repeat_times env st steps)"
proof (induction steps arbitrary: l st t)
  case (Cons x xs)
  show ?case
  proof (cases x)
    case (Child now dropped)
    with Cons.prems Cons.IH [of l "settle_input_after_child now st" now] show ?thesis by simp
  next
    case (Turn ui now waited)
    have t: "t \<le> now" "clock_from now xs" and one: "clock_from t [Turn ui now waited]" using Cons.prems(3) by (simp_all add: Turn)
    have ev: "not_before l (snd (after_events env ui waited st))" by (rule after_events_not_before [OF Cons.prems(1,2) one])
    show ?thesis
    proof (cases "repeats_in env ui now waited st")
      case True
      note turn = repeats_in_turn [OF True refl]
      have l: "l \<le> now" using ev turn(2,3) by (simp add: not_before_def)
      have "not_before (now + UI_KEY_REPEAT_INTERVAL_MS) (snd (event_loop_turn env ui now waited st))"
        using turn(4) unfolding turn(1) by (simp add: not_before_def)
      from Cons.IH [OF this order_refl t(2)] l show ?thesis
        using True by (auto simp: Turn UI_KEY_REPEAT_INTERVAL_MS_def)
    next
      case False
      from Cons.IH [OF turn_not_before [OF ev Cons.prems(1) False] _ t(2)] Cons.prems(2) t(1) False show ?thesis
        by (simp add: Turn)
    qed
  qed
qed simp

lemma apart_count:
  "sorted_wrt (\<lambda>a b. a + d \<le> b) (x # xs) \<Longrightarrow> list_all (\<lambda>y. y \<le> b) (x # xs) \<Longrightarrow> x + (d :: int) * int (length xs) \<le> b"
proof (induction xs arbitrary: x)
  case (Cons y ys)
  then have "y + d * int (length ys) \<le> b" "x + d \<le> y" by simp_all
  then show ?case by (simp add: algebra_simps)
qed simp



section \<open>Lost events\<close>

lemma up_forever:
  "in_repeat_action st = ACTION_UP \<Longrightarrow> in_repeat_next_ms st \<le> start \<Longrightarrow>
     waiting_turns env (map (\<lambda>k. (ui, start + UI_KEY_REPEAT_INTERVAL_MS * int k)) [0 ..< n]) st = replicate n ACTION_UP"
proof (induction n arbitrary: st start)
  case (Suc n)
  have "map (\<lambda>k. (ui, start + UI_KEY_REPEAT_INTERVAL_MS * int k)) [0 ..< Suc n] =
      (ui, start) # map (\<lambda>k. (ui, (start + UI_KEY_REPEAT_INTERVAL_MS) + UI_KEY_REPEAT_INTERVAL_MS * int k)) [0 ..< n]"
    by (simp only: map_upt_Suc) (simp add: algebra_simps)
  moreover have "event_loop_turn env ui start Wait_timeout st = (ACTION_UP, st\<lparr>in_repeat_next_ms := start + UI_KEY_REPEAT_INTERVAL_MS\<rparr>)"
    using Suc.prems by (simp add: event_loop_turn_def take_repeat_def action_repeat_interval_ms_def UI_KEY_REPEAT_INTERVAL_MS_def Let_def)
  moreover have "waiting_turns env (map (\<lambda>k. (ui, (start + UI_KEY_REPEAT_INTERVAL_MS) + UI_KEY_REPEAT_INTERVAL_MS * int k)) [0 ..< n])
      (st\<lparr>in_repeat_next_ms := start + UI_KEY_REPEAT_INTERVAL_MS\<rparr>) = replicate n ACTION_UP"
    by (rule Suc.IH) (use Suc.prems in simp_all)
  ultimately show ?case by simp
qed simp

text \<open>
  A lost release repeats for ever. When UP is held while a game is started and let go while the game runs, the release is dropped: no key is
  down any more, and yet every turn without events goes on giving UP, 95 ms apart, however many turns there are.
\<close>

theorem lost_release_repeats_forever:
  "let (st, held) = foldl (session_step demo_input_env) (demo_input, {})
          [Turn demo_view 1000 (Wait_ready [key_event 103 1 1000] [] None), Child 60000 [key_event 103 0 2000]]
   in held = {} \<and> in_repeat_action st = ACTION_UP \<and>
      (\<forall>n ui. waiting_turns demo_input_env (map (\<lambda>k. (ui, 61000 + UI_KEY_REPEAT_INTERVAL_MS * int k)) [0 ..< n]) st = replicate n ACTION_UP)"
proof -
  have "foldl (session_step demo_input_env) (demo_input, {})
      [Turn demo_view 1000 (Wait_ready [key_event 103 1 1000] [] None), Child 60000 [key_event 103 0 2000]] =
    (settle_input_after_child 60000 up_held, {})"
    using press_up by (simp add: hold_event_def EV_KEY_def)
  moreover have "in_repeat_action (settle_input_after_child 60000 up_held) = ACTION_UP"
      "in_repeat_next_ms (settle_input_after_child 60000 up_held) \<le> 61000"
    by (simp_all add: settle_input_after_child_def up_held_def)
  ultimately show ?thesis by (simp add: up_forever)
qed

text \<open>Of the presses that are read in one turn only the last counts, even when its key means nothing.\<close>

theorem only_the_last_press_counts:
  "fst (read_input_actions env ui False (evs @ [key_event code 1 now]) ast) = action_from_key_code (en_bubble env) code"
proof -
  obtain a st where "read_input_actions env ui False evs ast = (a, st)" by (cases "read_input_actions env ui False evs ast")
  then show ?thesis by (simp add: read_input_actions_def read_event_def read_key_event_def EV_KEY_def Let_def)
qed

end
