(* ===== verification/UiCursor.thy ===== *)
theory UiCursor
  imports UiRoms
begin

text \<open>
  Moving the cursors of the controller UI (\<open>src/frontend/plumos_controller_ui.c\<close>): the window of a list, pages, the list of games with or
  without wrapping, the gallery with its animations, and the tiles of the top screen. The speed of the processor during an
  animation is not modelled.
\<close>

section \<open>Lists\<close>

definition ui_scrolled_window_start :: "nat \<Rightarrow> nat \<Rightarrow> nat \<Rightarrow> nat" where
  "ui_scrolled_window_start cursor cnt window0 =
     (let window = (if window0 = 0 then 1 else window0) in
      if cnt = 0 \<or> cnt \<le> window then 0
      else
        let cursor = (if cnt \<le> cursor then cnt - 1 else cursor);
            start = (if window < cursor + 1 then cursor + 1 - window else 0);
            max_start = cnt - window
        in if max_start < start then max_start else start)"

definition ui_cursor_page_down :: "nat \<Rightarrow> nat \<Rightarrow> nat \<Rightarrow> nat" where
  "ui_cursor_page_down cursor cnt page_size0 =
     (let page_size = (if page_size0 = 0 then 1 else page_size0) in
      if cnt = 0 then cursor
      else if cnt \<le> cursor + page_size then cnt - 1 else cursor + page_size)"

definition ui_cursor_page_up :: "nat \<Rightarrow> nat \<Rightarrow> nat" where
  "ui_cursor_page_up cursor page_size0 =
     (let page_size = (if page_size0 = 0 then 1 else page_size0) in
      if cursor \<le> page_size then 0 else cursor - page_size)"

definition rom_cursor_after_delta :: "ui_state \<Rightarrow> nat \<Rightarrow> int \<Rightarrow> nat" where
  "rom_cursor_after_delta ui base_cursor0 delta =
     (let n = length (ui_rom_entries ui) in
      if n = 0 then 0
      else
        let base_cursor = (if n \<le> base_cursor0 then n - 1 else base_cursor0) in
        if fs_rom_cursor_wrap (ui_frontend_settings ui) \<and> 1 < n then nat ((int base_cursor + delta) mod int n)
        else if delta < 0 then
          (let step = nat (- delta) in if step < base_cursor then base_cursor - step else 0)
        else
          (let next_cursor = base_cursor + nat delta in if n \<le> next_cursor then n - 1 else next_cursor))"

text \<open>The four directions in a list of games; the window is what the renderer shows.\<close>

definition set_rom_cursor :: "ui_state \<Rightarrow> nat \<Rightarrow> ui_state" where
  "set_rom_cursor ui cursor =
     (if cursor \<noteq> ui_rom_cursor ui then remember_current_rom_cursor (ui\<lparr>ui_rom_cursor := cursor\<rparr>) else ui)"

definition move_rom_list :: "nat \<Rightarrow> ui_state \<Rightarrow> ui_action \<Rightarrow> ui_state" where
  "move_rom_list window ui action =
     (if action = ACTION_UP then set_rom_cursor ui (rom_cursor_after_delta ui (ui_rom_cursor ui) (- 1))
      else if action = ACTION_DOWN then set_rom_cursor ui (rom_cursor_after_delta ui (ui_rom_cursor ui) 1)
      else if action = ACTION_RIGHT then set_rom_cursor ui (ui_cursor_page_down (ui_rom_cursor ui) (length (ui_rom_entries ui)) window)
      else if action = ACTION_LEFT then set_rom_cursor ui (ui_cursor_page_up (ui_rom_cursor ui) window)
      else ui)"

section \<open>The gallery\<close>

definition ui_start_gallery_transition :: "int \<Rightarrow> ui_state \<Rightarrow> nat \<Rightarrow> nat \<Rightarrow> int \<Rightarrow> ui_state" where
  "ui_start_gallery_transition now ui from_cursor to_cursor direction =
     (if from_cursor = to_cursor \<or> ui_rom_entries ui = [] then ui
      else
        let direction = (if direction = 0 then (if from_cursor < to_cursor then 1 else - 1) else direction)
        in ui\<lparr>ui_gallery_from := from_cursor, ui_gallery_to := to_cursor, ui_gallery_start_ms := now,
             ui_gallery_duration_ms := UI_GALLERY_TRANSITION_MS, ui_gallery_direction := (if direction < 0 then - 1 else 1),
             ui_gallery_active := True\<rparr>)"

definition ui_start_pending_gallery_transition :: "int \<Rightarrow> ui_state \<Rightarrow> ui_state" where
  "ui_start_pending_gallery_transition now ui =
     (if \<not> ui_gallery_pending_active ui \<or> ui_rom_entries ui = [] then ui
      else
        let n = length (ui_rom_entries ui);
            to_cursor = (if n \<le> ui_gallery_pending_cursor ui then n - 1 else ui_gallery_pending_cursor ui);
            ui1 = ui\<lparr>ui_gallery_pending_active := False\<rparr>
        in if to_cursor = ui_rom_cursor ui then ui1
           else remember_current_rom_cursor
             ((ui_start_gallery_transition now ui1 (ui_rom_cursor ui) to_cursor (ui_gallery_pending_direction ui))
                \<lparr>ui_rom_cursor := to_cursor\<rparr>))"

text \<open>The progress of the animation; reading it ends an animation whose time is over.\<close>

definition ui_gallery_transition_progress :: "int \<Rightarrow> ui_state \<Rightarrow> ui_state" where
  "ui_gallery_transition_progress now ui =
     (if \<not> ui_gallery_active ui \<or> ui_gallery_duration_ms ui \<le> 0 then ui
      else if ui_gallery_duration_ms ui \<le> now - ui_gallery_start_ms ui then ui\<lparr>ui_gallery_active := False\<rparr>
      else ui)"

text \<open>What drawing the gallery does to the state.\<close>

definition render_gallery :: "int \<Rightarrow> ui_state \<Rightarrow> ui_state" where
  "render_gallery now ui =
     (if ui_gallery_active ui \<and> ui_gallery_to ui = ui_rom_cursor ui then
        let ui1 = ui_gallery_transition_progress now ui in
        if \<not> ui_gallery_active ui1 \<and> ui_gallery_pending_active ui1 then ui_start_pending_gallery_transition now ui1 else ui1
      else if \<not> ui_gallery_active ui \<and> ui_gallery_pending_active ui then ui_start_pending_gallery_transition now ui
      else ui)"

definition move_gallery_cursor :: "int \<Rightarrow> ui_state \<Rightarrow> int \<Rightarrow> ui_state" where
  "move_gallery_cursor now ui delta =
     (if ui_rom_entries ui = [] \<or> delta = 0 then ui
      else if delta < - 1 \<or> 1 < delta then
        let next_cursor = rom_cursor_after_delta ui (ui_rom_cursor ui) delta in
        if next_cursor \<noteq> ui_rom_cursor ui then
          remember_current_rom_cursor
            (ui\<lparr>ui_gallery_active := False, ui_gallery_pending_active := False, ui_gallery_pending_direction := 0,
                ui_rom_cursor := next_cursor\<rparr>)
        else ui
      else if ui_gallery_active ui then
        let next_cursor = rom_cursor_after_delta ui (ui_gallery_to ui) delta in
        if next_cursor \<noteq> ui_gallery_to ui then
          ui\<lparr>ui_gallery_pending_cursor := next_cursor, ui_gallery_pending_direction := (if delta < 0 then - 1 else 1),
             ui_gallery_pending_active := True\<rparr>
        else ui
      else
        let next_cursor = rom_cursor_after_delta ui (ui_rom_cursor ui) delta in
        if next_cursor \<noteq> ui_rom_cursor ui then
          remember_current_rom_cursor
            ((ui_start_gallery_transition now ui (ui_rom_cursor ui) next_cursor (if delta < 0 then - 1 else 1))
               \<lparr>ui_rom_cursor := next_cursor\<rparr>)
        else ui)"

text \<open>The four directions on the gallery.\<close>

definition gallery_delta :: "ui_action \<Rightarrow> int" where
  "gallery_delta action =
     (if action = ACTION_LEFT then - 1 else if action = ACTION_RIGHT then 1
      else if action = ACTION_UP then - 5 else if action = ACTION_DOWN then 5 else 0)"

section \<open>The tiles of the top screen\<close>

definition UI_GRAPHIC_TOP_GRID_COLUMNS :: nat where "UI_GRAPHIC_TOP_GRID_COLUMNS = 3"
definition UI_GRAPHIC_TOP_GRID_ROWS :: nat where "UI_GRAPHIC_TOP_GRID_ROWS = 2"
definition UI_GRAPHIC_TOP_STRIP_COLUMNS :: nat where "UI_GRAPHIC_TOP_STRIP_COLUMNS = 2"
definition UI_GRAPHIC_TOP_STRIP_ROWS :: nat where "UI_GRAPHIC_TOP_STRIP_ROWS = 1"
definition UI_GRAPHIC_TOP_TRANSITION_DEFAULT_MS :: int where "UI_GRAPHIC_TOP_TRANSITION_DEFAULT_MS = 260"

record graphic_theme =
  gt_top_layout :: string
  gt_transition :: string
  gt_transition_ms :: int

record top_motion =
  tm_from_cursor :: nat
  tm_from_page :: nat
  tm_to_page :: nat
  tm_start_ms :: int
  tm_duration_ms :: int
  tm_direction :: int
  tm_active :: bool

definition ui_graphic_top_uses_strip :: "graphic_theme \<Rightarrow> ui_state \<Rightarrow> bool" where
  "ui_graphic_top_uses_strip th ui \<longleftrightarrow> ui_uses_graphic_mode ui \<and> gt_top_layout th = ''tile_strip''"

definition ui_graphic_top_page_size :: "graphic_theme \<Rightarrow> ui_state \<Rightarrow> nat" where
  "ui_graphic_top_page_size th ui =
     (if ui_graphic_top_uses_strip th ui then UI_GRAPHIC_TOP_STRIP_COLUMNS * UI_GRAPHIC_TOP_STRIP_ROWS
      else UI_GRAPHIC_TOP_GRID_COLUMNS * UI_GRAPHIC_TOP_GRID_ROWS)"

definition ui_graphic_top_columns :: "graphic_theme \<Rightarrow> ui_state \<Rightarrow> nat" where
  "ui_graphic_top_columns th ui =
     (if ui_graphic_top_uses_strip th ui then UI_GRAPHIC_TOP_STRIP_COLUMNS else UI_GRAPHIC_TOP_GRID_COLUMNS)"

definition ui_graphic_top_slide_enabled :: "graphic_theme \<Rightarrow> ui_state \<Rightarrow> bool" where
  "ui_graphic_top_slide_enabled th ui \<longleftrightarrow> ui_uses_graphic_mode ui \<and> ui_screen_now ui = SCREEN_TOP \<and> gt_transition th = ''slide''"

definition ui_graphic_top_transition_duration_ms :: "graphic_theme \<Rightarrow> ui_state \<Rightarrow> int" where
  "ui_graphic_top_transition_duration_ms th ui =
     (if \<not> ui_graphic_top_slide_enabled th ui then 0
      else max 80 (min 1000 (if 0 < gt_transition_ms th then gt_transition_ms th else UI_GRAPHIC_TOP_TRANSITION_DEFAULT_MS)))"

definition ui_start_graphic_top_transition ::
    "int \<Rightarrow> graphic_theme \<Rightarrow> ui_state \<Rightarrow> nat \<Rightarrow> nat \<Rightarrow> top_motion \<Rightarrow> top_motion" where
  "ui_start_graphic_top_transition now th ui from_cursor to_cursor tm =
     (let page = (\<lambda>c. c div ui_graphic_top_page_size th ui); duration = ui_graphic_top_transition_duration_ms th ui in
      if from_cursor = to_cursor \<or> \<not> ui_graphic_top_slide_enabled th ui \<or> page from_cursor = page to_cursor \<or> duration \<le> 0 then tm
      else \<lparr>tm_from_cursor = from_cursor, tm_from_page = page from_cursor, tm_to_page = page to_cursor, tm_start_ms = now,
            tm_duration_ms = duration, tm_direction = (if from_cursor < to_cursor then 1 else - 1), tm_active = True\<rparr>)"

definition ui_next_top_cursor :: "graphic_theme \<Rightarrow> ui_state \<Rightarrow> ui_action \<Rightarrow> nat" where
  "ui_next_top_cursor th ui action =
     (let cursor = ui_top_cursor ui; n = length (ui_top_entries ui); columns = ui_graphic_top_columns th ui in
      if action = ACTION_LEFT then (if 0 < cursor then cursor - 1 else cursor)
      else if action = ACTION_RIGHT then (if cursor + 1 < n then cursor + 1 else cursor)
      else if ui_graphic_top_uses_strip th ui then cursor
      else if action = ACTION_UP then (if columns \<le> cursor then cursor - columns else cursor)
      else if action = ACTION_DOWN then
        (if n \<le> cursor + columns then (if (cursor div columns + 1) * columns < n then n - 1 else cursor) else cursor + columns)
      else cursor)"

definition ui_move_graphic_top_cursor ::
    "int \<Rightarrow> graphic_theme \<Rightarrow> ui_action \<Rightarrow> ui_state \<times> top_motion \<Rightarrow> ui_state \<times> top_motion" where
  "ui_move_graphic_top_cursor now th action st =
     (case st of (ui, tm) \<Rightarrow>
        if ui_top_entries ui = [] then (ui, tm)
        else let nxt = ui_next_top_cursor th ui action in
          if nxt \<noteq> ui_top_cursor ui
          then (ui\<lparr>ui_top_cursor := nxt\<rparr>, ui_start_graphic_top_transition now th ui (ui_top_cursor ui) nxt tm)
          else (ui, tm))"

end
