(* ===== verification/UiCursorProofs.thy ===== *)
theory UiCursorProofs
  imports UiCursor UiBackProofs
begin

text \<open>
  Cursors stay on an entry, the window of a list shows the cursor, and the gallery's animation always belongs to the cursor, so that a
  move asked for during an animation is made after it. Opening a directory during an animation breaks that, and the gallery then does
  not answer to left and right.
\<close>

section \<open>Lists\<close>

text \<open>
  The window of a list shows the cursor: for a cursor on one of the entries the window starts at or before it, the cursor is
  within the window, and a full window never reaches past the last entry.
\<close>

theorem window_shows_cursor:
  assumes "cursor < cnt" and "0 < window"
  shows "ui_scrolled_window_start cursor cnt window \<le> cursor \<and>
    cursor < ui_scrolled_window_start cursor cnt window + window \<and>
    ui_scrolled_window_start cursor cnt window + min window cnt \<le> cnt"
  using assms by (auto simp: ui_scrolled_window_start_def Let_def)

theorem window_shows_cursor_witness:
  "ui_scrolled_window_start 7 9 5 = 3 \<and> ui_scrolled_window_start 7 9 5 \<le> (7::nat)"
  using window_shows_cursor [of 7 9 5] by (simp add: ui_scrolled_window_start_def)

lemma after_delta_in: "ui_rom_entries ui \<noteq> [] \<Longrightarrow> rom_cursor_after_delta ui c d < length (ui_rom_entries ui)"
  by (auto simp: rom_cursor_after_delta_def Let_def nat_less_iff)

lemma page_down_in: "c < n \<Longrightarrow> ui_cursor_page_down c n p < n"
  by (auto simp: ui_cursor_page_down_def Let_def)

lemma page_up_in: "c < n \<Longrightarrow> ui_cursor_page_up c p < n"
  by (auto simp: ui_cursor_page_up_def Let_def)

lemma remember_cursor [simp]: "ui_rom_cursor (remember_current_rom_cursor ui) = ui_rom_cursor ui"
  by (auto simp: remember_current_rom_cursor_def Let_def split: option.split)

lemma set_rom_cursor_frame [simp]:
  "ui_rom_cursor (set_rom_cursor ui c) = c" "ui_rom_entries (set_rom_cursor ui c) = ui_rom_entries ui"
  "ui_frontend_settings (set_rom_cursor ui c) = ui_frontend_settings ui"
  by (auto simp: set_rom_cursor_def remember_current_rom_cursor_def Let_def split: option.split)

lemma move_list_frame [simp]:
  "ui_rom_entries (move_rom_list window ui a) = ui_rom_entries ui"
  "ui_frontend_settings (move_rom_list window ui a) = ui_frontend_settings ui"
  by (auto simp: move_rom_list_def)

lemma move_list_in:
  "ui_rom_cursor ui < length (ui_rom_entries ui) \<Longrightarrow> ui_rom_cursor (move_rom_list window ui a) < length (ui_rom_entries ui)"
  by (auto simp: move_rom_list_def intro: after_delta_in page_down_in page_up_in)

lemma moves_in:
  "ui_rom_cursor ui < length (ui_rom_entries ui) \<Longrightarrow>
   ui_rom_entries (foldl (move_rom_list window) ui as) = ui_rom_entries ui \<and>
   ui_frontend_settings (foldl (move_rom_list window) ui as) = ui_frontend_settings ui \<and>
   ui_rom_cursor (foldl (move_rom_list window) ui as) < length (ui_rom_entries ui)"
proof (induction as arbitrary: ui)
  case (Cons a as)
  then show ?case using Cons.IH [of "move_rom_list window ui a"] move_list_in [OF Cons.prems] by simp
qed simp

lemma step_once:
  assumes "ui_rom_cursor ui < length (ui_rom_entries ui)" and "fs_rom_cursor_wrap (ui_frontend_settings ui)"
  shows "ui_rom_cursor (move_rom_list window ui ACTION_DOWN) = (ui_rom_cursor ui + 1) mod length (ui_rom_entries ui)"
    and "ui_rom_cursor (move_rom_list window ui ACTION_UP) = (ui_rom_cursor ui + length (ui_rom_entries ui) - 1) mod length (ui_rom_entries ui)"
proof -
  let ?n = "length (ui_rom_entries ui)" and ?c = "ui_rom_cursor ui"
  show "ui_rom_cursor (move_rom_list window ui ACTION_DOWN) = (?c + 1) mod ?n"
  proof (cases "1 < ?n")
    case True
    have "nat ((int ?c + 1) mod int ?n) = (?c + 1) mod ?n" by (metis nat_int of_nat_1 of_nat_add zmod_int)
    with True assms show ?thesis by (auto simp: move_rom_list_def rom_cursor_after_delta_def Let_def)
  next
    case False
    with assms(1) have "?n = 1" "?c = 0" by auto
    then show ?thesis by (simp add: move_rom_list_def rom_cursor_after_delta_def Let_def)
  qed
  show "ui_rom_cursor (move_rom_list window ui ACTION_UP) = (?c + ?n - 1) mod ?n"
  proof (cases "1 < ?n")
    case True
    then have "int (?c + ?n - 1) = int ?c + - 1 + int ?n" by simp
    then have "(int ?c + - 1) mod int ?n = int (?c + ?n - 1) mod int ?n" by simp
    then have "nat ((int ?c + - 1) mod int ?n) = (?c + ?n - 1) mod ?n" by (metis nat_int zmod_int)
    with True assms show ?thesis by (auto simp: move_rom_list_def rom_cursor_after_delta_def Let_def)
  next
    case False
    with assms(1) have "?n = 1" "?c = 0" by auto
    then show ?thesis by (simp add: move_rom_list_def rom_cursor_after_delta_def Let_def)
  qed
qed

lemma down_then_up: "c < n \<Longrightarrow> ((c + 1) mod n + n - 1) mod n = (c::nat)"
  by (cases "c + 1 = n") auto

lemma downs_ups:
  assumes "ui_rom_cursor ui < length (ui_rom_entries ui)" and "fs_rom_cursor_wrap (ui_frontend_settings ui)"
  shows "ui_rom_cursor (foldl (move_rom_list window) ui (replicate k ACTION_DOWN)) = (ui_rom_cursor ui + k) mod length (ui_rom_entries ui)"
    and "ui_rom_cursor (foldl (move_rom_list window) ui (replicate k ACTION_DOWN @ replicate k ACTION_UP)) = ui_rom_cursor ui"
proof -
  let ?n = "length (ui_rom_entries ui)" and ?c = "ui_rom_cursor ui"
  show downs: "ui_rom_cursor (foldl (move_rom_list window) ui (replicate k ACTION_DOWN)) = (?c + k) mod ?n" for k
  proof (induction k)
    case (Suc k)
    note at = moves_in [OF assms(1), of window "replicate k ACTION_DOWN"]
    have "replicate (Suc k) ACTION_DOWN = replicate k ACTION_DOWN @ [ACTION_DOWN]" by (simp add: replicate_append_same)
    then show ?case using Suc at step_once(1) [of "foldl (move_rom_list window) ui (replicate k ACTION_DOWN)" window] assms(2)
      by (simp add: mod_Suc_eq)
  qed (use assms(1) in simp)
  show "ui_rom_cursor (foldl (move_rom_list window) ui (replicate k ACTION_DOWN @ replicate k ACTION_UP)) = ?c"
  proof -
    have back1: "ui_rom_cursor (foldl (move_rom_list window) v (replicate k ACTION_UP)) = (ui_rom_cursor v + k * (?n - 1)) mod ?n"
      if "ui_rom_cursor v < ?n" "ui_rom_entries v = ui_rom_entries ui" "ui_frontend_settings v = ui_frontend_settings ui" for k v
      using that
    proof (induction k)
      case (Suc k)
      note at = moves_in [of v window "replicate k ACTION_UP", unfolded Suc.prems(2,3)]
      have "replicate (Suc k) ACTION_UP = replicate k ACTION_UP @ [ACTION_UP]" by (simp add: replicate_append_same)
      moreover have "0 < ?n" using assms(1) by auto
      then have "(a mod ?n + ?n - 1) mod ?n = (a + (?n - 1)) mod ?n" for a :: nat
        by (metis Nat.add_diff_assoc Suc_leI One_nat_def mod_add_left_eq)
      ultimately show ?case using Suc at step_once(2) [of "foldl (move_rom_list window) v (replicate k ACTION_UP)" window] assms(2)
        by (simp add: ac_simps)
    qed simp
    have n: "0 < ?n" using assms(1) by auto
    have "k + k * (?n - 1) = k * ?n" using n by (cases ?n) auto
    then have "((?c + k) mod ?n + k * (?n - 1)) mod ?n = (?c + k * ?n) mod ?n"
      by (metis add.assoc mod_add_left_eq)
    also have "\<dots> = ?c" using assms(1) by simp
    finally show ?thesis
      using back1 [of "foldl (move_rom_list window) ui (replicate k ACTION_DOWN)" k] moves_in [OF assms(1), of window "replicate k ACTION_DOWN"]
        downs [of k] by simp
  qed
qed

text \<open>
  In a list of games whose cursor wraps, k presses of DOWN lead to the k-th entry after the cursor, counted around the end, and
  as many presses of UP lead back; and whatever is pressed, pages included, the cursor stays on an entry and the list does not change.
\<close>

theorem list_cursor_wraps:
  assumes "ui_rom_cursor ui < length (ui_rom_entries ui)" and "fs_rom_cursor_wrap (ui_frontend_settings ui)"
  shows "ui_rom_cursor (foldl (move_rom_list window) ui (replicate k ACTION_DOWN)) = (ui_rom_cursor ui + k) mod length (ui_rom_entries ui) \<and>
    ui_rom_cursor (foldl (move_rom_list window) ui (replicate k ACTION_DOWN @ replicate k ACTION_UP)) = ui_rom_cursor ui \<and>
    ui_rom_entries (foldl (move_rom_list window) ui actions) = ui_rom_entries ui \<and>
    ui_rom_cursor (foldl (move_rom_list window) ui actions) < length (ui_rom_entries ui)"
  using downs_ups [OF assms] moves_in [OF assms(1)] by blast

text \<open>Fifty presses in a list of one game.\<close>

theorem list_cursor_wraps_witness:
  "ui_rom_cursor (foldl (move_rom_list 10) demo_ui (replicate 50 ACTION_DOWN @ replicate 50 ACTION_UP)) = 0"
proof -
  have "ui_rom_cursor demo_ui < length (ui_rom_entries demo_ui)" "fs_rom_cursor_wrap (ui_frontend_settings demo_ui)"
    by (simp_all add: demo_ui_def init_frontend_settings_def)
  from list_cursor_wraps [OF this, of 10 50 "[]"] show ?thesis by (simp add: demo_ui_def)
qed

section \<open>The gallery\<close>

datatype gallery_event = Gallery_press int ui_action | Gallery_frame int

fun gallery_turn :: "ui_state \<Rightarrow> gallery_event \<Rightarrow> ui_state" where
  "gallery_turn ui (Gallery_press now a) = move_gallery_cursor now ui (gallery_delta a)"
| "gallery_turn ui (Gallery_frame now) = render_gallery now ui"

definition motion :: "ui_state \<Rightarrow> bool \<times> nat \<times> int \<times> int \<times> bool \<times> nat \<times> int" where
  "motion ui = (ui_gallery_active ui, ui_gallery_to ui, ui_gallery_start_ms ui, ui_gallery_duration_ms ui, ui_gallery_pending_active ui,
     ui_gallery_pending_cursor ui, ui_gallery_pending_direction ui)"

lemma remember_motion [simp]:
  "motion (remember_current_rom_cursor ui) = motion ui" "ui_gallery_active (remember_current_rom_cursor ui) = ui_gallery_active ui"
  "ui_gallery_to (remember_current_rom_cursor ui) = ui_gallery_to ui"
  "ui_gallery_start_ms (remember_current_rom_cursor ui) = ui_gallery_start_ms ui"
  "ui_gallery_duration_ms (remember_current_rom_cursor ui) = ui_gallery_duration_ms ui"
  "ui_gallery_pending_active (remember_current_rom_cursor ui) = ui_gallery_pending_active ui"
  by (auto simp: remember_current_rom_cursor_def motion_def Let_def split: option.split)

text \<open>The animation leads to the entry of the cursor.\<close>

definition gallery_consistent :: "ui_state \<Rightarrow> bool" where
  "gallery_consistent ui \<longleftrightarrow> ui_rom_cursor ui < length (ui_rom_entries ui) \<and>
     (ui_gallery_active ui \<longrightarrow> ui_gallery_to ui = ui_rom_cursor ui \<and> ui_gallery_duration_ms ui = UI_GALLERY_TRANSITION_MS)"

lemma start_frame [simp]:
  "ui_rom_entries (ui_start_gallery_transition now ui a b d) = ui_rom_entries ui"
  "a \<noteq> b \<Longrightarrow> ui_rom_entries ui \<noteq> [] \<Longrightarrow> ui_gallery_to (ui_start_gallery_transition now ui a b d) = b"
  "a \<noteq> b \<Longrightarrow> ui_rom_entries ui \<noteq> [] \<Longrightarrow> ui_gallery_active (ui_start_gallery_transition now ui a b d)"
  "a \<noteq> b \<Longrightarrow> ui_rom_entries ui \<noteq> [] \<Longrightarrow> ui_gallery_start_ms (ui_start_gallery_transition now ui a b d) = now"
  "a \<noteq> b \<Longrightarrow> ui_rom_entries ui \<noteq> [] \<Longrightarrow> ui_gallery_duration_ms (ui_start_gallery_transition now ui a b d) = UI_GALLERY_TRANSITION_MS"
  "ui_gallery_pending_active (ui_start_gallery_transition now ui a b d) = ui_gallery_pending_active ui"
  by (simp_all add: ui_start_gallery_transition_def Let_def)

lemma progress_frame [simp]:
  "ui_rom_entries (ui_gallery_transition_progress now ui) = ui_rom_entries ui"
  "ui_rom_cursor (ui_gallery_transition_progress now ui) = ui_rom_cursor ui"
  "ui_gallery_to (ui_gallery_transition_progress now ui) = ui_gallery_to ui"
  "ui_gallery_duration_ms (ui_gallery_transition_progress now ui) = ui_gallery_duration_ms ui"
  "ui_gallery_pending_active (ui_gallery_transition_progress now ui) = ui_gallery_pending_active ui"
  "ui_gallery_pending_cursor (ui_gallery_transition_progress now ui) = ui_gallery_pending_cursor ui"
  by (simp_all add: ui_gallery_transition_progress_def)

lemma progress_consistent: "gallery_consistent ui \<Longrightarrow> gallery_consistent (ui_gallery_transition_progress now ui)"
  by (simp add: gallery_consistent_def ui_gallery_transition_progress_def)

lemma pending_consistent: "gallery_consistent ui \<Longrightarrow> gallery_consistent (ui_start_pending_gallery_transition now ui)"
  by (auto simp: gallery_consistent_def ui_start_pending_gallery_transition_def Let_def)

lemma pending_entries [simp]: "ui_rom_entries (ui_start_pending_gallery_transition now ui) = ui_rom_entries ui"
  by (simp add: ui_start_pending_gallery_transition_def Let_def)

lemma frame_consistent: "gallery_consistent ui \<Longrightarrow> gallery_consistent (render_gallery now ui)"
  by (simp add: render_gallery_def Let_def progress_consistent pending_consistent)

lemma press_consistent:
  assumes "gallery_consistent ui"
  shows "gallery_consistent (move_gallery_cursor now ui d)"
proof -
  have ne: "ui_rom_entries ui \<noteq> []" using assms by (auto simp: gallery_consistent_def)
  note r = after_delta_in [OF ne]
  show ?thesis using assms r ne by (simp add: gallery_consistent_def move_gallery_cursor_def Let_def)
qed

lemma turn_entries [simp]: "ui_rom_entries (gallery_turn ui ev) = ui_rom_entries ui"
  by (cases ev) (simp_all add: move_gallery_cursor_def render_gallery_def Let_def)

lemma turn_consistent: "gallery_consistent ui \<Longrightarrow> gallery_consistent (gallery_turn ui ev)"
  by (cases ev) (simp_all add: frame_consistent press_consistent)

text \<open>
  Whatever is pressed in the gallery and whenever it is drawn, the cursor stays on an entry, the list does not change, and a
  running animation leads to the entry of the cursor and takes 360 ms.
\<close>

theorem gallery_stays_consistent:
  assumes "gallery_consistent ui"
  shows "gallery_consistent (foldl gallery_turn ui events) \<and> ui_rom_entries (foldl gallery_turn ui events) = ui_rom_entries ui"
  using assms by (induction events arbitrary: ui) (simp_all add: turn_consistent)

theorem gallery_stays_consistent_witness:
  "gallery_consistent (foldl gallery_turn demo_ui [Gallery_press 0 ACTION_RIGHT, Gallery_frame 16, Gallery_press 20 ACTION_DOWN])"
proof -
  have "gallery_consistent demo_ui" by (simp add: gallery_consistent_def demo_ui_def)
  from gallery_stays_consistent [OF this] show ?thesis by blast
qed

text \<open>A frame before the end of the animation changes nothing, the one after it makes the move that was asked for.\<close>

lemma early_frame:
  assumes "ui_gallery_active ui" and "ui_gallery_to ui = ui_rom_cursor ui" and "now < ui_gallery_start_ms ui + ui_gallery_duration_ms ui"
  shows "render_gallery now ui = ui"
  using assms by (simp add: render_gallery_def ui_gallery_transition_progress_def Let_def)

lemma early_frames:
  assumes "ui_gallery_active ui" and "ui_gallery_to ui = ui_rom_cursor ui"
    and "\<forall>now \<in> set ts. now < ui_gallery_start_ms ui + ui_gallery_duration_ms ui"
  shows "foldl gallery_turn ui (map Gallery_frame ts) = ui"
  using assms by (induction ts) (simp_all add: early_frame)

lemma late_frame:
  assumes "ui_gallery_active ui" and "ui_gallery_to ui = ui_rom_cursor ui" and "0 < ui_gallery_duration_ms ui"
    and "ui_gallery_start_ms ui + ui_gallery_duration_ms ui \<le> now" and "ui_gallery_pending_active ui"
    and "ui_gallery_pending_cursor ui < length (ui_rom_entries ui)" and "ui_gallery_pending_cursor ui \<noteq> ui_rom_cursor ui"
  shows "ui_rom_cursor (render_gallery now ui) = ui_gallery_pending_cursor ui \<and> ui_gallery_active (render_gallery now ui) \<and>
    ui_gallery_to (render_gallery now ui) = ui_gallery_pending_cursor ui \<and> ui_gallery_start_ms (render_gallery now ui) = now \<and>
    \<not> ui_gallery_pending_active (render_gallery now ui)"
proof -
  have over: "ui_gallery_transition_progress now ui = ui\<lparr>ui_gallery_active := False\<rparr>"
    using assms by (simp add: ui_gallery_transition_progress_def)
  have ne: "ui_rom_entries ui \<noteq> []" using assms(6) by auto
  show ?thesis using assms ne by (auto simp: render_gallery_def over ui_start_pending_gallery_transition_def Let_def)
qed

text \<open>
  C29: A move asked for during an animation is not lost: with the gallery animating, LEFT or RIGHT towards another entry changes nothing
  while frames are drawn within the 360 ms of the animation, and the first frame drawn after them puts the cursor on that entry and
  starts its animation.
\<close>

theorem queued_move_is_made:
  assumes "gallery_consistent ui" and "ui_gallery_active ui" and "a \<in> {ACTION_LEFT, ACTION_RIGHT}"
    and "rom_cursor_after_delta ui (ui_rom_cursor ui) (gallery_delta a) \<noteq> ui_rom_cursor ui"
    and "\<forall>t \<in> set ts. t < ui_gallery_start_ms ui + 360" and "ui_gallery_start_ms ui + 360 \<le> now"
  shows "let before = foldl gallery_turn ui (Gallery_press t0 a # map Gallery_frame ts); after = gallery_turn before (Gallery_frame now)
    in ui_rom_cursor before = ui_rom_cursor ui \<and>
       ui_rom_cursor after = rom_cursor_after_delta ui (ui_rom_cursor ui) (gallery_delta a) \<and>
       ui_gallery_active after \<and> ui_gallery_to after = ui_rom_cursor after \<and> ui_gallery_start_ms after = now \<and>
       \<not> ui_gallery_pending_active after"
proof -
  let ?p = "move_gallery_cursor t0 ui (gallery_delta a)"
  have d: "\<not> (gallery_delta a < - 1 \<or> 1 < gallery_delta a)" "gallery_delta a \<noteq> 0" using assms(3) by (auto simp: gallery_delta_def)
  have ne: "ui_rom_entries ui \<noteq> []" and to: "ui_gallery_to ui = ui_rom_cursor ui" "ui_gallery_duration_ms ui = 360"
    using assms(1,2) by (auto simp: gallery_consistent_def UI_GALLERY_TRANSITION_MS_def)
  have p: "?p = ui\<lparr>ui_gallery_pending_cursor := rom_cursor_after_delta ui (ui_rom_cursor ui) (gallery_delta a),
      ui_gallery_pending_direction := (if gallery_delta a < 0 then - 1 else 1), ui_gallery_pending_active := True\<rparr>"
    using d ne to assms(2,4) unfolding move_gallery_cursor_def Let_def by simp
  have "foldl gallery_turn ?p (map Gallery_frame ts) = ?p"
    by (rule early_frames) (use p to assms(2,5) in simp_all)
  then have before: "foldl gallery_turn ui (Gallery_press t0 a # map Gallery_frame ts) = ?p" by simp
  have after: "ui_gallery_active ?p" "ui_gallery_to ?p = ui_rom_cursor ?p" "0 < ui_gallery_duration_ms ?p"
    "ui_gallery_start_ms ?p + ui_gallery_duration_ms ?p \<le> now" "ui_gallery_pending_active ?p"
    "ui_gallery_pending_cursor ?p < length (ui_rom_entries ?p)" "ui_gallery_pending_cursor ?p \<noteq> ui_rom_cursor ?p"
    using to assms(2,4,6) after_delta_in [OF ne] by (simp_all add: p)
  from late_frame [OF this] show ?thesis unfolding before Let_def by (simp add: p)
qed

text \<open>Three games, the animation to the second is running.\<close>

definition gallery_ui :: ui_state where
  "gallery_ui = demo_ui\<lparr>ui_rom_entries := [demo_rom_entry, demo_game, demo_directory], ui_rom_cursor := 1, ui_gallery_to := 1,
     ui_gallery_active := True, ui_gallery_duration_ms := 360\<rparr>"

theorem queued_move_is_made_witness:
  "ui_rom_cursor (foldl gallery_turn gallery_ui [Gallery_press 20 ACTION_RIGHT, Gallery_frame 30, Gallery_frame 370]) = 2"
proof -
  have c: "gallery_consistent gallery_ui" "ui_gallery_active gallery_ui" "ui_gallery_start_ms gallery_ui = 0" "ui_rom_cursor gallery_ui = 1"
    by (simp_all add: gallery_consistent_def gallery_ui_def demo_ui_def UI_GALLERY_TRANSITION_MS_def)
  have d: "rom_cursor_after_delta gallery_ui (ui_rom_cursor gallery_ui) (gallery_delta ACTION_RIGHT) = 2"
    by (simp add: rom_cursor_after_delta_def gallery_delta_def gallery_ui_def demo_ui_def init_frontend_settings_def)
  have "rom_cursor_after_delta gallery_ui (ui_rom_cursor gallery_ui) (gallery_delta ACTION_RIGHT) \<noteq> ui_rom_cursor gallery_ui"
    "\<forall>t \<in> set [30]. t < ui_gallery_start_ms gallery_ui + 360" "ui_gallery_start_ms gallery_ui + 360 \<le> 370"
    using d c by auto
  from queued_move_is_made [OF c(1,2) _ this, of 20] d show ?thesis by (simp add: Let_def)
qed

section \<open>A directory opened during the animation\<close>

lemma browse_all_motion [simp]: "motion (browse_all games ui) = motion ui"
proof (induction games rule: rev_induct)
  case (snoc e games)
  then show ?case
    by (simp add: browse_all_snoc browse_rom_def add_navigation_directory_entry_def ui_append_rom_entry_def motion_def split: browse.split)
qed (simp add: browse_all_def)

lemma finish_motion [simp]: "motion (mark_favorite_flags w (sort_rom_entries ui)) = motion ui"
  by (simp add: motion_def mark_favorite_flags_def sort_rom_entries_def split: prod.split)

lemma read_cache_motion: "read_rom_cache w p s ui = (ok, v) \<Longrightarrow> motion v = motion ui"
  by (auto simp: read_rom_cache_def each_object_browse split: option.splits prod.splits)

lemma with_entries_motion [simp]: "motion (with_entries ui l) = motion ui"
proof -
  have "motion (foldl ui_append_rom_entry v l) = motion v" for v
    by (induction l arbitrary: v) (simp_all add: ui_append_rom_entry_def motion_def)
  then show ?thesis by (simp add: with_entries_def ui_clear_rom_entries_def motion_def)
qed

lemma trigger_motion: "trigger_rom_scan_refresh ev w ui s b = (ok, v, w') \<Longrightarrow> motion v = motion ui"
  by (auto simp: trigger_rom_scan_refresh_def motion_def split: if_splits prod.splits)

lemma motion_updates [simp]:
  "motion (ui\<lparr>ui_rom_scan_background_started := b\<rparr>) = motion ui" "motion (ui\<lparr>ui_status := t\<rparr>) = motion ui"
  "motion (ui\<lparr>ui_frontend_settings := fs\<rparr>) = motion ui" "motion (ui_clear_rom_entries ui) = motion ui"
  "motion (ui\<lparr>ui_rom_scan_refresh_suppressed := b\<rparr>) = motion ui" "motion (ui\<lparr>ui_rom_cursor := c\<rparr>) = motion ui"
  "motion (ui\<lparr>ui_rom_directory := t\<rparr>) = motion ui" "motion (set_status ui t) = motion ui"
  by (simp_all add: motion_def ui_clear_rom_entries_def set_status_def)

lemma load_motion: "load_rom_entries ev w ui s = (ok, v, w') \<Longrightarrow> motion v = motion ui"
  unfolding load_rom_entries_def load_favorite_entries_def Let_def
  by (auto split: if_splits prod.splits bool.splits dest!: read_cache_motion trigger_motion)

lemma restore_motion [simp]: "motion (snd (restore_current_rom_cursor ui)) = motion ui"
  by (simp add: restore_current_rom_cursor_def Let_def split: option.split)

lemma reload_motion: "reload_rom_directory_no_scan ev w ui t = (ok, v, w') \<Longrightarrow> motion v = motion ui"
  by (auto simp: reload_rom_directory_no_scan_def Let_def split: if_splits prod.splits dest!: load_motion)

lemma open_motion: "open_rom_directory_entry ev w ui entry = (ok, v, w') \<Longrightarrow> motion v = motion ui"
  by (auto simp: open_rom_directory_entry_def Let_def split: if_splits prod.splits bool.splits dest!: reload_motion)

text \<open>An animation that leads elsewhere is never drawn, and so it never ends.\<close>

definition gallery_stuck :: "ui_state \<Rightarrow> bool" where
  "gallery_stuck ui \<longleftrightarrow> ui_gallery_active ui \<and> ui_gallery_to ui \<noteq> ui_rom_cursor ui"

definition sideways :: "gallery_event \<Rightarrow> bool" where
  "sideways ev \<longleftrightarrow> (case ev of Gallery_press _ a \<Rightarrow> a \<in> {ACTION_LEFT, ACTION_RIGHT} | Gallery_frame _ \<Rightarrow> True)"

lemma stuck_turn:
  assumes "gallery_stuck ui" and "sideways ev"
  shows "gallery_stuck (gallery_turn ui ev) \<and> ui_rom_cursor (gallery_turn ui ev) = ui_rom_cursor ui"
proof (cases ev)
  case (Gallery_press now a)
  with assms(2) have "\<not> (gallery_delta a < - 1 \<or> 1 < gallery_delta a)" by (auto simp: sideways_def gallery_delta_def)
  with assms(1) Gallery_press show ?thesis unfolding Gallery_press gallery_turn.simps move_gallery_cursor_def Let_def by (simp add: gallery_stuck_def)
next
  case (Gallery_frame now)
  with assms(1) show ?thesis by (simp add: gallery_stuck_def render_gallery_def)
qed

text \<open>
  C30: Opening a directory during an animation can leave the gallery stuck. Opening keeps the animation of the list it leaves; when the
  cursor of the new list is not the entry that animation leads to, LEFT and RIGHT do not move the cursor any more, however often they
  are pressed and however long is waited.
\<close>

theorem directory_during_animation_sticks:
  assumes "open_rom_directory_entry ev w ui entry = (True, ui1, w1)" and "ui_gallery_active ui" and "ui_gallery_to ui \<noteq> ui_rom_cursor ui1"
    and "\<forall>event \<in> set events. sideways event"
  shows "ui_rom_cursor (foldl gallery_turn ui1 events) = ui_rom_cursor ui1"
proof -
  from open_motion [OF assms(1)] assms(2,3) have "gallery_stuck ui1" by (simp add: motion_def gallery_stuck_def)
  from this assms(4) show ?thesis
  proof (induction events arbitrary: ui1)
    case (Cons e es)
    then show ?case using stuck_turn [of ui1 e] by simp
  qed simp
qed

text \<open>The cursor comes from the first game to the directory beside it, and A is pressed at once.\<close>

definition entering_ui :: ui_state where
  "entering_ui = (card_ui [])\<lparr>ui_rom_entries := [demo_game, demo_directory], ui_rom_cursor := 1, ui_gallery_to := 1,
     ui_gallery_active := True, ui_gallery_duration_ms := 360\<rparr>"

theorem directory_during_animation_sticks_witness:
  "\<exists>ui1. open_rom_directory_entry demo_env demo_card entering_ui demo_directory = (True, ui1, demo_card) \<and>
    ui_rom_cursor (foldl gallery_turn ui1 [Gallery_press 100 ACTION_RIGHT, Gallery_frame 1000, Gallery_press 2000 ACTION_LEFT]) = 0"
proof -
  let ?r = "remember_current_rom_cursor entering_ui" and ?s = "''ROM directory ready''"
  let ?u = "?r\<lparr>ui_rom_directory := ''gg/rpg''\<rparr>"
  let ?c = "(card_ui [])\<lparr>ui_rom_directory := ''gg/rpg'', ui_rom_scan_refresh_suppressed := True\<rparr>"
  have "place entering_ui = place (card_ui [])" by (simp add: entering_ui_def place_def)
  then have pl: "place ?r = place (card_ui [])" by simp
  then have same: "place ?c = place (?u\<lparr>ui_rom_scan_refresh_suppressed := True\<rparr>)" by (simp add: place_def)
  have "cache_ready demo_card ?u" using card_ready [of "[]"] pl by (simp add: cache_ready_def place_def)
  from reload_place [OF this, of demo_env ?s] obtain u1 u2 where
    l: "load_rom_entries demo_env demo_card (?u\<lparr>ui_rom_scan_refresh_suppressed := True\<rparr>) (ui_current_system_id ?u) = (True, u1, demo_card)"
      "ui_rom_entries u2 = ui_rom_entries u1" "ui_rom_cursor u2 = 0"
      "reload_rom_directory_no_scan demo_env demo_card ?u ?s = (True, set_status (snd (restore_current_rom_cursor u2)) ?s, demo_card)"
    by blast
  have "cache_ready demo_card ?c" using card_ready [of "[]"] by (simp add: cache_ready_def)
  from load_same_place [OF this _ _ same, of demo_env] l(1) card_lists(2) [of "[]"] have es: "ui_rom_entries u1 = [demo_game]" by auto
  let ?v = "set_status (snd (restore_current_rom_cursor u2)) ?s"
  have opened: "open_rom_directory_entry demo_env demo_card entering_ui demo_directory = (True, ?v, demo_card)"
    using l(4) by (simp add: open_rom_directory_entry_def demo_directory_def zero_ui_rom_def Let_def stored_eq UI_PATH_MAX_def)
  have at: "ui_rom_cursor ?v = 0" using restore_cursor [OF l(3)] l(2) es by (simp add: restore_frame)
  have "ui_gallery_active entering_ui" "ui_gallery_to entering_ui \<noteq> ui_rom_cursor ?v" unfolding at by (simp_all add: entering_ui_def)
  from directory_during_animation_sticks [OF opened this, of "[Gallery_press 100 ACTION_RIGHT, Gallery_frame 1000, Gallery_press 2000 ACTION_LEFT]"]
  show ?thesis using opened at by (simp add: sideways_def)
qed

end
