(* ===== verification/ManualTime.thy ===== *)
theory ManualTime
  imports UiSettingIds UiState Decimal
begin

text \<open>
  Setting the time by hand (\<open>src/frontend/plumos_controller_ui.c\<close>): the draft of a date the user changes field by field, and the steps
  that make it the time of the system. The calendar of the C library is a parameter: \<open>localtime\<close> gives the fields of a
  moment, \<open>mktime\<close> the moment of fields together with the fields as it leaves them. What the other steps answer is part of the
  environment; the calls are recorded in their order. The list of settings, which is built again afterwards, is not part of it.
\<close>

section \<open>The draft\<close>

record manual_time =
  mt_initialized :: bool
  mt_year :: int
  mt_month :: int
  mt_day :: int
  mt_hour :: int
  mt_minute :: int

record tm =
  tm_year :: int
  tm_mon :: int
  tm_mday :: int
  tm_hour :: int
  tm_min :: int

definition clamp_to :: "int \<Rightarrow> int \<Rightarrow> int \<Rightarrow> int" where
  "clamp_to v lo hi = (if v < lo then lo else if hi < v then hi else v)"

definition month_days :: "int list" where
  "month_days = [31, 28, 31, 30, 31, 30, 31, 31, 30, 31, 30, 31]"

definition days_in_month :: "int \<Rightarrow> int \<Rightarrow> int" where
  "days_in_month year month =
     (if month < 1 \<or> 12 < month then 31
      else if month \<noteq> 2 then month_days ! nat (month - 1)
      else if year mod 4 = 0 \<and> year mod 100 \<noteq> 0 \<or> year mod 400 = 0 then 29 else 28)"

definition clamp_manual_time_fields :: "manual_time \<Rightarrow> manual_time" where
  "clamp_manual_time_fields mt =
     (let year = clamp_to (mt_year mt) 2024 2037; month = clamp_to (mt_month mt) 1 12
      in mt\<lparr>mt_year := year, mt_month := month, mt_day := clamp_to (mt_day mt) 1 (days_in_month year month),
           mt_hour := clamp_to (mt_hour mt) 0 23, mt_minute := clamp_to (mt_minute mt) 0 59\<rparr>)"

text \<open>The fields of the current moment, none when there is no clock or it cannot be split.\<close>

definition init_manual_time_from_current :: "tm option \<Rightarrow> manual_time \<Rightarrow> manual_time" where
  "init_manual_time_from_current now mt =
     (clamp_manual_time_fields
        (case now of
           None \<Rightarrow> mt\<lparr>mt_year := 2026, mt_month := 1, mt_day := 1, mt_hour := 0, mt_minute := 0\<rparr>
         | Some t \<Rightarrow> mt\<lparr>mt_year := tm_year t + 1900, mt_month := tm_mon t + 1, mt_day := tm_mday t, mt_hour := tm_hour t,
             mt_minute := tm_min t\<rparr>))\<lparr>mt_initialized := True\<rparr>"

definition manual_time_ready :: "tm option \<Rightarrow> manual_time \<Rightarrow> manual_time" where
  "manual_time_ready now mt = (if mt_initialized mt then mt else init_manual_time_from_current now mt)"

definition padded :: "nat \<Rightarrow> int \<Rightarrow> string" where
  "padded n v = (let s = show_int v in if length s < n then replicate (n - length s) CHR ''0'' @ s else s)"

definition format_manual_time_value :: "manual_time \<Rightarrow> string" where
  "format_manual_time_value mt =
     (if \<not> mt_initialized mt then ''-''
      else padded 4 (mt_year mt) @ ''-'' @ padded 2 (mt_month mt) @ ''-'' @ padded 2 (mt_day mt) @ '' '' @
        padded 2 (mt_hour mt) @ '':'' @ padded 2 (mt_minute mt))"

text \<open>One step of a field; the answer is whether the identifier is one of a field.\<close>

definition save_manual_time_number :: "tm option \<Rightarrow> string \<Rightarrow> int \<Rightarrow> manual_time \<Rightarrow> bool \<times> manual_time" where
  "save_manual_time_number now ident direction mt0 =
     (if direction = 0 then (False, mt0)
      else
        let mt = manual_time_ready now mt0; step = (if 0 < direction then 1 else - 1) in
        if ident = ''system_manual_time_year'' then (True, clamp_manual_time_fields (mt\<lparr>mt_year := mt_year mt + step\<rparr>))
        else if ident = ''system_manual_time_month'' then (True, clamp_manual_time_fields (mt\<lparr>mt_month := mt_month mt + step\<rparr>))
        else if ident = ''system_manual_time_day'' then (True, clamp_manual_time_fields (mt\<lparr>mt_day := mt_day mt + step\<rparr>))
        else if ident = ''system_manual_time_hour'' then (True, clamp_manual_time_fields (mt\<lparr>mt_hour := mt_hour mt + step\<rparr>))
        else if ident = ''system_manual_time_minute'' then (True, clamp_manual_time_fields (mt\<lparr>mt_minute := mt_minute mt + step\<rparr>))
        else (False, mt))"

section \<open>Applying it\<close>

datatype time_call = Set_timezone string | Stop_ntp | Save_automatic_time bool | Set_clock int | Store_rtc

record time_env =
  tv_now :: "tm option"
  tv_mktime :: "tm \<Rightarrow> (int \<times> tm) option"
  tv_localtime :: "int \<Rightarrow> tm option"
  tv_timezone :: string
  tv_save_ok :: bool
  tv_clock_error :: "string option"
  tv_store_ok :: bool

record time_state =
  ts_manual :: manual_time
  ts_automatic :: bool
  ts_status :: string

definition draft_tm :: "manual_time \<Rightarrow> tm" where
  "draft_tm mt = \<lparr>tm_year = mt_year mt - 1900, tm_mon = mt_month mt - 1, tm_mday = mt_day mt, tm_hour = mt_hour mt, tm_min = mt_minute mt\<rparr>"

text \<open>The comparison is of the fields as \<open>mktime\<close> left them.\<close>

definition checked_epoch :: "time_env \<Rightarrow> tm \<Rightarrow> int option" where
  "checked_epoch ev t =
     (case tv_mktime ev t of
        None \<Rightarrow> None
      | Some (epoch, local) \<Rightarrow>
          (case tv_localtime ev epoch of
             None \<Rightarrow> None
           | Some check \<Rightarrow>
               if tm_year check \<noteq> tm_year local \<or> tm_mon check \<noteq> tm_mon local \<or> tm_mday check \<noteq> tm_mday local \<or>
                  tm_hour check \<noteq> tm_hour local \<or> tm_min check \<noteq> tm_min local
               then None else Some epoch))"

definition with_time_status :: "time_state \<Rightarrow> string \<Rightarrow> time_state" where
  "with_time_status st t = st\<lparr>ts_status := stored 256 t\<rparr>"

text \<open>\<open>shown\<close> is the current time as the status line prints it.\<close>

definition apply_manual_system_time :: "time_env \<Rightarrow> string \<Rightarrow> time_state \<Rightarrow> bool \<times> time_state \<times> time_call list" where
  "apply_manual_system_time ev shown st0 =
     (let mt = clamp_manual_time_fields (manual_time_ready (tv_now ev) (ts_manual st0));
          st = st0\<lparr>ts_manual := mt\<rparr>; zone = Set_timezone (tv_timezone ev)
      in case checked_epoch ev (draft_tm mt) of
           None \<Rightarrow> (False, with_time_status st ''manual time is invalid for this timezone'', [zone])
         | Some epoch \<Rightarrow>
             let calls = [zone, Stop_ntp, Save_automatic_time False] in
             if \<not> tv_save_ok ev then (False, with_time_status st ''automatic time setting write failed'', calls)
             else
               let st1 = st\<lparr>ts_automatic := False\<rparr>; calls1 = calls @ [Set_clock epoch] in
               case tv_clock_error ev of
                 Some e \<Rightarrow> (False, with_time_status st1 (''manual time failed: '' @ e), calls1)
               | None \<Rightarrow>
                   let calls2 = calls1 @ [zone, Store_rtc] in
                   if \<not> tv_store_ok ev then (False, with_time_status st1 ''system time set; RTC update failed'', calls2)
                   else (True, with_time_status (st1\<lparr>ts_manual := mt\<lparr>mt_initialized := False\<rparr>\<rparr>)
                           (''manual time set: '' @ shown @ ''; automatic time OFF; RTC saved''), calls2))"

end
