(* ===== verification/Presses.thy ===== *)
theory Presses
  imports CPrelude
begin

text \<open>
  What a sequence of presses can lead to: shared by the proofs that a field, a cursor or a key can be brought to every value.
\<close>

definition leads :: "('s \<Rightarrow> 'p \<Rightarrow> 's) \<Rightarrow> 's \<Rightarrow> 's \<Rightarrow> bool" where
  "leads press a b \<longleftrightarrow> (\<exists>ps. foldl press a ps = b)"

lemma leads_refl [simp]: "leads press a a"
  unfolding leads_def by (rule exI [of _ "[]"]) simp

lemma leads_trans [trans]: "leads press a b \<Longrightarrow> leads press b c \<Longrightarrow> leads press a c"
  unfolding leads_def by (metis foldl_append)

lemma leads_press: "press a p = b \<Longrightarrow> leads press a b"
  unfolding leads_def by (rule exI [of _ "[p]"]) simp

text \<open>What moves by one both ways reaches every place.\<close>

lemma leads_walk:
  assumes step: "\<And>v. v < hi \<Longrightarrow> leads press (at v) (at (Suc v)) \<and> leads press (at (Suc v)) (at v)"
    and "a \<le> hi" "b \<le> hi"
  shows "leads press (at a) (at b)"
proof -
  have "leads press (at v) (at (v + n)) \<and> leads press (at (v + n)) (at v)" if "v + n \<le> hi" for v n
    using that
  proof (induction n)
    case (Suc n)
    then have "leads press (at v) (at (v + n)) \<and> leads press (at (v + n)) (at v)" by simp
    moreover have "leads press (at (v + n)) (at (Suc (v + n))) \<and> leads press (at (Suc (v + n))) (at (v + n))"
      by (rule step) (use Suc.prems in simp)
    ultimately show ?case by (metis leads_trans add_Suc_right)
  qed simp
  from this [of a "b - a"] this [of b "a - b"] assms(2,3) show ?thesis by (cases "a \<le> b") simp_all
qed

lemma leads_walk_int:
  fixes lo :: int
  assumes step: "\<And>v. lo \<le> v \<Longrightarrow> v < hi \<Longrightarrow> leads press (at v) (at (v + 1)) \<and> leads press (at (v + 1)) (at v)"
    and "lo \<le> a" "a \<le> hi" "lo \<le> b" "b \<le> hi"
  shows "leads press (at a) (at b)"
proof -
  have "leads press (at (lo + int (nat (a - lo)))) (at (lo + int (nat (b - lo))))"
  proof (rule leads_walk [of "nat (hi - lo)" press "\<lambda>k. at (lo + int k)"])
    fix v assume "v < nat (hi - lo)"
    then show "leads press (at (lo + int v)) (at (lo + int (Suc v))) \<and> leads press (at (lo + int (Suc v))) (at (lo + int v))"
      using step [of "lo + int v"] by (simp add: ac_simps)
  qed (use assms(2-5) in simp_all)
  with assms(2,4) show ?thesis by simp
qed

end
