(* ===== verification/ManualTimeProofs.thy ===== *)
theory ManualTimeProofs
  imports ManualTime Presses
begin

text \<open>
  The draft of the time is always a date of the calendar and can become every date of its years; and the check for a time that the
  zone does not have never finds one, since it compares with the fields that the C library has corrected.
\<close>

section \<open>The calendar\<close>

text \<open>The days before a month, counted with years that begin in March.\<close>

definition days_before :: "int \<Rightarrow> int \<Rightarrow> int" where
  "days_before year month =
     (let y = (if month \<le> 2 then year - 1 else year)
      in 365 * y + y div 4 - y div 100 + y div 400 + (153 * ((month + 9) mod 12) + 2) div 5)"

definition month_length :: "int \<Rightarrow> int \<Rightarrow> int" where
  "month_length year month =
     (if month = 12 then days_before (year + 1) 1 else days_before year (month + 1)) - days_before year month"

lemma div_step:
  fixes y k :: int
  assumes "0 < k"
  shows "y div k = (y - 1) div k + (if y mod k = 0 then 1 else 0)"
proof (cases "y mod k = 0")
  case True
  have "y - 1 = k * (y div k - 1) + (k - 1)" using True mult_div_mod_eq [of k y] by (simp add: algebra_simps)
  then have "(y - 1) div k = y div k - 1" by (rule int_div_pos_eq) (use assms in simp_all)
  with True show ?thesis by simp
next
  case False
  have "y - 1 = k * (y div k) + (y mod k - 1)" using mult_div_mod_eq [of k y] by simp
  then have "(y - 1) div k = y div k"
    by (rule int_div_pos_eq) (use assms False pos_mod_sign [OF assms, of y] pos_mod_bound [OF assms, of y] in linarith)+
  with False show ?thesis by simp
qed

lemma leap_dvd: "y mod 400 = 0 \<Longrightarrow> y mod 100 = 0" "y mod 100 = 0 \<Longrightarrow> y mod 4 = 0" for y :: int
  by presburger+

lemma month_cases: "1 \<le> m \<Longrightarrow> m \<le> 12 \<Longrightarrow> m \<in> {1, 2, 3, 4, 5, 6, 7, 8, 9, 10, 11, 12}" for m :: int
  by simp presburger

lemma years_apart:
  "a = a' + u \<Longrightarrow> b = b' + v \<Longrightarrow> c = c' + w \<Longrightarrow>
   365 * y + a - b + c - (365 * (y - 1) + a' - b' + c' + 337) = 28 + u - v + (w :: int)"
  by simp

lemma february: "month_length y 2 = days_in_month y 2"
proof -
  have march: "days_before y 3 = 365 * y + y div 4 - y div 100 + y div 400"
    unfolding days_before_def Let_def by simp
  have feb: "days_before y 2 = 365 * (y - 1) + (y - 1) div 4 - (y - 1) div 100 + (y - 1) div 400 + 337"
    unfolding days_before_def Let_def by simp
  have "month_length y 2 = days_before y 3 - days_before y 2" by (simp add: month_length_def)
  also have "\<dots> = 28 + (if y mod 4 = 0 then 1 else 0) - (if y mod 100 = 0 then 1 else 0) + (if y mod 400 = 0 then 1 else 0)"
    unfolding march feb by (rule years_apart; rule div_step; simp)
  also have "\<dots> = days_in_month y 2"
    using leap_dvd [of y] unfolding days_in_month_def
    by (cases "y mod 400 = 0"; cases "y mod 100 = 0"; cases "y mod 4 = 0") simp_all
  finally show ?thesis .
qed

lemma days_in_month_length:
  assumes "1 \<le> m" and "m \<le> 12"
  shows "days_in_month y m = month_length y m"
proof (cases "m = 2")
  case True
  then show ?thesis by (simp add: february)
next
  case False
  with month_cases [OF assms] have "m \<in> {1, 3, 4, 5, 6, 7, 8, 9, 10, 11, 12}" by blast
  then show ?thesis
    by (elim insertE emptyE) (simp_all add: month_length_def days_before_def days_in_month_def month_days_def Let_def)
qed

section \<open>The draft\<close>

definition is_date :: "manual_time \<Rightarrow> bool" where
  "is_date mt \<longleftrightarrow> 2024 \<le> mt_year mt \<and> mt_year mt \<le> 2037 \<and> 1 \<le> mt_month mt \<and> mt_month mt \<le> 12 \<and>
     1 \<le> mt_day mt \<and> mt_day mt \<le> month_length (mt_year mt) (mt_month mt) \<and>
     0 \<le> mt_hour mt \<and> mt_hour mt < 24 \<and> 0 \<le> mt_minute mt \<and> mt_minute mt < 60"

lemma clamp_to_bounds: "lo \<le> hi \<Longrightarrow> lo \<le> clamp_to v lo hi \<and> clamp_to v lo hi \<le> hi"
  by (simp add: clamp_to_def)

lemma clamp_to_id: "lo \<le> v \<Longrightarrow> v \<le> hi \<Longrightarrow> clamp_to v lo hi = v"
  by (simp add: clamp_to_def)

lemma days_in_month_range: "28 \<le> days_in_month y m \<and> days_in_month y m \<le> 31"
proof (cases "1 \<le> m \<and> m \<le> 12")
  case True
  with month_cases [of m] show ?thesis by (auto simp: days_in_month_def month_days_def)
qed (auto simp: days_in_month_def)

lemma clamped_is_date: "is_date (clamp_manual_time_fields mt)"
proof -
  let ?y = "clamp_to (mt_year mt) 2024 2037" and ?m = "clamp_to (mt_month mt) 1 12"
  have m: "1 \<le> ?m" "?m \<le> 12" using clamp_to_bounds [of 1 12 "mt_month mt"] by simp_all
  have "1 \<le> days_in_month ?y ?m" using days_in_month_range [of ?y ?m] by simp
  then show ?thesis
    using m clamp_to_bounds [of 2024 2037 "mt_year mt"] clamp_to_bounds [of 1 "days_in_month ?y ?m" "mt_day mt"]
      clamp_to_bounds [of 0 23 "mt_hour mt"] clamp_to_bounds [of 0 59 "mt_minute mt"] days_in_month_length [OF m, of ?y]
    by (simp add: is_date_def clamp_manual_time_fields_def Let_def)
qed

lemma clamp_date: "is_date mt \<Longrightarrow> clamp_manual_time_fields mt = mt"
  using days_in_month_length [of "mt_month mt" "mt_year mt"]
  by (simp add: is_date_def clamp_manual_time_fields_def Let_def clamp_to_id)

definition good_draft :: "manual_time \<Rightarrow> bool" where
  "good_draft mt \<longleftrightarrow> (mt_initialized mt \<longrightarrow> is_date mt)"

lemma init_good: "is_date (init_manual_time_from_current now mt)"
  unfolding init_manual_time_from_current_def using clamped_is_date by (simp add: is_date_def)

lemma init_initialized [simp]: "mt_initialized (init_manual_time_from_current now mt)"
  by (simp add: init_manual_time_from_current_def)

lemma ready_good: "good_draft mt \<Longrightarrow> is_date (manual_time_ready now mt) \<and> mt_initialized (manual_time_ready now mt)"
  by (simp add: manual_time_ready_def good_draft_def init_good)

lemma clamp_initialized [simp]: "mt_initialized (clamp_manual_time_fields mt) = mt_initialized mt"
  by (simp add: clamp_manual_time_fields_def Let_def)

text \<open>A press on a field: its identifier and its direction, at a moment.\<close>

definition press_field :: "manual_time \<Rightarrow> tm option \<times> string \<times> int \<Rightarrow> manual_time" where
  "press_field mt p = (case p of (now, ident, direction) \<Rightarrow> snd (save_manual_time_number now ident direction mt))"

lemma press_good: "good_draft mt \<Longrightarrow> good_draft (press_field mt p)"
  using ready_good [of mt "fst p"]
  by (cases p) (simp add: press_field_def save_manual_time_number_def Let_def good_draft_def clamped_is_date)

lemma presses_good: "good_draft mt \<Longrightarrow> good_draft (foldl press_field mt ps)"
  by (induction ps arbitrary: mt) (simp_all add: press_good)

section \<open>Every date can be set\<close>

abbreviation presses_lead :: "manual_time \<Rightarrow> manual_time \<Rightarrow> bool" where
  "presses_lead \<equiv> leads press_field"

abbreviation date :: "int \<Rightarrow> int \<Rightarrow> int \<Rightarrow> int \<Rightarrow> int \<Rightarrow> manual_time" where
  "date y m d h i \<equiv> \<lparr>mt_initialized = True, mt_year = y, mt_month = m, mt_day = d, mt_hour = h, mt_minute = i\<rparr>"

definition fields_ok :: "int \<Rightarrow> int \<Rightarrow> int \<Rightarrow> int \<Rightarrow> int \<Rightarrow> bool" where
  "fields_ok y m d h i \<longleftrightarrow> 2024 \<le> y \<and> y \<le> 2037 \<and> 1 \<le> m \<and> m \<le> 12 \<and> 1 \<le> d \<and> d \<le> days_in_month y m \<and> 0 \<le> h \<and> h \<le> 23 \<and> 0 \<le> i \<and> i \<le> 59"

lemma fields_date: "fields_ok y m d h i \<Longrightarrow> is_date (date y m d h i)"
  by (simp add: fields_ok_def is_date_def days_in_month_length [symmetric])

lemma press_year: "fields_ok (y + k) m d h i \<Longrightarrow> k \<in> {1, - 1} \<Longrightarrow> presses_lead (date y m d h i) (date (y + k) m d h i)"
  by (rule leads_press [of press_field _ "(None, ''system_manual_time_year'', k)"])
    (use clamp_date [OF fields_date [of "y + k" m d h i]] in \<open>auto simp: press_field_def save_manual_time_number_def manual_time_ready_def\<close>)

lemma press_month: "fields_ok y (m + k) d h i \<Longrightarrow> k \<in> {1, - 1} \<Longrightarrow> presses_lead (date y m d h i) (date y (m + k) d h i)"
  by (rule leads_press [of press_field _ "(None, ''system_manual_time_month'', k)"])
    (use clamp_date [OF fields_date [of y "m + k" d h i]] in \<open>auto simp: press_field_def save_manual_time_number_def manual_time_ready_def\<close>)

lemma press_day: "fields_ok y m (d + k) h i \<Longrightarrow> k \<in> {1, - 1} \<Longrightarrow> presses_lead (date y m d h i) (date y m (d + k) h i)"
  by (rule leads_press [of press_field _ "(None, ''system_manual_time_day'', k)"])
    (use clamp_date [OF fields_date [of y m "d + k" h i]] in \<open>auto simp: press_field_def save_manual_time_number_def manual_time_ready_def\<close>)

lemma press_hour: "fields_ok y m d (h + k) i \<Longrightarrow> k \<in> {1, - 1} \<Longrightarrow> presses_lead (date y m d h i) (date y m d (h + k) i)"
  by (rule leads_press [of press_field _ "(None, ''system_manual_time_hour'', k)"])
    (use clamp_date [OF fields_date [of y m d "h + k" i]] in \<open>auto simp: press_field_def save_manual_time_number_def manual_time_ready_def\<close>)

lemma press_minute: "fields_ok y m d h (i + k) \<Longrightarrow> k \<in> {1, - 1} \<Longrightarrow> presses_lead (date y m d h i) (date y m d h (i + k))"
  by (rule leads_press [of press_field _ "(None, ''system_manual_time_minute'', k)"])
    (use clamp_date [OF fields_date [of y m d h "i + k"]] in \<open>auto simp: press_field_def save_manual_time_number_def manual_time_ready_def\<close>)

lemma both_ways:
  assumes "fields_ok y m d h i"
  shows "fields_ok (y + 1) m d h i \<Longrightarrow> presses_lead (date y m d h i) (date (y + 1) m d h i) \<and> presses_lead (date (y + 1) m d h i) (date y m d h i)"
    and "fields_ok y (m + 1) d h i \<Longrightarrow> presses_lead (date y m d h i) (date y (m + 1) d h i) \<and> presses_lead (date y (m + 1) d h i) (date y m d h i)"
    and "fields_ok y m (d + 1) h i \<Longrightarrow> presses_lead (date y m d h i) (date y m (d + 1) h i) \<and> presses_lead (date y m (d + 1) h i) (date y m d h i)"
    and "fields_ok y m d (h + 1) i \<Longrightarrow> presses_lead (date y m d h i) (date y m d (h + 1) i) \<and> presses_lead (date y m d (h + 1) i) (date y m d h i)"
    and "fields_ok y m d h (i + 1) \<Longrightarrow> presses_lead (date y m d h i) (date y m d h (i + 1)) \<and> presses_lead (date y m d h (i + 1)) (date y m d h i)"
  using assms press_year [of y 1] press_year [of "y + 1" "- 1"] press_month [of y m 1] press_month [of y "m + 1" "- 1"]
    press_day [of y m d 1] press_day [of y m "d + 1" "- 1"] press_hour [of y m d h 1] press_hour [of y m d "h + 1" "- 1"]
    press_minute [of y m d h i 1] press_minute [of y m d h "i + 1" "- 1"]
  by simp_all

text \<open>First the day to 1, which every month has, then the year, the month, the day, the hour and the minute.\<close>

lemma dates_lead:
  assumes "fields_ok y m d h i" and "fields_ok y' m' d' h' i'"
  shows "presses_lead (date y m d h i) (date y' m' d' h' i')"
proof -
  have one: "1 \<le> days_in_month y m" for y m using days_in_month_range [of y m] by simp
  note ok = assms [unfolded fields_ok_def]
  have "presses_lead (date y m d h i) (date y m 1 h i)"
    by (rule leads_walk_int [of 1 "days_in_month y m" press_field "\<lambda>d. date y m d h i"]) (use ok one in \<open>auto intro!: both_ways simp: fields_ok_def\<close>)
  also have "presses_lead (date y m 1 h i) (date y' m 1 h i)"
    by (rule leads_walk_int [of 2024 2037 press_field "\<lambda>y. date y m 1 h i"]) (use ok one in \<open>auto intro!: both_ways simp: fields_ok_def\<close>)
  also have "presses_lead (date y' m 1 h i) (date y' m' 1 h i)"
    by (rule leads_walk_int [of 1 12 press_field "\<lambda>m. date y' m 1 h i"]) (use ok one in \<open>auto intro!: both_ways simp: fields_ok_def\<close>)
  also have "presses_lead (date y' m' 1 h i) (date y' m' d' h i)"
    by (rule leads_walk_int [of 1 "days_in_month y' m'" press_field "\<lambda>d. date y' m' d h i"]) (use ok one in \<open>auto intro!: both_ways simp: fields_ok_def\<close>)
  also have "presses_lead (date y' m' d' h i) (date y' m' d' h' i)"
    by (rule leads_walk_int [of 0 23 press_field "\<lambda>h. date y' m' d' h i"]) (use ok one in \<open>auto intro!: both_ways simp: fields_ok_def\<close>)
  also have "presses_lead (date y' m' d' h' i) (date y' m' d' h' i')"
    by (rule leads_walk_int [of 0 59 press_field "\<lambda>i. date y' m' d' h' i"]) (use ok one in \<open>auto intro!: both_ways simp: fields_ok_def\<close>)
  finally show ?thesis .
qed

lemma draft_date:
  assumes "is_date mt" and "mt_initialized mt"
  shows "mt = date (mt_year mt) (mt_month mt) (mt_day mt) (mt_hour mt) (mt_minute mt) \<and>
    fields_ok (mt_year mt) (mt_month mt) (mt_day mt) (mt_hour mt) (mt_minute mt)"
  using assms days_in_month_length [of "mt_month mt" "mt_year mt"] by (simp add: is_date_def fields_ok_def)

text \<open>
  C31: The draft of the time is always a date: after any presses on any fields the year is within 2024 and 2037, and month, day, hour
  and minute are those of the calendar, leap years counted from the days of the years; and every such date can be reached by presses.
\<close>

theorem manual_time_is_a_date:
  assumes "mt_initialized start \<longrightarrow> is_date start"
  shows "(mt_initialized (foldl press_field start presses) \<longrightarrow> is_date (foldl press_field start presses)) \<and>
    (is_date target \<and> mt_initialized target \<longrightarrow> (\<exists>ps. foldl press_field start ps = target))"
proof (intro conjI impI)
  have good: "good_draft start" using assms by (simp add: good_draft_def)
  then show "is_date (foldl press_field start presses)" if "mt_initialized (foldl press_field start presses)"
    using presses_good [OF good, of presses] that by (simp add: good_draft_def)
  assume target: "is_date target \<and> mt_initialized target"
  let ?first = "press_field start (None, ''system_manual_time_minute'', 1)"
  have "mt_initialized ?first"
    using ready_good [OF good, of None] by (simp add: press_field_def save_manual_time_number_def Let_def)
  then have "is_date ?first" using press_good [OF good, of "(None, ''system_manual_time_minute'', 1)"] by (simp add: good_draft_def)
  with draft_date [of ?first] draft_date [of target] target \<open>mt_initialized ?first\<close> dates_lead
  have "presses_lead ?first target" by metis
  then have "presses_lead start target" using leads_trans [OF leads_press [of press_field start "(None, ''system_manual_time_minute'', 1)", OF refl]] by blast
  then show "\<exists>ps. foldl press_field start ps = target" by (simp add: leads_def)
qed

theorem manual_time_is_a_date_witness:
  "\<exists>ps. foldl press_field (date 2026 1 31 12 0) ps = date 2028 2 29 23 59"
proof -
  have "is_date (date 2026 1 31 12 0)" "is_date (date 2028 2 29 23 59)"
    by (simp_all add: is_date_def month_length_def days_before_def)
  with manual_time_is_a_date [of "date 2026 1 31 12 0" "[]" "date 2028 2 29 23 59"] show ?thesis by simp
qed

section \<open>Times that a zone does not have\<close>

text \<open>
  C32: A time that the zone does not have is not refused. The C library corrects the fields it is given to those of the moment it
  answers; the check compares with the corrected fields, so whenever there is a moment at all, the draft is accepted: with the settings
  written, the clock is set to that moment, after automatic time has been switched off, even if its fields are not those of the draft.
\<close>

theorem corrected_time_is_accepted:
  assumes corrects: "\<forall>t epoch t'. tv_mktime ev t = Some (epoch, t') \<longrightarrow> tv_localtime ev epoch = Some t'"
    and draft: "is_date (ts_manual st)" "mt_initialized (ts_manual st)"
    and moment: "tv_mktime ev (draft_tm (ts_manual st)) = Some (epoch, corrected)" and saved: "tv_save_ok ev"
    and run: "apply_manual_system_time ev shown st = (ok, st', calls)"
  shows "take 4 calls = [Set_timezone (tv_timezone ev), Stop_ntp, Save_automatic_time False, Set_clock epoch] \<and> \<not> ts_automatic st' \<and>
    (ok \<longleftrightarrow> tv_clock_error ev = None \<and> tv_store_ok ev)"
proof -
  have mt: "clamp_manual_time_fields (manual_time_ready (tv_now ev) (ts_manual st)) = ts_manual st"
    using draft by (simp add: manual_time_ready_def clamp_date)
  have "tv_localtime ev epoch = Some corrected" using corrects moment by blast
  then have "checked_epoch ev (draft_tm (ts_manual st)) = Some epoch" using moment by (simp add: checked_epoch_def)
  with run saved show ?thesis
    unfolding apply_manual_system_time_def mt Let_def by (auto simp: with_time_status_def split: option.splits if_splits)
qed

text \<open>A clock on the day when the hour from 2 to 3 is left out, asked for half past two: it is set to half past three.\<close>

definition gap_mktime :: "tm \<Rightarrow> (int \<times> tm) option" where
  "gap_mktime t =
     (let h = (if tm_hour t = 2 then 3 else tm_hour t)
      in Some (60 * (60 * h + tm_min t) - (if 2 < h then 3600 else 0), t\<lparr>tm_hour := h\<rparr>))"

definition spring_day :: "tm \<Rightarrow> bool" where
  "spring_day t \<longleftrightarrow> tm_year t = 126 \<and> tm_mon t = 2 \<and> tm_mday t = 29 \<and> 0 \<le> tm_hour t \<and> tm_hour t < 24 \<and> 0 \<le> tm_min t \<and> tm_min t < 60"

definition gap_localtime :: "int \<Rightarrow> tm option" where
  "gap_localtime e =
     Some \<lparr>tm_year = 126, tm_mon = 2, tm_mday = 29, tm_hour = e div 3600 + (if 7200 \<le> e then 1 else 0), tm_min = e mod 3600 div 60\<rparr>"

definition gap_env :: time_env where
  "gap_env = \<lparr>tv_now = None, tv_mktime = \<lambda>t. if spring_day t then gap_mktime t else None, tv_localtime = gap_localtime,
     tv_timezone = ''CET-1CEST'', tv_save_ok = True, tv_clock_error = None, tv_store_ok = True\<rparr>"

lemma gap_corrects: "\<forall>t epoch t'. tv_mktime gap_env t = Some (epoch, t') \<longrightarrow> tv_localtime gap_env epoch = Some t'"
proof (intro allI impI)
  fix t :: tm and epoch t'
  assume "tv_mktime gap_env t = Some (epoch, t')"
  then have day: "spring_day t" and mk: "gap_mktime t = Some (epoch, t')" by (simp_all add: gap_env_def split: if_splits)
  obtain h m where t: "t = \<lparr>tm_year = 126, tm_mon = 2, tm_mday = 29, tm_hour = h, tm_min = m\<rparr>" and r: "0 \<le> h" "h < 24" "0 \<le> m" "m < 60"
    using day by (cases t) (auto simp: spring_day_def)
  define k where "k = (if 2 < (if h = 2 then 3 else h) then (if h = 2 then 3 else h) - 1 else h)"
  have e: "epoch = 60 * m + 3600 * k" and t': "t' = t\<lparr>tm_hour := if h = 2 then 3 else h\<rparr>"
    using mk by (auto simp: gap_mktime_def t k_def)
  have "epoch div 3600 = k" unfolding e using r(3,4) by simp
  moreover have "epoch mod 3600 div 60 = m" unfolding e using r(3,4) by simp
  moreover have "7200 \<le> epoch \<longleftrightarrow> 2 \<le> k" unfolding e using r(3,4) by auto
  ultimately show "tv_localtime gap_env epoch = Some t'"
    using r(1,2) by (auto simp: gap_env_def gap_localtime_def t t' k_def)
qed

theorem corrected_time_is_accepted_witness:
  "let (ok, st', calls) = apply_manual_system_time gap_env ''2026-03-29 03:30'' \<lparr>ts_manual = date 2026 3 29 2 30, ts_automatic = True, ts_status = []\<rparr>
   in ok \<and> Set_clock 9000 \<in> set (take 4 calls) \<and> map_option tm_hour (gap_localtime 9000) = Some 3"
proof -
  let ?st = "\<lparr>ts_manual = date 2026 3 29 2 30, ts_automatic = True, ts_status = []\<rparr>"
  obtain ok st' calls where run: "apply_manual_system_time gap_env ''2026-03-29 03:30'' ?st = (ok, st', calls)"
    by (rule prod_cases3)
  have d: "is_date (ts_manual ?st)" "mt_initialized (ts_manual ?st)" by (simp_all add: is_date_def month_length_def days_before_def)
  have "tv_mktime gap_env (draft_tm (ts_manual ?st)) =
      Some (9000, \<lparr>tm_year = 126, tm_mon = 2, tm_mday = 29, tm_hour = 3, tm_min = 30\<rparr>)"
    by (simp add: gap_env_def gap_mktime_def spring_day_def draft_tm_def)
  from corrected_time_is_accepted [OF gap_corrects d this _ run] show ?thesis
    unfolding run by (simp add: gap_env_def gap_localtime_def)
qed

end
