(* ===== verification/UiNav.thy ===== *)
theory UiNav
  imports UiRoms UiSettingIds UiInput
begin

text \<open>
  From screen to screen in the controller UI (\<open>src/frontend/plumos_controller_ui.c\<close>): which screen each of its openers shows and
  what it remembers to come back to, and where B, START and POWER lead from every screen. What a screen loads and shows is not
  part of it, nor the screens shown only while a handler runs, the network rescue and the power menu as an overlay.
\<close>

datatype settings_category = SETTINGS_CATEGORY_UI | SETTINGS_CATEGORY_UI_THEME | SETTINGS_CATEGORY_SYSTEM
  | SETTINGS_CATEGORY_SYSTEM_DISPLAY_COLOR | SETTINGS_CATEGORY_SYSTEM_BRIGHTNESS_TEST | SETTINGS_CATEGORY_SYSTEM_TIME
  | SETTINGS_CATEGORY_SYSTEM_TIME_MANUAL | SETTINGS_CATEGORY_SYSTEM_INFORMATION | SETTINGS_CATEGORY_SYSTEM_FACTORY_RESET
  | SETTINGS_CATEGORY_NETWORK | SETTINGS_CATEGORY_NETWORK_SERVICE | SETTINGS_CATEGORY_NETWORK_INFORMATION
  | SETTINGS_CATEGORY_PERFORMANCE

record nav =
  nv_screen :: ui_screen
  nv_back_screen :: ui_screen
  nv_power_back_screen :: ui_screen
  nv_core_back_screen :: ui_screen
  nv_gallery_back_screen :: ui_screen
  nv_settings_category :: settings_category
  nv_menu_is_apps :: bool
  nv_rom_directory :: string
  nv_wifi_stage :: wifi_connect_stage

section \<open>Openers\<close>

definition nav_start_menu :: "nav \<Rightarrow> nav" where
  "nav_start_menu n = n\<lparr>nv_back_screen := nv_screen n, nv_screen := SCREEN_START_MENU, nv_menu_is_apps := False\<rparr>"

definition nav_apps_menu :: "nav \<Rightarrow> nav" where
  "nav_apps_menu n = n\<lparr>nv_screen := SCREEN_START_MENU, nv_menu_is_apps := True\<rparr>"

definition nav_power_menu :: "nav \<Rightarrow> nav" where
  "nav_power_menu n = n\<lparr>nv_power_back_screen := nv_screen n, nv_screen := SCREEN_POWER_MENU\<rparr>"

definition nav_settings :: "settings_category \<Rightarrow> nav \<Rightarrow> nav" where
  "nav_settings c n = n\<lparr>nv_settings_category := c, nv_screen := SCREEN_SETTINGS\<rparr>"

definition nav_core_select :: "nav \<Rightarrow> nav" where
  "nav_core_select n = n\<lparr>nv_core_back_screen := nv_screen n, nv_screen := SCREEN_CORE_SELECT\<rparr>"

definition nav_wifi_connect :: "nav \<Rightarrow> nav" where
  "nav_wifi_connect n = n\<lparr>nv_screen := SCREEN_WIFI_CONNECT, nv_wifi_stage := WIFI_CONNECT_SELECT\<rparr>"

definition nav_gallery :: "nav \<Rightarrow> nav" where
  "nav_gallery n = n\<lparr>nv_gallery_back_screen := nv_screen n, nv_screen := SCREEN_GALLERY\<rparr>"

text \<open>The list of a system, which may come up as the gallery at once.\<close>

definition nav_rom_screen :: "string \<Rightarrow> bool \<Rightarrow> nav \<Rightarrow> nav" where
  "nav_rom_screen system_id as_gallery n =
     (let n = n\<lparr>nv_rom_directory := []\<rparr> in
      if system_id = ''favorites'' then n\<lparr>nv_screen := SCREEN_FAVORITES\<rparr>
      else if system_id = ''recent'' then n\<lparr>nv_screen := SCREEN_RECENT\<rparr>
      else if as_gallery then n\<lparr>nv_gallery_back_screen := SCREEN_TOP, nv_screen := SCREEN_GALLERY\<rparr>
      else n\<lparr>nv_screen := SCREEN_ROMS\<rparr>)"

section \<open>B, START and POWER\<close>

definition settings_parent :: "settings_category \<Rightarrow> settings_category option" where
  "settings_parent c =
     (if c = SETTINGS_CATEGORY_UI_THEME then Some SETTINGS_CATEGORY_UI
      else if c \<in> {SETTINGS_CATEGORY_SYSTEM_DISPLAY_COLOR, SETTINGS_CATEGORY_SYSTEM_BRIGHTNESS_TEST, SETTINGS_CATEGORY_SYSTEM_TIME,
          SETTINGS_CATEGORY_SYSTEM_INFORMATION, SETTINGS_CATEGORY_SYSTEM_FACTORY_RESET} then Some SETTINGS_CATEGORY_SYSTEM
      else if c = SETTINGS_CATEGORY_SYSTEM_TIME_MANUAL then Some SETTINGS_CATEGORY_SYSTEM_TIME
      else if c \<in> {SETTINGS_CATEGORY_NETWORK_INFORMATION, SETTINGS_CATEGORY_NETWORK_SERVICE} then Some SETTINGS_CATEGORY_NETWORK
      else None)"

text \<open>B on one screen after the other.\<close>

definition back_power_menu :: "nav \<Rightarrow> nav" where
  "back_power_menu n = n\<lparr>nv_screen := nv_power_back_screen n\<rparr>"

definition back_core_select :: "nav \<Rightarrow> nav" where
  "back_core_select n = n\<lparr>nv_screen := nv_core_back_screen n\<rparr>"

definition back_wifi_connect :: "nav \<Rightarrow> nav" where
  "back_wifi_connect n =
     (if nv_wifi_stage n = WIFI_CONNECT_PASSWORD then n\<lparr>nv_wifi_stage := WIFI_CONNECT_SELECT\<rparr>
      else nav_settings SETTINGS_CATEGORY_NETWORK n)"

definition back_start_menu :: "nav \<Rightarrow> nav" where
  "back_start_menu n = (if nv_menu_is_apps n then n\<lparr>nv_menu_is_apps := False\<rparr> else n\<lparr>nv_screen := nv_back_screen n\<rparr>)"

definition back_settings :: "nav \<Rightarrow> nav" where
  "back_settings n =
     (case settings_parent (nv_settings_category n) of
        Some c \<Rightarrow> nav_settings c n
      | None \<Rightarrow> n\<lparr>nv_screen := SCREEN_START_MENU\<rparr>)"

definition back_help :: "nav \<Rightarrow> nav" where
  "back_help n = n\<lparr>nv_screen := SCREEN_START_MENU\<rparr>"

text \<open>\<open>ok\<close> tells whether the parent directory could be opened, where that is tried.\<close>

definition back_gallery :: "bool \<Rightarrow> nav \<Rightarrow> nav" where
  "back_gallery ok n =
     (if nv_rom_directory n \<noteq> [] \<and> ok then n\<lparr>nv_rom_directory := parent_rom_directory (nv_rom_directory n)\<rparr>
      else n\<lparr>nv_screen := SCREEN_TOP\<rparr>)"

definition back_list :: "bool \<Rightarrow> nav \<Rightarrow> nav" where
  "back_list ok n =
     (if nv_screen n = SCREEN_ROMS \<and> nv_rom_directory n \<noteq> [] \<and> ok
      then n\<lparr>nv_rom_directory := parent_rom_directory (nv_rom_directory n)\<rparr>
      else n\<lparr>nv_screen := SCREEN_TOP\<rparr>)"

definition nav_back :: "bool \<Rightarrow> nav \<Rightarrow> nav" where
  "nav_back ok n =
     (case nv_screen n of
        SCREEN_POWER_ACTION_RUNNING \<Rightarrow> n
      | SCREEN_POWER_MENU \<Rightarrow> back_power_menu n
      | SCREEN_CORE_SELECT \<Rightarrow> back_core_select n
      | SCREEN_SCRAPING \<Rightarrow> nav_apps_menu n
      | SCREEN_THUMBNAIL_RESULTS \<Rightarrow> nav_apps_menu n
      | SCREEN_NETWORK_RESCUE \<Rightarrow> back_help n
      | SCREEN_WIFI_CONNECT \<Rightarrow> back_wifi_connect n
      | SCREEN_GALLERY \<Rightarrow> back_gallery ok n
      | SCREEN_TOP \<Rightarrow> n
      | SCREEN_START_MENU \<Rightarrow> back_start_menu n
      | SCREEN_SETTINGS \<Rightarrow> back_settings n
      | SCREEN_HELP \<Rightarrow> back_help n
      | _ \<Rightarrow> back_list ok n)"

definition nav_start :: "nav \<Rightarrow> nav" where
  "nav_start n =
     (if nv_screen n \<in> {SCREEN_POWER_ACTION_RUNNING, SCREEN_POWER_MENU, SCREEN_CORE_SELECT, SCREEN_WIFI_CONNECT, SCREEN_START_MENU} then n
      else nav_start_menu n)"

definition nav_power :: "nav \<Rightarrow> nav" where
  "nav_power n = (if nv_screen n \<in> {SCREEN_POWER_ACTION_RUNNING, SCREEN_POWER_MENU} then n else nav_power_menu n)"

section \<open>The other ways\<close>

text \<open>
  A on an entry of a menu, on a setting, on a tile of the top screen and on a directory; X to and from the gallery; SELECT to the
  cores and the results; and the stages of the connection to a network.
\<close>

datatype nav_event =
    Press_B bool
  | Press_START
  | Press_POWER
  | Menu_settings settings_category
  | Menu_roms string bool
  | Menu_apps
  | Menu_help
  | Menu_scraping
  | Menu_results
  | Setting_opens settings_category
  | Setting_wifi
  | Setting_help
  | Top_opens string bool
  | Directory_opens string
  | Press_X
  | Select_core
  | Select_results
  | Wifi_stage wifi_connect_stage

definition in_list :: "nav \<Rightarrow> bool" where
  "in_list n \<longleftrightarrow> nv_screen n \<in> {SCREEN_ROMS, SCREEN_FAVORITES, SCREEN_RECENT}"

definition nav_press_X :: "nav \<Rightarrow> nav" where
  "nav_press_X n =
     (if nv_screen n = SCREEN_GALLERY then
        n\<lparr>nv_screen := (if nv_gallery_back_screen n = SCREEN_FAVORITES \<or> nv_gallery_back_screen n = SCREEN_RECENT
           then nv_gallery_back_screen n else SCREEN_ROMS)\<rparr>
      else if in_list n then nav_gallery n
      else n)"

definition nav_step :: "nav \<Rightarrow> nav_event \<Rightarrow> nav" where
  "nav_step n ev =
     (case ev of
        Press_B ok \<Rightarrow> nav_back ok n
      | Press_START \<Rightarrow> nav_start n
      | Press_POWER \<Rightarrow> nav_power n
      | Menu_settings c \<Rightarrow> if nv_screen n = SCREEN_START_MENU then nav_settings c n else n
      | Menu_roms s g \<Rightarrow> if nv_screen n = SCREEN_START_MENU then nav_rom_screen s g n else n
      | Menu_apps \<Rightarrow> if nv_screen n = SCREEN_START_MENU then nav_apps_menu n else n
      | Menu_help \<Rightarrow> if nv_screen n = SCREEN_START_MENU then n\<lparr>nv_screen := SCREEN_HELP\<rparr> else n
      | Menu_scraping \<Rightarrow> if nv_screen n = SCREEN_START_MENU then n\<lparr>nv_screen := SCREEN_SCRAPING\<rparr> else n
      | Menu_results \<Rightarrow> if nv_screen n = SCREEN_START_MENU then n\<lparr>nv_screen := SCREEN_THUMBNAIL_RESULTS\<rparr> else n
      | Setting_opens c \<Rightarrow> if nv_screen n = SCREEN_SETTINGS then nav_settings c n else n
      | Setting_wifi \<Rightarrow> if nv_screen n = SCREEN_SETTINGS then nav_wifi_connect n else n
      | Setting_help \<Rightarrow> if nv_screen n = SCREEN_SETTINGS then n\<lparr>nv_screen := SCREEN_HELP\<rparr> else n
      | Top_opens s g \<Rightarrow> if nv_screen n = SCREEN_TOP then nav_rom_screen s g n else n
      | Directory_opens d \<Rightarrow> if nv_screen n = SCREEN_ROMS \<or> nv_screen n = SCREEN_GALLERY then n\<lparr>nv_rom_directory := d\<rparr> else n
      | Press_X \<Rightarrow> nav_press_X n
      | Select_core \<Rightarrow> if nv_screen n = SCREEN_TOP \<or> nv_screen n = SCREEN_GALLERY \<or> in_list n then nav_core_select n else n
      | Select_results \<Rightarrow> if nv_screen n = SCREEN_SCRAPING then n\<lparr>nv_screen := SCREEN_THUMBNAIL_RESULTS\<rparr> else n
      | Wifi_stage s \<Rightarrow> if nv_screen n = SCREEN_WIFI_CONNECT then n\<lparr>nv_wifi_stage := s\<rparr> else n)"

end
