(* ===== verification/UiNavProofs.thy ===== *)
theory UiNavProofs
  imports UiNav
begin

text \<open>
  B leads back to the top screen from every screen that is reached without START being pressed outside the lists; START pressed in the
  settings, the help or the scraping screens makes B lead round in circles.
\<close>

fun is_list :: "ui_screen \<Rightarrow> bool" where
  "is_list SCREEN_TOP = True"
| "is_list SCREEN_ROMS = True"
| "is_list SCREEN_FAVORITES = True"
| "is_list SCREEN_RECENT = True"
| "is_list SCREEN_GALLERY = True"
| "is_list _ = False"

text \<open>The screens that are opened from a menu and go back to it.\<close>

fun is_from_menu :: "ui_screen \<Rightarrow> bool" where
  "is_from_menu SCREEN_SETTINGS = True"
| "is_from_menu SCREEN_HELP = True"
| "is_from_menu SCREEN_SCRAPING = True"
| "is_from_menu SCREEN_THUMBNAIL_RESULTS = True"
| "is_from_menu SCREEN_NETWORK_RESCUE = True"
| "is_from_menu _ = False"

fun is_transient :: "ui_screen \<Rightarrow> bool" where
  "is_transient SCREEN_THUMBNAIL_RUNNING = True"
| "is_transient SCREEN_TOP_REFRESH_RUNNING = True"
| "is_transient SCREEN_POWER_ACTION_RUNNING = True"
| "is_transient _ = False"

definition nav_init :: nav where
  "nav_init = \<lparr>nv_screen = SCREEN_TOP, nv_back_screen = SCREEN_TOP, nv_power_back_screen = SCREEN_TOP, nv_core_back_screen = SCREEN_TOP,
     nv_gallery_back_screen = SCREEN_TOP, nv_settings_category = SETTINGS_CATEGORY_UI, nv_menu_is_apps = False, nv_rom_directory = [],
     nv_wifi_stage = WIFI_CONNECT_SELECT\<rparr>"

inductive nav_reachable :: "nav \<Rightarrow> bool" where
  nav_first: "nav_reachable nav_init"
| nav_next: "nav_reachable n \<Longrightarrow> ev = Press_START \<longrightarrow> \<not> is_from_menu (nv_screen n) \<Longrightarrow> nav_reachable (nav_step n ev)"

definition nav_ok :: "nav \<Rightarrow> bool" where
  "nav_ok n \<longleftrightarrow> is_list (nv_back_screen n) \<and> is_list (nv_core_back_screen n) \<and> \<not> is_transient (nv_power_back_screen n) \<and>
     nv_power_back_screen n \<noteq> SCREEN_POWER_MENU \<and> \<not> is_transient (nv_screen n)"

lemmas nav_openers = nav_start_menu_def nav_apps_menu_def nav_power_menu_def nav_settings_def nav_core_select_def nav_wifi_connect_def
  nav_gallery_def nav_rom_screen_def

lemmas nav_backs = nav_back_def back_power_menu_def back_core_select_def back_wifi_connect_def back_start_menu_def back_settings_def
  back_help_def back_gallery_def back_list_def

lemma list_not_transient: "is_list s \<Longrightarrow> \<not> is_transient s \<and> s \<noteq> SCREEN_POWER_MENU"
  by (cases s) simp_all

lemma nav_back_ok: "nav_ok n \<Longrightarrow> nav_ok (nav_back ok n)"
  by (cases "nv_screen n") (simp_all add: nav_ok_def nav_backs nav_openers list_not_transient split: option.split)

lemma start_lists: "\<not> is_transient s \<Longrightarrow> \<not> is_from_menu s \<Longrightarrow>
    s \<notin> {SCREEN_POWER_MENU, SCREEN_CORE_SELECT, SCREEN_WIFI_CONNECT, SCREEN_START_MENU} \<Longrightarrow> is_list s"
  by (cases s) simp_all

lemma nav_start_ok: "nav_ok n \<Longrightarrow> \<not> is_from_menu (nv_screen n) \<Longrightarrow> nav_ok (nav_start n)"
  using start_lists [of "nv_screen n"] by (simp add: nav_ok_def nav_start_def nav_openers)

lemma nav_power_ok: "nav_ok n \<Longrightarrow> nav_ok (nav_power n)"
  by (simp add: nav_ok_def nav_power_def nav_openers)

lemma nav_open_ok:
  "nav_ok n \<Longrightarrow> nav_ok (nav_settings c n)" "nav_ok n \<Longrightarrow> nav_ok (nav_rom_screen s g n)" "nav_ok n \<Longrightarrow> nav_ok (nav_apps_menu n)"
  "nav_ok n \<Longrightarrow> nav_ok (nav_wifi_connect n)" "nav_ok n \<Longrightarrow> is_from_menu s' \<Longrightarrow> nav_ok (n\<lparr>nv_screen := s'\<rparr>)"
  "nav_ok n \<Longrightarrow> is_list (nv_screen n) \<Longrightarrow> nav_ok (nav_core_select n)" "nav_ok n \<Longrightarrow> nav_ok (n\<lparr>nv_rom_directory := d\<rparr>)"
  "nav_ok n \<Longrightarrow> nav_ok (n\<lparr>nv_wifi_stage := w\<rparr>)" "nav_ok n \<Longrightarrow> nav_ok (nav_press_X n)"
  by (simp_all add: nav_ok_def nav_openers nav_press_X_def Let_def) (cases s'; simp)

lemma listed: "in_list n \<Longrightarrow> is_list (nv_screen n)"
  by (auto simp: in_list_def)

lemma nav_step_ok: "nav_ok n \<Longrightarrow> ev = Press_START \<longrightarrow> \<not> is_from_menu (nv_screen n) \<Longrightarrow> nav_ok (nav_step n ev)"
  by (cases ev) (simp_all add: nav_step_def nav_back_ok nav_start_ok nav_power_ok nav_open_ok listed)

lemma reachable_ok: "nav_reachable n \<Longrightarrow> nav_ok n"
proof (induction rule: nav_reachable.induct)
  case nav_first
  show ?case by (simp add: nav_ok_def nav_init_def)
next
  case (nav_next n ev)
  then show ?case by (simp add: nav_step_ok)
qed

section \<open>How far the top screen is\<close>

definition directory_depth :: "string \<Rightarrow> nat" where
  "directory_depth d = (if d = [] then 0 else Suc (count_list d CHR ''/''))"

lemma parent_depth:
  assumes "d \<noteq> []"
  shows "directory_depth (parent_rom_directory d) < directory_depth d"
proof (cases "strrchr d CHR ''/''")
  case None
  then show ?thesis using assms by (simp add: parent_rom_directory_def directory_depth_def)
next
  case (Some i)
  then have i: "i < length d" "d ! i = CHR ''/''" using strrchr_SomeD by auto
  then have "d = take i d @ CHR ''/'' # drop (Suc i) d" by (simp add: id_take_nth_drop [symmetric] flip: i(2))
  then have "count_list d CHR ''/'' = count_list (take i d) CHR ''/'' + Suc (count_list (drop (Suc i) d) CHR ''/'')"
    by (metis count_list_append count_list.simps(2) add_Suc_right add.commute plus_1_eq_Suc)
  then show ?thesis using Some assms by (auto simp: parent_rom_directory_def directory_depth_def)
qed

fun settings_depth :: "settings_category \<Rightarrow> nat" where
  "settings_depth SETTINGS_CATEGORY_SYSTEM_TIME_MANUAL = 2"
| "settings_depth SETTINGS_CATEGORY_UI = 0"
| "settings_depth SETTINGS_CATEGORY_SYSTEM = 0"
| "settings_depth SETTINGS_CATEGORY_NETWORK = 0"
| "settings_depth SETTINGS_CATEGORY_PERFORMANCE = 0"
| "settings_depth _ = 1"

lemma settings_parent_depth: "settings_parent c = Some p \<Longrightarrow> settings_depth p < settings_depth c"
  by (cases c) (auto simp: settings_parent_def)

definition screen_rank :: "nav \<Rightarrow> ui_screen \<Rightarrow> nat" where
  "screen_rank n s =
     (case s of
        SCREEN_TOP \<Rightarrow> 0
      | SCREEN_CORE_SELECT \<Rightarrow> 2
      | SCREEN_START_MENU \<Rightarrow> if nv_menu_is_apps n then 3 else 2
      | SCREEN_SETTINGS \<Rightarrow> 4 + settings_depth (nv_settings_category n)
      | SCREEN_HELP \<Rightarrow> 4
      | SCREEN_SCRAPING \<Rightarrow> 4
      | SCREEN_THUMBNAIL_RESULTS \<Rightarrow> 4
      | SCREEN_NETWORK_RESCUE \<Rightarrow> 4
      | SCREEN_WIFI_CONNECT \<Rightarrow> if nv_wifi_stage n = WIFI_CONNECT_PASSWORD then 6 else 5
      | SCREEN_POWER_MENU \<Rightarrow> 7
      | _ \<Rightarrow> 1)"

definition nav_rank :: "nav \<Rightarrow> nat" where
  "nav_rank n = (if nv_screen n = SCREEN_TOP then 0 else screen_rank n (nv_screen n) + directory_depth (nv_rom_directory n))"

lemma settings_depth_le: "settings_depth c \<le> 2"
  by (cases c) simp_all

lemma rank_le: "nav_rank n \<le> 7 + directory_depth (nv_rom_directory n)"
  using settings_depth_le [of "nv_settings_category n"] by (auto simp: nav_rank_def screen_rank_def split: ui_screen.split)

lemma back_ranks:
  assumes "nav_ok n" and "nv_screen n \<noteq> SCREEN_TOP"
  shows "nav_rank (nav_back ok n) < nav_rank n"
proof -
  have core: "is_list s \<Longrightarrow> screen_rank n' s \<le> 1" for s n' by (cases s) (simp_all add: screen_rank_def)
  have pwr: "s \<noteq> SCREEN_POWER_MENU \<Longrightarrow> screen_rank n' s \<le> 6" for s n'
    using settings_depth_le [of "nv_settings_category n'"] by (cases s) (simp_all add: screen_rank_def)
  have same: "screen_rank (n\<lparr>nv_screen := s'\<rparr>) s = screen_rank n s" for s s'
    by (cases s) (simp_all add: screen_rank_def)
  have moves: "nav_rank (n\<lparr>nv_screen := s\<rparr>) < nav_rank n" if "screen_rank n s < screen_rank n (nv_screen n)" for s
    using that assms(2) by (simp add: nav_rank_def same)
  have deep: "directory_depth (parent_rom_directory (nv_rom_directory n)) < directory_depth (nv_rom_directory n)" if "nv_rom_directory n \<noteq> []"
    by (rule parent_depth [OF that])
  note ok = assms [unfolded nav_ok_def]
  note rank = screen_rank_def nav_rank_def
  show ?thesis
  proof (cases "nv_screen n")
    case SCREEN_POWER_MENU
    with ok pwr [of "nv_power_back_screen n" n] show ?thesis by (simp add: nav_backs moves screen_rank_def [of n SCREEN_POWER_MENU])
  next
    case SCREEN_CORE_SELECT
    with ok core [of "nv_core_back_screen n" n] show ?thesis by (simp add: nav_backs moves screen_rank_def [of n SCREEN_CORE_SELECT])
  next
    case SCREEN_START_MENU
    with ok core [of "nv_back_screen n" n] show ?thesis
      by (cases "nv_menu_is_apps n") (simp_all add: nav_backs moves screen_rank_def [of n SCREEN_START_MENU], simp add: rank)
  next
    case SCREEN_SETTINGS
    then show ?thesis using settings_parent_depth [of "nv_settings_category n"]
      by (cases "settings_parent (nv_settings_category n)") (simp_all add: nav_backs nav_settings_def rank)
  qed (use ok deep in \<open>simp_all add: nav_backs nav_openers rank\<close>)
qed

lemma top_stays: "nv_screen n = SCREEN_TOP \<Longrightarrow> nav_back ok n = n"
  by (simp add: nav_backs)

lemma backs_to_top:
  "nav_ok n \<Longrightarrow> nav_rank n \<le> length oks \<Longrightarrow> nv_screen (foldl (\<lambda>n ok. nav_back ok n) n oks) = SCREEN_TOP"
proof (induction oks arbitrary: n)
  case Nil
  then have "screen_rank n (nv_screen n) = 0 \<or> nv_screen n = SCREEN_TOP" by (simp add: nav_rank_def split: if_splits)
  moreover have "screen_rank n s = 0 \<Longrightarrow> s = SCREEN_TOP" for s by (cases s) (simp_all add: screen_rank_def split: if_splits)
  ultimately show ?case by auto
next
  case (Cons ok oks)
  show ?case
  proof (cases "nv_screen n = SCREEN_TOP")
    case True
    have "foldl (\<lambda>n ok. nav_back ok n) n xs = n" for xs
      by (induction xs) (simp_all add: top_stays [OF True])
    with True show ?thesis by (simp only:)
  next
    case False
    with back_ranks [OF Cons.prems(1) False, of ok] Cons.prems have "nav_rank (nav_back ok n) \<le> length oks" by simp
    from Cons.IH [OF nav_back_ok [OF Cons.prems(1)] this] show ?thesis by simp
  qed
qed

text \<open>
  C33: B leads home. From every screen that can be reached without START being pressed in the settings, the help or the scraping screens,
  seven presses of B and one for each directory the list is in lead to the top screen, whether or not the directories can be opened.
\<close>

theorem back_leads_to_top:
  assumes "nav_reachable n" and "7 + directory_depth (nv_rom_directory n) \<le> length oks"
  shows "nv_screen (foldl (\<lambda>n ok. nav_back ok n) n oks) = SCREEN_TOP"
  by (rule backs_to_top [OF reachable_ok [OF assms(1)]]) (use rank_le [of n] assms(2) in linarith)

text \<open>From the list of a system to the manual time, and the power menu on top.\<close>

definition deep_events :: "nav_event list" where
  "deep_events = [Top_opens ''gg'' False, Directory_opens ''gg/rpg'', Press_START, Menu_settings SETTINGS_CATEGORY_SYSTEM,
     Setting_opens SETTINGS_CATEGORY_SYSTEM_TIME, Setting_opens SETTINGS_CATEGORY_SYSTEM_TIME_MANUAL, Press_POWER]"

fun starts_ok :: "nav \<Rightarrow> nav_event list \<Rightarrow> bool" where
  "starts_ok n [] = True"
| "starts_ok n (ev # evs) = ((ev = Press_START \<longrightarrow> \<not> is_from_menu (nv_screen n)) \<and> starts_ok (nav_step n ev) evs)"

lemma reachable_steps: "nav_reachable n \<Longrightarrow> starts_ok n evs \<Longrightarrow> nav_reachable (foldl nav_step n evs)"
  by (induction evs arbitrary: n) (simp_all add: nav_next)

theorem back_leads_to_top_witness:
  "nv_screen (foldl nav_step nav_init deep_events) = SCREEN_POWER_MENU \<and>
   nv_screen (foldl (\<lambda>n ok. nav_back ok n) (foldl nav_step nav_init deep_events) (replicate 9 True)) = SCREEN_TOP"
proof -
  let ?n = "foldl nav_step nav_init deep_events"
  have "starts_ok nav_init deep_events"
    by (simp add: deep_events_def nav_step_def nav_start_def nav_power_def nav_init_def nav_openers)
  then have "nav_reachable ?n" by (rule reachable_steps [OF nav_first])
  moreover have n: "nv_screen ?n = SCREEN_POWER_MENU" "nv_rom_directory ?n = ''gg/rpg''"
    by (simp_all add: deep_events_def nav_step_def nav_start_def nav_power_def nav_init_def nav_openers)
  ultimately show ?thesis using back_leads_to_top [of ?n "replicate 9 True"] by (simp add: directory_depth_def)
qed

section \<open>Round in circles\<close>

definition circle :: "ui_screen \<Rightarrow> nav \<Rightarrow> bool" where
  "circle s n \<longleftrightarrow> nv_back_screen n = s \<and> (nv_screen n = s \<or> nv_screen n = SCREEN_START_MENU)"

lemma circle_back:
  assumes "s \<in> {SCREEN_SETTINGS, SCREEN_HELP, SCREEN_SCRAPING, SCREEN_THUMBNAIL_RESULTS}" and "circle s n"
  shows "circle s (nav_back ok n)"
proof -
  have "nv_screen n = SCREEN_START_MENU \<or> nv_screen n = s" "nv_back_screen n = s" using assms(2) by (auto simp: circle_def)
  with assms(1) show ?thesis
    by (elim insertE emptyE disjE) (simp_all add: circle_def nav_backs nav_openers split: option.split)
qed

text \<open>
  C34: START in the settings, the help, the scraping or the results screen takes B away. The START menu then goes back to that screen, and
  that screen to the START menu: however often B is pressed, only these two screens are shown, and never the top screen.
\<close>

theorem start_in_settings_circles:
  assumes "nv_screen n \<in> {SCREEN_SETTINGS, SCREEN_HELP, SCREEN_SCRAPING, SCREEN_THUMBNAIL_RESULTS}"
  shows "nv_screen (foldl (\<lambda>n ok. nav_back ok n) (nav_start n) oks) \<in> {nv_screen n, SCREEN_START_MENU} - {SCREEN_TOP}"
proof -
  have start: "circle (nv_screen n) (nav_start n)" using assms by (auto simp: circle_def nav_start_def nav_start_menu_def)
  have "circle (nv_screen n) m \<Longrightarrow> circle (nv_screen n) (foldl (\<lambda>n ok. nav_back ok n) m oks)" for m
    by (induction oks arbitrary: m) (simp_all add: circle_back [OF assms])
  from this [OF start] assms show ?thesis by (auto simp: circle_def)
qed

theorem start_in_settings_circles_witness:
  "nv_screen (foldl (\<lambda>n ok. nav_back ok n) (nav_start (nav_settings SETTINGS_CATEGORY_UI nav_init)) (replicate 1000 True)) \<noteq> SCREEN_TOP"
  using start_in_settings_circles [of "nav_settings SETTINGS_CATEGORY_UI nav_init" "replicate 1000 True"] by (auto simp: nav_settings_def)

end
