(* ===== verification/UiWifi.thy ===== *)
theory UiWifi
  imports UiCursor UiInput ServiceLib
begin

text \<open>
  Connecting to a network (\<open>src/frontend/plumos_controller_ui.c\<close>): the networks a scan finds, the keyboard for the password, and the
  connection, which a script makes. What the script prints and how it ends, and what happens to the temporary file it is given, are
  parameters; the texts of the status line are part of the state.
\<close>

definition UI_MAX_WIFI_NETWORKS :: nat where "UI_MAX_WIFI_NETWORKS = 64"
definition UI_WIFI_SSID_MAX :: nat where "UI_WIFI_SSID_MAX = 160"
definition UI_WIFI_PASSWORD_MAX :: nat where "UI_WIFI_PASSWORD_MAX = 64"
definition UI_WIFI_KEYBOARD_ROWS :: nat where "UI_WIFI_KEYBOARD_ROWS = 7"
definition UI_WIFI_COMMAND_ROW :: nat where "UI_WIFI_COMMAND_ROW = 6"
definition UI_WIFI_COMMAND_COUNT :: nat where "UI_WIFI_COMMAND_COUNT = 5"

record wifi_network_entry =
  wn_ssid :: string
  wn_security :: string
  wn_signal :: string

record wifi =
  wf_networks :: "wifi_network_entry list"
  wf_cursor :: nat
  wf_stage :: wifi_connect_stage
  wf_key_row :: nat
  wf_key_col :: nat
  wf_key_shift :: bool
  wf_password :: string
  wf_result_title :: string
  wf_result_ip :: string
  wf_result_gateway :: string
  wf_result_gateway_ping :: string
  wf_result_stage :: string
  wf_result_success :: bool
  wf_enabled :: bool
  wf_status :: string

text \<open>The answers of the world: of the script to a scan and to a connection, with its wait status, and of the temporary file.\<close>

datatype temp_answer = Temp_ok | Temp_not_created | Temp_not_written | Temp_not_closed

record wifi_env =
  we_script :: "(bool \<times> bool)"
  we_scan :: "(string \<times> nat option) option"
  we_temp :: temp_answer
  we_connect :: "string \<Rightarrow> (string \<times> nat option) option"
  we_save_ok :: bool

definition wifi_say :: "wifi \<Rightarrow> string \<Rightarrow> wifi" where
  "wifi_say w t = w\<lparr>wf_status := stored 256 t\<rparr>"

definition exited_ok :: "nat option \<Rightarrow> bool" where
  "exited_ok rc \<longleftrightarrow> rc = Some 0"

section \<open>Scanning\<close>

definition trim_line_end :: "string \<Rightarrow> string" where
  "trim_line_end s = rev (dropWhile (\<lambda>c. c = NL \<or> c = CHR 0x0D) (rev s))"

definition wifi_network_exists :: "wifi \<Rightarrow> string \<Rightarrow> bool" where
  "wifi_network_exists w ssid \<longleftrightarrow> ssid \<noteq> [] \<and> list_ex (\<lambda>n. wn_ssid n = ssid) (wf_networks w)"

definition wifi_add_network :: "string \<Rightarrow> string \<Rightarrow> string \<Rightarrow> wifi \<Rightarrow> wifi" where
  "wifi_add_network ssid security signal w =
     (if ssid = [] \<or> UI_MAX_WIFI_NETWORKS \<le> length (wf_networks w) \<or> wifi_network_exists w ssid then w
      else w\<lparr>wf_networks := wf_networks w @
        [\<lparr>wn_ssid = take (UI_WIFI_SSID_MAX - 1) ssid, wn_security = take 23 (if security \<noteq> [] then security else ''secured''),
          wn_signal = take 23 (if signal \<noteq> [] then signal else ''-'')\<rparr>]\<rparr>)"

definition wifi_scan_line :: "wifi \<Rightarrow> string \<Rightarrow> wifi" where
  "wifi_scan_line w line0 =
     (let line = trim_line_end line0; tab = CHR 0x09 in
      if \<not> prefix (''network'' @ [tab]) line then w
      else
        let rest = drop 8 line in
        case strchr rest tab of
          None \<Rightarrow> w
        | Some i \<Rightarrow>
            let rest2 = drop (Suc i) rest in
            case strchr rest2 tab of
              None \<Rightarrow> w
            | Some j \<Rightarrow> wifi_add_network (drop (Suc j) rest2) (take i rest) (take j rest2) w)"

text \<open>\<open>we_script\<close> tells whether the path of the script fits and whether the script is there.\<close>

definition wifi_scan_networks :: "wifi_env \<Rightarrow> wifi \<Rightarrow> wifi" where
  "wifi_scan_networks ev w0 =
     (let w = w0\<lparr>wf_networks := [], wf_cursor := 0\<rparr> in
      if \<not> fst (we_script ev) then wifi_say w ''network control path too long''
      else if \<not> snd (we_script ev) then wifi_say w ''network control script missing''
      else case we_scan ev of
        None \<Rightarrow> wifi_say w ''Wi-Fi scan failed to start''
      | Some (output, rc) \<Rightarrow>
          let w1 = foldl wifi_scan_line w (fgets_lines 512 output) in
          if wf_networks w1 = [] then wifi_say w1 (if exited_ok rc then ''No Wi-Fi networks found'' else ''Wi-Fi scan failed'')
          else wifi_say w1 (''Wi-Fi scan found '' @ show_nat (length (wf_networks w1))))"

section \<open>The keyboard\<close>

definition WIFI_KEYBOARD_ROWS_LOWER :: "string list" where
  \<open>WIFI_KEYBOARD_ROWS_LOWER = [''0123456789'', ''qwertyuiop'', ''asdfghjkl'', ''zxcvbnm'', ''-_.@#$%&!*'',
     ''?+=:/'' @ [CHR 0x5C] @ ''"'' @ [CHR 0x27] @ ''()[]'']\<close>

definition WIFI_KEYBOARD_ROWS_UPPER :: "string list" where
  \<open>WIFI_KEYBOARD_ROWS_UPPER = [''0123456789'', ''QWERTYUIOP'', ''ASDFGHJKL'', ''ZXCVBNM'', ''-_.@#$%&!*'',
     ''?+=:/'' @ [CHR 0x5C] @ ''"'' @ [CHR 0x27] @ ''()[]'']\<close>

definition wifi_keyboard_row_chars :: "bool \<Rightarrow> nat \<Rightarrow> string" where
  "wifi_keyboard_row_chars shift row =
     (if UI_WIFI_COMMAND_ROW \<le> row then [] else if shift then WIFI_KEYBOARD_ROWS_UPPER ! row else WIFI_KEYBOARD_ROWS_LOWER ! row)"

definition wifi_keyboard_row_len :: "bool \<Rightarrow> nat \<Rightarrow> nat" where
  "wifi_keyboard_row_len shift row =
     (if row = UI_WIFI_COMMAND_ROW then UI_WIFI_COMMAND_COUNT
      else if UI_WIFI_KEYBOARD_ROWS \<le> row then 0
      else length (wifi_keyboard_row_chars shift row))"

definition wifi_clamp_key_cursor :: "wifi \<Rightarrow> wifi" where
  "wifi_clamp_key_cursor w =
     (let row = (if UI_WIFI_KEYBOARD_ROWS \<le> wf_key_row w then UI_WIFI_KEYBOARD_ROWS - 1 else wf_key_row w);
          row_len = wifi_keyboard_row_len (wf_key_shift w) row
      in w\<lparr>wf_key_row := row,
           wf_key_col := (if row_len = 0 then 0 else if row_len \<le> wf_key_col w then row_len - 1 else wf_key_col w)\<rparr>)"

definition wifi_append_password_char :: "wifi \<Rightarrow> char \<Rightarrow> wifi" where
  "wifi_append_password_char w c =
     (if UI_WIFI_PASSWORD_MAX \<le> length (wf_password w) then wifi_say w ''Password is already 64 chars''
      else wifi_say (w\<lparr>wf_password := wf_password w @ [c]\<rparr>) (''Password length '' @ show_nat (length (wf_password w) + 1)))"

definition wifi_delete_password_char :: "wifi \<Rightarrow> wifi" where
  "wifi_delete_password_char w =
     (let p = (if wf_password w \<noteq> [] then butlast (wf_password w) else wf_password w)
      in wifi_say (w\<lparr>wf_password := p\<rparr>) (''Password length '' @ show_nat (length p)))"

section \<open>Connecting\<close>

definition wifi_selected_network_is_open :: "wifi \<Rightarrow> bool" where
  "wifi_selected_network_is_open w \<longleftrightarrow>
     wf_cursor w < length (wf_networks w) \<and> wn_security (wf_networks w ! wf_cursor w) = ''open''"

definition string_contains_line_break :: "string \<Rightarrow> bool" where
  "string_contains_line_break s \<longleftrightarrow> NL \<in> set s \<or> CHR 0x0D \<in> set s"

text \<open>The text of the file, none when it is not there; a file that could not be written is removed.\<close>

definition wifi_write_connect_tempfile :: "wifi_env \<Rightarrow> wifi \<Rightarrow> wifi \<times> string option" where
  "wifi_write_connect_tempfile ev w =
     (if length (wf_networks w) \<le> wf_cursor w then (w, None)
      else
        let ssid = wn_ssid (wf_networks w ! wf_cursor w) in
        if string_contains_line_break ssid \<or> string_contains_line_break (wf_password w)
        then (wifi_say w ''SSID/password contains unsupported newline'', None)
        else case we_temp ev of
          Temp_not_created \<Rightarrow> (wifi_say w ''cannot create Wi-Fi temp file'', None)
        | Temp_not_written \<Rightarrow> (wifi_say w ''cannot write Wi-Fi temp file'', None)
        | Temp_not_closed \<Rightarrow> (wifi_say w ''cannot close Wi-Fi temp file'', None)
        | Temp_ok \<Rightarrow> (w, Some (ssid @ [NL] @ wf_password w @ [NL])))"

definition wifi_clear_result :: "wifi \<Rightarrow> wifi" where
  "wifi_clear_result w =
     w\<lparr>wf_result_title := [], wf_result_ip := [], wf_result_gateway := [], wf_result_gateway_ping := [], wf_result_stage := [],
       wf_result_success := False\<rparr>"

definition wifi_parse_connect_output_line :: "wifi \<Rightarrow> string \<Rightarrow> wifi" where
  "wifi_parse_connect_output_line w line =
     (if prefix ''result='' line then
        (if drop 7 line = ''connected'' then w\<lparr>wf_result_success := True, wf_result_title := ''Connected''\<rparr>
         else w\<lparr>wf_result_success := False, wf_result_title := ''Connection Failed''\<rparr>)
      else if prefix ''ip='' line then w\<lparr>wf_result_ip := take 63 (drop 3 line)\<rparr>
      else if prefix ''gateway='' line then w\<lparr>wf_result_gateway := take 63 (drop 8 line)\<rparr>
      else if prefix ''gateway_ping='' line then w\<lparr>wf_result_gateway_ping := take 31 (drop 13 line)\<rparr>
      else if prefix ''stage='' line then w\<lparr>wf_result_stage := ''Failed at '' @ take 53 (drop 6 line)\<rparr>
      else w)"

text \<open>The second part is the file the script was started with, when it was.\<close>

definition wifi_connect_ended :: "wifi_env \<Rightarrow> nat option \<Rightarrow> wifi \<Rightarrow> wifi" where
  "wifi_connect_ended ev rc w =
     (if wf_result_success w then
        let w1 = (if we_save_ok ev then w\<lparr>wf_enabled := True\<rparr> else w);
            w2 = (if wf_result_stage w1 = []
                  then w1\<lparr>wf_result_stage := take 63 (''Gateway ping: '' @
                    (if wf_result_gateway_ping w1 \<noteq> [] then wf_result_gateway_ping w1 else ''skipped''))\<rparr>
                  else w1)
        in wifi_say w2 (''Wi-Fi connected IP='' @ (if wf_result_ip w2 \<noteq> [] then wf_result_ip w2 else ''-''))
      else
        let w1 = (if wf_result_title w = [] then w\<lparr>wf_result_title := ''Connection Failed''\<rparr> else w);
            w2 = (if wf_result_stage w1 = [] then w1\<lparr>wf_result_stage := ''No connection result returned.''\<rparr> else w1)
        in wifi_say w2 (if exited_ok rc then ''Wi-Fi connection did not complete'' else ''Wi-Fi connection failed''))"

definition run_wifi_connect_selected :: "wifi_env \<Rightarrow> wifi \<Rightarrow> wifi \<times> string option" where
  "run_wifi_connect_selected ev w =
     (if length (wf_networks w) \<le> wf_cursor w then (wifi_say w ''No SSID selected'', None)
      else if \<not> wifi_selected_network_is_open w \<and> (length (wf_password w) < 8 \<or> UI_WIFI_PASSWORD_MAX < length (wf_password w))
        then (wifi_say w ''Password must be 8..64 chars'', None)
      else if \<not> fst (we_script ev) then (wifi_say w ''network control path too long'', None)
      else if \<not> snd (we_script ev) then (wifi_say w ''network control script missing'', None)
      else case wifi_write_connect_tempfile ev w of
        (w1, None) \<Rightarrow> (w1, None)
      | (w1, Some content) \<Rightarrow>
          let w2 = wifi_say ((wifi_clear_result w1)\<lparr>wf_result_title := ''Connecting...'', wf_result_stage := ''Waiting for IP address.'',
                wf_stage := WIFI_CONNECT_RESULT\<rparr>) ''Connecting Wi-Fi''
          in case we_connect ev content of
               None \<Rightarrow> (wifi_say w2 ''Wi-Fi connect failed to start'', None)
             | Some (output, rc) \<Rightarrow>
                 (wifi_connect_ended ev rc
                    (foldl (\<lambda>w line. wifi_parse_connect_output_line w (trim_line_end line)) w2 (fgets_lines 512 output)),
                  Some content))"

section \<open>The screen\<close>

definition open_wifi_connect_screen :: "wifi_env \<Rightarrow> wifi \<Rightarrow> wifi" where
  "open_wifi_connect_screen ev w =
     wifi_scan_networks ev (wifi_say (wifi_clear_result
       (w\<lparr>wf_stage := WIFI_CONNECT_SELECT, wf_key_row := 0, wf_key_col := 0, wf_key_shift := False, wf_password := []\<rparr>))
       ''Scanning Wi-Fi SSIDs'')"

definition handle_wifi_password_key :: "wifi_env \<Rightarrow> wifi \<Rightarrow> wifi \<times> string option" where
  "handle_wifi_password_key ev w0 =
     (let w = wifi_clamp_key_cursor w0 in
      if wf_key_row w = UI_WIFI_COMMAND_ROW then
        (if wf_key_col w = 0 then
           (wifi_say (w\<lparr>wf_key_shift := \<not> wf_key_shift w\<rparr>) (if \<not> wf_key_shift w then ''Keyboard uppercase'' else ''Keyboard lowercase''), None)
         else if wf_key_col w = 1 then (wifi_append_password_char w CHR '' '', None)
         else if wf_key_col w = 2 then (wifi_delete_password_char w, None)
         else if wf_key_col w = 3 then (wifi_say (w\<lparr>wf_password := []\<rparr>) ''Password cleared'', None)
         else if wf_key_col w = 4 then run_wifi_connect_selected ev w
         else (w, None))
      else if wf_key_row w < UI_WIFI_KEYBOARD_ROWS \<and> wf_key_col w < length (wifi_keyboard_row_chars (wf_key_shift w) (wf_key_row w))
        then (wifi_append_password_char w (wifi_keyboard_row_chars (wf_key_shift w) (wf_key_row w) ! wf_key_col w), None)
      else (w, None))"

definition wifi_select_action :: "wifi_env \<Rightarrow> nat \<Rightarrow> wifi \<Rightarrow> ui_action \<Rightarrow> wifi \<times> string option \<times> bool" where
  "wifi_select_action ev window w action =
     (if action = ACTION_UP then (w\<lparr>wf_cursor := wf_cursor w - 1\<rparr>, None, False)
      else if action = ACTION_DOWN then
        (if wf_cursor w + 1 < length (wf_networks w) then w\<lparr>wf_cursor := wf_cursor w + 1\<rparr> else w, None, False)
      else if action = ACTION_RIGHT then
        (w\<lparr>wf_cursor := ui_cursor_page_down (wf_cursor w) (length (wf_networks w)) window\<rparr>, None, False)
      else if action = ACTION_LEFT then (w\<lparr>wf_cursor := ui_cursor_page_up (wf_cursor w) window\<rparr>, None, False)
      else if action = ACTION_SELECT then (wifi_scan_networks ev (wifi_say w ''Rescanning Wi-Fi SSIDs''), None, False)
      else if action = ACTION_B then (wifi_say w ''back to Network Settings'', None, True)
      else if action = ACTION_A then
        if length (wf_networks w) \<le> wf_cursor w then (wifi_say w ''No SSID selected'', None, False)
        else
          let w1 = w\<lparr>wf_password := []\<rparr> in
          if wifi_selected_network_is_open w1
          then (case run_wifi_connect_selected ev w1 of (w2, started) \<Rightarrow> (w2, started, False))
          else (wifi_say (w1\<lparr>wf_stage := WIFI_CONNECT_PASSWORD, wf_key_row := 0, wf_key_col := 0, wf_key_shift := False\<rparr>)
                  ''Enter Wi-Fi password'', None, False)
      else (w, None, False))"

definition wifi_password_action :: "wifi_env \<Rightarrow> wifi \<Rightarrow> ui_action \<Rightarrow> wifi \<times> string option" where
  "wifi_password_action ev w action =
     (if action = ACTION_B then (wifi_say (w\<lparr>wf_stage := WIFI_CONNECT_SELECT\<rparr>) ''back to SSID list'', None)
      else if action = ACTION_UP then (wifi_clamp_key_cursor (w\<lparr>wf_key_row := wf_key_row w - 1\<rparr>), None)
      else if action = ACTION_DOWN then
        (wifi_clamp_key_cursor (if wf_key_row w + 1 < UI_WIFI_KEYBOARD_ROWS then w\<lparr>wf_key_row := wf_key_row w + 1\<rparr> else w), None)
      else if action = ACTION_LEFT then (wifi_clamp_key_cursor (w\<lparr>wf_key_col := wf_key_col w - 1\<rparr>), None)
      else if action = ACTION_RIGHT then
        (wifi_clamp_key_cursor (if wf_key_col w + 1 < wifi_keyboard_row_len (wf_key_shift w) (wf_key_row w)
           then w\<lparr>wf_key_col := wf_key_col w + 1\<rparr> else w), None)
      else if action = ACTION_A then handle_wifi_password_key ev w
      else (w, None))"

text \<open>The last part tells whether the network settings are shown again.\<close>

definition handle_wifi_connect_action :: "wifi_env \<Rightarrow> nat \<Rightarrow> wifi \<Rightarrow> ui_action \<Rightarrow> wifi \<times> string option \<times> bool" where
  "handle_wifi_connect_action ev window w action =
     (case wf_stage w of
        WIFI_CONNECT_RESULT \<Rightarrow>
          if action = ACTION_A \<or> action = ACTION_B
          then (wifi_say w (if wf_result_success w then ''Wi-Fi connection complete'' else ''back to Network Settings''), None, True)
          else (w, None, False)
      | WIFI_CONNECT_SELECT \<Rightarrow> wifi_select_action ev window w action
      | WIFI_CONNECT_PASSWORD \<Rightarrow> (case wifi_password_action ev w action of (w1, started) \<Rightarrow> (w1, started, False)))"

end
