(* ===== verification/UiWifiProofs.thy ===== *)
theory UiWifiProofs
  imports UiWifi Presses TextShell
begin

text \<open>
  The cursors of the connection screen stay on a network and on a key, the script is only started with an open network or a password
  of 8 to 64 characters, in a file that gives both back line by line, and every password of the keyboard's characters can be entered.
\<close>

section \<open>The keyboard\<close>

definition keyboard_chars :: "char set" where
  "keyboard_chars = insert CHR '' '' (\<Union>shift row. set (wifi_keyboard_row_chars shift row))"

definition key_ok :: "wifi \<Rightarrow> bool" where
  "key_ok w \<longleftrightarrow> wf_key_row w < UI_WIFI_KEYBOARD_ROWS \<and> wf_key_col w < wifi_keyboard_row_len (wf_key_shift w) (wf_key_row w)"

lemma seven: "r < UI_WIFI_KEYBOARD_ROWS \<Longrightarrow> r \<in> {0, 1, 2, 3, 4, 5, 6}"
  by (auto simp: UI_WIFI_KEYBOARD_ROWS_def)

lemma row_len_pos:
  assumes "r < UI_WIFI_KEYBOARD_ROWS"
  shows "5 \<le> wifi_keyboard_row_len shift r"
  using seven [OF assms]
  by (elim insertE emptyE; cases shift) (simp_all add: wifi_keyboard_row_len_def wifi_keyboard_row_chars_def UI_WIFI_COMMAND_ROW_def
      UI_WIFI_COMMAND_COUNT_def UI_WIFI_KEYBOARD_ROWS_def WIFI_KEYBOARD_ROWS_LOWER_def WIFI_KEYBOARD_ROWS_UPPER_def)

lemma row_len_shift: "wifi_keyboard_row_len (\<not> shift) r = wifi_keyboard_row_len shift r"
proof (cases "r < UI_WIFI_KEYBOARD_ROWS")
  case True
  from seven [OF this] show ?thesis
    by (elim insertE emptyE; cases shift) (simp_all add: wifi_keyboard_row_len_def wifi_keyboard_row_chars_def UI_WIFI_COMMAND_ROW_def
        UI_WIFI_COMMAND_COUNT_def UI_WIFI_KEYBOARD_ROWS_def WIFI_KEYBOARD_ROWS_LOWER_def WIFI_KEYBOARD_ROWS_UPPER_def)
next
  case False
  then show ?thesis by (simp add: wifi_keyboard_row_len_def UI_WIFI_KEYBOARD_ROWS_def UI_WIFI_COMMAND_ROW_def)
qed

lemma clamp_key_ok: "key_ok (wifi_clamp_key_cursor w)"
proof -
  define r where "r = (if UI_WIFI_KEYBOARD_ROWS \<le> wf_key_row w then UI_WIFI_KEYBOARD_ROWS - 1 else wf_key_row w)"
  have "r < UI_WIFI_KEYBOARD_ROWS" by (simp add: r_def UI_WIFI_KEYBOARD_ROWS_def)
  with row_len_pos [OF this, of "wf_key_shift w"] show ?thesis
    by (simp add: key_ok_def wifi_clamp_key_cursor_def Let_def r_def [symmetric])
qed

lemma clamp_id: "key_ok w \<Longrightarrow> wifi_clamp_key_cursor w = w"
  by (simp add: key_ok_def wifi_clamp_key_cursor_def Let_def)

lemma clamp_frame [simp]:
  "wf_networks (wifi_clamp_key_cursor w) = wf_networks w" "wf_cursor (wifi_clamp_key_cursor w) = wf_cursor w"
  "wf_stage (wifi_clamp_key_cursor w) = wf_stage w" "wf_password (wifi_clamp_key_cursor w) = wf_password w"
  "wf_key_shift (wifi_clamp_key_cursor w) = wf_key_shift w"
  by (simp_all add: wifi_clamp_key_cursor_def Let_def)

lemma say_frame [simp]:
  "wf_networks (wifi_say w t) = wf_networks w" "wf_cursor (wifi_say w t) = wf_cursor w" "wf_stage (wifi_say w t) = wf_stage w"
  "wf_password (wifi_say w t) = wf_password w" "wf_key_shift (wifi_say w t) = wf_key_shift w" "wf_key_row (wifi_say w t) = wf_key_row w"
  "wf_key_col (wifi_say w t) = wf_key_col w"
  by (simp_all add: wifi_say_def)

lemma plain_keys: "c \<in> keyboard_chars \<Longrightarrow> c \<noteq> NL \<and> c \<noteq> CHR 0x0D"
proof -
  have rows: "\<forall>c \<in> set (wifi_keyboard_row_chars shift row). c \<noteq> NL \<and> c \<noteq> CHR 0x0D" for shift row
  proof (cases "row < UI_WIFI_KEYBOARD_ROWS")
    case True
    from seven [OF this] show ?thesis
      by (elim insertE emptyE; cases shift) (simp_all add: wifi_keyboard_row_chars_def UI_WIFI_COMMAND_ROW_def
          WIFI_KEYBOARD_ROWS_LOWER_def WIFI_KEYBOARD_ROWS_UPPER_def)
  next
    case False
    then show ?thesis by (simp add: wifi_keyboard_row_chars_def UI_WIFI_KEYBOARD_ROWS_def UI_WIFI_COMMAND_ROW_def)
  qed
  assume "c \<in> keyboard_chars"
  then show ?thesis using rows by (auto simp: keyboard_chars_def)
qed

section \<open>What every press keeps\<close>

definition wifi_ok :: "wifi \<Rightarrow> bool" where
  "wifi_ok w \<longleftrightarrow> (wf_networks w \<noteq> [] \<longrightarrow> wf_cursor w < length (wf_networks w)) \<and>
     length (wf_networks w) \<le> UI_MAX_WIFI_NETWORKS \<and>
     length (wf_password w) \<le> UI_WIFI_PASSWORD_MAX \<and> set (wf_password w) \<subseteq> keyboard_chars \<and>
     (wf_stage w = WIFI_CONNECT_PASSWORD \<longrightarrow> key_ok w \<and> \<not> wifi_selected_network_is_open w)"

lemma say_ok [simp]: "wifi_ok (wifi_say w t) = wifi_ok w"
  by (simp add: wifi_ok_def key_ok_def wifi_selected_network_is_open_def)

lemma add_network_le:
  "length (wf_networks w) \<le> UI_MAX_WIFI_NETWORKS \<Longrightarrow> length (wf_networks (wifi_add_network a b c w)) \<le> UI_MAX_WIFI_NETWORKS"
  by (simp add: wifi_add_network_def)

lemma add_network_frame [simp]:
  "wf_cursor (wifi_add_network a b c w) = wf_cursor w" "wf_stage (wifi_add_network a b c w) = wf_stage w"
  "wf_password (wifi_add_network a b c w) = wf_password w"
  by (simp_all add: wifi_add_network_def)

lemma scan_line_frame:
  "wf_cursor (wifi_scan_line w l) = wf_cursor w \<and> wf_stage (wifi_scan_line w l) = wf_stage w \<and>
   wf_password (wifi_scan_line w l) = wf_password w \<and>
   (length (wf_networks w) \<le> UI_MAX_WIFI_NETWORKS \<longrightarrow> length (wf_networks (wifi_scan_line w l)) \<le> UI_MAX_WIFI_NETWORKS)"
  by (simp add: wifi_scan_line_def Let_def add_network_le split: option.split)

lemma scan_lines_frame:
  "wf_cursor (foldl wifi_scan_line w ls) = wf_cursor w \<and> wf_stage (foldl wifi_scan_line w ls) = wf_stage w \<and>
   wf_password (foldl wifi_scan_line w ls) = wf_password w \<and>
   (length (wf_networks w) \<le> UI_MAX_WIFI_NETWORKS \<longrightarrow> length (wf_networks (foldl wifi_scan_line w ls)) \<le> UI_MAX_WIFI_NETWORKS)"
proof (induction ls arbitrary: w)
  case (Cons l ls)
  from Cons.IH [of "wifi_scan_line w l"] scan_line_frame [of w l] show ?case by simp
qed simp

lemma scan_ok:
  assumes "wf_stage w \<noteq> WIFI_CONNECT_PASSWORD" and "length (wf_password w) \<le> UI_WIFI_PASSWORD_MAX" "set (wf_password w) \<subseteq> keyboard_chars"
  shows "wifi_ok (wifi_scan_networks ev w) \<and> wf_stage (wifi_scan_networks ev w) = wf_stage w"
  using assms scan_lines_frame [of "w\<lparr>wf_networks := [], wf_cursor := 0\<rparr>"]
  by (auto simp: wifi_scan_networks_def Let_def wifi_ok_def split: option.split)

lemma parse_frame:
  "wf_networks (wifi_parse_connect_output_line w l) = wf_networks w \<and> wf_cursor (wifi_parse_connect_output_line w l) = wf_cursor w \<and>
   wf_stage (wifi_parse_connect_output_line w l) = wf_stage w \<and> wf_password (wifi_parse_connect_output_line w l) = wf_password w"
  by (simp add: wifi_parse_connect_output_line_def)

lemma parses_frame:
  "let v = foldl (\<lambda>w line. wifi_parse_connect_output_line w (trim_line_end line)) w ls
   in wf_networks v = wf_networks w \<and> wf_cursor v = wf_cursor w \<and> wf_stage v = wf_stage w \<and> wf_password v = wf_password w"
proof (induction ls arbitrary: w)
  case (Cons l ls)
  from Cons.IH [of "wifi_parse_connect_output_line w (trim_line_end l)"] parse_frame [of w "trim_line_end l"] show ?case
    by (simp add: Let_def)
qed simp

lemma ended_frame [simp]:
  "wf_networks (wifi_connect_ended ev rc w) = wf_networks w" "wf_cursor (wifi_connect_ended ev rc w) = wf_cursor w"
  "wf_stage (wifi_connect_ended ev rc w) = wf_stage w" "wf_password (wifi_connect_ended ev rc w) = wf_password w"
  by (simp_all add: wifi_connect_ended_def Let_def)

text \<open>What may be sent: the selected network, with no password when it is open and a password of 8 to 64 characters when it is not.\<close>

definition sent_ok :: "wifi \<Rightarrow> string \<Rightarrow> bool" where
  "sent_ok w content \<longleftrightarrow>
     (\<exists>network \<in> set (wf_networks w). \<exists>password.
        split_char NL content = [wn_ssid network, password, []] \<and> set password \<subseteq> keyboard_chars \<and>
        (if wn_security network = ''open'' then password = [] else 8 \<le> length password \<and> length password \<le> 64))"

lemma split_line: "NL \<notin> set a \<Longrightarrow> split_char NL (a @ NL # r) = a # split_char NL r"
proof -
  assume "NL \<notin> set a"
  then have "split_char NL a = [a]" by (induction a) auto
  then show ?thesis using split_char_append [of NL a r] by simp
qed

lemma break_free: "\<not> string_contains_line_break s \<Longrightarrow> NL \<notin> set s"
  by (simp add: string_contains_line_break_def)

lemma sent_file:
  assumes "wf_cursor w < length (wf_networks w)" "set (wf_password w) \<subseteq> keyboard_chars"
    and "if wifi_selected_network_is_open w then wf_password w = [] else 8 \<le> length (wf_password w) \<and> length (wf_password w) \<le> 64"
    and "wifi_write_connect_tempfile ev w = (w1, Some content)"
  shows "sent_ok w content \<and> w1 = w"
proof -
  let ?n = "wf_networks w ! wf_cursor w"
  have c: "content = wn_ssid ?n @ [NL] @ wf_password w @ [NL]" "\<not> string_contains_line_break (wn_ssid ?n)"
      "\<not> string_contains_line_break (wf_password w)" and w1: "w1 = w"
    using assms(1,4) by (auto simp: wifi_write_connect_tempfile_def Let_def split: if_splits temp_answer.splits)
  have "split_char NL content = [wn_ssid ?n, wf_password w, []]"
    using split_line [OF break_free [OF c(2)], of "wf_password w @ [NL]"] split_line [OF break_free [OF c(3)], of "[]"] by (simp add: c(1))
  moreover have "?n \<in> set (wf_networks w)" using assms(1) by simp
  moreover have "if wn_security ?n = ''open'' then wf_password w = [] else 8 \<le> length (wf_password w) \<and> length (wf_password w) \<le> 64"
    using assms(1,3) by (simp add: wifi_selected_network_is_open_def)
  ultimately show ?thesis using assms(2) w1 unfolding sent_ok_def by blast
qed

text \<open>A connection keeps the networks and the password; when it was tried the result is shown.\<close>

lemma connect_keeps:
  assumes ok: "wifi_ok w" and none: "wifi_selected_network_is_open w \<longrightarrow> wf_password w = []"
    and run: "run_wifi_connect_selected ev w = (v, started)"
  shows "wifi_ok v \<and> (\<forall>content. started = Some content \<longrightarrow> sent_ok w content)"
proof (cases "length (wf_networks w) \<le> wf_cursor w \<or>
    \<not> wifi_selected_network_is_open w \<and> (length (wf_password w) < 8 \<or> UI_WIFI_PASSWORD_MAX < length (wf_password w)) \<or>
    \<not> fst (we_script ev) \<or> \<not> snd (we_script ev)")
  case True
  then have "\<exists>t. (v, started) = (wifi_say w t, None)" using run unfolding run_wifi_connect_selected_def by (auto split: if_split_asm)
  with ok show ?thesis by auto
next
  case False
  have conds: "(length (wf_networks w) \<le> wf_cursor w) = False"
    "(\<not> wifi_selected_network_is_open w \<and> (length (wf_password w) < 8 \<or> UI_WIFI_PASSWORD_MAX < length (wf_password w))) = False"
    "fst (we_script ev) = True" "snd (we_script ev) = True" using False by blast+
  note run = run [unfolded run_wifi_connect_selected_def, simplified conds not_True_eq_False if_False simp_thms]
  obtain w1 written where f: "wifi_write_connect_tempfile ev w = (w1, written)" by (cases "wifi_write_connect_tempfile ev w")
  have w1: "w1 = w \<or> (\<exists>t. w1 = wifi_say w t)"
    using f by (auto simp: wifi_write_connect_tempfile_def Let_def split: if_splits temp_answer.splits)
  have pw: "set (wf_password w) \<subseteq> keyboard_chars" using ok by (simp add: wifi_ok_def)
  have len: "if wifi_selected_network_is_open w then wf_password w = [] else 8 \<le> length (wf_password w) \<and> length (wf_password w) \<le> 64"
    using False none by (auto simp: UI_WIFI_PASSWORD_MAX_def)
  show ?thesis
  proof (cases written)
    case None
    then have "(v, started) = (w1, None)" using run f by simp
    with w1 ok show ?thesis by auto
  next
    case (Some content)
    have sent: "sent_ok w content" "w1 = w" using sent_file [OF _ pw len] f Some False by auto
    let ?w2 = "wifi_say ((wifi_clear_result w)\<lparr>wf_result_title := ''Connecting...'', wf_result_stage := ''Waiting for IP address.'',
        wf_stage := WIFI_CONNECT_RESULT\<rparr>) ''Connecting Wi-Fi''"
    have w2: "wf_networks ?w2 = wf_networks w" "wf_cursor ?w2 = wf_cursor w" "wf_password ?w2 = wf_password w" "wf_stage ?w2 = WIFI_CONNECT_RESULT"
      by (simp_all add: wifi_clear_result_def)
    have keep: "wifi_ok u" if "wf_networks u = wf_networks w" "wf_cursor u = wf_cursor w" "wf_password u = wf_password w"
        "wf_stage u = WIFI_CONNECT_RESULT" for u
      using that ok by (simp add: wifi_ok_def)
    show ?thesis
    proof (cases "we_connect ev content")
      case None
      then have "(v, started) = (wifi_say ?w2 ''Wi-Fi connect failed to start'', None)"
        using run f Some sent(2) \<open>written = Some content\<close> by (simp add: Let_def)
      with keep [of v] w2 show ?thesis by simp
    next
      case (Some res)
      obtain printed rc where res: "res = (printed, rc)" by (cases res)
      let ?v = "foldl (\<lambda>w line. wifi_parse_connect_output_line w (trim_line_end line)) ?w2 (fgets_lines 512 printed)"
      have "(v, started) = (wifi_connect_ended ev rc ?v, Some content)"
        using run f \<open>written = Some content\<close> sent(2) Some unfolding res by (simp add: Let_def)
      with keep [of v] w2 parses_frame [of ?w2 "fgets_lines 512 printed"] sent(1) show ?thesis by (simp add: Let_def)
    qed
  qed
qed

lemma chars_at: "c < length (wifi_keyboard_row_chars shift r) \<Longrightarrow> wifi_keyboard_row_chars shift r ! c \<in> keyboard_chars"
  by (auto simp: keyboard_chars_def intro!: nth_mem)

lemma append_ok: "wifi_ok w \<Longrightarrow> c \<in> keyboard_chars \<Longrightarrow> wifi_ok (wifi_append_password_char w c)"
  by (auto simp: wifi_append_password_char_def wifi_ok_def key_ok_def wifi_selected_network_is_open_def)

lemma delete_ok: "wifi_ok w \<Longrightarrow> wifi_ok (wifi_delete_password_char w)"
  by (auto simp: wifi_delete_password_char_def wifi_ok_def key_ok_def wifi_selected_network_is_open_def Let_def dest: in_set_butlastD)

lemma command_row [simp]: "UI_WIFI_COMMAND_ROW < UI_WIFI_KEYBOARD_ROWS"
  by (simp add: UI_WIFI_COMMAND_ROW_def UI_WIFI_KEYBOARD_ROWS_def)

lemma key_press_ok:
  assumes ok: "wifi_ok w" and stage: "wf_stage w = WIFI_CONNECT_PASSWORD" and run: "handle_wifi_password_key ev w = (v, started)"
  shows "wifi_ok v \<and> (\<forall>content. started = Some content \<longrightarrow> sent_ok w content)"
proof -
  have key: "key_ok w" "\<not> wifi_selected_network_is_open w" using ok stage by (simp_all add: wifi_ok_def)
  note run = run [unfolded handle_wifi_password_key_def Let_def clamp_id [OF key(1)]]
  consider (shift_key) "wf_key_row w = UI_WIFI_COMMAND_ROW" "wf_key_col w = 0"
    | (space_key) "wf_key_row w = UI_WIFI_COMMAND_ROW" "wf_key_col w = 1"
    | (delete_key) "wf_key_row w = UI_WIFI_COMMAND_ROW" "wf_key_col w = 2"
    | (clear_key) "wf_key_row w = UI_WIFI_COMMAND_ROW" "wf_key_col w = 3"
    | (go_key) "wf_key_row w = UI_WIFI_COMMAND_ROW" "wf_key_col w = 4"
    | (letter_key) "wf_key_row w \<noteq> UI_WIFI_COMMAND_ROW" "wf_key_col w < length (wifi_keyboard_row_chars (wf_key_shift w) (wf_key_row w))"
    using key(1) by (force simp: key_ok_def wifi_keyboard_row_len_def UI_WIFI_COMMAND_COUNT_def split: if_splits)
  then show ?thesis
  proof cases
    case shift_key
    with run have "v = wifi_say (w\<lparr>wf_key_shift := \<not> wf_key_shift w\<rparr>)
        (if \<not> wf_key_shift w then ''Keyboard uppercase'' else ''Keyboard lowercase'')" "started = None" by simp_all
    moreover have "wifi_ok (w\<lparr>wf_key_shift := \<not> wf_key_shift w\<rparr>)"
      using ok row_len_shift [of "wf_key_shift w"] by (simp add: wifi_ok_def key_ok_def wifi_selected_network_is_open_def)
    ultimately show ?thesis by simp
  next
    case space_key
    with run have "v = wifi_append_password_char w CHR '' ''" "started = None" by simp_all
    with append_ok [OF ok, of "CHR '' ''"] show ?thesis by (simp add: keyboard_chars_def)
  next
    case delete_key
    with run have "v = wifi_delete_password_char w" "started = None" by simp_all
    with delete_ok [OF ok] show ?thesis by simp
  next
    case clear_key
    with run have "v = wifi_say (w\<lparr>wf_password := []\<rparr>) ''Password cleared''" "started = None" by simp_all
    moreover have "wifi_ok (w\<lparr>wf_password := []\<rparr>)" using ok by (simp add: wifi_ok_def key_ok_def wifi_selected_network_is_open_def)
    ultimately show ?thesis by simp
  next
    case go_key
    with run have "run_wifi_connect_selected ev w = (v, started)" by simp
    with connect_keeps [OF ok _ this] key(2) show ?thesis by simp
  next
    case letter_key
    with run key(1) have "v = wifi_append_password_char w (wifi_keyboard_row_chars (wf_key_shift w) (wf_key_row w) ! wf_key_col w)"
      "started = None" by (simp_all add: key_ok_def)
    with append_ok [OF ok chars_at [OF letter_key(2)]] show ?thesis by simp
  qed
qed

lemma clamped_ok:
  "wifi_ok w \<Longrightarrow> wf_networks u = wf_networks w \<Longrightarrow> wf_cursor u = wf_cursor w \<Longrightarrow> wf_password u = wf_password w \<Longrightarrow>
   wf_stage u = wf_stage w \<Longrightarrow> wifi_ok (wifi_clamp_key_cursor u)"
  by (simp add: wifi_ok_def clamp_key_ok wifi_selected_network_is_open_def)

lemma password_action_ok:
  assumes ok: "wifi_ok w" and stage: "wf_stage w = WIFI_CONNECT_PASSWORD" and run: "wifi_password_action ev w a = (v, started)"
  shows "wifi_ok v \<and> (\<forall>content. started = Some content \<longrightarrow> sent_ok w content)"
proof (cases "a = ACTION_A")
  case True
  with run have "handle_wifi_password_key ev w = (v, started)" by (simp add: wifi_password_action_def)
  from key_press_ok [OF ok stage this] show ?thesis .
next
  case False
  have select: "wifi_ok (w\<lparr>wf_stage := WIFI_CONNECT_SELECT\<rparr>)" using ok by (simp add: wifi_ok_def)
  from run False have "started = None" "v = w \<or> v = wifi_say (w\<lparr>wf_stage := WIFI_CONNECT_SELECT\<rparr>) ''back to SSID list'' \<or>
      (\<exists>r c. v = wifi_clamp_key_cursor (w\<lparr>wf_key_row := r\<rparr>) \<or> v = wifi_clamp_key_cursor (w\<lparr>wf_key_col := c\<rparr>) \<or> v = wifi_clamp_key_cursor w)"
    unfolding wifi_password_action_def by (auto split: if_split_asm)
  moreover have "wifi_ok (wifi_clamp_key_cursor (w\<lparr>wf_key_row := r\<rparr>))" "wifi_ok (wifi_clamp_key_cursor (w\<lparr>wf_key_col := c\<rparr>))"
      "wifi_ok (wifi_clamp_key_cursor w)" for r c
    by (rule clamped_ok [OF ok]; simp)+
  ultimately show ?thesis using ok select by auto
qed

lemma cursor_ok: "wifi_ok w \<Longrightarrow> wf_stage w = WIFI_CONNECT_SELECT \<Longrightarrow> c < length (wf_networks w) \<or> wf_networks w = [] \<Longrightarrow> wifi_ok (w\<lparr>wf_cursor := c\<rparr>)"
  by (auto simp: wifi_ok_def)

lemma select_action_ok:
  assumes ok: "wifi_ok w" and stage: "wf_stage w = WIFI_CONNECT_SELECT" and run: "wifi_select_action ev window w a = (v, started, left)"
  shows "wifi_ok v \<and> (\<forall>content. started = Some content \<longrightarrow> sent_ok w content)"
proof (cases "a = ACTION_A \<and> wf_cursor w < length (wf_networks w)")
  case True
  let ?w1 = "w\<lparr>wf_password := []\<rparr>"
  have ok1: "wifi_ok ?w1" using ok stage by (simp add: wifi_ok_def)
  show ?thesis
  proof (cases "wifi_selected_network_is_open ?w1")
    case open1: True
    obtain u sent where u: "run_wifi_connect_selected ev ?w1 = (u, sent)" by (cases "run_wifi_connect_selected ev ?w1")
    from run True open1 u have "v = u" "started = sent" by (simp_all add: wifi_select_action_def Let_def)
    with connect_keeps [OF ok1 _ u] show ?thesis by (simp add: sent_ok_def)
  next
    case False
    let ?k = "?w1\<lparr>wf_stage := WIFI_CONNECT_PASSWORD, wf_key_row := 0, wf_key_col := 0, wf_key_shift := False\<rparr>"
    have row: "0 < UI_WIFI_KEYBOARD_ROWS" by (simp add: UI_WIFI_KEYBOARD_ROWS_def)
    have "key_ok ?k" using row_len_pos [OF row, of False] row by (simp add: key_ok_def)
    moreover have "\<not> wifi_selected_network_is_open ?k" using False by (simp add: wifi_selected_network_is_open_def)
    ultimately have "wifi_ok ?k" using ok1 by (simp add: wifi_ok_def)
    moreover from run True False have "v = wifi_say ?k ''Enter Wi-Fi password''" "started = None"
      by (simp_all add: wifi_select_action_def Let_def)
    ultimately show ?thesis by simp
  qed
next
  case False
  have pw: "length (wf_password w) \<le> UI_WIFI_PASSWORD_MAX" "set (wf_password w) \<subseteq> keyboard_chars" using ok by (simp_all add: wifi_ok_def)
  have up: "wifi_ok (w\<lparr>wf_cursor := wf_cursor w - 1\<rparr>)" by (rule cursor_ok [OF ok stage]) (use ok in \<open>auto simp: wifi_ok_def\<close>)
  have down: "wifi_ok (w\<lparr>wf_cursor := wf_cursor w + 1\<rparr>)" if "wf_cursor w + 1 < length (wf_networks w)"
    by (rule cursor_ok [OF ok stage]) (use that in simp)
  have page: "wifi_ok (w\<lparr>wf_cursor := ui_cursor_page_down (wf_cursor w) (length (wf_networks w)) window\<rparr>)"
      "wifi_ok (w\<lparr>wf_cursor := ui_cursor_page_up (wf_cursor w) window\<rparr>)"
    by (rule cursor_ok [OF ok stage]; use ok in \<open>auto simp: wifi_ok_def ui_cursor_page_down_def ui_cursor_page_up_def Let_def\<close>)+
  have scan: "wifi_ok (wifi_scan_networks ev (wifi_say w t))" for t
    using scan_ok [of "wifi_say w t" ev] stage pw by simp
  from run False have "started = None" unfolding wifi_select_action_def by (simp split: if_split_asm)
  moreover have "wifi_ok v"
    using run False up down page scan ok unfolding wifi_select_action_def by (auto split: if_split_asm)
  ultimately show ?thesis by simp
qed

lemma action_ok:
  assumes ok: "wifi_ok w" and run: "handle_wifi_connect_action ev window w a = (v, started, left)"
  shows "wifi_ok v \<and> (\<forall>content. started = Some content \<longrightarrow> sent_ok w content)"
proof (cases "wf_stage w")
  case WIFI_CONNECT_SELECT
  with run have "wifi_select_action ev window w a = (v, started, left)" by (simp add: handle_wifi_connect_action_def)
  from select_action_ok [OF ok WIFI_CONNECT_SELECT this] show ?thesis .
next
  case WIFI_CONNECT_PASSWORD
  obtain u sent where u: "wifi_password_action ev w a = (u, sent)" by (cases "wifi_password_action ev w a")
  with run WIFI_CONNECT_PASSWORD have "v = u" "started = sent" by (simp_all add: handle_wifi_connect_action_def)
  with password_action_ok [OF ok WIFI_CONNECT_PASSWORD u] show ?thesis by simp
next
  case WIFI_CONNECT_RESULT
  with run have "started = None" "v = w \<or> (\<exists>t. v = wifi_say w t)"
    by (auto simp: handle_wifi_connect_action_def split: if_split_asm)
  with ok show ?thesis by auto
qed

definition wifi_press :: "wifi \<Rightarrow> wifi_env \<times> nat \<times> ui_action \<Rightarrow> wifi" where
  "wifi_press w p = (case p of (ev, window, a) \<Rightarrow> fst (handle_wifi_connect_action ev window w a))"

lemma press_ok: "wifi_ok w \<Longrightarrow> wifi_ok (wifi_press w p)"
proof (cases p)
  case (fields ev window a)
  assume ok: "wifi_ok w"
  obtain v started left where "handle_wifi_connect_action ev window w a = (v, started, left)" by (rule prod_cases3)
  with action_ok [OF ok this] show ?thesis by (simp add: wifi_press_def fields)
qed

lemma opened_ok: "wifi_ok (open_wifi_connect_screen ev w)"
proof -
  let ?u = "wifi_say (wifi_clear_result
       (w\<lparr>wf_stage := WIFI_CONNECT_SELECT, wf_key_row := 0, wf_key_col := 0, wf_key_shift := False, wf_password := []\<rparr>))
       ''Scanning Wi-Fi SSIDs''"
  have "wf_stage ?u = WIFI_CONNECT_SELECT" "wf_password ?u = []" by (simp_all add: wifi_clear_result_def)
  then show ?thesis using scan_ok [of ?u ev] by (simp add: open_wifi_connect_screen_def)
qed

text \<open>
  C35: The connection screen is safe to use. After any presses, whatever the scans found and however earlier connections ended, the cursor is
  on a network and the key cursor on a key, and there are at most 64 networks and 64 characters; and when a press starts the script,
  the file it is given is read line by line as the name of a network of the list and the password, which is empty for an open network
  and otherwise has 8 to 64 characters of the keyboard.
\<close>

theorem wifi_starts_with_a_password:
  shows "let w = foldl wifi_press (open_wifi_connect_screen ev0 w0) presses in
    wifi_ok w \<and> (case handle_wifi_connect_action ev window w a of (v, started, left) \<Rightarrow> pred_option (sent_ok w) started)"
proof -
  let ?w = "foldl wifi_press (open_wifi_connect_screen ev0 w0) presses"
  have "wifi_ok u \<Longrightarrow> wifi_ok (foldl wifi_press u presses)" for u
    by (induction presses arbitrary: u) (simp_all add: press_ok)
  from this [OF opened_ok] have ok: "wifi_ok ?w" .
  obtain v started left where run: "handle_wifi_connect_action ev window ?w a = (v, started, left)" by (rule prod_cases3)
  from action_ok [OF ok run] ok run show ?thesis by (simp add: Let_def pred_option_def)
qed

section \<open>Entering a password\<close>

abbreviation at_key :: "wifi \<Rightarrow> nat \<Rightarrow> nat \<Rightarrow> wifi" where
  "at_key w r c \<equiv> w\<lparr>wf_key_row := r, wf_key_col := c\<rparr>"

definition key_press :: "wifi_env \<Rightarrow> nat \<Rightarrow> wifi \<Rightarrow> ui_action \<Rightarrow> wifi" where
  "key_press ev window w a = wifi_press w (ev, window, a)"

lemma key_press_password:
  "wf_stage w = WIFI_CONNECT_PASSWORD \<Longrightarrow> key_press ev window w a = fst (wifi_password_action ev w a)"
  by (simp add: key_press_def wifi_press_def handle_wifi_connect_action_def split: prod.split)

lemma at_key_ok: "key_ok (at_key w r c) \<longleftrightarrow> r < UI_WIFI_KEYBOARD_ROWS \<and> c < wifi_keyboard_row_len (wf_key_shift w) r"
  by (simp add: key_ok_def)

lemma go_column:
  assumes "wf_stage w = WIFI_CONNECT_PASSWORD" and "r < UI_WIFI_KEYBOARD_ROWS" "Suc c < wifi_keyboard_row_len (wf_key_shift w) r"
  shows "leads (key_press ev window) (at_key w r c) (at_key w r (Suc c)) \<and> leads (key_press ev window) (at_key w r (Suc c)) (at_key w r c)"
proof
  have "key_ok (at_key w r (Suc c))" "key_ok (at_key w r c)" using assms by (simp_all add: at_key_ok)
  note clamp_id [OF this(1)] clamp_id [OF this(2)]
  then show "leads (key_press ev window) (at_key w r c) (at_key w r (Suc c))" "leads (key_press ev window) (at_key w r (Suc c)) (at_key w r c)"
    using assms by (auto intro: leads_press [where p = ACTION_RIGHT] leads_press [where p = ACTION_LEFT]
        simp: key_press_password wifi_password_action_def)
qed

lemma key_swap: "w\<lparr>wf_key_col := c, wf_key_row := r\<rparr> = at_key w r c"
  by simp

lemma go_row:
  assumes "wf_stage w = WIFI_CONNECT_PASSWORD" and "Suc r < UI_WIFI_KEYBOARD_ROWS"
  shows "leads (key_press ev window) (at_key w r 0) (at_key w (Suc r) 0) \<and> leads (key_press ev window) (at_key w (Suc r) 0) (at_key w r 0)"
proof
  have "key_ok (at_key w (Suc r) 0)" "key_ok (at_key w r 0)"
    using assms row_len_pos [of "Suc r" "wf_key_shift w"] row_len_pos [of r "wf_key_shift w"] by (simp_all add: at_key_ok)
  note clamp = clamp_id [OF this(1)] clamp_id [OF this(2)]
  show "leads (key_press ev window) (at_key w r 0) (at_key w (Suc r) 0)"
    by (rule leads_press [where p = ACTION_DOWN]) (use assms clamp in \<open>simp add: key_press_password wifi_password_action_def key_swap\<close>)
  show "leads (key_press ev window) (at_key w (Suc r) 0) (at_key w r 0)"
    by (rule leads_press [where p = ACTION_UP]) (use assms clamp in \<open>simp add: key_press_password wifi_password_action_def key_swap\<close>)
qed

lemma go_to_key:
  assumes stage: "wf_stage w = WIFI_CONNECT_PASSWORD" and w: "key_ok w"
    and key: "r < UI_WIFI_KEYBOARD_ROWS" "c < wifi_keyboard_row_len (wf_key_shift w) r"
  shows "leads (key_press ev window) w (at_key w r c)"
proof -
  have column: "leads (key_press ev window) (at_key w r c) (at_key w r c')"
    if "r < UI_WIFI_KEYBOARD_ROWS" "c < wifi_keyboard_row_len (wf_key_shift w) r" "c' < wifi_keyboard_row_len (wf_key_shift w) r" for r c c'
    by (rule leads_walk [of "wifi_keyboard_row_len (wf_key_shift w) r - 1" _ "\<lambda>c. at_key w r c"])
      (use that go_column [OF stage] in auto)
  let ?r = "wf_key_row w" and ?c = "wf_key_col w"
  have rows: "?r < UI_WIFI_KEYBOARD_ROWS" "?c < wifi_keyboard_row_len (wf_key_shift w) ?r" using w by (simp_all add: key_ok_def)
  have zero: "0 < wifi_keyboard_row_len (wf_key_shift w) s" if "s < UI_WIFI_KEYBOARD_ROWS" for s
    using row_len_pos [OF that, of "wf_key_shift w"] by simp
  have "w = at_key w ?r ?c" by simp
  also have "leads (key_press ev window) (at_key w ?r ?c) (at_key w ?r 0)" by (rule column [OF rows zero [OF rows(1)]])
  also have "leads (key_press ev window) (at_key w ?r 0) (at_key w r 0)"
    by (rule leads_walk [of "UI_WIFI_KEYBOARD_ROWS - 1" _ "\<lambda>s. at_key w s 0"]) (use rows key go_row [OF stage] in auto)
  also have "leads (key_press ev window) (at_key w r 0) (at_key w r c)" by (rule column [OF key(1) zero [OF key(1)] key(2)])
  finally show ?thesis .
qed

text \<open>One character: shift when it needs it, and the key.\<close>

definition entering :: "wifi \<Rightarrow> wifi \<Rightarrow> bool" where
  "entering w v \<longleftrightarrow> wf_stage v = WIFI_CONNECT_PASSWORD \<and> key_ok v \<and> wf_networks v = wf_networks w \<and> wf_cursor v = wf_cursor w"

lemma press_A:
  "wf_stage w = WIFI_CONNECT_PASSWORD \<Longrightarrow> key_ok w \<Longrightarrow> key_press ev window w ACTION_A = fst (handle_wifi_password_key ev w)"
  by (simp add: key_press_password wifi_password_action_def)

lemma shift_to:
  assumes "entering w v"
  shows "\<exists>u. leads (key_press ev window) v u \<and> entering w u \<and> wf_key_shift u = b \<and> wf_password u = wf_password v"
proof (cases "wf_key_shift v = b")
  case True
  with assms show ?thesis by (intro exI [of _ v]) simp
next
  case False
  have v: "wf_stage v = WIFI_CONNECT_PASSWORD" "key_ok v" using assms by (simp_all add: entering_def)
  let ?k = "at_key v UI_WIFI_COMMAND_ROW 0"
  have len: "0 < wifi_keyboard_row_len s UI_WIFI_COMMAND_ROW" for s using row_len_pos [of UI_WIFI_COMMAND_ROW s] by simp
  have k: "leads (key_press ev window) v ?k" by (rule go_to_key [OF v _ len]) simp
  have kk: "key_ok ?k" "wf_stage ?k = WIFI_CONNECT_PASSWORD" using v len by (simp_all add: key_ok_def)
  let ?u = "key_press ev window ?k ACTION_A"
  have u: "?u = wifi_say (?k\<lparr>wf_key_shift := \<not> wf_key_shift v\<rparr>) (if \<not> wf_key_shift v then ''Keyboard uppercase'' else ''Keyboard lowercase'')"
    unfolding press_A [OF kk(2,1)] handle_wifi_password_key_def Let_def clamp_id [OF kk(1)] by simp
  have "leads (key_press ev window) v ?u" by (rule leads_trans [OF k leads_press [OF refl]])
  moreover have "entering w ?u" "wf_key_shift ?u = b" "wf_password ?u = wf_password v"
    unfolding u using assms len False by (auto simp: entering_def key_ok_def)
  ultimately show ?thesis by blast
qed

lemma enter_char:
  assumes "entering w v" and "c \<in> keyboard_chars" and "length (wf_password v) < UI_WIFI_PASSWORD_MAX"
  shows "\<exists>u. leads (key_press ev window) v u \<and> entering w u \<and> wf_password u = wf_password v @ [c]"
proof -
  have type_at: "\<exists>u. leads (key_press ev window) v' u \<and> entering w u \<and> wf_password u = wf_password v' @ [c]"
    if v': "entering w v'" "length (wf_password v') < UI_WIFI_PASSWORD_MAX" and k: "r < UI_WIFI_KEYBOARD_ROWS" "i < wifi_keyboard_row_len (wf_key_shift v') r"
      and types: "handle_wifi_password_key ev (at_key v' r i) = (wifi_append_password_char (at_key v' r i) c, None)" for v' r i
  proof -
    let ?k = "at_key v' r i"
    have s: "wf_stage v' = WIFI_CONNECT_PASSWORD" "key_ok v'" using v'(1) by (simp_all add: entering_def)
    have kk: "key_ok ?k" "wf_stage ?k = WIFI_CONNECT_PASSWORD" using k s by (simp_all add: key_ok_def)
    let ?u = "key_press ev window ?k ACTION_A"
    have "leads (key_press ev window) v' ?u" by (rule leads_trans [OF go_to_key [OF s k] leads_press [OF refl]])
    moreover have "?u = wifi_append_password_char ?k c" unfolding press_A [OF kk(2,1)] types by simp
    then have "entering w ?u" "wf_password ?u = wf_password v' @ [c]"
      using v' kk(1) by (simp_all add: entering_def wifi_append_password_char_def key_ok_def)
    ultimately show ?thesis by blast
  qed
  show ?thesis
  proof (cases "c = CHR '' ''")
    case True
    have k: "1 < wifi_keyboard_row_len (wf_key_shift v) UI_WIFI_COMMAND_ROW" using row_len_pos [of UI_WIFI_COMMAND_ROW "wf_key_shift v"] by simp
    then have "key_ok (at_key v UI_WIFI_COMMAND_ROW 1)" by (simp add: key_ok_def)
    from clamp_id [OF this] True have "handle_wifi_password_key ev (at_key v UI_WIFI_COMMAND_ROW 1) =
        (wifi_append_password_char (at_key v UI_WIFI_COMMAND_ROW 1) c, None)"
      by (simp add: handle_wifi_password_key_def Let_def)
    from type_at [OF assms(1,3) command_row k this] show ?thesis .
  next
    case False
    with assms(2) obtain b r where "c \<in> set (wifi_keyboard_row_chars b r)" by (auto simp: keyboard_chars_def)
    then obtain i where i: "i < length (wifi_keyboard_row_chars b r)" "wifi_keyboard_row_chars b r ! i = c" by (auto simp: in_set_conv_nth)
    then have r: "r < UI_WIFI_COMMAND_ROW" by (simp add: wifi_keyboard_row_chars_def split: if_splits)
    then have r7: "r < UI_WIFI_KEYBOARD_ROWS" using command_row by linarith
    have len: "i < wifi_keyboard_row_len b r" using i(1) r r7 by (simp add: wifi_keyboard_row_len_def)
    obtain v' where v': "leads (key_press ev window) v v'" "entering w v'" "wf_key_shift v' = b" "wf_password v' = wf_password v"
      using shift_to [OF assms(1)] by blast
    have "key_ok (at_key v' r i)" using r7 len v'(3) by (simp add: key_ok_def)
    from clamp_id [OF this] have "handle_wifi_password_key ev (at_key v' r i) = (wifi_append_password_char (at_key v' r i) c, None)"
      using i r r7 v'(3) by (simp add: handle_wifi_password_key_def Let_def)
    from type_at [OF v'(2) _ r7 _ this] len v' assms(3) obtain u where
      "leads (key_press ev window) v' u" "entering w u" "wf_password u = wf_password v' @ [c]" by auto
    with v' leads_trans [OF v'(1)] show ?thesis by auto
  qed
qed

text \<open>
  C36: Every password of the characters of the keyboard, upper and lower case, digits, signs and the space, with at most 64 of them, can be
  entered: from the start of the keyboard there are presses that lead to it and leave the network selected and the keyboard open.
\<close>

theorem every_password_can_be_entered:
  assumes "wf_stage w = WIFI_CONNECT_PASSWORD" and "key_ok w" and "wf_password w = []"
    and "set password \<subseteq> keyboard_chars" and "length password \<le> 64"
  shows "\<exists>actions. let v = foldl (key_press ev window) w actions in
    wf_password v = password \<and> wf_stage v = WIFI_CONNECT_PASSWORD \<and> wf_networks v = wf_networks w \<and> wf_cursor v = wf_cursor w"
proof -
  have "\<exists>v. leads (key_press ev window) w v \<and> entering w v \<and> wf_password v = password"
    using assms(4,5)
  proof (induction password rule: rev_induct)
    case Nil
    have "entering w w" using assms(1,2) by (simp add: entering_def)
    with assms(3) show ?case by (intro exI [of _ w]) simp
  next
    case (snoc c p)
    then obtain v where v: "leads (key_press ev window) w v" "entering w v" "wf_password v = p" by auto
    with snoc.prems have "c \<in> keyboard_chars" "length (wf_password v) < UI_WIFI_PASSWORD_MAX" by (simp_all add: UI_WIFI_PASSWORD_MAX_def)
    from enter_char [OF v(2) this] obtain u where "leads (key_press ev window) v u" "entering w u" "wf_password u = p @ [c]"
      using v(3) by blast
    with leads_trans [OF v(1)] show ?case by blast
  qed
  then show ?thesis by (auto simp: leads_def entering_def Let_def)
qed

definition demo_wifi :: wifi where
  "demo_wifi = \<lparr>wf_networks = [\<lparr>wn_ssid = ''home'', wn_security = ''secured'', wn_signal = ''-40''\<rparr>], wf_cursor = 0,
     wf_stage = WIFI_CONNECT_PASSWORD, wf_key_row = 0, wf_key_col = 0, wf_key_shift = False, wf_password = [], wf_result_title = [],
     wf_result_ip = [], wf_result_gateway = [], wf_result_gateway_ping = [], wf_result_stage = [], wf_result_success = False,
     wf_enabled = False, wf_status = []\<rparr>"

definition demo_wifi_env :: wifi_env where
  "demo_wifi_env = \<lparr>we_script = (True, True), we_scan = None, we_temp = Temp_ok, we_connect = \<lambda>_. None, we_save_ok = True\<rparr>"

theorem every_password_can_be_entered_witness:
  "\<exists>actions. wf_password (foldl (key_press demo_wifi_env 10) demo_wifi actions) = ''Zx 9''"
proof -
  have key: "key_ok demo_wifi" using row_len_pos [of 0 False] by (simp add: key_ok_def demo_wifi_def UI_WIFI_KEYBOARD_ROWS_def)
  have row: "set (wifi_keyboard_row_chars b r) \<subseteq> keyboard_chars" for b r by (auto simp: keyboard_chars_def)
  have "CHR ''Z'' \<in> set (wifi_keyboard_row_chars True 3)" "CHR ''x'' \<in> set (wifi_keyboard_row_chars False 3)"
      "CHR ''9'' \<in> set (wifi_keyboard_row_chars False 0)"
    by (simp_all add: wifi_keyboard_row_chars_def UI_WIFI_COMMAND_ROW_def WIFI_KEYBOARD_ROWS_LOWER_def WIFI_KEYBOARD_ROWS_UPPER_def)
  then have "set ''Zx 9'' \<subseteq> keyboard_chars" using row by (auto simp: keyboard_chars_def)
  from every_password_can_be_entered [OF _ key _ this, of demo_wifi_env 10] show ?thesis by (auto simp: demo_wifi_def Let_def)
qed

section \<open>What is left out\<close>

text \<open>Ten printable characters, all allowed in a passphrase, have no key.\<close>

theorem characters_without_key:
  \<open>set '',;<>^{|}~'' \<inter> keyboard_chars = {} \<and> CHR 0x60 \<notin> keyboard_chars\<close>
proof -
  have rows: \<open>\<forall>c \<in> set (wifi_keyboard_row_chars shift row). c \<notin> set '',;<>^{|}~'' \<and> c \<noteq> CHR 0x60\<close> for shift row
  proof (cases "row < UI_WIFI_KEYBOARD_ROWS")
    case True
    from seven [OF this] show ?thesis
      by (elim insertE emptyE; cases shift) (simp_all add: wifi_keyboard_row_chars_def UI_WIFI_COMMAND_ROW_def
          WIFI_KEYBOARD_ROWS_LOWER_def WIFI_KEYBOARD_ROWS_UPPER_def)
  next
    case False
    then show ?thesis by (simp add: wifi_keyboard_row_chars_def UI_WIFI_KEYBOARD_ROWS_def UI_WIFI_COMMAND_ROW_def)
  qed
  have \<open>c \<notin> set '',;<>^{|}~'' \<and> c \<noteq> CHR 0x60\<close> if "c \<in> keyboard_chars" for c
  proof (cases "c = CHR '' ''")
    case False
    with that obtain shift row where "c \<in> set (wifi_keyboard_row_chars shift row)" by (auto simp: keyboard_chars_def)
    with rows show ?thesis by blast
  qed simp
  then show ?thesis by blast
qed

text \<open>When the script cannot be started, the result goes on saying that it is connecting.\<close>

theorem failed_start_shows_connecting:
  assumes "we_connect ev content = None" and "wifi_write_connect_tempfile ev w = (w, Some content)"
    and "wifi_selected_network_is_open w" and "we_script ev = (True, True)"
  shows "wf_result_title (fst (run_wifi_connect_selected ev w)) = ''Connecting...'' \<and>
    wf_stage (fst (run_wifi_connect_selected ev w)) = WIFI_CONNECT_RESULT"
proof -
  have "\<not> length (wf_networks w) \<le> wf_cursor w" using assms(3) by (simp add: wifi_selected_network_is_open_def)
  with assms show ?thesis by (simp add: run_wifi_connect_selected_def wifi_say_def Let_def)
qed

end
