(* ===== verification/Spec2Isabelle.thy ===== *)
theory Spec2Isabelle
  imports ScanIndexProofs TextPlanProofs TextOverridesFile ExecGuardProofs VolumeKeysProofs DrmMaster GgfeArtProofs GgfeLaunchProofs ConfigEditProofs UiFavsInterop UiBackProofs BootProofs DrasticMmap PyxelFitProofs UiInputProofs UiCursorProofs ManualTimeProofs UiNavProofs UiWifiProofs
begin

text \<open>
  Verification of the plumOS frontend: the C programs that list the games of a handheld console, start them, keep its settings and
  answer its keys. The paths below are those of the repository under \<open>src/\<close>.

  The program. A boot-time frontend (\<open>src/frontend/plumos_frontend.c\<close>) resumes the last game and takes stock of the card. A library scanner
  (\<open>plumos_library_scan.c\<close>) walks the card and writes an index of the games. Two user interfaces work on that index and on shared files of
  favorites, recent games and overrides: a text UI (\<open>plumos_text_ui.c\<close>), which also builds the shell command that starts a game, and the
  controller UI (\<open>plumos_controller_ui.c\<close>), whose START menu holds the settings. A third frontend shows Game Gear cartridges; what it decides
  is in two headers (\<open>plumos_ggfe_art.h\<close>, \<open>plumos_ggfe_launch.h\<close>). While a game runs, services (\<open>src/services\<close>) pass the display from one
  program to another (\<open>plumos_drm_broker_run.c\<close>, \<open>plumos_drm_share.c\<close>, \<open>plumos_drm_master.c\<close>) and turn the volume and power keys into
  calls of scripts (\<open>plumos_bubble_volume_keys.c\<close>); libraries preloaded into games keep the environment of a session
  (\<open>plumos_portmaster_exec_guard.c\<close>), the memory of an emulator (\<open>drastic-mmap-compat.c\<close>) and the size of a picture
  (\<open>plumos_pyxel_fit.c\<close>). The parts meet in files: JSON read by a textual reader (\<open>plumos_json.h\<close>) and replaced as a whole by a rename.

  How the code is modelled. A C string is a list of characters without its terminator, a buffer its size and content, so that every cut at the
  end of a buffer is written out (\<open>stored\<close>). An array with a counter is the list of its live entries; where a routine leaves old bytes in a
  slot the slots behind the counter are kept (theory Tables). Routines that fill a structure return a status with the new value. The
  operating system is a record of its answers (\<open>os\<close>: stat, readdir, realpath, file contents, environment variables). Writing takes
  a record of the answers of the calls (\<open>store_env\<close>) and returns every disk the calls go through, since the power may fail between any two;
  \<open>after_crash\<close> is what a later start finds. A disk maps a path to content and to whether it has reached the medium. A service is a
  function from its state and the answers of one turn of its loop to its new state and the events of the turn. Integers that may wrap are
  words or carry their width, others are unbounded. \<open>qsort\<close> is an insertion sort.

  The theories, from the bottom:

  CPrelude, Decimal: C strings, \<open>ctype.h\<close>, \<open>strtol\<close>, \<open>printf\<close> of numbers, the operating system. Presses: sequences of key presses. Binary32:
  single precision numbers. PathLib: \<open>plumos_path.h\<close>. Tables: fixed tables with a counter.

  JsonLib: \<open>plumos_json.h\<close> and the writers of strings. JsonText, JsonSearch, JsonObjects, JsonTable, JsonRange, JsonRows: what this reader
  finds in texts that the writers make, from one string up to a file with arrays of objects.

  TextValid, TextShell, TextCore, TextRows, TextFavs, TextOverrides, TextPlan, TextStore: \<open>plumos_text_ui.c\<close>, by subject: checks of input
  (\<open>valid_*\<close>), shell command lines (\<open>append_shell_quoted\<close>) with a model of the shell that splits them, launch profiles, favorites and recent
  games, overrides, launch plans (\<open>build_launch_plan\<close>) and the hotkey daemon, atomic writes (\<open>commit_temp_file\<close>). TextFavsProofs,
  TextOverridesProofs, TextOverridesFile and TextPlanProofs hold what is proved of them.

  ScanConfig, ScanWalk, ScanIndex: \<open>plumos_library_scan.c\<close>: the systems, the walk (\<open>scan_dir_recursive\<close> up to \<open>scan_systems\<close>), the index and
  \<open>main\<close>. Proofs in ScanProofs, ScanComplete and ScanIndexProofs.

  GgfeArt, GgfeScan, GgfeLaunch: the headers of the Game Gear frontend. Proofs in GgfeScan, GgfeArtProofs and GgfeLaunchProofs.

  ConfigEdit, UiSettings, UiState, UiSettingIds, UiRoms, UiCursor, UiInput, UiNav, UiWifi, ManualTime: \<open>plumos_controller_ui.c\<close>: editing one
  key of a configuration, the settings, the state of the screens, lists of games and favorites, cursors and the gallery's animation, the
  events of the keys, navigation, joining a network, setting the clock. JsonValues, ConfigEditProofs and the theories whose names end in
  Proofs hold what is proved; UiFavsInterop relates the two user interfaces.

  BootFrontend, BootProofs: \<open>plumos_frontend.c\<close>. ServiceLib, ExecGuard, DrmBroker, DrmMaster, VolumeKeys, DrasticMmap, PyxelFit with
  their proofs: the services and the preloaded libraries.

  Interfaces. The locale \<open>appender\<close> (CPrelude) is the contract of the bounded appends, interpreted for plain text, quoted text and
  pieces of a command; \<open>comparison\<close> that of the functions given to \<open>qsort\<close>, interpreted for systems, games and cartridges; \<open>keyed_store\<close>
  (Tables) that of tables read and written by a key, interpreted for favorites and for the overrides of the text UI and of the Game Gear
  frontend; \<open>json_table\<close> (JsonTable) that between the writer and the reader of a kind of entry, interpreted for favorites, recent games and both
  kinds of overrides; \<open>walk_invariant\<close> (ScanProofs) that of a property every step of the scanner keeps; \<open>trace_invariant\<close> and
  \<open>monitored\<close> (ServiceLib) those of a service whose trace is watched, interpreted for the broker and the key daemon; \<open>rounding\<close> (Binary32)
  that of floating-point arithmetic.

  What is shown. Files: what is saved is read back, and a restart at any moment of a save finds the old file or the new one (favorites,
  overrides, settings, configuration); for the favorites of both user interfaces this needs that no write fails before the last flush, since
  the code does not look at the results of its writes. Commands: what a launch or resume command line makes of paths and arguments is read by
  the shell as exactly the intended words. The scan: it ends, lists exactly what the rules admit, each game once, and leaves no directory of
  a selected system out. Choices: an override takes effect and only for its game, the sources of a launch profile are asked in the
  documented order. Screens: every game can be reached, going back restores the place, cursors stay on entries, repetitions are bounded and
  belong to held keys, B leads back. Services: the order and the timing of saves and repeats, who holds the display and that it is given
  back. Several theorems show a defect instead, with the inputs that lead to it; they say so in their text.

  Bounds and fuel. The sizes of buffers and tables are those of the source. Recursions over the file system carry fuel: a walk goes one component deeper
  with each step and a path is cut at 4096 bytes, so \<open>scan_ends\<close> shows that this fuel is never used up; the walk for cartridges has the depth
  limit of the code. Loops over a text recurse on the rest of the text, those over turns on the list of turns; \<open>broker_loop\<close> and \<open>vk_loop\<close> return None
  while the list has not come to their end, and the theorems about their end are about every list that does. Loops with a bound in the
  code (the polls in \<open>stop_safe_hotkeyd\<close>) count it down.

  Not modelled: drawing (\<open>plumos_fbdev_renderer.h\<close>, \<open>plumos_cart3d.h\<close>, \<open>plumos_ggfe_model.h\<close>, and the drawing, themes and translations of the user
  interfaces), since no decision depends on it; the threads and the event loop of \<open>plumos_ggfe.c\<close>; fork and exec, whose results are
  parameters; running out of memory, except in the execution guard; log messages; the tools under \<open>src/scripts\<close>. \<open>PROJECT.json\<close> lists every
  part.
\<close>

end
